(* ===== verification/Prelude.thy ===== *)
theory Prelude
  imports Main "HOL-Library.Word" "HOL-Library.Signed_Division" "HOL-Library.AList"
begin

text \<open>
  Shared vocabulary of the development: Python's exceptions as a datatype, results that may
  raise as \<open>error + 'a\<close> with a sequencing operator, loops over lists that may raise,
  dictionaries in insertion order (\<open>AList.update\<close> keeps the position of a key that is
  already there and appends a new one, as a Python \<open>dict\<close> does), little-endian byte
  strings, and the facts on masks and two's complement that the components share.
\<close>

unbundle bit_operations_syntax

named_theorems err_simps \<open>sequencing of results that may raise\<close>
named_theorems mask_simps \<open>masks and two's complement on unbounded integers\<close>
named_theorems instr_defs \<open>the predicates of an instruction\<close>

section \<open>Exceptions\<close>

text \<open>
  One constructor per exception class the modelled code raises, with the part of the message
  that tells the raising places apart. \<open>SystemExit\<close> is a call of \<open>exit(1)\<close>; \<open>SpecError\<close> is the
  refusal of a policy.
\<close>

datatype error =
    IndexError
  | KeyError
  | AttributeError
  | TypeError
  | AssertionError string
  | ValueError string
  | RuntimeError string
  | LinkError string
  | TrackError string
  | SystemExit string
  | OverflowError
  | SpecError string

type_synonym 'a res = "error + 'a"

definition ebind :: "'a res \<Rightarrow> ('a \<Rightarrow> 'b res) \<Rightarrow> 'b res" where
  "ebind m f = (case m of Inl e \<Rightarrow> Inl e | Inr x \<Rightarrow> f x)"

definition eassert :: "bool \<Rightarrow> error \<Rightarrow> unit res" where
  "eassert b e = (if b then Inr () else Inl e)"

definition of_option :: "error \<Rightarrow> 'a option \<Rightarrow> 'a res" where
  "of_option e x = (case x of None \<Rightarrow> Inl e | Some y \<Rightarrow> Inr y)"

definition is_ok :: "'a res \<Rightarrow> bool" where
  "is_ok m = (case m of Inl _ \<Rightarrow> False | Inr _ \<Rightarrow> True)"

lemma ebind_Inr [simp, err_simps]: "ebind (Inr x) f = f x"
  and ebind_Inl [simp, err_simps]: "ebind (Inl e) f = Inl e"
  by (simp_all add: ebind_def)

lemma ebind_eq_Inr [err_simps]:
  "ebind m f = Inr y \<longleftrightarrow> (\<exists>x. m = Inr x \<and> f x = Inr y)"
  by (cases m) (simp_all add: ebind_def)

lemma ebind_InrE [elim?]:
  assumes "ebind m f = Inr y"
  obtains x where "m = Inr x" and "f x = Inr y"
  using assms by (auto simp: ebind_eq_Inr)

lemma eassert_eq_Inr [simp, err_simps]: "eassert b e = Inr u \<longleftrightarrow> b"
  by (simp add: eassert_def)

lemma eassert_True [simp]: "eassert True e = Inr ()"
  and eassert_False [simp]: "eassert False e = Inl e"
  by (simp_all add: eassert_def)

lemma of_option_eq_Inr [simp, err_simps]: "of_option e x = Inr y \<longleftrightarrow> x = Some y"
  by (cases x) (simp_all add: of_option_def)

lemma of_option_simps [simp]: "of_option e None = Inl e" "of_option e (Some y) = Inr y"
  by (simp_all add: of_option_def)

lemma is_ok_simps [simp]: "is_ok (Inr x)" "\<not> is_ok (Inl e)"
  by (simp_all add: is_ok_def)

section \<open>Loops that may raise\<close>

fun efoldl :: "('s \<Rightarrow> 'a \<Rightarrow> 's res) \<Rightarrow> 's \<Rightarrow> 'a list \<Rightarrow> 's res" where
  "efoldl f s [] = Inr s"
| "efoldl f s (x # xs) = ebind (f s x) (\<lambda>s'. efoldl f s' xs)"

fun emap :: "('a \<Rightarrow> 'b res) \<Rightarrow> 'a list \<Rightarrow> 'b list res" where
  "emap f [] = Inr []"
| "emap f (x # xs) = ebind (f x) (\<lambda>y. ebind (emap f xs) (\<lambda>ys. Inr (y # ys)))"

lemma efoldl_append:
  "efoldl f s (xs @ ys) = ebind (efoldl f s xs) (\<lambda>s'. efoldl f s' ys)"
proof (induction xs arbitrary: s)
  case (Cons x xs)
  then show ?case by (cases "f s x") simp_all
qed simp

lemma efoldl_invariant:
  assumes "efoldl f s xs = Inr s'" and "P s"
    and "\<And>s x s'. P s \<Longrightarrow> x \<in> set xs \<Longrightarrow> f s x = Inr s' \<Longrightarrow> P s'"
  shows "P s'"
  using assms(1,2,3)
proof (induction xs arbitrary: s)
  case (Cons x xs)
  from Cons.prems(1) obtain t where t: "f s x = Inr t" and r: "efoldl f t xs = Inr s'"
    by (auto simp: ebind_eq_Inr)
  have "P t" by (rule Cons.prems(3) [OF Cons.prems(2) _ t]) simp
  from r this show ?case by (rule Cons.IH) (use Cons.prems(3) in auto)
qed simp

lemma efoldl_upt_invariant:
  assumes "efoldl f s [0..<m] = Inr s'" and "P 0 s"
    and "\<And>k s t. k < m \<Longrightarrow> P k s \<Longrightarrow> f s k = Inr t \<Longrightarrow> P (Suc k) t"
  shows "P m s'"
  using assms
proof (induction m arbitrary: s')
  case (Suc m)
  from Suc.prems(1) obtain t where "efoldl f s [0..<m] = Inr t" and step: "f t m = Inr s'"
    by (auto simp: efoldl_append ebind_eq_Inr)
  with Suc have "P m t" by auto
  with step Suc.prems(3) show ?case by auto
qed simp

lemma emap_length: "emap f xs = Inr ys \<Longrightarrow> length ys = length xs"
  by (induction xs arbitrary: ys) (auto simp: ebind_eq_Inr)

lemma emap_nth:
  "emap f xs = Inr ys \<Longrightarrow> i < length xs \<Longrightarrow> f (xs ! i) = Inr (ys ! i)"
proof (induction xs arbitrary: ys i)
  case (Cons x xs)
  then show ?case by (cases i) (auto simp: ebind_eq_Inr)
qed simp

text \<open>A loop that never raises, and one that simulates another.\<close>

lemma efoldl_total:
  assumes "\<And>s x. x \<in> set xs \<Longrightarrow> \<exists>s'. f s x = Inr s'"
  shows "\<exists>s'. efoldl f s xs = Inr s'"
  using assms
proof (induction xs arbitrary: s)
  case (Cons x xs)
  from Cons.prems [of x s] obtain t where "f s x = Inr t" by auto
  with Cons.IH [of t] Cons.prems show ?case by auto
qed simp

lemma efoldl_related:
  assumes "efoldl f s xs = Inr s'" and "R s a"
    and "\<And>s x s' a. x \<in> set xs \<Longrightarrow> R s a \<Longrightarrow> f s x = Inr s' \<Longrightarrow> R s' (g a x)"
  shows "R s' (foldl g a xs)"
  using assms
proof (induction xs arbitrary: s a)
  case (Cons x xs)
  from Cons.prems(1) obtain t where t: "f s x = Inr t" "efoldl f t xs = Inr s'" by (auto simp: ebind_eq_Inr)
  have "R t (g a x)" by (rule Cons.prems(3) [OF _ Cons.prems(2) t(1)]) simp
  from Cons.IH [OF t(2) this] Cons.prems(3) show ?case by simp
qed simp

lemma emap_total:
  assumes "\<And>x. x \<in> set xs \<Longrightarrow> \<exists>y. f x = Inr y"
  shows "\<exists>ys. emap f xs = Inr ys"
  using assms
proof (induction xs)
  case (Cons x xs)
  from Cons.prems [of x] obtain y where "f x = Inr y" by auto
  with Cons.IH Cons.prems show ?case by auto
qed simp

text \<open>Steps that do nothing may be left out.\<close>

lemma foldl_filter:
  assumes "\<And>a x. x \<in> set xs \<Longrightarrow> \<not> P x \<Longrightarrow> g a x = a"
  shows "foldl g a xs = foldl g a (filter P xs)"
  using assms by (induction xs arbitrary: a) auto

section \<open>Dictionaries in insertion order\<close>

abbreviation dict_get :: "('k \<times> 'v) list \<Rightarrow> 'k \<Rightarrow> 'v option" where
  "dict_get \<equiv> map_of"

abbreviation dict_set :: "'k \<Rightarrow> 'v \<Rightarrow> ('k \<times> 'v) list \<Rightarrow> ('k \<times> 'v) list" where
  "dict_set \<equiv> AList.update"

definition dict_get_default :: "('k \<times> 'v) list \<Rightarrow> 'k \<Rightarrow> 'v \<Rightarrow> 'v" where
  "dict_get_default d k v = (case map_of d k of None \<Rightarrow> v | Some x \<Rightarrow> x)"

lemma dict_get_set [simp]: "dict_get (dict_set k v d) k' = (if k' = k then Some v else dict_get d k')"
  by (simp add: update_conv')

section \<open>Lists\<close>

text \<open>The position of the first element that satisfies a predicate, as \<open>next(...)\<close> finds it.\<close>

fun find_idx :: "('a \<Rightarrow> bool) \<Rightarrow> 'a list \<Rightarrow> nat option" where
  "find_idx p [] = None"
| "find_idx p (x # xs) = (if p x then Some 0 else map_option Suc (find_idx p xs))"

lemma find_idx_SomeD:
  "find_idx p xs = Some i \<Longrightarrow> i < length xs \<and> p (xs ! i) \<and> (\<forall>j < i. \<not> p (xs ! j))"
proof (induction xs arbitrary: i)
  case (Cons x xs)
  show ?case
  proof (cases "p x")
    case False
    with Cons.prems obtain k where "i = Suc k" "find_idx p xs = Some k" by auto
    with Cons.IH [of k] False show ?thesis by (auto simp: less_Suc_eq_0_disj)
  qed (use Cons.prems in auto)
qed simp

lemma find_idx_None_iff: "find_idx p xs = None \<longleftrightarrow> (\<forall>x \<in> set xs. \<not> p x)"
  by (induction xs) auto

lemma find_SomeD: "find p xs = Some x \<Longrightarrow> x \<in> set xs \<and> p x"
  by (auto simp: find_Some_iff)

section \<open>Indexing and printing\<close>

text \<open>\<open>xs[k]\<close>: a negative index counts from the end.\<close>

definition py_index :: "'a list \<Rightarrow> int \<Rightarrow> nat option" where
  "py_index xs k =
     (if 0 \<le> k \<and> k < int (length xs) then Some (nat k)
      else if k < 0 \<and> - int (length xs) \<le> k then Some (nat (int (length xs) + k))
      else None)"

definition py_nth :: "'a list \<Rightarrow> int \<Rightarrow> 'a res" where
  "py_nth xs k = (case py_index xs k of None \<Rightarrow> Inl IndexError | Some i \<Rightarrow> Inr (xs ! i))"

lemma py_index_less: "py_index xs k = Some i \<Longrightarrow> i < length xs"
  by (auto simp: py_index_def split: if_splits)

lemma py_nth_nat [simp]: "i < length xs \<Longrightarrow> py_nth xs (int i) = Inr (xs ! i)"
  by (simp add: py_nth_def py_index_def)

text \<open>Decimal printing, for the names of solver constants.\<close>

fun show_nat :: "nat \<Rightarrow> string" where
  "show_nat n = (if n < 10 then [char_of (48 + n)] else show_nat (n div 10) @ [char_of (48 + n mod 10)])"

declare show_nat.simps [simp del]

definition show_int :: "int \<Rightarrow> string" where
  "show_int k = (if k < 0 then ''-'' @ show_nat (nat (- k)) else show_nat (nat k))"

text \<open>\<open>x.bit_length()\<close> of a natural number.\<close>

fun bit_length :: "nat \<Rightarrow> nat" where
  "bit_length n = (if n = 0 then 0 else Suc (bit_length (n div 2)))"

declare bit_length.simps [simp del]

lemma bit_length_bound: "n < 2 ^ bit_length n"
proof (induction n rule: bit_length.induct)
  case (1 n)
  show ?case
  proof (cases "n = 0")
    case False
    with 1 have "n div 2 < 2 ^ bit_length (n div 2)" by simp
    with False show ?thesis by (subst bit_length.simps) simp
  qed simp
qed

lemma bit_length_0 [simp]: "bit_length 0 = 0"
  by (simp add: bit_length.simps)

section \<open>Masks and two's complement on unbounded integers\<close>

text \<open>
  Python's \<open>&\<close>, \<open>|\<close>, \<open>^\<close>, \<open><<\<close> and \<open>>>\<close> on unbounded integers are
  \<open>AND\<close>, \<open>OR\<close>, \<open>XOR\<close>, \<open>push_bit\<close> and \<open>drop_bit\<close> on \<open>int\<close>.
\<close>

definition pymask :: "nat \<Rightarrow> int" where
  "pymask bits = push_bit bits 1 - 1"

lemma pymask_eq_mask: "pymask bits = mask bits"
  by (simp add: pymask_def mask_eq_exp_minus_1)

lemma pymask_eq: "pymask bits = 2 ^ bits - 1"
  by (simp add: pymask_def)

lemma and_pymask [mask_simps]: "x AND pymask bits = x mod 2 ^ bits"
  by (simp add: pymask_eq_mask flip: take_bit_eq_mask take_bit_eq_mod)

lemma and_pymask_take_bit: "x AND pymask bits = take_bit bits x"
  by (simp add: pymask_eq_mask flip: take_bit_eq_mask)

lemma and_numeral_mask:
  "x AND 0xFFFFFFFF = take_bit 32 (x::int)"
  "x AND 0xFFFF = take_bit 16 (x::int)"
  "x AND 0xFF = take_bit 8 (x::int)"
  by (simp_all add: take_bit_eq_mask mask_eq_exp_minus_1)

text \<open>\<open>u - (1 << bits) if u >> (bits - 1) else u\<close>, for a \<open>u\<close> already masked.\<close>

definition to_signed :: "nat \<Rightarrow> int \<Rightarrow> int" where
  "to_signed bits u = (if drop_bit (bits - 1) u \<noteq> 0 then u - push_bit bits 1 else u)"

lemma to_signed_eq:
  assumes "0 < bits"
  shows "to_signed bits (take_bit bits u) = signed_take_bit (bits - 1) u"
proof -
  obtain b where b: "bits = Suc b" using assms by (cases bits) auto
  have "drop_bit b (take_bit (Suc b) u) = of_bool (bit u b)"
    by (simp add: drop_bit_take_bit bit_iff_odd_drop_bit mod_2_eq_odd)
  then show ?thesis
    by (simp add: to_signed_def b signed_take_bit_eq_take_bit_minus)
qed

lemma to_signed_word:
  "to_signed LENGTH('a) (uint (w :: 'a::len word)) = sint w"
proof -
  have "sint w = signed_take_bit (LENGTH('a) - 1) (uint w)" by (simp add: sint_uint)
  also have "\<dots> = to_signed LENGTH('a) (take_bit LENGTH('a) (uint w))"
    by (rule to_signed_eq [symmetric]) simp
  finally show ?thesis by (simp add: bintr_uint)
qed

section \<open>Little-endian byte strings\<close>

type_synonym byte = "8 word"

text \<open>\<open>int.from_bytes(bs, 'little')\<close> and its signed form.\<close>

fun from_le :: "byte list \<Rightarrow> int" where
  "from_le [] = 0"
| "from_le (b # bs) = uint b + 256 * from_le bs"

definition from_le_signed :: "byte list \<Rightarrow> int" where
  "from_le_signed bs = (if bs = [] then 0 else to_signed (8 * length bs) (from_le bs))"

text \<open>\<open>x.to_bytes(n, 'little')\<close> for an \<open>x\<close> in range; used by the specifications.\<close>

fun to_le :: "nat \<Rightarrow> int \<Rightarrow> byte list" where
  "to_le 0 x = []"
| "to_le (Suc n) x = word_of_int x # to_le n (x div 256)"

lemma length_to_le [simp]: "length (to_le n x) = n"
  by (induction n arbitrary: x) auto

lemma from_le_bounds: "0 \<le> from_le bs \<and> from_le bs < 2 ^ (8 * length bs)"
proof (induction bs)
  case (Cons b bs)
  have "uint b < 256" using uint_lt2p [of b] by simp
  with Cons show ?case by (simp add: power_add)
qed simp

lemma from_le_to_le: "from_le (to_le n x) = x mod 2 ^ (8 * n)"
proof (induction n arbitrary: x)
  case (Suc n)
  have "uint (word_of_int x :: byte) = x mod 256" by (simp add: uint_word_of_int)
  with Suc have "from_le (to_le (Suc n) x) = x mod 256 + 256 * (x div 256 mod 2 ^ (8 * n))"
    by simp
  also have "\<dots> = x mod (256 * 2 ^ (8 * n))" by (simp add: mod_mult2_eq' algebra_simps zmod_zmult2_eq)
  finally show ?case by (simp add: power_add)
qed simp

lemma from_le_signed_to_le:
  assumes "0 < n" and "- (2 ^ (8 * n - 1)) \<le> x" and "x < 2 ^ (8 * n - 1)"
  shows "from_le_signed (to_le n x) = x"
proof -
  have "from_le_signed (to_le n x) = to_signed (8 * n) (take_bit (8 * n) x)"
    using assms(1) by (auto simp: from_le_signed_def from_le_to_le take_bit_eq_mod
        simp flip: length_0_conv)
  also have "\<dots> = signed_take_bit (8 * n - 1) x"
    using assms(1) by (intro to_signed_eq) simp
  also have "\<dots> = x"
    using assms by (simp add: signed_take_bit_int_eq_self)
  finally show ?thesis .
qed

end
