(* ===== verification/Constants.thy ===== *)
theory Constants
  imports Prelude
begin

text \<open>
  The component \<open>hornet/bpf/constants.py\<close>: the fields of a BPF opcode and their values, the
  access sizes, the table that negates a conditional jump, and \<open>arith\<close>, the constant folder
  that the tracker uses on two known operands.  The numeric constants are abbreviations, so that
  a comparison of an opcode with one of them is a comparison of numerals.
\<close>

section \<open>Opcode fields\<close>

abbreviation (input) OPC_CLASS_MASK :: int where "OPC_CLASS_MASK \<equiv> 0x07"
abbreviation (input) OPC_S_MASK :: int where "OPC_S_MASK \<equiv> 0x08"
abbreviation (input) OPC_CODE_MASK :: int where "OPC_CODE_MASK \<equiv> 0xF0"
abbreviation (input) OPC_SZ_MASK :: int where "OPC_SZ_MASK \<equiv> 0x18"
abbreviation (input) OPC_MODE_MASK :: int where "OPC_MODE_MASK \<equiv> 0xE0"

abbreviation (input) LD :: int where "LD \<equiv> 0x0"
abbreviation (input) LDX :: int where "LDX \<equiv> 0x1"
abbreviation (input) ST :: int where "ST \<equiv> 0x2"
abbreviation (input) STX :: int where "STX \<equiv> 0x3"
abbreviation (input) ALU :: int where "ALU \<equiv> 0x4"
abbreviation (input) JMP :: int where "JMP \<equiv> 0x5"
abbreviation (input) JMP32 :: int where "JMP32 \<equiv> 0x6"
abbreviation (input) ALU64 :: int where "ALU64 \<equiv> 0x7"

abbreviation (input) S_IMM :: int where "S_IMM \<equiv> 0x0"
abbreviation (input) S_REG :: int where "S_REG \<equiv> 0x1"

text \<open>The operation codes carry the prefix of \<open>alu_op_to_str\<close> and \<open>jmp_op_to_str\<close>.\<close>

abbreviation (input) BPF_ADD :: int where "BPF_ADD \<equiv> 0x0"
abbreviation (input) BPF_SUB :: int where "BPF_SUB \<equiv> 0x1"
abbreviation (input) BPF_MUL :: int where "BPF_MUL \<equiv> 0x2"
abbreviation (input) BPF_DIV :: int where "BPF_DIV \<equiv> 0x3"
abbreviation (input) BPF_OR :: int where "BPF_OR \<equiv> 0x4"
abbreviation (input) BPF_AND :: int where "BPF_AND \<equiv> 0x5"
abbreviation (input) BPF_LSH :: int where "BPF_LSH \<equiv> 0x6"
abbreviation (input) BPF_RSH :: int where "BPF_RSH \<equiv> 0x7"
abbreviation (input) BPF_NEG :: int where "BPF_NEG \<equiv> 0x8"
abbreviation (input) BPF_MOD :: int where "BPF_MOD \<equiv> 0x9"
abbreviation (input) BPF_XOR :: int where "BPF_XOR \<equiv> 0xa"
abbreviation (input) BPF_MOV :: int where "BPF_MOV \<equiv> 0xb"
abbreviation (input) BPF_ARSH :: int where "BPF_ARSH \<equiv> 0xc"
abbreviation (input) BPF_END :: int where "BPF_END \<equiv> 0xd"

abbreviation (input) BPF_JA :: int where "BPF_JA \<equiv> 0x0"
abbreviation (input) BPF_JEQ :: int where "BPF_JEQ \<equiv> 0x1"
abbreviation (input) BPF_JGT :: int where "BPF_JGT \<equiv> 0x2"
abbreviation (input) BPF_JGE :: int where "BPF_JGE \<equiv> 0x3"
abbreviation (input) BPF_JSET :: int where "BPF_JSET \<equiv> 0x4"
abbreviation (input) BPF_JNE :: int where "BPF_JNE \<equiv> 0x5"
abbreviation (input) BPF_JSGT :: int where "BPF_JSGT \<equiv> 0x6"
abbreviation (input) BPF_JSGE :: int where "BPF_JSGE \<equiv> 0x7"
abbreviation (input) BPF_CALL :: int where "BPF_CALL \<equiv> 0x8"
abbreviation (input) BPF_EXIT :: int where "BPF_EXIT \<equiv> 0x9"
abbreviation (input) BPF_JLT :: int where "BPF_JLT \<equiv> 0xa"
abbreviation (input) BPF_JLE :: int where "BPF_JLE \<equiv> 0xb"
abbreviation (input) BPF_JSLT :: int where "BPF_JSLT \<equiv> 0xc"
abbreviation (input) BPF_JSLE :: int where "BPF_JSLE \<equiv> 0xd"

abbreviation (input) HELPER_TAIL_CALL :: int where "HELPER_TAIL_CALL \<equiv> 12"

abbreviation (input) IMM :: int where "IMM \<equiv> 0x0"
abbreviation (input) ABS :: int where "ABS \<equiv> 0x1"
abbreviation (input) IND :: int where "IND \<equiv> 0x2"
abbreviation (input) MEM :: int where "MEM \<equiv> 0x3"
abbreviation (input) MEMSX :: int where "MEMSX \<equiv> 0x4"
abbreviation (input) ATOMIC :: int where "ATOMIC \<equiv> 0x6"

definition sz_map :: "int \<Rightarrow> nat option" where
  "sz_map sz =
     (if sz = 0 then Some 4
      else if sz = 1 then Some 2
      else if sz = 2 then Some 1
      else if sz = 3 then Some 8
      else None)"

section \<open>Pointer kinds\<close>

abbreviation (input) PTR_TO_CTX :: int where "PTR_TO_CTX \<equiv> 0x00"
abbreviation (input) PTR_TO_PKT :: int where "PTR_TO_PKT \<equiv> 0x01"
abbreviation (input) PTR_TO_PKT_END :: int where "PTR_TO_PKT_END \<equiv> 0x02"
abbreviation (input) PTR_TO_PKT_META :: int where "PTR_TO_PKT_META \<equiv> 0x03"
abbreviation (input) PTR_TO_STK :: int where "PTR_TO_STK \<equiv> 0x05"
abbreviation (input) PTR_TO_MAP :: int where "PTR_TO_MAP \<equiv> 0x06"
abbreviation (input) PTR_TO_MAP_VALUE :: int where "PTR_TO_MAP_VALUE \<equiv> 0x07"
abbreviation (input) PTR_TO_BSS :: int where "PTR_TO_BSS \<equiv> 0x08"
abbreviation (input) PTR_TO_RODATA :: int where "PTR_TO_RODATA \<equiv> 0x09"
abbreviation (input) PTR_TO_DATA :: int where "PTR_TO_DATA \<equiv> 0x0a"

abbreviation (input) BPF_MAP_TYPE_PROG_ARRAY :: int where "BPF_MAP_TYPE_PROG_ARRAY \<equiv> 3"

section \<open>Negating a conditional jump\<close>

definition swap_jmp_code :: "int \<Rightarrow> int" where
  "swap_jmp_code code =
     (case map_of
        [(BPF_JEQ, BPF_JNE), (BPF_JNE, BPF_JEQ), (BPF_JGT, BPF_JLE), (BPF_JLE, BPF_JGT),
         (BPF_JGE, BPF_JLT), (BPF_JLT, BPF_JGE), (BPF_JSGT, BPF_JSLE), (BPF_JSLE, BPF_JSGT),
         (BPF_JSGE, BPF_JSLT), (BPF_JSLT, BPF_JSGE)] code of
        Some c \<Rightarrow> c | None \<Rightarrow> -1)"

section \<open>Constant folding\<close>

function arith :: "int \<Rightarrow> int \<Rightarrow> int \<Rightarrow> nat \<Rightarrow> bool \<Rightarrow> int" where
  "arith code dst src bits is_signed =
     (let m = pymask bits in
      if code \<in> {BPF_LSH, BPF_RSH, BPF_ARSH} then
        (let amt = nat (src AND (int bits - 1)); u = dst AND m in
         if code = BPF_LSH then push_bit amt u AND m
         else if code = BPF_RSH then drop_bit amt u
         else drop_bit amt (to_signed bits u) AND m)
      else if code \<in> {BPF_DIV, BPF_MOD} then
        (let a = dst AND m; b = src AND m in
         if \<not> is_signed then
           (if code = BPF_DIV then (if b \<noteq> 0 then a div b else 0)
            else (if b \<noteq> 0 then a mod b else a))
         else
           (let sa = to_signed bits a; sb = to_signed bits b in
            if sb = 0 then (if code = BPF_DIV then 0 else a)
            else
              (let mag = (if code = BPF_DIV then \<bar>sa\<bar> div \<bar>sb\<bar> else \<bar>sa\<bar> mod \<bar>sb\<bar>);
                   neg = (if code = BPF_DIV then (sa < 0) \<noteq> (sb < 0) else sa < 0)
               in (if neg then - mag else mag) AND m)))
      else if bits = 32 then arith code (dst AND m) (src AND m) 64 False AND m
      else if code = BPF_ADD then dst + src
      else if code = BPF_SUB then dst - src
      else if code = BPF_MUL then dst * src
      else if code = BPF_OR then dst OR src
      else if code = BPF_AND then dst AND src
      else if code = BPF_NEG then - dst
      else if code = BPF_XOR then dst XOR src
      else 0)"
  by pat_completeness auto
termination
  by (relation "measure (\<lambda>(code, dst, src, bits, is_signed). if bits = 32 then 1 else 0)") auto

declare arith.simps [simp del]

end
