(* ===== verification/Instr.thy ===== *)
theory Instr
  imports Constants
begin

text \<open>
  The component \<open>hornet/bpf/instr.py\<close>: one decoded BPF instruction, its decoding from the
  bytes of the text section and the predicates the later stages ask of it; and the decoding loop
  of \<open>parse_instrs\<close> in \<open>hornet/bpf/loader.py\<close>, which cuts a text section into instructions
  and a placeholder for the second slot of each wide one.  An attribute that Python leaves unset
  for an instruction of another class is 0 here; no modelled code reads one.
\<close>

section \<open>The instruction\<close>

text \<open>What a relocation names: nothing, a map by its number, or a symbol.\<close>

datatype reloc_tag = NoTag | MapTag int | SymTag string

record instr =
  i_idx :: nat
  i_addr :: int
  i_bytecode :: "byte list"
  i_nop :: bool
  i_opcode :: int
  i_opcode_class :: int
  i_opcode_s :: int
  i_opcode_code :: int
  i_opcode_sz :: int
  i_opcode_mode :: int
  i_src_reg :: int
  i_dst_reg :: int
  i_offset :: int
  i_imm :: int
  i_wide_instr :: bool
  i_next_imm :: int
  i_relocated :: bool
  i_reloc_tag :: reloc_tag
  i_reloc_region :: int
  i_rodata_offset :: "int option"
  i_bss_offset :: int

definition blank_instr :: "nat \<Rightarrow> int \<Rightarrow> byte list \<Rightarrow> bool \<Rightarrow> instr" where
  "blank_instr idx addr bc nop =
     \<lparr>i_idx = idx, i_addr = addr, i_bytecode = bc, i_nop = nop, i_opcode = 0,
      i_opcode_class = -1, i_opcode_s = 0, i_opcode_code = 0, i_opcode_sz = 0, i_opcode_mode = 0,
      i_src_reg = 0, i_dst_reg = 0, i_offset = 0, i_imm = 0, i_wide_instr = False,
      i_next_imm = 0, i_relocated = False, i_reloc_tag = NoTag, i_reloc_region = 0,
      i_rodata_offset = None, i_bss_offset = 0\<rparr>"

text \<open>\<open>bytecode[lo:hi]\<close>: a slice never raises.\<close>

definition py_slice :: "nat \<Rightarrow> nat \<Rightarrow> 'a list \<Rightarrow> 'a list" where
  "py_slice lo hi xs = take (hi - lo) (drop lo xs)"

definition parse_bytecode :: "instr \<Rightarrow> instr res" where
  "parse_bytecode ins =
     (let bc = i_bytecode ins in
      if length bc < 2 then Inl IndexError
      else
        let opcode = uint (bc ! 0);
            opcode_class = opcode AND OPC_CLASS_MASK;
            b1 = uint (bc ! 1);
            ins1 = ins\<lparr>i_opcode := opcode, i_opcode_class := opcode_class\<rparr>;
            ins2 =
              (if opcode_class \<in> {ALU, ALU64, JMP, JMP32}
               then ins1\<lparr>i_opcode_s := drop_bit 3 (opcode AND OPC_S_MASK),
                         i_opcode_code := drop_bit 4 (opcode AND OPC_CODE_MASK)\<rparr>
               else ins1);
            ins3 =
              (if opcode_class \<in> {LD, LDX, ST, STX}
               then ins2\<lparr>i_opcode_sz := drop_bit 3 (opcode AND OPC_SZ_MASK),
                         i_opcode_mode := drop_bit 5 (opcode AND OPC_MODE_MASK)\<rparr>
               else ins2);
            ins4 = ins3\<lparr>i_src_reg := drop_bit 4 b1 AND 0x0F, i_dst_reg := b1 AND 0x0F,
                         i_offset := from_le_signed (py_slice 2 4 bc),
                         i_imm := from_le_signed (py_slice 4 8 bc),
                         i_wide_instr := False\<rparr>;
            ins5 =
              (if opcode = 0x18
               then ins4\<lparr>i_wide_instr := True, i_next_imm := from_le (py_slice 8 16 bc)\<rparr>
               else ins4)
        in Inr (ins5\<lparr>i_relocated := False, i_rodata_offset := None, i_bss_offset := 0\<rparr>))"

definition make_instr :: "nat \<Rightarrow> int \<Rightarrow> byte list \<Rightarrow> bool \<Rightarrow> instr res" where
  "make_instr idx addr bc nop =
     (let ins = blank_instr idx addr bc nop in
      if nop then Inr ins else parse_bytecode ins)"

definition set_reloc_tag ::
  "instr \<Rightarrow> reloc_tag \<Rightarrow> int \<Rightarrow> int option \<Rightarrow> int \<Rightarrow> instr" where
  "set_reloc_tag ins tag region rodata_offset bss_offset =
     ins\<lparr>i_relocated := True, i_reloc_tag := tag, i_reloc_region := region,
         i_rodata_offset := rodata_offset, i_bss_offset := bss_offset\<rparr>"

definition is_load :: "instr \<Rightarrow> bool" where
  [instr_defs]: "is_load ins \<longleftrightarrow> i_opcode_class ins \<in> {LD, LDX}"

definition is_store :: "instr \<Rightarrow> bool" where
  [instr_defs]: "is_store ins \<longleftrightarrow> i_opcode_class ins \<in> {ST, STX}"

definition is_alu :: "instr \<Rightarrow> bool" where
  [instr_defs]: "is_alu ins \<longleftrightarrow> i_opcode_class ins \<in> {ALU, ALU64}"

definition is_jump :: "instr \<Rightarrow> bool" where
  [instr_defs]: "is_jump ins \<longleftrightarrow> i_opcode_class ins \<in> {JMP, JMP32}"

definition is_call :: "instr \<Rightarrow> bool" where
  [instr_defs]: "is_call ins \<longleftrightarrow> is_jump ins \<and> i_opcode_code ins = BPF_CALL"

definition is_tail_call :: "instr \<Rightarrow> bool" where
  [instr_defs]: "is_tail_call ins \<longleftrightarrow>
     is_call ins \<and> i_src_reg ins = 0 \<and> i_imm ins = HELPER_TAIL_CALL"

definition is_branch :: "instr \<Rightarrow> bool" where
  [instr_defs]: "is_branch ins \<longleftrightarrow>
     is_jump ins \<and> i_opcode_code ins \<notin> {BPF_JA, BPF_CALL, BPF_EXIT}"

definition is_exit :: "instr \<Rightarrow> bool" where
  [instr_defs]: "is_exit ins \<longleftrightarrow> is_jump ins \<and> i_opcode_code ins = BPF_EXIT"

definition jump_offset :: "instr \<Rightarrow> int" where
  "jump_offset ins =
     (if i_opcode_class ins = JMP32 \<and> i_opcode_code ins = BPF_JA then i_imm ins
      else i_offset ins)"

section \<open>Decoding a text section\<close>

text \<open>
  The loop of \<open>parse_instrs\<close>.  The address of an instruction is \<open>i + base_addr\<close>, with \<open>i\<close>
  counting bytes.  \<open>main_data[size:]\<close> of a short tail is empty, so the loop ends.
\<close>

function decode_text :: "int \<Rightarrow> nat \<Rightarrow> nat \<Rightarrow> byte list \<Rightarrow> instr list res" where
  "decode_text base_addr i idx main_data =
     (if main_data = [] then Inr []
      else
        let size = (if uint (hd main_data) = 0x18 then 16 else 8) in
        ebind (make_instr idx (int i + base_addr) (take size main_data) False) (\<lambda>ins.
        if size = 16 then
          ebind (make_instr (idx + 1) (int (i + 8) + base_addr) [] True) (\<lambda>second.
          ebind (decode_text base_addr (i + 16) (idx + 2) (drop size main_data)) (\<lambda>rest.
          Inr (ins # second # rest)))
        else
          ebind (decode_text base_addr (i + 8) (idx + 1) (drop size main_data)) (\<lambda>rest.
          Inr (ins # rest))))"
  by pat_completeness auto
termination
  by (relation "measure (\<lambda>(b, i, idx, d). length d)") auto

declare decode_text.simps [simp del]

text \<open>The value a wide load puts into its register, as \<open>track_load\<close> assembles it.\<close>

definition wide_value :: "instr \<Rightarrow> int" where
  "wide_value ins =
     (let hi = drop_bit 32 (i_next_imm ins) AND 0xFFFFFFFF
      in push_bit 32 hi OR (i_imm ins AND 0xFFFFFFFF))"

section \<open>The assembler's side: an encoding specification\<close>

definition encode_slot :: "int \<Rightarrow> int \<Rightarrow> int \<Rightarrow> int \<Rightarrow> int \<Rightarrow> byte list" where
  "encode_slot opcode dst src off im =
     [word_of_int opcode, word_of_int (16 * src + dst)] @ to_le 2 off @ to_le 4 im"

definition encode_wide :: "int \<Rightarrow> int \<Rightarrow> int \<Rightarrow> byte list" where
  "encode_wide dst src v =
     encode_slot 0x18 dst src 0 (to_signed 32 (v mod 2 ^ 32)) @
     to_le 4 0 @ to_le 4 (v div 2 ^ 32)"

lemma length_encode [simp]: "length (encode_slot opcode dst src off im) = 8"
  "length (encode_wide dst src v) = 16"
  by (simp_all add: encode_slot_def encode_wide_def)

section \<open>Facts on decoding\<close>

lemma parse_bytecode_frame:
  assumes "parse_bytecode ins = Inr ins'"
  shows "i_idx ins' = i_idx ins" and "i_nop ins' = i_nop ins" and "i_relocated ins' = False"
  using assms by (auto simp: parse_bytecode_def Let_def split: if_splits)

lemma make_instr_idx: "make_instr idx addr bc nop = Inr ins \<Longrightarrow> i_idx ins = idx"
  using parse_bytecode_frame(1) [of "blank_instr idx addr bc nop" ins]
  by (auto simp: make_instr_def Let_def blank_instr_def split: if_splits)

lemma make_instr_nop: "make_instr idx addr bc nop = Inr ins \<Longrightarrow> i_nop ins = nop"
  using parse_bytecode_frame(2) [of "blank_instr idx addr bc nop" ins]
  by (auto simp: make_instr_def Let_def blank_instr_def split: if_splits)

lemma parse_bytecode_bytes:
  assumes "parse_bytecode ins = Inr ins'"
  shows "i_bytecode ins' = i_bytecode ins"
    and "i_wide_instr ins' = (uint (hd (i_bytecode ins)) = 0x18)"
proof -
  have "hd (i_bytecode ins) = i_bytecode ins ! 0"
    using assms by (cases "i_bytecode ins") (auto simp: parse_bytecode_def)
  then show "i_bytecode ins' = i_bytecode ins"
    "i_wide_instr ins' = (uint (hd (i_bytecode ins)) = 0x18)"
    using assms by (auto simp: parse_bytecode_def Let_def split: if_splits)
qed

lemma make_instr_bytes:
  assumes "make_instr idx addr bc False = Inr ins"
  shows "i_bytecode ins = bc" and "i_wide_instr ins = (uint (hd bc) = 0x18)"
  using assms parse_bytecode_bytes [of "blank_instr idx addr bc False" ins]
  by (auto simp: make_instr_def Let_def blank_instr_def)

text \<open>
  Where each decoded instruction comes from: its number is its position, its bytes are those at
  eight times its position, and a placeholder follows a wide instruction.
\<close>

definition placed :: "nat \<Rightarrow> byte list \<Rightarrow> instr list \<Rightarrow> nat \<Rightarrow> bool" where
  "placed idx d instrs k \<longleftrightarrow>
     i_idx (instrs ! k) = idx + k \<and>
     (\<not> i_nop (instrs ! k) \<longrightarrow>
        i_bytecode (instrs ! k) =
          take (if i_wide_instr (instrs ! k) then 16 else 8) (drop (8 * k) d)) \<and>
     (i_nop (instrs ! k) \<longrightarrow> 0 < k \<and> i_wide_instr (instrs ! (k - 1)))"

lemma placed_shift:
  assumes "placed (idx + n) (drop (8 * n) d) rest j" and "length pre = n" and "0 < n"
  shows "placed idx d (pre @ rest) (n + j)"
proof (cases j)
  case 0
  with assms show ?thesis by (auto simp: placed_def nth_append)
next
  case (Suc l)
  with assms show ?thesis by (auto simp: placed_def nth_append algebra_simps)
qed

lemma decode_text_placed:
  "decode_text base i idx d = Inr instrs \<Longrightarrow> k < length instrs \<Longrightarrow> placed idx d instrs k"
proof (induction base i idx d arbitrary: instrs k rule: decode_text.induct)
  case (1 base i idx d)
  show ?case
  proof (cases "d = []")
    case True
    with "1.prems" show ?thesis by (simp add: decode_text.simps)
  next
    case ne: False
    show ?thesis
    proof (cases "uint (hd d) = 0x18")
      case True
      with ne "1.prems"(1) obtain ins second rest where
        m: "make_instr idx (int i + base) (take 16 d) False = Inr ins"
          "make_instr (idx + 1) (int (i + 8) + base) [] True = Inr second"
        and rest: "decode_text base (i + 16) (idx + 2) (drop 16 d) = Inr rest"
        and eq: "instrs = ins # second # rest"
        by (subst (asm) decode_text.simps) (auto simp: ebind_eq_Inr Let_def)
      have IH: "placed (idx + 2) (drop (8 * 2) d) rest j" if "j < length rest" for j
        using "1.IH"(1) [OF ne refl] True rest that by simp
      have w: "i_wide_instr ins" using make_instr_bytes(2) [OF m(1)] True ne by simp
      have "k = 0 \<or> k = 1 \<or> (\<exists>j. k = 2 + j \<and> j < length rest)"
        using "1.prems"(2) eq by (cases k; cases "k - 1") auto
      then show ?thesis
      proof (elim disjE exE conjE)
        assume "k = 0"
        with m w eq show ?thesis
          by (simp add: placed_def make_instr_idx make_instr_nop make_instr_bytes(1))
      next
        assume "k = 1"
        with m w eq show ?thesis by (simp add: placed_def make_instr_idx make_instr_nop)
      next
        fix j assume j: "k = 2 + j" "j < length rest"
        show ?thesis
          using placed_shift [OF IH [OF j(2)], of "[ins, second]"] j eq by simp
      qed
    next
      case nw: False
      with ne "1.prems"(1) obtain ins rest where
        m: "make_instr idx (int i + base) (take 8 d) False = Inr ins"
        and rest: "decode_text base (i + 8) (idx + 1) (drop 8 d) = Inr rest"
        and eq: "instrs = ins # rest"
        by (subst (asm) decode_text.simps) (auto simp: ebind_eq_Inr Let_def)
      have IH: "placed (idx + 1) (drop (8 * 1) d) rest j" if "j < length rest" for j
        using "1.IH"(2) [OF ne refl] nw rest that by simp
      have w: "\<not> i_wide_instr ins" using make_instr_bytes(2) [OF m] nw ne by simp
      have "k = 0 \<or> (\<exists>j. k = 1 + j \<and> j < length rest)"
        using "1.prems"(2) eq by (cases k) auto
      then show ?thesis
      proof (elim disjE exE conjE)
        assume "k = 0"
        with m w eq show ?thesis
          by (simp add: placed_def make_instr_idx make_instr_nop make_instr_bytes(1))
      next
        fix j assume j: "k = 1 + j" "j < length rest"
        show ?thesis using placed_shift [OF IH [OF j(2)], of "[ins]"] j eq by simp
      qed
    qed
  qed
qed

section \<open>Decoding against encoding\<close>

lemma and_small_masks:
  "x AND 1 = x mod (2::int)" "x AND 3 = x mod (4::int)" "x AND 7 = x mod (8::int)"
  "x AND 15 = x mod (16::int)"
proof -
  have "x AND 1 = take_bit 1 x" "x AND 3 = take_bit 2 x" "x AND 7 = take_bit 3 x"
    "x AND 15 = take_bit 4 x"
    by (simp_all add: take_bit_eq_mask mask_eq_exp_minus_1)
  then show "x AND 1 = x mod (2::int)" "x AND 3 = x mod (4::int)" "x AND 7 = x mod (8::int)"
    "x AND 15 = x mod (16::int)"
    by (simp_all add: take_bit_eq_mod)
qed

lemma opcode_fields:
  "drop_bit 3 (x AND 0x08) = x div 8 mod (2::int)" "drop_bit 4 (x AND 0xF0) = x div 16 mod (16::int)"
  "drop_bit 3 (x AND 0x18) = x div 8 mod (4::int)" "drop_bit 5 (x AND 0xE0) = x div 32 mod (8::int)"
  "drop_bit 4 x AND 0xF = x div 16 mod (16::int)"
proof -
  have d: "drop_bit 3 x = x div 8" "drop_bit 4 x = x div 16" "drop_bit 5 x = x div 32"
    by (simp_all add: drop_bit_eq_div)
  have "drop_bit 3 (x AND 0x08) = drop_bit 3 x AND 1" "drop_bit 4 (x AND 0xF0) = drop_bit 4 x AND 15"
    "drop_bit 3 (x AND 0x18) = drop_bit 3 x AND 3" "drop_bit 5 (x AND 0xE0) = drop_bit 5 x AND 7"
    by simp_all
  then show "drop_bit 3 (x AND 0x08) = x div 8 mod (2::int)"
    "drop_bit 4 (x AND 0xF0) = x div 16 mod (16::int)"
    "drop_bit 3 (x AND 0x18) = x div 8 mod (4::int)" "drop_bit 5 (x AND 0xE0) = x div 32 mod (8::int)"
    "drop_bit 4 x AND 0xF = x div 16 mod (16::int)"
    by (simp_all only: d and_small_masks)
qed

lemma parse_bytecode_fields:
  assumes "2 \<le> length (i_bytecode ins)"
  shows "\<exists>ins'. parse_bytecode ins = Inr ins' \<and>
    (let opcode = uint (i_bytecode ins ! 0); b1 = uint (i_bytecode ins ! 1) in
     i_opcode ins' = opcode \<and> i_opcode_class ins' = opcode mod 8 \<and>
     i_dst_reg ins' = b1 mod 16 \<and> i_src_reg ins' = b1 div 16 mod 16 \<and>
     i_offset ins' = from_le_signed (py_slice 2 4 (i_bytecode ins)) \<and>
     i_imm ins' = from_le_signed (py_slice 4 8 (i_bytecode ins)) \<and>
     (opcode = 0x18 \<longrightarrow> i_next_imm ins' = from_le (py_slice 8 16 (i_bytecode ins))) \<and>
     (opcode mod 8 \<in> {ALU, JMP, JMP32, ALU64} \<longrightarrow>
        i_opcode_s ins' = opcode div 8 mod 2 \<and> i_opcode_code ins' = opcode div 16 mod 16) \<and>
     (opcode mod 8 \<in> {LD, LDX, ST, STX} \<longrightarrow>
        i_opcode_sz ins' = opcode div 8 mod 4 \<and> i_opcode_mode ins' = opcode div 32 mod 8))"
  using assms by (simp only: parse_bytecode_def Let_def opcode_fields)
    (simp add: and_small_masks)

lemma uint_byte: "uint (word_of_int x :: byte) = x mod 256"
  by (simp add: uint_word_of_int)

lemma uint_regs_byte:
  assumes "0 \<le> dst" and "dst < 16" and "0 \<le> src" and "src < 16"
  shows "uint (word_of_int (16 * src + dst) :: byte) = 16 * src + dst"
  unfolding uint_byte by (rule mod_pos_pos_trivial) (use assms in linarith)+

lemma decode_encode:
  assumes "0 \<le> opcode" and "opcode < 256" and "opcode \<noteq> 0x18"
    and "0 \<le> dst" and "dst < 16" and "0 \<le> src" and "src < 16"
    and "- (2 ^ 15) \<le> off" and "off < 2 ^ 15" and "- (2 ^ 31) \<le> im" and "im < 2 ^ 31"
  shows "\<exists>ins. make_instr idx addr (encode_slot opcode dst src off im) False = Inr ins \<and>
     i_opcode ins = opcode \<and> i_opcode_class ins = opcode mod 8 \<and>
     i_dst_reg ins = dst \<and> i_src_reg ins = src \<and> i_offset ins = off \<and> i_imm ins = im \<and>
     (opcode mod 8 \<in> {ALU, JMP, JMP32, ALU64} \<longrightarrow>
        i_opcode_s ins = opcode div 8 mod 2 \<and> i_opcode_code ins = opcode div 16) \<and>
     (opcode mod 8 \<in> {LD, LDX, ST, STX} \<longrightarrow>
        i_opcode_sz ins = opcode div 8 mod 4 \<and> i_opcode_mode ins = opcode div 32)"
proof -
  let ?bc = "encode_slot opcode dst src off im"
  have sl: "py_slice 2 4 ?bc = to_le 2 off" "py_slice 4 8 ?bc = to_le 4 im"
    by (simp_all add: py_slice_def encode_slot_def numeral_eq_Suc)
  have b01: "?bc ! 0 = word_of_int opcode" "?bc ! Suc 0 = word_of_int (16 * src + dst)"
    by (simp_all add: encode_slot_def)
  have byt: "uint (?bc ! 0) = opcode" "uint (?bc ! Suc 0) = 16 * src + dst"
    unfolding b01 using uint_byte [of opcode] uint_regs_byte [OF assms(4-7)] assms by simp_all
  have sg: "from_le_signed (to_le 2 off) = off" "from_le_signed (to_le 4 im) = im"
    using assms by (simp_all add: from_le_signed_to_le)
  have "opcode div 16 mod 16 = opcode div 16" "opcode div 32 mod 8 = opcode div 32"
    using assms by (simp_all add: div_int_pos_iff zdiv_mono1 less_imp_le)
  then show ?thesis
    using parse_bytecode_fields [of "blank_instr idx addr ?bc False"] assms
    by (auto simp: make_instr_def Let_def blank_instr_def byt sl sg)
qed

lemma wide_roundtrip:
  assumes "0 \<le> v" and "v < 2 ^ 64" and "0 \<le> dst" and "dst < 16" and "0 \<le> src" and "src < 16"
    and "make_instr idx addr (encode_wide dst src v) False = Inr ins"
  shows "wide_value ins = v \<and> i_wide_instr ins \<and> i_opcode_class ins = LD \<and> i_dst_reg ins = dst"
proof -
  let ?bc = "encode_wide dst src v" and ?lo = "v mod 2 ^ 32" and ?hi = "v div 2 ^ 32"
  have sl: "py_slice 4 8 ?bc = to_le 4 (to_signed 32 ?lo)"
    "py_slice 8 16 ?bc = to_le 4 0 @ to_le 4 ?hi"
    by (simp_all add: py_slice_def encode_slot_def encode_wide_def numeral_eq_Suc)
  have b01: "?bc ! 0 = word_of_int 0x18" "?bc ! Suc 0 = word_of_int (16 * src + dst)"
    by (simp_all add: encode_slot_def encode_wide_def)
  have byt: "uint (?bc ! 0) = 0x18" "uint (?bc ! Suc 0) = 16 * src + dst"
    unfolding b01 using uint_regs_byte [OF assms(3-6)] by simp_all
  have hd: "hd ?bc = 24" by (simp add: encode_slot_def encode_wide_def)
  have hi: "0 \<le> ?hi" "?hi < 2 ^ 32" using assms by (simp_all)
  have lo: "to_signed 32 ?lo = signed_take_bit 31 v"
    using to_signed_eq [of 32 v] by (simp add: take_bit_eq_mod)
  have f8: "from_le (to_le 4 0 @ to_le 4 ?hi) = push_bit 32 ?hi"
    using hi from_le_to_le [of 4 ?hi] by (simp add: numeral_eq_Suc push_bit_eq_mult)
  have f4: "from_le_signed (to_le 4 (to_signed 32 ?lo)) = signed_take_bit 31 v"
    unfolding lo
    using signed_take_bit_int_less_exp [of 31 v] signed_take_bit_int_greater_eq_minus_exp [of 31 v]
    by (intro from_le_signed_to_le) simp_all
  have fields: "i_imm ins = signed_take_bit 31 v" "i_next_imm ins = push_bit 32 ?hi"
    "i_opcode_class ins = 0" "i_dst_reg ins = dst"
    using parse_bytecode_fields [of "blank_instr idx addr ?bc False"] assms
    by (auto simp: make_instr_def Let_def blank_instr_def byt sl f4 [simplified] f8 [simplified])
  have dp: "drop_bit 32 (push_bit 32 x) = x" for x :: int
    by (simp add: drop_bit_eq_div push_bit_eq_mult)
  have "wide_value ins = push_bit 32 (take_bit 32 ?hi) OR take_bit 32 (signed_take_bit 31 v)"
    using dp by (simp add: wide_value_def Let_def fields and_numeral_mask)
  also have "\<dots> = push_bit 32 (drop_bit 32 v) OR take_bit 32 v"
    using hi by (simp add: take_bit_signed_take_bit take_bit_int_eq_self drop_bit_eq_div)
  also have "\<dots> = v" by (simp add: bit_eq_iff bit_simps) (auto simp: )
  finally show ?thesis using fields make_instr_bytes(2) [OF assms(7)] hd by simp
qed

section \<open>Properties\<close>

text \<open>
  Decoding inverts assembling: the eight bytes of an instruction (opcode, the two
  register nibbles, the signed 16-bit offset and the signed 32-bit immediate, little-endian) are
  decoded to exactly these fields, with the source and operation bits of the opcode split out for
  the arithmetic and jump classes and the size and mode bits for the memory classes.
\<close>

theorem decode_encode_slot:
  assumes "0 \<le> opcode" and "opcode < 256" and "opcode \<noteq> 0x18"
    and "0 \<le> dst" and "dst < 16" and "0 \<le> src" and "src < 16"
    and "- (2 ^ 15) \<le> off" and "off < 2 ^ 15" and "- (2 ^ 31) \<le> im" and "im < 2 ^ 31"
  shows "\<exists>ins. make_instr idx addr (encode_slot opcode dst src off im) False = Inr ins \<and>
     i_opcode ins = opcode \<and> i_opcode_class ins = opcode mod 8 \<and>
     i_dst_reg ins = dst \<and> i_src_reg ins = src \<and> i_offset ins = off \<and> i_imm ins = im \<and>
     (opcode mod 8 \<in> {ALU, JMP, JMP32, ALU64} \<longrightarrow>
        i_opcode_s ins = opcode div 8 mod 2 \<and> i_opcode_code ins = opcode div 16) \<and>
     (opcode mod 8 \<in> {LD, LDX, ST, STX} \<longrightarrow>
        i_opcode_sz ins = opcode div 8 mod 4 \<and> i_opcode_mode ins = opcode div 32)"
  using assms by (rule decode_encode)

theorem decode_encode_slot_witness:
  "\<exists>ins. make_instr 3 24 (encode_slot 0x1d 2 9 (-5) 100) False = Inr ins \<and> i_offset ins = -5 \<and>
     i_opcode_class ins = JMP \<and> i_opcode_code ins = BPF_JEQ"
  using decode_encode_slot [of "0x1d" 2 9 "-5" 100 3 24] by auto

text \<open>
  A 64-bit immediate survives the trip through the two slots of a wide load: the value
  the tracker assembles from the low immediate (decoded signed) and the bytes of the second slot
  is the value the assembler split.
\<close>

theorem wide_load_roundtrip:
  assumes "0 \<le> v" and "v < 2 ^ 64" and "0 \<le> dst" and "dst < 16" and "0 \<le> src" and "src < 16"
    and "make_instr idx addr (encode_wide dst src v) False = Inr ins"
  shows "wide_value ins = v \<and> i_wide_instr ins \<and> i_opcode_class ins = LD \<and> i_dst_reg ins = dst"
  using assms by (rule wide_roundtrip)

theorem wide_load_roundtrip_witness:
  "\<exists>ins. make_instr 0 0 (encode_wide 2 0 0xDEADBEEF12345678) False = Inr ins \<and>
     wide_value ins = 0xDEADBEEF12345678"
proof -
  have "is_ok (make_instr 0 0 (encode_wide 2 0 0xDEADBEEF12345678) False)" by code_simp
  then obtain ins where "make_instr 0 0 (encode_wide 2 0 0xDEADBEEF12345678) False = Inr ins"
    by (auto simp: is_ok_def split: sum.splits)
  with wide_load_roundtrip [OF _ _ _ _ _ _ this] show ?thesis by simp
qed

text \<open>
  Decoding a text section keeps instruction numbers and byte positions in step, wide
  instructions included: instruction \<open>k\<close> carries the number \<open>idx + k\<close>, its bytes start at byte
  \<open>8 * k\<close>, and the only instructions without bytes are the second slots of wide ones.
\<close>

theorem decode_text_positions:
  assumes "decode_text base i idx d = Inr instrs"
  shows "\<forall>k < length instrs. placed idx d instrs k"
  using decode_text_placed [OF assms] by blast

theorem decode_text_positions_witness:
  "\<exists>instrs. decode_text 0 0 0 (encode_wide 1 1 7 @ encode_slot 0x95 0 0 0 0) = Inr instrs \<and>
     length instrs = 3 \<and> placed 0 (encode_wide 1 1 7 @ encode_slot 0x95 0 0 0 0) instrs 2"
proof -
  let ?d = "encode_wide 1 1 7 @ encode_slot 0x95 0 0 0 0"
  have "case decode_text 0 0 0 ?d of Inl _ \<Rightarrow> False | Inr instrs \<Rightarrow> length instrs = 3" by code_simp
  then obtain instrs where "decode_text 0 0 0 ?d = Inr instrs" and "length instrs = 3"
    by (auto split: sum.splits)
  with decode_text_positions [OF this(1)] show ?thesis by auto
qed

end
