(* ===== verification/Link.thy ===== *)
theory Link
  imports Instr
begin

text \<open>
  The component \<open>hornet/bpf/link.py\<close>: combining the decoded main object with the objects of its
  tail-call targets into one instruction list, one map table, one set of globals and one region
  per program.  \<open>LinkError\<close> is raised as \<open>Inl (LinkError tag)\<close>; the tag tells the raising
  places apart, the rest of the message is not modelled.
\<close>

section \<open>What the loader hands over\<close>

record map_info =
  m_id :: int
  m_name :: "string option"
  m_type :: int
  m_key_size :: int
  m_value_size :: int
  m_max_entries :: int
  m_flags :: int

record symbol =
  s_size :: int
  s_offset :: int

text \<open>The \<open>rodata\<close> dictionary: the keys \<open>data\<close> and \<open>section_idx\<close>, and its symbols.\<close>

record rodata =
  ro_data :: "byte list option"
  ro_section_idx :: "int option"
  ro_syms :: "(string \<times> symbol) list"

definition empty_rodata :: rodata where
  "empty_rodata = \<lparr>ro_data = None, ro_section_idx = None, ro_syms = []\<rparr>"

record load =
  l_instrs :: "instr list"
  l_maps :: "map_info list"
  l_rodata :: rodata
  l_bss :: "(string \<times> symbol) list"
  l_entry :: string
  l_entry_idx :: int
  l_path :: string
  l_section :: string

record tail_spec =
  t_path :: string
  t_entry :: string
  t_map_name :: "string option"
  t_slot :: "int option"

record prog_region =
  p_name :: string
  p_path :: string
  p_start :: nat
  p_end :: nat
  p_slot :: "int option"
  p_map_id :: "int option"
  p_entry_block :: "nat option"

definition is_main :: "prog_region \<Rightarrow> bool" where
  "is_main r \<longleftrightarrow> p_slot r = None \<and> p_map_id r = None"

definition contains :: "prog_region \<Rightarrow> nat \<Rightarrow> bool" where
  "contains r idx \<longleftrightarrow> p_start r \<le> idx \<and> idx \<le> p_end r"

fun region_of :: "prog_region list \<Rightarrow> nat \<Rightarrow> prog_region option" where
  "region_of [] idx = None"
| "region_of (r # progs) idx = (if contains r idx then Some r else region_of progs idx)"

section \<open>Merging the map tables\<close>

datatype map_key = NameKey string | PathKey string int

definition map_key_of :: "map_info \<Rightarrow> string \<Rightarrow> map_key" where
  "map_key_of info path =
     (case m_name info of
        Some n \<Rightarrow> if n \<noteq> '''' then NameKey n else PathKey path (m_id info)
      | None \<Rightarrow> PathKey path (m_id info))"

text \<open>The fields of \<open>_GEOMETRY\<close>.\<close>

definition geometry :: "map_info \<Rightarrow> int \<times> int \<times> int \<times> int" where
  "geometry info = (m_type info, m_key_size info, m_value_size info, m_max_entries info)"

type_synonym merge_state = "map_info list \<times> (map_key \<times> nat) list"

definition merge_map ::
  "string \<Rightarrow> merge_state \<times> (int \<times> int) list \<Rightarrow> map_info \<Rightarrow> (merge_state \<times> (int \<times> int) list) res"
where
  "merge_map path st info =
     (case st of ((merged, index), remap) \<Rightarrow>
       let key = map_key_of info path in
       (case dict_get index key of
         None \<Rightarrow>
           let new_id = length merged; new = info\<lparr>m_id := int new_id\<rparr> in
           Inr ((merged @ [new], dict_set key new_id index),
                dict_set (m_id info) (int new_id) remap)
       | Some hit \<Rightarrow>
           if geometry (merged ! hit) \<noteq> geometry info
           then Inl (LinkError ''map is declared differently'')
           else Inr ((merged, index), dict_set (m_id info) (int hit) remap)))"

definition merge_load_maps ::
  "merge_state \<times> (int \<times> int) list list \<Rightarrow> load \<Rightarrow> (merge_state \<times> (int \<times> int) list list) res"
where
  "merge_load_maps st ld =
     (case st of (ms, remaps) \<Rightarrow>
       ebind (efoldl (merge_map (l_path ld)) (ms, []) (l_maps ld)) (\<lambda>(ms', remap).
       Inr (ms', remaps @ [remap])))"

definition merge_maps :: "load list \<Rightarrow> (map_info list \<times> (int \<times> int) list list) res" where
  "merge_maps loads =
     ebind (efoldl merge_load_maps (([], []), []) loads) (\<lambda>((merged, index), remaps).
     Inr (merged, remaps))"

section \<open>Merging the globals\<close>

type_synonym symtab = "(string \<times> symbol) list"

definition merge_bss_sym ::
  "string \<Rightarrow> symtab \<times> (string \<times> string) list \<Rightarrow> string \<times> symbol \<Rightarrow> symtab \<times> (string \<times> string) list"
where
  "merge_bss_sym prefix st entry =
     (case (st, entry) of ((bss, rename), (name, sy)) \<Rightarrow>
       (case dict_get bss name of
          None \<Rightarrow> (dict_set name sy bss, rename)
        | Some old \<Rightarrow>
            if s_size old = s_size sy then (bss, rename)
            else (dict_set (prefix @ name) sy bss, dict_set name (prefix @ name) rename)))"

definition merge_rodata_sym :: "string \<Rightarrow> nat \<Rightarrow> symtab \<Rightarrow> string \<times> symbol \<Rightarrow> symtab" where
  "merge_rodata_sym prefix blob_len tab entry =
     (case entry of (name, sy) \<Rightarrow>
       let out = (if dict_get tab name = None then name else prefix @ name)
       in dict_set out \<lparr>s_size = s_size sy, s_offset = s_offset sy + int blob_len\<rparr> tab)"

text \<open>\<open>blob\<close> is padded with zeros to a multiple of eight.\<close>

definition pad8 :: "byte list \<Rightarrow> byte list" where
  "pad8 blob =
     (if length blob mod 8 \<noteq> 0 then blob @ replicate (8 - length blob mod 8) 0 else blob)"

record globals_state =
  g_bss :: symtab
  g_renames :: "(string \<times> string) list list"
  g_rosyms :: symtab
  g_blob :: "byte list"
  g_bases :: "nat list"

definition merge_load_globals :: "globals_state \<Rightarrow> load \<Rightarrow> globals_state" where
  "merge_load_globals g ld =
     (let prefix = l_entry ld @ ''.'';
          (bss, rename) = foldl (merge_bss_sym prefix) (g_bss g, []) (l_bss ld);
          blob = g_blob g;
          data = (case ro_data (l_rodata ld) of None \<Rightarrow> [] | Some d \<Rightarrow> d);
          syms = foldl (merge_rodata_sym prefix (length blob)) (g_rosyms g) (ro_syms (l_rodata ld))
      in \<lparr>g_bss = bss, g_renames = g_renames g @ [rename], g_rosyms = syms,
          g_blob = (if data \<noteq> [] then pad8 (blob @ data) else blob),
          g_bases = g_bases g @ [length blob]\<rparr>)"

definition merge_globals ::
  "load list \<Rightarrow> symtab \<times> rodata \<times> (string \<times> string) list list \<times> nat list" where
  "merge_globals loads =
     (let g = foldl merge_load_globals
            \<lparr>g_bss = [], g_renames = [], g_rosyms = [], g_blob = [], g_bases = []\<rparr> loads;
          ro = (if g_blob g \<noteq> [] \<or> g_rosyms g \<noteq> []
                then \<lparr>ro_data = Some (g_blob g),
                      ro_section_idx = (case loads of [] \<Rightarrow> None
                        | ld # _ \<Rightarrow> ro_section_idx (l_rodata ld)),
                      ro_syms = g_rosyms g\<rparr>
                else empty_rodata)
      in (g_bss g, ro, g_renames g, g_bases g))"

section \<open>Rewriting the relocations\<close>

definition retag ::
  "(int \<times> int) list \<Rightarrow> (string \<times> string) list \<Rightarrow> nat \<Rightarrow> instr \<Rightarrow> instr res" where
  "retag map_remap bss_rename rodata_base ins =
     (if \<not> i_relocated ins then Inr ins
      else if i_reloc_region ins = 0 then
        Inr (ins\<lparr>i_reloc_tag :=
          (case i_reloc_tag ins of
             MapTag k \<Rightarrow> MapTag (dict_get_default map_remap k k)
           | t \<Rightarrow> t)\<rparr>)
      else if i_reloc_region ins = 1 then
        Inr (ins\<lparr>i_reloc_tag :=
          (case i_reloc_tag ins of
             SymTag k \<Rightarrow> SymTag (dict_get_default bss_rename k k)
           | t \<Rightarrow> t)\<rparr>)
      else if i_reloc_region ins = 2 \<and> rodata_base \<noteq> 0 then
        (case i_rodata_offset ins of
           None \<Rightarrow> Inl TypeError
         | Some off \<Rightarrow> Inr (ins\<lparr>i_rodata_offset := Some (off + int rodata_base)\<rparr>))
      else Inr ins)"

section \<open>Finding the program array\<close>

definition prog_array_id :: "map_info list \<Rightarrow> string option \<Rightarrow> int res" where
  "prog_array_id maps want =
     (let progs = filter (\<lambda>m. m_type m = BPF_MAP_TYPE_PROG_ARRAY) maps in
      case want of
        Some w \<Rightarrow>
          (case find (\<lambda>m. m_name m = Some w) progs of
             Some m \<Rightarrow> Inr (m_id m)
           | None \<Rightarrow>
               (case find (\<lambda>m. m_name m = Some w) maps of
                  Some m \<Rightarrow> Inl (LinkError ''map is not a PROG_ARRAY'')
                | None \<Rightarrow> Inl (LinkError ''no map named'')))
      | None \<Rightarrow>
          (case progs of
             [] \<Rightarrow> Inl (LinkError ''the main object declares no PROG_ARRAY'')
           | [m] \<Rightarrow> Inr (m_id m)
           | _ \<Rightarrow> Inl (LinkError ''which prog array'')))"

section \<open>Linking\<close>

record linked =
  k_instrs :: "instr list"
  k_maps :: "map_info list"
  k_rodata :: rodata
  k_bss :: symtab
  k_progs :: "prog_region list"

text \<open>The two checks of a callee before anything is merged.\<close>

definition check_callee :: "load \<Rightarrow> unit res" where
  "check_callee ld =
     (if find is_tail_call (l_instrs ld) \<noteq> None
      then Inl (LinkError ''chained tail call'')
      else if l_entry_idx ld \<noteq> 0
      then Inl (LinkError ''callee is not the first function'')
      else Inr ())"

text \<open>One pass of the loop over the loads; \<open>last\<close> says whether it is the final one.\<close>

definition link_load ::
  "map_info list \<Rightarrow> instr list \<times> prog_region list \<Rightarrow>
   (load \<times> tail_spec option \<times> (int \<times> int) list \<times> (string \<times> string) list \<times> nat \<times> bool) \<Rightarrow>
   (instr list \<times> prog_region list) res" where
  "link_load maps st item =
     (case (st, item) of ((instrs, progs), (ld, ts, remap, rename, ro_base, is_last)) \<Rightarrow>
       let base = length instrs; body = l_instrs ld in
       if body = [] then Inl (LinkError ''decoded to no instructions'')
       else if \<not> is_last \<and> \<not> is_exit (last body)
       then Inl (LinkError ''section does not end in EXIT'')
       else
         ebind (emap (retag remap rename ro_base) body) (\<lambda>body'.
         let body'' = map (\<lambda>ins. ins\<lparr>i_idx := base + i_idx ins\<rparr>) body';
             instrs' = instrs @ body''
         in ebind (case ts of None \<Rightarrow> Inr None
                   | Some t \<Rightarrow> ebind (prog_array_id maps (t_map_name t)) (\<lambda>i. Inr (Some i)))
              (\<lambda>map_id.
            Inr (instrs',
                 progs @ [\<lparr>p_name = l_entry ld, p_path = l_path ld, p_start = base,
                           p_end = length instrs' - 1,
                           p_slot = (case ts of None \<Rightarrow> None | Some t \<Rightarrow> t_slot t),
                           p_map_id = map_id, p_entry_block = None\<rparr>]))))"

fun check_clashes :: "(int option) list \<Rightarrow> prog_region list \<Rightarrow> unit res" where
  "check_clashes claimed [] = Inr ()"
| "check_clashes claimed (r # rs) =
     (if p_map_id r \<in> set claimed
      then Inl (LinkError ''both are loaded into one map'')
      else check_clashes (p_map_id r # claimed) rs)"

definition link_items ::
  "load list \<Rightarrow> tail_spec list \<Rightarrow> (int \<times> int) list list \<Rightarrow> (string \<times> string) list list \<Rightarrow> nat list \<Rightarrow>
   (load \<times> tail_spec option \<times> (int \<times> int) list \<times> (string \<times> string) list \<times> nat \<times> bool) list" where
  "link_items loads tails remaps renames bases =
     map (\<lambda>i. (loads ! i, if i = 0 then None else Some (tails ! (i - 1)),
               remaps ! i, renames ! i, bases ! i, \<not> i + 1 < length loads))
       [0..<length loads]"

definition link :: "load list \<Rightarrow> tail_spec list \<Rightarrow> linked res" where
  "link loads tails =
     (if loads = [] then Inl IndexError
      else if length loads \<noteq> length tails + 1
      then Inl (LinkError ''number of objects and tails'')
      else
        ebind (emap check_callee (tl loads)) (\<lambda>_.
        ebind (merge_maps loads) (\<lambda>(maps, map_remaps).
        let (bss, ro, bss_renames, rodata_bases) = merge_globals loads in
        ebind (efoldl (link_load maps) ([], [])
                 (link_items loads tails map_remaps bss_renames rodata_bases)) (\<lambda>(instrs, progs).
        ebind (check_clashes [] (tl progs)) (\<lambda>_.
        Inr \<lparr>k_instrs = instrs, k_maps = maps, k_rodata = ro, k_bss = bss, k_progs = progs\<rparr>)))))"

section \<open>Lemmas on the merged map table\<close>

text \<open>
  The state of the merge: identifiers are positions, the index is injective and points into the
  table, and what was merged before stays.
\<close>

definition merge_inv :: "merge_state \<Rightarrow> bool" where
  "merge_inv ms =
     (case ms of (merged, index) \<Rightarrow>
        (\<forall>k < length merged. m_id (merged ! k) = int k) \<and>
        (\<forall>key k. dict_get index key = Some k \<longrightarrow> k < length merged) \<and>
        (\<forall>key key' k. dict_get index key = Some k \<longrightarrow> dict_get index key' = Some k \<longrightarrow> key = key'))"

definition merge_le :: "merge_state \<Rightarrow> merge_state \<Rightarrow> bool" where
  "merge_le ms ms' \<longleftrightarrow>
     (\<exists>more. fst ms' = fst ms @ more) \<and>
     (\<forall>key k. dict_get (snd ms) key = Some k \<longrightarrow> dict_get (snd ms') key = Some k)"

text \<open>The entry of the merged table that a map of an object is resolved to.\<close>

definition resolved :: "string \<Rightarrow> merge_state \<Rightarrow> (int \<times> int) list \<Rightarrow> map_info \<Rightarrow> bool" where
  "resolved path ms remap info \<longleftrightarrow>
     (\<exists>k < length (fst ms). dict_get remap (m_id info) = Some (int k) \<and>
        dict_get (snd ms) (map_key_of info path) = Some k \<and>
        geometry (fst ms ! k) = geometry info)"

lemma merge_le_refl: "merge_le ms ms"
  by (auto simp: merge_le_def)

lemma merge_le_trans: "merge_le a b \<Longrightarrow> merge_le b c \<Longrightarrow> merge_le a c"
  by (auto simp: merge_le_def)

lemma resolved_mono: "resolved path ms remap info \<Longrightarrow> merge_le ms ms' \<Longrightarrow> resolved path ms' remap info"
  by (fastforce simp: resolved_def merge_le_def nth_append)

lemma merge_map_step:
  assumes "merge_map path (ms, remap) info = Inr (ms', remap')" and "merge_inv ms"
  shows "merge_inv ms'" and "merge_le ms ms'" and "resolved path ms' remap' info"
    and "\<And>i. i \<noteq> m_id info \<Longrightarrow> dict_get remap' i = dict_get remap i"
proof -
  obtain merged index where ms: "ms = (merged, index)" by (cases ms)
  let ?key = "map_key_of info path"
  have "merge_inv ms' \<and> merge_le ms ms' \<and> resolved path ms' remap' info \<and>
    (\<forall>i. i \<noteq> m_id info \<longrightarrow> dict_get remap' i = dict_get remap i)"
  proof (cases "dict_get index ?key")
    case None
    with assms(1) have eq: "ms' = (merged @ [info\<lparr>m_id := int (length merged)\<rparr>],
        dict_set ?key (length merged) index)" "remap' = dict_set (m_id info) (int (length merged)) remap"
      by (simp_all add: merge_map_def ms Let_def)
    from assms(2) None show ?thesis
      by (fastforce simp: merge_inv_def merge_le_def resolved_def eq ms nth_append geometry_def
          less_Suc_eq split: if_splits)
  next
    case (Some hit)
    with assms show ?thesis
      by (auto simp: merge_map_def merge_inv_def merge_le_def resolved_def ms Let_def
          split: if_splits)
  qed
  then show "merge_inv ms'" and "merge_le ms ms'" and "resolved path ms' remap' info"
    and "\<And>i. i \<noteq> m_id info \<Longrightarrow> dict_get remap' i = dict_get remap i" by auto
qed

lemma merge_maps_of_load:
  assumes "efoldl (merge_map path) (ms, remap) infos = Inr (ms', remap')" and "merge_inv ms"
    and "distinct (map m_id infos)"
  shows "merge_inv ms' \<and> merge_le ms ms' \<and> (\<forall>info \<in> set infos. resolved path ms' remap' info) \<and>
    (\<forall>i. i \<notin> m_id ` set infos \<longrightarrow> dict_get remap' i = dict_get remap i)"
  using assms
proof (induction infos arbitrary: ms remap)
  case (Cons info infos)
  from Cons.prems(1) obtain ms1 remap1 where
    one: "merge_map path (ms, remap) info = Inr (ms1, remap1)"
    and rest: "efoldl (merge_map path) (ms1, remap1) infos = Inr (ms', remap')"
    by (auto simp: ebind_eq_Inr)
  note step = merge_map_step [OF one Cons.prems(2)]
  have IH: "merge_inv ms'" "merge_le ms1 ms'" "\<forall>info \<in> set infos. resolved path ms' remap' info"
    "\<forall>i. i \<notin> m_id ` set infos \<longrightarrow> dict_get remap' i = dict_get remap1 i"
    using Cons.IH [OF rest step(1)] Cons.prems(3) by auto
  have "resolved path ms' remap1 info" using resolved_mono [OF step(3) IH(2)] .
  moreover have "dict_get remap' (m_id info) = dict_get remap1 (m_id info)"
    using IH(4) Cons.prems(3) by simp
  ultimately have "resolved path ms' remap' info" by (simp add: resolved_def)
  with IH step merge_le_trans [OF step(2) IH(2)] show ?case by auto
qed (auto simp: merge_le_refl)

lemma merge_load_maps_eq:
  "merge_load_maps (ms, remaps) ld =
     ebind (efoldl (merge_map (l_path ld)) (ms, []) (l_maps ld)) (\<lambda>(ms', remap).
     Inr (ms', remaps @ [remap]))"
  by (simp add: merge_load_maps_def)

lemma merge_maps_of_loads:
  assumes "efoldl merge_load_maps (ms, remaps) loads = Inr (ms', remaps')" and "merge_inv ms"
    and "\<forall>ld \<in> set loads. distinct (map m_id (l_maps ld))"
  shows "merge_inv ms' \<and> merge_le ms ms' \<and>
    (\<exists>new. remaps' = remaps @ new \<and> length new = length loads \<and>
      (\<forall>i < length loads. \<forall>info \<in> set (l_maps (loads ! i)).
         resolved (l_path (loads ! i)) ms' (new ! i) info))"
  using assms
proof (induction loads arbitrary: ms remaps)
  case (Cons ld loads)
  from Cons.prems(1) obtain ms1 remap where
    one: "efoldl (merge_map (l_path ld)) (ms, []) (l_maps ld) = Inr (ms1, remap)"
    and rest: "efoldl merge_load_maps (ms1, remaps @ [remap]) loads = Inr (ms', remaps')"
    by (auto simp: merge_load_maps_eq ebind_eq_Inr)
  have s: "merge_inv ms1" "merge_le ms ms1" "\<forall>info \<in> set (l_maps ld). resolved (l_path ld) ms1 remap info"
    using merge_maps_of_load [OF one Cons.prems(2)] Cons.prems(3) by auto
  from Cons.IH [OF rest s(1)] Cons.prems(3) obtain new where
    IH: "merge_inv ms'" "merge_le ms1 ms'" "remaps' = (remaps @ [remap]) @ new" "length new = length loads"
      "\<forall>i < length loads. \<forall>info \<in> set (l_maps (loads ! i)).
         resolved (l_path (loads ! i)) ms' (new ! i) info"
    by auto
  have "\<forall>i < length (ld # loads). \<forall>info \<in> set (l_maps ((ld # loads) ! i)).
      resolved (l_path ((ld # loads) ! i)) ms' ((remap # new) ! i) info"
    using IH(5) s(3) resolved_mono [OF _ IH(2)] by (auto simp: less_Suc_eq_0_disj)
  with IH merge_le_trans [OF s(2) IH(2)] show ?case by (intro conjI exI [of _ "remap # new"]) auto
qed (auto simp: merge_le_refl)

lemma merge_maps_resolved:
  assumes "merge_maps loads = Inr (merged, remaps)"
    and "\<forall>ld \<in> set loads. distinct (map m_id (l_maps ld))"
  obtains index where "merge_inv (merged, index)" and "length remaps = length loads"
    and "\<And>i info. i < length loads \<Longrightarrow> info \<in> set (l_maps (loads ! i)) \<Longrightarrow>
      resolved (l_path (loads ! i)) (merged, index) (remaps ! i) info"
proof -
  from assms(1) obtain index where
    "efoldl merge_load_maps (([], []), []) loads = Inr ((merged, index), remaps)"
    by (auto simp: merge_maps_def ebind_eq_Inr)
  from merge_maps_of_loads [OF this _ assms(2)] show thesis
    using that by (fastforce simp: merge_inv_def)
qed

section \<open>Lemmas on the merged globals\<close>

lemma length_pad8: "length blob \<le> length (pad8 blob)" and pad8_aligned: "8 dvd length (pad8 blob)"
proof -
  have "8 dvd length blob + (8 - length blob mod 8)" if "length blob mod 8 \<noteq> 0"
    using that by presburger
  then show "8 dvd length (pad8 blob)" by (auto simp: pad8_def)
qed (use mod_less_divisor [of 8 "length blob"] in \<open>auto simp: pad8_def\<close>)


lemma pad8_prefix: "take (length blob) (pad8 blob) = blob"
  by (simp add: pad8_def)

definition load_data :: "load \<Rightarrow> byte list" where
  "load_data ld = (case ro_data (l_rodata ld) of None \<Rightarrow> [] | Some d \<Rightarrow> d)"

lemma merge_load_globals_blob:
  "g_blob (merge_load_globals g ld) =
     (if load_data ld \<noteq> [] then pad8 (g_blob g @ load_data ld) else g_blob g)"
  "g_bases (merge_load_globals g ld) = g_bases g @ [length (g_blob g)]"
  by (auto simp: merge_load_globals_def load_data_def Let_def split: prod.splits option.splits)

text \<open>The data of every object sits at its base, which is a multiple of eight.\<close>

lemma merge_globals_blob:
  assumes "8 dvd length (g_blob g)"
  shows "\<exists>more bases. g_blob (foldl merge_load_globals g loads) = g_blob g @ more \<and>
     g_bases (foldl merge_load_globals g loads) = g_bases g @ bases \<and> length bases = length loads \<and>
     (\<forall>i < length loads. 8 dvd bases ! i \<and>
        take (length (load_data (loads ! i))) (drop (bases ! i) (g_blob g @ more)) = load_data (loads ! i))"
  using assms
proof (induction loads arbitrary: g)
  case (Cons ld loads)
  let ?g = "merge_load_globals g ld"
  have al: "8 dvd length (g_blob ?g)"
    using Cons.prems by (simp add: merge_load_globals_blob pad8_aligned)
  have ext: "\<exists>pad. g_blob ?g = g_blob g @ load_data ld @ pad"
    by (auto simp: merge_load_globals_blob pad8_def)
  then obtain pad where pad: "g_blob ?g = g_blob g @ load_data ld @ pad" ..
  from Cons.IH [OF al] obtain more bases where
    IH: "g_blob (foldl merge_load_globals ?g loads) = g_blob ?g @ more"
      "g_bases (foldl merge_load_globals ?g loads) = g_bases ?g @ bases" "length bases = length loads"
      "\<forall>i < length loads. 8 dvd bases ! i \<and>
        take (length (load_data (loads ! i))) (drop (bases ! i) (g_blob ?g @ more)) = load_data (loads ! i)"
    by auto
  show ?case
    using IH Cons.prems
    by (intro exI [of _ "load_data ld @ pad @ more"] exI [of _ "length (g_blob g) # bases"])
      (auto simp: merge_load_globals_blob(2) pad less_Suc_eq_0_disj)
qed simp

section \<open>Lemmas on the regions\<close>

text \<open>Consecutive non-empty regions from \<open>a\<close> up to, not including, \<open>b\<close>.\<close>

fun tiles :: "nat \<Rightarrow> prog_region list \<Rightarrow> nat \<Rightarrow> bool" where
  "tiles a [] b \<longleftrightarrow> a = b"
| "tiles a (r # rs) b \<longleftrightarrow> p_start r = a \<and> a \<le> p_end r \<and> tiles (Suc (p_end r)) rs b"

lemma tiles_le: "tiles a rs b \<Longrightarrow> a \<le> b"
  by (induction rs arbitrary: a) fastforce+

lemma tiles_bounds: "tiles a rs b \<Longrightarrow> r \<in> set rs \<Longrightarrow> a \<le> p_start r \<and> p_end r < b"
proof (induction rs arbitrary: a)
  case (Cons s rs)
  then show ?case using tiles_le [of "Suc (p_end s)" rs b] by fastforce
qed simp

lemma tiles_region_of:
  "tiles a rs b \<Longrightarrow> r \<in> set rs \<Longrightarrow> contains r idx \<Longrightarrow> region_of rs idx = Some r"
proof (induction rs arbitrary: a)
  case (Cons s rs)
  then show ?case using tiles_bounds [of "Suc (p_end s)" rs b r]
    by (auto simp: contains_def)
qed simp

lemma tiles_covers: "tiles a rs b \<Longrightarrow> a \<le> idx \<Longrightarrow> idx < b \<Longrightarrow> \<exists>r \<in> set rs. contains r idx"
proof (induction rs arbitrary: a)
  case (Cons s rs)
  then show ?case by (cases "idx \<le> p_end s") (auto simp: contains_def)
qed simp

lemma region_of_SomeD: "region_of rs idx = Some r \<Longrightarrow> r \<in> set rs \<and> contains r idx"
  by (induction rs) (auto split: if_splits)

text \<open>An instruction up to what linking rewrites: its number and its relocation.\<close>

definition same_code :: "instr \<Rightarrow> instr \<Rightarrow> bool" where
  "same_code a b \<longleftrightarrow>
     a\<lparr>i_idx := i_idx b, i_reloc_tag := i_reloc_tag b, i_rodata_offset := i_rodata_offset b\<rparr> = b"

lemma retag_same_code: "retag mr br base ins = Inr ins' \<Longrightarrow> same_code ins' ins \<and> i_idx ins' = i_idx ins"
  by (auto simp: retag_def same_code_def split: if_splits option.splits)

lemma prog_array_id_type:
  assumes "prog_array_id maps want = Inr i"
  shows "\<exists>m \<in> set maps. m_type m = BPF_MAP_TYPE_PROG_ARRAY \<and> i = m_id m"
proof -
  let ?progs = "filter (\<lambda>m. m_type m = BPF_MAP_TYPE_PROG_ARRAY) maps"
  have "\<exists>m \<in> set ?progs. i = m_id m"
    using assms
    by (auto simp: prog_array_id_def Let_def split: option.splits list.splits
        dest!: find_SomeD) (force simp: filter_eq_Cons_iff)+
  then show ?thesis by auto
qed

type_synonym link_item =
  "load \<times> tail_spec option \<times> (int \<times> int) list \<times> (string \<times> string) list \<times> nat \<times> bool"

definition linked_at :: "map_info list \<Rightarrow> link_item \<Rightarrow> prog_region \<Rightarrow> instr list \<Rightarrow> bool" where
  "linked_at maps item r instrs \<longleftrightarrow>
     (case item of (ld, ts, remap, rename, base, is_last) \<Rightarrow>
       p_name r = l_entry ld \<and> p_path r = l_path ld \<and>
       Suc (p_end r) = p_start r + length (l_instrs ld) \<and> Suc (p_end r) \<le> length instrs \<and>
       (\<forall>j < length (l_instrs ld).
          same_code (instrs ! (p_start r + j)) (l_instrs ld ! j) \<and>
          i_idx (instrs ! (p_start r + j)) = p_start r + i_idx (l_instrs ld ! j)) \<and>
       (\<not> is_last \<longrightarrow> is_exit (last (l_instrs ld))) \<and>
       (case ts of
          None \<Rightarrow> p_slot r = None \<and> p_map_id r = None
        | Some t \<Rightarrow> p_slot r = t_slot t \<and>
            (\<exists>m \<in> set maps. m_type m = BPF_MAP_TYPE_PROG_ARRAY \<and> p_map_id r = Some (m_id m))))"

lemma linked_at_append: "linked_at maps item r instrs \<Longrightarrow> linked_at maps item r (instrs @ added)"
  by (auto simp: linked_at_def nth_append split: prod.splits)

lemma link_load_step:
  assumes "link_load maps (instrs, progs) item = Inr (instrs', progs')"
  shows "\<exists>r added. progs' = progs @ [r] \<and> instrs' = instrs @ added \<and> p_start r = length instrs \<and>
    Suc (p_end r) = length instrs' \<and> p_start r \<le> p_end r \<and> linked_at maps item r instrs'"
proof -
  obtain ld ts remap rename base is_last where item: "item = (ld, ts, remap, rename, base, is_last)"
    by (cases item) auto
  from assms obtain body' map_id where ne: "l_instrs ld \<noteq> []"
    and ex: "\<not> is_last \<longrightarrow> is_exit (last (l_instrs ld))"
    and body: "emap (retag remap rename base) (l_instrs ld) = Inr body'"
    and id: "(case ts of None \<Rightarrow> Inr None
             | Some t \<Rightarrow> ebind (prog_array_id maps (t_map_name t)) (\<lambda>i. Inr (Some i))) = Inr map_id"
    and instrs': "instrs' = instrs @ map (\<lambda>ins. ins\<lparr>i_idx := length instrs + i_idx ins\<rparr>) body'"
    and progs': "progs' = progs @ [\<lparr>p_name = l_entry ld, p_path = l_path ld, p_start = length instrs,
        p_end = length instrs' - 1, p_slot = (case ts of None \<Rightarrow> None | Some t \<Rightarrow> t_slot t),
        p_map_id = map_id, p_entry_block = None\<rparr>]"
    by (auto simp: link_load_def item Let_def ebind_eq_Inr split: if_splits)
  have len: "length body' = length (l_instrs ld)" by (rule emap_length [OF body])
  have rt: "same_code (body' ! j) (l_instrs ld ! j) \<and> i_idx (body' ! j) = i_idx (l_instrs ld ! j)"
    if "j < length (l_instrs ld)" for j
    using retag_same_code emap_nth [OF body that] by blast
  have "same_code (ins\<lparr>i_idx := n\<rparr>) b" if "same_code ins b" for ins b n
    using that by (simp add: same_code_def)
  with rt len have "linked_at maps item (last progs') instrs'"
    using ne ex id prog_array_id_type
    by (auto simp: linked_at_def item progs' instrs' nth_append ebind_eq_Inr split: option.splits)
  moreover obtain n where "length (l_instrs ld) = Suc n" using ne by (cases "l_instrs ld") auto
  ultimately show ?thesis using len by (auto simp: progs' instrs')
qed

lemma link_run:
  assumes "efoldl (link_load maps) (instrs, progs) items = Inr (instrs', progs')"
  shows "\<exists>rs added. progs' = progs @ rs \<and> instrs' = instrs @ added \<and> length rs = length items \<and>
    tiles (length instrs) rs (length instrs') \<and>
    (\<forall>i < length items. linked_at maps (items ! i) (rs ! i) instrs')"
  using assms
proof (induction items arbitrary: instrs progs)
  case (Cons item items)
  from Cons.prems obtain instrs1 progs1 where
    one: "link_load maps (instrs, progs) item = Inr (instrs1, progs1)"
    and rest: "efoldl (link_load maps) (instrs1, progs1) items = Inr (instrs', progs')"
    by (auto simp: ebind_eq_Inr)
  from link_load_step [OF one] obtain r added1 where
    r: "progs1 = progs @ [r]" "instrs1 = instrs @ added1" "p_start r = length instrs"
      "Suc (p_end r) = length instrs1" "p_start r \<le> p_end r" "linked_at maps item r instrs1"
    by auto
  from Cons.IH [OF rest] obtain rs added where
    IH: "progs' = progs1 @ rs" "instrs' = instrs1 @ added" "length rs = length items"
      "tiles (length instrs1) rs (length instrs')"
      "\<forall>i < length items. linked_at maps (items ! i) (rs ! i) instrs'"
    by auto
  have "linked_at maps item r instrs'" using linked_at_append [OF r(6)] IH(2) by simp
  with r IH show ?case
    by (intro exI [of _ "r # rs"] exI [of _ "added1 @ added"]) (auto simp: less_Suc_eq_0_disj)
qed simp

lemma check_clashes_distinct:
  "check_clashes claimed rs = Inr () \<Longrightarrow>
   distinct (map p_map_id rs) \<and> set claimed \<inter> p_map_id ` set rs = {}"
  by (induction claimed rs rule: check_clashes.induct) (auto split: if_splits)

lemma check_callee_ok:
  "check_callee ld = Inr u \<Longrightarrow> (\<forall>ins \<in> set (l_instrs ld). \<not> is_tail_call ins) \<and> l_entry_idx ld = 0"
  by (auto simp: check_callee_def find_None_iff split: if_splits)

lemma link_parts:
  assumes "link loads tails = Inr k"
  obtains remaps renames bases where "loads \<noteq> []" and "length loads = length tails + 1"
    and "\<And>i. 0 < i \<Longrightarrow> i < length loads \<Longrightarrow> check_callee (loads ! i) = Inr ()"
    and "merge_maps loads = Inr (k_maps k, remaps)"
    and "merge_globals loads = (k_bss k, k_rodata k, renames, bases)"
    and "efoldl (link_load (k_maps k)) ([], []) (link_items loads tails remaps renames bases) =
         Inr (k_instrs k, k_progs k)"
    and "check_clashes [] (tl (k_progs k)) = Inr ()"
proof -
  obtain bss ro renames bases where g: "merge_globals loads = (bss, ro, renames, bases)"
    by (cases "merge_globals loads") auto
  from assms g obtain us remaps where
    a: "loads \<noteq> []" "length loads = length tails + 1" "emap check_callee (tl loads) = Inr us"
    "merge_maps loads = Inr (k_maps k, remaps)"
    "merge_globals loads = (k_bss k, k_rodata k, renames, bases)"
    "efoldl (link_load (k_maps k)) ([], []) (link_items loads tails remaps renames bases) =
       Inr (k_instrs k, k_progs k)"
    "check_clashes [] (tl (k_progs k)) = Inr ()"
    by (auto simp: link_def ebind_eq_Inr Let_def split: if_splits prod.splits)
  have "check_callee (loads ! i) = Inr ()" if i: "0 < i" "i < length loads" for i
    using emap_nth [OF a(3), of "i - 1"] i by (simp add: nth_tl)
  with a show thesis using that by blast
qed

lemma tiles_nonempty: "tiles a rs b \<Longrightarrow> r \<in> set rs \<Longrightarrow> p_start r \<le> p_end r"
  by (induction rs arbitrary: a) auto

lemma same_code_exit: "same_code a b \<Longrightarrow> is_exit a = is_exit b"
  by (cases a; cases b) (auto simp: same_code_def instr_defs)

section \<open>Properties\<close>

text \<open>
  Merging the map tables gives a table whose identifiers are its positions, and
  renumbers the maps of every object correctly: each map of each object is sent to an entry with
  the geometry it was declared with, and two maps are sent to the same entry exactly when they
  have the same key, the shared name (or the object and the number, for maps without a name).
\<close>

theorem merge_maps_correct:
  assumes "merge_maps loads = Inr (merged, remaps)"
    and "\<forall>ld \<in> set loads. distinct (map m_id (l_maps ld))"
    and "i < length loads" and "a \<in> set (l_maps (loads ! i))"
    and "j < length loads" and "b \<in> set (l_maps (loads ! j))"
  shows "\<exists>k l. dict_get (remaps ! i) (m_id a) = Some (int k) \<and> k < length merged \<and>
     m_id (merged ! k) = int k \<and> geometry (merged ! k) = geometry a \<and>
     dict_get (remaps ! j) (m_id b) = Some (int l) \<and>
     (k = l \<longleftrightarrow> map_key_of a (l_path (loads ! i)) = map_key_of b (l_path (loads ! j)))"
proof -
  obtain index where inv: "merge_inv (merged, index)"
    and res: "\<And>i info. i < length loads \<Longrightarrow> info \<in> set (l_maps (loads ! i)) \<Longrightarrow>
      resolved (l_path (loads ! i)) (merged, index) (remaps ! i) info"
    using merge_maps_resolved [OF assms(1,2)] by metis
  from res [OF assms(3,4)] res [OF assms(5,6)] inv show ?thesis
    by (auto simp: resolved_def merge_inv_def)
qed

theorem merge_maps_correct_witness:
  "let m = \<lparr>m_id = 0, m_name = Some ''stats'', m_type = 1, m_key_size = 4, m_value_size = 8,
            m_max_entries = 16, m_flags = 0\<rparr>;
       main = \<lparr>l_instrs = [], l_maps = [m\<lparr>m_name := Some ''jmp'', m_type := 3\<rparr>, m\<lparr>m_id := 1\<rparr>],
               l_rodata = empty_rodata, l_bss = [], l_entry = ''main'', l_entry_idx = 0,
               l_path = ''a.o'', l_section = ''xdp''\<rparr>;
       callee = main\<lparr>l_maps := [m], l_path := ''b.o''\<rparr>
   in \<exists>merged remaps k. merge_maps [main, callee] = Inr (merged, remaps) \<and>
        dict_get (remaps ! 0) 1 = Some (int k) \<and> geometry (merged ! k) = geometry m"
proof -
  let ?m = "\<lparr>m_id = 0, m_name = Some ''stats'', m_type = 1, m_key_size = 4, m_value_size = 8,
            m_max_entries = 16, m_flags = 0\<rparr>"
  let ?main = "\<lparr>l_instrs = [], l_maps = [?m\<lparr>m_name := Some ''jmp'', m_type := 3\<rparr>, ?m\<lparr>m_id := 1\<rparr>],
               l_rodata = empty_rodata, l_bss = [], l_entry = ''main'', l_entry_idx = 0,
               l_path = ''a.o'', l_section = ''xdp''\<rparr>"
  let ?loads = "[?main, ?main\<lparr>l_maps := [?m], l_path := ''b.o''\<rparr>]"
  have "is_ok (merge_maps ?loads)" by code_simp
  then obtain merged remaps where ok: "merge_maps ?loads = Inr (merged, remaps)"
    by (auto simp: is_ok_def split: sum.splits)
  have "\<exists>k l. dict_get (remaps ! 0) (m_id (?m\<lparr>m_id := 1\<rparr>)) = Some (int k) \<and> k < length merged \<and>
     m_id (merged ! k) = int k \<and> geometry (merged ! k) = geometry (?m\<lparr>m_id := 1\<rparr>) \<and>
     dict_get (remaps ! 1) (m_id ?m) = Some (int l) \<and>
     (k = l \<longleftrightarrow> map_key_of (?m\<lparr>m_id := 1\<rparr>) (l_path (?loads ! 0)) = map_key_of ?m (l_path (?loads ! 1)))"
    by (rule merge_maps_correct [OF ok]) simp_all
  with ok show ?thesis by (auto simp: Let_def geometry_def)
qed

text \<open>
  The read-only data of every object is found, unchanged, at its base in the merged
  blob; the bases, which are added to the relocations of the object, are multiples of eight.
\<close>

theorem merge_globals_rodata:
  assumes "merge_globals loads = (bss, ro, renames, bases)" and "i < length loads"
    and "ro_data (l_rodata (loads ! i)) = Some data" and "data \<noteq> []"
  shows "\<exists>blob. ro_data ro = Some blob \<and> 8 dvd bases ! i \<and> length bases = length loads \<and>
     take (length data) (drop (bases ! i) blob) = data"
proof -
  let ?init = "\<lparr>g_bss = [], g_renames = [], g_rosyms = [], g_blob = [], g_bases = []\<rparr>"
  let ?g = "foldl merge_load_globals ?init loads"
  obtain added bs where g: "g_blob ?g = added" "g_bases ?g = bs" "length bs = length loads"
    "\<forall>i < length loads. 8 dvd bs ! i \<and>
       take (length (load_data (loads ! i))) (drop (bs ! i) added) = load_data (loads ! i)"
    using merge_globals_blob [of ?init loads] by auto
  have d: "load_data (loads ! i) = data" by (simp add: load_data_def assms(3))
  with g(4) assms(2,4) have "added \<noteq> []" by force
  with g assms d show ?thesis
    by (auto simp: merge_globals_def Let_def)
qed

theorem merge_globals_rodata_witness:
  "let ld = \<lparr>l_instrs = [], l_maps = [], l_rodata = empty_rodata\<lparr>ro_data := Some [1, 2, 3]\<rparr>,
             l_bss = [], l_entry = ''main'', l_entry_idx = 0, l_path = ''a.o'', l_section = ''xdp''\<rparr>
   in case merge_globals [ld, ld] of (bss, ro, renames, bases) \<Rightarrow>
        \<exists>blob. ro_data ro = Some blob \<and> take 3 (drop (bases ! 1) blob) = [1, 2, 3]"
proof -
  let ?ld = "\<lparr>l_instrs = [], l_maps = [], l_rodata = empty_rodata\<lparr>ro_data := Some [1, 2, 3]\<rparr>,
             l_bss = [], l_entry = ''main'', l_entry_idx = 0, l_path = ''a.o'', l_section = ''xdp''\<rparr>"
  obtain bss ro renames bases where g: "merge_globals [?ld, ?ld] = (bss, ro, renames, bases)"
    by (cases "merge_globals [?ld, ?ld]") auto
  from merge_globals_rodata [OF g, of 1 "[1, 2, 3]"] g show ?thesis
    by (auto simp: Let_def numeral_eq_Suc)
qed

text \<open>
  Claim C34.  A successful link lays the programs out one after the other: their regions tile the
  combined instruction list, so every instruction belongs to exactly the region that
  \<open>region_of\<close> reports; each object's code appears in its region in order and unchanged up to
  relocations; and if the instructions of every object were numbered by position, the combined
  ones are.
\<close>

theorem link_layout:
  assumes "link loads tails = Inr k"
    and "\<forall>ld \<in> set loads. \<forall>j < length (l_instrs ld). i_idx (l_instrs ld ! j) = j"
  shows "length (k_progs k) = length loads \<and> tiles 0 (k_progs k) (length (k_instrs k)) \<and>
     (\<forall>n < length (k_instrs k). i_idx (k_instrs k ! n) = n \<and>
        (\<exists>i < length loads. region_of (k_progs k) n = Some (k_progs k ! i) \<and>
           p_start (k_progs k ! i) \<le> n \<and>
           n - p_start (k_progs k ! i) < length (l_instrs (loads ! i)) \<and>
           same_code (k_instrs k ! n) (l_instrs (loads ! i) ! (n - p_start (k_progs k ! i)))))"
proof -
  from link_parts [OF assms(1)] obtain remaps renames bases where
    "efoldl (link_load (k_maps k)) ([], []) (link_items loads tails remaps renames bases) =
       Inr (k_instrs k, k_progs k)" by metis
  from link_run [OF this] have len: "length (k_progs k) = length loads"
    and til: "tiles 0 (k_progs k) (length (k_instrs k))"
    and at: "\<And>i. i < length loads \<Longrightarrow>
      linked_at (k_maps k) (link_items loads tails remaps renames bases ! i) (k_progs k ! i) (k_instrs k)"
    by (auto simp: link_items_def)
  have each: "i_idx (k_instrs k ! n) = n \<and>
      (\<exists>i < length loads. region_of (k_progs k) n = Some (k_progs k ! i) \<and>
         p_start (k_progs k ! i) \<le> n \<and>
         n - p_start (k_progs k ! i) < length (l_instrs (loads ! i)) \<and>
         same_code (k_instrs k ! n) (l_instrs (loads ! i) ! (n - p_start (k_progs k ! i))))"
    if n: "n < length (k_instrs k)" for n
  proof -
    from tiles_covers [OF til _ n] len obtain i where i: "i < length loads"
      and c: "contains (k_progs k ! i) n" by (auto simp: in_set_conv_nth)
    have r: "region_of (k_progs k) n = Some (k_progs k ! i)"
      using tiles_region_of [OF til _ c] i len by simp
    obtain j where j: "n = p_start (k_progs k ! i) + j"
      using c by (auto simp: contains_def le_iff_add)
    with c at [OF i] have jl: "j < length (l_instrs (loads ! i))"
      by (auto simp: contains_def linked_at_def link_items_def i)
    with at [OF i] i j have "same_code (k_instrs k ! n) (l_instrs (loads ! i) ! j)"
      and "i_idx (k_instrs k ! n) = p_start (k_progs k ! i) + i_idx (l_instrs (loads ! i) ! j)"
      by (simp_all add: linked_at_def link_items_def)
    with assms(2) i j jl r show ?thesis by auto
  qed
  show ?thesis using len til each by blast
qed

text \<open>
  What a successful link guarantees of the tail-call targets, and the analysis relies
  on: the callees occupy different maps, each a program array of the merged table, their code
  contains no tail call of its own, and every program but the last ends in an exit, so control
  cannot run from one program into the next.
\<close>

theorem link_callees:
  assumes "link loads tails = Inr k" and "i < length loads"
  shows "(0 < i \<longrightarrow> (\<exists>m \<in> set (k_maps k). m_type m = BPF_MAP_TYPE_PROG_ARRAY \<and>
                      p_map_id (k_progs k ! i) = Some (m_id m)) \<and>
                   p_slot (k_progs k ! i) = t_slot (tails ! (i - 1)) \<and>
                   (\<forall>ins \<in> set (l_instrs (loads ! i)). \<not> is_tail_call ins)) \<and>
     (\<forall>j. 0 < i \<longrightarrow> 0 < j \<longrightarrow> j < length loads \<longrightarrow> i \<noteq> j \<longrightarrow>
          p_map_id (k_progs k ! i) \<noteq> p_map_id (k_progs k ! j)) \<and>
     (i = 0 \<longrightarrow> is_main (k_progs k ! i)) \<and>
     (i + 1 < length loads \<longrightarrow> is_exit (k_instrs k ! p_end (k_progs k ! i)))"
proof -
  from link_parts [OF assms(1)] obtain remaps renames bases where
    callee: "\<And>i. 0 < i \<Longrightarrow> i < length loads \<Longrightarrow> check_callee (loads ! i) = Inr ()"
    and run: "efoldl (link_load (k_maps k)) ([], []) (link_items loads tails remaps renames bases) =
       Inr (k_instrs k, k_progs k)"
    and clash: "check_clashes [] (tl (k_progs k)) = Inr ()" by metis
  from link_run [OF run] have len: "length (k_progs k) = length loads"
    and til: "tiles 0 (k_progs k) (length (k_instrs k))"
    and at: "linked_at (k_maps k) (link_items loads tails remaps renames bases ! i) (k_progs k ! i) (k_instrs k)"
    using assms(2) by (auto simp: link_items_def)
  have "p_map_id (k_progs k ! i) \<noteq> p_map_id (k_progs k ! j)"
    if "0 < i" "0 < j" "j < length loads" "i \<noteq> j" for j
  proof -
    have "distinct (map p_map_id (tl (k_progs k)))" using check_clashes_distinct [OF clash] by blast
    then show ?thesis
      using that assms(2) len nth_eq_iff_index_eq [of "map p_map_id (tl (k_progs k))" "i - 1" "j - 1"]
      by (auto simp: nth_tl)
  qed
  moreover have "is_exit (k_instrs k ! p_end (k_progs k ! i))" if last: "i + 1 < length loads"
  proof -
    from at assms(2) have e: "Suc (p_end (k_progs k ! i)) =
        p_start (k_progs k ! i) + length (l_instrs (loads ! i))"
      and sc: "\<forall>j < length (l_instrs (loads ! i)).
        same_code (k_instrs k ! (p_start (k_progs k ! i) + j)) (l_instrs (loads ! i) ! j)"
      and ex: "is_exit (last (l_instrs (loads ! i)))"
      using last by (simp_all add: linked_at_def link_items_def)
    have "p_start (k_progs k ! i) \<le> p_end (k_progs k ! i)"
      using tiles_nonempty [OF til] assms(2) len by simp
    with e obtain j where j: "length (l_instrs (loads ! i)) = Suc j"
      "p_end (k_progs k ! i) = p_start (k_progs k ! i) + j"
      by (cases "length (l_instrs (loads ! i))") auto
    with ex have "is_exit (l_instrs (loads ! i) ! j)" by (cases "l_instrs (loads ! i)" rule: rev_cases) auto
    with sc j same_code_exit [of "k_instrs k ! (p_start (k_progs k ! i) + j)" "l_instrs (loads ! i) ! j"]
    show ?thesis by simp
  qed
  ultimately show ?thesis using at assms(2) callee [of i] check_callee_ok [of "loads ! i" "()"]
    by (auto simp: linked_at_def link_items_def is_main_def)
qed

text \<open>A main program and a tail-call target, decoded from bytes, for the witnesses.\<close>

definition demo_prog_array :: map_info where
  "demo_prog_array = \<lparr>m_id = 0, m_name = Some ''jmp'', m_type = 3, m_key_size = 4, m_value_size = 4,
     m_max_entries = 2, m_flags = 0\<rparr>"

definition demo_load :: "string \<Rightarrow> byte list \<Rightarrow> load" where
  "demo_load entry code =
     \<lparr>l_instrs = (case decode_text 0 0 0 code of Inl _ \<Rightarrow> [] | Inr instrs \<Rightarrow> instrs),
      l_maps = [demo_prog_array], l_rodata = empty_rodata, l_bss = [], l_entry = entry,
      l_entry_idx = 0, l_path = entry @ ''.o'', l_section = ''xdp''\<rparr>"

definition demo_loads :: "load list" where
  "demo_loads =
     [demo_load ''main'' (encode_slot 0xb7 0 0 0 2 @ encode_slot 0x85 0 0 0 12 @ encode_slot 0x95 0 0 0 0),
      demo_load ''callee'' (encode_slot 0xb7 0 0 0 1 @ encode_slot 0x95 0 0 0 0)]"

definition demo_tails :: "tail_spec list" where
  "demo_tails = [\<lparr>t_path = ''callee.o'', t_entry = ''callee'', t_map_name = None, t_slot = Some 1\<rparr>]"

theorem link_layout_witness:
  "\<exists>k. link demo_loads demo_tails = Inr k \<and> tiles 0 (k_progs k) (length (k_instrs k)) \<and>
     length (k_progs k) = 2"
proof -
  have "is_ok (link demo_loads demo_tails)" by code_simp
  then obtain k where k: "link demo_loads demo_tails = Inr k"
    by (auto simp: is_ok_def split: sum.splits)
  have "\<forall>ld \<in> set demo_loads. \<forall>j < length (l_instrs ld). i_idx (l_instrs ld ! j) = j" by code_simp
  from link_layout [OF k this] k show ?thesis by (auto simp: demo_loads_def)
qed

theorem link_callees_witness:
  "\<exists>k. link demo_loads demo_tails = Inr k \<and> p_slot (k_progs k ! 1) = Some 1 \<and>
     is_exit (k_instrs k ! p_end (k_progs k ! 0))"
proof -
  have "is_ok (link demo_loads demo_tails)" by code_simp
  then obtain k where k: "link demo_loads demo_tails = Inr k"
    by (auto simp: is_ok_def split: sum.splits)
  from link_callees [OF k, of 1] link_callees [OF k, of 0] k show ?thesis
    by (auto simp: demo_loads_def demo_tails_def)
qed

text \<open>
  The renaming of global variables by entry name is not collision free: with three objects whose
  entries are called \<open>main\<close>, \<open>f\<close> and \<open>f\<close> and which declare a \<open>c\<close> of 4, 8 and 16 bytes, the
  second and the third \<open>c\<close> are both renamed to \<open>f.c\<close>, and only the last one is kept.
\<close>

definition demo_globals :: "string \<Rightarrow> int \<Rightarrow> load" where
  "demo_globals entry sz =
     \<lparr>l_instrs = [], l_maps = [], l_rodata = empty_rodata,
      l_bss = [(''c'', \<lparr>s_size = sz, s_offset = 0\<rparr>)], l_entry = entry, l_entry_idx = 0,
      l_path = ''x.o'', l_section = ''xdp''\<rparr>"

lemma merge_globals_collision:
  "case merge_globals [demo_globals ''main'' 4, demo_globals ''f'' 8, demo_globals ''f'' 16] of
     (bss, ro, renames, bases) \<Rightarrow>
       renames = [[], [(''c'', ''f.c'')], [(''c'', ''f.c'')]] \<and>
       dict_get bss ''f.c'' = Some \<lparr>s_size = 16, s_offset = 0\<rparr>"
  by code_simp

end
