(* ===== verification/Py_Text.thy ===== *)
theory Py_Text
  imports Prelude
begin

text \<open>
  The text and number operations of Python that the policy reader uses, on ASCII strings:
  \<open>str.strip\<close>, \<open>str.split\<close> at one character, \<open>int(s, base)\<close> with its white space, sign, prefix
  and underscores, and \<open>int.to_bytes\<close> and \<open>int.from_bytes\<close>.  The limit CPython sets on the
  number of decimal digits of \<open>int(s)\<close> (4300) is left out.
\<close>

section \<open>White space\<close>

text \<open>\<open>str.isspace\<close> on ASCII; \<open>int\<close> skips only the C library's white space.\<close>

definition py_space :: "char \<Rightarrow> bool" where
  "py_space c \<longleftrightarrow> (let k = of_char c :: nat in k = 32 \<or> 9 \<le> k \<and> k \<le> 13 \<or> 28 \<le> k \<and> k \<le> 31)"

definition c_space :: "char \<Rightarrow> bool" where
  "c_space c \<longleftrightarrow> (let k = of_char c :: nat in k = 32 \<or> 9 \<le> k \<and> k \<le> 13)"

definition py_strip :: "string \<Rightarrow> string" where
  "py_strip s = rev (dropWhile py_space (rev (dropWhile py_space s)))"

text \<open>\<open>s.split(c)\<close>: one piece more than there are separators.\<close>

fun py_split :: "char \<Rightarrow> string \<Rightarrow> string list" where
  "py_split c [] = [[]]"
| "py_split c (x # s) = (if x = c then [] # py_split c s
                         else case py_split c s of p # ps \<Rightarrow> (x # p) # ps | [] \<Rightarrow> [[x]])"

section \<open>Numbers in text\<close>

definition digit_value :: "char \<Rightarrow> nat option" where
  "digit_value c = (let k = of_char c :: nat in
     if 48 \<le> k \<and> k \<le> 57 then Some (k - 48)
     else if 97 \<le> k \<and> k \<le> 122 then Some (k - 87)
     else if 65 \<le> k \<and> k \<le> 90 then Some (k - 55) else None)"

definition digit_in :: "nat \<Rightarrow> char \<Rightarrow> bool" where
  "digit_in base c = (case digit_value c of None \<Rightarrow> False | Some d \<Rightarrow> d < base)"

text \<open>The digits, from the left; \<open>None\<close> where an underscore does not stand between two digits.\<close>

fun scan_digits :: "nat \<Rightarrow> bool \<Rightarrow> string \<Rightarrow> nat list option" where
  "scan_digits base after [] = (if after then Some [] else None)"
| "scan_digits base after (c # s) =
     (if c = CHR ''_'' then (if after then scan_digits base False s else None)
      else map_option (Cons (the (digit_value c))) (scan_digits base True s))"

definition digits_value :: "nat \<Rightarrow> nat list \<Rightarrow> nat" where
  "digits_value base ds = foldl (\<lambda>a d. a * base + d) 0 ds"

definition drop_sign :: "string \<Rightarrow> bool \<times> string" where
  "drop_sign s = (case s of [] \<Rightarrow> (False, [])
     | c # r \<Rightarrow> if c = CHR ''+'' then (False, r) else if c = CHR ''-'' then (True, r) else (False, s))"

text \<open>The prefix of base 16, after which one underscore is allowed.\<close>

definition drop_prefix :: "nat \<Rightarrow> string \<Rightarrow> string" where
  "drop_prefix base s =
     (case s of c # x # r \<Rightarrow>
        if base = 16 \<and> c = CHR ''0'' \<and> (x = CHR ''x'' \<or> x = CHR ''X'')
        then (if r \<noteq> [] \<and> hd r = CHR ''_'' then tl r else r)
        else s
      | _ \<Rightarrow> s)"

definition py_int_str :: "nat \<Rightarrow> string \<Rightarrow> int res" where
  "py_int_str base s =
     (let (neg, s2) = drop_sign (dropWhile c_space s);
          s3 = drop_prefix base s2;
          body = takeWhile (\<lambda>c. digit_in base c \<or> c = CHR ''_'') s3;
          rest = dropWhile (\<lambda>c. digit_in base c \<or> c = CHR ''_'') s3
      in case scan_digits base False body of
           None \<Rightarrow> Inl (ValueError ''invalid literal for int()'')
         | Some ds \<Rightarrow>
             if list_all c_space rest then
               Inr (if neg then - int (digits_value base ds) else int (digits_value base ds))
             else Inl (ValueError ''invalid literal for int()''))"

text \<open>\<open>v[:2].lower() == '0x'\<close>\<close>

definition has_hex_prefix :: "string \<Rightarrow> bool" where
  "has_hex_prefix s = (case s of c # x # r \<Rightarrow> c = CHR ''0'' \<and> (x = CHR ''x'' \<or> x = CHR ''X'') | _ \<Rightarrow> False)"

section \<open>Numbers as bytes\<close>

text \<open>\<open>value.to_bytes(size, 'big')\<close>, and the number the bytes have in memory order.\<close>

definition int_to_bytes :: "int \<Rightarrow> nat \<Rightarrow> int list res" where
  "int_to_bytes k n =
     (if k < 0 \<or> 256 ^ n \<le> k then Inl OverflowError
      else Inr (map (\<lambda>i. k div 256 ^ (n - 1 - i) mod 256) [0..<n]))"

fun from_little :: "int list \<Rightarrow> int" where
  "from_little [] = 0"
| "from_little (b # bs) = b + 256 * from_little bs"

definition is_byte :: "int \<Rightarrow> bool" where
  "is_byte b \<longleftrightarrow> 0 \<le> b \<and> b < 256"

text \<open>\<open>int.from_bytes(bytes(bs), 'little')\<close>\<close>

definition little_int :: "int list \<Rightarrow> int res" where
  "little_int bs = (if list_all is_byte bs then Inr (from_little bs)
                    else Inl (ValueError ''bytes must be in range(0, 256)''))"

section \<open>Reading digits\<close>

lemma digit_value_underscore: "digit_value CHR ''_'' = None"
  by code_simp

lemma digit_in_nat: "d < 10 \<Longrightarrow> digit_value (char_of (48 + d)) = Some d"
  by (simp add: digit_value_def Let_def of_char_of)

lemma digit_in_code:
  assumes "digit_in base c"
  shows "of_char c \<in> {48..57 :: nat} \<or> of_char c \<in> {97..122 :: nat} \<or> of_char c \<in> {65..90 :: nat}"
  using assms unfolding digit_in_def digit_value_def Let_def by (auto split: if_splits)

lemma digit_in_char:
  assumes "digit_in base c"
  shows "\<not> c_space c" and "\<not> py_space c" and "c \<noteq> CHR ''+''" and "c \<noteq> CHR ''-''" and "c \<noteq> CHR ''.''"
    and "c \<noteq> CHR '':''" and "c \<noteq> CHR ''_''"
proof -
  note k = digit_in_code [OF assms]
  have "(of_char CHR ''+'' :: nat) = 43" "(of_char CHR ''-'' :: nat) = 45" "(of_char CHR ''.'' :: nat) = 46"
    "(of_char CHR '':'' :: nat) = 58" "(of_char CHR ''_'' :: nat) = 95" by code_simp+
  with k show "\<not> c_space c" "\<not> py_space c" "c \<noteq> CHR ''+''" "c \<noteq> CHR ''-''" "c \<noteq> CHR ''.''" "c \<noteq> CHR '':''" "c \<noteq> CHR ''_''"
    by (auto simp: c_space_def py_space_def Let_def)
qed

lemma scan_digits_all:
  assumes "list_all (digit_in base) s" and "after \<or> s \<noteq> []"
  shows "scan_digits base after s = Some (map (\<lambda>c. the (digit_value c)) s)"
  using assms
proof (induction s arbitrary: after)
  case (Cons c s)
  then have "c \<noteq> CHR ''_''" using digit_in_char(7) by (simp only: list.pred_inject) blast
  with Cons show ?case by (simp only: scan_digits.simps list.pred_inject if_False) simp
qed simp

definition text_value :: "nat \<Rightarrow> string \<Rightarrow> nat" where
  "text_value base s = digits_value base (map (\<lambda>c. the (digit_value c)) s)"

lemma py_int_str_digits:
  assumes "list_all (digit_in base) s" and "s \<noteq> []" and "\<not> (base = 16 \<and> has_hex_prefix s)"
  shows "py_int_str base s = Inr (int (text_value base s))"
proof -
  obtain c r where s: "s = c # r" using assms(2) by (cases s) auto
  then have c: "\<not> c_space c" "c \<noteq> CHR ''+''" "c \<noteq> CHR ''-''" using assms(1) digit_in_char [of base c] by simp_all
  have sg: "drop_sign (dropWhile c_space s) = (False, s)" using c s by (simp add: drop_sign_def)
  have "drop_prefix base s = s"
    using assms(3) by (auto simp: drop_prefix_def has_hex_prefix_def split: list.splits)
  moreover have "takeWhile (\<lambda>c. digit_in base c \<or> c = CHR ''_'') s = s" "dropWhile (\<lambda>c. digit_in base c \<or> c = CHR ''_'') s = []"
    using assms(1) by (auto simp: list_all_iff)
  ultimately show ?thesis
    using sg scan_digits_all [OF assms(1), of False] assms(2) by (simp only: py_int_str_def text_value_def Let_def split) simp
qed

lemma py_int_str_prefixed:
  assumes "list_all (digit_in 16) s" and "s \<noteq> []"
  shows "py_int_str 16 (CHR ''0'' # CHR ''x'' # s) = Inr (int (text_value 16 s))"
proof -
  have "\<not> c_space CHR ''0''" by code_simp
  then have sg: "drop_sign (dropWhile c_space (CHR ''0'' # CHR ''x'' # s)) = (False, CHR ''0'' # CHR ''x'' # s)"
    by (simp add: drop_sign_def)
  have "hd s \<noteq> CHR ''_''" using assms by (cases s) (auto simp: digit_in_def digit_value_underscore)
  then have "drop_prefix 16 (CHR ''0'' # CHR ''x'' # s) = s"
    using assms(2) by (cases s) (simp_all add: drop_prefix_def)
  moreover have "takeWhile (\<lambda>c. digit_in 16 c \<or> c = CHR ''_'') s = s" "dropWhile (\<lambda>c. digit_in 16 c \<or> c = CHR ''_'') s = []"
    using assms(1) by (auto simp: list_all_iff)
  ultimately show ?thesis
    using sg scan_digits_all [OF assms(1), of False] assms(2) by (simp only: py_int_str_def text_value_def Let_def split) simp
qed

text \<open>Decimal printing is read back.\<close>

lemma show_nat_digits: "list_all (digit_in 10) (show_nat n) \<and> show_nat n \<noteq> [] \<and> text_value 10 (show_nat n) = n"
proof (induction n rule: show_nat.induct)
  case (1 n)
  show ?case
  proof (cases "n < 10")
    case True
    then show ?thesis
      using digit_in_nat [of n] by (simp add: show_nat.simps [of n] digit_in_def text_value_def digits_value_def)
  next
    case False
    have m: "digit_value (char_of (48 + n mod 10)) = Some (n mod 10)" by (rule digit_in_nat) simp
    show ?thesis
      using 1 [OF False] False m
      by (simp add: show_nat.simps [of n] digit_in_def text_value_def digits_value_def)
  qed
qed

lemma show_nat_prefix: "\<not> has_hex_prefix (show_nat n)"
proof
  assume "has_hex_prefix (show_nat n)"
  then obtain x r where s: "show_nat n = CHR ''0'' # x # r" "x = CHR ''x'' \<or> x = CHR ''X''"
    by (auto simp: has_hex_prefix_def split: list.splits)
  then have "digit_in 10 x" using show_nat_digits [of n] by simp
  then show False using s(2) by (auto simp: digit_in_def digit_value_def)
qed

lemma py_int_str_show: "py_int_str 10 (show_nat n) = Inr (int n)"
  using py_int_str_digits [of 10 "show_nat n"] show_nat_digits [of n] by simp

text \<open>Splitting what was joined.\<close>

fun py_join :: "char \<Rightarrow> string list \<Rightarrow> string" where
  "py_join c [] = []"
| "py_join c [p] = p"
| "py_join c (p # q # ps) = p @ c # py_join c (q # ps)"

lemma py_split_free: "c \<notin> set p \<Longrightarrow> py_split c p = [p]"
  by (induction p) auto

lemma py_split_nonempty: "py_split c s \<noteq> []"
  by (induction s) (auto split: list.splits)

lemma py_split_sep: "c \<notin> set p \<Longrightarrow> py_split c (p @ c # s) = p # py_split c s"
  by (induction p) (auto split: list.splits)

lemma py_split_join: "list_all (\<lambda>p. c \<notin> set p) ps \<Longrightarrow> ps \<noteq> [] \<Longrightarrow> py_split c (py_join c ps) = ps"
  by (induction c ps rule: py_join.induct) (auto simp: py_split_free py_split_sep)

lemma py_strip_id:
  assumes "list_all (\<lambda>c. \<not> py_space c) s"
  shows "py_strip s = s"
proof -
  have "dropWhile py_space s = s" using assms by (cases s) auto
  moreover have "dropWhile py_space (rev s) = rev s" using assms by (cases "rev s") (auto simp: list_all_iff)
  ultimately show ?thesis by (simp add: py_strip_def)
qed

lemma set_py_join: "set (py_join c ps) \<subseteq> insert c (\<Union>p \<in> set ps. set p)"
  by (induction c ps rule: py_join.induct) auto

lemma sep_in_join: "1 < length ps \<Longrightarrow> c \<in> set (py_join c ps)"
  by (induction c ps rule: py_join.induct) auto

end
