(* ===== verification/Tail_Args.thy ===== *)
theory Tail_Args
  imports Link Py_Text
begin

text \<open>
  The \<open>--tail\<close> arguments of \<open>hornet/bpf/link.py\<close>: reading \<open>OBJ:ENTRY[@[MAP/]SLOT]\<close>
  (\<open>parse_tail_spec\<close>) and printing a target (\<open>TailSpec.as_flag\<close>, \<open>TailSpec.__str__\<close>), on ASCII text.
\<close>

section \<open>Python's \<open>partition\<close>, \<open>rpartition\<close> and \<open>int(s, 0)\<close>\<close>

text \<open>The part before, whether the separator occurs, and the part after.\<close>

fun py_partition :: "char \<Rightarrow> string \<Rightarrow> string \<times> bool \<times> string" where
  "py_partition c [] = ([], False, [])"
| "py_partition c (x # s) =
     (if x = c then ([], True, s) else let (a, found, b) = py_partition c s in (x # a, found, b))"

definition py_rpartition :: "char \<Rightarrow> string \<Rightarrow> string \<times> bool \<times> string" where
  "py_rpartition c s =
     (let (b, found, a) = py_partition c (rev s) in if found then (rev a, True, rev b) else ([], False, s))"

text \<open>
  Base 0 takes the base from the prefix; without one the number is decimal and, unless it is zero,
  does not start with \<open>0\<close>.
\<close>

definition prefix_base :: "string \<Rightarrow> nat option" where
  "prefix_base s = (case s of c # x # r \<Rightarrow>
       if c = CHR ''0'' then
         (if x = CHR ''x'' \<or> x = CHR ''X'' then Some 16 else if x = CHR ''o'' \<or> x = CHR ''O'' then Some 8
          else if x = CHR ''b'' \<or> x = CHR ''B'' then Some 2 else None)
       else None
     | _ \<Rightarrow> None)"

definition bad_number :: error where
  "bad_number = ValueError ''invalid literal for int()''"

definition py_int_str0 :: "string \<Rightarrow> int res" where
  "py_int_str0 s =
     (let (neg, s2) = drop_sign (dropWhile c_space s);
          (base, s3) = (case prefix_base s2 of
             Some b \<Rightarrow> (b, let r = drop 2 s2 in if r \<noteq> [] \<and> hd r = CHR ''_'' then tl r else r)
           | None \<Rightarrow> (10, s2));
          body = takeWhile (\<lambda>c. digit_in base c \<or> c = CHR ''_'') s3;
          rest = dropWhile (\<lambda>c. digit_in base c \<or> c = CHR ''_'') s3
      in case scan_digits base False body of
           None \<Rightarrow> Inl bad_number
         | Some ds \<Rightarrow>
             if \<not> list_all c_space rest \<or> (prefix_base s2 = None \<and> hd ds = 0 \<and> digits_value base ds \<noteq> 0)
             then Inl bad_number
             else Inr (if neg then - int (digits_value base ds) else int (digits_value base ds)))"

section \<open>Reading and printing a target\<close>

definition parse_slot :: "string \<Rightarrow> int option res" where
  "parse_slot txt =
     (let s = py_strip txt in
      if s = [] then Inr None
      else case py_int_str0 s of
             Inl e \<Rightarrow> Inl (LinkError ''--tail slot must be a number'')
           | Inr k \<Rightarrow> if k < 0 then Inl (LinkError ''--tail slot must not be negative'') else Inr (Some k))"

definition parse_tail_spec :: "string \<Rightarrow> tail_spec res" where
  "parse_tail_spec txt =
     (let (body, _, at) = py_partition (CHR ''@'') txt;
          (path, sep, entry) = py_rpartition (CHR '':'') body
      in
      if \<not> sep \<or> path = [] \<or> entry = [] then Inl (LinkError ''--tail wants OBJ:ENTRY[@[MAP/]SLOT]'')
      else if at = [] then Inr \<lparr>t_path = path, t_entry = entry, t_map_name = None, t_slot = None\<rparr>
      else
        let (mname, _, slot_text) = py_rpartition (CHR ''/'') at in
        ebind (parse_slot slot_text) (\<lambda>slot.
        Inr \<lparr>t_path = path, t_entry = entry, t_map_name = (if mname = [] then None else Some mname), t_slot = slot\<rparr>))"

text \<open>\<open>self.map_name or self.slot is not None\<close>: an empty name counts as none.\<close>

definition named_map :: "tail_spec \<Rightarrow> string" where
  "named_map ts = (case t_map_name ts of None \<Rightarrow> [] | Some m \<Rightarrow> m)"

definition flag_at :: "tail_spec \<Rightarrow> string" where
  "flag_at ts =
     (if named_map ts \<noteq> [] \<or> t_slot ts \<noteq> None then
        ''@'' @ (if named_map ts \<noteq> [] then named_map ts @ ''/'' else '''') @
        (case t_slot ts of None \<Rightarrow> '''' | Some k \<Rightarrow> show_int k)
      else '''')"

definition as_flag :: "tail_spec \<Rightarrow> string" where
  "as_flag ts = ''--tail '' @ t_path ts @ '':'' @ t_entry ts @ flag_at ts"

text \<open>\<open>os.path.basename\<close> is what follows the last slash.\<close>

definition show_tail_spec :: "tail_spec \<Rightarrow> string" where
  "show_tail_spec ts =
     (let (d, _, name) = py_rpartition (CHR ''/'') (t_path ts);
          at = (case t_slot ts of None \<Rightarrow> ''symbolic slot''
                | Some k \<Rightarrow> if named_map ts \<noteq> [] then named_map ts @ ''['' @ show_int k @ '']'' else ''slot '' @ show_int k)
      in name @ '':'' @ t_entry ts @ ''@'' @ at)"

section \<open>Printing is read back\<close>

lemma py_partition_free: "c \<notin> set p \<Longrightarrow> py_partition c p = (p, False, [])"
  by (induction p) auto

lemma py_partition_sep: "c \<notin> set p \<Longrightarrow> py_partition c (p @ c # s) = (p, True, s)"
  by (induction p) auto

lemma py_rpartition_free: "c \<notin> set p \<Longrightarrow> py_rpartition c p = ([], False, p)"
  by (simp add: py_rpartition_def py_partition_free)

lemma py_rpartition_sep: "c \<notin> set s \<Longrightarrow> py_rpartition c (p @ c # s) = (p, True, s)"
  using py_partition_sep [of c "rev s" "rev p"] by (simp add: py_rpartition_def)

lemma show_nat_zero: "hd (show_nat n) = CHR ''0'' \<Longrightarrow> n = 0"
proof (induction n rule: show_nat.induct)
  case (1 n)
  show ?case
  proof (cases "n < 10")
    case True
    then have "(of_char (char_of (48 + n) :: char) :: nat) = 48" using 1(2) by (simp add: show_nat.simps [of n])
    then show ?thesis using True by (simp add: of_char_of)
  next
    case False
    moreover have "show_nat (n div 10) \<noteq> []" using show_nat_digits by blast
    ultimately have "n div 10 = 0" using 1 by (simp add: show_nat.simps [of n])
    with False show ?thesis by simp
  qed
qed

lemma py_int_str0_show: "py_int_str0 (show_nat n) = Inr (int n)"
proof -
  have s: "list_all (digit_in 10) (show_nat n)" "show_nat n \<noteq> []" "text_value 10 (show_nat n) = n"
    using show_nat_digits [of n] by blast+
  then obtain c r where cr: "show_nat n = c # r" "digit_in 10 c" by (cases "show_nat n") auto
  have sg: "drop_sign (dropWhile c_space (show_nat n)) = (False, show_nat n)"
    using digit_in_char [OF cr(2)] by (simp add: cr(1) drop_sign_def)
  have no: "\<not> digit_in 10 CHR ''x''" "\<not> digit_in 10 CHR ''X''" "\<not> digit_in 10 CHR ''o''" "\<not> digit_in 10 CHR ''O''"
    "\<not> digit_in 10 CHR ''b''" "\<not> digit_in 10 CHR ''B''" by code_simp+
  have pb: "prefix_base (show_nat n) = None"
    using s(1) no unfolding cr(1) prefix_base_def by (cases r) auto
  have tk: "takeWhile (\<lambda>c. digit_in 10 c \<or> c = CHR ''_'') (show_nat n) = show_nat n"
    "dropWhile (\<lambda>c. digit_in 10 c \<or> c = CHR ''_'') (show_nat n) = []"
    using s(1) by (auto simp: list_all_iff)
  have z: "hd (map (\<lambda>c. the (digit_value c)) (show_nat n)) = 0 \<Longrightarrow> n = 0"
  proof -
    assume "hd (map (\<lambda>c. the (digit_value c)) (show_nat n)) = 0"
    then have "digit_value c = Some 0" using cr by (auto simp: digit_in_def split: option.splits)
    then have "(of_char c :: nat) = 48" by (auto simp: digit_value_def Let_def split: if_splits)
    moreover have "(of_char CHR ''0'' :: nat) = 48" by code_simp
    ultimately have "char_of (of_char c :: nat) = (char_of (of_char CHR ''0'' :: nat) :: char)" by (simp only:)
    then have "c = CHR ''0''" by (simp only: char_of_char)
    then show "n = 0" using show_nat_zero [of n] by (simp add: cr(1))
  qed
  show ?thesis
    using scan_digits_all [OF s(1), of False] s(2,3) z
    by (simp only: py_int_str0_def sg pb tk Let_def split option.case) (auto simp: text_value_def)
qed

text \<open>
  Printing a tail-call target as a flag and reading the flag gives the target back, for a
  path without \<open>@\<close> and an entry name without \<open>@\<close> and \<open>:\<close>, a map name that is not empty, and a slot
  that is not negative.
\<close>

theorem tail_flag_roundtrip:
  assumes "t_path ts \<noteq> []" and "t_entry ts \<noteq> []" and "CHR ''@'' \<notin> set (t_path ts @ t_entry ts)"
    and "CHR '':'' \<notin> set (t_entry ts)" and "t_map_name ts \<noteq> Some []"
    and "case t_slot ts of None \<Rightarrow> True | Some k \<Rightarrow> 0 \<le> k"
  shows "parse_tail_spec (drop 7 (as_flag ts)) = Inr ts"
proof -
  have d: "drop 7 (as_flag ts) = (t_path ts @ CHR '':'' # t_entry ts) @ flag_at ts" by (simp add: as_flag_def)
  have free: "CHR ''@'' \<notin> set (t_path ts @ CHR '':'' # t_entry ts)" using assms(3) by simp
  have rp: "py_rpartition (CHR '':'') (t_path ts @ CHR '':'' # t_entry ts) = (t_path ts, True, t_entry ts)"
    by (rule py_rpartition_sep [OF assms(4)])
  have slot: "parse_slot (case t_slot ts of None \<Rightarrow> '''' | Some k \<Rightarrow> show_int k) = Inr (t_slot ts)"
    and noslash: "CHR ''/'' \<notin> set (case t_slot ts of None \<Rightarrow> '''' | Some k \<Rightarrow> show_int k)"
  proof -
    have st: "py_strip (show_nat n) = show_nat n" "CHR ''/'' \<notin> set (show_nat n)" for n
    proof -
      have d: "digit_in 10 c" if "c \<in> set (show_nat n)" for c using show_nat_digits [of n] that by (simp add: list_all_iff)
      then show "py_strip (show_nat n) = show_nat n" by (intro py_strip_id) (auto simp: list_all_iff dest: digit_in_char(2))
      have "\<not> digit_in 10 CHR ''/''" by code_simp
      with d show "CHR ''/'' \<notin> set (show_nat n)" by blast
    qed
    show "parse_slot (case t_slot ts of None \<Rightarrow> '''' | Some k \<Rightarrow> show_int k) = Inr (t_slot ts)"
      using assms(6) st show_nat_digits
      by (cases "t_slot ts") (auto simp: parse_slot_def Let_def show_int_def py_int_str0_show py_strip_def)
    show "CHR ''/'' \<notin> set (case t_slot ts of None \<Rightarrow> '''' | Some k \<Rightarrow> show_int k)"
      using assms(6) st(2) by (auto simp: show_int_def split: option.splits)
  qed
  show ?thesis
  proof (cases "named_map ts \<noteq> [] \<or> t_slot ts \<noteq> None")
    case False
    then have "t_map_name ts = None" "t_slot ts = None" using assms(5) by (auto simp: named_map_def split: option.splits)
    then show ?thesis
      using assms(1,2) by (simp add: parse_tail_spec_def d flag_at_def named_map_def py_partition_free [OF free, simplified] rp)
  next
    case True
    define sl where "sl = (case t_slot ts of None \<Rightarrow> '''' | Some k \<Rightarrow> show_int k)"
    define at where "at = (if named_map ts \<noteq> [] then named_map ts @ ''/'' else '''') @ sl"
    have f: "flag_at ts = CHR ''@'' # at" using True by (simp add: flag_at_def at_def sl_def)
    have pt: "py_partition (CHR ''@'') (drop 7 (as_flag ts)) = (t_path ts @ CHR '':'' # t_entry ts, True, at)"
      unfolding d f by (rule py_partition_sep [OF free])
    have nm: "t_map_name ts = (if named_map ts = [] then None else Some (named_map ts))"
      using assms(5) by (auto simp: named_map_def split: option.splits)
    have "sl \<noteq> []" if "named_map ts = []"
      using True that show_nat_digits assms(6) by (auto simp: sl_def show_int_def split: option.splits)
    then have ne: "at \<noteq> []" by (auto simp: at_def)
    have "\<exists>sep. py_rpartition (CHR ''/'') at = (named_map ts, sep, sl)"
    proof (cases "named_map ts = []")
      case True
      then show ?thesis using py_rpartition_free [of "CHR ''/''" sl] noslash by (auto simp: at_def sl_def)
    next
      case False
      then show ?thesis using py_rpartition_sep [of "CHR ''/''" sl "named_map ts"] noslash by (auto simp: at_def sl_def)
    qed
    then obtain sep where "py_rpartition (CHR ''/'') at = (named_map ts, sep, sl)" by blast
    then show ?thesis
      using assms(1,2) ne slot nm by (simp add: parse_tail_spec_def pt rp sl_def)
  qed
qed

theorem tail_flag_roundtrip_witness:
  "parse_tail_spec ''b/decap.o:xdp_decap@jmp/3'' = Inr \<lparr>t_path = ''b/decap.o'', t_entry = ''xdp_decap'', t_map_name = Some ''jmp'', t_slot = Some 3\<rparr>"
proof -
  let ?ts = "\<lparr>t_path = ''b/decap.o'', t_entry = ''xdp_decap'', t_map_name = Some ''jmp'', t_slot = Some 3\<rparr>"
  have "drop 7 (as_flag ?ts) = ''b/decap.o:xdp_decap@jmp/3''" by code_simp
  with tail_flag_roundtrip [of ?ts] show ?thesis by simp
qed

end
