(* ===== verification/Loader.thy ===== *)
theory Loader
  imports Link
begin

text \<open>
  The loader of \<open>hornet/bpf/loader.py\<close>: the instructions, the map table, the globals and the
  relocations of one object file.  pyelftools is a parameter: what its accessors return is a record
  of the ELF file.  Strings of the BTF section are ASCII; log messages are left out, and \<open>_fail\<close> is
  \<open>SystemExit\<close>.
\<close>

section \<open>The ELF file\<close>

text \<open>\<open>st_shndx\<close> is a number, or a name such as \<open>'SHN_UNDEF'\<close>.\<close>

datatype shndx = Shn nat | Shn_name string

datatype sym_type = Stt_object | Stt_section | Stt_other

record elf_section =
  sc_name :: string
  sc_data :: "byte list"

record elf_symbol =
  y_name :: string
  y_value :: int
  y_size :: int
  y_shndx :: shndx
  y_type :: sym_type

record elf_reloc =
  rl_offset :: int
  rl_sym :: nat

text \<open>
  \<open>iter_sections\<close>, \<open>get_section_by_name\<close>, \<open>get_section\<close>, \<open>iter_symbols\<close>,
  \<open>get_symbol_by_name\<close>, \<open>get_symbol\<close> and \<open>iter_relocations\<close>.
\<close>

record elf_file =
  ef_sections :: "elf_section list"
  ef_by_name :: "string \<Rightarrow> elf_section option"
  ef_section :: "shndx \<Rightarrow> elf_section option res"
  ef_has_symtab :: bool
  ef_symbols :: "elf_symbol list"
  ef_symbols_named :: "string \<Rightarrow> elf_symbol list option"
  ef_symbol :: "nat \<Rightarrow> elf_symbol res"
  ef_relocs :: "string \<Rightarrow> elf_reloc list"

definition section_index :: "elf_file \<Rightarrow> string \<Rightarrow> nat option" where
  "section_index elf name =
     foldl (\<lambda>idx (i, s). if sc_name s = name then Some i else idx) None (enumerate 0 (ef_sections elf))"

section \<open>Unpacking\<close>

abbreviation (input) StructError :: error where
  "StructError \<equiv> RuntimeError ''struct.error''"

definition u32_at :: "byte list \<Rightarrow> nat \<Rightarrow> nat" where
  "u32_at d k = nat (from_le (take 4 (drop k d)))"

text \<open>\<open>n\<close> words of 32 bits from offset \<open>k\<close> on (\<open>unpack_from\<close>).\<close>

definition unpack_u32 :: "nat \<Rightarrow> byte list \<Rightarrow> nat \<Rightarrow> nat list res" where
  "unpack_u32 n d k =
     (if length d < k + 4 * n then Inl StructError else Inr (map (\<lambda>i. u32_at d (k + 4 * i)) [0..<n]))"

text \<open>\<open>iter_unpack('<3I', blob)\<close>\<close>

definition unpack_triples :: "byte list \<Rightarrow> (nat \<times> nat \<times> nat) list res" where
  "unpack_triples d =
     (if length d mod 12 \<noteq> 0 then Inl StructError
      else Inr (map (\<lambda>i. (u32_at d (12 * i), u32_at d (12 * i + 4), u32_at d (12 * i + 8))) [0..<length d div 12]))"

section \<open>BTF\<close>

datatype btf_extra =
    X_none
  | X_int nat
  | X_array nat nat nat
  | X_members "(string \<times> nat \<times> nat) list"
  | X_linkage nat
  | X_vars "(nat \<times> nat \<times> nat) list"

record btf_type =
  bt_name :: string
  bt_kind :: nat
  bt_vlen :: nat
  bt_kind_flag :: nat
  bt_ref :: nat
  bt_extra :: btf_extra

text \<open>\<open>types[i]\<close>, and its use as a dictionary: entry 0 is \<open>None\<close>.\<close>

definition type_at :: "btf_type option list \<Rightarrow> nat \<Rightarrow> btf_type res" where
  "type_at types i = (if i < length types then of_option TypeError (types ! i) else Inl IndexError)"

definition array_of :: "btf_type \<Rightarrow> (nat \<times> nat) res" where
  "array_of t = (case bt_extra t of X_array e i n \<Rightarrow> Inr (e, n) | _ \<Rightarrow> Inl TypeError)"

text \<open>
  A chain of more references than there are types has a cycle, on which Python's recursion fails;
  the fuel is the number of types.
\<close>

fun btf_size_n :: "nat \<Rightarrow> btf_type option list \<Rightarrow> nat \<Rightarrow> nat res" where
  "btf_size_n 0 types i = Inl (RuntimeError ''maximum recursion depth exceeded'')"
| "btf_size_n (Suc k) types i =
     (if i = 0 then Inr 0
      else ebind (type_at types i) (\<lambda>t.
        if bt_kind t \<in> {1, 4, 5, 6, 16, 19} then Inr (bt_ref t)
        else if bt_kind t = 2 then Inr 8
        else if bt_kind t = 3 then
          ebind (array_of t) (\<lambda>(e, n). ebind (btf_size_n k types e) (\<lambda>s. Inr (s * n)))
        else if bt_kind t \<in> {8, 9, 10, 11, 18} then btf_size_n k types (bt_ref t)
        else Inr 0))"

definition btf_type_size :: "btf_type option list \<Rightarrow> nat \<Rightarrow> nat res" where
  "btf_type_size types i = btf_size_n (Suc (length types)) types i"

definition EXTRA_FIXED :: "(nat \<times> nat) list" where
  "EXTRA_FIXED = [(1, 4), (3, 12), (14, 4), (17, 4)]"

definition EXTRA_VLEN :: "(nat \<times> nat) list" where
  "EXTRA_VLEN = [(4, 12), (5, 12), (6, 8), (13, 8), (15, 12), (19, 12)]"

definition extra_size :: "nat \<Rightarrow> nat \<Rightarrow> nat" where
  "extra_size kind vlen = (case dict_get EXTRA_FIXED kind of Some n \<Rightarrow> n
     | None \<Rightarrow> (case dict_get EXTRA_VLEN kind of Some n \<Rightarrow> n * vlen | None \<Rightarrow> 0))"

definition get_str :: "byte list \<Rightarrow> nat \<Rightarrow> nat \<Rightarrow> string res" where
  "get_str d base off =
     (let r = drop (base + off) d in
      if 0 \<in> set r then Inr (map (\<lambda>b. char_of (unat b)) (takeWhile (\<lambda>b. b \<noteq> 0) r))
      else Inl (ValueError ''subsection not found''))"

definition btf_extra_of :: "(nat \<Rightarrow> string res) \<Rightarrow> nat \<Rightarrow> byte list \<Rightarrow> btf_extra res" where
  "btf_extra_of str kind blob =
     (if kind = 1 then (if length blob = 4 then Inr (X_int (u32_at blob 0)) else Inl StructError)
      else if kind = 3 then
        (if length blob = 12 then Inr (X_array (u32_at blob 0) (u32_at blob 4) (u32_at blob 8)) else Inl StructError)
      else if kind = 4 \<or> kind = 5 then
        ebind (unpack_triples blob) (\<lambda>ts. ebind (emap (\<lambda>(o1, t, off). ebind (str o1) (\<lambda>n. Inr (n, t, off))) ts) (\<lambda>ms.
        Inr (X_members ms)))
      else if kind = 14 then (if length blob = 4 then Inr (X_linkage (u32_at blob 0)) else Inl StructError)
      else if kind = 15 then ebind (unpack_triples blob) (\<lambda>ts. Inr (X_vars ts))
      else Inr X_none)"

definition parse_btf_type :: "byte list \<Rightarrow> nat \<Rightarrow> nat \<Rightarrow> (btf_type \<times> nat) res" where
  "parse_btf_type d str_base pos =
     ebind (unpack_u32 3 d pos) (\<lambda>ws.
     let info = ws ! 1; vlen = info mod 0x10000; kind = info div 2 ^ 24 mod 0x20; n = extra_size kind vlen in
     ebind (btf_extra_of (get_str d str_base) kind (take n (drop (pos + 12) d))) (\<lambda>extra.
     ebind (get_str d str_base (ws ! 0)) (\<lambda>name.
     Inr (\<lparr>bt_name = name, bt_kind = kind, bt_vlen = vlen, bt_kind_flag = info div 2 ^ 31 mod 2, bt_ref = ws ! 2,
           bt_extra = extra\<rparr>, pos + 12 + n))))"

text \<open>Every round moves the position by at least twelve bytes.\<close>

function parse_types :: "byte list \<Rightarrow> nat \<Rightarrow> nat \<Rightarrow> nat \<Rightarrow> btf_type option list res" where
  "parse_types d str_base type_end pos =
     (if \<not> pos < type_end then Inr []
      else case parse_btf_type d str_base pos of
          Inl e \<Rightarrow> Inl e
        | Inr (t, pos') \<Rightarrow> ebind (parse_types d str_base type_end pos') (\<lambda>ts. Inr (Some t # ts)))"
  by pat_completeness auto
termination
  by (relation "measure (\<lambda>(d, b, te, pos). te - pos)") (auto simp: parse_btf_type_def ebind_eq_Inr Let_def)

declare parse_types.simps [simp del]

text \<open>
  \<open>'<HBBIIIII'\<close>: the magic, the version and the flags in the first four bytes, then five words.
\<close>

definition parse_btf :: "byte list \<Rightarrow> btf_type option list res" where
  "parse_btf d =
     ebind (unpack_u32 6 d 0) (\<lambda>ws.
     if ws ! 0 mod 0x10000 \<noteq> 0xEB9F then Inl (ValueError ''Invalid BTF magic'')
     else
       let hdr_len = ws ! 1; type_off = ws ! 2; type_len = ws ! 3; str_off = ws ! 4; pos = hdr_len + type_off in
       ebind (parse_types d (hdr_len + str_off) (pos + type_len) pos) (\<lambda>ts. Inr (None # ts)))"

section \<open>The map table from BTF\<close>

definition UINT_MEMBERS :: "(string \<times> string) list" where
  "UINT_MEMBERS = [(''type'', ''type''), (''max_entries'', ''max_entries''), (''map_flags'', ''flags''),
     (''key_size'', ''key_size''), (''value_size'', ''value_size'')]"

definition TYPE_MEMBERS :: "(string \<times> string) list" where
  "TYPE_MEMBERS = [(''key'', ''key_size''), (''value'', ''value_size'')]"

text \<open>\<open>info[field] = k\<close>\<close>

definition set_field :: "string \<Rightarrow> nat \<Rightarrow> map_info \<Rightarrow> map_info" where
  "set_field f k m =
     (if f = ''type'' then m\<lparr>m_type := int k\<rparr>
      else if f = ''max_entries'' then m\<lparr>m_max_entries := int k\<rparr>
      else if f = ''flags'' then m\<lparr>m_flags := int k\<rparr>
      else if f = ''key_size'' then m\<lparr>m_key_size := int k\<rparr>
      else m\<lparr>m_value_size := int k\<rparr>)"

definition member_step :: "btf_type option list \<Rightarrow> map_info \<Rightarrow> string \<times> nat \<times> nat \<Rightarrow> map_info res" where
  "member_step types m mem = (case mem of (name, ti, off) \<Rightarrow>
     ebind (type_at types ti) (\<lambda>mt.
     if bt_kind mt \<noteq> 2 then Inr m
     else case dict_get UINT_MEMBERS name of
       Some f \<Rightarrow> ebind (type_at types (bt_ref mt)) (\<lambda>pt.
         if bt_kind pt = 3 then ebind (array_of pt) (\<lambda>(e, n). Inr (set_field f n m)) else Inr m)
     | None \<Rightarrow> (case dict_get TYPE_MEMBERS name of
         Some f \<Rightarrow> ebind (btf_type_size types (bt_ref mt)) (\<lambda>n. Inr (set_field f n m))
       | None \<Rightarrow> Inr m)))"

definition prog_array_sizes :: "map_info \<Rightarrow> map_info" where
  "prog_array_sizes m =
     (if m_type m = BPF_MAP_TYPE_PROG_ARRAY
      then m\<lparr>m_key_size := if m_key_size m = 0 then 4 else m_key_size m,
             m_value_size := if m_value_size m = 0 then 4 else m_value_size m\<rparr>
      else m)"

definition members_of :: "btf_type \<Rightarrow> (string \<times> nat \<times> nat) list res" where
  "members_of t = (case bt_extra t of X_members ms \<Rightarrow> Inr ms | _ \<Rightarrow> Inl TypeError)"

definition btf_map :: "btf_type option list \<Rightarrow> map_info list \<Rightarrow> nat \<times> nat \<times> nat \<times> nat \<Rightarrow> map_info list res" where
  "btf_map types maps v = (case v of (map_id, ti, off, sz) \<Rightarrow>
     ebind (type_at types ti) (\<lambda>vt.
     if bt_kind vt \<noteq> 14 then Inr maps
     else ebind (type_at types (bt_ref vt)) (\<lambda>st.
       if bt_kind st \<noteq> 4 then Inr maps
       else ebind (members_of st) (\<lambda>ms.
         ebind (efoldl (member_step types)
                 \<lparr>m_id = int map_id, m_name = Some (bt_name vt), m_type = 0, m_key_size = 0, m_value_size = 0,
                  m_max_entries = 0, m_flags = 0\<rparr> ms) (\<lambda>m.
         Inr (maps @ [prog_array_sizes m])))))) "

definition is_maps_datasec :: "btf_type option \<Rightarrow> bool" where
  "is_maps_datasec t = (case t of None \<Rightarrow> False | Some t \<Rightarrow> bt_kind t = 15 \<and> bt_name t = ''.maps'')"

definition vars_of :: "btf_type \<Rightarrow> (nat \<times> nat \<times> nat) list res" where
  "vars_of t = (case bt_extra t of X_vars vs \<Rightarrow> Inr vs | _ \<Rightarrow> Inl TypeError)"

definition maps_of_types :: "btf_type option list \<Rightarrow> map_info list res" where
  "maps_of_types types =
     (case find is_maps_datasec (tl types) of
        Some (Some ds) \<Rightarrow> ebind (vars_of ds) (\<lambda>vs. efoldl (btf_map types) [] (enumerate 0 vs))
      | _ \<Rightarrow> Inr [])"

definition parse_maps_btf :: "elf_file \<Rightarrow> map_info list res" where
  "parse_maps_btf elf =
     (case ef_by_name elf ''.BTF'' of
        None \<Rightarrow> Inl (ValueError ''decode_binary: .maps is BTF-format but no .BTF section found'')
      | Some s \<Rightarrow> ebind (parse_btf (sc_data s)) maps_of_types)"

section \<open>The instructions\<close>

definition exit_with :: "string \<Rightarrow> 'a res" where
  "exit_with msg = Inl (SystemExit msg)"

definition parse_instrs :: "elf_file \<Rightarrow> string \<Rightarrow> (instr list \<times> elf_section \<times> int) res" where
  "parse_instrs elf main_func =
     (case ef_symbols_named elf main_func of
        None \<Rightarrow> exit_with ''No symbol named''
      | Some [] \<Rightarrow> Inl IndexError
      | Some (y # ys) \<Rightarrow>
          ebind (ef_section elf (y_shndx y)) (\<lambda>s. case s of
            None \<Rightarrow> exit_with ''No main program section found in binary''
          | Some txt \<Rightarrow>
              if length (sc_data txt) mod 8 \<noteq> 0 then exit_with ''Text section size is not a multiple of 64 bits''
              else ebind (decode_text (y_value y div 8) 0 0 (sc_data txt)) (\<lambda>instrs.
                Inr (instrs, txt, y_value y div 8))))"

section \<open>The map table\<close>

abbreviation (input) MAP_DEF_SIZE :: nat where "MAP_DEF_SIZE \<equiv> 20"

definition map_names :: "elf_file \<Rightarrow> nat option \<Rightarrow> (int \<times> string) list" where
  "map_names elf idx =
     foldl (\<lambda>d y. if map_option Shn idx = Some (y_shndx y) then dict_set (y_value y div 20) (y_name y) d else d)
       [] (ef_symbols elf)"

definition map_def :: "(int \<times> string) list \<Rightarrow> byte list \<Rightarrow> nat \<Rightarrow> map_info" where
  "map_def names d mi =
     (let at = MAP_DEF_SIZE * mi in
      \<lparr>m_id = int mi, m_name = dict_get names (int mi), m_type = int (u32_at d at), m_key_size = int (u32_at d (at + 4)),
       m_value_size = int (u32_at d (at + 8)), m_max_entries = int (u32_at d (at + 12)), m_flags = int (u32_at d (at + 16))\<rparr>)"

definition parse_maps :: "elf_file \<Rightarrow> map_info list res" where
  "parse_maps elf =
     (let (sec, s) = (case ef_by_name elf ''.maps'' of Some s \<Rightarrow> (''.maps'', Some s)
                      | None \<Rightarrow> (''maps'', ef_by_name elf ''maps''));
          d = (case s of None \<Rightarrow> [] | Some s \<Rightarrow> sc_data s)
      in
      if d = [] then Inr []
      else if list_all (\<lambda>b. b = 0) d then parse_maps_btf elf
      else Inr (map (map_def (map_names elf (section_index elf sec)) d) [0..<length d div MAP_DEF_SIZE]))"

section \<open>Globals\<close>

definition object_symbols :: "elf_file \<Rightarrow> string \<Rightarrow> nat option \<times> (string \<times> symbol) list" where
  "object_symbols elf sec =
     (case ef_by_name elf sec of None \<Rightarrow> (None, [])
      | Some s \<Rightarrow>
          let idx = section_index elf sec in
          (idx, foldl (\<lambda>d y. if map_option Shn idx = Some (y_shndx y) \<and> y_type y = Stt_object
                        then dict_set (y_name y) \<lparr>s_size = y_size y, s_offset = y_value y\<rparr> d else d) [] (ef_symbols elf)))"

text \<open>
  The dictionary of the code holds the symbols beside the keys \<open>data\<close> and \<open>section_idx\<close>; a symbol
  of that name replaces the entry there, which the record cannot show.
\<close>

definition parse_rodata :: "elf_file \<Rightarrow> rodata" where
  "parse_rodata elf =
     (case object_symbols elf ''.rodata'' of
        (None, syms) \<Rightarrow> empty_rodata
      | (Some idx, syms) \<Rightarrow>
          \<lparr>ro_data = map_option sc_data (ef_by_name elf ''.rodata''), ro_section_idx = Some (int idx), ro_syms = syms\<rparr>)"

definition parse_bss :: "elf_file \<Rightarrow> (string \<times> symbol) list" where
  "parse_bss elf = snd (object_symbols elf ''.bss'')"

section \<open>Relocations\<close>

fun object_at :: "(string \<times> symbol) list \<Rightarrow> int \<Rightarrow> string option \<times> int" where
  "object_at [] addr = (None, addr)"
| "object_at ((name, s) # objects) addr =
     (if s_offset s \<le> addr \<and> addr < s_offset s + max (s_size s) 1 then (Some name, s_offset s) else object_at objects addr)"

definition map_stride :: "elf_file \<Rightarrow> map_info list \<Rightarrow> int" where
  "map_stride elf maps =
     (case ef_by_name elf ''.maps'' of
        Some s \<Rightarrow> if maps \<noteq> [] then int (length (sc_data s) div length maps) else int MAP_DEF_SIZE
      | None \<Rightarrow> int MAP_DEF_SIZE)"

definition map_of_symbol :: "elf_file \<Rightarrow> map_info list \<Rightarrow> elf_symbol \<Rightarrow> int res" where
  "map_of_symbol elf maps y =
     (case find_idx (\<lambda>m. m_name m = Some (y_name y)) maps of
        Some i \<Rightarrow> Inr (int i)
      | None \<Rightarrow> if map_stride elf maps = 0 then Inl (RuntimeError ''division by zero'') else Inr (y_value y div map_stride elf maps))"

text \<open>What one relocation does to the instruction of its line: \<open>None\<close> where it is skipped.\<close>

definition reloc_target :: "elf_file \<Rightarrow> map_info list \<Rightarrow> int \<Rightarrow> elf_reloc \<Rightarrow> (string \<times> elf_symbol) option res" where
  "reloc_target elf maps text_size r =
     (if text_size \<le> rl_offset r then Inr None
      else ebind (ef_symbol elf (rl_sym r)) (\<lambda>y.
        case y_shndx y of
          Shn_name nm \<Rightarrow> Inr None
        | Shn n \<Rightarrow>
            if n = 0 \<or> 100 < n then Inr None
            else ebind (ef_section elf (Shn n)) (\<lambda>s. Inr (map_option (\<lambda>s. (sc_name s, y)) s))))"

definition retag_map :: "int \<Rightarrow> instr \<Rightarrow> instr" where
  "retag_map map_id ins = set_reloc_tag ins (MapTag map_id) 0 None 0"

definition retag_bss :: "(string \<times> symbol) list \<Rightarrow> elf_symbol \<Rightarrow> instr \<Rightarrow> instr" where
  "retag_bss bss y ins =
     (let addr = y_value y + i_imm ins; (key, base) = object_at bss addr in
      set_reloc_tag ins (case key of None \<Rightarrow> NoTag | Some k \<Rightarrow> SymTag k) 1 None (addr - base))"

definition retag_rodata :: "elf_symbol \<Rightarrow> instr \<Rightarrow> instr" where
  "retag_rodata y ins = set_reloc_tag ins (SymTag ''rodata'') 2 (Some (y_value y + i_imm ins)) 0"

definition update_line :: "instr list \<Rightarrow> int \<Rightarrow> (instr \<Rightarrow> instr) \<Rightarrow> instr list res" where
  "update_line instrs k f = (case py_index instrs k of None \<Rightarrow> Inl IndexError | Some i \<Rightarrow> Inr (instrs[i := f (instrs ! i)]))"

definition apply_reloc ::
  "elf_file \<Rightarrow> map_info list \<Rightarrow> (string \<times> symbol) list \<Rightarrow> int \<Rightarrow> instr list \<Rightarrow> elf_reloc \<Rightarrow> instr list res" where
  "apply_reloc elf maps bss text_size instrs r =
     ebind (reloc_target elf maps text_size r) (\<lambda>tg. case tg of
       None \<Rightarrow> Inr instrs
     | Some (sec, y) \<Rightarrow>
         let line = rl_offset r div 8 in
         if y_type y = Stt_object \<and> (sec = ''maps'' \<or> sec = ''.maps'') then
           ebind (map_of_symbol elf maps y) (\<lambda>map_id. update_line instrs line (retag_map map_id))
         else if sec = ''.bss'' \<and> y_type y \<in> {Stt_section, Stt_object} then update_line instrs line (retag_bss bss y)
         else if sec = ''.rodata'' \<and> y_type y \<in> {Stt_section, Stt_object} then update_line instrs line (retag_rodata y)
         else Inr instrs)"

definition apply_relocations ::
  "elf_file \<Rightarrow> instr list \<Rightarrow> (string \<times> symbol) list \<Rightarrow> elf_section \<Rightarrow> map_info list \<Rightarrow> instr list res" where
  "apply_relocations elf instrs bss txt maps =
     (case ef_by_name elf (''.rel'' @ sc_name txt) of
        None \<Rightarrow> Inr instrs
      | Some s \<Rightarrow> efoldl (apply_reloc elf maps bss (int (length (sc_data txt)))) instrs (ef_relocs elf (''.rel'' @ sc_name txt)))"

definition decode_binary :: "elf_file \<Rightarrow> string \<Rightarrow> string \<Rightarrow> load res" where
  "decode_binary elf file_path main_func =
     (if \<not> ef_has_symtab elf then exit_with ''No .symtab section in the object file''
      else
        ebind (parse_instrs elf main_func) (\<lambda>(instrs, txt, entry_idx).
        ebind (parse_maps elf) (\<lambda>maps.
        let ro = parse_rodata elf; bss = parse_bss elf in
        ebind (apply_relocations elf instrs bss txt maps) (\<lambda>instrs.
        Inr \<lparr>l_instrs = instrs, l_maps = maps, l_rodata = ro, l_bss = bss, l_entry = main_func, l_entry_idx = entry_idx,
             l_path = file_path, l_section = sc_name txt\<rparr>))))"

section \<open>Lemmas on objects and relocations\<close>

lemma object_at_found:
  "object_at objects addr = (Some k, base) \<Longrightarrow> distinct (map fst objects) \<Longrightarrow>
   \<exists>s. dict_get objects k = Some s \<and> s_offset s = base \<and> base \<le> addr \<and> addr < base + max (s_size s) 1"
proof (induction objects addr rule: object_at.induct)
  case (2 name s objects addr)
  show ?case
  proof (cases "s_offset s \<le> addr \<and> addr < s_offset s + max (s_size s) 1")
    case False
    then obtain t where t: "dict_get objects k = Some t" "s_offset t = base" "base \<le> addr" "addr < base + max (s_size t) 1"
      using 2 by auto
    then have "k \<noteq> name" using 2(3) map_of_SomeD [OF t(1)] by (auto simp: rev_image_eqI)
    with t show ?thesis by simp
  qed (use 2 in simp)
qed simp

lemma object_at_none: "object_at objects addr = (None, base) \<longleftrightarrow>
   base = addr \<and> list_all (\<lambda>(k, s). \<not> (s_offset s \<le> addr \<and> addr < s_offset s + max (s_size s) 1)) objects"
  by (induction objects addr rule: object_at.induct) auto

lemma parse_bss_distinct: "distinct (map fst (parse_bss elf))"
proof -
  have "distinct (map fst (foldl (\<lambda>d y. if P y then dict_set (f y) (g y) d else d) d0 ys))" if "distinct (map fst d0)"
    for P and f :: "elf_symbol \<Rightarrow> string" and g :: "elf_symbol \<Rightarrow> symbol" and d0 ys
    using that by (induction ys arbitrary: d0) (simp_all add: distinct_update)
  then show ?thesis by (simp add: parse_bss_def object_symbols_def Let_def split: option.split)
qed

text \<open>
  Claim C38.  A relocated access to a global names the object its address lies in and the distance from
  the start of that object, so that object and offset together give the address back and the offset is
  within the object.  An address outside every object is given no name and offset 0, whatever it is.
\<close>

theorem bss_reloc_address:
  "let addr = y_value y + i_imm ins; out = retag_bss (parse_bss elf) y ins in
   i_relocated out \<and> i_reloc_region out = 1 \<and>
   (case i_reloc_tag out of
      SymTag k \<Rightarrow> (case dict_get (parse_bss elf) k of None \<Rightarrow> False
        | Some s \<Rightarrow> s_offset s + i_bss_offset out = addr \<and> 0 \<le> i_bss_offset out \<and> i_bss_offset out < max (s_size s) 1)
    | MapTag i \<Rightarrow> False
    | NoTag \<Rightarrow> i_bss_offset out = 0 \<and>
        list_all (\<lambda>(k, s). \<not> (s_offset s \<le> addr \<and> addr < s_offset s + max (s_size s) 1)) (parse_bss elf))"
proof -
  let ?addr = "y_value y + i_imm ins"
  obtain key base where o: "object_at (parse_bss elf) ?addr = (key, base)" by (cases "object_at (parse_bss elf) ?addr")
  show ?thesis
  proof (cases key)
    case None
    then show ?thesis using o object_at_none [of "parse_bss elf" ?addr base] by (simp add: retag_bss_def Let_def set_reloc_tag_def)
  next
    case (Some k)
    then show ?thesis
      using object_at_found [OF o [unfolded Some] parse_bss_distinct] o by (auto simp: retag_bss_def Let_def set_reloc_tag_def)
  qed
qed

text \<open>What a relocation may change of an instruction.\<close>

definition same_but_tags :: "instr \<Rightarrow> instr \<Rightarrow> bool" where
  "same_but_tags a b \<longleftrightarrow> b = a\<lparr>i_relocated := i_relocated b, i_reloc_tag := i_reloc_tag b, i_reloc_region := i_reloc_region b,
     i_rodata_offset := i_rodata_offset b, i_bss_offset := i_bss_offset b\<rparr>"

lemma same_but_tags_refl: "same_but_tags a a"
  by (simp add: same_but_tags_def)

lemma same_but_tags_trans: "same_but_tags a b \<Longrightarrow> same_but_tags b c \<Longrightarrow> same_but_tags a c"
  unfolding same_but_tags_def by (cases a; cases b; cases c) simp

lemma retag_same: "same_but_tags ins (retag_map k ins)" "same_but_tags ins (retag_bss bss y ins)" "same_but_tags ins (retag_rodata y ins)"
  by (cases ins; simp add: same_but_tags_def retag_map_def retag_bss_def retag_rodata_def set_reloc_tag_def Let_def split: prod.split)+

definition lines_kept :: "int set \<Rightarrow> instr list \<Rightarrow> instr list \<Rightarrow> bool" where
  "lines_kept ls a b \<longleftrightarrow> length b = length a \<and>
     (\<forall>k < length a. same_but_tags (a ! k) (b ! k) \<and> (int k \<notin> ls \<longrightarrow> b ! k = a ! k))"

lemma lines_kept_refl: "lines_kept ls a a"
  by (simp add: lines_kept_def same_but_tags_refl)

lemma lines_kept_mono: "lines_kept ls x y \<Longrightarrow> ls \<subseteq> ls' \<Longrightarrow> lines_kept ls' x y"
  unfolding lines_kept_def by blast

lemma lines_kept_trans: "lines_kept ls a b \<Longrightarrow> lines_kept ls b c \<Longrightarrow> lines_kept ls a c"
  unfolding lines_kept_def by (metis same_but_tags_trans)

lemma update_line_kept:
  assumes "update_line a k f = Inr b" and "\<And>ins. same_but_tags ins (f ins)" and "0 \<le> k" and "k \<in> ls"
  shows "lines_kept ls a b"
  using assms by (auto simp: update_line_def py_index_def lines_kept_def nth_list_update same_but_tags_refl split: option.splits if_splits)

lemma apply_reloc_kept:
  assumes "apply_reloc elf maps bss n a r = Inr b" and "0 \<le> rl_offset r"
  shows "lines_kept {rl_offset r div 8} a b"
proof -
  have l: "0 \<le> rl_offset r div 8" using assms(2) by simp
  obtain tg where tg: "reloc_target elf maps n r = Inr tg" using assms(1) by (auto simp: apply_reloc_def ebind_eq_Inr)
  consider "b = a" | f where "update_line a (rl_offset r div 8) f = Inr b" "\<forall>ins. same_but_tags ins (f ins)"
  proof (cases tg)
    case None
    then show thesis using assms(1) tg that(1) by (simp add: apply_reloc_def)
  next
    case (Some sy)
    obtain sec y where sy: "sy = (sec, y)" by (cases sy)
    have r: "ebind (Inr (Some (sec, y))) (\<lambda>tg. case tg of None \<Rightarrow> Inr a | Some (sec, y) \<Rightarrow> let line = rl_offset r div 8 in
         if y_type y = Stt_object \<and> (sec = ''maps'' \<or> sec = ''.maps'') then
           ebind (map_of_symbol elf maps y) (\<lambda>map_id. update_line a line (retag_map map_id))
         else if sec = ''.bss'' \<and> y_type y \<in> {Stt_section, Stt_object} then update_line a line (retag_bss bss y)
         else if sec = ''.rodata'' \<and> y_type y \<in> {Stt_section, Stt_object} then update_line a line (retag_rodata y)
         else Inr a) = Inr b" using assms(1) tg Some sy by (simp only: apply_reloc_def)
    show thesis
    proof (rule ccontr)
      assume c: "\<not> thesis"
      then have n: "b \<noteq> a" "\<And>f. \<forall>ins. same_but_tags ins (f ins) \<Longrightarrow> update_line a (rl_offset r div 8) f \<noteq> Inr b"
        using that by blast+
      from r n(1) n(2) [of "retag_bss bss y"] n(2) [of "retag_rodata y"] n(2) [of "retag_map k" for k] retag_same show False
        by (auto simp: Let_def ebind_eq_Inr split: if_splits)
    qed
  qed
  then show ?thesis
    by cases (use lines_kept_refl update_line_kept [OF _ _ l] in auto)
qed

lemma apply_relocs_kept:
  "efoldl (apply_reloc elf maps bss n) a rs = Inr b \<Longrightarrow> list_all (\<lambda>r. 0 \<le> rl_offset r) rs \<Longrightarrow>
   lines_kept ((\<lambda>r. rl_offset r div 8) ` set rs) a b"
proof (induction rs arbitrary: a)
  case Nil
  then show ?case by (simp add: lines_kept_refl)
next
  case (Cons r rs)
  then obtain c where c: "apply_reloc elf maps bss n a r = Inr c" "efoldl (apply_reloc elf maps bss n) c rs = Inr b"
    by (auto simp: ebind_eq_Inr)
  let ?ls = "(\<lambda>r. rl_offset r div 8) ` set (r # rs)"
  have "lines_kept ?ls a c"
    by (rule lines_kept_mono [OF apply_reloc_kept [OF c(1)]]) (use Cons.prems(2) in simp_all)
  moreover have "lines_kept ?ls c b"
    by (rule lines_kept_mono [OF Cons.IH [OF c(2)]]) (use Cons.prems(2) in auto)
  ultimately show ?case by (rule lines_kept_trans)
qed

text \<open>
  Claim C37.  Loading an object decodes the section of the entry symbol and changes nothing of it
  but the relocation fields.  The section is the one with the index of the first symbol that has the name of
  the entry function, the address of that symbol, in instructions, is where the program starts, and both
  are recorded.  The instruction list is as long as the decoded one, every instruction has its opcode,
  registers, offset and immediate, and one on whose line no relocation falls is unchanged.
\<close>

theorem load_keeps_code:
  assumes "decode_binary elf path entry = Inr ld" and "\<And>nm. list_all (\<lambda>r. 0 \<le> rl_offset r) (ef_relocs elf nm)"
  shows "\<exists>y ys tsec instrs. ef_symbols_named elf entry = Some (y # ys) \<and> ef_section elf (y_shndx y) = Inr (Some tsec) \<and>
     l_section ld = sc_name tsec \<and> l_entry_idx ld = y_value y div 8 \<and>
     decode_text (y_value y div 8) 0 0 (sc_data tsec) = Inr instrs \<and>
     length (sc_data tsec) mod 8 = 0 \<and> length (l_instrs ld) = length instrs \<and>
     (\<forall>k < length instrs. same_but_tags (instrs ! k) (l_instrs ld ! k) \<and>
        (int k \<notin> (\<lambda>r. rl_offset r div 8) ` set (ef_relocs elf (''.rel'' @ sc_name tsec)) \<longrightarrow> l_instrs ld ! k = instrs ! k))"
proof -
  from assms(1) obtain instrs tsec idx ms out where p: "parse_instrs elf entry = Inr (instrs, tsec, idx)"
    "apply_relocations elf instrs (parse_bss elf) tsec ms = Inr out" "l_instrs ld = out" "l_section ld = sc_name tsec" "l_entry_idx ld = idx"
    by (auto simp: decode_binary_def exit_with_def ebind_eq_Inr Let_def split: if_splits)
  obtain y ys where t: "ef_symbols_named elf entry = Some (y # ys)" "ef_section elf (y_shndx y) = Inr (Some tsec)"
    "idx = y_value y div 8" "decode_text (y_value y div 8) 0 0 (sc_data tsec) = Inr instrs" "length (sc_data tsec) mod 8 = 0"
    using p(1) by (auto simp: parse_instrs_def exit_with_def ebind_eq_Inr split: option.splits list.splits if_splits)
  have "lines_kept ((\<lambda>r. rl_offset r div 8) ` set (ef_relocs elf (''.rel'' @ sc_name tsec))) instrs out"
    using p(2) apply_relocs_kept assms(2) lines_kept_refl by (fastforce simp: apply_relocations_def split: option.splits)
  note k = this [unfolded lines_kept_def]
  show ?thesis
    by (intro exI [of _ y] exI [of _ ys] exI [of _ tsec] exI [of _ instrs] conjI)
      (use k t p in simp_all)
qed

text \<open>A program that loads the address of a counter in \<open>.bss\<close> and returns.\<close>

definition demo_elf :: elf_file where
  "demo_elf =
     (let text = \<lparr>sc_name = ''xdp'', sc_data = [0x18, 1, 0, 0, 0, 0, 0, 0, 0, 0, 0, 0, 0, 0, 0, 0, 0x95, 0, 0, 0, 0, 0, 0, 0]\<rparr>;
          other = \<lparr>sc_name = ''.text'', sc_data = [0x95, 0, 0, 0, 0, 0, 0, 0]\<rparr>;
          bss = \<lparr>sc_name = ''.bss'', sc_data = []\<rparr>; rel = \<lparr>sc_name = ''.relxdp'', sc_data = []\<rparr>;
          main = \<lparr>y_name = ''prog'', y_value = 0, y_size = 24, y_shndx = Shn 2, y_type = Stt_other\<rparr>;
          counter = \<lparr>y_name = ''counter'', y_value = 8, y_size = 8, y_shndx = Shn 3, y_type = Stt_object\<rparr>
      in \<lparr>ef_sections = [other, other, text, bss, rel],
          ef_by_name = (\<lambda>n. if n = ''.bss'' then Some bss else if n = ''.relxdp'' then Some rel else None),
          ef_section = (\<lambda>i. Inr (if i = Shn 1 then Some other else if i = Shn 2 then Some text else if i = Shn 3 then Some bss else None)),
          ef_has_symtab = True, ef_symbols = [main, counter],
          ef_symbols_named = (\<lambda>n. if n = ''prog'' then Some [main] else None),
          ef_symbol = (\<lambda>i. if i = 0 then Inr main else Inr counter),
          ef_relocs = (\<lambda>n. if n = ''.relxdp'' then [\<lparr>rl_offset = 0, rl_sym = 1\<rparr>] else [])\<rparr>)"

theorem load_keeps_code_witness:
  "\<exists>ld. decode_binary demo_elf ''a.o'' ''prog'' = Inr ld \<and> length (l_instrs ld) = 3 \<and>
     i_reloc_tag (l_instrs ld ! 0) = SymTag ''counter'' \<and>
     l_section ld = ''xdp'' \<and>
     (\<exists>y ys tsec instrs. ef_symbols_named demo_elf ''prog'' = Some (y # ys) \<and> ef_section demo_elf (y_shndx y) = Inr (Some tsec) \<and>
        decode_text (y_value y div 8) 0 0 (sc_data tsec) = Inr instrs \<and> length (l_instrs ld) = length instrs)"
proof -
  have "case decode_binary demo_elf ''a.o'' ''prog'' of Inl e \<Rightarrow> False
    | Inr ld \<Rightarrow> length (l_instrs ld) = 3 \<and> l_section ld = ''xdp'' \<and> i_reloc_tag (l_instrs ld ! 0) = SymTag ''counter''"
    by code_simp
  then obtain ld where r: "decode_binary demo_elf ''a.o'' ''prog'' = Inr ld" "length (l_instrs ld) = 3"
    "l_section ld = ''xdp''" "i_reloc_tag (l_instrs ld ! 0) = SymTag ''counter''" by (auto split: sum.splits)
  have "list_all (\<lambda>r. 0 \<le> rl_offset r) (ef_relocs demo_elf nm)" for nm by (simp add: demo_elf_def Let_def)
  from load_keeps_code [OF r(1) this] r show ?thesis by blast
qed

section \<open>Map definitions\<close>

text \<open>The definition of a map as the assembler lays it out: five words of 32 bits.\<close>

definition encode_def :: "map_info \<Rightarrow> byte list" where
  "encode_def m = concat (map (to_le 4) [m_type m, m_key_size m, m_value_size m, m_max_entries m, m_flags m])"

definition def_ok :: "map_info \<Rightarrow> bool" where
  "def_ok m \<longleftrightarrow> list_all (\<lambda>k. 0 \<le> k \<and> k < 2 ^ 32) [m_type m, m_key_size m, m_value_size m, m_max_entries m, m_flags m]"

lemma length_encode_def: "length (encode_def m) = 20"
  by (simp add: encode_def_def)

lemma drop_defs: "i < length ms \<Longrightarrow> drop (20 * i) (concat (map encode_def ms)) = encode_def (ms ! i) @ concat (map encode_def (drop (Suc i) ms))"
proof (induction ms arbitrary: i)
  case (Cons m ms)
  show ?case
  proof (cases i)
    case (Suc k)
    have "drop (20 + 20 * k) (encode_def m @ concat (map encode_def ms)) = drop (20 * k) (concat (map encode_def ms))"
      by (simp add: length_encode_def)
    then show ?thesis using Cons Suc by simp
  qed simp
qed simp

lemma u32_def:
  assumes "i < length ms" and "j < 5"
  shows "u32_at (concat (map encode_def ms)) (20 * i + 4 * j) =
    nat (([m_type (ms ! i), m_key_size (ms ! i), m_value_size (ms ! i), m_max_entries (ms ! i), m_flags (ms ! i)] ! j) mod 2 ^ 32)"
proof -
  let ?fs = "[m_type (ms ! i), m_key_size (ms ! i), m_value_size (ms ! i), m_max_entries (ms ! i), m_flags (ms ! i)]"
  have "drop (20 * i + 4 * j) (concat (map encode_def ms)) = drop (4 * j) (drop (20 * i) (concat (map encode_def ms)))"
    by (simp add: add.commute)
  also have "take 4 \<dots> = to_le 4 (?fs ! j)"
  proof -
    have "j = 0 \<or> j = 1 \<or> j = 2 \<or> j = 3 \<or> j = 4" using assms(2) by linarith
    then show ?thesis
      unfolding drop_defs [OF assms(1)] encode_def_def by (elim disjE) (simp_all add: length_to_le)
  qed
  finally show ?thesis by (simp add: u32_at_def from_le_to_le)
qed

text \<open>
  Map definitions in the section \<open>.maps\<close> are read back as they were laid out: one map per
  definition, numbered from 0, with its type, sizes, number of entries and flags, and with the name of
  the last symbol of the section that points at it.
\<close>

theorem map_defs_roundtrip:
  assumes "ef_by_name elf ''.maps'' = Some s" and "sc_data s = concat (map encode_def ms)" and "ms \<noteq> []"
    and "\<not> list_all (\<lambda>b. b = 0) (sc_data s)" and "list_all def_ok ms"
  shows "parse_maps elf = Inr (map (\<lambda>i. (ms ! i)\<lparr>m_id := int i,
       m_name := dict_get (map_names elf (section_index elf ''.maps'')) (int i)\<rparr>) [0..<length ms])"
proof -
  have len: "length (sc_data s) = 20 * length ms"
    unfolding assms(2) by (induction ms) (simp_all add: length_encode_def)
  have d: "map_def names (sc_data s) i = (ms ! i)\<lparr>m_id := int i, m_name := dict_get names (int i)\<rparr>"
    if i: "i < length ms" for i names
  proof -
    have "def_ok (ms ! i)" using assms(5) i by (simp add: list_all_length)
    then show ?thesis
      using u32_def [OF i, of 0] u32_def [OF i, of 1] u32_def [OF i, of 2] u32_def [OF i, of 3] u32_def [OF i, of 4]
      unfolding assms(2) by (cases "ms ! i") (simp add: map_def_def Let_def def_ok_def)
  qed
  have "sc_data s \<noteq> []" using assms(4) by auto
  then show ?thesis
    using assms(1,4) len d by (simp add: parse_maps_def Let_def)
qed

definition map_elf :: elf_file where
  "map_elf = demo_elf\<lparr>ef_sections := [\<lparr>sc_name = ''.maps'', sc_data = []\<rparr>],
     ef_by_name := (\<lambda>n. if n = ''.maps'' then Some \<lparr>sc_name = ''.maps'',
       sc_data = [1, 0, 0, 0, 4, 0, 0, 0, 8, 0, 0, 0, 0, 4, 0, 0, 0, 0, 0, 0]\<rparr> else None),
     ef_symbols := [\<lparr>y_name = ''flows'', y_value = 0, y_size = 20, y_shndx = Shn 0, y_type = Stt_object\<rparr>]\<rparr>"

theorem map_defs_roundtrip_witness:
  "parse_maps map_elf = Inr [\<lparr>m_id = 0, m_name = Some ''flows'', m_type = 1, m_key_size = 4, m_value_size = 8,
     m_max_entries = 1024, m_flags = 0\<rparr>]"
proof -
  let ?m = "\<lparr>m_id = 0, m_name = None, m_type = 1, m_key_size = 4, m_value_size = 8, m_max_entries = 1024, m_flags = 0\<rparr>"
  have e: "concat (map encode_def [?m]) = [1, 0, 0, 0, 4, 0, 0, 0, 8, 0, 0, 0, 0, 4, 0, 0, 0, 0, 0, 0]" by code_simp
  have n: "dict_get (map_names map_elf (section_index map_elf ''.maps'')) 0 = Some ''flows''" by code_simp
  from map_defs_roundtrip [of map_elf _ "[?m]"] show ?thesis
    using e n by (simp add: map_elf_def def_ok_def)
qed

end
