(* ===== verification/Cfg.thy ===== *)
theory Cfg
  imports Link
begin

text \<open>
  The component \<open>hornet/bpf/cfg.py\<close>: cutting the instruction list into basic blocks and
  connecting them.  The record below holds the fields of \<open>Block\<close> (\<open>hornet/track/block.py\<close>) that
  the builder sets; the tracker's record extends it.  The dictionary \<open>block_start_map\<close> sends the
  start of each block to its number, and is represented by the sorted list of the starts.
\<close>

section \<open>Blocks\<close>

record bblock =
  b_num :: nat
  b_start :: nat
  b_end :: nat
  b_preds :: "nat list"
  b_succ_f :: "nat option"
  b_succ_t :: "nat option"
  b_exit :: bool
  b_jump :: bool
  b_branch :: bool
  b_prog_entry :: "prog_region option"

definition new_bblock :: "nat \<Rightarrow> nat \<Rightarrow> nat \<Rightarrow> bblock" where
  "new_bblock num start stop =
     \<lparr>b_num = num, b_start = start, b_end = stop, b_preds = [], b_succ_f = None, b_succ_t = None,
      b_exit = False, b_jump = False, b_branch = False, b_prog_entry = None\<rparr>"

datatype block_kind = KBranch | KJump | KExit | KFall

definition b_kind :: "'a bblock_scheme \<Rightarrow> block_kind" where
  "b_kind b = (if b_branch b then KBranch else if b_jump b then KJump
               else if b_exit b then KExit else KFall)"

section \<open>The callee of a tail call\<close>

text \<open>The load of \<open>r2\<close> with a map, searched backwards from the call.\<close>

definition loads_map_r2 :: "instr \<Rightarrow> bool" where
  "loads_map_r2 ins \<longleftrightarrow>
     i_opcode_class ins = LD \<and> i_opcode_mode ins = IMM \<and> i_dst_reg ins = 2 \<and>
     i_relocated ins \<and> i_reloc_region ins = 0"

definition tail_target :: "instr list \<Rightarrow> nat \<Rightarrow> nat \<Rightarrow> prog_region list \<Rightarrow> prog_region res" where
  "tail_target instrs start stop progs =
     (let callees = filter (\<lambda>r. \<not> is_main r) progs in
      if callees = [] then Inl (ValueError ''no callee was given'')
      else
        case map_option (\<lambda>i. i_reloc_tag (instrs ! i))
               (find (\<lambda>i. loads_map_r2 (instrs ! i)) (rev [start..<stop])) of
          Some tag \<Rightarrow>
            (case filter (\<lambda>r. \<exists>k \<in> set_option (p_map_id r). tag = MapTag k) callees of
               [] \<Rightarrow> Inl (ValueError ''no target was loaded into the map'')
             | r # _ \<Rightarrow> Inr r)
        | None \<Rightarrow>
            (if length callees = 1 then Inr (hd callees)
             else Inl (ValueError ''cannot tell which prog array'')))"

section \<open>The leaders\<close>

definition instr_leaders :: "instr list \<Rightarrow> nat \<Rightarrow> nat list" where
  "instr_leaders instrs i =
     (let n = length instrs; ins = instrs ! i;
          nxt = (if i + 1 < n then [i + 1] else []) in
      if is_jump ins then
        if is_exit ins then nxt
        else if is_call ins then (if is_tail_call ins then nxt else [])
        else
          let target = int i + 1 + jump_offset ins in
          (if 0 \<le> target \<and> target < int n then [nat target] else []) @ nxt
      else [])"

definition leaders :: "instr list \<Rightarrow> prog_region list \<Rightarrow> nat list" where
  "leaders instrs progs =
     sort (remdups (0 # map p_start progs @
       concat (map (instr_leaders instrs) [0..<length instrs])))"

definition make_blocks :: "nat \<Rightarrow> nat list \<Rightarrow> bblock list" where
  "make_blocks n starts =
     map (\<lambda>i. new_bblock i (starts ! i)
            (if i + 1 < length starts then starts ! (i + 1) - 1 else n - 1))
       [0..<length starts]"

definition start_block :: "nat list \<Rightarrow> int \<Rightarrow> nat option" where
  "start_block starts t = find_idx (\<lambda>s. int s = t) starts"

section \<open>The edges\<close>

type_synonym cfg_state = "bblock list \<times> nat list list"

definition upd_block :: "nat \<Rightarrow> (bblock \<Rightarrow> bblock) \<Rightarrow> cfg_state \<Rightarrow> cfg_state" where
  "upd_block i f st = ((fst st)[i := f (fst st ! i)], snd st)"

text \<open>\<open>cfg[i].append(succ)\<close> and \<open>blocks[succ].preds.append(i)\<close>.\<close>

definition add_edge :: "nat \<Rightarrow> nat \<Rightarrow> cfg_state \<Rightarrow> cfg_state" where
  "add_edge i succ st =
     (let (blocks, cfg) = upd_block succ (\<lambda>b. b\<lparr>b_preds := b_preds b @ [i]\<rparr>) st
      in (blocks, cfg[i := cfg ! i @ [succ]]))"

definition edge_t :: "nat \<Rightarrow> nat \<Rightarrow> cfg_state \<Rightarrow> cfg_state" where
  "edge_t i succ st = add_edge i succ (upd_block i (\<lambda>b. b\<lparr>b_succ_t := Some succ\<rparr>) st)"

definition edge_f :: "nat \<Rightarrow> nat \<Rightarrow> cfg_state \<Rightarrow> cfg_state" where
  "edge_f i succ st = add_edge i succ (upd_block i (\<lambda>b. b\<lparr>b_succ_f := Some succ\<rparr>) st)"

definition connect_block ::
  "instr list \<Rightarrow> prog_region list \<Rightarrow> nat list \<Rightarrow> cfg_state \<Rightarrow> nat \<Rightarrow> cfg_state res" where
  "connect_block instrs progs starts st i =
     (let block = fst st ! i; stop = b_end block in
      if \<not> stop < length instrs then Inl IndexError
      else
        let last_instr = instrs ! stop; fall = start_block starts (int stop + 1) in
        if is_jump last_instr then
          if i_opcode_code last_instr = BPF_JA then
            (case start_block starts (int stop + 1 + jump_offset last_instr) of
               None \<Rightarrow> Inl (AssertionError ''target in block_start_map'')
             | Some succ \<Rightarrow> Inr (upd_block i (\<lambda>b. b\<lparr>b_jump := True\<rparr>) (edge_t i succ st)))
          else if i_opcode_code last_instr = BPF_CALL then
            ebind (if is_tail_call last_instr
                   then ebind (tail_target instrs (b_start block) stop progs) (\<lambda>callee.
                     case start_block starts (int (p_start callee)) of
                       None \<Rightarrow> Inl KeyError
                     | Some succ \<Rightarrow>
                         Inr (edge_t i succ (upd_block i (\<lambda>b. b\<lparr>b_branch := True\<rparr>) st)))
                   else Inr st) (\<lambda>st1.
            case fall of
              None \<Rightarrow> Inl (AssertionError ''target in block_start_map'')
            | Some succ \<Rightarrow> Inr (edge_f i succ st1))
          else if i_opcode_code last_instr = BPF_EXIT then
            Inr (upd_block i (\<lambda>b. b\<lparr>b_exit := True\<rparr>) st)
          else
            (case start_block starts (int stop + 1 + i_offset last_instr) of
               None \<Rightarrow> Inl (SystemExit ''conditional jump target not found in block_start_map'')
             | Some succ \<Rightarrow>
                 let st1 = edge_t i succ (upd_block i (\<lambda>b. b\<lparr>b_branch := True\<rparr>) st) in
                 (case fall of
                    None \<Rightarrow> Inl (SystemExit ''fallthrough target not found in block_start_map'')
                  | Some succ_f \<Rightarrow>
                      if succ_f = i + 1 then Inr (edge_f i succ_f st1)
                      else Inl (AssertionError ''fallthrough block is not next block'')))
        else
          (case fall of
             None \<Rightarrow> Inr st
           | Some succ \<Rightarrow> Inr (edge_f i succ st)))"

text \<open>\<open>region.entry_block = ...\<close>, and the region noted in its first block.\<close>

definition mark_entry ::
  "nat list \<Rightarrow> bblock list \<times> prog_region list \<Rightarrow> prog_region \<Rightarrow> (bblock list \<times> prog_region list) res"
where
  "mark_entry starts st region =
     (case start_block starts (int (p_start region)) of
        None \<Rightarrow> Inl KeyError
      | Some e \<Rightarrow>
          let region' = region\<lparr>p_entry_block := Some e\<rparr>;
              blocks = (if e \<noteq> 0 then (fst st)[e := (fst st ! e)\<lparr>b_prog_entry := Some region'\<rparr>]
                        else fst st)
          in Inr (blocks, snd st @ [region']))"

definition build_cfg ::
  "instr list \<Rightarrow> prog_region list \<Rightarrow> (bblock list \<times> nat list list \<times> nat list \<times> prog_region list) res"
where
  "build_cfg instrs progs =
     (let starts = leaders instrs progs;
          blocks = make_blocks (length instrs) starts;
          cfg = replicate (length blocks) []
      in
      if instrs = [] then Inl IndexError
      else
        ebind (efoldl (connect_block instrs progs starts) (blocks, cfg) [0..<length blocks])
          (\<lambda>(blocks1, cfg1).
        ebind (efoldl (mark_entry starts) (blocks1, []) progs) (\<lambda>(blocks2, progs2).
        Inr (blocks2, cfg1, starts, progs2))))"

text \<open>
  The next block to analyse: one of the untraced blocks, all of whose predecessors are traced.
  \<open>untraced\<close> is a Python set of small numbers; it is the list of its elements in the order the
  set yields them.
\<close>

definition get_next_block_no :: "'a bblock_scheme list \<Rightarrow> nat list \<Rightarrow> nat res" where
  "get_next_block_no blocks untraced =
     of_option (SystemExit ''cannot find next block to trace'')
       (find (\<lambda>item. \<forall>p \<in> set (b_preds (blocks ! item)). p \<notin> set untraced) untraced)"

section \<open>The starts\<close>

lemma starts_sorted: "sorted (leaders instrs progs)" "distinct (leaders instrs progs)"
  by (simp_all add: leaders_def)

lemma set_leaders:
  "set (leaders instrs progs) =
     insert 0 (p_start ` set progs \<union> (\<Union>i < length instrs. set (instr_leaders instrs i)))"
  by (auto simp: leaders_def)

lemma starts_mono: "i < j \<Longrightarrow> j < length (leaders instrs progs) \<Longrightarrow>
  leaders instrs progs ! i < leaders instrs progs ! j"
  using starts_sorted [of instrs progs]
  by (metis strict_sorted_iff sorted_wrt_nth_less)

lemma starts_zero: "leaders instrs progs \<noteq> []" "leaders instrs progs ! 0 = 0"
proof -
  let ?L = "leaders instrs progs"
  have z: "0 \<in> set ?L" by (simp add: set_leaders)
  then show "?L \<noteq> []" by auto
  from z obtain k where k: "k < length ?L" "?L ! k = 0" by (auto simp: in_set_conv_nth)
  then show "?L ! 0 = 0" using starts_mono [of 0 k instrs progs] by (cases "k = 0") auto
qed

lemma starts_less:
  assumes "instrs \<noteq> []" and "\<forall>r \<in> set progs. p_start r < length instrs" and "x \<in> set (leaders instrs progs)"
  shows "x < length instrs"
  using assms by (auto simp: set_leaders instr_leaders_def Let_def split: if_splits)

lemma start_block_SomeD:
  "start_block starts t = Some s \<Longrightarrow> s < length starts \<and> int (starts ! s) = t"
  unfolding start_block_def by (drule find_idx_SomeD) auto

lemma start_block_None_iff: "start_block starts t = None \<longleftrightarrow> (\<forall>s \<in> set starts. int s \<noteq> t)"
  by (auto simp: start_block_def find_idx_None_iff)

lemma make_blocks_nth:
  "length (make_blocks n starts) = length starts"
  "i < length starts \<Longrightarrow> b_num (make_blocks n starts ! i) = i"
  "i < length starts \<Longrightarrow> b_start (make_blocks n starts ! i) = starts ! i"
  "i < length starts \<Longrightarrow> b_end (make_blocks n starts ! i) =
     (if i + 1 < length starts then starts ! (i + 1) - 1 else n - 1)"
  by (simp_all add: make_blocks_def new_bblock_def)

text \<open>Nothing strictly inside a block is a leader.\<close>

lemma inside_not_leader:
  assumes "j < length (leaders instrs progs)"
    and "b = make_blocks (length instrs) (leaders instrs progs) ! j"
    and "b_start b < x" and "x \<le> b_end b" and "x < length instrs"
  shows "x \<notin> set (leaders instrs progs)"
proof
  let ?L = "leaders instrs progs"
  assume "x \<in> set ?L"
  then obtain k where k: "k < length ?L" "?L ! k = x" by (auto simp: in_set_conv_nth)
  have "\<not> k \<le> j" using assms k starts_mono [of k j instrs progs] by (auto simp: make_blocks_nth le_less)
  then have "j + 1 \<le> k" by simp
  then have "?L ! (j + 1) \<le> x" using k starts_mono [of "j + 1" k instrs progs] by (cases "j + 1 = k") auto
  moreover have "j + 1 < length ?L" using \<open>j + 1 \<le> k\<close> k by simp
  ultimately show False using assms starts_mono [of j "j + 1" instrs progs] by (auto simp: make_blocks_nth)
qed

text \<open>Every instruction is in a block.\<close>

lemma in_some_block:
  assumes "x < length instrs"
  shows "\<exists>j < length (leaders instrs progs).
    b_start (make_blocks (length instrs) (leaders instrs progs) ! j) \<le> x \<and>
    x \<le> b_end (make_blocks (length instrs) (leaders instrs progs) ! j)"
proof -
  let ?L = "leaders instrs progs"
  let ?P = "\<lambda>j. j < length ?L \<and> ?L ! j \<le> x"
  have p0: "?P 0" using starts_zero [of instrs progs] by simp
  define j where "j = (GREATEST j. ?P j)"
  have b: "\<forall>j. ?P j \<longrightarrow> j \<le> length ?L" by simp
  have j: "?P j" unfolding j_def using GreatestI_nat [where P = ?P, OF p0] b by blast
  have "\<not> ?P (j + 1)" using Greatest_le_nat [where P = ?P, OF _ b [rule_format], of "j + 1"]
    by (auto simp: j_def)
  with j assms show ?thesis by (intro exI [of _ j]) (auto simp: make_blocks_nth)
qed

section \<open>The edges, one at a time\<close>

lemma length_upd_block [simp]:
  "length (fst (upd_block i f st)) = length (fst st)" "snd (upd_block i f st) = snd st"
  by (simp_all add: upd_block_def)

lemma nth_upd_block:
  "i < length (fst st) \<Longrightarrow> fst (upd_block i f st) ! j = (if j = i then f (fst st ! j) else fst st ! j)"
  by (simp add: upd_block_def nth_list_update)

lemma length_add_edge [simp]:
  "length (fst (add_edge i s st)) = length (fst st)" "length (snd (add_edge i s st)) = length (snd st)"
  by (simp_all add: add_edge_def upd_block_def)

lemma add_edge_fst:
  "s < length (fst st) \<Longrightarrow> fst (add_edge i s st) ! j =
     (if j = s then (fst st ! j)\<lparr>b_preds := b_preds (fst st ! j) @ [i]\<rparr> else fst st ! j)"
  by (simp add: add_edge_def upd_block_def nth_list_update)

lemma add_edge_snd:
  "i < length (snd st) \<Longrightarrow> snd (add_edge i s st) ! j = (if j = i then snd st ! j @ [s] else snd st ! j)"
  by (simp add: add_edge_def upd_block_def nth_list_update)

lemmas edge_simps = edge_t_def edge_f_def nth_upd_block add_edge_fst add_edge_snd

text \<open>What connecting keeps: the shape of the blocks, and the predecessors as the inverse edges.\<close>

definition graph_inv :: "bblock list \<Rightarrow> cfg_state \<Rightarrow> bool" where
  "graph_inv blocks0 st \<longleftrightarrow>
     length (fst st) = length blocks0 \<and> length (snd st) = length blocks0 \<and>
     (\<forall>j < length blocks0.
        b_num (fst st ! j) = b_num (blocks0 ! j) \<and> b_start (fst st ! j) = b_start (blocks0 ! j) \<and>
        b_end (fst st ! j) = b_end (blocks0 ! j) \<and> set (snd st ! j) \<subseteq> {..<length blocks0} \<and>
        set (b_preds (fst st ! j)) \<subseteq> {..<length blocks0} \<and>
        (\<forall>s < length blocks0. count_list (b_preds (fst st ! s)) j = count_list (snd st ! j) s))"

lemma graph_inv_lengths: "graph_inv blocks0 st \<Longrightarrow>
   length (fst st) = length blocks0 \<and> length (snd st) = length blocks0"
  by (simp add: graph_inv_def)

lemma graph_inv_upd:
  assumes "graph_inv blocks0 st" and "i < length blocks0"
    and "\<And>b. b_num (f b) = b_num b" and "\<And>b. b_start (f b) = b_start b"
    and "\<And>b. b_end (f b) = b_end b" and "\<And>b. b_preds (f b) = b_preds b"
  shows "graph_inv blocks0 (upd_block i f st)"
  using assms by (auto simp: graph_inv_def nth_upd_block)

lemma graph_inv_add:
  assumes "graph_inv blocks0 st" and "i < length blocks0" and "s < length blocks0"
  shows "graph_inv blocks0 (add_edge i s st)"
  using assms by (auto simp: graph_inv_def add_edge_fst add_edge_snd)

lemma graph_inv_edge:
  assumes "graph_inv blocks0 st" and "i < length blocks0" and "s < length blocks0"
  shows "graph_inv blocks0 (edge_t i s st)" and "graph_inv blocks0 (edge_f i s st)"
  unfolding edge_t_def edge_f_def using assms
  by (auto intro!: graph_inv_add graph_inv_upd)

lemma length_edge [simp]:
  "length (fst (edge_t i s st)) = length (fst st)" "length (snd (edge_t i s st)) = length (snd st)"
  "length (fst (edge_f i s st)) = length (fst st)" "length (snd (edge_f i s st)) = length (snd st)"
  by (simp_all add: edge_t_def edge_f_def)

section \<open>What the edges mean\<close>

text \<open>
  The positions control can go to after instruction \<open>i\<close>, read off the instruction alone;
  \<open>callee\<close> is where a tail call lands if it is taken (it falls through when the map slot is
  empty).
\<close>

definition next_pcs :: "instr list \<Rightarrow> nat option \<Rightarrow> nat \<Rightarrow> int set" where
  "next_pcs instrs callee i =
     (let ins = instrs ! i in
      if is_exit ins then {}
      else if is_jump ins \<and> i_opcode_code ins = BPF_JA then {int i + 1 + jump_offset ins}
      else if is_branch ins then {int i + 1, int i + 1 + i_offset ins}
      else if is_tail_call ins then insert (int i + 1) (int ` set_option callee)
      else {int i + 1})"

definition block_succs :: "'a bblock_scheme \<Rightarrow> nat list" where
  "block_succs b = (case b_succ_t b of None \<Rightarrow> [] | Some s \<Rightarrow> [s]) @
                   (case b_succ_f b of None \<Rightarrow> [] | Some s \<Rightarrow> [s])"

definition callee_start :: "instr list \<Rightarrow> prog_region list \<Rightarrow> 'a bblock_scheme \<Rightarrow> nat option" where
  "callee_start instrs progs b =
     (case tail_target instrs (b_start b) (b_end b) progs of Inl _ \<Rightarrow> None | Inr r \<Rightarrow> Some (p_start r))"

definition done_block ::
  "instr list \<Rightarrow> prog_region list \<Rightarrow> nat list \<Rightarrow> cfg_state \<Rightarrow> nat \<Rightarrow> bool" where
  "done_block instrs progs starts st j \<longleftrightarrow>
     (let b = fst st ! j in
      b_end b < length instrs \<and> snd st ! j = block_succs b \<and>
      (\<lambda>s. int (starts ! s)) ` set (snd st ! j) =
        next_pcs instrs (callee_start instrs progs b) (b_end b) \<inter> {int s | s. s \<in> set starts} \<and>
      (next_pcs instrs (callee_start instrs progs b) (b_end b) \<subseteq> {int s | s. s \<in> set starts} \<or>
       \<not> is_jump (instrs ! b_end b)) \<and>
      b_exit b = is_exit (instrs ! b_end b) \<and>
      b_jump b = (is_jump (instrs ! b_end b) \<and> i_opcode_code (instrs ! b_end b) = BPF_JA) \<and>
      b_branch b = (is_branch (instrs ! b_end b) \<or> is_tail_call (instrs ! b_end b)))"

definition fresh_block :: "cfg_state \<Rightarrow> nat \<Rightarrow> bool" where
  "fresh_block st j \<longleftrightarrow>
     snd st ! j = [] \<and> b_succ_t (fst st ! j) = None \<and> b_succ_f (fst st ! j) = None \<and>
     \<not> b_exit (fst st ! j) \<and> \<not> b_jump (fst st ! j) \<and> \<not> b_branch (fst st ! j)"

text \<open>The seven ways of connecting a block.\<close>

lemma connect_block_cases:
  assumes "connect_block instrs progs starts st i = Inr st'"
  obtains
    (JumpAlways) s where "is_jump (instrs ! b_end (fst st ! i))"
      "i_opcode_code (instrs ! b_end (fst st ! i)) = BPF_JA" "b_end (fst st ! i) < length instrs"
      "start_block starts (int (b_end (fst st ! i)) + 1 + jump_offset (instrs ! b_end (fst st ! i))) = Some s"
      "st' = upd_block i (\<lambda>b. b\<lparr>b_jump := True\<rparr>) (edge_t i s st)"
  | (TailCall) r s f where "is_tail_call (instrs ! b_end (fst st ! i))" "b_end (fst st ! i) < length instrs"
      "tail_target instrs (b_start (fst st ! i)) (b_end (fst st ! i)) progs = Inr r"
      "start_block starts (int (p_start r)) = Some s"
      "start_block starts (int (b_end (fst st ! i)) + 1) = Some f"
      "st' = edge_f i f (edge_t i s (upd_block i (\<lambda>b. b\<lparr>b_branch := True\<rparr>) st))"
  | (Call) f where "is_call (instrs ! b_end (fst st ! i))" "\<not> is_tail_call (instrs ! b_end (fst st ! i))"
      "b_end (fst st ! i) < length instrs"
      "start_block starts (int (b_end (fst st ! i)) + 1) = Some f" "st' = edge_f i f st"
  | (Exit) "is_exit (instrs ! b_end (fst st ! i))" "b_end (fst st ! i) < length instrs"
      "st' = upd_block i (\<lambda>b. b\<lparr>b_exit := True\<rparr>) st"
  | (Branch) s f where "is_branch (instrs ! b_end (fst st ! i))" "b_end (fst st ! i) < length instrs"
      "start_block starts (int (b_end (fst st ! i)) + 1 + i_offset (instrs ! b_end (fst st ! i))) = Some s"
      "start_block starts (int (b_end (fst st ! i)) + 1) = Some f" "f = i + 1"
      "st' = edge_f i f (edge_t i s (upd_block i (\<lambda>b. b\<lparr>b_branch := True\<rparr>) st))"
  | (Fall) f where "\<not> is_jump (instrs ! b_end (fst st ! i))" "b_end (fst st ! i) < length instrs"
      "start_block starts (int (b_end (fst st ! i)) + 1) = Some f" "st' = edge_f i f st"
  | (End) "\<not> is_jump (instrs ! b_end (fst st ! i))" "b_end (fst st ! i) < length instrs"
      "start_block starts (int (b_end (fst st ! i)) + 1) = None" "st' = st"
proof -
  consider "\<not> is_jump (instrs ! b_end (fst st ! i))"
    | "is_jump (instrs ! b_end (fst st ! i))" "i_opcode_code (instrs ! b_end (fst st ! i)) = BPF_JA"
    | "is_jump (instrs ! b_end (fst st ! i))" "is_tail_call (instrs ! b_end (fst st ! i))"
    | "is_jump (instrs ! b_end (fst st ! i))" "is_call (instrs ! b_end (fst st ! i))"
      "\<not> is_tail_call (instrs ! b_end (fst st ! i))"
    | "is_jump (instrs ! b_end (fst st ! i))" "is_exit (instrs ! b_end (fst st ! i))"
    | "is_jump (instrs ! b_end (fst st ! i))" "is_branch (instrs ! b_end (fst st ! i))"
    by (auto simp: is_call_def is_exit_def is_branch_def)
  then show thesis
  proof cases
    case 1
    with assms Fall End show thesis
      by (auto simp: connect_block_def Let_def split: if_splits option.splits)
  next
    case 2
    with assms JumpAlways show thesis
      by (auto simp: connect_block_def Let_def split: if_splits option.splits)
  next
    case 3
    then have "i_opcode_code (instrs ! b_end (fst st ! i)) = BPF_CALL"
      by (simp add: is_tail_call_def is_call_def)
    with 3 assms TailCall show thesis
      by (auto simp: connect_block_def Let_def ebind_eq_Inr split: if_splits option.splits)
  next
    case 4
    then have "i_opcode_code (instrs ! b_end (fst st ! i)) = BPF_CALL" by (simp add: is_call_def)
    with 4 assms Call show thesis
      by (auto simp: connect_block_def Let_def ebind_eq_Inr split: if_splits option.splits)
  next
    case 5
    then have "i_opcode_code (instrs ! b_end (fst st ! i)) = BPF_EXIT" by (simp add: is_exit_def)
    with 5 assms Exit show thesis by (auto simp: connect_block_def Let_def split: if_splits)
  next
    case 6
    with assms Branch show thesis
      by (auto simp: connect_block_def Let_def is_branch_def split: if_splits option.splits)
  qed
qed

lemma connect_block_inv:
  assumes "connect_block instrs progs starts st i = Inr st'" and "graph_inv blocks0 st"
    and "i < length blocks0" and "length starts = length blocks0"
  shows "graph_inv blocks0 st'"
  using assms(1)
  by (cases rule: connect_block_cases)
    (auto simp: assms graph_inv_edge graph_inv_upd dest!: start_block_SomeD)

lemma connect_block_frame:
  assumes "connect_block instrs progs starts st i = Inr st'" and "graph_inv blocks0 st"
    and "i < length blocks0" and "length starts = length blocks0" and "j \<noteq> i"
  shows "(\<exists>p. fst st' ! j = (fst st ! j)\<lparr>b_preds := p\<rparr>) \<and> snd st' ! j = snd st ! j"
proof -
  have "\<exists>p. (fst st ! j) = (fst st ! j)\<lparr>b_preds := p\<rparr>"
    by (rule exI [of _ "b_preds (fst st ! j)"]) simp
  with assms(1) show ?thesis
    by (cases rule: connect_block_cases)
      (use assms graph_inv_lengths [OF assms(2)] in
        \<open>auto simp: edge_simps dest!: start_block_SomeD\<close>)
qed

lemma done_block_cong:
  "fst st' ! j = (fst st ! j)\<lparr>b_preds := p\<rparr> \<Longrightarrow> snd st' ! j = snd st ! j \<Longrightarrow>
   done_block instrs progs starts st' j = done_block instrs progs starts st j"
  by (simp add: done_block_def block_succs_def callee_start_def Let_def)

lemma done_block_cong_entry:
  "fst st' ! j = (fst st ! j)\<lparr>b_prog_entry := e\<rparr> \<Longrightarrow> snd st' ! j = snd st ! j \<Longrightarrow>
   done_block instrs progs starts st' j = done_block instrs progs starts st j"
  by (simp add: done_block_def block_succs_def callee_start_def Let_def)

lemma fresh_block_cong:
  "fst st' ! j = (fst st ! j)\<lparr>b_preds := p\<rparr> \<Longrightarrow> snd st' ! j = snd st ! j \<Longrightarrow>
   fresh_block st' j = fresh_block st j"
  by (simp add: fresh_block_def)

lemma start_block_in: "start_block starts t = Some s \<Longrightarrow> t \<in> {int s | s. s \<in> set starts}"
  by (drule start_block_SomeD) force

lemma connect_block_done:
  assumes "connect_block instrs progs starts st i = Inr st'" and "graph_inv blocks0 st"
    and "i < length blocks0" and "length starts = length blocks0" and "fresh_block st i"
  shows "done_block instrs progs starts st' i"
proof -
  let ?b = "fst st ! i" and ?S = "{int s | s. s \<in> set starts}"
  note len = graph_inv_lengths [OF assms(2)]
  have i: "i < length (fst st)" "i < length (snd st)" using len assms(3) by simp_all
  have fr: "snd st ! i = []" "b_succ_t ?b = None" "b_succ_f ?b = None"
    "\<not> b_exit ?b" "\<not> b_jump ?b" "\<not> b_branch ?b"
    using assms(5) by (simp_all add: fresh_block_def)
  have bound: "s < length (fst st)" if "start_block starts t = Some s" for t s
    using start_block_SomeD [OF that] assms(4) len by simp
  have at: "int (starts ! s) = t" "t \<in> ?S" if "start_block starts t = Some s" for t s
    using start_block_SomeD [OF that] start_block_in [OF that] by auto
  from assms(1) show ?thesis
  proof (cases rule: connect_block_cases)
    case (JumpAlways s)
    then have "next_pcs instrs c (b_end ?b) = {int (b_end ?b) + 1 + jump_offset (instrs ! b_end ?b)}" for c
      by (simp add: next_pcs_def Let_def is_exit_def)
    with JumpAlways at [OF JumpAlways(4)] bound [OF JumpAlways(4)] i fr show ?thesis
      by (simp add: done_block_def Let_def edge_simps block_succs_def) (auto simp: instr_defs)
  next
    case (TailCall r s f)
    then have "next_pcs instrs c (b_end ?b) = insert (int (b_end ?b) + 1) (int ` set_option c)" for c
      by (simp add: next_pcs_def Let_def instr_defs)
    with TailCall at [OF TailCall(4)] bound [OF TailCall(4)] at [OF TailCall(5)] bound [OF TailCall(5)] i fr
    show ?thesis
      by (simp add: done_block_def Let_def edge_simps block_succs_def callee_start_def)
        (auto simp: instr_defs)
  next
    case (Call f)
    then have "next_pcs instrs c (b_end ?b) = {int (b_end ?b) + 1}" for c
      by (auto simp: next_pcs_def Let_def instr_defs)
    with Call at [OF Call(4)] bound [OF Call(4)] i fr show ?thesis
      by (simp add: done_block_def Let_def edge_simps block_succs_def) (auto simp: instr_defs)
  next
    case Exit
    then have "next_pcs instrs c (b_end ?b) = {}" for c by (simp add: next_pcs_def Let_def)
    with Exit i fr show ?thesis
      by (simp add: done_block_def Let_def edge_simps block_succs_def) (auto simp: instr_defs)
  next
    case (Branch s f)
    then have "next_pcs instrs c (b_end ?b) =
        {int (b_end ?b) + 1, int (b_end ?b) + 1 + i_offset (instrs ! b_end ?b)}" for c
      by (simp add: next_pcs_def Let_def instr_defs)
    with Branch at [OF Branch(3)] bound [OF Branch(3)] at [OF Branch(4)] bound [OF Branch(4)] i fr
    show ?thesis
      by (simp add: done_block_def Let_def edge_simps block_succs_def)
        (auto simp: instr_defs)
  next
    case (Fall f)
    then have "next_pcs instrs c (b_end ?b) = {int (b_end ?b) + 1}" for c
      by (simp add: next_pcs_def Let_def instr_defs)
    with Fall at [OF Fall(3)] bound [OF Fall(3)] i fr show ?thesis
      by (simp add: done_block_def Let_def edge_simps block_succs_def) (auto simp: instr_defs)
  next
    case End
    then have "next_pcs instrs c (b_end ?b) = {int (b_end ?b) + 1}" for c
      by (simp add: next_pcs_def Let_def instr_defs)
    with End i fr show ?thesis
      by (auto simp: done_block_def Let_def edge_simps block_succs_def start_block_None_iff instr_defs)
  qed
qed

lemma connect_all:
  assumes "efoldl (connect_block instrs progs starts) (blocks0, replicate (length blocks0) []) [0..<length blocks0] = Inr st"
    and "blocks0 = make_blocks n starts"
  shows "graph_inv blocks0 st \<and> (\<forall>j < length blocks0. done_block instrs progs starts st j)"
proof -
  have len: "length starts = length blocks0" by (simp add: assms(2) make_blocks_nth)
  have init: "\<forall>j < length blocks0. b_preds (blocks0 ! j) = [] \<and> fresh_block (blocks0, replicate (length blocks0) []) j"
    by (auto simp: assms(2) make_blocks_def new_bblock_def fresh_block_def)
  let ?P = "\<lambda>k st. graph_inv blocks0 st \<and>
    (\<forall>j < length blocks0. if j < k then done_block instrs progs starts st j else fresh_block st j)"
  have "?P (length blocks0) st"
  proof (rule efoldl_upt_invariant [OF assms(1), where P = ?P])
    show "?P 0 (blocks0, replicate (length blocks0) [])"
      using init by (auto simp: graph_inv_def)
  next
    fix k s t assume k: "k < length blocks0" and P: "?P k s"
      and step: "connect_block instrs progs starts s k = Inr t"
    from P have inv: "graph_inv blocks0 s" and fr: "fresh_block s k" using k by auto
    note frame = connect_block_frame [OF step inv k len]
    have "if j < Suc k then done_block instrs progs starts t j else fresh_block t j"
      if j: "j < length blocks0" for j
    proof (cases "j = k")
      case True
      then show ?thesis using connect_block_done [OF step inv k len fr] by simp
    next
      case False
      then show ?thesis using P j frame [OF False] done_block_cong fresh_block_cong
        by (metis less_Suc_eq)
    qed
    then show "?P (Suc k) t" using connect_block_inv [OF step inv k len] by blast
  qed
  then show ?thesis by simp
qed

lemma mark_entry_frame:
  assumes "efoldl (mark_entry starts) (blocks, acc) progs = Inr (blocks', progs')"
  shows "length blocks' = length blocks \<and> (\<forall>j < length blocks. \<exists>e. blocks' ! j = (blocks ! j)\<lparr>b_prog_entry := e\<rparr>)"
  using assms
proof (induction progs arbitrary: blocks acc)
  case Nil
  have "\<exists>e. b = b\<lparr>b_prog_entry := e\<rparr>" for b :: bblock by (rule exI [of _ "b_prog_entry b"]) simp
  with Nil show ?case by auto
next
  case (Cons r progs)
  from Cons.prems obtain blocks1 acc1 where
    one: "mark_entry starts (blocks, acc) r = Inr (blocks1, acc1)"
    and rest: "efoldl (mark_entry starts) (blocks1, acc1) progs = Inr (blocks', progs')"
    by (auto simp: ebind_eq_Inr)
  have a: "length blocks1 = length blocks \<and> (\<forall>j < length blocks. \<exists>e. blocks1 ! j = (blocks ! j)\<lparr>b_prog_entry := e\<rparr>)"
  proof -
    have "\<exists>e. b = b\<lparr>b_prog_entry := e\<rparr>" for b :: bblock by (rule exI [of _ "b_prog_entry b"]) simp
    with one show ?thesis
      by (auto simp: mark_entry_def Let_def nth_list_update split: option.splits if_splits)
        (metis nth_list_update_eq nth_list_update_neq)
  qed
  have "\<exists>e. blocks' ! j = (blocks ! j)\<lparr>b_prog_entry := e\<rparr>" if j: "j < length blocks" for j
  proof -
    from a j obtain e where "blocks1 ! j = (blocks ! j)\<lparr>b_prog_entry := e\<rparr>" by auto
    moreover from Cons.IH [OF rest] a j obtain e' where "blocks' ! j = (blocks1 ! j)\<lparr>b_prog_entry := e'\<rparr>" by auto
    ultimately show ?thesis by auto
  qed
  with Cons.IH [OF rest] a show ?case by simp
qed

text \<open>The state of a built graph, as the later stages use it.\<close>

lemma build_cfg_parts:
  assumes "build_cfg instrs progs = Inr (blocks, cfg, starts, progs')"
  shows "instrs \<noteq> [] \<and> starts = leaders instrs progs \<and> length blocks = length starts \<and>
    length cfg = length blocks \<and> graph_inv (make_blocks (length instrs) starts) (blocks, cfg) \<and>
    (\<forall>j < length blocks. done_block instrs progs starts (blocks, cfg) j)"
proof -
  let ?B = "make_blocks (length instrs) (leaders instrs progs)"
  from assms obtain blocks1 where ne: "instrs \<noteq> []" and st: "starts = leaders instrs progs"
    and con: "efoldl (connect_block instrs progs starts) (?B, replicate (length ?B) []) [0..<length ?B] = Inr (blocks1, cfg)"
    and mk: "efoldl (mark_entry starts) (blocks1, []) progs = Inr (blocks, progs')"
    by (auto simp: build_cfg_def Let_def ebind_eq_Inr split: if_splits)
  from connect_all [OF con, of "length instrs"] st have inv: "graph_inv ?B (blocks1, cfg)"
    and dn: "\<forall>j < length ?B. done_block instrs progs starts (blocks1, cfg) j" by simp_all
  from mark_entry_frame [OF mk] have len: "length blocks = length blocks1"
    and fr: "\<And>j. j < length blocks1 \<Longrightarrow> \<exists>e. blocks ! j = (blocks1 ! j)\<lparr>b_prog_entry := e\<rparr>" by auto
  have l1: "length blocks1 = length ?B" "length cfg = length ?B" using inv by (simp_all add: graph_inv_def)
  have flds: "b_num (blocks ! j) = b_num (blocks1 ! j) \<and> b_start (blocks ! j) = b_start (blocks1 ! j) \<and>
      b_end (blocks ! j) = b_end (blocks1 ! j) \<and> b_preds (blocks ! j) = b_preds (blocks1 ! j) \<and>
      b_succ_t (blocks ! j) = b_succ_t (blocks1 ! j) \<and> b_succ_f (blocks ! j) = b_succ_f (blocks1 ! j) \<and>
      b_exit (blocks ! j) = b_exit (blocks1 ! j) \<and> b_jump (blocks ! j) = b_jump (blocks1 ! j) \<and>
      b_branch (blocks ! j) = b_branch (blocks1 ! j)" if "j < length ?B" for j
    using fr [of j] that l1 by auto
  have "graph_inv ?B (blocks, cfg)" using inv flds len l1 by (simp add: graph_inv_def)
  moreover have "done_block instrs progs starts (blocks, cfg) j" if jl: "j < length ?B" for j
  proof -
    have "done_block instrs progs starts (blocks1, cfg) j" using dn jl by blast
    moreover obtain e where "blocks ! j = (blocks1 ! j)\<lparr>b_prog_entry := e\<rparr>" using fr [of j] jl l1 by auto
    ultimately show ?thesis
      using done_block_cong_entry [where st = "(blocks1, cfg)" and st' = "(blocks, cfg)" and e = e] by simp
  qed
  ultimately show ?thesis using ne st len l1 by (simp add: make_blocks_nth)
qed

section \<open>Facts on a built graph\<close>

text \<open>The instruction after a jump, an exit or a tail call starts a block.\<close>

lemma instr_leaders_next:
  assumes "Suc x < length instrs" and "is_jump (instrs ! x)"
    and "is_exit (instrs ! x) \<or> \<not> is_call (instrs ! x) \<or> is_tail_call (instrs ! x)"
  shows "Suc x \<in> set (instr_leaders instrs x)"
proof -
  have "instr_leaders instrs x \<in> range (\<lambda>l. l @ [Suc x])"
    using assms unfolding instr_leaders_def Let_def
    by (simp only: if_True if_False Suc_eq_plus1 split: if_splits)
      (blast intro: range_eqI [of _ _ "[]"] range_eqI)
  then show ?thesis by auto
qed

lemma next_pcs_plain:
  assumes "Suc x \<notin> set (leaders instrs progs)" and "Suc x < length instrs"
  shows "next_pcs instrs c x = {int x + 1}"
proof -
  have "Suc x \<notin> set (instr_leaders instrs x)" using assms(1) Suc_lessD [OF assms(2)] by (auto simp: set_leaders)
  then have "\<not> is_jump (instrs ! x) \<or> (is_call (instrs ! x) \<and> \<not> is_tail_call (instrs ! x) \<and> \<not> is_exit (instrs ! x))"
    using instr_leaders_next [OF assms(2)] by blast
  then show ?thesis
  proof
    assume "\<not> is_jump (instrs ! x)"
    then show ?thesis by (simp add: next_pcs_def Let_def instr_defs)
  next
    assume a: "is_call (instrs ! x) \<and> \<not> is_tail_call (instrs ! x) \<and> \<not> is_exit (instrs ! x)"
    then have "i_opcode_code (instrs ! x) = BPF_CALL" "\<not> is_branch (instrs ! x)"
      by (simp_all add: is_call_def is_branch_def)
    with a show ?thesis by (simp add: next_pcs_def Let_def)
  qed
qed

lemma build_cfg_shape:
  assumes "build_cfg instrs progs = Inr (blocks, cfg, starts, progs')"
  shows "instrs \<noteq> []" and "starts = leaders instrs progs" and "length blocks = length (leaders instrs progs)"
  using build_cfg_parts [OF assms] by simp_all

lemma build_cfg_block:
  assumes "build_cfg instrs progs = Inr (blocks, cfg, starts, progs')" and "j < length blocks"
  shows "b_num (blocks ! j) = j" and "b_start (blocks ! j) = leaders instrs progs ! j"
    and "b_end (blocks ! j) = (if j + 1 < length blocks then leaders instrs progs ! (j + 1) - 1
                               else length instrs - 1)"
    and "set (cfg ! j) \<subseteq> {..<length blocks}" and "set (b_preds (blocks ! j)) \<subseteq> {..<length blocks}"
    and "done_block instrs progs starts (blocks, cfg) j"
    and "s < length blocks \<Longrightarrow> count_list (b_preds (blocks ! s)) j = count_list (cfg ! j) s"
proof -
  note p = build_cfg_parts [OF assms(1)]
  then have g: "graph_inv (make_blocks (length instrs) starts) (blocks, cfg)"
    and d: "done_block instrs progs starts (blocks, cfg) j" using assms(2) by blast+
  have l: "length (make_blocks (length instrs) starts) = length blocks" "length starts = length blocks"
    "starts = leaders instrs progs"
    using p by (simp_all add: make_blocks_nth)
  from g assms(2) l make_blocks_nth
  show "b_num (blocks ! j) = j" and "b_start (blocks ! j) = leaders instrs progs ! j"
    and "b_end (blocks ! j) = (if j + 1 < length blocks then leaders instrs progs ! (j + 1) - 1
                               else length instrs - 1)"
    and "set (cfg ! j) \<subseteq> {..<length blocks}" and "set (b_preds (blocks ! j)) \<subseteq> {..<length blocks}"
    and "s < length blocks \<Longrightarrow> count_list (b_preds (blocks ! s)) j = count_list (cfg ! j) s"
    by (simp_all add: graph_inv_def)
  show "done_block instrs progs starts (blocks, cfg) j" by (rule d)
qed

lemma next_pcs_at_end:
  assumes built: "build_cfg instrs progs = Inr (blocks, cfg, starts, progs')"
    and inside: "\<forall>r \<in> set progs. p_start r < length instrs" and j: "j < length blocks"
  shows "(\<lambda>s. int (starts ! s)) ` set (cfg ! j) =
     next_pcs instrs (callee_start instrs progs (blocks ! j)) (b_end (blocks ! j)) \<inter> {0..<int (length instrs)}"
proof -
  note shape = build_cfg_shape [OF built] and block = build_cfg_block [OF built j]
  let ?b = "blocks ! j" and ?S = "{int s | s. s \<in> set starts}" and ?L = "leaders instrs progs"
  let ?N = "next_pcs instrs (callee_start instrs progs ?b) (b_end ?b)"
  have dn: "(\<lambda>s. int (starts ! s)) ` set (cfg ! j) = ?N \<inter> ?S" "?N \<subseteq> ?S \<or> \<not> is_jump (instrs ! b_end ?b)"
    using block(6) [unfolded done_block_def Let_def fst_conv snd_conv] by blast+
  have sub: "?S \<subseteq> {0..<int (length instrs)}" using starts_less [OF shape(1) inside] shape(2) by auto
  have "?N \<inter> {0..<int (length instrs)} \<subseteq> ?S" if fall: "\<not> is_jump (instrs ! b_end ?b)"
  proof -
    from fall have n: "?N = {int (b_end ?b) + 1}" by (simp add: next_pcs_def Let_def instr_defs)
    show ?thesis
    proof (cases "j + 1 < length blocks")
      case True
      then have "0 < ?L ! (j + 1)" "?L ! (j + 1) \<in> set ?L"
        using starts_mono [of j "j + 1" instrs progs] shape(3) by simp_all
      with True block(3) n shape(2) show ?thesis by auto
    next
      case False
      moreover have "0 < length instrs" using shape(1) by simp
      ultimately show ?thesis using block(3) n by auto
    qed
  qed
  from this dn(2) have "?N \<inter> {0..<int (length instrs)} \<subseteq> ?S" by blast
  moreover have "N \<inter> I \<subseteq> S \<Longrightarrow> S \<subseteq> I \<Longrightarrow> N \<inter> S = N \<inter> I" for N I S :: "int set" by blast
  ultimately show ?thesis using sub dn(1) by simp
qed

section \<open>Properties\<close>

text \<open>
  The blocks partition the instructions: every instruction lies in exactly one block,
  the blocks are numbered by position, and the start map sends the start of each block to its
  number.
\<close>

theorem cfg_partition:
  assumes "build_cfg instrs progs = Inr (blocks, cfg, starts, progs')"
    and "\<forall>r \<in> set progs. p_start r < length instrs"
  shows "(\<forall>x < length instrs. \<exists>!j. j < length blocks \<and> b_start (blocks ! j) \<le> x \<and> x \<le> b_end (blocks ! j)) \<and>
     (\<forall>j < length blocks. b_num (blocks ! j) = j \<and> b_start (blocks ! j) \<le> b_end (blocks ! j) \<and>
        start_block starts (int (b_start (blocks ! j))) = Some j)"
proof -
  let ?L = "leaders instrs progs"
  note shape = build_cfg_shape [OF assms(1)] and bs = build_cfg_block(1,2,3) [OF assms(1)]
  note mono = starts_mono [of _ _ instrs progs]
  have before: False
    if "a < b" "b < length blocks" "x \<le> b_end (blocks ! a)" "b_start (blocks ! b) \<le> x" for a b x
  proof -
    have "?L ! (a + 1) \<le> ?L ! b" using mono [of "a + 1" b] that shape(3) by (cases "a + 1 = b") auto
    with that bs(3) [of a] bs(2) [of b] mono [of a "a + 1"] shape(3) show False by auto
  qed
  then have uniq: "i = j" if "i < length blocks" "j < length blocks" "b_start (blocks ! i) \<le> x"
    "x \<le> b_end (blocks ! i)" "b_start (blocks ! j) \<le> x" "x \<le> b_end (blocks ! j)" for i j x
    using that by (metis nat_neq_iff)
  have ex: "\<exists>j < length blocks. b_start (blocks ! j) \<le> x \<and> x \<le> b_end (blocks ! j)" if x: "x < length instrs" for x
  proof -
    obtain j where "j < length ?L" "b_start (make_blocks (length instrs) ?L ! j) \<le> x"
      "x \<le> b_end (make_blocks (length instrs) ?L ! j)"
      using in_some_block [OF x, of progs] by blast
    then show ?thesis using bs [of j] shape(3) make_blocks_nth
      by (intro exI [of _ j]) auto
  qed
  have "b_num (blocks ! j) = j \<and> b_start (blocks ! j) \<le> b_end (blocks ! j) \<and>
      start_block starts (int (b_start (blocks ! j))) = Some j" if j: "j < length blocks" for j
  proof -
    have jl: "j < length ?L" using j shape(3) by simp
    have lt: "?L ! j < length instrs" using starts_less [OF shape(1) assms(2)] jl by simp
    have "b_start (blocks ! j) \<le> b_end (blocks ! j)" using bs [OF j] mono [of j "j + 1"] lt shape(3) by auto
    moreover obtain s where s: "start_block ?L (int (?L ! j)) = Some s"
      using start_block_None_iff [of ?L "int (?L ! j)"] jl nth_mem by fastforce
    moreover have "s = j" using start_block_SomeD [OF s] jl
        nth_eq_iff_index_eq [OF starts_sorted(2), of s instrs progs j] by simp
    ultimately show ?thesis using bs [OF j] shape(2) by simp
  qed
  then show ?thesis using uniq ex by blast
qed

text \<open>
  Claim C23.  The edges of the graph are exactly the transfers of control of the code.  Inside a
  block control only falls through; after its last instruction it can go to exactly the starts
  of the block's successors: the target of a jump, both ways of a conditional jump, the callee of
  a tail call and the instruction after it, nothing after an exit.
\<close>

theorem cfg_edges_exact:
  assumes "build_cfg instrs progs = Inr (blocks, cfg, starts, progs')"
    and "\<forall>r \<in> set progs. p_start r < length instrs" and "j < length blocks"
  shows "(\<forall>x. b_start (blocks ! j) \<le> x \<longrightarrow> x < b_end (blocks ! j) \<longrightarrow>
             (\<forall>c. next_pcs instrs c x = {int x + 1}) \<and> Suc x \<notin> set starts) \<and>
     (\<lambda>s. int (b_start (blocks ! s))) ` set (cfg ! j) =
       next_pcs instrs (callee_start instrs progs (blocks ! j)) (b_end (blocks ! j)) \<inter>
         {0..<int (length instrs)}"
proof -
  note shape = build_cfg_shape [OF assms(1)] and block = build_cfg_block [OF assms(1,3)]
  have img: "(\<lambda>s. int (b_start (blocks ! s))) ` set (cfg ! j) = (\<lambda>s. int (starts ! s)) ` set (cfg ! j)"
    using block(4) build_cfg_block(2) [OF assms(1)] shape(2) by (intro image_cong) auto
  have "(\<forall>c. next_pcs instrs c x = {int x + 1}) \<and> Suc x \<notin> set starts"
    if x: "b_start (blocks ! j) \<le> x" "x < b_end (blocks ! j)" for x
  proof -
    let ?b = "make_blocks (length instrs) (leaders instrs progs) ! j"
    have b: "b_start ?b = b_start (blocks ! j)" "b_end ?b = b_end (blocks ! j)"
      using block(2,3) assms(3) shape(3) by (simp_all add: make_blocks_nth)
    have lt: "b_end (blocks ! j) < length instrs" using block(6) by (simp add: done_block_def Let_def)
    have "Suc x \<notin> set (leaders instrs progs)"
      using inside_not_leader [of j instrs progs ?b "Suc x"] assms(3) shape(3) x b lt by simp
    with next_pcs_plain [OF this] x lt shape(2) show ?thesis by simp
  qed
  with img next_pcs_at_end [OF assms] show ?thesis by simp
qed

text \<open>
  The three representations of the edges agree: the adjacency list of a block is its
  taken successor followed by its fall-through successor, each number is a block, and a block
  occurs among another's predecessors as often as that one lists it as a successor.
\<close>

theorem cfg_preds_succs:
  assumes "build_cfg instrs progs = Inr (blocks, cfg, starts, progs')"
    and "i < length blocks" and "j < length blocks"
  shows "cfg ! i = block_succs (blocks ! i) \<and> set (cfg ! i) \<subseteq> {..<length blocks} \<and>
     set (b_preds (blocks ! i)) \<subseteq> {..<length blocks} \<and>
     count_list (b_preds (blocks ! j)) i = count_list (cfg ! i) j"
proof -
  note block = build_cfg_block [OF assms(1,2)]
  have "cfg ! i = block_succs (blocks ! i)" using block(6) by (simp add: done_block_def Let_def)
  then show ?thesis using block(4,5) block(7) [OF assms(3)] by simp
qed

lemma next_block_free_item:
  assumes "acyclic {(p, b). b \<in> set untraced \<and> p \<in> set (b_preds (blocks ! b))}" and "untraced \<noteq> []"
  shows "\<exists>item \<in> set untraced. get_next_block_no blocks untraced = Inr item \<and>
     set (b_preds (blocks ! item)) \<inter> set untraced = {}"
proof -
  define R where "R = {(p, b). p \<in> set (b_preds (blocks ! b)) \<and> p \<in> set untraced \<and> b \<in> set untraced}"
  have "finite R" by (rule finite_subset [of _ "set untraced \<times> set untraced"]) (auto simp: R_def)
  moreover have "acyclic R" using assms(1) by (rule acyclic_subset) (auto simp: R_def)
  ultimately have wf: "wf R" by (rule finite_acyclic_wf)
  have hd: "hd untraced \<in> set untraced" using assms(2) by simp
  have "\<exists>z \<in> set untraced. \<forall>y. (y, z) \<in> R \<longrightarrow> y \<notin> set untraced"
    using wf hd unfolding wf_eq_minimal by blast
  then obtain z where z: "z \<in> set untraced" "\<forall>y. (y, z) \<in> R \<longrightarrow> y \<notin> set untraced" by blast
  have free: "p \<notin> set untraced" if "p \<in> set (b_preds (blocks ! z))" for p
  proof
    assume "p \<in> set untraced"
    then have "(p, z) \<in> R" using that z(1) by (simp add: R_def)
    then have "p \<notin> set untraced" using z(2) by blast
    then show False using \<open>p \<in> set untraced\<close> by blast
  qed
  have "\<exists>item \<in> set untraced. \<forall>p \<in> set (b_preds (blocks ! item)). p \<notin> set untraced"
    by (rule bexI [OF ballI z(1)]) (rule free)
  then have "find (\<lambda>item. \<forall>p \<in> set (b_preds (blocks ! item)). p \<notin> set untraced) untraced \<noteq> None"
    unfolding find_None_iff by blast
  then obtain item where f: "find (\<lambda>item. \<forall>p \<in> set (b_preds (blocks ! item)). p \<notin> set untraced) untraced = Some item"
    by blast
  then have g: "get_next_block_no blocks untraced = Inr item" by (simp add: get_next_block_no_def)
  from find_SomeD [OF f] have "item \<in> set untraced"
    and "\<forall>p \<in> set (b_preds (blocks ! item)). p \<notin> set untraced" by simp_all
  then show ?thesis using g by (intro bexI [of _ item]) auto
qed

text \<open>
  The analysis never gets stuck on an acyclic graph: as long as blocks remain, one of
  them has all its predecessors behind it, and the scheduler returns such a block.
\<close>

theorem next_block_progress:
  assumes "acyclic {(p, b). b \<in> set untraced \<and> p \<in> set (b_preds (blocks ! b))}" and "untraced \<noteq> []"
  shows "\<exists>item \<in> set untraced. get_next_block_no blocks untraced = Inr item \<and>
     set (b_preds (blocks ! item)) \<inter> set untraced = {}"
  using assms by (rule next_block_free_item)

text \<open>A program with a conditional jump, for the witnesses.\<close>

definition demo_diamond :: "instr list" where
  "demo_diamond =
     (case decode_text 0 0 0 (encode_slot 0xb7 0 0 0 1 @ encode_slot 0x15 1 0 1 0 @
                              encode_slot 0xb7 0 0 0 2 @ encode_slot 0x95 0 0 0 0) of
        Inl _ \<Rightarrow> [] | Inr instrs \<Rightarrow> instrs)"

lemma demo_diamond_built:
  obtains blocks cfg progs where
    "build_cfg demo_diamond [] = Inr (blocks, cfg, [0, 2, 3], progs)" and "length blocks = 3"
    and "map b_preds blocks = [[], [0], [0, 1]]" and "cfg = [[2, 1], [2], []]"
    and "map b_start blocks = [0, 2, 3]" and "map b_end blocks = [1, 2, 3]"
proof -
  have "case build_cfg demo_diamond [] of Inl _ \<Rightarrow> False
    | Inr (blocks, cfg, starts, progs) \<Rightarrow> starts = [0, 2, 3] \<and> length blocks = 3 \<and>
        map b_preds blocks = [[], [0], [0, 1]] \<and> cfg = [[2, 1], [2], []] \<and>
        map b_start blocks = [0, 2, 3] \<and> map b_end blocks = [1, 2, 3]" by code_simp
  with that show thesis by (auto split: sum.splits)
qed

theorem cfg_partition_witness:
  "\<exists>blocks cfg starts progs. build_cfg demo_diamond [] = Inr (blocks, cfg, starts, progs) \<and>
     b_start (blocks ! 1) \<le> b_end (blocks ! 1) \<and> b_num (blocks ! 1) = 1"
proof -
  obtain blocks cfg progs where b: "build_cfg demo_diamond [] = Inr (blocks, cfg, [0, 2, 3], progs)"
    and l: "length blocks = 3" by (rule demo_diamond_built)
  have "1 < length blocks" using l by simp
  with cfg_partition [OF b] b show ?thesis by auto
qed

theorem cfg_edges_exact_witness:
  "\<exists>blocks cfg starts progs. build_cfg demo_diamond [] = Inr (blocks, cfg, starts, progs) \<and>
     next_pcs demo_diamond None 0 = {1}"
proof -
  obtain blocks cfg progs where b: "build_cfg demo_diamond [] = Inr (blocks, cfg, [0, 2, 3], progs)"
    and l: "length blocks = 3" and s: "map b_start blocks = [0, 2, 3]" and e: "map b_end blocks = [1, 2, 3]"
    by (rule demo_diamond_built)
  have "b_start (blocks ! 0) = 0" "b_end (blocks ! 0) = 1"
    using arg_cong [OF s, of "\<lambda>l. l ! 0"] arg_cong [OF e, of "\<lambda>l. l ! 0"] l by simp_all
  with cfg_edges_exact [OF b, of 0] l b show ?thesis by auto
qed

theorem cfg_preds_succs_witness:
  "\<exists>blocks cfg starts progs. build_cfg demo_diamond [] = Inr (blocks, cfg, starts, progs) \<and>
     count_list (b_preds (blocks ! 2)) 1 = count_list (cfg ! 1) 2 \<and> cfg ! 1 = [2]"
proof -
  obtain blocks cfg progs where b: "build_cfg demo_diamond [] = Inr (blocks, cfg, [0, 2, 3], progs)"
    and l: "length blocks = 3" and c: "cfg = [[2, 1], [2], []]"
    by (rule demo_diamond_built)
  from cfg_preds_succs [OF b, of 1 2] l have "count_list (b_preds (blocks ! 2)) 1 = count_list (cfg ! 1) 2" by simp
  with b c show ?thesis by (intro exI) (rule conjI [OF b], simp)
qed

theorem next_block_progress_witness:
  "\<exists>item. get_next_block_no [(new_bblock 0 0 1)\<lparr>b_preds := [1]\<rparr>, new_bblock 1 2 3] [0, 1] = Inr item \<and> item = 1"
proof -
  let ?blocks = "[(new_bblock 0 0 1)\<lparr>b_preds := [1]\<rparr>, new_bblock 1 2 3]"
  have "{(p, b). b \<in> set [0, 1] \<and> p \<in> set (b_preds (?blocks ! b))} = {(1, 0)}"
    by (auto simp: new_bblock_def)
  then have "acyclic {(p, b). b \<in> set [0, 1] \<and> p \<in> set (b_preds (?blocks ! b))}"
    by (simp only:) (simp add: wf_acyclic)
  from next_block_progress [OF this] show ?thesis by (auto simp: new_bblock_def)
qed

end
