(* ===== verification/Prune.thy ===== *)
theory Prune
  imports Cfg
begin

text \<open>
  The graph algorithms of \<open>hornet/verify/prune.py\<close>: the blocks reachable from the entry, the
  blocks from which a target is reachable, a topological order by depth-first search, and the
  ancestors of each block.  The stack of a search is a list with its top first.  The reachability
  conditions themselves are in \<open>Reach\<close>.
\<close>

section \<open>The algorithms\<close>

definition successors :: "'a bblock_scheme \<Rightarrow> nat list" where
  "successors s =
     (case b_succ_t s of None \<Rightarrow> [] | Some t \<Rightarrow> [t]) @
     (case b_succ_f s of None \<Rightarrow> [] | Some f \<Rightarrow> if b_succ_f s \<noteq> b_succ_t s then [f] else [])"

lemma card_insert_less: "b < (n::nat) \<Longrightarrow> b \<notin> S \<Longrightarrow> card ({..<n} - insert b S) < card ({..<n} - S)"
  by (rule psubset_card_mono) auto

function reach_loop :: "'a bblock_scheme list \<Rightarrow> nat set \<Rightarrow> nat list \<Rightarrow> nat set" where
  "reach_loop blocks seen [] = seen"
| "reach_loop blocks seen (b # stack) =
     (if b \<in> seen \<or> \<not> b < length blocks then reach_loop blocks seen stack
      else reach_loop blocks (insert b seen) (rev (successors (blocks ! b)) @ stack))"
  by pat_completeness auto
termination
  by (relation "(\<lambda>(blocks, seen, stack). card ({..<length blocks} - seen)) <*mlex*> measure (\<lambda>(_, _, stack). length stack)")
    (auto simp: wf_mlex intro: mlex_less mlex_leq card_insert_less)

definition forward_reachable :: "'a bblock_scheme list \<Rightarrow> nat set" where
  "forward_reachable blocks = reach_loop blocks {} [0]"

function slice_loop ::
  "'a bblock_scheme list \<Rightarrow> nat set \<Rightarrow> nat set \<Rightarrow> nat list \<Rightarrow> nat set res" where
  "slice_loop blocks live bwd [] = Inr bwd"
| "slice_loop blocks live bwd (b # stack) =
     (if b \<in> bwd then slice_loop blocks live bwd stack
      else if \<not> b < length blocks then Inl IndexError
      else slice_loop blocks live (insert b bwd)
             (rev (filter (\<lambda>p. p \<in> live \<and> p \<notin> insert b bwd) (b_preds (blocks ! b))) @ stack))"
  by pat_completeness auto
termination
  by (relation "(\<lambda>(blocks, live, bwd, stack). card ({..<length blocks} - bwd)) <*mlex*> measure (\<lambda>(_, _, _, stack). length stack)")
    (auto simp: wf_mlex intro: mlex_less mlex_leq card_insert_less)

definition slice_to :: "'a bblock_scheme list \<Rightarrow> nat set \<Rightarrow> nat \<Rightarrow> nat set res" where
  "slice_to blocks live target = slice_loop blocks live {} [target]"

text \<open>
  The search of \<open>topo_order\<close>.  A block is uncoloured, 1 while it is on the current path and 2 when
  it is done; the stack holds blocks to visit (\<open>False\<close>) and blocks to finish (\<open>True\<close>).
\<close>

definition push_succs ::
  "nat set \<Rightarrow> (nat \<Rightarrow> nat option) \<Rightarrow> nat list \<Rightarrow> (nat \<times> bool) list \<Rightarrow> (nat \<times> bool) list res" where
  "push_succs live color us stack =
     efoldl (\<lambda>st u. if u \<notin> live then Inr st
                    else if color u = Some 1 then Inl (RuntimeError ''prune: cycle detected'')
                    else if color u \<noteq> Some 2 then Inr ((u, False) # st) else Inr st) stack us"

function topo_loop ::
  "'a bblock_scheme list \<Rightarrow> nat set \<Rightarrow> nat list \<Rightarrow> (nat \<Rightarrow> nat option) \<Rightarrow> (nat \<times> bool) list \<Rightarrow> nat list res" where
  "topo_loop blocks live order color [] = Inr order"
| "topo_loop blocks live order color ((b, d) # stack) =
     (if d then topo_loop blocks live (order @ [b]) (color(b \<mapsto> 2)) stack
      else if color b \<noteq> None then topo_loop blocks live order color stack
      else if \<not> b < length blocks then Inl IndexError
      else
        let color' = color(b \<mapsto> 1) in
        case push_succs live color' (successors (blocks ! b)) ((b, True) # stack) of
          Inl e \<Rightarrow> Inl e
        | Inr stack' \<Rightarrow> topo_loop blocks live order color' stack')"
  by pat_completeness auto

lemma card_recoloured: "card {c. c < n \<and> (color(b \<mapsto> k)) c = None} \<le> card {c. c < (n::nat) \<and> color c = None}"
  by (rule card_mono) (auto split: if_splits)

lemma card_uncoloured:
  "b < n \<Longrightarrow> color b = None \<Longrightarrow> card {c. c < n \<and> (color(b \<mapsto> k)) c = None} < card {c. c < (n::nat) \<and> color c = None}"
  by (rule psubset_card_mono) (auto split: if_splits)

termination topo_loop
proof (relation "(\<lambda>(blocks, live, order, color, stack). card {c. c < length blocks \<and> color c = None})
      <*mlex*> measure (\<lambda>(_, _, _, _, stack). length stack)", goal_cases)
  case 1
  show ?case by (simp add: wf_mlex)
next
  case (2 blocks live order color b d stack)
  show ?case by (rule mlex_leq) (simp_all only: prod.case card_recoloured, simp)
next
  case (3 blocks live order color b d stack)
  show ?case by (rule mlex_leq) simp_all
next
  case (4 blocks live order color b d stack)
  then show ?case by (intro mlex_less) (simp only: prod.case card_uncoloured not_not)
qed

definition topo_order :: "'a bblock_scheme list \<Rightarrow> nat set \<Rightarrow> nat list res" where
  "topo_order blocks live =
     ebind (topo_loop blocks live [] (\<lambda>_. None) [(0, False)]) (\<lambda>order.
     if length order \<noteq> card live then Inl (RuntimeError ''prune: topological sort covered'')
     else Inr (rev order))"

text \<open>A dictionary of sets, filled in the given order; \<open>p in anc\<close> asks for the entries so far.\<close>

definition ancestors :: "'a bblock_scheme list \<Rightarrow> nat list \<Rightarrow> (nat \<times> nat set) list" where
  "ancestors blocks order =
     foldl (\<lambda>anc b. dict_set b
         (\<Union>p \<in> {p \<in> set (b_preds (blocks ! b)). dict_get anc p \<noteq> None}. insert p (the (dict_get anc p))) anc)
       [] order"

definition exit_blocks :: "'a bblock_scheme list \<Rightarrow> nat list" where
  "exit_blocks blocks = map b_num (filter (\<lambda>b. b_kind b = KExit) blocks)"

section \<open>The interface of the graph\<close>

text \<open>
  What the algorithms ask of a graph: its number of nodes, the successors and the predecessors of
  a node, where the two agree.
\<close>

locale flow_graph =
  fixes wf :: "'g \<Rightarrow> bool" and nodes :: "'g \<Rightarrow> nat"
    and succs :: "'g \<Rightarrow> nat \<Rightarrow> nat list" and preds :: "'g \<Rightarrow> nat \<Rightarrow> nat list"
  assumes succs_bound: "wf g \<Longrightarrow> b < nodes g \<Longrightarrow> u \<in> set (succs g b) \<Longrightarrow> u < nodes g"
    and preds_succs: "wf g \<Longrightarrow> b < nodes g \<Longrightarrow> p \<in> set (preds g b) \<longleftrightarrow> p < nodes g \<and> b \<in> set (succs g p)"
begin

definition flow :: "'g \<Rightarrow> nat rel" where
  "flow g = {(p, b). p < nodes g \<and> b \<in> set (succs g p)}"

definition flow_in :: "'g \<Rightarrow> nat set \<Rightarrow> nat rel" where
  "flow_in g L = flow g \<inter> L \<times> L"

lemma flow_bound: "wf g \<Longrightarrow> (p, b) \<in> flow g \<Longrightarrow> p < nodes g \<and> b < nodes g"
  by (auto simp: flow_def intro: succs_bound)

lemma flow_preds: "wf g \<Longrightarrow> b < nodes g \<Longrightarrow> p \<in> set (preds g b) \<longleftrightarrow> (p, b) \<in> flow g"
  by (simp add: flow_def preds_succs)

lemma flow_reach_bound: "(a, b) \<in> (flow g)\<^sup>* \<Longrightarrow> wf g \<Longrightarrow> a < nodes g \<Longrightarrow> b < nodes g"
  by (induction rule: rtrancl_induct) (auto dest: flow_bound)

lemma flow_in_closed:
  assumes "a \<in> S" and "\<And>p b. p \<in> S \<Longrightarrow> (p, b) \<in> R \<Longrightarrow> b \<in> S"
  shows "R\<^sup>* `` {a} \<subseteq> S"
  using assms by (auto elim: rtrancl_induct)

text \<open>An order of all of \<open>L\<close> in which every edge inside \<open>L\<close> points forward.\<close>

definition topological :: "'g \<Rightarrow> nat set \<Rightarrow> nat list \<Rightarrow> bool" where
  "topological g L xs \<longleftrightarrow> distinct xs \<and> set xs = L \<and>
     (\<forall>ys b zs. xs = ys @ b # zs \<longrightarrow> (\<forall>u. (b, u) \<in> flow_in g L \<longrightarrow> u \<in> set zs))"

lemma topological_acyclic:
  assumes "topological g L xs"
  shows "acyclic (flow_in g L)"
proof (rule acyclicI, intro allI notI)
  have step: "i < j" if "(xs ! i, xs ! j) \<in> flow_in g L" "i < length xs" "j < length xs" for i j
  proof -
    have "xs ! j \<in> set (drop (Suc i) xs)"
      using assms that id_take_nth_drop [OF that(2)] by (auto simp: topological_def)
    then obtain k where k: "k < length xs - Suc i" "xs ! j = xs ! (Suc i + k)"
      by (auto simp: in_set_conv_nth)
    with assms that have "j = Suc i + k" by (auto simp: topological_def nth_eq_iff_index_eq)
    then show ?thesis by simp
  qed
  have "\<exists>i j. x = xs ! i \<and> y = xs ! j \<and> i < j \<and> j < length xs" if "(x, y) \<in> (flow_in g L)\<^sup>+" for x y
    using that
  proof (induction rule: trancl_induct)
    case (base y)
    then obtain i j where "x = xs ! i" "y = xs ! j" "i < length xs" "j < length xs"
      using assms by (auto simp: flow_in_def topological_def in_set_conv_nth)
    with base step show ?case by blast
  next
    case (step y z)
    then obtain i j where ij: "x = xs ! i" "y = xs ! j" "i < j" "j < length xs" by blast
    from step.hyps(2) obtain k where k: "z = xs ! k" "k < length xs"
      using assms by (auto simp: flow_in_def topological_def in_set_conv_nth)
    with ij step.hyps(2) \<open>\<And>j i. \<lbrakk>(xs ! i, xs ! j) \<in> flow_in g L; i < length xs; j < length xs\<rbrakk> \<Longrightarrow> i < j\<close>
    have "j < k" by blast
    with ij have "i < k" by simp
    with ij(1) k show ?case by blast
  qed
  then show "(x, x) \<in> (flow_in g L)\<^sup>+ \<Longrightarrow> False" for x
    using assms by (metis topological_def nth_eq_iff_index_eq less_irrefl order.strict_trans)
qed

lemma topological_before:
  assumes "topological g L (ys @ b # zs)" and "(p, b) \<in> flow_in g L"
  shows "p \<in> set ys"
proof (rule ccontr)
  assume "p \<notin> set ys"
  moreover have "p \<in> set (ys @ b # zs)" using assms by (auto simp: topological_def flow_in_def)
  ultimately obtain us vs where "ys @ b # zs = us @ p # vs" "ys = us \<and> b = p \<and> zs = vs \<or> (\<exists>ws. us = ys @ b # ws \<and> zs = ws @ p # vs)"
    by (auto dest!: split_list) (metis append.assoc append_Cons)
  then show False using assms by (fastforce simp: topological_def)
qed

end

section \<open>Block lists as graphs\<close>

definition wf_graph :: "'a bblock_scheme list \<Rightarrow> bool" where
  "wf_graph bs \<longleftrightarrow>
     (\<forall>b < length bs. set (successors (bs ! b)) \<subseteq> {..<length bs} \<and>
        set (b_preds (bs ! b)) = set (filter (\<lambda>p. b \<in> set (successors (bs ! p))) [0..<length bs]))"

interpretation blocks: flow_graph wf_graph length "\<lambda>bs b. successors (bs ! b)" "\<lambda>bs b. b_preds (bs ! b)"
  by unfold_locales (auto simp: wf_graph_def)

abbreviation flow_of :: "'a bblock_scheme list \<Rightarrow> nat rel" where
  "flow_of \<equiv> blocks.flow"

abbreviation flow_within :: "'a bblock_scheme list \<Rightarrow> nat set \<Rightarrow> nat rel" where
  "flow_within \<equiv> blocks.flow_in"

lemma set_successors: "set (successors b) = set (block_succs b)"
  by (auto simp: successors_def block_succs_def split: option.splits)

text \<open>What the graph builder returns is such a graph.\<close>

lemma build_cfg_wf_graph:
  assumes "build_cfg instrs progs = Inr (bs, cfg, starts, progs')"
  shows "wf_graph bs \<and> bs \<noteq> []"
proof -
  have cfg: "cfg ! b = block_succs (bs ! b)" "set (cfg ! b) \<subseteq> {..<length bs}" if "b < length bs" for b
    using build_cfg_block(4,6) [OF assms that] by (simp_all add: done_block_def Let_def)
  have "p \<in> set (b_preds (bs ! b)) \<longleftrightarrow> p < length bs \<and> b \<in> set (successors (bs ! p))" if "b < length bs" for p b
  proof (cases "p < length bs")
    case True
    have "count_list (b_preds (bs ! b)) p = count_list (cfg ! p) b"
      using build_cfg_block(7) [OF assms True that] .
    then show ?thesis
      using True cfg(1) [OF True] by (metis count_list_0_iff set_successors)
  next
    case False
    then show ?thesis using build_cfg_block(5) [OF assms that] by auto
  qed
  moreover have "bs \<noteq> []" using build_cfg_shape(3) [OF assms] starts_zero(1) by fastforce
  ultimately show ?thesis using cfg by (auto simp: wf_graph_def set_successors)
qed

section \<open>Reachability\<close>

lemma reach_loop_sound:
  "b \<in> reach_loop blocks seen stack \<Longrightarrow> b \<in> seen \<or> (\<exists>a \<in> set stack. a < length blocks \<and> (a, b) \<in> (flow_of blocks)\<^sup>*)"
proof (induction blocks seen stack rule: reach_loop.induct)
  case (2 blocks seen c stack)
  show ?case
  proof (cases "c \<in> seen \<or> \<not> c < length blocks")
    case False
    with 2 have "b \<in> insert c seen \<or>
        (\<exists>a \<in> set (rev (successors (blocks ! c)) @ stack). a < length blocks \<and> (a, b) \<in> (flow_of blocks)\<^sup>*)"
      by simp
    then show ?thesis
    proof (elim disjE bexE conjE)
      fix a assume a: "a \<in> set (rev (successors (blocks ! c)) @ stack)" "a < length blocks"
        "(a, b) \<in> (flow_of blocks)\<^sup>*"
      then consider "(c, a) \<in> flow_of blocks" | "a \<in> set stack" using False by (auto simp: blocks.flow_def)
      then show ?thesis using a False by cases (auto intro: converse_rtrancl_into_rtrancl)
    qed (use False in auto)
  qed (use 2 in auto)
qed simp

lemma reach_loop_complete:
  assumes "\<forall>a \<in> seen. \<forall>b. (a, b) \<in> flow_of blocks \<and> b < length blocks \<longrightarrow> b \<in> seen \<or> b \<in> set stack"
  shows "seen \<subseteq> reach_loop blocks seen stack \<and> {b \<in> set stack. b < length blocks} \<subseteq> reach_loop blocks seen stack \<and>
    (\<forall>a \<in> reach_loop blocks seen stack. \<forall>b. (a, b) \<in> flow_of blocks \<and> b < length blocks \<longrightarrow> b \<in> reach_loop blocks seen stack)"
  using assms
proof (induction blocks seen stack rule: reach_loop.induct)
  case (2 blocks seen c stack)
  show ?case
  proof (cases "c \<in> seen \<or> \<not> c < length blocks")
    case True
    have "\<forall>a \<in> seen. \<forall>b. (a, b) \<in> flow_of blocks \<and> b < length blocks \<longrightarrow> b \<in> seen \<or> b \<in> set stack"
      using 2(3) True by auto
    from 2(1) [OF True this] True show ?thesis by auto
  next
    case False
    have "\<forall>a \<in> insert c seen. \<forall>b. (a, b) \<in> flow_of blocks \<and> b < length blocks \<longrightarrow>
        b \<in> insert c seen \<or> b \<in> set (rev (successors (blocks ! c)) @ stack)"
      using 2(3) by (auto simp: blocks.flow_def)
    from 2(2) [OF False this] False show ?thesis by simp blast
  qed
qed simp

lemma forward_reachable_eq:
  assumes "wf_graph blocks" and "blocks \<noteq> []"
  shows "forward_reachable blocks = (flow_of blocks)\<^sup>* `` {0}"
proof
  show "forward_reachable blocks \<subseteq> (flow_of blocks)\<^sup>* `` {0}"
    using reach_loop_sound [of _ blocks "{}" "[0]"] by (auto simp: forward_reachable_def)
  have "0 \<in> forward_reachable blocks" and cl: "\<And>a b. a \<in> forward_reachable blocks \<Longrightarrow> (a, b) \<in> flow_of blocks \<Longrightarrow>
      b \<in> forward_reachable blocks"
    using reach_loop_complete [of "{}" blocks "[0]"] assms blocks.flow_bound [OF assms(1)]
    by (auto simp: forward_reachable_def)
  then show "(flow_of blocks)\<^sup>* `` {0} \<subseteq> forward_reachable blocks"
    by (intro blocks.flow_in_closed) auto
qed

text \<open>Backwards, inside a set of live blocks.\<close>

lemma slice_loop_ok:
  assumes "wf_graph blocks" and "live \<subseteq> {..<length blocks}" and "set stack \<subseteq> live" and "bwd \<subseteq> live"
    and "\<forall>a \<in> bwd. \<forall>p. (p, a) \<in> flow_within blocks live \<longrightarrow> p \<in> bwd \<or> p \<in> set stack"
  shows "\<exists>S. slice_loop blocks live bwd stack = Inr S \<and> bwd \<subseteq> S \<and> set stack \<subseteq> S \<and> S \<subseteq> live \<and>
    (\<forall>a \<in> S. \<forall>p. (p, a) \<in> flow_within blocks live \<longrightarrow> p \<in> S) \<and>
    (\<forall>a \<in> S. a \<in> bwd \<or> (\<exists>t \<in> set stack. (a, t) \<in> (flow_within blocks live)\<^sup>*))"
  using assms
proof (induction blocks live bwd stack rule: slice_loop.induct)
  case (2 blocks live bwd c stack)
  show ?case
  proof (cases "c \<in> bwd")
    case True
    with 2(3-) have "\<exists>S. slice_loop blocks live bwd stack = Inr S \<and> bwd \<subseteq> S \<and> set stack \<subseteq> S \<and> S \<subseteq> live \<and>
      (\<forall>a \<in> S. \<forall>p. (p, a) \<in> flow_within blocks live \<longrightarrow> p \<in> S) \<and>
      (\<forall>a \<in> S. a \<in> bwd \<or> (\<exists>t \<in> set stack. (a, t) \<in> (flow_within blocks live)\<^sup>*))"
      by (intro 2(1) [OF True]) auto
    with True show ?thesis by fastforce
  next
    case False
    have c: "c < length blocks" "c \<in> live" using 2(4,5) by auto
    let ?ps = "filter (\<lambda>p. p \<in> live \<and> p \<notin> insert c bwd) (b_preds (blocks ! c))"
    have ps: "(p, c) \<in> flow_within blocks live \<longleftrightarrow> p \<in> live \<and> p \<in> set (b_preds (blocks ! c))" for p
      using blocks.flow_preds [OF 2(3) c(1)] c by (auto simp: blocks.flow_in_def)
    have "\<exists>S. slice_loop blocks live (insert c bwd) (rev ?ps @ stack) = Inr S \<and> insert c bwd \<subseteq> S \<and>
      set (rev ?ps @ stack) \<subseteq> S \<and> S \<subseteq> live \<and>
      (\<forall>a \<in> S. \<forall>p. (p, a) \<in> flow_within blocks live \<longrightarrow> p \<in> S) \<and>
      (\<forall>a \<in> S. a \<in> insert c bwd \<or> (\<exists>t \<in> set (rev ?ps @ stack). (a, t) \<in> (flow_within blocks live)\<^sup>*))"
    proof (rule 2(2) [OF False _ 2(3,4)])
      show "\<not> \<not> c < length blocks" using c by simp
      show "set (rev ?ps @ stack) \<subseteq> live" "insert c bwd \<subseteq> live" using 2(5,6) c by auto
      show "\<forall>a \<in> insert c bwd. \<forall>p. (p, a) \<in> flow_within blocks live \<longrightarrow>
          p \<in> insert c bwd \<or> p \<in> set (rev ?ps @ stack)"
        using 2(7) c by (simp add: ps) blast
    qed
    then obtain S where S: "slice_loop blocks live (insert c bwd) (rev ?ps @ stack) = Inr S" "insert c bwd \<subseteq> S"
      "set (rev ?ps @ stack) \<subseteq> S" "S \<subseteq> live" "\<forall>a \<in> S. \<forall>p. (p, a) \<in> flow_within blocks live \<longrightarrow> p \<in> S"
      "\<forall>a \<in> S. a \<in> insert c bwd \<or> (\<exists>t \<in> set (rev ?ps @ stack). (a, t) \<in> (flow_within blocks live)\<^sup>*)" by blast
    have "a \<in> bwd \<or> (\<exists>t \<in> set (c # stack). (a, t) \<in> (flow_within blocks live)\<^sup>*)" if "a \<in> S" for a
    proof -
      from S(6) that consider "a = c" | "a \<in> bwd" | t where "t \<in> set ?ps" "(a, t) \<in> (flow_within blocks live)\<^sup>*"
        | t where "t \<in> set stack" "(a, t) \<in> (flow_within blocks live)\<^sup>*" by auto
      then show ?thesis
      proof cases
        case 3
        then have "(t, c) \<in> flow_within blocks live" by (simp add: ps)
        with 3(2) show ?thesis by (auto intro: rtrancl_into_rtrancl)
      qed auto
    qed
    with S False c show ?thesis by (intro exI [of _ S]) auto
  qed
qed simp

lemma slice_to_eq:
  assumes "wf_graph blocks" and "live \<subseteq> {..<length blocks}" and "t \<in> live"
  shows "slice_to blocks live t = Inr {a. (a, t) \<in> (flow_within blocks live)\<^sup>*}"
proof -
  have t: "set [t] \<subseteq> live" "{} \<subseteq> live"
    "\<forall>a \<in> {}. \<forall>p. (p, a) \<in> flow_within blocks live \<longrightarrow> p \<in> {} \<or> p \<in> set [t]" using assms(3) by simp_all
  from slice_loop_ok [OF assms(1,2) t]
  obtain S where S: "slice_loop blocks live {} [t] = Inr S" "set [t] \<subseteq> S"
    "\<forall>a \<in> S. \<forall>p. (p, a) \<in> flow_within blocks live \<longrightarrow> p \<in> S"
    "\<forall>a \<in> S. a \<in> {} \<or> (\<exists>u \<in> set [t]. (a, u) \<in> (flow_within blocks live)\<^sup>*)" by blast
  have "a \<in> S" if "(a, t) \<in> (flow_within blocks live)\<^sup>*" for a
    using that
  proof (induction rule: converse_rtrancl_induct)
    case (step y z)
    with S(3) show ?case by blast
  qed (use S(2) in simp)
  with S(4) have "S = {a. (a, t) \<in> (flow_within blocks live)\<^sup>*}" by auto
  with S(1) show ?thesis by (simp add: slice_to_def)
qed

section \<open>The topological order\<close>

text \<open>The invariant of the search, in two parts: the finished blocks, and the stack.\<close>

definition done_inv ::
  "'a bblock_scheme list \<Rightarrow> nat set \<Rightarrow> nat list \<Rightarrow> (nat \<Rightarrow> nat option) \<Rightarrow> bool" where
  "done_inv blocks live order color \<longleftrightarrow>
     distinct order \<and> set order = {b. color b = Some 2} \<and> set order \<subseteq> live \<and>
     (\<forall>ys b zs. order = ys @ b # zs \<longrightarrow> (\<forall>u. (b, u) \<in> flow_within blocks live \<longrightarrow> u \<in> set ys))"

definition stack_inv ::
  "'a bblock_scheme list \<Rightarrow> nat set \<Rightarrow> (nat \<Rightarrow> nat option) \<Rightarrow> (nat \<times> bool) list \<Rightarrow> bool" where
  "stack_inv blocks live color stack \<longleftrightarrow>
     fst ` set stack \<subseteq> live \<and> (\<forall>b. color b \<in> {None, Some 1, Some 2}) \<and>
     (\<forall>b. color b = Some 1 \<longleftrightarrow> (b, True) \<in> set stack) \<and>
     (\<forall>xs b d ys. stack = xs @ (b, d) # ys \<longrightarrow>
        (if d then (b, True) \<notin> set xs \<and>
           (\<forall>u. (b, u) \<in> flow_within blocks live \<longrightarrow> color u = Some 2 \<or> u \<in> fst ` set xs) \<and>
           (\<forall>c \<in> fst ` set xs. (b, c) \<in> (flow_within blocks live)\<^sup>+)
         else color b = Some 1 \<longrightarrow> (b, True) \<in> set xs))"

lemma stack_invD:
  assumes "stack_inv blocks live color stack" and "stack = xs @ (b, d) # ys"
  shows "if d then (b, True) \<notin> set xs \<and>
      (\<forall>u. (b, u) \<in> flow_within blocks live \<longrightarrow> color u = Some 2 \<or> u \<in> fst ` set xs) \<and>
      (\<forall>c \<in> fst ` set xs. (b, c) \<in> (flow_within blocks live)\<^sup>+)
    else color b = Some 1 \<longrightarrow> (b, True) \<in> set xs"
  using assms unfolding stack_inv_def by blast

lemma stack_inv_proj:
  assumes "stack_inv blocks live color stack"
  shows "fst ` set stack \<subseteq> live" and "color b = None \<or> color b = Some 1 \<or> color b = Some 2"
    and "color b = Some 1 \<longleftrightarrow> (b, True) \<in> set stack"
  using assms unfolding stack_inv_def by blast+

lemma stack_invI:
  assumes "fst ` set stack \<subseteq> live" and "\<And>b. color b = None \<or> color b = Some 1 \<or> color b = Some 2"
    and "\<And>b. color b = Some 1 \<longleftrightarrow> (b, True) \<in> set stack"
    and "\<And>xs b d ys. stack = xs @ (b, d) # ys \<Longrightarrow>
      if d then (b, True) \<notin> set xs \<and>
        (\<forall>u. (b, u) \<in> flow_within blocks live \<longrightarrow> color u = Some 2 \<or> u \<in> fst ` set xs) \<and>
        (\<forall>c \<in> fst ` set xs. (b, c) \<in> (flow_within blocks live)\<^sup>+)
      else color b = Some 1 \<longrightarrow> (b, True) \<in> set xs"
  shows "stack_inv blocks live color stack"
  using assms unfolding stack_inv_def by blast

lemma done_inv_finish:
  assumes "done_inv blocks live order color" and "stack_inv blocks live color ((b, True) # stack)"
  shows "done_inv blocks live (order @ [b]) (color(b \<mapsto> 2))"
proof -
  have b: "color b = Some 1" "b \<in> live" using stack_inv_proj(1,3) [OF assms(2)] by auto
  have su: "\<forall>u. (b, u) \<in> flow_within blocks live \<longrightarrow> u \<in> set order"
    using stack_invD [OF assms(2), of "[]"] assms(1) by (auto simp: done_inv_def)
  have "\<forall>u. (c, u) \<in> flow_within blocks live \<longrightarrow> u \<in> set ys" if "order @ [b] = ys @ c # zs" for ys c zs
  proof (cases zs rule: rev_cases)
    case Nil
    with that su show ?thesis by simp
  next
    case (snoc zs' x)
    with that have "order = ys @ c # zs'" by simp
    with assms(1) show ?thesis unfolding done_inv_def by blast
  qed
  then show ?thesis using assms(1) b by (auto simp: done_inv_def)
qed

lemma stack_inv_finish:
  assumes "stack_inv blocks live color ((b, True) # stack)"
  shows "stack_inv blocks live (color(b \<mapsto> 2)) stack"
proof -
  note inv = stack_inv_proj [OF assms]
  have nb: "(b, True) \<notin> set stack"
  proof
    assume "(b, True) \<in> set stack"
    then obtain xs ys where "stack = xs @ (b, True) # ys" by (auto dest: split_list)
    with stack_invD [OF assms, of "(b, True) # xs" b True ys] show False by simp
  qed
  have pos: "if d then (c, True) \<notin> set xs \<and>
           (\<forall>u. (c, u) \<in> flow_within blocks live \<longrightarrow> (color(b \<mapsto> 2)) u = Some 2 \<or> u \<in> fst ` set xs) \<and>
           (\<forall>e \<in> fst ` set xs. (c, e) \<in> (flow_within blocks live)\<^sup>+)
         else (color(b \<mapsto> 2)) c = Some 1 \<longrightarrow> (c, True) \<in> set xs"
    if "stack = xs @ (c, d) # ys" for xs c d ys
    using stack_invD [OF assms, of "(b, True) # xs" c d ys] that by (auto split: if_splits)
  show ?thesis
  proof (rule stack_invI [OF _ _ _ pos])
    show "fst ` set stack \<subseteq> live" using inv(1) by auto
    show "(color(b \<mapsto> 2)) c = None \<or> (color(b \<mapsto> 2)) c = Some 1 \<or> (color(b \<mapsto> 2)) c = Some 2" for c
      using inv(2) [of c] by simp
    show "(color(b \<mapsto> 2)) c = Some 1 \<longleftrightarrow> (c, True) \<in> set stack" for c
      using inv(3) [of c] nb by simp
  qed
qed

lemma stack_inv_skip:
  assumes "stack_inv blocks live color ((b, False) # stack)" and "color b \<noteq> None"
  shows "stack_inv blocks live color stack"
proof -
  have b: "color b = Some 2"
    using stack_invD [OF assms(1), of "[]" b False stack] stack_inv_proj(2) [OF assms(1), of b] assms(2) by simp
  have pos: "if d then (c, True) \<notin> set xs \<and>
           (\<forall>u. (c, u) \<in> flow_within blocks live \<longrightarrow> color u = Some 2 \<or> u \<in> fst ` set xs) \<and>
           (\<forall>e \<in> fst ` set xs. (c, e) \<in> (flow_within blocks live)\<^sup>+)
         else color c = Some 1 \<longrightarrow> (c, True) \<in> set xs"
    if "stack = xs @ (c, d) # ys" for xs c d ys
    using stack_invD [OF assms(1), of "(b, False) # xs" c d ys] that b by (auto split: if_splits)
  show ?thesis
  proof (rule stack_invI [OF _ _ _ pos])
    show "fst ` set stack \<subseteq> live" using stack_inv_proj(1) [OF assms(1)] by auto
    show "color c = None \<or> color c = Some 1 \<or> color c = Some 2" for c by (rule stack_inv_proj(2) [OF assms(1)])
    show "color c = Some 1 \<longleftrightarrow> (c, True) \<in> set stack" for c using stack_inv_proj(3) [OF assms(1), of c] by simp
  qed
qed

lemma push_succs_cases:
  assumes "\<And>u. color u \<in> {None, Some 1, Some 2}"
  shows "(\<exists>u \<in> set us. u \<in> live \<and> color u = Some 1 \<and>
            push_succs live color us stack = Inl (RuntimeError ''prune: cycle detected'')) \<or>
     (\<forall>u \<in> set us. u \<in> live \<longrightarrow> color u \<noteq> Some 1) \<and>
     push_succs live color us stack =
       Inr (rev (map (\<lambda>u. (u, False)) (filter (\<lambda>u. u \<in> live \<and> color u = None) us)) @ stack)"
proof (induction us arbitrary: stack)
  case (Cons u us)
  show ?case
    using Cons.IH [of stack] Cons.IH [of "(u, False) # stack"] assms [of u]
    by (auto simp: push_succs_def)
qed (simp add: push_succs_def)

lemma stack_inv_visit:
  assumes inv: "stack_inv blocks live color ((b, False) # stack)" and free: "color b = None"
    and b: "b < length blocks" "\<forall>u \<in> set (successors (blocks ! b)). u \<in> live \<longrightarrow> (color(b \<mapsto> 1)) u \<noteq> Some 1"
    and P: "P = rev (map (\<lambda>u. (u, False)) (filter (\<lambda>u. u \<in> live \<and> (color(b \<mapsto> 1)) u = None) (successors (blocks ! b))))"
  shows "stack_inv blocks live (color(b \<mapsto> 1)) (P @ (b, True) # stack)"
proof -
  note inv' = stack_inv_proj [OF inv]
  have bl: "b \<in> live" using inv'(1) by auto
  have edge: "(b, u) \<in> flow_within blocks live" if "u \<in> fst ` set P" for u
    using that b(1) bl by (auto simp: P blocks.flow_in_def blocks.flow_def)
  have PF: "(c, d) \<in> set P \<Longrightarrow> \<not> d \<and> c \<in> live \<and> (color(b \<mapsto> 1)) c = None" for c d by (auto simp: P)
  have nb: "(b, True) \<notin> set stack" using inv'(3) [of b] free by simp
  have pos: "if d then (c, True) \<notin> set xs \<and>
           (\<forall>u. (c, u) \<in> flow_within blocks live \<longrightarrow> (color(b \<mapsto> 1)) u = Some 2 \<or> u \<in> fst ` set xs) \<and>
           (\<forall>e \<in> fst ` set xs. (c, e) \<in> (flow_within blocks live)\<^sup>+)
         else (color(b \<mapsto> 1)) c = Some 1 \<longrightarrow> (c, True) \<in> set xs"
    if "P @ (b, True) # stack = xs @ (c, d) # ys" for xs c d ys
  proof -
    from that consider ws where "P = xs @ (c, d) # ws" | "xs = P" "c = b" "d" "ys = stack"
      | ws where "xs = P @ (b, True) # ws" "stack = ws @ (c, d) # ys"
      by (auto simp: append_eq_append_conv2 Cons_eq_append_conv append_eq_Cons_conv)
    then show ?thesis
    proof cases
      case 1
      then have "(c, d) \<in> set P" by simp
      from PF [OF this] show ?thesis by simp
    next
      case 2
      have "(color(b \<mapsto> 1)) u = Some 2 \<or> u \<in> fst ` set P" if u: "(b, u) \<in> flow_within blocks live" for u
      proof -
        have "u \<in> set (successors (blocks ! b))" "u \<in> live" using u by (auto simp: blocks.flow_in_def blocks.flow_def)
        moreover have "(color(b \<mapsto> 1)) u = None \<or> (color(b \<mapsto> 1)) u = Some 1 \<or> (color(b \<mapsto> 1)) u = Some 2"
          using inv'(2) [of u] by simp
        ultimately show ?thesis using b(2) by (force simp: P)
      qed
      then show ?thesis using 2 edge PF by (auto simp del: fun_upd_apply)
    next
      case 3
      note old = stack_invD [OF inv, of "(b, False) # ws" c d ys]
      have path: "(c, e) \<in> (flow_within blocks live)\<^sup>+" if "d" "e \<in> fst ` set xs" for e
      proof -
        have cb: "(c, b) \<in> (flow_within blocks live)\<^sup>+" using old 3 that(1) by simp
        from that 3 consider "e \<in> fst ` set P" | "e = b" | "e \<in> fst ` set ws" by auto
        then show ?thesis using cb edge old 3 that(1) by cases (auto intro: trancl_into_trancl)
      qed
      show ?thesis
      proof (cases d)
        case True
        with old 3 path nb PF free show ?thesis by (auto simp: image_iff)
      next
        case False
        with old 3 show ?thesis by auto
      qed
    qed
  qed
  show ?thesis
  proof (rule stack_invI [OF _ _ _ pos])
    show "fst ` set (P @ (b, True) # stack) \<subseteq> live" using inv'(1) PF by force
    show "(color(b \<mapsto> 1)) c = None \<or> (color(b \<mapsto> 1)) c = Some 1 \<or> (color(b \<mapsto> 1)) c = Some 2" for c
      using inv'(2) [of c] by simp
    show "(color(b \<mapsto> 1)) c = Some 1 \<longleftrightarrow> (c, True) \<in> set (P @ (b, True) # stack)" for c
      using inv'(3) [of c] PF [of c True] by auto
  qed
qed

lemma done_inv_visit:
  "done_inv blocks live order color \<Longrightarrow> color b = None \<Longrightarrow> done_inv blocks live order (color(b \<mapsto> 1))"
  by (auto simp: done_inv_def)

lemma case_res_mono:
  "(case r of Inl e \<Rightarrow> P e | Inr x \<Rightarrow> Q x) \<Longrightarrow> (\<And>x. Q x \<Longrightarrow> Q' x) \<Longrightarrow> case r of Inl e \<Rightarrow> P e | Inr x \<Rightarrow> Q' x"
  by (cases r) auto

lemma topo_loop_ok:
  assumes "live \<subseteq> {..<length blocks}" and "done_inv blocks live order color" and "stack_inv blocks live color stack"
  shows "case topo_loop blocks live order color stack of
      Inl e \<Rightarrow> e = RuntimeError ''prune: cycle detected'' \<and> \<not> acyclic (flow_within blocks live)
    | Inr order' \<Rightarrow> (\<exists>color'. done_inv blocks live order' color' \<and> set order \<union> fst ` set stack \<subseteq> set order')"
  using assms
proof (induction blocks live order color stack rule: topo_loop.induct)
  case (1 blocks live order color)
  then show ?case by auto
next
  case step: (2 blocks live order color b d stack)
  note inv = step(6)
  have b: "b < length blocks" "b \<in> live" using stack_inv_proj(1) [OF inv] step(4) by auto
  consider "d" | "\<not> d" "color b \<noteq> None" | "\<not> d" "color b = None" by blast
  then show ?case
  proof cases
    case 1
    from inv 1 have inv1: "stack_inv blocks live color ((b, True) # stack)" by simp
    have run: "topo_loop blocks live order color ((b, d) # stack) =
        topo_loop blocks live (order @ [b]) (color(b \<mapsto> 2)) stack"
      using 1 by (subst topo_loop.simps) (simp only: if_True)
    show ?thesis
      unfolding run
      by (rule case_res_mono [OF step(1) [OF 1 step(4) done_inv_finish [OF step(5) inv1] stack_inv_finish [OF inv1]]])
        auto
  next
    case 2
    from inv 2 have inv2: "stack_inv blocks live color ((b, False) # stack)" by simp
    have "color b = Some 2"
      using stack_invD [OF inv2, of "[]" b False stack] stack_inv_proj(2) [OF inv2, of b] 2 by simp
    then have "b \<in> set order" using step(5) by (simp add: done_inv_def)
    then show ?thesis
      using step(2) [OF 2 step(4,5) stack_inv_skip [OF inv2 2(2)]] 2 by (auto split: sum.splits)
  next
    case 3
    from inv 3 have inv3: "stack_inv blocks live color ((b, False) # stack)" by simp
    let ?c = "color(b \<mapsto> 1)" and ?us = "successors (blocks ! b)"
    have col: "?c u \<in> {None, Some 1, Some 2}" for u using stack_inv_proj(2) [OF inv3, of u] by simp
    have run: "topo_loop blocks live order color ((b, d) # stack) =
        (case push_succs live ?c ?us ((b, True) # stack) of Inl e \<Rightarrow> Inl e
         | Inr stack' \<Rightarrow> topo_loop blocks live order ?c stack')"
      using 3 b by (subst topo_loop.simps) (simp only: Let_def if_False if_True not_not simp_thms)
    from push_succs_cases [of ?c ?us live "(b, True) # stack", OF col] show ?thesis
    proof (elim disjE bexE conjE)
      fix u assume u: "u \<in> set ?us" "u \<in> live" "?c u = Some 1"
        and r: "push_succs live ?c ?us ((b, True) # stack) = Inl (RuntimeError ''prune: cycle detected'')"
      have bu: "(b, u) \<in> flow_within blocks live"
        using u b by (simp add: blocks.flow_in_def blocks.flow_def)
      have "(u, b) \<in> (flow_within blocks live)\<^sup>*"
      proof (cases "u = b")
        case False
        then have "(u, True) \<in> set stack" using u(3) stack_inv_proj(3) [OF inv3, of u] by simp
        then obtain xs ys where "stack = xs @ (u, True) # ys" by (auto dest: split_list)
        with stack_invD [OF inv3, of "(b, False) # xs" u True ys] show ?thesis
          by (simp add: trancl_into_rtrancl)
      qed simp
      with bu have "(u, u) \<in> (flow_within blocks live)\<^sup>+" by (rule rtrancl_into_trancl1 [rotated])
      then have "\<not> acyclic (flow_within blocks live)" by (auto simp: acyclic_def)
      with run r show ?thesis by simp
    next
      let ?P = "rev (map (\<lambda>u. (u, False)) (filter (\<lambda>u. u \<in> live \<and> ?c u = None) ?us))"
      assume ok: "\<forall>u \<in> set ?us. u \<in> live \<longrightarrow> ?c u \<noteq> Some 1"
        and r: "push_succs live ?c ?us ((b, True) # stack) = Inr (?P @ (b, True) # stack)"
      have "\<not> color b \<noteq> None" "\<not> \<not> b < length blocks" using 3 b by simp_all
      note ih = step(3) [OF 3(1) this refl r step(4) done_inv_visit [OF step(5) 3(2)]
          stack_inv_visit [OF inv3 3(2) b(1) ok refl]]
      show ?thesis unfolding run r sum.case by (rule case_res_mono [OF ih]) auto
    qed
  qed
qed

lemma topo_order_ok:
  assumes "live \<subseteq> {..<length blocks}" and "0 \<in> live" and "live \<subseteq> (flow_within blocks live)\<^sup>* `` {0}"
  shows "topo_order blocks live =
      (if acyclic (flow_within blocks live)
       then Inr (rev (projr (topo_loop blocks live [] (\<lambda>_. None) [(0, False)])))
       else Inl (RuntimeError ''prune: cycle detected''))"
    and "acyclic (flow_within blocks live) \<Longrightarrow>
      blocks.topological blocks live (rev (projr (topo_loop blocks live [] (\<lambda>_. None) [(0, False)])))"
proof -
  let ?r = "topo_loop blocks live [] (\<lambda>_. None) [(0, False)]"
  have d0: "done_inv blocks live [] (\<lambda>_. None)" by (simp add: done_inv_def)
  have s0: "stack_inv blocks live (\<lambda>_. None) [(0, False)]"
    using assms(2) by (intro stack_invI) (auto simp: Cons_eq_append_conv)
  note loop = topo_loop_ok [OF assms(1) d0 s0]
  have topo: "blocks.topological blocks live (rev order) \<and> length order = card live" if r: "?r = Inr order" for order
  proof -
    from loop r obtain color' where d: "done_inv blocks live order color'" and z: "0 \<in> set order" by auto
    have cl: "u \<in> set order" if "b \<in> set order" "(b, u) \<in> flow_within blocks live" for b u
    proof -
      from that(1) obtain ys zs where "order = ys @ b # zs" by (auto dest: split_list)
      with d that(2) have "u \<in> set ys" unfolding done_inv_def by blast
      with \<open>order = ys @ b # zs\<close> show ?thesis by simp
    qed
    have "(flow_within blocks live)\<^sup>* `` {0} \<subseteq> set order" using z cl by (rule blocks.flow_in_closed)
    with assms(3) d have set: "set order = live" by (auto simp: done_inv_def)
    have "u \<in> set zs" if "rev order = ys @ b # zs" "(b, u) \<in> flow_within blocks live" for ys b zs u
    proof -
      from that(1) have "order = rev zs @ b # rev ys" by (metis rev_swap rev_append rev.simps(2) append.assoc append_Cons append_Nil)
      with d that(2) have "u \<in> set (rev zs)" unfolding done_inv_def by blast
      then show ?thesis by simp
    qed
    moreover have "distinct order" using d by (simp add: done_inv_def)
    ultimately show ?thesis using set by (auto simp: blocks.topological_def distinct_card)
  qed
  have cyc: "\<not> acyclic (flow_within blocks live)" "?r = Inl (RuntimeError ''prune: cycle detected'')" if "?r = Inl e" for e
    using loop that by simp_all
  show "topo_order blocks live =
      (if acyclic (flow_within blocks live) then Inr (rev (projr ?r)) else Inl (RuntimeError ''prune: cycle detected''))"
    using topo cyc blocks.topological_acyclic by (cases ?r) (fastforce simp: topo_order_def)+
  show "acyclic (flow_within blocks live) \<Longrightarrow> blocks.topological blocks live (rev (projr ?r))"
    using topo cyc by (cases ?r) auto
qed

section \<open>Ancestors\<close>

lemma trancl_from: "(a, b) \<in> R\<^sup>+ \<longleftrightarrow> (\<exists>p. (p, b) \<in> R \<and> (a = p \<or> (a, p) \<in> R\<^sup>+))"
  by (auto elim: tranclE intro: trancl_into_trancl)

lemma ancestors_prefix:
  assumes "wf_graph blocks" and "live \<subseteq> {..<length blocks}" and "blocks.topological blocks live (ys @ zs)"
  shows "dict_get (ancestors blocks ys) =
    (\<lambda>b. if b \<in> set ys then Some {a. (a, b) \<in> (flow_within blocks live)\<^sup>+} else None)"
  using assms(3)
proof (induction ys arbitrary: zs rule: rev_induct)
  case (snoc b ys)
  let ?E = "flow_within blocks live" and ?anc = "ancestors blocks ys"
  have IH: "dict_get ?anc = (\<lambda>b. if b \<in> set ys then Some {a. (a, b) \<in> ?E\<^sup>+} else None)"
    using snoc.prems by (intro snoc.IH [of "b # zs"]) simp
  have topo: "blocks.topological blocks live (ys @ b # zs)" using snoc.prems by simp
  then have L: "b \<in> live" "set ys \<subseteq> live" by (auto simp: blocks.topological_def)
  have p: "p \<in> set (b_preds (blocks ! b)) \<and> p \<in> set ys \<longleftrightarrow> (p, b) \<in> ?E" for p
    using blocks.topological_before [OF topo, of p] blocks.flow_preds [OF assms(1), of b p] assms(2) L
    by (auto simp: blocks.flow_in_def)
  have "(\<Union>p \<in> {p \<in> set (b_preds (blocks ! b)). dict_get ?anc p \<noteq> None}. insert p (the (dict_get ?anc p))) =
      (\<Union>p \<in> {p. (p, b) \<in> ?E}. insert p {a. (a, p) \<in> ?E\<^sup>+})"
    using p by (intro SUP_cong) (auto simp: IH split: if_splits)
  also have "\<dots> = {a. (a, b) \<in> ?E\<^sup>+}" using trancl_from [of _ b ?E] by blast
  finally show ?case using IH by (auto simp: ancestors_def)
qed (simp add: ancestors_def)

section \<open>Claims\<close>

text \<open>
  On the block graph of a program, the forward search finds exactly the blocks that can
  be reached from the entry, and the backward search from a live block finds exactly the live
  blocks from which it can be reached; neither runs out of the block list.
\<close>

theorem reachability_exact:
  assumes "build_cfg instrs progs = Inr (bs, cfg, starts, progs')" and "t \<in> forward_reachable bs"
  shows "forward_reachable bs = (flow_of bs)\<^sup>* `` {0} \<and>
     slice_to bs (forward_reachable bs) t = Inr {a. (0, a) \<in> (flow_of bs)\<^sup>* \<and> (a, t) \<in> (flow_of bs)\<^sup>*}"
proof -
  have g: "wf_graph bs" "bs \<noteq> []" using build_cfg_wf_graph [OF assms(1)] by simp_all
  let ?L = "forward_reachable bs"
  have L: "?L = (flow_of bs)\<^sup>* `` {0}" by (rule forward_reachable_eq [OF g])
  have n: "?L \<subseteq> {..<length bs}" using blocks.flow_reach_bound [of 0 _ bs] g by (auto simp: L)
  have "(a, t) \<in> (flow_within bs ?L)\<^sup>* \<longleftrightarrow> a \<in> ?L \<and> (a, t) \<in> (flow_of bs)\<^sup>*" for a
  proof
    assume "(a, t) \<in> (flow_within bs ?L)\<^sup>*"
    then show "a \<in> ?L \<and> (a, t) \<in> (flow_of bs)\<^sup>*"
      by (induction rule: converse_rtrancl_induct)
        (use assms(2) in \<open>auto simp: blocks.flow_in_def intro: converse_rtrancl_into_rtrancl\<close>)
  next
    assume a: "a \<in> ?L \<and> (a, t) \<in> (flow_of bs)\<^sup>*"
    then have "(a, t) \<in> (flow_of bs)\<^sup>*" "a \<in> ?L" by simp_all
    then show "(a, t) \<in> (flow_within bs ?L)\<^sup>*"
    proof (induction rule: converse_rtrancl_induct)
      case (step y z)
      then have "z \<in> ?L" by (auto simp: L intro: rtrancl_into_rtrancl)
      with step show ?case by (auto simp: blocks.flow_in_def intro: converse_rtrancl_into_rtrancl)
    qed simp
  qed
  then show ?thesis using slice_to_eq [OF g(1) n assms(2)] L by auto
qed

theorem reachability_exact_witness:
  "\<exists>bs cfg progs. build_cfg demo_diamond [] = Inr (bs, cfg, [0, 2, 3], progs) \<and>
     1 \<in> forward_reachable bs \<and>
     slice_to bs (forward_reachable bs) 1 = Inr {a. (0, a) \<in> (flow_of bs)\<^sup>* \<and> (a, 1) \<in> (flow_of bs)\<^sup>*}"
proof -
  obtain bs cfg progs where b: "build_cfg demo_diamond [] = Inr (bs, cfg, [0, 2, 3], progs)"
    and l: "length bs = 3" "cfg = [[2, 1], [2], []]"
    by (rule demo_diamond_built)
  have "0 < length bs" using l by simp
  from build_cfg_block(6) [OF b this] have "cfg ! 0 = block_succs (bs ! 0)" by (simp only: done_block_def Let_def snd_conv fst_conv)
  then have "1 \<in> set (successors (bs ! 0))" unfolding set_successors using l by (metis list.set_intros nth_Cons_0)
  then have "(0, 1) \<in> flow_of bs" using l(1) unfolding blocks.flow_def by simp
  then have "1 \<in> forward_reachable bs"
    using forward_reachable_eq [of bs] build_cfg_wf_graph [OF b] by blast
  with b reachability_exact [OF b this] show ?thesis by blast
qed

text \<open>
  Claim C24.  On the live blocks of a program, all of which the entry reaches, the depth-first
  search lists every live block once with each edge pointing forward, and it raises on a cycle;
  so the analysis runs over an order in which a block comes after its predecessors, or says that
  the graph has none.
\<close>

theorem topo_order_correct:
  assumes "live \<subseteq> {..<length blocks}" and "0 \<in> live" and "live \<subseteq> (flow_within blocks live)\<^sup>* `` {0}"
  shows "if acyclic (flow_within blocks live)
     then \<exists>order. topo_order blocks live = Inr order \<and> distinct order \<and> set order = live \<and>
       (\<forall>i < length order. \<forall>j < length order. (order ! i, order ! j) \<in> flow_within blocks live \<longrightarrow> i < j)
     else topo_order blocks live = Inl (RuntimeError ''prune: cycle detected'')"
proof (cases "acyclic (flow_within blocks live)")
  case True
  define order where "order = rev (projr (topo_loop blocks live [] (\<lambda>_. None) [(0, False)]))"
  have run: "topo_order blocks live = Inr order" and topo: "blocks.topological blocks live order"
    using topo_order_ok [OF assms] True by (simp_all add: order_def)
  have "i < j" if ij: "i < length order" "j < length order" "(order ! i, order ! j) \<in> flow_within blocks live" for i j
  proof -
    have "blocks.topological blocks live (take j order @ order ! j # drop (Suc j) order)"
      using topo ij(2) by (simp add: id_take_nth_drop [symmetric])
    from blocks.topological_before [OF this ij(3)] obtain k where "k < j" "order ! i = order ! k"
      using ij(2) by (auto simp: in_set_conv_nth)
    with ij topo show ?thesis by (auto simp: blocks.topological_def nth_eq_iff_index_eq)
  qed
  with run topo True show ?thesis by (auto simp: blocks.topological_def)
next
  case False
  with topo_order_ok(1) [OF assms] show ?thesis by simp
qed

text \<open>Three blocks in a row with an edge back, for the witness of the error.\<close>

definition demo_loop :: "bblock list" where
  "demo_loop = [(new_bblock 0 0 0)\<lparr>b_succ_f := Some 1\<rparr>, (new_bblock 1 1 1)\<lparr>b_succ_f := Some 2\<rparr>,
     (new_bblock 2 2 2)\<lparr>b_succ_t := Some 1\<rparr>]"

theorem topo_order_correct_witness:
  "topo_order demo_loop {0, 1, 2} = Inl (RuntimeError ''prune: cycle detected'')"
proof -
  have e: "(0, 1) \<in> flow_within demo_loop {0, 1, 2}" "(1, 2) \<in> flow_within demo_loop {0, 1, 2}"
    "(2, 1) \<in> flow_within demo_loop {0, 1, 2}"
    unfolding blocks.flow_in_def blocks.flow_def
    by (simp_all add: demo_loop_def new_bblock_def successors_def)
  then have "(1, 1) \<in> (flow_within demo_loop {0, 1, 2})\<^sup>+" by (meson trancl.simps)
  then have cyc: "\<not> acyclic (flow_within demo_loop {0, 1, 2})" by (auto simp: acyclic_def)
  have "{0, 1, 2} \<subseteq> {..<length demo_loop}" by (simp add: demo_loop_def)
  moreover have "{0, 1, 2} \<subseteq> (flow_within demo_loop {0, 1, 2})\<^sup>* `` {0}"
    using e by (auto intro: rtrancl_into_rtrancl)
  ultimately show ?thesis using topo_order_correct [of "{0, 1, 2}" demo_loop] cyc by simp
qed

text \<open>
  The ancestors of a block, accumulated along the order, are exactly the live blocks
  from which it is reached by at least one live edge; blocks outside the order have no entry.
\<close>

theorem ancestors_exact:
  assumes "wf_graph blocks" and "live \<subseteq> {..<length blocks}" and "0 \<in> live"
    and "live \<subseteq> (flow_within blocks live)\<^sup>* `` {0}" and "topo_order blocks live = Inr order"
  shows "dict_get (ancestors blocks order) b =
     (if b \<in> live then Some {a. (a, b) \<in> (flow_within blocks live)\<^sup>+} else None)"
proof -
  have "acyclic (flow_within blocks live)" and "blocks.topological blocks live order"
    using topo_order_ok [OF assms(2-4)] assms(5) by (simp_all split: if_splits)
  then show ?thesis using ancestors_prefix [OF assms(1,2), of order "[]"] by (simp add: blocks.topological_def)
qed

theorem ancestors_exact_witness:
  "dict_get (ancestors [(new_bblock 0 0 0)\<lparr>b_succ_f := Some 1\<rparr>, (new_bblock 1 1 1)\<lparr>b_preds := [0]\<rparr>] [0, 1]) 1 =
     Some {a. (a, 1) \<in> (flow_within [(new_bblock 0 0 0)\<lparr>b_succ_f := Some 1\<rparr>,
       (new_bblock 1 1 1)\<lparr>b_preds := [0]\<rparr>] {0, 1})\<^sup>+}"
proof -
  let ?bs = "[(new_bblock 0 0 0)\<lparr>b_succ_f := Some 1\<rparr>, (new_bblock 1 1 1)\<lparr>b_preds := [0]\<rparr>]"
  have e: "(0, 1) \<in> flow_within ?bs {0, 1}"
    unfolding blocks.flow_in_def blocks.flow_def by (simp add: new_bblock_def successors_def)
  have "wf_graph ?bs" by code_simp
  moreover have "topo_order ?bs {0, 1} = Inr [0, 1]" by code_simp
  moreover have "{0, 1} \<subseteq> (flow_within ?bs {0, 1})\<^sup>* `` {0}" using e by auto
  ultimately show ?thesis using ancestors_exact [of ?bs "{0, 1}" "[0, 1]" 1] by auto
qed

end
