(* ===== verification/Isa.thy ===== *)
theory Isa
  imports Constants
begin

text \<open>
  The abstract specification the folding code is measured against: the arithmetic and the
  conditional jumps of the BPF instruction set, on machine words of the operand width (division
  by zero gives zero, remainder by zero gives the dividend, shift amounts are taken modulo the
  width, signed division truncates towards zero).  The refinement theorems say that
  \<open>constants.arith\<close> computes the instruction on every representative of its operands, and that
  \<open>constants.swap_jmp_code\<close> maps a jump to its negation.
\<close>

section \<open>The instruction set on words\<close>

definition word_sdiv :: "'a::len word \<Rightarrow> 'a word \<Rightarrow> 'a word" where
  "word_sdiv a b = word_of_int (sint a sdiv sint b)"

definition word_smod :: "'a::len word \<Rightarrow> 'a word \<Rightarrow> 'a word" where
  "word_smod a b = (if b = 0 then a else word_of_int (sint a smod sint b))"

definition alu_isa :: "int \<Rightarrow> bool \<Rightarrow> 'a::len word \<Rightarrow> 'a word \<Rightarrow> 'a word" where
  "alu_isa code sg d s =
     (if code = BPF_ADD then d + s
      else if code = BPF_SUB then d - s
      else if code = BPF_MUL then d * s
      else if code = BPF_DIV then (if sg then word_sdiv d s else d div s)
      else if code = BPF_OR then d OR s
      else if code = BPF_AND then d AND s
      else if code = BPF_LSH then push_bit (unat s mod LENGTH('a)) d
      else if code = BPF_RSH then drop_bit (unat s mod LENGTH('a)) d
      else if code = BPF_NEG then - d
      else if code = BPF_MOD then (if sg then word_smod d s else d mod s)
      else if code = BPF_XOR then d XOR s
      else if code = BPF_ARSH then signed_drop_bit (unat s mod LENGTH('a)) d
      else 0)"

definition jmp_isa :: "int \<Rightarrow> 'a::len word \<Rightarrow> 'a word \<Rightarrow> bool" where
  "jmp_isa code a b =
     (if code = BPF_JEQ then a = b
      else if code = BPF_JNE then a \<noteq> b
      else if code = BPF_JSET then a AND b \<noteq> 0
      else if code = BPF_JGT then b < a
      else if code = BPF_JGE then b \<le> a
      else if code = BPF_JLT then a < b
      else if code = BPF_JLE then a \<le> b
      else if code = BPF_JSGT then b <s a
      else if code = BPF_JSGE then b \<le>s a
      else if code = BPF_JSLT then a <s b
      else if code = BPF_JSLE then a \<le>s b
      else False)"

definition alu_codes :: "int set" where
  "alu_codes = {BPF_ADD, BPF_SUB, BPF_MUL, BPF_DIV, BPF_OR, BPF_AND, BPF_LSH, BPF_RSH, BPF_NEG,
     BPF_MOD, BPF_XOR, BPF_ARSH}"

definition jmp_codes :: "int set" where
  "jmp_codes = {BPF_JEQ, BPF_JGT, BPF_JGE, BPF_JSET, BPF_JNE, BPF_JSGT, BPF_JSGE, BPF_JLT,
     BPF_JLE, BPF_JSLT, BPF_JSLE}"

section \<open>Reading a word off an unbounded integer\<close>

lemma uint_of_int_mask: "uint (word_of_int x :: 'a::len word) = x AND pymask LENGTH('a)"
  by (simp add: and_pymask_take_bit uint_word_of_int_eq)

lemma uint_of_int: "uint (word_of_int x :: 'a::len word) = x mod 2 ^ LENGTH('a)"
  by (simp add: uint_word_of_int)

lemma word_of_int_mask [simp]:
  "word_of_int (x AND pymask LENGTH('a)) = (word_of_int x :: 'a::len word)"
  by (simp flip: uint_of_int_mask)

lemma bitwise_of_int:
  "word_of_int (x OR y) = (word_of_int x OR word_of_int y :: 'a::len word)"
  "word_of_int (x AND y) = (word_of_int x AND word_of_int y :: 'a::len word)"
  "word_of_int (x XOR y) = (word_of_int x XOR word_of_int y :: 'a::len word)"
  by (rule bit_eqI; simp add: bit_simps)+

lemma shift_amount:
  assumes "LENGTH('a::len) = 2 ^ k"
  shows "nat (s AND (int LENGTH('a) - 1)) = unat (word_of_int s :: 'a word) mod LENGTH('a)"
proof -
  have "k \<le> LENGTH('a)" unfolding assms by (simp add: less_imp_le)
  then have dv: "(2::int) ^ k dvd 2 ^ LENGTH('a)" by (rule le_imp_power_dvd)
  have len: "int LENGTH('a) = 2 ^ k" unfolding assms by simp
  have "s AND (int LENGTH('a) - 1) = s AND pymask k"
    unfolding len pymask_eq ..
  also have "\<dots> = s mod 2 ^ k" by (rule and_pymask)
  also have "\<dots> = (s mod 2 ^ LENGTH('a)) mod 2 ^ k"
    by (rule mod_mod_cancel [OF dv, symmetric])
  also have "\<dots> = uint (word_of_int s :: 'a word) mod int LENGTH('a)"
    unfolding len uint_of_int ..
  finally have eq: "s AND (int LENGTH('a) - 1) = uint (word_of_int s :: 'a word) mod int LENGTH('a)" .
  have "nat (uint (word_of_int s :: 'a word) mod int LENGTH('a)) =
      nat (uint (word_of_int s :: 'a word)) mod nat (int LENGTH('a))"
    by (rule nat_mod_distrib) simp_all
  then show ?thesis by (simp only: eq unat_eq_nat_uint nat_int)
qed

section \<open>The folder computes the instruction\<close>

lemma sdiv_by_cases:
  fixes a b :: int
  assumes "b \<noteq> 0"
  shows "a sdiv b = (if (a < 0) \<noteq> (b < 0) then - (\<bar>a\<bar> div \<bar>b\<bar>) else \<bar>a\<bar> div \<bar>b\<bar>)"
  using assms by (auto simp: signed_divide_int_def sgn_if)

lemma smod_by_cases:
  fixes a b :: int
  shows "a smod b = (if a < 0 then - (\<bar>a\<bar> mod \<bar>b\<bar>) else \<bar>a\<bar> mod \<bar>b\<bar>)"
  by (auto simp: signed_modulo_int_def sgn_if)

lemma arith_shift:
  assumes "LENGTH('a::len) = 2 ^ k" and "code \<in> {BPF_LSH, BPF_RSH, BPF_ARSH}"
  shows "word_of_int (arith code d s LENGTH('a) sg) =
    alu_isa code sg' (word_of_int d) (word_of_int s :: 'a word)"
proof -
  let ?n = "unat (word_of_int s :: 'a word) mod LENGTH('a)"
  have "word_of_int (drop_bit ?n (d AND pymask LENGTH('a))) = drop_bit ?n (word_of_int d :: 'a word)"
    by (rule bit_eqI) (auto simp: and_pymask_take_bit bit_simps)
  moreover have "word_of_int (drop_bit ?n (to_signed LENGTH('a) (d AND pymask LENGTH('a)))) =
      signed_drop_bit ?n (word_of_int d :: 'a word)"
    unfolding uint_of_int_mask [symmetric] to_signed_word
    by (rule bit_eqI) (auto simp: bit_simps)
  moreover have "word_of_int (push_bit ?n (d AND pymask LENGTH('a))) =
      push_bit ?n (word_of_int d :: 'a word)"
    by (rule bit_eqI) (auto simp: and_pymask_take_bit bit_simps)
  ultimately show ?thesis
    using assms(2)
    by (subst arith.simps) (auto simp: Let_def alu_isa_def shift_amount [OF assms(1)])
qed

lemma arith_division:
  assumes "code \<in> {BPF_DIV, BPF_MOD}"
  shows "word_of_int (arith code d s LENGTH('a) sg) =
    alu_isa code sg (word_of_int d) (word_of_int s :: 'a::len word)"
proof -
  let ?d = "word_of_int d :: 'a word" and ?s = "word_of_int s :: 'a word"
  have z: "(sint ?s = 0) = (?s = 0)" "(uint ?s = 0) = (?s = 0)"
    by (simp_all add: uint_0_iff signed_eq_0_iff)
  have m: "d AND pymask LENGTH('a) = uint ?d" "s AND pymask LENGTH('a) = uint ?s"
    by (rule uint_of_int_mask [symmetric])+
  have w: "word_of_int (x AND pymask LENGTH('a)) = (word_of_int x :: 'a word)" for x
    by (rule word_of_int_mask)
  show ?thesis
    using assms
    unfolding arith.simps [of code d s "LENGTH('a)" sg] Let_def m to_signed_word z alu_isa_def
      word_sdiv_def word_smod_def
    by (elim insertE emptyE; cases sg; cases "?s = 0")
      (simp_all add: z w sdiv_by_cases smod_by_cases word_div_def word_mod_def)
qed

lemma arith_wrapping:
  assumes "code \<in> alu_codes - {BPF_LSH, BPF_RSH, BPF_ARSH, BPF_DIV, BPF_MOD}" and "bits \<noteq> 32"
  shows "word_of_int (arith code d s bits sg) =
    alu_isa code sg' (word_of_int d) (word_of_int s :: 'a::len word)"
  using assms
  by (subst arith.simps) (auto simp: Let_def alu_codes_def alu_isa_def wi_hom_syms bitwise_of_int)

text \<open>
  \<open>arith\<close> on a 64-bit or a 32-bit operand (any width that is a power of two): the low bits of the
  result are the instruction applied to the low bits of the operands.
\<close>

lemma arith_word:
  assumes k: "LENGTH('a::len) = 2 ^ k" and code: "code \<in> alu_codes"
  shows "word_of_int (arith code d s LENGTH('a) sg) =
    alu_isa code sg (word_of_int d) (word_of_int s :: 'a word)"
proof -
  consider (shift) "code \<in> {BPF_LSH, BPF_RSH, BPF_ARSH}" | (dv) "code \<in> {BPF_DIV, BPF_MOD}"
    | (wrap) "code \<in> alu_codes - {BPF_LSH, BPF_RSH, BPF_ARSH, BPF_DIV, BPF_MOD}"
    using code by blast
  then show ?thesis
  proof cases
    case shift then show ?thesis by (rule arith_shift [OF k])
  next
    case dv then show ?thesis by (rule arith_division)
  next
    case wrap
    show ?thesis
    proof (cases "LENGTH('a) = 32")
      case False with wrap show ?thesis by (rule arith_wrapping)
    next
      case True
      let ?m = "pymask LENGTH('a)"
      have "arith code d s LENGTH('a) sg = arith code (d AND ?m) (s AND ?m) 64 False AND ?m"
        using wrap True by (subst arith.simps) (auto simp: Let_def)
      then have "word_of_int (arith code d s LENGTH('a) sg) =
          (word_of_int (arith code (d AND ?m) (s AND ?m) 64 False) :: 'a word)"
        by simp
      also have "\<dots> = alu_isa code sg (word_of_int (d AND ?m)) (word_of_int (s AND ?m))"
        using wrap by (rule arith_wrapping) simp
      finally show ?thesis by simp
    qed
  qed
qed

lemma div_le_nonneg: "0 \<le> a \<Longrightarrow> 0 \<le> b \<Longrightarrow> a div b \<le> (a::int)"
  using zdiv_mono2 [of a 1 b] by (cases "b = 0") auto
lemma div_mod_bounds:
  fixes a b :: int
  assumes "0 \<le> a" and "0 \<le> b"
  shows "0 \<le> a div b" and "a div b \<le> a" and "0 \<le> a mod b" and "a mod b \<le> a"
proof -
  have "b = 0 \<or> 0 < b" using assms by auto
  then show "0 \<le> a div b" "a div b \<le> a" "0 \<le> a mod b" "a mod b \<le> a"
    using assms div_le_nonneg [OF assms]
    by (auto simp: pos_imp_zdiv_nonneg_iff zmod_le_nonneg_dividend)
qed
text \<open>The 32-bit forms of the operations return values in the 32-bit range.\<close>

definition in_u32 :: "int \<Rightarrow> bool" where
  "in_u32 x \<longleftrightarrow> 0 \<le> x \<and> x < 2 ^ 32"

lemma in_u32_mask: "in_u32 (x AND pymask 32)"
  unfolding in_u32_def and_pymask by simp

lemma in_u32_div: "in_u32 a \<Longrightarrow> 0 \<le> b \<Longrightarrow> in_u32 (a div b) \<and> in_u32 (a mod b)"
  using div_mod_bounds [of a b] unfolding in_u32_def by linarith

lemma in_u32_drop: "in_u32 a \<Longrightarrow> in_u32 (drop_bit n a)"
  using in_u32_div [of a "2 ^ n"] by (simp add: drop_bit_eq_div)

lemma arith32_in_u32:
  "in_u32 (arith code d s 32 sg)"
proof -
  have z: "in_u32 0" by (simp add: in_u32_def)
  have n: "0 \<le> x AND pymask 32" for x using in_u32_mask [of x] by (simp add: in_u32_def)
  note div = conjunct1 [OF in_u32_div] conjunct2 [OF in_u32_div]
  show ?thesis
    by (subst arith.simps; simp only: Let_def simp_thms if_True if_False split: if_split)
      (intro conjI impI in_u32_mask z in_u32_drop div n)
qed

section \<open>Negated jumps\<close>

lemma swap_jmp_code_range:
  "swap_jmp_code code \<noteq> -1 \<longleftrightarrow> code \<in> jmp_codes - {BPF_JSET}"
  by (auto simp: swap_jmp_code_def jmp_codes_def)

lemma swap_jmp_isa:
  assumes "code \<in> jmp_codes" and "code \<noteq> BPF_JSET"
  shows "jmp_isa (swap_jmp_code code) a b = (\<not> jmp_isa code a b)"
  using assms
  by (auto simp: jmp_codes_def swap_jmp_code_def jmp_isa_def word_sle_eq word_sless_alt not_less not_le)

section \<open>Properties\<close>

text \<open>
  Constant folding refines the instruction set: on operands of a width that is a
  power of two (64 and 32 bits), for every arithmetic opcode, the low bits of what
  \<open>arith\<close> returns are the instruction applied to the low bits of the operands, with the
  division and remainder conventions and the signed forms included.
\<close>

theorem arith_isa:
  assumes "LENGTH('a::len) = 2 ^ k" and "code \<in> alu_codes"
  shows "word_of_int (arith code dst src LENGTH('a) sg) =
    alu_isa code sg (word_of_int dst :: 'a word) (word_of_int src)"
  using assms by (rule arith_word)

theorem arith_isa_witness:
  "word_of_int (arith BPF_ARSH (-16) 66 64 False) =
    alu_isa BPF_ARSH False (word_of_int (-16) :: 64 word) (word_of_int 66)"
proof -
  have "LENGTH(64) = 2 ^ 6" and "BPF_ARSH \<in> alu_codes" by (simp_all add: alu_codes_def)
  from arith_isa [OF this] show ?thesis by simp
qed

text \<open>
  The 32-bit form of \<open>arith\<close> always returns a value of the 32-bit range, whatever
  the opcode and however large or negative the operands are.
\<close>

theorem arith32_in_range: "0 \<le> arith code dst src 32 sg \<and> arith code dst src 32 sg < 2 ^ 32"
  using arith32_in_u32 by (simp add: in_u32_def)

text \<open>
  \<open>swap_jmp_code\<close> negates: for every conditional jump but \<open>JSET\<close> (which has no
  negation in the table), the jump with the returned code is taken on exactly the operands on
  which the given one is not, signed and unsigned.
\<close>

theorem swap_jmp_code_negates:
  fixes a b :: "'a::len word"
  assumes "code \<in> jmp_codes" and "code \<noteq> BPF_JSET"
  shows "jmp_isa (swap_jmp_code code) a b = (\<not> jmp_isa code a b)"
  using assms by (rule swap_jmp_isa)

theorem swap_jmp_code_negates_witness:
  "jmp_isa (swap_jmp_code BPF_JSGT) (-1) (1 :: 64 word) = (\<not> jmp_isa BPF_JSGT (-1) (1 :: 64 word))"
  by (rule swap_jmp_code_negates) (simp_all add: jmp_codes_def)

end
