(* ===== verification/Expr.thy ===== *)
theory Expr
  imports Isa
begin

text \<open>
  The component \<open>hornet/track/expr.py\<close>: the symbolic values of the tracker.  The class
  hierarchy of \<open>Expr\<close> is one datatype; a pointer keeps the fields that hold no value in the
  record \<open>ptr_info\<close>, so that they are updated as record fields, and carries its variable offset,
  its map key and its null phi as values.  An attribute that may be \<open>None\<close> is an option.
  \<open>JoinValue\<close> objects are compared by identity in several places; each carries the number of
  its creation (\<open>oid\<close>) for that.  Python's \<open>==\<close> on values is \<open>py_eq\<close>.
\<close>

section \<open>Values\<close>

datatype edge = Taken | Fall

record ptr_info =
  q_type :: int
  q_off :: int
  q_id :: int
  q_base_id :: "int option"
  q_map_id :: "int option"
  q_map_key_id :: "int option"
  q_bss_idx :: "string option"
  q_rodata_offset :: "int option"
  q_rodata_data :: "byte list option"
  q_checked_null :: "bool option"

datatype val =
    Scalar (v_sz: nat) (v_idx: int)
  | JoinValue (jv_oid: nat) (jv_block: int) (jv_reg: int) (jv_values: "val option list")
      (jv_edges: "(nat \<times> edge) list list")
  | Ingress_ifindex
  | Rx_queue_index
  | Egress_ifindex
  | Pkt_len nat "int option"
  | Func_retval nat int int int "int option" "val option" "int option" int bool
  | Pkt_val int int int "val option" nat
  | Map_val int int "int option" "val option" "int option" int "val option" nat
  | Bss_val int int "string option" int "val option" nat
  | Rodata_val "byte list" int "val option" nat
  | Lookup_hit "int option" "val option" "int option"
  | Num int nat int
  | ByteSeq "val option list" nat nat
  | ALUunary int "val option" "int option" int nat bool
  | ALUbinary int "val option" "val option" int nat int
  | Ptr ptr_info "val option" "val option" "val option"

text \<open>
  The arguments, in the order of the classes' fields: \<open>Pkt_len size base_id\<close>;
  \<open>Func_retval size idx func block map_id map_key map_key_id fallback redirects\<close>;
  \<open>Pkt_val block idx off var_off size\<close>;
  \<open>Map_val block idx map_id map_key map_key_id off var_off size\<close>;
  \<open>Bss_val block idx bss_key off var_off size\<close>; \<open>Rodata_val data off var_off size\<close>;
  \<open>Lookup_hit map_id map_key map_key_id\<close>; \<open>Num num size idx\<close>; \<open>ByteSeq chunks size off\<close>;
  \<open>ALUunary op dst opcode_s imm size alu64\<close>; \<open>ALUbinary op dst src offset size idx\<close>;
  \<open>Ptr info var_off map_key null_phi\<close>.  An operand of an ALU node is an option because an
  uninitialised register is \<open>None\<close>.
\<close>

definition is_ptr :: "val \<Rightarrow> bool" where
  "is_ptr v = (case v of Ptr _ _ _ _ \<Rightarrow> True | _ \<Rightarrow> False)"

definition is_join :: "val \<Rightarrow> bool" where
  "is_join v = (case v of JoinValue _ _ _ _ _ \<Rightarrow> True | _ \<Rightarrow> False)"

definition num_of :: "val \<Rightarrow> int option" where
  "num_of v = (case v of Num n _ _ \<Rightarrow> Some n | _ \<Rightarrow> None)"

fun v_size :: "val \<Rightarrow> nat" where
  "v_size (Scalar sz _) = sz"
| "v_size (JoinValue _ _ _ _ _) = 8"
| "v_size Ingress_ifindex = 4"
| "v_size Rx_queue_index = 4"
| "v_size Egress_ifindex = 4"
| "v_size (Pkt_len sz _) = sz"
| "v_size (Func_retval sz _ _ _ _ _ _ _ _) = sz"
| "v_size (Pkt_val _ _ _ _ sz) = sz"
| "v_size (Map_val _ _ _ _ _ _ _ sz) = sz"
| "v_size (Bss_val _ _ _ _ _ sz) = sz"
| "v_size (Rodata_val _ _ _ sz) = sz"
| "v_size (Lookup_hit _ _ _) = 1"
| "v_size (Num _ sz _) = sz"
| "v_size (ByteSeq _ sz _) = sz"
| "v_size (ALUunary _ _ _ _ sz _) = sz"
| "v_size (ALUbinary _ _ _ _ sz _) = sz"
| "v_size (Ptr _ _ _ _) = 4"

section \<open>Equality\<close>

text \<open>
  \<open>==\<close> on an attribute that may be \<open>None\<close> and on a tuple of chunks.  The first argument is
  already partially applied, as the recursion of \<open>py_eq\<close> needs it.
\<close>

fun opt_match :: "('b \<Rightarrow> bool) option \<Rightarrow> 'b option \<Rightarrow> bool" where
  "opt_match None None = True"
| "opt_match (Some p) (Some b) = p b"
| "opt_match None (Some b) = False"
| "opt_match (Some p) None = False"

fun all_match :: "('b \<Rightarrow> bool) option list \<Rightarrow> 'b option list \<Rightarrow> bool" where
  "all_match [] [] = True"
| "all_match (p # ps) (b # bs) = (opt_match p b \<and> all_match ps bs)"
| "all_match [] (b # bs) = False"
| "all_match (p # ps) [] = False"

text \<open>\<open>PTR.__eq__\<close> on the fields that hold no value; the variable offsets are compared beside it.\<close>

definition ptr_info_eq :: "ptr_info \<Rightarrow> ptr_info \<Rightarrow> bool" where
  "ptr_info_eq i j \<longleftrightarrow>
     q_type i = q_type j \<and> q_off i = q_off j \<and>
     (if q_type i \<in> {PTR_TO_PKT, PTR_TO_PKT_END, PTR_TO_PKT_META} then q_base_id i = q_base_id j
      else if q_type i = PTR_TO_MAP_VALUE
      then q_map_id i = q_map_id j \<and> q_map_key_id i = q_map_key_id j
      else True)"

primrec py_eq :: "val \<Rightarrow> val \<Rightarrow> bool" where
  "py_eq (Scalar sz idx) = (\<lambda>b. case b of Scalar sz' idx' \<Rightarrow> sz = sz' \<and> idx = idx' | _ \<Rightarrow> False)"
| "py_eq (JoinValue oid blk rg vs es) =
     (\<lambda>b. case b of JoinValue oid' blk' rg' vs' es' \<Rightarrow> blk = blk' \<and> rg = rg' | _ \<Rightarrow> False)"
| "py_eq Ingress_ifindex = (\<lambda>b. case b of Ingress_ifindex \<Rightarrow> True | _ \<Rightarrow> False)"
| "py_eq Rx_queue_index = (\<lambda>b. case b of Rx_queue_index \<Rightarrow> True | _ \<Rightarrow> False)"
| "py_eq Egress_ifindex = (\<lambda>b. case b of Egress_ifindex \<Rightarrow> True | _ \<Rightarrow> False)"
| "py_eq (Pkt_len sz base) =
     (\<lambda>b. case b of Pkt_len sz' base' \<Rightarrow> sz = sz' \<and> base = base' | _ \<Rightarrow> False)"
| "py_eq (Func_retval sz idx fn blk mid mk mki fb rd) =
     (\<lambda>b. case b of Func_retval sz' idx' fn' blk' mid' mk' mki' fb' rd' \<Rightarrow>
            idx = idx' \<and> fn = fn' | _ \<Rightarrow> False)"
| "py_eq (Pkt_val blk idx off vo sz) =
     (\<lambda>b. case b of Pkt_val blk' idx' off' vo' sz' \<Rightarrow>
            sz = sz' \<and> idx = idx' \<and> blk = blk' \<and> off = off' \<and> opt_match (map_option py_eq vo) vo'
          | _ \<Rightarrow> False)"
| "py_eq (Map_val blk idx mid mk mki off vo sz) =
     (\<lambda>b. case b of Map_val blk' idx' mid' mk' mki' off' vo' sz' \<Rightarrow>
            sz = sz' \<and> idx = idx' \<and> blk = blk' \<and> mid = mid' \<and> opt_match (map_option py_eq mk) mk' \<and>
            mki = mki' \<and> off = off' \<and> opt_match (map_option py_eq vo) vo'
          | _ \<Rightarrow> False)"
| "py_eq (Bss_val blk idx key off vo sz) =
     (\<lambda>b. case b of Bss_val blk' idx' key' off' vo' sz' \<Rightarrow>
            sz = sz' \<and> idx = idx' \<and> blk = blk' \<and> key = key' \<and> off = off' \<and>
            opt_match (map_option py_eq vo) vo'
          | _ \<Rightarrow> False)"
| "py_eq (Rodata_val data off vo sz) =
     (\<lambda>b. case b of Rodata_val data' off' vo' sz' \<Rightarrow>
            sz = sz' \<and> data = data' \<and> off = off' \<and> opt_match (map_option py_eq vo) vo'
          | _ \<Rightarrow> False)"
| "py_eq (Lookup_hit mid mk mki) =
     (\<lambda>b. case b of Lookup_hit mid' mk' mki' \<Rightarrow>
            mid = mid' \<and> opt_match (map_option py_eq mk) mk' \<and> mki = mki' | _ \<Rightarrow> False)"
| "py_eq (Num n sz idx) =
     (\<lambda>b. case b of Num n' sz' idx' \<Rightarrow> n' = n \<and> idx' = idx | _ \<Rightarrow> False)"
| "py_eq (ByteSeq cs sz off) =
     (\<lambda>b. case b of ByteSeq cs' sz' off' \<Rightarrow>
            sz = sz' \<and> all_match (map (map_option py_eq) cs) cs' \<and> off = off' | _ \<Rightarrow> False)"
| "py_eq (ALUunary op dst os im sz a64) =
     (\<lambda>b. case b of ALUunary op' dst' os' im' sz' a64' \<Rightarrow>
            op = op' \<and> sz = sz' \<and> im = im' \<and> os = os' \<and> a64 = a64' \<and>
            opt_match (map_option py_eq dst) dst'
          | _ \<Rightarrow> False)"
| "py_eq (ALUbinary op dst src ofs sz idx) =
     (\<lambda>b. case b of ALUbinary op' dst' src' ofs' sz' idx' \<Rightarrow>
            op = op' \<and> sz = sz' \<and> ofs = ofs' \<and>
            opt_match (map_option py_eq dst) dst' \<and> opt_match (map_option py_eq src) src'
          | _ \<Rightarrow> False)"
| "py_eq (Ptr i vo mk np) =
     (\<lambda>b. case b of Ptr i' vo' mk' np' \<Rightarrow>
            ptr_info_eq i i' \<and> opt_match (map_option py_eq vo) vo' | _ \<Rightarrow> False)"

section \<open>Building values\<close>

definition imm64 :: "int \<Rightarrow> val" where
  "imm64 im = Num im (if 0 \<le> im then 4 else 8) (-1)"

definition VAR_OFF_REGIONS :: "int set" where
  "VAR_OFF_REGIONS = {PTR_TO_PKT, PTR_TO_MAP_VALUE, PTR_TO_BSS, PTR_TO_DATA, PTR_TO_RODATA}"

definition default_ptr :: "int \<Rightarrow> ptr_info" where
  "default_ptr t =
     \<lparr>q_type = t, q_off = 0, q_id = -1, q_base_id = Some (-1), q_map_id = None, q_map_key_id = None,
      q_bss_idx = None, q_rodata_offset = None, q_rodata_data = None, q_checked_null = Some False\<rparr>"

text \<open>\<open>PTR.__init__\<close>, with its two assertions.\<close>

definition new_ptr :: "ptr_info \<Rightarrow> val option \<Rightarrow> val option \<Rightarrow> val res" where
  "new_ptr i var_off map_key =
     (if var_off \<noteq> None \<and> q_type i \<notin> VAR_OFF_REGIONS
      then Inl (AssertionError ''variable offset is not supported'')
      else if q_type i \<in> {PTR_TO_PKT_END, PTR_TO_MAP} \<and> q_off i \<noteq> 0
      then Inl (AssertionError ''supports offset 0 only'')
      else Inr (Ptr i var_off map_key None))"

definition expr_alu ::
  "val option \<Rightarrow> val option \<Rightarrow> int \<Rightarrow> nat \<Rightarrow> bool \<Rightarrow> int \<Rightarrow> int \<Rightarrow> val option" where
  "expr_alu dst src code sz brief idx ofs =
     (case (Option.bind dst num_of, Option.bind src num_of) of
        (Some a, Some b) \<Rightarrow>
          let sg = (ofs = 1 \<and> code \<in> {BPF_DIV, BPF_MOD}) in
          if sz = 4 then Some (Num (arith code a b 32 sg) 4 idx)
          else Some (Num (arith code a b 64 sg) 8 idx)
      | (_, n) \<Rightarrow>
          if code \<in> {BPF_ADD, BPF_SUB} \<and> n = Some 0 then dst
          else if brief then Some (Scalar 8 idx)
          else Some (ALUbinary code dst src ofs sz idx))"

text \<open>Whether \<open>expr_alu\<close> returns the very object it was given.\<close>

definition expr_alu_same :: "val option \<Rightarrow> val option \<Rightarrow> int \<Rightarrow> bool" where
  "expr_alu_same dst src code \<longleftrightarrow>
     \<not> (Option.bind dst num_of \<noteq> None \<and> Option.bind src num_of \<noteq> None) \<and>
     code \<in> {BPF_ADD, BPF_SUB} \<and> Option.bind src num_of = Some 0"

definition total_offset :: "ptr_info \<Rightarrow> val option \<Rightarrow> val option" where
  "total_offset i var_off =
     (case var_off of
        None \<Rightarrow> Some (Num (q_off i) 8 (-1))
      | Some v \<Rightarrow> expr_alu (Some v) (Some (Num (q_off i) 8 (-1))) BPF_ADD 4 False (-1) 0)"

definition trunc32 :: "val option \<Rightarrow> int \<Rightarrow> val option" where
  "trunc32 value idx =
     (case value of
        None \<Rightarrow> None
      | Some v \<Rightarrow>
          if is_ptr v then Some v
          else
            (case num_of v of
              Some n \<Rightarrow> Some (Num (n AND 0xFFFFFFFF) 4 idx)
            | None \<Rightarrow>
                if v_size v \<le> 4 then Some v
                else Some (ALUbinary BPF_AND (Some v) (Some (Num 0xFFFFFFFF 4 (-1))) 0 4 idx)))"

definition sext :: "val option \<Rightarrow> int \<Rightarrow> nat \<Rightarrow> int \<Rightarrow> val option res" where
  "sext value bits sz idx =
     (case value of
        None \<Rightarrow> Inr None
      | Some v \<Rightarrow>
          if is_ptr v then Inl (TrackError ''sign extension of a pointer'')
          else
            (case num_of v of
              Some n \<Rightarrow>
                if bits < 1 then Inl (ValueError ''negative shift count'')
                else
                let x = to_signed (nat bits) (n AND pymask (nat bits)) in
                if sz = 4 then Inr (Some (Num (x AND 0xFFFFFFFF) 4 idx))
                else Inr (Some (Num x 8 idx))
            | None \<Rightarrow> Inr (Some (ALUunary BPF_MOV (Some v) None bits sz (sz = 8)))))"

section \<open>Facts on equality\<close>

lemma opt_match_rel: "opt_match (map_option f x) y \<longleftrightarrow> rel_option f x y"
  by (cases x; cases y) auto

lemma all_match_rel: "all_match (map (map_option f) xs) ys \<longleftrightarrow> list_all2 (rel_option f) xs ys"
  by (induction xs arbitrary: ys; case_tac ys) (auto simp: opt_match_rel)

lemmas match_rel = opt_match_rel all_match_rel

lemma rel_option_refl_on: "(\<And>a. a \<in> set_option x \<Longrightarrow> f a a) \<Longrightarrow> rel_option f x x"
  by (cases x) auto

lemma rel_option_sym_on:
  "(\<And>a b. a \<in> set_option x \<Longrightarrow> f a b \<Longrightarrow> f b a) \<Longrightarrow> rel_option f x y \<Longrightarrow> rel_option f y x"
  by (cases x; cases y) auto

lemma rel_option_trans_on:
  "(\<And>a b c. a \<in> set_option x \<Longrightarrow> f a b \<Longrightarrow> f b c \<Longrightarrow> f a c) \<Longrightarrow>
   rel_option f x y \<Longrightarrow> rel_option f y z \<Longrightarrow> rel_option f x z"
  by (cases x; cases y; cases z) auto

lemma list_all2_refl_on: "(\<And>a. a \<in> set xs \<Longrightarrow> R a a) \<Longrightarrow> list_all2 R xs xs"
  by (simp add: list.rel_refl_strong)

lemma list_all2_sym_on:
  "list_all2 R xs ys \<Longrightarrow> (\<And>a b. a \<in> set xs \<Longrightarrow> R a b \<Longrightarrow> R b a) \<Longrightarrow> list_all2 R ys xs"
  by (induction rule: list_all2_induct) auto

lemma list_all2_trans_on:
  "list_all2 R xs ys \<Longrightarrow> list_all2 R ys zs \<Longrightarrow>
   (\<And>a b c. a \<in> set xs \<Longrightarrow> R a b \<Longrightarrow> R b c \<Longrightarrow> R a c) \<Longrightarrow> list_all2 R xs zs"
  by (induction xs arbitrary: ys zs) (fastforce simp: list_all2_Cons1)+

lemma ptr_info_eq_refl: "ptr_info_eq i i"
  and ptr_info_eq_sym: "ptr_info_eq i j \<Longrightarrow> ptr_info_eq j i"
  and ptr_info_eq_trans: "ptr_info_eq i j \<Longrightarrow> ptr_info_eq j k \<Longrightarrow> ptr_info_eq i k"
  by (auto simp: ptr_info_eq_def split: if_splits)

lemma py_eq_refl_lemma: "py_eq a a"
proof (induction a)
  case (ByteSeq cs sz off)
  have "rel_option py_eq c c" if "c \<in> set cs" for c
    using ByteSeq that by (intro rel_option_refl_on) auto
  then show ?case by (simp add: match_rel list_all2_refl_on)
qed (auto simp: match_rel ptr_info_eq_refl intro!: rel_option_refl_on)

lemma py_eq_sym_lemma: "py_eq a b \<Longrightarrow> py_eq b a"
proof (induction a arbitrary: b)
  case (ByteSeq cs sz off)
  from ByteSeq.prems obtain ds where b: "b = ByteSeq ds sz off" and m: "list_all2 (rel_option py_eq) cs ds"
    by (auto simp: match_rel split: val.splits)
  have "list_all2 (rel_option py_eq) ds cs"
    using ByteSeq.IH by (intro list_all2_sym_on [OF m]) (blast intro: rel_option_sym_on)
  then show ?case by (simp add: b match_rel)
qed (auto simp: match_rel split: val.splits intro: rel_option_sym_on ptr_info_eq_sym)

lemma py_eq_trans_lemma: "py_eq a b \<Longrightarrow> py_eq b c \<Longrightarrow> py_eq a c"
proof (induction a arbitrary: b c)
  case (ByteSeq cs sz off)
  from ByteSeq.prems obtain ds es where bc: "b = ByteSeq ds sz off" "c = ByteSeq es sz off"
    and m: "list_all2 (rel_option py_eq) cs ds" "list_all2 (rel_option py_eq) ds es"
    by (auto simp: match_rel split: val.splits)
  have "list_all2 (rel_option py_eq) cs es"
  proof (rule list_all2_trans_on [OF m])
    fix x y z assume x: "x \<in> set cs" and xyz: "rel_option py_eq x y" "rel_option py_eq y z"
    show "rel_option py_eq x z" by (rule rel_option_trans_on [OF _ xyz]) (use ByteSeq.IH x in blast)
  qed
  then show ?case by (simp add: bc match_rel)
qed (auto simp: match_rel split: val.splits intro: rel_option_trans_on ptr_info_eq_trans)

section \<open>Properties\<close>

text \<open>
  Python's \<open>==\<close> on symbolic values, assembled from the overridden \<open>__eq__\<close> methods and
  the generated ones, is an equivalence relation; the merge of two program states groups the
  incoming values by it.
\<close>

theorem py_eq_equivalence:
  "py_eq a a \<and> (py_eq a b \<longrightarrow> py_eq b a) \<and> (py_eq a b \<longrightarrow> py_eq b c \<longrightarrow> py_eq a c)"
  using py_eq_refl_lemma py_eq_sym_lemma py_eq_trans_lemma by blast

theorem py_eq_equivalence_witness:
  "py_eq (ALUbinary BPF_ADD (Some (Num 1 4 (-1))) (Some (Scalar 8 3)) 0 8 7)
         (ALUbinary BPF_ADD (Some (Num 1 8 (-1))) (Some (Scalar 8 3)) 0 8 9) \<and>
   py_eq (ALUbinary BPF_ADD (Some (Num 1 8 (-1))) (Some (Scalar 8 3)) 0 8 9)
         (ALUbinary BPF_ADD (Some (Num 1 4 (-1))) (Some (Scalar 8 3)) 0 8 7)"
proof -
  have "py_eq (ALUbinary BPF_ADD (Some (Num 1 4 (-1))) (Some (Scalar 8 3)) 0 8 7)
              (ALUbinary BPF_ADD (Some (Num 1 8 (-1))) (Some (Scalar 8 3)) 0 8 9)" by simp
  then show ?thesis using py_eq_equivalence by blast
qed

text \<open>
  Building an ALU value from two constants computes the instruction: the folded number
  is, as a 64-bit (or 32-bit) word, what the instruction set prescribes, division by zero and
  signed division included; a 32-bit result is stored as a number below \<open>2 ^ 32\<close>.
\<close>

theorem expr_alu_folds:
  assumes "code \<in> alu_codes"
  shows "(\<exists>r. expr_alu (Some (Num a sa ia)) (Some (Num b sb ib)) code 8 brief idx ofs = Some (Num r 8 idx) \<and>
            word_of_int r = alu_isa code (ofs = 1 \<and> code \<in> {BPF_DIV, BPF_MOD})
              (word_of_int a :: 64 word) (word_of_int b)) \<and>
     (\<exists>r. expr_alu (Some (Num a sa ia)) (Some (Num b sb ib)) code 4 brief idx ofs = Some (Num r 4 idx) \<and>
            0 \<le> r \<and> r < 2 ^ 32 \<and>
            word_of_int r = alu_isa code (ofs = 1 \<and> code \<in> {BPF_DIV, BPF_MOD})
              (word_of_int a :: 32 word) (word_of_int b))"
proof -
  let ?sg = "ofs = 1 \<and> code \<in> {BPF_DIV, BPF_MOD}"
  have "word_of_int (arith code a b 64 ?sg) = alu_isa code ?sg (word_of_int a :: 64 word) (word_of_int b)"
    using arith_word [where 'a = 64 and k = 6, OF _ assms] by simp
  moreover have "word_of_int (arith code a b 32 ?sg) = alu_isa code ?sg (word_of_int a :: 32 word) (word_of_int b)"
    using arith_word [where 'a = 32 and k = 5, OF _ assms] by simp
  ultimately show ?thesis
    using arith32_in_u32 [of code a b ?sg] by (simp add: expr_alu_def num_of_def Let_def in_u32_def)
qed

theorem expr_alu_folds_witness:
  "\<exists>r. expr_alu (Some (Num (-7) 8 1)) (Some (Num 2 4 2)) BPF_DIV 8 False 9 1 = Some (Num r 8 9) \<and>
     word_of_int r = alu_isa BPF_DIV True (word_of_int (-7) :: 64 word) (word_of_int 2)"
  using expr_alu_folds [of BPF_DIV "-7" 8 1 2 4 2 False 9 1] by (auto simp: alu_codes_def)

text \<open>
  Sign extension of a constant keeps its low bits and copies bit \<open>bits - 1\<close> upwards,
  for the byte, halfword and word forms of \<open>MOV\<close> and of sign-extending loads; a 64-bit result is
  kept signed, a 32-bit one masked.
\<close>

theorem sext_constant:
  assumes "0 < bits"
  shows "sext (Some (Num n sz0 i0)) (int bits) 8 idx = Inr (Some (Num (signed_take_bit (bits - 1) n) 8 idx)) \<and>
     sext (Some (Num n sz0 i0)) (int bits) 4 idx =
       Inr (Some (Num (take_bit 32 (signed_take_bit (bits - 1) n)) 4 idx))"
  using to_signed_eq [OF assms, of n] assms
  by (simp add: sext_def is_ptr_def num_of_def Let_def and_pymask_take_bit and_numeral_mask)

theorem sext_constant_witness:
  "sext (Some (Num 0x1F0 8 0)) (int 8) 8 5 = Inr (Some (Num (signed_take_bit 7 0x1F0) 8 5)) \<and>
   signed_take_bit 7 (0x1F0 :: int) = -16"
  using sext_constant [of 8 "0x1F0" 8 0 5] by simp

end
