(* ===== verification/Smt.thy ===== *)
theory Smt
  imports Prelude
begin

text \<open>
  The interface to Z3.  Z3 is not part of the repository: a call of one of its constructors is
  recorded as a node of a term (bit-vectors, Booleans and two kinds of arrays), and what the code
  asks of a term (its width, whether it is a numeral, its value) is a record of parameters.  The
  locale \<open>smtlib\<close> states what the code relies on: the widths the API documents and the SMT-LIB
  meaning of each constructor under an assignment.  The end of the theory interprets it on an
  evaluator, so the laws can hold.
\<close>

section \<open>Terms\<close>

datatype bvop = BvAdd | BvSub | BvMul | BvUDiv | BvSDiv | BvURem | BvSRem
  | BvOr | BvAnd | BvXor | BvShl | BvLShr | BvAShr

datatype bvcmp = BvUgt | BvUge | BvUlt | BvUle | BvSgt | BvSge | BvSlt | BvSle

datatype bvt =
    BitVecVal int nat
  | BitVec string nat
  | Extract nat nat bvt
  | Concat "bvt list"
  | SignExt nat bvt
  | BvNeg bvt
  | BvNot bvt
  | BvOp bvop bvt bvt
  | BvIf bt bvt bvt
  | Select avt bvt
and bt =
    BoolVal bool
  | Bool string
  | BNot bt
  | BAnd bt bt
  | BOr "bt list"
  | BvCmp bvcmp bvt bvt
  | BvEq bvt bvt
  | BvNe bvt bvt
  | BoolEq bt bool
  | SelectB abt bvt
  | BoolIf bt bt bt
and avt =
    Array string nat nat
  | K nat bvt
  | Store avt bvt bvt
  | ArrIf bt avt avt
and abt =
    ArrayB string nat
  | KB nat bt
  | StoreB abt bvt bt
  | ArrIfB bt abt abt

text \<open>\<open>Array name domain range\<close>, \<open>K domain value\<close>, \<open>ArrayB name domain\<close>,
  \<open>KB domain value\<close>; \<open>BoolIf\<close>, \<open>ArrIf\<close> and \<open>ArrIfB\<close> are Z3's \<open>If\<close> at the other sorts.\<close>

record z3_queries =
  z_size :: "bvt \<Rightarrow> nat"
  z_is_value :: "bvt \<Rightarrow> bool"
  z_as_long :: "bvt \<Rightarrow> int"
  z_dom :: "avt \<Rightarrow> nat"
  z_rng :: "avt \<Rightarrow> nat"

section \<open>SMT-LIB's bit-vector operations on their values\<close>

definition bv_signed :: "nat \<Rightarrow> int \<Rightarrow> int" where
  "bv_signed w a = signed_take_bit (w - 1) a"

fun bv_sem :: "bvop \<Rightarrow> nat \<Rightarrow> int \<Rightarrow> int \<Rightarrow> int" where
  "bv_sem BvAdd w a b = take_bit w (a + b)"
| "bv_sem BvSub w a b = take_bit w (a - b)"
| "bv_sem BvMul w a b = take_bit w (a * b)"
| "bv_sem BvUDiv w a b = (if b = 0 then mask w else take_bit w (a div b))"
| "bv_sem BvSDiv w a b =
     (if b = 0 then (if bv_signed w a < 0 then 1 else mask w)
      else take_bit w (bv_signed w a sdiv bv_signed w b))"
| "bv_sem BvURem w a b = (if b = 0 then a else take_bit w (a mod b))"
| "bv_sem BvSRem w a b =
     (if b = 0 then a else take_bit w (bv_signed w a smod bv_signed w b))"
| "bv_sem BvOr w a b = a OR b"
| "bv_sem BvAnd w a b = a AND b"
| "bv_sem BvXor w a b = a XOR b"
| "bv_sem BvShl w a b = take_bit w (push_bit (nat b) a)"
| "bv_sem BvLShr w a b = drop_bit (nat b) a"
| "bv_sem BvAShr w a b = take_bit w (drop_bit (nat b) (bv_signed w a))"

fun cmp_sem :: "bvcmp \<Rightarrow> nat \<Rightarrow> int \<Rightarrow> int \<Rightarrow> bool" where
  "cmp_sem BvUgt w a b = (b < a)"
| "cmp_sem BvUge w a b = (b \<le> a)"
| "cmp_sem BvUlt w a b = (a < b)"
| "cmp_sem BvUle w a b = (a \<le> b)"
| "cmp_sem BvSgt w a b = (bv_signed w b < bv_signed w a)"
| "cmp_sem BvSge w a b = (bv_signed w b \<le> bv_signed w a)"
| "cmp_sem BvSlt w a b = (bv_signed w a < bv_signed w b)"
| "cmp_sem BvSle w a b = (bv_signed w a \<le> bv_signed w b)"

text \<open>The value of a concatenation, the first part most significant.\<close>

fun concat_sem :: "(nat \<times> int) list \<Rightarrow> int" where
  "concat_sem [] = 0"
| "concat_sem ((w, v) # ps) = push_bit (sum_list (map fst ps)) v + concat_sem ps"

section \<open>What the code relies on\<close>

locale smtlib =
  fixes z :: z3_queries
    and ev :: "'m \<Rightarrow> bvt \<Rightarrow> int"
    and evb :: "'m \<Rightarrow> bt \<Rightarrow> bool"
    and eva :: "'m \<Rightarrow> avt \<Rightarrow> int \<Rightarrow> int"
    and evab :: "'m \<Rightarrow> abt \<Rightarrow> int \<Rightarrow> bool"
  assumes size_BitVecVal: "z_size z (BitVecVal v w) = w"
    and size_BitVec: "z_size z (BitVec x w) = w"
    and size_Extract: "z_size z (Extract hi lo t) = Suc (hi - lo)"
    and size_Concat: "z_size z (Concat ts) = sum_list (map (z_size z) ts)"
    and size_SignExt: "z_size z (SignExt n t) = n + z_size z t"
    and size_BvNeg: "z_size z (BvNeg t) = z_size z t"
    and size_BvNot: "z_size z (BvNot t) = z_size z t"
    and size_BvOp: "z_size z (BvOp f s t) = z_size z s"
    and size_BvIf: "z_size z (BvIf c s t) = z_size z s"
    and size_Select: "z_size z (Select a s) = z_rng z a"
    and dom_Array: "z_dom z (Array x d r) = d"
    and rng_Array: "z_rng z (Array x d r) = r"
    and dom_K: "z_dom z (K d t) = d"
    and rng_K: "z_rng z (K d t) = z_size z t"
    and dom_Store: "z_dom z (Store a k t) = z_dom z a"
    and rng_Store: "z_rng z (Store a k t) = z_rng z a"
    and dom_ArrIf: "z_dom z (ArrIf c a a') = z_dom z a"
    and rng_ArrIf: "z_rng z (ArrIf c a a') = z_rng z a"
    and is_value_BitVecVal: "z_is_value z (BitVecVal v w)"
    and as_long: "z_is_value z t \<Longrightarrow> ev m t = z_as_long z t"
    and ev_range: "take_bit (z_size z t) (ev m t) = ev m t"
    and ev_BitVecVal: "ev m (BitVecVal v w) = take_bit w v"
    and ev_Extract: "lo \<le> hi \<Longrightarrow> hi < z_size z t \<Longrightarrow>
      ev m (Extract hi lo t) = take_bit (Suc hi - lo) (drop_bit lo (ev m t))"
    and ev_Concat: "ev m (Concat ts) = concat_sem (map (\<lambda>t. (z_size z t, ev m t)) ts)"
    and ev_SignExt: "0 < z_size z t \<Longrightarrow>
      ev m (SignExt n t) = take_bit (n + z_size z t) (bv_signed (z_size z t) (ev m t))"
    and ev_BvNeg: "ev m (BvNeg t) = take_bit (z_size z t) (- ev m t)"
    and ev_BvNot: "ev m (BvNot t) = take_bit (z_size z t) (NOT (ev m t))"
    and ev_BvOp: "z_size z s = z_size z t \<Longrightarrow> 0 < z_size z s \<Longrightarrow>
      ev m (BvOp f s t) = bv_sem f (z_size z s) (ev m s) (ev m t)"
    and ev_BvIf: "z_size z s = z_size z t \<Longrightarrow>
      ev m (BvIf c s t) = (if evb m c then ev m s else ev m t)"
    and ev_Select: "z_size z s = z_dom z a \<Longrightarrow> ev m (Select a s) = eva m a (ev m s)"
    and evb_BoolVal: "evb m (BoolVal bl) = bl"
    and evb_Not: "evb m (BNot b) = (\<not> evb m b)"
    and evb_And: "evb m (BAnd b c) = (evb m b \<and> evb m c)"
    and evb_Or: "evb m (BOr bs) = (\<exists>b \<in> set bs. evb m b)"
    and evb_BvCmp: "z_size z s = z_size z t \<Longrightarrow> 0 < z_size z s \<Longrightarrow>
      evb m (BvCmp p s t) = cmp_sem p (z_size z s) (ev m s) (ev m t)"
    and evb_BvEq: "z_size z s = z_size z t \<Longrightarrow> evb m (BvEq s t) = (ev m s = ev m t)"
    and evb_BvNe: "z_size z s = z_size z t \<Longrightarrow> evb m (BvNe s t) = (ev m s \<noteq> ev m t)"
    and evb_BoolEq: "evb m (BoolEq b bl) = (evb m b = bl)"
    and evb_SelectB: "evb m (SelectB ab s) = evab m ab (ev m s)"
    and evb_BoolIf: "evb m (BoolIf c b b') = (if evb m c then evb m b else evb m b')"
    and eva_K: "eva m (K d t) i = ev m t"
    and eva_Store: "z_size z s = z_dom z a \<Longrightarrow> z_size z t = z_rng z a \<Longrightarrow>
      eva m (Store a s t) = (eva m a)(ev m s := ev m t)"
    and eva_ArrIf: "z_rng z a = z_rng z a' \<Longrightarrow> eva m (ArrIf c a a') = (if evb m c then eva m a else eva m a')"
    and evab_KB: "evab m (KB d b) i = evb m b"
    and evab_ArrIfB: "evab m (ArrIfB c ab ab') = (if evb m c then evab m ab else evab m ab')"
    and evab_StoreB: "evab m (StoreB ab s b) = (evab m ab)(ev m s := evb m b)"
begin

lemmas size_simps = size_BitVecVal size_BitVec size_Extract size_Concat size_SignExt size_BvNeg
  size_BvNot size_BvOp size_BvIf size_Select dom_Array rng_Array dom_K rng_K dom_Store rng_Store
  dom_ArrIf rng_ArrIf

lemma ev_nonneg: "0 \<le> ev m t"
  using ev_range [of t m] by (metis take_bit_nonnegative)

lemma ev_less: "ev m t < 2 ^ z_size z t"
  using ev_range [of t m] by (metis take_bit_int_less_exp)

lemma ev_take_bit: "z_size z t \<le> n \<Longrightarrow> take_bit n (ev m t) = ev m t"
  using ev_range [of t m] by (metis min_absorb2 take_bit_take_bit)

lemma ev_Concat2:
  "ev m (Concat [s, t]) = push_bit (z_size z t) (ev m s) + ev m t"
  by (simp add: ev_Concat)

end

section \<open>An evaluator\<close>

record smt_env =
  e_bv :: "string \<Rightarrow> int"
  e_bool :: "string \<Rightarrow> bool"
  e_arr :: "string \<Rightarrow> int \<Rightarrow> int"
  e_barr :: "string \<Rightarrow> int \<Rightarrow> bool"

primrec bv_size :: "bvt \<Rightarrow> nat" and arr_rng :: "avt \<Rightarrow> nat" where
  "bv_size (BitVecVal v w) = w"
| "bv_size (BitVec x w) = w"
| "bv_size (Extract hi lo t) = Suc (hi - lo)"
| "bv_size (Concat ts) = sum_list (map bv_size ts)"
| "bv_size (SignExt n t) = n + bv_size t"
| "bv_size (BvNeg t) = bv_size t"
| "bv_size (BvNot t) = bv_size t"
| "bv_size (BvOp f s t) = bv_size s"
| "bv_size (BvIf c s t) = bv_size s"
| "bv_size (Select a s) = arr_rng a"
| "arr_rng (Array x d r) = r"
| "arr_rng (K d t) = bv_size t"
| "arr_rng (Store a k t) = arr_rng a"
| "arr_rng (ArrIf c a b) = arr_rng a"

fun arr_dom :: "avt \<Rightarrow> nat" where
  "arr_dom (Array x d r) = d"
| "arr_dom (K d t) = d"
| "arr_dom (Store a k t) = arr_dom a"
| "arr_dom (ArrIf c a b) = arr_dom a"

fun bv_is_value :: "bvt \<Rightarrow> bool" where
  "bv_is_value (BitVecVal v w) = True"
| "bv_is_value _ = False"

fun bv_as_long :: "bvt \<Rightarrow> int" where
  "bv_as_long (BitVecVal v w) = take_bit w v"
| "bv_as_long _ = 0"

definition std_queries :: z3_queries where
  "std_queries = \<lparr>z_size = bv_size, z_is_value = bv_is_value, z_as_long = bv_as_long,
     z_dom = arr_dom, z_rng = arr_rng\<rparr>"

primrec eval_bv :: "smt_env \<Rightarrow> bvt \<Rightarrow> int" and eval_b :: "smt_env \<Rightarrow> bt \<Rightarrow> bool"
  and eval_a :: "smt_env \<Rightarrow> avt \<Rightarrow> int \<Rightarrow> int" and eval_ab :: "smt_env \<Rightarrow> abt \<Rightarrow> int \<Rightarrow> bool" where
  "eval_bv e (BitVecVal v w) = take_bit w v"
| "eval_bv e (BitVec x w) = take_bit w (e_bv e x)"
| "eval_bv e (Extract hi lo t) = take_bit (Suc (hi - lo)) (drop_bit lo (eval_bv e t))"
| "eval_bv e (Concat ts) = concat_sem (map (\<lambda>t. (bv_size t, eval_bv e t)) ts)"
| "eval_bv e (SignExt n t) = take_bit (n + bv_size t) (bv_signed (bv_size t) (eval_bv e t))"
| "eval_bv e (BvNeg t) = take_bit (bv_size t) (- eval_bv e t)"
| "eval_bv e (BvNot t) = take_bit (bv_size t) (NOT (eval_bv e t))"
| "eval_bv e (BvOp f s t) = take_bit (bv_size s) (bv_sem f (bv_size s) (eval_bv e s) (eval_bv e t))"
| "eval_bv e (BvIf c s t) = take_bit (bv_size s) (if eval_b e c then eval_bv e s else eval_bv e t)"
| "eval_bv e (Select a s) = take_bit (arr_rng a) (eval_a e a (eval_bv e s))"
| "eval_b e (BoolVal b) = b"
| "eval_b e (Bool x) = e_bool e x"
| "eval_b e (BNot b) = (\<not> eval_b e b)"
| "eval_b e (BAnd b c) = (eval_b e b \<and> eval_b e c)"
| "eval_b e (BOr bs) = list_ex (\<lambda>x. x) (map (eval_b e) bs)"
| "eval_b e (BvCmp p s t) = cmp_sem p (bv_size s) (eval_bv e s) (eval_bv e t)"
| "eval_b e (BvEq s t) = (eval_bv e s = eval_bv e t)"
| "eval_b e (BvNe s t) = (eval_bv e s \<noteq> eval_bv e t)"
| "eval_b e (BoolEq b v) = (eval_b e b = v)"
| "eval_b e (SelectB ab s) = eval_ab e ab (eval_bv e s)"
| "eval_b e (BoolIf c b b') = (if eval_b e c then eval_b e b else eval_b e b')"
| "eval_a e (Array x d r) = (\<lambda>i. take_bit r (e_arr e x i))"
| "eval_a e (K d t) = (\<lambda>i. eval_bv e t)"
| "eval_a e (Store a s t) = (eval_a e a)(eval_bv e s := take_bit (arr_rng a) (eval_bv e t))"
| "eval_a e (ArrIf c a b) = (\<lambda>i. take_bit (arr_rng a) (if eval_b e c then eval_a e a i else eval_a e b i))"
| "eval_ab e (ArrayB x d) = e_barr e x"
| "eval_ab e (KB d b) = (\<lambda>i. eval_b e b)"
| "eval_ab e (ArrIfB c a b) = (if eval_b e c then eval_ab e a else eval_ab e b)"
| "eval_ab e (StoreB ab s b) = (eval_ab e ab)(eval_bv e s := eval_b e b)"

section \<open>The evaluator satisfies the laws\<close>

abbreviation fits :: "nat \<Rightarrow> int \<Rightarrow> bool" where
  "fits w a \<equiv> take_bit w a = a"

lemma fits_iff: "fits w a \<longleftrightarrow> 0 \<le> a \<and> a < 2 ^ w"
  by (auto simp: take_bit_int_eq_self_iff)

lemma fits_mono: "fits w a \<Longrightarrow> w \<le> n \<Longrightarrow> fits n a"
  by (metis min_absorb2 take_bit_take_bit)

lemma concat_sem_fits:
  "\<forall>p \<in> set ps. fits (fst p) (snd p) \<Longrightarrow> fits (sum_list (map fst ps)) (concat_sem ps)"
proof (induction ps)
  case (Cons p ps)
  obtain w v where p: "p = (w, v)" by (cases p)
  let ?n = "sum_list (map fst ps)" and ?c = "concat_sem ps"
  have v: "0 \<le> v" "v < 2 ^ w" and c: "0 \<le> ?c" "?c < 2 ^ ?n"
    using Cons by (auto simp: p fits_iff)
  have "push_bit ?n v + ?c < 2 ^ ?n * (v + 1)" using c by (simp add: push_bit_eq_mult algebra_simps)
  also have "\<dots> \<le> 2 ^ ?n * 2 ^ w" using v by (intro mult_left_mono) simp_all
  finally show ?case using v c by (simp add: p fits_iff push_bit_eq_mult power_add mult.commute)
qed simp

lemma bv_sem_fits:
  assumes "0 < w" and "fits w a" and "fits w b"
  shows "fits w (bv_sem f w a b)"
proof (cases f)
  case BvLShr
  have "drop_bit (nat b) a \<le> a" using assms(2) zdiv_mono2 [of a 1 "2 ^ nat b"]
    by (simp add: fits_iff drop_bit_eq_div)
  moreover have "0 \<le> drop_bit (nat b) a" using assms(2) by (simp add: fits_iff)
  ultimately show ?thesis using BvLShr assms(2) by (simp add: fits_iff)
qed (use assms in simp_all)

lemma eval_fits:
  shows "fits (bv_size t) (eval_bv e t)" and "eval_b e b = eval_b e b"
    and "\<forall>i. fits (arr_rng a) (eval_a e a i)" and "eval_ab e ab = eval_ab e ab"
proof (induction t and b and a and ab)
  case (Concat ts)
  then show ?case
    using concat_sem_fits [of "map (\<lambda>t. (bv_size t, eval_bv e t)) ts"] by (simp add: comp_def)
qed simp_all

lemma eval_bv_fits: "fits (bv_size t) (eval_bv e t)"
  and eval_a_fits: "fits (arr_rng a) (eval_a e a i)"
  using eval_fits(1,3) by blast+

interpretation eval: smtlib std_queries eval_bv eval_b eval_a eval_ab
proof unfold_locales
  fix m s t f
  assume "z_size std_queries s = z_size std_queries t" "0 < z_size std_queries s"
  then show "eval_bv m (BvOp f s t) = bv_sem f (z_size std_queries s) (eval_bv m s) (eval_bv m t)"
    using bv_sem_fits [of "bv_size s" "eval_bv m s" "eval_bv m t" f]
      eval_bv_fits [of s m] eval_bv_fits [of t m]
    by (simp add: std_queries_def)
next
  fix t m assume "z_is_value std_queries t"
  then show "eval_bv m t = z_as_long std_queries t" by (cases t) (simp_all add: std_queries_def)
next
  fix m a s assume "z_size std_queries s = z_dom std_queries a"
  show "eval_bv m (Select a s) = eval_a m a (eval_bv m s)" by (simp add: eval_a_fits)
next
  fix m c s t assume "z_size std_queries s = z_size std_queries t"
  then show "eval_bv m (BvIf c s t) = (if eval_b m c then eval_bv m s else eval_bv m t)"
    using eval_bv_fits [of s m] eval_bv_fits [of t m] by (simp add: std_queries_def)
next
  fix m a s t assume "z_size std_queries s = z_dom std_queries a" "z_size std_queries t = z_rng std_queries a"
  then show "eval_a m (Store a s t) = (eval_a m a)(eval_bv m s := eval_bv m t)"
    using eval_bv_fits [of t m] by (simp add: std_queries_def)
next
  fix m c a a' assume "z_rng std_queries a = z_rng std_queries a'"
  then show "eval_a m (ArrIf c a a') = (if eval_b m c then eval_a m a else eval_a m a')"
    using eval_a_fits [of a m] eval_a_fits [of a' m] by (auto simp: std_queries_def fun_eq_iff)
next
  fix m bs show "eval_b m (BOr bs) = (\<exists>b \<in> set bs. eval_b m b)" by (simp add: list_ex_iff)
next
  fix m t and lo hi :: nat assume "lo \<le> hi"
  then show "eval_bv m (Extract hi lo t) = take_bit (Suc hi - lo) (drop_bit lo (eval_bv m t))"
    by (simp add: Suc_diff_le)
qed (simp_all add: std_queries_def eval_bv_fits)

lemma smtlib_std: "smtlib std_queries eval_bv eval_b eval_a eval_ab"
  by (rule eval.smtlib_axioms)

text \<open>An assignment for the witnesses: every constant is 5, every Boolean true, all arrays zero.\<close>

definition demo_env :: smt_env where
  "demo_env = \<lparr>e_bv = (\<lambda>_. 5), e_bool = (\<lambda>_. True), e_arr = (\<lambda>_ _. 0), e_barr = (\<lambda>_ _. True)\<rparr>"

end
