(* ===== verification/Encode.thy ===== *)
theory Encode
  imports Link Expr Smt
begin

text \<open>
  The component \<open>hornet/track/encode.py\<close>: the translation of symbolic values, branch conditions
  and actions into Z3 terms, and the state of the world they read and write.  \<open>z\<close> is what is
  asked of Z3 (see \<open>Smt\<close>).  The memo table of \<open>expr_to_z3\<close> only saves work and is not modelled;
  a call of Z3 with impossible bounds raises, which is \<open>Z3Exception\<close> here.
\<close>

abbreviation (input) Z3Exception :: error where
  "Z3Exception \<equiv> RuntimeError ''Z3Exception''"

abbreviation (input) no_encoding :: error where
  "no_encoding \<equiv> TrackError ''expr_to_z3: no encoding''"

section \<open>Map types\<close>

definition ARRAY_MAP_TYPES :: "int set" where "ARRAY_MAP_TYPES = {2, 6}"
definition HASH_MAP_TYPES :: "int set" where "HASH_MAP_TYPES = {1, 5, 9, 10}"
definition PROG_MAP_TYPES :: "int set" where "PROG_MAP_TYPES = {BPF_MAP_TYPE_PROG_ARRAY}"

abbreviation (input) EINVAL :: int where "EINVAL \<equiv> 22"
abbreviation (input) PKT_ADDR_BITS :: nat where "PKT_ADDR_BITS \<equiv> 16"
abbreviation (input) BSS_ADDR_BITS :: nat where "BSS_ADDR_BITS \<equiv> 16"
abbreviation (input) RODATA_ADDR_BITS :: nat where "RODATA_ADDR_BITS \<equiv> 32"

section \<open>The state\<close>

text \<open>
  The arguments of \<open>read_loc\<close>: the region, offset, size, map, key and symbol of a location.
\<close>

record mem_loc =
  ml_region :: nat
  ml_off :: int
  ml_size :: nat
  ml_map_id :: "int option"
  ml_map_key :: "val option"
  ml_bss_key :: "string option"

text \<open>
  \<open>Z3State\<close>.  The readers are the callbacks of the forward analysis; \<open>None\<close> when it runs without
  them.  A map is its presence array and its value array.
\<close>

record z3_state =
  zs_pkt :: avt
  zs_map :: "(abt \<times> avt) list"
  zs_r0 :: bvt
  zs_rx_index :: bvt
  zs_ingress :: bvt
  zs_egress :: bvt
  zs_pkt_len :: bvt
  zs_bss :: "(string \<times> avt) list"
  zs_map_meta :: "map_info list"
  zs_read_pkt :: "(val \<Rightarrow> bvt option res) option"
  zs_read_map :: "(val \<Rightarrow> bvt option res) option"
  zs_read_bss :: "(val \<Rightarrow> bvt option res) option"
  zs_read_fret :: "(val \<Rightarrow> bvt option res) option"
  zs_read_phi :: "(val \<Rightarrow> bvt res) option"
  zs_read_present :: "(int \<Rightarrow> bvt \<Rightarrow> int option \<Rightarrow> int option \<Rightarrow> bt res) option"
  zs_read_loc :: "(mem_loc \<Rightarrow> bvt option res) option"
  zs_at_block :: "int option"

definition map_info_of :: "z3_state \<Rightarrow> int option \<Rightarrow> map_info option" where
  "map_info_of st map_id =
     (case map_id of
        None \<Rightarrow> None
      | Some k \<Rightarrow>
          if zs_map_meta st = [] \<or> k < 0 \<or> int (length (zs_map_meta st)) \<le> k then None
          else Some (zs_map_meta st ! nat k))"

definition map_type_in :: "int set \<Rightarrow> z3_state \<Rightarrow> int option \<Rightarrow> bool" where
  "map_type_in ts st map_id = (case map_info_of st map_id of None \<Rightarrow> False | Some i \<Rightarrow> m_type i \<in> ts)"

definition is_array_map :: "z3_state \<Rightarrow> int option \<Rightarrow> bool" where
  "is_array_map = map_type_in ARRAY_MAP_TYPES"

definition is_hash_map :: "z3_state \<Rightarrow> int option \<Rightarrow> bool" where
  "is_hash_map = map_type_in HASH_MAP_TYPES"

definition is_prog_map :: "z3_state \<Rightarrow> int option \<Rightarrow> bool" where
  "is_prog_map = map_type_in PROG_MAP_TYPES"

definition rodata_array :: "byte list \<Rightarrow> avt" where
  "rodata_array d =
     foldl (\<lambda>arr (i, b). if b \<noteq> 0
              then Store arr (BitVecVal (int i) RODATA_ADDR_BITS) (BitVecVal (uint b) 8) else arr)
       (K RODATA_ADDR_BITS (BitVecVal 0 8)) (enumerate 0 d)"

definition bss_of :: "z3_state \<Rightarrow> string option \<Rightarrow> avt" where
  "bss_of st key =
     (case Option.bind key (dict_get (zs_bss st)) of
        Some arr \<Rightarrow> arr
      | None \<Rightarrow> K BSS_ADDR_BITS (BitVecVal 0 8))"

section \<open>Widths and byte ranges\<close>

definition resize :: "z3_queries \<Rightarrow> bvt \<Rightarrow> nat \<Rightarrow> bvt" where
  "resize z bv bits =
     (if z_size z bv = bits then bv
      else if bits < z_size z bv then Extract (bits - 1) 0 bv
      else Concat [BitVecVal 0 (bits - z_size z bv), bv])"

definition byte_of :: "z3_queries \<Rightarrow> bvt \<Rightarrow> nat \<Rightarrow> bvt" where
  "byte_of z bv k =
     (let lo = k * 8 in
      if z_size z bv \<le> lo then BitVecVal 0 8
      else resize z (Extract (min (lo + 8) (z_size z bv) - 1) lo bv) 8)"

definition bits_used :: "z3_queries \<Rightarrow> bvt \<Rightarrow> nat" where
  "bits_used z bv =
     (if z_is_value z bv then max (bit_length (nat (z_as_long z bv))) 1 else z_size z bv)"

definition alu64_width :: "z3_queries \<Rightarrow> int \<Rightarrow> bvt \<Rightarrow> bvt \<Rightarrow> nat" where
  "alu64_width z op dst src =
     (let a = bits_used z dst; b = bits_used z src;
          bits = (if op = BPF_ADD then max a b + 1
                  else if op = BPF_MUL then a + b
                  else if op = BPF_LSH \<and> z_is_value z src then a + nat (z_as_long z src)
                  else if op \<in> {BPF_SUB, BPF_LSH} then 64
                  else max (z_size z dst) (z_size z src))
      in min 64 (max 8 ((bits + 7) div 8 * 8)))"

text \<open>\<open>Concat(*bs) if len(bs) > 1 else bs[0]\<close>.\<close>

definition concat_or_single :: "bvt list \<Rightarrow> bvt res" where
  "concat_or_single bs =
     (case bs of [] \<Rightarrow> Inl IndexError | [b] \<Rightarrow> Inr b | _ \<Rightarrow> Inr (Concat bs))"

text \<open>\<open>-(-x // 8)\<close> above is \<open>(x + 7) div 8\<close>.  A negative offset makes Z3 raise below.\<close>

definition splice_bytes :: "z3_queries \<Rightarrow> bvt \<Rightarrow> int \<Rightarrow> nat \<Rightarrow> bvt \<Rightarrow> bvt res" where
  "splice_bytes z cur off sz value =
     (if off < 0 then Inl Z3Exception
      else
        let width = z_size z cur; lo = nat off * 8 in
        if width \<le> lo then Inr cur
        else
          let hi = min ((nat off + sz) * 8) width;
              v = resize z value (hi - lo);
              parts = (if hi < width then [Extract (width - 1) hi cur] else []) @ [v] @
                      (if 0 < lo then [Extract (lo - 1) 0 cur] else [])
          in concat_or_single parts)"

definition extract_bytes_var :: "z3_queries \<Rightarrow> bvt \<Rightarrow> bvt \<Rightarrow> nat \<Rightarrow> bvt" where
  "extract_bytes_var z cur off sz =
     (let width = z_size z cur;
          shift = BvOp BvMul (resize z off width) (BitVecVal 8 width)
      in resize z (BvOp BvLShr cur shift) (sz * 8))"

definition splice_bytes_var :: "z3_queries \<Rightarrow> bvt \<Rightarrow> bvt \<Rightarrow> nat \<Rightarrow> bvt \<Rightarrow> bvt" where
  "splice_bytes_var z cur off sz value =
     (let width = z_size z cur;
          shift = BvOp BvMul (resize z off width) (BitVecVal 8 width);
          msk = BvOp BvShl (resize z (BitVecVal (pymask (sz * 8)) (sz * 8)) width) shift;
          patched = BvOp BvAnd (BvOp BvShl (resize z value width) shift) msk
      in BvOp BvOr (BvOp BvAnd cur (BvNot msk)) patched)"

text \<open>The byte range \<open>[off, off + sz)\<close> of a map value, zeros beyond its end.\<close>

definition extract_bytes :: "z3_queries \<Rightarrow> bvt \<Rightarrow> int \<Rightarrow> nat \<Rightarrow> bvt res" where
  "extract_bytes z v off sz =
     (if off < 0 then Inl Z3Exception
      else
        let lo = nat off * 8 in
        if z_size z v \<le> lo then Inr (BitVecVal 0 (sz * 8))
        else Inr (resize z (Extract (min (lo + sz * 8) (z_size z v) - 1) lo v) (sz * 8)))"

text \<open>The bytes of an array from \<open>base\<close> on, little-endian.\<close>

definition select_bytes :: "avt \<Rightarrow> bvt \<Rightarrow> nat \<Rightarrow> nat \<Rightarrow> bvt res" where
  "select_bytes arr base aw sz =
     concat_or_single (rev (map (\<lambda>i. Select arr (BvOp BvAdd base (BitVecVal (int i) aw))) [0..<sz]))"

definition store_bytes :: "avt \<Rightarrow> bvt \<Rightarrow> nat \<Rightarrow> bvt \<Rightarrow> nat \<Rightarrow> avt" where
  "store_bytes arr base aw v sz =
     foldl (\<lambda>arr i. Store arr (BvOp BvAdd base (BitVecVal (int i) aw)) (Extract ((i + 1) * 8 - 1) (i * 8) v))
       arr [0..<sz]"

text \<open>The address of an access: the constant offset, plus the variable one if there is one.\<close>

definition address :: "z3_queries \<Rightarrow> nat \<Rightarrow> int \<Rightarrow> bvt option \<Rightarrow> bvt" where
  "address z aw off var =
     (case var of
        None \<Rightarrow> BitVecVal off aw
      | Some v \<Rightarrow> BvOp BvAdd (resize z v aw) (BitVecVal off aw))"

section \<open>Values\<close>

definition enc_opt :: "bvt res option \<Rightarrow> bvt res" where
  "enc_opt r = (case r of None \<Rightarrow> Inl no_encoding | Some x \<Rightarrow> x)"

text \<open>An attribute that is encoded when it is there.\<close>

definition enc_maybe :: "bvt res option \<Rightarrow> bvt option res" where
  "enc_maybe r = (case r of None \<Rightarrow> Inr None | Some x \<Rightarrow> ebind x (\<lambda>t. Inr (Some t)))"

definition map_at :: "z3_state \<Rightarrow> int option \<Rightarrow> (abt \<times> avt) res" where
  "map_at st map_id = (case map_id of None \<Rightarrow> Inl TypeError | Some k \<Rightarrow> py_nth (zs_map st) k)"

text \<open>\<open>_map_key_z3\<close>, given the encoded key.\<close>

definition map_key_z3 :: "z3_queries \<Rightarrow> z3_state \<Rightarrow> int option \<Rightarrow> bvt res \<Rightarrow> bvt res" where
  "map_key_z3 z st map_id key =
     ebind key (\<lambda>k. ebind (map_at st map_id) (\<lambda>m. Inr (resize z k (z_dom z (snd m)))))"

text \<open>
  \<open>contain_map_value.to_z3\<close>, given the encoded key (\<open>None\<close> when the condition has none).
\<close>

definition contain_z3 ::
  "z3_queries \<Rightarrow> z3_state \<Rightarrow> int option \<Rightarrow> bvt res option \<Rightarrow> int option \<Rightarrow> bool \<Rightarrow> bt res" where
  "contain_z3 z st map_id key map_key_id result =
     (case (map_id, key) of
        (Some k, Some kz) \<Rightarrow>
          if k < 0 then Inr (BoolVal result)
          else if is_array_map st map_id \<or> is_prog_map st map_id then
            ebind (map_key_z3 z st map_id kz) (\<lambda>key.
            case map_info_of st map_id of
              None \<Rightarrow> Inl TypeError
            | Some info \<Rightarrow>
                let in_bounds = BvCmp BvUlt key (BitVecVal (m_max_entries info) (z_size z key))
                in Inr (if result then in_bounds else BNot in_bounds))
          else
            ebind (map_key_z3 z st map_id kz) (\<lambda>key.
            ebind (case zs_read_present st of
                     Some f \<Rightarrow> f k key (zs_at_block st) map_key_id
                   | None \<Rightarrow> ebind (map_at st map_id) (\<lambda>m. Inr (SelectB (fst m) key))) (\<lambda>present.
            Inr (BoolEq present result)))
      | _ \<Rightarrow> Inr (BoolVal result))"

definition adjust_ok :: "int \<Rightarrow> string" where
  "adjust_ok idx = ''adjust'' @ show_int idx @ ''_ok''"

definition phi_name :: "int \<Rightarrow> int \<Rightarrow> string" where
  "phi_name blk rg = ''phi'' @ show_int blk @ ''_'' @ show_int rg"

definition shift_amount_z3 :: "z3_queries \<Rightarrow> nat \<Rightarrow> bvt \<Rightarrow> bvt" where
  "shift_amount_z3 z amt_bits e_src =
     (if z_is_value z e_src then BitVecVal (z_as_long z e_src AND pymask amt_bits) amt_bits
      else Extract (amt_bits - 1) 0 (resize z e_src 64))"

definition alu_unary_z3 ::
  "z3_queries \<Rightarrow> int \<Rightarrow> int option \<Rightarrow> int \<Rightarrow> nat \<Rightarrow> bool \<Rightarrow> bvt \<Rightarrow> bvt res" where
  "alu_unary_z3 z op os im sz a64 e_dst =
     (if op = BPF_NEG then Inr (BvNeg (resize z e_dst (if sz = 4 then 32 else 64)))
      else if op = BPF_MOV then
        (let width = (if sz = 4 then 32 else 64 :: nat) in
         if im < 1 \<or> int width < im then Inl Z3Exception
         else Inr (SignExt (width - nat im) (Extract (nat im - 1) 0 (resize z e_dst 64))))
      else if op = BPF_END then
        (let bits = (if im \<in> {16, 32, 64} then nat im else 64);
             low = Extract (bits - 1) 0 (resize z e_dst 64) in
         if a64 \<or> os = Some S_REG
         then Inr (Concat (map (\<lambda>i. Extract (8 * i + 7) (8 * i) low) [0..<bits div 8]))
         else Inr low)
      else Inl (TrackError ''Unknown unary ALU op''))"

definition alu_binary_z3 ::
  "z3_queries \<Rightarrow> int \<Rightarrow> int \<Rightarrow> nat \<Rightarrow> bvt \<Rightarrow> bvt \<Rightarrow> bvt res" where
  "alu_binary_z3 z op ofs sz e_dst0 e_src0 =
     (let sg = (ofs = 1 \<and> op \<in> {BPF_DIV, BPF_MOD});
          e_src1 = (if op \<in> {BPF_LSH, BPF_RSH, BPF_ARSH}
                    then shift_amount_z3 z (if sz = 4 then 5 else 6) e_src0 else e_src0);
          width = (if sz = 4 then 32 else if sg then 64 else alu64_width z op e_dst0 e_src1);
          e_dst = resize z e_dst0 width;
          e_src = resize z e_src1 width
      in
      if op = BPF_ADD then Inr (BvOp BvAdd e_dst e_src)
      else if op = BPF_SUB then Inr (BvOp BvSub e_dst e_src)
      else if op = BPF_MUL then Inr (BvOp BvMul e_dst e_src)
      else if op = BPF_DIV then
        (let quot = (if sg then BvOp BvSDiv e_dst e_src else BvOp BvUDiv e_dst e_src) in
         if z_is_value z e_src
         then Inr (if z_as_long z e_src = 0 then BitVecVal 0 width else quot)
         else Inr (BvIf (BvEq e_src (BitVecVal 0 width)) (BitVecVal 0 width) quot))
      else if op = BPF_OR then Inr (BvOp BvOr e_dst e_src)
      else if op = BPF_AND then Inr (BvOp BvAnd e_dst e_src)
      else if op = BPF_LSH then Inr (BvOp BvShl e_dst e_src)
      else if op = BPF_RSH then Inr (BvOp BvLShr e_dst e_src)
      else if op = BPF_MOD then
        Inr (if sg then BvOp BvSRem e_dst e_src else BvOp BvURem e_dst e_src)
      else if op = BPF_XOR then Inr (BvOp BvXor e_dst e_src)
      else if op = BPF_ARSH then
        Inr (if width = sz * 8 then BvOp BvAShr e_dst e_src else BvOp BvLShr e_dst e_src)
      else Inl (TrackError ''Unknown binary ALU op''))"

text \<open>A 64-bit cell of a byte sequence; a cell that was never written reads as zero.\<close>

definition cell_z3 :: "z3_queries \<Rightarrow> bvt res option \<Rightarrow> bvt res" where
  "cell_z3 z c = (case c of None \<Rightarrow> Inr (BitVecVal 0 64)
                  | Some r \<Rightarrow> ebind r (\<lambda>t. Inr (resize z t 64)))"

definition byte_seq_z3 :: "z3_queries \<Rightarrow> bvt res option list \<Rightarrow> nat \<Rightarrow> nat \<Rightarrow> bvt res" where
  "byte_seq_z3 z cs sz off =
     ebind (emap (cell_z3 z) cs) (\<lambda>cells.
     ebind (concat_or_single (rev cells)) (\<lambda>whole.
     Inr (resize z (if off \<noteq> 0 then BvOp BvLShr whole (BitVecVal (int (off * 8)) (z_size z whole))
                    else whole) (sz * 8))))"

definition map_val_z3 ::
  "z3_queries \<Rightarrow> z3_state \<Rightarrow> int option \<Rightarrow> bvt res \<Rightarrow> int \<Rightarrow> bvt res option \<Rightarrow> nat \<Rightarrow> bvt res" where
  "map_val_z3 z st map_id key off var sz =
     ebind (map_at st map_id) (\<lambda>m.
     ebind (map_key_z3 z st map_id key) (\<lambda>k.
     let v = Select (snd m) k in
     ebind (enc_maybe var) (\<lambda>vo.
     case vo of
       Some t \<Rightarrow> Inr (extract_bytes_var z v (BvOp BvAdd (resize z t (z_size z v)) (BitVecVal off (z_size z v))) sz)
     | None \<Rightarrow> extract_bytes z v off sz)))"

text \<open>A reader that may have an answer of its own, before the default.\<close>

definition reader_or :: "(val \<Rightarrow> bvt option res) option \<Rightarrow> val \<Rightarrow> bvt res \<Rightarrow> bvt res" where
  "reader_or f v r =
     (case f of
        None \<Rightarrow> r
      | Some g \<Rightarrow> ebind (g v) (\<lambda>got. case got of Some t \<Rightarrow> Inr t | None \<Rightarrow> r))"

definition func_retval_z3 ::
  "z3_queries \<Rightarrow> z3_state \<Rightarrow> val \<Rightarrow> nat \<Rightarrow> int \<Rightarrow> int \<Rightarrow> int option \<Rightarrow> bvt res option \<Rightarrow> int option \<Rightarrow>
   int \<Rightarrow> bool \<Rightarrow> bvt res" where
  "func_retval_z3 z st self sz idx fn map_id key map_key_id fallback redirects =
     (if redirects then
        reader_or (zs_read_fret st) self
          (if map_id = None then Inr (BitVecVal fallback (8 * sz))
           else ebind (contain_z3 z st map_id key map_key_id True) (\<lambda>ok.
                Inr (BvIf ok (BitVecVal 4 (8 * sz)) (BitVecVal fallback (8 * sz)))))
      else if fn \<in> {44, 54, 65} then
        Inr (BvIf (Bool (adjust_ok idx)) (BitVecVal 0 (8 * sz)) (BitVecVal (- EINVAL) (8 * sz)))
      else Inr (BitVec (''func'' @ show_int fn @ ''_'' @ show_int idx) (8 * sz)))"

primrec expr_to_z3 :: "z3_queries \<Rightarrow> z3_state \<Rightarrow> val \<Rightarrow> bvt res" where
  "expr_to_z3 z st (Num n sz idx) = Inr (BitVecVal n (sz * 8))"
| "expr_to_z3 z st (Pkt_len sz base) = Inr (zs_pkt_len st)"
| "expr_to_z3 z st (Pkt_val blk idx off vo sz) =
     reader_or (zs_read_pkt st) (Pkt_val blk idx off vo sz)
       (let aw = z_dom z (zs_pkt st) in
        ebind (enc_maybe (map_option (expr_to_z3 z st) vo)) (\<lambda>var.
        select_bytes (zs_pkt st) (address z aw off var) aw sz))"
| "expr_to_z3 z st (Map_val blk idx mid mk mki off vo sz) =
     reader_or (zs_read_map st) (Map_val blk idx mid mk mki off vo sz)
       (map_val_z3 z st mid (enc_opt (map_option (expr_to_z3 z st) mk)) off
          (map_option (expr_to_z3 z st) vo) sz)"
| "expr_to_z3 z st (Bss_val blk idx key off vo sz) =
     reader_or (zs_read_bss st) (Bss_val blk idx key off vo sz)
       (ebind (enc_maybe (map_option (expr_to_z3 z st) vo)) (\<lambda>var.
        select_bytes (bss_of st key) (address z BSS_ADDR_BITS off var) BSS_ADDR_BITS sz))"
| "expr_to_z3 z st (Rodata_val d off vo sz) =
     ebind (enc_maybe (map_option (expr_to_z3 z st) vo)) (\<lambda>var.
     select_bytes (rodata_array d) (address z RODATA_ADDR_BITS off var) RODATA_ADDR_BITS sz)"
| "expr_to_z3 z st (Lookup_hit mid mk mki) =
     ebind (contain_z3 z st mid (map_option (expr_to_z3 z st) mk) mki True) (\<lambda>hit.
     Inr (BvIf hit (BitVecVal 1 8) (BitVecVal 0 8)))"
| "expr_to_z3 z st (Func_retval sz idx fn blk mid mk mki fb rd) =
     func_retval_z3 z st (Func_retval sz idx fn blk mid mk mki fb rd) sz idx fn mid
       (map_option (expr_to_z3 z st) mk) mki fb rd"
| "expr_to_z3 z st Ingress_ifindex = Inr (zs_ingress st)"
| "expr_to_z3 z st Rx_queue_index = Inr (zs_rx_index st)"
| "expr_to_z3 z st Egress_ifindex = Inr (zs_egress st)"
| "expr_to_z3 z st (JoinValue oid blk rg vs es) =
     (case zs_read_phi st of
        Some f \<Rightarrow> f (JoinValue oid blk rg vs es)
      | None \<Rightarrow> Inr (BitVec (phi_name blk rg) 64))"
| "expr_to_z3 z st (ByteSeq cs sz off) =
     byte_seq_z3 z (map (map_option (expr_to_z3 z st)) cs) sz off"
| "expr_to_z3 z st (ALUunary op dst os im sz a64) =
     ebind (enc_opt (map_option (expr_to_z3 z st) dst)) (\<lambda>e_dst.
     alu_unary_z3 z op os im sz a64 e_dst)"
| "expr_to_z3 z st (ALUbinary op dst src ofs sz idx) =
     ebind (enc_opt (map_option (expr_to_z3 z st) dst)) (\<lambda>e_dst.
     ebind (enc_opt (map_option (expr_to_z3 z st) src)) (\<lambda>e_src.
     alu_binary_z3 z op ofs sz e_dst e_src))"
| "expr_to_z3 z st (Scalar sz idx) = Inr (BitVec (''scalar'' @ show_int idx) (8 * sz))"
| "expr_to_z3 z st (Ptr i vo mk np) = Inl no_encoding"

definition expr_opt_z3 :: "z3_queries \<Rightarrow> z3_state \<Rightarrow> val option \<Rightarrow> bvt res" where
  "expr_opt_z3 z st v = enc_opt (map_option (expr_to_z3 z st) v)"

section \<open>Conditions\<close>

text \<open>A Python Boolean or a Z3 Boolean.\<close>

datatype lit = Py bool | Z bt

datatype cond =
    Condition int "val option" "val option" bool
  | Adjust_head_check bool int
  | Contain_map_value "int option" "val option" "int option" bool
  | Tail_call_taken "int option" "val option" "int option" string int "string option"

text \<open>
  The arguments: \<open>Condition code dst src jmp32\<close>; \<open>Adjust_head_check result idx\<close>;
  \<open>Contain_map_value map_id map_key map_key_id result\<close>;
  \<open>Tail_call_taken map_id index slot target idx map_name\<close>.
\<close>

definition pkt_size_check :: "val option \<Rightarrow> val option \<Rightarrow> bool" where
  "pkt_size_check dst src =
     (case (dst, src) of
        (Some (Ptr i _ _ _), Some (Ptr j _ _ _)) \<Rightarrow>
          {q_type i, q_type j} = {PTR_TO_PKT, PTR_TO_PKT_END} \<and> q_base_id i = q_base_id j
      | _ \<Rightarrow> False)"

definition ptr_is_null :: "ptr_info \<Rightarrow> bool option" where
  "ptr_is_null i = (if q_type i = PTR_TO_PKT then Some False else q_checked_null i)"

text \<open>The comparison of a pointer with the constant 0 that is decided without the solver.\<close>

definition null_test :: "int \<Rightarrow> val option \<Rightarrow> val option \<Rightarrow> bool option" where
  "null_test code dst src =
     (if code \<in> {BPF_JEQ, BPF_JNE} then
        (case (case (dst, src) of
                 (Some (Ptr i _ _ _), other) \<Rightarrow> Some (i, other)
               | (other, Some (Ptr i _ _ _)) \<Rightarrow> Some (i, other)
               | _ \<Rightarrow> None) of
           Some (i, other) \<Rightarrow>
             if Option.bind other num_of = Some 0
             then map_option (\<lambda>b. if code = BPF_JEQ then b else \<not> b) (ptr_is_null i)
             else None
         | None \<Rightarrow> None)
      else None)"

definition zero_pad :: "z3_queries \<Rightarrow> bvt \<Rightarrow> nat \<Rightarrow> bvt" where
  "zero_pad z t width =
     (if z_size z t < width then Concat [BitVecVal 0 (width - z_size z t), t] else t)"

definition compare_z3 :: "z3_queries \<Rightarrow> int \<Rightarrow> bool \<Rightarrow> bvt \<Rightarrow> bvt \<Rightarrow> bt res" where
  "compare_z3 z code jmp32 dst0 src0 =
     (let dst1 = (if jmp32 then resize z dst0 32 else dst0);
          src1 = (if jmp32 then resize z src0 32 else src0);
          w0 = (if jmp32 then 32 else max (z_size z dst1) (z_size z src1));
          width = (if \<not> jmp32 \<and> code \<in> {BPF_JSGT, BPF_JSGE, BPF_JSLT, BPF_JSLE} then max w0 64 else w0);
          src = zero_pad z src1 width;
          dst = zero_pad z dst1 width
      in
      if code = BPF_JEQ then Inr (BvEq dst src)
      else if code = BPF_JNE then Inr (BvNe dst src)
      else if code = BPF_JGT then Inr (BvCmp BvUgt dst src)
      else if code = BPF_JGE then Inr (BvCmp BvUge dst src)
      else if code = BPF_JLT then Inr (BvCmp BvUlt dst src)
      else if code = BPF_JLE then Inr (BvCmp BvUle dst src)
      else if code = BPF_JSGT then Inr (BvCmp BvSgt dst src)
      else if code = BPF_JSGE then Inr (BvCmp BvSge dst src)
      else if code = BPF_JSLT then Inr (BvCmp BvSlt dst src)
      else if code = BPF_JSLE then Inr (BvCmp BvSle dst src)
      else if code = BPF_JSET
      then Inr (BvNe (BvOp BvAnd dst src) (BitVecVal 0 (z_size z (BvOp BvAnd dst src))))
      else Inl (TrackError ''Unknown branch code''))"

definition tail_ok :: "int \<Rightarrow> string" where
  "tail_ok idx = ''tail'' @ show_int idx @ ''_ok''"

fun cond_to_z3 :: "z3_queries \<Rightarrow> z3_state \<Rightarrow> cond \<Rightarrow> lit res" where
  "cond_to_z3 z st (Condition code dst src jmp32) =
     (case null_test code dst src of
        Some b \<Rightarrow> Inr (Z (BoolVal b))
      | None \<Rightarrow>
          ebind (expr_opt_z3 z st src) (\<lambda>s.
          ebind (expr_opt_z3 z st dst) (\<lambda>d.
          ebind (compare_z3 z code jmp32 d s) (\<lambda>b. Inr (Z b)))))"
| "cond_to_z3 z st (Adjust_head_check result idx) =
     (if idx < 0 then Inr (Py result)
      else Inr (Z (if result then Bool (adjust_ok idx) else BNot (Bool (adjust_ok idx)))))"
| "cond_to_z3 z st (Contain_map_value map_id map_key map_key_id result) =
     ebind (contain_z3 z st map_id (map_option (expr_to_z3 z st) map_key) map_key_id result) (\<lambda>b.
     Inr (Z b))"
| "cond_to_z3 z st (Tail_call_taken map_id index slot target idx map_name) =
     (case (slot, index) of
        (Some s, Some i) \<Rightarrow>
          ebind (expr_to_z3 z st i) (\<lambda>key. Inr (Z (BvEq key (BitVecVal s (z_size z key)))))
      | _ \<Rightarrow> Inr (Z (Bool (tail_ok idx))))"

definition and_lit :: "lit \<Rightarrow> lit \<Rightarrow> lit" where
  "and_lit a b =
     (case (a, b) of
        (Py True, _) \<Rightarrow> b
      | (_, Py True) \<Rightarrow> a
      | (Py False, _) \<Rightarrow> Py False
      | (_, Py False) \<Rightarrow> Py False
      | (Z x, Z y) \<Rightarrow> Z (BAnd x y))"

definition not_lit :: "lit \<Rightarrow> lit" where
  "not_lit a = (case a of Py b \<Rightarrow> Py (\<not> b) | Z x \<Rightarrow> Z (BNot x))"

definition lit_term :: "lit \<Rightarrow> bt" where
  "lit_term a = (case a of Py b \<Rightarrow> BoolVal b | Z x \<Rightarrow> x)"

definition or_all :: "lit list \<Rightarrow> lit" where
  "or_all terms =
     (let ts = filter (\<lambda>t. t \<noteq> Py False) terms in
      if ts = [] then Py False
      else if Py True \<in> set ts then Py True
      else (case ts of [t] \<Rightarrow> t | _ \<Rightarrow> Z (BOr (map lit_term ts))))"

section \<open>Actions\<close>

datatype action_kind =
    Return "val option"
  | PktWrite int int "val option" nat "val option"
  | MapWrite "int option" "val option" int nat "val option" "val option"
  | MapAtomicAdd "int option" "val option" int nat "val option" "val option" "val option"
  | MapLookup "int option" "val option" "int option"
  | MapUpdate "int option" "val option" "val option" "int option" nat
  | MapDelete "int option" "val option"
  | BssWrite "string option" int nat "val option" "val option"
  | BssAtomicAdd "string option" int nat "val option" "val option" "val option"
  | AdjustHead int val
  | AdjustTail int val
  | AdjustMeta int val
  | XdpBuffLen val
  | CtxWrite "val option"
  | TailCall "int option" "val option" "int option" string "string option"
  | Perf_event_output

text \<open>
  The arguments: \<open>PktWrite id off var_off size value\<close>;
  \<open>MapWrite map_id map_key off size value var_off\<close>;
  \<open>MapAtomicAdd map_id map_key off size value var_off old\<close>;
  \<open>MapLookup map_id map_key map_key_id\<close>; \<open>MapUpdate map_id map_key value flags size\<close>;
  \<open>BssWrite bss_key off size value var_off\<close>; \<open>BssAtomicAdd bss_key off size value var_off old\<close>;
  \<open>AdjustHead delta retval\<close>; \<open>TailCall map_id index slot target map_name\<close>.  \<open>emit\<close> stamps an
  action with its block and instruction.
\<close>

record action =
  a_block :: int
  a_idx :: int
  a_kind :: action_kind

definition update_applies :: "int \<Rightarrow> int option \<Rightarrow> bt \<Rightarrow> lit" where
  "update_applies idx flags present =
     (case flags of
        None \<Rightarrow> Z (Bool (''update'' @ show_int idx @ ''_applies''))
      | Some f \<Rightarrow>
          let mode = f AND 3 in
          if mode = 0 then Py True
          else if mode = 1 then not_lit (Z present)
          else if mode = 2 then Z present
          else Py False)"

text \<open>\<open>new_map[map_id][i] = ...\<close> of an existing map.\<close>

definition upd_map :: "z3_state \<Rightarrow> int option \<Rightarrow> (abt \<times> avt \<Rightarrow> abt \<times> avt) \<Rightarrow> z3_state res" where
  "upd_map st map_id f =
     (case map_id of
        None \<Rightarrow> Inl TypeError
      | Some k \<Rightarrow>
          (case py_index (zs_map st) k of
             None \<Rightarrow> Inl IndexError
           | Some i \<Rightarrow> Inr (st\<lparr>zs_map := (zs_map st)[i := f (zs_map st ! i)]\<rparr>)))"

definition map_store :: "z3_state \<Rightarrow> int option \<Rightarrow> bvt \<Rightarrow> bvt \<Rightarrow> bool \<Rightarrow> z3_state res" where
  "map_store st map_id key new_val mark_present =
     upd_map st map_id (\<lambda>(pres, vals).
       (if mark_present \<and> is_hash_map st map_id then StoreB pres key (BoolVal True) else pres,
        Store vals key new_val))"

definition no_map :: "int option \<Rightarrow> bool" where
  "no_map map_id = (case map_id of None \<Rightarrow> True | Some k \<Rightarrow> k < 0)"

definition map_update_z3 ::
  "z3_queries \<Rightarrow> z3_state \<Rightarrow> int \<Rightarrow> int option \<Rightarrow> val option \<Rightarrow> val option \<Rightarrow> int option \<Rightarrow> z3_state res" where
  "map_update_z3 z st idx map_id map_key value flags =
     ebind (map_key_z3 z st map_id (expr_opt_z3 z st map_key)) (\<lambda>key.
     ebind (expr_opt_z3 z st value) (\<lambda>v.
     ebind (map_at st map_id) (\<lambda>m.
     let v' = resize z v (z_rng z (snd m));
         present = (case map_info_of st map_id of
             Some info \<Rightarrow>
               if is_array_map st map_id \<or> is_prog_map st map_id
               then BvCmp BvUlt key (BitVecVal (m_max_entries info) (z_size z key))
               else SelectB (fst m) key
           | None \<Rightarrow> SelectB (fst m) key)
     in case update_applies idx flags present of
          Py False \<Rightarrow> Inr st
        | Py True \<Rightarrow> map_store st map_id key v' True
        | Z ok \<Rightarrow>
            upd_map st map_id (\<lambda>(pres, vals).
              (if is_hash_map st map_id then StoreB pres key (BOr [ok, present]) else pres,
               Store vals key (BvIf ok v' (Select vals key)))))))"

definition map_write_z3 ::
  "z3_queries \<Rightarrow> z3_state \<Rightarrow> int option \<Rightarrow> val option \<Rightarrow> int \<Rightarrow> nat \<Rightarrow> val option \<Rightarrow> val option \<Rightarrow> z3_state res" where
  "map_write_z3 z st map_id map_key off sz value var_off =
     ebind (map_key_z3 z st map_id (expr_opt_z3 z st map_key)) (\<lambda>key.
     ebind (map_at st map_id) (\<lambda>m.
     let cur = Select (snd m) key in
     ebind (expr_opt_z3 z st value) (\<lambda>v.
     ebind (case var_off of
              Some vo \<Rightarrow> ebind (expr_to_z3 z st vo) (\<lambda>t.
                Inr (splice_bytes_var z cur
                       (BvOp BvAdd (resize z t (z_size z cur)) (BitVecVal off (z_size z cur))) sz v))
            | None \<Rightarrow> splice_bytes z cur off sz v) (\<lambda>new_val.
     map_store st map_id key new_val False))))"

definition map_atomic_add_z3 ::
  "z3_queries \<Rightarrow> z3_state \<Rightarrow> int option \<Rightarrow> val option \<Rightarrow> int \<Rightarrow> nat \<Rightarrow> val option \<Rightarrow> val option \<Rightarrow> z3_state res" where
  "map_atomic_add_z3 z st map_id map_key off sz value var_off =
     ebind (map_key_z3 z st map_id (expr_opt_z3 z st map_key)) (\<lambda>key.
     ebind (map_at st map_id) (\<lambda>m.
     let cur = Select (snd m) key; w = z_size z cur in
     ebind (case var_off of
              Some vo \<Rightarrow> ebind (expr_to_z3 z st vo) (\<lambda>t.
                let base = BvOp BvAdd (resize z t w) (BitVecVal off w);
                    field = extract_bytes_var z cur base sz in
                ebind (expr_opt_z3 z st value) (\<lambda>v.
                Inr (splice_bytes_var z cur base sz (BvOp BvAdd field (resize z v (z_size z field))))))
            | None \<Rightarrow>
                let lo = nat off * 8; hi = min ((nat off + sz) * 8) w;
                    field = Extract (hi - 1) lo cur in
                if off < 0 \<or> hi \<le> lo then Inl Z3Exception
                else ebind (expr_opt_z3 z st value) (\<lambda>v.
                     splice_bytes z cur off sz (BvOp BvAdd field (resize z v (z_size z field)))))
       (\<lambda>new_val. map_store st map_id key new_val False)))"

definition bss_write_z3 ::
  "z3_queries \<Rightarrow> z3_state \<Rightarrow> string \<Rightarrow> int \<Rightarrow> nat \<Rightarrow> val option \<Rightarrow> val option \<Rightarrow> z3_state res" where
  "bss_write_z3 z st key off sz value var_off =
     ebind (enc_maybe (map_option (expr_to_z3 z st) var_off)) (\<lambda>var.
     ebind (expr_opt_z3 z st value) (\<lambda>v.
     let arr = store_bytes (bss_of st (Some key)) (address z BSS_ADDR_BITS off var) BSS_ADDR_BITS
                 (resize z v (max sz 1 * 8)) (max sz 1)
     in Inr (st\<lparr>zs_bss := dict_set key arr (zs_bss st)\<rparr>)))"

definition adjust_len_z3 :: "z3_state \<Rightarrow> z3_queries \<Rightarrow> int \<Rightarrow> int \<Rightarrow> z3_state" where
  "adjust_len_z3 st z idx len_delta =
     (let shifted = BvOp BvSub (zs_pkt_len st) (BitVecVal len_delta (z_size z (zs_pkt_len st))) in
      st\<lparr>zs_pkt_len := (if idx < 0 then shifted
                        else BvIf (Bool (adjust_ok idx)) shifted (zs_pkt_len st))\<rparr>)"

fun action_to_z3 :: "z3_queries \<Rightarrow> z3_state \<Rightarrow> int \<Rightarrow> action_kind \<Rightarrow> z3_state res" where
  "action_to_z3 z st idx (Return rc) =
     ebind (expr_opt_z3 z st rc) (\<lambda>t. Inr (st\<lparr>zs_r0 := zero_pad z t 64\<rparr>))"
| "action_to_z3 z st idx (PktWrite pid off var_off sz value) =
     (let aw = z_dom z (zs_pkt st) in
      ebind (enc_maybe (map_option (expr_to_z3 z st) var_off)) (\<lambda>var.
      ebind (expr_opt_z3 z st value) (\<lambda>v.
      Inr (st\<lparr>zs_pkt := store_bytes (zs_pkt st) (address z aw off var) aw (resize z v (sz * 8)) sz\<rparr>))))"
| "action_to_z3 z st idx (MapWrite map_id map_key off sz value var_off) =
     (if no_map map_id then Inr st else map_write_z3 z st map_id map_key off sz value var_off)"
| "action_to_z3 z st idx (MapAtomicAdd map_id map_key off sz value var_off old) =
     (if no_map map_id then Inr st else map_atomic_add_z3 z st map_id map_key off sz value var_off)"
| "action_to_z3 z st idx (MapLookup map_id map_key map_key_id) = Inr st"
| "action_to_z3 z st idx (MapUpdate map_id map_key value flags sz) =
     (if no_map map_id then Inr st else map_update_z3 z st idx map_id map_key value flags)"
| "action_to_z3 z st idx (MapDelete map_id map_key) =
     (if no_map map_id \<or> \<not> is_hash_map st map_id then Inr st
      else ebind (map_key_z3 z st map_id (expr_opt_z3 z st map_key)) (\<lambda>key.
           upd_map st map_id (\<lambda>(pres, vals). (StoreB pres key (BoolVal False), vals))))"
| "action_to_z3 z st idx (BssWrite bss_key off sz value var_off) =
     (case bss_key of None \<Rightarrow> Inr st | Some key \<Rightarrow> bss_write_z3 z st key off sz value var_off)"
| "action_to_z3 z st idx (BssAtomicAdd bss_key off sz value var_off old) =
     (case bss_key of
        None \<Rightarrow> Inr st
      | Some key \<Rightarrow>
          bss_write_z3 z st key off sz
            (Some (ALUbinary BPF_ADD
                     (Some (Bss_val (-1) (-1) (Some key) off var_off (max sz 1))) value 0 (max sz 1) (-1)))
            var_off)"
| "action_to_z3 z st idx (AdjustHead delta retval) = Inr (adjust_len_z3 st z idx delta)"
| "action_to_z3 z st idx (AdjustTail delta retval) = Inr (adjust_len_z3 st z idx (- delta))"
| "action_to_z3 z st idx (AdjustMeta delta retval) = Inr st"
| "action_to_z3 z st idx (XdpBuffLen retval) = Inr st"
| "action_to_z3 z st idx (CtxWrite value) =
     ebind (expr_opt_z3 z st value) (\<lambda>t. Inr (st\<lparr>zs_rx_index := zero_pad z t 64\<rparr>))"
| "action_to_z3 z st idx (TailCall map_id index slot target map_name) = Inr st"
| "action_to_z3 z st idx Perf_event_output = Inr st"

text \<open>\<open>_make_init_state\<close>, with its defaults.\<close>

definition make_init_state :: "map_info list \<Rightarrow> map_info list \<Rightarrow> z3_state" where
  "make_init_state maps map_meta =
     \<lparr>zs_pkt = Array ''pkt0'' PKT_ADDR_BITS 8,
      zs_map = map (\<lambda>m. let kw = nat (max (m_key_size m) 1 * 8); vw = nat (max (m_value_size m) 1 * 8)
                        in (ArrayB (''present'' @ show_int (m_id m)) kw,
                            Array (''value'' @ show_int (m_id m)) kw vw)) maps,
      zs_r0 = BitVec ''r0'' 64, zs_rx_index = BitVec ''rx_queue_index0'' 64,
      zs_ingress = BitVec ''ingress_ifindex'' 64, zs_egress = BitVec ''egress_ifindex'' 64,
      zs_pkt_len = BitVec ''pkt_len'' 64, zs_bss = [], zs_map_meta = map_meta,
      zs_read_pkt = None, zs_read_map = None, zs_read_bss = None, zs_read_fret = None,
      zs_read_phi = None, zs_read_present = None, zs_read_loc = None, zs_at_block = None\<rparr>"

end
