(* ===== verification/Encode_Alu.thy ===== *)
theory Encode_Alu
  imports Encode
begin

text \<open>
  The translation of arithmetic and comparisons is exact.  \<open>alu_sem\<close> is the instruction on the
  integer values of its operands; it is shown equal to \<open>alu_isa\<close> on words, and the term built by
  \<open>alu_binary_z3\<close>, which works at a width chosen from the operands (\<open>alu64_width\<close>), is shown to
  evaluate to it.
\<close>

section \<open>The instruction on values\<close>

definition alu_sem :: "int \<Rightarrow> bool \<Rightarrow> nat \<Rightarrow> int \<Rightarrow> int \<Rightarrow> int" where
  "alu_sem op sg w a b =
     (if op = BPF_ADD then take_bit w (a + b)
      else if op = BPF_SUB then take_bit w (a - b)
      else if op = BPF_MUL then take_bit w (a * b)
      else if op = BPF_DIV then
        (if b = 0 then 0 else if sg then take_bit w (bv_signed w a sdiv bv_signed w b) else a div b)
      else if op = BPF_OR then a OR b
      else if op = BPF_AND then a AND b
      else if op = BPF_LSH then take_bit w (push_bit (nat (b mod int w)) a)
      else if op = BPF_RSH then drop_bit (nat (b mod int w)) a
      else if op = BPF_MOD then
        (if b = 0 then a else if sg then take_bit w (bv_signed w a smod bv_signed w b) else a mod b)
      else if op = BPF_XOR then a XOR b
      else if op = BPF_ARSH then take_bit w (drop_bit (nat (b mod int w)) (bv_signed w a))
      else 0)"

definition alu_binary_codes :: "int set" where
  "alu_binary_codes = alu_codes - {BPF_NEG}"

lemma sint_of_int: "sint (word_of_int a :: 'a::len word) = bv_signed LENGTH('a) a"
  by (simp add: bv_signed_def sint_sbintrunc')

lemma bv_signed_uint: "bv_signed LENGTH('a) (uint (x :: 'a::len word)) = sint x"
  using sint_of_int [of "uint x", where 'a = 'a] by simp

lemma alu_sem_isa:
  fixes x y :: "'a::len word"
  assumes "op \<in> alu_binary_codes"
  shows "uint (alu_isa op sg x y) = alu_sem op sg LENGTH('a) (uint x) (uint y)"
proof -
  have amt: "unat y mod LENGTH('a) = nat (uint y mod int LENGTH('a))"
    using nat_mod_distrib [of "uint y" "int LENGTH('a)"] by (simp only: unat_eq_nat_uint nat_int uint_ge_0 of_nat_0_le_iff)
  have sh: "uint (push_bit n x) = take_bit LENGTH('a) (push_bit n (uint x))"
    "uint (drop_bit n x) = drop_bit n (uint x)"
    "uint (signed_drop_bit n x) = take_bit LENGTH('a) (drop_bit n (sint x))" for n
    by (rule bit_eqI, auto simp: bit_simps dest: bit_imp_le_length)+
  have ar: "uint (x + y) = take_bit LENGTH('a) (uint x + uint y)"
    "uint (x - y) = take_bit LENGTH('a) (uint x - uint y)"
    "uint (x * y) = take_bit LENGTH('a) (uint x * uint y)"
    by (simp_all add: uint_word_arith_bintrs)
  have dv: "uint (x div y) = uint x div uint y" "uint (x mod y) = uint x mod uint y"
    by (simp_all add: uint_div uint_mod)
  have sd: "uint (word_sdiv x y) = (if uint y = 0 then 0 else take_bit LENGTH('a) (sint x sdiv sint y))"
    "uint (word_smod x y) = (if uint y = 0 then uint x else take_bit LENGTH('a) (sint x smod sint y))"
    by (cases "y = 0"; simp add: word_sdiv_def word_smod_def uint_word_of_int_eq uint_0_iff;
        simp add: signed_divide_int_def)+
  have bw: "uint (x OR y) = uint x OR uint y" "uint (x AND y) = uint x AND uint y"
    "uint (x XOR y) = uint x XOR uint y"
    by (rule bit_eqI, auto simp: bit_simps)+
  from assms consider "op = BPF_ADD" | "op = BPF_SUB" | "op = BPF_MUL" | "op = BPF_DIV" | "op = BPF_OR"
    | "op = BPF_AND" | "op = BPF_LSH" | "op = BPF_RSH" | "op = BPF_MOD" | "op = BPF_XOR" | "op = BPF_ARSH"
    by (auto simp: alu_binary_codes_def alu_codes_def)
  then show ?thesis
    by cases (simp_all add: alu_isa_def alu_sem_def amt sh ar dv sd bw bv_signed_uint)
qed

section \<open>Widths\<close>

context smtlib begin

lemma size_resize [simp]: "0 < n \<Longrightarrow> z_size z (resize z t n) = n"
  by (simp add: resize_def size_simps)

lemma ev_resize: "0 < n \<Longrightarrow> ev m (resize z t n) = take_bit n (ev m t)"
  by (simp add: resize_def size_simps ev_Extract ev_Concat2 ev_BitVecVal ev_take_bit)

lemma ev_zero_pad: "ev m (zero_pad z t w) = ev m t"
  by (simp add: zero_pad_def ev_Concat2 ev_BitVecVal)

lemma size_zero_pad: "z_size z (zero_pad z t w) = max w (z_size z t)"
  by (simp add: zero_pad_def size_simps)

lemma ev_bits_used: "ev m t < 2 ^ bits_used z t"
proof (cases "z_is_value z t")
  case True
  let ?n = "nat (z_as_long z t)"
  have e: "ev m t = int ?n" using as_long [OF True, of m] ev_nonneg [of m t] by simp
  have "?n < 2 ^ bit_length ?n" by (rule bit_length_bound)
  also have "\<dots> \<le> 2 ^ max (bit_length ?n) 1" by (rule power_increasing) simp_all
  finally show ?thesis unfolding e bits_used_def using True by (simp flip: of_nat_less_iff)
qed (simp add: bits_used_def ev_less)

lemma round_up: "n \<le> (n + 7) div 8 * (8::nat)"
proof -
  have aux: "n + 7 = q + r \<Longrightarrow> r < 8 \<Longrightarrow> n \<le> q" for q r :: nat by simp
  show ?thesis by (rule aux [OF div_mult_mod_eq [symmetric]]) simp
qed

lemma alu64_width_bounds: "8 \<le> alu64_width z op d s" "alu64_width z op d s \<le> 64"
proof -
  have clamp: "8 \<le> min 64 (max 8 n)" "min 64 (max 8 n) \<le> 64" for n :: nat by simp_all
  show "8 \<le> alu64_width z op d s" "alu64_width z op d s \<le> 64"
    unfolding alu64_width_def Let_def by (rule clamp)+
qed

lemma round_width: "min 64 n \<le> min 64 (max 8 ((n + 7) div 8 * (8::nat)))"
  by (rule min.mono [OF order_refl max.coboundedI2 [OF round_up]])

lemma alu64_width_add:
  "op = BPF_ADD \<Longrightarrow> min 64 (max (bits_used z d) (bits_used z s) + 1) \<le> alu64_width z op d s"
  and alu64_width_mul: "op = BPF_MUL \<Longrightarrow> min 64 (bits_used z d + bits_used z s) \<le> alu64_width z op d s"
  and alu64_width_lsh: "op = BPF_LSH \<Longrightarrow> z_is_value z s \<Longrightarrow>
     min 64 (bits_used z d + nat (z_as_long z s)) \<le> alu64_width z op d s"
  and alu64_width_full: "op = BPF_SUB \<or> op = BPF_LSH \<and> \<not> z_is_value z s \<Longrightarrow> alu64_width z op d s = 64"
  and alu64_width_other: "op \<notin> {BPF_ADD, BPF_MUL, BPF_LSH, BPF_SUB} \<Longrightarrow>
     min 64 (max (z_size z d) (z_size z s)) \<le> alu64_width z op d s"
proof -
  show "op = BPF_ADD \<Longrightarrow> min 64 (max (bits_used z d) (bits_used z s) + 1) \<le> alu64_width z op d s"
    using round_width [of "max (bits_used z d) (bits_used z s) + 1"]
    by (simp only: alu64_width_def Let_def if_True refl)
  show "op = BPF_MUL \<Longrightarrow> min 64 (bits_used z d + bits_used z s) \<le> alu64_width z op d s"
    using round_width [of "bits_used z d + bits_used z s"] unfolding alu64_width_def Let_def by simp
  show "op = BPF_LSH \<Longrightarrow> z_is_value z s \<Longrightarrow>
     min 64 (bits_used z d + nat (z_as_long z s)) \<le> alu64_width z op d s"
    using round_width [of "bits_used z d + nat (z_as_long z s)"] unfolding alu64_width_def Let_def by simp
  show "op = BPF_SUB \<or> op = BPF_LSH \<and> \<not> z_is_value z s \<Longrightarrow> alu64_width z op d s = 64"
    unfolding alu64_width_def Let_def by (elim disjE conjE) simp_all
  show "op \<notin> {BPF_ADD, BPF_MUL, BPF_LSH, BPF_SUB} \<Longrightarrow>
     min 64 (max (z_size z d) (z_size z s)) \<le> alu64_width z op d s"
    using round_width [of "max (z_size z d) (z_size z s)"] unfolding alu64_width_def Let_def by simp
qed

lemma ev_less_pow: "z_size z t \<le> n \<Longrightarrow> ev m t < 2 ^ n"
  by (rule order_less_le_trans [OF ev_less power_increasing]) simp_all

lemma ev_less_bits: "bits_used z t \<le> n \<Longrightarrow> ev m t < 2 ^ n"
  by (rule order_less_le_trans [OF ev_bits_used power_increasing]) simp_all

lemma fits_ev: "ev m t < 2 ^ n \<Longrightarrow> fits n (ev m t)"
  by (simp add: fits_iff ev_nonneg)

text \<open>The width chosen for an operation holds both operands.\<close>

lemma alu64_width_holds:
  assumes "z_size z d \<le> 64" and "z_size z s \<le> 64"
    and "op = BPF_LSH \<Longrightarrow> z_size z s = 6"
  shows "fits (alu64_width z op d s) (ev m d)" and "fits (alu64_width z op d s) (ev m s)"
proof -
  let ?w = "alu64_width z op d s"
  have big: "?w = 64 \<Longrightarrow> ev m d < 2 ^ ?w \<and> ev m s < 2 ^ ?w"
    using ev_less_pow [OF assms(1), of m] ev_less_pow [OF assms(2), of m] by simp
  have bounds: "8 \<le> ?w" "?w \<le> 64" by (rule alu64_width_bounds)+
  have "ev m d < 2 ^ ?w \<and> ev m s < 2 ^ ?w"
  proof (cases "?w = 64")
    case False
    consider "op = BPF_ADD" | "op = BPF_MUL" | "op = BPF_LSH" "z_is_value z s"
      | "op = BPF_SUB \<or> op = BPF_LSH \<and> \<not> z_is_value z s"
      | "op \<notin> {BPF_ADD, BPF_MUL, BPF_LSH, BPF_SUB}" by blast
    then show ?thesis
    proof cases
      case 1
      then show ?thesis using alu64_width_add [OF 1, of d s] False bounds
        by (intro conjI ev_less_bits) simp_all
    next
      case 2
      then show ?thesis using alu64_width_mul [OF 2, of d s] False bounds
        by (intro conjI ev_less_bits) simp_all
    next
      case 3
      then show ?thesis using alu64_width_lsh [OF 3, of d] False bounds assms(3)
        by (intro conjI ev_less_bits ev_less_pow) simp_all
    next
      case 4
      then show ?thesis using alu64_width_full False by blast
    next
      case 5
      then show ?thesis using alu64_width_other [OF 5, of d s] False bounds
        by (intro conjI ev_less_pow) simp_all
    qed
  qed (rule big)
  then show "fits ?w (ev m d)" and "fits ?w (ev m s)" by (simp_all add: fits_ev)
qed

lemma size_shift_amount: "0 < n \<Longrightarrow> z_size z (shift_amount_z3 z n t) = n"
  by (simp add: shift_amount_z3_def size_simps)

lemma ev_shift_amount:
  assumes "0 < n" and "n \<le> 64" and "z_size z t \<le> 64"
  shows "ev m (shift_amount_z3 z n t) = take_bit n (ev m t)"
  using assms as_long [of t m]
  by (auto simp: shift_amount_z3_def ev_BitVecVal and_pymask_take_bit ev_Extract ev_resize ev_take_bit
      min_def)

end

section \<open>The binary operations\<close>

lemma fits_both: "fits w x \<Longrightarrow> w \<le> n \<Longrightarrow> take_bit w x = take_bit n x"
  using fits_mono [of w x n] by simp

lemma take_bit_6: "take_bit 6 b = b mod (64::int)" "take_bit 5 b = b mod (32::int)"
  by (simp_all add: take_bit_eq_mod)

lemma fits_drop: "fits w a \<Longrightarrow> fits w (drop_bit n a)"
  using zdiv_mono2 [of a 1 "2 ^ n"] by (simp add: fits_iff drop_bit_eq_div pos_imp_zdiv_nonneg_iff)

lemma bv_signed_small:
  assumes "fits w a" and "w < n"
  shows "bv_signed n a = a"
proof -
  have "a < 2 ^ w" "0 \<le> a" using assms(1) by (simp_all add: fits_iff)
  moreover have "(2::int) ^ w \<le> 2 ^ (n - 1)" using assms(2) by (intro power_increasing) simp_all
  moreover have "- (2 ^ (n - 1)) \<le> (0::int)" by simp
  ultimately show ?thesis unfolding bv_signed_def by (intro signed_take_bit_int_eq_self) linarith+
qed

text \<open>
  An operation at a width that holds its operands (and the result, where it can grow) has the
  value of the 64-bit operation.
\<close>

lemma bv_sem_widen:
  assumes w: "0 < w" "w \<le> 64" and a: "fits w a" and b: "fits w b"
  shows "w = 64 \<or> a + b < 2 ^ w \<Longrightarrow> bv_sem BvAdd w a b = bv_sem BvAdd 64 a b"
    and "w = 64 \<or> a * b < 2 ^ w \<Longrightarrow> bv_sem BvMul w a b = bv_sem BvMul 64 a b"
    and "w = 64 \<or> a * 2 ^ nat b < 2 ^ w \<Longrightarrow> bv_sem BvShl w a b = bv_sem BvShl 64 a b"
    and "b \<noteq> 0 \<Longrightarrow> bv_sem BvUDiv w a b = a div b"
    and "b \<noteq> 0 \<Longrightarrow> bv_sem BvURem w a b = a mod b"
    and "bv_sem (if w = 64 then BvAShr else BvLShr) w a b = take_bit 64 (drop_bit (nat b) (bv_signed 64 a))"
proof -
  have nn: "0 \<le> a" "0 \<le> b" "a < 2 ^ w" "b < 2 ^ w" using a b by (simp_all add: fits_iff)
  have grow: "take_bit w x = take_bit 64 x" if "w = 64 \<or> x < 2 ^ w" "0 \<le> x" for x :: int
    using that w(2) fits_both [of w x 64] by (auto simp: fits_iff)
  show "w = 64 \<or> a + b < 2 ^ w \<Longrightarrow> bv_sem BvAdd w a b = bv_sem BvAdd 64 a b"
    using grow [of "a + b"] nn by simp
  show "w = 64 \<or> a * b < 2 ^ w \<Longrightarrow> bv_sem BvMul w a b = bv_sem BvMul 64 a b"
    using grow [of "a * b"] nn by simp
  show "w = 64 \<or> a * 2 ^ nat b < 2 ^ w \<Longrightarrow> bv_sem BvShl w a b = bv_sem BvShl 64 a b"
    using grow [of "a * 2 ^ nat b"] nn by (simp add: push_bit_eq_mult)
  have "a div b \<le> a" using nn zdiv_mono2 [of a 1 b] by (cases "b = 0") simp_all
  then have "a div b < 2 ^ w" using nn by linarith
  then show "b \<noteq> 0 \<Longrightarrow> bv_sem BvUDiv w a b = a div b"
    using nn by (simp add: take_bit_int_eq_self pos_imp_zdiv_nonneg_iff)
  have "b \<noteq> 0 \<Longrightarrow> a mod b < 2 ^ w" using nn pos_mod_bound [of b a] by linarith
  then show "b \<noteq> 0 \<Longrightarrow> bv_sem BvURem w a b = a mod b"
    using nn by (simp add: take_bit_int_eq_self)
  show "bv_sem (if w = 64 then BvAShr else BvLShr) w a b = take_bit 64 (drop_bit (nat b) (bv_signed 64 a))"
  proof (cases "w = 64")
    case False
    with w have "w < 64" by simp
    then have "fits 64 (drop_bit (nat b) a)" by (intro fits_mono [OF fits_drop [OF a]]) simp
    with bv_signed_small [OF a \<open>w < 64\<close>] False show ?thesis by simp
  qed simp
qed

context smtlib begin

lemma ev_BvOp_resize:
  assumes "0 < w"
  shows "ev m (BvOp f (resize z d w) (resize z s w)) = bv_sem f w (take_bit w (ev m d)) (take_bit w (ev m s))"
  using assms by (simp add: ev_BvOp ev_resize)

lemma ev_udiv_guard:
  assumes w: "0 < w" and e: "z_size z e_src = w" and q: "z_size z quot = w"
    and v: "ev m e_src \<noteq> 0 \<Longrightarrow> ev m quot = r"
  shows "z_is_value z e_src \<Longrightarrow>
      ev m (if z_as_long z e_src = 0 then BitVecVal 0 w else quot) = (if ev m e_src = 0 then 0 else r)"
    and "ev m (BvIf (BvEq e_src (BitVecVal 0 w)) (BitVecVal 0 w) quot) = (if ev m e_src = 0 then 0 else r)"
  using assms as_long [of e_src m] by (auto simp: ev_BitVecVal ev_BvIf evb_BvEq size_simps)

text \<open>A division, guarded as the code guards it.\<close>

lemma alu_div:
  assumes w: "0 < w" "w \<le> 64" and sd: "take_bit w (ev m d) = a" and ss: "take_bit w (ev m s) = b"
  shows "\<exists>t. (let e_dst = resize z d w; e_src = resize z s w;
               quot = (if sg then BvOp BvSDiv e_dst e_src else BvOp BvUDiv e_dst e_src) in
           if z_is_value z e_src
           then Inr (if z_as_long z e_src = 0 then BitVecVal 0 w else quot)
           else Inr (BvIf (BvEq e_src (BitVecVal 0 w)) (BitVecVal 0 w) quot)) = (Inr t :: bvt res) \<and>
        z_size z t = w \<and>
        ev m t = (if b = 0 then 0 else if sg then take_bit w (bv_signed w a sdiv bv_signed w b) else a div b)"
proof -
  let ?d = "resize z d w" and ?s = "resize z s w"
  let ?q = "if sg then BvOp BvSDiv ?d ?s else BvOp BvUDiv ?d ?s"
  let ?r = "if sg then take_bit w (bv_signed w a sdiv bv_signed w b) else a div b"
  have fa: "fits w a" "fits w b" using sd ss by auto
  have es: "ev m ?s = b" "ev m ?d = a" using w sd ss by (simp_all add: ev_resize)
  have sz: "z_size z ?s = w" "z_size z ?q = w" using w by (simp_all add: size_simps)
  have "b \<noteq> 0 \<Longrightarrow> ev m ?q = ?r"
    using bv_sem_widen(4) [OF w fa] w by (simp add: ev_BvOp_resize sd ss)
  then have v: "ev m ?s \<noteq> 0 \<Longrightarrow> ev m ?q = ?r" using es by simp
  show ?thesis
    using ev_udiv_guard [where m = m and r = ?r, OF w(1) sz v] es sz w
    by (cases "z_is_value z ?s") (auto simp: Let_def size_simps)
qed

end

context smtlib begin

text \<open>The operand of a shift is reduced to the amount; any other operand is used as it is.\<close>

lemma alu_source:
  fixes op :: int
  assumes "z_size z s \<le> 64" and "n = 5 \<or> n = 6"
  defines "s' \<equiv> if op \<in> {BPF_LSH, BPF_RSH, BPF_ARSH} then shift_amount_z3 z n s else s"
  shows "ev m s' = (if op \<in> {BPF_LSH, BPF_RSH, BPF_ARSH} then take_bit n (ev m s) else ev m s)"
    and "z_size z s' \<le> 64" and "op \<in> {BPF_LSH, BPF_RSH, BPF_ARSH} \<Longrightarrow> z_size z s' = n"
  using assms by (auto simp: ev_shift_amount size_shift_amount)

lemma alu_wide_grow:
  fixes op :: int
  assumes d: "z_size z d \<le> 64" and s: "z_size z s \<le> 64" and lsh: "op = BPF_LSH \<Longrightarrow> z_size z s = 6"
  defines "w \<equiv> alu64_width z op d s"
  shows "op = BPF_ADD \<Longrightarrow> w = 64 \<or> ev m d + ev m s < 2 ^ w"
    and "op = BPF_MUL \<Longrightarrow> w = 64 \<or> ev m d * ev m s < 2 ^ w"
    and "op = BPF_LSH \<Longrightarrow> w = 64 \<or> ev m d * 2 ^ nat (ev m s) < 2 ^ w"
    and "op = BPF_SUB \<Longrightarrow> w = 64"
proof -
  have le: "w \<le> 64" unfolding w_def by (rule alu64_width_bounds)
  show "op = BPF_ADD \<Longrightarrow> w = 64 \<or> ev m d + ev m s < 2 ^ w"
  proof (cases "w = 64")
    case False
    assume "op = BPF_ADD"
    with alu64_width_add [OF this, of d s] le False
    have n: "max (bits_used z d) (bits_used z s) \<le> w - 1" "0 < w" by (auto simp: w_def)
    then have "ev m d < 2 ^ (w - 1)" "ev m s < 2 ^ (w - 1)" by (simp_all add: ev_less_bits)
    then have "ev m d + ev m s < 2 * 2 ^ (w - 1)" by simp
    also have "2 * 2 ^ (w - 1) = (2::int) ^ w" using n(2) by (cases w) simp_all
    finally show ?thesis by simp
  qed simp
  show "op = BPF_MUL \<Longrightarrow> w = 64 \<or> ev m d * ev m s < 2 ^ w"
  proof (cases "w = 64")
    case False
    assume "op = BPF_MUL"
    with alu64_width_mul [OF this, of d s] le False
    have n: "bits_used z d + bits_used z s \<le> w" by (auto simp: w_def)
    have "ev m d * ev m s < 2 ^ bits_used z d * 2 ^ bits_used z s"
      by (rule mult_strict_mono) (simp_all add: ev_bits_used ev_nonneg)
    also have "\<dots> = 2 ^ (bits_used z d + bits_used z s)" by (simp add: power_add)
    also have "\<dots> \<le> 2 ^ w" using n by (rule power_increasing) simp
    finally show ?thesis by simp
  qed simp
  show "op = BPF_LSH \<Longrightarrow> w = 64 \<or> ev m d * 2 ^ nat (ev m s) < 2 ^ w"
  proof (cases "w = 64 \<or> \<not> z_is_value z s")
    case False
    assume op: "op = BPF_LSH"
    with alu64_width_lsh [OF this, of s d] le False
    have n: "bits_used z d + nat (ev m s) \<le> w" using as_long [of s m] by (auto simp: w_def)
    have "ev m d * 2 ^ nat (ev m s) < 2 ^ bits_used z d * 2 ^ nat (ev m s)"
      by (rule mult_strict_right_mono) (simp_all add: ev_bits_used)
    also have "\<dots> = 2 ^ (bits_used z d + nat (ev m s))" by (simp add: power_add)
    also have "\<dots> \<le> 2 ^ w" using n by (rule power_increasing) simp
    finally show ?thesis by simp
  qed (auto simp: w_def alu64_width_full)
  show "op = BPF_SUB \<Longrightarrow> w = 64" by (simp add: w_def alu64_width_full)
qed

text \<open>A 64-bit operation, whatever width is chosen for it.\<close>

lemma alu_binary_64:
  assumes op: "op \<in> alu_binary_codes" and d: "z_size z d \<le> 64" and s: "z_size z s \<le> 64"
  shows "\<exists>t. alu_binary_z3 z op ofs 8 d s = Inr t \<and> 8 \<le> z_size z t \<and> z_size z t \<le> 64 \<and>
    ev m t = alu_sem op (ofs = 1) 64 (ev m d) (ev m s)"
proof -
  let ?sg = "ofs = 1 \<and> op \<in> {BPF_DIV, BPF_MOD}"
  define s' where "s' = (if op \<in> {BPF_LSH, BPF_RSH, BPF_ARSH} then shift_amount_z3 z 6 s else s)"
  note src = alu_source [OF s disjI2 [OF refl], where op = op, folded s'_def]
  define w where "w = (if ?sg then 64 else alu64_width z op d s')"
  let ?a = "ev m d" and ?b = "ev m s'"
  have lsh: "op = BPF_LSH \<Longrightarrow> z_size z s' = 6" using src(3) by simp
  have bounds: "8 \<le> w" "0 < w" "w \<le> 64"
    using alu64_width_bounds [of op d s'] by (auto simp: w_def)
  have holds: "take_bit w ?a = ?a" "take_bit w ?b = ?b"
    using alu64_width_holds [OF d src(2), of op m] lsh ev_take_bit [OF d, of m] ev_take_bit [OF src(2), of m]
    by (auto simp: w_def)
  have opc: "op = BPF_ADD \<or> op = BPF_SUB \<or> op = BPF_MUL \<or> op = BPF_DIV \<or> op = BPF_OR \<or> op = BPF_AND \<or>
    op = BPF_LSH \<or> op = BPF_RSH \<or> op = BPF_MOD \<or> op = BPF_XOR \<or> op = BPF_ARSH"
    using op by (auto simp: alu_binary_codes_def alu_codes_def)
  have unf: "alu_binary_z3 z op ofs 8 d s =
      (let e_dst = resize z d w; e_src = resize z s' w in
       if op = BPF_ADD then Inr (BvOp BvAdd e_dst e_src)
       else if op = BPF_SUB then Inr (BvOp BvSub e_dst e_src)
       else if op = BPF_MUL then Inr (BvOp BvMul e_dst e_src)
       else if op = BPF_DIV then
         (let quot = (if ?sg then BvOp BvSDiv e_dst e_src else BvOp BvUDiv e_dst e_src) in
          if z_is_value z e_src
          then Inr (if z_as_long z e_src = 0 then BitVecVal 0 w else quot)
          else Inr (BvIf (BvEq e_src (BitVecVal 0 w)) (BitVecVal 0 w) quot))
       else if op = BPF_OR then Inr (BvOp BvOr e_dst e_src)
       else if op = BPF_AND then Inr (BvOp BvAnd e_dst e_src)
       else if op = BPF_LSH then Inr (BvOp BvShl e_dst e_src)
       else if op = BPF_RSH then Inr (BvOp BvLShr e_dst e_src)
       else if op = BPF_MOD then
         Inr (if ?sg then BvOp BvSRem e_dst e_src else BvOp BvURem e_dst e_src)
       else if op = BPF_XOR then Inr (BvOp BvXor e_dst e_src)
       else Inr (if w = 64 then BvOp BvAShr e_dst e_src else BvOp BvLShr e_dst e_src))"
    using opc by (elim disjE) (simp_all add: alu_binary_z3_def Let_def w_def s'_def)
  have one: "z_size z (BvOp f (resize z d w) (resize z s' w)) = w"
    "ev m (BvOp f (resize z d w) (resize z s' w)) = bv_sem f w ?a ?b" for f
    using bounds holds by (simp_all add: size_simps ev_BvOp_resize)
  note widen = bv_sem_widen [OF bounds(2,3) holds]
  note grow = alu_wide_grow [OF d src(2), of op, OF lsh]
  have plain: "?b = ev m s" if "op \<notin> {BPF_LSH, BPF_RSH, BPF_ARSH}" using src(1) [where m = m] that by simp
  have amt: "?b = ev m s mod 64" if "op \<in> {BPF_LSH, BPF_RSH, BPF_ARSH}"
    using src(1) [where m = m] that by (simp add: take_bit_6)
  have bin: ?thesis
    if "alu_binary_z3 z op ofs 8 d s = Inr (BvOp f (resize z d w) (resize z s' w))"
      and "bv_sem f w ?a ?b = alu_sem op (ofs = 1) 64 ?a (ev m s)" for f
    using that one bounds by simp
  from opc consider "op = BPF_ADD" | "op = BPF_SUB" | "op = BPF_MUL" | "op = BPF_DIV" | "op = BPF_OR"
    | "op = BPF_AND" | "op = BPF_LSH" | "op = BPF_RSH" | "op = BPF_MOD" | "op = BPF_XOR" | "op = BPF_ARSH"
    by blast
  then show ?thesis
  proof cases
    case 1
    with widen(1) grow(1) [where m = m] plain unf show ?thesis
      by (intro bin [of BvAdd]) (simp_all add: alu_sem_def w_def)
  next
    case 2
    with grow(4) plain unf show ?thesis
      by (intro bin [of BvSub]) (simp_all add: alu_sem_def w_def)
  next
    case 3
    with widen(2) grow(2) [where m = m] plain unf show ?thesis
      by (intro bin [of BvMul]) (simp_all add: alu_sem_def w_def)
  next
    case 4
    from alu_div [OF bounds(2,3) holds, where sg = ?sg] plain 4 bounds unf show ?thesis
      by (auto simp: alu_sem_def w_def)
  next
    case 5
    with plain unf show ?thesis by (intro bin [of BvOr]) (simp_all add: alu_sem_def)
  next
    case 6
    with plain unf show ?thesis by (intro bin [of BvAnd]) (simp_all add: alu_sem_def)
  next
    case 7
    with widen(3) grow(3) [where m = m] amt unf show ?thesis
      by (intro bin [of BvShl]) (simp_all add: alu_sem_def w_def)
  next
    case 8
    with amt unf show ?thesis by (intro bin [of BvLShr]) (simp_all add: alu_sem_def)
  next
    case 9
    with widen(5) plain unf show ?thesis
      by (cases "ofs = 1"; intro bin [of "if ofs = 1 then BvSRem else BvURem"])
        (simp_all add: alu_sem_def w_def)
  next
    case 10
    with plain unf show ?thesis by (intro bin [of BvXor]) (simp_all add: alu_sem_def)
  next
    case 11
    with widen(6) amt unf show ?thesis
      by (intro bin [of "if w = 64 then BvAShr else BvLShr"]) (simp_all add: alu_sem_def)
  qed
qed

end

context smtlib begin

text \<open>A 32-bit operation works at width 32 throughout.\<close>

lemma alu_binary_32:
  assumes op: "op \<in> alu_binary_codes" and s: "z_size z s \<le> 64"
  shows "\<exists>t. alu_binary_z3 z op ofs 4 d s = Inr t \<and> z_size z t = 32 \<and>
    ev m t = alu_sem op (ofs = 1) 32 (take_bit 32 (ev m d)) (take_bit 32 (ev m s))"
proof -
  let ?sg = "ofs = 1 \<and> op \<in> {BPF_DIV, BPF_MOD}"
  define s' where "s' = (if op \<in> {BPF_LSH, BPF_RSH, BPF_ARSH} then shift_amount_z3 z 5 s else s)"
  note src = alu_source [OF s disjI1 [OF refl], where op = op, folded s'_def]
  let ?a = "take_bit 32 (ev m d)" and ?b = "take_bit 32 (ev m s')"
  have opc: "op = BPF_ADD \<or> op = BPF_SUB \<or> op = BPF_MUL \<or> op = BPF_DIV \<or> op = BPF_OR \<or> op = BPF_AND \<or>
    op = BPF_LSH \<or> op = BPF_RSH \<or> op = BPF_MOD \<or> op = BPF_XOR \<or> op = BPF_ARSH"
    using op by (auto simp: alu_binary_codes_def alu_codes_def)
  have unf: "alu_binary_z3 z op ofs 4 d s =
      (let e_dst = resize z d 32; e_src = resize z s' 32 in
       if op = BPF_ADD then Inr (BvOp BvAdd e_dst e_src)
       else if op = BPF_SUB then Inr (BvOp BvSub e_dst e_src)
       else if op = BPF_MUL then Inr (BvOp BvMul e_dst e_src)
       else if op = BPF_DIV then
         (let quot = (if ?sg then BvOp BvSDiv e_dst e_src else BvOp BvUDiv e_dst e_src) in
          if z_is_value z e_src
          then Inr (if z_as_long z e_src = 0 then BitVecVal 0 32 else quot)
          else Inr (BvIf (BvEq e_src (BitVecVal 0 32)) (BitVecVal 0 32) quot))
       else if op = BPF_OR then Inr (BvOp BvOr e_dst e_src)
       else if op = BPF_AND then Inr (BvOp BvAnd e_dst e_src)
       else if op = BPF_LSH then Inr (BvOp BvShl e_dst e_src)
       else if op = BPF_RSH then Inr (BvOp BvLShr e_dst e_src)
       else if op = BPF_MOD then
         Inr (if ?sg then BvOp BvSRem e_dst e_src else BvOp BvURem e_dst e_src)
       else if op = BPF_XOR then Inr (BvOp BvXor e_dst e_src)
       else Inr (BvOp BvAShr e_dst e_src))"
    using opc by (elim disjE) (simp_all add: alu_binary_z3_def Let_def s'_def)
  have one: "z_size z (BvOp f (resize z d 32) (resize z s' 32)) = 32"
    "ev m (BvOp f (resize z d 32) (resize z s' 32)) = bv_sem f 32 ?a ?b" for f
    by (simp_all add: size_simps ev_BvOp_resize)
  have plain: "?b = take_bit 32 (ev m s)" if "op \<notin> {BPF_LSH, BPF_RSH, BPF_ARSH}"
    using src(1) [where m = m] that by simp
  have amt: "?b = take_bit 32 (ev m s) mod 32" if "op \<in> {BPF_LSH, BPF_RSH, BPF_ARSH}"
    using src(1) [where m = m] that by (simp flip: take_bit_6(2))
  have bin: ?thesis
    if "alu_binary_z3 z op ofs 4 d s = Inr (BvOp f (resize z d 32) (resize z s' 32))"
      and "bv_sem f 32 ?a ?b = alu_sem op (ofs = 1) 32 ?a (take_bit 32 (ev m s))" for f
    using that one by simp
  note widen = bv_sem_widen(5) [of 32 ?a ?b, simplified]
  from opc consider "op = BPF_ADD" | "op = BPF_SUB" | "op = BPF_MUL" | "op = BPF_DIV" | "op = BPF_OR"
    | "op = BPF_AND" | "op = BPF_LSH" | "op = BPF_RSH" | "op = BPF_MOD" | "op = BPF_XOR" | "op = BPF_ARSH"
    by blast
  then show ?thesis
  proof cases
    case 1
    with plain unf show ?thesis by (intro bin [of BvAdd]) (simp_all add: alu_sem_def)
  next
    case 2
    with plain unf show ?thesis by (intro bin [of BvSub]) (simp_all add: alu_sem_def)
  next
    case 3
    with plain unf show ?thesis by (intro bin [of BvMul]) (simp_all add: alu_sem_def)
  next
    case 4
    from alu_div [where w = 32 and d = d and s = s' and sg = ?sg, OF _ _ refl refl, where m = m] plain 4 unf show ?thesis by (auto simp: alu_sem_def)
  next
    case 5
    with plain unf show ?thesis by (intro bin [of BvOr]) (simp_all add: alu_sem_def)
  next
    case 6
    with plain unf show ?thesis by (intro bin [of BvAnd]) (simp_all add: alu_sem_def)
  next
    case 7
    with amt unf show ?thesis by (intro bin [of BvShl]) (simp_all add: alu_sem_def)
  next
    case 8
    with amt unf show ?thesis by (intro bin [of BvLShr]) (simp_all add: alu_sem_def)
  next
    case 9
    with widen plain unf show ?thesis
      by (cases "ofs = 1"; intro bin [of "if ofs = 1 then BvSRem else BvURem"])
        (simp_all add: alu_sem_def)
  next
    case 10
    with plain unf show ?thesis by (intro bin [of BvXor]) (simp_all add: alu_sem_def)
  next
    case 11
    with amt unf show ?thesis by (intro bin [of BvAShr]) (simp_all add: alu_sem_def)
  qed
qed

section \<open>The unary operations\<close>

lemma alu_unary_neg:
  "\<exists>t. alu_unary_z3 z BPF_NEG os im sz a64 d = Inr t \<and> z_size z t = (if sz = 4 then 32 else 64) \<and>
     ev m t = take_bit (if sz = 4 then 32 else 64) (- ev m d)"
  by (simp add: alu_unary_z3_def size_simps ev_BvNeg ev_resize take_bit_minus)

lemma alu_unary_mov:
  assumes "1 \<le> im" and "im \<le> int w" and "w = (if sz = 4 then 32 else 64)"
  shows "\<exists>t. alu_unary_z3 z BPF_MOV os im sz a64 d = Inr t \<and> z_size z t = w \<and>
     ev m t = take_bit w (signed_take_bit (nat im - 1) (ev m d))"
proof -
  let ?x = "Extract (nat im - 1) 0 (resize z d 64)"
  have w: "w \<le> 64" "nat im \<le> w" "0 < nat im" using assms by auto
  have "ev m ?x = take_bit (nat im) (take_bit 64 (ev m d))" "z_size z ?x = nat im"
    using w by (simp_all add: ev_Extract ev_resize size_simps)
  moreover have "take_bit (nat im) (take_bit 64 (ev m d)) = take_bit (nat im) (ev m d)"
    using w by (simp add: min_def)
  moreover have "signed_take_bit (nat im - 1) (take_bit (nat im) (ev m d)) = signed_take_bit (nat im - 1) (ev m d)"
    using w by (simp add: signed_take_bit_take_bit)
  ultimately show ?thesis
    using assms w by (auto simp: alu_unary_z3_def ev_SignExt bv_signed_def size_simps)
qed

end

section \<open>Byte swaps\<close>

text \<open>The value with its \<open>n\<close> bytes in the opposite order.\<close>

definition bswap_sem :: "nat \<Rightarrow> int \<Rightarrow> int" where
  "bswap_sem n x = from_le (rev (to_le n x))"

lemma from_le_snoc: "from_le (bs @ [b]) = from_le bs + 2 ^ (8 * length bs) * uint b"
  by (induction bs) (simp_all add: power_add algebra_simps)

lemma concat_sem_bytes:
  "concat_sem (map (\<lambda>b. (8, uint b)) bs) = from_le (rev bs)"
  by (induction bs) (simp_all add: from_le_snoc push_bit_eq_mult comp_def sum_list_triv mult.commute)

lemma to_le_nth: "i < n \<Longrightarrow> uint (to_le n x ! i) = take_bit 8 (drop_bit (8 * i) x)"
proof (induction n arbitrary: x i)
  case (Suc n)
  show ?case
  proof (cases i)
    case 0
    then show ?thesis by (simp add: uint_word_of_int_eq)
  next
    case (Suc j)
    have "drop_bit (8 * j) (x div 256) = drop_bit (8 * i) x"
      by (simp add: Suc drop_bit_eq_div zdiv_zmult2_eq power_add)
    with Suc Suc.IH [of j "x div 256"] Suc.prems show ?thesis by simp
  qed
qed simp

lemma bswap_concat:
  "concat_sem (map (\<lambda>i. (8, take_bit 8 (drop_bit (8 * i) x))) [0..<n]) = bswap_sem n x"
proof -
  have "map (\<lambda>i. (8, take_bit 8 (drop_bit (8 * i) x))) [0..<n] = map (\<lambda>b. (8::nat, uint b)) (to_le n x)"
    by (rule nth_equalityI) (simp_all add: to_le_nth)
  then show ?thesis by (simp add: bswap_sem_def concat_sem_bytes)
qed

context smtlib begin

lemma alu_unary_end:
  assumes im: "im = 16 \<or> im = 32 \<or> im = 64"
  shows "\<exists>t. alu_unary_z3 z BPF_END os im sz a64 d = Inr t \<and> z_size z t = nat im \<and>
     ev m t = (if a64 \<or> os = Some S_REG then bswap_sem (nat im div 8) (ev m d) else take_bit (nat im) (ev m d))"
proof -
  define low where "low = Extract (nat im - 1) 0 (resize z d 64)"
  obtain n where n: "nat im = 8 * n" "0 < n" "8 * n \<le> 64"
  proof -
    have "nat im = 8 * (nat im div 8)" "0 < nat im div 8" "8 * (nat im div 8) \<le> 64" using im by auto
    then show thesis by (rule that)
  qed
  have sz: "z_size z low = 8 * n" using n by (simp add: low_def size_simps)
  have ev_low: "ev m low = take_bit (8 * n) (ev m d)"
    using n by (simp add: low_def ev_Extract ev_resize)
  have part: "ev m (Extract (8 * i + 7) (8 * i) low) = take_bit 8 (drop_bit (8 * i) (ev m d))"
    if "i < n" for i
  proof -
    have "8 * i + 7 < 8 * n" using that by linarith
    then have "ev m (Extract (8 * i + 7) (8 * i) low) = take_bit 8 (drop_bit (8 * i) (take_bit (8 * n) (ev m d)))"
      using sz ev_low by (simp add: ev_Extract)
    also have "\<dots> = take_bit 8 (drop_bit (8 * i) (ev m d))"
      using that by (intro bit_eqI) (auto simp: bit_simps)
    finally show ?thesis .
  qed
  let ?parts = "map (\<lambda>i. Extract (8 * i + 7) (8 * i) low) [0..<n]"
  have "ev m (Concat ?parts) = concat_sem (map (\<lambda>i. (8, take_bit 8 (drop_bit (8 * i) (ev m d)))) [0..<n])"
    unfolding ev_Concat map_map by (intro arg_cong [where f = concat_sem] map_cong) (simp_all add: part size_simps)
  then have swap: "ev m (Concat ?parts) = bswap_sem n (ev m d)" by (simp add: bswap_concat)
  have "z_size z (Concat ?parts) = 8 * n"
    by (simp add: size_simps comp_def sum_list_triv)
  with swap sz ev_low n im show ?thesis
    by (auto simp: alu_unary_z3_def Let_def low_def)
qed

section \<open>Comparisons\<close>

lemma compare_at_width:
  fixes x y :: "'a::len word"
  assumes "z_size z d = LENGTH('a) \<and> z_size z s = LENGTH('a)"
    and "x = word_of_int (ev m d)" and "y = word_of_int (ev m s)"
  shows "evb m (BvCmp BvSgt d s) = (y <s x)" "evb m (BvCmp BvSge d s) = (y \<le>s x)"
    "evb m (BvCmp BvSlt d s) = (x <s y)" "evb m (BvCmp BvSle d s) = (x \<le>s y)"
  using assms by (simp_all add: evb_BvCmp word_sless_alt word_sle_eq sint_of_int)

lemma compare_unsigned:
  fixes x y :: "'a::len word"
  assumes sz: "z_size z d = w" "z_size z s = w" "0 < w" "w \<le> LENGTH('a)"
    and x: "x = word_of_int (ev m d)" and y: "y = word_of_int (ev m s)"
  shows "evb m (BvEq d s) = (x = y)" "evb m (BvNe d s) = (x \<noteq> y)"
    "evb m (BvCmp BvUgt d s) = (y < x)" "evb m (BvCmp BvUge d s) = (y \<le> x)"
    "evb m (BvCmp BvUlt d s) = (x < y)" "evb m (BvCmp BvUle d s) = (x \<le> y)"
    "evb m (BvNe (BvOp BvAnd d s) (BitVecVal 0 (z_size z (BvOp BvAnd d s)))) = (x AND y \<noteq> 0)"
proof -
  have u: "uint x = ev m d" "uint y = ev m s"
    using sz by (simp_all add: x y uint_word_of_int_eq ev_take_bit)
  then show "evb m (BvEq d s) = (x = y)" "evb m (BvNe d s) = (x \<noteq> y)"
    "evb m (BvCmp BvUgt d s) = (y < x)" "evb m (BvCmp BvUge d s) = (y \<le> x)"
    "evb m (BvCmp BvUlt d s) = (x < y)" "evb m (BvCmp BvUle d s) = (x \<le> y)"
    using sz by (auto simp: evb_BvCmp evb_BvEq evb_BvNe word_less_def word_le_def word_uint_eq_iff simp flip: u)
  have "ev m (BvOp BvAnd d s) = uint (x AND y)"
    using sz u by (simp add: ev_BvOp uint_and)
  then show "evb m (BvNe (BvOp BvAnd d s) (BitVecVal 0 (z_size z (BvOp BvAnd d s)))) = (x AND y \<noteq> 0)"
    using sz by (simp add: evb_BvNe size_simps ev_BitVecVal uint_0_iff)
qed

end

context smtlib begin

lemma uint_ev: "z_size z t \<le> LENGTH('a::len) \<Longrightarrow> uint (word_of_int (ev m t) :: 'a word) = ev m t"
  by (simp add: uint_word_of_int_eq ev_take_bit)

lemma jmp_cases:
  "code \<in> jmp_codes \<Longrightarrow> code = BPF_JEQ \<or> code = BPF_JNE \<or> code = BPF_JSET \<or> code = BPF_JGT \<or>
     code = BPF_JGE \<or> code = BPF_JLT \<or> code = BPF_JLE \<or> code = BPF_JSGT \<or> code = BPF_JSGE \<or>
     code = BPF_JSLT \<or> code = BPF_JSLE"
  by (auto simp: jmp_codes_def)

lemma compare_exact_64:
  assumes "code \<in> jmp_codes" and "0 < z_size z d" and "z_size z d \<le> 64" and "z_size z s \<le> 64"
  shows "\<exists>b. compare_z3 z code False d s = Inr b \<and>
     evb m b = jmp_isa code (word_of_int (ev m d) :: 64 word) (word_of_int (ev m s))"
proof -
  let ?w = "max (z_size z d) (z_size z s)"
  let ?w2 = "max ?w 64"
  have w: "0 < ?w" "?w \<le> 64" "?w2 = 64" using assms by auto
  have sz: "z_size z (zero_pad z d ?w) = ?w" "z_size z (zero_pad z s ?w) = ?w"
    "z_size z (zero_pad z d 64) = 64" "z_size z (zero_pad z s 64) = 64"
    using assms by (simp_all add: size_zero_pad max_def)
  have e: "word_of_int (ev m (zero_pad z d n)) = (word_of_int (ev m d) :: 64 word)"
    "word_of_int (ev m (zero_pad z s n)) = (word_of_int (ev m s) :: 64 word)" for n
    by (simp_all add: ev_zero_pad)
  note us = compare_unsigned [where 'a = 64 and m = m, OF sz(1,2) w(1) _ refl refl, unfolded e]
  note sg = compare_at_width [where 'a = 64 and m = m and d = "zero_pad z d 64" and s = "zero_pad z s 64",
      OF _ refl refl, unfolded e]
  from jmp_cases [OF assms(1)] show ?thesis
    using us sg sz(3,4) w
    by (elim disjE) (simp_all add: compare_z3_def Let_def jmp_isa_def)
qed

lemma compare_exact_32:
  assumes "code \<in> jmp_codes"
  shows "\<exists>b. compare_z3 z code True d s = Inr b \<and>
     evb m b = jmp_isa code (word_of_int (ev m d) :: 32 word) (word_of_int (ev m s))"
proof -
  have sz: "z_size z (resize z t 32) = 32" for t by simp
  have pad: "zero_pad z (resize z t 32) 32 = resize z t 32" for t by (simp add: zero_pad_def)
  have tb: "word_of_int (take_bit 32 x) = (word_of_int x :: 32 word)" for x
    by (rule word_uint_eqI) (simp add: uint_word_of_int_eq)
  have e: "word_of_int (ev m (resize z t 32)) = (word_of_int (ev m t) :: 32 word)" for t
    by (simp add: ev_resize tb)
  note us = compare_unsigned [where 'a = 32 and m = m and d = "resize z d 32" and s = "resize z s 32",
      OF sz sz _ _ refl refl, unfolded e]
  note sg = compare_at_width [where 'a = 32 and m = m and d = "resize z d 32" and s = "resize z s 32",
      OF _ refl refl, unfolded e]
  from jmp_cases [OF assms(1)] show ?thesis
    using us sg sz
    by (elim disjE) (simp_all add: compare_z3_def Let_def jmp_isa_def pad)
qed

end

section \<open>Properties\<close>

text \<open>
  Claim C10.  The translation of a 64-bit arithmetic value is exact.  Whatever width is chosen for
  the operation (the operands' own widths, one more bit for an addition, their sum for a
  multiplication, and so on), under every assignment the term built has the value that the
  instruction set prescribes for the values of the operands: nothing that a 64-bit register would
  keep is cut off, and division, remainder and shifts follow BPF's rules rather than SMT-LIB's.
\<close>

theorem alu_value_exact64:
  assumes "smtlib z ev evb eva evab" and "op \<in> alu_binary_codes"
    and "expr_to_z3 z st a = Inr d" and "expr_to_z3 z st b = Inr s"
    and "z_size z d \<le> 64" and "z_size z s \<le> 64"
  shows "\<exists>t. expr_to_z3 z st (ALUbinary op (Some a) (Some b) ofs 8 idx) = Inr t \<and> z_size z t \<le> 64 \<and>
     ev m t = uint (alu_isa op (ofs = 1) (word_of_int (ev m d) :: 64 word) (word_of_int (ev m s)))"
  using smtlib.alu_binary_64 [OF assms(1,2,5,6), of ofs m] assms(3,4)
    smtlib.uint_ev [OF assms(1), of d m, where 'a = 64] smtlib.uint_ev [OF assms(1), of s m, where 'a = 64]
    assms(5,6) alu_sem_isa [OF assms(2), where 'a = 64]
  by (auto simp: enc_opt_def)

lemma demo_env_value: "eval_bv demo_env (BitVec x 64) = 5" "eval_bv demo_env (BitVecVal 7 32) = 7"
  by (simp_all add: demo_env_def)

theorem alu_value_exact64_witness:
  "\<exists>t. expr_to_z3 std_queries (make_init_state [] [])
         (ALUbinary BPF_MUL (Some (Scalar 8 3)) (Some (Num 7 4 (-1))) 0 8 9) = Inr t \<and>
     eval_bv demo_env t = uint (alu_isa BPF_MUL False (5 :: 64 word) 7)"
proof -
  have "\<exists>t. expr_to_z3 std_queries (make_init_state [] [])
         (ALUbinary BPF_MUL (Some (Scalar 8 3)) (Some (Num 7 4 (-1))) 0 8 9) = Inr t \<and>
     z_size std_queries t \<le> 64 \<and>
     eval_bv demo_env t = uint (alu_isa BPF_MUL (0 = (1::int))
       (word_of_int (eval_bv demo_env (BitVec (''scalar'' @ show_int 3) 64)) :: 64 word)
       (word_of_int (eval_bv demo_env (BitVecVal 7 32))))"
    by (rule alu_value_exact64 [OF smtlib_std])
      (simp_all add: alu_binary_codes_def alu_codes_def std_queries_def)
  then show ?thesis by (simp only: demo_env_value) auto
qed

text \<open>
  A 32-bit arithmetic value is translated exactly too: the term is 32 bits wide and has
  the value of the 32-bit instruction on the low halves of the operands.
\<close>

theorem alu_value_exact32:
  assumes "smtlib z ev evb eva evab" and "op \<in> alu_binary_codes"
    and "expr_to_z3 z st a = Inr d" and "expr_to_z3 z st b = Inr s" and "z_size z s \<le> 64"
  shows "\<exists>t. expr_to_z3 z st (ALUbinary op (Some a) (Some b) ofs 4 idx) = Inr t \<and> z_size z t = 32 \<and>
     ev m t = uint (alu_isa op (ofs = 1) (word_of_int (ev m d) :: 32 word) (word_of_int (ev m s)))"
  using smtlib.alu_binary_32 [OF assms(1,2,5), of ofs d m] assms(3,4) alu_sem_isa [OF assms(2), where 'a = 32]
  by (auto simp: enc_opt_def uint_word_of_int_eq)

theorem alu_value_exact32_witness:
  "\<exists>t. expr_to_z3 std_queries (make_init_state [] [])
         (ALUbinary BPF_DIV (Some (Scalar 8 3)) (Some (Num (-2) 4 (-1))) 1 4 9) = Inr t \<and>
     eval_bv demo_env t = uint (alu_isa BPF_DIV True (5 :: 32 word) (-2))"
proof -
  have "\<exists>t. expr_to_z3 std_queries (make_init_state [] [])
         (ALUbinary BPF_DIV (Some (Scalar 8 3)) (Some (Num (-2) 4 (-1))) 1 4 9) = Inr t \<and>
     z_size std_queries t = 32 \<and>
     eval_bv demo_env t = uint (alu_isa BPF_DIV (1 = (1::int))
       (word_of_int (eval_bv demo_env (BitVec (''scalar'' @ show_int 3) 64)) :: 32 word)
       (word_of_int (eval_bv demo_env (BitVecVal (-2) 32))))"
    by (rule alu_value_exact32 [OF smtlib_std])
      (simp_all add: alu_binary_codes_def alu_codes_def std_queries_def)
  moreover have "word_of_int (eval_bv demo_env (BitVecVal (-2) 32)) = (-2 :: 32 word)" by code_simp
  ultimately show ?thesis by (simp only: demo_env_value) auto
qed

text \<open>
  The unary operations are exact: negation at the operation's width; the sign-extending
  moves of 8, 16 and 32 bits; and the byte-order conversions, where the unconditional swap and the
  conversion to big endian reverse the low bytes and the conversion to little endian keeps them.
\<close>

theorem alu_unary_exact:
  assumes "smtlib z ev evb eva evab" and "expr_to_z3 z st a = Inr d"
    and "w = (if sz = 4 then 32 else 64)" and "1 \<le> ext" and "ext \<le> int w" and "bits \<in> {16, 32, 64}"
  shows "(\<exists>t. expr_to_z3 z st (ALUunary BPF_NEG (Some a) os im sz a64) = Inr t \<and> z_size z t = w \<and>
            ev m t = take_bit w (- ev m d)) \<and>
     (\<exists>t. expr_to_z3 z st (ALUunary BPF_MOV (Some a) None ext sz a64) = Inr t \<and> z_size z t = w \<and>
            ev m t = take_bit w (signed_take_bit (nat ext - 1) (ev m d))) \<and>
     (\<exists>t. expr_to_z3 z st (ALUunary BPF_END (Some a) os bits bsz a64) = Inr t \<and> z_size z t = nat bits \<and>
            ev m t = (if a64 \<or> os = Some S_REG then bswap_sem (nat bits div 8) (ev m d)
                      else take_bit (nat bits) (ev m d)))"
proof -
  have b: "bits = 16 \<or> bits = 32 \<or> bits = 64" using assms(6) by blast
  show ?thesis
    using smtlib.alu_unary_neg [OF assms(1), of os im sz a64 d m]
      smtlib.alu_unary_mov [OF assms(1,4,5,3), of None a64 d m]
      smtlib.alu_unary_end [OF assms(1) b, of os bsz a64 d m] assms(2,3)
    by (simp add: enc_opt_def)
qed

theorem alu_unary_exact_witness:
  "\<exists>t. expr_to_z3 std_queries (make_init_state [] []) (ALUunary BPF_END (Some (Scalar 8 3)) (Some 1) 16 2 False) =
       Inr t \<and> eval_bv demo_env t = 0x500"
proof -
  have "\<exists>t. expr_to_z3 std_queries (make_init_state [] []) (ALUunary BPF_END (Some (Scalar 8 3)) (Some 1) 16 2 False) =
       Inr t \<and> z_size std_queries t = nat 16 \<and>
     eval_bv demo_env t = (if False \<or> Some 1 = Some S_REG
       then bswap_sem (nat 16 div 8) (eval_bv demo_env (BitVec (''scalar'' @ show_int 3) 64))
       else take_bit (nat 16) (eval_bv demo_env (BitVec (''scalar'' @ show_int 3) 64)))"
    by (rule alu_unary_exact [OF smtlib_std _ refl, of _ _ _ 8 8 16, THEN conjunct2, THEN conjunct2]) simp_all
  moreover have "bswap_sem (nat 16 div 8) 5 = 0x500" by code_simp
  ultimately show ?thesis by (simp only: demo_env_value) auto
qed

text \<open>
  Claim C11.  A branch condition is translated exactly: the term built for a comparison of two
  values is true under an assignment exactly when the conditional jump is taken on the values of
  the operands, signed and unsigned, at 64 bits and, for the 32-bit jump class, on the low halves.
\<close>

theorem condition_exact:
  assumes "smtlib z ev evb eva evab" and "code \<in> jmp_codes"
    and "expr_to_z3 z st a = Inr d" and "expr_to_z3 z st b = Inr s"
    and "0 < z_size z d" and "z_size z d \<le> 64" and "z_size z s \<le> 64"
    and "null_test code (Some a) (Some b) = None"
  shows "(\<exists>c. cond_to_z3 z st (Condition code (Some a) (Some b) False) = Inr (Z c) \<and>
            evb m c = jmp_isa code (word_of_int (ev m d) :: 64 word) (word_of_int (ev m s))) \<and>
     (\<exists>c. cond_to_z3 z st (Condition code (Some a) (Some b) True) = Inr (Z c) \<and>
            evb m c = jmp_isa code (word_of_int (ev m d) :: 32 word) (word_of_int (ev m s)))"
  using smtlib.compare_exact_64 [OF assms(1,2,5,6,7), of m] smtlib.compare_exact_32 [OF assms(1,2), of d s m]
    assms(3,4,8)
  by (auto simp: expr_opt_z3_def enc_opt_def)

theorem condition_exact_witness:
  "\<exists>c. cond_to_z3 std_queries (make_init_state [] [])
         (Condition BPF_JSLT (Some (Scalar 8 3)) (Some (Num (-1) 8 (-1))) False) = Inr (Z c) \<and>
     eval_b demo_env c = jmp_isa BPF_JSLT (5 :: 64 word) (- 1)"
proof -
  have "\<exists>c. cond_to_z3 std_queries (make_init_state [] [])
         (Condition BPF_JSLT (Some (Scalar 8 3)) (Some (Num (-1) 8 (-1))) False) = Inr (Z c) \<and>
     eval_b demo_env c = jmp_isa BPF_JSLT (word_of_int (eval_bv demo_env (BitVec (''scalar'' @ show_int 3) 64)) :: 64 word)
       (word_of_int (eval_bv demo_env (BitVecVal (-1) 64)))"
    by (rule condition_exact [OF smtlib_std, THEN conjunct1])
      (simp_all add: jmp_codes_def std_queries_def null_test_def)
  moreover have "word_of_int (eval_bv demo_env (BitVecVal (-1) 64)) = (- 1 :: 64 word)" by code_simp
  ultimately show ?thesis by (simp only: demo_env_value) auto
qed

end
