(* ===== verification/Encode_Mem.thy ===== *)
theory Encode_Mem
  imports Encode_Alu
begin

text \<open>
  What the actions do to the state of the world.  The packet is a memory of bytes, addressed
  modulo the width of the address (\<open>mem_read\<close>, \<open>mem_write\<close>); a map is a partial function from
  keys to values (\<open>presence\<close> and contents); a map value and a stack slot are bit strings of which
  byte ranges are replaced.  The terms built by \<open>action_to_z3\<close> and by the reads of \<open>expr_to_z3\<close>
  are shown to implement these operations.
\<close>

section \<open>A memory of bytes\<close>

definition mem_write :: "nat \<Rightarrow> (int \<Rightarrow> int) \<Rightarrow> int \<Rightarrow> nat \<Rightarrow> int \<Rightarrow> int \<Rightarrow> int" where
  "mem_write aw mem b n v k =
     (if 0 \<le> k \<and> k < 2 ^ aw \<and> (k - b) mod 2 ^ aw < int n
      then take_bit 8 (drop_bit (8 * nat ((k - b) mod 2 ^ aw)) v) else mem k)"

fun mem_read :: "nat \<Rightarrow> (int \<Rightarrow> int) \<Rightarrow> int \<Rightarrow> nat \<Rightarrow> int" where
  "mem_read aw mem b 0 = 0"
| "mem_read aw mem b (Suc n) = mem_read aw mem b n + push_bit (8 * n) (mem ((b + int n) mod 2 ^ aw))"

lemma take_bit_Suc_byte:
  "take_bit (8 * Suc n) v = take_bit (8 * n) v + push_bit (8 * n) (take_bit 8 (drop_bit (8 * n) (v::int)))"
proof -
  have "take_bit (8 * Suc n) v = take_bit (8 * n) v OR push_bit (8 * n) (take_bit 8 (drop_bit (8 * n) v))"
    by (rule bit_eqI) (auto simp: bit_simps)
  also have "\<dots> = take_bit (8 * n) v + push_bit (8 * n) (take_bit 8 (drop_bit (8 * n) v))"
    by (rule disjunctive_add [symmetric]) (auto simp: bit_simps)
  finally show ?thesis .
qed

lemma mem_read_write:
  assumes "n \<le> 2 ^ aw"
  shows "mem_read aw (mem_write aw mem b n v) b n = take_bit (8 * n) v"
proof -
  have "mem_read aw (mem_write aw mem b n v) b k = take_bit (8 * k) v" if "k \<le> n" for k
    using that
  proof (induction k)
    case (Suc k)
    have "((b + int k) mod 2 ^ aw - b) mod 2 ^ aw = int k mod 2 ^ aw"
      by (metis add_diff_cancel_left' mod_diff_left_eq)
    also have "\<dots> = int k" using Suc.prems assms by simp
    finally have "mem_write aw mem b n v ((b + int k) mod 2 ^ aw) = take_bit 8 (drop_bit (8 * k) v)"
      using Suc.prems by (simp add: mem_write_def)
    with Suc show ?case by (simp only: mem_read.simps take_bit_Suc_byte Suc_leD)
  qed simp
  then show ?thesis by blast
qed

context smtlib begin

lemma store_bytes_Suc:
  "store_bytes arr base aw v (Suc n) =
     Store (store_bytes arr base aw v n) (BvOp BvAdd base (BitVecVal (int n) aw)) (Extract ((n + 1) * 8 - 1) (n * 8) v)"
  by (simp add: store_bytes_def)

lemma store_bytes_sorts [simp]:
  "z_dom z (store_bytes arr base aw v n) = z_dom z arr" "z_rng z (store_bytes arr base aw v n) = z_rng z arr"
  by (induction n) (simp_all add: store_bytes_Suc size_simps, simp_all add: store_bytes_def)

lemma ev_address:
  assumes "z_size z base = aw" and "0 < aw"
  shows "ev m (BvOp BvAdd base (BitVecVal (int i) aw)) = (ev m base + int i) mod 2 ^ aw"
  using assms by (simp add: ev_BvOp size_simps ev_BitVecVal take_bit_eq_mod mod_add_right_eq)

lemma eva_store_bytes:
  assumes "z_dom z arr = aw" and "z_rng z arr = 8" and "z_size z base = aw" and "0 < aw"
    and "8 * n \<le> z_size z v" and "n \<le> 2 ^ aw"
  shows "eva m (store_bytes arr base aw v n) k = mem_write aw (eva m arr) (ev m base) n (ev m v) k"
  using assms(5,6)
proof (induction n)
  case 0
  have "\<not> (k - ev m base) mod 2 ^ aw < 0" by (simp add: not_less)
  then show ?case by (auto simp: store_bytes_def mem_write_def)
next
  case (Suc n)
  let ?b = "ev m base" and ?adr = "BvOp BvAdd base (BitVecVal (int n) aw)"
  let ?byte = "Extract ((n + 1) * 8 - 1) (n * 8) v"
  have byte: "ev m ?byte = take_bit 8 (drop_bit (8 * n) (ev m v))" "z_size z ?byte = 8"
    using Suc.prems by (simp_all add: ev_Extract size_simps mult.commute)
  have adr: "ev m ?adr = (?b + int n) mod 2 ^ aw" "z_size z ?adr = aw"
    using assms by (simp_all add: ev_address size_simps)
  have hit: "k = (?b + int n) mod 2 ^ aw \<longleftrightarrow> 0 \<le> k \<and> k < 2 ^ aw \<and> (k - ?b) mod 2 ^ aw = int n"
  proof
    assume k: "k = (?b + int n) mod 2 ^ aw"
    then have "(k - ?b) mod 2 ^ aw = int n mod 2 ^ aw" by (metis add_diff_cancel_left' mod_diff_left_eq)
    moreover have "int n mod 2 ^ aw = int n" using Suc.prems
      by (intro mod_pos_pos_trivial) (simp_all add: Suc_le_eq)
    ultimately show "0 \<le> k \<and> k < 2 ^ aw \<and> (k - ?b) mod 2 ^ aw = int n" using k by simp
  next
    assume k: "0 \<le> k \<and> k < 2 ^ aw \<and> (k - ?b) mod 2 ^ aw = int n"
    then have "(?b + int n) mod 2 ^ aw = (?b + (k - ?b)) mod 2 ^ aw" by (metis mod_add_right_eq)
    with k show "k = (?b + int n) mod 2 ^ aw" by simp
  qed
  have IH: "eva m (store_bytes arr base aw v n) k = mem_write aw (eva m arr) ?b n (ev m v) k"
    using Suc by simp
  have "eva m (store_bytes arr base aw v (Suc n)) k =
      (if k = ev m ?adr then ev m ?byte else eva m (store_bytes arr base aw v n) k)"
    using eva_Store [where a = "store_bytes arr base aw v n" and s = ?adr and t = ?byte and m = m]
      assms adr(2) byte(2) by (simp add: store_bytes_Suc)
  also have "\<dots> = (if k = (?b + int n) mod 2 ^ aw then take_bit 8 (drop_bit (8 * n) (ev m v))
      else mem_write aw (eva m arr) ?b n (ev m v) k)"
    by (simp only: adr(1) byte(1) IH)
  also have "\<dots> = mem_write aw (eva m arr) ?b (Suc n) (ev m v) k"
    by (subst hit) (auto simp: mem_write_def)
  finally show ?case .
qed

text \<open>A read, for the at least one byte that every access has.\<close>

lemma concat_or_single_ev:
  assumes "bs \<noteq> []"
  shows "\<exists>t. concat_or_single bs = Inr t \<and> z_size z t = sum_list (map (z_size z) bs) \<and>
    ev m t = concat_sem (map (\<lambda>t. (z_size z t, ev m t)) bs)"
proof -
  obtain b cs where bs: "bs = b # cs" using assms by (cases bs) auto
  show ?thesis
    by (cases cs) (auto simp: bs concat_or_single_def size_simps ev_Concat)
qed

lemma mem_read_concat:
  assumes "\<And>i. i < n \<Longrightarrow> f i = g ((b + int i) mod 2 ^ aw)"
  shows "concat_sem (rev (map (\<lambda>i. (8, f i)) [0..<n])) = mem_read aw g b n"
  using assms
proof (induction n)
  case (Suc n)
  have "sum_list (map fst (rev (map (\<lambda>i. (8::nat, f i)) [0..<n]))) = 8 * n"
    by (simp add: comp_def rev_map sum_list_triv)
  with Suc show ?case by simp
qed simp

lemma ev_select_bytes:
  assumes "z_dom z arr = aw" and "z_rng z arr = 8" and "z_size z base = aw" and "0 < aw" and "0 < n"
  shows "\<exists>t. select_bytes arr base aw n = Inr t \<and> z_size z t = 8 * n \<and>
    ev m t = mem_read aw (eva m arr) (ev m base) n"
proof -
  let ?bs = "rev (map (\<lambda>i. Select arr (BvOp BvAdd base (BitVecVal (int i) aw))) [0..<n])"
  have ne: "?bs \<noteq> []" using assms by simp
  have "ev m (Select arr (BvOp BvAdd base (BitVecVal (int i) aw))) = eva m arr ((ev m base + int i) mod 2 ^ aw)" for i
    using assms by (simp add: ev_Select ev_address size_simps)
  moreover have "z_size z (Select arr (BvOp BvAdd base (BitVecVal (int i) aw))) = 8" for i
    using assms by (simp add: size_simps)
  ultimately have "map (\<lambda>t. (z_size z t, ev m t)) ?bs =
      rev (map (\<lambda>i. (8, eva m arr ((ev m base + int i) mod 2 ^ aw))) [0..<n])"
    and "sum_list (map (z_size z) ?bs) = 8 * n"
    by (simp_all add: rev_map comp_def sum_list_triv)
  with concat_or_single_ev [OF ne, of m] show ?thesis
    by (auto simp: select_bytes_def mem_read_concat)
qed

end

section \<open>The packet\<close>

lemma mem_write_take_bit: "mem_write aw mem b n (take_bit (8 * n) v) = mem_write aw mem b n v"
proof
  fix k
  let ?d = "nat ((k - b) mod 2 ^ aw)"
  have "take_bit 8 (drop_bit (8 * ?d) (take_bit (8 * n) v)) = take_bit 8 (drop_bit (8 * ?d) v)" if "?d < n"
    using that by (intro bit_eqI) (auto simp: bit_simps)
  moreover have "0 \<le> (k - b) mod 2 ^ aw" by simp
  ultimately show "mem_write aw mem b n (take_bit (8 * n) v) k = mem_write aw mem b n v k"
    by (auto simp: mem_write_def nat_less_iff)
qed

text \<open>The numeric address of an access.\<close>

definition access_address :: "nat \<Rightarrow> int \<Rightarrow> int option \<Rightarrow> int" where
  "access_address aw off var = (off + (case var of None \<Rightarrow> 0 | Some v \<Rightarrow> v)) mod 2 ^ aw"

context smtlib begin

lemma size_address: "0 < aw \<Longrightarrow> z_size z (address z aw off var) = aw"
  by (cases var) (simp_all add: address_def size_simps)

lemma ev_address_term:
  assumes "0 < aw"
  shows "ev m (address z aw off var) = access_address aw off (map_option (ev m) var)"
  using assms
  by (cases var) (simp_all add: address_def access_address_def ev_BitVecVal take_bit_eq_mod ev_BvOp
      size_simps ev_resize mod_simps add.commute)

lemma pkt_write:
  assumes "z_rng z (zs_pkt st) = 8" and "z_dom z (zs_pkt st) = aw" and "0 < aw" and "0 < n" and "n \<le> 2 ^ aw"
    and "enc_maybe (map_option (expr_to_z3 z st) vo) = Inr var" and "expr_to_z3 z st v = Inr t"
  shows "\<exists>arr. action_to_z3 z st idx (PktWrite pid off vo n (Some v)) = Inr (st\<lparr>zs_pkt := arr\<rparr>) \<and>
    z_dom z arr = aw \<and> z_rng z arr = 8 \<and>
    eva m arr = mem_write aw (eva m (zs_pkt st)) (access_address aw off (map_option (ev m) var)) n (ev m t)"
proof -
  let ?arr = "store_bytes (zs_pkt st) (address z aw off var) aw (resize z t (n * 8)) n"
  have "eva m ?arr = mem_write aw (eva m (zs_pkt st)) (access_address aw off (map_option (ev m) var)) n
      (take_bit (8 * n) (ev m t))"
    using eva_store_bytes [where arr = "zs_pkt st" and aw = aw and n = n and v = "resize z t (n * 8)" and m = m
        and base = "address z aw off var"] assms
    by (intro ext) (simp add: size_address ev_address_term ev_resize mult.commute)
  with assms show ?thesis
    by (intro exI [where x = ?arr]) (simp add: Let_def expr_opt_z3_def enc_opt_def mem_write_take_bit)
qed

lemma pkt_read:
  assumes "z_rng z (zs_pkt st) = 8" and "z_dom z (zs_pkt st) = aw" and "0 < aw" and "0 < n"
    and "zs_read_pkt st = None" and "enc_maybe (map_option (expr_to_z3 z st) vo) = Inr var"
  shows "\<exists>t. expr_to_z3 z st (Pkt_val blk idx off vo n) = Inr t \<and> z_size z t = 8 * n \<and>
    ev m t = mem_read aw (eva m (zs_pkt st)) (access_address aw off (map_option (ev m) var)) n"
  using ev_select_bytes [where arr = "zs_pkt st" and aw = aw and n = n and m = m
      and base = "address z aw off var"] assms
  by (simp add: reader_or_def Let_def size_address ev_address_term)

end

section \<open>Byte ranges of a bit string\<close>

text \<open>
  \<open>splice_bits W off n cur v\<close> is \<open>cur\<close>, a string of \<open>W\<close> bits, with the \<open>n\<close> bytes from byte
  \<open>off\<close> on replaced by those of \<open>v\<close>; \<open>field_bits\<close> reads such a range.
\<close>

definition splice_bits :: "nat \<Rightarrow> nat \<Rightarrow> nat \<Rightarrow> int \<Rightarrow> int \<Rightarrow> int" where
  "splice_bits W off n cur v =
     (let lo = 8 * off; hi = min (8 * (off + n)) W in
      if W \<le> lo then cur
      else push_bit hi (drop_bit hi cur) OR push_bit lo (take_bit (hi - lo) v) OR take_bit lo cur)"

definition field_bits :: "nat \<Rightarrow> nat \<Rightarrow> int \<Rightarrow> int" where
  "field_bits off n cur = take_bit (8 * n) (drop_bit (8 * off) cur)"

lemma bit_splice_bits:
  assumes "fits W cur"
  shows "bit (splice_bits W off n cur v) i =
    (if 8 * off \<le> i \<and> i < 8 * (off + n) \<and> i < W then bit v (i - 8 * off) else bit cur i)"
proof -
  have "\<not> bit cur i" if "W \<le> i"
    using that assms by (metis bit_take_bit_iff not_less)
  then show ?thesis by (auto simp: splice_bits_def Let_def bit_simps)
qed

lemma field_splice_bits:
  assumes "fits W cur" and "8 * (off + n) \<le> W"
  shows "field_bits off n (splice_bits W off n cur v) = take_bit (8 * n) v"
    and "off' + n' \<le> off \<or> off + n \<le> off' \<Longrightarrow>
      field_bits off' n' (splice_bits W off n cur v) = field_bits off' n' cur"
  using assms by (auto intro!: bit_eqI simp: field_bits_def bit_simps bit_splice_bits)

lemma fits_drop_take: "fits W c \<Longrightarrow> take_bit (W - h) (drop_bit h c) = drop_bit h (c::int)"
  by (metis drop_bit_take_bit)

lemma or_as_add:
  "fits n b \<Longrightarrow> push_bit n a + b = push_bit n a OR (b::int)"
proof (rule disjunctive_add)
  fix i assume "fits n b"
  then have "\<not> bit b i" if "n \<le> i" using that by (metis bit_take_bit_iff not_less)
  then show "\<not> bit (push_bit n a) i \<or> \<not> bit b i" by (auto simp: bit_simps)
qed

context smtlib begin

lemma ev_splice_bytes:
  assumes "0 < n" and "0 < z_size z cur"
  shows "\<exists>t. splice_bytes z cur (int off) n v = Inr t \<and> z_size z t = z_size z cur \<and>
    ev m t = splice_bits (z_size z cur) off n (ev m cur) (ev m v)"
proof (cases "z_size z cur \<le> 8 * off")
  case True
  then show ?thesis by (simp add: splice_bytes_def splice_bits_def Let_def mult.commute)
next
  case False
  let ?W = "z_size z cur" and ?lo = "8 * off"
  define hi where "hi = min (8 * (off + n)) ?W"
  have b: "?lo < hi" "hi \<le> ?W" using False assms by (auto simp: hi_def)
  let ?v = "resize z v (hi - ?lo)"
  let ?top = "if hi < ?W then [Extract (?W - 1) hi cur] else []"
  let ?bot = "if 0 < ?lo then [Extract (?lo - 1) 0 cur] else []"
  let ?ps = "?top @ [?v] @ ?bot"
  have "splice_bytes z cur (int off) n v = concat_or_single ?ps"
    using False by (simp add: splice_bytes_def Let_def hi_def mult.commute)
  moreover have "sum_list (map (z_size z) ?ps) = ?W"
    using b by (simp add: size_simps)
  moreover have "concat_sem (map (\<lambda>t. (z_size z t, ev m t)) ?ps) =
      splice_bits ?W off n (ev m cur) (ev m v)"
  proof -
    have v: "ev m ?v = take_bit (hi - ?lo) (ev m v)" using b by (simp add: ev_resize)
    have bot: "concat_sem (map (\<lambda>t. (z_size z t, ev m t)) ?bot) = take_bit ?lo (ev m cur)"
      "sum_list (map fst (map (\<lambda>t. (z_size z t, ev m t)) ?bot)) = ?lo"
      using b by (auto simp: size_simps ev_Extract)
    have mid: "concat_sem (map (\<lambda>t. (z_size z t, ev m t)) (?v # ?bot)) =
        push_bit ?lo (take_bit (hi - ?lo) (ev m v)) OR take_bit ?lo (ev m cur)"
      using bot v by (simp only: list.map concat_sem.simps) (simp add: or_as_add)
    have wm: "sum_list (map fst (map (\<lambda>t. (z_size z t, ev m t)) (?v # ?bot))) = hi"
      using bot(2) b by (simp only: list.map fst_conv sum_list.Cons) simp
    have fit: "fits hi (push_bit ?lo (take_bit (hi - ?lo) (ev m v)) OR take_bit ?lo (ev m cur))"
      using b by (intro bit_eqI) (auto simp: bit_simps)
    show ?thesis
    proof (cases "hi < ?W")
      case True
      have "ev m (Extract (?W - 1) hi cur) = drop_bit hi (ev m cur)"
        using True by (simp add: ev_Extract fits_drop_take ev_range)
      then have "concat_sem (map (\<lambda>t. (z_size z t, ev m t)) ?ps) =
          push_bit hi (drop_bit hi (ev m cur)) + concat_sem (map (\<lambda>t. (z_size z t, ev m t)) (?v # ?bot))"
        using True wm by simp
      also have "\<dots> = splice_bits ?W off n (ev m cur) (ev m v)"
        unfolding mid or_as_add [OF fit] using False by (simp add: splice_bits_def Let_def hi_def or.assoc)
      finally show ?thesis .
    next
      case F2: False
      then have "drop_bit hi (ev m cur) = 0"
        using b fits_drop_take [OF ev_range [of cur m], of hi] by simp
      then have "splice_bits ?W off n (ev m cur) (ev m v) =
          push_bit ?lo (take_bit (hi - ?lo) (ev m v)) OR take_bit ?lo (ev m cur)"
        using False unfolding splice_bits_def Let_def hi_def [symmetric] by simp
      then show ?thesis unfolding mid [symmetric] using F2 by simp
    qed
  qed
  ultimately show ?thesis using concat_or_single_ev [of ?ps m] by auto
qed

lemma ev_extract_bytes:
  assumes "0 < n"
  shows "\<exists>t. extract_bytes z v (int off) n = Inr t \<and> z_size z t = 8 * n \<and>
    ev m t = field_bits off n (ev m v)"
proof (cases "z_size z v \<le> 8 * off")
  case True
  have "drop_bit (8 * off) (ev m v) = 0"
    using fits_drop_take [OF ev_range [of v m], of "8 * off"] True by simp
  with True show ?thesis
    by (simp add: extract_bytes_def Let_def field_bits_def size_simps ev_BitVecVal mult.commute)
next
  case False
  define hi where "hi = min (8 * off + n * 8) (z_size z v)"
  have b: "8 * off < hi" "hi \<le> z_size z v" using False assms by (auto simp: hi_def)
  have e: "ev m (Extract (hi - 1) (8 * off) v) = take_bit (hi - 8 * off) (drop_bit (8 * off) (ev m v))"
    using b by (simp add: ev_Extract)
  also have "\<dots> = field_bits off n (ev m v)"
  proof (cases "8 * off + n * 8 \<le> z_size z v")
    case False
    then have "take_bit (8 * n) (drop_bit (8 * off) (ev m v)) = drop_bit (8 * off) (ev m v)"
      by (intro fits_mono [OF fits_drop_take [OF ev_range [of v m]]]) simp
    moreover have "hi = z_size z v" using False by (simp add: hi_def)
    ultimately show ?thesis by (simp only: field_bits_def fits_drop_take [OF ev_range [of v m]])
  next
    case True
    then have "hi - 8 * off = 8 * n" by (simp add: hi_def)
    then show ?thesis by (simp only: field_bits_def)
  qed
  finally have f: "ev m (Extract (hi - 1) (8 * off) v) = field_bits off n (ev m v)" .
  have "extract_bytes z v (int off) n = Inr (resize z (Extract (hi - 1) (8 * off) v) (8 * n))"
    using False by (simp add: extract_bytes_def Let_def hi_def mult.commute)
  with f assms show ?thesis by (simp add: ev_resize) (simp add: field_bits_def)
qed

end

text \<open>The variable offsets, as long as the range lies within the value.\<close>

context smtlib begin

lemma ev_shift:
  assumes "ev m off = int p" and "8 * (p + n) \<le> W" and "0 < n"
  shows "ev m (BvOp BvMul (resize z off W) (BitVecVal 8 W)) = int (8 * p)"
    and "z_size z (BvOp BvMul (resize z off W) (BitVecVal 8 W)) = W"
proof -
  have W: "8 * p + 8 \<le> W" using assms(2,3) by simp
  have "8 * p < 2 ^ W" and "8 < (2::nat) ^ W" and "p < 2 ^ W"
    using W less_exp [of W] by linarith+
  then have "int (8 * p) < 2 ^ W" "8 < (2::int) ^ W" "int p < 2 ^ W"
    by (metis of_nat_less_iff of_nat_power of_nat_numeral)+
  then show "ev m (BvOp BvMul (resize z off W) (BitVecVal 8 W)) = int (8 * p)"
    using W assms(1)
    by (simp add: ev_BvOp size_simps ev_resize ev_BitVecVal take_bit_int_eq_self mult.commute)
  show "z_size z (BvOp BvMul (resize z off W) (BitVecVal 8 W)) = W"
    using W by (simp add: size_simps)
qed

lemma ev_extract_bytes_var:
  assumes "ev m off = int p" and "8 * (p + n) \<le> z_size z v" and "0 < n"
  shows "z_size z (extract_bytes_var z v off n) = 8 * n \<and>
    ev m (extract_bytes_var z v off n) = field_bits p n (ev m v)"
proof -
  have "0 < z_size z v" using assms(2,3) by simp
  then show ?thesis
    using ev_shift [OF assms] assms(3)
    by (simp add: extract_bytes_var_def Let_def ev_resize ev_BvOp field_bits_def mult.commute
        del: of_nat_mult)
qed

lemma ev_splice_bytes_var:
  assumes "ev m off = int p" and "8 * (p + n) \<le> z_size z cur" and "0 < n"
  shows "z_size z (splice_bytes_var z cur off n v) = z_size z cur \<and>
    ev m (splice_bytes_var z cur off n v) = splice_bits (z_size z cur) p n (ev m cur) (ev m v)"
proof -
  let ?W = "z_size z cur"
  have W: "0 < ?W" using assms(2,3) by simp
  let ?shift = "BvOp BvMul (resize z off ?W) (BitVecVal 8 ?W)"
  note sh = ev_shift [OF assms]
  let ?msk = "BvOp BvShl (resize z (BitVecVal (pymask (n * 8)) (n * 8)) ?W) ?shift"
  have msk: "ev m ?msk = push_bit (8 * p) (mask (8 * n))" "z_size z ?msk = ?W"
    using assms W sh
    by (auto simp: ev_BvOp ev_resize ev_BitVecVal pymask_eq_mask size_simps mult.commute
        simp del: of_nat_mult intro!: bit_eqI) (auto simp: bit_simps)
  let ?val = "BvOp BvShl (resize z v ?W) ?shift"
  have val: "ev m ?val = take_bit ?W (push_bit (8 * p) (take_bit ?W (ev m v)))" "z_size z ?val = ?W"
    using W sh by (simp_all add: ev_BvOp ev_resize size_simps del: of_nat_mult)
  have e: "ev m (splice_bytes_var z cur off n v) =
      (ev m cur AND take_bit ?W (NOT (push_bit (8 * p) (mask (8 * n))))) OR
      (take_bit ?W (push_bit (8 * p) (take_bit ?W (ev m v))) AND push_bit (8 * p) (mask (8 * n)))"
    and s: "z_size z (splice_bytes_var z cur off n v) = ?W"
    using W msk val by (simp_all add: splice_bytes_var_def Let_def ev_BvOp ev_BvNot size_simps)
  have nb: "\<not> bit (ev m cur) i" if "?W \<le> i" for i
    using that ev_range [of cur m] by (metis bit_take_bit_iff not_less)
  have "ev m (splice_bytes_var z cur off n v) = splice_bits ?W p n (ev m cur) (ev m v)"
    unfolding e using assms(2) nb
    by (intro bit_eqI) (auto simp: bit_simps bit_splice_bits [OF ev_range])
  with s show ?thesis by blast
qed

end

section \<open>Maps\<close>

text \<open>A map under an assignment, as a partial function from keys to values.\<close>

definition map_view :: "('m \<Rightarrow> avt \<Rightarrow> int \<Rightarrow> int) \<Rightarrow> ('m \<Rightarrow> abt \<Rightarrow> int \<Rightarrow> bool) \<Rightarrow> 'm \<Rightarrow> abt \<times> avt \<Rightarrow> (int \<rightharpoonup> int)" where
  "map_view eva evab m pv = (\<lambda>k. if evab m (fst pv) k then Some (eva m (snd pv) k) else None)"

text \<open>
  \<open>bpf_map_update_elem\<close> by its flags: any, only a new key, only an existing one, an invalid
  mode.  Flags the analysis does not know (\<open>None\<close>) leave it to \<open>applies\<close>.
\<close>

definition update_mode :: "int option \<Rightarrow> bool \<Rightarrow> bool \<Rightarrow> bool" where
  "update_mode flags applies present =
     (case flags of
        None \<Rightarrow> applies
      | Some f \<Rightarrow> (if f AND 3 = 0 then True else if f AND 3 = 1 then \<not> present
                  else if f AND 3 = 2 then present else False))"

definition update_spec :: "int option \<Rightarrow> bool \<Rightarrow> int \<Rightarrow> int \<Rightarrow> (int \<rightharpoonup> int) \<Rightarrow> (int \<rightharpoonup> int)" where
  "update_spec flags applies k v M = (if update_mode flags applies (M k \<noteq> None) then M(k \<mapsto> v) else M)"

lemma map_at_nth: "i < length (zs_map st) \<Longrightarrow> map_at st (Some (int i)) = Inr (zs_map st ! i)"
  by (simp add: map_at_def)

lemma upd_map_nth:
  "i < length (zs_map st) \<Longrightarrow> upd_map st (Some (int i)) f = Inr (st\<lparr>zs_map := (zs_map st)[i := f (zs_map st ! i)]\<rparr>)"
  by (simp add: upd_map_def py_index_def)

lemma hash_not_array:
  "is_hash_map st mid \<Longrightarrow> \<not> is_array_map st mid \<and> \<not> is_prog_map st mid \<and> map_info_of st mid \<noteq> None"
  by (auto simp: is_hash_map_def is_array_map_def is_prog_map_def map_type_in_def HASH_MAP_TYPES_def
      ARRAY_MAP_TYPES_def PROG_MAP_TYPES_def split: option.splits)

abbreviation applies_name :: "int \<Rightarrow> string" where
  "applies_name idx \<equiv> ''update'' @ show_int idx @ ''_applies''"

context smtlib begin

abbreviation view :: "'m \<Rightarrow> abt \<times> avt \<Rightarrow> (int \<rightharpoonup> int)" where
  "view \<equiv> map_view eva evab"

lemma map_key_nth:
  assumes "i < length (zs_map st)" and "zs_map st ! i = (pres, vals)" and "z_dom z vals = kw" and "0 < kw"
    and "key = Inr kt"
  shows "\<exists>t. map_key_z3 z st (Some (int i)) key = Inr t \<and> z_size z t = kw \<and> ev m t = take_bit kw (ev m kt)"
  using assms by (simp add: map_key_z3_def map_at_nth ev_resize)

lemma map_update_hash:
  assumes i: "i < length (zs_map st)" and pv: "zs_map st ! i = (pres, vals)"
    and h: "is_hash_map st (Some (int i))" and dims: "z_dom z vals = kw" "z_rng z vals = vw" "0 < kw" "0 < vw"
    and k: "expr_to_z3 z st k = Inr kt" and v: "expr_to_z3 z st v = Inr vt"
  shows "\<exists>pv'. action_to_z3 z st idx (MapUpdate (Some (int i)) (Some k) (Some v) flags sz) =
      Inr (st\<lparr>zs_map := (zs_map st)[i := pv']\<rparr>) \<and>
    view m pv' = update_spec flags (evb m (Bool (applies_name idx))) (take_bit kw (ev m kt))
      (take_bit vw (ev m vt)) (view m (pres, vals))"
proof -
  obtain key where key: "map_key_z3 z st (Some (int i)) (expr_opt_z3 z st (Some k)) = Inr key"
    "z_size z key = kw" "ev m key = take_bit kw (ev m kt)"
    using map_key_nth [OF i pv dims(1,3), of "expr_opt_z3 z st (Some k)" kt m] k
    by (auto simp: expr_opt_z3_def enc_opt_def)
  let ?v = "resize z vt vw" and ?p = "SelectB pres key"
  have ev_v: "ev m ?v = take_bit vw (ev m vt)" using dims by (simp add: ev_resize)
  let ?upd = "update_applies idx flags ?p"
  have act: "action_to_z3 z st idx (MapUpdate (Some (int i)) (Some k) (Some v) flags sz) =
      (case ?upd of Py False \<Rightarrow> Inr st | Py True \<Rightarrow> map_store st (Some (int i)) key ?v True
       | Z ok \<Rightarrow> Inr (st\<lparr>zs_map := (zs_map st)[i := (StoreB pres key (BOr [ok, ?p]),
             Store vals key (BvIf ok ?v (Select vals key)))]\<rparr>))"
    using hash_not_array [OF h] h i pv key(1) v dims
    by (auto simp: no_map_def map_update_z3_def map_at_nth upd_map_nth expr_opt_z3_def enc_opt_def Let_def
        split: lit.split bool.split)
  have upd: "(\<exists>b. ?upd = Py b \<and> b = update_mode flags (evb m (Bool (applies_name idx))) (evb m ?p)) \<or>
      (\<exists>c. ?upd = Z c \<and> evb m c = update_mode flags (evb m (Bool (applies_name idx))) (evb m ?p))"
    by (auto simp: update_applies_def update_mode_def Let_def not_lit_def evb_Not split: option.split)
  have p: "evb m ?p = (view m (pres, vals) (take_bit kw (ev m kt)) \<noteq> None)"
    by (simp add: map_view_def evb_SelectB key(3))
  let ?mode = "update_mode flags (evb m (Bool (applies_name idx))) (evb m ?p)"
  have store: "eva m (Store vals key t) = (eva m vals)(ev m key := ev m t)" if "z_size z t = vw" for t
    using that key dims by (simp add: eva_Store)
  from upd show ?thesis
  proof (elim disjE exE conjE)
    fix b assume b: "?upd = Py b" "b = ?mode"
    show ?thesis
    proof (cases b)
      case True
      with act b h i pv show ?thesis
        by (intro exI [where x = "(StoreB pres key (BoolVal True), Store vals key ?v)"])
          (auto simp: map_store_def upd_map_nth map_view_def update_spec_def evab_StoreB evb_BoolVal store
            dims ev_v key(3) p [unfolded map_view_def] fun_eq_iff)
    next
      case False
      with act b pv have "action_to_z3 z st idx (MapUpdate (Some (int i)) (Some k) (Some v) flags sz) = Inr st"
        by simp
      moreover have "st\<lparr>zs_map := (zs_map st)[i := (pres, vals)]\<rparr> = st" using pv by (simp add: list_update_same_conv i)
      ultimately show ?thesis using False b
        by (intro exI [where x = "(pres, vals)"]) (simp add: update_spec_def p)
    qed
  next
    fix c assume c: "?upd = Z c" "evb m c = ?mode"
    have sel: "z_size z (BvIf c ?v (Select vals key)) = vw"
      "ev m (BvIf c ?v (Select vals key)) = (if ?mode then take_bit vw (ev m vt) else eva m vals (take_bit kw (ev m kt)))"
      using dims key c by (simp_all add: size_simps ev_BvIf ev_Select ev_v)
    from act c show ?thesis
      by (intro exI [where x = "(StoreB pres key (BOr [c, ?p]), Store vals key (BvIf c ?v (Select vals key)))"])
        (auto simp: map_view_def update_spec_def evab_StoreB evb_Or store sel key(3) p [unfolded map_view_def]
          evb_SelectB fun_eq_iff)
  qed
qed

end

context smtlib begin

lemma map_delete_hash:
  assumes i: "i < length (zs_map st)" and pv: "zs_map st ! i = (pres, vals)"
    and h: "is_hash_map st (Some (int i))" and dims: "z_dom z vals = kw" "0 < kw"
    and k: "expr_to_z3 z st k = Inr kt"
  shows "\<exists>pv'. action_to_z3 z st idx (MapDelete (Some (int i)) (Some k)) =
      Inr (st\<lparr>zs_map := (zs_map st)[i := pv']\<rparr>) \<and>
    view m pv' = (view m (pres, vals))(take_bit kw (ev m kt) := None)"
proof -
  obtain key where key: "map_key_z3 z st (Some (int i)) (expr_opt_z3 z st (Some k)) = Inr key"
    "ev m key = take_bit kw (ev m kt)"
    using map_key_nth [OF i pv dims, of "expr_opt_z3 z st (Some k)" kt m] k
    by (auto simp: expr_opt_z3_def enc_opt_def)
  have "action_to_z3 z st idx (MapDelete (Some (int i)) (Some k)) =
      Inr (st\<lparr>zs_map := (zs_map st)[i := (StoreB pres key (BoolVal False), vals)]\<rparr>)"
    using h i pv key(1) by (simp add: no_map_def upd_map_nth)
  then show ?thesis
    by (intro exI [where x = "(StoreB pres key (BoolVal False), vals)"])
      (simp add: map_view_def evab_StoreB evb_BoolVal key(2) fun_eq_iff)
qed

text \<open>A store through the pointer of a lookup changes the bytes of an entry, and adds none.\<close>

lemma map_write_hash:
  assumes i: "i < length (zs_map st)" and pv: "zs_map st ! i = (pres, vals)"
    and dims: "z_dom z vals = kw" "z_rng z vals = vw" "0 < kw" "0 < vw" "0 < n"
    and k: "expr_to_z3 z st k = Inr kt" and v: "expr_to_z3 z st v = Inr vt"
  shows "\<exists>pv'. action_to_z3 z st idx (MapWrite (Some (int i)) (Some k) (int off) n (Some v) None) =
      Inr (st\<lparr>zs_map := (zs_map st)[i := pv']\<rparr>) \<and>
    view m pv' = (let M = view m (pres, vals); key = take_bit kw (ev m kt)
      in M(key := map_option (\<lambda>cur. splice_bits vw off n cur (ev m vt)) (M key)))"
proof -
  obtain key where key: "map_key_z3 z st (Some (int i)) (expr_opt_z3 z st (Some k)) = Inr key"
    "z_size z key = kw" "ev m key = take_bit kw (ev m kt)"
    using map_key_nth [OF i pv dims(1,3), of "expr_opt_z3 z st (Some k)" kt m] k
    by (auto simp: expr_opt_z3_def enc_opt_def)
  let ?cur = "Select vals key"
  have cur: "z_size z ?cur = vw" "ev m ?cur = eva m vals (take_bit kw (ev m kt))"
    using dims key by (simp_all add: size_simps ev_Select)
  then obtain t where t: "splice_bytes z ?cur (int off) n vt = Inr t" "z_size z t = vw"
    "ev m t = splice_bits vw off n (eva m vals (take_bit kw (ev m kt))) (ev m vt)"
    using ev_splice_bytes [of n ?cur off vt m] dims by auto
  have "action_to_z3 z st idx (MapWrite (Some (int i)) (Some k) (int off) n (Some v) None) =
      Inr (st\<lparr>zs_map := (zs_map st)[i := (pres, Store vals key t)]\<rparr>)"
    using i pv key(1) t(1) v
    by (simp add: no_map_def map_write_z3_def map_at_nth upd_map_nth map_store_def expr_opt_z3_def enc_opt_def Let_def)
  moreover have "eva m (Store vals key t) = (eva m vals)(ev m key := ev m t)"
    using key(2) t(2) dims by (simp add: eva_Store)
  ultimately show ?thesis
    by (intro exI [where x = "(pres, Store vals key t)"])
      (auto simp: map_view_def key(3) t(3) Let_def fun_eq_iff)
qed

text \<open>The presence test of a lookup.\<close>

lemma lookup_hash:
  assumes i: "i < length (zs_map st)" and pv: "zs_map st ! i = (pres, vals)"
    and h: "is_hash_map st (Some (int i))" and dims: "z_dom z vals = kw" "0 < kw"
    and r: "zs_read_present st = None" and k: "expr_to_z3 z st k = Inr kt"
  shows "\<exists>c. cond_to_z3 z st (Contain_map_value (Some (int i)) (Some k) kid result) = Inr (Z c) \<and>
    evb m c = ((view m (pres, vals) (take_bit kw (ev m kt)) \<noteq> None) = result)"
proof -
  obtain key where key: "map_key_z3 z st (Some (int i)) (expr_to_z3 z st k) = Inr key"
    "ev m key = take_bit kw (ev m kt)"
    using map_key_nth [OF i pv dims, of "expr_to_z3 z st k" kt m] k by auto
  then show ?thesis
    using hash_not_array [OF h] r i pv
    by (simp add: contain_z3_def map_at_nth evb_BoolEq evb_SelectB map_view_def)
qed

end

section \<open>Claims\<close>

lemma enc_maybe_None [simp]: "enc_maybe None = Inr None"
  by (simp add: enc_maybe_def)

text \<open>
  Claim C14.  The packet is a memory of bytes: a store replaces exactly the bytes at its address,
  wherever a variable offset puts it, keeps everything else of the state, and every later load
  reads the stored memory, so that a load of the range just stored gives the stored bits back.
\<close>

theorem packet_write_read:
  assumes "smtlib z ev evb eva evab"
    and "z_rng z (zs_pkt st) = 8" and "z_dom z (zs_pkt st) = aw" and "0 < aw" and "0 < n" and "n \<le> 2 ^ aw"
    and "zs_read_pkt st = None" and "enc_maybe (map_option (expr_to_z3 z st) vo) = Inr var"
    and "expr_to_z3 z st v = Inr t"
  shows "\<exists>arr. action_to_z3 z st idx (PktWrite pid off vo n (Some v)) = Inr (st\<lparr>zs_pkt := arr\<rparr>) \<and>
     eva m arr = mem_write aw (eva m (zs_pkt st)) (access_address aw off (map_option (ev m) var)) n (ev m t) \<and>
     (\<forall>blk i off2 vo2 n2. \<forall>var2. 0 < n2 \<longrightarrow>
        enc_maybe (map_option (expr_to_z3 z (st\<lparr>zs_pkt := arr\<rparr>)) vo2) = Inr var2 \<longrightarrow>
        (\<exists>r. expr_to_z3 z (st\<lparr>zs_pkt := arr\<rparr>) (Pkt_val blk i off2 vo2 n2) = Inr r \<and>
           ev m r = mem_read aw (eva m arr) (access_address aw off2 (map_option (ev m) var2)) n2 \<and>
           (n2 = n \<and> access_address aw off2 (map_option (ev m) var2) =
               access_address aw off (map_option (ev m) var) \<longrightarrow> ev m r = take_bit (8 * n) (ev m t))))"
proof -
  obtain arr where arr: "action_to_z3 z st idx (PktWrite pid off vo n (Some v)) = Inr (st\<lparr>zs_pkt := arr\<rparr>)"
    "z_dom z arr = aw" "z_rng z arr = 8"
    "eva m arr = mem_write aw (eva m (zs_pkt st)) (access_address aw off (map_option (ev m) var)) n (ev m t)"
    using smtlib.pkt_write [OF assms(1-6,8,9), of idx pid off m] by blast
  have rd: "\<exists>r. expr_to_z3 z (st\<lparr>zs_pkt := arr\<rparr>) (Pkt_val blk i off2 vo2 n2) = Inr r \<and>
      ev m r = mem_read aw (eva m arr) (access_address aw off2 (map_option (ev m) var2)) n2"
    if "0 < n2" "enc_maybe (map_option (expr_to_z3 z (st\<lparr>zs_pkt := arr\<rparr>)) vo2) = Inr var2"
    for blk i off2 vo2 n2 var2
    using smtlib.pkt_read [OF assms(1), where st = "st\<lparr>zs_pkt := arr\<rparr>" and aw = aw and n = n2 and vo = vo2
        and var = var2 and blk = blk and idx = i and off = off2 and m = m] arr(2,3) assms(4,7) that
    by auto
  show ?thesis
  proof (intro exI [where x = arr] conjI allI impI)
    fix blk i off2 :: int and vo2 and n2 :: nat and var2
    assume "0 < n2" "enc_maybe (map_option (expr_to_z3 z (st\<lparr>zs_pkt := arr\<rparr>)) vo2) = Inr var2"
    from rd [OF this] obtain r where r: "expr_to_z3 z (st\<lparr>zs_pkt := arr\<rparr>) (Pkt_val blk i off2 vo2 n2) = Inr r"
      "ev m r = mem_read aw (eva m arr) (access_address aw off2 (map_option (ev m) var2)) n2" by blast
    moreover have "ev m r = take_bit (8 * n) (ev m t)"
      if "n2 = n \<and> access_address aw off2 (map_option (ev m) var2) = access_address aw off (map_option (ev m) var)"
      using that r(2) arr(4) mem_read_write [OF assms(6)] by simp
    ultimately show "\<exists>r. expr_to_z3 z (st\<lparr>zs_pkt := arr\<rparr>) (Pkt_val blk i off2 vo2 n2) = Inr r \<and>
      ev m r = mem_read aw (eva m arr) (access_address aw off2 (map_option (ev m) var2)) n2 \<and>
      (n2 = n \<and> access_address aw off2 (map_option (ev m) var2) = access_address aw off (map_option (ev m) var) \<longrightarrow>
         ev m r = take_bit (8 * n) (ev m t))"
      by blast
  qed (rule arr)+
qed

theorem packet_write_read_witness:
  "\<exists>arr r. action_to_z3 std_queries (make_init_state [] []) 7
       (PktWrite 3 12 (Some (Scalar 8 1)) 2 (Some (Num 0x10800 8 0))) = Inr (make_init_state [] []\<lparr>zs_pkt := arr\<rparr>) \<and>
     expr_to_z3 std_queries (make_init_state [] []\<lparr>zs_pkt := arr\<rparr>) (Pkt_val 0 0 17 None 2) = Inr r \<and>
     eval_bv demo_env r = 0x800"
proof -
  define st where "st = make_init_state [] []"
  have st: "z_rng std_queries (zs_pkt st) = 8" "z_dom std_queries (zs_pkt st) = 16" "zs_read_pkt st = None"
    by (simp_all add: st_def make_init_state_def std_queries_def)
  have vo: "enc_maybe (map_option (expr_to_z3 std_queries st) (Some (Scalar 8 1))) =
      Inr (Some (BitVec (''scalar'' @ show_int 1) 64))"
    by (simp add: enc_maybe_def)
  have num: "expr_to_z3 std_queries st (Num 0x10800 8 0) = Inr (BitVecVal 0x10800 64)" by simp
  have adr: "access_address 16 17 (map_option (eval_bv demo_env) None) =
      access_address 16 12 (map_option (eval_bv demo_env) (Some (BitVec (''scalar'' @ show_int 1) 64)))"
    by (simp add: access_address_def demo_env_def)
  show ?thesis
    using packet_write_read [OF smtlib_std st(1,2) _ _ _ st(3) vo num, of 2 7 3 12 demo_env]
    apply (elim impE meta_impE)
       apply simp_all [3]
    apply (elim exE conjE)
    subgoal premises p for arr
      using p(1) p(3) [rule_format, of 2 None None 0 0 17] adr by (auto simp: st_def)
    done
qed

text \<open>
  Claim C15.  A hash map behaves as a partial function from keys to values: an update follows its
  flags (any entry, only a new one, only an existing one; unknown flags leave it open), a delete
  removes the entry, a store through a looked-up pointer replaces bytes of the entry and adds none,
  and a lookup succeeds exactly on the keys that are present.
\<close>

theorem hash_map_refines:
  assumes "smtlib z ev evb eva evab"
    and i: "i < length (zs_map st)" and pv: "zs_map st ! i = (pres, vals)"
    and h: "is_hash_map st (Some (int i))"
    and dims: "z_dom z vals = kw" "z_rng z vals = vw" "0 < kw" "0 < vw"
    and r: "zs_read_present st = None" and kv: "expr_to_z3 z st k = Inr kt" "expr_to_z3 z st v = Inr vt"
    and M: "M = map_view eva evab m (pres, vals)" and key: "key = take_bit kw (ev m kt)"
  shows "(\<exists>pv'. action_to_z3 z st idx (MapUpdate (Some (int i)) (Some k) (Some v) flags sz) =
             Inr (st\<lparr>zs_map := (zs_map st)[i := pv']\<rparr>) \<and>
           map_view eva evab m pv' =
             update_spec flags (evb m (Bool (applies_name idx))) key (take_bit vw (ev m vt)) M) \<and>
     (\<exists>pv'. action_to_z3 z st idx (MapDelete (Some (int i)) (Some k)) =
             Inr (st\<lparr>zs_map := (zs_map st)[i := pv']\<rparr>) \<and> map_view eva evab m pv' = M(key := None)) \<and>
     (\<exists>pv'. action_to_z3 z st idx (MapWrite (Some (int i)) (Some k) (int off) (Suc n) (Some v) None) =
             Inr (st\<lparr>zs_map := (zs_map st)[i := pv']\<rparr>) \<and>
           map_view eva evab m pv' =
             M(key := map_option (\<lambda>cur. splice_bits vw off (Suc n) cur (ev m vt)) (M key))) \<and>
     (\<exists>c. cond_to_z3 z st (Contain_map_value (Some (int i)) (Some k) kid hit) = Inr (Z c) \<and>
           evb m c = ((M key \<noteq> None) = hit))"
  using smtlib.map_update_hash [OF assms(1) i pv h dims kv, of idx flags sz m]
    smtlib.map_delete_hash [OF assms(1) i pv h dims(1,3) kv(1), of idx m]
    smtlib.map_write_hash [OF assms(1) i pv dims _ kv, of "Suc n" idx off m]
    smtlib.lookup_hash [OF assms(1) i pv h dims(1,3) r kv(1), of kid hit m]
  unfolding M key Let_def by blast

text \<open>A state with one hash map, for the witnesses.\<close>

definition demo_maps :: "map_info list" where
  "demo_maps = [\<lparr>m_id = 0, m_name = Some ''m'', m_type = 1, m_key_size = 4, m_value_size = 8,
     m_max_entries = 16, m_flags = 0\<rparr>]"

theorem hash_map_refines_witness:
  "\<exists>pv'. action_to_z3 std_queries (make_init_state demo_maps demo_maps) 3
       (MapUpdate (Some 0) (Some (Scalar 4 1)) (Some (Num 9 8 2)) (Some 1) 8) =
       Inr (make_init_state demo_maps demo_maps\<lparr>zs_map := [pv']\<rparr>) \<and>
     map_view eval_a eval_ab demo_env pv' = (\<lambda>k. Some 0)"
proof -
  let ?st = "make_init_state demo_maps demo_maps"
  let ?pres = "ArrayB (''present'' @ show_int 0) 32" and ?vals = "Array (''value'' @ show_int 0) 32 64"
  have st: "zs_map ?st = [(?pres, ?vals)]" "is_hash_map ?st (Some (int 0))" "zs_read_present ?st = None"
    by (simp_all add: make_init_state_def demo_maps_def is_hash_map_def map_type_in_def map_info_of_def
        HASH_MAP_TYPES_def)
  have view: "map_view eval_a eval_ab demo_env (?pres, ?vals) = (\<lambda>k. Some 0)"
    by (simp add: map_view_def demo_env_def fun_eq_iff)
  have kv: "expr_to_z3 std_queries ?st (Scalar 4 1) = Inr (BitVec (''scalar'' @ show_int 1) 32)"
    "expr_to_z3 std_queries ?st (Num 9 8 2) = Inr (BitVecVal 9 64)" by simp_all
  have i: "0 < length (zs_map ?st)" "zs_map ?st ! 0 = (?pres, ?vals)" by (simp_all add: st(1))
  have dims: "z_dom std_queries ?vals = 32" "z_rng std_queries ?vals = 64" by (simp_all add: std_queries_def)
  have ev: "take_bit 32 (eval_bv demo_env (BitVec (''scalar'' @ show_int 1) 32)) = 5" "eval_bv demo_env (BitVecVal 9 64) = 9"
    by (simp_all add: demo_env_def)
  have "\<exists>pv'. action_to_z3 std_queries ?st 3
       (MapUpdate (Some (int 0)) (Some (Scalar 4 1)) (Some (Num 9 8 2)) (Some 1) 8) =
       Inr (?st\<lparr>zs_map := (zs_map ?st)[0 := pv']\<rparr>) \<and>
     map_view eval_a eval_ab demo_env pv' =
       update_spec (Some 1) (eval_b demo_env (Bool (applies_name 3))) 5 (take_bit 64 9) (\<lambda>k. Some 0)"
    using hash_map_refines [OF smtlib_std i st(2) dims _ _ st(3) kv refl refl, where m = demo_env and idx = 3
        and flags = "Some 1" and sz = 8, THEN conjunct1]
    unfolding view ev by (simp only: simp_thms take_bit_num_simps)
  then show ?thesis by (simp add: st(1) update_spec_def update_mode_def)
qed

text \<open>
  Reading and replacing bytes of a value are exact, with a constant offset and with a
  variable one alike: the replaced value keeps its width, has the bytes of the new value in the
  range and its own bytes everywhere else, and reading the range back gives what was written.  With
  a constant offset, a range that leaves the value is cut off at its end; a variable offset is
  exact as long as the range lies inside.
\<close>

theorem field_roundtrip:
  assumes "smtlib z ev evb eva evab" and "0 < n" and "0 < z_size z cur"
    and inside: "8 * (p + n) \<le> z_size z cur" and off: "ev m off = int p"
  shows "\<exists>t r. splice_bytes z cur (int p) n v = Inr t \<and> extract_bytes z t (int p) n = Inr r \<and>
     z_size z t = z_size z cur \<and> ev m r = take_bit (8 * n) (ev m v) \<and>
     ev m (splice_bytes_var z cur off n v) = ev m t \<and>
     ev m (extract_bytes_var z (splice_bytes_var z cur off n v) off n) = take_bit (8 * n) (ev m v) \<and>
     (\<forall>p' n'. 0 < n' \<and> (p' + n' \<le> p \<or> p + n \<le> p') \<longrightarrow>
        (\<exists>a b. extract_bytes z t (int p') n' = Inr a \<and> extract_bytes z cur (int p') n' = Inr b \<and>
           ev m a = ev m b))"
proof -
  note ex = smtlib.ev_extract_bytes [OF assms(1), where m = m]
  note rg = smtlib.ev_range [OF assms(1), of cur m]
  obtain t where t: "splice_bytes z cur (int p) n v = Inr t" "z_size z t = z_size z cur"
    "ev m t = splice_bits (z_size z cur) p n (ev m cur) (ev m v)"
    using smtlib.ev_splice_bytes [OF assms(1,2,3), of p v m] by blast
  obtain r where r: "extract_bytes z t (int p) n = Inr r" "ev m r = field_bits p n (ev m t)"
    using ex [OF assms(2), of t p] by blast
  have var: "ev m (splice_bytes_var z cur off n v) = ev m t"
    "z_size z (splice_bytes_var z cur off n v) = z_size z cur"
    using smtlib.ev_splice_bytes_var [OF assms(1) off inside assms(2), of v] t(3) by auto
  have again: "field_bits p n (ev m t) = take_bit (8 * n) (ev m v)"
    using field_splice_bits(1) [OF rg inside] t(3) by simp
  moreover have "ev m (extract_bytes_var z (splice_bytes_var z cur off n v) off n) = field_bits p n (ev m t)"
    using smtlib.ev_extract_bytes_var [OF assms(1) off, of n "splice_bytes_var z cur off n v"] inside assms(2) var
    by simp
  moreover have "\<exists>a b. extract_bytes z t (int p') n' = Inr a \<and> extract_bytes z cur (int p') n' = Inr b \<and> ev m a = ev m b"
    if "0 < n' \<and> (p' + n' \<le> p \<or> p + n \<le> p')" for p' n'
    using ex [of n' t p'] ex [of n' cur p'] field_splice_bits(2) [OF rg inside, of p' n'] that t(3) by fastforce
  ultimately show ?thesis using t r var by auto
qed

theorem field_roundtrip_witness:
  "\<exists>t r. splice_bytes std_queries (BitVec ''cur'' 64) 2 2 (BitVecVal 0xABCD 16) = Inr t \<and>
     extract_bytes std_queries t 2 2 = Inr r \<and> eval_bv demo_env r = 0xABCD"
proof -
  have s: "0 < z_size std_queries (BitVec ''cur'' 64)" "8 * (2 + 2) \<le> z_size std_queries (BitVec ''cur'' 64)"
    "eval_bv demo_env (BitVecVal 2 64) = int 2"
    by (simp_all add: std_queries_def)
  show ?thesis
    using field_roundtrip [OF smtlib_std _ s, of "BitVecVal 0xABCD 16"] by auto
qed

end
