(* ===== verification/Atoms.thy ===== *)
theory Atoms
  imports Encode_Mem
begin

text \<open>
  The conditions of \<open>hornet/verify/spec.py\<close>: the atoms a policy is made of, the tree of \<open>and\<close>,
  \<open>or\<close> and \<open>not\<close> above them, and their translation into Z3 (\<open>to_z3\<close>).  A comparison is named by a
  constructor of \<open>cmp_op\<close>; the parser has checked the name.  The two kinds of \<open>HelperAtom\<close>,
  \<open>'scalar'\<close> and \<open>'map_null'\<close>, are two constructors.
\<close>

datatype cmp_op = OpEq | OpNe | OpLt | OpLe | OpGt | OpGe

datatype ctx_target = T_ingress | T_rx_index | T_egress

datatype atom =
    PktAtom int nat "int list" cmp_op
  | MapAtom int int "bool option" "int option" nat nat
  | BssAtom string int nat int cmp_op
  | LenAtom "int option" "int option"
  | ScalarAtom ctx_target int
  | HelperScalar int int nat cmp_op int "val option"
  | HelperNull int int bool "int option" "val option" "int option"
  | RetAtom cmp_op int
  | ReadAtom "(val \<times> nat) list" cmp_op int nat nat int "int option"

text \<open>
  The arguments: \<open>PktAtom offset size data op\<close>; \<open>MapAtom map_id key present value key_size value_size\<close>;
  \<open>BssAtom sym offset size value op\<close>; \<open>LenAtom min max\<close>; \<open>ScalarAtom target value\<close>;
  \<open>HelperScalar imm idx size op value retval\<close>; \<open>HelperNull imm idx result map_id map_key map_key_id\<close>;
  \<open>RetAtom op value\<close>; \<open>ReadAtom parts op target size region offset map_id\<close>.
\<close>

datatype cond_node = CLeaf atom | CNot cond_node | CAnd "cond_node list" | COr "cond_node list"

definition z3_and :: "bt list \<Rightarrow> bt" where
  "z3_and bs = foldr BAnd bs (BoolVal True)"

text \<open>The six comparisons of bit-vectors of one width; \<open>eq\<close>, or anything else as \<open>ne\<close>.\<close>

fun cmp_z3 :: "cmp_op \<Rightarrow> bvt \<Rightarrow> bvt \<Rightarrow> bt" where
  "cmp_z3 OpEq a b = BvEq a b"
| "cmp_z3 OpNe a b = BvNe a b"
| "cmp_z3 OpLt a b = BvCmp BvUlt a b"
| "cmp_z3 OpLe a b = BvCmp BvUle a b"
| "cmp_z3 OpGt a b = BvCmp BvUgt a b"
| "cmp_z3 OpGe a b = BvCmp BvUge a b"

definition eq_or_not :: "cmp_op \<Rightarrow> bt \<Rightarrow> bt" where
  "eq_or_not c b = (if c = OpEq then b else BNot b)"

text \<open>One byte of a location: through the state's \<open>read_loc\<close> if it has one.\<close>

definition loc_term :: "(mem_loc \<Rightarrow> bvt option res) \<Rightarrow> mem_loc \<Rightarrow> bvt res" where
  "loc_term f l = ebind (f l) (\<lambda>t. case t of None \<Rightarrow> Inl TypeError | Some t \<Rightarrow> Inr t)"

definition pkt_loc :: "int \<Rightarrow> mem_loc" where
  "pkt_loc off = \<lparr>ml_region = 0, ml_off = off, ml_size = 1, ml_map_id = None, ml_map_key = None, ml_bss_key = None\<rparr>"

definition map_loc :: "int \<Rightarrow> val \<Rightarrow> int \<Rightarrow> mem_loc" where
  "map_loc mid key off =
     \<lparr>ml_region = 1, ml_off = off, ml_size = 1, ml_map_id = Some mid, ml_map_key = Some key, ml_bss_key = None\<rparr>"

definition bss_loc :: "string \<Rightarrow> int \<Rightarrow> mem_loc" where
  "bss_loc sy off = \<lparr>ml_region = 3, ml_off = off, ml_size = 1, ml_map_id = None, ml_map_key = None, ml_bss_key = Some sy\<rparr>"

definition pkt_byte :: "z3_queries \<Rightarrow> z3_state \<Rightarrow> int \<Rightarrow> bvt res" where
  "pkt_byte z st off =
     (case zs_read_loc st of
        Some f \<Rightarrow> loc_term f (pkt_loc off)
      | None \<Rightarrow> Inr (Select (zs_pkt st) (BitVecVal off (z_dom z (zs_pkt st)))))"

definition bss_byte :: "z3_queries \<Rightarrow> z3_state \<Rightarrow> string \<Rightarrow> int \<Rightarrow> bvt res" where
  "bss_byte z st sy off =
     (case zs_read_loc st of
        Some f \<Rightarrow> loc_term f (bss_loc sy off)
      | None \<Rightarrow> Inr (Select (bss_of st (Some sy)) (BitVecVal off BSS_ADDR_BITS)))"

definition map_value_term :: "z3_queries \<Rightarrow> z3_state \<Rightarrow> int \<Rightarrow> int \<Rightarrow> nat \<Rightarrow> nat \<Rightarrow> bvt res" where
  "map_value_term z st mid key ks vs =
     (case zs_read_loc st of
        Some f \<Rightarrow> ebind (emap (\<lambda>i. loc_term f (map_loc mid (Num key ks (-1)) (int i))) (rev [0..<vs])) concat_or_single
      | None \<Rightarrow> ebind (map_at st (Some mid)) (\<lambda>m. Inr (Select (snd m) (BitVecVal key (ks * 8)))))"

definition target_term :: "z3_state \<Rightarrow> ctx_target \<Rightarrow> bvt" where
  "target_term st t = (case t of T_ingress \<Rightarrow> zs_ingress st | T_rx_index \<Rightarrow> zs_rx_index st | T_egress \<Rightarrow> zs_egress st)"

fun atom_z3 :: "z3_queries \<Rightarrow> z3_state \<Rightarrow> atom \<Rightarrow> bt res" where
  "atom_z3 z st (PktAtom off sz bs c) =
     ebind (emap (\<lambda>i. ebind (pkt_byte z st (off + int i)) (\<lambda>t.
              ebind (py_nth bs (int i)) (\<lambda>d. Inr (BvEq t (BitVecVal d 8))))) [0..<sz]) (\<lambda>es.
     Inr (eq_or_not c (z3_and es)))"
| "atom_z3 z st (MapAtom mid key present vl ks vs) =
     ebind (contain_z3 z st (Some mid) (Some (expr_to_z3 z st (Num key ks (-1)))) None True) (\<lambda>p.
     case vl of
       Some v \<Rightarrow> ebind (map_value_term z st mid key ks vs) (\<lambda>got. Inr (z3_and [p, BvEq got (BitVecVal v (vs * 8))]))
     | None \<Rightarrow> Inr (if present = Some True then p else BNot p))"
| "atom_z3 z st (BssAtom sy off sz v c) =
     ebind (emap (\<lambda>i. bss_byte z st sy (off + int i)) [0..<sz]) (\<lambda>ts.
     ebind (concat_or_single (rev ts)) (\<lambda>whole. Inr (eq_or_not c (BvEq whole (BitVecVal v (sz * 8))))))"
| "atom_z3 z st (LenAtom lo hi) =
     (let parts = (case lo of None \<Rightarrow> [] | Some k \<Rightarrow> [BvCmp BvUge (zs_pkt_len st) (BitVecVal k 64)]) @
                  (case hi of None \<Rightarrow> [] | Some k \<Rightarrow> [BvCmp BvUle (zs_pkt_len st) (BitVecVal k 64)])
      in if 1 < length parts then Inr (z3_and parts)
         else case parts of [] \<Rightarrow> Inl IndexError | b # _ \<Rightarrow> Inr b)"
| "atom_z3 z st (ScalarAtom t v) = Inr (BvEq (target_term st t) (BitVecVal v 64))"
| "atom_z3 z st (HelperScalar im idx sz c v retval) =
     ebind (expr_opt_z3 z st retval) (\<lambda>t. Inr (cmp_z3 c t (BitVecVal v (z_size z t))))"
| "atom_z3 z st (HelperNull im idx result mid mk mki) =
     contain_z3 z st mid (map_option (expr_to_z3 z st) mk) mki result"
| "atom_z3 z st (RetAtom c v) = Inr (cmp_z3 c (zs_r0 st) (BitVecVal v 64))"
| "atom_z3 z st (ReadAtom parts c target sz region off mid) =
     ebind (emap (\<lambda>(leaf, k). ebind (expr_to_z3 z st leaf) (\<lambda>t.
              if z_size z t \<le> k * 8 + 7 then Inl Z3Exception else Inr (Extract (k * 8 + 7) (k * 8) t))) parts) (\<lambda>bs.
     ebind (concat_or_single (rev bs)) (\<lambda>v.
     Inr (if c = OpEq then BvEq v (BitVecVal target (z_size z v)) else BvNe v (BitVecVal target (z_size z v)))))"

primrec node_z3 :: "z3_queries \<Rightarrow> z3_state \<Rightarrow> cond_node \<Rightarrow> bt res" where
  "node_z3 z st (CLeaf a) = atom_z3 z st a"
| "node_z3 z st (CNot c) = ebind (node_z3 z st c) (\<lambda>b. Inr (BNot b))"
| "node_z3 z st (CAnd cs) = ebind (emap (\<lambda>r. r) (map (node_z3 z st) cs)) (\<lambda>bs. Inr (z3_and bs))"
| "node_z3 z st (COr cs) = ebind (emap (\<lambda>r. r) (map (node_z3 z st) cs)) (\<lambda>bs. Inr (BOr bs))"

section \<open>What the conditions mean\<close>

text \<open>
  The byte at a location and the presence of a key, as numbers: what the state's readers answer, or
  the contents of its arrays.
\<close>

definition loc_value ::
  "z3_queries \<Rightarrow> ('m \<Rightarrow> bvt \<Rightarrow> int) \<Rightarrow> ('m \<Rightarrow> avt \<Rightarrow> int \<Rightarrow> int) \<Rightarrow> z3_state \<Rightarrow> 'm \<Rightarrow> mem_loc \<Rightarrow> int" where
  "loc_value z ev eva st m l =
     (case zs_read_loc st of
        Some f \<Rightarrow> (case f l of Inr (Some t) \<Rightarrow> ev m t | _ \<Rightarrow> 0)
      | None \<Rightarrow>
          if ml_region l = 0 then eva m (zs_pkt st) (take_bit (z_dom z (zs_pkt st)) (ml_off l))
          else eva m (bss_of st (ml_bss_key l)) (take_bit BSS_ADDR_BITS (ml_off l)))"

definition key_present ::
  "('m \<Rightarrow> bt \<Rightarrow> bool) \<Rightarrow> ('m \<Rightarrow> abt \<Rightarrow> int \<Rightarrow> bool) \<Rightarrow> z3_state \<Rightarrow> 'm \<Rightarrow> int \<Rightarrow> int \<Rightarrow> nat \<Rightarrow> bool" where
  "key_present evb evab st m mid key ks =
     (if is_array_map st (Some mid) \<or> is_prog_map st (Some mid) then
        (case map_info_of st (Some mid) of Some info \<Rightarrow> key < m_max_entries info | None \<Rightarrow> False)
      else
        (case zs_read_present st of
           Some f \<Rightarrow> (case f mid (BitVecVal key (ks * 8)) (zs_at_block st) None of Inr b \<Rightarrow> evb m b | Inl e \<Rightarrow> False)
         | None \<Rightarrow> (case map_at st (Some mid) of Inr mp \<Rightarrow> evab m (fst mp) key | Inl e \<Rightarrow> False)))"

definition bytes_value :: "(nat \<Rightarrow> int) \<Rightarrow> nat \<Rightarrow> int" where
  "bytes_value f n = concat_sem (rev (map (\<lambda>i. (8, f i)) [0..<n]))"

definition map_value ::
  "('m \<Rightarrow> bvt \<Rightarrow> int) \<Rightarrow> ('m \<Rightarrow> avt \<Rightarrow> int \<Rightarrow> int) \<Rightarrow> z3_queries \<Rightarrow> z3_state \<Rightarrow> 'm \<Rightarrow> int \<Rightarrow> int \<Rightarrow> nat \<Rightarrow> nat \<Rightarrow> int" where
  "map_value ev eva z st m mid key ks vs =
     (case zs_read_loc st of
        Some f \<Rightarrow> bytes_value (\<lambda>i. loc_value z ev eva st m (map_loc mid (Num key ks (-1)) (int i))) vs
      | None \<Rightarrow> (case map_at st (Some mid) of Inr mp \<Rightarrow> eva m (snd mp) key | Inl e \<Rightarrow> 0))"

fun compares :: "cmp_op \<Rightarrow> int \<Rightarrow> int \<Rightarrow> bool" where
  "compares OpEq a b = (a = b)"
| "compares OpNe a b = (a \<noteq> b)"
| "compares OpLt a b = (a < b)"
| "compares OpLe a b = (a \<le> b)"
| "compares OpGt a b = (b < a)"
| "compares OpGe a b = (b \<le> a)"

definition target_value :: "('m \<Rightarrow> bvt \<Rightarrow> int) \<Rightarrow> z3_state \<Rightarrow> 'm \<Rightarrow> ctx_target \<Rightarrow> int" where
  "target_value ev st m t = ev m (target_term st t)"

text \<open>
  A value of the program, and its width in bits, in the state; a byte of it; whether a lookup hits: the
  entries of an array (or program) map are those below its size, those of a hash map the keys that are
  present, in the state's arrays or as its reader answers; a lookup whose map or key is unknown is taken to hit.
\<close>

definition word_value :: "('m \<Rightarrow> bvt \<Rightarrow> int) \<Rightarrow> z3_queries \<Rightarrow> z3_state \<Rightarrow> 'm \<Rightarrow> val option \<Rightarrow> int" where
  "word_value ev z st m v = (case expr_opt_z3 z st v of Inr t \<Rightarrow> ev m t | Inl e \<Rightarrow> 0)"

definition word_width :: "z3_queries \<Rightarrow> z3_state \<Rightarrow> val option \<Rightarrow> nat" where
  "word_width z st v = (case expr_opt_z3 z st v of Inr t \<Rightarrow> z_size z t | Inl e \<Rightarrow> 0)"

definition read_value :: "('m \<Rightarrow> bvt \<Rightarrow> int) \<Rightarrow> z3_queries \<Rightarrow> z3_state \<Rightarrow> 'm \<Rightarrow> (val \<times> nat) list \<Rightarrow> int" where
  "read_value ev z st m parts =
     bytes_value (\<lambda>i. take_bit 8 (drop_bit (8 * snd (parts ! i)) (word_value ev z st m (Some (fst (parts ! i)))))) (length parts)"

definition is_bounded_map :: "z3_state \<Rightarrow> int option \<Rightarrow> bool" where
  "is_bounded_map st mid \<longleftrightarrow> is_array_map st mid \<or> is_prog_map st mid"

definition lookup_hits ::
  "('m \<Rightarrow> bvt \<Rightarrow> int) \<Rightarrow> ('m \<Rightarrow> bt \<Rightarrow> bool) \<Rightarrow> ('m \<Rightarrow> abt \<Rightarrow> int \<Rightarrow> bool) \<Rightarrow>
   z3_queries \<Rightarrow> z3_state \<Rightarrow> 'm \<Rightarrow> int option \<Rightarrow> val option \<Rightarrow> int option \<Rightarrow> bool" where
  "lookup_hits ev evb evab z st m mid mk mki \<longleftrightarrow>
     (case (mid, mk) of
        (Some k, Some key) \<Rightarrow>
          k < 0 \<or>
          (case map_at st mid of
             Inl e \<Rightarrow> False
           | Inr mp \<Rightarrow>
               let kv = take_bit (z_dom z (snd mp)) (word_value ev z st m mk) in
               if is_bounded_map st mid
               then (case map_info_of st mid of None \<Rightarrow> False | Some info \<Rightarrow> kv < m_max_entries info)
               else (case zs_read_present st of
                       Some f \<Rightarrow> (case ebind (map_key_z3 z st mid (expr_to_z3 z st key)) (\<lambda>t. f k t (zs_at_block st) mki) of
                                    Inr b \<Rightarrow> evb m b | Inl e \<Rightarrow> False)
                     | None \<Rightarrow> evab m (fst mp) kv))
      | _ \<Rightarrow> True)"

text \<open>
  A condition on the packet, the maps, the globals, the packet length, the context, the result of a
  helper call, a value read or the return value.
\<close>

fun atom_holds ::
  "('m \<Rightarrow> bvt \<Rightarrow> int) \<Rightarrow> ('m \<Rightarrow> bt \<Rightarrow> bool) \<Rightarrow> ('m \<Rightarrow> avt \<Rightarrow> int \<Rightarrow> int) \<Rightarrow> ('m \<Rightarrow> abt \<Rightarrow> int \<Rightarrow> bool) \<Rightarrow>
   z3_queries \<Rightarrow> z3_state \<Rightarrow> 'm \<Rightarrow> atom \<Rightarrow> bool" where
  "atom_holds ev evb eva evab z st m (PktAtom off sz bs c) \<longleftrightarrow>
     (\<forall>i < sz. loc_value z ev eva st m (pkt_loc (off + int i)) = bs ! i) = (c = OpEq)"
| "atom_holds ev evb eva evab z st m (MapAtom mid key present vl ks vs) \<longleftrightarrow>
     (case vl of
        Some v \<Rightarrow> key_present evb evab st m mid key ks \<and> map_value ev eva z st m mid key ks vs = v
      | None \<Rightarrow> key_present evb evab st m mid key ks = (present = Some True))"
| "atom_holds ev evb eva evab z st m (BssAtom sy off sz v c) \<longleftrightarrow>
     (bytes_value (\<lambda>i. loc_value z ev eva st m (bss_loc sy (off + int i))) sz = v) = (c = OpEq)"
| "atom_holds ev evb eva evab z st m (LenAtom lo hi) \<longleftrightarrow>
     (case lo of None \<Rightarrow> True | Some k \<Rightarrow> k \<le> ev m (zs_pkt_len st)) \<and>
     (case hi of None \<Rightarrow> True | Some k \<Rightarrow> ev m (zs_pkt_len st) \<le> k)"
| "atom_holds ev evb eva evab z st m (ScalarAtom t v) \<longleftrightarrow> target_value ev st m t = v"
| "atom_holds ev evb eva evab z st m (RetAtom c v) \<longleftrightarrow> compares c (ev m (zs_r0 st)) v"
| "atom_holds ev evb eva evab z st m (HelperScalar im idx sz c v retval) \<longleftrightarrow>
     compares c (word_value ev z st m retval) (take_bit (word_width z st retval) v)"
| "atom_holds ev evb eva evab z st m (HelperNull im idx result mid mk mki) \<longleftrightarrow>
     lookup_hits ev evb evab z st m mid mk mki = result"
| "atom_holds ev evb eva evab z st m (ReadAtom parts c target sz region off mid) \<longleftrightarrow>
     (read_value ev z st m parts = take_bit (8 * length parts) target) = (c = OpEq)"

primrec node_holds ::
  "('m \<Rightarrow> bvt \<Rightarrow> int) \<Rightarrow> ('m \<Rightarrow> bt \<Rightarrow> bool) \<Rightarrow> ('m \<Rightarrow> avt \<Rightarrow> int \<Rightarrow> int) \<Rightarrow> ('m \<Rightarrow> abt \<Rightarrow> int \<Rightarrow> bool) \<Rightarrow>
   z3_queries \<Rightarrow> z3_state \<Rightarrow> 'm \<Rightarrow> cond_node \<Rightarrow> bool" where
  "node_holds ev evb eva evab z st m (CLeaf a) = atom_holds ev evb eva evab z st m a"
| "node_holds ev evb eva evab z st m (CNot c) = (\<not> node_holds ev evb eva evab z st m c)"
| "node_holds ev evb eva evab z st m (CAnd cs) = list_all (\<lambda>x. x) (map (node_holds ev evb eva evab z st m) cs)"
| "node_holds ev evb eva evab z st m (COr cs) = list_ex (\<lambda>x. x) (map (node_holds ev evb eva evab z st m) cs)"

text \<open>
  The states the conditions are evaluated in: the sorts are those of \<open>_make_init_state\<close>, and the
  readers, where there are any, answer.
\<close>

definition byte_loc :: "mem_loc \<Rightarrow> bool" where
  "byte_loc l \<longleftrightarrow> (\<exists>off. l = pkt_loc off) \<or> (\<exists>sy off. l = bss_loc sy off)"

definition regular_state :: "z3_queries \<Rightarrow> z3_state \<Rightarrow> bool" where
  "regular_state z st \<longleftrightarrow>
     z_rng z (zs_pkt st) = 8 \<and> (\<forall>s. z_rng z (bss_of st s) = 8 \<and> z_dom z (bss_of st s) = BSS_ADDR_BITS) \<and>
     z_size z (zs_pkt_len st) = 64 \<and> z_size z (zs_r0 st) = 64 \<and> (\<forall>t. z_size z (target_term st t) = 64) \<and>
     (\<forall>f l. zs_read_loc st = Some f \<longrightarrow> byte_loc l \<longrightarrow> (\<exists>t. f l = Inr (Some t) \<and> z_size z t = 8))"

definition in_bits :: "nat \<Rightarrow> int \<Rightarrow> bool" where
  "in_bits w k \<longleftrightarrow> 0 \<le> k \<and> k < 2 ^ w"

definition regular_lookup :: "z3_queries \<Rightarrow> z3_state \<Rightarrow> int option \<Rightarrow> val option \<Rightarrow> int option \<Rightarrow> bool" where
  "regular_lookup z st mid mk mki \<longleftrightarrow>
     (\<forall>k key. mid = Some k \<and> mk = Some key \<and> 0 \<le> k \<longrightarrow>
        (\<exists>t mp. expr_to_z3 z st key = Inr t \<and> map_at st mid = Inr mp \<and> 0 < z_dom z (snd mp) \<and>
           (if is_bounded_map st mid
            then \<forall>info. map_info_of st mid = Some info \<longrightarrow> in_bits (z_dom z (snd mp)) (m_max_entries info)
            else \<forall>f. zs_read_present st = Some f \<longrightarrow>
                   (\<exists>b. f k (resize z t (z_dom z (snd mp))) (zs_at_block st) mki = Inr b))))"

text \<open>
  The atoms that can be encoded in the state: the keys, values and readers they use have terms, the
  constants fit, and a condition on the packet length has a bound (\<open>to_z3\<close> raises without one).
\<close>

fun regular_atom :: "z3_queries \<Rightarrow> z3_state \<Rightarrow> atom \<Rightarrow> bool" where
  "regular_atom z st (PktAtom off sz bs c) \<longleftrightarrow> length bs = sz \<and> list_all (in_bits 8) bs"
| "regular_atom z st (MapAtom mid key present vl ks vs) \<longleftrightarrow>
     0 \<le> mid \<and> in_bits (8 * ks) key \<and> 0 < ks \<and>
     (\<exists>mp. map_at st (Some mid) = Inr mp \<and> z_dom z (snd mp) = 8 * ks \<and> z_rng z (snd mp) = 8 * vs) \<and>
     (\<forall>info. map_info_of st (Some mid) = Some info \<and> (is_array_map st (Some mid) \<or> is_prog_map st (Some mid)) \<longrightarrow>
        in_bits (8 * ks) (m_max_entries info)) \<and>
     (\<forall>f. zs_read_present st = Some f \<longrightarrow> (\<exists>b. f mid (BitVecVal key (ks * 8)) (zs_at_block st) None = Inr b)) \<and>
     (\<forall>v. vl = Some v \<longrightarrow> 0 < vs \<and> in_bits (8 * vs) v \<and>
        (\<forall>f i. zs_read_loc st = Some f \<longrightarrow> i < vs \<longrightarrow>
           (\<exists>t. f (map_loc mid (Num key ks (-1)) (int i)) = Inr (Some t) \<and> z_size z t = 8)))"
| "regular_atom z st (BssAtom sy off sz v c) \<longleftrightarrow> 0 < sz \<and> in_bits (8 * sz) v"
| "regular_atom z st (LenAtom lo hi) \<longleftrightarrow> (lo \<noteq> None \<or> hi \<noteq> None) \<and>
     (\<forall>k. lo = Some k \<or> hi = Some k \<longrightarrow> in_bits 64 k)"
| "regular_atom z st (ScalarAtom t v) \<longleftrightarrow> in_bits 64 v"
| "regular_atom z st (RetAtom c v) \<longleftrightarrow> in_bits 64 v"
| "regular_atom z st (HelperScalar im idx sz c v retval) \<longleftrightarrow> (\<exists>t. expr_opt_z3 z st retval = Inr t \<and> 0 < z_size z t)"
| "regular_atom z st (HelperNull im idx result mid mk mki) \<longleftrightarrow> regular_lookup z st mid mk mki"
| "regular_atom z st (ReadAtom parts c target sz region off mid) \<longleftrightarrow>
     parts \<noteq> [] \<and> list_all (\<lambda>(leaf, k). \<exists>t. expr_to_z3 z st leaf = Inr t \<and> 8 * k + 8 \<le> z_size z t) parts"

primrec regular_node :: "z3_queries \<Rightarrow> z3_state \<Rightarrow> cond_node \<Rightarrow> bool" where
  "regular_node z st (CLeaf a) = regular_atom z st a"
| "regular_node z st (CNot c) = regular_node z st c"
| "regular_node z st (CAnd cs) = list_all (\<lambda>x. x) (map (regular_node z st) cs)"
| "regular_node z st (COr cs) = list_all (\<lambda>x. x) (map (regular_node z st) cs)"

lemma in_bits_take_bit: "in_bits w k \<Longrightarrow> take_bit w k = k"
  by (simp add: in_bits_def take_bit_int_eq_self_iff)

context smtlib begin

lemma evb_and: "evb m (z3_and bs) = (\<forall>b \<in> set bs. evb m b)"
  by (induction bs) (simp_all add: z3_and_def evb_BoolVal evb_And)

lemma evb_cmp:
  assumes "z_size z a = z_size z b" and "0 < z_size z a"
  shows "evb m (cmp_z3 c a b) = compares c (ev m a) (ev m b)"
  using assms by (cases c) (simp_all add: evb_BvEq evb_BvNe evb_BvCmp)

lemma evb_eq_or_not: "evb m (eq_or_not c b) = (evb m b = (c = OpEq))"
  by (auto simp: eq_or_not_def evb_Not)

lemma byte_run:
  assumes "regular_state z st"
  shows "\<exists>t. pkt_byte z st off = Inr t \<and> z_size z t = 8 \<and> ev m t = loc_value z ev eva st m (pkt_loc off)"
    and "\<exists>t. bss_byte z st sy off = Inr t \<and> z_size z t = 8 \<and> ev m t = loc_value z ev eva st m (bss_loc sy off)"
proof -
  have s: "z_rng z (zs_pkt st) = 8" "z_rng z (bss_of st s) = 8" "z_dom z (bss_of st s) = BSS_ADDR_BITS" for s
    using assms by (auto simp: regular_state_def)
  have f: "\<exists>t. f l = Inr (Some t) \<and> z_size z t = 8" if "zs_read_loc st = Some f" "byte_loc l" for f l
    using assms that unfolding regular_state_def by blast
  have p: "byte_loc (pkt_loc off)" and b: "byte_loc (bss_loc sy off)" by (auto simp: byte_loc_def)
  show "\<exists>t. pkt_byte z st off = Inr t \<and> z_size z t = 8 \<and> ev m t = loc_value z ev eva st m (pkt_loc off)"
  proof (cases "zs_read_loc st")
    case None
    then show ?thesis
      by (simp add: pkt_byte_def loc_value_def pkt_loc_def size_simps s ev_Select ev_BitVecVal)
  next
    case (Some g)
    from f [OF Some p] Some show ?thesis by (auto simp: pkt_byte_def loc_value_def loc_term_def)
  qed
  show "\<exists>t. bss_byte z st sy off = Inr t \<and> z_size z t = 8 \<and> ev m t = loc_value z ev eva st m (bss_loc sy off)"
  proof (cases "zs_read_loc st")
    case None
    then show ?thesis
      by (simp add: bss_byte_def loc_value_def bss_loc_def size_simps s ev_Select ev_BitVecVal)
  next
    case (Some g)
    from f [OF Some b] Some show ?thesis by (auto simp: bss_byte_def loc_value_def loc_term_def)
  qed
qed

end

context smtlib begin

lemma emap_bytes:
  assumes "\<And>x. x \<in> set xs \<Longrightarrow> \<exists>t. f x = Inr t \<and> z_size z t = 8 \<and> ev m t = v x"
  shows "\<exists>ts. emap f xs = Inr ts \<and> map (\<lambda>t. (z_size z t, ev m t)) ts = map (\<lambda>x. (8, v x)) xs"
  using assms
proof (induction xs)
  case (Cons x xs)
  from Cons.prems [of x] obtain t where "f x = Inr t" "z_size z t = 8" "ev m t = v x" by auto
  with Cons show ?case by auto
qed simp

lemma concat_bytes:
  assumes "map (\<lambda>t. (z_size z t, ev m t)) ts = map (\<lambda>x. (8, v x)) xs" and "xs \<noteq> []"
  shows "\<exists>t. concat_or_single ts = Inr t \<and> z_size z t = 8 * length xs \<and> ev m t = concat_sem (map (\<lambda>x. (8, v x)) xs)"
proof -
  have "ts \<noteq> []" using assms by auto
  then obtain t where t: "concat_or_single ts = Inr t" "z_size z t = sum_list (map (z_size z) ts)"
    "ev m t = concat_sem (map (\<lambda>t. (z_size z t, ev m t)) ts)" using concat_or_single_ev [of ts m] by blast
  have "map (z_size z) ts = map fst (map (\<lambda>t. (z_size z t, ev m t)) ts)" by simp
  also have "\<dots> = map (\<lambda>x. 8) xs" unfolding assms(1) by simp
  finally show ?thesis using t assms(1) by (simp add: sum_list_triv)
qed

lemma pkt_atom_run:
  assumes r: "regular_state z st" and a: "length bs = sz" "list_all (in_bits 8) bs"
  shows "\<exists>b. atom_z3 z st (PktAtom off sz bs c) = Inr b \<and> evb m b = atom_holds ev evb eva evab z st m (PktAtom off sz bs c)"
proof -
  let ?f = "\<lambda>i. ebind (pkt_byte z st (off + int i)) (\<lambda>t. ebind (py_nth bs (int i)) (\<lambda>d. Inr (BvEq t (BitVecVal d 8))))"
  have step: "\<exists>e. ?f i = Inr e \<and> evb m e = (loc_value z ev eva st m (pkt_loc (off + int i)) = bs ! i)" if i: "i < sz" for i
  proof -
    from byte_run(1) [OF r, of "off + int i" m] obtain t where t: "pkt_byte z st (off + int i) = Inr t" "z_size z t = 8"
      "ev m t = loc_value z ev eva st m (pkt_loc (off + int i))" by blast
    have "in_bits 8 (bs ! i)" using a i by (simp add: list_all_length)
    then have "ev m (BitVecVal (bs ! i) 8) = bs ! i" by (simp add: ev_BitVecVal in_bits_take_bit)
    with t a i show ?thesis by (simp add: evb_BvEq size_BitVecVal)
  qed
  obtain es where es: "emap ?f [0..<sz] = Inr es" using emap_total [of "[0..<sz]" ?f] step by auto
  have "(\<forall>e \<in> set es. evb m e) = (\<forall>i < sz. evb m (es ! i))"
    using emap_length [OF es] by (auto simp: all_set_conv_all_nth)
  also have "\<dots> = (\<forall>i < sz. loc_value z ev eva st m (pkt_loc (off + int i)) = bs ! i)"
    using emap_nth [OF es] step by (intro all_cong) fastforce
  finally show ?thesis using es by (simp add: evb_eq_or_not evb_and)
qed

lemma bss_atom_run:
  assumes r: "regular_state z st" and a: "0 < sz" "in_bits (8 * sz) v"
  shows "\<exists>b. atom_z3 z st (BssAtom sy off sz v c) = Inr b \<and> evb m b = atom_holds ev evb eva evab z st m (BssAtom sy off sz v c)"
proof -
  let ?v = "\<lambda>i. loc_value z ev eva st m (bss_loc sy (off + int i))"
  from emap_bytes [of "[0..<sz]" "\<lambda>i. bss_byte z st sy (off + int i)" m ?v] byte_run(2) [OF r]
  obtain ts where ts: "emap (\<lambda>i. bss_byte z st sy (off + int i)) [0..<sz] = Inr ts"
    "map (\<lambda>t. (z_size z t, ev m t)) ts = map (\<lambda>i. (8, ?v i)) [0..<sz]" by blast
  have "map (\<lambda>t. (z_size z t, ev m t)) (rev ts) = map (\<lambda>i. (8, ?v i)) (rev [0..<sz])"
    using ts(2) by (simp add: rev_map [symmetric])
  from concat_bytes [OF this] a(1) obtain t where "concat_or_single (rev ts) = Inr t" "z_size z t = 8 * sz"
    "ev m t = bytes_value ?v sz" by (auto simp: bytes_value_def rev_map)
  with ts(1) a(2) show ?thesis
    by (simp add: evb_eq_or_not evb_BvEq size_BitVecVal ev_BitVecVal in_bits_take_bit mult.commute)
qed

lemma presence_run:
  assumes "0 \<le> mid" and "in_bits (8 * ks) key" and "0 < ks" and mp: "map_at st (Some mid) = Inr mp" "z_dom z (snd mp) = 8 * ks"
    and "\<forall>info. map_info_of st (Some mid) = Some info \<and> (is_array_map st (Some mid) \<or> is_prog_map st (Some mid)) \<longrightarrow>
        in_bits (8 * ks) (m_max_entries info)"
    and "\<forall>f. zs_read_present st = Some f \<longrightarrow> (\<exists>b. f mid (BitVecVal key (ks * 8)) (zs_at_block st) None = Inr b)"
  shows "\<exists>b. contain_z3 z st (Some mid) (Some (expr_to_z3 z st (Num key ks (-1)))) None True = Inr b \<and>
    evb m b = key_present evb evab st m mid key ks"
proof -
  have k: "map_key_z3 z st (Some mid) (Inr (BitVecVal key (ks * 8))) = Inr (BitVecVal key (ks * 8))"
    using mp by (simp add: map_key_z3_def resize_def size_BitVecVal mult.commute)
  have ev_k: "ev m (BitVecVal key (ks * 8)) = key" using assms(2) by (simp add: ev_BitVecVal in_bits_take_bit mult.commute)
  show ?thesis
  proof (cases "is_array_map st (Some mid) \<or> is_prog_map st (Some mid)")
    case True
    then obtain info where i: "map_info_of st (Some mid) = Some info"
      by (auto simp: is_array_map_def is_prog_map_def map_type_in_def split: option.splits)
    with assms(6) True have "in_bits (8 * ks) (m_max_entries info)" by blast
    then have "ev m (BitVecVal (m_max_entries info) (ks * 8)) = m_max_entries info"
      by (simp add: ev_BitVecVal in_bits_take_bit mult.commute)
    then show ?thesis using True i assms(1,3) k ev_k
      by (auto simp: contain_z3_def key_present_def size_BitVecVal evb_BvCmp)
  next
    case False
    show ?thesis
    proof (cases "zs_read_present st")
      case None
      with False mp(1) assms(1) k ev_k show ?thesis
        by (auto simp: contain_z3_def key_present_def evb_BoolEq evb_SelectB)
    next
      case (Some f)
      with assms(7) obtain b where "f mid (BitVecVal key (ks * 8)) (zs_at_block st) None = Inr b" by blast
      with False Some assms(1) k show ?thesis
        by (auto simp: contain_z3_def key_present_def evb_BoolEq)
    qed
  qed
qed

lemma map_value_run:
  assumes "in_bits (8 * ks) key" and mp: "map_at st (Some mid) = Inr mp" "z_dom z (snd mp) = 8 * ks" "z_rng z (snd mp) = 8 * vs"
    and "0 < vs" and f: "\<forall>f i. zs_read_loc st = Some f \<longrightarrow> i < vs \<longrightarrow>
           (\<exists>t. f (map_loc mid (Num key ks (-1)) (int i)) = Inr (Some t) \<and> z_size z t = 8)"
  shows "\<exists>t. map_value_term z st mid key ks vs = Inr t \<and> z_size z t = 8 * vs \<and> ev m t = map_value ev eva z st m mid key ks vs"
proof (cases "zs_read_loc st")
  case None
  with assms show ?thesis
    by (simp add: map_value_term_def map_value_def size_simps ev_Select ev_BitVecVal in_bits_take_bit mult.commute)
next
  case (Some g)
  let ?l = "\<lambda>i. map_loc mid (Num key ks (-1)) (int i)"
  let ?v = "\<lambda>i. loc_value z ev eva st m (?l i)"
  have "\<exists>t. loc_term g (?l i) = Inr t \<and> z_size z t = 8 \<and> ev m t = ?v i" if "i \<in> set (rev [0..<vs])" for i
  proof -
    have "i < vs" using that by simp
    with f Some obtain t where "g (?l i) = Inr (Some t)" "z_size z t = 8" by blast
    with Some show ?thesis by (simp add: loc_term_def loc_value_def)
  qed
  from emap_bytes [of "rev [0..<vs]" "\<lambda>i. loc_term g (?l i)" m ?v, OF this] obtain ts where
    ts: "emap (\<lambda>i. loc_term g (?l i)) (rev [0..<vs]) = Inr ts"
    "map (\<lambda>t. (z_size z t, ev m t)) ts = map (\<lambda>i. (8, ?v i)) (rev [0..<vs])" by blast
  from concat_bytes [OF ts(2)] assms(5) ts(1) Some show ?thesis
    by (auto simp: map_value_term_def map_value_def bytes_value_def rev_map)
qed

end

context smtlib begin

lemma map_atom_run:
  assumes "regular_atom z st (MapAtom mid key present vl ks vs)"
  shows "\<exists>b. atom_z3 z st (MapAtom mid key present vl ks vs) = Inr b \<and>
    evb m b = atom_holds ev evb eva evab z st m (MapAtom mid key present vl ks vs)"
proof -
  obtain mp where mp: "map_at st (Some mid) = Inr mp" "z_dom z (snd mp) = 8 * ks" "z_rng z (snd mp) = 8 * vs"
    and k: "0 \<le> mid" "in_bits (8 * ks) key" "0 < ks"
    using assms by auto
  obtain p where p: "contain_z3 z st (Some mid) (Some (expr_to_z3 z st (Num key ks (-1)))) None True = Inr p"
    "evb m p = key_present evb evab st m mid key ks"
    using presence_run [OF k mp(1,2), of m] assms by auto
  show ?thesis
  proof (cases vl)
    case None
    with p show ?thesis by (simp add: evb_Not)
  next
    case (Some v)
    with assms have v: "0 < vs" "in_bits (8 * vs) v" by auto
    obtain t where t: "map_value_term z st mid key ks vs = Inr t" "z_size z t = 8 * vs"
      "ev m t = map_value ev eva z st m mid key ks vs"
      using map_value_run [OF k(2) mp v(1), of m] assms Some by auto
    have "evb m (BvEq t (BitVecVal v (vs * 8))) = (ev m t = v)"
      using t(2) v(2) by (simp add: evb_BvEq size_BitVecVal ev_BitVecVal in_bits_take_bit mult.commute)
    with Some p t(1,3) show ?thesis by (simp add: evb_and)
  qed
qed

lemma len_atom_run:
  assumes r: "regular_state z st" and a: "lo \<noteq> None \<or> hi \<noteq> None" "\<forall>k. lo = Some k \<or> hi = Some k \<longrightarrow> in_bits 64 k"
  shows "\<exists>b. atom_z3 z st (LenAtom lo hi) = Inr b \<and> evb m b = atom_holds ev evb eva evab z st m (LenAtom lo hi)"
proof -
  have sz: "z_size z (zs_pkt_len st) = 64" using r by (simp add: regular_state_def)
  have "evb m (BvCmp BvUge (zs_pkt_len st) (BitVecVal k 64)) = (k \<le> ev m (zs_pkt_len st))"
    "evb m (BvCmp BvUle (zs_pkt_len st) (BitVecVal k 64)) = (ev m (zs_pkt_len st) \<le> k)" if "lo = Some k \<or> hi = Some k" for k
    using in_bits_take_bit [of 64 k] a(2) that sz by (auto simp: evb_BvCmp size_BitVecVal ev_BitVecVal in_bits_take_bit)
  then show ?thesis using a(1) by (cases lo; cases hi) (simp_all add: evb_and Let_def)
qed

lemma helper_scalar_run:
  assumes "expr_opt_z3 z st retval = Inr t" and "0 < z_size z t"
  shows "\<exists>b. atom_z3 z st (HelperScalar im idx sz c v retval) = Inr b \<and>
    evb m b = atom_holds ev evb eva evab z st m (HelperScalar im idx sz c v retval)"
  using assms by (simp add: evb_cmp size_BitVecVal ev_BitVecVal word_value_def word_width_def)

lemma lookup_run:
  assumes "regular_lookup z st mid mk mki"
  shows "\<exists>b. contain_z3 z st mid (map_option (expr_to_z3 z st) mk) mki result = Inr b \<and>
    evb m b = (lookup_hits ev evb evab z st m mid mk mki = result)"
proof (cases "\<exists>k key. mid = Some k \<and> mk = Some key \<and> 0 \<le> k")
  case False
  then show ?thesis
    by (auto simp: contain_z3_def lookup_hits_def evb_BoolVal split: option.splits)
next
  case True
  then obtain k key where k: "mid = Some k" "mk = Some key" "0 \<le> k" by blast
  with assms obtain t mp where t: "expr_to_z3 z st key = Inr t" "map_at st (Some k) = Inr mp" "0 < z_dom z (snd mp)"
    and b: "if is_bounded_map st mid
            then \<forall>info. map_info_of st mid = Some info \<longrightarrow> in_bits (z_dom z (snd mp)) (m_max_entries info)
            else \<forall>f. zs_read_present st = Some f \<longrightarrow>
                   (\<exists>b. f k (resize z t (z_dom z (snd mp))) (zs_at_block st) mki = Inr b)"
    unfolding regular_lookup_def by blast
  define w where "w = z_dom z (snd mp)"
  have key: "map_key_z3 z st (Some k) (Inr t) = Inr (resize z t w)" using t by (simp add: map_key_z3_def w_def)
  have kv: "ev m (resize z t w) = take_bit w (word_value ev z st m (Some key))" and sz: "z_size z (resize z t w) = w"
    using t by (simp_all add: ev_resize w_def word_value_def expr_opt_z3_def enc_opt_def)
  show ?thesis
  proof (cases "is_bounded_map st (Some k)")
    case True
    then obtain info where i: "map_info_of st (Some k) = Some info"
      by (auto simp: is_bounded_map_def is_array_map_def is_prog_map_def map_type_in_def split: option.splits)
    with b True k have "take_bit w (m_max_entries info) = m_max_entries info" by (simp add: w_def in_bits_take_bit)
    then have "evb m (BvCmp BvUlt (resize z t w) (BitVecVal (m_max_entries info) w)) =
        (take_bit w (word_value ev z st m (Some key)) < m_max_entries info)"
      using t(3) by (simp add: evb_BvCmp size_BitVecVal sz kv ev_BitVecVal w_def [symmetric])
    with True k t i key sz show ?thesis
      by (auto simp: contain_z3_def lookup_hits_def is_bounded_map_def Let_def w_def [symmetric] evb_Not)
  next
    case False
    show ?thesis
    proof (cases "zs_read_present st")
      case None
      with False k t key kv show ?thesis
        by (auto simp: contain_z3_def lookup_hits_def is_bounded_map_def Let_def w_def [symmetric] evb_BoolEq evb_SelectB)
    next
      case (Some f)
      with b False k obtain p where "f k (resize z t w) (zs_at_block st) mki = Inr p" by (auto simp: w_def)
      with Some False k t key show ?thesis
        by (auto simp: contain_z3_def lookup_hits_def is_bounded_map_def Let_def w_def [symmetric] evb_BoolEq)
    qed
  qed
qed

lemma read_atom_run:
  assumes p: "parts \<noteq> []" "list_all (\<lambda>(leaf, k). \<exists>t. expr_to_z3 z st leaf = Inr t \<and> 8 * k + 8 \<le> z_size z t) parts"
  shows "\<exists>b. atom_z3 z st (ReadAtom parts c target sz region off mid) = Inr b \<and>
    evb m b = atom_holds ev evb eva evab z st m (ReadAtom parts c target sz region off mid)"
proof -
  let ?f = "\<lambda>(leaf, k). ebind (expr_to_z3 z st leaf) (\<lambda>t.
              if z_size z t \<le> k * 8 + 7 then Inl Z3Exception else Inr (Extract (k * 8 + 7) (k * 8) t))"
  let ?v = "\<lambda>p. take_bit 8 (drop_bit (8 * snd p) (word_value ev z st m (Some (fst p))))"
  have "\<exists>t. ?f x = Inr t \<and> z_size z t = 8 \<and> ev m t = ?v x" if "x \<in> set parts" for x
    using p(2) that
    by (auto simp: list_all_iff size_Extract ev_Extract word_value_def expr_opt_z3_def enc_opt_def mult.commute split: prod.splits dest!: bspec)
  then obtain ts where ts: "emap ?f parts = Inr ts"
    "map (\<lambda>t. (z_size z t, ev m t)) ts = map (\<lambda>x. (8, ?v x)) parts"
    using emap_bytes [of parts ?f m ?v] by blast
  have "map (\<lambda>t. (z_size z t, ev m t)) (rev ts) = map (\<lambda>x. (8, ?v x)) (rev parts)"
    using ts(2) by (simp add: rev_map [symmetric])
  from concat_bytes [OF this] p(1) obtain t where t: "concat_or_single (rev ts) = Inr t" "z_size z t = 8 * length parts"
    "ev m t = concat_sem (map (\<lambda>x. (8, ?v x)) (rev parts))" by auto
  have "map (\<lambda>i. (8, ?v (parts ! i))) [0..<length parts] = map (\<lambda>x. (8::nat, ?v x)) parts"
    by (rule nth_equalityI) simp_all
  then have "ev m t = read_value ev z st m parts" by (simp add: t(3) read_value_def bytes_value_def rev_map)
  with ts(1) t(1,2) show ?thesis
    by (auto simp: evb_BvEq evb_BvNe size_BitVecVal ev_BitVecVal)
qed

lemma atom_run:
  assumes r: "regular_state z st" and a: "regular_atom z st a"
  shows "\<exists>b. atom_z3 z st a = Inr b \<and> evb m b = atom_holds ev evb eva evab z st m a"
proof (cases a)
  case (PktAtom off sz bs c)
  with a pkt_atom_run [OF r, of bs sz off c] show ?thesis by simp
next
  case (MapAtom mid key present vl ks vs)
  from map_atom_run [of st mid key present vl ks vs m] a show ?thesis unfolding MapAtom by blast
next
  case (BssAtom sy off sz v c)
  with a bss_atom_run [OF r, of sz v sy off c] show ?thesis by simp
next
  case (LenAtom lo hi)
  from len_atom_run [OF r, of lo hi m] a show ?thesis unfolding LenAtom by (simp del: atom_z3.simps atom_holds.simps)
next
  case (ScalarAtom t v)
  have "z_size z (target_term st t) = 64" using r by (simp add: regular_state_def)
  with a ScalarAtom show ?thesis
    by (simp add: evb_BvEq size_BitVecVal ev_BitVecVal in_bits_take_bit target_value_def)
next
  case (RetAtom c v)
  have "z_size z (zs_r0 st) = 64" using r by (simp add: regular_state_def)
  with a RetAtom show ?thesis
    by (simp add: evb_cmp size_BitVecVal ev_BitVecVal in_bits_take_bit)
next
  case (HelperScalar im idx sz c v retval)
  with a obtain t where "expr_opt_z3 z st retval = Inr t" "0 < z_size z t" by auto
  from helper_scalar_run [OF this, of im idx sz c v m] show ?thesis unfolding HelperScalar .
next
  case (HelperNull im idx result mid mk mki)
  with a lookup_run [of st mid mk mki result m] show ?thesis by simp
next
  case (ReadAtom parts c target sz region off mid)
  with a have "parts \<noteq> []" "list_all (\<lambda>(leaf, k). \<exists>t. expr_to_z3 z st leaf = Inr t \<and> 8 * k + 8 \<le> z_size z t) parts" by simp_all
  from read_atom_run [OF this, of c target sz region off mid m] show ?thesis unfolding ReadAtom .
qed

lemma emap_nodes:
  assumes "\<And>c. c \<in> set cs \<Longrightarrow> \<exists>b. f c = Inr b \<and> evb m b = h c"
  shows "\<exists>bs. emap (\<lambda>r. r) (map f cs) = Inr bs \<and> map (evb m) bs = map h cs"
  using assms
proof (induction cs)
  case (Cons c cs)
  from Cons.prems [of c] obtain b where "f c = Inr b" "evb m b = h c" by auto
  with Cons show ?case by auto
qed simp

lemma node_run:
  assumes r: "regular_state z st"
  shows "regular_node z st c \<Longrightarrow> \<exists>b. node_z3 z st c = Inr b \<and> evb m b = node_holds ev evb eva evab z st m c"
proof (induction c)
  case (CLeaf a)
  with atom_run [OF r, of a m] show ?case by simp
next
  case (CNot c)
  then show ?case by (auto simp: evb_Not)
next
  case (CAnd cs)
  with emap_nodes [of cs "node_z3 z st" m "node_holds ev evb eva evab z st m"] obtain bs where bs: "emap (\<lambda>r. r) (map (node_z3 z st) cs) = Inr bs"
    "map (evb m) bs = map (node_holds ev evb eva evab z st m) cs" by (auto simp: list_all_iff)
  have "(\<forall>b \<in> set bs. evb m b) = list_all (\<lambda>x. x) (map (evb m) bs)" by (simp add: list_all_iff)
  then show ?case unfolding bs(2) using bs(1) by (simp add: evb_and)
next
  case (COr cs)
  with emap_nodes [of cs "node_z3 z st" m "node_holds ev evb eva evab z st m"] obtain bs where bs: "emap (\<lambda>r. r) (map (node_z3 z st) cs) = Inr bs"
    "map (evb m) bs = map (node_holds ev evb eva evab z st m) cs" by (auto simp: list_all_iff)
  have "(\<exists>b \<in> set bs. evb m b) = list_ex (\<lambda>x. x) (map (evb m) bs)" by (simp add: list_ex_iff)
  then show ?case unfolding bs(2) using bs(1) by (simp add: evb_Or)
qed

end

section \<open>Claims\<close>

text \<open>
  Claim C18.  A policy condition is translated into what it says.  In a state with the sorts of the
  initial one, through the arrays or through the readers of the forward analysis alike, the term of a
  tree of \<open>and\<close>, \<open>or\<close> and \<open>not\<close> over conditions of every kind (packet bytes, map entries, globals,
  the packet length, the context, the word or the lookup a helper call returns, the value of a read,
  the return value) is built without error, and an assignment satisfies it exactly when the bytes, the
  presence and value of the keys, the length and the words satisfy the conditions.  The atoms have to
  be encodable in the state: the values they name have terms, their constants fit, and a condition on
  the packet length has a bound.
\<close>

theorem condition_tree_exact:
  assumes "smtlib z ev evb eva evab" and "regular_state z st" and "regular_node z st c"
  shows "\<exists>b. node_z3 z st c = Inr b \<and> evb m b = node_holds ev evb eva evab z st m c"
  using assms by (rule smtlib.node_run)

text \<open>Among the atoms: helper 5 does not return 9, the lookup of the key 7 hits, the bytes 12 and 13 are read as 0.\<close>

definition demo_node :: cond_node where
  "demo_node = CAnd [CLeaf (PktAtom 12 2 [8, 0] OpNe), COr [CLeaf (LenAtom (Some 14) None), CLeaf (ScalarAtom T_egress 3)],
     CNot (CLeaf (MapAtom 0 7 (Some True) (Some 1) 4 8)),
     CLeaf (HelperScalar 5 3 8 OpNe 9 (Some (Func_retval 8 3 5 0 None None None 0 False))),
     CLeaf (HelperNull 1 2 True (Some 0) (Some (Num 7 4 1)) None),
     CLeaf (ReadAtom [(Pkt_val 0 1 12 None 2, 0), (Pkt_val 0 1 12 None 2, 1)] OpEq 0 2 0 12 None), CLeaf (RetAtom OpLe 5)]"

theorem condition_tree_exact_witness:
  "\<exists>b. node_z3 std_queries (make_init_state demo_maps demo_maps) demo_node = Inr b \<and> \<not> eval_b demo_env b \<and>
     node_z3 std_queries (make_init_state demo_maps demo_maps) (CNot demo_node) = Inr (BNot b) \<and> eval_b demo_env (BNot b)"
proof -
  let ?st = "make_init_state demo_maps demo_maps"
  have "\<forall>t. z_size std_queries (target_term ?st t) = 64"
  proof
    fix t show "z_size std_queries (target_term ?st t) = 64"
      by (cases t) (simp_all add: target_term_def make_init_state_def std_queries_def)
  qed
  then have r: "regular_state std_queries ?st"
    by (simp add: regular_state_def make_init_state_def std_queries_def bss_of_def split: option.splits)
  have n: "regular_node std_queries ?st demo_node"
    by (simp add: demo_node_def in_bits_def make_init_state_def demo_maps_def map_at_def py_nth_def py_index_def std_queries_def
      is_array_map_def is_prog_map_def map_type_in_def map_info_of_def ARRAY_MAP_TYPES_def PROG_MAP_TYPES_def is_bounded_map_def
      regular_lookup_def expr_opt_z3_def enc_opt_def func_retval_z3_def reader_or_def select_bytes_def enc_maybe_def
      concat_or_single_def upt_rec address_def)
  have h: "\<not> node_holds eval_bv eval_b eval_a eval_ab std_queries ?st demo_env demo_node" by code_simp
  from condition_tree_exact [OF smtlib_std r n, of demo_env] h show ?thesis by auto
qed

end
