(* ===== verification/Block_State.thy ===== *)
theory Block_State
  imports Encode Cfg
begin

text \<open>
  The component \<open>hornet/track/block.py\<close>: the state the tracker keeps for a block, and its entry
  state: fresh for the program's first block, the caller's context at a tail call, and the merge of
  the predecessors elsewhere.

  The code tests objects for identity (\<open>is\<close>) when it merges.  What a register or a stack slot
  holds is therefore an object: a number and the value; an operation that copies or builds an
  object draws a fresh number (\<open>c_oids\<close>), one that passes it on keeps it.  The number of a
  \<open>JoinValue\<close> is also part of the value, because it is tested where it is a part of other values.
  An operation on a block is a state transformer that may raise (\<open>act\<close>), over the block and the
  two counters of the tracker.
\<close>

section \<open>The state\<close>

record ptr_facts =
  pf_base_id :: "int option"
  pf_ptr :: "val option"
  pf_checked_null :: "bool option"

record pkt_facts =
  kf_id :: "int option"
  kf_base_id :: "int option"
  kf_ptr :: "val option"
  kf_min_len :: "int option"
  kf_max_len :: "int option"

text \<open>What is known on an edge; \<open>FAdjust idx base_id\<close>.\<close>

datatype edge_fact = FPtr ptr_facts | FPkt pkt_facts | FAdjust int "int option"

type_synonym obj = "nat \<times> val"

record tblock = bblock +
  t_tail_ctx :: "obj option"
  t_tail_target :: "prog_region option"
  t_regs :: "obj option list"
  t_stk :: "obj option list"
  t_actions :: "action list"
  t_sources :: "val list"
  t_cond :: "cond option"
  t_cond_f :: "edge_fact option"
  t_cond_t :: "edge_fact option"
  t_ptr_facts :: "(int option \<times> ptr_facts) list"
  t_pkt_facts :: "(int option \<times> pkt_facts) list"
  t_pkt_base_id :: "int option"
  t_adjust_pending :: "(int \<times> int option) option"
  t_idx :: "int option"

text \<open>The defaults of the dataclass.\<close>

definition new_tblock :: "bblock \<Rightarrow> tblock" where
  "new_tblock b =
     bblock.extend b
       \<lparr>t_tail_ctx = None, t_tail_target = None, t_regs = replicate 11 None, t_stk = [], t_actions = [],
        t_sources = [], t_cond = None, t_cond_f = None, t_cond_t = None, t_ptr_facts = [], t_pkt_facts = [],
        t_pkt_base_id = Some (-1), t_adjust_pending = None, t_idx = None\<rparr>"

record tctx =
  c_blk :: tblock
  c_ids :: int
  c_oids :: nat

type_synonym 'a act = "tctx \<Rightarrow> ('a \<times> tctx) res"

definition aret :: "'a \<Rightarrow> 'a act" where
  "aret x = (\<lambda>s. Inr (x, s))"

definition abind :: "'a act \<Rightarrow> ('a \<Rightarrow> 'b act) \<Rightarrow> 'b act" where
  "abind m f = (\<lambda>s. case m s of Inl e \<Rightarrow> Inl e | Inr (x, s') \<Rightarrow> f x s')"

definition araise :: "error \<Rightarrow> 'a act" where
  "araise e = (\<lambda>s. Inl e)"

definition alift :: "'a res \<Rightarrow> 'a act" where
  "alift r = (\<lambda>s. case r of Inl e \<Rightarrow> Inl e | Inr x \<Rightarrow> Inr (x, s))"

definition aget :: "(tblock \<Rightarrow> 'a) \<Rightarrow> 'a act" where
  "aget f = (\<lambda>s. Inr (f (c_blk s), s))"

definition amod :: "(tblock \<Rightarrow> tblock) \<Rightarrow> unit act" where
  "amod f = (\<lambda>s. Inr ((), s\<lparr>c_blk := f (c_blk s)\<rparr>))"

fun amap :: "('a \<Rightarrow> 'b act) \<Rightarrow> 'a list \<Rightarrow> 'b list act" where
  "amap f [] = aret []"
| "amap f (x # xs) = abind (f x) (\<lambda>y. abind (amap f xs) (\<lambda>ys. aret (y # ys)))"

text \<open>\<open>new_ptr_id\<close>, and the creation of objects.\<close>

definition new_ptr_id :: "int act" where
  "new_ptr_id = (\<lambda>s. Inr (c_ids s + 1, s\<lparr>c_ids := c_ids s + 1\<rparr>))"

definition new_obj :: "val \<Rightarrow> obj act" where
  "new_obj v = (\<lambda>s. Inr ((c_oids s, v), s\<lparr>c_oids := Suc (c_oids s)\<rparr>))"

definition new_join :: "int \<Rightarrow> int \<Rightarrow> val option list \<Rightarrow> (nat \<times> edge) list list \<Rightarrow> obj act" where
  "new_join blk rg vs es =
     (\<lambda>s. Inr ((c_oids s, JoinValue (c_oids s) blk rg vs es), s\<lparr>c_oids := Suc (c_oids s)\<rparr>))"

section \<open>Pointers and nullness\<close>

definition PKT_REGIONS :: "int set" where
  "PKT_REGIONS = {PTR_TO_PKT, PTR_TO_PKT_END, PTR_TO_PKT_META}"

abbreviation (input) NO_FACT_ID :: int where "NO_FACT_ID \<equiv> -2"

definition null_fact_id :: "ptr_info \<Rightarrow> int option" where
  "null_fact_id i = (if q_id i \<noteq> -1 then Some (q_id i) else q_base_id i)"

definition is_null_const :: "val \<Rightarrow> bool" where
  "is_null_const v \<longleftrightarrow> num_of v = Some 0"

text \<open>The common nullness, \<open>None\<close> when they differ.\<close>

definition fold_nullity :: "bool option list \<Rightarrow> bool option" where
  "fold_nullity vals = (if \<forall>v \<in> set vals. v = hd vals then hd vals else None)"

definition with_nullity :: "obj \<Rightarrow> bool option \<Rightarrow> obj act" where
  "with_nullity p nullity =
     (case snd p of
        Ptr i vo mk np \<Rightarrow>
          if q_checked_null i = nullity then aret p
          else new_obj (Ptr (i\<lparr>q_checked_null := nullity\<rparr>) vo mk np)
      | _ \<Rightarrow> araise AttributeError)"

definition with_view :: "int option \<Rightarrow> obj \<Rightarrow> obj act" where
  "with_view base v =
     (case snd v of
        Ptr i vo mk np \<Rightarrow>
          if q_type i \<noteq> PTR_TO_CTX \<or> q_base_id i = base then aret v
          else new_obj (Ptr (i\<lparr>q_base_id := base\<rparr>) vo mk np)
      | _ \<Rightarrow> aret v)"

text \<open>A cell that may be empty.\<close>

definition aopt :: "('a \<Rightarrow> 'b act) \<Rightarrow> 'a option \<Rightarrow> 'b option act" where
  "aopt f x = (case x of None \<Rightarrow> aret None | Some y \<Rightarrow> abind (f y) (\<lambda>z. aret (Some z)))"

definition nullity_value :: "val \<Rightarrow> val option" where
  "nullity_value v =
     (if is_null_const v then Some (Num 0 1 (-1))
      else
        case v of
          Ptr i vo mk np \<Rightarrow>
            (case q_checked_null i of
               Some False \<Rightarrow> Some (Num 1 1 (-1))
             | Some True \<Rightarrow> Some (Num 0 1 (-1))
             | None \<Rightarrow>
                 if np \<noteq> None then np
                 else if q_type i = PTR_TO_MAP_VALUE \<and> mk \<noteq> None \<and> q_map_key_id i \<noteq> None \<and>
                    q_map_key_id i = q_base_id i
                 then Some (Lookup_hit (q_map_id i) mk (q_map_key_id i))
                 else None)
        | _ \<Rightarrow> None)"

text \<open>\<open>a is b\<close> for two values one of which is a \<open>JoinValue\<close>.\<close>

definition same_join :: "val \<Rightarrow> val \<Rightarrow> bool" where
  "same_join a b \<longleftrightarrow> is_join a \<and> is_join b \<and> jv_oid a = jv_oid b"

definition same_val :: "val \<Rightarrow> val \<Rightarrow> bool" where
  "same_val a b = (if is_join a \<or> is_join b then same_join a b else py_eq a b)"

definition same_phi :: "val option \<Rightarrow> val option \<Rightarrow> bool" where
  "same_phi a b = (case (a, b) of (None, None) \<Rightarrow> True | (Some x, Some y) \<Rightarrow> same_join x y | _ \<Rightarrow> False)"

section \<open>Operations of a block\<close>

definition emit :: "action_kind \<Rightarrow> unit act" where
  "emit k =
     amod (\<lambda>b. b\<lparr>t_actions := t_actions b @
       [\<lparr>a_block = int (b_num b), a_idx = (case t_idx b of None \<Rightarrow> -1 | Some i \<Rightarrow> i), a_kind = k\<rparr>]\<rparr>)"

definition add_source :: "val \<Rightarrow> unit act" where
  "add_source v = amod (\<lambda>b. b\<lparr>t_sources := t_sources b @ [v]\<rparr>)"

definition set_ctx_view :: "int option \<Rightarrow> unit act" where
  "set_ctx_view base =
     abind (aget t_regs) (\<lambda>regs.
     abind (amap (aopt (with_view base)) regs) (\<lambda>regs'.
     abind (aget t_stk) (\<lambda>stk.
     abind (amap (aopt (with_view base)) stk) (\<lambda>stk'.
     amod (\<lambda>b. b\<lparr>t_regs := regs', t_stk := stk', t_pkt_base_id := base\<rparr>)))))"

text \<open>The context and stack pointers of an entry.\<close>

definition ctx_ptr :: val where
  "ctx_ptr = Ptr (default_ptr PTR_TO_CTX) None None None"

definition stk_ptr :: val where
  "stk_ptr = Ptr ((default_ptr PTR_TO_STK)\<lparr>q_id := NO_FACT_ID\<rparr>) None None None"

definition init_state :: "unit act" where
  "init_state =
     abind (new_obj ctx_ptr) (\<lambda>r1.
     abind (new_obj stk_ptr) (\<lambda>r10.
     amod (\<lambda>b. b\<lparr>
       t_regs := (t_regs b)[1 := Some r1, 10 := Some r10],
       t_ptr_facts :=
         [(Some NO_FACT_ID, \<lparr>pf_base_id = Some NO_FACT_ID, pf_ptr = None, pf_checked_null = Some False\<rparr>),
          (Some (-1), \<lparr>pf_base_id = Some (-1), pf_ptr = None, pf_checked_null = Some False\<rparr>)],
       t_pkt_facts :=
         [(Some (-1), \<lparr>kf_id = Some (-1), kf_base_id = Some (-1), kf_ptr = None,
             kf_min_len = None, kf_max_len = None\<rparr>)],
       t_pkt_base_id := Some (-1),
       t_stk := []\<rparr>)))"

text \<open>The element of a set with exactly one.\<close>

definition single :: "'a option list \<Rightarrow> 'a option" where
  "single xs = (case remdups xs of [x] \<Rightarrow> x | _ \<Rightarrow> None)"

definition entry_pkt_facts :: "tblock list \<Rightarrow> int option \<Rightarrow> pkt_facts" where
  "entry_pkt_facts sites base =
     (let facts = map (\<lambda>b. dict_get (t_pkt_facts b) base) sites in
      \<lparr>kf_id = base, kf_base_id = base, kf_ptr = None,
       kf_min_len = single (map (\<lambda>f. Option.bind f kf_min_len) facts),
       kf_max_len = single (map (\<lambda>f. Option.bind f kf_max_len) facts)\<rparr>)"

definition ptr_base :: "val \<Rightarrow> int option" where
  "ptr_base v = (case v of Ptr i vo mk np \<Rightarrow> q_base_id i | _ \<Rightarrow> None)"

definition tail_entry_state :: "tblock list \<Rightarrow> obj \<Rightarrow> obj \<Rightarrow> tblock \<Rightarrow> tblock" where
  "tail_entry_state sites r1 r10 b =
     (let base = ptr_base (snd r1) in
      b\<lparr>t_regs := (replicate 11 None)[1 := Some r1, 10 := Some r10],
        t_stk := [],
        t_ptr_facts := dict_set base \<lparr>pf_base_id = base, pf_ptr = Some (snd r1), pf_checked_null = Some False\<rparr>
          [(Some NO_FACT_ID, \<lparr>pf_base_id = Some NO_FACT_ID, pf_ptr = None, pf_checked_null = Some False\<rparr>)],
        t_pkt_facts := [(base, entry_pkt_facts sites base)],
        t_pkt_base_id := base\<rparr>)"

definition tail_ctxs :: "tblock list \<Rightarrow> obj list" where
  "tail_ctxs sites = filter (\<lambda>c. is_ptr (snd c)) (List.map_filter t_tail_ctx sites)"

definition init_tail_entry :: "tblock list \<Rightarrow> unit act" where
  "init_tail_entry blocks =
     abind (aget (\<lambda>b. (b_preds b, b_num b))) (\<lambda>(preds, num).
     let sites = filter (\<lambda>b. b_succ_t b = Some num) (map (\<lambda>p. blocks ! p) preds);
         bases = remdups (map (\<lambda>c. ptr_base (snd c)) (tail_ctxs sites))
     in
     if 1 < length bases
     then araise (if None \<in> set bases then TypeError
                  else TrackError ''init_tail_entry: sites disagree on the packet view'')
     else
       abind (case tail_ctxs sites of c # _ \<Rightarrow> aret c | [] \<Rightarrow> new_obj ctx_ptr) (\<lambda>r1.
       abind (new_obj stk_ptr) (\<lambda>r10.
       amod (tail_entry_state sites r1 r10))))"

section \<open>Merging\<close>

type_synonym pred_edge = "nat \<times> edge"

text \<open>
  The incoming values grouped by an equality, each group with the first value of it and the edges
  it comes from, in the order the groups appear.
\<close>

definition add_group :: "('a \<Rightarrow> 'a \<Rightarrow> bool) \<Rightarrow> ('a \<times> pred_edge list) list \<Rightarrow> pred_edge \<times> 'a \<Rightarrow> ('a \<times> pred_edge list) list" where
  "add_group eq gs ev =
     (case ev of (e, v) \<Rightarrow>
        case find_idx (\<lambda>g. eq (fst g) v) gs of
          None \<Rightarrow> gs @ [(v, [e])]
        | Some k \<Rightarrow> gs[k := (fst (gs ! k), snd (gs ! k) @ [e])])"

definition group_edges :: "('a \<Rightarrow> 'a \<Rightarrow> bool) \<Rightarrow> pred_edge list \<Rightarrow> 'a list \<Rightarrow> ('a \<times> pred_edge list) list" where
  "group_edges eq pes vs = foldl (add_group eq) [] (zip pes vs)"

text \<open>A new \<open>JoinValue\<close> of the block, noted as a source.\<close>

definition add_join :: "int \<Rightarrow> val option list \<Rightarrow> pred_edge list list \<Rightarrow> obj act" where
  "add_join rg vs es =
     abind (aget b_num) (\<lambda>num.
     abind (new_join (int num) rg vs es) (\<lambda>phi.
     abind (add_source (snd phi)) (\<lambda>_. aret phi)))"

definition stamp_null_phi :: "obj \<Rightarrow> pred_edge list \<Rightarrow> obj list \<Rightarrow> int \<Rightarrow> obj act" where
  "stamp_null_phi p pes entries rg =
     (case snd p of
        Ptr i vo mk np \<Rightarrow>
          if q_checked_null i \<noteq> None then aret p
          else
            let vals = map (\<lambda>v. nullity_value (snd v)) entries in
            abind (if None \<in> set vals then aret None
                   else
                     let vs = map the vals in
                     if \<forall>v \<in> set vs. same_val v (hd vs)
                     then aret (if is_join (hd vs) then Some (hd vs) else None)
                     else
                       let gs = group_edges same_val pes vs in
                       abind (add_join rg (map (\<lambda>g. Some (fst g)) gs) (map snd gs)) (\<lambda>phi. aret (Some (snd phi))))
              (\<lambda>phi. if same_phi phi np then aret p else new_obj (Ptr i vo mk phi))
      | _ \<Rightarrow> aret p)"

text \<open>The facts of the edge or of the block about a pointer not yet checked.\<close>

definition resolve_entry :: "(int option \<times> ptr_facts) list \<Rightarrow> edge_fact option \<Rightarrow> obj \<Rightarrow> obj act" where
  "resolve_entry facts c v0 =
     abind (case c of Some (FAdjust i base) \<Rightarrow> with_view base v0 | _ \<Rightarrow> aret v0) (\<lambda>v.
     case snd v of
       Ptr i vo mk np \<Rightarrow>
         if q_checked_null i \<noteq> None then aret v
         else
           (let fid = null_fact_id i;
               f = (case c of
                      Some (FPtr pf) \<Rightarrow> if pf_base_id pf = fid then Some pf else dict_get facts fid
                    | _ \<Rightarrow> dict_get facts fid)
           in
           case Option.bind f pf_checked_null of
             Some False \<Rightarrow> with_nullity v (Some False)
           | Some True \<Rightarrow> new_obj (Num 0 8 (-1))
           | None \<Rightarrow> aret v)
     | _ \<Rightarrow> aret v)"

definition ptr_of :: "obj \<Rightarrow> ptr_info" where
  "ptr_of v = (case snd v of Ptr i vo mk np \<Rightarrow> i | _ \<Rightarrow> default_ptr 0)"

definition obj_offset :: "obj \<Rightarrow> val option" where
  "obj_offset v = (case snd v of Ptr i vo mk np \<Rightarrow> total_offset i vo | _ \<Rightarrow> None)"

definition obj_map_key :: "obj \<Rightarrow> val option" where
  "obj_map_key v = (case snd v of Ptr i vo mk np \<Rightarrow> mk | _ \<Rightarrow> None)"

definition some_act :: "obj act \<Rightarrow> obj option act" where
  "some_act m = abind m (\<lambda>x. aret (Some x))"

definition fresh_pkt_facts :: "int \<Rightarrow> int option \<Rightarrow> val \<Rightarrow> pkt_facts" where
  "fresh_pkt_facts i base p =
     \<lparr>kf_id = Some i, kf_base_id = base, kf_ptr = Some p, kf_min_len = None, kf_max_len = None\<rparr>"

definition set_pkt_facts :: "int \<Rightarrow> int option \<Rightarrow> val \<Rightarrow> unit act" where
  "set_pkt_facts i base p =
     amod (\<lambda>b. b\<lparr>t_pkt_facts := dict_set (Some i) (fresh_pkt_facts i base p) (t_pkt_facts b)\<rparr>)"

text \<open>The pointers of one type that meet; \<open>None\<close> gives the register up.\<close>

definition merge_pkt_ptrs :: "pred_edge list \<Rightarrow> obj list \<Rightarrow> int \<Rightarrow> bool option \<Rightarrow> obj option act" where
  "merge_pkt_ptrs pes entries rg nullity =
     (let first = hd entries in
      if \<exists>r \<in> set entries. q_base_id (ptr_of r) \<noteq> q_base_id (ptr_of first) then aret None
      else if \<exists>r \<in> set entries. fst r \<noteq> fst first then
        let gs = group_edges (\<lambda>a b. py_eq (snd a) (snd b)) pes entries in
        abind (add_join rg (map (\<lambda>g. obj_offset (fst g)) gs) (map snd gs)) (\<lambda>var_off.
        abind new_ptr_id (\<lambda>new_id.
        abind (new_obj (Ptr ((default_ptr PTR_TO_PKT)\<lparr>q_id := new_id, q_base_id := q_base_id (ptr_of first),
                               q_checked_null := nullity\<rparr>) (Some (snd var_off)) None None)) (\<lambda>p.
        abind (set_pkt_facts new_id (q_base_id (ptr_of first)) (snd p)) (\<lambda>_.
        some_act (stamp_null_phi p pes entries rg)))))
      else abind (with_nullity first nullity) (\<lambda>p. some_act (stamp_null_phi p pes entries rg)))"

definition merge_map_ptrs :: "pred_edge list \<Rightarrow> obj list \<Rightarrow> int \<Rightarrow> bool option \<Rightarrow> obj option act" where
  "merge_map_ptrs pes entries rg nullity =
     (let first = hd entries; i = ptr_of first in
      if \<exists>r \<in> set entries. q_map_id (ptr_of r) \<noteq> q_map_id i \<or> q_off (ptr_of r) \<noteq> q_off i then aret None
      else if \<forall>r \<in> set entries. q_map_key_id (ptr_of r) = q_map_key_id i
      then abind (with_nullity first nullity) (\<lambda>p. some_act (stamp_null_phi p pes entries rg))
      else
        let gs = group_edges (\<lambda>a b. q_map_key_id (ptr_of a) = q_map_key_id (ptr_of b)) pes entries in
        abind (aget b_num) (\<lambda>num.
        abind (new_join (int num) rg (map (\<lambda>g. obj_map_key (fst g)) gs) (map snd gs)) (\<lambda>key.
        abind new_ptr_id (\<lambda>key_id.
        abind (case snd first of
                 Ptr _ vo _ np \<Rightarrow>
                   new_obj (Ptr (i\<lparr>q_map_key_id := Some key_id, q_checked_null := nullity\<rparr>) vo (Some (snd key)) np)
               | _ \<Rightarrow> araise AttributeError) (\<lambda>p.
        abind (add_source (snd key)) (\<lambda>_.
        some_act (stamp_null_phi p pes entries rg)))))))"

definition merge_other_ptrs :: "pred_edge list \<Rightarrow> obj list \<Rightarrow> int \<Rightarrow> bool option \<Rightarrow> obj option act" where
  "merge_other_ptrs pes entries rg nullity =
     (let first = hd entries in
      if \<exists>r \<in> set entries. \<not> py_eq (snd r) (snd first) then aret None
      else
        abind (with_nullity first nullity) (\<lambda>out.
        abind (if q_type (ptr_of first) = PTR_TO_CTX \<and>
                  (\<exists>r \<in> set entries. q_base_id (ptr_of r) \<noteq> q_base_id (ptr_of first))
               then with_view None out else aret out) (\<lambda>p.
        some_act (stamp_null_phi p pes entries rg))))"

definition merge_ptrs :: "pred_edge list \<Rightarrow> obj list \<Rightarrow> int \<Rightarrow> obj option act" where
  "merge_ptrs pes entries rg =
     (let t = q_type (ptr_of (hd entries));
          nullity = fold_nullity (map (\<lambda>r. q_checked_null (ptr_of r)) entries)
      in
      if \<exists>r \<in> set entries. \<not> is_ptr (snd r) \<or> q_type (ptr_of r) \<noteq> t then aret None
      else if t = PTR_TO_PKT then merge_pkt_ptrs pes entries rg nullity
      else if t = PTR_TO_MAP_VALUE then merge_map_ptrs pes entries rg nullity
      else merge_other_ptrs pes entries rg nullity)"

definition merge_scalars :: "pred_edge list \<Rightarrow> obj list \<Rightarrow> int \<Rightarrow> obj option act" where
  "merge_scalars pes entries rg =
     (let first = hd entries in
      if \<exists>r \<in> set entries. is_ptr (snd r) then aret None
      else if num_of (snd first) \<noteq> None \<and> (\<forall>r \<in> set entries. num_of (snd r) = num_of (snd first))
      then aret (Some first)
      else if \<exists>r \<in> set entries. fst r \<noteq> fst first then
        let gs = group_edges (\<lambda>a b. py_eq (snd a) (snd b)) pes entries in
        some_act (add_join rg (map (\<lambda>g. Some (snd (fst g))) gs) (map snd gs))
      else aret (Some first))"

text \<open>
  \<open>merge_entry\<close>.  It calls itself on the pointers among the entries when the others are null
  constants; there are fewer of them, so a depth of the number of entries is enough
  (\<open>merge_entry_depth\<close> below).
\<close>

fun merge_entry_n ::
  "nat \<Rightarrow> pred_edge list \<Rightarrow> obj option list \<Rightarrow> int \<Rightarrow> edge_fact option list \<Rightarrow> obj option act" where
  "merge_entry_n 0 pes entries0 rg conds = araise (RuntimeError ''maximum recursion depth exceeded'')"
| "merge_entry_n (Suc depth) pes entries0 rg conds =
     abind (aget t_ptr_facts) (\<lambda>facts.
     abind (amap (\<lambda>(k, v). aopt (resolve_entry facts (if conds = [] then None else conds ! k)) v)
              (enumerate 0 entries0)) (\<lambda>resolved.
     if None \<in> set resolved then aret None
     else
       let entries = map the resolved;
           at = filter (\<lambda>k. is_ptr (snd (entries ! k))) [0..<length entries]
       in
       if at \<noteq> [] \<and> length at \<noteq> length entries then
         if \<not> (\<forall>v \<in> set entries. is_ptr (snd v) \<or> is_null_const (snd v)) then aret None
         else
           abind (merge_entry_n depth (map (\<lambda>k. pes ! k) at) (map (\<lambda>k. Some (entries ! k)) at) rg []) (\<lambda>merged.
           case merged of
             None \<Rightarrow> aret None
           | Some mp \<Rightarrow>
               if \<not> is_ptr (snd mp) then aret None
               else
                 abind (with_nullity mp None) (\<lambda>out.
                 abind (if q_checked_null (ptr_of mp) = None then aret out
                        else
                          abind new_ptr_id (\<lambda>i.
                          case snd out of
                            Ptr info vo mk np \<Rightarrow>
                              (let out' = (fst out, Ptr (info\<lparr>q_id := i\<rparr>) vo mk np) in
                               abind (if q_type info = PTR_TO_PKT
                                      then set_pkt_facts i (q_base_id info) (snd out') else aret ()) (\<lambda>_.
                               aret out'))
                          | _ \<Rightarrow> araise AttributeError)) (\<lambda>out.
                 some_act (stamp_null_phi out pes entries rg))))
       else if entries = [] then araise IndexError
       else if is_ptr (snd (hd entries)) then merge_ptrs pes entries rg
       else merge_scalars pes entries rg))"

definition merge_entry ::
  "pred_edge list \<Rightarrow> obj option list \<Rightarrow> int \<Rightarrow> edge_fact option list \<Rightarrow> obj option act" where
  "merge_entry pes entries rg conds = merge_entry_n (Suc (length entries)) pes entries rg conds"

section \<open>The entry of a block with predecessors\<close>

text \<open>
  The facts of a predecessor, replaced by the fact of the edge where that is about the same
  pointer.  A fact of the wrong class lacks the attributes that are read.
\<close>

definition edge_ptr_base :: "edge_fact option \<Rightarrow> int option" where
  "edge_ptr_base c = (case c of Some (FPtr f) \<Rightarrow> pf_base_id f | _ \<Rightarrow> None)"

definition pick_ptr_fact :: "edge_fact option \<Rightarrow> int option \<Rightarrow> ptr_facts \<Rightarrow> ptr_facts res" where
  "pick_ptr_fact c base f =
     (if edge_ptr_base c = base
      then (case c of Some (FPtr g) \<Rightarrow> Inr g | _ \<Rightarrow> Inl AttributeError)
      else Inr f)"

definition merge_ptr_fact ::
  "edge_fact option \<Rightarrow> (int option \<times> ptr_facts) list \<Rightarrow> int option \<times> ptr_facts \<Rightarrow> (int option \<times> ptr_facts) list res" where
  "merge_ptr_fact c facts bf =
     (case bf of (base, f0) \<Rightarrow>
        ebind (pick_ptr_fact c base f0) (\<lambda>f.
        Inr (case dict_get facts base of
               None \<Rightarrow> dict_set base f facts
             | Some old \<Rightarrow>
                 if pf_checked_null old \<noteq> pf_checked_null f
                 then dict_set base (f\<lparr>pf_checked_null := None\<rparr>) facts
                 else facts)))"

definition opt2 :: "('a \<Rightarrow> 'a \<Rightarrow> 'a) \<Rightarrow> 'a option \<Rightarrow> 'a option \<Rightarrow> 'a option" where
  "opt2 f a b = (case (a, b) of (Some x, Some y) \<Rightarrow> Some (f x y) | _ \<Rightarrow> None)"

definition edge_pkt_ids :: "edge_fact option \<Rightarrow> int option \<times> int option" where
  "edge_pkt_ids c = (case c of Some (FPkt f) \<Rightarrow> (kf_base_id f, kf_id f) | _ \<Rightarrow> (None, None))"

definition pick_pkt_fact :: "edge_fact option \<Rightarrow> int option \<Rightarrow> int option \<Rightarrow> pkt_facts \<Rightarrow> pkt_facts res" where
  "pick_pkt_fact c pkt_base i f =
     (if edge_pkt_ids c = (pkt_base, i)
      then (case c of Some (FPkt g) \<Rightarrow> Inr g | _ \<Rightarrow> Inl AttributeError)
      else Inr f)"

definition merge_pkt_fact ::
  "edge_fact option \<Rightarrow> int option \<Rightarrow> (int option \<times> pkt_facts) list \<Rightarrow> int option \<times> pkt_facts \<Rightarrow>
   (int option \<times> pkt_facts) list res" where
  "merge_pkt_fact c pkt_base facts idf =
     (case idf of (i, f0) \<Rightarrow>
        ebind (pick_pkt_fact c pkt_base i f0) (\<lambda>f.
        Inr (case dict_get facts i of
               None \<Rightarrow> dict_set i f facts
             | Some old \<Rightarrow>
                 dict_set i (f\<lparr>kf_min_len := opt2 min (kf_min_len f) (kf_min_len old),
                               kf_max_len := opt2 max (kf_max_len f) (kf_max_len old)\<rparr>) facts)))"

definition merge_facts :: "nat \<Rightarrow> tblock \<Rightarrow> edge_fact option \<Rightarrow> tblock \<Rightarrow> tblock res" where
  "merge_facts i pb c b =
     (let base = (case c of Some (FAdjust idx v) \<Rightarrow> v | _ \<Rightarrow> t_pkt_base_id pb) in
      ebind (efoldl (merge_ptr_fact c) (t_ptr_facts b) (t_ptr_facts pb)) (\<lambda>facts.
      let b1 = b\<lparr>t_ptr_facts := facts\<rparr> in
      if i = 0 then
        Inr (b1\<lparr>t_pkt_base_id := base,
               t_pkt_facts := foldl (\<lambda>d (k, f). dict_set k f d) (t_pkt_facts b1) (t_pkt_facts pb)\<rparr>)
      else if t_pkt_base_id b1 \<noteq> base then Inr (b1\<lparr>t_pkt_base_id := None, t_pkt_facts := []\<rparr>)
      else
        ebind (efoldl (merge_pkt_fact c (t_pkt_base_id b1)) (t_pkt_facts b1) (t_pkt_facts pb)) (\<lambda>pkts.
        Inr (b1\<lparr>t_pkt_facts := pkts\<rparr>))))"

definition amod_res :: "(tblock \<Rightarrow> tblock res) \<Rightarrow> unit act" where
  "amod_res f = (\<lambda>s. case f (c_blk s) of Inl e \<Rightarrow> Inl e | Inr b \<Rightarrow> Inr ((), s\<lparr>c_blk := b\<rparr>))"

definition set_reg :: "nat \<Rightarrow> obj option \<Rightarrow> unit act" where
  "set_reg r v = amod (\<lambda>b. b\<lparr>t_regs := (t_regs b)[r := v]\<rparr>)"

definition pred_edge_of :: "tblock list \<Rightarrow> nat \<Rightarrow> nat \<Rightarrow> pred_edge" where
  "pred_edge_of blocks num p = (p, if b_succ_f (blocks ! p) = Some num then Fall else Taken)"

definition edge_cond :: "tblock list \<Rightarrow> pred_edge \<Rightarrow> edge_fact option" where
  "edge_cond blocks e = (case snd e of Fall \<Rightarrow> t_cond_f (blocks ! fst e) | Taken \<Rightarrow> t_cond_t (blocks ! fst e))"

fun aeach :: "('a \<Rightarrow> unit act) \<Rightarrow> 'a list \<Rightarrow> unit act" where
  "aeach f [] = aret ()"
| "aeach f (x # xs) = abind (f x) (\<lambda>_. aeach f xs)"

definition merge_all_facts :: "tblock list \<Rightarrow> edge_fact option list \<Rightarrow> unit act" where
  "merge_all_facts pbs conds =
     aeach (\<lambda>i. amod_res (merge_facts i (pbs ! i) (conds ! i))) [0..<length pbs]"

definition merge_regs :: "pred_edge list \<Rightarrow> tblock list \<Rightarrow> edge_fact option list \<Rightarrow> unit act" where
  "merge_regs pes pbs conds =
     aeach (\<lambda>r. abind (merge_entry pes (map (\<lambda>pb. t_regs pb ! r) pbs) (int r) conds) (set_reg r)) [0..<10]"

definition merge_stk :: "pred_edge list \<Rightarrow> tblock list \<Rightarrow> edge_fact option list \<Rightarrow> unit act" where
  "merge_stk pes pbs conds =
     (let n = Min (set (map (\<lambda>pb. length (t_stk pb)) pbs)) in
      abind (amod (\<lambda>b. b\<lparr>t_stk := replicate n None\<rparr>)) (\<lambda>_.
      aeach (\<lambda>i.
        abind (merge_entry pes (map (\<lambda>pb. t_stk pb ! i) pbs) (- 8 * (int i + 1)) conds) (\<lambda>v.
        amod (\<lambda>b. b\<lparr>t_stk := (t_stk b)[i := v]\<rparr>))) [0..<n]))"

definition merge_from :: "pred_edge list \<Rightarrow> tblock list \<Rightarrow> edge_fact option list \<Rightarrow> unit act" where
  "merge_from pes pbs conds =
     abind (merge_all_facts pbs conds) (\<lambda>_.
     if pbs = [] then araise IndexError
     else
       abind (amod (\<lambda>b. b\<lparr>t_regs := t_regs (hd pbs)\<rparr>)) (\<lambda>_.
       abind (merge_regs pes pbs conds) (\<lambda>_. merge_stk pes pbs conds)))"

definition merge_predecessors :: "tblock list \<Rightarrow> unit act" where
  "merge_predecessors blocks =
     abind (aget (\<lambda>b. (b_preds b, b_num b))) (\<lambda>(preds, num).
     let pes = map (pred_edge_of blocks num) preds
     in merge_from pes (map (\<lambda>e. blocks ! fst e) pes) (map (edge_cond blocks) pes))"

section \<open>The stack\<close>

definition stk_slot :: "int \<Rightarrow> int" where
  "stk_slot addr = - (addr div 8) - 1"

text \<open>The instruction position a new value is stamped with.\<close>

definition cur_idx :: "tblock \<Rightarrow> int" where
  "cur_idx b = (case t_idx b of None \<Rightarrow> -1 | Some i \<Rightarrow> i)"

text \<open>A number of the code's that has no identity of interest.\<close>

definition mask_num :: "nat \<Rightarrow> nat \<Rightarrow> val" where
  "mask_num n sz = Num (push_bit (n * 8) 1 - 1) sz (-1)"

definition stk_index :: "obj option list \<Rightarrow> int \<Rightarrow> nat act" where
  "stk_index stk k = (case py_index stk k of None \<Rightarrow> araise IndexError | Some i \<Rightarrow> aret i)"

definition obj_part :: "obj option \<Rightarrow> val option" where
  "obj_part v = map_option snd v"

text \<open>The value a store builds for the slot, before it is merged with what is there.\<close>

definition store_part :: "int \<Rightarrow> nat \<Rightarrow> nat \<Rightarrow> obj option \<Rightarrow> obj option act" where
  "store_part idx off sz value =
     abind (if sz < 8
            then some_act (new_obj (ALUbinary BPF_AND (obj_part value) (Some (mask_num sz 8)) 0 8 idx))
            else aret value) (\<lambda>v1.
     if off \<noteq> 0
     then some_act (new_obj (ALUbinary BPF_LSH (obj_part v1) (Some (Num (int (off * 8)) 8 (-1))) 0 8 idx))
     else aret v1)"

definition stk_put :: "nat \<Rightarrow> obj option \<Rightarrow> unit act" where
  "stk_put i v = amod (\<lambda>b. b\<lparr>t_stk := (t_stk b)[i := v]\<rparr>)"

text \<open>The tail of \<open>stk_store\<close>: write the slot, or the bits of it that the store covers.\<close>

definition stk_join :: "int \<Rightarrow> int \<Rightarrow> nat \<Rightarrow> nat \<Rightarrow> obj option \<Rightarrow> unit act" where
  "stk_join idx slot_idx slot_off sz new_value =
     abind (aget t_stk) (\<lambda>stk.
     abind (stk_index stk slot_idx) (\<lambda>i.
     let old = stk ! i in
     if old = None \<or> slot_off = 0 \<and> 8 \<le> sz then stk_put i new_value
     else
       let keep = (push_bit 64 1 - 1) XOR push_bit (slot_off * 8) (push_bit (sz * 8) 1 - 1) in
       abind (new_obj (ALUbinary BPF_OR
                (Some (ALUbinary BPF_AND (obj_part old) (Some (Num keep 8 (-1))) 0 8 idx))
                (obj_part new_value) 0 8 idx)) (\<lambda>v.
       stk_put i (Some v))))"

definition stk_store :: "int \<Rightarrow> nat \<Rightarrow> obj option \<Rightarrow> unit act" where
  "stk_store addr sz value =
     (let slot_idx = stk_slot addr; slot_off = nat (addr mod 8) in
      abind (amod (\<lambda>b. b\<lparr>t_stk := t_stk b @ replicate (nat (slot_idx + 1) - length (t_stk b)) None\<rparr>)) (\<lambda>_.
      abind (aget cur_idx) (\<lambda>idx.
      abind (store_part idx slot_off sz value) (stk_join idx slot_idx slot_off sz))))"

definition stk_load :: "int \<Rightarrow> nat \<Rightarrow> obj option act" where
  "stk_load addr sz =
     (let slot_idx = stk_slot addr; slot_off = nat (addr mod 8) in
      abind (aget t_stk) (\<lambda>stk.
      if 8 < slot_off + sz then
        let chunks = map (\<lambda>i. let k = slot_idx - int i in
                       if 0 \<le> k \<and> k < int (length stk) then obj_part (stk ! nat k) else None)
                     [0..<(slot_off + sz + 7) div 8]
        in some_act (new_obj (ByteSeq chunks sz slot_off))
      else
        abind (stk_index stk slot_idx) (\<lambda>i.
        if slot_off \<noteq> 0 then some_act (new_obj (ByteSeq [obj_part (stk ! i)] sz slot_off))
        else
          case stk ! i of
            None \<Rightarrow> araise AttributeError
          | Some slot \<Rightarrow>
              if is_ptr (snd slot) \<or> v_size (snd slot) \<le> sz then aret (Some slot)
              else
                abind (aget cur_idx) (\<lambda>idx.
                some_act (new_obj (ALUbinary BPF_AND (Some (snd slot)) (Some (mask_num sz sz)) 0 8 idx))))))"

section \<open>Facts on the state transformers\<close>

named_theorems act_simps \<open>running a state transformer\<close>

lemma aret_run [simp, act_simps]: "aret x s = Inr (x, s)"
  and araise_run [simp, act_simps]: "araise e s = Inl e"
  and aget_run [simp, act_simps]: "aget f s = Inr (f (c_blk s), s)"
  and amod_run [simp, act_simps]: "amod g s = Inr ((), s\<lparr>c_blk := g (c_blk s)\<rparr>)"
  and new_ptr_id_run [act_simps]: "new_ptr_id s = Inr (c_ids s + 1, s\<lparr>c_ids := c_ids s + 1\<rparr>)"
  and new_obj_run [act_simps]: "new_obj v s = Inr ((c_oids s, v), s\<lparr>c_oids := Suc (c_oids s)\<rparr>)"
  and alift_Inr [simp, act_simps]: "alift (Inr x) s = Inr (x, s)"
  and alift_Inl [simp, act_simps]: "alift (Inl e) s = Inl e"
  by (simp_all add: aret_def araise_def aget_def amod_def new_ptr_id_def new_obj_def alift_def)

lemma abind_Inr [act_simps]: "m s = Inr (x, s') \<Longrightarrow> abind m f s = f x s'"
  and abind_Inl [act_simps]: "m s = Inl e \<Longrightarrow> abind m f s = Inl e"
  by (simp_all add: abind_def)

lemma abind_ret [simp]: "abind (aret x) f = f x"
  and abind_raise [simp]: "abind (araise e) f = araise e"
  by (simp_all add: abind_def aret_def araise_def fun_eq_iff)

lemma abind_get [simp, act_simps]: "abind (aget g) f s = f (g (c_blk s)) s"
  and abind_mod [simp, act_simps]: "abind (amod h) f' s = f' () (s\<lparr>c_blk := h (c_blk s)\<rparr>)"
  and abind_new_obj [act_simps]: "abind (new_obj v) f'' s = f'' (c_oids s, v) (s\<lparr>c_oids := Suc (c_oids s)\<rparr>)"
  by (simp_all add: abind_def new_obj_run)

lemma abind_InrD:
  assumes "abind m f s = Inr (y, s')"
  obtains x s1 where "m s = Inr (x, s1)" and "f x s1 = Inr (y, s')"
  using assms by (auto simp: abind_def split: sum.splits)

lemma abind_cases:
  "abind m f s = (case m s of Inl e \<Rightarrow> Inl e | Inr (x, s') \<Rightarrow> f x s')"
  by (simp add: abind_def)

text \<open>A property of the state that every step of a transformer keeps.\<close>

definition keeps :: "(tctx \<Rightarrow> tctx \<Rightarrow> bool) \<Rightarrow> 'a act \<Rightarrow> bool" where
  "keeps R m \<longleftrightarrow> (\<forall>s x s'. m s = Inr (x, s') \<longrightarrow> R s s')"

locale kept =
  fixes R :: "tctx \<Rightarrow> tctx \<Rightarrow> bool"
  assumes refl: "R s s"
    and trans: "R s t \<Longrightarrow> R t u \<Longrightarrow> R s u"
    and ids: "R s (s\<lparr>c_ids := c_ids s + 1\<rparr>)"
    and oids: "R s (s\<lparr>c_oids := Suc (c_oids s)\<rparr>)"
begin

lemma keeps_ret: "keeps R (aret x)"
  by (simp add: keeps_def refl)

lemma keeps_raise: "keeps R (araise e)"
  by (simp add: keeps_def)

lemma keeps_lift: "keeps R (alift r)"
  by (cases r) (simp_all add: keeps_def refl)

lemma keeps_get: "keeps R (aget f)"
  by (simp add: keeps_def refl)

lemma keeps_bind:
  assumes "keeps R m" and "\<And>x. keeps R (f x)"
  shows "keeps R (abind m f)"
  unfolding keeps_def
proof (intro allI impI)
  fix s y s' assume "abind m f s = Inr (y, s')"
  then obtain x s1 where "m s = Inr (x, s1)" "f x s1 = Inr (y, s')" by (rule abind_InrD)
  with assms have "R s s1" "R s1 s'" by (auto simp: keeps_def)
  then show "R s s'" by (rule trans)
qed

lemma keeps_mod: "(\<And>s. R s (s\<lparr>c_blk := g (c_blk s)\<rparr>)) \<Longrightarrow> keeps R (amod g)"
  by (simp add: keeps_def)

lemma keeps_mod_res:
  assumes "\<And>s b. g (c_blk s) = Inr b \<Longrightarrow> R s (s\<lparr>c_blk := b\<rparr>)"
  shows "keeps R (amod_res g)"
  using assms by (auto simp: keeps_def amod_res_def split: sum.splits)

lemma keeps_new_id: "keeps R new_ptr_id"
  by (simp add: keeps_def new_ptr_id_run ids)

lemma keeps_new_obj: "keeps R (new_obj v)"
  by (simp add: keeps_def new_obj_run oids)

lemma keeps_new_join: "keeps R (new_join a b c d)"
  by (simp add: keeps_def new_join_def oids)

lemma keeps_map: "(\<And>x. x \<in> set xs \<Longrightarrow> keeps R (f x)) \<Longrightarrow> keeps R (amap f xs)"
  by (induction xs) (auto intro!: keeps_bind keeps_ret)

lemma keeps_each: "(\<And>x. x \<in> set xs \<Longrightarrow> keeps R (f x)) \<Longrightarrow> keeps R (aeach f xs)"
  by (induction xs) (auto intro!: keeps_bind keeps_ret)

lemma keeps_opt: "(\<And>y. x = Some y \<Longrightarrow> keeps R (f y)) \<Longrightarrow> keeps R (aopt f x)"
  by (cases x) (auto simp: aopt_def intro!: keeps_bind keeps_ret)

lemma keeps_some: "keeps R m \<Longrightarrow> keeps R (some_act m)"
  unfolding some_act_def by (intro keeps_bind keeps_ret)

lemmas keeps_rules =
  keeps_ret keeps_raise keeps_lift keeps_get keeps_bind keeps_new_id keeps_new_obj keeps_new_join
  keeps_map keeps_each keeps_opt keeps_some

end

end
