(* ===== verification/Reach.thy ===== *)
theory Reach
  imports Prune Block_State
begin

text \<open>
  The reachability conditions of \<open>hornet/verify/prune.py\<close>: each block's condition is the
  disjunction over its incoming edges of the predecessor's condition and the guard of the edge.
  Z3's \<open>simplify\<close> is a parameter \<open>simp\<close> that returns a Python Boolean when the result is a
  constant; the state a condition is encoded in is the code's callback \<open>state_at\<close>, which sees the
  dictionary built so far.
\<close>

record block_info =
  n_num :: nat
  n_reach :: lit
  n_edge_taken :: lit
  n_edge_fall :: lit
  n_in_edges :: "(nat \<times> edge \<times> lit) list"
  n_imprecise :: bool

definition lit_of :: "(bt \<Rightarrow> lit) \<Rightarrow> lit \<Rightarrow> lit" where
  "lit_of simp t = (case t of Py b \<Rightarrow> Py b | Z x \<Rightarrow> simp x)"

definition branch_name :: "nat \<Rightarrow> string" where
  "branch_name n = ''branch'' @ show_nat n @ ''_taken''"

definition branch_guards ::
  "z3_queries \<Rightarrow> (bt \<Rightarrow> lit) \<Rightarrow> tblock \<Rightarrow> z3_state \<Rightarrow> (lit \<times> lit \<times> bool) res" where
  "branch_guards z simp b st =
     (case t_cond b of
        None \<Rightarrow> (let c = Z (Bool (branch_name (b_num b))) in Inr (c, not_lit c, True))
      | Some cnd \<Rightarrow>
          ebind (cond_to_z3 z st cnd) (\<lambda>t.
          let c = lit_of simp t in Inr (c, not_lit c, False)))"

definition in_edges_of ::
  "tblock list \<Rightarrow> (nat \<times> block_info) list \<Rightarrow> nat \<Rightarrow> (nat \<times> edge \<times> lit) list" where
  "in_edges_of blocks info b =
     concat (map (\<lambda>p.
       case dict_get info p of
         None \<Rightarrow> []
       | Some pi \<Rightarrow>
           if n_reach pi = Py False then []
           else
             (let t = and_lit (n_reach pi) (n_edge_taken pi); f = and_lit (n_reach pi) (n_edge_fall pi) in
              (if b_succ_t (blocks ! p) = Some b \<and> t \<noteq> Py False then [(p, Taken, t)] else []) @
              (if b_succ_f (blocks ! p) = Some b \<and> f \<noteq> Py False then [(p, Fall, f)] else [])))
       (sorted_list_of_set (set (b_preds (blocks ! b)))))"

definition analyze_block ::
  "z3_queries \<Rightarrow> (bt \<Rightarrow> lit) \<Rightarrow> tblock list \<Rightarrow> ((nat \<times> block_info) list \<Rightarrow> nat \<Rightarrow> z3_state res) \<Rightarrow>
   (nat \<times> block_info) list \<Rightarrow> nat \<Rightarrow> (nat \<times> block_info) list res" where
  "analyze_block z simp blocks state_at info b =
     (let in_edges = (if b = 0 then [] else in_edges_of blocks info b);
          reach = (if b = 0 then Py True else or_all (map (\<lambda>(p, k, g). g) in_edges))
      in
      ebind (if b_kind (blocks ! b) = KBranch
             then ebind (state_at info b) (branch_guards z simp (blocks ! b))
             else Inr (Py True, Py True, False)) (\<lambda>(taken, fall, imprecise).
      Inr (dict_set b \<lparr>n_num = b, n_reach = reach, n_edge_taken = taken, n_edge_fall = fall,
             n_in_edges = in_edges, n_imprecise = imprecise\<rparr> info)))"

definition live_set :: "'a bblock_scheme list \<Rightarrow> nat list option \<Rightarrow> nat set res" where
  "live_set blocks targets =
     (let live = forward_reachable blocks in
      case targets of
        None \<Rightarrow> Inr live
      | Some ts \<Rightarrow>
          efoldl (\<lambda>keep t. if t \<in> live then ebind (slice_to blocks live t) (\<lambda>s. Inr (keep \<union> s)) else Inr keep)
            {0} ts)"

definition analyze ::
  "z3_queries \<Rightarrow> (bt \<Rightarrow> lit) \<Rightarrow> tblock list \<Rightarrow> ((nat \<times> block_info) list \<Rightarrow> nat \<Rightarrow> z3_state res) \<Rightarrow>
   nat list option \<Rightarrow> (nat \<times> block_info) list \<Rightarrow> (nat \<times> block_info) list res" where
  "analyze z simp blocks state_at targets info0 =
     ebind (live_set blocks targets) (\<lambda>live.
     ebind (topo_order blocks live) (\<lambda>order.
     efoldl (analyze_block z simp blocks state_at) info0 order))"

section \<open>The meaning of the conditions\<close>

definition lit_holds :: "('m \<Rightarrow> bt \<Rightarrow> bool) \<Rightarrow> 'm \<Rightarrow> lit \<Rightarrow> bool" where
  "lit_holds evb m t = (case t of Py b \<Rightarrow> b | Z x \<Rightarrow> evb m x)"

text \<open>The edges that an assignment takes, given the dictionary, and the blocks whose condition holds.\<close>

definition taken_edges :: "('m \<Rightarrow> bt \<Rightarrow> bool) \<Rightarrow> tblock list \<Rightarrow> (nat \<times> block_info) list \<Rightarrow> 'm \<Rightarrow> nat rel" where
  "taken_edges evb blocks info m =
     {(p, b). \<exists>pi. dict_get info p = Some pi \<and>
        (b_succ_t (blocks ! p) = Some b \<and> lit_holds evb m (n_edge_taken pi) \<or>
         b_succ_f (blocks ! p) = Some b \<and> lit_holds evb m (n_edge_fall pi))}"

definition block_reached :: "('m \<Rightarrow> bt \<Rightarrow> bool) \<Rightarrow> (nat \<times> block_info) list \<Rightarrow> 'm \<Rightarrow> nat \<Rightarrow> bool" where
  "block_reached evb info m b = (\<exists>i. dict_get info b = Some i \<and> lit_holds evb m (n_reach i))"

context smtlib begin

abbreviation evl :: "'m \<Rightarrow> lit \<Rightarrow> bool" where
  "evl \<equiv> lit_holds evb"

lemmas evl_def = lit_holds_def

lemma evl_simps [simp]: "evl m (Py b) = b" "evl m (Z x) = evb m x"
  by (simp_all add: evl_def)

lemma evl_not_False: "evl m t \<Longrightarrow> t \<noteq> Py False"
  by auto

lemma evl_and: "evl m (and_lit a b) = (evl m a \<and> evl m b)"
  by (cases a; cases b) (auto simp: and_lit_def evb_And split: bool.split)

lemma evl_not: "evl m (not_lit a) = (\<not> evl m a)"
  by (cases a) (auto simp: not_lit_def evb_Not)

lemma evb_lit_term: "evb m (lit_term a) = evl m a"
  by (cases a) (simp_all add: lit_term_def evb_BoolVal)

lemma evl_or_all: "evl m (or_all ts) = (\<exists>t \<in> set ts. evl m t)"
proof -
  let ?ts = "filter (\<lambda>t. t \<noteq> Py False) ts"
  have "(\<exists>t \<in> set ts. evl m t) = (\<exists>t \<in> set ?ts. evl m t)" using evl_not_False by force
  also have "\<dots> = evl m (or_all ts)"
  proof (cases "?ts = [] \<or> Py True \<in> set ?ts")
    case True
    then show ?thesis
    proof
      assume "?ts = []"
      then show ?thesis by (simp only: or_all_def Let_def if_True evl_simps list.set) simp
    next
      assume "Py True \<in> set ?ts"
      then show ?thesis 
        by (auto simp: or_all_def Let_def simp del: set_filter filter_empty_conv intro: bexI [of _ "Py True"])
    qed
  next
    case False
    then obtain t us where ts: "?ts = t # us" by (cases ?ts) auto
    then show ?thesis
      using False unfolding or_all_def Let_def by (cases us) (auto simp: evb_Or evb_lit_term)
  qed
  finally show ?thesis by simp
qed

lemma evl_lit_of: "(\<And>x. evl m (simp x) = evb m x) \<Longrightarrow> evl m (lit_of simp t) = evl m t"
  by (cases t) (simp_all add: lit_of_def)

text \<open>The guards of a branch are complementary.\<close>

lemma branch_guards_not: "branch_guards z' simp b st = Inr (t, f, imp) \<Longrightarrow> evl m f = (\<not> evl m t)"
  by (auto simp: branch_guards_def Let_def ebind_eq_Inr evl_not split: option.splits)

abbreviation enabled :: "tblock list \<Rightarrow> (nat \<times> block_info) list \<Rightarrow> 'm \<Rightarrow> nat rel" where
  "enabled \<equiv> taken_edges evb"

abbreviation reached :: "(nat \<times> block_info) list \<Rightarrow> 'm \<Rightarrow> nat \<Rightarrow> bool" where
  "reached \<equiv> block_reached evb"

lemmas enabled_def = taken_edges_def
lemmas reached_def = block_reached_def

lemma evl_in_edges:
  "(\<exists>e \<in> set (in_edges_of blocks info b). evl m (snd (snd e))) \<longleftrightarrow>
   (\<exists>p \<in> set (b_preds (blocks ! b)). (p, b) \<in> enabled blocks info m \<and> reached info m p)"
proof -
  define es where "es p = (case dict_get info p of
         None \<Rightarrow> []
       | Some pi \<Rightarrow>
           if n_reach pi = Py False then []
           else
             (let t = and_lit (n_reach pi) (n_edge_taken pi); f = and_lit (n_reach pi) (n_edge_fall pi) in
              (if b_succ_t (blocks ! p) = Some b \<and> t \<noteq> Py False then [(p, Taken, t)] else []) @
              (if b_succ_f (blocks ! p) = Some b \<and> f \<noteq> Py False then [(p, Fall, f)] else [])))" for p
  have es: "(\<exists>e \<in> set (es p). evl m (snd (snd e))) \<longleftrightarrow> (p, b) \<in> enabled blocks info m \<and> reached info m p" for p
  proof (cases "dict_get info p")
    case (Some pi)
    show ?thesis
    proof (cases "evl m (n_reach pi)")
      case True
      then have "n_reach pi \<noteq> Py False" by (rule evl_not_False)
      then show ?thesis
        using True Some evl_not_False [of m "and_lit (n_reach pi) (n_edge_taken pi)"]
          evl_not_False [of m "and_lit (n_reach pi) (n_edge_fall pi)"]
        by (auto simp: es_def enabled_def reached_def Let_def evl_and)
    next
      case False
      then show ?thesis using Some by (auto simp: es_def enabled_def reached_def Let_def evl_and)
    qed
  qed (simp add: es_def enabled_def)
  have "set (in_edges_of blocks info b) = (\<Union>p \<in> set (b_preds (blocks ! b)). set (es p))"
    by (simp add: in_edges_of_def es_def)
  then show ?thesis using es by blast
qed

end

context smtlib begin

lemma analyze_block_entry:
  assumes "analyze_block z' simp blocks state_at info b = Inr info'"
  obtains i where "info' = dict_set b i info"
    and "n_reach i = (if b = 0 then Py True else or_all (map (\<lambda>(p, k, g). g) (in_edges_of blocks info b)))"
    and "if b_kind (blocks ! b) = KBranch then \<forall>m. evl m (n_edge_fall i) = (\<not> evl m (n_edge_taken i))
         else n_edge_taken i = Py True \<and> n_edge_fall i = Py True"
proof -
  obtain taken fall imp where g: "(if b_kind (blocks ! b) = KBranch
             then ebind (state_at info b) (branch_guards z' simp (blocks ! b))
             else Inr (Py True, Py True, False)) = Inr (taken, fall, imp)"
    and i: "info' = dict_set b \<lparr>n_num = b,
        n_reach = (if b = 0 then Py True else or_all (map (\<lambda>(p, k, g). g) (if b = 0 then [] else in_edges_of blocks info b))),
        n_edge_taken = taken, n_edge_fall = fall, n_in_edges = (if b = 0 then [] else in_edges_of blocks info b),
        n_imprecise = imp\<rparr> info"
    using assms by (auto simp: analyze_block_def Let_def ebind_eq_Inr)
  show thesis
  proof (rule that [OF i])
    show "n_reach \<lparr>n_num = b,
        n_reach = (if b = 0 then Py True else or_all (map (\<lambda>(p, k, g). g) (if b = 0 then [] else in_edges_of blocks info b))),
        n_edge_taken = taken, n_edge_fall = fall, n_in_edges = (if b = 0 then [] else in_edges_of blocks info b),
        n_imprecise = imp\<rparr> = (if b = 0 then Py True else or_all (map (\<lambda>(p, k, g). g) (in_edges_of blocks info b)))"
      by simp
  qed (use g branch_guards_not in \<open>auto simp: ebind_eq_Inr split: if_splits\<close>)
qed

lemma enabled_flow:
  assumes "wf_graph blocks" and "(p, b) \<in> enabled blocks info m" and "p < length blocks"
  shows "(p, b) \<in> flow_of blocks"
  using assms unfolding enabled_def blocks.flow_def by (auto simp: successors_def split: option.splits)

lemma enabled_update:
  "dict_get info b = None \<Longrightarrow> p \<noteq> b \<Longrightarrow> (p, c) \<in> enabled blocks (dict_set b i info) m \<longleftrightarrow> (p, c) \<in> enabled blocks info m"
  by (simp add: enabled_def)

lemma reached_update: "c \<noteq> b \<Longrightarrow> reached (dict_set b i info) m c = reached info m c"
  by (simp add: reached_def)

text \<open>The entries made along the order satisfy the equations of reachability.\<close>

lemma analyze_prefix:
  assumes wf: "wf_graph blocks" and live: "live \<subseteq> {..<length blocks}"
    and "blocks.topological blocks live (ys @ zs)"
    and "efoldl (analyze_block z' simp blocks state_at) [] ys = Inr info"
  shows "(\<forall>b. dict_get info b \<noteq> None \<longleftrightarrow> b \<in> set ys) \<and>
    (\<forall>b \<in> set ys. \<forall>m. reached info m b \<longleftrightarrow> b = 0 \<or> (\<exists>p. (p, b) \<in> enabled blocks info m \<and> reached info m p)) \<and>
    (\<forall>b i. dict_get info b = Some i \<longrightarrow>
       (if b_kind (blocks ! b) = KBranch then \<forall>m. evl m (n_edge_fall i) = (\<not> evl m (n_edge_taken i))
        else n_edge_taken i = Py True \<and> n_edge_fall i = Py True))"
  using assms(3,4)
proof (induction ys arbitrary: zs info rule: rev_induct)
  case (snoc b ys)
  from snoc.prems(2) obtain info1 where pre: "efoldl (analyze_block z' simp blocks state_at) [] ys = Inr info1"
    and step: "analyze_block z' simp blocks state_at info1 b = Inr info"
    by (auto simp: efoldl_append ebind_eq_Inr)
  have topo: "blocks.topological blocks live (ys @ b # zs)" using snoc.prems(1) by simp
  note IH = snoc.IH [OF topo pre]
  have IH_dom: "dict_get info1 c \<noteq> None \<longleftrightarrow> c \<in> set ys" for c using IH by (elim conjE) (rule spec)
  from topo have fresh: "b \<notin> set ys" and L: "b \<in> live" "set ys \<subseteq> live"
    by (auto simp: blocks.topological_def)
  then have bn: "dict_get info1 b = None" using IH by blast
  obtain i where i: "info = dict_set b i info1"
    and reach: "n_reach i = (if b = 0 then Py True else or_all (map (\<lambda>(p, k, g). g) (in_edges_of blocks info1 b)))"
    and guards: "if b_kind (blocks ! b) = KBranch then \<forall>m. evl m (n_edge_fall i) = (\<not> evl m (n_edge_taken i))
         else n_edge_taken i = Py True \<and> n_edge_fall i = Py True"
    using analyze_block_entry [OF step] by blast
  have no_back: "(b, c) \<notin> enabled blocks info m" if "c \<in> set (ys @ [b])" for c m
  proof
    assume "(b, c) \<in> enabled blocks info m"
    then have "(b, c) \<in> flow_within blocks live"
      using enabled_flow [OF wf] live L that by (auto simp: blocks.flow_in_def)
    then have "c \<in> set zs" using topo by (auto simp: blocks.topological_def)
    with topo that show False by (auto simp: blocks.topological_def)
  qed
  have en: "(p, c) \<in> enabled blocks info m \<longleftrightarrow> (p, c) \<in> enabled blocks info1 m" if "c \<in> set (ys @ [b])" for p c m
    using no_back [OF that] enabled_update [OF bn, of p c blocks i m] i bn by (cases "p = b") (auto simp: enabled_def)
  have rc: "reached info m c = reached info1 m c" if "c \<noteq> b" for c m
    using reached_update that i by simp
  have eq: "reached info m c \<longleftrightarrow> c = 0 \<or> (\<exists>p. (p, c) \<in> enabled blocks info m \<and> reached info m p)"
    if c: "c \<in> set (ys @ [b])" for c m
  proof (cases "c = b")
    case True
    have "reached info m b \<longleftrightarrow> b = 0 \<or> (\<exists>e \<in> set (in_edges_of blocks info1 b). evl m (snd (snd e)))"
      using reach by (simp add: reached_def i evl_or_all case_prod_unfold)
    also have "\<dots> \<longleftrightarrow> b = 0 \<or> (\<exists>p \<in> set (b_preds (blocks ! b)). (p, b) \<in> enabled blocks info1 m \<and> reached info1 m p)"
      by (simp add: evl_in_edges)
    also have "\<dots> \<longleftrightarrow> b = 0 \<or> (\<exists>p. (p, b) \<in> enabled blocks info1 m \<and> reached info1 m p)"
    proof -
      have "p \<in> set (b_preds (blocks ! b))" if "(p, b) \<in> enabled blocks info1 m" for p
      proof -
        have "dict_get info1 p \<noteq> None" using that unfolding enabled_def by auto
        then have "p \<in> set ys" unfolding IH_dom .
        then have "(p, b) \<in> flow_of blocks" using enabled_flow [OF wf that] L(2) live by auto
        then show ?thesis using blocks.flow_preds [OF wf, of b p] blocks.flow_bound [OF wf, of p b] by simp
      qed
      then show ?thesis by blast
    qed
    also have "\<dots> \<longleftrightarrow> b = 0 \<or> (\<exists>p. (p, b) \<in> enabled blocks info m \<and> reached info m p)"
    proof -
      have "b \<in> set (ys @ [b])" by simp
      have "(p, b) \<in> enabled blocks info1 m \<and> reached info1 m p \<longleftrightarrow> (p, b) \<in> enabled blocks info m \<and> reached info m p" for p
        using en [OF \<open>b \<in> set (ys @ [b])\<close>, of p m] rc [of p m] no_back [OF \<open>b \<in> set (ys @ [b])\<close>, of m] by (cases "p = b") auto
      then show ?thesis by simp
    qed
    finally show ?thesis using True by simp
  next
    case False
    with c have "c \<in> set ys" by simp
    then have "reached info1 m c \<longleftrightarrow> c = 0 \<or> (\<exists>p. (p, c) \<in> enabled blocks info1 m \<and> reached info1 m p)"
      using IH by blast
    moreover have "(p, c) \<in> enabled blocks info m \<and> reached info m p \<longleftrightarrow>
        (p, c) \<in> enabled blocks info1 m \<and> reached info1 m p" for p
      using en [OF c] rc no_back [OF c] by (cases "p = b") auto
    ultimately show ?thesis using rc [OF False] by simp
  qed
  have dom: "\<forall>c. dict_get info c \<noteq> None \<longleftrightarrow> c \<in> set (ys @ [b])" using IH by (auto simp: i)
  have "\<forall>c j. dict_get info c = Some j \<longrightarrow>
       (if b_kind (blocks ! c) = KBranch then \<forall>m. evl m (n_edge_fall j) = (\<not> evl m (n_edge_taken j))
        else n_edge_taken j = Py True \<and> n_edge_fall j = Py True)"
    using IH guards by (simp add: i)
  with dom eq show ?case by blast
qed simp

lemma reach_solution:
  assumes "wf_graph blocks" and live: "live \<subseteq> {..<length blocks}" and topo: "blocks.topological blocks live order"
    and run: "efoldl (analyze_block z' simp blocks state_at) [] order = Inr info" and "0 \<in> live" and b: "b \<in> live"
  shows "reached info m b \<longleftrightarrow> (0, b) \<in> (enabled blocks info m)\<^sup>*"
proof -
  note fin = analyze_prefix [OF assms(1,2) _ run, of "[]"]
  have set: "set order = live" using topo by (simp add: blocks.topological_def)
  have dom: "dict_get info c \<noteq> None \<longleftrightarrow> c \<in> live" for c using fin topo set by simp
  have eq: "c \<in> live \<Longrightarrow> reached info m c \<longleftrightarrow> c = 0 \<or> (\<exists>p. (p, c) \<in> enabled blocks info m \<and> reached info m p)" for c
    using fin topo set by simp
  have src: "p \<in> live" if "(p, c) \<in> enabled blocks info m" for p c
    using that dom [of p] by (auto simp: enabled_def)
  have edge: "(p, c) \<in> flow_within blocks live" if "(p, c) \<in> enabled blocks info m" "c \<in> live" for p c
    using enabled_flow [OF assms(1) that(1)] src [OF that(1)] live that(2) by (auto simp: blocks.flow_in_def)
  have acyc: "acyclic (flow_within blocks live)" by (rule blocks.topological_acyclic [OF topo])
  have "finite (flow_within blocks live)"
    by (rule finite_subset [of _ "live \<times> live"]) (use live finite_subset in \<open>auto simp: blocks.flow_in_def\<close>)
  with acyc have wf: "wf (flow_within blocks live)" by (intro finite_acyclic_wf)
  have "b \<in> live \<longrightarrow> reached info m b \<longrightarrow> (0, b) \<in> (enabled blocks info m)\<^sup>*" for b
    using wf
  proof (induction b rule: wf_induct_rule)
    case (less b)
    show ?case
    proof (intro impI)
      assume b: "b \<in> live" "reached info m b"
      show "(0, b) \<in> (enabled blocks info m)\<^sup>*"
      proof (cases "b = 0")
        case False
        then obtain p where p: "(p, b) \<in> enabled blocks info m" "reached info m p" using eq b by blast
        with less edge b src show ?thesis by (meson rtrancl.rtrancl_into_rtrancl)
      qed simp
    qed
  qed
  moreover have "reached info m c" if "(0, c) \<in> (enabled blocks info m)\<^sup>*" "c \<in> live" for c
    using that
  proof (induction rule: rtrancl_induct)
    case base
    then show ?case using eq by blast
  next
    case (step p c)
    then show ?case using eq src by blast
  qed
  ultimately show ?thesis using b by blast
qed

end

section \<open>The live blocks\<close>

lemma efoldl_union:
  assumes "\<And>t. t \<in> set ts \<Longrightarrow> t \<in> L \<Longrightarrow> f t = Inr (S t)"
  shows "efoldl (\<lambda>keep t. if t \<in> L then ebind (f t) (\<lambda>s. Inr (keep \<union> s)) else Inr keep) keep0 ts =
    Inr (keep0 \<union> (\<Union>t \<in> set ts \<inter> L. S t))"
  using assms
proof (induction ts arbitrary: keep0)
  case (Cons t ts)
  have IH: "efoldl (\<lambda>keep t. if t \<in> L then ebind (f t) (\<lambda>s. Inr (keep \<union> s)) else Inr keep) keep1 ts =
      Inr (keep1 \<union> (\<Union>t \<in> set ts \<inter> L. S t))" for keep1
    using Cons.prems by (intro Cons.IH) simp
  show ?case using IH Cons.prems [of t] by (cases "t \<in> L") (simp_all add: Un_assoc)
qed simp

lemma live_set_ok:
  assumes "wf_graph blocks" and "blocks \<noteq> []"
  obtains live where "live_set blocks targets = Inr live" and "live \<subseteq> {..<length blocks}" and "0 \<in> live"
    and "live \<subseteq> (flow_within blocks live)\<^sup>* `` {0}" and "targets = None \<Longrightarrow> live = (flow_of blocks)\<^sup>* `` {0}"
proof -
  define L where "L = forward_reachable blocks"
  have L: "L = (flow_of blocks)\<^sup>* `` {0}" unfolding L_def by (rule forward_reachable_eq [OF assms])
  have n: "L \<subseteq> {..<length blocks}" using blocks.flow_reach_bound [of 0 _ blocks] assms by (auto simp: L)
  define S where "S t = {a. (a, t) \<in> (flow_within blocks L)\<^sup>*}" for t
  have SL: "S t \<subseteq> L" if "t \<in> L" for t
    using that by (auto simp: S_def blocks.flow_in_def elim: converse_rtranclE)
  define live where "live = (case targets of None \<Rightarrow> L | Some ts \<Rightarrow> {0} \<union> (\<Union>t \<in> set ts \<inter> L. S t))"
  have run: "live_set blocks targets = Inr live"
    using efoldl_union [of _ L "slice_to blocks L" S] slice_to_eq [OF assms(1) n]
    by (auto simp: live_set_def live_def L_def [symmetric] S_def split: option.split)
  have sub: "live \<subseteq> L" using SL by (auto simp: live_def L split: option.splits)
  have zero: "0 \<in> live" by (auto simp: live_def L split: option.splits)
  have closed: "p \<in> live" if "b \<in> live" "b \<noteq> 0" "(p, b) \<in> flow_within blocks L" for p b
    using that by (auto simp: live_def S_def blocks.flow_in_def split: option.splits intro: converse_rtrancl_into_rtrancl)
  have "(0, b) \<in> (flow_within blocks live)\<^sup>*" if "b \<in> live" for b
  proof -
    have "b \<in> L" using sub that by blast
    then have "(0, b) \<in> (flow_of blocks)\<^sup>*" by (simp add: L)
    then show ?thesis using that
    proof (induction rule: rtrancl_induct)
      case (step p b)
      show ?case
      proof (cases "b = 0")
        case False
        have "p \<in> L" "b \<in> L" using step L by (auto intro: rtrancl_into_rtrancl)
        then have "p \<in> live" using closed [OF step.prems False] step by (simp add: blocks.flow_in_def)
        with step show ?thesis by (auto simp: blocks.flow_in_def intro: rtrancl_into_rtrancl)
      qed simp
    qed simp
  qed
  then have "live \<subseteq> (flow_within blocks live)\<^sup>* `` {0}" by blast
  moreover have "targets = None \<Longrightarrow> live = (flow_of blocks)\<^sup>* `` {0}" by (simp add: live_def L)
  ultimately show thesis using run sub n zero that [of live] by blast
qed

text \<open>The parts of a successful analysis.\<close>

lemma analyze_parts:
  assumes "wf_graph blocks" and "blocks \<noteq> []" and "analyze z simp blocks state_at targets [] = Inr info"
  obtains live order where "live \<subseteq> {..<length blocks}" and "0 \<in> live" and "blocks.topological blocks live order"
    and "efoldl (analyze_block z simp blocks state_at) [] order = Inr info"
    and "targets = None \<Longrightarrow> live = (flow_of blocks)\<^sup>* `` {0}"
proof -
  obtain live where live: "live_set blocks targets = Inr live" "live \<subseteq> {..<length blocks}" "0 \<in> live"
    "live \<subseteq> (flow_within blocks live)\<^sup>* `` {0}" "targets = None \<Longrightarrow> live = (flow_of blocks)\<^sup>* `` {0}"
    using live_set_ok [OF assms(1,2)] by blast
  obtain order where order: "topo_order blocks live = Inr order"
    and run: "efoldl (analyze_block z simp blocks state_at) [] order = Inr info"
    using assms(3) live(1) by (auto simp: analyze_def ebind_eq_Inr)
  have "blocks.topological blocks live order"
    using topo_order_ok [OF live(2-4)] order by (simp split: if_splits)
  then show thesis using that live run by blast
qed

lemma reach_conditions:
  assumes "smtlib z ev evb eva evab" and "wf_graph blocks" and "blocks \<noteq> []"
    and "analyze z simp blocks state_at targets [] = Inr info" and "dict_get info b = Some i"
  shows "(lit_holds evb m (n_reach i) \<longleftrightarrow> (0, b) \<in> (taken_edges evb blocks info m)\<^sup>*) \<and>
     (b_kind (blocks ! b) = KBranch \<longrightarrow> lit_holds evb m (n_edge_fall i) = (\<not> lit_holds evb m (n_edge_taken i))) \<and>
     (targets = None \<longrightarrow> (\<forall>c. dict_get info c \<noteq> None \<longleftrightarrow> (0, c) \<in> (flow_of blocks)\<^sup>*))"
proof -
  obtain live order where L: "live \<subseteq> {..<length blocks}" "0 \<in> live" "blocks.topological blocks live order"
    "efoldl (analyze_block z simp blocks state_at) [] order = Inr info"
    "targets = None \<Longrightarrow> live = (flow_of blocks)\<^sup>* `` {0}"
    using analyze_parts [OF assms(2,3,4)] by blast
  note pre = smtlib.analyze_prefix [OF assms(1,2) L(1) _ L(4), of "[]"]
  have topo: "blocks.topological blocks live (order @ [])" using L(3) by simp
  have dom: "dict_get info c \<noteq> None \<longleftrightarrow> c \<in> live" for c
    using pre [OF topo] L(3) by (simp add: blocks.topological_def)
  have "b \<in> live" using dom [of b] assms(5) by simp
  from smtlib.reach_solution [OF assms(1,2) L(1,3,4,2) this, of m]
  have "lit_holds evb m (n_reach i) \<longleftrightarrow> (0, b) \<in> (taken_edges evb blocks info m)\<^sup>*"
    using assms(5) by (simp add: block_reached_def)
  moreover have "b_kind (blocks ! b) = KBranch \<longrightarrow> lit_holds evb m (n_edge_fall i) = (\<not> lit_holds evb m (n_edge_taken i))"
    using pre [OF topo] assms(5) by (metis (no_types, lifting))
  moreover have "targets = None \<longrightarrow> (\<forall>c. dict_get info c \<noteq> None \<longleftrightarrow> (0, c) \<in> (flow_of blocks)\<^sup>*)"
    using dom L(5) by auto
  ultimately show ?thesis by blast
qed

section \<open>Claims\<close>

text \<open>
  Claim C22.  The condition computed for a block is exact: an assignment satisfies it exactly when
  there is a path of edges the assignment takes from the entry to the block, whether or not the
  graph was sliced to targets first; the two guards of a branch are complementary, so that no
  assignment takes both.
\<close>

theorem reach_exact:
  assumes "smtlib z ev evb eva evab" and "wf_graph blocks" and "blocks \<noteq> []"
    and "analyze z simp blocks state_at targets [] = Inr info" and "dict_get info b = Some i"
  shows "(lit_holds evb m (n_reach i) \<longleftrightarrow> (0, b) \<in> (taken_edges evb blocks info m)\<^sup>*) \<and>
     (b_kind (blocks ! b) = KBranch \<longrightarrow> lit_holds evb m (n_edge_fall i) = (\<not> lit_holds evb m (n_edge_taken i))) \<and>
     (targets = None \<longrightarrow> (\<forall>c. dict_get info c \<noteq> None \<longleftrightarrow> (0, c) \<in> (flow_of blocks)\<^sup>*))"
  by (rule reach_conditions [OF assms])

text \<open>Two ways from a branch to two exits, for the witnesses.\<close>

definition demo_fork :: "tblock list" where
  "demo_fork =
     [(new_tblock (new_bblock 0 0 0))\<lparr>b_succ_t := Some 2, b_succ_f := Some 1, b_branch := True\<rparr>,
      (new_tblock (new_bblock 1 1 1))\<lparr>b_preds := [0], b_exit := True\<rparr>,
      (new_tblock (new_bblock 2 2 2))\<lparr>b_preds := [0], b_exit := True\<rparr>]"

definition demo_state_at :: "(nat \<times> block_info) list \<Rightarrow> nat \<Rightarrow> z3_state res" where
  "demo_state_at info b = Inr (make_init_state [] [])"

lemma demo_fork_wf: "wf_graph demo_fork" "demo_fork \<noteq> []"
  by code_simp+

lemma demo_fork_analyzed:
  obtains info where "analyze std_queries Z demo_fork demo_state_at None [] = Inr info"
    and "\<exists>i. dict_get info 2 = Some i \<and> n_reach i = Z (Bool (branch_name 0))"
proof -
  have "case analyze std_queries Z demo_fork demo_state_at None [] of Inl _ \<Rightarrow> False
    | Inr info \<Rightarrow> (case dict_get info 2 of None \<Rightarrow> False | Some i \<Rightarrow> n_reach i = Z (Bool (branch_name 0)))"
    by code_simp
  with that show thesis by (auto split: sum.splits option.splits)
qed

theorem reach_exact_witness:
  "\<exists>info. analyze std_queries Z demo_fork demo_state_at None [] = Inr info \<and>
     (0, 2) \<in> (taken_edges eval_b demo_fork info demo_env)\<^sup>*"
proof -
  obtain info i where a: "analyze std_queries Z demo_fork demo_state_at None [] = Inr info"
    "dict_get info 2 = Some i" "n_reach i = Z (Bool (branch_name 0))"
    by (rule demo_fork_analyzed) blast
  moreover have "lit_holds eval_b demo_env (n_reach i)"
    unfolding a(3) by (simp add: lit_holds_def demo_env_def)
  ultimately show ?thesis using reach_exact [OF smtlib_std demo_fork_wf a(1,2)] by blast
qed

definition kind_successors :: "tblock \<Rightarrow> bool" where
  "kind_successors b =
     (case b_kind b of
        KBranch \<Rightarrow> b_succ_t b \<noteq> None \<and> b_succ_f b \<noteq> None
      | KJump \<Rightarrow> b_succ_t b \<noteq> None \<and> b_succ_f b = None
      | KFall \<Rightarrow> b_succ_t b = None \<and> b_succ_f b \<noteq> None
      | KExit \<Rightarrow> b_succ_t b = None \<and> b_succ_f b = None)"

lemma finite_acyclic_sink:
  assumes "acyclic (R :: 'a rel)" and "finite S" and "a \<in> S"
  shows "\<exists>b \<in> S. \<forall>c. (b, c) \<in> R \<longrightarrow> c \<notin> S"
proof -
  have "finite (R \<inter> S \<times> S)" by (rule finite_subset [of _ "S \<times> S"]) (use assms in auto)
  moreover have "acyclic (R \<inter> S \<times> S)" using assms(1) by (rule acyclic_subset) auto
  ultimately have "wf ((R \<inter> S \<times> S)\<inverse>)" by (simp add: finite_acyclic_wf_converse)
  then obtain b where "b \<in> S" "\<And>c. (c, b) \<in> (R \<inter> S \<times> S)\<inverse> \<Longrightarrow> c \<notin> S"
    using assms(3) unfolding wf_eq_minimal by metis
  then show ?thesis by blast
qed

lemma one_exit_reached:
  assumes "smtlib z ev evb eva evab" and wf: "wf_graph blocks" and "blocks \<noteq> []"
    and run: "analyze z simp blocks state_at None [] = Inr info"
    and kinds: "\<forall>b \<in> set blocks. kind_successors b"
  shows "\<exists>!b. b < length blocks \<and> b_kind (blocks ! b) = KExit \<and> block_reached evb info m b"
proof -
  let ?R = "taken_edges evb blocks info m" and ?ok = "block_reached evb info m"
  obtain live order where L: "live \<subseteq> {..<length blocks}" "0 \<in> live" "blocks.topological blocks live order"
    "efoldl (analyze_block z simp blocks state_at) [] order = Inr info" "live = (flow_of blocks)\<^sup>* `` {0}"
    by (rule analyze_parts [OF assms(2,3) run], rule that, simp_all)
  have topo: "blocks.topological blocks live (order @ [])" using L(3) by simp
  note pre = smtlib.analyze_prefix [OF assms(1) wf L(1) topo L(4)]
  have dom: "dict_get info b \<noteq> None \<longleftrightarrow> b \<in> live" for b
    using pre L(3) by (simp add: blocks.topological_def)
  have reached: "?ok b \<longleftrightarrow> (0, b) \<in> ?R\<^sup>*" if "b \<in> live" for b
    by (rule smtlib.reach_solution [OF assms(1) wf L(1,3,4,2) that])
  have ok_live: "b \<in> live" if "?ok b" for b using that dom [of b] by (auto simp: block_reached_def)
  have guard: "if b_kind (blocks ! b) = KBranch then \<forall>m. lit_holds evb m (n_edge_fall i) = (\<not> lit_holds evb m (n_edge_taken i))
        else n_edge_taken i = Py True \<and> n_edge_fall i = Py True" if "dict_get info b = Some i" for b i
    using pre that by blast
  have kind: "kind_successors (blocks ! b)" if "b \<in> live" for b using kinds L(1) that by auto
  have edge: "(p, b) \<in> flow_of blocks \<and> b \<in> live" if pb: "(p, b) \<in> ?R" for p b
  proof -
    have p: "p \<in> live" using pb dom [of p] by (auto simp: taken_edges_def)
    then have "(p, b) \<in> flow_of blocks" using smtlib.enabled_flow [OF assms(1) wf pb] L(1) by auto
    then show ?thesis using p L(5) by (auto intro: rtrancl_into_rtrancl)
  qed
  have step: "\<exists>!c. (b, c) \<in> ?R" if b: "b \<in> live" "b_kind (blocks ! b) \<noteq> KExit" for b
  proof -
    obtain i where i: "dict_get info b = Some i" using dom b by blast
    define t f where "t = lit_holds evb m (n_edge_taken i)" and "f = lit_holds evb m (n_edge_fall i)"
    have R: "(b, c) \<in> ?R \<longleftrightarrow> b_succ_t (blocks ! b) = Some c \<and> t \<or> b_succ_f (blocks ! b) = Some c \<and> f" for c
      using i by (simp add: taken_edges_def t_def f_def)
    have tf: "if b_kind (blocks ! b) = KBranch then f = (\<not> t) else t \<and> f"
      using guard [OF i] unfolding t_def f_def by (auto simp: lit_holds_def split: if_splits)
    show ?thesis
      unfolding R using tf kind [OF b(1)] b(2)
      by (cases "b_kind (blocks ! b)") (auto simp: kind_successors_def)
  qed
  have sink: "(b, c) \<notin> ?R" if "b \<in> live" "b_kind (blocks ! b) = KExit" for b c
    using kind [OF that(1)] that(2) by (auto simp: taken_edges_def kind_successors_def)
  have "?R \<subseteq> flow_within blocks live"
  proof (rule subrelI)
    fix p b assume pb: "(p, b) \<in> ?R"
    then have "dict_get info p \<noteq> None" unfolding taken_edges_def by auto
    then show "(p, b) \<in> flow_within blocks live" using edge [OF pb] dom [of p] by (simp add: blocks.flow_in_def)
  qed
  then have acyc: "acyclic ?R" by (rule acyclic_subset [OF blocks.topological_acyclic [OF L(3)]])
  have "finite live" by (rule finite_subset [OF L(1)]) simp
  then have "finite {b. ?ok b}" by (rule rev_finite_subset) (rule subsetI, rule ok_live, simp only: mem_Collect_eq)
  moreover have "0 \<in> {b. ?ok b}" using reached [OF L(2)] by simp
  ultimately obtain b where b: "?ok b" "\<And>c. (b, c) \<in> ?R \<Longrightarrow> \<not> ?ok c"
    using finite_acyclic_sink [OF acyc, of "{b. ?ok b}" 0] by auto
  have "b_kind (blocks ! b) = KExit"
  proof (rule ccontr)
    assume "b_kind (blocks ! b) \<noteq> KExit"
    from step [OF ok_live [OF b(1)] this] obtain c where c: "(b, c) \<in> ?R" by (elim ex1E)
    have "(0, b) \<in> ?R\<^sup>*" using reached [OF ok_live [OF b(1)]] b(1) by simp
    then have "(0, c) \<in> ?R\<^sup>*" using c by (rule rtrancl_into_rtrancl)
    moreover have "c \<in> live" using edge [OF c] by simp
    ultimately have "?ok c" using reached [of c] by simp
    with b(2) c show False by blast
  qed
  moreover have "c = b" if "?ok c" "b_kind (blocks ! c) = KExit" for c
  proof -
    have sv: "single_valued ?R"
    proof (rule single_valuedI)
      fix p x y assume pxy: "(p, x) \<in> ?R" "(p, y) \<in> ?R"
      then have "dict_get info p \<noteq> None" unfolding taken_edges_def by auto
      then have "p \<in> live" using dom [of p] by simp
      then show "x = y" using step [of p] sink [of p x] pxy by (cases "b_kind (blocks ! p) = KExit") blast+
    qed
    have "(0, b) \<in> ?R\<^sup>*" "(0, c) \<in> ?R\<^sup>*" using reached [OF ok_live [OF b(1)]] reached [OF ok_live [OF that(1)]] b(1) that(1) by simp_all
    with sv have "(b, c) \<in> ?R\<^sup>* \<or> (c, b) \<in> ?R\<^sup>*" by (rule single_valued_confluent)
    then show ?thesis
      using sink [OF ok_live [OF b(1)] \<open>b_kind (blocks ! b) = KExit\<close>] sink [OF ok_live [OF that(1)] that(2)]
      by (auto elim: converse_rtranclE)
  qed
  moreover have "b < length blocks" using ok_live [OF b(1)] L(1) by auto
  ultimately show ?thesis using b(1) by (intro ex1I [of _ b]) blast+
qed

text \<open>
  On a graph in which every block that is not an exit has the successors of its kind,
  the conditions of the exits cut up the space of assignments: every assignment satisfies the
  condition of exactly one exit block.
\<close>

theorem exits_partition:
  assumes "smtlib z ev evb eva evab" and wf: "wf_graph blocks" and "blocks \<noteq> []"
    and run: "analyze z simp blocks state_at None [] = Inr info"
    and kinds: "\<forall>b \<in> set blocks. kind_successors b"
  shows "\<exists>!b. b < length blocks \<and> b_kind (blocks ! b) = KExit \<and> block_reached evb info m b"
  by (rule one_exit_reached [OF assms])

theorem exits_partition_witness:
  "\<exists>info. analyze std_queries Z demo_fork demo_state_at None [] = Inr info \<and>
     (\<exists>!b. b < 3 \<and> b_kind (demo_fork ! b) = KExit \<and> block_reached eval_b info demo_env b)"
proof -
  obtain info where a: "analyze std_queries Z demo_fork demo_state_at None [] = Inr info"
    by (rule demo_fork_analyzed) blast
  have "\<forall>b \<in> set demo_fork. kind_successors b" and l: "length demo_fork = 3" by code_simp+
  from exits_partition [OF smtlib_std demo_fork_wf a this(1), of demo_env] a l show ?thesis by auto
qed

end
