(* ===== verification/Memory.thy ===== *)
theory Memory
  imports Reach Encode_Mem
begin

text \<open>
  The memory of the verifier: \<open>hornet/track/record.py\<close>, which says when two accesses may touch the
  same bytes, and \<open>hornet/verify/slice.py\<close>, whose \<open>Memory\<close> answers a read of the packet, of a map
  value or of a global from the writes the tracker recorded (a chain of \<open>If\<close> over the initial
  contents), and whose \<open>Phis\<close> selects the value of a join.  The caches of both classes only save
  work and are not modelled.  \<open>is\<close> on two map keys is the parameter \<open>same\<close>.
\<close>

section \<open>Access records\<close>

abbreviation (input) REGION_PKT :: nat where "REGION_PKT \<equiv> 0"
abbreviation (input) REGION_MAP :: nat where "REGION_MAP \<equiv> 1"
abbreviation (input) REGION_CTX :: nat where "REGION_CTX \<equiv> 2"
abbreviation (input) REGION_BSS :: nat where "REGION_BSS \<equiv> 3"

text \<open>The attributes of \<open>Action\<close> and of \<open>_Loc\<close> that an alias test reads, with their defaults.\<close>

record access =
  ac_region :: "nat option"
  ac_off :: int
  ac_var_off :: "val option"
  ac_size :: nat
  ac_map_id :: "int option"
  ac_map_key :: "val option"
  ac_bss_key :: "string option"

definition no_access :: access where
  "no_access = \<lparr>ac_region = None, ac_off = 0, ac_var_off = None, ac_size = 0, ac_map_id = None,
     ac_map_key = None, ac_bss_key = None\<rparr>"

definition pkt_access :: "int \<Rightarrow> val option \<Rightarrow> nat \<Rightarrow> access" where
  "pkt_access off var sz = no_access\<lparr>ac_region := Some REGION_PKT, ac_off := off, ac_var_off := var, ac_size := sz\<rparr>"

definition map_access :: "int option \<Rightarrow> val option \<Rightarrow> int \<Rightarrow> val option \<Rightarrow> nat \<Rightarrow> access" where
  "map_access mid mk off var sz = no_access\<lparr>ac_region := Some REGION_MAP, ac_off := off, ac_var_off := var,
     ac_size := sz, ac_map_id := mid, ac_map_key := mk\<rparr>"

definition bss_access :: "string option \<Rightarrow> int \<Rightarrow> val option \<Rightarrow> nat \<Rightarrow> access" where
  "bss_access key off var sz = no_access\<lparr>ac_region := Some REGION_BSS, ac_off := off, ac_var_off := var,
     ac_size := sz, ac_bss_key := key\<rparr>"

fun access_of :: "action_kind \<Rightarrow> access" where
  "access_of (PktWrite pid off var sz v) = pkt_access off var sz"
| "access_of (MapWrite mid mk off sz v var) = map_access mid mk off var sz"
| "access_of (MapAtomicAdd mid mk off sz v var old) = map_access mid mk off var sz"
| "access_of (MapUpdate mid mk v fl sz) = map_access mid mk 0 None sz"
| "access_of (BssWrite key off sz v var) = bss_access key off var sz"
| "access_of (BssAtomicAdd key off sz v var old) = bss_access key off var sz"
| "access_of (CtxWrite v) = no_access\<lparr>ac_region := Some REGION_CTX, ac_off := 16, ac_size := 4\<rparr>"
| "access_of (MapLookup mid mk mki) = no_access\<lparr>ac_map_id := mid, ac_map_key := mk\<rparr>"
| "access_of (MapDelete mid mk) = no_access\<lparr>ac_map_id := mid, ac_map_key := mk\<rparr>"
| "access_of (TailCall mid ix slot tg nm) = no_access\<lparr>ac_map_id := mid, ac_map_key := ix\<rparr>"
| "access_of _ = no_access"

fun presence_of :: "action_kind \<Rightarrow> bool option" where
  "presence_of (MapUpdate mid mk v fl sz) = Some True"
| "presence_of (MapDelete mid mk) = Some False"
| "presence_of _ = None"

fun value_of :: "action_kind \<Rightarrow> val option" where
  "value_of (PktWrite pid off var sz v) = v"
| "value_of (MapWrite mid mk off sz v var) = v"
| "value_of (MapAtomicAdd mid mk off sz v var old) = v"
| "value_of (MapUpdate mid mk v fl sz) = v"
| "value_of (BssWrite key off sz v var) = v"
| "value_of (BssAtomicAdd key off sz v var old) = v"
| "value_of (CtxWrite v) = v"
| "value_of _ = None"

fun old_of :: "action_kind \<Rightarrow> val option" where
  "old_of (MapAtomicAdd mid mk off sz v var old) = old"
| "old_of (BssAtomicAdd key off sz v var old) = old"
| "old_of _ = None"

definition const_of :: "val option \<Rightarrow> int option" where
  "const_of x = Option.bind x num_of"

text \<open>Two constants that differ.\<close>

definition differ :: "'a option \<Rightarrow> 'a option \<Rightarrow> bool" where
  "differ x y \<longleftrightarrow> x \<noteq> None \<and> y \<noteq> None \<and> x \<noteq> y"

definition may_alias :: "access \<Rightarrow> access \<Rightarrow> bool" where
  "may_alias a b \<longleftrightarrow>
     (if ac_region a = None \<or> ac_region b = None \<or> ac_region a \<noteq> ac_region b then False
      else if ac_region a = Some REGION_MAP \<and>
        (ac_map_id a \<noteq> ac_map_id b \<or> differ (const_of (ac_map_key a)) (const_of (ac_map_key b))) then False
      else if ac_region a = Some REGION_BSS \<and> differ (ac_bss_key a) (ac_bss_key b) then False
      else if ac_var_off a \<noteq> None \<or> ac_var_off b \<noteq> None then True
      else ac_off a < ac_off b + int (max (ac_size b) 1) \<and> ac_off b < ac_off a + int (max (ac_size a) 1))"

text \<open>\<open>build_call_index\<close>: the helper calls by instruction, an action or the value of a call.\<close>

fun has_ret :: "action_kind \<Rightarrow> bool" where
  "has_ret (MapLookup mid mk mki) = True"
| "has_ret (AdjustHead d r) = True"
| "has_ret (AdjustTail d r) = True"
| "has_ret (AdjustMeta d r) = True"
| "has_ret (XdpBuffLen r) = True"
| "has_ret (TailCall mid ix slot tg nm) = True"
| "has_ret _ = False"

datatype call_rec = Call_act action | Call_val val

definition retval_idx :: "val \<Rightarrow> int option" where
  "retval_idx v = (case v of Func_retval sz idx fn blk mid mk mki fb rd \<Rightarrow> Some idx | _ \<Rightarrow> None)"

definition build_call_index :: "tblock list \<Rightarrow> (int \<times> call_rec) list" where
  "build_call_index blocks = foldl (\<lambda>out b.
     foldl (\<lambda>out v. case retval_idx v of Some i \<Rightarrow> dict_set i (Call_val v) out | None \<Rightarrow> out)
       (foldl (\<lambda>out a. if has_ret (a_kind a) then dict_set (a_idx a) (Call_act a) out else out) out (t_actions b))
       (t_sources b)) [] blocks"

section \<open>The memory\<close>

text \<open>
  \<open>mm_anc b\<close> is \<open>anc.get(b, ())\<close> and \<open>mm_reach\<close> the callback \<open>reach_of\<close>.  The action lists are
  those of the blocks, in the order of the block list.
\<close>

record memory =
  mm_st :: z3_state
  mm_writes :: "action list"
  mm_presence :: "action list"
  mm_adjusts :: "action list"
  mm_ctx_writes :: "action list"
  mm_anc :: "int \<Rightarrow> int set"
  mm_reach :: "int \<Rightarrow> lit"

fun len_delta :: "action_kind \<Rightarrow> int option" where
  "len_delta (AdjustHead d r) = Some d"
| "len_delta (AdjustTail d r) = Some (- d)"
| "len_delta _ = None"

definition all_actions :: "tblock list \<Rightarrow> action list" where
  "all_actions blocks = concat (map t_actions blocks)"

definition new_memory :: "z3_state \<Rightarrow> tblock list \<Rightarrow> (int \<Rightarrow> int set) \<Rightarrow> (int \<Rightarrow> lit) \<Rightarrow> memory" where
  "new_memory st blocks anc reach =
     \<lparr>mm_st = st,
      mm_writes = filter (\<lambda>a. ac_region (access_of (a_kind a)) \<noteq> None) (all_actions blocks),
      mm_presence = filter (\<lambda>a. presence_of (a_kind a) \<noteq> None) (all_actions blocks),
      mm_adjusts = filter (\<lambda>a. len_delta (a_kind a) \<noteq> None) (all_actions blocks),
      mm_ctx_writes = filter (\<lambda>a. case a_kind a of CtxWrite v \<Rightarrow> True | _ \<Rightarrow> False) (all_actions blocks),
      mm_anc = anc, mm_reach = reach\<rparr>"

definition ran_before :: "memory \<Rightarrow> action \<Rightarrow> int \<Rightarrow> bool" where
  "ran_before mm w at_block \<longleftrightarrow>
     (a_block w = at_block \<or> a_block w \<in> mm_anc mm at_block) \<and> mm_reach mm (a_block w) \<noteq> Py False"

definition visible :: "memory \<Rightarrow> action \<Rightarrow> int \<Rightarrow> int \<Rightarrow> bool" where
  "visible mm w at_block at_idx \<longleftrightarrow>
     (a_block w = at_block \<or> a_block w \<in> mm_anc mm at_block) \<and>
     \<not> (a_block w = at_block \<and> at_idx \<le> a_idx w) \<and> mm_reach mm (a_block w) \<noteq> Py False"

definition mem_key :: "z3_queries \<Rightarrow> memory \<Rightarrow> int option \<Rightarrow> val option \<Rightarrow> bvt res" where
  "mem_key z mm map_id key = map_key_z3 z (mm_st mm) map_id (expr_opt_z3 z (mm_st mm) key)"

text \<open>\<open>t if g is True else old if g is False else If(g, t, old)\<close>.\<close>

definition choose_bv :: "lit \<Rightarrow> bvt \<Rightarrow> bvt \<Rightarrow> bvt" where
  "choose_bv g t old = (case g of Py True \<Rightarrow> t | Py False \<Rightarrow> old | Z c \<Rightarrow> BvIf c t old)"

definition choose_b :: "lit \<Rightarrow> bt \<Rightarrow> bt \<Rightarrow> bt" where
  "choose_b g t old = (case g of Py True \<Rightarrow> t | Py False \<Rightarrow> old | Z c \<Rightarrow> BoolIf c t old)"

text \<open>Whether a map update takes effect, given \<open>present\<close> for its own key and position.\<close>

definition applies_with ::
  "z3_queries \<Rightarrow> (int option \<Rightarrow> bvt \<Rightarrow> int option \<Rightarrow> int option \<Rightarrow> bt res) \<Rightarrow> memory \<Rightarrow> action \<Rightarrow> lit res" where
  "applies_with z pres mm w =
     (case a_kind w of
        MapUpdate mid mk v fl sz \<Rightarrow>
          (if case fl of Some f \<Rightarrow> f AND 3 = 0 | None \<Rightarrow> False then Inr (Py True)
           else
             ebind (mem_key z mm mid mk) (\<lambda>key.
             ebind (case map_info_of (mm_st mm) mid of
                      Some info \<Rightarrow>
                        if is_array_map (mm_st mm) mid
                        then Inr (BvCmp BvUlt key (BitVecVal (m_max_entries info) (z_size z key)))
                        else pres mid key (Some (a_block w)) (Some (a_idx w))
                    | None \<Rightarrow> pres mid key (Some (a_block w)) (Some (a_idx w))) (\<lambda>p.
             Inr (update_applies (a_idx w) fl p))))
      | _ \<Rightarrow> Inr (Py True))"

definition is_update :: "action \<Rightarrow> bool" where
  "is_update w = (case a_kind w of MapUpdate mid mk v fl sz \<Rightarrow> True | _ \<Rightarrow> False)"

definition presence_step ::
  "z3_queries \<Rightarrow> (action \<Rightarrow> lit res) \<Rightarrow> memory \<Rightarrow> int option \<Rightarrow> bvt \<Rightarrow> int \<Rightarrow> int option \<Rightarrow> bt \<Rightarrow> action \<Rightarrow> bt res" where
  "presence_step z app mm map_id key at_block at_idx p w =
     (let ac = access_of (a_kind w) in
      if ac_map_id ac \<noteq> map_id then Inr p
      else if \<not> (case at_idx of None \<Rightarrow> ran_before mm w at_block | Some i \<Rightarrow> visible mm w at_block i) then Inr p
      else
        ebind (case ac_map_key ac of
                 None \<Rightarrow> Inr (mm_reach mm (a_block w))
               | Some k \<Rightarrow> ebind (mem_key z mm map_id (Some k)) (\<lambda>wk.
                   Inr (and_lit (mm_reach mm (a_block w)) (Z (BvEq wk key))))) (\<lambda>g.
        ebind (if g \<noteq> Py False \<and> is_update w
               then ebind (app w) (\<lambda>a. Inr (and_lit g a)) else Inr g) (\<lambda>g.
        Inr (choose_b g (BoolVal (presence_of (a_kind w) = Some True)) p))))"

text \<open>
  \<open>present\<close> and \<open>_applies\<close> call each other; each call looks at strictly earlier writes, and the
  fuel bounds the depth of the recursion as the interpreter does.
\<close>

primrec present_n ::
  "nat \<Rightarrow> z3_queries \<Rightarrow> memory \<Rightarrow> int option \<Rightarrow> bvt \<Rightarrow> int option \<Rightarrow> int option \<Rightarrow> bt res" where
  "present_n 0 z mm map_id key at_block at_idx = Inl (RuntimeError ''maximum recursion depth exceeded'')"
| "present_n (Suc n) z mm map_id key at_block at_idx =
     ebind (map_at (mm_st mm) map_id) (\<lambda>m.
     case at_block of
       None \<Rightarrow> Inr (SelectB (fst m) key)
     | Some b \<Rightarrow>
         efoldl (presence_step z (applies_with z (present_n n z mm) mm) mm map_id key b at_idx)
           (SelectB (fst m) key) (mm_presence mm))"

definition mem_depth :: "memory \<Rightarrow> nat" where
  "mem_depth mm = Suc (length (mm_presence mm))"

definition mem_present :: "z3_queries \<Rightarrow> memory \<Rightarrow> int option \<Rightarrow> bvt \<Rightarrow> int option \<Rightarrow> int option \<Rightarrow> bt res" where
  "mem_present z mm = present_n (mem_depth mm) z mm"

definition mem_applies :: "z3_queries \<Rightarrow> memory \<Rightarrow> action \<Rightarrow> lit res" where
  "mem_applies z mm = applies_with z (mem_present z mm) mm"

text \<open>\<open>_written_byte\<close>; its \<open>None\<close> is the inner one.\<close>

definition written_byte :: "z3_queries \<Rightarrow> memory \<Rightarrow> action \<Rightarrow> int \<Rightarrow> bvt option res" where
  "written_byte z mm w offset =
     (let ac = access_of (a_kind w); sz = max (ac_size ac) 1; width = sz * 8 in
      if ac_var_off ac \<noteq> None \<or> \<not> (ac_off ac \<le> offset \<and> offset < ac_off ac + int sz) then Inr None
      else
        ebind (expr_opt_z3 z (mm_st mm) (value_of (a_kind w))) (\<lambda>v.
        ebind (case old_of (a_kind w) of
                 None \<Rightarrow> Inr (resize z v width)
               | Some old \<Rightarrow> ebind (expr_to_z3 z (mm_st mm) old) (\<lambda>o'.
                   Inr (BvOp BvAdd (resize z o' width) (resize z v width)))) (\<lambda>val.
        let lo = nat (offset - ac_off ac) * 8 in
        Inr (Some (Extract (lo + 7) lo val)))))"

definition initial_at :: "z3_queries \<Rightarrow> memory \<Rightarrow> access \<Rightarrow> bvt option res" where
  "initial_at z mm loc =
     (let st = mm_st mm in
      if ac_region loc = Some REGION_PKT then
        Inr (Some (Select (zs_pkt st) (BitVecVal (ac_off loc) (z_dom z (zs_pkt st)))))
      else if ac_region loc = Some REGION_MAP then
        ebind (map_at st (ac_map_id loc)) (\<lambda>m.
        ebind (mem_key z mm (ac_map_id loc) (ac_map_key loc)) (\<lambda>k.
        let v = Select (snd m) k in
        if ac_off loc * 8 + 8 \<le> int (z_size z v)
        then (if ac_off loc < 0 then Inl Z3Exception
              else Inr (Some (Extract (nat (ac_off loc) * 8 + 7) (nat (ac_off loc) * 8) v)))
        else Inr (Some (BitVecVal 0 8))))
      else if ac_region loc = Some REGION_BSS then
        Inr (Some (Select (bss_of st (ac_bss_key loc)) (BitVecVal (ac_off loc) BSS_ADDR_BITS)))
      else Inr None)"

definition write_guard ::
  "z3_queries \<Rightarrow> (val option \<Rightarrow> val option \<Rightarrow> bool) \<Rightarrow> memory \<Rightarrow> access \<Rightarrow> action \<Rightarrow> lit res" where
  "write_guard z same mm loc w =
     (let ac = access_of (a_kind w); r = mm_reach mm (a_block w) in
      ebind (if r \<noteq> Py False \<and> is_update w
             then ebind (mem_applies z mm w) (\<lambda>a. Inr (and_lit r a)) else Inr r) (\<lambda>g.
      if ac_region loc \<noteq> Some REGION_MAP \<or> g = Py False then Inr g
      else if const_of (ac_map_key loc) \<noteq> None \<and> const_of (ac_map_key ac) \<noteq> None then Inr g
      else if ac_map_key loc = None \<or> ac_map_key ac = None then Inr g
      else if same (ac_map_key loc) (ac_map_key ac) then Inr g
      else
        ebind (mem_key z mm (ac_map_id loc) (ac_map_key loc)) (\<lambda>k.
        ebind (mem_key z mm (ac_map_id ac) (ac_map_key ac)) (\<lambda>wk.
        Inr (and_lit g (Z (BvEq k wk)))))))"

text \<open>The byte of a location: its initial value, then every write that may cover it.\<close>

definition byte_step ::
  "z3_queries \<Rightarrow> (val option \<Rightarrow> val option \<Rightarrow> bool) \<Rightarrow> memory \<Rightarrow> (action \<Rightarrow> bool) \<Rightarrow> access \<Rightarrow> bvt \<Rightarrow> action \<Rightarrow> bvt res" where
  "byte_step z same mm vis loc t w =
     (if \<not> vis w \<or> \<not> may_alias loc (access_of (a_kind w)) then Inr t
      else ebind (written_byte z mm w (ac_off loc)) (\<lambda>v.
           case v of
             None \<Rightarrow> Inr t
           | Some v \<Rightarrow> ebind (write_guard z same mm loc w) (\<lambda>g. Inr (choose_bv g v t))))"

definition byte_at ::
  "z3_queries \<Rightarrow> (val option \<Rightarrow> val option \<Rightarrow> bool) \<Rightarrow> memory \<Rightarrow> (action \<Rightarrow> bool) \<Rightarrow> access \<Rightarrow> bvt option res" where
  "byte_at z same mm vis loc =
     ebind (initial_at z mm loc) (\<lambda>t0.
     case t0 of
       None \<Rightarrow> Inr None
     | Some t \<Rightarrow> ebind (efoldl (byte_step z same mm vis loc) t (mm_writes mm)) (\<lambda>t. Inr (Some t)))"

text \<open>\<open>_read\<close> and \<open>loc_byte\<close>.  The loop over the bytes returns at once when a byte is \<open>None\<close>.\<close>

definition mem_read_at ::
  "z3_queries \<Rightarrow> (val option \<Rightarrow> val option \<Rightarrow> bool) \<Rightarrow> memory \<Rightarrow> access \<Rightarrow> int \<Rightarrow> int \<Rightarrow> bvt option res" where
  "mem_read_at z same mm loc at_block at_idx =
     ebind (emap (\<lambda>i. byte_at z same mm (\<lambda>w. visible mm w at_block at_idx)
                       (loc\<lparr>ac_off := ac_off loc + int i, ac_size := 1\<rparr>)) [0..<ac_size loc]) (\<lambda>ts.
     if None \<in> set ts then Inr None
     else ebind (concat_or_single (rev (map the ts))) (\<lambda>t. Inr (Some t)))"

definition loc_byte ::
  "z3_queries \<Rightarrow> (val option \<Rightarrow> val option \<Rightarrow> bool) \<Rightarrow> memory \<Rightarrow> access \<Rightarrow> int \<Rightarrow> bvt option res" where
  "loc_byte z same mm loc at_block = byte_at z same mm (\<lambda>w. ran_before mm w at_block) loc"

text \<open>The three readers; a map read does not ask whether the offset is variable.\<close>

fun mem_pkt :: "z3_queries \<Rightarrow> (val option \<Rightarrow> val option \<Rightarrow> bool) \<Rightarrow> memory \<Rightarrow> val \<Rightarrow> bvt option res" where
  "mem_pkt z same mm (Pkt_val blk idx off vo sz) =
     (if vo \<noteq> None then Inr None else mem_read_at z same mm (pkt_access off None sz) blk idx)"
| "mem_pkt z same mm _ = Inl AttributeError"

fun mem_map :: "z3_queries \<Rightarrow> (val option \<Rightarrow> val option \<Rightarrow> bool) \<Rightarrow> memory \<Rightarrow> val \<Rightarrow> bvt option res" where
  "mem_map z same mm (Map_val blk idx mid mk mki off vo sz) =
     mem_read_at z same mm (map_access mid mk off None sz) blk idx"
| "mem_map z same mm _ = Inl AttributeError"

fun mem_bss :: "z3_queries \<Rightarrow> (val option \<Rightarrow> val option \<Rightarrow> bool) \<Rightarrow> memory \<Rightarrow> val \<Rightarrow> bvt option res" where
  "mem_bss z same mm (Bss_val blk idx key off vo sz) =
     (if vo \<noteq> None then Inr None else mem_read_at z same mm (bss_access key off None sz) blk idx)"
| "mem_bss z same mm _ = Inl AttributeError"

definition pkt_len_at :: "z3_queries \<Rightarrow> memory \<Rightarrow> int option \<Rightarrow> bvt" where
  "pkt_len_at z mm at_block =
     (let n0 = zs_pkt_len (mm_st mm) in
      case at_block of
        None \<Rightarrow> n0
      | Some b \<Rightarrow> foldl (\<lambda>n w.
          if \<not> ran_before mm w b then n
          else choose_bv (and_lit (mm_reach mm (a_block w)) (if a_idx w < 0 then Py True else Z (Bool (adjust_ok (a_idx w)))))
                 (BvOp BvSub n (BitVecVal (the (len_delta (a_kind w))) (z_size z n))) n) n0 (mm_adjusts mm))"

definition rx_index_at :: "z3_queries \<Rightarrow> memory \<Rightarrow> int option \<Rightarrow> bvt res" where
  "rx_index_at z mm at_block =
     (let v0 = zs_rx_index (mm_st mm) in
      case at_block of
        None \<Rightarrow> Inr v0
      | Some b \<Rightarrow> efoldl (\<lambda>v w.
          if \<not> ran_before mm w b then Inr v
          else ebind (expr_opt_z3 z (mm_st mm) (value_of (a_kind w))) (\<lambda>t.
               Inr (choose_bv (mm_reach mm (a_block w)) (resize z t (z_size z v)) v))) v0 (mm_ctx_writes mm))"

section \<open>Joins\<close>

text \<open>
  \<open>Phis.value\<close>: the groups of edges whose condition is not false, the last one as the default.
  \<open>active\<close> holds the joins being evaluated.
\<close>

definition free_phi :: "val \<Rightarrow> bvt" where
  "free_phi j = BitVec (phi_name (jv_block j) (jv_reg j)) 64"

definition phi_terms ::
  "z3_queries \<Rightarrow> z3_state \<Rightarrow> (nat \<Rightarrow> edge \<Rightarrow> lit) \<Rightarrow> val \<Rightarrow> (lit \<times> bvt) list res" where
  "phi_terms z st guard_of j =
     efoldl (\<lambda>ts (v, es).
       let g = or_all (map (\<lambda>(p, k). guard_of p k) es) in
       if g = Py False then Inr ts
       else ebind (expr_opt_z3 z st v) (\<lambda>t. Inr (ts @ [(g, resize z t 64)])))
       [] (zip (jv_values j) (jv_edges j))"

definition select_term :: "(lit \<times> bvt) list \<Rightarrow> bvt" where
  "select_term ts = foldr (\<lambda>(g, t) out. choose_bv g t out) (butlast ts) (snd (last ts))"

definition phi_value ::
  "z3_queries \<Rightarrow> z3_state \<Rightarrow> (nat \<Rightarrow> edge \<Rightarrow> lit) \<Rightarrow> nat set \<Rightarrow> val \<Rightarrow> bvt res" where
  "phi_value z st guard_of active j =
     (if jv_oid j \<in> active then Inr (free_phi j)
      else ebind (phi_terms z st guard_of j) (\<lambda>ts.
           Inr (if ts = [] then free_phi j else select_term ts)))"

end
