(* ===== verification/Regions.thy ===== *)
theory Regions
  imports Memory Atoms
begin

text \<open>
  The relevance analysis of \<open>hornet/verify/forward.py\<close>: which parts of the world (\<open>region\<close>) the
  conditions of a policy and of the branches can depend on, the block sl of a set of targets, and
  the regions whose reads are folded over the recorded writes.  The table \<open>seen\<close> of the code stops a
  second visit of the same object, which would add nothing.
\<close>

section \<open>The regions a value reads\<close>

datatype region =
    R_pkt | R_map "int option" | R_bss "string option" | R_pkt_len | R_rx_index | R_ingress | R_egress

definition regions_opt :: "region set option \<Rightarrow> region set" where
  "regions_opt r = (case r of None \<Rightarrow> {} | Some s \<Rightarrow> s)"

primrec expr_regions :: "val \<Rightarrow> region set" where
  "expr_regions (Pkt_val blk idx off vo sz) = insert R_pkt (regions_opt (map_option expr_regions vo))"
| "expr_regions (Map_val blk idx mid mk mki off vo sz) =
     insert (R_map mid) (regions_opt (map_option expr_regions mk) \<union> regions_opt (map_option expr_regions vo))"
| "expr_regions (Bss_val blk idx key off vo sz) = insert (R_bss key) (regions_opt (map_option expr_regions vo))"
| "expr_regions (Rodata_val d off vo sz) = regions_opt (map_option expr_regions vo)"
| "expr_regions (Lookup_hit mid mk mki) = insert (R_map mid) (regions_opt (map_option expr_regions mk))"
| "expr_regions (Pkt_len sz base) = {R_pkt_len}"
| "expr_regions Rx_queue_index = {R_rx_index}"
| "expr_regions Ingress_ifindex = {R_ingress}"
| "expr_regions Egress_ifindex = {R_egress}"
| "expr_regions (Func_retval sz idx fn blk mid mk mki fb rd) =
     (if rd \<and> mid \<noteq> None then insert (R_map mid) (regions_opt (map_option expr_regions mk)) else {})"
| "expr_regions (JoinValue oid blk rg vs es) = \<Union> (set (map regions_opt (map (map_option expr_regions) vs)))"
| "expr_regions (ALUunary op dst os im sz a64) = regions_opt (map_option expr_regions dst)"
| "expr_regions (ALUbinary op dst src ofs sz idx) =
     regions_opt (map_option expr_regions dst) \<union> regions_opt (map_option expr_regions src)"
| "expr_regions (ByteSeq cs sz off) = \<Union> (set (map regions_opt (map (map_option expr_regions) cs)))"
| "expr_regions (Num n sz idx) = {}"
| "expr_regions (Scalar sz idx) = {}"
| "expr_regions (Ptr i vo mk np) = {}"

definition opt_regions :: "val option \<Rightarrow> region set" where
  "opt_regions v = regions_opt (map_option expr_regions v)"

fun branch_cond_regions :: "cond \<Rightarrow> region set" where
  "branch_cond_regions (Contain_map_value mid mk mki result) =
     (if mid \<noteq> None then insert (R_map mid) (opt_regions mk) else {})"
| "branch_cond_regions (Adjust_head_check result idx) = {}"
| "branch_cond_regions (Tail_call_taken mid index slot tg idx nm) = opt_regions index"
| "branch_cond_regions (Condition code dst src jmp32) = opt_regions dst \<union> opt_regions src"

fun target_region :: "ctx_target \<Rightarrow> region" where
  "target_region T_ingress = R_ingress"
| "target_region T_rx_index = R_rx_index"
| "target_region T_egress = R_egress"

fun atom_regions :: "atom \<Rightarrow> region set" where
  "atom_regions (PktAtom off sz bs c) = {R_pkt}"
| "atom_regions (MapAtom mid key present vl ks vs) = {R_map (Some mid)}"
| "atom_regions (BssAtom sy off sz v c) = {R_bss (Some sy)}"
| "atom_regions (LenAtom lo hi) = {R_pkt_len}"
| "atom_regions (ScalarAtom t v) = {target_region t}"
| "atom_regions (HelperScalar im idx sz c v retval) = opt_regions retval"
| "atom_regions (HelperNull im idx result mid mk mki) =
     (if mid \<noteq> None then insert (R_map mid) (opt_regions mk) else {})"
| "atom_regions (RetAtom c v) = {}"
| "atom_regions (ReadAtom parts c target sz reg off mid) = \<Union> (set (map (\<lambda>(leaf, k). expr_regions leaf) parts))"

primrec cond_regions :: "cond_node \<Rightarrow> region set" where
  "cond_regions (CLeaf a) = atom_regions a"
| "cond_regions (CNot c) = cond_regions c"
| "cond_regions (CAnd cs) = \<Union> (set (map cond_regions cs))"
| "cond_regions (COr cs) = \<Union> (set (map cond_regions cs))"

section \<open>The regions an action writes\<close>

text \<open>\<open>AdjustTail\<close> is a subclass of \<open>AdjustHead\<close>.\<close>

fun write_region :: "action_kind \<Rightarrow> region option" where
  "write_region (PktWrite pid off var sz v) = Some R_pkt"
| "write_region (MapWrite mid mk off sz v var) = Some (R_map mid)"
| "write_region (MapAtomicAdd mid mk off sz v var old) = Some (R_map mid)"
| "write_region (MapUpdate mid mk v fl sz) = Some (R_map mid)"
| "write_region (MapDelete mid mk) = Some (R_map mid)"
| "write_region (BssWrite key off sz v var) = Some (R_bss key)"
| "write_region (BssAtomicAdd key off sz v var old) = Some (R_bss key)"
| "write_region (CtxWrite v) = Some R_rx_index"
| "write_region (AdjustHead d r) = Some R_pkt_len"
| "write_region (AdjustTail d r) = Some R_pkt_len"
| "write_region _ = None"

fun leaf_region :: "val \<Rightarrow> region option" where
  "leaf_region (Pkt_val blk idx off vo sz) = Some R_pkt"
| "leaf_region (Map_val blk idx mid mk mki off vo sz) = Some (R_map mid)"
| "leaf_region (Bss_val blk idx key off vo sz) = Some (R_bss key)"
| "leaf_region (Func_retval sz idx fn blk mid mk mki fb rd) = (if rd \<and> mid \<noteq> None then Some (R_map mid) else None)"
| "leaf_region _ = None"

definition action_reads :: "action_kind \<Rightarrow> region set" where
  "action_reads a = opt_regions (value_of a) \<union> opt_regions (ac_map_key (access_of a)) \<union> opt_regions (ac_var_off (access_of a))"

section \<open>The closure\<close>

text \<open>One round over the actions; a round that adds nothing ends the loop.\<close>

definition region_step :: "region set \<Rightarrow> action_kind \<Rightarrow> region set" where
  "region_step out a =
     (case write_region a of
        None \<Rightarrow> out
      | Some r \<Rightarrow> if r \<in> out then out \<union> action_reads a else out)"

definition region_pass :: "action_kind list \<Rightarrow> region set \<Rightarrow> region set" where
  "region_pass acts out = foldl region_step out acts"

definition acts_reads :: "action_kind list \<Rightarrow> region set" where
  "acts_reads acts = \<Union> (set (map action_reads acts))"

lemma finite_expr_regions [simp]: "finite (expr_regions v)"
proof (induction v rule: val.induct)
  case (JoinValue oid blk rg vs es)
  then show ?case by (auto simp: regions_opt_def split: option.splits)
next
  case (ByteSeq cs sz off)
  then show ?case by (auto simp: regions_opt_def split: option.splits)
qed (auto simp: regions_opt_def split: option.splits)

lemma finite_opt_regions [simp]: "finite (opt_regions v)"
  by (simp add: opt_regions_def regions_opt_def split: option.splits)

lemma finite_acts_reads [simp]: "finite (acts_reads acts)"
  by (simp add: acts_reads_def action_reads_def)

lemma region_pass_bounds:
  shows "out \<subseteq> region_pass acts out" and "region_pass acts out \<subseteq> out \<union> acts_reads acts"
proof -
  have "out \<subseteq> foldl region_step out acts \<and> foldl region_step out acts \<subseteq> out \<union> acts_reads acts"
  proof (induction acts arbitrary: out)
    case (Cons a acts)
    have "out \<subseteq> region_step out a" "region_step out a \<subseteq> out \<union> action_reads a"
      by (auto simp: region_step_def split: option.splits)
    then show ?case using Cons.IH [of "region_step out a"] by (auto simp: acts_reads_def)
  qed simp
  then show "out \<subseteq> region_pass acts out" "region_pass acts out \<subseteq> out \<union> acts_reads acts"
    by (simp_all add: region_pass_def)
qed

function region_loop :: "action_kind list \<Rightarrow> region set \<Rightarrow> region set" where
  "region_loop acts out =
     (let out' = region_pass acts out in if out' = out then out else region_loop acts out')"
  by pat_completeness auto
termination
proof (relation "measure (\<lambda>(acts, out). card (acts_reads acts - out))")
  fix acts out out' assume o: "out' = region_pass acts out" "out' \<noteq> out"
  then have "acts_reads acts - out' \<subset> acts_reads acts - out"
    using region_pass_bounds [where acts = acts and out = out] by blast
  then show "((acts, out'), (acts, out)) \<in> measure (\<lambda>(acts, out). card (acts_reads acts - out))"
    by (simp add: psubset_card_mono)
qed simp

declare region_loop.simps [simp del]

text \<open>The blocks of the slice in the order of the list; the result does not depend on it.\<close>

definition slice_blocks :: "tblock list \<Rightarrow> nat set \<Rightarrow> tblock list" where
  "slice_blocks blocks sl = map ((!) blocks) (filter (\<lambda>b. b \<in> sl) [0..<length blocks])"

definition slice_actions :: "tblock list \<Rightarrow> nat set \<Rightarrow> action_kind list" where
  "slice_actions blocks sl = map a_kind (concat (map t_actions (slice_blocks blocks sl)))"

definition exit_regions :: "tblock \<Rightarrow> region set" where
  "exit_regions b = (if b_kind b = KExit then opt_regions (map_option snd (t_regs b ! 0)) else {})"

definition block_cond_regions :: "tblock \<Rightarrow> region set" where
  "block_cond_regions b = (case t_cond b of None \<Rightarrow> {} | Some c \<Rightarrow> branch_cond_regions c)"

definition base_regions :: "tblock list \<Rightarrow> nat set \<Rightarrow> cond_node list \<Rightarrow> region set" where
  "base_regions blocks sl trees =
     \<Union> (set (map cond_regions trees)) \<union>
     \<Union> (set (map (\<lambda>b. exit_regions b \<union> block_cond_regions b) (slice_blocks blocks sl)))"

definition relevant_regions :: "tblock list \<Rightarrow> nat set \<Rightarrow> cond_node list \<Rightarrow> region set" where
  "relevant_regions blocks sl trees =
     region_loop (slice_actions blocks sl) (base_regions blocks sl trees)"

section \<open>The slice, and folding\<close>

definition block_slice :: "tblock list \<Rightarrow> nat set \<Rightarrow> nat list option \<Rightarrow> nat set res" where
  "block_slice blocks live targets =
     (case targets of
        None \<Rightarrow> Inr live
      | Some ts \<Rightarrow>
          efoldl (\<lambda>keep t. if t \<in> live then ebind (slice_to blocks live t) (\<lambda>s. Inr (keep \<union> s)) else Inr keep)
            {0} ts)"

fun folded_kind :: "region \<Rightarrow> bool" where
  "folded_kind R_pkt = True"
| "folded_kind (R_map mid) = True"
| "folded_kind (R_bss key) = True"
| "folded_kind _ = False"

fun src_var_off :: "val \<Rightarrow> val option" where
  "src_var_off (Pkt_val blk idx off vo sz) = vo"
| "src_var_off (Map_val blk idx mid mk mki off vo sz) = vo"
| "src_var_off (Bss_val blk idx key off vo sz) = vo"
| "src_var_off _ = None"

text \<open>\<open>_region_has_var_off\<close>: once true for a region it stays true.\<close>

definition region_has_var_off :: "tblock list \<Rightarrow> nat set \<Rightarrow> region \<Rightarrow> bool" where
  "region_has_var_off blocks sl r \<longleftrightarrow>
     folded_kind r \<and>
     list_ex (\<lambda>b.
        list_ex (\<lambda>a. write_region (a_kind a) = Some r \<and> ac_var_off (access_of (a_kind a)) \<noteq> None) (t_actions b) \<or>
        list_ex (\<lambda>s. \<not> is_join s \<and> leaf_region s = Some r \<and> src_var_off s \<noteq> None) (t_sources b))
       (slice_blocks blocks sl)"

definition fold_eligible_regions :: "tblock list \<Rightarrow> nat set \<Rightarrow> region set \<Rightarrow> region set" where
  "fold_eligible_regions blocks sl relevant =
     {r \<in> relevant. folded_kind r \<and> \<not> region_has_var_off blocks sl r}"

section \<open>The closure is the least one\<close>

text \<open>A set of regions that contains what is read by every action that writes into it.\<close>

definition closed_under :: "action_kind list \<Rightarrow> region set \<Rightarrow> bool" where
  "closed_under acts S \<longleftrightarrow>
     list_all (\<lambda>a. case write_region a of None \<Rightarrow> True | Some r \<Rightarrow> r \<in> S \<longrightarrow> action_reads a \<subseteq> S) acts"

lemma region_step_closed: "out \<subseteq> S \<Longrightarrow> closed_under [a] S \<Longrightarrow> region_step out a \<subseteq> S"
  by (auto simp: region_step_def closed_under_def split: option.splits)

lemma region_pass_least: "out \<subseteq> S \<Longrightarrow> closed_under acts S \<Longrightarrow> region_pass acts out \<subseteq> S"
  unfolding region_pass_def
proof (induction acts arbitrary: out)
  case (Cons a acts)
  then have "region_step out a \<subseteq> S" by (intro region_step_closed) (simp_all add: closed_under_def)
  with Cons show ?case by (simp add: closed_under_def)
qed simp

lemma region_pass_stable: "region_pass acts out = out \<Longrightarrow> closed_under acts out"
  unfolding region_pass_def
proof (induction acts)
  case (Cons a acts)
  have "out \<subseteq> region_step out a" by (auto simp: region_step_def split: option.splits)
  moreover have "region_step out a \<subseteq> out"
    using region_pass_bounds(1) [of "region_step out a" acts] Cons.prems by (simp add: region_pass_def)
  ultimately have s: "region_step out a = out" by blast
  have "foldl region_step out acts = out" using Cons.prems unfolding foldl.simps s .
  then have "closed_under acts out" by (rule Cons.IH)
  moreover have "action_reads a \<subseteq> out" if "write_region a = Some r" "r \<in> out" for r
    using s that by (simp add: region_step_def) blast
  ultimately show ?case by (simp add: closed_under_def split: option.split)
qed (simp add: closed_under_def)

lemma region_loop_least:
  "out \<subseteq> region_loop acts out \<and> closed_under acts (region_loop acts out) \<and>
   (\<forall>S. out \<subseteq> S \<longrightarrow> closed_under acts S \<longrightarrow> region_loop acts out \<subseteq> S)"
proof (induction acts out rule: region_loop.induct)
  case (1 acts out)
  show ?case
  proof (cases "region_pass acts out = out")
    case True
    then show ?thesis using region_pass_stable by (subst (1 2 3) region_loop.simps) simp
  next
    case False
    then have e: "region_loop acts out = region_loop acts (region_pass acts out)"
      by (subst region_loop.simps) (simp add: Let_def)
    note ih = 1 [OF refl False]
    have "out \<subseteq> region_loop acts (region_pass acts out)"
      using region_pass_bounds(1) [of out acts] ih by blast
    moreover have "region_loop acts (region_pass acts out) \<subseteq> S" if "out \<subseteq> S" "closed_under acts S" for S
      using ih region_pass_least [OF that] that(2) by blast
    ultimately show ?thesis using ih unfolding e by blast
  qed
qed

text \<open>
  Claim C21.  The loop of the relevance analysis ends, and its result is the least set of regions
  that holds everything the conditions, the branches and the exits of the slice read and, with a
  region, everything read by an action that writes into it.
\<close>

theorem relevant_regions_least:
  "base_regions blocks sl trees \<subseteq> relevant_regions blocks sl trees \<and>
   closed_under (slice_actions blocks sl) (relevant_regions blocks sl trees) \<and>
   (\<nexists>S. base_regions blocks sl trees \<subseteq> S \<and> closed_under (slice_actions blocks sl) S \<and>
        \<not> relevant_regions blocks sl trees \<subseteq> S)"
  using region_loop_least [of "base_regions blocks sl trees" "slice_actions blocks sl"]
  by (auto simp: relevant_regions_def)

end
