(* ===== verification/Replay.thy ===== *)
theory Replay
  imports Memory
begin

text \<open>
  What the symbolic memory of \<open>hornet/verify/slice.py\<close> means.  The contract is an abstract machine:
  a world of byte cells and of present keys, and one step per recorded write.  Under an assignment
  of the solver's variables, the terms of \<open>present\<close> and of a read have the values found in the
  world after the writes of the executed path that precede the access.
\<close>

section \<open>The abstract machine\<close>

datatype cell = Pkt_cell int | Map_cell "int option" int int | Bss_cell "string option" int

text \<open>\<open>Map_cell map_id key offset\<close>: the key is its numeric value.\<close>

primrec cell_pos :: "cell \<Rightarrow> int" where
  "cell_pos (Pkt_cell p) = p"
| "cell_pos (Map_cell mid k p) = p"
| "cell_pos (Bss_cell key p) = p"

record world =
  w_pres :: "int option \<Rightarrow> int \<Rightarrow> bool"
  w_cells :: "cell \<Rightarrow> int"

text \<open>The numbers that a value and a key of the program denote.\<close>

definition val_word :: "z3_queries \<Rightarrow> ('m \<Rightarrow> bvt \<Rightarrow> int) \<Rightarrow> z3_state \<Rightarrow> 'm \<Rightarrow> val option \<Rightarrow> int" where
  "val_word z ev st m v = (case expr_opt_z3 z st v of Inr t \<Rightarrow> ev m t | Inl e \<Rightarrow> 0)"

definition key_word :: "z3_queries \<Rightarrow> ('m \<Rightarrow> bvt \<Rightarrow> int) \<Rightarrow> z3_state \<Rightarrow> 'm \<Rightarrow> int option \<Rightarrow> val option \<Rightarrow> int" where
  "key_word z ev st m mid k =
     (case map_key_z3 z st mid (expr_opt_z3 z st k) of Inr t \<Rightarrow> ev m t | Inl e \<Rightarrow> 0)"

definition stored :: "z3_queries \<Rightarrow> ('m \<Rightarrow> bvt \<Rightarrow> int) \<Rightarrow> z3_state \<Rightarrow> 'm \<Rightarrow> action_kind \<Rightarrow> int" where
  "stored z ev st m k =
     (let n = max (ac_size (access_of k)) 1 * 8; v = take_bit n (val_word z ev st m (value_of k)) in
      case old_of k of None \<Rightarrow> v | Some old \<Rightarrow> take_bit n (take_bit n (val_word z ev st m (Some old)) + v))"

definition in_range :: "access \<Rightarrow> int \<Rightarrow> bool" where
  "in_range ac p \<longleftrightarrow> ac_off ac \<le> p \<and> p < ac_off ac + int (max (ac_size ac) 1)"

fun covers :: "(int option \<Rightarrow> val option \<Rightarrow> int) \<Rightarrow> access \<Rightarrow> cell \<Rightarrow> bool" where
  "covers key ac (Pkt_cell p) \<longleftrightarrow> ac_region ac = Some REGION_PKT \<and> in_range ac p"
| "covers key ac (Map_cell mid k p) \<longleftrightarrow>
     ac_region ac = Some REGION_MAP \<and> ac_map_id ac = mid \<and> key mid (ac_map_key ac) = k \<and> in_range ac p"
| "covers key ac (Bss_cell s p) \<longleftrightarrow> ac_region ac = Some REGION_BSS \<and> ac_bss_key ac = s \<and> in_range ac p"

text \<open>A map update takes effect by its flags and by whether its key is present.\<close>

definition update_ok ::
  "z3_queries \<Rightarrow> ('m \<Rightarrow> bvt \<Rightarrow> int) \<Rightarrow> ('m \<Rightarrow> bt \<Rightarrow> bool) \<Rightarrow> z3_state \<Rightarrow> 'm \<Rightarrow> world \<Rightarrow> action \<Rightarrow> bool" where
  "update_ok z ev evb st m W w =
     (case a_kind w of
        MapUpdate mid mk v fl sz \<Rightarrow>
          (let k = key_word z ev st m mid mk in
           update_mode fl (evb m (Bool (''update'' @ show_int (a_idx w) @ ''_applies'')))
             (case map_info_of st mid of
                Some info \<Rightarrow> if is_array_map st mid then k < m_max_entries info else w_pres W mid k
              | None \<Rightarrow> w_pres W mid k))
      | _ \<Rightarrow> True)"

definition world_step ::
  "z3_queries \<Rightarrow> ('m \<Rightarrow> bvt \<Rightarrow> int) \<Rightarrow> ('m \<Rightarrow> bt \<Rightarrow> bool) \<Rightarrow> z3_state \<Rightarrow> 'm \<Rightarrow> world \<Rightarrow> action \<Rightarrow> world" where
  "world_step z ev evb st m W w =
     (let ac = access_of (a_kind w); key = key_word z ev st m in
      if \<not> update_ok z ev evb st m W w then W
      else
        \<lparr>w_pres = (case presence_of (a_kind w) of
             None \<Rightarrow> w_pres W
           | Some p \<Rightarrow> (\<lambda>mid k. if mid = ac_map_id ac \<and> k = key mid (ac_map_key ac) then p else w_pres W mid k)),
         w_cells = (\<lambda>c. if covers key ac c
             then take_bit 8 (drop_bit (8 * nat (cell_pos c - ac_off ac)) (stored z ev st m (a_kind w)))
             else w_cells W c)\<rparr>)"

definition world_run ::
  "z3_queries \<Rightarrow> ('m \<Rightarrow> bvt \<Rightarrow> int) \<Rightarrow> ('m \<Rightarrow> bt \<Rightarrow> bool) \<Rightarrow> z3_state \<Rightarrow> 'm \<Rightarrow> world \<Rightarrow> action list \<Rightarrow> world" where
  "world_run z ev evb st m W ws = foldl (world_step z ev evb st m) W ws"

text \<open>The world before the program: the arrays of the state.\<close>

definition init_world ::
  "z3_queries \<Rightarrow> ('m \<Rightarrow> avt \<Rightarrow> int \<Rightarrow> int) \<Rightarrow> ('m \<Rightarrow> abt \<Rightarrow> int \<Rightarrow> bool) \<Rightarrow> z3_state \<Rightarrow> 'm \<Rightarrow> world" where
  "init_world z eva evab st m =
     \<lparr>w_pres = (\<lambda>mid k. case map_at st mid of Inr mp \<Rightarrow> evab m (fst mp) k | Inl e \<Rightarrow> False),
      w_cells = (\<lambda>c. case c of
          Pkt_cell p \<Rightarrow> eva m (zs_pkt st) (take_bit (z_dom z (zs_pkt st)) p)
        | Map_cell mid k p \<Rightarrow>
            (case map_at st mid of
               Inr mp \<Rightarrow> if p * 8 + 8 \<le> int (z_rng z (snd mp))
                 then take_bit 8 (drop_bit (nat p * 8) (eva m (snd mp) k)) else 0
             | Inl e \<Rightarrow> 0)
        | Bss_cell s p \<Rightarrow> eva m (bss_of st s) (take_bit BSS_ADDR_BITS p))\<rparr>"

section \<open>What is asked of the writes\<close>

text \<open>A key that encodes; a constant one fits in its size and in the width of the map's keys.\<close>

definition clear_key :: "z3_queries \<Rightarrow> z3_state \<Rightarrow> int option \<Rightarrow> val option \<Rightarrow> bool" where
  "clear_key z st mid k \<longleftrightarrow>
     (\<exists>mp t. map_at st mid = Inr mp \<and> 0 < z_dom z (snd mp) \<and> expr_opt_z3 z st k = Inr t \<and>
        (\<forall>n. const_of k = Some n \<longrightarrow> (\<exists>sz i. k = Some (Num n sz i) \<and> 0 < sz \<and> 8 * sz \<le> z_dom z (snd mp) \<and>
             0 \<le> n \<and> n < 2 ^ (8 * sz))) \<and>
        (\<forall>info. map_info_of st mid = Some info \<and> is_array_map st mid \<longrightarrow>
             0 \<le> m_max_entries info \<and> m_max_entries info < 2 ^ z_dom z (snd mp)))"

definition clear_write :: "z3_queries \<Rightarrow> z3_state \<Rightarrow> action \<Rightarrow> bool" where
  "clear_write z st w \<longleftrightarrow>
     (let ac = access_of (a_kind w) in
      ac_var_off ac = None \<and> (\<exists>t. expr_opt_z3 z st (value_of (a_kind w)) = Inr t) \<and>
      (\<forall>old. old_of (a_kind w) = Some old \<longrightarrow> (\<exists>t. expr_to_z3 z st old = Inr t)) \<and>
      (ac_region ac = Some REGION_MAP \<longrightarrow> ac_map_key ac \<noteq> None \<and> clear_key z st (ac_map_id ac) (ac_map_key ac)) \<and>
      (ac_region ac = Some REGION_BSS \<longrightarrow> ac_bss_key ac \<noteq> None))"

definition clear_presence :: "z3_queries \<Rightarrow> z3_state \<Rightarrow> action \<Rightarrow> bool" where
  "clear_presence z st w \<longleftrightarrow>
     (let ac = access_of (a_kind w) in ac_map_key ac \<noteq> None \<and> clear_key z st (ac_map_id ac) (ac_map_key ac))"

text \<open>The number of presence writes that can be seen from a position.\<close>

definition depth_at :: "memory \<Rightarrow> (action \<Rightarrow> bool) \<Rightarrow> nat" where
  "depth_at mm vis = card {w \<in> set (mm_presence mm). vis w}"

text \<open>What a write sees is seen wherever the write is, and no write sees itself.\<close>

definition ordered_memory :: "memory \<Rightarrow> bool" where
  "ordered_memory mm \<longleftrightarrow> (\<forall>p. \<forall>b \<in> mm_anc mm p. p \<notin> mm_anc mm b \<and> mm_anc mm b \<subseteq> mm_anc mm p)"

section \<open>Keys, update conditions and presence\<close>

definition key_term :: "z3_queries \<Rightarrow> z3_state \<Rightarrow> int option \<Rightarrow> bvt \<Rightarrow> bool" where
  "key_term z st mid t \<longleftrightarrow> (\<exists>mp. map_at st mid = Inr mp \<and> z_size z t = z_dom z (snd mp) \<and> 0 < z_size z t)"

lemma key_term_size: "key_term z st mid t \<Longrightarrow> key_term z st mid t' \<Longrightarrow> z_size z t = z_size z t'"
  by (auto simp: key_term_def)

context smtlib begin

lemma evl_choose_b: "evb m (choose_b g t old) = (if lit_holds evb m g then evb m t else evb m old)"
  by (auto simp: choose_b_def lit_holds_def evb_BoolIf split: lit.splits bool.splits)

lemma choose_bv_run:
  assumes "z_size z t = z_size z old"
  shows "z_size z (choose_bv g t old) = z_size z old"
    and "ev m (choose_bv g t old) = (if lit_holds evb m g then ev m t else ev m old)"
  using assms by (auto simp: choose_bv_def lit_holds_def ev_BvIf size_simps split: lit.splits bool.splits)

lemma mem_key_run:
  assumes "clear_key z (mm_st mm) mid k"
  shows "\<exists>t. mem_key z mm mid k = Inr t \<and> key_term z (mm_st mm) mid t \<and> ev m t = key_word z ev (mm_st mm) m mid k"
  using assms by (auto simp: clear_key_def mem_key_def map_key_z3_def key_term_def key_word_def)

lemma key_word_const:
  assumes "clear_key z st mid k" and "const_of k = Some n"
  shows "key_word z ev st m mid k = n"
proof -
  obtain mp sz i where mp: "map_at st mid = Inr mp" "0 < z_dom z (snd mp)" and k: "k = Some (Num n sz i)"
    and n: "0 < sz" "8 * sz \<le> z_dom z (snd mp)" "0 \<le> n" "n < 2 ^ (8 * sz)"
    using assms unfolding clear_key_def by blast
  have s: "take_bit (sz * 8) n = n" using n by (simp add: take_bit_int_eq_self_iff mult.commute)
  have "n < 2 ^ z_dom z (snd mp)"
    using n(4) power_increasing [OF n(2), of "2::int"] by linarith
  then have "take_bit (z_dom z (snd mp)) n = n" using n(3) by (simp add: take_bit_int_eq_self_iff)
  with s mp show ?thesis
    by (simp add: key_word_def k expr_opt_z3_def enc_opt_def map_key_z3_def ev_resize ev_BitVecVal)
qed

lemma applies_total:
  assumes "is_update w" and "clear_presence z (mm_st mm) w"
    and "\<And>t. key_term z (mm_st mm) (ac_map_id (access_of (a_kind w))) t \<Longrightarrow>
      \<exists>p. pres (ac_map_id (access_of (a_kind w))) t (Some (a_block w)) (Some (a_idx w)) = Inr p"
  shows "\<exists>a. applies_with z pres mm w = Inr a"
proof -
  obtain mid mk v fl sz where w: "a_kind w = MapUpdate mid mk v fl sz"
    using assms(1) by (auto simp: is_update_def split: action_kind.splits)
  with assms(2) have "clear_key z (mm_st mm) mid mk" by (simp add: clear_presence_def map_access_def Let_def)
  from mem_key_run [OF this] obtain t where t: "mem_key z mm mid mk = Inr t" "key_term z (mm_st mm) mid t" by blast
  with w assms(3) [of t] show ?thesis
    by (auto simp: applies_with_def map_access_def split: option.splits)
qed

lemma applies_sem:
  assumes "applies_with z pres mm w = Inr a" and "is_update w" and "clear_presence z (mm_st mm) w"
    and "\<And>t p. key_term z (mm_st mm) (ac_map_id (access_of (a_kind w))) t \<Longrightarrow>
      pres (ac_map_id (access_of (a_kind w))) t (Some (a_block w)) (Some (a_idx w)) = Inr p \<Longrightarrow>
      evb m p = w_pres W (ac_map_id (access_of (a_kind w))) (ev m t)"
  shows "lit_holds evb m a = update_ok z ev evb (mm_st mm) m W w"
proof -
  obtain mid mk v fl sz where w: "a_kind w = MapUpdate mid mk v fl sz"
    using assms(2) by (auto simp: is_update_def split: action_kind.splits)
  with assms(3) have ck: "clear_key z (mm_st mm) mid mk" by (simp add: clear_presence_def map_access_def Let_def)
  from mem_key_run [OF this, of m] obtain t where t: "mem_key z mm mid mk = Inr t" "key_term z (mm_st mm) mid t"
    "ev m t = key_word z ev (mm_st mm) m mid mk" by blast
  let ?pr = "\<lambda>k. case map_info_of (mm_st mm) mid of
      Some info \<Rightarrow> if is_array_map (mm_st mm) mid then k < m_max_entries info else w_pres W mid k
    | None \<Rightarrow> w_pres W mid k"
  show ?thesis
  proof (cases "case fl of Some f \<Rightarrow> f AND 3 = 0 | None \<Rightarrow> False")
    case True
    with w assms(1) show ?thesis
      by (auto simp: applies_with_def update_ok_def update_mode_def lit_holds_def split: option.splits)
  next
    case False
    with w assms(1) t(1) obtain p where a: "a = update_applies (a_idx w) fl p"
      and p: "(case map_info_of (mm_st mm) mid of
        Some info \<Rightarrow> if is_array_map (mm_st mm) mid then Inr (BvCmp BvUlt t (BitVecVal (m_max_entries info) (z_size z t)))
          else pres mid t (Some (a_block w)) (Some (a_idx w))
      | None \<Rightarrow> pres mid t (Some (a_block w)) (Some (a_idx w))) = Inr p"
      by (auto simp: applies_with_def ebind_eq_Inr)
    have "evb m p = ?pr (ev m t)"
    proof (cases "map_info_of (mm_st mm) mid")
      case None
      with p assms(4) [of t p] t(2) w show ?thesis by (simp add: map_access_def)
    next
      case (Some info)
      show ?thesis
      proof (cases "is_array_map (mm_st mm) mid")
        case True
        then have "take_bit (z_size z t) (m_max_entries info) = m_max_entries info"
          using ck Some t(2) by (auto simp: clear_key_def key_term_def take_bit_int_eq_self_iff)
        moreover have "0 < z_size z t" using t(2) by (auto simp: key_term_def)
        ultimately show ?thesis using True Some p
          by (auto simp: evb_BvCmp size_BitVecVal ev_BitVecVal)
      next
        case False
        with Some p assms(4) [of t p] t(2) w show ?thesis by (simp add: map_access_def)
      qed
    qed
    then show ?thesis unfolding a using t(3) w
      by (auto simp: update_ok_def update_mode_def update_applies_def lit_holds_def not_lit_def evb_Not Let_def split: option.splits)
  qed
qed

end

text \<open>What can be seen from the end of a block, or from an instruction of it.\<close>

definition seen :: "memory \<Rightarrow> int \<Rightarrow> int option \<Rightarrow> action \<Rightarrow> bool" where
  "seen mm b ai w = (case ai of None \<Rightarrow> ran_before mm w b | Some i \<Rightarrow> visible mm w b i)"

lemma seen_trans:
  assumes "ordered_memory mm" and "seen mm b ai w" and "visible mm w' (a_block w) (a_idx w)"
  shows "seen mm b ai w'"
  using assms unfolding seen_def ordered_memory_def visible_def ran_before_def
  by (cases ai; simp) (smt (verit, ccfv_SIG) subsetD)+

lemma depth_less:
  assumes "ordered_memory mm" and "seen mm b ai w" and "w \<in> set (mm_presence mm)"
  shows "depth_at mm (seen mm (a_block w) (Some (a_idx w))) < depth_at mm (seen mm b ai)"
proof -
  have "w \<notin> {x \<in> set (mm_presence mm). seen mm (a_block w) (Some (a_idx w)) x}" by (simp add: seen_def visible_def)
  moreover have "{x \<in> set (mm_presence mm). seen mm (a_block w) (Some (a_idx w)) x} \<subseteq>
      {x \<in> set (mm_presence mm). seen mm b ai x}"
    using seen_trans [OF assms(1,2)] by (auto simp: seen_def)
  ultimately show ?thesis using assms(2,3) unfolding depth_at_def by (intro psubset_card_mono) auto
qed

lemma depth_bound: "depth_at mm vis \<le> length (mm_presence mm)"
proof -
  have "depth_at mm vis \<le> card (set (mm_presence mm))" unfolding depth_at_def by (intro card_mono) auto
  also have "\<dots> \<le> length (mm_presence mm)" by (rule card_length)
  finally show ?thesis .
qed

text \<open>
  \<open>E\<close> lists the writes that an assignment executes, in order; a position has seen the first \<open>j\<close> of
  them when the writes visible from it, in blocks whose condition holds, are these.
\<close>

definition has_seen :: "('m \<Rightarrow> bt \<Rightarrow> bool) \<Rightarrow> memory \<Rightarrow> 'm \<Rightarrow> action list \<Rightarrow> int \<Rightarrow> int option \<Rightarrow> nat \<Rightarrow> bool" where
  "has_seen evb mm m E b ai j \<longleftrightarrow>
     (let before = (\<lambda>w. seen mm b ai w \<and> lit_holds evb m (mm_reach mm (a_block w))) in
      filter before (mm_presence mm) = filter (\<lambda>w. presence_of (a_kind w) \<noteq> None) (take j E) \<and>
      filter before (mm_writes mm) = filter (\<lambda>w. ac_region (access_of (a_kind w)) \<noteq> None) (take j E))"

definition replays :: "('m \<Rightarrow> bt \<Rightarrow> bool) \<Rightarrow> memory \<Rightarrow> 'm \<Rightarrow> action list \<Rightarrow> bool" where
  "replays evb mm m E \<longleftrightarrow>
     (\<forall>k < length E. has_seen evb mm m E (a_block (E ! k)) (Some (a_idx (E ! k))) k)"

lemma take_filter_snoc: "k < length E \<Longrightarrow> filter P (take (Suc k) E) = filter P (take k E) @ (if P (E ! k) then [E ! k] else [])"
  by (simp add: take_Suc_conv_app_nth)

context smtlib begin

lemma presence_step_total:
  assumes "ac_map_id (access_of (a_kind w)) = mid \<and> seen mm b ai w \<Longrightarrow> clear_presence z (mm_st mm) w"
    and "ac_map_id (access_of (a_kind w)) = mid \<and> seen mm b ai w \<Longrightarrow> is_update w \<Longrightarrow> \<exists>a. app w = Inr a"
  shows "\<exists>p'. presence_step z app mm mid t b ai p w = Inr p'"
proof (cases "ac_map_id (access_of (a_kind w)) = mid \<and> seen mm b ai w")
  case True
  with assms(1) obtain k where k: "ac_map_key (access_of (a_kind w)) = Some k" "clear_key z (mm_st mm) mid (Some k)"
    by (auto simp: clear_presence_def Let_def)
  from mem_key_run [OF k(2)] obtain wk where "mem_key z mm mid (Some k) = Inr wk" by blast
  then show ?thesis using True assms(2) k(1)
    by (cases "is_update w") (auto simp: presence_step_def seen_def Let_def)
next
  case False
  then show ?thesis by (auto simp: presence_step_def seen_def Let_def)
qed

lemma presence_step_sem:
  assumes run: "presence_step z app mm mid t b ai p w = Inr p'" and t: "key_term z (mm_st mm) mid t"
    and cl: "ac_map_id (access_of (a_kind w)) = mid \<and> seen mm b ai w \<Longrightarrow> clear_presence z (mm_st mm) w"
  shows "evb m p' = (if ac_map_id (access_of (a_kind w)) = mid \<and> (seen mm b ai w \<and> lit_holds evb m (mm_reach mm (a_block w))) \<and>
       key_word z ev (mm_st mm) m mid (ac_map_key (access_of (a_kind w))) = ev m t \<and>
       (is_update w \<longrightarrow> (\<exists>a. app w = Inr a \<and> lit_holds evb m a))
     then presence_of (a_kind w) = Some True else evb m p)"
proof (cases "ac_map_id (access_of (a_kind w)) = mid \<and> seen mm b ai w")
  case True
  with cl obtain k where k: "ac_map_key (access_of (a_kind w)) = Some k" "clear_key z (mm_st mm) mid (Some k)"
    by (auto simp: clear_presence_def Let_def)
  from mem_key_run [OF k(2), of m] obtain wk where wk: "mem_key z mm mid (Some k) = Inr wk"
    "key_term z (mm_st mm) mid wk" "ev m wk = key_word z ev (mm_st mm) m mid (Some k)" by blast
  have eq: "evb m (BvEq wk t) = (ev m wk = ev m t)" by (rule evb_BvEq [OF key_term_size [OF wk(2) t]])
  let ?g = "and_lit (mm_reach mm (a_block w)) (Z (BvEq wk t))"
  have g: "lit_holds evb m ?g = (lit_holds evb m (mm_reach mm (a_block w)) \<and>
      key_word z ev (mm_st mm) m mid (Some k) = ev m t)" using wk(3) eq by (simp add: evl_and)
  show ?thesis
  proof (cases "?g \<noteq> Py False \<and> is_update w")
    case upd: True
    with run True k(1) wk(1) obtain a where "app w = Inr a"
      "p' = choose_b (and_lit ?g a) (BoolVal (presence_of (a_kind w) = Some True)) p"
      by (auto simp: presence_step_def seen_def Let_def ebind_eq_Inr)
    then show ?thesis using True k(1) g upd by (simp add: evl_choose_b evl_and evb_BoolVal)
  next
    case nup: False
    with run True k(1) wk(1) have p': "p' = choose_b ?g (BoolVal (presence_of (a_kind w) = Some True)) p"
      by (auto simp: presence_step_def seen_def Let_def ebind_eq_Inr)
    show ?thesis
    proof (cases "?g = Py False")
      case True
      then have "\<not> lit_holds evb m ?g" by simp
      then show ?thesis using p' g k(1) by (auto simp: evl_choose_b)
    next
      case False
      with nup have "\<not> is_update w" by simp
      then show ?thesis using p' g True k(1) by (simp add: evl_choose_b evb_BoolVal)
    qed
  qed
next
  case False
  with run have "p' = p" by (auto simp: presence_step_def seen_def Let_def split: if_splits)
  with False show ?thesis by auto
qed

end

context smtlib begin

lemma present_total:
  assumes o: "ordered_memory mm" and cl: "\<forall>w \<in> set (mm_presence mm). clear_presence z (mm_st mm) w"
  shows "key_term z (mm_st mm) mid t \<Longrightarrow> depth_at mm (seen mm b ai) < n \<Longrightarrow>
    \<exists>p. present_n n z mm mid t (Some b) ai = Inr p"
proof (induction n arbitrary: mid t b ai)
  case (Suc n)
  from Suc.prems(1) obtain mp where mp: "map_at (mm_st mm) mid = Inr mp" by (auto simp: key_term_def)
  have "\<exists>p. efoldl (presence_step z (applies_with z (present_n n z mm) mm) mm mid t b ai) p0 (mm_presence mm) = Inr p" for p0
  proof (rule efoldl_total)
    fix p w assume w: "w \<in> set (mm_presence mm)"
    show "\<exists>p'. presence_step z (applies_with z (present_n n z mm) mm) mm mid t b ai p w = Inr p'"
    proof (rule presence_step_total)
      assume sw: "ac_map_id (access_of (a_kind w)) = mid \<and> seen mm b ai w"
      show cw: "clear_presence z (mm_st mm) w" using cl w by blast
      assume "is_update w"
      then show "\<exists>a. applies_with z (present_n n z mm) mm w = Inr a"
      proof (rule applies_total [OF _ cw])
        fix u assume "key_term z (mm_st mm) (ac_map_id (access_of (a_kind w))) u"
        then show "\<exists>p. present_n n z mm (ac_map_id (access_of (a_kind w))) u (Some (a_block w)) (Some (a_idx w)) = Inr p"
          by (rule Suc.IH) (use depth_less [OF o conjunct2 [OF sw] w] Suc.prems(2) in linarith)
      qed
    qed
  qed
  with mp show ?case by simp
qed simp

lemma present_sem:
  assumes o: "ordered_memory mm" and cl: "\<forall>w \<in> set (mm_presence mm). clear_presence z (mm_st mm) w"
    and E: "replays evb mm m E"
  defines "W \<equiv> \<lambda>j. world_run z ev evb (mm_st mm) m (init_world z eva evab (mm_st mm) m) (take j E)"
  shows "key_term z (mm_st mm) mid t \<Longrightarrow> depth_at mm (seen mm b ai) < n \<Longrightarrow>
    has_seen evb mm m E b ai j \<Longrightarrow> j \<le> length E \<Longrightarrow>
    present_n n z mm mid t (Some b) ai = Inr p \<Longrightarrow> evb m p = w_pres (W j) mid (ev m t)"
proof (induction n arbitrary: mid t b ai j p)
  case (Suc n)
  note IH = Suc.IH and dep = Suc.prems(2) and sees = Suc.prems(3) and j = Suc.prems(4)
  let ?app = "applies_with z (present_n n z mm) mm"
  from Suc.prems(1) obtain mp where mp: "map_at (mm_st mm) mid = Inr mp" by (auto simp: key_term_def)
  let ?before = "\<lambda>w. seen mm b ai w \<and> lit_holds evb m (mm_reach mm (a_block w))"
  let ?g = "\<lambda>x w. if ac_map_id (access_of (a_kind w)) = mid \<and> ?before w \<and>
       key_word z ev (mm_st mm) m mid (ac_map_key (access_of (a_kind w))) = ev m t \<and>
       (is_update w \<longrightarrow> (\<exists>a. ?app w = Inr a \<and> lit_holds evb m a))
     then presence_of (a_kind w) = Some True else x"
  have "efoldl (presence_step z ?app mm mid t b ai) (SelectB (fst mp) t) (mm_presence mm) = Inr p"
    using Suc.prems(5) mp by simp
  then have "evb m p = foldl ?g (evb m (SelectB (fst mp) t)) (mm_presence mm)"
  proof (rule efoldl_related [where R = "\<lambda>p x. evb m p = x"])
    fix p w p' x assume w: "w \<in> set (mm_presence mm)" and x: "evb m p = x" and run: "presence_step z ?app mm mid t b ai p w = Inr p'"
    show "evb m p' = ?g x w" unfolding x [symmetric]
      by (rule presence_step_sem [OF run Suc.prems(1)]) (use cl w in blast)
  qed simp
  also have "\<dots> = foldl ?g (evb m (SelectB (fst mp) t)) (filter ?before (mm_presence mm))"
    by (rule foldl_filter) auto
  also have "filter ?before (mm_presence mm) = filter (\<lambda>w. presence_of (a_kind w) \<noteq> None) (take j E)"
    using Suc.prems(3) by (simp add: has_seen_def Let_def)
  also have "foldl ?g (evb m (SelectB (fst mp) t)) (filter (\<lambda>w. presence_of (a_kind w) \<noteq> None) (take k E)) =
      w_pres (W k) mid (ev m t)" if "k \<le> j" for k
    using that
  proof (induction k)
    case 0
    then show ?case by (simp add: W_def world_run_def init_world_def mp evb_SelectB)
  next
    case (Suc k)
    then have k: "k < length E" "k < j" using Suc.prems j by simp_all
    let ?w = "E ! k"
    have W: "W (Suc k) = world_step z ev evb (mm_st mm) m (W k) ?w"
      using k(1) by (simp add: W_def world_run_def take_Suc_conv_app_nth)
    show ?case
    proof (cases "presence_of (a_kind ?w)")
      case None
      then show ?thesis using Suc by (simp add: take_filter_snoc [OF k(1)] W world_step_def Let_def)
    next
      case (Some q)
      have "?w \<in> set (filter (\<lambda>w. presence_of (a_kind w) \<noteq> None) (take j E))"
        using Some k nth_mem [of k "take j E"] j by simp
      then have "?w \<in> set (filter ?before (mm_presence mm))"
        using sees unfolding has_seen_def Let_def by simp
      then have w: "?w \<in> set (mm_presence mm)" "?before ?w" by auto
      have ok: "is_update ?w \<Longrightarrow> (\<exists>a. ?app ?w = Inr a \<and> lit_holds evb m a) = update_ok z ev evb (mm_st mm) m (W k) ?w"
      proof -
        assume u: "is_update ?w"
        have cw: "clear_presence z (mm_st mm) ?w" using cl w(1) by blast
        have dl: "depth_at mm (seen mm (a_block ?w) (Some (a_idx ?w))) < n"
          using depth_less [OF o conjunct1 [OF w(2)] w(1)] dep by linarith
        obtain a where a: "?app ?w = Inr a"
          using applies_total [where pres = "present_n n z mm", OF u cw] present_total [OF o cl _ dl] by blast
        have "lit_holds evb m a = update_ok z ev evb (mm_st mm) m (W k) ?w"
        proof (rule applies_sem [OF a u cw])
          fix u p assume u: "key_term z (mm_st mm) (ac_map_id (access_of (a_kind ?w))) u"
            and p: "present_n n z mm (ac_map_id (access_of (a_kind ?w))) u (Some (a_block ?w)) (Some (a_idx ?w)) = Inr p"
          have "has_seen evb mm m E (a_block ?w) (Some (a_idx ?w)) k" using E k(1) by (simp add: replays_def)
          then show "evb m p = w_pres (W k) (ac_map_id (access_of (a_kind ?w))) (ev m u)"
            using IH [OF u dl _ _ p] k(1) by simp
        qed
        with a show ?thesis by simp
      qed
      have nu: "\<not> is_update ?w \<Longrightarrow> update_ok z ev evb (mm_st mm) m (W k) ?w"
        by (auto simp: is_update_def update_ok_def split: action_kind.splits)
      show ?thesis using Suc w(2) Some ok nu
        by (cases "is_update ?w") (auto simp: take_filter_snoc [OF k(1)] W world_step_def Let_def)
    qed
  qed
  finally show ?case by simp
qed simp

end

section \<open>The bytes of a location\<close>

definition clear_loc :: "z3_queries \<Rightarrow> z3_state \<Rightarrow> access \<Rightarrow> bool" where
  "clear_loc z st loc \<longleftrightarrow>
     ac_region loc \<in> {Some REGION_PKT, Some REGION_MAP, Some REGION_BSS} \<and> ac_var_off loc = None \<and> 0 \<le> ac_off loc \<and>
     (ac_region loc = Some REGION_MAP \<longrightarrow> ac_map_key loc \<noteq> None \<and> clear_key z st (ac_map_id loc) (ac_map_key loc)) \<and>
     (ac_region loc = Some REGION_BSS \<longrightarrow> ac_bss_key loc \<noteq> None)"

definition byte_arrays :: "z3_queries \<Rightarrow> z3_state \<Rightarrow> bool" where
  "byte_arrays z st \<longleftrightarrow> z_rng z (zs_pkt st) = 8 \<and>
     (\<forall>s. z_rng z (bss_of st s) = 8 \<and> z_dom z (bss_of st s) = BSS_ADDR_BITS)"

definition cell_of :: "(int option \<Rightarrow> val option \<Rightarrow> int) \<Rightarrow> access \<Rightarrow> cell" where
  "cell_of key loc =
     (if ac_region loc = Some REGION_PKT then Pkt_cell (ac_off loc)
      else if ac_region loc = Some REGION_MAP then Map_cell (ac_map_id loc) (key (ac_map_id loc) (ac_map_key loc)) (ac_off loc)
      else Bss_cell (ac_bss_key loc) (ac_off loc))"

lemma cell_pos_of [simp]: "cell_pos (cell_of key loc) = ac_off loc"
  by (simp add: cell_of_def)

lemma covers_cell_of:
  assumes "ac_region loc \<in> {Some REGION_PKT, Some REGION_MAP, Some REGION_BSS}"
  shows "covers key ac (cell_of key loc) \<longleftrightarrow>
     ac_region ac = ac_region loc \<and> in_range ac (ac_off loc) \<and>
     (ac_region loc = Some REGION_MAP \<longrightarrow> ac_map_id ac = ac_map_id loc \<and>
        key (ac_map_id loc) (ac_map_key ac) = key (ac_map_id loc) (ac_map_key loc)) \<and>
     (ac_region loc = Some REGION_BSS \<longrightarrow> ac_bss_key ac = ac_bss_key loc)"
  using assms by (auto simp: cell_of_def)

context smtlib begin

text \<open>Only writes that may alias a location cover it.\<close>

lemma covers_may_alias:
  assumes l: "clear_loc z (mm_st mm) loc" and w: "clear_write z (mm_st mm) w"
    and c: "covers (key_word z ev (mm_st mm) m) (access_of (a_kind w)) (cell_of (key_word z ev (mm_st mm) m) loc)"
  shows "may_alias loc (access_of (a_kind w))"
proof -
  let ?ac = "access_of (a_kind w)" and ?key = "key_word z ev (mm_st mm) m"
  have r: "ac_region loc \<in> {Some REGION_PKT, Some REGION_MAP, Some REGION_BSS}" using l by (simp add: clear_loc_def)
  note cv = c [unfolded covers_cell_of [OF r]]
  have "\<not> differ (const_of (ac_map_key loc)) (const_of (ac_map_key ?ac))" if R: "ac_region loc = Some REGION_MAP"
  proof
    assume d: "differ (const_of (ac_map_key loc)) (const_of (ac_map_key ?ac))"
    then obtain n n' where n: "const_of (ac_map_key loc) = Some n" "const_of (ac_map_key ?ac) = Some n'" "n \<noteq> n'"
      by (auto simp: differ_def)
    have "clear_key z (mm_st mm) (ac_map_id loc) (ac_map_key loc)" "clear_key z (mm_st mm) (ac_map_id loc) (ac_map_key ?ac)"
      using l w cv R by (auto simp: clear_loc_def clear_write_def Let_def)
    from key_word_const [OF this(1) n(1), of m] key_word_const [OF this(2) n(2), of m] cv R n(3) show False by simp
  qed
  moreover have "ac_var_off loc = None" "ac_var_off ?ac = None"
    using l w by (auto simp: clear_loc_def clear_write_def Let_def)
  ultimately show ?thesis using cv r by (auto simp: may_alias_def in_range_def differ_def)
qed

lemma written_byte_run:
  assumes w: "clear_write z (mm_st mm) w"
  shows "if in_range (access_of (a_kind w)) p
    then \<exists>t. written_byte z mm w p = Inr (Some t) \<and> z_size z t = 8 \<and>
      ev m t = take_bit 8 (drop_bit (8 * nat (p - ac_off (access_of (a_kind w)))) (stored z ev (mm_st mm) m (a_kind w)))
    else written_byte z mm w p = Inr None"
proof (cases "in_range (access_of (a_kind w)) p")
  case True
  let ?ac = "access_of (a_kind w)" and ?st = "mm_st mm"
  let ?n = "max (ac_size ?ac) 1 * 8"
  let ?lo = "nat (p - ac_off ?ac) * 8"
  have n: "0 < ?n" and lo: "?lo + 7 < ?n" using True by (auto simp: in_range_def max_def)
  have var: "ac_var_off ?ac = None" using w by (simp add: clear_write_def Let_def)
  obtain v where v: "expr_opt_z3 z ?st (value_of (a_kind w)) = Inr v" using w by (auto simp: clear_write_def Let_def)
  have *: "\<exists>u. (case old_of (a_kind w) of
                 None \<Rightarrow> Inr (resize z v ?n)
               | Some old \<Rightarrow> ebind (expr_to_z3 z ?st old) (\<lambda>o'. Inr (BvOp BvAdd (resize z o' ?n) (resize z v ?n)))) = Inr u \<and>
      z_size z u = ?n \<and> ev m u = stored z ev ?st m (a_kind w)"
  proof (cases "old_of (a_kind w)")
    case None
    with v n show ?thesis by (simp add: stored_def val_word_def ev_resize Let_def)
  next
    case (Some old)
    with w obtain o' where o': "expr_to_z3 z ?st old = Inr o'" by (auto simp: clear_write_def Let_def)
    with Some v n show ?thesis
      by (simp add: stored_def val_word_def expr_opt_z3_def enc_opt_def ev_resize ev_BvOp size_simps Let_def)
  qed
  then obtain u where u: "(case old_of (a_kind w) of
                 None \<Rightarrow> Inr (resize z v ?n)
               | Some old \<Rightarrow> ebind (expr_to_z3 z ?st old) (\<lambda>o'. Inr (BvOp BvAdd (resize z o' ?n) (resize z v ?n)))) = Inr u"
    "z_size z u = ?n" "ev m u = stored z ev ?st m (a_kind w)" by blast
  have "written_byte z mm w p = Inr (Some (Extract (?lo + 7) ?lo u))"
    using True var v u(1) [unfolded One_nat_def] by (simp add: written_byte_def Let_def in_range_def)
  moreover have "ev m (Extract (?lo + 7) ?lo u) = take_bit 8 (drop_bit ?lo (ev m u))"
    using ev_Extract [of ?lo "?lo + 7" u m] lo u(2) by simp
  ultimately show ?thesis using True u(3) by (simp add: size_simps mult.commute)
next
  case False
  then show ?thesis using w by (auto simp: written_byte_def Let_def in_range_def clear_write_def)
qed

lemma initial_at_run:
  assumes l: "clear_loc z (mm_st mm) loc" and b: "byte_arrays z (mm_st mm)"
  shows "\<exists>t. initial_at z mm loc = Inr (Some t) \<and> z_size z t = 8 \<and>
     ev m t = w_cells (init_world z eva evab (mm_st mm) m) (cell_of (key_word z ev (mm_st mm) m) loc)"
proof -
  consider (pkt) "ac_region loc = Some REGION_PKT" | (map) "ac_region loc = Some REGION_MAP" | (bss) "ac_region loc = Some REGION_BSS"
    using l by (auto simp: clear_loc_def)
  then show ?thesis
  proof cases
    case pkt
    with b show ?thesis
      by (simp add: initial_at_def cell_of_def init_world_def byte_arrays_def size_simps ev_Select ev_BitVecVal Let_def)
  next
    case bss
    with b show ?thesis
      by (simp add: initial_at_def cell_of_def init_world_def byte_arrays_def size_simps ev_Select ev_BitVecVal Let_def)
  next
    case map
    with l have ck: "clear_key z (mm_st mm) (ac_map_id loc) (ac_map_key loc)" and p: "0 \<le> ac_off loc"
      by (auto simp: clear_loc_def)
    from mem_key_run [OF ck, of m] obtain k where k: "mem_key z mm (ac_map_id loc) (ac_map_key loc) = Inr k"
      "key_term z (mm_st mm) (ac_map_id loc) k" "ev m k = key_word z ev (mm_st mm) m (ac_map_id loc) (ac_map_key loc)" by blast
    from k(2) obtain mp where mp: "map_at (mm_st mm) (ac_map_id loc) = Inr mp" "z_size z k = z_dom z (snd mp)"
      by (auto simp: key_term_def)
    let ?v = "Select (snd mp) k"
    have v: "z_size z ?v = z_rng z (snd mp)" "ev m ?v = eva m (snd mp) (ev m k)" using mp(2) by (simp_all add: size_simps ev_Select)
    show ?thesis
    proof (cases "ac_off loc * 8 + 8 \<le> int (z_size z ?v)")
      case True
      then have "nat (ac_off loc) * 8 + 7 < z_size z ?v" using p by linarith
      with ev_Extract [of "nat (ac_off loc) * 8" "nat (ac_off loc) * 8 + 7" ?v m] True map p k mp v show ?thesis
        by (simp add: initial_at_def cell_of_def init_world_def size_simps Let_def)
    next
      case False
      with map p k mp v show ?thesis
        by (simp add: initial_at_def cell_of_def init_world_def size_simps ev_BitVecVal Let_def)
    qed
  qed
qed

end

end
