(* ===== verification/Replay_Read.thy ===== *)
theory Replay_Read
  imports Replay
begin

text \<open>
  Reads of the symbolic memory: the guard of a write, one byte of a location, and a whole read, as
  the bytes of the world after the writes the path has executed.  The last sections relate the
  order of the writes to the order of the blocks on a path.
\<close>

context smtlib begin

text \<open>Whether a write of the path takes effect.\<close>

lemma mem_applies_run:
  assumes o: "ordered_memory mm" and cl: "\<forall>w \<in> set (mm_presence mm). clear_presence z (mm_st mm) w"
    and cw: "clear_write z (mm_st mm) w" and u: "is_update w"
  shows "\<exists>a. mem_applies z mm w = Inr a \<and>
    (\<forall>E k. replays evb mm m E \<and> k < length E \<and> E ! k = w \<longrightarrow>
      lit_holds evb m a = update_ok z ev evb (mm_st mm) m
        (world_run z ev evb (mm_st mm) m (init_world z eva evab (mm_st mm) m) (take k E)) w)"
proof -
  have "ac_region (access_of (a_kind w)) = Some REGION_MAP"
    using u by (auto simp: is_update_def map_access_def split: action_kind.splits)
  with cw have cp: "clear_presence z (mm_st mm) w" by (auto simp: clear_write_def clear_presence_def Let_def)
  have d: "depth_at mm (seen mm b ai) < mem_depth mm" for b ai
    using depth_bound [of mm "seen mm b ai"] by (simp add: mem_depth_def)
  obtain a where a: "mem_applies z mm w = Inr a"
    using applies_total [where pres = "mem_present z mm", OF u cp] present_total [OF o cl _ d] unfolding mem_applies_def mem_present_def by blast
  have "lit_holds evb m a = update_ok z ev evb (mm_st mm) m
      (world_run z ev evb (mm_st mm) m (init_world z eva evab (mm_st mm) m) (take k E)) w"
    if E: "replays evb mm m E" and k: "k < length E" and w: "E ! k = w" for E k
  proof (rule applies_sem [OF a [unfolded mem_applies_def] u cp])
    fix t p assume "key_term z (mm_st mm) (ac_map_id (access_of (a_kind w))) t"
      and "mem_present z mm (ac_map_id (access_of (a_kind w))) t (Some (a_block w)) (Some (a_idx w)) = Inr p"
    moreover have "has_seen evb mm m E (a_block w) (Some (a_idx w)) k" using E k w by (auto simp: replays_def)
    ultimately show "evb m p = w_pres (world_run z ev evb (mm_st mm) m (init_world z eva evab (mm_st mm) m) (take k E))
        (ac_map_id (access_of (a_kind w))) (ev m t)"
      using present_sem [OF o cl E _ d] k unfolding mem_present_def by simp
  qed
  with a show ?thesis by blast
qed

lemma write_guard_run:
  assumes o: "ordered_memory mm" and cl: "\<forall>w \<in> set (mm_presence mm). clear_presence z (mm_st mm) w"
    and l: "clear_loc z (mm_st mm) loc" and cw: "clear_write z (mm_st mm) w"
    and al: "may_alias loc (access_of (a_kind w))" and same: "\<And>x y. same x y \<Longrightarrow> x = y"
  shows "\<exists>g. write_guard z same mm loc w = Inr g \<and>
    lit_holds evb m g = (lit_holds evb m (mm_reach mm (a_block w)) \<and>
      (is_update w \<longrightarrow> (\<exists>a. mem_applies z mm w = Inr a \<and> lit_holds evb m a)) \<and>
      (ac_region loc = Some REGION_MAP \<longrightarrow>
        key_word z ev (mm_st mm) m (ac_map_id loc) (ac_map_key loc) =
        key_word z ev (mm_st mm) m (ac_map_id loc) (ac_map_key (access_of (a_kind w)))))"
proof -
  let ?ac = "access_of (a_kind w)" and ?key = "key_word z ev (mm_st mm) m" and ?r = "mm_reach mm (a_block w)"
  obtain g where g: "(if ?r \<noteq> Py False \<and> is_update w
      then ebind (mem_applies z mm w) (\<lambda>a. Inr (and_lit ?r a)) else Inr ?r) = Inr g"
    and gh: "lit_holds evb m g = (lit_holds evb m ?r \<and> (is_update w \<longrightarrow> (\<exists>a. mem_applies z mm w = Inr a \<and> lit_holds evb m a)))"
  proof (cases "is_update w")
    case True
    then obtain a where a: "mem_applies z mm w = Inr a" using mem_applies_run [OF o cl cw] by blast
    show thesis
    proof (cases "?r = Py False")
      case True
      then show thesis using that [of ?r] by simp
    next
      case False
      with a True that [of "and_lit ?r a"] show thesis by (simp add: evl_and)
    qed
  next
    case False
    then show thesis using that [of ?r] by simp
  qed
  show ?thesis
  proof (cases "ac_region loc \<noteq> Some REGION_MAP \<or> g = Py False")
    case True
    then have "write_guard z same mm loc w = Inr g" using g by (simp add: write_guard_def Let_def)
    then show ?thesis using True gh by auto
  next
    case False
    then have R: "ac_region loc = Some REGION_MAP" by simp
    have id: "ac_region ?ac = Some REGION_MAP" "ac_map_id ?ac = ac_map_id loc"
      using al R by (auto simp: may_alias_def split: if_splits)
    have ck: "clear_key z (mm_st mm) (ac_map_id loc) (ac_map_key loc)" "clear_key z (mm_st mm) (ac_map_id loc) (ac_map_key ?ac)"
      and ne: "ac_map_key loc \<noteq> None" "ac_map_key ?ac \<noteq> None"
      using l cw R id by (auto simp: clear_loc_def clear_write_def Let_def)
    have run: "write_guard z same mm loc w =
       (if const_of (ac_map_key loc) \<noteq> None \<and> const_of (ac_map_key ?ac) \<noteq> None \<or> same (ac_map_key loc) (ac_map_key ?ac) then Inr g
        else ebind (mem_key z mm (ac_map_id loc) (ac_map_key loc)) (\<lambda>k.
             ebind (mem_key z mm (ac_map_id loc) (ac_map_key ?ac)) (\<lambda>wk. Inr (and_lit g (Z (BvEq k wk))))))"
      using False ne g id(2) by (auto simp: write_guard_def Let_def)
    consider (const) "const_of (ac_map_key loc) \<noteq> None" "const_of (ac_map_key ?ac) \<noteq> None"
      | (same) "same (ac_map_key loc) (ac_map_key ?ac)"
      | (solver) "\<not> (const_of (ac_map_key loc) \<noteq> None \<and> const_of (ac_map_key ?ac) \<noteq> None)"
          "\<not> same (ac_map_key loc) (ac_map_key ?ac)" by blast
    then show ?thesis
    proof cases
      case const
      then obtain n n' where n: "const_of (ac_map_key loc) = Some n" "const_of (ac_map_key ?ac) = Some n'" by blast
      with al R have "n = n'" by (auto simp: may_alias_def differ_def split: if_splits)
      then have "?key (ac_map_id loc) (ac_map_key loc) = ?key (ac_map_id loc) (ac_map_key ?ac)"
        using key_word_const [OF ck(1) n(1), of m] key_word_const [OF ck(2) n(2), of m] by simp
      with const run gh show ?thesis by simp
    next
      case same
      with assms(6) have "ac_map_key loc = ac_map_key ?ac" by blast
      with same run gh show ?thesis by simp
    next
      case solver
      from mem_key_run [OF ck(1), of m] obtain k where k: "mem_key z mm (ac_map_id loc) (ac_map_key loc) = Inr k"
        "key_term z (mm_st mm) (ac_map_id loc) k" "ev m k = ?key (ac_map_id loc) (ac_map_key loc)" by blast
      from mem_key_run [OF ck(2), of m] obtain k' where k': "mem_key z mm (ac_map_id loc) (ac_map_key ?ac) = Inr k'"
        "key_term z (mm_st mm) (ac_map_id loc) k'" "ev m k' = ?key (ac_map_id loc) (ac_map_key ?ac)" by blast
      have "evb m (BvEq k k') = (ev m k = ev m k')" by (rule evb_BvEq [OF key_term_size [OF k(2) k'(2)]])
      moreover have "write_guard z same mm loc w = Inr (and_lit g (Z (BvEq k k')))" using run solver k(1) k'(1) by auto
      ultimately show ?thesis using gh R k(3) k'(3) by (auto simp: evl_and)
    qed
  qed
qed

lemma byte_step_run:
  fixes m :: 'm
  assumes o: "ordered_memory mm" and cl: "\<forall>w \<in> set (mm_presence mm). clear_presence z (mm_st mm) w"
    and l: "clear_loc z (mm_st mm) loc" and cw: "clear_write z (mm_st mm) w" and same: "\<And>x y. same x y \<Longrightarrow> x = y"
  defines "key \<equiv> key_word z ev (mm_st mm) m"
  shows "\<exists>t'. byte_step z same mm vis loc t w = Inr t' \<and>
    (z_size z t = 8 \<longrightarrow> z_size z t' = 8 \<and>
     ev m t' = (if (vis w \<and> lit_holds evb m (mm_reach mm (a_block w))) \<and> covers key (access_of (a_kind w)) (cell_of key loc) \<and>
         (is_update w \<longrightarrow> (\<exists>a. mem_applies z mm w = Inr a \<and> lit_holds evb m a))
       then take_bit 8 (drop_bit (8 * nat (ac_off loc - ac_off (access_of (a_kind w)))) (stored z ev (mm_st mm) m (a_kind w)))
       else ev m t))"
proof (cases "vis w \<and> may_alias loc (access_of (a_kind w))")
  case True
  let ?ac = "access_of (a_kind w)"
  have r: "ac_region loc \<in> {Some REGION_PKT, Some REGION_MAP, Some REGION_BSS}" using l by (simp add: clear_loc_def)
  have cv: "covers key ?ac (cell_of key loc) \<longleftrightarrow> in_range ?ac (ac_off loc) \<and>
      (ac_region loc = Some REGION_MAP \<longrightarrow> key (ac_map_id loc) (ac_map_key ?ac) = key (ac_map_id loc) (ac_map_key loc))"
  proof -
    have "ac_region ?ac = ac_region loc" and "ac_region loc = Some REGION_MAP \<Longrightarrow> ac_map_id ?ac = ac_map_id loc"
      and "ac_region loc = Some REGION_BSS \<Longrightarrow> \<not> differ (ac_bss_key loc) (ac_bss_key ?ac)"
      using True r by (auto simp: may_alias_def split: if_splits)
    moreover from this have "ac_region loc = Some REGION_BSS \<Longrightarrow> ac_bss_key ?ac = ac_bss_key loc"
      using l cw by (auto simp: differ_def clear_loc_def clear_write_def Let_def)
    ultimately show ?thesis unfolding covers_cell_of [OF r] by auto
  qed
  show ?thesis
  proof (cases "in_range ?ac (ac_off loc)")
    case in_r: True
    with written_byte_run [OF cw, of "ac_off loc" m] obtain v where v: "written_byte z mm w (ac_off loc) = Inr (Some v)"
      "z_size z v = 8" "ev m v = take_bit 8 (drop_bit (8 * nat (ac_off loc - ac_off ?ac)) (stored z ev (mm_st mm) m (a_kind w)))"
      by auto
    obtain g where g: "write_guard z same mm loc w = Inr g"
      "lit_holds evb m g = (lit_holds evb m (mm_reach mm (a_block w)) \<and>
        (is_update w \<longrightarrow> (\<exists>a. mem_applies z mm w = Inr a \<and> lit_holds evb m a)) \<and>
        (ac_region loc = Some REGION_MAP \<longrightarrow> key (ac_map_id loc) (ac_map_key loc) = key (ac_map_id loc) (ac_map_key ?ac)))"
      using write_guard_run [OF o cl l cw conjunct2 [OF True] same, where m = m] unfolding key_def by blast
    have "byte_step z same mm vis loc t w = Inr (choose_bv g v t)" using True v(1) g(1) by (simp add: byte_step_def)
    then show ?thesis
      using choose_bv_run [where t = v and old = t and g = g] v(2,3) True in_r unfolding cv by (auto simp: g(2))
  next
    case False
    with written_byte_run [OF cw, of "ac_off loc" m] True have "byte_step z same mm vis loc t w = Inr t"
      by (simp add: byte_step_def)
    with False cv show ?thesis by simp
  qed
next
  case False
  then have "byte_step z same mm vis loc t w = Inr t" by (auto simp: byte_step_def)
  moreover have "\<not> (vis w \<and> covers key (access_of (a_kind w)) (cell_of key loc))"
    using covers_may_alias [OF l cw] False unfolding key_def by blast
  ultimately show ?thesis by auto
qed

end

section \<open>Reads\<close>

text \<open>The number whose bytes are \<open>f 0, f 1, ...\<close>, little-endian.\<close>

fun bytes_word :: "(nat \<Rightarrow> int) \<Rightarrow> nat \<Rightarrow> int" where
  "bytes_word f 0 = 0"
| "bytes_word f (Suc n) = bytes_word f n + push_bit (8 * n) (f n)"

lemma concat_bytes_word: "concat_sem (rev (map (\<lambda>i. (8, f i)) [0..<n])) = bytes_word f n"
proof (induction n)
  case (Suc n)
  have "sum_list (map fst (rev (map (\<lambda>i. (8::nat, f i)) [0..<n]))) = 8 * n"
    by (simp add: comp_def rev_map sum_list_triv)
  with Suc show ?case by simp
qed simp

text \<open>Accesses to one object: the packet, the values of one map, or the globals.\<close>

definition same_object :: "access \<Rightarrow> access \<Rightarrow> bool" where
  "same_object loc ac \<longleftrightarrow> ac_region ac = ac_region loc \<and>
     (ac_region loc = Some REGION_MAP \<longrightarrow> ac_map_id ac = ac_map_id loc)"

definition clear_memory :: "z3_queries \<Rightarrow> memory \<Rightarrow> access \<Rightarrow> bool" where
  "clear_memory z mm loc \<longleftrightarrow>
     ordered_memory mm \<and> byte_arrays z (mm_st mm) \<and> clear_loc z (mm_st mm) loc \<and>
     (\<forall>w \<in> set (mm_presence mm). clear_presence z (mm_st mm) w) \<and>
     (\<forall>w \<in> set (mm_writes mm). same_object loc (access_of (a_kind w)) \<longrightarrow> clear_write z (mm_st mm) w)"

context smtlib begin

lemma byte_at_run:
  fixes m :: 'm
  assumes mm: "clear_memory z mm loc"
    and same: "\<And>x y. same x y \<Longrightarrow> x = y"
  defines "key \<equiv> key_word z ev (mm_st mm) m"
    and "W \<equiv> world_run z ev evb (mm_st mm) m (init_world z eva evab (mm_st mm) m)"
  shows "\<exists>t. byte_at z same mm (seen mm b ai) loc = Inr (Some t) \<and> z_size z t = 8 \<and>
    (\<forall>E j. replays evb mm m E \<and> has_seen evb mm m E b ai j \<and> j \<le> length E \<longrightarrow>
       ev m t = w_cells (W (take j E)) (cell_of key loc))"
proof -
  have o: "ordered_memory mm" and ba: "byte_arrays z (mm_st mm)" and l: "clear_loc z (mm_st mm) loc"
    and cl: "\<forall>w \<in> set (mm_presence mm). clear_presence z (mm_st mm) w"
    and cw: "\<And>w. w \<in> set (mm_writes mm) \<Longrightarrow> same_object loc (access_of (a_kind w)) \<Longrightarrow> clear_write z (mm_st mm) w"
    using mm by (auto simp: clear_memory_def)
  let ?c = "cell_of key loc" and ?step = "byte_step z same mm (seen mm b ai) loc"
  let ?before = "\<lambda>w. seen mm b ai w \<and> lit_holds evb m (mm_reach mm (a_block w))"
  let ?byte = "\<lambda>w. take_bit 8 (drop_bit (8 * nat (ac_off loc - ac_off (access_of (a_kind w)))) (stored z ev (mm_st mm) m (a_kind w)))"
  let ?on = "\<lambda>w. covers key (access_of (a_kind w)) ?c \<and> (is_update w \<longrightarrow> (\<exists>a. mem_applies z mm w = Inr a \<and> lit_holds evb m a))"
  let ?g = "\<lambda>x w. if ?before w \<and> ?on w then ?byte w else x"
  from initial_at_run [OF l ba, of m] obtain t0 where t0: "initial_at z mm loc = Inr (Some t0)" "z_size z t0 = 8"
    "ev m t0 = w_cells (init_world z eva evab (mm_st mm) m) ?c" unfolding key_def by blast
  have step: "\<exists>t'. ?step t w = Inr t' \<and> (z_size z t = 8 \<longrightarrow> z_size z t' = 8 \<and> ev m t' = ?g (ev m t) w)"
    if "w \<in> set (mm_writes mm)" for t w
  proof (cases "same_object loc (access_of (a_kind w))")
    case True
    then show ?thesis
      using byte_step_run [OF o cl l, of w same "seen mm b ai" t m] cw that same unfolding key_def by simp
  next
    case False
    then have "\<not> may_alias loc (access_of (a_kind w))" "\<not> covers key (access_of (a_kind w)) ?c"
      using l covers_cell_of [of loc key "access_of (a_kind w)"]
      by (auto simp: may_alias_def same_object_def clear_loc_def)
    then show ?thesis by (simp add: byte_step_def)
  qed
  obtain t where t: "efoldl ?step t0 (mm_writes mm) = Inr t"
    using efoldl_total [of "mm_writes mm" ?step t0] step by blast
  then have R: "z_size z t = 8 \<and> ev m t = foldl ?g (ev m t0) (mm_writes mm)"
    by (rule efoldl_related [where R = "\<lambda>t x. z_size z t = 8 \<and> ev m t = x"]) (use step t0 in force)+
  have "ev m t = w_cells (W (take j E)) ?c"
    if E: "replays evb mm m E" and sees: "has_seen evb mm m E b ai j" and j: "j \<le> length E" for E j
  proof -
    have "foldl ?g (ev m t0) (mm_writes mm) = foldl ?g (ev m t0) (filter ?before (mm_writes mm))"
      by (rule foldl_filter) auto
    also have "filter ?before (mm_writes mm) = filter (\<lambda>w. ac_region (access_of (a_kind w)) \<noteq> None) (take j E)"
      using sees by (simp add: has_seen_def Let_def)
    also have "foldl ?g (ev m t0) (filter (\<lambda>w. ac_region (access_of (a_kind w)) \<noteq> None) (take k E)) = w_cells (W (take k E)) ?c"
      if "k \<le> j" for k
      using that
    proof (induction k)
      case 0
      then show ?case using t0(3) by (simp add: W_def world_run_def)
    next
      case (Suc k)
      then have k: "k < length E" "k < j" using j by simp_all
      let ?w = "E ! k"
      have Wk: "W (take (Suc k) E) = world_step z ev evb (mm_st mm) m (W (take k E)) ?w"
        using k(1) by (simp add: W_def world_run_def take_Suc_conv_app_nth)
      show ?case
      proof (cases "ac_region (access_of (a_kind ?w))")
        case None
        then have "\<not> covers key (access_of (a_kind ?w)) ?c" by (cases ?c) simp_all
        with None Suc show ?thesis by (simp add: take_filter_snoc [OF k(1)] Wk world_step_def Let_def key_def)
      next
        case (Some r)
        have "?w \<in> set (filter (\<lambda>w. ac_region (access_of (a_kind w)) \<noteq> None) (take j E))"
          using Some k nth_mem [of k "take j E"] j by simp
        then have "?w \<in> set (filter ?before (mm_writes mm))" using sees unfolding has_seen_def Let_def by simp
        then have w: "?w \<in> set (mm_writes mm)" "?before ?w" by auto
        show ?thesis
        proof (cases "same_object loc (access_of (a_kind ?w))")
          case False
          then have "\<not> covers key (access_of (a_kind ?w)) ?c"
            using l covers_cell_of [of loc key "access_of (a_kind ?w)"] by (auto simp: same_object_def clear_loc_def)
          with Suc Some show ?thesis by (simp add: take_filter_snoc [OF k(1)] Wk world_step_def Let_def key_def)
        next
          case same: True
        have ok: "(is_update ?w \<longrightarrow> (\<exists>a. mem_applies z mm ?w = Inr a \<and> lit_holds evb m a)) =
            update_ok z ev evb (mm_st mm) m (W (take k E)) ?w"
        proof (cases "is_update ?w")
          case True
          then show ?thesis
            using mem_applies_run [OF o cl, of ?w m] cw [OF w(1) same] E k(1) unfolding W_def by fastforce
        next
          case False
          then show ?thesis by (auto simp: is_update_def update_ok_def split: action_kind.splits)
        qed
        show ?thesis using Suc w(2) Some
          unfolding take_filter_snoc [OF k(1)] Wk world_step_def Let_def ok [symmetric]
          by (auto simp: key_def)
        qed
      qed
    qed
    finally show ?thesis using R by simp
  qed
  with t R t0(1) show ?thesis by (simp add: byte_at_def)
qed

end

end
