(* ===== verification/Replay_Path.thy ===== *)
theory Replay_Path
  imports Replay_Read
begin

text \<open>
  The reads of \<open>hornet/verify/slice.py\<close> along an executed path: whole reads as the bytes of the
  world, the order of the recorded writes against the order of the blocks, and the properties of
  \<open>Memory\<close> and \<open>Phis\<close>.
\<close>

lemma cell_of_size: "cell_of key (loc\<lparr>ac_off := p, ac_size := n\<rparr>) = cell_of key (loc\<lparr>ac_off := p\<rparr>)"
  by (simp add: cell_of_def)

context smtlib begin

lemma mem_read_run:
  fixes m :: 'm
  assumes mm: "clear_memory z mm loc" and sz: "0 < ac_size loc" and same: "\<And>x y. same x y \<Longrightarrow> x = y"
  defines "key \<equiv> key_word z ev (mm_st mm) m"
    and "W \<equiv> world_run z ev evb (mm_st mm) m (init_world z eva evab (mm_st mm) m)"
  shows "\<exists>t. mem_read_at z same mm loc b i = Inr (Some t) \<and> z_size z t = 8 * ac_size loc \<and>
    (\<forall>E j. replays evb mm m E \<and> has_seen evb mm m E b (Some i) j \<and> j \<le> length E \<longrightarrow>
       ev m t = bytes_word (\<lambda>n. w_cells (W (take j E)) (cell_of key (loc\<lparr>ac_off := ac_off loc + int n\<rparr>))) (ac_size loc))"
proof -
  let ?loc = "\<lambda>n. loc\<lparr>ac_off := ac_off loc + int n, ac_size := 1\<rparr>"
  let ?f = "\<lambda>n. byte_at z same mm (\<lambda>w. visible mm w b i) (?loc n)"
  let ?n = "ac_size loc"
  have vis: "(\<lambda>w. visible mm w b i) = seen mm b (Some i)" by (simp add: seen_def fun_eq_iff)
  have byte: "\<exists>t. ?f n = Inr (Some t) \<and> z_size z t = 8 \<and>
    (\<forall>E j. replays evb mm m E \<and> has_seen evb mm m E b (Some i) j \<and> j \<le> length E \<longrightarrow>
       ev m t = w_cells (W (take j E)) (cell_of key (loc\<lparr>ac_off := ac_off loc + int n\<rparr>)))" for n
  proof -
    have "clear_memory z mm (?loc n)"
      using mm by (simp add: clear_memory_def clear_loc_def same_object_def)
    then show ?thesis unfolding vis key_def W_def cell_of_size [where n = 1, symmetric] by (rule byte_at_run) (rule same)
  qed
  obtain ts where ts: "emap ?f [0..<?n] = Inr ts" using emap_total [of "[0..<?n]" ?f] byte by blast
  have len: "length ts = ?n" using emap_length [OF ts] by simp
  have nth: "ts ! n \<noteq> None \<and> z_size z (the (ts ! n)) = 8 \<and>
    (\<forall>E j. replays evb mm m E \<and> has_seen evb mm m E b (Some i) j \<and> j \<le> length E \<longrightarrow>
       ev m (the (ts ! n)) = w_cells (W (take j E)) (cell_of key (loc\<lparr>ac_off := ac_off loc + int n\<rparr>)))" if "n < ?n" for n
    using byte [of n] emap_nth [OF ts, of n] that by force
  have ne: "None \<notin> set ts" using nth len by (metis in_set_conv_nth)
  let ?bs = "rev (map the ts)"
  have bs: "?bs \<noteq> []" using len sz by auto
  obtain t where t: "concat_or_single ?bs = Inr t" "z_size z t = sum_list (map (z_size z) ?bs)"
    "ev m t = concat_sem (map (\<lambda>t. (z_size z t, ev m t)) ?bs)" using concat_or_single_ev [OF bs, of m] by blast
  have szs: "map (z_size z) (map the ts) = replicate ?n 8" using nth len by (intro nth_equalityI) auto
  have "mem_read_at z same mm loc b i = Inr (Some t)" using ts ne t(1) by (simp add: mem_read_at_def)
  moreover have "z_size z t = 8 * ?n" using t(2) szs by (simp add: rev_map [symmetric] sum_list_replicate flip: map_map)
  moreover have "ev m t = bytes_word (\<lambda>n. w_cells (W (take j E)) (cell_of key (loc\<lparr>ac_off := ac_off loc + int n\<rparr>))) ?n"
    if "replays evb mm m E" "has_seen evb mm m E b (Some i) j" "j \<le> length E" for E j
  proof -
    have "map (\<lambda>t. (z_size z t, ev m t)) (map the ts) =
        map (\<lambda>n. (8, w_cells (W (take j E)) (cell_of key (loc\<lparr>ac_off := ac_off loc + int n\<rparr>)))) [0..<?n]"
      using nth len that by (intro nth_equalityI) auto
    then show ?thesis using t(3) by (simp add: rev_map [symmetric] concat_bytes_word [symmetric] flip: map_map)
  qed
  ultimately show ?thesis by blast
qed

end

section \<open>The order of the writes and the path\<close>

text \<open>What the tracker guarantees of the actions of a block.\<close>

definition stamped_blocks :: "tblock list \<Rightarrow> bool" where
  "stamped_blocks blocks \<longleftrightarrow>
     (\<forall>q < length blocks. (\<forall>a \<in> set (t_actions (blocks ! q)). a_block a = int q) \<and>
        sorted_wrt (\<lambda>a a'. a_idx a < a_idx a') (t_actions (blocks ! q)))"

text \<open>
  \<open>ps\<close> is the path that an assignment takes to block \<open>b\<close>: the blocks whose condition holds, each an
  ancestor of the next; and the blocks are numbered so that ancestors come first.
\<close>

definition taken_path :: "('m \<Rightarrow> bt \<Rightarrow> bool) \<Rightarrow> memory \<Rightarrow> 'm \<Rightarrow> tblock list \<Rightarrow> nat list \<Rightarrow> nat \<Rightarrow> bool" where
  "taken_path evb mm m blocks ps b \<longleftrightarrow>
     sorted_wrt (\<lambda>p q. p < q \<and> int p \<in> mm_anc mm (int q)) ps \<and> b < length blocks \<and>
     (\<forall>p q. q \<in> mm_anc mm p \<longrightarrow> 0 \<le> q \<and> q < p) \<and>
     (\<forall>q. q \<in> set ps \<longleftrightarrow> (q = b \<or> int q \<in> mm_anc mm (int b)) \<and> lit_holds evb m (mm_reach mm (int q)))"

definition path_actions :: "tblock list \<Rightarrow> nat list \<Rightarrow> nat \<Rightarrow> int option \<Rightarrow> action list" where
  "path_actions blocks ps b i =
     concat (map (\<lambda>p. filter (\<lambda>a. p = b \<longrightarrow> (case i of None \<Rightarrow> True | Some i \<Rightarrow> a_idx a < i)) (t_actions (blocks ! p))) ps)"

lemma sorted_take_filter:
  assumes "sorted_wrt R xs" and "k < length xs" and "\<And>x y. R x y \<Longrightarrow> \<not> R y x" and "\<And>x. \<not> R x x"
  shows "filter (\<lambda>x. R x (xs ! k)) xs = take k xs"
proof -
  have "filter (\<lambda>x. R x (xs ! k)) (take k xs) = take k xs"
    using assms(1,2) by (intro filter_True) (auto simp: in_set_conv_nth sorted_wrt_iff_nth_less)
  moreover have "filter (\<lambda>x. R x (xs ! k)) (drop k xs) = []"
  proof (intro filter_False ballI)
    fix x assume "x \<in> set (drop k xs)"
    then obtain i where "i < length xs - k" "x = xs ! (k + i)" by (auto simp: in_set_conv_nth)
    then obtain j where j: "k \<le> j" "j < length xs" "x = xs ! j" by (metis less_diff_conv2 le_add1 less_diff_conv add.commute)
    show "\<not> R x (xs ! k)" using j assms by (cases "k = j") (auto simp: sorted_wrt_iff_nth_less)
  qed
  ultimately show ?thesis by (metis append_take_drop_id append_Nil2 filter_append)
qed

definition earlier :: "action \<Rightarrow> action \<Rightarrow> bool" where
  "earlier a a' \<longleftrightarrow> a_block a < a_block a' \<or> a_block a = a_block a' \<and> a_idx a < a_idx a'"

lemma all_actions_sorted:
  assumes "stamped_blocks blocks"
  shows "sorted_wrt earlier (all_actions blocks)"
proof -
  have "sorted_wrt earlier (concat (map (\<lambda>q. t_actions (blocks ! q)) [0..<n]))" if "n \<le> length blocks" for n
    using that
  proof (induction n)
    case (Suc n)
    have st: "sorted_wrt (\<lambda>a a'. a_idx a < a_idx a') (t_actions (blocks ! n))" "\<forall>a \<in> set (t_actions (blocks ! n)). a_block a = int n"
      using assms Suc.prems by (simp_all add: stamped_blocks_def)
    have "sorted_wrt earlier (t_actions (blocks ! n))"
      by (rule sorted_wrt_mono_rel [OF _ st(1)]) (simp add: earlier_def st(2))
    moreover have "earlier a a'" if "q < n" "a \<in> set (t_actions (blocks ! q))" "a' \<in> set (t_actions (blocks ! n))" for q a a'
    proof -
      have "a_block a = int q" "a_block a' = int n"
        using assms Suc.prems that unfolding stamped_blocks_def by (auto simp: Suc_le_eq)
      with that show ?thesis by (simp add: earlier_def)
    qed
    ultimately show ?case using Suc by (auto simp: sorted_wrt_append)
  qed simp
  moreover have "map (\<lambda>q. t_actions (blocks ! q)) [0..<length blocks] = map t_actions blocks"
    by (intro nth_equalityI) auto
  ultimately show ?thesis unfolding all_actions_def by (metis order_refl)
qed

lemma concat_map_if: "concat (map (\<lambda>q. if P q then g q else []) qs) = concat (map g (filter P qs))"
  by (induction qs) auto

lemma taken_path_ltI:
  assumes "taken_path evb mm m blocks ps b" and "p \<in> set ps" and "q \<in> set ps" and "p < q"
  shows "int p \<in> mm_anc mm (int q)"
proof -
  have s: "sorted_wrt (\<lambda>p q. p < q \<and> int p \<in> mm_anc mm (int q)) ps" using assms(1) by (simp add: taken_path_def)
  obtain i j where "i < length ps" "j < length ps" "p = ps ! i" "q = ps ! j"
    using assms(2,3) by (auto simp: in_set_conv_nth)
  moreover from this s assms(4) have "i < j"
    by (metis (mono_tags, lifting) not_less_iff_gr_or_eq order_less_asym sorted_wrt_iff_nth_less)
  ultimately show ?thesis using s by (simp add: sorted_wrt_iff_nth_less)
qed

lemma taken_path_filter:
  assumes "taken_path evb mm m blocks ps b"
  shows "filter (\<lambda>q. q \<in> set ps) [0..<length blocks] = ps"
proof -
  have s: "sorted_wrt (<) ps"
    by (rule sorted_wrt_mono_rel [of ps "\<lambda>p q. p < q \<and> int p \<in> mm_anc mm (int q)"])
       (use assms in \<open>simp_all add: taken_path_def\<close>)
  have "q < length blocks" if "q \<in> set ps" for q
  proof -
    have "int q \<in> mm_anc mm (int b) \<Longrightarrow> int q < int b" and "q = b \<or> int q \<in> mm_anc mm (int b)" and "b < length blocks"
      using assms that unfolding taken_path_def by blast+
    then show ?thesis by auto
  qed
  then have "set (filter (\<lambda>q. q \<in> set ps) [0..<length blocks]) = set ps" by auto
  moreover have "sorted ps" "distinct ps" using s by (simp_all add: strict_sorted_iff)
  moreover have "sorted (filter (\<lambda>q. q \<in> set ps) [0..<length blocks])" "distinct (filter (\<lambda>q. q \<in> set ps) [0..<length blocks])"
    using sorted_filter [of "\<lambda>x. x" "[0..<length blocks]"] by simp_all
  ultimately show ?thesis using sorted_distinct_set_unique by blast
qed

lemma stamped_actionE:
  assumes "stamped_blocks blocks" and "w \<in> set (all_actions blocks)"
  obtains q where "q < length blocks" and "w \<in> set (t_actions (blocks ! q))" and "a_block w = int q"
proof -
  from assms(2) obtain bl where "bl \<in> set blocks" and w: "w \<in> set (t_actions bl)" by (auto simp: all_actions_def)
  then obtain q where q: "q < length blocks" "bl = blocks ! q" by (metis in_set_conv_nth)
  with w assms(1) have "a_block w = int q" by (simp add: stamped_blocks_def)
  with q w show thesis by (intro that) simp_all
qed

text \<open>A memory over stamped blocks, an assignment and the path it takes.\<close>

definition path_memory ::
  "('m \<Rightarrow> bt \<Rightarrow> bool) \<Rightarrow> memory \<Rightarrow> 'm \<Rightarrow> tblock list \<Rightarrow> nat list \<Rightarrow> nat \<Rightarrow> z3_state \<Rightarrow> (int \<Rightarrow> int set) \<Rightarrow> (int \<Rightarrow> lit) \<Rightarrow> bool" where
  "path_memory evb mm m blocks ps b st anc reach \<longleftrightarrow>
     mm = new_memory st blocks anc reach \<and> stamped_blocks blocks \<and> ordered_memory mm \<and> taken_path evb mm m blocks ps b"

definition executed :: "('m \<Rightarrow> bt \<Rightarrow> bool) \<Rightarrow> memory \<Rightarrow> 'm \<Rightarrow> tblock list \<Rightarrow> nat \<Rightarrow> int option \<Rightarrow> action list" where
  "executed evb mm m blocks b ai = filter (\<lambda>w. seen mm (int b) ai w \<and> lit_holds evb m (mm_reach mm (a_block w))) (all_actions blocks)"

lemma not_false: "lit_holds evb m g \<Longrightarrow> g \<noteq> Py False"
  by (auto simp: lit_holds_def)

lemma executed_path:
  assumes pm: "path_memory evb mm m blocks ps b st anc reach"
  shows "executed evb mm m blocks b ai = path_actions blocks ps b ai"
proof -
  have stamped: "stamped_blocks blocks" and ordered: "ordered_memory mm" and path: "taken_path evb mm m blocks ps b"
    using pm by (auto simp: path_memory_def)
  let ?F = "\<lambda>w. seen mm (int b) ai w \<and> lit_holds evb m (mm_reach mm (a_block w))"
  let ?G = "\<lambda>p. filter (\<lambda>a. p = b \<longrightarrow> (case ai of None \<Rightarrow> True | Some i \<Rightarrow> a_idx a < i)) (t_actions (blocks ! p))"
  have "filter ?F (t_actions (blocks ! q)) = (if q \<in> set ps then ?G q else [])" if q: "q < length blocks" for q
  proof -
    have "?F w \<longleftrightarrow> q \<in> set ps \<and> (q = b \<longrightarrow> (case ai of None \<Rightarrow> True | Some i \<Rightarrow> a_idx w < i))"
      if w: "w \<in> set (t_actions (blocks ! q))" for w
    proof -
      have a: "a_block w = int q" using stamped q w by (simp add: stamped_blocks_def)
      have nb: "int b \<notin> mm_anc mm (int b)" using path by (auto simp: taken_path_def)
      have "q \<in> set ps \<longleftrightarrow> (q = b \<or> int q \<in> mm_anc mm (int b)) \<and> lit_holds evb m (mm_reach mm (int q))"
        using path by (simp add: taken_path_def)
      then show ?thesis using a nb not_false [of evb m "mm_reach mm (int q)"]
        by (cases ai) (auto simp: seen_def visible_def ran_before_def not_le)
    qed
    then have "filter ?F (t_actions (blocks ! q)) =
        filter (\<lambda>w. q \<in> set ps \<and> (q = b \<longrightarrow> (case ai of None \<Rightarrow> True | Some i \<Rightarrow> a_idx w < i))) (t_actions (blocks ! q))"
      by (intro filter_cong) auto
    then show ?thesis by simp
  qed
  then have "map (\<lambda>q. filter ?F (t_actions (blocks ! q))) [0..<length blocks] =
      map (\<lambda>q. if q \<in> set ps then ?G q else []) [0..<length blocks]" by simp
  moreover have "map (filter ?F) (map t_actions blocks) = map (\<lambda>q. filter ?F (t_actions (blocks ! q))) [0..<length blocks]"
    by (intro nth_equalityI) auto
  ultimately have "executed evb mm m blocks b ai = concat (map (\<lambda>q. if q \<in> set ps then ?G q else []) [0..<length blocks])"
    by (simp only: executed_def all_actions_def filter_concat)
  then show ?thesis by (simp add: concat_map_if taken_path_filter [OF path] path_actions_def)
qed

lemma before_executed:
  assumes pm: "path_memory evb mm m blocks ps b st anc reach" and w: "w \<in> set (executed evb mm m blocks b ai)" and w': "w' \<in> set (all_actions blocks)"
  shows "seen mm (a_block w) (Some (a_idx w)) w' \<and> lit_holds evb m (mm_reach mm (a_block w')) \<longleftrightarrow>
    earlier w' w \<and> seen mm (int b) ai w' \<and> lit_holds evb m (mm_reach mm (a_block w'))"
proof -
  have stamped: "stamped_blocks blocks" and ordered: "ordered_memory mm" and path: "taken_path evb mm m blocks ps b"
    using pm by (auto simp: path_memory_def)
  have sw: "seen mm (int b) ai w" "lit_holds evb m (mm_reach mm (a_block w))" and al: "w \<in> set (all_actions blocks)"
    using w by (auto simp: executed_def)
  obtain q where q: "a_block w = int q" using stamped_actionE [OF stamped al] by blast
  obtain q' where q': "a_block w' = int q'" using stamped_actionE [OF stamped w'] by blast
  have num: "\<forall>p q. q \<in> mm_anc mm p \<longrightarrow> 0 \<le> q \<and> q < p" using path by (simp add: taken_path_def)
  have in_ps: "p \<in> set ps" if "a_block x = int p" "seen mm (int b) ai x" "lit_holds evb m (mm_reach mm (a_block x))" for p x
    using path that by (cases ai) (auto simp: taken_path_def seen_def visible_def ran_before_def)
  show ?thesis
  proof
    assume l: "seen mm (a_block w) (Some (a_idx w)) w' \<and> lit_holds evb m (mm_reach mm (a_block w'))"
    then have v: "visible mm w' (a_block w) (a_idx w)" by (simp add: seen_def)
    then have "earlier w' w" using num by (auto simp: visible_def earlier_def)
    with seen_trans [OF ordered sw(1) v] l show "earlier w' w \<and> seen mm (int b) ai w' \<and> lit_holds evb m (mm_reach mm (a_block w'))"
      by blast
  next
    assume r: "earlier w' w \<and> seen mm (int b) ai w' \<and> lit_holds evb m (mm_reach mm (a_block w'))"
    have "a_block w' \<in> mm_anc mm (a_block w)" if "a_block w' < a_block w"
      using taken_path_ltI [OF path in_ps [OF q'] in_ps [OF q]] r sw that q q' by simp
    with r show "seen mm (a_block w) (Some (a_idx w)) w' \<and> lit_holds evb m (mm_reach mm (a_block w'))"
      using not_false [of evb m "mm_reach mm (a_block w')"] num by (auto simp: seen_def visible_def earlier_def)
  qed
qed

lemma executed_before:
  assumes pm: "path_memory evb mm m blocks ps b st anc reach" and k: "k < length (executed evb mm m blocks b ai)"
  shows "filter (\<lambda>w. seen mm (a_block (executed evb mm m blocks b ai ! k)) (Some (a_idx (executed evb mm m blocks b ai ! k))) w \<and>
     lit_holds evb m (mm_reach mm (a_block w))) (all_actions blocks) = take k (executed evb mm m blocks b ai)"
proof -
  have stamped: "stamped_blocks blocks" and ordered: "ordered_memory mm" and path: "taken_path evb mm m blocks ps b"
    using pm by (auto simp: path_memory_def)
  let ?w = "executed evb mm m blocks b ai ! k"
  have "filter (\<lambda>w. seen mm (a_block ?w) (Some (a_idx ?w)) w \<and> lit_holds evb m (mm_reach mm (a_block w))) (all_actions blocks) =
      filter (\<lambda>w'. earlier w' ?w \<and> seen mm (int b) ai w' \<and> lit_holds evb m (mm_reach mm (a_block w'))) (all_actions blocks)"
    using before_executed [OF pm nth_mem [OF k]] by (intro filter_cong) auto
  also have "\<dots> = filter (\<lambda>w'. earlier w' ?w) (executed evb mm m blocks b ai)" by (simp add: executed_def conj_commute)
  also have "\<dots> = take k (executed evb mm m blocks b ai)"
  proof (rule sorted_take_filter [OF _ k])
    show "sorted_wrt earlier (executed evb mm m blocks b ai)"
      using all_actions_sorted [OF stamped] unfolding executed_def by (rule sorted_wrt_filter)
  qed (auto simp: earlier_def)
  finally show ?thesis .
qed

lemma filter_swap: "filter P (filter Q xs) = filter Q (filter P xs)"
  by (simp add: conj_commute)

lemma mem_lists:
  assumes pm: "path_memory evb mm m blocks ps b st anc reach"
  shows "mm_presence mm = filter (\<lambda>a. presence_of (a_kind a) \<noteq> None) (all_actions blocks)"
    and "mm_writes mm = filter (\<lambda>a. ac_region (access_of (a_kind a)) \<noteq> None) (all_actions blocks)"
  using assms by (simp_all add: path_memory_def new_memory_def)

lemma executed_replays:
  assumes pm: "path_memory evb mm m blocks ps b st anc reach"
  shows "replays evb mm m (executed evb mm m blocks b ai)"
  unfolding replays_def
proof (intro allI impI)
  fix k assume k: "k < length (executed evb mm m blocks b ai)"
  show "has_seen evb mm m (executed evb mm m blocks b ai) (a_block (executed evb mm m blocks b ai ! k)) (Some (a_idx (executed evb mm m blocks b ai ! k))) k"
    unfolding has_seen_def Let_def mem_lists [OF pm]
    using executed_before [OF pm k, THEN arg_cong [where f = "filter _"]]
    by (subst (1 2) filter_swap) (intro conjI)
qed

lemma executed_seen:
  assumes pm: "path_memory evb mm m blocks ps b st anc reach"
  shows "has_seen evb mm m (executed evb mm m blocks b ai) (int b) ai (length (executed evb mm m blocks b ai))"
  unfolding has_seen_def Let_def mem_lists [OF pm] by (simp add: executed_def conj_commute)

section \<open>Claims\<close>

text \<open>
  Claim C12.  A read of the symbolic memory is a read of the memory, under four conditions: the actions are
  recorded by block and in order, as the tracker does (\<open>stamped_blocks\<close>); the blocks are numbered
  so that ancestors come first (without this it is false, as an instance below shows); the blocks whose condition the assignment satisfies form a path to the block of the read (\<open>taken_path\<close>); and the
  recorded writes to the region read are at constant offsets and, like the keys of map updates and of the
  read, encode (\<open>clear_memory\<close>).  Then reading a range of the packet, of a map value or of a global at
  an instruction does not fail; and under the assignment the term built has the value of the bytes found there
  after executing, in order, the writes of the taken path that precede the instruction, with every map
  update taking effect by its flags and by the presence of its key at that moment.
\<close>

theorem memory_read_replays:
  assumes "smtlib z ev evb eva evab" and "mm = new_memory st blocks anc reach" and "stamped_blocks blocks"
    and "taken_path evb mm m blocks ps b" and "clear_memory z mm loc" and "0 < ac_size loc"
    and "\<forall>x y. same x y \<longrightarrow> x = y"
  shows "\<exists>t. mem_read_at z same mm loc (int b) i = Inr (Some t) \<and> z_size z t = 8 * ac_size loc \<and>
    ev m t = bytes_word (\<lambda>n. w_cells (world_run z ev evb st m (init_world z eva evab st m)
        (path_actions blocks ps b (Some i))) (cell_of (key_word z ev st m) (loc\<lparr>ac_off := ac_off loc + int n\<rparr>))) (ac_size loc)"
proof -
  have st: "mm_st mm = st" by (simp add: assms(2) new_memory_def)
  have "ordered_memory mm" using assms(5) by (simp add: clear_memory_def)
  then have p: "path_memory evb mm m blocks ps b st anc reach" using assms(2-4) by (simp add: path_memory_def)
  obtain t where t: "mem_read_at z same mm loc (int b) i = Inr (Some t)" "z_size z t = 8 * ac_size loc"
    and v: "\<forall>E j. replays evb mm m E \<and> has_seen evb mm m E (int b) (Some i) j \<and> j \<le> length E \<longrightarrow>
       ev m t = bytes_word (\<lambda>n. w_cells (world_run z ev evb st m (init_world z eva evab st m) (take j E))
         (cell_of (key_word z ev st m) (loc\<lparr>ac_off := ac_off loc + int n\<rparr>))) (ac_size loc)"
    using smtlib.mem_read_run [OF assms(1,5,6), of same "int b" i m] assms(7) unfolding st by blast
  from v executed_replays [OF p, of "Some i"] executed_seen [OF p, of "Some i"] t show ?thesis
    unfolding executed_path [OF p] by fastforce
qed

text \<open>
  Claim C13.  Presence in a map follows the writes of the path.  When the actions are recorded by block and in
  order, as the tracker does (\<open>stamped_blocks\<close>), the blocks are numbered so that ancestors come first, the blocks whose condition the assignment satisfies form a path to the block
  (\<open>taken_path\<close>), and the keys of the recorded updates and deletions encode (\<open>clear_presence\<close>), asking
  whether a key is in a map at an instruction or at the end of the block never exhausts the recursion of
  \<open>present\<close> and \<open>_applies\<close>, and under the assignment the answer is whether the key is present after the
  updates and deletions that the taken path has executed.
\<close>

theorem memory_present_replays:
  assumes "smtlib z ev evb eva evab" and "mm = new_memory st blocks anc reach" and "stamped_blocks blocks"
    and "taken_path evb mm m blocks ps b" and "ordered_memory mm"
    and "\<forall>w \<in> set (mm_presence mm). clear_presence z st w" and "key_term z st mid t"
  shows "\<exists>p. mem_present z mm mid t (Some (int b)) i = Inr p \<and>
    evb m p = w_pres (world_run z ev evb st m (init_world z eva evab st m) (path_actions blocks ps b i)) mid (ev m t)"
proof -
  have st: "mm_st mm = st" by (simp add: assms(2) new_memory_def)
  have p: "path_memory evb mm m blocks ps b st anc reach" using assms(2-5) by (simp add: path_memory_def)
  have d: "depth_at mm (seen mm (int b) i) < mem_depth mm"
    using depth_bound [of mm "seen mm (int b) i"] by (simp add: mem_depth_def)
  from smtlib.present_total [OF assms(1,5), of mid t] d assms(6,7) obtain q where
    q: "mem_present z mm mid t (Some (int b)) i = Inr q" unfolding mem_present_def st by blast
  from smtlib.present_sem [OF assms(1,5) _ executed_replays [OF p, of i], of mid t "int b" i "mem_depth mm" _ q] d assms(6,7)
    executed_seen [OF p, of i] q
  have "evb m q = w_pres (world_run z ev evb st m (init_world z eva evab st m) (executed evb mm m blocks b i)) mid (ev m t)"
    unfolding mem_present_def st by fastforce
  with q show ?thesis unfolding executed_path [OF p] by blast
qed

text \<open>
  Two blocks: the first writes two packet bytes and inserts a key, the second overwrites one byte and
  deletes the key.
\<close>

definition replay_block :: "nat \<Rightarrow> (int \<times> action_kind) list \<Rightarrow> tblock" where
  "replay_block n acts = (new_tblock (new_bblock n n n))
     \<lparr>t_actions := map (\<lambda>(i, k). \<lparr>a_block = int n, a_idx = i, a_kind = k\<rparr>) acts\<rparr>"

definition replay_blocks :: "tblock list" where
  "replay_blocks =
     [replay_block 0 [(1, PktWrite 0 0 None 2 (Some (Num 0x1234 2 (-1)))),
        (2, MapUpdate (Some 0) (Some (Num 7 4 (-1))) (Some (Num 9 8 (-1))) (Some 0) 8)],
      replay_block 1 [(4, PktWrite 0 1 None 1 (Some (Num 0xAB 1 (-1)))),
        (5, MapDelete (Some 0) (Some (Num 7 4 (-1))))]]"

definition replay_memory :: memory where
  "replay_memory = new_memory (make_init_state demo_maps demo_maps) replay_blocks (\<lambda>b. if b = 1 then {0} else {}) (\<lambda>_. Py True)"

lemmas replay_defs = replay_memory_def replay_blocks_def replay_block_def new_memory_def all_actions_def new_tblock_def
  bblock.extend_def new_bblock_def access_of.simps pkt_access_def map_access_def no_access_def

lemma replay_stamped: "stamped_blocks replay_blocks"
  by (simp add: stamped_blocks_def replay_defs All_less_Suc numeral_2_eq_2)

lemma replay_path: "taken_path evb replay_memory m replay_blocks [0, 1] 1"
  by (auto simp: taken_path_def replay_defs lit_holds_def split: if_splits)

lemma replay_ordered: "ordered_memory replay_memory"
  by (auto simp: ordered_memory_def replay_defs split: if_splits)

lemma replay_key: "clear_key std_queries (make_init_state demo_maps demo_maps) (Some 0) (Some (Num 7 4 (-1)))"
  by (auto simp: clear_key_def make_init_state_def demo_maps_def map_at_def py_nth_def py_index_def std_queries_def
    expr_opt_z3_def enc_opt_def const_of_def num_of_def is_array_map_def map_type_in_def map_info_of_def ARRAY_MAP_TYPES_def)

lemma replay_presence: "\<forall>w \<in> set (mm_presence replay_memory). clear_presence std_queries (make_init_state demo_maps demo_maps) w"
  using replay_key by (simp add: replay_defs clear_presence_def)

lemma replay_clear: "clear_memory std_queries replay_memory (pkt_access 0 None 2)"
proof -
  have "\<forall>w \<in> set (mm_writes replay_memory). clear_write std_queries (mm_st replay_memory) w"
    using replay_key by (auto simp: replay_defs clear_write_def expr_opt_z3_def enc_opt_def)
  moreover have "byte_arrays std_queries (mm_st replay_memory)"
    by (simp add: replay_defs byte_arrays_def make_init_state_def bss_of_def std_queries_def split: option.splits)
  moreover have "mm_st replay_memory = make_init_state demo_maps demo_maps" by (simp add: replay_defs)
  ultimately show ?thesis using replay_ordered replay_presence
    by (simp add: clear_memory_def clear_loc_def pkt_access_def no_access_def)
qed

theorem memory_read_replays_witness:
  "\<exists>t. mem_read_at std_queries (=) replay_memory (pkt_access 0 None 2) 1 9 = Inr (Some t) \<and> eval_bv demo_env t = 0xAB34"
proof -
  have "bytes_word (\<lambda>n. w_cells (world_run std_queries eval_bv eval_b (make_init_state demo_maps demo_maps) demo_env
        (init_world std_queries eval_a eval_ab (make_init_state demo_maps demo_maps) demo_env)
        (path_actions replay_blocks [0, 1] 1 (Some 9)))
        (cell_of (key_word std_queries eval_bv (make_init_state demo_maps demo_maps) demo_env)
          (pkt_access 0 None 2\<lparr>ac_off := ac_off (pkt_access 0 None 2) + int n\<rparr>))) (ac_size (pkt_access 0 None 2)) = 0xAB34"
    by code_simp
  moreover have "0 < ac_size (pkt_access 0 None 2)" by (simp add: pkt_access_def)
  ultimately show ?thesis
    using memory_read_replays [where same = "(=)" and i = 9 and m = demo_env, OF smtlib_std replay_memory_def replay_stamped replay_path replay_clear]
    by auto
qed

theorem memory_present_replays_witness:
  "\<exists>p q. mem_present std_queries replay_memory (Some 0) (BitVecVal 7 32) (Some 1) (Some 5) = Inr p \<and> eval_b demo_env p \<and>
     mem_present std_queries replay_memory (Some 0) (BitVecVal 7 32) (Some 1) None = Inr q \<and> \<not> eval_b demo_env q"
proof -
  let ?st = "make_init_state demo_maps demo_maps"
  have k: "key_term std_queries ?st (Some 0) (BitVecVal 7 32)"
    by (simp add: key_term_def make_init_state_def demo_maps_def map_at_def py_nth_def py_index_def std_queries_def)
  have v: "w_pres (world_run std_queries eval_bv eval_b ?st demo_env (init_world std_queries eval_a eval_ab ?st demo_env)
      (path_actions replay_blocks [0, 1] 1 (Some 5))) (Some 0) (eval_bv demo_env (BitVecVal 7 32))"
    "\<not> w_pres (world_run std_queries eval_bv eval_b ?st demo_env (init_world std_queries eval_a eval_ab ?st demo_env)
      (path_actions replay_blocks [0, 1] 1 None)) (Some 0) (eval_bv demo_env (BitVecVal 7 32))" by code_simp+
  show ?thesis
    using memory_present_replays [where i = "Some 5" and m = demo_env,
        OF smtlib_std replay_memory_def replay_stamped replay_path replay_ordered replay_presence k]
      memory_present_replays [where i = None and m = demo_env,
        OF smtlib_std replay_memory_def replay_stamped replay_path replay_ordered replay_presence k] v by auto
qed

text \<open>
  Block 2 runs before block 1: the path is 0, 2, 1, as after a jump backwards that closes no loop.
  Both write the first byte of the packet.
\<close>

definition backward_blocks :: "int \<Rightarrow> int \<Rightarrow> tblock list" where
  "backward_blocks v w =
     [replay_block 0 [], replay_block 1 [(3, PktWrite 0 0 None 1 (Some (Num w 1 (-1))))],
      replay_block 2 [(7, PktWrite 0 0 None 1 (Some (Num v 1 (-1))))]]"

definition backward_memory :: "int \<Rightarrow> int \<Rightarrow> memory" where
  "backward_memory v w = new_memory (make_init_state [] []) (backward_blocks v w)
     (\<lambda>b. if b = 1 then {0, 2} else if b = 2 then {0} else {}) (\<lambda>_. Py True)"

text \<open>
  Claim C32.  The numbering of the blocks matters.  \<open>Memory\<close> applies the writes in the order of the
  block list, not of the path.  When a block with a higher number runs first, a read at the end of the
  later block gives the byte that the earlier block wrote, although the later block has overwritten it.
\<close>

theorem memory_order_stale:
  "\<exists>t. mem_read_at std_queries (=) (backward_memory v w) (pkt_access 0 None 1) 1 9 = Inr (Some t) \<and>
     eval_bv m t = take_bit 8 v \<and>
     w_cells (world_run std_queries eval_bv eval_b (make_init_state [] []) m
       (init_world std_queries eval_a eval_ab (make_init_state [] []) m)
       (path_actions (backward_blocks v w) [0, 2, 1] 1 (Some 9))) (Pkt_cell 0) = take_bit 8 w"
proof -
  have w: "mm_writes (backward_memory v w) =
      [\<lparr>a_block = 1, a_idx = 3, a_kind = PktWrite 0 0 None 1 (Some (Num w 1 (-1)))\<rparr>,
       \<lparr>a_block = 2, a_idx = 7, a_kind = PktWrite 0 0 None 1 (Some (Num v 1 (-1)))\<rparr>]"
    and st: "mm_st (backward_memory v w) = make_init_state [] []"
    by (simp_all add: backward_memory_def backward_blocks_def replay_defs)
  have vis: "visible (backward_memory v w) \<lparr>a_block = 1, a_idx = 3, a_kind = k\<rparr> 1 9"
    "visible (backward_memory v w) \<lparr>a_block = 2, a_idx = 7, a_kind = k\<rparr> 1 9"
    and g: "mm_reach (backward_memory v w) b = Py True" for k b
    by (simp_all add: visible_def backward_memory_def new_memory_def)
  have "mem_read_at std_queries (=) (backward_memory v w) (pkt_access 0 None 1) 1 9 =
      Inr (Some (Extract 7 0 (BitVecVal v 8)))"
    by (simp add: mem_read_at_def byte_at_def initial_at_def pkt_access_def no_access_def w st byte_step_def vis may_alias_def
        written_byte_def expr_opt_z3_def enc_opt_def write_guard_def g is_update_def choose_bv_def concat_or_single_def
        resize_def std_queries_def Let_def)
  moreover have "eval_bv m (Extract 7 0 (BitVecVal v 8)) = take_bit 8 v" by simp
  moreover have "path_actions (backward_blocks v w) [0, 2, 1] 1 (Some 9) =
      [\<lparr>a_block = 2, a_idx = 7, a_kind = PktWrite 0 0 None 1 (Some (Num v 1 (-1)))\<rparr>,
       \<lparr>a_block = 1, a_idx = 3, a_kind = PktWrite 0 0 None 1 (Some (Num w 1 (-1)))\<rparr>]"
    by (simp add: path_actions_def backward_blocks_def replay_defs)
  ultimately show ?thesis
    by (simp add: world_run_def world_step_def update_ok_def pkt_access_def no_access_def in_range_def stored_def val_word_def
        expr_opt_z3_def enc_opt_def Let_def)
qed

section \<open>The value of a join\<close>

lemma select_term_Cons: "ts \<noteq> [] \<Longrightarrow> select_term ((g, t) # ts) = choose_bv g t (select_term ts)"
  by (simp add: select_term_def)

lemma select_term_single: "select_term [(g, t)] = t"
  by (simp add: select_term_def)

context smtlib begin

lemma select_term_size:
  "ts \<noteq> [] \<Longrightarrow> \<forall>(g, t) \<in> set ts. z_size z t = 64 \<Longrightarrow> z_size z (select_term ts) = 64"
proof (induction ts rule: list_nonempty_induct)
  case (single a)
  then show ?case by (cases a) (simp add: select_term_single)
next
  case (cons a ts)
  obtain g t where a: "a = (g, t)" by (cases a)
  have "z_size z (select_term ts) = 64" and "z_size z t = 64" using cons a by auto
  then show ?case by (simp add: a select_term_Cons [OF cons(1)] choose_bv_run(1))
qed

lemma select_term_run:
  assumes "ts \<noteq> []" and "\<forall>(g, t) \<in> set ts. z_size z t = 64" and "(g, t) \<in> set ts" and "lit_holds evb m g"
    and "\<forall>(g', t') \<in> set ts. lit_holds evb m g' \<longrightarrow> ev m t' = ev m t"
  shows "ev m (select_term ts) = ev m t"
  using assms
proof (induction ts rule: list_nonempty_induct)
  case (single a)
  then show ?case by (cases a) (simp add: select_term_single)
next
  case (cons a ts)
  obtain g1 t1 where a: "a = (g1, t1)" by (cases a)
  have "z_size z (select_term ts) = 64" "z_size z t1 = 64" using select_term_size [OF cons(1)] cons.prems(1) a by auto
  then have c: "ev m (select_term (a # ts)) = (if lit_holds evb m g1 then ev m t1 else ev m (select_term ts))"
    by (simp add: a select_term_Cons [OF cons(1)] choose_bv_run(2))
  show ?case
  proof (cases "lit_holds evb m g1")
    case True
    with c cons.prems(4) a show ?thesis by auto
  next
    case False
    then have "(g, t) \<in> set ts" using cons.prems(2,3) a by auto
    with cons.IH cons.prems c False show ?thesis by simp
  qed
qed

lemma phi_terms_run:
  assumes "\<forall>(v, es) \<in> set (zip (jv_values j) (jv_edges j)). (\<exists>(p, k) \<in> set es. guard_of p k \<noteq> Py False) \<longrightarrow>
    (\<exists>t. expr_opt_z3 z st v = Inr t)"
  shows "\<exists>ts. phi_terms z st guard_of j = Inr ts \<and>
    (\<forall>g t. (g, t) \<in> set ts \<longleftrightarrow> (\<exists>(v, es) \<in> set (zip (jv_values j) (jv_edges j)). \<exists>u.
       g = or_all (map (\<lambda>(p, k). guard_of p k) es) \<and> g \<noteq> Py False \<and> expr_opt_z3 z st v = Inr u \<and> t = resize z u 64))"
proof -
  let ?f = "\<lambda>ts (v, es).
       let g = or_all (map (\<lambda>(p, k). guard_of p k) es) in
       if g = Py False then Inr ts
       else ebind (expr_opt_z3 z st v) (\<lambda>t. Inr (ts @ [(g, resize z t 64)]))"
  have or_False: "or_all gs = Py False" if "\<forall>g \<in> set gs. g = Py False" for gs
  proof -
    have "filter (\<lambda>t. t \<noteq> Py False) gs = []" using that by simp
    then show ?thesis by (simp add: or_all_def Let_def)
  qed
  have "\<exists>ts. efoldl ?f ts0 ves = Inr ts \<and> (\<forall>g t. (g, t) \<in> set ts \<longleftrightarrow> (g, t) \<in> set ts0 \<or> (\<exists>(v, es) \<in> set ves. \<exists>u.
       g = or_all (map (\<lambda>(p, k). guard_of p k) es) \<and> g \<noteq> Py False \<and> expr_opt_z3 z st v = Inr u \<and> t = resize z u 64))"
    if "\<forall>(v, es) \<in> set ves. (\<exists>(p, k) \<in> set es. guard_of p k \<noteq> Py False) \<longrightarrow> (\<exists>t. expr_opt_z3 z st v = Inr t)" for ts0 ves
    using that
  proof (induction ves arbitrary: ts0)
    case (Cons a ves)
    obtain v es where a: "a = (v, es)" by (cases a)
    let ?g = "or_all (map (\<lambda>(p, k). guard_of p k) es)"
    show ?case
    proof (cases "?g = Py False")
      case True
      with Cons.IH [of ts0] Cons.prems show ?thesis by (auto simp: a Let_def)
    next
      case False
      then have "\<exists>(p, k) \<in> set es. guard_of p k \<noteq> Py False"
        using or_False [of "map (\<lambda>(p, k). guard_of p k) es"] by (auto simp: case_prod_unfold)
      with Cons.prems obtain u where u: "expr_opt_z3 z st v = Inr u" by (auto simp: a)
      from Cons.IH [of "ts0 @ [(?g, resize z u 64)]"] Cons.prems obtain ts where
        "efoldl ?f (ts0 @ [(?g, resize z u 64)]) ves = Inr ts"
        "\<forall>g t. (g, t) \<in> set ts \<longleftrightarrow> (g, t) \<in> set (ts0 @ [(?g, resize z u 64)]) \<or> (\<exists>(v, es) \<in> set ves. \<exists>u.
         g = or_all (map (\<lambda>(p, k). guard_of p k) es) \<and> g \<noteq> Py False \<and> expr_opt_z3 z st v = Inr u \<and> t = resize z u 64)"
        by auto
      with False u show ?thesis by (intro exI [of _ ts]) (auto simp: a Let_def)
    qed
  qed simp
  from this [OF assms, of "[]"] show ?thesis by (simp add: phi_terms_def)
qed

lemma phi_value_run:
  assumes a: "jv_oid j \<notin> active" and len: "length (jv_values j) = length (jv_edges j)"
    and enc: "\<forall>(v, es) \<in> set (zip (jv_values j) (jv_edges j)). (\<exists>(p, k) \<in> set es. guard_of p k \<noteq> Py False) \<longrightarrow>
      (\<exists>t. expr_opt_z3 z st v = Inr t)"
    and i: "i < length (jv_edges j)" and p: "(p, k) \<in> set (jv_edges j ! i)" "lit_holds evb m (guard_of p k)"
    and others: "\<forall>i' < length (jv_edges j). \<forall>(p', k') \<in> set (jv_edges j ! i'). lit_holds evb m (guard_of p' k') \<longrightarrow>
      take_bit 64 (val_word z ev st m (jv_values j ! i')) = take_bit 64 (val_word z ev st m (jv_values j ! i))"
  shows "\<exists>t. phi_value z st guard_of active j = Inr t \<and> z_size z t = 64 \<and>
    ev m t = take_bit 64 (val_word z ev st m (jv_values j ! i))"
proof -
  let ?g = "\<lambda>es. or_all (map (\<lambda>(p, k). guard_of p k) es)" and ?zs = "zip (jv_values j) (jv_edges j)"
  have g: "lit_holds evb m (?g es) = (\<exists>(p, k) \<in> set es. lit_holds evb m (guard_of p k))" for es
    by (simp add: evl_or_all case_prod_unfold)
  obtain ts where ts: "phi_terms z st guard_of j = Inr ts"
    and mem: "\<And>g t. (g, t) \<in> set ts \<longleftrightarrow> (\<exists>(v, es) \<in> set ?zs. \<exists>u.
       g = ?g es \<and> g \<noteq> Py False \<and> expr_opt_z3 z st v = Inr u \<and> t = resize z u 64)"
    using phi_terms_run [OF enc] by blast
  let ?es = "jv_edges j ! i" and ?v = "jv_values j ! i"
  have vi: "(?v, ?es) \<in> set ?zs" using i len by (auto simp: set_zip intro!: exI [of _ i])
  have gi: "lit_holds evb m (?g ?es)" using p g by auto
  then have ne: "?g ?es \<noteq> Py False" by (rule evl_not_False)
  have "guard_of p k \<noteq> Py False" using p(2) by (rule evl_not_False)
  with enc vi p(1) obtain u where u: "expr_opt_z3 z st ?v = Inr u" by blast
  have ti: "(?g ?es, resize z u 64) \<in> set ts" unfolding mem using vi ne u by blast
  have sz: "\<forall>(g, t) \<in> set ts. z_size z t = 64" using mem by auto
  have "\<forall>(g', t') \<in> set ts. lit_holds evb m g' \<longrightarrow> ev m t' = ev m (resize z u 64)"
  proof (intro ballI, clarify)
    fix g' t' assume t': "(g', t') \<in> set ts" and h: "lit_holds evb m g'"
    then obtain v es u' where v: "(v, es) \<in> set ?zs" "g' = ?g es" "expr_opt_z3 z st v = Inr u'" "t' = resize z u' 64"
      unfolding mem by blast
    then obtain i' where i': "i' < length (jv_edges j)" "v = jv_values j ! i'" "es = jv_edges j ! i'"
      using len by (auto simp: set_zip)
    obtain p' k' where "(p', k') \<in> set es" "lit_holds evb m (guard_of p' k')" using h v(2) g by blast
    with others i' have "take_bit 64 (val_word z ev st m v) = take_bit 64 (val_word z ev st m ?v)" by blast
    then show "ev m t' = ev m (resize z u 64)" using v(3,4) u by (simp add: val_word_def ev_resize)
  qed
  moreover have tne: "ts \<noteq> []" using ti by auto
  ultimately have "z_size z (select_term ts) = 64" "ev m (select_term ts) = ev m (resize z u 64)"
    using select_term_run [OF tne sz ti gi] select_term_size [OF tne sz] by blast+
  then show ?thesis using a ts u tne by (simp add: phi_value_def val_word_def ev_resize)
qed

end

text \<open>
  A join has the value of the edge that was taken.  When the values of the groups that may
  be taken encode, evaluating a join that is not being evaluated already does not fail; and under an
  assignment that takes some edge of a group, and takes edges of other groups only if their values
  agree, the term has the low 64 bits of that group's value.
\<close>

theorem phi_value_selects:
  assumes "smtlib z ev evb eva evab" and "jv_oid j \<notin> active" and "length (jv_values j) = length (jv_edges j)"
    and "\<forall>(v, es) \<in> set (zip (jv_values j) (jv_edges j)). (\<exists>(p, k) \<in> set es. guard_of p k \<noteq> Py False) \<longrightarrow>
      (\<exists>t. expr_opt_z3 z st v = Inr t)"
    and "i < length (jv_edges j)" and "(p, k) \<in> set (jv_edges j ! i)" and "lit_holds evb m (guard_of p k)"
    and "\<forall>i' < length (jv_edges j). \<forall>(p', k') \<in> set (jv_edges j ! i'). lit_holds evb m (guard_of p' k') \<longrightarrow>
      take_bit 64 (val_word z ev st m (jv_values j ! i')) = take_bit 64 (val_word z ev st m (jv_values j ! i))"
  shows "\<exists>t. phi_value z st guard_of active j = Inr t \<and> z_size z t = 64 \<and>
    ev m t = take_bit 64 (val_word z ev st m (jv_values j ! i))"
  using assms by (rule smtlib.phi_value_run)

definition demo_phi :: val where
  "demo_phi = JoinValue 4 2 0 [Some (Num 3 4 (-1)), Some (Num 8 8 (-1))] [[(0, Taken)], [(1, Fall), (0, Fall)]]"

theorem phi_value_selects_witness:
  "\<exists>t. phi_value std_queries (make_init_state [] []) (\<lambda>p k. if p = 1 then Z (Bool ''c'') else Py False) {} demo_phi = Inr t \<and>
     eval_bv demo_env t = 8"
proof -
  let ?g = "\<lambda>p (k :: edge). if p = (1::nat) then Z (Bool ''c'') else Py False"
  have l: "jv_oid demo_phi \<notin> {}" "length (jv_values demo_phi) = length (jv_edges demo_phi)" "1 < length (jv_edges demo_phi)"
    "(1, Fall) \<in> set (jv_edges demo_phi ! 1)" and h: "lit_holds eval_b demo_env (?g 1 Fall)"
    by (simp_all add: demo_phi_def lit_holds_def demo_env_def)
  have e: "\<forall>(v, es) \<in> set (zip (jv_values demo_phi) (jv_edges demo_phi)). (\<exists>(p, k) \<in> set es. ?g p k \<noteq> Py False) \<longrightarrow>
      (\<exists>t. expr_opt_z3 std_queries (make_init_state [] []) v = Inr t)"
    by (simp add: demo_phi_def expr_opt_z3_def enc_opt_def)
  have o: "\<forall>i' < length (jv_edges demo_phi). \<forall>(p', k') \<in> set (jv_edges demo_phi ! i'). lit_holds eval_b demo_env (?g p' k') \<longrightarrow>
      take_bit 64 (val_word std_queries eval_bv (make_init_state [] []) demo_env (jv_values demo_phi ! i')) =
      take_bit 64 (val_word std_queries eval_bv (make_init_state [] []) demo_env (jv_values demo_phi ! 1))"
    by (auto simp: demo_phi_def lit_holds_def less_2_cases_iff numeral_2_eq_2 less_Suc_eq)
  have "val_word std_queries eval_bv (make_init_state [] []) demo_env (jv_values demo_phi ! 1) = 8"
    by (simp add: demo_phi_def val_word_def expr_opt_z3_def enc_opt_def)
  then show ?thesis
    using phi_value_selects [where guard_of = ?g and k = Fall and m = demo_env, OF smtlib_std l(1,2) e l(3,4) _ o] h by auto
qed

end
