(* ===== verification/Merge.thy ===== *)
theory Merge
  imports Block_State "HOL-Library.Multiset"
begin

text \<open>
  Properties of the merging of predecessors in \<open>hornet/track/block.py\<close>: the recursion of
  \<open>merge_entry\<close> ends, the grouping of incoming values is a partition of the incoming edges, and a
  merged scalar selects on every edge the value that comes along it.
\<close>

section \<open>The recursion of merge-entry ends\<close>

abbreviation (input) too_deep :: error where
  "too_deep \<equiv> RuntimeError ''maximum recursion depth exceeded''"

definition avoids :: "error \<Rightarrow> 'a act \<Rightarrow> bool" where
  "avoids e m \<longleftrightarrow> (\<forall>s. m s \<noteq> Inl e)"

lemma avoids_ret: "avoids e (aret x)"
  and avoids_raise: "e' \<noteq> e \<Longrightarrow> avoids e (araise e')"
  and avoids_get: "avoids e (aget f)"
  and avoids_mod: "avoids e (amod h)"
  and avoids_new_obj: "avoids e (new_obj v)"
  and avoids_new_id: "avoids e new_ptr_id"
  and avoids_new_join: "avoids e (new_join a b c d)"
  by (simp_all add: avoids_def act_simps new_join_def)

lemma avoids_bind: "avoids e m \<Longrightarrow> (\<And>x. avoids e (f x)) \<Longrightarrow> avoids e (abind m f)"
  by (auto simp: avoids_def abind_def split: sum.split)

lemma avoids_if: "(c \<Longrightarrow> avoids e a) \<Longrightarrow> (\<not> c \<Longrightarrow> avoids e b) \<Longrightarrow> avoids e (if c then a else b)"
  and avoids_bool: "avoids e a \<Longrightarrow> avoids e b \<Longrightarrow> avoids e (case c of True \<Rightarrow> a | False \<Rightarrow> b)"
  by (simp_all split: bool.split)

lemma avoids_option:
  "avoids e a \<Longrightarrow> (\<And>x. avoids e (f x)) \<Longrightarrow> avoids e (case p of None \<Rightarrow> a | Some x \<Rightarrow> f x)"
  by (cases p) simp_all

lemma avoids_ptr:
  "(\<And>i vo mk np. avoids e (f i vo mk np)) \<Longrightarrow> avoids e d \<Longrightarrow>
   avoids e (case v of Ptr i vo mk np \<Rightarrow> f i vo mk np | _ \<Rightarrow> d)"
  by (cases v) simp_all

lemma avoids_edge:
  "(\<And>x. avoids e (f x)) \<Longrightarrow> (\<And>x. avoids e (g x)) \<Longrightarrow> (\<And>i b. avoids e (h i b)) \<Longrightarrow>
   avoids e (case c of FPtr x \<Rightarrow> f x | FPkt x \<Rightarrow> g x | FAdjust i b \<Rightarrow> h i b)"
  by (cases c) simp_all

lemma avoids_prod: "(\<And>x y. avoids e (f x y)) \<Longrightarrow> avoids e (case p of (x, y) \<Rightarrow> f x y)"
  by (cases p) simp

lemma avoids_map: "(\<And>x. x \<in> set xs \<Longrightarrow> avoids e (f x)) \<Longrightarrow> avoids e (amap f xs)"
  by (induction xs) (auto intro!: avoids_bind avoids_ret)

lemma avoids_opt: "(\<And>y. x = Some y \<Longrightarrow> avoids e (f y)) \<Longrightarrow> avoids e (aopt f x)"
  by (cases x) (auto simp: aopt_def intro!: avoids_bind avoids_ret)

lemma avoids_some: "avoids e m \<Longrightarrow> avoids e (some_act m)"
  unfolding some_act_def by (intro avoids_bind avoids_ret)

lemmas avoids_rules = avoids_ret avoids_get avoids_mod avoids_new_obj avoids_new_id avoids_new_join avoids_bind avoids_if
  avoids_bool avoids_option avoids_ptr avoids_edge avoids_prod avoids_map avoids_opt avoids_some

lemma avoids_errors:
  "avoids too_deep (araise AttributeError)" "avoids too_deep (araise IndexError)"
  by (simp_all add: avoids_raise)

lemma avoids_views: "avoids too_deep (with_nullity p n)" "avoids too_deep (with_view base p)"
  unfolding with_nullity_def with_view_def by (intro avoids_rules avoids_errors)+

lemma avoids_stamp: "avoids too_deep (stamp_null_phi p pes es rg)"
  unfolding stamp_null_phi_def add_join_def add_source_def Let_def by (intro avoids_rules)

lemma avoids_merge_ptrs: "avoids too_deep (merge_ptrs pes es rg)"
  unfolding merge_ptrs_def merge_pkt_ptrs_def merge_map_ptrs_def merge_other_ptrs_def add_join_def add_source_def
    set_pkt_facts_def Let_def
  by (intro avoids_rules avoids_errors avoids_views avoids_stamp)

lemma avoids_merge_scalars: "avoids too_deep (merge_scalars pes es rg)"
  unfolding merge_scalars_def add_join_def add_source_def Let_def by (intro avoids_rules)

lemma avoids_resolve: "avoids too_deep (resolve_entry facts c v)"
  unfolding resolve_entry_def Let_def by (intro avoids_rules avoids_views)

lemma amap_length: "amap f xs s = Inr (ys, s') \<Longrightarrow> length ys = length xs"
  by (induction xs arbitrary: ys s s') (auto elim!: abind_InrD)

lemma abind_cong_run:
  assumes "\<And>x t. m s = Inr (x, t) \<Longrightarrow> f x t = g x t"
  shows "abind m f s = abind m g s"
  using assms by (auto simp: abind_def split: sum.split)

lemma fewer_ptrs:
  assumes "length at \<noteq> length xs" and "at = filter p [0..<length xs]"
  shows "length at < length xs"
  using assms length_filter_le [of p "[0..<length xs]"] by simp

lemma merge_entry_fuel:
  assumes "length entries < n" and "length entries < k"
  shows "merge_entry_n n pes entries rg conds s = merge_entry_n k pes entries rg conds s"
  using assms
proof (induction n arbitrary: k pes entries conds s)
  case (Suc n)
  then obtain j where k: "k = Suc j" by (cases k) auto
  show ?case
    unfolding k merge_entry_n.simps Let_def
  proof (intro abind_cong_run, goal_cases)
    case (1 facts t resolved u)
    have len: "length resolved = length entries" using amap_length [OF 1(2)] by simp
    let ?es = "map the resolved"
    let ?at = "filter (\<lambda>k. is_ptr (snd (?es ! k))) [0..<length ?es]"
    have rec: "merge_entry_n n (map (\<lambda>k. pes ! k) ?at) (map (\<lambda>k. Some (?es ! k)) ?at) rg [] =
        merge_entry_n j (map (\<lambda>k. pes ! k) ?at) (map (\<lambda>k. Some (?es ! k)) ?at) rg []"
      if "length ?at \<noteq> length ?es"
    proof
      fix s'
      have "length ?at < length ?es" by (rule fewer_ptrs [OF that refl])
      then show "merge_entry_n n (map (\<lambda>k. pes ! k) ?at) (map (\<lambda>k. Some (?es ! k)) ?at) rg [] s' =
        merge_entry_n j (map (\<lambda>k. pes ! k) ?at) (map (\<lambda>k. Some (?es ! k)) ?at) rg [] s'"
        using Suc.prems k len by (intro Suc.IH) simp_all
    qed
    show ?case
      by (cases "?at \<noteq> [] \<and> length ?at \<noteq> length ?es") (simp_all only: rec simp_thms if_True if_False)
  qed
qed simp

lemma avoids_bind_run:
  assumes "avoids e m" and "\<And>x t. m s = Inr (x, t) \<Longrightarrow> avoids e (f x)"
  shows "abind m f s \<noteq> Inl e"
proof (cases "m s")
  case (Inl e')
  with assms(1) show ?thesis by (auto simp: avoids_def abind_def)
next
  case (Inr r)
  with assms(2) show ?thesis by (cases r) (simp add: avoids_def abind_def)
qed

lemma merge_entry_ends:
  "length entries < n \<Longrightarrow> avoids too_deep (merge_entry_n n pes entries rg conds)"
proof (induction n arbitrary: pes entries conds)
  case (Suc n)
  have body: "abind (amap (\<lambda>(k, v). aopt (resolve_entry facts (if conds = [] then None else conds ! k)) v)
      (enumerate 0 entries)) (\<lambda>resolved.
     if None \<in> set resolved then aret None
     else
       let entries = map the resolved;
           at = filter (\<lambda>k. is_ptr (snd (entries ! k))) [0..<length entries]
       in
       if at \<noteq> [] \<and> length at \<noteq> length entries then
         if \<not> (\<forall>v \<in> set entries. is_ptr (snd v) \<or> is_null_const (snd v)) then aret None
         else
           abind (merge_entry_n n (map (\<lambda>k. pes ! k) at) (map (\<lambda>k. Some (entries ! k)) at) rg []) (\<lambda>merged.
           case merged of
             None \<Rightarrow> aret None
           | Some mp \<Rightarrow>
               if \<not> is_ptr (snd mp) then aret None
               else
                 abind (with_nullity mp None) (\<lambda>out.
                 abind (if q_checked_null (ptr_of mp) = None then aret out
                        else
                          abind new_ptr_id (\<lambda>i.
                          case snd out of
                            Ptr info vo mk np \<Rightarrow>
                              (let out' = (fst out, Ptr (info\<lparr>q_id := i\<rparr>) vo mk np) in
                               abind (if q_type info = PTR_TO_PKT
                                      then set_pkt_facts i (q_base_id info) (snd out') else aret ()) (\<lambda>_.
                               aret out'))
                          | _ \<Rightarrow> araise AttributeError)) (\<lambda>out.
                 some_act (stamp_null_phi out pes entries rg))))
       else if entries = [] then araise IndexError
       else if is_ptr (snd (hd entries)) then merge_ptrs pes entries rg
       else merge_scalars pes entries rg) s \<noteq> Inl too_deep" for facts s
  proof (rule avoids_bind_run, goal_cases)
    case 1
    show ?case by (intro avoids_rules avoids_resolve)
  next
    case (2 resolved t)
    have len: "length resolved = length entries" using amap_length [OF 2] by simp
    let ?es = "map the resolved"
    let ?at = "filter (\<lambda>k. is_ptr (snd (?es ! k))) [0..<length ?es]"
    have rec: "?at \<noteq> [] \<and> length ?at \<noteq> length ?es \<Longrightarrow>
        avoids too_deep (merge_entry_n n (map (\<lambda>k. pes ! k) ?at) (map (\<lambda>k. Some (?es ! k)) ?at) rg [])"
      using fewer_ptrs [OF _ refl, of "\<lambda>k. is_ptr (snd (?es ! k))" ?es] Suc.prems len by (intro Suc.IH) simp
    show ?case
      unfolding Let_def set_pkt_facts_def
      by (intro avoids_rules avoids_errors avoids_views avoids_stamp avoids_merge_ptrs avoids_merge_scalars rec)
  qed
  show ?case
    unfolding avoids_def merge_entry_n.simps abind_get using body by blast
qed simp

section \<open>Grouping incoming values\<close>

definition grouped :: "('a \<Rightarrow> 'a \<Rightarrow> bool) \<Rightarrow> (pred_edge \<times> 'a) list \<Rightarrow> ('a \<times> pred_edge list) list \<Rightarrow> bool" where
  "grouped eq evs gs \<longleftrightarrow>
     (\<forall>(e, v) \<in> set evs. \<exists>g \<in> set gs. e \<in> set (snd g) \<and> eq (fst g) v) \<and>
     (\<forall>g \<in> set gs. \<forall>e \<in> set (snd g). \<exists>v. (e, v) \<in> set evs \<and> eq (fst g) v) \<and>
     mset (concat (map snd gs)) = mset (map fst evs) \<and>
     (\<forall>g \<in> set gs. fst g \<in> snd ` set evs) \<and>
     (\<forall>i < length gs. \<forall>j < i. \<not> eq (fst (gs ! j)) (fst (gs ! i)))"

lemma mset_concat_update:
  assumes "k < length gs"
  shows "mset (concat (map snd (gs[k := (v, es @ [e])]))) + mset (snd (gs ! k)) =
    mset (concat (map snd gs)) + mset es + {#e#}"
proof -
  define A B g where "A = take k gs" and "B = drop (Suc k) gs" and "g = gs ! k"
  have "gs = A @ g # B" using id_take_nth_drop [OF assms] by (simp add: A_def B_def g_def)
  moreover have "gs[k := (v, es @ [e])] = A @ (v, es @ [e]) # B"
    using upd_conv_take_nth_drop [OF assms] by (simp add: A_def B_def)
  moreover have "mset (concat (map snd (A @ (v, es @ [e]) # B))) + mset (snd g) =
    mset (concat (map snd (A @ g # B))) + mset es + {#e#}" by simp
  ultimately show ?thesis by (simp add: g_def)
qed

lemma add_group_grouped:
  assumes g: "grouped eq evs gs" and refl: "\<And>x. eq x x"
  shows "grouped eq (evs @ [(e, v)]) (add_group eq gs (e, v))"
proof (cases "find_idx (\<lambda>g. eq (fst g) v) gs")
  case None
  then have n: "\<forall>g \<in> set gs. \<not> eq (fst g) v" by (simp add: find_idx_None_iff)
  have a: "add_group eq gs (e, v) = gs @ [(v, [e])]" using None by (simp add: add_group_def)
  have "\<forall>i < length (gs @ [(v, [e])]). \<forall>j < i. \<not> eq (fst ((gs @ [(v, [e])]) ! j)) (fst ((gs @ [(v, [e])]) ! i))"
    using g n by (auto simp: grouped_def nth_append less_Suc_eq)
  moreover have "\<forall>(e', v') \<in> set (evs @ [(e, v)]). \<exists>g \<in> set (gs @ [(v, [e])]). e' \<in> set (snd g) \<and> eq (fst g) v'"
    using g refl unfolding grouped_def by fastforce
  moreover have "\<forall>g \<in> set (gs @ [(v, [e])]). \<forall>e' \<in> set (snd g). \<exists>v'. (e', v') \<in> set (evs @ [(e, v)]) \<and> eq (fst g) v'"
  proof (intro ballI)
    fix g' e' assume "g' \<in> set (gs @ [(v, [e])])" "e' \<in> set (snd g')"
    then consider "g' \<in> set gs" | "g' = (v, [e])" "e' = e" by auto
    then show "\<exists>v'. (e', v') \<in> set (evs @ [(e, v)]) \<and> eq (fst g') v'"
    proof cases
      case 1
      with g \<open>e' \<in> set (snd g')\<close> obtain v' where "(e', v') \<in> set evs" "eq (fst g') v'" unfolding grouped_def by blast
      then show ?thesis by auto
    qed (use refl in auto)
  qed
  moreover have "mset (concat (map snd (gs @ [(v, [e])]))) = mset (map fst (evs @ [(e, v)]))"
    "\<forall>g \<in> set (gs @ [(v, [e])]). fst g \<in> snd ` set (evs @ [(e, v)])"
    using g by (auto simp: grouped_def)
  ultimately show ?thesis unfolding a grouped_def by blast
next
  case (Some k)
  from find_idx_SomeD [OF this] have k: "k < length gs" "eq (fst (gs ! k)) v" by simp_all
  let ?n = "(fst (gs ! k), snd (gs ! k) @ [e])"
  let ?gs = "gs[k := ?n]"
  have a: "add_group eq gs (e, v) = ?gs" using Some by (simp add: add_group_def)
  have kin: "gs ! k \<in> set gs" using k(1) by simp
  have nin: "?n \<in> set ?gs" using k(1) by (simp add: set_update_memI)
  have old: "\<exists>g' \<in> set ?gs. fst g' = fst g \<and> set (snd g) \<subseteq> set (snd g')" if g: "g \<in> set gs" for g
  proof -
    from g obtain i where i: "i < length gs" "gs ! i = g" by (auto simp: in_set_conv_nth)
    show ?thesis
    proof (cases "i = k")
      case True
      with i nin show ?thesis by (intro bexI [of _ ?n]) auto
    next
      case False
      with i have "g \<in> set ?gs" by (metis length_list_update nth_list_update_neq nth_mem)
      then show ?thesis by (intro bexI [of _ g]) auto
    qed
  qed
  have new: "g \<in> set gs \<or> g = ?n" if "g \<in> set ?gs" for g
    using that set_update_subset_insert [of gs k ?n] by auto
  have "\<forall>(e', v') \<in> set (evs @ [(e, v)]). \<exists>g \<in> set ?gs. e' \<in> set (snd g) \<and> eq (fst g) v'"
  proof (clarsimp, intro conjI ballI, goal_cases)
    case 1
    show ?case using nin k(2) by (intro bexI [of _ ?n]) auto
  next
    case (2 x)
    then obtain h where h: "h \<in> set gs" "fst x \<in> set (snd h)" "eq (fst h) (snd x)"
      using g by (auto simp: grouped_def split_beta)
    obtain h' where "h' \<in> set ?gs" "fst h' = fst h" "set (snd h) \<subseteq> set (snd h')" using old [OF h(1)] by blast
    with h show ?case by (intro case_prodI2 bexI [of _ h']) auto
  qed
  moreover have "\<forall>g \<in> set ?gs. \<forall>e' \<in> set (snd g). \<exists>v'. (e', v') \<in> set (evs @ [(e, v)]) \<and> eq (fst g) v'"
  proof (intro ballI)
    fix g' e' assume "g' \<in> set ?gs" "e' \<in> set (snd g')"
    note ge = this
    consider h where "h \<in> set gs" "fst g' = fst h" "e' \<in> set (snd h)" | "g' = ?n" "e' = e"
    proof (cases "g' \<in> set gs")
      case True
      from that(1) [OF this HOL.refl ge(2)] show thesis .
    next
      case False
      with new [OF ge(1)] have n: "g' = ?n" by simp
      show thesis
      proof (cases "e' = e")
        case True
        with n that(2) show thesis by simp
      next
        case e: False
        have "fst g' = fst (gs ! k)" "e' \<in> set (snd (gs ! k))" using n e ge(2) by auto
        with that(1) [OF kin] show thesis by simp
      qed
    qed
    then show "\<exists>v'. (e', v') \<in> set (evs @ [(e, v)]) \<and> eq (fst g') v'"
    proof cases
      case (1 h)
      with g obtain v' where "(e', v') \<in> set evs" "eq (fst h) v'" unfolding grouped_def by blast
      with 1 show ?thesis by auto
    qed (use k(2) in auto)
  qed
  moreover have "mset (concat (map snd ?gs)) = mset (map fst (evs @ [(e, v)]))"
    using mset_concat_update [OF k(1), of "fst (gs ! k)" "snd (gs ! k)" e] g by (simp add: grouped_def)
  moreover have "\<forall>g \<in> set ?gs. fst g \<in> snd ` set (evs @ [(e, v)])"
  proof
    fix h assume "h \<in> set ?gs"
    have in_evs: "\<forall>h \<in> set gs. fst h \<in> snd ` set evs" using g unfolding grouped_def by blast
    obtain h' where "h' \<in> set gs" "fst h' = fst h"
    proof (cases "h \<in> set gs")
      case False
      with new [OF \<open>h \<in> set ?gs\<close>] have "fst (gs ! k) = fst h" by simp
      with that kin show thesis by blast
    qed (use that in blast)
    with in_evs have "fst h \<in> snd ` set evs" by force
    then show "fst h \<in> snd ` set (evs @ [(e, v)])" by auto
  qed
  moreover have "map fst ?gs = map fst gs" using k(1) by (simp add: map_update list_update_same_conv)
  then have "fst (?gs ! i) = fst (gs ! i)" if "i < length gs" for i
    using that by (metis length_list_update nth_map)
  then have "\<forall>i < length ?gs. \<forall>j < i. \<not> eq (fst (?gs ! j)) (fst (?gs ! i))"
    using g by (simp add: grouped_def)
  ultimately show ?thesis unfolding a grouped_def by blast
qed

lemma group_edges_grouped:
  assumes "\<And>x. eq x x"
  shows "grouped eq (zip pes vs) (group_edges eq pes vs)"
proof -
  have "grouped eq evs (foldl (add_group eq) [] evs)" for evs
  proof (induction evs rule: rev_induct)
    case (snoc x xs)
    then show ?case using add_group_grouped [OF snoc assms, of "fst x" "snd x"] by simp
  qed (simp add: grouped_def)
  then show ?thesis by (simp add: group_edges_def)
qed

section \<open>Merged scalars\<close>

text \<open>The value a merged scalar stands for when control comes along an edge.\<close>

definition along :: "val \<Rightarrow> pred_edge \<Rightarrow> val option" where
  "along v e =
     (case v of
        JoinValue oid blk rg vs es \<Rightarrow>
          (case find_idx (\<lambda>l. e \<in> set l) es of None \<Rightarrow> None | Some j \<Rightarrow> vs ! j)
      | _ \<Rightarrow> Some v)"

lemma grouped_along:
  assumes g: "grouped eq (zip pes vs) gs" and d: "distinct pes" and l: "length pes = length vs" and k: "k < length pes"
  shows "\<exists>j < length gs. find_idx (\<lambda>es. pes ! k \<in> set es) (map snd gs) = Some j \<and> eq (fst (gs ! j)) (vs ! k)"
proof -
  have in_zip: "(pes ! k, v) \<in> set (zip pes vs) \<longleftrightarrow> v = vs ! k" for v
    using k l d by (auto simp: set_zip nth_eq_iff_index_eq)
  obtain h where h: "h \<in> set gs" "pes ! k \<in> set (snd h)"
    using g in_zip [of "vs ! k"] unfolding grouped_def by fastforce
  then have "find_idx (\<lambda>es. pes ! k \<in> set es) (map snd gs) \<noteq> None" by (auto simp: find_idx_None_iff)
  then obtain j where j: "find_idx (\<lambda>es. pes ! k \<in> set es) (map snd gs) = Some j" by blast
  from find_idx_SomeD [OF this] have jl: "j < length gs" "pes ! k \<in> set (snd (gs ! j))" by auto
  then obtain v where "(pes ! k, v) \<in> set (zip pes vs)" "eq (fst (gs ! j)) v"
    using g nth_mem [OF jl(1)] unfolding grouped_def by blast
  with in_zip j jl(1) show ?thesis by auto
qed

lemma merge_scalars_cases:
  assumes "merge_scalars pes entries rg s = Inr (Some x, s')"
  obtains (same) "x = hd entries" "\<forall>r \<in> set entries. fst r = fst x"
    | (num) n where "x = hd entries" "num_of (snd x) = Some n" "\<forall>r \<in> set entries. num_of (snd r) = Some n"
    | (phi) oid where "snd x = JoinValue oid (int (b_num (c_blk s))) rg
        (map (\<lambda>g. Some (snd (fst g))) (group_edges (\<lambda>a b. py_eq (snd a) (snd b)) pes entries))
        (map snd (group_edges (\<lambda>a b. py_eq (snd a) (snd b)) pes entries))"
proof -
  let ?first = "hd entries"
  have "(num_of (snd ?first) \<noteq> None \<and> (\<forall>r \<in> set entries. num_of (snd r) = num_of (snd ?first))) \<and> x = ?first \<or>
     (\<forall>r \<in> set entries. fst r = fst ?first) \<and> x = ?first \<or>
     (\<exists>oid. snd x = JoinValue oid (int (b_num (c_blk s))) rg
        (map (\<lambda>g. Some (snd (fst g))) (group_edges (\<lambda>a b. py_eq (snd a) (snd b)) pes entries))
        (map snd (group_edges (\<lambda>a b. py_eq (snd a) (snd b)) pes entries)))"
    using assms unfolding merge_scalars_def Let_def add_join_def some_act_def new_join_def add_source_def
    by (simp add: abind_def split: if_splits) (auto simp: aret_def)
  then show thesis using same num phi by (elim disjE exE conjE) auto
qed

text \<open>
  Claim C31.  The recursion of \<open>merge_entry\<close> ends, with a depth of one more than the number of
  entries: any greater bound gives the same result, and the interpreter's limit is never what stops
  it, whatever the facts and the pointers are.
\<close>

theorem merge_entry_terminates:
  assumes "length entries < n"
  shows "merge_entry_n n pes entries rg conds s = merge_entry pes entries rg conds s \<and>
     merge_entry pes entries rg conds s \<noteq> Inl (RuntimeError ''maximum recursion depth exceeded'')"
  using merge_entry_fuel [OF assms lessI] merge_entry_ends [OF lessI, of entries pes rg conds]
  by (simp add: merge_entry_def avoids_def)

definition merge_at :: tctx where
  "merge_at = \<lparr>c_blk = new_tblock (new_bblock 2 5 6), c_ids = 0, c_oids = 9\<rparr>"

theorem merge_entry_terminates_witness:
  "merge_entry_n 7 [(0, Taken), (1, Fall)] [Some (1, stk_ptr), Some (2, Num 0 8 (-1))] 6 [None, None] merge_at =
   merge_entry [(0, Taken), (1, Fall)] [Some (1, stk_ptr), Some (2, Num 0 8 (-1))] 6 [None, None] merge_at"
proof -
  have "length [Some (1, stk_ptr), Some (2, Num 0 8 (-1))] < (7 :: nat)" by simp
  from merge_entry_terminates [OF this] show ?thesis by blast
qed

text \<open>
  A merged scalar selects the value of the edge that was taken.  Either all predecessors
  hold the same object or the same number, and that is the result; or the result is a new phi, and
  for every incoming edge the value it lists for the edge equals the value the predecessor holds.
\<close>

theorem merged_scalar_selects:
  assumes "merge_scalars pes entries rg s = Inr (Some x, s')" and "distinct pes" and "length pes = length entries"
    and "k < length pes"
  shows "fst (entries ! k) = fst x \<or> (\<exists>n. num_of (snd x) = Some n \<and> num_of (snd (entries ! k)) = Some n) \<or>
     (\<exists>v. along (snd x) (pes ! k) = Some v \<and> py_eq v (snd (entries ! k)))"
proof -
  have k: "entries ! k \<in> set entries" using assms(3,4) by simp
  from assms(1) show ?thesis
  proof (cases rule: merge_scalars_cases)
    case (phi oid)
    let ?gs = "group_edges (\<lambda>a b. py_eq (snd a) (snd b)) pes entries"
    have "grouped (\<lambda>a b. py_eq (snd a) (snd b)) (zip pes entries) ?gs"
      by (rule group_edges_grouped) (rule py_eq_refl_lemma)
    from grouped_along [OF this assms(2,3,4)] obtain j where
      "j < length ?gs" "find_idx (\<lambda>es. pes ! k \<in> set es) (map snd ?gs) = Some j"
      "py_eq (snd (fst (?gs ! j))) (snd (entries ! k))" by blast
    with phi show ?thesis by (simp add: along_def)
  qed (use k in auto)
qed

theorem merged_scalar_selects_witness:
  "\<exists>x s'. merge_scalars [(0, Taken), (1, Fall)] [(1, Num 3 8 (-1)), (2, Num 4 8 (-1))] 0
     \<lparr>c_blk = new_tblock (new_bblock 2 5 6), c_ids = 0, c_oids = 9\<rparr> = Inr (Some x, s') \<and>
     (\<exists>v. along (snd x) (1, Fall) = Some v \<and> py_eq v (Num 4 8 (-1)))"
proof -
  let ?r = "merge_scalars [(0, Taken), (1, Fall)] [(1, Num 3 8 (-1)), (2, Num 4 8 (-1))] 0
     \<lparr>c_blk = new_tblock (new_bblock 2 5 6), c_ids = 0, c_oids = 9\<rparr>"
  have "\<exists>x s'. ?r = Inr (Some x, s') \<and> fst x = 9 \<and> num_of (snd x) = None"
    by (simp add: merge_scalars_def is_ptr_def num_of_def add_join_def new_join_def some_act_def add_source_def abind_def
      new_tblock_def bblock.extend_def new_bblock_def Let_def)
  then obtain x s' where r: "?r = Inr (Some x, s')" and n: "fst x = 9" "num_of (snd x) = None" by blast
  from merged_scalar_selects [OF r, of 1] n r show ?thesis by auto
qed

definition map_ptr :: "int \<Rightarrow> val" where
  "map_ptr a = Ptr ((default_ptr PTR_TO_MAP)\<lparr>q_id := NO_FACT_ID, q_map_id := Some a\<rparr>) None None None"

text \<open>
  Pointers to different objects are merged into one.  Pointers to maps are compared by
  their offsets only, so when one predecessor holds map \<open>a\<close> and the other map \<open>b\<close>, the register
  is taken to hold map \<open>a\<close> on both paths, without a phi and without an error.
\<close>

theorem merge_forgets_map:
  "merge_entry [(p, Taken), (q, Fall)] [Some (i, map_ptr a), Some (j, map_ptr b)] rg [None, None] s =
   Inr (Some (i, map_ptr a), s)"
  by (simp add: merge_entry_def map_ptr_def aopt_def enumerate_eq_zip abind_def resolve_entry_def is_ptr_def ptr_of_def
    default_ptr_def merge_ptrs_def merge_other_ptrs_def fold_nullity_def with_nullity_def stamp_null_phi_def some_act_def
    ptr_info_eq_def Let_def)

end
