(* ===== verification/Tracker.thy ===== *)
theory Tracker
  imports Block_State
begin

text \<open>
  The component \<open>hornet/track/tracker.py\<close>: the symbolic execution of the blocks, in topological
  order, each instruction once.  An instruction is a transformer of the block's state (\<open>act\<close>);
  what stays fixed during a run (the instructions, maps, read-only data, program regions, and
  whether it is the brief pass) is the record \<open>tenv\<close>.  The verbose output is not modelled.
\<close>

record tenv =
  e_instrs :: "instr list"
  e_maps :: "map_info list"
  e_rodata :: "byte list"
  e_progs :: "prog_region list"
  e_brief :: bool

abbreviation (input) NO_FACT :: int where "NO_FACT \<equiv> -2"

definition aassert :: "bool \<Rightarrow> string \<Rightarrow> unit act" where
  "aassert b msg = (if b then aret () else araise (AssertionError msg))"

definition awhen :: "bool \<Rightarrow> unit act \<Rightarrow> unit act" where
  "awhen b m = (if b then m else aret ())"

text \<open>\<open>block.regs[r]\<close>, read and written.\<close>

definition get_reg :: "int \<Rightarrow> obj option act" where
  "get_reg r =
     abind (aget t_regs) (\<lambda>regs.
     case py_index regs r of None \<Rightarrow> araise IndexError | Some i \<Rightarrow> aret (regs ! i))"

definition put_reg :: "int \<Rightarrow> obj option \<Rightarrow> unit act" where
  "put_reg r v =
     abind (aget t_regs) (\<lambda>regs.
     case py_index regs r of None \<Rightarrow> araise IndexError | Some i \<Rightarrow> set_reg i v)"

definition some_obj :: "val option \<Rightarrow> obj option act" where
  "some_obj v = aopt new_obj v"

definition new_ptr_obj :: "ptr_info \<Rightarrow> val option \<Rightarrow> val option \<Rightarrow> obj act" where
  "new_ptr_obj i var_off map_key = abind (alift (new_ptr i var_off map_key)) new_obj"

section \<open>Constant analysis of helper results\<close>

definition is_ptr_to :: "obj option \<Rightarrow> int \<Rightarrow> bool" where
  "is_ptr_to x t = (case x of Some (_, Ptr i _ _ _) \<Rightarrow> q_type i = t | _ \<Rightarrow> False)"

text \<open>The result of an adjusting helper that a value is computed from, with constants only.\<close>

fun adjust_ret_in :: "val \<Rightarrow> val option" where
  "adjust_ret_in (Func_retval sz idx fn blk mid mk mki fb rd) =
     (if fn \<in> {44, 54, 65} then Some (Func_retval sz idx fn blk mid mk mki fb rd) else None)"
| "adjust_ret_in (ALUbinary op dst src ofs sz idx) =
     (if Option.bind src num_of \<noteq> None then (case dst of Some d \<Rightarrow> adjust_ret_in d | None \<Rightarrow> None)
      else if Option.bind dst num_of \<noteq> None then (case src of Some s \<Rightarrow> adjust_ret_in s | None \<Rightarrow> None)
      else None)"
| "adjust_ret_in (ALUunary op dst os im sz a64) =
     (if op = BPF_MOV then (case dst of Some d \<Rightarrow> adjust_ret_in d | None \<Rightarrow> None) else None)"
| "adjust_ret_in _ = None"

text \<open>The value when that result is \<open>ret\<close>; a shift by a negative count raises.\<close>

fun eval_at :: "val \<Rightarrow> val \<Rightarrow> int \<Rightarrow> int option res" where
  "eval_at (Func_retval sz idx fn blk mid mk mki fb rd) rv ret =
     Inr (if py_eq (Func_retval sz idx fn blk mid mk mki fb rd) rv then Some (ret AND pymask 64) else None)"
| "eval_at (Num n sz idx) rv ret = Inr (Some (n AND pymask 64))"
| "eval_at (ALUbinary op dst src ofs sz idx) rv ret =
     ebind (case dst of Some d \<Rightarrow> eval_at d rv ret | None \<Rightarrow> Inr None) (\<lambda>a.
     ebind (case src of Some s \<Rightarrow> eval_at s rv ret | None \<Rightarrow> Inr None) (\<lambda>b.
     case (a, b) of
       (Some x, Some y) \<Rightarrow> Inr (Some (arith op x y (8 * sz) (ofs = 1) AND pymask 64))
     | _ \<Rightarrow> Inr None))"
| "eval_at (ALUunary op dst os im sz a64) rv ret =
     (if op = BPF_MOV
      then ebind (case dst of Some d \<Rightarrow> eval_at d rv ret | None \<Rightarrow> Inr None) (\<lambda>a.
           case a of
             None \<Rightarrow> Inr None
           | Some x \<Rightarrow>
               if im < 1 then Inl (ValueError ''negative shift count'')
               else Inr (Some (to_signed (nat im) (x AND pymask (nat im)) AND pymask (8 * sz))))
      else Inr None)"
| "eval_at _ rv ret = Inr None"

definition jmp_taken :: "int \<Rightarrow> int \<Rightarrow> int \<Rightarrow> bool \<Rightarrow> bool res" where
  "jmp_taken code a0 b0 jmp32 =
     (let bits = (if jmp32 then 32 else 64);
          a = a0 AND pymask bits; b = b0 AND pymask bits;
          sa = to_signed bits a; sb = to_signed bits b
      in of_option KeyError (map_of
        [(BPF_JEQ, a = b), (BPF_JNE, a \<noteq> b), (BPF_JSET, a AND b \<noteq> 0),
         (BPF_JGT, a > b), (BPF_JGE, a \<ge> b), (BPF_JLT, a < b), (BPF_JLE, a \<le> b),
         (BPF_JSGT, sa > sb), (BPF_JSGE, sa \<ge> sb), (BPF_JSLT, sa < sb), (BPF_JSLE, sa \<le> sb)] code))"

section \<open>Memory accesses\<close>

definition pinfo :: "val \<Rightarrow> ptr_info" where
  "pinfo v = (case v of Ptr i _ _ _ \<Rightarrow> i | _ \<Rightarrow> default_ptr 0)"

definition pvar :: "val \<Rightarrow> val option" where
  "pvar v = (case v of Ptr _ vo _ _ \<Rightarrow> vo | _ \<Rightarrow> None)"

definition pkey :: "val \<Rightarrow> val option" where
  "pkey v = (case v of Ptr _ _ mk _ \<Rightarrow> mk | _ \<Rightarrow> None)"

definition load_ctx :: "bool \<Rightarrow> int \<Rightarrow> val \<Rightarrow> int \<Rightarrow> nat \<Rightarrow> obj option act" where
  "load_ctx brief idx ptr addr sz =
     abind (aassert (sz = 4) ''load: invalid ctx access size'') (\<lambda>_.
     case map_of [(0, PTR_TO_PKT), (4, PTR_TO_PKT_END), (8, PTR_TO_PKT_META)] addr of
       Some region \<Rightarrow>
         some_act (new_ptr_obj ((default_ptr region)\<lparr>q_id := idx, q_base_id := q_base_id (pinfo ptr)\<rparr>) None None)
     | None \<Rightarrow>
         if addr = 12 then some_act (new_obj (if brief then Scalar 8 (-1) else Ingress_ifindex))
         else if addr = 16 then some_act (new_obj (if brief then Scalar 8 (-1) else Rx_queue_index))
         else if addr = 20 then some_act (new_obj (if brief then Scalar 8 (-1) else Egress_ifindex))
         else araise (TrackError ''load: unallowed ctx access''))"

text \<open>A new value that is noted as a source, except in the brief pass.\<close>

definition load_source :: "bool \<Rightarrow> (nat \<Rightarrow> val) \<Rightarrow> obj option act" where
  "load_source brief mk =
     abind (aget b_num) (\<lambda>num.
     abind (new_obj (mk num)) (\<lambda>value.
     abind (awhen (\<not> brief) (add_source (snd value))) (\<lambda>_. aret (Some value))))"

definition load_rodata :: "val \<Rightarrow> int \<Rightarrow> nat \<Rightarrow> val" where
  "load_rodata ptr addr sz =
     (let i = pinfo ptr;
          data = (case q_rodata_data i of None \<Rightarrow> [] | Some d \<Rightarrow> d);
          base = (case q_rodata_offset i of None \<Rightarrow> 0 | Some o1 \<Rightarrow> o1) + addr
      in case pvar ptr of
           None \<Rightarrow>
             let chunk = (if 0 \<le> base then py_slice (nat base) (nat base + sz) data else [])
             in Num (from_le (chunk @ replicate (sz - length chunk) 0)) sz (-1)
         | Some v \<Rightarrow> Rodata_val data base (Some v) sz)"

text \<open>\<open>load\<close>; every caller passes a \<open>PTR\<close>.\<close>

definition load_mem :: "bool \<Rightarrow> int \<Rightarrow> val \<Rightarrow> int \<Rightarrow> nat \<Rightarrow> obj option act" where
  "load_mem brief idx ptr offset sz =
     (let i = pinfo ptr; addr = q_off i + offset; t = q_type i in
      if q_checked_null i \<noteq> Some False
      then araise (TrackError ''load: dereference of a pointer not proven non-null'')
      else if t = PTR_TO_CTX then load_ctx brief idx ptr addr sz
      else if t = PTR_TO_STK then stk_load addr sz
      else if t = PTR_TO_PKT then load_source brief (\<lambda>num. Pkt_val (int num) idx addr (pvar ptr) sz)
      else if t = PTR_TO_MAP_VALUE
      then load_source brief (\<lambda>num. Map_val (int num) idx (q_map_id i) (pkey ptr) (q_map_key_id i) addr (pvar ptr) sz)
      else if t = PTR_TO_BSS
      then load_source brief (\<lambda>num. Bss_val (int num) idx (q_bss_idx i) addr (pvar ptr) sz)
      else if t = PTR_TO_RODATA then some_act (new_obj (load_rodata ptr addr sz))
      else araise (TrackError ''load: unallowed load''))"

section \<open>Arithmetic\<close>

text \<open>\<open>trunc32\<close> and \<open>sext\<close> on objects: a value that is returned as it is stays the same object.\<close>

definition trunc_obj :: "obj option \<Rightarrow> int \<Rightarrow> obj option act" where
  "trunc_obj x idx =
     (case x of
        None \<Rightarrow> aret None
      | Some (n, v) \<Rightarrow>
          if is_ptr v \<or> num_of v = None \<and> v_size v \<le> 4 then aret x else some_obj (trunc32 (Some v) idx))"

definition sext_obj :: "obj option \<Rightarrow> int \<Rightarrow> nat \<Rightarrow> int \<Rightarrow> obj option act" where
  "sext_obj x bits sz idx = abind (alift (sext (obj_part x) bits sz idx)) some_obj"

definition expr_alu_obj ::
  "obj option \<Rightarrow> obj option \<Rightarrow> int \<Rightarrow> nat \<Rightarrow> bool \<Rightarrow> int \<Rightarrow> int \<Rightarrow> obj option act" where
  "expr_alu_obj dst src code sz brief idx ofs =
     (if expr_alu_same (obj_part dst) (obj_part src) code then aret dst
      else some_obj (expr_alu (obj_part dst) (obj_part src) code sz brief idx ofs))"

text \<open>An offset of zero where there is no variable one.\<close>

definition var_base :: "val option \<Rightarrow> val option" where
  "var_base vo = (case vo of None \<Rightarrow> Some (Num 0 8 (-1)) | Some v \<Rightarrow> Some v)"

definition num_delta :: "int \<Rightarrow> int \<Rightarrow> int" where
  "num_delta code n = (if code = BPF_ADD then n else - n)"

text \<open>The destination is a packet pointer, and the source is not one.\<close>

definition pkt_add :: "tenv \<Rightarrow> int \<Rightarrow> int \<Rightarrow> val \<Rightarrow> obj option \<Rightarrow> obj option act" where
  "pkt_add env idx code dst src =
     (let i = pinfo dst;
          new = (default_ptr PTR_TO_PKT)\<lparr>q_off := q_off i, q_id := q_id i, q_base_id := q_base_id i\<rparr>
      in
      if (case src of Some (_, v) \<Rightarrow> is_ptr v | None \<Rightarrow> False)
      then araise (AssertionError ''track_alu: unallowed arithmetic between two pointers'')
      else
        case Option.bind (obj_part src) num_of of
          Some n \<Rightarrow> some_act (new_ptr_obj (new\<lparr>q_off := q_off i + num_delta code n\<rparr>) (pvar dst) None)
        | None \<Rightarrow>
            let var_off = expr_alu (var_base (pvar dst)) (obj_part src) code 4 (e_brief env) idx 0 in
            abind new_ptr_id (\<lambda>pid.
            abind (new_ptr_obj (new\<lparr>q_id := pid\<rparr>) var_off None) (\<lambda>p.
            abind (set_pkt_facts pid (q_base_id i) (snd p)) (\<lambda>_.
            aret (Some p)))))"

text \<open>Pointer arithmetic on a pointer known to be null or known not to be.\<close>

definition ptr_alu :: "tenv \<Rightarrow> int \<Rightarrow> int \<Rightarrow> val \<Rightarrow> obj option \<Rightarrow> obj option act" where
  "ptr_alu env idx code dst src =
     (let i = pinfo dst; t = q_type i;
          src_pkt = is_ptr_to src PTR_TO_PKT;
          sv = (case src of Some (_, v) \<Rightarrow> v | None \<Rightarrow> Scalar 8 (-1));
          same_base = (q_base_id i = q_base_id (pinfo sv))
      in
      if code \<notin> {BPF_ADD, BPF_SUB} then araise (TrackError ''track_alu: unallowed arithmetic'')
      else if t = PTR_TO_PKT \<and> code = BPF_SUB \<and> src_pkt then
        if e_brief env \<or> \<not> same_base then some_act (new_obj (Scalar 8 idx))
        else
          some_obj (expr_alu (total_offset i (pvar dst)) (total_offset (pinfo sv) (pvar sv)) BPF_SUB 8 False idx 0)
      else if t = PTR_TO_PKT then pkt_add env idx code dst src
      else if t = PTR_TO_PKT_END \<and> src_pkt then
        abind (aassert (code = BPF_SUB) ''track_alu: pkt_end can only be subtracted from'') (\<lambda>_.
        if e_brief env then some_act (new_obj (Scalar 4 idx))
        else if \<not> same_base then some_act (new_obj (ALUbinary BPF_SUB (Some dst) (obj_part src) 0 4 idx))
        else
          some_obj (expr_alu (Some (Pkt_len 4 (q_base_id i))) (total_offset (pinfo sv) (pvar sv)) BPF_SUB 4 False idx 0))
      else
        case (dst, Option.bind (obj_part src) num_of) of
          (Ptr _ vo mk np, Some n) \<Rightarrow>
            some_act (new_obj (Ptr (i\<lparr>q_off := q_off i + num_delta code n\<rparr>) vo mk np))
        | (Ptr _ vo mk np, None) \<Rightarrow>
            if t \<in> VAR_OFF_REGIONS then
              some_act (new_obj (Ptr i (expr_alu (var_base vo) (obj_part src) code 8 (e_brief env) idx 0) mk np))
            else araise (TrackError ''track_alu: variable offset'')
        | _ \<Rightarrow> araise AttributeError)"

definition unary_alu :: "tenv \<Rightarrow> int \<Rightarrow> instr \<Rightarrow> nat \<Rightarrow> obj option \<Rightarrow> obj option act" where
  "unary_alu env idx ins sz dst =
     (let code = i_opcode_code ins in
      if e_brief env then some_act (new_obj (Scalar 8 idx))
      else
        case (code = BPF_NEG, Option.bind (obj_part dst) num_of) of
          (True, Some n) \<Rightarrow>
            some_act (new_obj (if sz = 8 then Num (arith BPF_NEG n 0 64 False) 8 idx
                               else Num (arith BPF_NEG n 0 32 False) 4 idx))
        | _ \<Rightarrow>
            let width = (if code = BPF_NEG then sz
                         else if i_imm ins \<in> {16, 32, 64} then nat (i_imm ins div 8) else 8)
            in some_act (new_obj (ALUunary code (obj_part dst) (Some (i_opcode_s ins)) (i_imm ins) width
                 (i_opcode_class ins = ALU64))))"

definition alu_src :: "instr \<Rightarrow> obj option \<Rightarrow> obj option act" where
  "alu_src ins reg =
     (if i_opcode_s ins = S_IMM
      then some_act (new_obj (if i_opcode_class ins = ALU64 then imm64 (i_imm ins) else Num (i_imm ins) 4 (-1)))
      else aret reg)"

definition alu_result :: "tenv \<Rightarrow> int \<Rightarrow> instr \<Rightarrow> obj option \<Rightarrow> obj option \<Rightarrow> obj option act" where
  "alu_result env idx ins src dst =
     (let code = i_opcode_code ins;
          sz = (if i_opcode_class ins = ALU64 then 8 else 4) :: nat
      in
      if code = BPF_MOV \<and> i_offset ins \<noteq> 0 then
        if e_brief env then some_act (new_obj (Scalar 8 idx)) else sext_obj src (i_offset ins) sz idx
      else if code = BPF_MOV then if sz = 8 then aret src else trunc_obj src idx
      else
        case dst of
          Some (n, Ptr i vo mk np) \<Rightarrow>
            if q_checked_null i = None then aret dst else ptr_alu env idx code (Ptr i vo mk np) src
        | _ \<Rightarrow>
            if code \<in> {BPF_NEG, BPF_END} then unary_alu env idx ins sz dst
            else
              abind (expr_alu_obj dst src code sz (e_brief env) idx
                       (if code \<in> {BPF_DIV, BPF_MOD} then i_offset ins else 0)) (\<lambda>r.
              if sz = 4 \<and> expr_alu_same (obj_part dst) (obj_part src) code then trunc_obj r idx else aret r))"

definition track_alu :: "tenv \<Rightarrow> nat \<Rightarrow> unit act" where
  "track_alu env idx =
     (let ins = e_instrs env ! idx in
      abind (get_reg (i_src_reg ins)) (\<lambda>reg.
      abind (alu_src ins reg) (\<lambda>src.
      abind (get_reg (i_dst_reg ins)) (\<lambda>dst.
      abind (alu_result env (int idx) ins src dst) (put_reg (i_dst_reg ins))))))"

section \<open>Loads and stores\<close>

definition instr_size :: "instr \<Rightarrow> nat act" where
  "instr_size ins = alift (of_option KeyError (sz_map (i_opcode_sz ins)))"

definition map_tag :: "reloc_tag \<Rightarrow> int option" where
  "map_tag t = (case t of MapTag k \<Rightarrow> Some k | _ \<Rightarrow> None)"

definition sym_tag :: "reloc_tag \<Rightarrow> string option" where
  "sym_tag t = (case t of SymTag s \<Rightarrow> Some s | _ \<Rightarrow> None)"

text \<open>
  A wide load.  The loader tags a relocation of region 0 with a map and one of region 1 with a
  symbol.
\<close>

definition load_wide :: "tenv \<Rightarrow> instr \<Rightarrow> obj option act" where
  "load_wide env ins =
     (if i_opcode_mode ins \<noteq> IMM then araise (TrackError ''track_load: invalid BPF_LD mode'')
      else
        abind (aassert (i_wide_instr ins \<and> i_src_reg ins = 0) ''track_load'') (\<lambda>_.
        if i_relocated ins then
          if i_reloc_region ins = 0
          then some_act (new_ptr_obj ((default_ptr PTR_TO_MAP)\<lparr>q_id := NO_FACT, q_map_id := map_tag (i_reloc_tag ins)\<rparr>)
                 None None)
          else if i_reloc_region ins = 1
          then some_act (new_ptr_obj ((default_ptr PTR_TO_BSS)\<lparr>q_off := i_bss_offset ins, q_id := NO_FACT,
                 q_bss_idx := sym_tag (i_reloc_tag ins)\<rparr>) None None)
          else if i_reloc_region ins = 2
          then some_act (new_ptr_obj ((default_ptr PTR_TO_RODATA)\<lparr>q_id := NO_FACT,
                 q_rodata_offset := i_rodata_offset ins, q_rodata_data := Some (e_rodata env)\<rparr>) None None)
          else aret None
        else some_act (new_obj (Num (wide_value ins) 8 (-1)))))"

definition track_load :: "tenv \<Rightarrow> nat \<Rightarrow> unit act" where
  "track_load env idx =
     (let ins = e_instrs env ! idx; cl = i_opcode_class ins; mode = i_opcode_mode ins in
      abind (instr_size ins) (\<lambda>sz.
      abind (if cl = LD then load_wide env ins
             else if cl = LDX then
               if mode \<notin> {MEM, MEMSX} then araise (TrackError ''track_load: invalid BPF_LDX mode'')
               else
                 abind (get_reg (i_src_reg ins)) (\<lambda>src.
                 case src of
                   Some (n, Ptr i vo mk np) \<Rightarrow>
                     abind (load_mem (e_brief env) (int idx) (Ptr i vo mk np) (i_offset ins) sz) (\<lambda>v.
                     if mode = MEMSX \<and> sz < 8 then sext_obj v (int (sz * 8)) 8 (int idx) else aret v)
                 | _ \<Rightarrow> araise (TrackError ''track_load: src_reg is not a PTR''))
             else aret None) (put_reg (i_dst_reg ins))))"

text \<open>A store through a pointer, by region.\<close>

definition store_mem :: "val \<Rightarrow> int \<Rightarrow> nat \<Rightarrow> obj option \<Rightarrow> unit act" where
  "store_mem ptr addr sz src =
     (let i = pinfo ptr; t = q_type i; v = obj_part src in
      if t = PTR_TO_STK then stk_store addr sz src
      else if t = PTR_TO_CTX then
        abind (aassert (addr = 16) ''track_store: only rx_queue_index is writable'') (\<lambda>_.
        abind (aassert (sz = 4) ''track_store: rx_queue_index size should be 4 bytes'') (\<lambda>_.
        emit (CtxWrite v)))
      else if t = PTR_TO_MAP_VALUE then emit (MapWrite (q_map_id i) (pkey ptr) addr sz v (pvar ptr))
      else if t = PTR_TO_BSS then emit (BssWrite (q_bss_idx i) addr sz v (pvar ptr))
      else if t = PTR_TO_PKT then emit (PktWrite (q_id i) addr (pvar ptr) sz v)
      else araise (TrackError ''track_store: unallowed store''))"

definition atomic_stack_ops :: "(int \<times> int) list" where
  "atomic_stack_ops = [(0x00, BPF_ADD), (0x40, BPF_OR), (0x50, BPF_AND), (0xa0, BPF_XOR)]"

definition atomic_stack :: "tenv \<Rightarrow> int \<Rightarrow> instr \<Rightarrow> int \<Rightarrow> nat \<Rightarrow> obj option \<Rightarrow> unit act" where
  "atomic_stack env idx ins addr sz src =
     (let atomic_op = i_imm ins AND 0xF0; fetch = (i_imm ins AND 1 \<noteq> 0) in
      abind (stk_load addr sz) (\<lambda>old.
      case map_of atomic_stack_ops atomic_op of
        Some code \<Rightarrow>
          abind (expr_alu_obj old src code (if sz = 4 then 4 else 8) (e_brief env) idx 0) (\<lambda>new.
          abind (stk_store addr sz new) (\<lambda>_.
          awhen fetch (put_reg (i_src_reg ins) old)))
      | None \<Rightarrow>
          if atomic_op = 0xe0 \<and> fetch then
            abind (stk_store addr sz src) (\<lambda>_. put_reg (i_src_reg ins) old)
          else if atomic_op = 0xf0 \<and> fetch
          then araise (TrackError ''track_store: atomic cmpxchg on the stack not implemented'')
          else araise (TrackError ''track_store: unidentified atomic op'')))"

definition atomic_mem :: "tenv \<Rightarrow> int \<Rightarrow> instr \<Rightarrow> val \<Rightarrow> nat \<Rightarrow> obj option \<Rightarrow> unit act" where
  "atomic_mem env idx ins ptr sz src =
     (let i = pinfo ptr; t = q_type i; addr = q_off i + i_offset ins;
          atomic_op = i_imm ins AND 0xF0; fetch = (i_imm ins AND 1 \<noteq> 0)
      in
      abind (load_mem (e_brief env) idx ptr (i_offset ins) sz) (\<lambda>old.
      abind (if atomic_op = 0 then
               if t = PTR_TO_MAP_VALUE
               then emit (MapAtomicAdd (q_map_id i) (pkey ptr) addr sz (obj_part src) (pvar ptr) (obj_part old))
               else emit (BssAtomicAdd (q_bss_idx i) addr sz (obj_part src) (pvar ptr) (obj_part old))
             else if atomic_op \<in> {0x40, 0x50, 0xa0, 0xe0, 0xf0}
             then araise (TrackError ''track_store: atomic op not implemented'')
             else araise (TrackError ''track_store: unidentified atomic op'')) (\<lambda>_.
      awhen fetch (put_reg (i_src_reg ins) old))))"

definition track_store :: "tenv \<Rightarrow> nat \<Rightarrow> unit act" where
  "track_store env idx =
     (let ins = e_instrs env ! idx; cl = i_opcode_class ins; mode = i_opcode_mode ins in
      abind (instr_size ins) (\<lambda>sz.
      abind (get_reg (i_src_reg ins)) (\<lambda>reg.
      abind (get_reg (i_dst_reg ins)) (\<lambda>dst.
      abind (if cl = ST then some_act (new_obj (imm64 (i_imm ins))) else aret reg) (\<lambda>src.
      if mode \<in> {ABS, IND} then araise (TrackError ''track_store: legacy packet access not implemented'')
      else if mode \<in> {IMM, MEMSX} then araise (TrackError ''track_store: invalid BPF_STX mode'')
      else if mode = MEM then
        case dst of
          Some (n, Ptr i vo mk np) \<Rightarrow>
            if q_checked_null i \<noteq> Some False
            then araise (TrackError ''track_store: store through a pointer not proven non-null'')
            else store_mem (Ptr i vo mk np) (q_off i + i_offset ins) sz src
        | _ \<Rightarrow> araise (TrackError ''track_store: dst_reg is not a PTR'')
      else if mode = ATOMIC then
        abind (aassert (cl = STX) ''track_store'') (\<lambda>_.
        case dst of
          Some (n, Ptr i vo mk np) \<Rightarrow>
            if q_type i = PTR_TO_STK then atomic_stack env (int idx) ins (q_off i + i_offset ins) sz src
            else
              abind (aassert (q_type i \<in> {PTR_TO_MAP_VALUE, PTR_TO_BSS}) ''track_store'') (\<lambda>_.
              atomic_mem env (int idx) ins (Ptr i vo mk np) sz src)
        | _ \<Rightarrow> araise (AssertionError ''track_store''))
      else araise (TrackError ''track_store: invalid BPF_STX mode''))))))"

section \<open>Branches\<close>

definition set_cond_f :: "edge_fact \<Rightarrow> unit act" where
  "set_cond_f c = amod (\<lambda>b. b\<lparr>t_cond_f := Some c\<rparr>)"

definition set_cond_t :: "edge_fact \<Rightarrow> unit act" where
  "set_cond_t c = amod (\<lambda>b. b\<lparr>t_cond_t := Some c\<rparr>)"

definition set_cond :: "cond \<Rightarrow> unit act" where
  "set_cond c = amod (\<lambda>b. b\<lparr>t_cond := Some c\<rparr>)"

definition fret_idx :: "val \<Rightarrow> int" where
  "fret_idx v = (case v of Func_retval _ idx _ _ _ _ _ _ _ \<Rightarrow> idx | _ \<Rightarrow> -1)"

text \<open>
  The outcomes of a branch on the result of an adjusting helper, when it succeeded and when it
  failed, if both operands are constants then.
\<close>

definition adjust_outcomes ::
  "int \<Rightarrow> bool \<Rightarrow> val option \<Rightarrow> val option \<Rightarrow> val \<Rightarrow> (bool \<times> bool) option res" where
  "adjust_outcomes code jmp32 dst src rv =
     (let ev = (\<lambda>x ret. case x of None \<Rightarrow> Inr None | Some v \<Rightarrow> eval_at v rv ret) in
      ebind (ev dst 0) (\<lambda>d0. ebind (ev src 0) (\<lambda>s0.
      ebind (ev dst (- EINVAL)) (\<lambda>d1. ebind (ev src (- EINVAL)) (\<lambda>s1.
      case (d0, s0, d1, s1) of
        (Some a0, Some b0, Some a1, Some b1) \<Rightarrow>
          ebind (jmp_taken code a0 b0 jmp32) (\<lambda>ok.
          ebind (jmp_taken code a1 b1 jmp32) (\<lambda>failed.
          Inr (Some (ok, failed))))
      | _ \<Rightarrow> Inr None)))))"

definition branch_on_adjust :: "tenv \<Rightarrow> val \<Rightarrow> bool \<Rightarrow> unit act" where
  "branch_on_adjust env rv ok_taken =
     abind (aget t_adjust_pending) (\<lambda>pending.
     abind (case pending of
              Some (i, before) \<Rightarrow>
                if i = fret_idx rv then
                  abind (set_cond_t (FAdjust (fret_idx rv) (if ok_taken then Some (fret_idx rv) else before))) (\<lambda>_.
                  set_cond_f (FAdjust (fret_idx rv) (if ok_taken then before else Some (fret_idx rv))))
                else aret ()
            | None \<Rightarrow> aret ()) (\<lambda>_.
     awhen (\<not> e_brief env) (set_cond (Adjust_head_check ok_taken (fret_idx rv)))))"

text \<open>A test of a pointer that may be null: the facts of its edges, and the condition.\<close>

definition branch_null_check :: "tenv \<Rightarrow> int \<Rightarrow> val \<Rightarrow> val option \<Rightarrow> unit act" where
  "branch_null_check env code ptr other =
     (let i = pinfo ptr; pid = null_fact_id i;
          null_fact = FPtr \<lparr>pf_base_id = pid, pf_ptr = Some ptr, pf_checked_null = Some True\<rparr>;
          live_fact = FPtr \<lparr>pf_base_id = pid, pf_ptr = Some ptr, pf_checked_null = Some False\<rparr>
      in
      abind (aassert (Option.bind other num_of = Some 0) ''track_branch'') (\<lambda>_.
      if code \<notin> {BPF_JEQ, BPF_JNE} then aret ()
      else
        abind (if code = BPF_JNE then abind (set_cond_f null_fact) (\<lambda>_. set_cond_t live_fact)
               else abind (set_cond_t null_fact) (\<lambda>_. set_cond_f live_fact)) (\<lambda>_.
        if e_brief env then aret ()
        else
          case ptr of
            Ptr _ _ mk (Some np) \<Rightarrow> set_cond (Condition code (Some np) (Some (Num 0 1 (-1))) False)
          | Ptr _ _ mk None \<Rightarrow>
              awhen (q_type i = PTR_TO_MAP_VALUE)
                (set_cond (Contain_map_value (q_map_id i) mk (q_map_key_id i) (code \<noteq> BPF_JEQ)))
          | _ \<Rightarrow> araise AttributeError)))"

definition flip_jmp_code :: "int \<Rightarrow> int option" where
  "flip_jmp_code = map_of [(BPF_JGT, BPF_JLT), (BPF_JGE, BPF_JLE), (BPF_JLT, BPF_JGT), (BPF_JLE, BPF_JGE)]"

text \<open>A comparison of a packet pointer with the end of the packet.\<close>

definition len_fact :: "ptr_info \<Rightarrow> int option \<Rightarrow> int option \<Rightarrow> edge_fact" where
  "len_fact i lo hi =
     FPkt \<lparr>kf_id = Some (q_id i), kf_base_id = q_base_id i, kf_ptr = None, kf_min_len = lo, kf_max_len = hi\<rparr>"

definition branch_pkt_size :: "int \<Rightarrow> val \<Rightarrow> val \<Rightarrow> unit act" where
  "branch_pkt_size code0 dst src =
     abind (if q_type (pinfo src) = PTR_TO_PKT
            then alift (of_option KeyError (flip_jmp_code code0)) else aret code0) (\<lambda>code.
     let p = (if q_type (pinfo src) = PTR_TO_PKT then src else dst);
         i = pinfo p; offset = q_off i;
         cond = Condition code (total_offset i (pvar p)) (Some (Pkt_len 4 (q_base_id i))) False
     in
     if code \<in> {BPF_JGT, BPF_JGE} then
       abind (set_cond_t (len_fact i None (Some (if code = BPF_JGT then offset - 1 else offset)))) (\<lambda>_.
       abind (set_cond_f (len_fact i (Some (if code = BPF_JGT then offset else offset + 1)) None)) (\<lambda>_.
       set_cond cond))
     else if code \<in> {BPF_JLT, BPF_JLE} then
       abind (set_cond_t (len_fact i (Some (if code = BPF_JLE then offset else offset + 1)) None)) (\<lambda>_.
       abind (set_cond_f (len_fact i None (Some (if code = BPF_JLE then offset + 1 else offset)))) (\<lambda>_.
       set_cond cond))
     else araise (TrackError ''track_branch: unidentified PTR_TO_PKT comparison code''))"

definition maybe_null :: "val option \<Rightarrow> bool" where
  "maybe_null v = (case v of Some (Ptr i _ _ _) \<Rightarrow> q_checked_null i = None | _ \<Rightarrow> False)"

definition branch_compare :: "tenv \<Rightarrow> instr \<Rightarrow> val option \<Rightarrow> val option \<Rightarrow> unit act" where
  "branch_compare env ins dst0 src0 =
     (let code0 = i_opcode_code ins;
          swap = (code0 \<noteq> BPF_JSET \<and> Option.bind dst0 num_of = Some 0 \<and> maybe_null src0);
          dst = (if swap then src0 else dst0);
          src = (if swap then dst0 else src0);
          code = (if swap then swap_jmp_code code0 else code0)
      in
      if maybe_null dst then branch_null_check env code (the dst) src
      else if e_brief env then aret ()
      else if pkt_size_check dst src then branch_pkt_size code (the dst) (the src)
      else set_cond (Condition code dst src (i_opcode_class ins = JMP32)))"

definition branch_src :: "instr \<Rightarrow> obj option \<Rightarrow> val option" where
  "branch_src ins reg =
     (if i_opcode_s ins = S_IMM
      then Some (if i_opcode_class ins = JMP then imm64 (i_imm ins) else Num (i_imm ins AND 0xFFFFFFFF) 4 (-1))
      else obj_part reg)"

definition opt_adjust :: "val option \<Rightarrow> val option \<Rightarrow> val option" where
  "opt_adjust dst src =
     (case Option.bind dst adjust_ret_in of Some rv \<Rightarrow> Some rv | None \<Rightarrow> Option.bind src adjust_ret_in)"

definition track_branch :: "tenv \<Rightarrow> nat \<Rightarrow> unit act" where
  "track_branch env idx =
     (let ins = e_instrs env ! idx; code = i_opcode_code ins in
      abind (get_reg (i_src_reg ins)) (\<lambda>reg.
      abind (get_reg (i_dst_reg ins)) (\<lambda>dreg.
      let src = branch_src ins reg; dst = obj_part dreg in
      if swap_jmp_code code = -1 \<and> code \<noteq> BPF_JSET
      then araise (TrackError ''track_branch: no negation for jump code'')
      else
        abind (case opt_adjust dst src of
                 None \<Rightarrow> aret None
               | Some rv \<Rightarrow>
                   abind (alift (adjust_outcomes code (i_opcode_class ins = JMP32) dst src rv)) (\<lambda>ends.
                   aret (case ends of
                           Some (ok, failed) \<Rightarrow> if ok \<noteq> failed then Some (rv, ok) else None
                         | None \<Rightarrow> None))) (\<lambda>adj.
        case adj of
          Some (rv, ok) \<Rightarrow> branch_on_adjust env rv ok
        | None \<Rightarrow> branch_compare env ins dst src))))"

section \<open>Calls\<close>

definition tail_region :: "tenv \<Rightarrow> tblock list \<Rightarrow> nat \<Rightarrow> prog_region act" where
  "tail_region env blocks idx =
     (if e_progs env = [] then araise (TrackError ''track_call: no callee was given'')
      else if (case region_of (e_progs env) idx of Some here \<Rightarrow> \<not> is_main here | None \<Rightarrow> False)
      then araise (TrackError ''track_call: chained tail calls are not implemented'')
      else
        abind (aget b_succ_t) (\<lambda>t.
        case Option.bind t (\<lambda>k. b_prog_entry (blocks ! k)) of
          None \<Rightarrow> araise (TrackError ''track_call: no callee edge'')
        | Some target \<Rightarrow> aret target))"

definition map_meta :: "tenv \<Rightarrow> int option \<Rightarrow> map_info act" where
  "map_meta env map_id =
     (case map_id of None \<Rightarrow> araise TypeError | Some k \<Rightarrow> alift (py_nth (e_maps env) k))"

text \<open>Sizes of keys and values are not negative: the loader reads them as unsigned numbers.\<close>

definition load_arg :: "int \<Rightarrow> obj option \<Rightarrow> int \<Rightarrow> val option act" where
  "load_arg idx p sz =
     (case p of
        Some (n, v) \<Rightarrow> abind (load_mem False idx v 0 (nat sz)) (\<lambda>x. aret (obj_part x))
      | None \<Rightarrow> araise AttributeError)"

definition is_ptr_obj :: "obj option \<Rightarrow> bool" where
  "is_ptr_obj x = (case x of Some (_, v) \<Rightarrow> is_ptr v | None \<Rightarrow> False)"

definition obj_map_id :: "obj option \<Rightarrow> int option" where
  "obj_map_id x = (case x of Some (_, Ptr i _ _ _) \<Rightarrow> q_map_id i | _ \<Rightarrow> None)"

definition set_r0 :: "val \<Rightarrow> unit act" where
  "set_r0 v = abind (new_obj v) (\<lambda>x. put_reg 0 (Some x))"

definition call_lookup :: "tenv \<Rightarrow> int \<Rightarrow> unit act" where
  "call_lookup env idx =
     abind (get_reg 1) (\<lambda>map_ptr.
     abind (get_reg 2) (\<lambda>key_ptr.
     abind (aassert (is_ptr_to map_ptr PTR_TO_MAP) ''track_call'') (\<lambda>_.
     abind (aassert (is_ptr_obj key_ptr) ''track_call'') (\<lambda>_.
     let map_id = obj_map_id map_ptr in
     abind (map_meta env map_id) (\<lambda>m.
     abind (load_arg idx key_ptr (m_key_size m)) (\<lambda>map_key.
     abind (new_ptr_obj ((default_ptr PTR_TO_MAP_VALUE)\<lparr>q_base_id := Some idx, q_map_id := map_id,
              q_map_key_id := Some idx, q_checked_null := None\<rparr>) None map_key) (\<lambda>r0.
     abind (put_reg 0 (Some r0)) (\<lambda>_.
     abind (awhen (\<not> e_brief env) (emit (MapLookup map_id map_key (Some idx)))) (\<lambda>_.
     amod (\<lambda>b. b\<lparr>t_ptr_facts := dict_set (Some idx)
       \<lparr>pf_base_id = Some idx, pf_ptr = Some (snd r0), pf_checked_null = None\<rparr> (t_ptr_facts b)\<rparr>))))))))))"

definition call_update :: "tenv \<Rightarrow> int \<Rightarrow> unit act" where
  "call_update env idx =
     abind (get_reg 1) (\<lambda>map_ptr.
     abind (get_reg 2) (\<lambda>key_ptr.
     abind (get_reg 3) (\<lambda>value_ptr.
     abind (awhen (is_ptr_to map_ptr PTR_TO_MAP \<and> is_ptr_obj key_ptr \<and> is_ptr_obj value_ptr)
       (abind (map_meta env (obj_map_id map_ptr)) (\<lambda>m.
        abind (load_arg idx key_ptr (m_key_size m)) (\<lambda>map_key.
        abind (load_arg idx value_ptr (m_value_size m)) (\<lambda>map_value.
        abind (get_reg 4) (\<lambda>r4.
        emit (MapUpdate (obj_map_id map_ptr) map_key map_value (Option.bind (obj_part r4) num_of)
                (nat (m_value_size m))))))))) (\<lambda>_.
     set_r0 (Scalar 8 idx)))))"

definition call_delete :: "tenv \<Rightarrow> int \<Rightarrow> unit act" where
  "call_delete env idx =
     abind (get_reg 1) (\<lambda>map_ptr.
     abind (get_reg 2) (\<lambda>key_ptr.
     abind (awhen (is_ptr_to map_ptr PTR_TO_MAP \<and> is_ptr_obj key_ptr)
       (abind (map_meta env (obj_map_id map_ptr)) (\<lambda>m.
        abind (load_arg idx key_ptr (m_key_size m)) (\<lambda>map_key.
        awhen (\<not> e_brief env) (emit (MapDelete (obj_map_id map_ptr) map_key)))))) (\<lambda>_.
     set_r0 (Scalar 8 idx))))"

text \<open>The result of a helper, noted as a source in the full pass.\<close>

definition fret :: "nat \<Rightarrow> int \<Rightarrow> int \<Rightarrow> nat \<Rightarrow> val" where
  "fret sz idx fn num = Func_retval sz idx fn (int num) None None None 0 False"

definition call_value :: "tenv \<Rightarrow> val \<Rightarrow> unit act" where
  "call_value env v =
     abind (set_r0 v) (\<lambda>_. awhen (\<not> e_brief env) (add_source v))"

text \<open>The adjusting helpers: \<open>None\<close> when the arguments are not as they must be.\<close>

definition adjust_delta :: "int \<Rightarrow> int" where
  "adjust_delta n = (let a = n AND 0xFFFFFFFF in if push_bit 31 1 \<le> a then a - push_bit 32 1 else a)"

definition adjust_args :: "(int option \<times> int) act" where
  "adjust_args =
     abind (get_reg 1) (\<lambda>ctx.
     abind (aassert (is_ptr_to ctx PTR_TO_CTX \<and> (case ctx of Some (_, v) \<Rightarrow> q_off (pinfo v) = 0 | None \<Rightarrow> False))
              ''track_call'') (\<lambda>_.
     abind (get_reg 2) (\<lambda>r2.
     case Option.bind (obj_part r2) num_of of
       None \<Rightarrow> araise (AssertionError ''track_call'')
     | Some n \<Rightarrow> aret (case ctx of Some (_, v) \<Rightarrow> q_base_id (pinfo v) | None \<Rightarrow> None, adjust_delta n))))"

definition call_adjust_head :: "tenv \<Rightarrow> int \<Rightarrow> unit act" where
  "call_adjust_head env idx =
     abind adjust_args (\<lambda>(base, adjust).
     abind (aget b_num) (\<lambda>num.
     abind (set_r0 (fret 8 idx 44 num)) (\<lambda>_.
     abind (awhen (\<not> e_brief env) (emit (AdjustHead adjust (fret 8 idx 44 num)))) (\<lambda>_.
     abind (amod (\<lambda>b. b\<lparr>t_adjust_pending := Some (idx, base)\<rparr>)) (\<lambda>_.
     set_ctx_view None)))))"

definition call_adjust :: "tenv \<Rightarrow> int \<Rightarrow> int \<Rightarrow> unit act" where
  "call_adjust env idx fn =
     abind adjust_args (\<lambda>(base, adjust).
     abind (aget b_num) (\<lambda>num.
     abind (set_r0 (fret 8 idx fn num)) (\<lambda>_.
     awhen (\<not> e_brief env)
       (emit ((if fn = 65 then AdjustTail else AdjustMeta) adjust (fret 8 idx fn num))))))"

text \<open>\<open>bpf_redirect\<close> and \<open>bpf_redirect_map\<close>: what is returned when the map has no entry.\<close>

definition call_redirect :: "tenv \<Rightarrow> int \<Rightarrow> int \<Rightarrow> unit act" where
  "call_redirect env idx fn =
     abind (get_reg 1) (\<lambda>r1.
     abind (get_reg 2) (\<lambda>r2.
     abind (get_reg 3) (\<lambda>r3.
     let flags = Option.bind (obj_part (if fn = 51 then r3 else r2)) num_of;
         map_id = (if fn = 51 \<and> is_ptr_to r1 PTR_TO_MAP then obj_map_id r1 else None);
         known = (flags \<noteq> None \<and> (fn = 51) = (map_id \<noteq> None))
     in
     abind (aget b_num) (\<lambda>num.
     call_value env (Func_retval 8 idx fn (int num) map_id (if fn = 51 then obj_part r2 else None) (Some idx)
       (if \<not> known then 0 else if fn = 51 then the flags AND 3 else if flags = Some 0 then 4 else 0) known)))))"

definition call_tail :: "tenv \<Rightarrow> tblock list \<Rightarrow> nat \<Rightarrow> unit act" where
  "call_tail env blocks idx =
     abind (tail_region env blocks idx) (\<lambda>region.
     abind (get_reg 1) (\<lambda>ctx.
     abind (get_reg 2) (\<lambda>map_ptr.
     abind (get_reg 3) (\<lambda>index.
     if \<not> is_ptr_to ctx PTR_TO_CTX then araise (TrackError ''track_call: bpf_tail_call was passed a non-ctx in r1'')
     else if \<not> is_ptr_to map_ptr PTR_TO_MAP
     then araise (TrackError ''track_call: bpf_tail_call was passed a non-map in r2'')
     else
       let map_id = obj_map_id map_ptr in
       abind (map_meta env map_id) (\<lambda>m.
       if m_type m \<noteq> BPF_MAP_TYPE_PROG_ARRAY
       then araise (TrackError ''track_call: bpf_tail_call uses a map which is not a PROG_ARRAY'')
       else if p_map_id region \<noteq> map_id
       then araise (TrackError ''track_call: the callee was loaded into another map'')
       else
         abind (amod (\<lambda>b. b\<lparr>t_tail_ctx := ctx, t_tail_target := Some region\<rparr>)) (\<lambda>_.
         abind (set_cond (Tail_call_taken map_id (obj_part index) (p_slot region) (p_name region) (int idx) (m_name m))) (\<lambda>_.
         abind (awhen (\<not> e_brief env)
                  (emit (TailCall map_id (obj_part index) (p_slot region) (p_name region) (m_name m)))) (\<lambda>_.
         set_r0 (Scalar 8 (int idx))))))))))"

definition plain_helpers :: "int set" where
  "plain_helpers = {5, 7, 8, 14, 15, 42, 118, 125, 160, 208}"

definition clobber_args :: "unit act" where
  "clobber_args = aeach (\<lambda>i. put_reg (int i) None) [1..<6]"

definition call_helper :: "tenv \<Rightarrow> tblock list \<Rightarrow> nat \<Rightarrow> int \<Rightarrow> unit act" where
  "call_helper env blocks idx fn =
     abind (aget b_num) (\<lambda>num.
     if fn = 1 then call_lookup env (int idx)
     else if fn = 2 then call_update env (int idx)
     else if fn = 3 then call_delete env (int idx)
     else if fn \<in> plain_helpers then call_value env (fret (if fn = 7 then 4 else 8) (int idx) fn num)
     else if fn = 25 then abind (emit Perf_event_output) (\<lambda>_. set_r0 (Scalar 8 (int idx)))
     else if fn = 28 then
       if e_brief env then set_r0 (Scalar 4 (int idx)) else call_value env (fret 4 (int idx) fn num)
     else if fn = 44 then call_adjust_head env (int idx)
     else if fn \<in> {23, 51} then call_redirect env (int idx) fn
     else if fn = 12 then call_tail env blocks idx
     else if fn \<in> {54, 65} then call_adjust env (int idx) fn
     else if fn = 188 then
       abind (get_reg 1) (\<lambda>ctx.
       abind (aassert (is_ptr_to ctx PTR_TO_CTX \<and> (case ctx of Some (_, v) \<Rightarrow> q_off (pinfo v) = 0 | None \<Rightarrow> False))
                ''track_call'') (\<lambda>_.
       abind (aget t_pkt_base_id) (\<lambda>base.
       abind (set_r0 (Pkt_len 8 base)) (\<lambda>_.
       awhen (\<not> e_brief env) (emit (XdpBuffLen (Pkt_len 8 base)))))))
     else if fn \<in> {10, 11} then araise (TrackError ''track_call: a TC helper'')
     else araise (TrackError ''track_call: unknown helper''))"

definition track_call :: "tenv \<Rightarrow> tblock list \<Rightarrow> nat \<Rightarrow> unit act" where
  "track_call env blocks idx =
     (let ins = e_instrs env ! idx in
      if i_src_reg ins \<noteq> 0 then set_r0 (Scalar 8 (int idx))
      else abind (call_helper env blocks idx (i_imm ins)) (\<lambda>_. clobber_args))"

section \<open>Blocks and the whole run\<close>

definition track_instr :: "tenv \<Rightarrow> tblock list \<Rightarrow> nat \<Rightarrow> unit act" where
  "track_instr env blocks idx =
     (let ins = e_instrs env ! idx in
      abind (amod (\<lambda>b. b\<lparr>t_idx := Some (int idx)\<rparr>)) (\<lambda>_.
      if is_alu ins then track_alu env idx
      else if is_load ins then track_load env idx
      else if is_store ins then track_store env idx
      else if is_call ins then track_call env blocks idx
      else if is_branch ins then track_branch env idx
      else aret ()))"

definition reset_block :: "tblock \<Rightarrow> tblock" where
  "reset_block b =
     b\<lparr>t_actions := [], t_sources := [], t_cond := None, t_cond_f := None, t_cond_t := None,
       t_ptr_facts := [], t_pkt_facts := [], t_adjust_pending := None\<rparr>"

definition enter_block :: "tblock list \<Rightarrow> nat \<Rightarrow> unit act" where
  "enter_block blocks k =
     abind (amod reset_block) (\<lambda>_.
     abind (aget b_prog_entry) (\<lambda>entry.
     if k = 0 then init_state
     else if entry \<noteq> None then init_tail_entry blocks
     else merge_predecessors blocks))"

text \<open>
  The tracker's own state: the blocks, and the two counters.  A block is taken out of the list,
  transformed, and put back; the list it sees beside it is read for other blocks only.
\<close>

record tstate =
  s_blocks :: "tblock list"
  s_ids :: int
  s_oids :: nat

definition track_block :: "tenv \<Rightarrow> nat \<Rightarrow> tstate \<Rightarrow> tstate res" where
  "track_block env k st =
     (let b = s_blocks st ! k;
          run = abind (enter_block (s_blocks st) k) (\<lambda>_.
                aeach (track_instr env (s_blocks st)) [b_start b..<Suc (b_end b)])
      in
      case run \<lparr>c_blk = b, c_ids = s_ids st, c_oids = s_oids st\<rparr> of
        Inl e \<Rightarrow> Inl e
      | Inr (_, c) \<Rightarrow>
          Inr \<lparr>s_blocks = (s_blocks st)[k := c_blk c], s_ids = c_ids c, s_oids = c_oids c\<rparr>)"

text \<open>The loop over the blocks not yet tracked; each round takes one away.\<close>

function track_loop :: "tenv \<Rightarrow> tstate \<Rightarrow> nat list \<Rightarrow> tstate res" where
  "track_loop env st untraced =
     (if untraced = [] then Inr st
      else
        case get_next_block_no (s_blocks st) untraced of
          Inl e \<Rightarrow> Inl e
        | Inr target \<Rightarrow>
            (case track_block env target st of
               Inl e \<Rightarrow> Inl e
             | Inr st' \<Rightarrow> track_loop env st' (remove1 target untraced)))"
  by pat_completeness auto
termination
proof (relation "measure (\<lambda>(env, st, untraced). length untraced)", simp)
  fix env st untraced target st'
  assume "get_next_block_no (s_blocks st) untraced = Inr target"
  then have "target \<in> set untraced"
    by (auto simp: get_next_block_no_def dest!: find_SomeD)
  then have "length (remove1 target untraced) < length untraced"
    by (induction untraced) auto
  then show "((env, st', remove1 target untraced), env, st, untraced)
      \<in> measure (\<lambda>(env, st, untraced). length untraced)"
    by simp
qed

declare track_loop.simps [simp del]

definition track :: "tenv \<Rightarrow> tblock list \<Rightarrow> nat \<Rightarrow> (tstate \<times> val list) res" where
  "track env blocks oid =
     (if blocks = [] then Inl IndexError
      else
        ebind (track_block env 0 \<lparr>s_blocks = blocks, s_ids = int (length (e_instrs env)), s_oids = oid\<rparr>) (\<lambda>st.
        ebind (track_loop env st [1..<length blocks]) (\<lambda>st'.
        Inr (st', concat (map t_sources (s_blocks st'))))))"

end
