(* ===== verification/Tracker_Alu.thy ===== *)
theory Tracker_Alu
  imports Tracker Encode_Alu
begin

text \<open>
  The symbolic execution of the arithmetic instructions against the instruction set: what the
  tracker writes to a register denotes, through the terms of \<open>expr_to_z3\<close> and under every
  assignment, what the instruction writes to the machine register.  The specification is
  \<open>alu_exec\<close>, on 64-bit words; \<open>reg_means\<close> says that a tracked register denotes a word.
\<close>

section \<open>The instruction on machine words\<close>

definition sext_word :: "nat \<Rightarrow> 'a::len word \<Rightarrow> 'a word" where
  "sext_word n w = word_of_int (signed_take_bit (n - 1) (uint w))"

text \<open>The byte-order conversions: \<open>swap\<close> tells a byte swap from a plain truncation.\<close>

definition end_word :: "bool \<Rightarrow> nat \<Rightarrow> 64 word \<Rightarrow> 64 word" where
  "end_word swap bits d =
     word_of_int (if swap then bswap_sem (bits div 8) (uint d) else take_bit bits (uint d))"

definition alu_exec :: "instr \<Rightarrow> 64 word \<Rightarrow> 64 word \<Rightarrow> 64 word" where
  "alu_exec ins d r =
     (let code = i_opcode_code ins;
          s = (if i_opcode_s ins = S_IMM then word_of_int (i_imm ins) else r);
          wide = (i_opcode_class ins = ALU64);
          d32 = ucast d :: 32 word; s32 = ucast s :: 32 word
      in
      if code = BPF_MOV then
        if i_offset ins = 0 then (if wide then s else ucast s32)
        else if wide then sext_word (nat (i_offset ins)) s else ucast (sext_word (nat (i_offset ins)) s32)
      else if code = BPF_END then end_word (wide \<or> i_opcode_s ins = S_REG) (nat (i_imm ins)) d
      else if wide then alu_isa code (i_offset ins = 1) d s
      else ucast (alu_isa code (i_offset ins = 1) d32 s32))"

text \<open>The arithmetic instructions of the instruction set, as the decoder reads them.\<close>

definition alu_valid :: "instr \<Rightarrow> bool" where
  "alu_valid ins \<longleftrightarrow>
     i_opcode_class ins \<in> {ALU, ALU64} \<and> i_opcode_s ins \<in> {S_IMM, S_REG} \<and>
     0 \<le> i_src_reg ins \<and> i_src_reg ins \<le> 10 \<and> 0 \<le> i_dst_reg ins \<and> i_dst_reg ins \<le> 10 \<and>
     - (2 ^ 31) \<le> i_imm ins \<and> i_imm ins < 2 ^ 31 \<and>
     (i_opcode_code ins \<in> alu_codes \<or>
      i_opcode_code ins = BPF_MOV \<and> i_offset ins \<in> {0, 8, 16} \<or>
      i_opcode_code ins = BPF_MOV \<and> i_offset ins = 32 \<and> i_opcode_class ins = ALU64 \<or>
      i_opcode_code ins = BPF_END \<and> i_imm ins \<in> {16, 32, 64})"

section \<open>What a register denotes\<close>

definition denotes :: "z3_queries \<Rightarrow> ('m \<Rightarrow> bvt \<Rightarrow> int) \<Rightarrow> z3_state \<Rightarrow> 'm \<Rightarrow> obj option \<Rightarrow> 'a::len word \<Rightarrow> bool" where
  "denotes z ev st m x w \<longleftrightarrow>
     (\<exists>n v t. x = Some (n, v) \<and> \<not> is_ptr v \<and> expr_to_z3 z st v = Inr t \<and> z_size z t \<le> 64 \<and>
        word_of_int (ev m t) = w \<and> (\<forall>k. num_of v = Some k \<longrightarrow> word_of_int k = w))"

text \<open>A value of at most four bytes has no higher bits.\<close>

definition reg_means :: "z3_queries \<Rightarrow> ('m \<Rightarrow> bvt \<Rightarrow> int) \<Rightarrow> z3_state \<Rightarrow> 'm \<Rightarrow> obj option \<Rightarrow> 64 word \<Rightarrow> bool" where
  "reg_means z ev st m x w \<longleftrightarrow>
     denotes z ev st m x w \<and> (\<forall>n v. x = Some (n, v) \<longrightarrow> v_size v \<le> 4 \<longrightarrow> uint w < 2 ^ 32)"

lemma denotesI:
  assumes "x = Some (n, v)" and "\<not> is_ptr v" and "expr_to_z3 z st v = Inr t" and "z_size z t \<le> 64"
    and "word_of_int (ev m t) = w" and "\<And>k. num_of v = Some k \<Longrightarrow> word_of_int k = w"
  shows "denotes z ev st m x w"
  using assms by (auto simp: denotes_def)

lemma denotesE:
  assumes "denotes z ev st m x w"
  obtains n v t where "x = Some (n, v)" and "\<not> is_ptr v" and "expr_to_z3 z st v = Inr t" and "z_size z t \<le> 64"
    and "word_of_int (ev m t) = w" and "\<And>k. num_of v = Some k \<Longrightarrow> word_of_int k = w"
  using assms by (auto simp: denotes_def)

lemma ucast_of_int: "ucast (word_of_int k :: 64 word) = (word_of_int k :: 32 word)"
  by (rule bit_word_eqI) (simp add: bit_simps)

lemma denotes_low:
  assumes "denotes z ev st m x (w :: 64 word)"
  shows "denotes z ev st m x (ucast w :: 32 word)"
proof -
  from assms obtain n v t where v: "x = Some (n, v)" "\<not> is_ptr v" "expr_to_z3 z st v = Inr t" "z_size z t \<le> 64"
    "word_of_int (ev m t) = w" and k: "\<And>k. num_of v = Some k \<Longrightarrow> word_of_int k = w" by (rule denotesE) blast
  from v(1-4) show ?thesis
    by (rule denotesI) (use ucast_of_int v(5) k in \<open>metis\<close>)+
qed

lemma means_denotes: "reg_means z ev st m x w \<Longrightarrow> denotes z ev st m x w"
  by (simp add: reg_means_def)

lemma uint_ucast32: "uint (ucast (w :: 32 word) :: 64 word) = uint w"
  by (simp add: uint_up_ucast is_up)

lemma ucast32_less: "uint (ucast (w :: 32 word) :: 64 word) < 2 ^ 32"
  using uint_lt2p [of w] by (simp add: uint_ucast32)

lemma ucast_ucast_small: "uint (w :: 64 word) < 2 ^ 32 \<Longrightarrow> ucast (ucast w :: 32 word) = w"
  by (rule word_uint_eqI) (simp add: uint_ucast32 unsigned_ucast_eq unsigned_take_bit_eq take_bit_int_eq_self)

section \<open>Results of one width or the other\<close>

context smtlib
begin

lemma means_wide:
  assumes "expr_to_z3 z st v = Inr t" and "\<not> is_ptr v" and "num_of v = None" and "v_size v = 8"
    and "z_size z t \<le> 64" and "ev m t = uint w"
  shows "reg_means z ev st m (Some (n, v)) w"
  unfolding reg_means_def using assms by (auto intro!: denotesI)

lemma means_narrow:
  assumes "expr_to_z3 z st v = Inr t" and "\<not> is_ptr v" and "num_of v = None"
    and "z_size z t \<le> 64" and "ev m t = uint (w :: 32 word)"
  shows "reg_means z ev st m (Some (n, v)) (ucast w)"
  unfolding reg_means_def using assms ucast32_less [of w]
  by (auto intro!: denotesI simp: uint_ucast32 [symmetric] simp del: uint_ucast32)

lemma means_num8:
  "reg_means z ev st m (Some (n, Num k 8 idx)) (word_of_int k)"
  unfolding reg_means_def
  by (auto intro!: denotesI simp: is_ptr_def size_BitVecVal ev_BitVecVal num_of_def simp flip: uint_word_of_int_eq [where 'a = 64, simplified])

lemma means_num4:
  assumes "uint (w :: 32 word) = k"
  shows "reg_means z ev st m (Some (n, Num k 4 idx)) (ucast w)"
proof -
  have "word_of_int k = (ucast w :: 64 word)" unfolding assms [symmetric] by (simp add: unsigned_of_int)
  moreover have "take_bit 32 k = k" unfolding assms [symmetric] by (simp add: bintr_uint)
  ultimately show ?thesis
    unfolding reg_means_def using ucast32_less [of w]
    by (auto intro!: denotesI simp: is_ptr_def size_BitVecVal ev_BitVecVal num_of_def)
qed

lemma means_imm64:
  assumes "- (2 ^ 31) \<le> k" "k < 2 ^ 31"
  shows "reg_means z ev st m (Some (n, imm64 k)) (word_of_int k)"
proof (cases "0 \<le> k")
  case True
  have "uint (word_of_int k :: 32 word) = k" using True assms(2) by (simp add: uint_word_of_int_eq take_bit_int_eq_self)
  from means_num4 [OF this] show ?thesis
    using True assms(2) by (simp add: imm64_def unsigned_of_int take_bit_int_eq_self)
qed (use means_num8 in \<open>simp add: imm64_def\<close>)

lemma denotes_imm32: "denotes z ev st m (Some (n, Num k 4 idx)) (word_of_int k :: 32 word)"
  by (rule denotesI) (auto simp: is_ptr_def size_BitVecVal ev_BitVecVal num_of_def simp flip: uint_word_of_int_eq [where 'a = 32, simplified])

end

lemma uint_sext_word:
  assumes "0 < n" and "n \<le> LENGTH('a::len)"
  shows "uint (sext_word n (word_of_int k :: 'a word)) = take_bit LENGTH('a) (signed_take_bit (n - 1) k)"
proof -
  have "\<not> LENGTH('a) \<le> n - 1" using assms by linarith
  then show ?thesis by (simp add: sext_word_def uint_word_of_int_eq signed_take_bit_take_bit)
qed

text \<open>A step that yields a value that denotes a word, and leaves the block as it was.\<close>

definition yields :: "z3_queries \<Rightarrow> ('m \<Rightarrow> bvt \<Rightarrow> int) \<Rightarrow> z3_state \<Rightarrow> 'm \<Rightarrow> obj option act \<Rightarrow> 64 word \<Rightarrow> bool" where
  "yields z ev st m a w \<longleftrightarrow>
     (\<forall>s. \<exists>x s'. a s = Inr (x, s') \<and> c_blk s' = c_blk s \<and> reg_means z ev st m x w)"

lemma yields_ret: "reg_means z ev st m x w \<Longrightarrow> yields z ev st m (aret x) w"
  by (simp add: yields_def)

lemma yields_new:
  assumes "\<And>n. reg_means z ev st m (Some (n, v)) w"
  shows "yields z ev st m (some_obj (Some v)) w" "yields z ev st m (some_act (new_obj v)) w"
  using assms by (simp_all add: yields_def some_obj_def aopt_def some_act_def act_simps)

lemma yields_bind:
  assumes "yields z ev st m a w" and "\<And>x. reg_means z ev st m x w \<Longrightarrow> yields z ev st m (f x) w'"
  shows "yields z ev st m (abind a f) w'"
  unfolding yields_def
proof
  fix s
  obtain x s1 where 1: "a s = Inr (x, s1)" "c_blk s1 = c_blk s" "reg_means z ev st m x w"
    using assms(1) unfolding yields_def by blast
  obtain y s2 where "f x s1 = Inr (y, s2)" "c_blk s2 = c_blk s1" "reg_means z ev st m y w'"
    using assms(2) [OF 1(3)] unfolding yields_def by blast
  with 1 show "\<exists>x s'. abind a f s = Inr (x, s') \<and> c_blk s' = c_blk s \<and> reg_means z ev st m x w'"
    by (simp add: abind_def)
qed

lemma abind_lift [simp]: "abind (alift (Inr x)) f = f x"
  by (simp add: abind_def fun_eq_iff)

lemma word_mask32: "k AND 0xFFFFFFFF = take_bit 32 (k :: int)"
  by (simp add: take_bit_eq_mask mask_eq_exp_minus_1)

context smtlib
begin

lemma sext_yields:
  fixes w :: "'a::len word"
  assumes x: "denotes z ev st m x w" and b: "1 \<le> bits" "bits \<le> int LENGTH('a)"
    and sz: "sz = 8 \<and> LENGTH('a) = 64 \<or> sz = 4 \<and> LENGTH('a) = 32"
  shows "yields z ev st m (sext_obj x bits sz idx) (word_of_int (uint (sext_word (nat bits) w)))"
proof -
  obtain n v t where v: "x = Some (n, v)" "\<not> is_ptr v" "expr_to_z3 z st v = Inr t" "z_size z t \<le> 64"
    "word_of_int (ev m t) = w" and k: "\<And>k. num_of v = Some k \<Longrightarrow> word_of_int k = w"
    using x by (rule denotesE) blast
  have nb: "0 < nat bits" "nat bits \<le> LENGTH('a)" using b by auto
  let ?s = "\<lambda>k. signed_take_bit (nat bits - 1) k"
  show ?thesis
  proof (cases "num_of v")
    case (Some k)
    have u: "uint (sext_word (nat bits) w) = take_bit LENGTH('a) (?s k)"
      using uint_sext_word [OF nb, of k] k [OF Some] by simp
    have s: "to_signed (nat bits) (k AND pymask (nat bits)) = ?s k"
      using nb by (simp add: and_pymask_take_bit to_signed_eq)
    show ?thesis
    proof (cases "sz = 8")
      case True
      then have "word_of_int (uint (sext_word (nat bits) w)) = (word_of_int (?s k) :: 64 word)"
        using sz by (simp add: u word_of_int_eq_iff)
      with True means_num8 [of st m _ "?s k" idx] show ?thesis
        using v(1,2) Some b s by (simp add: sext_obj_def obj_part_def sext_def yields_new Let_def)
    next
      case False
      then have l: "sz = 4" "LENGTH('a) = 32" using sz by auto
      have "uint (word_of_int (?s k) :: 32 word) = ?s k AND 0xFFFFFFFF"
        unfolding word_mask32 by (simp add: uint_word_of_int_eq)
      from means_num4 [OF this, of st m _ idx] have
        "reg_means z ev st m (Some (n, Num (?s k AND 0xFFFFFFFF) 4 idx)) (word_of_int (uint (sext_word (nat bits) w)))" for n
        using l by (simp add: u unsigned_of_int)
      then show ?thesis
        using v(1,2) Some b s l by (simp add: sext_obj_def obj_part_def sext_def yields_new Let_def)
    qed
  next
    case None
    let ?v = "ALUunary BPF_MOV (Some v) None bits sz (sz = 8)"
    have wd: "LENGTH('a) = (if sz = 4 then 32 else 64)" using sz by auto
    obtain t' where t': "alu_unary_z3 z BPF_MOV None bits sz (sz = 8) t = Inr t'" "z_size z t' = LENGTH('a)"
      "ev m t' = take_bit LENGTH('a) (?s (ev m t))"
      using alu_unary_mov [OF b wd, of None "sz = 8" t m] by blast
    have e: "expr_to_z3 z st ?v = Inr t'" using v(3) t'(1) by (simp add: enc_opt_def)
    have u: "ev m t' = uint (sext_word (nat bits) w)" using uint_sext_word [OF nb, of "ev m t"] v(5) t'(3) by simp
    have "reg_means z ev st m (Some (n', ?v)) (word_of_int (uint (sext_word (nat bits) w)))" for n'
    proof (cases "sz = 8")
      case True
      then have l: "LENGTH('a) = 64" using sz by auto
      have "uint (word_of_int (ev m t') :: 64 word) = ev m t'" using t'(2) l by (intro uint_ev) simp
      with True show ?thesis using e t'(2) l u by (intro means_wide) (simp_all add: is_ptr_def num_of_def)
    next
      case False
      then have l: "LENGTH('a) = 32" "sz = 4" using sz by auto
      have 1: "uint (word_of_int (ev m t') :: 32 word) = ev m t'" using t'(2) l by (intro uint_ev) simp
      have "reg_means z ev st m (Some (n', ?v)) (ucast (word_of_int (ev m t') :: 32 word))"
        using e t'(2) l 1 by (intro means_narrow) (simp_all add: is_ptr_def num_of_def)
      moreover have "(ucast (word_of_int (ev m t') :: 32 word) :: 64 word) = word_of_int (ev m t')"
        by (rule word_uint_eqI) (use 1 uint_ev [of t' m, where 'a = 64] t'(2) l in \<open>simp add: uint_ucast32\<close>)
      ultimately show ?thesis using u by simp
    qed
    then show ?thesis
      using v(1,2) None by (simp add: sext_obj_def obj_part_def sext_def yields_new)
  qed
qed

text \<open>A value of 32 bits, from the term of a binary operation of size 4.\<close>

lemma binary32_means:
  assumes "op \<in> alu_binary_codes" and "denotes z ev st m (Some (n, a)) (d :: 32 word)"
    and "denotes z ev st m (Some (n', b)) (s :: 32 word)"
  shows "reg_means z ev st m (Some (k, ALUbinary op (Some a) (Some b) ofs 4 idx)) (ucast (alu_isa op (ofs = 1) d s))"
proof -
  obtain ta where a: "expr_to_z3 z st a = Inr ta" "word_of_int (ev m ta) = d" using assms(2) by (auto simp: denotes_def)
  obtain tb where b: "expr_to_z3 z st b = Inr tb" "z_size z tb \<le> 64" "word_of_int (ev m tb) = s"
    using assms(3) by (auto simp: denotes_def)
  obtain t where t: "alu_binary_z3 z op ofs 4 ta tb = Inr t" "z_size z t = 32"
    "ev m t = alu_sem op (ofs = 1) 32 (take_bit 32 (ev m ta)) (take_bit 32 (ev m tb))"
    using alu_binary_32 [OF assms(1) b(2)] by blast
  have "ev m t = uint (alu_isa op (ofs = 1) d s)"
    using t(3) alu_sem_isa [OF assms(1), of "ofs = 1" d s]
    unfolding a(2) [symmetric] b(3) [symmetric] by (simp add: uint_word_of_int_eq)
  with a(1) b(1) t(1,2) show ?thesis
    by (intro means_narrow) (simp_all add: enc_opt_def is_ptr_def num_of_def)
qed

lemma binary64_means:
  assumes "op \<in> alu_binary_codes" and "denotes z ev st m (Some (n, a)) (d :: 64 word)"
    and "denotes z ev st m (Some (n', b)) (s :: 64 word)"
  shows "reg_means z ev st m (Some (k, ALUbinary op (Some a) (Some b) ofs 8 idx)) (alu_isa op (ofs = 1) d s)"
proof -
  obtain ta where a: "expr_to_z3 z st a = Inr ta" "z_size z ta \<le> 64" "word_of_int (ev m ta) = d"
    using assms(2) by (auto simp: denotes_def)
  obtain tb where b: "expr_to_z3 z st b = Inr tb" "z_size z tb \<le> 64" "word_of_int (ev m tb) = s"
    using assms(3) by (auto simp: denotes_def)
  obtain t where t: "alu_binary_z3 z op ofs 8 ta tb = Inr t" "z_size z t \<le> 64"
    "ev m t = alu_sem op (ofs = 1) 64 (ev m ta) (ev m tb)"
    using alu_binary_64 [OF assms(1) a(2) b(2)] by blast
  have "ev m t = uint (alu_isa op (ofs = 1) d s)"
    using t(3) alu_sem_isa [OF assms(1), of "ofs = 1" d s] uint_ev [of ta m, where 'a = 64] uint_ev [of tb m, where 'a = 64]
      a(2,3) b(2,3) by auto
  with a(1) b(1) t(1,2) show ?thesis
    by (intro means_wide) (simp_all add: enc_opt_def is_ptr_def num_of_def)
qed

lemma trunc_yields:
  assumes "reg_means z ev st m x w"
  shows "yields z ev st m (trunc_obj x idx) (ucast (ucast w :: 32 word))"
proof -
  have low: "denotes z ev st m x (ucast w :: 32 word)" using assms by (simp add: means_denotes denotes_low)
  obtain n v t where v: "x = Some (n, v)" "\<not> is_ptr v" and k: "\<And>k. num_of v = Some k \<Longrightarrow> word_of_int k = (ucast w :: 32 word)"
    using low by (rule denotesE) blast
  show ?thesis
  proof (cases "num_of v")
    case (Some k)
    have "uint (ucast w :: 32 word) = k AND 0xFFFFFFFF"
      unfolding word_mask32 k [OF Some, symmetric] by (simp add: uint_word_of_int_eq)
    from means_num4 [OF this] show ?thesis
      using v Some by (simp add: trunc_obj_def trunc32_def yields_new)
  next
    case None
    show ?thesis
    proof (cases "v_size v \<le> 4")
      case True
      then have "ucast (ucast w :: 32 word) = w"
        using assms v(1) by (intro ucast_ucast_small) (simp add: reg_means_def)
      with assms v(1) None True show ?thesis by (simp add: trunc_obj_def yields_ret)
    next
      case False
      have m: "denotes z ev st m (Some (0, Num 0xFFFFFFFF 4 (-1))) (-1 :: 32 word)"
      proof -
        have "(word_of_int 0xFFFFFFFF :: 32 word) = -1" by code_simp
        then show ?thesis using denotes_imm32 [of st m 0 "0xFFFFFFFF" "-1"] by (simp only:)
      qed
      have "BPF_AND \<in> alu_binary_codes" by (simp add: alu_binary_codes_def alu_codes_def)
      from binary32_means [OF this low [unfolded v(1)] m, of _ 0 idx] show ?thesis
        using v None False by (simp add: trunc_obj_def trunc32_def yields_new alu_isa_def)
    qed
  qed
qed

end

section \<open>Instructions\<close>

lemma not_ptr_case:
  "\<not> is_ptr v \<Longrightarrow> (case v of Ptr i vo mk np \<Rightarrow> f i vo mk np | _ \<Rightarrow> g) = g"
  by (cases v) (simp_all add: is_ptr_def)

lemma alu_isa_signed:
  "code \<notin> {BPF_DIV, BPF_MOD} \<Longrightarrow> alu_isa code p = alu_isa code q"
  by (auto simp: alu_isa_def fun_eq_iff)

lemma alu_isa_sg:
  "alu_isa code (ofs = 1 \<and> code \<in> {BPF_DIV, BPF_MOD}) d s = alu_isa code (ofs = (1 :: int)) d s"
  "alu_isa code ((if code \<in> {BPF_DIV, BPF_MOD} then ofs else 0) = (1 :: int)) d s = alu_isa code (ofs = 1) d s"
proof -
  have "alu_isa code (ofs = 1 \<and> code \<in> {BPF_DIV, BPF_MOD}) d s = alu_isa code (ofs = (1 :: int)) d s \<and>
    alu_isa code ((if code \<in> {BPF_DIV, BPF_MOD} then ofs else 0) = (1 :: int)) d s = alu_isa code (ofs = 1) d s"
  proof (cases "code \<in> {BPF_DIV, BPF_MOD}")
    case False
    have f: "alu_isa code p d s = alu_isa code q d s" for p q
      by (rule fun_cong [OF fun_cong [OF alu_isa_signed [OF False]]])
    show ?thesis by (intro conjI f)
  qed simp
  then show "alu_isa code (ofs = 1 \<and> code \<in> {BPF_DIV, BPF_MOD}) d s = alu_isa code (ofs = (1 :: int)) d s"
    "alu_isa code ((if code \<in> {BPF_DIV, BPF_MOD} then ofs else 0) = (1 :: int)) d s = alu_isa code (ofs = 1) d s"
    by blast+
qed

lemma arith_isa64:
  "code \<in> alu_codes \<Longrightarrow> word_of_int (arith code a b 64 sg) = alu_isa code sg (word_of_int a :: 64 word) (word_of_int b)"
  using arith_word [where 'a = 64, of 6 code a b sg] by simp

lemma arith_isa32:
  assumes "code \<in> alu_codes"
  shows "uint (alu_isa code sg (word_of_int a :: 32 word) (word_of_int b)) = arith code a b 32 sg"
proof -
  have "alu_isa code sg (word_of_int a :: 32 word) (word_of_int b) = word_of_int (arith code a b 32 sg)"
    using arith_word [where 'a = 32, of 5 code a b sg] assms by simp
  moreover have "take_bit 32 (arith code a b 32 sg) = arith code a b 32 sg"
    using arith32_in_u32 [of code a b sg] by (intro take_bit_int_eq_self) (simp_all add: in_u32_def)
  ultimately show ?thesis by (simp add: uint_word_of_int_eq)
qed

lemma len_num64: "LENGTH(64) = 64" and len_num32: "LENGTH(32) = 32"
  by simp_all

lemma abind_ret_right [simp]: "abind m aret = m"
  by (auto simp: abind_def fun_eq_iff split: sum.split prod.split)

context smtlib
begin

lemma expr_alu64_yields:
  assumes c: "code \<in> alu_binary_codes" and d: "reg_means z ev st m dst d" and s: "reg_means z ev st m src s"
  shows "yields z ev st m (expr_alu_obj dst src code 8 False idx ofs) (alu_isa code (ofs = 1) d s)"
proof -
  obtain n a ta where a: "dst = Some (n, a)" and ka: "\<And>k. num_of a = Some k \<Longrightarrow> word_of_int k = d"
    using means_denotes [OF d] by (rule denotesE) blast
  obtain n' b where b: "src = Some (n', b)" and kb: "\<And>k. num_of b = Some k \<Longrightarrow> word_of_int k = s"
    using means_denotes [OF s] by (rule denotesE) blast
  have ac: "code \<in> alu_codes" using c by (simp add: alu_binary_codes_def)
  consider (same) "expr_alu_same (Some a) (Some b) code"
    | (num) k l where "num_of a = Some k" "num_of b = Some l"
    | (op) "\<not> expr_alu_same (Some a) (Some b) code" "num_of a = None \<or> num_of b = None"
    by (cases "num_of a"; cases "num_of b") auto
  then show ?thesis
  proof cases
    case same
    then have "code = BPF_ADD \<or> code = BPF_SUB" "s = 0" using kb [of 0] by (auto simp: expr_alu_same_def)
    then have "alu_isa code (ofs = 1) d s = d" by (auto simp: alu_isa_def)
    with same d show ?thesis by (simp add: expr_alu_obj_def obj_part_def a b yields_ret)
  next
    case (num k l)
    let ?sg = "ofs = 1 \<and> code \<in> {BPF_DIV, BPF_MOD}"
    have "word_of_int (arith code k l 64 ?sg) = alu_isa code (ofs = 1) d s"
      unfolding arith_isa64 [OF ac] ka [OF num(1)] kb [OF num(2)] by (rule alu_isa_sg)
    with means_num8 [of st m _ "arith code k l 64 ?sg" idx] show ?thesis
      using num by (simp add: expr_alu_obj_def expr_alu_same_def expr_alu_def obj_part_def a b yields_new Let_def)
  next
    case op
    then have "expr_alu (Some a) (Some b) code 8 False idx ofs = Some (ALUbinary code (Some a) (Some b) ofs 8 idx)"
      by (auto simp: expr_alu_def expr_alu_same_def split: option.splits)
    with op(1) binary64_means [OF c means_denotes [OF d [unfolded a]] means_denotes [OF s [unfolded b]]] show ?thesis
      by (simp add: expr_alu_obj_def obj_part_def a b yields_new)
  qed
qed

lemma expr_alu32_yields:
  assumes c: "code \<in> alu_binary_codes" and d: "reg_means z ev st m dst d" and s: "denotes z ev st m src (s :: 32 word)"
  shows "yields z ev st m (abind (expr_alu_obj dst src code 4 False idx ofs)
      (\<lambda>r. if expr_alu_same (obj_part dst) (obj_part src) code then trunc_obj r idx else aret r))
    (ucast (alu_isa code (ofs = 1) (ucast d) s))"
proof -
  have d32: "denotes z ev st m dst (ucast d :: 32 word)" using d by (simp add: means_denotes denotes_low)
  obtain n a where a: "dst = Some (n, a)" and ka: "\<And>k. num_of a = Some k \<Longrightarrow> word_of_int k = (ucast d :: 32 word)"
    using d32 by (rule denotesE) blast
  obtain n' b where b: "src = Some (n', b)" and kb: "\<And>k. num_of b = Some k \<Longrightarrow> word_of_int k = s"
    using s by (rule denotesE) blast
  have ac: "code \<in> alu_codes" using c by (simp add: alu_binary_codes_def)
  consider (same) "expr_alu_same (Some a) (Some b) code"
    | (num) k l where "num_of a = Some k" "num_of b = Some l"
    | (op) "\<not> expr_alu_same (Some a) (Some b) code" "num_of a = None \<or> num_of b = None"
    by (cases "num_of a"; cases "num_of b") auto
  then show ?thesis
  proof cases
    case same
    then have "code = BPF_ADD \<or> code = BPF_SUB" "s = 0" using kb [of 0] by (auto simp: expr_alu_same_def)
    then have "alu_isa code (ofs = 1) (ucast d) s = (ucast d :: 32 word)" by (auto simp: alu_isa_def)
    with same trunc_yields [OF d, of idx] show ?thesis by (simp add: expr_alu_obj_def obj_part_def a b)
  next
    case (num k l)
    let ?sg = "ofs = 1 \<and> code \<in> {BPF_DIV, BPF_MOD}"
    have "uint (alu_isa code (ofs = 1) (ucast d) s) = arith code k l 32 ?sg"
      unfolding ka [OF num(1), symmetric] kb [OF num(2), symmetric] arith_isa32 [OF ac, symmetric]
      by (simp only: alu_isa_sg)
    from means_num4 [OF this, of st m _ idx] show ?thesis
      using num by (simp add: expr_alu_obj_def expr_alu_same_def expr_alu_def obj_part_def a b yields_new Let_def)
  next
    case op
    then have "expr_alu (Some a) (Some b) code 4 False idx ofs = Some (ALUbinary code (Some a) (Some b) ofs 4 idx)"
      by (auto simp: expr_alu_def expr_alu_same_def split: option.splits)
    with op(1) binary32_means [OF c d32 [unfolded a] s [unfolded b]] show ?thesis
      by (simp add: expr_alu_obj_def obj_part_def a b yields_new)
  qed
qed

lemma neg_yields:
  assumes d: "reg_means z ev st m dst d" and e: "\<not> e_brief env" and c: "i_opcode_code ins = BPF_NEG"
  shows "yields z ev st m (unary_alu env idx ins (if wide then 8 else 4) dst)
    (if wide then - d else ucast (- ucast d :: 32 word))"
proof -
  obtain n a t where a: "dst = Some (n, a)" "expr_to_z3 z st a = Inr t" "z_size z t \<le> 64" "word_of_int (ev m t) = d"
    and k: "\<And>k. num_of a = Some k \<Longrightarrow> word_of_int k = d"
    using means_denotes [OF d] by (rule denotesE) blast
  have neg: "BPF_NEG \<in> alu_codes" by (simp add: alu_codes_def)
  show ?thesis
  proof (cases "num_of a")
    case (Some k)
    have "word_of_int (arith BPF_NEG k 0 64 False) = - d"
      unfolding arith_isa64 [OF neg] k [OF Some] by (simp add: alu_isa_def)
    moreover have "uint (- ucast d :: 32 word) = arith BPF_NEG k 0 32 False"
      unfolding arith_isa32 [OF neg, symmetric] k [OF Some, symmetric] by (simp add: alu_isa_def ucast_of_int)
    ultimately show ?thesis
      using Some e c a(1) means_num8 [of st m _ "arith BPF_NEG k 0 64 False" idx]
        means_num4 [of "- ucast d :: 32 word" "arith BPF_NEG k 0 32 False" st m _ idx]
      by (cases wide) (simp_all add: unary_alu_def obj_part_def yields_new Let_def)
  next
    case None
    let ?v = "ALUunary BPF_NEG (Some a) (Some (i_opcode_s ins)) (i_imm ins) (if wide then 8 else 4) (i_opcode_class ins = ALU64)"
    let ?w = "if wide then 64 else 32 :: nat"
    obtain t' where t': "expr_to_z3 z st ?v = Inr t'" "z_size z t' = ?w" "ev m t' = take_bit ?w (- ev m t)"
      using alu_unary_neg [of "Some (i_opcode_s ins)" "i_imm ins" "if wide then 8 else 4" "i_opcode_class ins = ALU64" t m] a(2)
      by (auto simp: enc_opt_def split: if_splits)
    have "reg_means z ev st m (Some (n', ?v)) (if wide then - d else ucast (- ucast d :: 32 word))" for n'
    proof (cases wide)
      case True
      have "- d = word_of_int (- ev m t)" by (simp only: a(4) [symmetric] wi_hom_neg)
      then have "ev m t' = uint (- d)" using t'(3) True by (simp only: uint_word_of_int_eq if_True len_num64)
      with True t' show ?thesis by simp (rule means_wide, simp_all add: is_ptr_def num_of_def)
    next
      case False
      have "(- ucast d :: 32 word) = word_of_int (- ev m t)" by (simp only: a(4) [symmetric] ucast_of_int wi_hom_neg)
      then have "ev m t' = uint (- ucast d :: 32 word)" using t'(3) False by (simp only: uint_word_of_int_eq if_False len_num32)
      with False t' show ?thesis by simp (rule means_narrow, simp_all add: is_ptr_def num_of_def)
    qed
    then show ?thesis using None e c a(1) by (simp add: unary_alu_def obj_part_def yields_new Let_def)
  qed
qed

lemma end_yields:
  assumes d: "reg_means z ev st m dst d" and e: "\<not> e_brief env" and c: "i_opcode_code ins = BPF_END"
    and i: "i_imm ins \<in> {16, 32, 64}"
  shows "yields z ev st m (unary_alu env idx ins sz dst)
    (end_word (i_opcode_class ins = ALU64 \<or> i_opcode_s ins = S_REG) (nat (i_imm ins)) d)"
proof -
  obtain n a t where a: "dst = Some (n, a)" "expr_to_z3 z st a = Inr t" "z_size z t \<le> 64" "word_of_int (ev m t) = d"
    using means_denotes [OF d] by (rule denotesE) blast
  have im: "i_imm ins = 16 \<or> i_imm ins = 32 \<or> i_imm ins = 64" using i by auto
  let ?sw = "i_opcode_class ins = ALU64 \<or> i_opcode_s ins = S_REG"
  let ?v = "ALUunary BPF_END (Some a) (Some (i_opcode_s ins)) (i_imm ins) (nat (i_imm ins div 8)) (i_opcode_class ins = ALU64)"
  obtain t' where t': "expr_to_z3 z st ?v = Inr t'" "z_size z t' = nat (i_imm ins)"
    "ev m t' = (if ?sw then bswap_sem (nat (i_imm ins) div 8) (ev m t) else take_bit (nat (i_imm ins)) (ev m t))"
    using alu_unary_end [OF im, of "Some (i_opcode_s ins)" "nat (i_imm ins div 8)" "i_opcode_class ins = ALU64" t m] a(2)
    by (auto simp: enc_opt_def)
  have sz: "z_size z t' \<le> 64" using t'(2) im by auto
  have "uint d = ev m t" using uint_ev [of t m, where 'a = 64] a(3,4) by simp
  then have w: "word_of_int (ev m t') = end_word ?sw (nat (i_imm ins)) d" using t'(3) by (simp add: end_word_def)
  moreover have "uint (word_of_int (ev m t') :: 64 word) = ev m t'" using sz by (intro uint_ev) simp
  moreover have "ev m t' < 2 ^ 32" if "nat (i_imm ins div 8) \<le> 4"
    using that im t'(2) by (intro ev_less_pow) auto
  ultimately have "reg_means z ev st m (Some (n', ?v)) (end_word ?sw (nat (i_imm ins)) d)" for n'
    unfolding reg_means_def by (intro conjI allI impI denotesI [OF refl _ t'(1) sz]) (simp_all add: is_ptr_def num_of_def)
  then show ?thesis using e c i a(1) by (simp add: unary_alu_def obj_part_def yields_new Let_def)
qed

end

text \<open>What the source operand is: the immediate, or the source register.\<close>

definition src_word :: "instr \<Rightarrow> 64 word \<Rightarrow> 64 word" where
  "src_word ins r = (if i_opcode_s ins = S_IMM then word_of_int (i_imm ins) else r)"

text \<open>The source object of an instruction, when it is needed.\<close>

definition src_ok :: "z3_queries \<Rightarrow> ('m \<Rightarrow> bvt \<Rightarrow> int) \<Rightarrow> z3_state \<Rightarrow> 'm \<Rightarrow> instr \<Rightarrow> obj option \<Rightarrow> 64 word \<Rightarrow> bool" where
  "src_ok z ev st m ins x r \<longleftrightarrow>
     i_opcode_code ins \<in> {BPF_NEG, BPF_END} \<or>
     reg_means z ev st m x (src_word ins r) \<or>
     i_opcode_class ins = ALU \<and> i_opcode_s ins = S_IMM \<and> (\<exists>n. x = Some (n, Num (i_imm ins) 4 (-1)))"

lemma alu_neg: "alu_isa BPF_NEG sg d s = - d"
  by (simp add: alu_isa_def)

lemma dst_case:
  assumes "dst = Some (n, v)" and "\<not> is_ptr v"
  shows "(case dst of Some (n, Ptr i vo mk np) \<Rightarrow> f n i vo mk np | _ \<Rightarrow> g) = g"
  using assms by (cases v) (simp_all add: is_ptr_def)

context smtlib
begin

lemma src_low:
  assumes "src_ok z ev st m ins x r" and "i_opcode_code ins \<notin> {BPF_NEG, BPF_END}"
  shows "denotes z ev st m x (ucast (src_word ins r) :: 32 word)"
proof (cases "reg_means z ev st m x (src_word ins r)")
  case True
  then show ?thesis by (intro denotes_low means_denotes)
next
  case False
  with assms obtain n where "x = Some (n, Num (i_imm ins) 4 (-1))" "src_word ins r = word_of_int (i_imm ins)"
    by (auto simp: src_ok_def src_word_def)
  then show ?thesis using denotes_imm32 [of st m n "i_imm ins" "-1"] by (simp add: ucast_of_int)
qed

lemma src_wide:
  assumes "src_ok z ev st m ins x r" and "i_opcode_code ins \<notin> {BPF_NEG, BPF_END}" and "i_opcode_class ins = ALU64"
  shows "reg_means z ev st m x (src_word ins r)"
  using assms by (auto simp: src_ok_def)

lemma mov_yields:
  assumes v: "alu_valid ins" and e: "\<not> e_brief env" and s: "src_ok z ev st m ins src r" and c: "i_opcode_code ins = BPF_MOV"
  shows "yields z ev st m (alu_result env idx ins src dst) (alu_exec ins d r)"
proof -
  have cn: "i_opcode_code ins \<notin> {BPF_NEG, BPF_END}" using c by simp
  note low = src_low [OF s cn] and wide = src_wide [OF s cn]
  have cl: "i_opcode_class ins = ALU64 \<or> i_opcode_class ins = ALU" using v by (auto simp: alu_valid_def)
  have off: "i_offset ins = 0 \<or> 1 \<le> i_offset ins \<and> i_offset ins \<le> 32" using v c
    by (auto simp: alu_valid_def alu_codes_def)
  consider (plain64) "i_offset ins = 0" "i_opcode_class ins = ALU64" | (plain32) "i_offset ins = 0" "i_opcode_class ins = ALU"
    | (sx64) "i_offset ins \<noteq> 0" "i_opcode_class ins = ALU64" | (sx32) "i_offset ins \<noteq> 0" "i_opcode_class ins = ALU"
    using cl by blast
  then show ?thesis
  proof cases
    case plain64
    with wide c show ?thesis by (simp add: alu_result_def alu_exec_def src_word_def yields_ret Let_def)
  next
    case plain32
    have "yields z ev st m (trunc_obj src idx) (ucast (ucast (src_word ins r) :: 32 word))"
    proof (cases "reg_means z ev st m src (src_word ins r)")
      case False
      then obtain n where n: "src = Some (n, Num (i_imm ins) 4 (-1))" and w: "src_word ins r = word_of_int (i_imm ins)"
        using s cn by (auto simp: src_ok_def src_word_def)
      have "uint (ucast (src_word ins r) :: 32 word) = i_imm ins AND 0xFFFFFFFF"
        unfolding w ucast_of_int word_mask32 by (simp only: uint_word_of_int_eq len_num32)
      from means_num4 [OF this, of st m _ idx] show ?thesis
        by (simp add: n trunc_obj_def trunc32_def is_ptr_def num_of_def yields_new)
    qed (rule trunc_yields)
    with plain32 c show ?thesis by (simp add: alu_result_def alu_exec_def src_word_def Let_def)
  next
    case sx64
    then have "yields z ev st m (sext_obj src (i_offset ins) 8 idx) (word_of_int (uint (sext_word (nat (i_offset ins)) (src_word ins r))))"
      using off by (intro sext_yields means_denotes wide) auto
    with sx64 c e show ?thesis by (simp add: alu_result_def alu_exec_def src_word_def Let_def)
  next
    case sx32
    then have "yields z ev st m (sext_obj src (i_offset ins) 4 idx)
        (word_of_int (uint (sext_word (nat (i_offset ins)) (ucast (src_word ins r) :: 32 word))))"
      using off by (intro sext_yields low) auto
    with sx32 c e show ?thesis by (simp add: alu_result_def alu_exec_def src_word_def Let_def)
  qed
qed

lemma alu_result_yields:
  assumes v: "alu_valid ins" and e: "\<not> e_brief env" and s: "src_ok z ev st m ins src r"
    and d: "i_opcode_code ins \<noteq> BPF_MOV \<Longrightarrow> reg_means z ev st m dst d"
  shows "yields z ev st m (alu_result env idx ins src dst) (alu_exec ins d r)"
proof (cases "i_opcode_code ins = BPF_MOV")
  case True
  show ?thesis by (rule mov_yields [OF v e s True])
next
  case False
  note dm = d [OF False]
  obtain n a where a: "dst = Some (n, a)" "\<not> is_ptr a" using means_denotes [OF dm] by (rule denotesE) blast
  have cl: "i_opcode_class ins = ALU64 \<or> i_opcode_class ins = ALU" using v by (auto simp: alu_valid_def)
  let ?w = "i_opcode_class ins = ALU64"
  let ?c = "i_opcode_code ins"
  note run = dst_case [OF a]
  consider (neg) "?c = BPF_NEG" | (ed) "?c = BPF_END" "i_imm ins \<in> {16, 32, 64}" | (bin) "?c \<in> alu_binary_codes" "?c \<notin> {BPF_NEG, BPF_END}"
    using v False by (auto simp: alu_valid_def alu_binary_codes_def alu_codes_def)
  then show ?thesis
  proof cases
    case neg
    with neg_yields [OF dm e neg, of idx ?w] show ?thesis
      using False by (cases ?w) (simp_all add: alu_result_def alu_exec_def run alu_neg Let_def)
  next
    case ed
    with end_yields [OF dm e ed, of idx "if ?w then 8 else 4"] show ?thesis
      using False by (simp add: alu_result_def alu_exec_def run Let_def)
  next
    case bin
    let ?o = "if ?c \<in> {BPF_DIV, BPF_MOD} then i_offset ins else 0"
    show ?thesis
    proof (cases ?w)
      case True
      have "yields z ev st m (expr_alu_obj dst src ?c 8 False idx ?o) (alu_isa ?c (i_offset ins = 1) d (src_word ins r))"
        using expr_alu64_yields [OF bin(1) dm src_wide [OF s bin(2) True], of idx ?o] by (simp only: alu_isa_sg)
      with True False bin e show ?thesis
        by (simp add: alu_result_def alu_exec_def run src_word_def Let_def)
    next
      case f: False
      have "yields z ev st m (abind (expr_alu_obj dst src ?c 4 False idx ?o)
          (\<lambda>r. if expr_alu_same (obj_part dst) (obj_part src) ?c then trunc_obj r idx else aret r))
        (ucast (alu_isa ?c (i_offset ins = 1) (ucast d) (ucast (src_word ins r) :: 32 word)))"
        using expr_alu32_yields [OF bin(1) dm src_low [OF s bin(2)], of idx ?o] by (simp only: alu_isa_sg)
      with f False bin e show ?thesis
        by (simp add: alu_result_def alu_exec_def run src_word_def Let_def)
    qed
  qed
qed

text \<open>One instruction: the destination register denotes the result, nothing else of the block changes.\<close>

lemma track_alu_run:
  assumes i: "ins = e_instrs env ! idx" and v: "alu_valid ins" and e: "\<not> e_brief env"
    and len: "length (t_regs (c_blk s)) = 11"
    and src: "i_opcode_s ins = S_REG \<Longrightarrow> i_opcode_code ins \<notin> {BPF_NEG, BPF_END} \<Longrightarrow>
      reg_means z ev st m (t_regs (c_blk s) ! nat (i_src_reg ins)) r"
    and dst: "i_opcode_code ins \<noteq> BPF_MOV \<Longrightarrow> reg_means z ev st m (t_regs (c_blk s) ! nat (i_dst_reg ins)) d"
  shows "\<exists>x s'. track_alu env idx s = Inr ((), s') \<and> reg_means z ev st m x (alu_exec ins d r) \<and>
     c_blk s' = (c_blk s)\<lparr>t_regs := (t_regs (c_blk s))[nat (i_dst_reg ins) := x]\<rparr>"
proof -
  let ?R = "t_regs (c_blk s)"
  have rn: "py_index ?R (i_src_reg ins) = Some (nat (i_src_reg ins))" "py_index ?R (i_dst_reg ins) = Some (nat (i_dst_reg ins))"
    using v len by (auto simp: alu_valid_def py_index_def)
  have im: "- (2 ^ 31) \<le> i_imm ins" "i_imm ins < 2 ^ 31" and so: "i_opcode_s ins = S_IMM \<or> i_opcode_s ins = S_REG"
    and cl: "i_opcode_class ins = ALU64 \<or> i_opcode_class ins = ALU"
    using v by (auto simp: alu_valid_def)
  obtain x1 s1 where 1: "alu_src ins (?R ! nat (i_src_reg ins)) s = Inr (x1, s1)" "c_blk s1 = c_blk s"
    and ok: "src_ok z ev st m ins x1 r"
  proof (cases "i_opcode_s ins = S_IMM")
    case True
    let ?v = "if i_opcode_class ins = ALU64 then imm64 (i_imm ins) else Num (i_imm ins) 4 (-1)"
    have run: "alu_src ins (?R ! nat (i_src_reg ins)) s = Inr (Some (c_oids s, ?v), s\<lparr>c_oids := Suc (c_oids s)\<rparr>)"
      using True by (simp add: alu_src_def some_act_def act_simps)
    have "src_ok z ev st m ins (Some (c_oids s, ?v)) r"
      using means_imm64 [OF im, of st m "c_oids s"] True cl by (auto simp: src_ok_def src_word_def)
    from that [OF run _ this] show thesis by simp
  next
    case False
    have run: "alu_src ins (?R ! nat (i_src_reg ins)) s = Inr (?R ! nat (i_src_reg ins), s)"
      using False by (simp add: alu_src_def)
    have "src_ok z ev st m ins (?R ! nat (i_src_reg ins)) r"
      using False so src by (auto simp: src_ok_def src_word_def)
    from that [OF run refl this] show thesis .
  qed
  have "yields z ev st m (alu_result env (int idx) ins x1 (?R ! nat (i_dst_reg ins))) (alu_exec ins d r)"
    by (rule alu_result_yields [OF v e ok dst])
  then obtain x s2 where 2: "alu_result env (int idx) ins x1 (?R ! nat (i_dst_reg ins)) s1 = Inr (x, s2)"
    "c_blk s2 = c_blk s1" and x: "reg_means z ev st m x (alu_exec ins d r)"
    unfolding yields_def by blast
  let ?s' = "s2\<lparr>c_blk := (c_blk s2)\<lparr>t_regs := (t_regs (c_blk s2))[nat (i_dst_reg ins) := x]\<rparr>\<rparr>"
  have "track_alu env idx s = Inr ((), ?s')"
    using 1 2 rn by (simp add: track_alu_def i [symmetric] Let_def get_reg_def put_reg_def set_reg_def abind_Inr)
  with x 1 2 show ?thesis by (intro exI [of _ x] exI [of _ ?s']) simp
qed

end

section \<open>Straight-line code\<close>

text \<open>The registers an instruction reads, and its effect on the machine's registers.\<close>

definition reads :: "instr \<Rightarrow> nat set" where
  "reads ins =
     (if i_opcode_s ins = S_REG \<and> i_opcode_code ins \<notin> {BPF_NEG, BPF_END} then {nat (i_src_reg ins)} else {}) \<union>
     (if i_opcode_code ins \<noteq> BPF_MOV then {nat (i_dst_reg ins)} else {})"

definition exec_alu :: "instr \<Rightarrow> (nat \<Rightarrow> 64 word) \<Rightarrow> nat \<Rightarrow> 64 word" where
  "exec_alu ins rf =
     rf(nat (i_dst_reg ins) := alu_exec ins (rf (nat (i_dst_reg ins))) (rf (nat (i_src_reg ins))))"

text \<open>Every register read was defined at the start or written before.\<close>

fun reads_defined :: "nat set \<Rightarrow> instr list \<Rightarrow> bool" where
  "reads_defined S [] = True"
| "reads_defined S (ins # rest) = (reads ins \<subseteq> S \<and> reads_defined (insert (nat (i_dst_reg ins)) S) rest)"

definition regs_mean ::
  "z3_queries \<Rightarrow> ('m \<Rightarrow> bvt \<Rightarrow> int) \<Rightarrow> z3_state \<Rightarrow> 'm \<Rightarrow> nat set \<Rightarrow> tblock \<Rightarrow> (nat \<Rightarrow> 64 word) \<Rightarrow> bool" where
  "regs_mean z ev st m S b rf \<longleftrightarrow>
     length (t_regs b) = 11 \<and> (\<forall>r \<in> S. r < 11 \<and> reg_means z ev st m (t_regs b ! r) (rf r))"


text \<open>
  Claim C16.  The symbolic execution of an arithmetic instruction is the instruction.  In the full
  pass, when the operands an ALU instruction reads are held by registers that denote machine words,
  tracking it does not raise; the value put in the destination register denotes, under every
  assignment of the solver's variables, exactly the word the processor computes there (64-bit and
  32-bit forms, zero extension of 32-bit results, sign-extending moves, byte swaps, folded
  constants and shared objects included), and nothing else of the block changes.
\<close>

theorem track_alu_exact:
  assumes "smtlib z ev evb eva evab" and "alu_valid (e_instrs env ! idx)" and "\<not> e_brief env"
    and "regs_mean z ev st m (reads (e_instrs env ! idx)) (c_blk s) rf" 
  shows "\<exists>x s'. track_alu env idx s = Inr ((), s') \<and>
     reg_means z ev st m x (exec_alu (e_instrs env ! idx) rf (nat (i_dst_reg (e_instrs env ! idx)))) \<and>
     c_blk s' = (c_blk s)\<lparr>t_regs := (t_regs (c_blk s))[nat (i_dst_reg (e_instrs env ! idx)) := x]\<rparr>"
  using smtlib.track_alu_run [OF assms(1) refl assms(2,3), of s st m] assms(4)
  by (simp add: regs_mean_def reads_def exec_alu_def)

lemma alu_not_other: "alu_valid ins \<Longrightarrow> is_alu ins"
  by (auto simp: alu_valid_def is_alu_def)

context smtlib
begin

lemma alu_step_means:
  assumes v: "alu_valid ins" and i: "ins = e_instrs env ! idx" and e: "\<not> e_brief env"
    and S: "regs_mean z ev st m S (c_blk s) rf" and r: "reads ins \<subseteq> S"
  shows "\<exists>s'. track_instr env blocks idx s = Inr ((), s') \<and>
     regs_mean z ev st m (insert (nat (i_dst_reg ins)) S) (c_blk s') (exec_alu ins rf)"
proof -
  let ?t = "s\<lparr>c_blk := (c_blk s)\<lparr>t_idx := Some (int idx)\<rparr>\<rparr>"
  have len: "length (t_regs (c_blk ?t)) = 11" using S by (simp add: regs_mean_def)
  have rg: "reg_means z ev st m (t_regs (c_blk ?t) ! k) (rf k)" if "k \<in> reads ins" for k
    using S r that by (auto simp: regs_mean_def)
  obtain x s' where x: "track_alu env idx ?t = Inr ((), s')"
    "reg_means z ev st m x (alu_exec ins (rf (nat (i_dst_reg ins))) (rf (nat (i_src_reg ins))))"
    "c_blk s' = (c_blk ?t)\<lparr>t_regs := (t_regs (c_blk ?t))[nat (i_dst_reg ins) := x]\<rparr>"
    using track_alu_run [OF i v e len, of st m "rf (nat (i_src_reg ins))" "rf (nat (i_dst_reg ins))"] rg
    by (auto simp: reads_def)
  have "nat (i_dst_reg ins) < 11" using v by (auto simp: alu_valid_def)
  with x S alu_not_other [OF v] i show ?thesis
    by (intro exI [of _ s']) (auto simp: track_instr_def Let_def regs_mean_def exec_alu_def nth_list_update)
qed

lemma alu_steps_mean:
  assumes "\<forall>i \<in> set idxs. alu_valid (e_instrs env ! i)" and "\<not> e_brief env"
    and "reads_defined S (map (\<lambda>i. e_instrs env ! i) idxs)" and "regs_mean z ev st m S (c_blk s) rf"
  shows "\<exists>s'. aeach (track_instr env blocks) idxs s = Inr ((), s') \<and>
     regs_mean z ev st m (S \<union> (\<lambda>i. nat (i_dst_reg (e_instrs env ! i))) ` set idxs) (c_blk s')
       (fold (\<lambda>i. exec_alu (e_instrs env ! i)) idxs rf)"
  using assms
proof (induction idxs arbitrary: S s rf)
  case (Cons i idxs)
  let ?ins = "e_instrs env ! i"
  have "alu_valid ?ins" "reads ?ins \<subseteq> S" using Cons.prems by simp_all
  then obtain t where t: "track_instr env blocks i s = Inr ((), t)"
    "regs_mean z ev st m (insert (nat (i_dst_reg ?ins)) S) (c_blk t) (exec_alu ?ins rf)"
    using alu_step_means [OF _ refl Cons.prems(2,4)] by blast
  from Cons.IH [OF _ Cons.prems(2) _ t(2)] Cons.prems(1,3) obtain s' where
    "aeach (track_instr env blocks) idxs t = Inr ((), s')"
    "regs_mean z ev st m (insert (nat (i_dst_reg ?ins)) S \<union> (\<lambda>i. nat (i_dst_reg (e_instrs env ! i))) ` set idxs) (c_blk s')
       (fold (\<lambda>i. exec_alu (e_instrs env ! i)) idxs (exec_alu ?ins rf))" by auto
  with t(1) show ?case by (intro exI [of _ s']) (simp add: abind_Inr)
qed simp

end

text \<open>
  Straight-line arithmetic code is executed symbolically without error and faithfully: if
  the registers that are read before they are written denote the machine's registers, then after
  any sequence of ALU instructions every register that was known or written denotes the content
  the machine's register has after the same sequence.
\<close>

theorem straight_line_sound:
  assumes "smtlib z ev evb eva evab" and "\<forall>i \<in> set idxs. alu_valid (e_instrs env ! i)" and "\<not> e_brief env"
    and "reads_defined S (map (\<lambda>i. e_instrs env ! i) idxs)" and "regs_mean z ev st m S (c_blk s) rf"
  shows "\<exists>s'. aeach (track_instr env blocks) idxs s = Inr ((), s') \<and>
     regs_mean z ev st m (S \<union> (\<lambda>i. nat (i_dst_reg (e_instrs env ! i))) ` set idxs) (c_blk s')
       (fold (\<lambda>i. exec_alu (e_instrs env ! i)) idxs rf)"
  using assms by (rule smtlib.alu_steps_mean)

text \<open>A program for the witnesses: \<open>r3 = -7; r3 /= 2\<close> signed, \<open>w3 += w3\<close>.\<close>

definition alu_instr :: "int \<Rightarrow> int \<Rightarrow> int \<Rightarrow> int \<Rightarrow> int \<Rightarrow> int \<Rightarrow> int \<Rightarrow> instr" where
  "alu_instr cl sr code dst src off im =
     (blank_instr 0 0 [] False)\<lparr>i_opcode_class := cl, i_opcode_s := sr, i_opcode_code := code, i_dst_reg := dst,
        i_src_reg := src, i_offset := off, i_imm := im\<rparr>"

definition alu_env :: tenv where
  "alu_env = \<lparr>e_instrs = [alu_instr ALU64 S_IMM BPF_MOV 3 0 0 (-7), alu_instr ALU64 S_IMM BPF_DIV 3 0 1 2,
     alu_instr ALU S_REG BPF_ADD 3 3 0 0], e_maps = [], e_rodata = [], e_progs = [], e_brief = False\<rparr>"

definition alu_start :: tctx where
  "alu_start = \<lparr>c_blk = new_tblock (new_bblock 0 0 2), c_ids = 3, c_oids = 0\<rparr>"

lemma alu_env_valid: "\<forall>i \<in> set [0, 1, 2]. alu_valid (e_instrs alu_env ! i)"
  by (simp add: alu_env_def alu_instr_def alu_valid_def alu_codes_def blank_instr_def)

lemma alu_start_regs: "regs_mean z ev st m {} (c_blk alu_start) rf"
  by (simp add: regs_mean_def alu_start_def new_tblock_def bblock.extend_def)

theorem track_alu_exact_witness:
  "\<exists>x s'. track_alu alu_env 0 alu_start = Inr ((), s') \<and>
     reg_means std_queries eval_bv (make_init_state [] []) demo_env x (-7)"
proof -
  have f: "\<not> e_brief alu_env" and r: "reads (e_instrs alu_env ! 0) = {}" and v: "alu_valid (e_instrs alu_env ! 0)"
    and x: "exec_alu (e_instrs alu_env ! 0) (\<lambda>_. 0) (nat (i_dst_reg (e_instrs alu_env ! 0))) = -7"
    using alu_env_valid by (simp_all add: alu_env_def alu_instr_def reads_def exec_alu_def alu_exec_def blank_instr_def)
  have s: "regs_mean std_queries eval_bv (make_init_state [] []) demo_env (reads (e_instrs alu_env ! 0)) (c_blk alu_start) (\<lambda>_. 0)"
    unfolding r by (rule alu_start_regs)
  from track_alu_exact [OF smtlib_std v f s] show ?thesis unfolding x by blast
qed

theorem straight_line_sound_witness:
  "\<exists>s'. aeach (track_instr alu_env []) [0, 1, 2] alu_start = Inr ((), s') \<and>
     reg_means std_queries eval_bv (make_init_state [] []) demo_env (t_regs (c_blk s') ! 3) 0xFFFFFFFA"
proof -
  have f: "\<not> e_brief alu_env" and r: "reads_defined {} (map (\<lambda>i. e_instrs alu_env ! i) [0, 1, 2])"
    and d: "(\<lambda>i. nat (i_dst_reg (e_instrs alu_env ! i))) ` set [0, 1, 2] = {3}"
    by (simp_all add: alu_env_def alu_instr_def reads_def blank_instr_def)
  have x: "fold (\<lambda>i. exec_alu (e_instrs alu_env ! i)) [0, 1, 2] (\<lambda>_. 0) 3 = 0xFFFFFFFA" by code_simp
  have "\<exists>s'. aeach (track_instr alu_env []) [0, 1, 2] alu_start = Inr ((), s') \<and>
     regs_mean std_queries eval_bv (make_init_state [] []) demo_env ({} \<union> {3}) (c_blk s')
       (fold (\<lambda>i. exec_alu (e_instrs alu_env ! i)) [0, 1, 2] (\<lambda>_. 0))"
    using straight_line_sound [OF smtlib_std alu_env_valid f r alu_start_regs] unfolding d .
  then show ?thesis unfolding regs_mean_def x [symmetric] by blast
qed

end
