(* ===== verification/Stack.thy ===== *)
theory Stack
  imports Tracker_Alu
begin

text \<open>
  The stack of a block (\<open>stk_store\<close> and \<open>stk_load\<close> of \<open>hornet/track/block.py\<close>) as a byte memory:
  eight-byte slots hold values, a narrow store is masked, shifted and merged into the slot, a
  narrow load masks or shifts it out.  What the slots denote, in the sense of \<open>reg_means\<close>, is what
  the bytes of memory hold.
\<close>

section \<open>Slots as words\<close>

definition slot_word :: "64 word \<Rightarrow> nat \<Rightarrow> nat \<Rightarrow> 64 word \<Rightarrow> 64 word" where
  "slot_word old sz off w =
     (old AND NOT (push_bit (8 * off) (mask (8 * sz)))) OR push_bit (8 * off) (w AND mask (8 * sz))"

lemma slot_word_read:
  assumes "off + sz \<le> 8"
  shows "drop_bit (8 * off) (slot_word old sz off w) AND mask (8 * sz) = w AND mask (8 * sz)"
  using assms by (intro bit_word_eqI) (auto simp: slot_word_def bit_simps)

lemma slot_word_full: "slot_word old 8 0 w = w"
  by (intro bit_word_eqI) (auto simp: slot_word_def bit_simps)

lemma word_of_mask: "word_of_int (push_bit n 1 - 1) = (mask n :: 64 word)"
  by (simp add: mask_eq_exp_minus_1 push_bit_eq_mult)

lemma word_of_keep:
  "word_of_int ((push_bit 64 1 - 1) XOR push_bit k (push_bit n 1 - 1)) = (NOT (push_bit k (mask n)) :: 64 word)"
proof -
  have "word_of_int (push_bit 64 1 - 1) = (-1 :: 64 word)"
    using word_of_mask [of 64] by simp
  moreover have "word_of_int (push_bit k (push_bit n 1 - 1)) = (push_bit k (mask n) :: 64 word)"
  proof -
    have i: "push_bit n 1 - 1 = (mask n :: int)" by (simp add: mask_eq_exp_minus_1 push_bit_eq_mult)
    show ?thesis unfolding i by (intro bit_word_eqI) (auto simp: bit_simps)
  qed
  ultimately show ?thesis by (simp only: bitwise_of_int bit.xor_one_left)
qed

text \<open>A cell that was never written reads as zero.\<close>

definition cell_means :: "z3_queries \<Rightarrow> ('m \<Rightarrow> bvt \<Rightarrow> int) \<Rightarrow> z3_state \<Rightarrow> 'm \<Rightarrow> obj option \<Rightarrow> 64 word \<Rightarrow> bool" where
  "cell_means z ev st m x w \<longleftrightarrow> x = None \<and> w = 0 \<or> reg_means z ev st m x w"

definition cell_at :: "tblock \<Rightarrow> nat \<Rightarrow> obj option" where
  "cell_at b k = (if k < length (t_stk b) then t_stk b ! k else None)"

context smtlib
begin

lemma and_means:
  assumes "reg_means z ev st m (Some (n, v)) w" and "sz \<le> 8" and "k = sz \<or> k = 8" and "0 < sz"
  shows "reg_means z ev st m (Some (n', ALUbinary BPF_AND (Some v) (Some (mask_num sz k)) 0 8 idx)) (w AND mask (8 * sz))"
proof -
  define c :: int where "c = push_bit (sz * 8) 1 - 1"
  have b: "take_bit (k * 8) c = c"
    using assms(2,3) by (auto simp: c_def push_bit_eq_mult simp flip: mask_eq_exp_minus_1)
  have w: "word_of_int c = (mask (8 * sz) :: 64 word)" unfolding c_def word_of_mask by (simp add: mult.commute)
  have n: "mask_num sz k = Num c k (-1)" by (simp add: mask_num_def c_def)
  have "denotes z ev st m (Some (0, mask_num sz k)) (mask (8 * sz) :: 64 word)"
    unfolding n using assms(2,3) b w
    by (intro denotesI [where t = "BitVecVal c (k * 8)"]) (auto simp: is_ptr_def size_BitVecVal ev_BitVecVal num_of_def)
  moreover have "BPF_AND \<in> alu_binary_codes" by (simp add: alu_binary_codes_def alu_codes_def)
  ultimately show ?thesis
    using binary64_means [of BPF_AND st m n v w 0 "mask_num sz k" "mask (8 * sz)" n' 0 idx] means_denotes [OF assms(1)]
    by (simp add: alu_isa_def)
qed

lemma shl_means:
  assumes "reg_means z ev st m (Some (n, v)) w" and "off < 8"
  shows "reg_means z ev st m (Some (n', ALUbinary BPF_LSH (Some v) (Some (Num (int (off * 8)) 8 (-1))) 0 8 idx))
    (push_bit (8 * off) w)"
proof -
  have "denotes z ev st m (Some (0, Num (int (off * 8)) 8 (-1))) (word_of_int (int (off * 8)) :: 64 word)"
    by (rule means_denotes [OF means_num8])
  moreover have "BPF_LSH \<in> alu_binary_codes" by (simp add: alu_binary_codes_def alu_codes_def)
  moreover have "unat (word_of_int (int (off * 8)) :: 64 word) mod 64 = 8 * off"
    using assms(2) by (simp add: unat_word_ariths unat_of_nat mult.commute)
  ultimately show ?thesis
    using binary64_means [of BPF_LSH st m n v w 0 "Num (int (off * 8)) 8 (-1)" "word_of_int (int (off * 8))" n' 0 idx]
      means_denotes [OF assms(1)]
    by (simp add: alu_isa_def)
qed

lemma or_keep_means:
  assumes "reg_means z ev st m (Some (n, v)) w" and "reg_means z ev st m (Some (n2, u)) old"
  shows "reg_means z ev st m (Some (n', ALUbinary BPF_OR
      (Some (ALUbinary BPF_AND (Some u) (Some (Num ((push_bit 64 1 - 1) XOR push_bit (off * 8) (push_bit (sz * 8) 1 - 1)) 8 (-1))) 0 8 idx))
      (Some v) 0 8 idx))
    ((old AND NOT (push_bit (8 * off) (mask (8 * sz)))) OR w)"
proof -
  let ?k = "(push_bit 64 1 - 1) XOR push_bit (off * 8) (push_bit (sz * 8) 1 - 1) :: int"
  have c: "BPF_AND \<in> alu_binary_codes" "BPF_OR \<in> alu_binary_codes" by (simp_all add: alu_binary_codes_def alu_codes_def)
  have "denotes z ev st m (Some (0, Num ?k 8 (-1))) (word_of_int ?k :: 64 word)"
    by (rule means_denotes [OF means_num8])
  from binary64_means [OF c(1) means_denotes [OF assms(2)] this, of 0 0 idx]
  have a: "reg_means z ev st m (Some (0, ALUbinary BPF_AND (Some u) (Some (Num ?k 8 (-1))) 0 8 idx))
      (old AND NOT (push_bit (8 * off) (mask (8 * sz))))"
    unfolding word_of_keep by (simp add: alu_isa_def mult.commute)
  from binary64_means [OF c(2) means_denotes [OF a] means_denotes [OF assms(1)], of n' 0 idx]
  show ?thesis by (simp add: alu_isa_def)
qed

end

section \<open>Stores and loads\<close>

definition slot_no :: "int \<Rightarrow> nat" where
  "slot_no addr = nat (- (addr div 8) - 1)"

lemma slot_no: "addr < 0 \<Longrightarrow> stk_slot addr = int (slot_no addr)"
  by (simp add: stk_slot_def slot_no_def)

context smtlib
begin

lemma store_part_run:
  assumes x: "reg_means z ev st m x w" and "0 < sz" and "off + sz \<le> 8"
  shows "\<exists>y s'. store_part idx off sz x s = Inr (y, s') \<and> c_blk s' = c_blk s \<and>
     reg_means z ev st m y (push_bit (8 * off) (w AND mask (8 * sz))) \<and>
     (\<exists>n v. y = Some (n, v) \<and> \<not> is_ptr v \<and> (if sz < 8 then v_size v = 8 else y = x))"
proof -
  obtain n v where v: "x = Some (n, v)" "\<not> is_ptr v" using means_denotes [OF x] by (rule denotesE) blast
  let ?a = "ALUbinary BPF_AND (Some v) (Some (mask_num sz 8)) 0 8 idx"
  have a: "reg_means z ev st m (Some (k, ?a)) (w AND mask (8 * sz))" for k
    using and_means [OF x [unfolded v(1)], of sz 8] assms(2,3) by simp
  show ?thesis
  proof (cases "sz < 8")
    case True
    show ?thesis
    proof (cases "off = 0")
      case True
      with \<open>sz < 8\<close> v a show ?thesis
        by (simp add: store_part_def some_act_def act_simps abind_cases obj_part_def is_ptr_def)
    next
      case False
      have "off < 8" using assms(2,3) by simp
      with False \<open>sz < 8\<close> v shl_means [OF a, of off] show ?thesis
        by (simp add: store_part_def some_act_def act_simps abind_cases obj_part_def is_ptr_def)
    qed
  next
    case False
    then have "sz = 8" "off = 0" using assms(3) by simp_all
    moreover have "w AND mask 64 = w" by (intro bit_word_eqI) (auto simp: bit_simps)
    ultimately show ?thesis using x v by (simp add: store_part_def)
  qed
qed

lemma slot_index:
  assumes "k < length (t_stk b)"
  shows "stk_index (t_stk b) (int k) s = Inr (k, s)"
  using assms by (simp add: stk_index_def py_index_def)

lemma stk_store_run:
  assumes x: "reg_means z ev st m x w" and addr: "addr < 0" and sz: "0 < sz" "nat (addr mod 8) + sz \<le> 8"
    and old: "cell_means z ev st m (cell_at (c_blk s) (slot_no addr)) old"
  defines "k \<equiv> slot_no addr" and "off \<equiv> nat (addr mod 8)"
  shows "\<exists>s1 y. stk_store addr sz x s = Inr ((), s1) \<and>
     c_blk s1 = (c_blk s)\<lparr>t_stk := (t_stk (c_blk s) @ replicate (Suc k - length (t_stk (c_blk s))) None)[k := y]\<rparr> \<and>
     reg_means z ev st m y (slot_word old sz off w) \<and>
     (\<exists>n v. y = Some (n, v) \<and> \<not> is_ptr v \<and> (if sz < 8 then v_size v = 8 else y = x))"
proof -
  let ?b = "(c_blk s)\<lparr>t_stk := t_stk (c_blk s) @ replicate (Suc k - length (t_stk (c_blk s))) None\<rparr>"
  let ?s = "s\<lparr>c_blk := ?b\<rparr>"
  let ?idx = "cur_idx (c_blk s)"
  have kl: "k < length (t_stk ?b)" by simp
  have cell: "t_stk ?b ! k = cell_at (c_blk s) k" by (simp add: cell_at_def nth_append)
  have slot: "stk_slot addr = int k" unfolding k_def by (rule slot_no [OF addr])
  have grow: "nat (int k + 1) = Suc k" by simp
  have idx: "cur_idx ?b = ?idx" by (simp add: cur_idx_def)
  obtain y0 s2 where y0: "store_part ?idx off sz x ?s = Inr (y0, s2)" "c_blk s2 = ?b"
    "reg_means z ev st m y0 (push_bit (8 * off) (w AND mask (8 * sz)))"
    and sh: "\<exists>n v. y0 = Some (n, v) \<and> \<not> is_ptr v \<and> (if sz < 8 then v_size v = 8 else y0 = x)"
    using store_part_run [OF x sz(1) sz(2) [folded off_def], of ?idx ?s] by auto
  let ?keep = "(push_bit 64 1 - 1) XOR push_bit (off * 8) (push_bit (sz * 8) 1 - 1) :: int"
  let ?or = "\<lambda>u v. ALUbinary BPF_OR (Some (ALUbinary BPF_AND u (Some (Num ?keep 8 (-1))) 0 8 ?idx)) v 0 8 ?idx"
  have "stk_store addr sz x s = abind (store_part ?idx off sz x) (stk_join ?idx (int k) off sz) ?s"
    unfolding stk_store_def Let_def slot grow by (simp add: idx off_def)
  also have "\<dots> = stk_join ?idx (int k) off sz y0 s2" by (simp add: abind_def y0(1))
  also have "\<dots> = (if t_stk ?b ! k = None \<or> off = 0 \<and> 8 \<le> sz then stk_put k y0 s2
     else abind (new_obj (?or (obj_part (t_stk ?b ! k)) (obj_part y0))) (\<lambda>v. stk_put k (Some v)) s2)"
    using slot_index [OF kl, of s2] unfolding stk_join_def abind_get y0(2) by (simp add: abind_def [of "stk_index _ _"] Let_def)
  finally have run: "stk_store addr sz x s = \<dots>" .
  consider (plain) "t_stk ?b ! k = None \<or> off = 0 \<and> 8 \<le> sz" | (merge) "t_stk ?b ! k \<noteq> None" "\<not> (off = 0 \<and> 8 \<le> sz)"
    by blast
  then show ?thesis
  proof cases
    case plain
    have "push_bit (8 * off) (w AND mask (8 * sz)) = slot_word old sz off w"
    proof (cases "off = 0 \<and> 8 \<le> sz")
      case True
      then have "sz = 8" using sz(2) by simp
      moreover have "w AND mask 64 = w" by (intro bit_word_eqI) (auto simp: bit_simps)
      ultimately show ?thesis using True slot_word_full [of old w] by (simp add: slot_word_def)
    next
      case False
      with plain cell old have "old = 0" by (auto simp: cell_means_def k_def reg_means_def denotes_def)
      then show ?thesis by (simp add: slot_word_def)
    qed
    moreover have "stk_store addr sz x s = Inr ((), s2\<lparr>c_blk := ?b\<lparr>t_stk := (t_stk ?b)[k := y0]\<rparr>\<rparr>)"
      unfolding run using plain y0(2) by (simp only: if_True stk_put_def amod_run)
    ultimately show ?thesis
      using y0(3) sh by (intro exI [of _ "s2\<lparr>c_blk := ?b\<lparr>t_stk := (t_stk ?b)[k := y0]\<rparr>\<rparr>"] exI [of _ y0]) simp
  next
    case merge
    then obtain n u where u: "t_stk ?b ! k = Some (n, u)" by auto
    with cell old have mu: "reg_means z ev st m (Some (n, u)) old" by (auto simp: cell_means_def k_def)
    obtain n' v where v: "y0 = Some (n', v)" using sh by blast
    let ?v = "Some (c_oids s2, ?or (Some u) (Some v))"
    have cond: "(t_stk ?b ! k = None \<or> off = 0 \<and> 8 \<le> sz) = False" using merge by simp
    have "reg_means z ev st m ?v (slot_word old sz off w)"
      using or_keep_means [OF y0(3) [unfolded v] mu] by (simp add: slot_word_def)
    moreover have "stk_store addr sz x s =
       Inr ((), s2\<lparr>c_oids := Suc (c_oids s2), c_blk := ?b\<lparr>t_stk := (t_stk ?b)[k := ?v]\<rparr>\<rparr>)"
      unfolding run cond if_False using u v y0(2) by (simp add: act_simps obj_part_def stk_put_def)
    moreover have "sz < 8" using merge(2) sz(2) [folded off_def] by auto
    ultimately show ?thesis
      by (intro exI [of _ "s2\<lparr>c_oids := Suc (c_oids s2), c_blk := ?b\<lparr>t_stk := (t_stk ?b)[k := ?v]\<rparr>\<rparr>"] exI [of _ ?v])
         (simp add: is_ptr_def)
  qed
qed

end

context smtlib
begin

lemma byte_seq_means:
  assumes v: "reg_means z ev st m (Some (n, v)) w" and "0 < sz" and "off + sz \<le> 8" and "0 < off"
  shows "reg_means z ev st m (Some (n', ByteSeq [Some v] sz off)) (drop_bit (8 * off) w AND mask (8 * sz))"
proof -
  obtain t where t: "expr_to_z3 z st v = Inr t" "word_of_int (ev m t) = w"
    using means_denotes [OF v] by (rule denotesE) auto
  let ?q = "resize z (BvOp BvLShr (resize z t 64) (BitVecVal (int (off * 8)) 64)) (sz * 8)"
  have e: "expr_to_z3 z st (ByteSeq [Some v] sz off) = Inr ?q"
    using assms(4) t by (simp add: byte_seq_z3_def cell_z3_def concat_or_single_def size_resize)
  have r: "take_bit 64 (ev m t) = uint w" using arg_cong [OF t(2), of uint] by (simp add: uint_word_of_int_eq)
  have u: "take_bit 64 (uint w) = uint w" by (simp flip: r)
  have "word_of_int (ev m ?q) = (drop_bit (8 * off) w AND mask (8 * sz) :: 64 word)"
  proof -
    have "ev m ?q = take_bit (sz * 8) (drop_bit (off * 8) (uint w))"
    proof -
      have "take_bit 64 (int (off * 8)) = int (off * 8)"
        using assms(2,3) by (simp add: take_bit_int_eq_self_iff)
      moreover have "nat (int (off * 8)) = off * 8" by (rule nat_int)
      ultimately show ?thesis
        using r assms(2) by (simp add: ev_resize ev_BvOp ev_BitVecVal size_simps)
    qed
    also have "\<dots> = uint (drop_bit (8 * off) w AND mask (8 * sz))"
      by (simp flip: take_bit_eq_mask add: unsigned_take_bit_eq unsigned_drop_bit_eq mult.commute u)
    finally show ?thesis by (simp add: word_of_int_uint)
  qed
  moreover have "z_size z ?q = sz * 8" using assms(2) by simp
  moreover have "uint (drop_bit (8 * off) w AND mask (8 * sz)) < 2 ^ 32" if "sz \<le> 4"
  proof -
    have "uint (drop_bit (8 * off) w AND mask (8 * sz)) < 2 ^ (8 * sz)"
      by (simp flip: take_bit_eq_mask add: unsigned_take_bit_eq)
    also have "(2::int) ^ (8 * sz) \<le> 2 ^ 32" using \<open>sz \<le> 4\<close> by (intro power_increasing) simp_all
    finally show ?thesis .
  qed
  ultimately show ?thesis
    using e assms(3) unfolding reg_means_def
    by (auto intro!: denotesI [where t = ?q] simp: is_ptr_def num_of_def)
qed

lemma stk_load_run:
  assumes addr: "addr < 0" and sz: "0 < sz" "nat (addr mod 8) + sz \<le> 8"
    and k: "slot_no addr < length (t_stk (c_blk s))" and c: "t_stk (c_blk s) ! slot_no addr = Some (n, v)"
    and v: "reg_means z ev st m (Some (n, v)) w" "\<not> is_ptr v" "sz < 8 \<longrightarrow> v_size v = 8"
  shows "\<exists>x s2. stk_load addr sz s = Inr (x, s2) \<and> c_blk s2 = c_blk s \<and>
     reg_means z ev st m x (drop_bit (8 * nat (addr mod 8)) w AND mask (8 * sz))"
proof -
  have slot: "stk_slot addr = int (slot_no addr)" by (rule slot_no [OF addr])
  consider (shifted) "nat (addr mod 8) \<noteq> 0" | (masked) "nat (addr mod 8) = 0" "sz < v_size v"
    | (whole) "nat (addr mod 8) = 0" "v_size v \<le> sz" by linarith
  then show ?thesis
  proof cases
    case shifted
    then show ?thesis
      using sz byte_seq_means [OF v(1) sz] slot_index [OF k, of s] c
      by (simp add: stk_load_def Let_def slot some_act_def abind_cases obj_part_def new_obj_run)
  next
    case masked
    then show ?thesis
      using sz and_means [OF v(1), of sz sz] slot_index [OF k, of s] c v(2)
      by (simp add: stk_load_def Let_def slot some_act_def abind_cases obj_part_def new_obj_run)
  next
    case whole
    then have "sz = 8" using v(3) sz by auto
    moreover have "w AND mask 64 = w" by (intro bit_word_eqI) (auto simp: bit_simps)
    ultimately show ?thesis using whole v slot_index [OF k, of s] c
      by (simp add: stk_load_def Let_def slot abind_cases)
  qed
qed

end

section \<open>The stack is a byte memory\<close>

definition stack_means :: "z3_queries \<Rightarrow> ('m \<Rightarrow> bvt \<Rightarrow> int) \<Rightarrow> z3_state \<Rightarrow> 'm \<Rightarrow> tblock \<Rightarrow> (nat \<Rightarrow> 64 word) \<Rightarrow> bool" where
  "stack_means z ev st m b stk \<longleftrightarrow> (\<forall>k. cell_means z ev st m (cell_at b k) (stk k))"

lemma cell_at_put:
  assumes "c = b\<lparr>t_stk := (t_stk b @ replicate (Suc k - length (t_stk b)) None)[k := y]\<rparr>"
  shows "cell_at c j = (if j = k then y else cell_at b j)"
  unfolding assms by (auto simp: cell_at_def nth_append nth_list_update)

text \<open>
  Claim C17.  The symbolic stack is a byte-addressed memory.  When every slot denotes the eight bytes
  it stands for (an unwritten one zero), storing the low \<open>sz\<close> bytes of a value at an address below
  the frame pointer whose bytes lie in one slot does not raise, replaces exactly those bytes of that
  slot and leaves every other slot as it was; loading the same bytes then gives a value that denotes
  the low \<open>sz\<close> bytes of what was stored, and changes no slot.
\<close>

theorem stack_roundtrip:
  assumes "smtlib z ev evb eva evab" and "reg_means z ev st m x w" and "stack_means z ev st m (c_blk s) stk"
    and "addr < 0" and "0 < sz" and "nat (addr mod 8) + sz \<le> 8"
  shows "\<exists>s1 y s2. stk_store addr sz x s = Inr ((), s1) \<and> stk_load addr sz s1 = Inr (y, s2) \<and>
     reg_means z ev st m y (w AND mask (8 * sz)) \<and>
     stack_means z ev st m (c_blk s1)
       (stk(slot_no addr := slot_word (stk (slot_no addr)) sz (nat (addr mod 8)) w)) \<and>
     c_blk s2 = c_blk s1"
proof -
  let ?k = "slot_no addr" and ?w = "slot_word (stk (slot_no addr)) sz (nat (addr mod 8)) w"
  have "cell_means z ev st m (cell_at (c_blk s) ?k) (stk ?k)" using assms(3) by (simp add: stack_means_def)
  from smtlib.stk_store_run [OF assms(1,2,4-6) this] obtain s1 y n v where s1: "stk_store addr sz x s = Inr ((), s1)"
    and b: "c_blk s1 = (c_blk s)\<lparr>t_stk := (t_stk (c_blk s) @ replicate (Suc ?k - length (t_stk (c_blk s))) None)[?k := y]\<rparr>"
    and y: "reg_means z ev st m y ?w" "y = Some (n, v)" "\<not> is_ptr v" "if sz < 8 then v_size v = 8 else y = x" by blast
  have "stack_means z ev st m (c_blk s1) (stk(?k := ?w))"
    using assms(3) y(1) by (simp add: stack_means_def cell_at_put [OF b] cell_means_def)
  moreover have "?k < length (t_stk (c_blk s1))" "t_stk (c_blk s1) ! ?k = Some (n, v)" "sz < 8 \<longrightarrow> v_size v = 8"
    using y by (simp_all add: b)
  ultimately show ?thesis
    using s1 smtlib.stk_load_run [OF assms(1,4-6), of s1 n v st m ?w] y(1-3) slot_word_read [OF assms(6)] by auto
qed

theorem stack_roundtrip_witness:
  "\<exists>s1 y s2. stk_store (-6) 2 (Some (0, Num 0x1234567 4 (-1))) alu_start = Inr ((), s1) \<and>
     stk_load (-6) 2 s1 = Inr (y, s2) \<and>
     reg_means std_queries eval_bv (make_init_state [] []) demo_env y (0x1234567 AND mask 16)"
proof -
  have "reg_means std_queries eval_bv (make_init_state [] []) demo_env (Some (0, Num 0x1234567 4 (-1))) 0x1234567"
    using smtlib.means_num4 [OF smtlib_std, of "0x1234567" "0x1234567"] by simp
  moreover have "stack_means std_queries eval_bv (make_init_state [] []) demo_env (c_blk alu_start) (\<lambda>_. 0)"
    by (simp add: stack_means_def cell_means_def cell_at_def alu_start_def new_tblock_def bblock.extend_def)
  ultimately show ?thesis
    using stack_roundtrip [OF smtlib_std, where addr = "-6" and sz = 2 and s = alu_start] by fastforce
qed

end
