(* ===== verification/Tracker_Branch.thy ===== *)
theory Tracker_Branch
  imports Tracker_Alu
begin

text \<open>
  What the tracker derives from conditional jumps: the recognition of tests on the result of an
  adjusting helper (by evaluating both operands at the two possible results), and the facts about
  nullness and packet length that are put on the two edges.
\<close>

section \<open>Jumps on constants\<close>

lemma to_signed_mask:
  "0 < n \<Longrightarrow> to_signed n (a AND pymask n) = signed_take_bit (n - 1) a"
  by (simp add: and_pymask_take_bit to_signed_eq)

lemma jmp_taken_word:
  assumes "code \<in> jmp_codes" and "LENGTH('a::len) = (if jmp32 then 32 else 64)"
  shows "jmp_taken code a b jmp32 = Inr (jmp_isa code (word_of_int a :: 'a word) (word_of_int b))"
proof -
  let ?n = "LENGTH('a)"
  have n: "(if jmp32 then 32 else 64) = ?n" using assms(2) by simp
  have s: "to_signed ?n (x AND pymask ?n) = sint (word_of_int x :: 'a word)" for x
    by (simp add: to_signed_mask sint_sbintrunc')
  have u: "x AND pymask ?n = uint (word_of_int x :: 'a word)" for x by (simp add: uint_of_int_mask)
  have c: "code = BPF_JEQ \<or> code = BPF_JNE \<or> code = BPF_JSET \<or> code = BPF_JGT \<or>
     code = BPF_JGE \<or> code = BPF_JLT \<or> code = BPF_JLE \<or> code = BPF_JSGT \<or> code = BPF_JSGE \<or>
     code = BPF_JSLT \<or> code = BPF_JSLE"
    using assms(1) by (auto simp: jmp_codes_def)
  show ?thesis
    unfolding jmp_taken_def n Let_def s unfolding u using c
    by (elim disjE) (simp_all add: jmp_isa_def word_less_def word_le_def word_sless_alt word_sle_eq word_uint_eq_iff uint_and)
qed

section \<open>Evaluation at a result of a helper\<close>

text \<open>
  The values the evaluation is meant for: numbers that fit their size (a narrow operation takes any
  number), results of adjusting helpers of full size, and the operations of the instruction set.
\<close>

fun val_ok :: "val \<Rightarrow> bool" where
  "val_ok (Num n sz idx) \<longleftrightarrow> sz = 8 \<or> sz \<in> {1, 2, 4} \<and> 0 \<le> n \<and> n < 2 ^ (8 * sz)"
| "val_ok (Func_retval sz idx fn blk mid mk mki fb rd) \<longleftrightarrow> sz = 8 \<and> \<not> rd"
| "val_ok (ALUbinary op (Some a) (Some b) ofs sz idx) \<longleftrightarrow>
     op \<in> alu_binary_codes \<and>
     (sz = 8 \<and> val_ok a \<and> val_ok b \<or>
      sz = 4 \<and> (val_ok a \<or> num_of a \<noteq> None \<and> v_size a = 4) \<and> (val_ok b \<or> num_of b \<noteq> None \<and> v_size b = 4))"
| "val_ok (ALUbinary op None src ofs sz idx) \<longleftrightarrow> False"
| "val_ok (ALUbinary op (Some a) None ofs sz idx) \<longleftrightarrow> False"
| "val_ok (ALUunary op None os im sz a64) \<longleftrightarrow> False"
| "val_ok (ALUunary op (Some a) os im sz a64) \<longleftrightarrow>
     val_ok a \<and> (sz = 4 \<and> im \<le> 32 \<or> sz = 8 \<and> im \<le> 64)"
| "val_ok _ \<longleftrightarrow> True"

text \<open>The result of the helper under an assignment: 0, or \<open>-EINVAL\<close>.\<close>

definition ret_of :: "bool \<Rightarrow> int" where
  "ret_of ok = (if ok then 0 else - EINVAL)"

definition is_adjust_ret :: "val \<Rightarrow> bool" where
  "is_adjust_ret v = (case v of Func_retval _ _ fn _ _ _ _ _ _ \<Rightarrow> fn \<in> {44, 54, 65} | _ \<Rightarrow> False)"

lemma adjust_ret_in_shape: "adjust_ret_in v = Some rv \<Longrightarrow> is_adjust_ret rv"
  by (induction v arbitrary: rv rule: adjust_ret_in.induct)
    (auto simp: is_adjust_ret_def split: if_splits option.splits)

context smtlib
begin

lemma adjust_term:
  assumes "is_adjust_ret (Func_retval sz idx fn blk mid mk mki fb rd)"
    and "val_ok (Func_retval sz idx fn blk mid mk mki fb rd)"
  shows "\<exists>t. expr_to_z3 z st (Func_retval sz idx fn blk mid mk mki fb rd) = Inr t \<and> z_size z t = 64 \<and>
     ev m t = ret_of (evb m (Bool (adjust_ok idx))) AND pymask 64"
  using assms
  by (auto simp: is_adjust_ret_def func_retval_z3_def size_BvIf size_BitVecVal ev_BvIf ev_BitVecVal ret_of_def
      and_pymask_take_bit)

lemma eval_at_term:
  assumes "eval_at v rv (ret_of ok) = Inr (Some x)"
    and "val_ok v \<or> num_of v \<noteq> None \<and> v_size v = 4"
    and "is_adjust_ret rv" and "evb m (Bool (adjust_ok (fret_idx rv))) = ok"
  shows "\<exists>t. expr_to_z3 z st v = Inr t \<and> z_size z t \<le> 64 \<and> (val_ok v \<longrightarrow> ev m t = x) \<and>
     (word_of_int (ev m t) :: 32 word) = word_of_int x"
  using assms
proof (induction v rv "ret_of ok" arbitrary: x rule: eval_at.induct)
  case (1 sz idx fn blk mid mk mki fb rd rv)
  let ?v = "Func_retval sz idx fn blk mid mk mki fb rd"
  have eq: "py_eq ?v rv" and x: "x = ret_of ok AND pymask 64" using "1.prems"(1) by (auto split: if_splits)
  then have "fret_idx rv = idx" "is_adjust_ret ?v"
    using "1.prems"(3) by (auto simp: fret_idx_def is_adjust_ret_def split: val.splits)
  moreover have "val_ok ?v" using "1.prems"(2) by (simp add: num_of_def)
  ultimately show ?case using adjust_term [of sz idx fn blk mid mk mki fb rd st m] x "1.prems"(4) by auto
next
  case (2 n sz idx rv)
  have x: "x = take_bit 64 n" using "2.prems"(1) by (simp add: and_pymask_take_bit)
  consider "sz = 8" | "sz \<in> {1, 2, 4}" "0 \<le> n" "n < 2 ^ (8 * sz)" | "sz = 4" "\<not> val_ok (Num n sz idx)"
    using "2.prems"(2) by (cases "val_ok (Num n sz idx)") (auto simp: num_of_def)
  then show ?case
  proof cases
    case 1
    with x show ?thesis by (auto simp: size_BitVecVal ev_BitVecVal)
  next
    case 2
    then have "n < 2 ^ 64" by auto
    with 2 x show ?thesis by (auto simp: size_BitVecVal ev_BitVecVal take_bit_int_eq_self mult.commute)
  next
    case 3
    have "(word_of_int (take_bit 32 n) :: 32 word) = word_of_int (take_bit 64 n)"
      by (simp add: word_of_int_eq_iff)
    with 3 x show ?thesis by (auto simp: size_BitVecVal ev_BitVecVal)
  qed
next
  case (3 op dst src ofs sz idx rv)
  have vk: "val_ok (ALUbinary op dst src ofs sz idx)" using "3.prems"(2) by (simp add: num_of_def)
  then obtain a b where ab: "dst = Some a" "src = Some b" by (cases dst; cases src) auto
  with "3.prems"(1) obtain xa xb where e: "eval_at a rv (ret_of ok) = Inr (Some xa)" "eval_at b rv (ret_of ok) = Inr (Some xb)"
    and x: "x = arith op xa xb (8 * sz) (ofs = 1) AND pymask 64"
    by (auto simp: ebind_eq_Inr split: option.splits)
  have op: "op \<in> alu_binary_codes" and oc: "op \<in> alu_codes"
    using vk ab by (auto simp: alu_binary_codes_def)
  have ok: "val_ok a \<or> num_of a \<noteq> None \<and> v_size a = 4" "val_ok b \<or> num_of b \<noteq> None \<and> v_size b = 4"
    using vk ab by auto
  obtain ta where ta: "expr_to_z3 z st a = Inr ta" "z_size z ta \<le> 64" "val_ok a \<Longrightarrow> ev m ta = xa"
    "(word_of_int (ev m ta) :: 32 word) = word_of_int xa"
    using "3.hyps"(1) [OF ab(1) e(1) ok(1) "3.prems"(3,4)] by blast
  obtain tb where tb: "expr_to_z3 z st b = Inr tb" "z_size z tb \<le> 64" "val_ok b \<Longrightarrow> ev m tb = xb"
    "(word_of_int (ev m tb) :: 32 word) = word_of_int xb"
    using "3.hyps"(2) [OF ab(2) e(2) ok(2) "3.prems"(3,4)] by blast
  have ex: "expr_to_z3 z st (ALUbinary op dst src ofs sz idx) = alu_binary_z3 z op ofs sz ta tb"
    using ta(1) tb(1) ab by (simp add: enc_opt_def)
  have "sz = 8 \<and> val_ok a \<and> val_ok b \<or> sz = 4" using vk ab by auto
  then show ?case
  proof (elim disjE conjE)
    assume sz: "sz = 8" and v: "val_ok a" "val_ok b"
    obtain t where t: "alu_binary_z3 z op ofs 8 ta tb = Inr t" "z_size z t \<le> 64"
      "ev m t = alu_sem op (ofs = 1) 64 (ev m ta) (ev m tb)"
      using alu_binary_64 [OF op ta(2) tb(2)] by blast
    have "ev m t = uint (alu_isa op (ofs = 1) (word_of_int xa :: 64 word) (word_of_int xb))"
      using t(3) alu_sem_isa [OF op, of "ofs = 1" "word_of_int xa :: 64 word" "word_of_int xb"]
        uint_ev [of ta m, where 'a = 64] uint_ev [of tb m, where 'a = 64] ta(2) tb(2) ta(3) [OF v(1)] tb(3) [OF v(2)]
      by simp
    then have "ev m t = x"
      unfolding x sz arith_isa64 [OF oc, symmetric] by (simp add: uint_word_of_int_eq and_pymask_take_bit)
    with t(1,2) sz ex show ?thesis by auto
  next
    assume sz: "sz = 4"
    obtain t where t: "alu_binary_z3 z op ofs 4 ta tb = Inr t" "z_size z t = 32"
      "ev m t = alu_sem op (ofs = 1) 32 (take_bit 32 (ev m ta)) (take_bit 32 (ev m tb))"
      using alu_binary_32 [OF op tb(2)] by blast
    have "ev m t = uint (alu_isa op (ofs = 1) (word_of_int (ev m ta) :: 32 word) (word_of_int (ev m tb)))"
      using t(3) alu_sem_isa [OF op, of "ofs = 1" "word_of_int (ev m ta) :: 32 word" "word_of_int (ev m tb)"]
      by (simp add: uint_word_of_int_eq)
    then have e32: "ev m t = arith op xa xb 32 (ofs = 1)"
      unfolding ta(4) tb(4) arith_isa32 [OF oc] .
    have "arith op xa xb 32 (ofs = 1) < 2 ^ 64" using arith32_in_u32 [of op xa xb "ofs = 1"] by (simp add: in_u32_def)
    then have "ev m t = x"
      unfolding x sz e32 using arith32_in_u32 [of op xa xb "ofs = 1"]
      by (simp add: and_pymask_take_bit in_u32_def take_bit_int_eq_self)
    with t(1,2) sz ex show ?thesis by auto
  qed
next
  case (4 op dst os im sz a64 rv)
  have vk: "val_ok (ALUunary op dst os im sz a64)" using "4.prems"(2) by (simp add: num_of_def)
  then obtain a where a: "dst = Some a" by (cases dst) auto
  with "4.prems"(1) obtain xa where op: "op = BPF_MOV" and e: "eval_at a rv (ret_of ok) = Inr (Some xa)" and im: "1 \<le> im"
    and x: "x = to_signed (nat im) (xa AND pymask (nat im)) AND pymask (8 * sz)"
    by (auto simp: ebind_eq_Inr split: if_splits option.splits)
  have v: "val_ok a" and sz: "sz = 4 \<and> im \<le> 32 \<or> sz = 8 \<and> im \<le> 64" using vk a by auto
  obtain ta where ta: "expr_to_z3 z st a = Inr ta" "z_size z ta \<le> 64" "ev m ta = xa"
    using "4.hyps" [OF op a e disjI1 [OF v] "4.prems"(3,4)] v by blast
  let ?w = "if sz = 4 then 32 else 64 :: nat"
  have b: "im \<le> int ?w" using sz by auto
  obtain t where t: "alu_unary_z3 z BPF_MOV os im sz a64 ta = Inr t" "z_size z t = ?w"
    "ev m t = take_bit ?w (signed_take_bit (nat im - 1) (ev m ta))"
    using alu_unary_mov [OF im b refl] by blast
  have "8 * sz = ?w" using sz by auto
  then have "ev m t = x" unfolding x t(3) ta(3) using im by (simp add: and_pymask_take_bit to_signed_eq)
  with t(1,2) ta(1) a op sz show ?case by (auto simp: enc_opt_def)
qed (simp_all)

end

section \<open>Tests on the result of an adjusting helper\<close>

definition jump_on :: "bool \<Rightarrow> int \<Rightarrow> int \<Rightarrow> int \<Rightarrow> bool" where
  "jump_on jmp32 code a b =
     (if jmp32 then jmp_isa code (word_of_int a :: 32 word) (word_of_int b)
      else jmp_isa code (word_of_int a :: 64 word) (word_of_int b))"

lemma jmp_taken_jump: "code \<in> jmp_codes \<Longrightarrow> jmp_taken code a b jmp32 = Inr (jump_on jmp32 code a b)"
  using jmp_taken_word [where 'a = 32, of code True a b] jmp_taken_word [where 'a = 64, of code False a b]
  by (cases jmp32) (simp_all add: jump_on_def)

lemma adjust_outcomesD:
  assumes "adjust_outcomes code jmp32 (Some d) (Some s) rv = Inr (Some (ok, failed))" and "code \<in> jmp_codes"
  obtains a0 b0 a1 b1 where "eval_at d rv (ret_of True) = Inr (Some a0)" and "eval_at s rv (ret_of True) = Inr (Some b0)"
    and "eval_at d rv (ret_of False) = Inr (Some a1)" and "eval_at s rv (ret_of False) = Inr (Some b1)"
    and "ok = jump_on jmp32 code a0 b0" and "failed = jump_on jmp32 code a1 b1"
proof -
  from assms(1) obtain d0 s0 d1 s1 where e: "eval_at d rv 0 = Inr d0" "eval_at s rv 0 = Inr s0"
    "eval_at d rv (- EINVAL) = Inr d1" "eval_at s rv (- EINVAL) = Inr s1"
    and c: "(case (d0, s0, d1, s1) of
        (Some a0, Some b0, Some a1, Some b1) \<Rightarrow>
          ebind (jmp_taken code a0 b0 jmp32) (\<lambda>ok. ebind (jmp_taken code a1 b1 jmp32) (\<lambda>failed. Inr (Some (ok, failed))))
      | _ \<Rightarrow> Inr None) = Inr (Some (ok, failed))"
    unfolding adjust_outcomes_def Let_def option.case by (elim ebind_InrE) blast
  from c obtain a0 b0 a1 b1 where o: "d0 = Some a0" "s0 = Some b0" "d1 = Some a1" "s1 = Some b1"
    by (cases d0; cases s0; cases d1; cases s1) auto
  from c have "ok = jump_on jmp32 code a0 b0" "failed = jump_on jmp32 code a1 b1"
    unfolding o by (simp_all add: jmp_taken_jump [OF assms(2)])
  with e o show thesis by (intro that [of a0 b0 a1 b1]) (simp_all add: ret_of_def)
qed

text \<open>
  Claim C27.  A branch recognised as a test on the result of an adjusting helper is that test: when
  evaluating the two operands at the results 0 and -EINVAL gives different outcomes, then under
  every assignment of the solver the branch is taken exactly if the helper's success flag has the
  value that is recorded, so the condition that replaces the comparison is equivalent to it.
\<close>

theorem adjust_test_exact:
  assumes "smtlib z ev evb eva evab" and "val_ok d" and "val_ok s" and "code \<in> jmp_codes"
    and "opt_adjust (Some d) (Some s) = Some rv"
    and "adjust_outcomes code jmp32 (Some d) (Some s) rv = Inr (Some (ok, failed))" and "ok \<noteq> failed"
  shows "\<exists>td ts. expr_to_z3 z st d = Inr td \<and> expr_to_z3 z st s = Inr ts \<and>
     (jump_on jmp32 code (ev m td) (ev m ts) \<longleftrightarrow> evb m (Bool (adjust_ok (fret_idx rv))) = ok)"
proof -
  have rv: "is_adjust_ret rv"
    using assms(5) by (auto simp: opt_adjust_def dest: adjust_ret_in_shape split: option.splits)
  from assms(6,4) obtain a0 b0 a1 b1 where e: "eval_at d rv (ret_of True) = Inr (Some a0)"
    "eval_at s rv (ret_of True) = Inr (Some b0)" "eval_at d rv (ret_of False) = Inr (Some a1)"
    "eval_at s rv (ret_of False) = Inr (Some b1)"
    and j: "ok = jump_on jmp32 code a0 b0" "failed = jump_on jmp32 code a1 b1"
    by (rule adjust_outcomesD)
  note tm = smtlib.eval_at_term [OF assms(1) _ disjI1 rv, of _ _ _ m st]
  show ?thesis
  proof (cases "evb m (Bool (adjust_ok (fret_idx rv)))")
    case True
    with tm [OF e(1) assms(2)] tm [OF e(2) assms(3)] assms(2,3) j assms(7) show ?thesis by auto
  next
    case False
    with tm [OF e(3) assms(2)] tm [OF e(4) assms(3)] assms(2,3) j assms(7) show ?thesis by auto
  qed
qed

theorem adjust_test_exact_witness:
  "\<exists>td ts. expr_to_z3 std_queries (make_init_state [] []) (Func_retval 8 7 44 0 None None None 0 False) = Inr td \<and>
     expr_to_z3 std_queries (make_init_state [] []) (Num 0 4 (-1)) = Inr ts \<and>
     (jump_on False BPF_JSLT (eval_bv demo_env td) (eval_bv demo_env ts) \<longleftrightarrow>
        eval_b demo_env (Bool (adjust_ok 7)) = False)"
proof -
  let ?d = "Func_retval 8 7 44 0 None None None 0 False" and ?s = "Num 0 4 (-1)"
  have "adjust_outcomes BPF_JSLT False (Some ?d) (Some ?s) ?d = Inr (Some (False, True))" by code_simp
  from adjust_test_exact [OF smtlib_std _ _ _ _ this, of "make_init_state [] []" demo_env] show ?thesis
    by (simp add: jmp_codes_def opt_adjust_def fret_idx_def)
qed

section \<open>Tests of a pointer that may be null\<close>

text \<open>What an edge claims about the pointer: the fact that is put on it.\<close>

definition claims_null :: "edge_fact option \<Rightarrow> ptr_info \<Rightarrow> bool \<Rightarrow> bool" where
  "claims_null c i is_null \<longleftrightarrow>
     (\<exists>f. c = Some (FPtr f) \<and> pf_base_id f = null_fact_id i \<and> pf_checked_null f = Some is_null)"

lemma null_check_run:
  assumes "branch_null_check env code (Ptr i vo mk np) zero s = Inr (u, s')" and "code \<in> {BPF_JEQ, BPF_JNE}"
  shows "claims_null (t_cond_t (c_blk s')) i (code = BPF_JEQ) \<and> claims_null (t_cond_f (c_blk s')) i (code = BPF_JNE)"
proof -
  have z: "Option.bind zero num_of = Some 0"
    using assms(1) by (auto simp: branch_null_check_def Let_def aassert_def split: if_splits)
  have "code = BPF_JEQ \<or> code = BPF_JNE" using assms(2) by simp
  then show ?thesis
    using assms(1) z
    by (elim disjE; cases "e_brief env"; cases np)
      (simp_all add: branch_null_check_def abind_def Let_def aassert_def awhen_def set_cond_f_def set_cond_t_def set_cond_def
        claims_null_def pinfo_def split: if_splits, auto)
qed

lemma not_maybe_null: "num_of v = Some n \<Longrightarrow> \<not> maybe_null (Some v)"
  by (cases v) (simp_all add: maybe_null_def num_of_def)

text \<open>The pointer first.\<close>

lemma null_check_in_order:
  assumes "i_opcode_code ins \<in> {BPF_JEQ, BPF_JNE}" and "maybe_null (Some (Ptr i vo mk np))"
    and "num_of zero = Some 0"
    and "branch_compare env ins (Some (Ptr i vo mk np)) (Some zero) s = Inr (u, s')"
  shows "claims_null (if jmp_isa (i_opcode_code ins) (p :: 64 word) 0 then t_cond_t (c_blk s') else t_cond_f (c_blk s'))
     i (p = 0)"
proof -
  have "branch_null_check env (i_opcode_code ins) (Ptr i vo mk np) (Some zero) s = Inr (u, s')"
    using assms(2,4) not_maybe_null [OF assms(3)] by (simp add: branch_compare_def num_of_def Let_def)
  from null_check_run [OF this assms(1)] assms(1) show ?thesis by (auto simp: jmp_isa_def)
qed

text \<open>The constant 0 first: the code is replaced by the negated jump when the operands are exchanged.\<close>

lemma null_check_reversed:
  assumes "i_opcode_code ins \<in> {BPF_JEQ, BPF_JNE}" and "maybe_null (Some (Ptr i vo mk np))"
    and "num_of zero = Some 0"
    and "branch_compare env ins (Some zero) (Some (Ptr i vo mk np)) s = Inr (u, s')"
  shows "claims_null (if jmp_isa (i_opcode_code ins) 0 (p :: 64 word) then t_cond_t (c_blk s') else t_cond_f (c_blk s'))
     i (p \<noteq> 0)"
proof -
  let ?c = "swap_jmp_code (i_opcode_code ins)"
  have c: "?c \<in> {BPF_JEQ, BPF_JNE}" "?c = BPF_JEQ \<longleftrightarrow> i_opcode_code ins = BPF_JNE"
    "?c = BPF_JNE \<longleftrightarrow> i_opcode_code ins = BPF_JEQ"
    using assms(1) by (auto simp: swap_jmp_code_def)
  have "branch_null_check env ?c (Ptr i vo mk np) (Some zero) s = Inr (u, s')"
    using assms by (auto simp: branch_compare_def Let_def)
  from null_check_run [OF this c(1)] assms(1) show ?thesis unfolding c by (auto simp: jmp_isa_def)
qed

text \<open>
  Claim C28.  A test of a possibly null pointer against the constant 0 puts a fact about the pointer on
  each edge.  When the pointer is the first operand the facts are right: whatever address the pointer
  has, the edge that the jump takes for it carries the fact that it is null if the address is 0 and that it
  is not null otherwise.  When the constant is the first operand the two facts are exchanged: the edge
  the jump takes for an address carries the fact that the pointer is null exactly if it is not.
\<close>

theorem null_check_facts:
  assumes "i_opcode_code ins \<in> {BPF_JEQ, BPF_JNE}" and "maybe_null (Some (Ptr i vo mk np))"
    and "num_of zero = Some 0"
  shows "(\<forall>u s'. branch_compare env ins (Some (Ptr i vo mk np)) (Some zero) s = Inr (u, s') \<longrightarrow>
       claims_null (if jmp_isa (i_opcode_code ins) (p :: 64 word) 0 then t_cond_t (c_blk s') else t_cond_f (c_blk s')) i (p = 0)) \<and>
    (\<forall>u s'. branch_compare env ins (Some zero) (Some (Ptr i vo mk np)) s = Inr (u, s') \<longrightarrow>
       claims_null (if jmp_isa (i_opcode_code ins) 0 p then t_cond_t (c_blk s') else t_cond_f (c_blk s')) i (p \<noteq> 0))"
  using null_check_in_order [OF assms] null_check_reversed [OF assms] by blast

section \<open>Witnesses\<close>

definition null_ptr :: ptr_info where
  "null_ptr = (default_ptr PTR_TO_MAP_VALUE)\<lparr>q_base_id := Some 3, q_map_id := Some 0, q_map_key_id := Some 3, q_checked_null := None\<rparr>"

lemma null_ptr_maybe: "maybe_null (Some (Ptr null_ptr None None None))"
  by (simp add: maybe_null_def null_ptr_def)

lemma null_branch_runs:
  "\<exists>s'. branch_compare alu_env (alu_instr JMP S_REG BPF_JEQ 1 2 1 0) (Some (Ptr null_ptr None None None)) (Some (Num 0 4 (-1)))
     alu_start = Inr ((), s')"
  "\<exists>s'. branch_compare alu_env (alu_instr JMP S_REG BPF_JEQ 1 2 1 0) (Some (Num 0 4 (-1))) (Some (Ptr null_ptr None None None))
     alu_start = Inr ((), s')"
  by (simp_all add: branch_compare_def branch_null_check_def maybe_null_def null_ptr_def alu_instr_def num_of_def pinfo_def
    aassert_def awhen_def set_cond_t_def set_cond_f_def set_cond_def abind_def swap_jmp_code_def Let_def)

theorem null_check_facts_witness:
  "\<exists>s' s''. branch_compare alu_env (alu_instr JMP S_REG BPF_JEQ 1 2 1 0) (Some (Ptr null_ptr None None None)) (Some (Num 0 4 (-1)))
     alu_start = Inr ((), s') \<and> claims_null (t_cond_t (c_blk s')) null_ptr True \<and>
   branch_compare alu_env (alu_instr JMP S_REG BPF_JEQ 1 2 1 0) (Some (Num 0 4 (-1))) (Some (Ptr null_ptr None None None))
     alu_start = Inr ((), s'') \<and> claims_null (t_cond_t (c_blk s'')) null_ptr False"
proof -
  let ?ins = "alu_instr JMP S_REG BPF_JEQ 1 2 1 0"
  obtain s' s'' where s: "branch_compare alu_env ?ins (Some (Ptr null_ptr None None None)) (Some (Num 0 4 (-1))) alu_start = Inr ((), s')"
    "branch_compare alu_env ?ins (Some (Num 0 4 (-1))) (Some (Ptr null_ptr None None None)) alu_start = Inr ((), s'')"
    using null_branch_runs by blast
  have c: "i_opcode_code ?ins = BPF_JEQ" by (simp add: alu_instr_def)
  have z: "num_of (Num 0 4 (-1)) = Some 0" by (simp add: num_of_def)
  from null_check_facts [of ?ins null_ptr None None None "Num 0 4 (-1)" alu_env alu_start 0, OF _ null_ptr_maybe z] c s
  show ?thesis by (auto simp: jmp_isa_def)
qed

section \<open>Comparisons with the end of the packet\<close>

text \<open>The address of a pointer to the packet or to its end, for a packet of length \<open>len\<close> at \<open>base\<close>.\<close>

definition pkt_addr :: "int \<Rightarrow> int \<Rightarrow> val \<Rightarrow> int" where
  "pkt_addr base len p = base + (if q_type (pinfo p) = PTR_TO_PKT then q_off (pinfo p) else len)"

definition len_within :: "edge_fact option \<Rightarrow> int \<Rightarrow> bool" where
  "len_within c len \<longleftrightarrow>
     (\<exists>f. c = Some (FPkt f) \<and> (\<forall>lo. kf_min_len f = Some lo \<longrightarrow> lo \<le> len) \<and> (\<forall>hi. kf_max_len f = Some hi \<longrightarrow> len \<le> hi))"

lemma jump_unsigned:
  assumes "0 \<le> a" "a < 2 ^ 64" "0 \<le> b" "b < 2 ^ 64"
  shows "jump_on False BPF_JGT a b \<longleftrightarrow> b < a" "jump_on False BPF_JGE a b \<longleftrightarrow> b \<le> a"
    "jump_on False BPF_JLT a b \<longleftrightarrow> a < b" "jump_on False BPF_JLE a b \<longleftrightarrow> a \<le> b"
  using assms by (simp_all add: jump_on_def jmp_isa_def word_less_def word_le_def uint_word_of_int_eq take_bit_int_eq_self)

lemma branch_pkt_facts:
  assumes "branch_pkt_size code dst src s = Inr (u, s')"
  defines "p \<equiv> (if q_type (pinfo src) = PTR_TO_PKT then src else dst)"
    and "c \<equiv> (if q_type (pinfo src) = PTR_TO_PKT then the (flip_jmp_code code) else code)"
  shows "c \<in> {BPF_JGT, BPF_JGE, BPF_JLT, BPF_JLE} \<and> (q_type (pinfo src) = PTR_TO_PKT \<longrightarrow> flip_jmp_code code \<noteq> None) \<and>
     t_cond_t (c_blk s') = Some (if c \<in> {BPF_JGT, BPF_JGE}
       then len_fact (pinfo p) None (Some (if c = BPF_JGT then q_off (pinfo p) - 1 else q_off (pinfo p)))
       else len_fact (pinfo p) (Some (if c = BPF_JLE then q_off (pinfo p) else q_off (pinfo p) + 1)) None) \<and>
     t_cond_f (c_blk s') = Some (if c \<in> {BPF_JGT, BPF_JGE}
       then len_fact (pinfo p) (Some (if c = BPF_JGT then q_off (pinfo p) else q_off (pinfo p) + 1)) None
       else len_fact (pinfo p) None (Some (if c = BPF_JLE then q_off (pinfo p) + 1 else q_off (pinfo p))))"
proof -
  let ?m = "if q_type (pinfo src) = PTR_TO_PKT then alift (of_option KeyError (flip_jmp_code code)) else aret code"
  have run: "?m s = Inr (c, s)
      \<and> (q_type (pinfo src) = PTR_TO_PKT \<longrightarrow> flip_jmp_code code \<noteq> None)"
    using assms(1) unfolding branch_pkt_size_def c_def
    by (cases "flip_jmp_code code") (auto simp: abind_def split: if_splits)
  have "(if c \<in> {BPF_JGT, BPF_JGE} then
       abind (set_cond_t (len_fact (pinfo p) None (Some (if c = BPF_JGT then q_off (pinfo p) - 1 else q_off (pinfo p))))) (\<lambda>_.
       abind (set_cond_f (len_fact (pinfo p) (Some (if c = BPF_JGT then q_off (pinfo p) else q_off (pinfo p) + 1)) None)) (\<lambda>_.
       set_cond (Condition c (total_offset (pinfo p) (pvar p)) (Some (Pkt_len 4 (q_base_id (pinfo p)))) False)))
     else if c \<in> {BPF_JLT, BPF_JLE} then
       abind (set_cond_t (len_fact (pinfo p) (Some (if c = BPF_JLE then q_off (pinfo p) else q_off (pinfo p) + 1)) None)) (\<lambda>_.
       abind (set_cond_f (len_fact (pinfo p) None (Some (if c = BPF_JLE then q_off (pinfo p) + 1 else q_off (pinfo p))))) (\<lambda>_.
       set_cond (Condition c (total_offset (pinfo p) (pvar p)) (Some (Pkt_len 4 (q_base_id (pinfo p)))) False)))
     else araise (TrackError ''track_branch: unidentified PTR_TO_PKT comparison code'')) s = Inr (u, s')"
    using assms(1) unfolding branch_pkt_size_def Let_def p_def
      abind_Inr [where m = ?m and s = s and x = c and s' = s, OF conjunct1 [OF run]] .
  then show ?thesis
    using run by (auto simp: set_cond_t_def set_cond_f_def set_cond_def split: if_splits)
qed

text \<open>
  Claim C29.  The packet-length facts of a bounds check are sound on both edges: for a packet of any
  length anywhere in memory, the edge that the comparison of the packet pointer with the end of the
  packet takes carries bounds that the length respects, in all four directions and with the operands
  either way round.
\<close>

theorem pkt_len_facts_sound:
  assumes "branch_pkt_size code dst src s = Inr (u, s')"
    and "{q_type (pinfo dst), q_type (pinfo src)} = {PTR_TO_PKT, PTR_TO_PKT_END}"
    and "0 \<le> pkt_addr base len dst" "pkt_addr base len dst < 2 ^ 64"
    and "0 \<le> pkt_addr base len src" "pkt_addr base len src < 2 ^ 64"
  shows "len_within (if jump_on False code (pkt_addr base len dst) (pkt_addr base len src)
     then t_cond_t (c_blk s') else t_cond_f (c_blk s')) len"
proof -
  note f = branch_pkt_facts [OF assms(1)]
  note j = jump_unsigned [OF assms(3,4,5,6)]
  show ?thesis
  proof (cases "q_type (pinfo src) = PTR_TO_PKT")
    case True
    with assms(2) have d: "q_type (pinfo dst) \<noteq> PTR_TO_PKT" by (auto simp: doubleton_eq_iff)
    from True f obtain c where c: "flip_jmp_code code = Some c" by auto
    then have "code = BPF_JGT \<and> c = BPF_JLT \<or> code = BPF_JGE \<and> c = BPF_JLE \<or> code = BPF_JLT \<and> c = BPF_JGT \<or>
        code = BPF_JLE \<and> c = BPF_JGE"
      by (auto simp: flip_jmp_code_def split: if_splits)
    with f True c d j show ?thesis
      by (elim disjE) (auto simp: len_within_def len_fact_def pkt_addr_def)
  next
    case False
    with assms(2) have d: "q_type (pinfo dst) = PTR_TO_PKT" by (auto simp: doubleton_eq_iff)
    from False f have "code = BPF_JGT \<or> code = BPF_JGE \<or> code = BPF_JLT \<or> code = BPF_JLE" by auto
    with f False d j show ?thesis
      by (elim disjE) (auto simp: len_within_def len_fact_def pkt_addr_def)
  qed
qed

definition pkt_at :: "int \<Rightarrow> val" where
  "pkt_at off = Ptr ((default_ptr PTR_TO_PKT)\<lparr>q_off := off\<rparr>) None None None"

definition pkt_end :: val where
  "pkt_end = Ptr (default_ptr PTR_TO_PKT_END) None None None"

theorem pkt_len_facts_sound_witness:
  "\<exists>s'. branch_pkt_size BPF_JGT (pkt_at 14) pkt_end alu_start = Inr ((), s') \<and> len_within (t_cond_f (c_blk s')) 20"
proof -
  have "\<exists>s'. branch_pkt_size BPF_JGT (pkt_at 14) pkt_end alu_start = Inr ((), s')"
    by (simp add: branch_pkt_size_def pkt_at_def pkt_end_def pinfo_def default_ptr_def Let_def set_cond_t_def set_cond_f_def
      set_cond_def)
  then obtain s' where s': "branch_pkt_size BPF_JGT (pkt_at 14) pkt_end alu_start = Inr ((), s')" ..
  have a: "pkt_addr 1000 20 (pkt_at 14) = 1014" "pkt_addr 1000 20 pkt_end = 1020"
    "{q_type (pinfo (pkt_at 14)), q_type (pinfo pkt_end)} = {PTR_TO_PKT, PTR_TO_PKT_END}"
    by (simp_all add: pkt_addr_def pkt_at_def pkt_end_def pinfo_def default_ptr_def)
  have "\<not> jump_on False BPF_JGT 1014 1020" using jump_unsigned(1) [of 1014 1020] by simp
  with pkt_len_facts_sound [OF s' a(3), of 1000 20] s' show ?thesis unfolding a by simp
qed

end
