(* ===== verification/Tracker_Frame.thy ===== *)
theory Tracker_Frame
  imports Tracker "HOL-Library.Sublist"
begin

text \<open>
  What every step of the tracker keeps: the place of the block in the graph, the eleven registers,
  growing counters, and lists of actions and sources that are only appended to.  The operations
  are treated one after the other through the interpretation of the locale \<open>kept\<close>; the
  properties of a whole run follow: actions are stamped and in program order, and the blocks are
  tracked once each, every block after its predecessors.
\<close>

section \<open>The relation\<close>

text \<open>\<open>e\<close> says whether actions may be emitted.\<close>

definition idx_stamp :: "tblock \<Rightarrow> int" where
  "idx_stamp b = (case t_idx b of None \<Rightarrow> -1 | Some i \<Rightarrow> i)"

definition stamped :: "tblock \<Rightarrow> action \<Rightarrow> bool" where
  "stamped b a \<longleftrightarrow> a_block a = int (b_num b) \<and> a_idx a = idx_stamp b"

definition blk_rel :: "bool \<Rightarrow> tblock \<Rightarrow> tblock \<Rightarrow> bool" where
  "blk_rel e b b' \<longleftrightarrow>
     bblock.truncate b' = bblock.truncate b \<and> t_idx b' = t_idx b \<and> length (t_regs b') = length (t_regs b) \<and>
     (\<exists>new. t_actions b' = t_actions b @ new \<and> (\<forall>a \<in> set new. e \<and> stamped b a)) \<and>
     prefix (t_sources b) (t_sources b')"

definition step_rel :: "bool \<Rightarrow> tctx \<Rightarrow> tctx \<Rightarrow> bool" where
  "step_rel e s s' \<longleftrightarrow> c_ids s \<le> c_ids s' \<and> c_oids s \<le> c_oids s' \<and> blk_rel e (c_blk s) (c_blk s')"

lemma blk_rel_refl: "blk_rel e b b"
  by (simp add: blk_rel_def)

lemma stamped_cong:
  "bblock.truncate b' = bblock.truncate b \<Longrightarrow> t_idx b' = t_idx b \<Longrightarrow> stamped b' a \<longleftrightarrow> stamped b a"
  by (simp add: stamped_def idx_stamp_def bblock.truncate_def)

lemma blk_rel_trans:
  assumes "blk_rel e a b" "blk_rel e b c"
  shows "blk_rel e a c"
proof -
  from assms obtain n1 n2 where
    "t_actions b = t_actions a @ n1" "\<forall>x \<in> set n1. e \<and> stamped a x"
    "t_actions c = t_actions b @ n2" "\<forall>x \<in> set n2. e \<and> stamped b x"
    by (auto simp: blk_rel_def)
  moreover have "stamped b x \<longleftrightarrow> stamped a x" for x
    by (rule stamped_cong) (use assms in \<open>simp_all add: blk_rel_def\<close>)
  ultimately have "\<exists>new. t_actions c = t_actions a @ new \<and> (\<forall>x \<in> set new. e \<and> stamped a x)"
    by (intro exI [of _ "n1 @ n2"]) auto
  with assms show ?thesis by (auto simp: blk_rel_def dest: prefix_order.trans)
qed

interpretation step: kept "step_rel e"
proof
  fix s t u
  show "step_rel e s s" by (simp add: step_rel_def blk_rel_refl)
  show "step_rel e s t \<Longrightarrow> step_rel e t u \<Longrightarrow> step_rel e s u"
    by (auto simp: step_rel_def intro: blk_rel_trans)
  show "step_rel e s (s\<lparr>c_ids := c_ids s + 1\<rparr>)" "step_rel e s (s\<lparr>c_oids := Suc (c_oids s)\<rparr>)"
    by (simp_all add: step_rel_def blk_rel_refl)
qed

text \<open>A change of the block that the relation does not see.\<close>

lemma mod_step:
  assumes "\<And>b. blk_rel e b (g b)"
  shows "keeps (step_rel e) (amod g)"
  using assms by (intro step.keeps_mod) (simp add: step_rel_def)

lemmas quiet_simps = blk_rel_def bblock.truncate_def

lemma emit_step: "keeps (step_rel True) (emit k)"
  unfolding emit_def by (rule mod_step) (simp add: quiet_simps stamped_def idx_stamp_def)

lemma add_source_step: "keeps (step_rel e) (add_source v)"
  unfolding add_source_def by (rule mod_step) (simp add: quiet_simps)

lemma set_reg_step: "keeps (step_rel e) (set_reg r v)"
  unfolding set_reg_def by (rule mod_step) (simp add: quiet_simps)

lemma set_pkt_facts_step: "keeps (step_rel e) (set_pkt_facts i b p)"
  unfolding set_pkt_facts_def by (rule mod_step) (simp add: quiet_simps)

lemma cond_step:
  "keeps (step_rel e) (set_cond_f c)" "keeps (step_rel e) (set_cond_t c)" "keeps (step_rel e) (set_cond d)"
  unfolding set_cond_f_def set_cond_t_def set_cond_def by (rule mod_step; simp add: quiet_simps)+

lemma if_step: "keeps (step_rel e) a \<Longrightarrow> keeps (step_rel e) b \<Longrightarrow> keeps (step_rel e) (if c then a else b)"
  by simp

lemma assert_step: "keeps (step_rel e) (aassert b m)"
  and when_step: "keeps (step_rel e) u \<Longrightarrow> keeps (step_rel e) (awhen b u)"
  unfolding aassert_def awhen_def by (auto intro: step.keeps_rules)

lemma prod_step: "(\<And>x y. keeps (step_rel e) (f x y)) \<Longrightarrow> keeps (step_rel e) (case p of (x, y) \<Rightarrow> f x y)"
  by (cases p) simp

lemma option_step:
  "keeps (step_rel e) a \<Longrightarrow> (\<And>x. keeps (step_rel e) (f x)) \<Longrightarrow>
   keeps (step_rel e) (case p of None \<Rightarrow> a | Some x \<Rightarrow> f x)"
  by (cases p) simp_all

lemma list_step:
  "keeps (step_rel e) a \<Longrightarrow> (\<And>x xs. keeps (step_rel e) (f x xs)) \<Longrightarrow>
   keeps (step_rel e) (case p of [] \<Rightarrow> a | x # xs \<Rightarrow> f x xs)"
  by (cases p) simp_all

lemma ptr_step:
  "(\<And>i vo mk np. keeps (step_rel e) (f i vo mk np)) \<Longrightarrow> keeps (step_rel e) d \<Longrightarrow>
   keeps (step_rel e) (case v of Ptr i vo mk np \<Rightarrow> f i vo mk np | _ \<Rightarrow> d)"
  by (cases v) simp_all

lemma bool_step:
  "keeps (step_rel e) a \<Longrightarrow> keeps (step_rel e) b \<Longrightarrow> keeps (step_rel e) (case c of True \<Rightarrow> a | False \<Rightarrow> b)"
  by (cases c) simp_all

lemma edge_step:
  "(\<And>x. keeps (step_rel e) (f x)) \<Longrightarrow> (\<And>x. keeps (step_rel e) (g x)) \<Longrightarrow> (\<And>i b. keeps (step_rel e) (h i b)) \<Longrightarrow>
   keeps (step_rel e) (case c of FPtr x \<Rightarrow> f x | FPkt x \<Rightarrow> g x | FAdjust i b \<Rightarrow> h i b)"
  by (cases c) simp_all

lemmas step_rules = step.keeps_rules add_source_step set_reg_step set_pkt_facts_step cond_step
  if_step assert_step when_step prod_step option_step list_step ptr_step
  bool_step edge_step

section \<open>The entry of a block\<close>

lemma nullity_step: "keeps (step_rel e) (with_nullity p n)" "keeps (step_rel e) (with_view base p)"
  unfolding with_nullity_def with_view_def by (intro step_rules)+

lemma stamp_step: "keeps (step_rel e) (stamp_null_phi p pes es rg)"
  unfolding stamp_null_phi_def add_join_def Let_def by (intro step_rules)

lemma resolve_step: "keeps (step_rel e) (resolve_entry facts c v)"
  unfolding resolve_entry_def Let_def
  by (intro step_rules nullity_step)

lemma merge_ptrs_step: "keeps (step_rel e) (merge_ptrs pes es rg)"
  unfolding merge_ptrs_def merge_pkt_ptrs_def merge_map_ptrs_def merge_other_ptrs_def add_join_def Let_def
  by (intro step_rules nullity_step stamp_step)

lemma merge_scalars_step: "keeps (step_rel e) (merge_scalars pes es rg)"
  unfolding merge_scalars_def add_join_def Let_def by (intro step_rules)

lemma merge_entry_step: "keeps (step_rel e) (merge_entry_n depth pes es rg conds)"
proof (induction depth arbitrary: pes es conds)
  case (Suc depth)
  show ?case
    unfolding merge_entry_n.simps Let_def
    by (intro step_rules nullity_step stamp_step resolve_step merge_ptrs_step merge_scalars_step Suc.IH)
qed (simp add: step.keeps_raise)

lemma set_ctx_view_len:
  "amap f xs s = Inr (ys, s') \<Longrightarrow> length ys = length xs"
  by (induction xs arbitrary: ys s s') (auto elim!: abind_InrD)

section \<open>The instructions\<close>

lemma keeps_runD: "keeps R m \<Longrightarrow> m s = Inr (x, s') \<Longrightarrow> R s s'"
  by (auto simp: keeps_def)

lemma amap_view_step: "keeps (step_rel e) (amap (aopt (with_view base)) xs)"
  by (intro step_rules nullity_step)

lemma set_ctx_view_step: "keeps (step_rel e) (set_ctx_view base)"
  unfolding keeps_def
proof (intro allI impI)
  fix s x s' assume "set_ctx_view base s = Inr (x, s')"
  then obtain rs s1 ks s2 where
    r: "amap (aopt (with_view base)) (t_regs (c_blk s)) s = Inr (rs, s1)" and
    k: "amap (aopt (with_view base)) (t_stk (c_blk s1)) s1 = Inr (ks, s2)" and
    s': "s' = s2\<lparr>c_blk := (c_blk s2)\<lparr>t_regs := rs, t_stk := ks, t_pkt_base_id := base\<rparr>\<rparr>"
    unfolding set_ctx_view_def by (auto elim!: abind_InrD)
  have "step_rel e s s1" "step_rel e s1 s2"
    by (rule keeps_runD [OF amap_view_step r], rule keeps_runD [OF amap_view_step k])
  then have "step_rel e s s2" by (rule step.trans)
  moreover from this have "length rs = length (t_regs (c_blk s2))"
    using set_ctx_view_len [OF r] by (simp add: step_rel_def blk_rel_def)
  ultimately show "step_rel e s s'"
    unfolding s' by (auto simp: step_rel_def quiet_simps)
qed

lemma field_step:
  "keeps (step_rel e) (amod (\<lambda>b. b\<lparr>t_stk := f b\<rparr>))"
  "keeps (step_rel e) (amod (\<lambda>b. b\<lparr>t_adjust_pending := f1 b\<rparr>))"
  "keeps (step_rel e) (amod (\<lambda>b. b\<lparr>t_tail_ctx := f2 b, t_tail_target := f3 b\<rparr>))"
  "keeps (step_rel e) (amod (\<lambda>b. b\<lparr>t_ptr_facts := f4 b\<rparr>))"
  by (rule mod_step, simp add: quiet_simps)+

lemma join_step: "keeps (step_rel e) (stk_join idx k off sz v)"
  unfolding stk_join_def stk_put_def stk_index_def Let_def by (intro step_rules field_step)+

lemma stk_step: "keeps (step_rel e) (stk_store addr sz v)" "keeps (step_rel e) (stk_load addr sz)"
  unfolding stk_store_def store_part_def stk_load_def stk_index_def Let_def by (intro step_rules field_step join_step)+

lemma reg_step: "keeps (step_rel e) (get_reg r)" "keeps (step_rel e) (put_reg r v)"
  unfolding get_reg_def put_reg_def by (intro step_rules)+

lemma some_obj_step: "keeps (step_rel e) (some_obj v)" "keeps (step_rel e) (new_ptr_obj i vo mk)"
  unfolding some_obj_def new_ptr_obj_def by (intro step_rules)+

lemma load_mem_step: "keeps (step_rel e) (load_mem brief idx ptr offset sz)"
  unfolding load_mem_def load_ctx_def load_source_def Let_def
  by (intro step_rules stk_step some_obj_step)

lemma alu_obj_step:
  "keeps (step_rel e) (trunc_obj x idx)" "keeps (step_rel e) (sext_obj x bits sz idx)"
  "keeps (step_rel e) (expr_alu_obj dst src code sz brief idx ofs)" "keeps (step_rel e) (alu_src ins x)"
  "keeps (step_rel e) (unary_alu env idx ins sz dst)"
  unfolding trunc_obj_def sext_obj_def expr_alu_obj_def alu_src_def unary_alu_def Let_def
  by (intro step_rules some_obj_step)+

lemma ptr_alu_step: "keeps (step_rel e) (ptr_alu env idx code dst src)"
  unfolding ptr_alu_def pkt_add_def Let_def by (intro step_rules some_obj_step)

lemma track_alu_step: "keeps (step_rel e) (track_alu env idx)"
  unfolding track_alu_def alu_result_def Let_def
  by (intro step_rules reg_step alu_obj_step ptr_alu_step)

lemma track_load_step: "keeps (step_rel e) (track_load env idx)"
  unfolding track_load_def load_wide_def instr_size_def Let_def
  by (intro step_rules reg_step alu_obj_step some_obj_step load_mem_step)

lemma track_store_step: "keeps (step_rel True) (track_store env idx)"
  unfolding track_store_def store_mem_def atomic_stack_def atomic_mem_def instr_size_def Let_def
  by (intro step_rules reg_step alu_obj_step load_mem_step stk_step emit_step)

lemma track_branch_step: "keeps (step_rel e) (track_branch env idx)"
  unfolding track_branch_def branch_on_adjust_def branch_compare_def branch_null_check_def branch_pkt_size_def Let_def
  by (intro step_rules reg_step)

lemma set_r0_step: "keeps (step_rel e) (set_r0 v)" "keeps (step_rel e) (call_value env v)"
  unfolding set_r0_def call_value_def by (intro step_rules reg_step)+

lemma call_map_step:
  "keeps (step_rel True) (call_lookup env idx)" "keeps (step_rel True) (call_update env idx)"
  "keeps (step_rel True) (call_delete env idx)"
  unfolding call_lookup_def call_update_def call_delete_def map_meta_def load_arg_def Let_def
  by (intro step_rules reg_step some_obj_step load_mem_step emit_step field_step set_r0_step)+

lemma adjust_args_step: "keeps (step_rel e) adjust_args"
  unfolding adjust_args_def by (intro step_rules reg_step)

lemma call_other_step:
  "keeps (step_rel True) (call_adjust_head env idx)" "keeps (step_rel True) (call_adjust env idx fn)"
  "keeps (step_rel True) (call_redirect env idx fn)" "keeps (step_rel True) (call_tail env blocks k)"
  unfolding call_adjust_head_def call_adjust_def call_redirect_def call_tail_def tail_region_def map_meta_def Let_def
  by (intro step_rules reg_step adjust_args_step set_r0_step emit_step field_step set_ctx_view_step)+

lemma track_call_step: "keeps (step_rel True) (track_call env blocks idx)"
  unfolding track_call_def call_helper_def clobber_args_def Let_def
  by (intro step_rules reg_step set_r0_step emit_step call_map_step call_other_step)

lemma run_keeps:
  assumes "m s = Inr (x, s')" and "keeps (step_rel e) m"
  shows "step_rel e s s'"
  using assms by (auto simp: keeps_def)

lemma track_instr_frame:
  assumes "track_instr env blocks i s = Inr (u, s')"
  shows "step_rel True (s\<lparr>c_blk := (c_blk s)\<lparr>t_idx := Some (int i)\<rparr>\<rparr>) s'"
  using assms unfolding track_instr_def Let_def
  by (auto split: if_splits simp: step.refl
      dest: run_keeps [OF _ track_alu_step [of True]] run_keeps [OF _ track_load_step [of True]]
        run_keeps [OF _ track_store_step] run_keeps [OF _ track_call_step]
        run_keeps [OF _ track_branch_step [of True]])

text \<open>
  What the instructions of a block leave as it was, and the actions they add: stamped with the
  block and their instruction, in the order of the instructions.
\<close>

definition ran :: "nat list \<Rightarrow> tblock \<Rightarrow> tblock \<Rightarrow> bool" where
  "ran idxs b b' \<longleftrightarrow>
     bblock.truncate b' = bblock.truncate b \<and> length (t_regs b') = length (t_regs b) \<and>
     (\<exists>new. t_actions b' = t_actions b @ new \<and> sorted (map a_idx new) \<and>
        (\<forall>a \<in> set new. a_block a = int (b_num b) \<and> a_idx a \<in> int ` set idxs))"

lemma track_instrs_ran:
  assumes "aeach (track_instr env blocks) idxs s = Inr (u, s')" and "sorted idxs"
  shows "ran idxs (c_blk s) (c_blk s')"
  using assms
proof (induction idxs arbitrary: s)
  case Nil
  then show ?case by (simp add: ran_def)
next
  case (Cons i idxs)
  from Cons.prems(1) obtain v t where
    i: "track_instr env blocks i s = Inr (v, t)" and r: "aeach (track_instr env blocks) idxs t = Inr (u, s')"
    by (auto elim: abind_InrD)
  have "blk_rel True ((c_blk s)\<lparr>t_idx := Some (int i)\<rparr>) (c_blk t)"
    using track_instr_frame [OF i] by (simp add: step_rel_def)
  then obtain n1 where t: "bblock.truncate (c_blk t) = bblock.truncate (c_blk s)"
    "length (t_regs (c_blk t)) = length (t_regs (c_blk s))" "t_actions (c_blk t) = t_actions (c_blk s) @ n1"
    "\<forall>a \<in> set n1. a_block a = int (b_num (c_blk s)) \<and> a_idx a = int i"
    by (auto simp: blk_rel_def stamped_def idx_stamp_def bblock.truncate_def)
  from Cons.IH [OF r] Cons.prems(2) obtain n2 where
    u: "bblock.truncate (c_blk s') = bblock.truncate (c_blk t)" "length (t_regs (c_blk s')) = length (t_regs (c_blk t))"
      "t_actions (c_blk s') = t_actions (c_blk t) @ n2" "sorted (map a_idx n2)"
      "\<forall>a \<in> set n2. a_block a = int (b_num (c_blk t)) \<and> a_idx a \<in> int ` set idxs"
    by (auto simp: ran_def)
  have "b_num (c_blk t) = b_num (c_blk s)" using t(1) by (simp add: bblock.truncate_def)
  moreover have "sorted (map a_idx (n1 @ n2))"
  proof -
    have "sorted (map a_idx n1)" using t(4) by (auto simp: sorted_iff_nth_mono)
    moreover have "\<forall>x \<in> a_idx ` set n1. \<forall>y \<in> a_idx ` set n2. x \<le> y"
      using t(4) u(5) Cons.prems(2) by fastforce
    ultimately show ?thesis using u(4) by (simp add: sorted_append)
  qed
  ultimately show ?case
    unfolding ran_def using t u by (intro conjI exI [of _ "n1 @ n2"]) auto
qed

section \<open>A whole block\<close>

definition regs_ok :: "tblock \<Rightarrow> bool" where
  "regs_ok b \<longleftrightarrow> length (t_regs b) = 11"

text \<open>The entry state: the place in the graph is kept, there are no actions yet.\<close>

definition entered :: "tblock \<Rightarrow> tblock \<Rightarrow> bool" where
  "entered b b' \<longleftrightarrow> bblock.truncate b' = bblock.truncate b \<and> t_actions b' = [] \<and> regs_ok b'"

lemma init_state_entered:
  assumes "init_state s = Inr (u, s')" and "regs_ok (c_blk s)" and "t_actions (c_blk s) = []"
  shows "entered (c_blk s) (c_blk s')"
  using assms unfolding init_state_def
  by (auto simp: act_simps entered_def regs_ok_def bblock.truncate_def)

interpretation same: kept "\<lambda>s s'. c_blk s' = c_blk s"
  by unfold_locales auto

lemma first_ctx_same:
  "keeps (\<lambda>s s'. c_blk s' = c_blk s) (case cs of c # _ \<Rightarrow> aret c | [] \<Rightarrow> new_obj ctx_ptr)"
  by (cases cs) (simp_all only: list.case same.keeps_ret same.keeps_new_obj)

lemma init_tail_entered:
  assumes "init_tail_entry blocks s = Inr (u, s')" and "t_actions (c_blk s) = []"
  shows "entered (c_blk s) (c_blk s')"
proof -
  define sites where "sites = filter (\<lambda>b. b_succ_t b = Some (b_num (c_blk s))) (map (\<lambda>p. blocks ! p) (b_preds (c_blk s)))"
  have "abind (case tail_ctxs sites of c # _ \<Rightarrow> aret c | [] \<Rightarrow> new_obj ctx_ptr) (\<lambda>r1.
       abind (new_obj stk_ptr) (\<lambda>r10. amod (tail_entry_state sites r1 r10))) s = Inr (u, s')"
    using assms(1) unfolding init_tail_entry_def Let_def abind_get prod.case sites_def [symmetric]
    by (simp only: araise_run sum.distinct split: if_splits)
  then obtain r1 s1 where s1: "(case tail_ctxs sites of c # _ \<Rightarrow> aret c | [] \<Rightarrow> new_obj ctx_ptr) s = Inr (r1, s1)"
    and r: "abind (new_obj stk_ptr) (\<lambda>r10. amod (tail_entry_state sites r1 r10)) s1 = Inr (u, s')"
    by (rule abind_InrD)
  have "c_blk s1 = c_blk s" by (rule keeps_runD [OF first_ctx_same s1])
  with r have "c_blk s' = tail_entry_state sites r1 (c_oids s1, stk_ptr) (c_blk s)" by (auto simp: act_simps)
  with assms(2) show ?thesis
    by (simp add: entered_def regs_ok_def tail_entry_state_def Let_def bblock.truncate_def)
qed

lemma merge_facts_frame:
  assumes "merge_facts i pb c b = Inr b'"
  shows "bblock.truncate b' = bblock.truncate b \<and> t_actions b' = t_actions b \<and> length (t_regs b') = length (t_regs b)"
  using assms unfolding merge_facts_def Let_def
  by (elim ebind_InrE) (auto simp: bblock.truncate_def elim!: ebind_InrE split: if_splits)

text \<open>A relation for the entry: as \<open>step_rel False\<close>, without the sources and the identities.\<close>

definition same_place :: "tblock \<Rightarrow> tblock \<Rightarrow> bool" where
  "same_place b b' \<longleftrightarrow>
     bblock.truncate b' = bblock.truncate b \<and> t_actions b' = t_actions b \<and> length (t_regs b') = length (t_regs b)"

lemma same_place_trans: "same_place a b \<Longrightarrow> same_place b c \<Longrightarrow> same_place a c"
  by (simp add: same_place_def)

interpretation entry: kept "\<lambda>s s'. same_place (c_blk s) (c_blk s')"
  by unfold_locales (auto simp: same_place_def)

lemma step_entry:
  "keeps (step_rel False) m \<Longrightarrow> keeps (\<lambda>s s'. same_place (c_blk s) (c_blk s')) m"
  unfolding keeps_def by (fastforce simp: step_rel_def blk_rel_def same_place_def)

lemma merge_facts_entry: "keeps (\<lambda>s s'. same_place (c_blk s) (c_blk s')) (amod_res (merge_facts i pb c))"
  by (rule entry.keeps_mod_res) (auto simp: same_place_def dest: merge_facts_frame)

lemma merge_from_entered:
  assumes "merge_from pes pbs conds s = Inr (u, s')" and "t_actions (c_blk s) = []"
    and "\<forall>pb \<in> set pbs. regs_ok pb"
  shows "entered (c_blk s) (c_blk s')"
proof -
  let ?E = "\<lambda>s s'. same_place (c_blk s) (c_blk s')"
  obtain x s1 where s1: "merge_all_facts pbs conds s = Inr (x, s1)" and
    r: "(if pbs = [] then araise IndexError
         else abind (amod (\<lambda>b. b\<lparr>t_regs := t_regs (hd pbs)\<rparr>)) (\<lambda>_.
           abind (merge_regs pes pbs conds) (\<lambda>_. merge_stk pes pbs conds))) s1 = Inr (u, s')"
    using assms(1) unfolding merge_from_def by (rule abind_InrD)
  have ne: "pbs \<noteq> []" using r by auto
  with r have rest: "abind (merge_regs pes pbs conds) (\<lambda>_. merge_stk pes pbs conds)
      (s1\<lparr>c_blk := (c_blk s1)\<lparr>t_regs := t_regs (hd pbs)\<rparr>\<rparr>) = Inr (u, s')" by simp
  have k1: "keeps ?E (merge_all_facts pbs conds)"
    unfolding merge_all_facts_def by (intro entry.keeps_each merge_facts_entry)
  have "keeps (step_rel False) (merge_regs pes pbs conds)"
    unfolding merge_regs_def merge_entry_def by (intro step_rules merge_entry_step)
  moreover have "keeps (step_rel False) (merge_stk pes pbs conds)"
    unfolding merge_stk_def merge_entry_def Let_def by (intro step_rules merge_entry_step field_step)
  ultimately have "keeps ?E (abind (merge_regs pes pbs conds) (\<lambda>_. merge_stk pes pbs conds))"
    by (intro step_entry step.keeps_bind)
  from keeps_runD [OF this rest] keeps_runD [OF k1 s1]
  have e: "same_place (c_blk s) (c_blk s1)"
    "same_place ((c_blk s1)\<lparr>t_regs := t_regs (hd pbs)\<rparr>) (c_blk s')" by simp_all
  have "regs_ok (hd pbs)" using ne assms(3) by simp
  with e assms(2) show ?thesis
    by (simp add: entered_def same_place_def regs_ok_def bblock.truncate_def)
qed

lemma merge_predecessors_entered:
  assumes "merge_predecessors blocks s = Inr (u, s')" and "t_actions (c_blk s) = []"
    and "\<forall>p \<in> set (b_preds (c_blk s)). regs_ok (blocks ! p)"
  shows "entered (c_blk s) (c_blk s')"
  by (rule merge_from_entered [OF assms(1) [unfolded merge_predecessors_def abind_get prod.case Let_def] assms(2)])
    (use assms(3) in \<open>simp add: pred_edge_of_def\<close>)

lemma enter_block_entered:
  assumes "enter_block blocks k s = Inr (u, s')" and "regs_ok (c_blk s)"
    and "\<forall>p \<in> set (b_preds (c_blk s)). regs_ok (blocks ! p)"
  shows "entered (c_blk s) (c_blk s')"
proof -
  let ?t = "s\<lparr>c_blk := reset_block (c_blk s)\<rparr>"
  have t: "t_actions (c_blk ?t) = []" "bblock.truncate (c_blk ?t) = bblock.truncate (c_blk s)"
    "regs_ok (c_blk ?t)" "b_preds (c_blk ?t) = b_preds (c_blk s)"
    using assms(2) by (simp_all add: reset_block_def bblock.truncate_def regs_ok_def)
  from assms(1) have "(if k = 0 then init_state
       else if b_prog_entry (c_blk ?t) \<noteq> None then init_tail_entry blocks else merge_predecessors blocks) ?t = Inr (u, s')"
    unfolding enter_block_def by simp
  then have "entered (c_blk ?t) (c_blk s')"
    using init_state_entered [OF _ t(3,1)] init_tail_entered [OF _ t(1)] merge_predecessors_entered [OF _ t(1)]
      assms(3) t(4) by (auto split: if_splits)
  with t(2) show ?thesis by (simp add: entered_def)
qed

text \<open>A block after it was tracked: its actions are in program order, within the block.\<close>

definition tracked :: "tblock \<Rightarrow> bool" where
  "tracked b \<longleftrightarrow>
     regs_ok b \<and> sorted (map a_idx (t_actions b)) \<and>
     (\<forall>a \<in> set (t_actions b). a_block a = int (b_num b) \<and> int (b_start b) \<le> a_idx a \<and> a_idx a \<le> int (b_end b))"

definition same_graph :: "tblock list \<Rightarrow> tblock list \<Rightarrow> bool" where
  "same_graph bs bs' \<longleftrightarrow> map bblock.truncate bs' = map bblock.truncate bs"

lemma same_graphD:
  assumes "same_graph bs bs'" and "k < length bs"
  shows "length bs' = length bs" "b_preds (bs' ! k) = b_preds (bs ! k)"
    "bblock.truncate (bs' ! k) = bblock.truncate (bs ! k)"
proof -
  show l: "length bs' = length bs" using assms(1) unfolding same_graph_def by (rule map_eq_imp_length_eq)
  have "map bblock.truncate bs' ! k = map bblock.truncate bs ! k" using assms(1) by (simp add: same_graph_def)
  with l assms(2) show t: "bblock.truncate (bs' ! k) = bblock.truncate (bs ! k)" by simp
  then show "b_preds (bs' ! k) = b_preds (bs ! k)" by (simp add: bblock.truncate_def)
qed

definition all_regs :: "tblock list \<Rightarrow> bool" where
  "all_regs bs \<longleftrightarrow> (\<forall>b \<in> set bs. regs_ok b)"

definition preds_in :: "tblock list \<Rightarrow> bool" where
  "preds_in bs \<longleftrightarrow> (\<forall>b \<in> set bs. \<forall>p \<in> set (b_preds b). p < length bs)"

lemma same_graph_length: "same_graph a b \<Longrightarrow> length b = length a"
  unfolding same_graph_def by (rule map_eq_imp_length_eq)

lemma preds_in_same:
  assumes "same_graph bs bs'" and "preds_in bs"
  shows "preds_in bs'"
  unfolding preds_in_def
proof (intro ballI)
  fix b p assume b: "b \<in> set bs'" and p: "p \<in> set (b_preds b)"
  have len: "length bs' = length bs" by (rule same_graph_length [OF assms(1)])
  from b len obtain k where k: "k < length bs" "b = bs' ! k" by (auto simp: in_set_conv_nth)
  with p have "p \<in> set (b_preds (bs ! k))" by (simp add: same_graphD(2) [OF assms(1)])
  with assms(2) nth_mem [OF k(1)] len show "p < length bs'" by (simp add: preds_in_def)
qed

lemma track_block_frame:
  assumes run: "track_block env k st = Inr st'" and k: "k < length (s_blocks st)"
    and regs: "all_regs (s_blocks st)" and preds: "preds_in (s_blocks st)"
  shows "same_graph (s_blocks st) (s_blocks st')" "all_regs (s_blocks st')" "tracked (s_blocks st' ! k)"
    "\<And>j. j \<noteq> k \<Longrightarrow> s_blocks st' ! j = s_blocks st ! j"
proof -
  let ?bs = "s_blocks st"
  let ?b = "?bs ! k"
  let ?s = "\<lparr>c_blk = ?b, c_ids = s_ids st, c_oids = s_oids st\<rparr>"
  from run obtain u c where c: "abind (enter_block ?bs k) (\<lambda>_.
      aeach (track_instr env ?bs) [b_start ?b..<Suc (b_end ?b)]) ?s = Inr (u, c)"
    and st': "s_blocks st' = ?bs[k := c_blk c]"
    unfolding track_block_def Let_def by (auto split: sum.splits)
  from c obtain v t where e: "enter_block ?bs k ?s = Inr (v, t)" and
    i: "aeach (track_instr env ?bs) [b_start ?b..<Suc (b_end ?b)] t = Inr (u, c)"
    by (rule abind_InrD)
  have p: "\<forall>p \<in> set (b_preds ?b). regs_ok (?bs ! p)"
    using regs preds nth_mem [OF k] by (auto simp: all_regs_def preds_in_def intro: nth_mem)
  have "entered ?b (c_blk t)"
    using enter_block_entered [OF e] p regs k by (simp add: all_regs_def)
  moreover have "ran [b_start ?b..<Suc (b_end ?b)] (c_blk t) (c_blk c)"
    by (rule track_instrs_ran [OF i]) (rule sorted_upt)
  ultimately have ent: "entered ?b (c_blk t)" and ran: "ran [b_start ?b..<Suc (b_end ?b)] (c_blk t) (c_blk c)" .
  then have b: "bblock.truncate (c_blk c) = bblock.truncate ?b" and r: "regs_ok (c_blk c)"
    and s: "sorted (map a_idx (t_actions (c_blk c)))"
    and a: "\<forall>a \<in> set (t_actions (c_blk c)). a_block a = int (b_num (c_blk t)) \<and>
      a_idx a \<in> int ` {b_start ?b..<Suc (b_end ?b)}"
    by (simp_all add: entered_def ran_def regs_ok_def del: upt_Suc)
  have "b_num (c_blk t) = b_num ?b" "b_num (c_blk c) = b_num ?b" "b_start (c_blk c) = b_start ?b"
    "b_end (c_blk c) = b_end ?b"
    using b ent by (simp_all add: entered_def bblock.truncate_def)
  with r s a show "tracked (s_blocks st' ! k)" using st' k by (auto simp: tracked_def)
  show "same_graph ?bs (s_blocks st')"
    unfolding same_graph_def st' by (simp add: map_update b list_update_same_conv [THEN iffD2] k)
  show "all_regs (s_blocks st')"
    using regs r unfolding all_regs_def st' by (auto dest!: set_update_subset_insert [THEN subsetD])
  show "\<And>j. j \<noteq> k \<Longrightarrow> s_blocks st' ! j = ?bs ! j" using st' by simp
qed

section \<open>The whole run\<close>

definition track_seq :: "tenv \<Rightarrow> tstate \<Rightarrow> nat list \<Rightarrow> tstate res" where
  "track_seq env = efoldl (\<lambda>st k. track_block env k st)"

text \<open>An order in which every block comes after its predecessors, those already done aside.\<close>

fun in_order :: "tblock list \<Rightarrow> nat set \<Rightarrow> nat list \<Rightarrow> bool" where
  "in_order bs don [] = True"
| "in_order bs don (k # ks) = (set (b_preds (bs ! k)) \<subseteq> don \<and> in_order bs (insert k don) ks)"

lemma in_order_same:
  assumes "same_graph bs bs'" and "set ks \<subseteq> {..<length bs}"
  shows "in_order bs' don ks = in_order bs don ks"
  using assms(2) by (induction ks arbitrary: don) (simp_all add: same_graphD [OF assms(1)])

lemma preds_done:
  assumes "preds_in bs" and "set (b_preds (bs ! k)) \<inter> set untraced = {}" and "k < length bs"
  shows "set (b_preds (bs ! k)) \<subseteq> {..<length bs} - set untraced"
  using assms by (auto simp: preds_in_def)

lemma next_block_free:
  assumes "get_next_block_no bs untraced = Inr k"
  shows "k \<in> set untraced" "set (b_preds (bs ! k)) \<inter> set untraced = {}"
  using assms by (auto simp: get_next_block_no_def dest!: find_SomeD)

lemma same_graph_trans: "same_graph a b \<Longrightarrow> same_graph b c \<Longrightarrow> same_graph a c"
  by (simp add: same_graph_def)

text \<open>
  The loop: on success it is a run over an order of the remaining blocks; on failure it stopped at
  the scheduler with some blocks left, or within a block.
\<close>

lemma track_loop_order:
  assumes "distinct untraced" and "set untraced \<subseteq> {..<length (s_blocks st)}"
    and "all_regs (s_blocks st)" and "preds_in (s_blocks st)"
    and "track_loop env st untraced = Inr st'"
  shows "\<exists>ks. distinct ks \<and> set ks = set untraced \<and>
     in_order (s_blocks st) ({..<length (s_blocks st)} - set untraced) ks \<and> track_seq env st ks = Inr st'"
  using assms
proof (induction env st untraced rule: track_loop.induct)
  case (1 env st untraced)
  show ?case
  proof (cases "untraced = []")
    case True
    with "1.prems"(5) show ?thesis
      by (intro exI [of _ "[]"]) (simp add: track_loop.simps track_seq_def)
  next
    case False
    with "1.prems"(5) obtain k t where n: "get_next_block_no (s_blocks st) untraced = Inr k"
      and t: "track_block env k st = Inr t" and l: "track_loop env t (remove1 k untraced) = Inr st'"
      by (subst (asm) track_loop.simps) (auto split: sum.splits)
    note free = next_block_free [OF n]
    have kl: "k < length (s_blocks st)" using free(1) "1.prems"(2) by auto
    note fr = track_block_frame [OF t kl "1.prems"(3,4)]
    have len: "length (s_blocks t) = length (s_blocks st)" by (rule same_graph_length [OF fr(1)])
    have set: "set (remove1 k untraced) = set untraced - {k}" using "1.prems"(1) by simp
    have "\<exists>ks. distinct ks \<and> set ks = set (remove1 k untraced) \<and>
        in_order (s_blocks t) ({..<length (s_blocks t)} - set (remove1 k untraced)) ks \<and> track_seq env t ks = Inr st'"
      using "1.IH" [OF False n t _ _ fr(2) preds_in_same [OF fr(1) "1.prems"(4)] l] "1.prems"(1,2) len by auto
    then obtain ks where ks: "distinct ks" "set ks = set untraced - {k}"
      "in_order (s_blocks t) ({..<length (s_blocks st)} - (set untraced - {k})) ks" "track_seq env t ks = Inr st'"
      unfolding set len by blast
    have "{..<length (s_blocks st)} - (set untraced - {k}) = insert k ({..<length (s_blocks st)} - set untraced)"
      using kl by auto
    with ks(2,3) "1.prems"(2) have
      "in_order (s_blocks st) (insert k ({..<length (s_blocks st)} - set untraced)) ks"
      by (subst in_order_same [OF fr(1), symmetric]) auto
    then show ?thesis
      using ks(1,2,4) free(1) t preds_done [OF "1.prems"(4) free(2) kl]
      by (intro exI [of _ "k # ks"]) (auto simp: track_seq_def)
  qed
qed

lemma track_seq_frame:
  assumes "track_seq env st ks = Inr st'" and "set ks \<subseteq> {..<length (s_blocks st)}" and "distinct ks"
    and "all_regs (s_blocks st)" and "preds_in (s_blocks st)"
  shows "same_graph (s_blocks st) (s_blocks st') \<and> all_regs (s_blocks st') \<and>
     (\<forall>k \<in> set ks. tracked (s_blocks st' ! k)) \<and> (\<forall>j. j \<notin> set ks \<longrightarrow> s_blocks st' ! j = s_blocks st ! j)"
  using assms
proof (induction ks arbitrary: st)
  case Nil
  then show ?case by (simp add: track_seq_def same_graph_def)
next
  case (Cons k ks)
  from Cons.prems(1) obtain t where t: "track_block env k st = Inr t" and r: "track_seq env t ks = Inr st'"
    unfolding track_seq_def by (auto simp: ebind_eq_Inr)
  have kl: "k < length (s_blocks st)" using Cons.prems(2) by simp
  note fr = track_block_frame [OF t kl Cons.prems(4,5)]
  have len: "length (s_blocks t) = length (s_blocks st)" by (rule same_graph_length [OF fr(1)])
  from Cons.IH [OF r _ _ fr(2) preds_in_same [OF fr(1) Cons.prems(5)]] Cons.prems(2,3) len
  have ih: "same_graph (s_blocks t) (s_blocks st')" "all_regs (s_blocks st')"
    "\<forall>j \<in> set ks. tracked (s_blocks st' ! j)" "\<forall>j. j \<notin> set ks \<longrightarrow> s_blocks st' ! j = s_blocks t ! j" by auto
  have "k \<notin> set ks" using Cons.prems(3) by simp
  with ih(4) fr(3) have "tracked (s_blocks st' ! k)" by simp
  with ih fr(4) same_graph_trans [OF fr(1) ih(1)] show ?case by auto
qed

section \<open>Properties\<close>

definition start_state :: "tenv \<Rightarrow> tblock list \<Rightarrow> nat \<Rightarrow> tstate" where
  "start_state env blocks oid = \<lparr>s_blocks = blocks, s_ids = int (length (e_instrs env)), s_oids = oid\<rparr>"

lemma start_state_blocks [simp]: "s_blocks (start_state env blocks oid) = blocks"
  by (simp add: start_state_def)

lemma track_split:
  assumes "track env blocks oid = Inr (st, srcs)"
  obtains t where "blocks \<noteq> []" and "track_block env 0 (start_state env blocks oid) = Inr t"
    and "track_loop env t [1..<length blocks] = Inr st" and "srcs = concat (map t_sources (s_blocks st))"
  using assms unfolding track_def start_state_def [symmetric]
  by (auto simp: ebind_eq_Inr split: if_splits)

lemma track_runs:
  assumes "track env blocks oid = Inr (st, srcs)" and "all_regs blocks" and "preds_in blocks"
  obtains ks where "blocks \<noteq> []" and "distinct ks" and "set ks = {1..<length blocks}" and "in_order blocks {0} ks"
    and "track_seq env (start_state env blocks oid) (0 # ks) = Inr st"
proof -
  from assms(1) obtain t where ne: "blocks \<noteq> []" and t: "track_block env 0 (start_state env blocks oid) = Inr t"
    and l: "track_loop env t [1..<length blocks] = Inr st" by (rule track_split)
  have "0 < length (s_blocks (start_state env blocks oid))" using ne by simp
  note fr = track_block_frame [OF t this, simplified, OF assms(2,3)]
  have len: "length (s_blocks t) = length blocks" by (rule same_graph_length [OF fr(1)])
  have sub: "set [1..<length blocks] \<subseteq> {..<length (s_blocks t)}" using len by auto
  obtain ks where ks: "distinct ks" "set ks = set [1..<length blocks]"
    "in_order (s_blocks t) ({..<length (s_blocks t)} - set [1..<length blocks]) ks" "track_seq env t ks = Inr st"
    using track_loop_order [OF distinct_upt sub fr(2) preds_in_same [OF fr(1) assms(3)] l] by blast
  have sub': "set ks \<subseteq> {..<length blocks}" using sub len ks(2) by simp
  have z: "{..<length blocks} - set [1..<length blocks] = {0}" using ne by (auto simp: Suc_le_eq)
  have "in_order blocks {0} ks"
    using ks(3) unfolding len z by (subst (asm) in_order_same [OF fr(1)]) (rule sub')
  moreover have "track_seq env (start_state env blocks oid) (0 # ks) = Inr st"
    using t ks(4) by (simp add: track_seq_def)
  ultimately show thesis using that [OF ne ks(1)] ks(2) by simp
qed

text \<open>
  Claim C25.  A successful run tracks every block exactly once, the entry first and every other block
  after all of its predecessors, so that the state a block is entered with is merged from finished
  predecessors only: the run is the sequence of block steps in such an order.
\<close>

theorem track_order:
  assumes "track env blocks oid = Inr (st, srcs)" and "all_regs blocks" and "preds_in blocks"
  shows "\<exists>ks. distinct ks \<and> set ks = {1..<length blocks} \<and> in_order blocks {0} ks \<and>
     track_seq env (start_state env blocks oid) (0 # ks) = Inr st"
  by (rule track_runs [OF assms]) blast

lemma track_well_formed_lemma:
  assumes "track env blocks oid = Inr (st, srcs)" and "all_regs blocks" and "preds_in blocks"
  shows "same_graph blocks (s_blocks st) \<and> (\<forall>k < length blocks. tracked (s_blocks st ! k))"
proof -
  obtain ks where ne: "blocks \<noteq> []" and ks: "distinct ks" "set ks = {1..<length blocks}"
    and run: "track_seq env (start_state env blocks oid) (0 # ks) = Inr st"
    using assms by (rule track_runs)
  have "set (0 # ks) = {..<length blocks}" using ks(2) ne by (auto simp: Suc_le_eq)
  moreover have "distinct (0 # ks)" using ks by simp
  ultimately show ?thesis using track_seq_frame [OF run] assms(2,3) by auto
qed

text \<open>
  Claim C26.  What a run leaves behind is well formed: the block graph is the one it started from,
  every block has its eleven registers, and the actions of a block are in program order, each
  stamped with the number of its block and with an instruction of that block.
\<close>

theorem track_well_formed:
  assumes "track env blocks oid = Inr (st, srcs)" and "all_regs blocks" and "preds_in blocks"
  shows "same_graph blocks (s_blocks st) \<and> (\<forall>k < length blocks. tracked (s_blocks st ! k))"
  using assms by (rule track_well_formed_lemma)

text \<open>A failure of the loop on an acyclic graph is a failure within a block.\<close>

lemma track_loop_fails:
  assumes "track_loop env st untraced = Inl e" and "set untraced \<subseteq> {..<length (s_blocks st)}" and "distinct untraced"
    and "all_regs (s_blocks st)" and "preds_in (s_blocks st)"
    and "acyclic {(p, b). b \<in> set untraced \<and> p \<in> set (b_preds (s_blocks st ! b))}"
  shows "\<exists>ks k t. set (k # ks) \<subseteq> set untraced \<and> k \<notin> set ks \<and> track_seq env st ks = Inr t \<and> track_block env k t = Inl e"
  using assms
proof (induction env st untraced rule: track_loop.induct)
  case (1 env st untraced)
  have ne: "untraced \<noteq> []" using "1.prems"(1) by (auto simp: track_loop.simps)
  obtain k where n: "get_next_block_no (s_blocks st) untraced = Inr k"
    using next_block_free_item [OF "1.prems"(6) ne] by blast
  note free = next_block_free [OF n]
  have kl: "k < length (s_blocks st)" using free(1) "1.prems"(2) by auto
  show ?case
  proof (cases "track_block env k st")
    case (Inl e')
    then have "e' = e" using "1.prems"(1) n ne by (subst (asm) track_loop.simps) simp
    with Inl free(1) show ?thesis
      by (intro exI [of _ "[]"] exI [of _ k] exI [of _ st]) (simp add: track_seq_def)
  next
    case (Inr t)
    note fr = track_block_frame [OF Inr kl "1.prems"(4,5)]
    have len: "length (s_blocks t) = length (s_blocks st)" by (rule same_graph_length [OF fr(1)])
    have l: "track_loop env t (remove1 k untraced) = Inl e"
      using "1.prems"(1) n ne Inr by (subst (asm) track_loop.simps) simp
    have set: "set (remove1 k untraced) = set untraced - {k}" using "1.prems"(3) by simp
    have "acyclic {(p, b). b \<in> set (remove1 k untraced) \<and> p \<in> set (b_preds (s_blocks t ! b))}"
      using "1.prems"(2) unfolding set
      by (intro acyclic_subset [OF "1.prems"(6)]) (auto simp: same_graphD(2) [OF fr(1)])
    from "1.IH" [OF ne n Inr l _ _ fr(2) preds_in_same [OF fr(1) "1.prems"(5)] this] "1.prems"(2,3) len set
    obtain ks j u where "set (j # ks) \<subseteq> set untraced - {k}" "j \<notin> set ks" "track_seq env t ks = Inr u"
      "track_block env j u = Inl e" by auto
    with Inr free(1) show ?thesis
      by (intro exI [of _ "k # ks"] exI [of _ j] exI [of _ u]) (auto simp: track_seq_def)
  qed
qed

text \<open>
  On a program without loops every failure of a run is a failure of a block: there is a
  block whose tracking raises that error, in the state reached after tracking other blocks without
  error.  The scheduler itself never gives up.
\<close>

theorem track_fails_in_block:
  assumes "track env blocks oid = Inl e" and "blocks \<noteq> []" and "all_regs blocks" and "preds_in blocks"
    and "acyclic {(p, b). b < length blocks \<and> p \<in> set (b_preds (blocks ! b))}"
  shows "\<exists>ks k t. set (k # ks) \<subseteq> {..<length blocks} \<and> k \<notin> set ks \<and>
     track_seq env (start_state env blocks oid) ks = Inr t \<and> track_block env k t = Inl e"
proof (cases "track_block env 0 (start_state env blocks oid)")
  case (Inl e')
  with assms(1,2) have "e' = e" unfolding track_def start_state_def [symmetric] by simp
  with Inl assms(2) show ?thesis
    by (intro exI [of _ "[]"] exI [of _ 0] exI [of _ "start_state env blocks oid"]) (simp add: track_seq_def)
next
  case (Inr t)
  have "0 < length (s_blocks (start_state env blocks oid))" using assms(2) by simp
  note fr = track_block_frame [OF Inr this, simplified, OF assms(3,4)]
  have len: "length (s_blocks t) = length blocks" by (rule same_graph_length [OF fr(1)])
  have l: "track_loop env t [1..<length blocks] = Inl e"
    using assms(1,2) Inr unfolding track_def start_state_def [symmetric]
    by (cases "track_loop env t [1..<length blocks]") auto
  have "acyclic {(p, b). b \<in> set [1..<length blocks] \<and> p \<in> set (b_preds (s_blocks t ! b))}"
    by (rule acyclic_subset [OF assms(5)]) (auto simp: same_graphD(2) [OF fr(1)])
  moreover have "set [1..<length blocks] \<subseteq> {..<length (s_blocks t)}" using len by auto
  ultimately obtain ks k u where "set (k # ks) \<subseteq> set [1..<length blocks]" "k \<notin> set ks" "track_seq env t ks = Inr u"
    "track_block env k u = Inl e"
    using track_loop_fails [OF l _ distinct_upt fr(2) preds_in_same [OF fr(1) assms(4)]] by blast
  with Inr assms(2) show ?thesis
    by (intro exI [of _ "0 # ks"] exI [of _ k] exI [of _ u]) (auto simp: track_seq_def)
qed

section \<open>Blocks with one predecessor\<close>

text \<open>A value that comes from one predecessor alone is taken over, the same object.\<close>

lemma merge_entry_none: "merge_entry [e] [None] rg [c] s = Inr (None, s)"
  by (simp add: merge_entry_def aopt_def enumerate_eq_zip abind_def)

lemma merge_entry_one:
  assumes "\<not> is_ptr (snd x) \<or> q_checked_null (ptr_of x) \<noteq> None"
  shows "merge_entry [e] [Some x] rg [None] s = Inr (Some x, s)"
proof (cases "is_ptr (snd x)")
  case True
  then obtain i vo mk np where "snd x = Ptr i vo mk np" by (auto simp: is_ptr_def split: val.splits)
  with assms show ?thesis
    using py_eq_refl_lemma [of "Ptr i vo mk np"]
    by (cases x) (auto simp: merge_entry_def aopt_def enumerate_eq_zip abind_def resolve_entry_def is_ptr_def ptr_of_def
      merge_ptrs_def merge_pkt_ptrs_def merge_map_ptrs_def merge_other_ptrs_def fold_nullity_def with_nullity_def
      stamp_null_phi_def some_act_def Let_def simp del: py_eq.simps)
next
  case False
  then show ?thesis
    by (cases x; cases "snd x") (auto simp: merge_entry_def aopt_def enumerate_eq_zip abind_def resolve_entry_def is_ptr_def ptr_of_def
      merge_scalars_def Let_def)
qed

lemma merge_ptr_facts_ok:
  "None \<notin> fst ` set xs \<Longrightarrow> \<exists>fs. efoldl (merge_ptr_fact None) facts xs = Inr fs"
proof (induction xs arbitrary: facts)
  case (Cons x xs)
  obtain base f where x: "x = (base, f)" by (cases x)
  with Cons.prems have "merge_ptr_fact None facts x \<noteq> Inl e" for e
    by (auto simp: merge_ptr_fact_def pick_ptr_fact_def edge_ptr_base_def)
  then obtain fs where "merge_ptr_fact None facts x = Inr fs" by (cases "merge_ptr_fact None facts x") auto
  with Cons.IH [of fs] Cons.prems show ?case by auto
qed simp

lemma aeach_ok:
  "(\<And>x s. x \<in> set xs \<Longrightarrow> \<exists>s'. f x s = Inr ((), s')) \<Longrightarrow> \<exists>s'. aeach f xs s = Inr ((), s')"
proof (induction xs arbitrary: s)
  case (Cons x xs)
  obtain s1 where "f x s = Inr ((), s1)" using Cons.prems [of x s] by auto
  with Cons.IH [of s1] Cons.prems show ?case by (simp add: abind_def)
qed simp

section \<open>A run\<close>

text \<open>Two blocks: a move, then the exit.\<close>

definition demo_instr :: "int \<Rightarrow> int \<Rightarrow> int \<Rightarrow> int \<Rightarrow> int \<Rightarrow> instr" where
  "demo_instr cl cd sr ds im =
     (blank_instr 0 0 [] False)\<lparr>i_opcode_class := cl, i_opcode_code := cd, i_src_reg := sr, i_dst_reg := ds, i_imm := im\<rparr>"
definition demo_instrs :: "instr list" where
  "demo_instrs = [demo_instr ALU64 BPF_MOV 0 0 2, demo_instr JMP BPF_EXIT 0 0 0]"
definition demo_env :: tenv where
  "demo_env = \<lparr>e_instrs = demo_instrs, e_maps = [], e_rodata = [], e_progs = [], e_brief = False\<rparr>"
definition demo_blocks :: "tblock list" where
  "demo_blocks =
     [new_tblock ((new_bblock 0 0 0)\<lparr>b_succ_f := Some 1\<rparr>),
      new_tblock ((new_bblock 1 1 1)\<lparr>b_preds := [0], b_exit := True\<rparr>)]"


lemma abind_weak: "m = m' \<Longrightarrow> s = s' \<Longrightarrow> abind m f s = abind m' f s'" by simp

lemmas run_defs = track_def track_block_def enter_block_def init_state_def new_obj_run reset_block_def new_tblock_def new_bblock_def
  track_instr_def instr_defs track_alu_def get_reg_def put_reg_def alu_src_def alu_result_def
  some_act_def set_reg_def py_index_def imm64_def blank_instr_def bblock.extend_def abind_cases amod_res_def

definition demo_regs :: "obj option list" where
  "demo_regs = [Some (2, Num 2 4 (-1)), Some (0, ctx_ptr)] @ replicate 8 None @ [Some (1, stk_ptr)]"

lemma demo_block0:
  obtains st where "track_block demo_env 0 \<lparr>s_blocks = demo_blocks, s_ids = 2, s_oids = 0\<rparr> = Inr st"
    and "s_blocks st ! 1 = demo_blocks ! 1" and "length (s_blocks st) = 2"
    and "t_regs (s_blocks st ! 0) = demo_regs" and "t_stk (s_blocks st ! 0) = []" and "t_cond_f (s_blocks st ! 0) = None"
   and "b_succ_f (s_blocks st ! 0) = Some 1" and "None \<notin> fst ` set (t_ptr_facts (s_blocks st ! 0))"
proof -
  have "case track_block demo_env 0 \<lparr>s_blocks = demo_blocks, s_ids = 2, s_oids = 0\<rparr> of Inl _ \<Rightarrow> False
    | Inr st \<Rightarrow> s_blocks st ! 1 = demo_blocks ! 1 \<and> length (s_blocks st) = 2 \<and> t_regs (s_blocks st ! 0) = demo_regs \<and>
       t_stk (s_blocks st ! 0) = [] \<and> t_cond_f (s_blocks st ! 0) = None \<and> b_succ_f (s_blocks st ! 0) = Some 1 \<and> None \<notin> fst ` set (t_ptr_facts (s_blocks st ! 0))"
    by (simp add: run_defs demo_env_def demo_instrs_def demo_instr_def demo_blocks_def demo_regs_def Let_def eval_nat_numeral cong: abind_weak)
  with that show thesis by (auto split: sum.splits)
qed


lemma demo_regs_one:
  assumes "k < 10"
  shows "merge_entry [e] [demo_regs ! k] rg [None] s = Inr (demo_regs ! k, s)"
proof -
  have "demo_regs ! k = None" if two: "2 \<le> k"
  proof -
    obtain j where "k = Suc (Suc j)" "j < 8" using le_Suc_ex [OF two] assms by auto
    then show ?thesis by (simp add: demo_regs_def nth_append)
  qed
  then consider "k = 0" | "k = 1" | "demo_regs ! k = None" by linarith
  then show ?thesis
  proof cases
    case 1
    then show ?thesis by (simp add: demo_regs_def merge_entry_one is_ptr_def)
  next
    case 2
    then show ?thesis by (simp add: demo_regs_def merge_entry_one ctx_ptr_def ptr_of_def default_ptr_def)
  next
    case 3
    then show ?thesis by (simp add: merge_entry_none)
  qed
qed

lemma demo_merge:
  assumes "t_regs pb = demo_regs" "t_stk pb = []" "None \<notin> fst ` set (t_ptr_facts pb)"
  shows "\<exists>s'. merge_from [e] [pb] [None] s = Inr ((), s')"
proof -
  obtain fs where "efoldl (merge_ptr_fact None) (t_ptr_facts (c_blk s)) (t_ptr_facts pb) = Inr fs"
    using merge_ptr_facts_ok [OF assms(3)] by blast
  then obtain s1 where f: "merge_all_facts [pb] [None] s = Inr ((), s1)"
    by (simp add: merge_all_facts_def amod_res_def merge_facts_def abind_def Let_def)
  let ?s2 = "s1\<lparr>c_blk := (c_blk s1)\<lparr>t_regs := t_regs pb\<rparr>\<rparr>"
  have "\<exists>s'. merge_regs [e] [pb] [None] ?s2 = Inr ((), s')"
    unfolding merge_regs_def by (rule aeach_ok) (simp add: assms(1) demo_regs_one abind_def set_reg_def)
  then obtain s3 where r: "merge_regs [e] [pb] [None] ?s2 = Inr ((), s3)" ..
  have "merge_stk [e] [pb] [None] s3 = Inr ((), s3\<lparr>c_blk := (c_blk s3)\<lparr>t_stk := []\<rparr>\<rparr>)"
    by (simp add: merge_stk_def assms(2))
  with f r show ?thesis by (simp add: merge_from_def abind_def)
qed

lemma demo_block1:
  assumes "s_blocks st ! 1 = demo_blocks ! 1" and "length (s_blocks st) = 2"
    and "t_regs (s_blocks st ! 0) = demo_regs" and "t_stk (s_blocks st ! 0) = []" and "t_cond_f (s_blocks st ! 0) = None"
   and "b_succ_f (s_blocks st ! 0) = Some 1" and "None \<notin> fst ` set (t_ptr_facts (s_blocks st ! 0))"
  shows "\<exists>st'. track_block demo_env 1 st = Inr st'"
proof -
  let ?s = "\<lparr>c_blk = s_blocks st ! 1, c_ids = s_ids st, c_oids = s_oids st\<rparr>"
  let ?t = "?s\<lparr>c_blk := reset_block (c_blk ?s)\<rparr>"
  obtain t where t: "merge_from [(0, Fall)] [s_blocks st ! 0] [None] ?t = Inr ((), t)"
    using demo_merge [OF assms(3,4,7)] by blast
  have "enter_block (s_blocks st) 1 ?s = Inr ((), t)"
    using assms(1,5,6) t
    by (simp add: enter_block_def merge_predecessors_def pred_edge_of_def edge_cond_def demo_blocks_def new_tblock_def
      bblock.extend_def new_bblock_def reset_block_def)
  moreover have "b_start (s_blocks st ! 1) = 1" "b_end (s_blocks st ! 1) = 1"
    using assms(1) by (simp_all add: demo_blocks_def new_tblock_def bblock.extend_def new_bblock_def)
  ultimately show ?thesis
    by (simp add: track_block_def Let_def abind_def track_instr_def demo_env_def demo_instrs_def demo_instr_def instr_defs)
qed

lemma demo_run: "\<exists>st srcs. track demo_env demo_blocks 0 = Inr (st, srcs)"
proof -
  obtain st where st: "track_block demo_env 0 \<lparr>s_blocks = demo_blocks, s_ids = 2, s_oids = 0\<rparr> = Inr st"
    and "s_blocks st ! 1 = demo_blocks ! 1" and l: "length (s_blocks st) = 2"
    and "t_regs (s_blocks st ! 0) = demo_regs" and "t_stk (s_blocks st ! 0) = []" and "t_cond_f (s_blocks st ! 0) = None"
    and "b_succ_f (s_blocks st ! 0) = Some 1" and "None \<notin> fst ` set (t_ptr_facts (s_blocks st ! 0))" by (rule demo_block0)
  note b = this(2-)
  obtain st' where "track_block demo_env 1 st = Inr st'" using demo_block1 [OF b] by blast
  moreover have "get_next_block_no (s_blocks st) [1] = Inr 1"
    using b(1) by (simp add: get_next_block_no_def demo_blocks_def new_tblock_def bblock.extend_def new_bblock_def)
  ultimately have "track_loop demo_env st [1] = Inr st'"
    by (simp add: track_loop.simps)
  with st show ?thesis
    by (simp add: track_def demo_env_def demo_instrs_def demo_blocks_def)
qed

lemma demo_graph: "all_regs demo_blocks" "preds_in demo_blocks"
  by (simp_all add: all_regs_def preds_in_def regs_ok_def demo_blocks_def new_tblock_def bblock.extend_def new_bblock_def)

theorem track_order_witness:
  "\<exists>st srcs ks. track demo_env demo_blocks 0 = Inr (st, srcs) \<and> set ks = {1} \<and> in_order demo_blocks {0} ks \<and>
     track_seq demo_env (start_state demo_env demo_blocks 0) (0 # ks) = Inr st"
proof -
  obtain st srcs where run: "track demo_env demo_blocks 0 = Inr (st, srcs)" using demo_run by blast
  from track_order [OF run demo_graph] obtain ks where "set ks = {1..<length demo_blocks}"
    "in_order demo_blocks {0} ks" "track_seq demo_env (start_state demo_env demo_blocks 0) (0 # ks) = Inr st" by blast
  moreover have "{1..<length demo_blocks} = {1}" by (auto simp: demo_blocks_def)
  ultimately show ?thesis using run by auto
qed

theorem track_well_formed_witness:
  "\<exists>st srcs. track demo_env demo_blocks 0 = Inr (st, srcs) \<and> tracked (s_blocks st ! 1)"
proof -
  obtain st srcs where run: "track demo_env demo_blocks 0 = Inr (st, srcs)" using demo_run by blast
  have "1 < length demo_blocks" by (simp add: demo_blocks_def)
  with track_well_formed [OF run demo_graph] run show ?thesis by blast
qed

text \<open>The same program with an instruction no helper answers to.\<close>

definition bad_env :: tenv where
  "bad_env = demo_env\<lparr>e_instrs := [demo_instr JMP BPF_CALL 0 0 9999, demo_instr JMP BPF_EXIT 0 0 0]\<rparr>"

theorem track_fails_in_block_witness:
  "track bad_env demo_blocks 0 = Inl (TrackError ''track_call: unknown helper'') \<and>
   (\<exists>ks k t. k < 2 \<and> track_seq bad_env (start_state bad_env demo_blocks 0) ks = Inr t \<and>
      track_block bad_env k t = Inl (TrackError ''track_call: unknown helper''))"
proof -
  have run: "track bad_env demo_blocks 0 = Inl (TrackError ''track_call: unknown helper'')"
    by (simp add: run_defs track_call_def call_helper_def plain_helpers_def bad_env_def demo_env_def demo_instr_def demo_blocks_def
      Let_def eval_nat_numeral cong: abind_weak)
  have "{(p, b). b < length demo_blocks \<and> p \<in> set (b_preds (demo_blocks ! b))} = {(0, 1)}"
    by (auto simp: demo_blocks_def new_tblock_def bblock.extend_def new_bblock_def less_Suc_eq)
  then have acy: "acyclic {(p, b). b < length demo_blocks \<and> p \<in> set (b_preds (demo_blocks ! b))}"
    by (simp only:) (simp add: wf_acyclic)
  have ne: "demo_blocks \<noteq> []" "length demo_blocks = 2" by (simp_all add: demo_blocks_def)
  from track_fails_in_block [OF run ne(1) demo_graph acy] ne(2) run show ?thesis by auto
qed

end
