(* ===== verification/Tracker_Access.thy ===== *)
theory Tracker_Access
  imports Tracker_Frame
begin

text \<open>
  The discipline the tracker enforces on memory accesses and calls: which registers may be
  dereferenced, which regions may be written, and what a helper call does to the registers.
\<close>

section \<open>Dereferences\<close>

definition checked_ptr :: "obj option \<Rightarrow> int set \<Rightarrow> bool" where
  "checked_ptr x regions \<longleftrightarrow>
     (\<exists>n i vo mk np. x = Some (n, Ptr i vo mk np) \<and> q_checked_null i = Some False \<and> q_type i \<in> regions)"

definition readable :: "int set" where
  "readable = {PTR_TO_CTX, PTR_TO_STK, PTR_TO_PKT, PTR_TO_MAP_VALUE, PTR_TO_BSS, PTR_TO_RODATA}"

definition writable :: "int set" where
  "writable = {PTR_TO_CTX, PTR_TO_STK, PTR_TO_PKT, PTR_TO_MAP_VALUE, PTR_TO_BSS}"

lemma load_mem_checked:
  assumes "load_mem brief idx v off sz s = Inr (x, s')"
  shows "q_checked_null (pinfo v) = Some False \<and> q_type (pinfo v) \<in> readable"
  using assms by (auto simp: load_mem_def readable_def Let_def split: if_splits)

lemma store_mem_checked:
  assumes "store_mem p addr sz src s = Inr (x, s')"
  shows "q_type (pinfo p) \<in> writable \<and> (q_type (pinfo p) = PTR_TO_CTX \<longrightarrow> addr = 16 \<and> sz = 4)"
  using assms by (auto simp: store_mem_def writable_def aassert_def Let_def split: if_splits)

lemma get_reg_run:
  "get_reg r s = (case py_index (t_regs (c_blk s)) r of None \<Rightarrow> Inl IndexError | Some i \<Rightarrow> Inr (t_regs (c_blk s) ! i, s))"
  by (simp add: get_reg_def split: option.split)

lemma instr_size_run:
  "instr_size ins s = (case sz_map (i_opcode_sz ins) of None \<Rightarrow> Inl KeyError | Some n \<Rightarrow> Inr (n, s))"
  by (cases "sz_map (i_opcode_sz ins)") (simp_all add: instr_size_def)

text \<open>The register an instruction dereferences.\<close>

definition deref_reg :: "instr \<Rightarrow> tctx \<Rightarrow> int \<Rightarrow> obj option" where
  "deref_reg ins s r = (case py_index (t_regs (c_blk s)) r of None \<Rightarrow> None | Some i \<Rightarrow> t_regs (c_blk s) ! i)"

lemma ptr_case_run:
  assumes "(case x of Some (n, Ptr i vo mk np) \<Rightarrow> f n i vo mk np | _ \<Rightarrow> araise e) s = Inr (y, s')"
  obtains n i vo mk np where "x = Some (n, Ptr i vo mk np)" and "f n i vo mk np s = Inr (y, s')"
  using assms by (auto split: option.splits prod.splits val.splits)

lemma track_load_derefs:
  assumes "track_load env idx s = Inr (u, s')" and "i_opcode_class (e_instrs env ! idx) = LDX"
  shows "i_opcode_mode (e_instrs env ! idx) \<in> {MEM, MEMSX} \<and>
    checked_ptr (deref_reg (e_instrs env ! idx) s (i_src_reg (e_instrs env ! idx))) readable"
proof -
  let ?ins = "e_instrs env ! idx"
  from assms(1) obtain sz v t where sz: "instr_size ?ins s = Inr (sz, s)" and m: "i_opcode_mode ?ins \<in> {MEM, MEMSX}" and
    r: "abind (get_reg (i_src_reg ?ins)) (\<lambda>src. case src of
        Some (n, Ptr i vo mk np) \<Rightarrow>
          abind (load_mem (e_brief env) (int idx) (Ptr i vo mk np) (i_offset ?ins) sz) (\<lambda>v.
          if i_opcode_mode ?ins = MEMSX \<and> sz < 8 then sext_obj v (int (sz * 8)) 8 (int idx) else aret v)
      | _ \<Rightarrow> araise (TrackError ''track_load: src_reg is not a PTR'')) s = Inr (v, t)"
    unfolding track_load_def Let_def assms(2)
    by (elim abind_InrD) (auto simp: instr_size_run split: if_splits option.splits)
  from r obtain x s1 where x: "get_reg (i_src_reg ?ins) s = Inr (x, s1)" and
    c: "(case x of
        Some (n, Ptr i vo mk np) \<Rightarrow>
          abind (load_mem (e_brief env) (int idx) (Ptr i vo mk np) (i_offset ?ins) sz) (\<lambda>v.
          if i_opcode_mode ?ins = MEMSX \<and> sz < 8 then sext_obj v (int (sz * 8)) 8 (int idx) else aret v)
      | _ \<Rightarrow> araise (TrackError ''track_load: src_reg is not a PTR'')) s1 = Inr (v, t)"
    by (rule abind_InrD)
  from c obtain n i vo mk np where p: "x = Some (n, Ptr i vo mk np)" and
    l: "abind (load_mem (e_brief env) (int idx) (Ptr i vo mk np) (i_offset ?ins) sz) (\<lambda>v.
          if i_opcode_mode ?ins = MEMSX \<and> sz < 8 then sext_obj v (int (sz * 8)) 8 (int idx) else aret v) s1 = Inr (v, t)"
    by (rule ptr_case_run)
  from l obtain w s2 where "load_mem (e_brief env) (int idx) (Ptr i vo mk np) (i_offset ?ins) sz s1 = Inr (w, s2)"
    by (rule abind_InrD)
  from load_mem_checked [OF this] x p m show ?thesis
    by (auto simp: get_reg_run deref_reg_def checked_ptr_def pinfo_def split: option.splits)
qed

text \<open>A store, down to the access itself.\<close>

lemma track_store_derefs:
  assumes "track_store env idx s = Inr (u, s')"
  shows "i_opcode_mode (e_instrs env ! idx) = MEM \<and>
      checked_ptr (deref_reg (e_instrs env ! idx) s (i_dst_reg (e_instrs env ! idx))) writable \<or>
    i_opcode_mode (e_instrs env ! idx) = ATOMIC \<and> i_opcode_class (e_instrs env ! idx) = STX \<and>
      (is_ptr_to (deref_reg (e_instrs env ! idx) s (i_dst_reg (e_instrs env ! idx))) PTR_TO_STK \<or>
       checked_ptr (deref_reg (e_instrs env ! idx) s (i_dst_reg (e_instrs env ! idx))) {PTR_TO_MAP_VALUE, PTR_TO_BSS})"
proof -
  let ?ins = "e_instrs env ! idx"
  let ?m = "i_opcode_mode ?ins"
  let ?mem = "\<lambda>dst src sz. case dst of
          Some (n, Ptr i vo mk np) \<Rightarrow>
            if q_checked_null i \<noteq> Some False
            then araise (TrackError ''track_store: store through a pointer not proven non-null'')
            else store_mem (Ptr i vo mk np) (q_off i + i_offset ?ins) sz src
        | _ \<Rightarrow> araise (TrackError ''track_store: dst_reg is not a PTR'')"
  let ?atomic = "\<lambda>dst src sz. abind (aassert (i_opcode_class ?ins = STX) ''track_store'') (\<lambda>_.
        case dst of
          Some (n, Ptr i vo mk np) \<Rightarrow>
            if q_type i = PTR_TO_STK then atomic_stack env (int idx) ?ins (q_off i + i_offset ?ins) sz src
            else
              abind (aassert (q_type i \<in> {PTR_TO_MAP_VALUE, PTR_TO_BSS}) ''track_store'') (\<lambda>_.
              atomic_mem env (int idx) ?ins (Ptr i vo mk np) sz src)
        | _ \<Rightarrow> araise (AssertionError ''track_store''))"
  from assms obtain sz reg dst src t where g: "get_reg (i_dst_reg ?ins) s = Inr (dst, s)" and
    run: "(if ?m \<in> {ABS, IND} then araise (TrackError ''track_store: legacy packet access not implemented'')
      else if ?m \<in> {IMM, MEMSX} then araise (TrackError ''track_store: invalid BPF_STX mode'')
      else if ?m = MEM then ?mem dst src sz
      else if ?m = ATOMIC then ?atomic dst src sz
      else araise (TrackError ''track_store: invalid BPF_STX mode'')) t = Inr (u, s')"
    unfolding track_store_def Let_def
    by (elim abind_InrD) (auto simp: instr_size_run get_reg_run split: option.splits)
  have dst: "dst = deref_reg ?ins s (i_dst_reg ?ins)"
    using g by (auto simp: get_reg_run deref_reg_def split: option.splits)
  consider "?m = MEM" "?mem dst src sz t = Inr (u, s')" | "?m = ATOMIC" "?atomic dst src sz t = Inr (u, s')"
    using run by (simp split: if_splits)
  then show ?thesis
  proof cases
    case 1
    from 1(2) obtain n i vo mk np where p: "dst = Some (n, Ptr i vo mk np)" and
      r: "(if q_checked_null i \<noteq> Some False
            then araise (TrackError ''track_store: store through a pointer not proven non-null'')
            else store_mem (Ptr i vo mk np) (q_off i + i_offset ?ins) sz src) t = Inr (u, s')"
      by (rule ptr_case_run)
    from r have "q_checked_null i = Some False" "q_type i \<in> writable"
      by (auto dest!: store_mem_checked simp: pinfo_def split: if_splits)
    with p 1(1) dst show ?thesis by (auto simp: checked_ptr_def)
  next
    case 2
    then obtain a t1 where cl: "i_opcode_class ?ins = STX" and c: "(case dst of
          Some (n, Ptr i vo mk np) \<Rightarrow>
            if q_type i = PTR_TO_STK then atomic_stack env (int idx) ?ins (q_off i + i_offset ?ins) sz src
            else
              abind (aassert (q_type i \<in> {PTR_TO_MAP_VALUE, PTR_TO_BSS}) ''track_store'') (\<lambda>_.
              atomic_mem env (int idx) ?ins (Ptr i vo mk np) sz src)
        | _ \<Rightarrow> araise (AssertionError ''track_store'')) t1 = Inr (u, s')"
      by (elim abind_InrD) (auto simp: aassert_def split: if_splits)
    from c obtain n i vo mk np where p: "dst = Some (n, Ptr i vo mk np)" and
      r: "(if q_type i = PTR_TO_STK then atomic_stack env (int idx) ?ins (q_off i + i_offset ?ins) sz src
            else
              abind (aassert (q_type i \<in> {PTR_TO_MAP_VALUE, PTR_TO_BSS}) ''track_store'') (\<lambda>_.
              atomic_mem env (int idx) ?ins (Ptr i vo mk np) sz src)) t1 = Inr (u, s')"
      by (rule ptr_case_run)
    show ?thesis
    proof (cases "q_type i = PTR_TO_STK")
      case True
      with p 2(1) cl dst show ?thesis by (auto simp: is_ptr_to_def)
    next
      case False
      with r have q: "q_type i \<in> {PTR_TO_MAP_VALUE, PTR_TO_BSS}"
        and a: "atomic_mem env (int idx) ?ins (Ptr i vo mk np) sz src t1 = Inr (u, s')"
        by (auto simp: aassert_def split: if_splits)
      from a obtain x t2 where "load_mem (e_brief env) (int idx) (Ptr i vo mk np) (i_offset ?ins) sz t1 = Inr (x, t2)"
        unfolding atomic_mem_def Let_def by (rule abind_InrD)
      from load_mem_checked [OF this] q p 2(1) cl dst show ?thesis by (auto simp: checked_ptr_def pinfo_def)
    qed
  qed
qed

text \<open>
  Claim C30.  No access escapes the null check.  A load that does not raise reads through a register
  that holds a pointer proven non-null, into a region that may be read; a store that does not raise
  goes through such a pointer into a region that may be written, so read-only data, maps
  themselves and the end of the packet are never written; an atomic operation needs a proven pointer
  to a map value or a global, or a stack pointer.  In all other cases an exception stops the run.
\<close>

theorem accesses_checked:
  "(track_load env idx s = Inr (u, s') \<and> i_opcode_class (e_instrs env ! idx) = LDX \<longrightarrow>
      checked_ptr (deref_reg (e_instrs env ! idx) s (i_src_reg (e_instrs env ! idx))) readable) \<and>
   (track_store env idx s = Inr (v, t) \<longrightarrow>
      i_opcode_mode (e_instrs env ! idx) = MEM \<and>
        checked_ptr (deref_reg (e_instrs env ! idx) s (i_dst_reg (e_instrs env ! idx))) writable \<or>
      i_opcode_mode (e_instrs env ! idx) = ATOMIC \<and> i_opcode_class (e_instrs env ! idx) = STX \<and>
        (is_ptr_to (deref_reg (e_instrs env ! idx) s (i_dst_reg (e_instrs env ! idx))) PTR_TO_STK \<or>
         checked_ptr (deref_reg (e_instrs env ! idx) s (i_dst_reg (e_instrs env ! idx))) {PTR_TO_MAP_VALUE, PTR_TO_BSS}))"
  using track_load_derefs track_store_derefs by blast

text \<open>A load of the packet pointer from the context, and the same from a register that holds nothing.\<close>

definition deref_env :: tenv where
  "deref_env = demo_env\<lparr>e_instrs := [(demo_instr LDX 0 1 2 0)\<lparr>i_opcode_mode := MEM\<rparr>, (demo_instr STX 0 1 2 0)\<lparr>i_opcode_mode := MEM\<rparr>]\<rparr>"

definition deref_start :: tctx where
  "deref_start = \<lparr>c_blk = (new_tblock (new_bblock 0 0 1))\<lparr>t_regs := demo_regs\<rparr>, c_ids = 2, c_oids = 3\<rparr>"

theorem accesses_checked_witness:
  "\<exists>s'. track_load deref_env 0 deref_start = Inr ((), s') \<and> checked_ptr (deref_reg (e_instrs deref_env ! 0) deref_start 1) readable \<and>
     (\<forall>v t. track_store deref_env 1 deref_start \<noteq> Inr (v, t))"
proof -
  have "\<exists>s'. track_load deref_env 0 deref_start = Inr ((), s')"
    by (simp add: deref_env_def deref_start_def demo_env_def demo_instr_def blank_instr_def track_load_def instr_size_run
      sz_map_def get_reg_run py_index_def demo_regs_def ctx_ptr_def default_ptr_def load_mem_def load_ctx_def pinfo_def
      aassert_def some_act_def new_ptr_obj_def new_ptr_def VAR_OFF_REGIONS_def abind_cases new_obj_run put_reg_def set_reg_def
      new_tblock_def bblock.extend_def Let_def)
  moreover have "i_opcode_class (e_instrs deref_env ! 0) = LDX" "i_src_reg (e_instrs deref_env ! 0) = 1"
    "i_opcode_mode (e_instrs deref_env ! 1) = MEM"
    "\<not> checked_ptr (deref_reg (e_instrs deref_env ! 1) deref_start (i_dst_reg (e_instrs deref_env ! 1))) writable"
    by (simp_all add: deref_env_def demo_env_def demo_instr_def blank_instr_def deref_start_def deref_reg_def py_index_def
      demo_regs_def checked_ptr_def ctx_ptr_def default_ptr_def writable_def nth_append)
  ultimately show ?thesis using accesses_checked [of deref_env 0 deref_start] accesses_checked [of deref_env 1 deref_start] by auto
qed

end
