(* ===== verification/Machine.thy ===== *)
theory Machine
  imports Tracker_Alu
begin

text \<open>
  The abstract machine the symbolic execution of a block is measured against: sixty-four-bit
  registers and a memory of bytes, one step per arithmetic, load and store instruction.  The fields
  of the XDP context are read as the kernel presents them to a program.
\<close>

section \<open>A byte memory in little-endian order\<close>

type_synonym ram = "64 word \<Rightarrow> 8 word"

fun load_le :: "ram \<Rightarrow> 64 word \<Rightarrow> nat \<Rightarrow> 64 word" where
  "load_le mem a 0 = 0"
| "load_le mem a (Suc n) = ucast (mem a) OR push_bit 8 (load_le mem (a + 1) n)"

definition store_le :: "ram \<Rightarrow> 64 word \<Rightarrow> nat \<Rightarrow> 64 word \<Rightarrow> ram" where
  "store_le mem a n w = (\<lambda>x. if unat (x - a) < n then ucast (drop_bit (8 * unat (x - a)) w) else mem x)"

lemma bit_load_le:
  "bit (load_le mem a n) j \<longleftrightarrow> j < 64 \<and> j < 8 * n \<and> bit (mem (a + of_nat (j div 8))) (j mod 8)"
proof (induction n arbitrary: a j)
  case (Suc n)
  show ?case
  proof (cases "j < 8")
    case True
    then show ?thesis by (simp add: bit_simps)
  next
    case False
    then obtain i where i: "j = i + 8" by (metis add.commute le_Suc_ex not_less)
    have no: "\<not> bit (mem a) (i + 8)" using bit_imp_le_length [of "mem a" "i + 8"] by auto
    have "j div 8 = Suc (i div 8)" by (simp add: i)
    then have at: "a + 1 + of_nat (i div 8) = a + of_nat (j div 8)" "i mod 8 = j mod 8" by (simp_all add: i)
    have "bit (load_le mem a (Suc n)) j \<longleftrightarrow> j < 64 \<and> bit (load_le mem (a + 1) n) i"
      using no by (auto simp: i bit_simps)
    also have "\<dots> \<longleftrightarrow> j < 64 \<and> i < 8 * n \<and> bit (mem (a + of_nat (j div 8))) (j mod 8)"
      unfolding Suc.IH at by (auto simp: i)
    finally show ?thesis by (simp add: i)
  qed
qed simp

text \<open>A part of eight bytes.\<close>

lemma load_le_part:
  assumes "off + n \<le> 8"
  shows "load_le mem (a + of_nat off) n = drop_bit (8 * off) (load_le mem a 8) AND mask (8 * n)"
proof (rule bit_word_eqI)
  fix j assume "j < LENGTH(64)"
  have at: "(8 * off + j) div 8 = off + j div 8" "(8 * off + j) mod 8 = j mod 8" by simp_all
  have e: "a + of_nat off + of_nat (j div 8) = a + of_nat (off + j div 8)" by simp
  have "bit (drop_bit (8 * off) (load_le mem a 8) AND mask (8 * n)) j \<longleftrightarrow> bit (load_le mem a 8) (8 * off + j) \<and> j < 8 * n"
    using \<open>j < LENGTH(64)\<close> by (simp add: bit_simps)
  also have "\<dots> \<longleftrightarrow> j < 8 * n \<and> bit (mem (a + of_nat (off + j div 8))) (j mod 8)"
    unfolding bit_load_le at using assms by auto
  also have "\<dots> \<longleftrightarrow> bit (load_le mem (a + of_nat off) n) j"
    unfolding bit_load_le e using \<open>j < LENGTH(64)\<close> by auto
  finally show "bit (load_le mem (a + of_nat off) n) j = bit (drop_bit (8 * off) (load_le mem a 8) AND mask (8 * n)) j" ..
qed

lemma load_le_cong: "(\<And>i. i < n \<Longrightarrow> mem (a + of_nat i) = mem' (a + of_nat i)) \<Longrightarrow> load_le mem a n = load_le mem' a n"
  by (rule bit_word_eqI) (auto simp: bit_load_le)

text \<open>Addresses near a base.\<close>

lemma near_unat:
  assumes "0 \<le> d" and "d < 2 ^ 32"
  shows "unat (word_of_int d :: 64 word) = nat d"
proof -
  have "d < 2 ^ 64" using assms(2) by simp
  then show ?thesis unfolding unat_eq_nat_uint using assms(1) by (simp add: uint_word_of_int_eq take_bit_int_eq_self)
qed

lemma near_offset:
  assumes "\<bar>d\<bar> < 2 ^ 32" and "n \<le> 8"
  shows "unat (word_of_int d :: 64 word) < n \<longleftrightarrow> 0 \<le> d \<and> d < int n"
proof (cases "0 \<le> d")
  case True
  with assms(1) near_unat [of d] show ?thesis by auto
next
  case False
  have "(word_of_int d :: 64 word) = word_of_int (d + 2 ^ 64)" by (simp add: word_of_int_eq_iff take_bit_eq_mod)
  moreover have "uint (word_of_int (d + 2 ^ 64) :: 64 word) = d + 2 ^ 64"
    unfolding uint_word_of_int_eq using False assms(1) by (intro take_bit_int_eq_self) simp_all
  ultimately have "uint (word_of_int d :: 64 word) = d + 2 ^ 64" by (simp only:)
  then have "int (unat (word_of_int d :: 64 word)) = d + 2 ^ 64" by simp
  moreover have "8 < d + 2 ^ 64" using assms(1) by simp
  ultimately have "\<not> unat (word_of_int d :: 64 word) < n" using assms(2) by linarith
  with False show ?thesis by simp
qed

lemma store_le_near:
  assumes "\<bar>b - c\<bar> < 2 ^ 32" and "n \<le> 8"
  shows "store_le mem (p + word_of_int c) n w (p + word_of_int b) =
    (if c \<le> b \<and> b < c + int n then ucast (drop_bit (8 * nat (b - c)) w) else mem (p + word_of_int b))"
proof -
  have d: "p + word_of_int b - (p + word_of_int c) = word_of_int (b - c)" by simp
  have c: "0 \<le> b - c \<and> b - c < int n \<longleftrightarrow> c \<le> b \<and> b < c + int n" by linarith
  have u: "unat (word_of_int (b - c) :: 64 word) = nat (b - c)" if "c \<le> b"
    using near_unat [of "b - c"] that assms(1) by linarith
  show ?thesis unfolding store_le_def d near_offset [OF assms] c by (rule if_cong) (simp_all only: u)
qed

section \<open>The machine\<close>

text \<open>The addresses a program is started with, and the fields of its context.\<close>

record host =
  h_fp :: "64 word"
  h_ctx :: "64 word"
  h_data :: "64 word"
  h_data_end :: "64 word"
  h_data_meta :: "64 word"
  h_ingress :: "32 word"
  h_rx_queue :: "32 word"
  h_egress :: "32 word"

definition ctx_field :: "host \<Rightarrow> int \<Rightarrow> 64 word option" where
  "ctx_field h k =
     (if k = 0 then Some (h_data h) else if k = 4 then Some (h_data_end h) else if k = 8 then Some (h_data_meta h)
      else if k = 12 then Some (ucast (h_ingress h)) else if k = 16 then Some (ucast (h_rx_queue h))
      else if k = 20 then Some (ucast (h_egress h)) else None)"

definition machine_load :: "host \<Rightarrow> ram \<Rightarrow> 64 word \<Rightarrow> nat \<Rightarrow> 64 word" where
  "machine_load h mem a n =
     (case if n = 4 then ctx_field h (uint (a - h_ctx h)) else None of Some w \<Rightarrow> w | None \<Rightarrow> load_le mem a n)"

definition access_size :: "instr \<Rightarrow> nat" where
  "access_size ins = (case sz_map (i_opcode_sz ins) of None \<Rightarrow> 0 | Some n \<Rightarrow> n)"

type_synonym machine = "(nat \<Rightarrow> 64 word) \<times> ram"

definition machine_step :: "host \<Rightarrow> instr \<Rightarrow> machine \<Rightarrow> machine" where
  "machine_step h ins s =
     (let (rf, mem) = s; d = nat (i_dst_reg ins); r = nat (i_src_reg ins); off = word_of_int (i_offset ins);
          n = access_size ins; cl = i_opcode_class ins
      in
      if cl = LDX then (rf(d := machine_load h mem (rf r + off) n), mem)
      else if cl = LD then (rf(d := word_of_int (wide_value ins)), mem)
      else if cl = ST then (rf, store_le mem (rf d + off) n (word_of_int (i_imm ins)))
      else if cl = STX then (rf, store_le mem (rf d + off) n (rf r))
      else (exec_alu ins rf, mem))"

definition machine_run :: "host \<Rightarrow> instr list \<Rightarrow> machine \<Rightarrow> machine" where
  "machine_run h code s = fold (machine_step h) code s"

text \<open>The condition of a conditional jump.\<close>

definition jump_taken :: "instr \<Rightarrow> (nat \<Rightarrow> 64 word) \<Rightarrow> bool" where
  "jump_taken ins rf =
     (let d = rf (nat (i_dst_reg ins));
          s = (if i_opcode_s ins = S_IMM then word_of_int (i_imm ins) else rf (nat (i_src_reg ins)))
      in
      if i_opcode_class ins = JMP then jmp_isa (i_opcode_code ins) d s
      else jmp_isa (i_opcode_code ins) (ucast d :: 32 word) (ucast s))"

end
