(* ===== verification/Block_Types.thy ===== *)
theory Block_Types
  imports Machine Stack Encode_Mem
begin

text \<open>
  A static discipline for the straight-line part of a block: which registers and stack slots hold words
  and which hold pointers, and by how many bytes a pointer is past the start of its region
  (\<open>type_step\<close>).  \<open>conforms\<close> relates a block of the tracker to a state of the machine of \<open>Machine\<close> at
  such types: the words are denoted, the pointers are the addresses, the bytes of the stack that were
  stored are those of the slots.
\<close>

section \<open>Types of registers and stack slots\<close>

datatype reg_type = Word | Pointer int int

text \<open>A slot of words knows which of its bits were stored, and whether short loads at its start are exact.\<close>

datatype slot_type = Bytes "64 word" bool | Spilled int int

record block_type =
  bt_regs :: "nat \<Rightarrow> reg_type option"
  bt_slots :: "nat \<Rightarrow> slot_type"
  bt_pkt :: int

definition stack_access :: "int \<Rightarrow> nat \<Rightarrow> bool" where
  "stack_access a n \<longleftrightarrow> - 512 \<le> a \<and> a < 0 \<and> nat (a mod 8) + n \<le> 8"

definition bits_of :: "int \<Rightarrow> nat \<Rightarrow> 64 word" where
  "bits_of a n = push_bit (8 * nat (a mod 8)) (mask (8 * n))"

definition slot_load :: "slot_type \<Rightarrow> int \<Rightarrow> nat \<Rightarrow> reg_type option" where
  "slot_load t a n =
     (case t of
        Bytes m tidy \<Rightarrow> if bits_of a n AND NOT m = 0 \<and> (a mod 8 \<noteq> 0 \<or> 4 \<le> n \<or> tidy) then Some Word else None
      | Spilled r o1 \<Rightarrow> if n = 8 then Some (Pointer r o1) else None)"

definition slot_store :: "slot_type \<Rightarrow> int \<Rightarrow> nat \<Rightarrow> reg_type \<Rightarrow> slot_type option" where
  "slot_store t a n v =
     (if n = 8 then Some (case v of Word \<Rightarrow> Bytes (- 1) False | Pointer r o1 \<Rightarrow> Spilled r o1)
      else case (t, v) of (Bytes m tidy, Word) \<Rightarrow> Some (Bytes (m OR bits_of a n) True) | _ \<Rightarrow> None)"

definition alu_type :: "block_type \<Rightarrow> instr \<Rightarrow> reg_type option" where
  "alu_type T ins =
     (let d = nat (i_dst_reg ins); r = nat (i_src_reg ins); code = i_opcode_code ins in
      if \<not> alu_valid ins then None
      else if \<forall>k \<in> reads ins. bt_regs T k = Some Word then Some Word
      else if i_opcode_class ins \<noteq> ALU64 then None
      else if code = BPF_MOV \<and> i_opcode_s ins = S_REG \<and> i_offset ins = 0 then bt_regs T r
      else if code \<in> {BPF_ADD, BPF_SUB} \<and> i_opcode_s ins = S_IMM then
        (case bt_regs T d of Some (Pointer t o1) \<Rightarrow> Some (Pointer t (o1 + num_delta code (i_imm ins))) | _ \<Rightarrow> None)
      else None)"

definition regs_valid :: "instr \<Rightarrow> bool" where
  "regs_valid ins \<longleftrightarrow> 0 \<le> i_src_reg ins \<and> i_src_reg ins \<le> 10 \<and> 0 \<le> i_dst_reg ins \<and> i_dst_reg ins \<le> 10"

definition ctx_load_type :: "int \<Rightarrow> nat \<Rightarrow> reg_type option" where
  "ctx_load_type a n =
     (if n \<noteq> 4 then None
      else if a = 0 then Some (Pointer PTR_TO_PKT 0) else if a = 4 then Some (Pointer PTR_TO_PKT_END 0)
      else if a = 8 then Some (Pointer PTR_TO_PKT_META 0)
      else if a \<in> {12, 16, 20} then Some Word else None)"

definition load_type :: "block_type \<Rightarrow> instr \<Rightarrow> reg_type option" where
  "load_type T ins =
     (case (if regs_valid ins \<and> i_opcode_mode ins = MEM then sz_map (i_opcode_sz ins) else None) of
        None \<Rightarrow> None
      | Some n \<Rightarrow>
          (case bt_regs T (nat (i_src_reg ins)) of
             Some (Pointer t o1) \<Rightarrow>
               let a = o1 + i_offset ins in
               if t = PTR_TO_CTX then ctx_load_type a n
               else if t = PTR_TO_STK then if stack_access a n then slot_load (bt_slots T (slot_no a)) a n else None
               else if t = PTR_TO_PKT then if 0 \<le> a \<and> a + int n \<le> bt_pkt T then Some Word else None
               else None
           | _ \<Rightarrow> None))"

definition wide_type :: "instr \<Rightarrow> reg_type option" where
  "wide_type ins =
     (if regs_valid ins \<and> sz_map (i_opcode_sz ins) \<noteq> None \<and> i_opcode_mode ins = IMM \<and> i_wide_instr ins \<and>
         i_src_reg ins = 0 \<and> \<not> i_relocated ins
      then Some Word else None)"

definition store_type :: "block_type \<Rightarrow> instr \<Rightarrow> (nat \<times> slot_type) option" where
  "store_type T ins =
     (case (if regs_valid ins \<and> i_opcode_mode ins = MEM then sz_map (i_opcode_sz ins) else None) of
        None \<Rightarrow> None
      | Some n \<Rightarrow>
          (case (bt_regs T (nat (i_dst_reg ins)),
                 if i_opcode_class ins = ST then if - (2 ^ 31) \<le> i_imm ins \<and> i_imm ins < 2 ^ 31 then Some Word else None
                 else bt_regs T (nat (i_src_reg ins))) of
             (Some (Pointer t o1), Some v) \<Rightarrow>
               let a = o1 + i_offset ins in
               if t = PTR_TO_STK \<and> stack_access a n
               then map_option (Pair (slot_no a)) (slot_store (bt_slots T (slot_no a)) a n v)
               else None
           | _ \<Rightarrow> None))"

definition set_type :: "block_type \<Rightarrow> instr \<Rightarrow> reg_type \<Rightarrow> block_type" where
  "set_type T ins t = T\<lparr>bt_regs := (bt_regs T)(nat (i_dst_reg ins) := Some t)\<rparr>"

definition type_step :: "instr \<Rightarrow> block_type \<Rightarrow> block_type option" where
  "type_step ins T =
     (let cl = i_opcode_class ins in
      if cl = LDX then map_option (set_type T ins) (load_type T ins)
      else if cl = LD then map_option (set_type T ins) (wide_type ins)
      else if cl = ST \<or> cl = STX then map_option (\<lambda>(k, t). T\<lparr>bt_slots := (bt_slots T)(k := t)\<rparr>) (store_type T ins)
      else map_option (set_type T ins) (alu_type T ins))"

fun type_code :: "instr list \<Rightarrow> block_type \<Rightarrow> block_type option" where
  "type_code [] T = Some T"
| "type_code (ins # code) T = Option.bind (type_step ins T) (type_code code)"

text \<open>A conditional jump on words.\<close>

definition branch_type_ok :: "block_type \<Rightarrow> instr \<Rightarrow> bool" where
  "branch_type_ok T ins \<longleftrightarrow>
     regs_valid ins \<and> i_opcode_class ins \<in> {JMP, JMP32} \<and> i_opcode_code ins \<in> jmp_codes \<and>
     i_opcode_s ins \<in> {S_IMM, S_REG} \<and> - (2 ^ 31) \<le> i_imm ins \<and> i_imm ins < 2 ^ 31 \<and>
     bt_regs T (nat (i_dst_reg ins)) = Some Word \<and>
     (i_opcode_s ins = S_REG \<longrightarrow> bt_regs T (nat (i_src_reg ins)) = Some Word)"

text \<open>The state a program starts in.\<close>

definition entry_type :: "int \<Rightarrow> block_type" where
  "entry_type len =
     \<lparr>bt_regs = (\<lambda>_. None)(1 := Some (Pointer PTR_TO_CTX 0), 10 := Some (Pointer PTR_TO_STK 0)),
      bt_slots = (\<lambda>_. Bytes 0 True), bt_pkt = len\<rparr>"

section \<open>Conformance\<close>

definition base_of :: "host \<Rightarrow> int \<Rightarrow> 64 word option" where
  "base_of h t =
     (if t = PTR_TO_CTX then Some (h_ctx h) else if t = PTR_TO_STK then Some (h_fp h)
      else if t = PTR_TO_PKT then Some (h_data h) else if t = PTR_TO_PKT_END then Some (h_data_end h)
      else if t = PTR_TO_PKT_META then Some (h_data_meta h) else None)"

definition ptr_means :: "host \<Rightarrow> int \<Rightarrow> int \<Rightarrow> obj option \<Rightarrow> 64 word \<Rightarrow> bool" where
  "ptr_means h t o1 x w \<longleftrightarrow>
     (\<exists>n i mk np. x = Some (n, Ptr i None mk np) \<and> q_type i = t \<and> q_off i = o1 \<and> q_checked_null i = Some False) \<and>
     (\<exists>b. base_of h t = Some b \<and> w = b + word_of_int o1)"

definition val_means ::
  "z3_queries \<Rightarrow> ('m \<Rightarrow> bvt \<Rightarrow> int) \<Rightarrow> z3_state \<Rightarrow> 'm \<Rightarrow> host \<Rightarrow> reg_type \<Rightarrow> obj option \<Rightarrow> 64 word \<Rightarrow> bool" where
  "val_means z ev st m h t x w = (case t of Word \<Rightarrow> reg_means z ev st m x w | Pointer r o1 \<Rightarrow> ptr_means h r o1 x w)"

definition slot_means ::
  "z3_queries \<Rightarrow> ('m \<Rightarrow> bvt \<Rightarrow> int) \<Rightarrow> z3_state \<Rightarrow> 'm \<Rightarrow> host \<Rightarrow> slot_type \<Rightarrow> obj option \<Rightarrow> 64 word \<Rightarrow> bool" where
  "slot_means z ev st m h t x w =
     (case t of
        Bytes k tidy \<Rightarrow>
          (\<exists>w'. cell_means z ev st m x w' \<and> w' AND k = w AND k) \<and> (k \<noteq> 0 \<longrightarrow> x \<noteq> None) \<and>
          (tidy \<longrightarrow> (\<forall>n v. x = Some (n, v) \<longrightarrow> v_size v = 8))
      | Spilled r o1 \<Rightarrow> ptr_means h r o1 x w)"

text \<open>The eight bytes of a slot, the stack and the packet in memory, and what the assignment says of the world.\<close>

definition slot_at :: "host \<Rightarrow> ram \<Rightarrow> nat \<Rightarrow> 64 word" where
  "slot_at h mem k = load_le mem (h_fp h + word_of_int (- 8 * (int k + 1))) 8"

definition places_apart :: "host \<Rightarrow> int \<Rightarrow> bool" where
  "places_apart h len \<longleftrightarrow> len \<le> 65536 \<and>
     (\<forall>a i. - 512 \<le> a \<longrightarrow> a < 0 \<longrightarrow> 0 \<le> i \<longrightarrow> i < len \<longrightarrow> h_fp h + word_of_int a \<noteq> h_data h + word_of_int i) \<and>
     (\<forall>a j. - 512 \<le> a \<longrightarrow> a < 0 \<longrightarrow> 0 \<le> j \<longrightarrow> j < 24 \<longrightarrow> h_fp h + word_of_int a \<noteq> h_ctx h + word_of_int j) \<and>
     (\<forall>i j. 0 \<le> i \<longrightarrow> i < len \<longrightarrow> 0 \<le> j \<longrightarrow> j < 24 \<longrightarrow> h_data h + word_of_int i \<noteq> h_ctx h + word_of_int j)"

definition world_means ::
  "z3_queries \<Rightarrow> ('m \<Rightarrow> bvt \<Rightarrow> int) \<Rightarrow> ('m \<Rightarrow> avt \<Rightarrow> int \<Rightarrow> int) \<Rightarrow> z3_state \<Rightarrow> 'm \<Rightarrow> host \<Rightarrow> int \<Rightarrow> ram \<Rightarrow> bool" where
  "world_means z ev eva st m h len mem \<longleftrightarrow>
     zs_read_pkt st = None \<and> z_rng z (zs_pkt st) = 8 \<and> z_dom z (zs_pkt st) = 16 \<and>
     (\<forall>i. 0 \<le> i \<longrightarrow> i < len \<longrightarrow> eva m (zs_pkt st) i = uint (mem (h_data h + word_of_int i))) \<and>
     (\<forall>(t, w) \<in> {(zs_ingress st, h_ingress h), (zs_rx_index st, h_rx_queue h), (zs_egress st, h_egress h)}.
        z_size z t \<le> 64 \<and> ev m t = uint w)"

definition conforms ::
  "z3_queries \<Rightarrow> ('m \<Rightarrow> bvt \<Rightarrow> int) \<Rightarrow> ('m \<Rightarrow> avt \<Rightarrow> int \<Rightarrow> int) \<Rightarrow> z3_state \<Rightarrow> 'm \<Rightarrow> host \<Rightarrow> block_type \<Rightarrow> tblock \<Rightarrow>
   machine \<Rightarrow> bool" where
  "conforms z ev eva st m h T b mc \<longleftrightarrow>
     (let (rf, mem) = mc in
      length (t_regs b) = 11 \<and>
      (\<forall>r < 11. \<forall>t. bt_regs T r = Some t \<longrightarrow> val_means z ev st m h t (t_regs b ! r) (rf r)) \<and>
      (\<forall>k < 64. slot_means z ev st m h (bt_slots T k) (cell_at b k) (slot_at h mem k)) \<and>
      places_apart h (bt_pkt T) \<and> world_means z ev eva st m h (bt_pkt T) mem)"

section \<open>Slots in memory\<close>

lemma slot_no_eq: "a < 0 \<Longrightarrow> - 8 * (int (slot_no a) + 1) = a - a mod 8"
  by (simp add: slot_no_def minus_mod_eq_mult_div)

lemma slot_address: "a < 0 \<Longrightarrow> p + word_of_int a = p + word_of_int (- 8 * (int (slot_no a) + 1)) + of_nat (nat (a mod 8))"
  unfolding slot_no_eq by (simp add: of_nat_nat)

lemma load_slot:
  assumes "stack_access a n"
  shows "load_le mem (h_fp h + word_of_int a) n =
    drop_bit (8 * nat (a mod 8)) (slot_at h mem (slot_no a)) AND mask (8 * n)"
proof -
  have a: "a < 0" "nat (a mod 8) + n \<le> 8" using assms by (simp_all add: stack_access_def)
  show ?thesis unfolding slot_address [OF a(1)] slot_at_def by (rule load_le_part [OF a(2)])
qed

lemma bit_slot_at:
  assumes "j < 64"
  shows "bit (slot_at h mem k) j = bit (mem (h_fp h + word_of_int (- 8 * (int k + 1) + int (j div 8)))) (j mod 8)"
  using assms by (simp add: slot_at_def bit_load_le add.assoc)

lemma store_slot:
  assumes acc: "stack_access a n" and k: "k < 64"
  shows "slot_at h (store_le mem (h_fp h + word_of_int a) n w) k =
    (if k = slot_no a then slot_word (slot_at h mem k) n (nat (a mod 8)) w else slot_at h mem k)"
proof (rule bit_word_eqI)
  fix j assume "j < LENGTH(64)"
  then have j: "j < 64" by simp
  have a: "- 512 \<le> a" "a < 0" "nat (a mod 8) + n \<le> 8" using acc by (simp_all add: stack_access_def)
  define off where "off = nat (a mod 8)"
  have off: "int off = a mod 8" "off + n \<le> 8" using a by (simp_all add: off_def)
  let ?b = "- 8 * (int k + 1) + int (j div 8)" and ?mem = "store_le mem (h_fp h + word_of_int a) n w"
  have "int (j div 8) < 8" using j by simp
  then have near: "\<bar>?b - a\<bar> < 2 ^ 32" using a k by auto
  have st: "?mem (h_fp h + word_of_int ?b) =
      (if a \<le> ?b \<and> ?b < a + int n then ucast (drop_bit (8 * nat (?b - a)) w) else mem (h_fp h + word_of_int ?b))"
    using off(2) by (intro store_le_near [OF near]) simp
  show "bit (slot_at h ?mem k) j =
      bit (if k = slot_no a then slot_word (slot_at h mem k) n (nat (a mod 8)) w else slot_at h mem k) j"
  proof (cases "k = slot_no a")
    case True
    have b: "?b - a = int (j div 8) - int off" using slot_no_eq [OF a(2)] off(1) by (simp add: True)
    have in_range: "a \<le> ?b \<and> ?b < a + int n \<longleftrightarrow> off \<le> j div 8 \<and> j div 8 < off + n" using b by linarith
    have at: "8 * nat (?b - a) + j mod 8 = j - 8 * off" if "off \<le> j div 8"
      using that unfolding b by (simp add: nat_diff_distrib' div_mult_mod_eq [of j 8] algebra_simps)
    have r: "off \<le> j div 8 \<longleftrightarrow> 8 * off \<le> j" "j div 8 < off + n \<longleftrightarrow> j < 8 * off + 8 * n"
      by (simp_all add: less_eq_div_iff_mult_less_eq div_less_iff_less_mult algebra_simps)
    have "bit (slot_at h ?mem k) j =
        (if 8 * off \<le> j \<and> j < 8 * off + 8 * n then bit w (j - 8 * off) else bit (slot_at h mem k) j)"
      unfolding bit_slot_at [OF j] st in_range using at j r by (auto simp: bit_simps)
    also have "\<dots> = bit (slot_word (slot_at h mem k) n off w) j"
      using j by (auto simp: slot_word_def bit_simps)
    finally show ?thesis using True by (simp add: off_def)
  next
    case False
    have no: "\<not> (a \<le> ?b \<and> ?b < a + int n)"
    proof
      assume "a \<le> ?b \<and> ?b < a + int n"
      then have "a - a mod 8 \<le> ?b" "?b < a - a mod 8 + 8" using off by simp_all
      then have "- 8 * (int (slot_no a) + 1) \<le> ?b" "?b < - 8 * (int (slot_no a) + 1) + 8"
        unfolding slot_no_eq [OF a(2)] by simp_all
      then have "int k < int (slot_no a) + 1" "int (slot_no a) < int k + 1"
        using \<open>int (j div 8) < 8\<close> of_nat_0_le_iff [of "j div 8", where 'a = int] by (simp_all del: of_nat_0_le_iff)
      with False show False by simp
    qed
    show ?thesis unfolding bit_slot_at [OF j] st if_not_P [OF no] if_not_P [OF False] ..
  qed
qed

lemma stack_places:
  assumes "stack_access a n" and "i < n"
  shows "- 512 \<le> a + int i" "a + int i < 0"
proof -
  have a: "- 512 \<le> a" "a < 0" "a mod 8 + int n \<le> 8" using assms(1) by (auto simp: stack_access_def)
  have "a div 8 * 8 + a mod 8 = a" by (rule div_mult_mod_eq)
  moreover have "a div 8 \<le> - 1" using a(2) by simp
  ultimately have "a + int n \<le> 0" using a(3) by linarith
  with a(1) assms(2) show "- 512 \<le> a + int i" "a + int i < 0" by simp_all
qed

lemma store_elsewhere:
  assumes "stack_access a n" and "\<And>b. - 512 \<le> b \<Longrightarrow> b < 0 \<Longrightarrow> x \<noteq> h_fp h + word_of_int b"
  shows "store_le mem (h_fp h + word_of_int a) n w x = mem x"
proof -
  let ?i = "unat (x - (h_fp h + word_of_int a))"
  have "x = h_fp h + word_of_int (a + int ?i)" by simp
  moreover have "x \<noteq> h_fp h + word_of_int (a + int ?i)" if "?i < n"
    by (rule assms(2) [OF stack_places [OF assms(1) that]])
  ultimately show ?thesis by (auto simp: store_le_def)
qed

section \<open>Loads of the machine\<close>

lemma ctx_field_range: "ctx_field h k = Some w \<Longrightarrow> 0 \<le> k \<and> k < 24"
  by (auto simp: ctx_field_def split: if_splits)

lemma machine_load_memory:
  assumes "\<And>j. 0 \<le> j \<Longrightarrow> j < 24 \<Longrightarrow> a \<noteq> h_ctx h + word_of_int j"
  shows "machine_load h mem a n = load_le mem a n"
proof -
  have "ctx_field h (uint (a - h_ctx h)) = None"
  proof (rule ccontr)
    assume "ctx_field h (uint (a - h_ctx h)) \<noteq> None"
    then have "0 \<le> uint (a - h_ctx h) \<and> uint (a - h_ctx h) < 24" using ctx_field_range by blast
    with assms [of "uint (a - h_ctx h)"] show False by simp
  qed
  then show ?thesis by (simp add: machine_load_def)
qed

lemma machine_load_ctx:
  assumes "ctx_field h a = Some w"
  shows "machine_load h mem (h_ctx h + word_of_int a) 4 = w"
proof -
  have "uint (word_of_int a :: 64 word) = a"
    using ctx_field_range [OF assms] by (simp add: uint_word_of_int_eq take_bit_int_eq_self)
  with assms show ?thesis by (simp add: machine_load_def)
qed

text \<open>The packet array and the packet in memory.\<close>

lemma uint_load_le_Suc:
  assumes "n < 8"
  shows "uint (load_le mem a (Suc n)) = uint (load_le mem a n) + push_bit (8 * n) (uint (mem (a + of_nat n)))"
proof -
  have at: "j div 8 = n \<longleftrightarrow> 8 * n \<le> j \<and> j < 8 * n + 8" for j by auto
  have b: "bit (mem (a + of_nat n)) (j - 8 * n) \<longleftrightarrow> j < 8 * n + 8 \<and> bit (mem (a + of_nat (j div 8))) (j mod 8)" if "8 * n \<le> j" for j
  proof (cases "j < 8 * n + 8")
    case True
    with that at have "j div 8 = n" by blast
    moreover have "j mod 8 = j - 8 * n" using calculation by (metis minus_mult_div_eq_mod)
    ultimately show ?thesis using True by simp
  qed (use bit_imp_le_length [of "mem (a + of_nat n)" "j - 8 * n"] in auto)
  have "uint (load_le mem a (Suc n)) = uint (load_le mem a n) OR push_bit (8 * n) (uint (mem (a + of_nat n)))"
  proof (rule bit_eqI)
    fix j
    have "bit (uint (load_le mem a (Suc n))) j \<longleftrightarrow> j < 8 * n + 8 \<and> bit (mem (a + of_nat (j div 8))) (j mod 8)"
      using assms by (auto simp: bit_uint_iff bit_load_le simp del: load_le.simps)
    moreover have "bit (uint (load_le mem a n)) j \<longleftrightarrow> j < 8 * n \<and> bit (mem (a + of_nat (j div 8))) (j mod 8)"
      using assms by (auto simp: bit_uint_iff bit_load_le simp del: load_le.simps)
    moreover have "bit (push_bit (8 * n) (uint (mem (a + of_nat n)))) j \<longleftrightarrow> 8 * n \<le> j \<and> bit (mem (a + of_nat n)) (j - 8 * n)"
      by (auto simp: bit_simps bit_uint_iff dest: bit_imp_le_length)
    ultimately show "bit (uint (load_le mem a (Suc n))) j =
        bit (uint (load_le mem a n) OR push_bit (8 * n) (uint (mem (a + of_nat n)))) j"
      using b [of j] by (auto simp: bit_or_iff)
  qed
  also have "\<dots> = uint (load_le mem a n) + push_bit (8 * n) (uint (mem (a + of_nat n)))"
    by (rule disjunctive_add [symmetric]) (auto simp: bit_uint_iff bit_load_le bit_simps)
  finally show ?thesis .
qed

lemma packet_load:
  assumes "\<And>i. 0 \<le> i \<Longrightarrow> i < len \<Longrightarrow> f i = uint (mem (p + word_of_int i))" and "len \<le> 65536"
    and "0 \<le> a" and "a + int n \<le> len" and "n \<le> 8"
  shows "mem_read 16 f (access_address 16 a None) n = uint (load_le mem (p + word_of_int a) n)"
  using assms(4,5)
proof (induction n)
  case (Suc n)
  have "(access_address 16 a None + int n) mod 2 ^ 16 = a + int n"
    using Suc.prems assms(2,3) by (simp add: access_address_def)
  moreover have "f (a + int n) = uint (mem (p + word_of_int a + of_nat n))"
    using Suc.prems(1) assms(1) [of "a + int n"] assms(3) by (simp add: add.assoc)
  ultimately show ?case using Suc by (simp add: uint_load_le_Suc del: load_le.simps)
qed simp

section \<open>Stores to and loads from the symbolic stack\<close>

context smtlib
begin

lemma stk_store_whole:
  assumes "addr < 0" and "addr mod 8 = 0"
  shows "\<exists>s1. stk_store addr 8 x s = Inr ((), s1) \<and>
     c_blk s1 = (c_blk s)\<lparr>t_stk := (t_stk (c_blk s) @ replicate (Suc (slot_no addr) - length (t_stk (c_blk s))) None)[slot_no addr := x]\<rparr>"
proof -
  let ?k = "slot_no addr"
  let ?b = "(c_blk s)\<lparr>t_stk := t_stk (c_blk s) @ replicate (Suc ?k - length (t_stk (c_blk s))) None\<rparr>"
  have slot: "stk_slot addr = int ?k" by (rule slot_no [OF assms(1)])
  have grow: "nat (int ?k + 1) = Suc ?k" by simp
  have i: "stk_index (t_stk ?b) (int ?k) (s\<lparr>c_blk := ?b\<rparr>) = Inr (?k, s\<lparr>c_blk := ?b\<rparr>)" by (rule slot_index) simp
  show ?thesis
    using assms(2) i by (simp add: stk_store_def Let_def slot grow store_part_def stk_join_def stk_put_def abind_Inr act_simps)
qed

lemma stk_load_word:
  assumes addr: "addr < 0" and sz: "sz \<in> {1, 2, 4, 8}" "nat (addr mod 8) + sz \<le> 8"
    and k: "slot_no addr < length (t_stk (c_blk s))" and c: "t_stk (c_blk s) ! slot_no addr = Some (n, v)"
    and v: "reg_means z ev st m (Some (n, v)) w" and exact: "addr mod 8 \<noteq> 0 \<or> 4 \<le> sz \<or> v_size v = 8"
  shows "\<exists>x s2. stk_load addr sz s = Inr (x, s2) \<and> c_blk s2 = c_blk s \<and>
     reg_means z ev st m x (drop_bit (8 * nat (addr mod 8)) w AND mask (8 * sz))"
proof -
  have slot: "stk_slot addr = int (slot_no addr)" by (rule slot_no [OF addr])
  have p: "\<not> is_ptr v" using means_denotes [OF v] by (auto elim: denotesE)
  consider (shifted) "nat (addr mod 8) \<noteq> 0" | (masked) "nat (addr mod 8) = 0" "sz < v_size v"
    | (whole) "nat (addr mod 8) = 0" "v_size v \<le> sz" by linarith
  then show ?thesis
  proof cases
    case shifted
    then show ?thesis
      using sz byte_seq_means [OF v _ sz(2)] slot_index [OF k, of s] c
      by (auto simp: stk_load_def Let_def slot some_act_def abind_cases obj_part_def new_obj_run)
  next
    case masked
    moreover have "sz \<le> 8" "0 < sz" using sz by auto
    ultimately show ?thesis
      using and_means [OF v, of sz sz] slot_index [OF k, of s] c p
      by (auto simp: stk_load_def Let_def slot some_act_def abind_cases obj_part_def new_obj_run)
  next
    case whole
    have "addr mod 8 = 0" using whole(1) pos_mod_sign [of 8 addr] by linarith
    then have e: "sz = 8 \<or> sz = 4 \<and> v_size v \<le> 4" using exact whole(2) sz(1) by auto
    have "w AND mask (8 * sz) = w"
    proof (cases "sz = 8")
      case False
      with e have "sz = 4" "uint w < 2 ^ 32" using v by (auto simp: reg_means_def)
      have "take_bit 32 w = w"
        by (rule word_uint_eqI) (use \<open>uint w < 2 ^ 32\<close> in \<open>simp add: unsigned_take_bit_eq take_bit_int_eq_self\<close>)
      with \<open>sz = 4\<close> show ?thesis by (simp flip: take_bit_eq_mask)
    qed (intro bit_word_eqI, auto simp: bit_simps)
    then show ?thesis using whole v slot_index [OF k, of s] c sz(2)
      by (simp add: stk_load_def Let_def slot abind_cases)
  qed
qed

lemma stk_load_pointer:
  assumes addr: "addr < 0" "addr mod 8 = 0"
    and k: "slot_no addr < length (t_stk (c_blk s))" and c: "t_stk (c_blk s) ! slot_no addr = Some (n, v)" and v: "is_ptr v"
  shows "stk_load addr 8 s = Inr (Some (n, v), s)"
  using slot_index [OF k, of s] c v addr(2) by (simp add: stk_load_def Let_def slot_no [OF addr(1)] abind_cases)

end

end
