(* ===== verification/Block_Exec.thy ===== *)
theory Block_Exec
  imports Block_Types
begin

text \<open>
  The symbolic execution of a block against the machine: a typed sequence of arithmetic instructions,
  loads and stores is tracked without an error, what the tracker knows afterwards (\<open>conforms\<close>) is true of
  the machine after the same instructions, and a conditional jump leaves the condition under which the
  machine takes it.
\<close>

section \<open>One instruction\<close>

lemma sz_map_sizes: "sz_map k = Some n \<Longrightarrow> n \<in> {1, 2, 4, 8}"
  by (auto simp: sz_map_def split: if_splits)

lemma read_reg_run: "length (t_regs (c_blk s)) = 11 \<Longrightarrow> 0 \<le> r \<Longrightarrow> r \<le> 10 \<Longrightarrow> get_reg r s = Inr (t_regs (c_blk s) ! nat r, s)"
  by (simp add: get_reg_def py_index_def)

lemma put_reg_run:
  "length (t_regs (c_blk s)) = 11 \<Longrightarrow> 0 \<le> r \<Longrightarrow> r \<le> 10 \<Longrightarrow>
   put_reg r x s = Inr ((), s\<lparr>c_blk := (c_blk s)\<lparr>t_regs := (t_regs (c_blk s))[nat r := x]\<rparr>\<rparr>)"
  by (simp add: put_reg_def py_index_def set_reg_def)

lemma conforms_regs:
  assumes "conforms z ev eva st m h T b (rf, mem)" and "val_means z ev st m h t x w" and "regs_valid ins"
    and "t_regs b' = (t_regs b)[nat (i_dst_reg ins) := x]" and "t_stk b' = t_stk b"
  shows "conforms z ev eva st m h (set_type T ins t) b' (rf(nat (i_dst_reg ins) := w), mem)"
  using assms by (auto simp: conforms_def set_type_def nth_list_update cell_at_def regs_valid_def)

lemma conforms_reg:
  "conforms z ev eva st m h T b (rf, mem) \<Longrightarrow> bt_regs T r = Some t \<Longrightarrow> r < 11 \<Longrightarrow> val_means z ev st m h t (t_regs b ! r) (rf r)"
  by (simp add: conforms_def)

lemma slot_no_less: "stack_access a n \<Longrightarrow> slot_no a < 64"
  by (auto simp: stack_access_def slot_no_def)

context smtlib
begin

text \<open>A load of a word or of a spilled pointer from the stack.\<close>

lemma stack_load_means:
  assumes acc: "stack_access a n" and sz: "n \<in> {1, 2, 4, 8}" and t: "slot_load t a n = Some ty"
    and s: "slot_means z ev st m h t (cell_at (c_blk s) (slot_no a)) w"
  shows "\<exists>x s'. stk_load a n s = Inr (x, s') \<and> c_blk s' = c_blk s \<and>
     val_means z ev st m h ty x (drop_bit (8 * nat (a mod 8)) w AND mask (8 * n))"
proof -
  have a: "a < 0" "nat (a mod 8) + n \<le> 8" using acc by (simp_all add: stack_access_def)
  let ?k = "slot_no a" and ?off = "8 * nat (a mod 8)"
  show ?thesis
  proof (cases t)
    case (Bytes k tidy)
    with t have ty: "ty = Word" "bits_of a n AND NOT k = 0" "a mod 8 \<noteq> 0 \<or> 4 \<le> n \<or> tidy"
      by (auto simp: slot_load_def split: if_splits)
    obtain w' where w': "cell_means z ev st m (cell_at (c_blk s) ?k) w'" "w' AND k = w AND k"
      using s Bytes by (auto simp: slot_means_def)
    have "bit (bits_of a n) ?off" using sz a(2) by (auto simp: bits_of_def bit_simps)
    then have "k \<noteq> 0" using ty(2) by (metis bit.conj_one_right bit.compl_zero bit_0_eq bot_apply bot_bool_def)
    then obtain o1 v where c: "cell_at (c_blk s) ?k = Some (o1, v)" using s Bytes by (auto simp: slot_means_def)
    then have cell: "?k < length (t_stk (c_blk s))" "t_stk (c_blk s) ! ?k = Some (o1, v)"
      by (auto simp: cell_at_def split: if_splits)
    have "a mod 8 \<noteq> 0 \<or> 4 \<le> n \<or> v_size v = 8" using ty(3) s Bytes c by (auto simp: slot_means_def)
    moreover have "reg_means z ev st m (Some (o1, v)) w'" using w'(1) c by (simp add: cell_means_def)
    ultimately obtain x s' where
      x: "stk_load a n s = Inr (x, s')" "c_blk s' = c_blk s" "reg_means z ev st m x (drop_bit ?off w' AND mask (8 * n))"
      using stk_load_word [OF a(1) sz a(2) cell] by blast
    have "drop_bit ?off w' AND mask (8 * n) = drop_bit ?off w AND mask (8 * n)"
    proof (rule bit_word_eqI)
      fix j assume "j < LENGTH(64)"
      have "bit k (?off + j)" if "j < 8 * n"
      proof -
        have "bit (bits_of a n) (?off + j)" using that a(2) by (auto simp: bits_of_def bit_simps)
        with ty(2) show ?thesis
          using bit_and_iff [of "bits_of a n" "NOT k" "?off + j"] bit_imp_le_length [of "bits_of a n" "?off + j"]
          by (auto simp: bit_not_iff)
      qed
      moreover have "bit w' i = bit w i" if "bit k i" for i using w'(2) that by (metis bit_and_iff)
      ultimately show "bit (drop_bit ?off w' AND mask (8 * n)) j = bit (drop_bit ?off w AND mask (8 * n)) j"
        by (auto simp: bit_simps add.commute)
    qed
    with x ty(1) show ?thesis by (auto simp: val_means_def)
  next
    case (Spilled r o1)
    with t have n: "n = 8" "ty = Pointer r o1" by (auto simp: slot_load_def split: if_splits)
    then have al: "a mod 8 = 0" using a(2) pos_mod_sign [of 8 a] by auto
    have p: "ptr_means h r o1 (cell_at (c_blk s) ?k) w" using s Spilled by (simp add: slot_means_def)
    then obtain i v where c: "cell_at (c_blk s) ?k = Some (i, v)" "is_ptr v" by (auto simp: ptr_means_def is_ptr_def)
    then have cell: "?k < length (t_stk (c_blk s))" "t_stk (c_blk s) ! ?k = Some (i, v)"
      by (auto simp: cell_at_def split: if_splits)
    have "w AND mask 64 = w" by (intro bit_word_eqI) (auto simp: bit_simps)
    with stk_load_pointer [OF a(1) al cell c(2)] p c(1) al n show ?thesis by (simp add: val_means_def)
  qed
qed

text \<open>A store to the stack.\<close>

lemma stack_store_means:
  assumes acc: "stack_access a n" and sz: "n \<in> {1, 2, 4, 8}" and t: "slot_store t a n ty = Some t'"
    and s: "slot_means z ev st m h t (cell_at (c_blk s) (slot_no a)) old" and x: "val_means z ev st m h ty x w"
  shows "\<exists>y s'. stk_store a n x s = Inr ((), s') \<and>
     c_blk s' = (c_blk s)\<lparr>t_stk := (t_stk (c_blk s) @ replicate (Suc (slot_no a) - length (t_stk (c_blk s))) None)[slot_no a := y]\<rparr> \<and>
     slot_means z ev st m h t' y (slot_word old n (nat (a mod 8)) w)"
proof (cases "n = 8")
  case True
  have a: "a < 0" "nat (a mod 8) + n \<le> 8" using acc by (simp_all add: stack_access_def)
  have al: "a mod 8 = 0" using True a(2) pos_mod_sign [of 8 a] by auto
  have x0: "x \<noteq> None" "ty = Word \<Longrightarrow> reg_means z ev st m x w"
    using x by (auto simp: val_means_def ptr_means_def reg_means_def denotes_def split: reg_type.splits)
  have "slot_means z ev st m h t' x (slot_word old 8 0 w)"
    using t True x x0 by (auto simp: slot_store_def slot_means_def val_means_def slot_word_full cell_means_def split: reg_type.splits)
  with stk_store_whole [OF a(1) al, of x s] True al show ?thesis by auto
next
  case False
  have a: "a < 0" "nat (a mod 8) + n \<le> 8" using acc by (simp_all add: stack_access_def)
  obtain k tidy where k: "t = Bytes k tidy" "ty = Word" "t' = Bytes (k OR bits_of a n) True"
    using t False by (auto simp: slot_store_def split: slot_type.splits reg_type.splits)
  obtain w' where w': "cell_means z ev st m (cell_at (c_blk s) (slot_no a)) w'" "w' AND k = old AND k"
    using s k(1) by (auto simp: slot_means_def)
  have "reg_means z ev st m x w" using x k(2) by (simp add: val_means_def)
  from stk_store_run [OF this a(1) _ a(2) w'(1)] sz obtain s' y i v where y: "stk_store a n x s = Inr ((), s')"
    "c_blk s' = (c_blk s)\<lparr>t_stk := (t_stk (c_blk s) @ replicate (Suc (slot_no a) - length (t_stk (c_blk s))) None)[slot_no a := y]\<rparr>"
    "reg_means z ev st m y (slot_word w' n (nat (a mod 8)) w)" "y = Some (i, v)" "if n < 8 then v_size v = 8 else y = x"
    by auto
  have "slot_word w' n (nat (a mod 8)) w AND (k OR bits_of a n) = slot_word old n (nat (a mod 8)) w AND (k OR bits_of a n)"
  proof (rule bit_word_eqI)
    fix j
    have "bit w' j = bit old j" if "bit k j" using w'(2) that by (metis bit_and_iff)
    then show "bit (slot_word w' n (nat (a mod 8)) w AND (k OR bits_of a n)) j =
        bit (slot_word old n (nat (a mod 8)) w AND (k OR bits_of a n)) j"
      by (auto simp: slot_word_def bits_of_def bit_simps)
  qed
  moreover have "n < 8" using sz False by auto
  ultimately have "slot_means z ev st m h t' y (slot_word old n (nat (a mod 8)) w)"
    using y(3-5) k(3) by (auto simp: slot_means_def cell_means_def)
  with y(1,2) show ?thesis by blast
qed

text \<open>A load of a word of the packet, at a constant offset.\<close>

lemma packet_load_means:
  assumes w: "world_means z ev eva st m h len mem" and l: "len \<le> 65536" "0 \<le> a" "a + int n \<le> len" and n: "n \<in> {1, 2, 4, 8}"
  shows "reg_means z ev st m (Some (k, Pkt_val blk idx a None n)) (load_le mem (h_data h + word_of_int a) n)"
proof -
  have pk: "zs_read_pkt st = None" "z_rng z (zs_pkt st) = 8" "z_dom z (zs_pkt st) = 16" and
    bytes: "\<And>i. 0 \<le> i \<Longrightarrow> i < len \<Longrightarrow> eva m (zs_pkt st) i = uint (mem (h_data h + word_of_int i))"
    using w by (simp_all add: world_means_def)
  have n8: "0 < n" "n \<le> 8" using n by auto
  obtain t where t: "expr_to_z3 z st (Pkt_val blk idx a None n) = Inr t" "z_size z t = 8 * n"
    "ev m t = mem_read 16 (eva m (zs_pkt st)) (access_address 16 a None) n"
    using pkt_read [OF pk(2,3) _ n8(1) pk(1), of None None blk idx a m] by (auto simp: enc_maybe_def)
  have e: "ev m t = uint (load_le mem (h_data h + word_of_int a) n)"
    unfolding t(3) using packet_load [of len "eva m (zs_pkt st)" mem "h_data h" a n] bytes l n8(2) by blast
  have "uint (load_le mem (h_data h + word_of_int a) n) < 2 ^ 32" if "n \<le> 4"
  proof -
    have "uint (load_le mem (h_data h + word_of_int a) n) = take_bit (8 * n) (uint (load_le mem (h_data h + word_of_int a) n))"
      by (rule bit_eqI) (auto simp: bit_uint_iff bit_load_le bit_take_bit_iff)
    also have "\<dots> < 2 ^ (8 * n)" by simp
    also have "(2::int) ^ (8 * n) \<le> 2 ^ 32" using that by (intro power_increasing) simp_all
    finally show ?thesis .
  qed
  with t(1,2) e n8(2) show ?thesis
    unfolding reg_means_def by (auto intro!: denotesI simp: is_ptr_def num_of_def)
qed

text \<open>A load of a field of the context.\<close>

lemma ctx_word_means:
  assumes w: "world_means z ev eva st m h len mem"
  shows "reg_means z ev st m (Some (k, Ingress_ifindex)) (ucast (h_ingress h))"
    and "reg_means z ev st m (Some (k, Rx_queue_index)) (ucast (h_rx_queue h))"
    and "reg_means z ev st m (Some (k, Egress_ifindex)) (ucast (h_egress h))"
  using w by (auto simp: world_means_def intro!: means_narrow simp: is_ptr_def num_of_def)

lemma ctx_load_means:
  assumes t: "ctx_load_type a n = Some ty" and w: "world_means z ev eva st m h len mem"
  shows "\<exists>x s'. load_ctx False idx ptr a n s = Inr (x, s') \<and> c_blk s' = c_blk s \<and>
    val_means z ev st m h ty x (machine_load h mem (h_ctx h + word_of_int a) n)"
proof -
  have n: "n = 4" using t by (auto simp: ctx_load_type_def split: if_splits)
  consider (ptr) r where "(a, r) \<in> {(0, PTR_TO_PKT), (4, PTR_TO_PKT_END), (8, PTR_TO_PKT_META)}" "ty = Pointer r 0"
    | (word) "a \<in> {12, 16, 20}" "ty = Word"
    using t by (auto simp: ctx_load_type_def split: if_splits)
  then show ?thesis
  proof cases
    case ptr
    then obtain b where b: "ctx_field h a = Some b" "base_of h r = Some b" by (auto simp: ctx_field_def base_of_def)
    have f: "map_of [(0, PTR_TO_PKT), (4, PTR_TO_PKT_END), (8, PTR_TO_PKT_META)] a = Some r" using ptr(1) by auto
    have "ptr_means h r 0 (Some (i, Ptr ((default_ptr r)\<lparr>q_id := idx, q_base_id := bi\<rparr>) None None None)) b" for i bi
      using b(2) by (simp add: ptr_means_def default_ptr_def)
    then show ?thesis
      unfolding n machine_load_ctx [OF b(1)]
      using f ptr(2) by (simp add: load_ctx_def aassert_def new_ptr_obj_def new_ptr_def default_ptr_def some_act_def act_simps val_means_def)
  next
    case word
    have "machine_load h mem (h_ctx h + 12) 4 = ucast (h_ingress h)" "machine_load h mem (h_ctx h + 16) 4 = ucast (h_rx_queue h)"
      "machine_load h mem (h_ctx h + 20) 4 = ucast (h_egress h)"
      using machine_load_ctx [of h 12] machine_load_ctx [of h 16] machine_load_ctx [of h 20] by (simp_all add: ctx_field_def)
    with word show ?thesis
      unfolding n using ctx_word_means [OF w]
      by (auto simp: load_ctx_def aassert_def some_act_def act_simps val_means_def)
  qed
qed

text \<open>A load through a pointer.\<close>

lemma load_means:
  assumes t: "load_type T ins = Some ty" and c: "conforms z ev eva st m h T (c_blk s) (rf, mem)"
  shows "\<exists>n k i mk np x s'. sz_map (i_opcode_sz ins) = Some n \<and>
     t_regs (c_blk s) ! nat (i_src_reg ins) = Some (k, Ptr i None mk np) \<and>
     load_mem False idx (Ptr i None mk np) (i_offset ins) n s = Inr (x, s') \<and>
     t_regs (c_blk s') = t_regs (c_blk s) \<and> t_stk (c_blk s') = t_stk (c_blk s) \<and>
     val_means z ev st m h ty x (machine_load h mem (rf (nat (i_src_reg ins)) + word_of_int (i_offset ins)) n)"
proof -
  obtain n where n: "sz_map (i_opcode_sz ins) = Some n" "regs_valid ins" "i_opcode_mode ins = MEM"
    using t by (auto simp: load_type_def split: option.splits if_splits)
  obtain r o1 where r: "bt_regs T (nat (i_src_reg ins)) = Some (Pointer r o1)"
    using t n by (auto simp: load_type_def split: option.splits reg_type.splits)
  define a where "a = o1 + i_offset ins"
  have t': "(if r = PTR_TO_CTX then ctx_load_type a n
      else if r = PTR_TO_STK then if stack_access a n then slot_load (bt_slots T (slot_no a)) a n else None
      else if r = PTR_TO_PKT then if 0 \<le> a \<and> a + int n \<le> bt_pkt T then Some Word else None else None) = Some ty"
    using t by (simp only: load_type_def n r a_def Let_def option.case reg_type.case simp_thms if_True)
  have sz: "n \<in> {1, 2, 4, 8}" by (rule sz_map_sizes [OF n(1)])
  have "nat (i_src_reg ins) < 11" using n(2) by (auto simp: regs_valid_def)
  from conforms_reg [OF c r this] obtain k i mk np b where p: "t_regs (c_blk s) ! nat (i_src_reg ins) = Some (k, Ptr i None mk np)"
    "q_type i = r" "q_off i = o1" "q_checked_null i = Some False" and b: "base_of h r = Some b" "rf (nat (i_src_reg ins)) = b + word_of_int o1"
    by (auto simp: val_means_def ptr_means_def)
  have addr: "rf (nat (i_src_reg ins)) + word_of_int (i_offset ins) = b + word_of_int a" by (simp add: b(2) a_def)
  have apart: "places_apart h (bt_pkt T)" and w: "world_means z ev eva st m h (bt_pkt T) mem"
    and slots: "\<And>k. k < 64 \<Longrightarrow> slot_means z ev st m h (bt_slots T k) (cell_at (c_blk s) k) (slot_at h mem k)"
    using c by (simp_all add: conforms_def)
  have "\<exists>x s'. load_mem False idx (Ptr i None mk np) (i_offset ins) n s = Inr (x, s') \<and>
     t_regs (c_blk s') = t_regs (c_blk s) \<and> t_stk (c_blk s') = t_stk (c_blk s) \<and>
     val_means z ev st m h ty x (machine_load h mem (b + word_of_int a) n)"
  proof -
    consider (ctx) "r = PTR_TO_CTX" | (stk) "r = PTR_TO_STK" | (pkt) "r = PTR_TO_PKT" "0 \<le> a" "a + int n \<le> bt_pkt T" "ty = Word"
      using t' by (auto split: if_splits)
    then show ?thesis
    proof cases
      case ctx
      then show ?thesis
        using ctx_load_means [OF _ w, of a n ty idx "Ptr i None mk np" s] t' p(2-4) b(1)
        by (auto simp: load_mem_def pinfo_def a_def base_of_def)
    next
      case stk
      then have acc: "stack_access a n" and sl: "slot_load (bt_slots T (slot_no a)) a n = Some ty" and b': "b = h_fp h"
        using t' b(1) by (auto simp: base_of_def split: if_splits)
      have ld: "machine_load h mem (h_fp h + word_of_int a) n = load_le mem (h_fp h + word_of_int a) n"
        by (rule machine_load_memory) (use apart acc in \<open>auto simp: places_apart_def stack_access_def\<close>)
      have run: "load_mem False idx (Ptr i None mk np) (i_offset ins) n s = stk_load a n s"
        using stk p(2-4) by (simp add: load_mem_def pinfo_def a_def)
      from stack_load_means [OF acc sz sl slots [OF slot_no_less [OF acc]]] show ?thesis
        unfolding run b' ld load_slot [OF acc] by metis
    next
      case pkt
      have b': "b = h_data h" using b(1) pkt(1) by (simp add: base_of_def)
      have len: "bt_pkt T \<le> 65536" using apart by (simp add: places_apart_def)
      have "machine_load h mem (h_data h + word_of_int a) n = load_le mem (h_data h + word_of_int a) n"
        by (rule machine_load_memory) (use apart pkt(2,3) sz in \<open>auto simp: places_apart_def\<close>)
      with packet_load_means [OF w len pkt(2,3) sz] pkt(1,4) p(2-4) b' show ?thesis
        by (simp add: load_mem_def pinfo_def pvar_def a_def load_source_def awhen_def add_source_def act_simps val_means_def)
    qed
  qed
  with n(1) p(1) show ?thesis unfolding addr by blast
qed

text \<open>Arithmetic on words, and the moves and constant offsets of pointers.\<close>

lemma conforms_words:
  assumes "conforms z ev eva st m h T b (rf, mem)" and "\<forall>k \<in> reads ins. bt_regs T k = Some Word" and "alu_valid ins"
  shows "regs_mean z ev st m (reads ins) b rf"
proof -
  have "k < 11" if "k \<in> reads ins" for k using that assms(3) by (auto simp: reads_def alu_valid_def split: if_splits)
  with assms(1,2) conforms_reg [OF assms(1), of _ Word] show ?thesis by (auto simp: regs_mean_def conforms_def val_means_def)
qed

lemma ptr_add_means:
  assumes p: "ptr_means h t o1 (Some (k, Ptr i vo mk np)) w" and code: "code \<in> {BPF_ADD, BPF_SUB}" and e: "\<not> e_brief env"
  shows "\<exists>x s'. ptr_alu env idx code (Ptr i vo mk np) (Some (k', imm64 n)) s = Inr (x, s') \<and> c_blk s' = c_blk s \<and>
    ptr_means h t (o1 + num_delta code n) x (alu_isa code False w (word_of_int n))"
proof -
  from p obtain b where i: "vo = None" "q_type i = t" "q_off i = o1" "q_checked_null i = Some False"
    and b: "base_of h t = Some b" "w = b + word_of_int o1"
    by (auto simp: ptr_means_def)
  have im: "\<not> is_ptr (imm64 n)" "num_of (imm64 n) = Some n" "is_ptr_to (Some (k', imm64 n)) PTR_TO_PKT = False"
    by (simp_all add: imm64_def is_ptr_def num_of_def is_ptr_to_def)
  have a: "alu_isa code False w (word_of_int n) = b + word_of_int (o1 + num_delta code n)"
    using code b(2) by (auto simp: alu_isa_def num_delta_def)
  show ?thesis
    unfolding a using i b(1) code im
    by (auto simp: ptr_alu_def Let_def pinfo_def pkt_add_def pvar_def obj_part_def new_ptr_obj_def new_ptr_def default_ptr_def
        some_act_def act_simps ptr_means_def abind_cases)
qed

lemma alu_means:
  assumes t: "alu_type T ins = Some ty" and c: "conforms z ev eva st m h T (c_blk s) (rf, mem)"
    and i: "ins = e_instrs env ! idx" and e: "\<not> e_brief env"
  shows "\<exists>x s'. track_alu env idx s = Inr ((), s') \<and>
    c_blk s' = (c_blk s)\<lparr>t_regs := (t_regs (c_blk s))[nat (i_dst_reg ins) := x]\<rparr> \<and>
    val_means z ev st m h ty x (exec_alu ins rf (nat (i_dst_reg ins)))"
proof -
  have v: "alu_valid ins" using t by (auto simp: alu_type_def Let_def split: if_splits)
  have rg: "0 \<le> i_src_reg ins" "i_src_reg ins \<le> 10" "0 \<le> i_dst_reg ins" "i_dst_reg ins \<le> 10"
    using v by (simp_all add: alu_valid_def)
  have len: "length (t_regs (c_blk s)) = 11" using c by (simp add: conforms_def)
  let ?d = "nat (i_dst_reg ins)" and ?r = "nat (i_src_reg ins)" and ?c = "i_opcode_code ins"
  have lt: "?d < 11" "?r < 11" using rg by simp_all
  show ?thesis
  proof (cases "\<forall>k \<in> reads ins. bt_regs T k = Some Word")
    case True
    then have ty: "ty = Word" using t v by (simp add: alu_type_def Let_def)
    have iv: "alu_valid (e_instrs env ! idx)" "regs_mean z ev st m (reads (e_instrs env ! idx)) (c_blk s) rf"
      using v conforms_words [OF c True v] by (simp_all add: i)
    show ?thesis
      using track_alu_run [OF i v e len, of st m "rf ?r" "rf ?d"] iv(2) ty
      unfolding i by (auto simp: regs_mean_def reads_def exec_alu_def val_means_def)
  next
    case words: False
    then have cl: "i_opcode_class ins = ALU64" using t v by (auto simp: alu_type_def Let_def split: if_splits)
    show ?thesis
    proof (cases "?c = BPF_MOV \<and> i_opcode_s ins = S_REG \<and> i_offset ins = 0")
      case True
      then have ty: "bt_regs T ?r = Some ty" using t v words cl by (simp add: alu_type_def Let_def)
      have "track_alu env idx s = Inr ((), s\<lparr>c_blk := (c_blk s)\<lparr>t_regs := (t_regs (c_blk s))[?d := t_regs (c_blk s) ! ?r]\<rparr>\<rparr>)"
        using True cl read_reg_run [OF len rg(1,2)] read_reg_run [OF len rg(3,4)] put_reg_run [OF len rg(3,4)]
        by (simp add: track_alu_def i [symmetric] Let_def abind_Inr alu_src_def alu_result_def)
      then show ?thesis
        using True cl conforms_reg [OF c ty lt(2)] by (auto simp: exec_alu_def alu_exec_def)
    next
      case False
      then have k: "?c \<in> {BPF_ADD, BPF_SUB}" "i_opcode_s ins = S_IMM"
        using t v words cl by (auto simp: alu_type_def Let_def split: if_splits)
      obtain u o1 where u: "bt_regs T ?d = Some (Pointer u o1)" "ty = Pointer u (o1 + num_delta ?c (i_imm ins))"
        using t v words cl k False by (auto simp: alu_type_def Let_def split: if_splits option.splits reg_type.splits)
      have p: "ptr_means h u o1 (t_regs (c_blk s) ! ?d) (rf ?d)" using conforms_reg [OF c u(1) lt(1)] by (simp add: val_means_def)
      then obtain n q vo mk np where x: "t_regs (c_blk s) ! ?d = Some (n, Ptr q vo mk np)" "q_checked_null q = Some False"
        by (auto simp: ptr_means_def)
      let ?s = "s\<lparr>c_oids := Suc (c_oids s)\<rparr>"
      obtain y s' where y: "ptr_alu env (int idx) ?c (Ptr q vo mk np) (Some (c_oids s, imm64 (i_imm ins))) ?s = Inr (y, s')"
        "c_blk s' = c_blk ?s" "ptr_means h u (o1 + num_delta ?c (i_imm ins)) y (alu_isa ?c False (rf ?d) (word_of_int (i_imm ins)))"
        using ptr_add_means [OF p [unfolded x(1)] k(1) e] by blast
      have len': "length (t_regs (c_blk s')) = 11" using y(2) len by simp
      have "track_alu env idx s = Inr ((), s'\<lparr>c_blk := (c_blk s')\<lparr>t_regs := (t_regs (c_blk s'))[?d := y]\<rparr>\<rparr>)"
        using k cl x y(1) read_reg_run [OF len rg(1,2)] read_reg_run [of ?s, OF _ rg(3,4)] len put_reg_run [OF len' rg(3,4)]
        by (auto simp: track_alu_def i [symmetric] Let_def abind_Inr alu_src_def alu_result_def some_act_def act_simps)
      then show ?thesis
        using y(2,3) u(2) k cl by (auto simp: exec_alu_def alu_exec_def val_means_def alu_isa_def)
    qed
  qed
qed

text \<open>A store to the stack, in the block and in memory.\<close>

lemma store_keeps_world:
  assumes "stack_access a n" and "places_apart h len" and "world_means z ev eva st m h len mem"
  shows "world_means z ev eva st m h len (store_le mem (h_fp h + word_of_int a) n w)"
proof -
  have "store_le mem (h_fp h + word_of_int a) n w (h_data h + word_of_int i) = mem (h_data h + word_of_int i)"
    if "0 \<le> i" "i < len" for i
  proof (rule store_elsewhere [OF assms(1)])
    fix b :: int assume "- 512 \<le> b" "b < 0"
    with assms(2) that show "h_data h + word_of_int i \<noteq> h_fp h + word_of_int b" unfolding places_apart_def by metis
  qed
  with assms(3) show ?thesis by (simp add: world_means_def)
qed

lemma conforms_store:
  assumes c: "conforms z ev eva st m h T b (rf, mem)" and acc: "stack_access a n"
    and b': "b' = b\<lparr>t_stk := (t_stk b @ replicate (Suc (slot_no a) - length (t_stk b)) None)[slot_no a := y]\<rparr>"
    and y: "slot_means z ev st m h t y (slot_word (slot_at h mem (slot_no a)) n (nat (a mod 8)) w)"
  shows "conforms z ev eva st m h (T\<lparr>bt_slots := (bt_slots T)(slot_no a := t)\<rparr>) b'
    (rf, store_le mem (h_fp h + word_of_int a) n w)"
proof -
  have "slot_means z ev st m h (((bt_slots T)(slot_no a := t)) k) (cell_at b' k)
      (slot_at h (store_le mem (h_fp h + word_of_int a) n w) k)" if "k < 64" for k
    unfolding store_slot [OF acc that] cell_at_put [OF b'] using c y that by (simp add: conforms_def)
  with c store_keeps_world [OF acc] show ?thesis by (simp add: conforms_def b')
qed

lemma store_means:
  assumes t: "store_type T ins = Some (k, t')" and c: "conforms z ev eva st m h T (c_blk s) (rf, mem)"
    and i: "ins = e_instrs env ! idx" and cl: "i_opcode_class ins \<in> {ST, STX}"
  shows "\<exists>s'. track_store env idx s = Inr ((), s') \<and>
    conforms z ev eva st m h (T\<lparr>bt_slots := (bt_slots T)(k := t')\<rparr>) (c_blk s') (machine_step h ins (rf, mem))"
proof -
  let ?v = "if i_opcode_class ins = ST then if - (2 ^ 31) \<le> i_imm ins \<and> i_imm ins < 2 ^ 31 then Some Word else None
     else bt_regs T (nat (i_src_reg ins))"
  obtain n where n: "sz_map (i_opcode_sz ins) = Some n" "regs_valid ins" "i_opcode_mode ins = MEM"
    using t by (auto simp: store_type_def split: option.splits if_splits)
  obtain u o1 v where u: "bt_regs T (nat (i_dst_reg ins)) = Some (Pointer u o1)" and v: "?v = Some v"
    using t n by (auto simp: store_type_def split: option.splits reg_type.splits if_splits)
  define a where "a = o1 + i_offset ins"
  have tt: "u = PTR_TO_STK" "stack_access a n" "k = slot_no a" "slot_store (bt_slots T k) a n v = Some t'"
    using t unfolding store_type_def n u v by (auto simp: n Let_def a_def split: if_splits option.splits)
  have sz: "n \<in> {1, 2, 4, 8}" by (rule sz_map_sizes [OF n(1)])
  have rg: "0 \<le> i_src_reg ins" "i_src_reg ins \<le> 10" "0 \<le> i_dst_reg ins" "i_dst_reg ins \<le> 10"
    using n(2) by (simp_all add: regs_valid_def)
  have len: "length (t_regs (c_blk s)) = 11" using c by (simp add: conforms_def)
  let ?d = "nat (i_dst_reg ins)" and ?r = "nat (i_src_reg ins)"
  have lt: "?d < 11" "?r < 11" using rg by simp_all
  from conforms_reg [OF c u lt(1)] obtain j q mk np where p: "t_regs (c_blk s) ! ?d = Some (j, Ptr q None mk np)"
    "q_type q = u" "q_off q = o1" "q_checked_null q = Some False" and d: "rf ?d = h_fp h + word_of_int o1"
    by (auto simp: val_means_def ptr_means_def base_of_def tt(1))
  obtain x s1 w where x: "(if i_opcode_class ins = ST then some_act (new_obj (imm64 (i_imm ins))) else aret (t_regs (c_blk s) ! ?r)) s = Inr (x, s1)"
    "c_blk s1 = c_blk s" "val_means z ev st m h v x w"
    and step: "machine_step h ins (rf, mem) = (rf, store_le mem (rf ?d + word_of_int (i_offset ins)) n w)"
  proof (cases "i_opcode_class ins = ST")
    case True
    with v have im: "v = Word" "- (2 ^ 31) \<le> i_imm ins" "i_imm ins < 2 ^ 31" by (auto split: if_splits)
    show thesis
      by (rule that [of "Some (c_oids s, imm64 (i_imm ins))" "s\<lparr>c_oids := Suc (c_oids s)\<rparr>" "word_of_int (i_imm ins)"])
        (use True means_imm64 [OF im(2,3)] im(1) n(1) in
          \<open>simp_all add: some_act_def act_simps val_means_def machine_step_def access_size_def Let_def\<close>)
  next
    case False
    then have "bt_regs T ?r = Some v" using v by simp
    from conforms_reg [OF c this lt(2)] show thesis
      by (intro that [of "t_regs (c_blk s) ! ?r" s "rf ?r"])
        (use False cl n(1) in \<open>simp_all add: machine_step_def access_size_def Let_def\<close>)
  qed
  have "slot_means z ev st m h (bt_slots T (slot_no a)) (cell_at (c_blk s1) (slot_no a)) (slot_at h mem (slot_no a))"
    using c slot_no_less [OF tt(2)] by (simp add: conforms_def x(2))
  from stack_store_means [OF tt(2) sz tt(4) [unfolded tt(3)] this x(3)] obtain y s2 where
    y: "stk_store a n x s1 = Inr ((), s2)"
    "c_blk s2 = (c_blk s1)\<lparr>t_stk := (t_stk (c_blk s1) @ replicate (Suc (slot_no a) - length (t_stk (c_blk s1))) None)[slot_no a := y]\<rparr>"
    "slot_means z ev st m h t' y (slot_word (slot_at h mem (slot_no a)) n (nat (a mod 8)) w)" by blast
  have "track_store env idx s = Inr ((), s2)"
    using x(1) y(1) p n tt(1) read_reg_run [OF len rg(1,2)] read_reg_run [OF len rg(3,4)]
    by (simp add: track_store_def i [symmetric] Let_def instr_size_def of_option_def abind_Inr store_mem_def pinfo_def a_def)
  moreover have "rf ?d + word_of_int (i_offset ins) = h_fp h + word_of_int a" by (simp add: d a_def)
  ultimately show ?thesis
    using conforms_store [OF c tt(2) y(2) [unfolded x(2)] y(3)] by (simp add: step tt(3))
qed

text \<open>The step of the tracker against the step of the machine.\<close>

lemma conforms_idx: "conforms z ev eva st m h T (b\<lparr>t_idx := k\<rparr>) mc = conforms z ev eva st m h T b mc"
  by (simp add: conforms_def cell_at_def)

lemma step_means:
  assumes t: "type_step ins T = Some T'" and c: "conforms z ev eva st m h T (c_blk s) (rf, mem)"
    and i: "ins = e_instrs env ! idx" and e: "\<not> e_brief env"
  shows "\<exists>s'. track_instr env blocks idx s = Inr ((), s') \<and>
    conforms z ev eva st m h T' (c_blk s') (machine_step h ins (rf, mem))"
proof -
  let ?s = "s\<lparr>c_blk := (c_blk s)\<lparr>t_idx := Some (int idx)\<rparr>\<rparr>" and ?cl = "i_opcode_class ins"
  have c': "conforms z ev eva st m h T (c_blk ?s) (rf, mem)" using c by (simp add: conforms_idx)
  have len: "length (t_regs (c_blk ?s)) = 11" using c' by (simp add: conforms_def)
  have put: "\<exists>s'. put_reg (i_dst_reg ins) x u = Inr ((), s') \<and> conforms z ev eva st m h (set_type T ins ty) (c_blk s')
      (rf(nat (i_dst_reg ins) := w), mem)"
    if "regs_valid ins" "t_regs (c_blk u) = t_regs (c_blk ?s)" "t_stk (c_blk u) = t_stk (c_blk ?s)" "val_means z ev st m h ty x w"
    for x u ty w
  proof -
    have "length (t_regs (c_blk u)) = 11" using that(2) len by simp
    from put_reg_run [OF this, of "i_dst_reg ins" x] that(1) show ?thesis
      using conforms_regs [OF c' that(4,1), of "(c_blk u)\<lparr>t_regs := (t_regs (c_blk u))[nat (i_dst_reg ins) := x]\<rparr>"] that(2,3)
      by (simp add: regs_valid_def)
  qed
  consider (ldx) ty where "?cl = LDX" "load_type T ins = Some ty" "T' = set_type T ins ty"
    | (ld) ty where "?cl = LD" "wide_type ins = Some ty" "T' = set_type T ins ty"
    | (store) k t' where "?cl \<in> {ST, STX}" "store_type T ins = Some (k, t')" "T' = T\<lparr>bt_slots := (bt_slots T)(k := t')\<rparr>"
    | (alu) ty where "?cl \<notin> {LDX, LD, ST, STX}" "alu_type T ins = Some ty" "T' = set_type T ins ty"
    using t by (fastforce simp: type_step_def Let_def split: if_splits)
  then show ?thesis
  proof cases
    case ldx
    have v: "regs_valid ins" "i_opcode_mode ins = MEM" using ldx(2) by (auto simp: load_type_def split: option.splits if_splits)
    from load_means [OF ldx(2) c', of "int idx"] obtain n k q mk np x s' where
      n: "sz_map (i_opcode_sz ins) = Some n" and p: "t_regs (c_blk ?s) ! nat (i_src_reg ins) = Some (k, Ptr q None mk np)"
      and x: "load_mem False (int idx) (Ptr q None mk np) (i_offset ins) n ?s = Inr (x, s')"
        "t_regs (c_blk s') = t_regs (c_blk ?s)" "t_stk (c_blk s') = t_stk (c_blk ?s)"
        "val_means z ev st m h ty x (machine_load h mem (rf (nat (i_src_reg ins)) + word_of_int (i_offset ins)) n)"
      by blast
    have "track_instr env blocks idx s = put_reg (i_dst_reg ins) x s'"
      using ldx(1) n p v e x(1) read_reg_run [OF len, of "i_src_reg ins"]
      by (simp add: track_instr_def i [symmetric] Let_def is_alu_def is_load_def track_load_def instr_size_def of_option_def
          abind_Inr regs_valid_def)
    with put [OF v(1) x(2-4)] ldx(1,3) n show ?thesis by (simp add: machine_step_def access_size_def Let_def)
  next
    case ld
    have v: "regs_valid ins" "i_opcode_mode ins = IMM" "i_wide_instr ins" "i_src_reg ins = 0" "\<not> i_relocated ins" "ty = Word"
      and n: "sz_map (i_opcode_sz ins) \<noteq> None"
      using ld(2) by (auto simp: wide_type_def split: if_splits)
    let ?x = "Some (c_oids ?s, Num (wide_value ins) 8 (-1))" and ?u = "?s\<lparr>c_oids := Suc (c_oids ?s)\<rparr>"
    have "track_instr env blocks idx s = put_reg (i_dst_reg ins) ?x ?u"
      using ld(1) n v by (auto simp: track_instr_def i [symmetric] Let_def is_alu_def is_load_def track_load_def instr_size_def
          of_option_def load_wide_def aassert_def some_act_def act_simps abind_cases)
    moreover have "val_means z ev st m h ty ?x (word_of_int (wide_value ins))" using v(6) means_num8 by (simp add: val_means_def)
    ultimately show ?thesis using put [OF v(1), of ?u ty ?x] ld(1,3) by (simp add: machine_step_def Let_def)
  next
    case store
    have "track_instr env blocks idx s = track_store env idx ?s"
      using store(1) by (auto simp: track_instr_def i [symmetric] Let_def is_alu_def is_load_def is_store_def)
    with store_means [OF store(2) c' i store(1)] store(3) show ?thesis by simp
  next
    case alu
    have v: "alu_valid ins" using alu(2) by (auto simp: alu_type_def Let_def split: if_splits)
    then have cl: "?cl \<in> {ALU, ALU64}" by (simp add: alu_valid_def)
    have "track_instr env blocks idx s = track_alu env idx ?s"
      using cl by (auto simp: track_instr_def i [symmetric] Let_def is_alu_def)
    moreover have "machine_step h ins (rf, mem) = (exec_alu ins rf, mem)" using cl by (auto simp: machine_step_def Let_def)
    moreover have "exec_alu ins rf = rf(nat (i_dst_reg ins) := exec_alu ins rf (nat (i_dst_reg ins)))" by (simp add: exec_alu_def)
    moreover have "regs_valid ins" using v by (simp add: alu_valid_def regs_valid_def)
    moreover obtain x s' where "track_alu env idx ?s = Inr ((), s')"
      "c_blk s' = (c_blk ?s)\<lparr>t_regs := (t_regs (c_blk ?s))[nat (i_dst_reg ins) := x]\<rparr>"
      "val_means z ev st m h ty x (exec_alu ins rf (nat (i_dst_reg ins)))"
      using alu_means [OF alu(2) c' i e] by blast
    ultimately show ?thesis
      using conforms_regs [OF c', of ty x "exec_alu ins rf (nat (i_dst_reg ins))" ins "c_blk s'"] alu(3) by simp
  qed
qed

lemma code_means:
  assumes "type_code (map (\<lambda>i. e_instrs env ! i) idxs) T = Some T'" and "\<not> e_brief env"
    and "conforms z ev eva st m h T (c_blk s) mc"
  shows "\<exists>s'. aeach (track_instr env blocks) idxs s = Inr ((), s') \<and>
    conforms z ev eva st m h T' (c_blk s') (machine_run h (map (\<lambda>i. e_instrs env ! i) idxs) mc)"
  using assms
proof (induction idxs arbitrary: T s mc)
  case (Cons i idxs)
  obtain U where U: "type_step (e_instrs env ! i) T = Some U" "type_code (map (\<lambda>i. e_instrs env ! i) idxs) U = Some T'"
    using Cons.prems(1) by (cases "type_step (e_instrs env ! i) T") simp_all
  obtain rf mem where mc: "mc = (rf, mem)" by (cases mc)
  obtain u where u: "track_instr env blocks i s = Inr ((), u)"
    "conforms z ev eva st m h U (c_blk u) (machine_step h (e_instrs env ! i) mc)"
    using step_means [OF U(1) Cons.prems(3) [unfolded mc] refl Cons.prems(2)] mc by blast
  from Cons.IH [OF U(2) Cons.prems(2) u(2)] u(1) show ?case by (simp add: abind_Inr machine_run_def)
qed (simp add: machine_run_def)

lemma plain_tests:
  assumes "\<not> is_ptr d"
  shows "\<not> maybe_null (Some d)" and "\<not> pkt_size_check (Some d) y" and "\<not> is_ptr u \<Longrightarrow> null_test code (Some d) (Some u) = None"
proof -
  show "\<not> maybe_null (Some d)" "\<not> pkt_size_check (Some d) y"
    using assms by (cases d; simp add: maybe_null_def pkt_size_check_def is_ptr_def)+
  have "(case (Some d, Some u) of (Some (Ptr i _ _ _), other) \<Rightarrow> Some (i, other)
      | (other, Some (Ptr i _ _ _)) \<Rightarrow> Some (i, other) | _ \<Rightarrow> None) = None" if "\<not> is_ptr u"
    using that assms by (cases d; cases u; simp add: is_ptr_def)
  then show "\<not> is_ptr u \<Longrightarrow> null_test code (Some d) (Some u) = None" by (simp add: null_test_def)
qed

text \<open>The condition a conditional jump on words leaves in the block.\<close>

lemma low_word: "word_of_int k = (ucast (word_of_int k :: 64 word) :: 32 word)"
  by (rule word_uint_eqI) (simp add: uint_word_of_int_eq unsigned_ucast_eq)

lemma branch_operand_means:
  assumes im: "- (2 ^ 31) \<le> i_imm ins" "i_imm ins < 2 ^ 31" and so: "i_opcode_s ins \<in> {S_IMM, S_REG}"
    and r: "i_opcode_s ins = S_REG \<Longrightarrow> reg_means z ev st m reg w"
  defines "v \<equiv> (if i_opcode_s ins = S_IMM then word_of_int (i_imm ins) else w :: 64 word)"
  shows "\<exists>u t. branch_src ins reg = Some u \<and> \<not> is_ptr u \<and> expr_to_z3 z st u = Inr t \<and> z_size z t \<le> 64 \<and>
    (i_opcode_class ins = JMP \<longrightarrow> word_of_int (ev m t) = v) \<and> word_of_int (ev m t) = (ucast v :: 32 word)"
proof -
  have lo: "word_of_int (ev m t) = (ucast x :: 32 word)" if "word_of_int (ev m t) = x" for t and x :: "64 word"
    unfolding that [symmetric] by (rule low_word)
  show ?thesis
  proof (cases "i_opcode_s ins = S_IMM")
    case True
    show ?thesis
    proof (cases "i_opcode_class ins = JMP")
      case True
      from means_denotes [OF means_imm64 [OF im, of st m 0]] obtain t where
        "expr_to_z3 z st (imm64 (i_imm ins)) = Inr t" "z_size z t \<le> 64" "word_of_int (ev m t) = (word_of_int (i_imm ins) :: 64 word)"
        by (auto simp: denotes_def)
      with True \<open>i_opcode_s ins = S_IMM\<close> lo [of t] show ?thesis
        by (simp add: branch_src_def v_def imm64_def is_ptr_def)
    next
      case False
      let ?t = "BitVecVal (i_imm ins AND 0xFFFFFFFF) 32"
      have "word_of_int (ev m ?t) = (ucast (word_of_int (i_imm ins) :: 64 word) :: 32 word)"
        by (rule word_uint_eqI) (simp add: word_mask32 ev_BitVecVal uint_word_of_int_eq unsigned_ucast_eq)
      with False \<open>i_opcode_s ins = S_IMM\<close> show ?thesis
        by (auto simp: branch_src_def v_def is_ptr_def size_BitVecVal)
    qed
  next
    case False
    with so r have "reg_means z ev st m reg w" by auto
    from means_denotes [OF this] obtain n u t where "reg = Some (n, u)" "\<not> is_ptr u" "expr_to_z3 z st u = Inr t" "z_size z t \<le> 64"
      "word_of_int (ev m t) = w" by (auto simp: denotes_def)
    with False lo [of t] show ?thesis by (auto simp: branch_src_def v_def obj_part_def)
  qed
qed

lemma branch_means:
  assumes t: "branch_type_ok T ins" and c: "conforms z ev eva st m h T (c_blk s) (rf, mem)"
    and i: "ins = e_instrs env ! idx" and e: "\<not> e_brief env"
  defines "dst \<equiv> obj_part (t_regs (c_blk s) ! nat (i_dst_reg ins))" and "reg \<equiv> t_regs (c_blk s) ! nat (i_src_reg ins)"
  assumes plain: "opt_adjust dst (branch_src ins reg) = None" and wide: "\<And>t. expr_opt_z3 z st dst = Inr t \<Longrightarrow> 0 < z_size z t"
  shows "\<exists>s' cnd b. track_instr env blocks idx s = Inr ((), s') \<and> t_cond (c_blk s') = Some cnd \<and>
    t_regs (c_blk s') = t_regs (c_blk s) \<and> t_stk (c_blk s') = t_stk (c_blk s) \<and>
    cond_to_z3 z st cnd = Inr (Z b) \<and> evb m b = jump_taken ins rf"
proof -
  let ?c = "i_opcode_code ins"
  have v: "regs_valid ins" "i_opcode_class ins \<in> {JMP, JMP32}" "?c \<in> jmp_codes" "i_opcode_s ins \<in> {S_IMM, S_REG}"
    "- (2 ^ 31) \<le> i_imm ins" "i_imm ins < 2 ^ 31"
    and w: "bt_regs T (nat (i_dst_reg ins)) = Some Word" "i_opcode_s ins = S_REG \<Longrightarrow> bt_regs T (nat (i_src_reg ins)) = Some Word"
    using t by (simp_all add: branch_type_ok_def)
  have rg: "0 \<le> i_src_reg ins" "i_src_reg ins \<le> 10" "0 \<le> i_dst_reg ins" "i_dst_reg ins \<le> 10"
    using v(1) by (simp_all add: regs_valid_def)
  then have lt: "nat (i_dst_reg ins) < 11" "nat (i_src_reg ins) < 11" by simp_all
  let ?s = "s\<lparr>c_blk := (c_blk s)\<lparr>t_idx := Some (int idx)\<rparr>\<rparr>"
  have len: "length (t_regs (c_blk ?s)) = 11" using c by (simp add: conforms_def)
  have "reg_means z ev st m (t_regs (c_blk s) ! nat (i_dst_reg ins)) (rf (nat (i_dst_reg ins)))"
    using conforms_reg [OF c w(1) lt(1)] by (simp add: val_means_def)
  from means_denotes [OF this] obtain n d td where d: "t_regs (c_blk s) ! nat (i_dst_reg ins) = Some (n, d)" "\<not> is_ptr d"
    "expr_to_z3 z st d = Inr td" "z_size z td \<le> 64" "word_of_int (ev m td) = rf (nat (i_dst_reg ins))" by (auto simp: denotes_def)
  have dst: "dst = Some d" using d(1) by (simp add: dst_def obj_part_def)
  have "reg_means z ev st m reg (rf (nat (i_src_reg ins)))" if "i_opcode_s ins = S_REG"
    using conforms_reg [OF c w(2) [OF that] lt(2)] by (simp add: val_means_def reg_def)
  from branch_operand_means [OF v(5,6,4) this] obtain u tu where u: "branch_src ins reg = Some u" "\<not> is_ptr u"
    "expr_to_z3 z st u = Inr tu" "z_size z tu \<le> 64"
    "i_opcode_class ins = JMP \<Longrightarrow> word_of_int (ev m tu) = (if i_opcode_s ins = S_IMM then word_of_int (i_imm ins) else rf (nat (i_src_reg ins)))"
    "word_of_int (ev m tu) = (ucast (if i_opcode_s ins = S_IMM then word_of_int (i_imm ins) else rf (nat (i_src_reg ins)) :: 64 word) :: 32 word)"
    by blast
  let ?cnd = "Condition ?c (Some d) (Some u) (i_opcode_class ins = JMP32)"
  have np: "\<not> maybe_null (Some d)" "\<not> maybe_null (Some u)" "\<not> pkt_size_check (Some d) (Some u)" "null_test ?c (Some d) (Some u) = None"
    using d(2) u(2) by (simp_all add: plain_tests)
  have code: "\<not> (swap_jmp_code ?c = -1 \<and> ?c \<noteq> BPF_JSET)" "?c \<notin> {BPF_JA, BPF_CALL, BPF_EXIT}"
    using v(3) by (auto simp: jmp_codes_def swap_jmp_code_def)
  have cl: "is_jump ins" "\<not> is_alu ins" "\<not> is_load ins" "\<not> is_store ins" using v(2) by (auto simp: is_jump_def is_alu_def is_load_def is_store_def)
  have br: "is_branch ins" "\<not> is_call ins" using code(2) cl(1) by (auto simp: is_branch_def is_call_def)
  have "track_instr env blocks idx s = track_branch env idx ?s"
    using cl br by (simp add: track_instr_def i [symmetric] Let_def)
  also have "\<dots> = branch_compare env ins dst (branch_src ins reg) ?s"
  proof -
    have g: "get_reg (i_src_reg ins) ?s = Inr (reg, ?s)" "get_reg (i_dst_reg ins) ?s = Inr (t_regs (c_blk s) ! nat (i_dst_reg ins), ?s)"
      using read_reg_run [OF len rg(1,2)] read_reg_run [OF len rg(3,4)] by (simp_all add: reg_def)
    show ?thesis
      unfolding track_branch_def i [symmetric] Let_def abind_Inr [where m = "get_reg (i_src_reg ins)", OF g(1)]
        abind_Inr [where m = "get_reg (i_dst_reg ins)", OF g(2)] if_not_P [OF code(1)]
        dst_def [symmetric] plain by simp
  qed
  also have "\<dots> = Inr ((), ?s\<lparr>c_blk := (c_blk ?s)\<lparr>t_cond := Some ?cnd\<rparr>\<rparr>)"
    using np e by (simp add: branch_compare_def dst u(1) set_cond_def)
  finally have run: "track_instr env blocks idx s = \<dots>" .
  have pos: "0 < z_size z td" using wide d(3) by (simp add: dst expr_opt_z3_def enc_opt_def)
  have "\<exists>b. cond_to_z3 z st ?cnd = Inr (Z b) \<and> evb m b = jump_taken ins rf"
  proof (cases "i_opcode_class ins = JMP")
    case True
    then show ?thesis
      using compare_exact_64 [OF v(3) pos d(4) u(4), of m] d(3,5) u(3,5) np(4)
      by (auto simp: expr_opt_z3_def enc_opt_def jump_taken_def Let_def)
  next
    case False
    then have j: "i_opcode_class ins = JMP32" using v(2) by simp
    have "word_of_int (ev m td) = (ucast (rf (nat (i_dst_reg ins))) :: 32 word)"
      unfolding d(5) [symmetric] by (rule low_word)
    with j compare_exact_32 [OF v(3), of td tu m] d(3) u(3,6) np(4) show ?thesis
      by (auto simp: expr_opt_z3_def enc_opt_def jump_taken_def Let_def)
  qed
  with run show ?thesis by auto
qed

lemma entry_means:
  assumes "length (t_regs (c_blk s)) = 11" and "rf 1 = h_ctx h" and "rf 10 = h_fp h"
    and "places_apart h len" and "world_means z ev eva st m h len mem"
  shows "\<exists>s'. enter_block blocks 0 s = Inr ((), s') \<and> conforms z ev eva st m h (entry_type len) (c_blk s') (rf, mem)"
  using assms
  by (auto simp: enter_block_def reset_block_def init_state_def act_simps conforms_def entry_type_def val_means_def ptr_means_def
      base_of_def ctx_ptr_def stk_ptr_def default_ptr_def slot_means_def cell_means_def cell_at_def nth_list_update)

end

section \<open>Whole blocks\<close>

text \<open>
  Claim C8.  The straight-line part of a block is executed symbolically as the machine executes it.  For
  every typed sequence of arithmetic instructions, constants, loads from the context, the packet and the
  stack, stores to the stack, and moves and constant offsets of pointers: the tracker does not raise, and
  under every assignment that describes the packet and the context in memory, what its registers and
  stack slots denote afterwards (words, bytes of slots, pointers by region and offset, spilled pointers)
  is what the registers and the memory of the machine hold after the same instructions.
\<close>

theorem block_code_exact:
  assumes "smtlib z ev evb eva evab" and "\<not> e_brief env"
    and "type_code (map (\<lambda>i. e_instrs env ! i) idxs) T = Some T'"
    and "conforms z ev eva st m h T (c_blk s) mc"
  shows "\<exists>s'. aeach (track_instr env blocks) idxs s = Inr ((), s') \<and>
    conforms z ev eva st m h T' (c_blk s') (machine_run h (map (\<lambda>i. e_instrs env ! i) idxs) mc)"
  using smtlib.code_means [OF assms(1,3,2,4)] .

lemma aeach_snoc: "aeach f (xs @ [x]) s = abind (aeach f xs) (\<lambda>_. f x) s"
  by (induction xs arbitrary: s) (simp_all add: abind_def split: sum.split)

text \<open>
  Claim C9.  A block that ends in a conditional jump on words branches as the machine does: after tracking
  the straight-line part and the jump, the condition the block carries is encoded as a term that is true,
  under every assignment that describes the start of the block, exactly when the machine, having run the
  same instructions, takes the jump (64-bit and 32-bit comparisons, constants and registers).
\<close>

theorem block_branch_exact:
  assumes "smtlib z ev evb eva evab" and "\<not> e_brief env"
    and "type_code (map (\<lambda>i. e_instrs env ! i) idxs) T = Some T'" and "branch_type_ok T' (e_instrs env ! j)"
    and "conforms z ev eva st m h T (c_blk s) mc"
    and "\<And>u. aeach (track_instr env blocks) idxs s = Inr ((), u) \<Longrightarrow>
      (let dst = obj_part (t_regs (c_blk u) ! nat (i_dst_reg (e_instrs env ! j)));
           src = branch_src (e_instrs env ! j) (t_regs (c_blk u) ! nat (i_src_reg (e_instrs env ! j)))
       in opt_adjust dst src = None \<and> (\<forall>t. expr_opt_z3 z st dst = Inr t \<longrightarrow> 0 < z_size z t))"
  shows "\<exists>s' cnd b. aeach (track_instr env blocks) (idxs @ [j]) s = Inr ((), s') \<and> t_cond (c_blk s') = Some cnd \<and>
    cond_to_z3 z st cnd = Inr (Z b) \<and>
    evb m b = jump_taken (e_instrs env ! j) (fst (machine_run h (map (\<lambda>i. e_instrs env ! i) idxs) mc))"
proof -
  obtain u where u: "aeach (track_instr env blocks) idxs s = Inr ((), u)"
    "conforms z ev eva st m h T' (c_blk u) (machine_run h (map (\<lambda>i. e_instrs env ! i) idxs) mc)"
    using smtlib.code_means [OF assms(1,3,2,5)] by blast
  obtain rf mem where mc: "machine_run h (map (\<lambda>i. e_instrs env ! i) idxs) mc = (rf, mem)" by fastforce
  from smtlib.branch_means [OF assms(1,4) u(2) [unfolded mc] refl assms(2), where blocks = blocks] assms(6) [OF u(1)]
  have "\<exists>s' cnd b. track_instr env blocks j u = Inr ((), s') \<and> t_cond (c_blk s') = Some cnd \<and>
      cond_to_z3 z st cnd = Inr (Z b) \<and> evb m b = jump_taken (e_instrs env ! j) rf"
    unfolding Let_def by fast
  then show ?thesis using u(1) by (simp add: aeach_snoc abind_Inr mc)
qed

text \<open>
  A program for the witnesses, from the entry of a program: \<open>r2 = ctx->data; r2 += 2; r3 = *(u16 *)(r2 + 10);
  *(u32 *)(r10 - 4) = r3; r0 = *(u16 *)(r10 - 4)\<close>, and a jump on \<open>r0\<close>.  Byte \<open>i\<close> of the packet is \<open>i\<close>.
\<close>

definition mem_instr :: "int \<Rightarrow> int \<Rightarrow> int \<Rightarrow> int \<Rightarrow> int \<Rightarrow> instr" where
  "mem_instr cl size_code dst src off =
     (alu_instr cl 0 0 dst src off 0)\<lparr>i_opcode_mode := MEM, i_opcode_sz := size_code\<rparr>"

definition frame_env :: tenv where
  "frame_env = alu_env\<lparr>e_instrs :=
     [mem_instr LDX 0 2 1 0, alu_instr ALU64 S_IMM BPF_ADD 2 0 0 2, mem_instr LDX 1 3 2 10, mem_instr STX 0 10 3 (-4),
      mem_instr LDX 1 0 10 (-4), alu_instr JMP S_IMM BPF_JEQ 0 0 0 0x0D0C]\<rparr>"

definition frame_host :: host where
  "frame_host = \<lparr>h_fp = 0x1000, h_ctx = 0x2000, h_data = 0x3000, h_data_end = 0x3040, h_data_meta = 0x3000,
     h_ingress = 5, h_rx_queue = 5, h_egress = 5\<rparr>"

definition frame_mem :: ram where
  "frame_mem = (\<lambda>a. ucast (a - 0x3000))"

definition frame_smt :: smt_env where
  "frame_smt = demo_env\<lparr>e_arr := \<lambda>_ i. i\<rparr>"

lemma far_apart:
  assumes "0 \<le> u" "u < 2 ^ 32" "0 \<le> v" "v < 2 ^ 32" "u \<noteq> v"
  shows "(word_of_int u :: 64 word) \<noteq> word_of_int v"
proof
  assume "(word_of_int u :: 64 word) = word_of_int v"
  then have "nat u = nat v" using near_unat [OF assms(1,2)] near_unat [OF assms(3,4)] by simp
  with assms show False by simp
qed

lemma frame_places: "places_apart frame_host 64"
proof -
  have b: "h_fp frame_host = word_of_int 0x1000" "h_ctx frame_host = word_of_int 0x2000" "h_data frame_host = word_of_int 0x3000"
    by (simp_all add: frame_host_def)
  show ?thesis unfolding places_apart_def b of_int_add [symmetric]
    by (intro conjI allI impI far_apart) simp_all
qed

lemma frame_world: "world_means std_queries eval_bv eval_a (make_init_state [] []) frame_smt frame_host 64 frame_mem"
proof -
  have "take_bit 8 i = uint (frame_mem (0x3000 + word_of_int i))" for i
    by (simp add: frame_mem_def unsigned_ucast_eq uint_word_of_int_eq)
  then show ?thesis
    by (simp add: world_means_def make_init_state_def std_queries_def frame_smt_def demo_env_def frame_host_def)
qed

definition frame_regs :: "nat \<Rightarrow> 64 word" where
  "frame_regs = (\<lambda>_. 0)(1 := 0x2000, 10 := 0x1000)"

lemma frame_entry:
  "\<exists>s. enter_block [] 0 alu_start = Inr ((), s) \<and>
     conforms std_queries eval_bv eval_a (make_init_state [] []) frame_smt frame_host (entry_type 64) (c_blk s) (frame_regs, frame_mem)"
  by (rule smtlib.entry_means [OF smtlib_std _ _ _ frame_places frame_world])
    (simp_all add: alu_start_def new_tblock_def bblock.extend_def frame_regs_def frame_host_def)

lemma frame_typed:
  "\<exists>T. type_code (map (\<lambda>i. e_instrs frame_env ! i) [0, 1, 2, 3, 4]) (entry_type 64) = Some T \<and> bt_regs T 0 = Some Word"
proof -
  have "map_option (\<lambda>T. bt_regs T 0) (type_code (map (\<lambda>i. e_instrs frame_env ! i) [0, 1, 2, 3, 4]) (entry_type 64)) = Some (Some Word)"
    by code_simp
  then show ?thesis by auto
qed

lemma frame_result: "fst (machine_run frame_host (map (\<lambda>i. e_instrs frame_env ! i) [0, 1, 2, 3, 4]) (frame_regs, frame_mem)) 0 = 0x0D0C"
  by code_simp

theorem block_code_exact_witness:
  "\<exists>s s'. enter_block [] 0 alu_start = Inr ((), s) \<and> aeach (track_instr frame_env []) [0, 1, 2, 3, 4] s = Inr ((), s') \<and>
     reg_means std_queries eval_bv (make_init_state [] []) frame_smt (t_regs (c_blk s') ! 0) 0x0D0C"
proof -
  have f: "\<not> e_brief frame_env" by (simp add: frame_env_def alu_env_def)
  obtain T where T: "type_code (map (\<lambda>i. e_instrs frame_env ! i) [0, 1, 2, 3, 4]) (entry_type 64) = Some T" "bt_regs T 0 = Some Word"
    using frame_typed by blast
  obtain s where s: "enter_block [] 0 alu_start = Inr ((), s)"
    "conforms std_queries eval_bv eval_a (make_init_state [] []) frame_smt frame_host (entry_type 64) (c_blk s) (frame_regs, frame_mem)"
    using frame_entry by blast
  from block_code_exact [OF smtlib_std f T(1) s(2)] obtain s' where s': "aeach (track_instr frame_env []) [0, 1, 2, 3, 4] s = Inr ((), s')"
    "conforms std_queries eval_bv eval_a (make_init_state [] []) frame_smt frame_host T (c_blk s')
       (machine_run frame_host (map (\<lambda>i. e_instrs frame_env ! i) [0, 1, 2, 3, 4]) (frame_regs, frame_mem))" by blast
  obtain rf mem where mc: "machine_run frame_host (map (\<lambda>i. e_instrs frame_env ! i) [0, 1, 2, 3, 4]) (frame_regs, frame_mem) = (rf, mem)"
    by fastforce
  have "rf 0 = 0x0D0C" using frame_result unfolding mc by simp
  with conforms_reg [OF s'(2) [unfolded mc] T(2)]
  have "val_means std_queries eval_bv (make_init_state [] []) frame_smt frame_host Word (t_regs (c_blk s') ! 0) 0x0D0C" by simp
  with s(1) s'(1) show ?thesis by (auto simp: val_means_def)
qed

text \<open>What the tracker leaves in \<open>r0\<close>.\<close>

definition frame_r0 :: val where
  "frame_r0 = ByteSeq [Some (ALUbinary BPF_LSH (Some (ALUbinary BPF_AND (Some (Pkt_val 0 2 12 None 2)) (Some (Num 0xFFFFFFFF 8 (-1))) 0 8 3))
     (Some (Num 32 8 (-1))) 0 8 3)] 2 4"

lemma frame_tracked:
  "case abind (enter_block [] 0) (\<lambda>_. aeach (track_instr frame_env []) [0, 1, 2, 3, 4]) alu_start of
     Inl e \<Rightarrow> False | Inr (_, u) \<Rightarrow> t_regs (c_blk u) ! 0 = Some (8, frame_r0)"
  by code_simp

lemma frame_plain: "opt_adjust (Some frame_r0) (branch_src (e_instrs frame_env ! 5) x) = None"
  by (simp add: opt_adjust_def frame_r0_def branch_src_def frame_env_def alu_instr_def imm64_def)

context smtlib
begin

lemma byte_seq_size: "byte_seq_z3 z cs sz off = Inr u \<Longrightarrow> 0 < sz \<Longrightarrow> z_size z u = sz * 8"
  by (auto simp: byte_seq_z3_def ebind_eq_Inr)

end

lemma frame_wide: "expr_opt_z3 std_queries (make_init_state [] []) (Some frame_r0) = Inr t \<Longrightarrow> 0 < z_size std_queries t"
  using smtlib.byte_seq_size [OF smtlib_std] unfolding frame_r0_def expr_opt_z3_def by (fastforce simp: enc_opt_def)

theorem block_branch_exact_witness:
  "\<exists>s s' cnd b. enter_block [] 0 alu_start = Inr ((), s) \<and>
     aeach (track_instr frame_env []) ([0, 1, 2, 3, 4] @ [5]) s = Inr ((), s') \<and> t_cond (c_blk s') = Some cnd \<and>
     cond_to_z3 std_queries (make_init_state [] []) cnd = Inr (Z b) \<and> eval_b frame_smt b"
proof -
  have f: "\<not> e_brief frame_env" by (simp add: frame_env_def alu_env_def)
  obtain T where T: "type_code (map (\<lambda>i. e_instrs frame_env ! i) [0, 1, 2, 3, 4]) (entry_type 64) = Some T" "bt_regs T 0 = Some Word"
    using frame_typed by blast
  obtain s where s: "enter_block [] 0 alu_start = Inr ((), s)"
    "conforms std_queries eval_bv eval_a (make_init_state [] []) frame_smt frame_host (entry_type 64) (c_blk s) (frame_regs, frame_mem)"
    using frame_entry by blast
  have br: "branch_type_ok T (e_instrs frame_env ! 5)"
    using T(2) by (simp add: frame_env_def branch_type_ok_def alu_instr_def regs_valid_def jmp_codes_def blank_instr_def)
  have at: "i_dst_reg (e_instrs frame_env ! 5) = 0" "i_src_reg (e_instrs frame_env ! 5) = 0"
    by (simp_all add: frame_env_def alu_instr_def blank_instr_def)
  have plain: "let dst = obj_part (t_regs (c_blk u) ! nat (i_dst_reg (e_instrs frame_env ! 5)));
           src = branch_src (e_instrs frame_env ! 5) (t_regs (c_blk u) ! nat (i_src_reg (e_instrs frame_env ! 5)))
       in opt_adjust dst src = None \<and> (\<forall>t. expr_opt_z3 std_queries (make_init_state [] []) dst = Inr t \<longrightarrow> 0 < z_size std_queries t)"
    if "aeach (track_instr frame_env []) [0, 1, 2, 3, 4] s = Inr ((), u)" for u
  proof -
    have "t_regs (c_blk u) ! 0 = Some (8, frame_r0)" using frame_tracked that s(1) by (simp add: abind_Inr)
    with at frame_plain frame_wide show ?thesis by (simp add: obj_part_def)
  qed
  have taken: "jump_taken (e_instrs frame_env ! 5) rf" if "rf 0 = 0x0D0C" for rf
    using that by (simp add: frame_env_def alu_instr_def jump_taken_def jmp_isa_def blank_instr_def)
  from block_branch_exact [OF smtlib_std f T(1) br s(2) plain]
    taken [of "fst (machine_run frame_host (map (\<lambda>i. e_instrs frame_env ! i) [0, 1, 2, 3, 4]) (frame_regs, frame_mem))", OF frame_result]
    s(1) show ?thesis by blast
qed

end
