(* ===== verification/Forward.thy ===== *)
theory Forward
  imports Regions Replay_Path
begin

text \<open>
  The forward analysis of \<open>hornet/verify/forward.py\<close>: one pass over the blocks in topological
  order carries a symbolic state of the world.  The entry state of a block merges the states of its
  predecessors under the conditions of the incoming edges; then the reads and the actions of the
  block are executed in program order, and a branch yields the conditions of its two edges.  A read
  is resolved once, where it happens, and looked up afterwards (\<open>_memo\<close>); a read of a folded region
  is answered by \<open>Memory\<close> instead.

  The readers installed in the state call \<open>expr_to_z3\<close> again.  \<open>hooked\<close> builds that state with a
  bound on the nesting, as the interpreter's recursion limit does.  \<open>fp_depth\<close> is the bound;
  \<open>fp_simp\<close> is Z3's \<open>simplify\<close>, \<open>fp_same\<close> is \<open>is\<close> on map keys and \<open>fp_is_arr\<close>, \<open>fp_is_arrb\<close> and
  \<open>fp_is_bv\<close> are \<open>is\<close> on terms.  A value of the tracker is its own key in the memo: it carries the
  block and the instruction that read it.  The switch \<open>resolve_values=False\<close> is not modelled.
\<close>

section \<open>The state of the analysis\<close>

record fwd_params =
  fp_z :: z3_queries
  fp_simp :: "bt \<Rightarrow> lit"
  fp_same :: "val option \<Rightarrow> val option \<Rightarrow> bool"
  fp_is_arr :: "avt \<Rightarrow> avt \<Rightarrow> bool"
  fp_is_arrb :: "abt \<Rightarrow> abt \<Rightarrow> bool"
  fp_is_bv :: "bvt \<Rightarrow> bvt \<Rightarrow> bool"
  fp_depth :: nat

record fwd_env =
  fe_par :: fwd_params
  fe_blocks :: "tblock list"
  fe_init :: z3_state
  fe_relevant :: "region set"
  fe_fold :: "region set"
  fe_anc :: "(nat \<times> nat set) list"
  fe_lookup :: "(int option \<times> nat) list"
  fe_prune :: bool

record fwd_info =
  wi_reach :: lit
  wi_taken :: lit
  wi_fall :: lit
  wi_sigma :: z3_state
  wi_imprecise :: bool

text \<open>\<open>fw_cur\<close> is \<open>_cur_block\<close>, \<open>_cur_sigma\<close> and \<open>_cur_reach\<close>.\<close>

record forward =
  fw_info :: "(nat \<times> fwd_info) list"
  fw_memo :: "(val \<times> bvt) list"
  fw_lookup_sigma :: "(int option \<times> z3_state) list"
  fw_cur :: "(nat \<times> z3_state \<times> lit) option"
  fw_stores :: nat

definition info_at :: "forward \<Rightarrow> int \<Rightarrow> fwd_info option" where
  "info_at fw b = (if b < 0 then None else dict_get (fw_info fw) (nat b))"

definition fw_reach :: "forward \<Rightarrow> int \<Rightarrow> lit" where
  "fw_reach fw b =
     (case fw_cur fw of
        Some (c, s, r) \<Rightarrow> if b = int c then r else (case info_at fw b of None \<Rightarrow> Py False | Some pi \<Rightarrow> wi_reach pi)
      | None \<Rightarrow> (case info_at fw b of None \<Rightarrow> Py False | Some pi \<Rightarrow> wi_reach pi))"

definition info_sigma :: "fwd_env \<Rightarrow> forward \<Rightarrow> int option \<Rightarrow> z3_state" where
  "info_sigma env fw at =
     (case Option.bind at (info_at fw) of None \<Rightarrow> fe_init env | Some pi \<Rightarrow> wi_sigma pi)"

definition sigma_at :: "fwd_env \<Rightarrow> forward \<Rightarrow> int option \<Rightarrow> z3_state" where
  "sigma_at env fw at =
     (case fw_cur fw of
        Some (c, s, r) \<Rightarrow> if at = Some (int c) then s else info_sigma env fw at
      | None \<Rightarrow> info_sigma env fw at)"

definition edge_guard :: "forward \<Rightarrow> nat \<Rightarrow> edge \<Rightarrow> lit" where
  "edge_guard fw p k =
     (case dict_get (fw_info fw) p of
        None \<Rightarrow> Py False
      | Some pi \<Rightarrow> and_lit (wi_reach pi) (case k of Taken \<Rightarrow> wi_taken pi | Fall \<Rightarrow> wi_fall pi))"

section \<open>The readers\<close>

text \<open>
  \<open>h\<close> is the state the readers evaluate in.  \<open>read_fret\<close> is \<open>self._memo.get\<close>, called with a value
  while the keys of the memo are identities: it never finds anything.
\<close>

definition fwd_memory :: "fwd_env \<Rightarrow> forward \<Rightarrow> z3_state \<Rightarrow> memory" where
  "fwd_memory env fw h =
     (new_memory (fe_init env) (fe_blocks env)
        (\<lambda>b. if b < 0 then {} else (case dict_get (fe_anc env) (nat b) of None \<Rightarrow> {} | Some s \<Rightarrow> int ` s))
        (fw_reach fw))\<lparr>mm_st := h\<rparr>"

definition fwd_read_pkt :: "fwd_env \<Rightarrow> forward \<Rightarrow> z3_state \<Rightarrow> val \<Rightarrow> bvt option res" where
  "fwd_read_pkt env fw h v =
     (if R_pkt \<in> fe_fold env then mem_pkt (fp_z (fe_par env)) (fp_same (fe_par env)) (fwd_memory env fw h) v
      else Inr (dict_get (fw_memo fw) v))"

definition fwd_read_map :: "fwd_env \<Rightarrow> forward \<Rightarrow> z3_state \<Rightarrow> val \<Rightarrow> bvt option res" where
  "fwd_read_map env fw h v =
     (if (case leaf_region v of None \<Rightarrow> False | Some r \<Rightarrow> r \<in> fe_fold env)
      then mem_map (fp_z (fe_par env)) (fp_same (fe_par env)) (fwd_memory env fw h) v
      else Inr (dict_get (fw_memo fw) v))"

definition fwd_read_bss :: "fwd_env \<Rightarrow> forward \<Rightarrow> z3_state \<Rightarrow> val \<Rightarrow> bvt option res" where
  "fwd_read_bss env fw h v =
     (if (case leaf_region v of None \<Rightarrow> False | Some r \<Rightarrow> r \<in> fe_fold env)
      then mem_bss (fp_z (fe_par env)) (fp_same (fe_par env)) (fwd_memory env fw h) v
      else Inr (dict_get (fw_memo fw) v))"

definition fwd_read_present ::
  "fwd_env \<Rightarrow> forward \<Rightarrow> z3_state \<Rightarrow> int \<Rightarrow> bvt \<Rightarrow> int option \<Rightarrow> int option \<Rightarrow> bt res" where
  "fwd_read_present env fw h map_id key at at_idx =
     (let blk = (case at_idx of None \<Rightarrow> None | Some i \<Rightarrow> dict_get (fe_lookup env) (Some i)) in
      if R_map (Some map_id) \<in> fe_fold env then
        (case blk of
           Some b \<Rightarrow> mem_present (fp_z (fe_par env)) (fwd_memory env fw h) (Some map_id) key (Some (int b)) at_idx
         | None \<Rightarrow> mem_present (fp_z (fe_par env)) (fwd_memory env fw h) (Some map_id) key at None)
      else
        let sigma = (case (if blk = None then None else dict_get (fw_lookup_sigma fw) at_idx) of
                       Some s \<Rightarrow> s | None \<Rightarrow> sigma_at env fw at) in
        ebind (map_at sigma (Some map_id)) (\<lambda>m. Inr (SelectB (fst m) key)))"

abbreviation (input) RecursionError :: error where
  "RecursionError \<equiv> RuntimeError ''maximum recursion depth exceeded''"

primrec hooked :: "nat \<Rightarrow> fwd_env \<Rightarrow> forward \<Rightarrow> nat set \<Rightarrow> z3_state" where
  "hooked 0 env fw active =
     (fe_init env)\<lparr>zs_read_pkt := Some (\<lambda>v. Inl RecursionError), zs_read_map := Some (\<lambda>v. Inl RecursionError),
       zs_read_bss := Some (\<lambda>v. Inl RecursionError), zs_read_fret := Some (\<lambda>v. Inl RecursionError),
       zs_read_phi := Some (\<lambda>j. Inl RecursionError), zs_read_present := Some (\<lambda>m k b i. Inl RecursionError)\<rparr>"
| "hooked (Suc n) env fw active =
     (fe_init env)\<lparr>
       zs_read_pkt := Some (fwd_read_pkt env fw (hooked n env fw active)),
       zs_read_map := Some (fwd_read_map env fw (hooked n env fw active)),
       zs_read_bss := Some (fwd_read_bss env fw (hooked n env fw active)),
       zs_read_fret := Some (\<lambda>v. Inr None),
       zs_read_phi := Some (\<lambda>j. phi_value (fp_z (fe_par env)) (hooked n env fw (insert (jv_oid j) active))
                                  (edge_guard fw) active j),
       zs_read_present := Some (fwd_read_present env fw (hooked n env fw active))\<rparr>"

definition fwd_st :: "fwd_env \<Rightarrow> forward \<Rightarrow> z3_state" where
  "fwd_st env fw = hooked (fp_depth (fe_par env)) env fw {}"

definition with_reads :: "z3_state \<Rightarrow> z3_state \<Rightarrow> int option \<Rightarrow> (mem_loc \<Rightarrow> bvt option res) option \<Rightarrow> z3_state" where
  "with_reads sigma h at rl =
     h\<lparr>zs_pkt := zs_pkt sigma, zs_map := zs_map sigma, zs_bss := zs_bss sigma, zs_r0 := zs_r0 sigma,
       zs_rx_index := zs_rx_index sigma, zs_ingress := zs_ingress sigma, zs_egress := zs_egress sigma,
       zs_pkt_len := zs_pkt_len sigma,
       zs_at_block := (case at of None \<Rightarrow> zs_at_block h | Some b \<Rightarrow> Some b),
       zs_read_loc := (case rl of None \<Rightarrow> zs_read_loc h | Some f \<Rightarrow> Some f)\<rparr>"

text \<open>\<open>_read_loc\<close>, for the block of the state it is installed in.\<close>

definition fwd_read_loc :: "fwd_env \<Rightarrow> forward \<Rightarrow> nat \<Rightarrow> mem_loc \<Rightarrow> bvt option res" where
  "fwd_read_loc env fw b l =
     (let par = fe_par env; z = fp_z par; h = fwd_st env fw; sigma = sigma_at env fw (Some (int b));
          folded = (\<lambda>ac. loc_byte z (fp_same par) (fwd_memory env fw h) ac (int b)) in
      if ml_region l = REGION_PKT then
        (if R_pkt \<in> fe_fold env then folded (pkt_access (ml_off l) None (ml_size l))
         else Inr (Some (Select (zs_pkt sigma) (BitVecVal (ml_off l) (z_dom z (zs_pkt sigma))))))
      else if ml_region l = REGION_MAP then
        (if R_map (ml_map_id l) \<in> fe_fold env
         then folded (map_access (ml_map_id l) (ml_map_key l) (ml_off l) None (ml_size l))
         else
           ebind (map_at sigma (ml_map_id l)) (\<lambda>m.
           ebind (map_key_z3 z h (ml_map_id l) (expr_opt_z3 z h (ml_map_key l))) (\<lambda>k.
           let v = Select (snd m) k; lo = ml_off l * 8 in
           if int (z_size z v) \<le> lo then Inr (Some (BitVecVal 0 8))
           else if lo < 0 then Inl Z3Exception
           else Inr (Some (Extract (min (nat lo + 8) (z_size z v) - 1) (nat lo) v)))))
      else if ml_region l = REGION_BSS then
        (if R_bss (ml_bss_key l) \<in> fe_fold env
         then folded (bss_access (ml_bss_key l) (ml_off l) None (ml_size l))
         else Inr (Some (Select (bss_of sigma (ml_bss_key l)) (BitVecVal (ml_off l) BSS_ADDR_BITS))))
      else Inr None)"

section \<open>Merging the states of the predecessors\<close>

fun join_group :: "('a \<Rightarrow> 'a \<Rightarrow> bool) \<Rightarrow> (lit \<times> 'a) list \<Rightarrow> lit \<times> 'a \<Rightarrow> (lit \<times> 'a) list" where
  "join_group same [] gt = [gt]"
| "join_group same ((og, ot) # gs) gt =
     (if same ot (snd gt) then (or_all [og, fst gt], ot) # gs else (og, ot) # join_group same gs gt)"

definition merge_component ::
  "('a \<Rightarrow> 'a \<Rightarrow> bool) \<Rightarrow> (lit \<Rightarrow> 'a \<Rightarrow> 'a \<Rightarrow> 'a) \<Rightarrow> (lit \<times> 'a) list \<Rightarrow> 'a" where
  "merge_component same ite pairs =
     (let groups = foldl (join_group same) [] pairs in
      foldr (\<lambda>(g, t) out. ite g t out) (butlast groups) (snd (last groups)))"

definition choose_arr :: "lit \<Rightarrow> avt \<Rightarrow> avt \<Rightarrow> avt" where
  "choose_arr g t old = (case g of Py True \<Rightarrow> t | Py False \<Rightarrow> old | Z c \<Rightarrow> ArrIf c t old)"

definition choose_arrb :: "lit \<Rightarrow> abt \<Rightarrow> abt \<Rightarrow> abt" where
  "choose_arrb g t old = (case g of Py True \<Rightarrow> t | Py False \<Rightarrow> old | Z c \<Rightarrow> ArrIfB c t old)"

definition merge_sigma :: "fwd_params \<Rightarrow> (lit \<times> z3_state) list \<Rightarrow> z3_state \<Rightarrow> z3_state" where
  "merge_sigma par contribs init =
     (case contribs of
        [(g, s)] \<Rightarrow> s
      | _ \<Rightarrow>
          let
              keys = remdups (concat (map (\<lambda>(g, s). map fst (zs_bss s)) contribs)) in
          init\<lparr>zs_pkt := merge_component (fp_is_arr par) choose_arr (map (\<lambda>(g, s). (g, zs_pkt s)) contribs),
            zs_map := map (\<lambda>i.
                (merge_component (fp_is_arrb par) choose_arrb (map (\<lambda>(g, s). (g, fst (zs_map s ! i))) contribs),
                 merge_component (fp_is_arr par) choose_arr (map (\<lambda>(g, s). (g, snd (zs_map s ! i))) contribs)))
              [0..<length (zs_map init)],
            zs_bss := map (\<lambda>k. (k, merge_component (fp_is_arr par) choose_arr
                (map (\<lambda>(g, s). (g, bss_of s (Some k))) contribs))) keys,
            zs_pkt_len := merge_component (fp_is_bv par) choose_bv (map (\<lambda>(g, s). (g, zs_pkt_len s)) contribs),
            zs_rx_index := merge_component (fp_is_bv par) choose_bv (map (\<lambda>(g, s). (g, zs_rx_index s)) contribs)\<rparr>)"

section \<open>The walk\<close>

text \<open>The incoming edges of a block with the exit states of their predecessors.\<close>

definition contribs_of :: "fwd_env \<Rightarrow> forward \<Rightarrow> nat \<Rightarrow> (lit \<times> z3_state) list" where
  "contribs_of env fw b =
     concat (map (\<lambda>p.
       case dict_get (fw_info fw) p of
         None \<Rightarrow> []
       | Some pi \<Rightarrow>
           if wi_reach pi = Py False then []
           else
             (let t = and_lit (wi_reach pi) (wi_taken pi); f = and_lit (wi_reach pi) (wi_fall pi) in
              (if b_succ_t (fe_blocks env ! p) = Some b \<and> t \<noteq> Py False then [(t, wi_sigma pi)] else []) @
              (if b_succ_f (fe_blocks env ! p) = Some b \<and> f \<noteq> Py False then [(f, wi_sigma pi)] else [])))
       (sorted_list_of_set (set (b_preds (fe_blocks env ! b)))))"

definition entry_of :: "fwd_env \<Rightarrow> forward \<Rightarrow> nat \<Rightarrow> lit \<times> z3_state" where
  "entry_of env fw b =
     (if b = 0 then (Py True, fe_init env)
      else let cs = contribs_of env fw b in
        (or_all (map fst cs), if cs = [] then fe_init env else merge_sigma (fe_par env) cs (fe_init env)))"

text \<open>
  The reads and actions of a block, ordered by instruction and a read before an action of the same
  instruction: \<open>sort\<close> with the key \<open>(idx, 0 or 1)\<close>.
\<close>

datatype item = Src val | Act action

definition src_idx :: "val \<Rightarrow> int res" where
  "src_idx v =
     (case v of
        Pkt_val blk idx off vo sz \<Rightarrow> Inr idx
      | Map_val blk idx mid mk mki off vo sz \<Rightarrow> Inr idx
      | Bss_val blk idx key off vo sz \<Rightarrow> Inr idx
      | Func_retval sz idx fn blk mid mk mki fb rd \<Rightarrow> Inr idx
      | Scalar sz idx \<Rightarrow> Inr idx
      | Num n sz idx \<Rightarrow> Inr idx
      | ALUbinary op dst src ofs sz idx \<Rightarrow> Inr idx
      | Ptr i vo mk np \<Rightarrow> Inl AttributeError
      | ByteSeq cs sz off \<Rightarrow> Inl AttributeError
      | _ \<Rightarrow> Inr (-1))"

definition block_items :: "tblock \<Rightarrow> item list res" where
  "block_items b =
     ebind (emap (\<lambda>s. ebind (src_idx s) (\<lambda>i. Inr (2 * i, Src s))) (filter (\<lambda>s. \<not> is_join s) (t_sources b))) (\<lambda>srcs.
     Inr (map snd (sort_key fst (srcs @ map (\<lambda>a. (2 * a_idx a + 1, Act a)) (t_actions b)))))"

definition skipped :: "fwd_env \<Rightarrow> region option \<Rightarrow> bool" where
  "skipped env r = (case r of None \<Rightarrow> False | Some r \<Rightarrow> r \<notin> fe_relevant env \<or> r \<in> fe_fold env)"

definition lookup_key :: "action_kind \<Rightarrow> int option option" where
  "lookup_key a = (case a of MapLookup mid mk mki \<Rightarrow> Some mki | _ \<Rightarrow> None)"

definition item_step :: "fwd_env \<Rightarrow> nat \<Rightarrow> lit \<Rightarrow> forward \<times> z3_state \<Rightarrow> item \<Rightarrow> (forward \<times> z3_state) res" where
  "item_step env b r fs it =
     (let (fw, sigma) = fs in
      case it of
        Src s \<Rightarrow>
          if dict_get (fw_memo fw) s \<noteq> None \<or> skipped env (leaf_region s) then Inr (fw, sigma)
          else ebind (expr_to_z3 (fp_z (fe_par env)) (with_reads sigma (fwd_st env fw) (Some (int b)) None) s) (\<lambda>t.
               Inr (fw\<lparr>fw_memo := dict_set s t (fw_memo fw)\<rparr>, sigma))
      | Act a \<Rightarrow>
          let fw = (case lookup_key (a_kind a) of
                      None \<Rightarrow> fw
                    | Some k \<Rightarrow> fw\<lparr>fw_lookup_sigma := dict_set k sigma (fw_lookup_sigma fw)\<rparr>) in
          if skipped env (write_region (a_kind a)) then Inr (fw, sigma)
          else ebind (action_to_z3 (fp_z (fe_par env)) (with_reads sigma (fwd_st env fw) (Some (int b)) None)
                        (a_idx a) (a_kind a)) (\<lambda>s'.
               Inr (fw\<lparr>fw_cur := Some (b, s', r), fw_stores := Suc (fw_stores fw)\<rparr>, s')))"

definition branch_guards_unpruned :: "z3_queries \<Rightarrow> tblock \<Rightarrow> z3_state \<Rightarrow> (lit \<times> lit \<times> bool) res" where
  "branch_guards_unpruned z b st =
     (case t_cond b of
        None \<Rightarrow> (let c = Bool (branch_name (b_num b)) in Inr (Z c, Z (BNot c), True))
      | Some cnd \<Rightarrow> ebind (cond_to_z3 z st cnd) (\<lambda>t.
          let c = lit_term t in Inr (Z c, Z (BNot c), False)))"

definition fwd_guards :: "fwd_env \<Rightarrow> tblock \<Rightarrow> z3_state \<Rightarrow> (lit \<times> lit \<times> bool) res" where
  "fwd_guards env blk st =
     (if b_branch blk
      then (if fe_prune env then branch_guards (fp_z (fe_par env)) (fp_simp (fe_par env)) blk st
            else branch_guards_unpruned (fp_z (fe_par env)) blk st)
      else Inr (Py True, Py True, False))"

definition walk_block :: "fwd_env \<Rightarrow> forward \<Rightarrow> nat \<Rightarrow> forward res" where
  "walk_block env fw0 b =
     (let (r, s0) = entry_of env fw0 b; blk = fe_blocks env ! b in
      ebind (block_items blk) (\<lambda>items.
      ebind (efoldl (item_step env b r) (fw0\<lparr>fw_cur := Some (b, s0, r)\<rparr>, s0) items) (\<lambda>(fw, sigma).
      ebind (fwd_guards env blk (with_reads sigma (fwd_st env fw) (Some (int b)) None)) (\<lambda>(t, f, imp).
      Inr (fw\<lparr>fw_info := dict_set b
             \<lparr>wi_reach = r, wi_taken = t, wi_fall = f, wi_sigma = sigma, wi_imprecise = imp\<rparr> (fw_info fw)\<rparr>)))))"

definition walk :: "fwd_env \<Rightarrow> nat list \<Rightarrow> forward res" where
  "walk env order =
     ebind (efoldl (walk_block env)
       \<lparr>fw_info = [], fw_memo = [], fw_lookup_sigma = [], fw_cur = None, fw_stores = 0\<rparr> order) (\<lambda>fw.
     Inr (fw\<lparr>fw_cur := None\<rparr>))"

text \<open>\<open>ForwardContext\<close>; the arguments that the analysis does not use (\<open>calls\<close>) are left out.\<close>

definition lookup_blocks :: "tblock list \<Rightarrow> (int option \<times> nat) list" where
  "lookup_blocks blocks =
     foldl (\<lambda>d b. foldl (\<lambda>d a. case lookup_key (a_kind a) of None \<Rightarrow> d | Some k \<Rightarrow> dict_set k (b_num b) d) d (t_actions b))
       [] blocks"

definition forward_env ::
  "fwd_params \<Rightarrow> tblock list \<Rightarrow> z3_state \<Rightarrow> nat set \<Rightarrow> nat list \<Rightarrow> cond_node list \<Rightarrow> bool \<Rightarrow> bool \<Rightarrow> fwd_env" where
  "forward_env par blocks init sl order trees prune hybrid =
     (let rel = relevant_regions blocks sl trees in
      \<lparr>fe_par = par, fe_blocks = blocks, fe_init = init, fe_relevant = rel,
       fe_fold = (if hybrid then fold_eligible_regions blocks sl rel else {}),
       fe_anc = ancestors blocks order, fe_lookup = lookup_blocks blocks, fe_prune = prune\<rparr>)"

definition forward_context ::
  "fwd_params \<Rightarrow> tblock list \<Rightarrow> z3_state \<Rightarrow> nat list option \<Rightarrow> cond_node list \<Rightarrow> bool \<Rightarrow> bool \<Rightarrow>
   (fwd_env \<times> forward) res" where
  "forward_context par blocks init targets trees prune hybrid =
     ebind (block_slice blocks (forward_reachable blocks) targets) (\<lambda>sl.
     ebind (topo_order blocks sl) (\<lambda>order.
     let env = forward_env par blocks init sl order trees prune hybrid in
     ebind (walk env order) (\<lambda>fw. Inr (env, fw))))"

section \<open>Queries\<close>

definition state_at :: "fwd_env \<Rightarrow> forward \<Rightarrow> nat \<Rightarrow> z3_state" where
  "state_at env fw b =
     with_reads (info_sigma env fw (Some (int b))) (fwd_st env fw) (Some (int b)) (Some (fwd_read_loc env fw b))"

definition ret_expr :: "tblock \<Rightarrow> val option" where
  "ret_expr b = (if b_exit b then map_option snd (t_regs b ! 0) else None)"

definition ret_state :: "fwd_env \<Rightarrow> forward \<Rightarrow> nat \<Rightarrow> z3_state option res" where
  "ret_state env fw b =
     (case ret_expr (fe_blocks env ! b) of
        None \<Rightarrow> Inr None
      | Some e \<Rightarrow>
          ebind (expr_to_z3 (fp_z (fe_par env)) (state_at env fw b) e) (\<lambda>t.
          Inr (Some ((state_at env fw b)\<lparr>zs_r0 := zero_pad (fp_z (fe_par env)) t 64\<rparr>))))"

text \<open>
  The effects on the way to a block that are recorded but not applied.  The code looks for the name
  of the helper in the list of the longer notes, so it never finds it.
\<close>

definition perf_note :: string where
  "perf_note = ''perf_event_output: recorded but has no state effect''"

definition meta_note :: string where
  "meta_note = ''adjust_meta: recorded, but the metadata area is not modelled''"

fun note_of :: "string list \<Rightarrow> action_kind \<Rightarrow> string list" where
  "note_of notes Perf_event_output = (if ''perf_event_output'' \<notin> set notes then notes @ [perf_note] else notes)"
| "note_of notes (AdjustMeta d r) = (if ''adjust_meta'' \<notin> set notes then notes @ [meta_note] else notes)"
| "note_of notes a = notes"

definition dropped_effects :: "fwd_env \<Rightarrow> forward \<Rightarrow> nat \<Rightarrow> string list" where
  "dropped_effects env fw b =
     (let reached = insert b (case dict_get (fe_anc env) b of None \<Rightarrow> {} | Some s \<Rightarrow> s) in
      foldl (\<lambda>notes c.
          if dict_get (fw_info fw) c = None \<or> fw_reach fw (int c) = Py False then notes
          else foldl note_of notes (map a_kind (t_actions (fe_blocks env ! c))))
        [] (sorted_list_of_set reached))"

end
