(* ===== verification/Forward_Reach.thy ===== *)
theory Forward_Reach
  imports Forward
begin

text \<open>
  Properties of the forward analysis: its conditions are those of the reachability analysis of
  \<open>prune.py\<close>, and the merge of the predecessors' states has, under every assignment, the contents
  of the state of the predecessor that the assignment comes from.
\<close>

section \<open>The conditions\<close>

text \<open>The part of the information about the blocks that \<open>prune.analyze\<close> also computes.\<close>

definition reach_of_info :: "nat \<Rightarrow> fwd_info \<Rightarrow> block_info" where
  "reach_of_info b pi = \<lparr>n_num = b, n_reach = wi_reach pi, n_edge_taken = wi_taken pi, n_edge_fall = wi_fall pi,
     n_in_edges = [], n_imprecise = wi_imprecise pi\<rparr>"

definition reach_info :: "forward \<Rightarrow> (nat \<times> block_info) list" where
  "reach_info fw = map (\<lambda>(b, pi). (b, reach_of_info b pi)) (fw_info fw)"

definition same_reach :: "forward \<Rightarrow> (nat \<times> block_info) list \<Rightarrow> bool" where
  "same_reach fw info \<longleftrightarrow>
     (\<forall>b. map_option (\<lambda>i. i\<lparr>n_num := b, n_in_edges := []\<rparr>) (dict_get info b) =
          map_option (reach_of_info b) (dict_get (fw_info fw) b))"

lemma dict_get_map: "dict_get (map (\<lambda>(k, v). (k, f k v)) d) k = map_option (f k) (dict_get d k)"
  by (induction d) auto

lemma dict_get_reach_info: "dict_get (reach_info fw) b = map_option (reach_of_info b) (dict_get (fw_info fw) b)"
  by (simp add: reach_info_def dict_get_map)

lemma same_reach_get:
  assumes "same_reach fw info"
  shows "(dict_get info b = None) = (dict_get (fw_info fw) b = None)"
    and "dict_get info b = Some i \<Longrightarrow> dict_get (fw_info fw) b = Some pi \<Longrightarrow>
      n_reach i = wi_reach pi \<and> n_edge_taken i = wi_taken pi \<and> n_edge_fall i = wi_fall pi"
proof -
  have e: "map_option (\<lambda>i. i\<lparr>n_num := b, n_in_edges := []\<rparr>) (dict_get info b) =
          map_option (reach_of_info b) (dict_get (fw_info fw) b)" using assms by (simp add: same_reach_def)
  then show "(dict_get info b = None) = (dict_get (fw_info fw) b = None)"
    by (cases "dict_get info b"; cases "dict_get (fw_info fw) b") simp_all
  assume "dict_get info b = Some i" "dict_get (fw_info fw) b = Some pi"
  with e have "i\<lparr>n_num := b, n_in_edges := []\<rparr> = reach_of_info b pi" by simp
  then have "n_reach (i\<lparr>n_num := b, n_in_edges := []\<rparr>) = n_reach (reach_of_info b pi)"
    "n_edge_taken (i\<lparr>n_num := b, n_in_edges := []\<rparr>) = n_edge_taken (reach_of_info b pi)"
    "n_edge_fall (i\<lparr>n_num := b, n_in_edges := []\<rparr>) = n_edge_fall (reach_of_info b pi)" by simp_all
  then show "n_reach i = wi_reach pi \<and> n_edge_taken i = wi_taken pi \<and> n_edge_fall i = wi_fall pi"
    by (simp add: reach_of_info_def)
qed

lemma same_reach_info:
  assumes "same_reach fw info"
  shows "taken_edges evb blocks info m = taken_edges evb blocks (reach_info fw) m"
    and "block_reached evb info m b = block_reached evb (reach_info fw) m b"
proof -
  have g: "(\<exists>i. dict_get info b = Some i \<and> P (n_reach i) (n_edge_taken i) (n_edge_fall i)) \<longleftrightarrow>
      (\<exists>i. dict_get (reach_info fw) b = Some i \<and> P (n_reach i) (n_edge_taken i) (n_edge_fall i))" for b P
    using same_reach_get [OF assms, of b]
    by (cases "dict_get info b"; cases "dict_get (fw_info fw) b") (simp_all add: dict_get_reach_info reach_of_info_def)
  show "taken_edges evb blocks info m = taken_edges evb blocks (reach_info fw) m"
    unfolding taken_edges_def
    using g [of _ "\<lambda>r t f. b_succ_t (blocks ! p) = Some q \<and> lit_holds evb m t \<or> b_succ_f (blocks ! p) = Some q \<and> lit_holds evb m f" for p q]
    by blast
  show "block_reached evb info m b = block_reached evb (reach_info fw) m b"
    unfolding block_reached_def using g [of b "\<lambda>r t f. lit_holds evb m r"] by blast
qed

lemma contribs_in_edges:
  assumes "same_reach fw info"
  shows "map (\<lambda>(p, k, g). g) (in_edges_of (fe_blocks env) info b) = map fst (contribs_of env fw b)"
proof -
  have lem: "map (\<lambda>(p, k, g). g) (concat (map f ps)) = map fst (concat (map h ps))"
    if "\<And>p. map (\<lambda>(p, k, g). g) (f p) = map fst (h p)"
    for f :: "nat \<Rightarrow> (nat \<times> edge \<times> lit) list" and h :: "nat \<Rightarrow> (lit \<times> z3_state) list" and ps
    using that by (induction ps) simp_all
  show ?thesis
    unfolding in_edges_of_def contribs_of_def
  proof (rule lem, goal_cases)
    case (1 p)
    show ?case
      using same_reach_get [OF assms, of p]
      by (cases "dict_get info p"; cases "dict_get (fw_info fw) p") (simp_all add: Let_def)
  qed
qed

lemma efoldl_cong:
  "(\<And>s x. x \<in> set xs \<Longrightarrow> f s x = g s x) \<Longrightarrow> efoldl f s xs = efoldl g s xs"
  by (induction xs arbitrary: s) (auto simp: ebind_def split: sum.split)

text \<open>What a step of the walk does.\<close>

lemma item_step_keeps:
  assumes "item_step env b r (fw, sigma) it = Inr (fw', sigma')"
  shows "fw_info fw' = fw_info fw"
  using assms by (cases it) (auto simp: item_step_def Let_def ebind_eq_Inr split: if_splits option.splits)

lemma items_keep:
  assumes "efoldl (item_step env b r) (fw, sigma) its = Inr (fw', sigma')"
  shows "fw_info fw' = fw_info fw"
  using assms
proof (induction its arbitrary: fw sigma)
  case (Cons it its)
  from Cons.prems obtain p where "item_step env b r (fw, sigma) it = Inr p" "efoldl (item_step env b r) p its = Inr (fw', sigma')"
    by (auto simp: ebind_eq_Inr)
  then show ?case using Cons.IH item_step_keeps by (cases p) auto
qed simp

lemma walk_blockE:
  assumes "walk_block env fw0 b = Inr fw"
  obtains items fw1 sigma t f imp where
    "block_items (fe_blocks env ! b) = Inr items"
    and "efoldl (item_step env b (fst (entry_of env fw0 b)))
           (fw0\<lparr>fw_cur := Some (b, snd (entry_of env fw0 b), fst (entry_of env fw0 b))\<rparr>, snd (entry_of env fw0 b)) items = Inr (fw1, sigma)"
    and "fwd_guards env (fe_blocks env ! b) (with_reads sigma (fwd_st env fw1) (Some (int b)) None) = Inr (t, f, imp)"
    and "fw_info fw = dict_set b \<lparr>wi_reach = fst (entry_of env fw0 b), wi_taken = t, wi_fall = f, wi_sigma = sigma,
           wi_imprecise = imp\<rparr> (fw_info fw0)"
proof -
  obtain r s0 where e: "entry_of env fw0 b = (r, s0)" by fastforce
  from assms e obtain items fw1 sigma t f imp where p:
    "block_items (fe_blocks env ! b) = Inr items"
    "efoldl (item_step env b r) (fw0\<lparr>fw_cur := Some (b, s0, r)\<rparr>, s0) items = Inr (fw1, sigma)"
    "fwd_guards env (fe_blocks env ! b) (with_reads sigma (fwd_st env fw1) (Some (int b)) None) = Inr (t, f, imp)"
    "fw = fw1\<lparr>fw_info := dict_set b
             \<lparr>wi_reach = r, wi_taken = t, wi_fall = f, wi_sigma = sigma, wi_imprecise = imp\<rparr> (fw_info fw1)\<rparr>"
    by (auto simp: walk_block_def Let_def ebind_eq_Inr)
  moreover have "fw_info fw1 = fw_info fw0" using items_keep [OF p(2)] by simp
  ultimately show thesis using that [of items fw1 sigma t f imp] e by simp
qed

text \<open>The state of the world at which \<open>walk_block\<close> has evaluated the branch of a block.\<close>

definition walk_states :: "fwd_env \<Rightarrow> forward \<Rightarrow> ((nat \<times> block_info) list \<Rightarrow> nat \<Rightarrow> z3_state res) \<Rightarrow> bool" where
  "walk_states env fw sa \<longleftrightarrow>
     (\<forall>info b pi. dict_get (fw_info fw) b = Some pi \<longrightarrow>
        (\<exists>fw'. sa info b = Inr (with_reads (wi_sigma pi) (fwd_st env fw') (Some (int b)) None)))"

lemma walk_analyze:
  assumes prune: "fe_prune env"
  defines "z \<equiv> fp_z (fe_par env)" and "simp \<equiv> fp_simp (fe_par env)"
  shows "distinct ys \<Longrightarrow> efoldl (walk_block env) fw0 ys = Inr fw \<Longrightarrow> fw_info fw0 = [] \<Longrightarrow>
    \<exists>sa info. efoldl (analyze_block z simp (fe_blocks env) sa) [] ys = Inr info \<and> same_reach fw info \<and> walk_states env fw sa"
proof (induction ys arbitrary: fw rule: rev_induct)
  case Nil
  then show ?case by (auto simp: same_reach_def walk_states_def)
next
  case (snoc b ys)
  from snoc.prems obtain fw1 where pre: "efoldl (walk_block env) fw0 ys = Inr fw1" and step: "walk_block env fw1 b = Inr fw"
    by (auto simp: efoldl_append ebind_eq_Inr)
  from snoc pre obtain sa info1 where run: "efoldl (analyze_block z simp (fe_blocks env) sa) [] ys = Inr info1"
    and same: "same_reach fw1 info1" and states: "walk_states env fw1 sa" by auto
  obtain items fw2 sigma t f imp where w:
    "fwd_guards env (fe_blocks env ! b) (with_reads sigma (fwd_st env fw2) (Some (int b)) None) = Inr (t, f, imp)"
    "fw_info fw = dict_set b \<lparr>wi_reach = fst (entry_of env fw1 b), wi_taken = t, wi_fall = f, wi_sigma = sigma,
           wi_imprecise = imp\<rparr> (fw_info fw1)"
    using walk_blockE [OF step] by metis
  define sa' where "sa' i c = (if c = b then Inr (with_reads sigma (fwd_st env fw2) (Some (int b)) None) else sa i c)"
    for i :: "(nat \<times> block_info) list" and c
  have "b \<notin> set ys" using snoc.prems by simp
  then have "efoldl (analyze_block z simp (fe_blocks env) sa') [] ys = efoldl (analyze_block z simp (fe_blocks env) sa) [] ys"
    by (intro efoldl_cong) (auto simp: analyze_block_def sa'_def)
  moreover define reach where "reach = (if b = 0 then Py True else or_all (map (\<lambda>(p, k, g). g) (in_edges_of (fe_blocks env) info1 b)))"
  have r: "reach = fst (entry_of env fw1 b)"
    by (simp add: reach_def entry_of_def Let_def contribs_in_edges [OF same])
  have g: "(if b_kind (fe_blocks env ! b) = KBranch
             then ebind (sa' info1 b) (branch_guards z simp (fe_blocks env ! b))
             else Inr (Py True, Py True, False)) = Inr (t, f, imp)"
    using w(1) prune by (auto simp: fwd_guards_def sa'_def z_def simp_def b_kind_def split: if_splits)
  have "\<exists>i. analyze_block z simp (fe_blocks env) sa' info1 b = Inr (dict_set b i info1) \<and>
      i\<lparr>n_num := b, n_in_edges := []\<rparr> = reach_of_info b \<lparr>wi_reach = reach, wi_taken = t, wi_fall = f, wi_sigma = sigma, wi_imprecise = imp\<rparr>"
    using g by (auto simp: analyze_block_def Let_def reach_of_info_def reach_def)
  then obtain i where i: "analyze_block z simp (fe_blocks env) sa' info1 b = Inr (dict_set b i info1)"
    "i\<lparr>n_num := b, n_in_edges := []\<rparr> = reach_of_info b \<lparr>wi_reach = reach, wi_taken = t, wi_fall = f, wi_sigma = sigma, wi_imprecise = imp\<rparr>"
    by blast
  moreover have "same_reach fw (dict_set b i info1)"
    using same i(2) by (simp add: same_reach_def w(2) r)
  moreover have "walk_states env fw sa'"
    using states by (auto simp: walk_states_def sa'_def w(2))
  ultimately have "efoldl (analyze_block z simp (fe_blocks env) sa') [] (ys @ [b]) = Inr (dict_set b i info1)"
    "same_reach fw (dict_set b i info1)" "walk_states env fw sa'" using run by (simp_all add: efoldl_append)
  then show ?case by blast
qed

lemma block_slice_live: "block_slice blocks (forward_reachable blocks) targets = live_set blocks targets"
  by (simp add: block_slice_def live_set_def Let_def)

definition fresh_forward :: forward where
  "fresh_forward = \<lparr>fw_info = [], fw_memo = [], fw_lookup_sigma = [], fw_cur = None, fw_stores = 0\<rparr>"

lemma forward_parts:
  assumes "wf_graph blocks" and "blocks \<noteq> []"
    and "forward_context par blocks init targets trees prune hybrid = Inr (env, fw)"
  obtains live order fw1 where "live \<subseteq> {..<length blocks}" and "0 \<in> live" and "blocks.topological blocks live order"
    and "live_set blocks targets = Inr live" and "topo_order blocks live = Inr order"
    and "env = forward_env par blocks init live order trees prune hybrid"
    and "efoldl (walk_block env) fresh_forward order = Inr fw1" and "fw = fw1\<lparr>fw_cur := None\<rparr>"
    and "targets = None \<Longrightarrow> live = (flow_of blocks)\<^sup>* `` {0}"
proof -
  obtain live where live: "live_set blocks targets = Inr live" "live \<subseteq> {..<length blocks}" "0 \<in> live"
    "live \<subseteq> (flow_within blocks live)\<^sup>* `` {0}" "targets = None \<Longrightarrow> live = (flow_of blocks)\<^sup>* `` {0}"
    using live_set_ok [OF assms(1,2)] by blast
  obtain order fw1 where o: "topo_order blocks live = Inr order"
    "env = forward_env par blocks init live order trees prune hybrid"
    "efoldl (walk_block env) fresh_forward order = Inr fw1" "fw = fw1\<lparr>fw_cur := None\<rparr>"
    using assms(3) live(1)
    by (auto simp: forward_context_def block_slice_live walk_def Let_def ebind_eq_Inr fresh_forward_def)
  have "blocks.topological blocks live order"
    using topo_order_ok [OF live(2-4)] o(1) by (simp split: if_splits)
  with that live o show thesis by blast
qed

lemma env_simps [simp]:
  "fe_par (forward_env par blocks init live order trees prune hybrid) = par"
  "fe_blocks (forward_env par blocks init live order trees prune hybrid) = blocks"
  "fe_init (forward_env par blocks init live order trees prune hybrid) = init"
  "fe_prune (forward_env par blocks init live order trees prune hybrid) = prune"
  by (simp_all add: forward_env_def Let_def)

lemma forward_analyze:
  assumes "wf_graph blocks" and "blocks \<noteq> []"
    and "forward_context par blocks init targets trees True hybrid = Inr (env, fw)"
  shows "\<exists>sa info. analyze (fp_z par) (fp_simp par) blocks sa targets [] = Inr info \<and> same_reach fw info \<and> walk_states env fw sa"
proof -
  obtain live order fw1 where p: "blocks.topological blocks live order"
    "live_set blocks targets = Inr live" "topo_order blocks live = Inr order"
    "env = forward_env par blocks init live order trees True hybrid"
    "efoldl (walk_block env) fresh_forward order = Inr fw1" "fw = fw1\<lparr>fw_cur := None\<rparr>"
    by (rule forward_parts [OF assms])
  have "distinct order" using p(1) by (simp add: blocks.topological_def)
  then obtain sa info where "efoldl (analyze_block (fp_z par) (fp_simp par) blocks sa) [] order = Inr info" "same_reach fw1 info"
      "walk_states env fw1 sa"
    using walk_analyze [of env order fresh_forward fw1] p(4,5) by (auto simp: fresh_forward_def)
  moreover have "same_reach fw info" if "same_reach fw1 info" for info using that by (simp add: same_reach_def p(6))
  moreover have "walk_states env fw sa" if "walk_states env fw1 sa" for sa using that by (simp add: walk_states_def p(6))
  ultimately have "analyze (fp_z par) (fp_simp par) blocks sa targets [] = Inr info \<and> same_reach fw info \<and> walk_states env fw sa"
    using p(2,3) by (simp add: analyze_def)
  then show ?thesis by blast
qed

lemma forward_conditions:
  assumes "smtlib (fp_z par) ev evb eva evab" and "wf_graph blocks" and "blocks \<noteq> []"
    and "forward_context par blocks init targets trees True hybrid = Inr (env, fw)"
    and "dict_get (fw_info fw) b = Some pi"
  shows "(lit_holds evb m (wi_reach pi) \<longleftrightarrow> (0, b) \<in> (taken_edges evb blocks (reach_info fw) m)\<^sup>*) \<and>
    (targets = None \<longrightarrow> list_all kind_successors blocks \<longrightarrow>
       (\<exists>!e. e < length blocks \<and> b_kind (blocks ! e) = KExit \<and> block_reached evb (reach_info fw) m e))"
proof -
  obtain sa info where a: "analyze (fp_z par) (fp_simp par) blocks sa targets [] = Inr info" "same_reach fw info"
    using forward_analyze [OF assms(2,3,4)] by blast
  obtain i where i: "dict_get info b = Some i" "n_reach i = wi_reach pi"
    using same_reach_get [OF a(2), of b] assms(5) by (cases "dict_get info b") auto
  note e = reach_conditions [OF assms(1-3) a(1) i(1), of m]
  moreover have "targets = None \<longrightarrow> list_all kind_successors blocks \<longrightarrow>
       (\<exists>!e. e < length blocks \<and> b_kind (blocks ! e) = KExit \<and> block_reached evb (reach_info fw) m e)"
  proof (intro impI)
    assume "targets = None" and k: "list_all kind_successors blocks"
    with a(1) have run: "analyze (fp_z par) (fp_simp par) blocks sa None [] = Inr info" by simp
    from one_exit_reached [OF assms(1-3) run, of m] k
    show "\<exists>!e. e < length blocks \<and> b_kind (blocks ! e) = KExit \<and> block_reached evb (reach_info fw) m e"
      by (simp add: list_all_iff same_reach_info(2) [OF a(2)])
  qed
  ultimately show ?thesis using i(2) same_reach_info(1) [OF a(2), of evb blocks m] by simp
qed

section \<open>The merge\<close>

text \<open>What a group of equal terms contributes.\<close>

context smtlib begin

lemma join_group_holds:
  assumes same: "\<And>t u. same t u \<Longrightarrow> t = u"
  shows "(\<exists>g. (g, t) \<in> set (join_group same gs (h, u)) \<and> evl m g) \<longleftrightarrow> (\<exists>g. (g, t) \<in> set gs \<and> evl m g) \<or> (t = u \<and> evl m h)"
proof (induction gs)
  case (Cons x gs)
  obtain og ot where x: "x = (og, ot)" by fastforce
  show ?case
  proof (cases "same ot u")
    case True
    then have "ot = u" by (rule same)
    with True show ?thesis by (auto simp: x evl_or_all)
  next
    case False
    then show ?thesis using Cons by (auto simp: x)
  qed
qed auto

lemma groups_hold:
  assumes same: "\<And>t u. same t u \<Longrightarrow> t = u"
  shows "(\<exists>g. (g, t) \<in> set (foldl (join_group same) gs pairs) \<and> evl m g) \<longleftrightarrow>
    (\<exists>g. (g, t) \<in> set gs \<and> evl m g) \<or> (\<exists>g. (g, t) \<in> set pairs \<and> evl m g)"
proof (induction pairs arbitrary: gs)
  case (Cons x pairs)
  obtain h u where x: "x = (h, u)" by fastforce
  show ?case using Cons.IH [of "join_group same gs x"] join_group_holds [where same = same, OF same]
    unfolding foldl.simps x by auto
qed simp

end

lemma join_group_set: "join_group same gs gt \<noteq> [] \<and> snd ` set (join_group same gs gt) \<subseteq> insert (snd gt) (snd ` set gs)"
  by (induction gs) (simp, force split: if_splits)

lemma groups_set:
  "snd ` set (foldl (join_group same) gs pairs) \<subseteq> snd ` set gs \<union> snd ` set pairs \<and>
   (gs \<noteq> [] \<or> pairs \<noteq> [] \<longrightarrow> foldl (join_group same) gs pairs \<noteq> [])"
proof (induction pairs arbitrary: gs)
  case (Cons x pairs)
  have "snd ` set (join_group same gs x) \<union> snd ` set pairs \<subseteq> snd ` set gs \<union> snd ` set (x # pairs)"
    using join_group_set [of same gs x] by auto
  with Cons.IH [of "join_group same gs x"] join_group_set [of same gs x] show ?case
    unfolding foldl.simps by (meson order_trans)
qed simp

context smtlib begin

lemma merge_component_selects:
  fixes wt :: "'a \<Rightarrow> 'b" and ok :: "'a \<Rightarrow> bool" and m :: 'm
  assumes ite: "\<And>g t u. ok t \<Longrightarrow> ok u \<Longrightarrow> ok (ite g t u) \<and> wt (ite g t u) = (if evl m g then wt t else wt u)"
    and same: "\<And>t u. same t u \<Longrightarrow> t = u"
    and ok: "\<forall>(g, t) \<in> set pairs. ok t" and ne: "pairs \<noteq> []"
  shows "ok (merge_component same ite pairs)"
    and "(h, u) \<in> set pairs \<Longrightarrow> evl m h \<Longrightarrow> (\<forall>(g, t) \<in> set pairs. evl m g \<longrightarrow> wt t = wt u) \<Longrightarrow>
      wt (merge_component same ite pairs) = wt u"
proof -
  define groups where "groups = foldl (join_group same) [] pairs"
  have g: "groups \<noteq> []" "\<forall>(g, t) \<in> set groups. ok t"
    using groups_set [of same "[]" pairs] ok ne unfolding groups_def by (simp, force)
  then obtain gs l where gs: "groups = gs @ [l]" by (metis rev_exhaust)
  have fold: "ok (foldr (\<lambda>(g, t) out. ite g t out) xs d) \<and>
      ((\<forall>(g, t) \<in> set xs. evl m g \<longrightarrow> wt t = v) \<and> ((\<exists>(g, t) \<in> set xs. evl m g) \<or> wt d = v) \<longrightarrow>
       wt (foldr (\<lambda>(g, t) out. ite g t out) xs d) = v)"
    if "\<forall>(g, t) \<in> set xs. ok t" "ok d" for xs d v
    using that(1) by (induction xs) (use that(2) ite in auto)
  have okd: "ok (snd l)" "\<forall>(g, t) \<in> set gs. ok t" using g gs by auto
  have mc: "merge_component same ite pairs = foldr (\<lambda>(g, t) out. ite g t out) gs (snd l)"
    by (simp add: merge_component_def groups_def [symmetric] gs)
  show "ok (merge_component same ite pairs)" unfolding mc using fold [OF okd(2,1)] by blast
  assume hu: "(h, u) \<in> set pairs" "evl m h" "\<forall>(g, t) \<in> set pairs. evl m g \<longrightarrow> wt t = wt u"
  have iff: "(\<exists>g. (g, t) \<in> set groups \<and> evl m g) \<longleftrightarrow> (\<exists>g. (g, t) \<in> set pairs \<and> evl m g)" for t
    using groups_hold [where same = same, OF same, of t "[]" pairs m] by (simp add: groups_def)
  have all: "wt t = wt u" if "(g, t) \<in> set groups" "evl m g" for g t 
  proof -
    have "\<exists>g. (g, t) \<in> set pairs \<and> evl m g" unfolding iff [symmetric] using that by (intro exI conjI)
    then obtain g where "(g, t) \<in> set pairs" "evl m g" by (elim exE conjE)
    with hu(3) show ?thesis by (auto dest: bspec)
  qed
  have "\<exists>g. (g, u) \<in> set groups \<and> evl m g" unfolding iff using hu(1,2) by (intro exI conjI)
  then obtain g where gu: "(g, u) \<in> set groups" "evl m g" by (elim exE conjE)
  have "(\<exists>(g, t) \<in> set gs. evl m g) \<or> wt (snd l) = wt u"
  proof (cases "(g, u) \<in> set gs")
    case True
    with gu(2) show ?thesis by (intro disjI1 bexI [of _ "(g, u)"]) simp_all
  next
    case False
    with gu(1) have "l = (g, u)" by (simp add: gs)
    then show ?thesis by simp
  qed
  moreover have "\<forall>(g, t) \<in> set gs. evl m g \<longrightarrow> wt t = wt u"
  proof (rule ballI, simp only: case_prod_unfold, rule impI)
    fix x assume "x \<in> set gs" "evl m (fst x)"
    then show "wt (snd x) = wt u" by (intro all [of "fst x" "snd x"]) (simp_all add: gs)
  qed
  ultimately show "wt (merge_component same ite pairs) = wt u" unfolding mc by (intro mp [OF conjunct2 [OF fold [OF okd(2,1)]]] conjI)
qed

end

section \<open>The sorts of the world\<close>

text \<open>The actions keep the sorts of the arrays and the width of the packet length.\<close>

definition same_sorts :: "z3_queries \<Rightarrow> z3_state \<Rightarrow> z3_state \<Rightarrow> bool" where
  "same_sorts z s s0 \<longleftrightarrow>
     z_rng z (zs_pkt s) = z_rng z (zs_pkt s0) \<and> z_size z (zs_pkt_len s) = z_size z (zs_pkt_len s0) \<and>
     length (zs_map s) = length (zs_map s0) \<and>
     (\<forall>i < length (zs_map s0). z_rng z (snd (zs_map s ! i)) = z_rng z (snd (zs_map s0 ! i))) \<and>
     (\<forall>k. z_rng z (bss_of s k) = z_rng z (bss_of s0 k))"

lemma same_sorts_refl [simp]: "same_sorts z s s"
  by (simp add: same_sorts_def)

lemma same_sorts_trans: "same_sorts z s t \<Longrightarrow> same_sorts z t u \<Longrightarrow> same_sorts z s u"
  by (simp add: same_sorts_def)

lemma same_sorts_reads [simp]: "same_sorts z (with_reads s h at rl) s0 = same_sorts z s s0"
  "same_sorts z s (with_reads s0 h at rl) = same_sorts z s s0"
  by (simp_all add: same_sorts_def with_reads_def bss_of_def)

context smtlib begin

lemma rng_store_bytes: "z_rng z (store_bytes arr base aw v n) = z_rng z arr"
proof -
  have "z_rng z (foldl (\<lambda>arr i. Store arr (b i) (e i)) arr xs) = z_rng z arr" for b e xs
    by (induction xs arbitrary: arr) (simp_all add: rng_Store)
  then show ?thesis by (simp add: store_bytes_def)
qed

lemma upd_map_sorts:
  assumes "upd_map st mid f = Inr st'" and "\<And>p. z_rng z (snd (f p)) = z_rng z (snd p)"
  shows "same_sorts z st' st"
proof -
  from assms(1) obtain i where i: "i < length (zs_map st)" "st' = st\<lparr>zs_map := (zs_map st)[i := f (zs_map st ! i)]\<rparr>"
    by (auto simp: upd_map_def split: option.splits dest: py_index_less)
  have "z_rng z (snd ((zs_map st)[i := f (zs_map st ! i)] ! j)) = z_rng z (snd (zs_map st ! j))" if "j < length (zs_map st)" for j
    using that assms(2) [of "zs_map st ! i"] by (cases "i = j") simp_all
  with i show ?thesis by (simp add: same_sorts_def bss_of_def)
qed

lemma bss_of_set:
  "bss_of (st\<lparr>zs_bss := dict_set key arr (zs_bss st)\<rparr>) k = (if k = Some key then arr else bss_of st k)"
  by (cases k) (simp_all add: bss_of_def)

lemma bss_write_sorts:
  assumes "bss_write_z3 z st key off sz v var = Inr st'"
  shows "same_sorts z st' st"
  using assms
  by (auto simp: bss_write_z3_def ebind_eq_Inr same_sorts_def Let_def bss_of_set rng_store_bytes)

lemma map_store_sorts: "map_store st mid key v b = Inr st' \<Longrightarrow> same_sorts z st' st"
  unfolding map_store_def by (erule upd_map_sorts) (simp add: case_prod_unfold rng_Store)

lemma action_sorts:
  assumes "action_to_z3 z st idx a = Inr st'"
  shows "same_sorts z st' st"
proof (cases a)
  case (MapWrite mid mk off sz v var)
  with assms show ?thesis
    by (auto simp: map_write_z3_def ebind_eq_Inr Let_def split: if_splits intro: map_store_sorts)
next
  case (MapAtomicAdd mid mk off sz v var old)
  with assms show ?thesis
    by (auto simp: map_atomic_add_z3_def ebind_eq_Inr Let_def split: if_splits intro: map_store_sorts)
next
  case (MapUpdate mid mk v fl sz)
  have "same_sorts z st' st" if "map_update_z3 z st idx mid mk v fl = Inr st'"
  proof -
    from that obtain key v' p app where "(case app of Py False \<Rightarrow> Inr st
        | Py True \<Rightarrow> map_store st mid key v' True
        | Z ok \<Rightarrow>
            upd_map st mid (\<lambda>(pres, vals).
              (if is_hash_map st mid then StoreB pres key (BOr [ok, p]) else pres,
               Store vals key (BvIf ok v' (Select vals key))))) = Inr st'"
      unfolding map_update_z3_def ebind_eq_Inr Let_def by blast
    then show ?thesis
      by (cases app) (auto split: bool.splits simp: case_prod_unfold rng_Store intro: map_store_sorts upd_map_sorts)
  qed
  with assms MapUpdate show ?thesis by (auto split: if_splits)
next
  case (MapDelete mid mk)
  with assms show ?thesis
    by (auto simp: ebind_eq_Inr case_prod_unfold split: if_splits intro: upd_map_sorts)
next
  case (BssWrite key off sz v var)
  with assms show ?thesis by (auto split: option.splits intro: bss_write_sorts)
next
  case (BssAtomicAdd key off sz v var old)
  with assms show ?thesis by (auto split: option.splits intro: bss_write_sorts)
qed (use assms in \<open>auto simp: same_sorts_def bss_of_def ebind_eq_Inr Let_def rng_store_bytes adjust_len_z3_def size_simps\<close>)

end

section \<open>The merged state\<close>

text \<open>Two states with the same contents under an assignment.\<close>

definition same_world ::
  "('m \<Rightarrow> bvt \<Rightarrow> int) \<Rightarrow> ('m \<Rightarrow> avt \<Rightarrow> int \<Rightarrow> int) \<Rightarrow> ('m \<Rightarrow> abt \<Rightarrow> int \<Rightarrow> bool) \<Rightarrow> 'm \<Rightarrow> z3_state \<Rightarrow> z3_state \<Rightarrow> bool" where
  "same_world ev eva evab m s s' \<longleftrightarrow>
     eva m (zs_pkt s) = eva m (zs_pkt s') \<and> length (zs_map s) = length (zs_map s') \<and>
     (\<forall>i < length (zs_map s'). evab m (fst (zs_map s ! i)) = evab m (fst (zs_map s' ! i)) \<and>
        eva m (snd (zs_map s ! i)) = eva m (snd (zs_map s' ! i))) \<and>
     (\<forall>k. eva m (bss_of s k) = eva m (bss_of s' k)) \<and>
     ev m (zs_pkt_len s) = ev m (zs_pkt_len s') \<and> ev m (zs_rx_index s) = ev m (zs_rx_index s')"

definition identity_tests :: "fwd_params \<Rightarrow> bool" where
  "identity_tests par \<longleftrightarrow> (\<forall>t u. fp_is_arr par t u \<longrightarrow> t = u) \<and> (\<forall>t u. fp_is_arrb par t u \<longrightarrow> t = u) \<and>
     (\<forall>t u. fp_is_bv par t u \<longrightarrow> t = u)"

definition component :: "(z3_state \<Rightarrow> 'a) \<Rightarrow> (lit \<times> z3_state) list \<Rightarrow> (lit \<times> 'a) list" where
  "component f contribs = map (\<lambda>(g, s). (g, f s)) contribs"

lemma component_props:
  shows "(\<forall>(g, t) \<in> set (component f cs). P t) = (\<forall>(g, s) \<in> set cs. P (f s))"
    and "(component f cs = []) = (cs = [])"
    and "(h, u) \<in> set cs \<Longrightarrow> (h, f u) \<in> set (component f cs)"
    and "\<forall>(g, s) \<in> set cs. Q g \<longrightarrow> s = u \<Longrightarrow> \<forall>(g, t) \<in> set (component f cs). Q g \<longrightarrow> wt t = wt (f u)"
  by (force simp: component_def)+

lemma merge_sigma_parts:
  assumes "\<And>p. contribs \<noteq> [p]"
  shows "zs_pkt (merge_sigma par contribs init) = merge_component (fp_is_arr par) choose_arr (component zs_pkt contribs)"
    and "zs_map (merge_sigma par contribs init) = map (\<lambda>i.
       (merge_component (fp_is_arrb par) choose_arrb (component (\<lambda>s. fst (zs_map s ! i)) contribs),
        merge_component (fp_is_arr par) choose_arr (component (\<lambda>s. snd (zs_map s ! i)) contribs))) [0..<length (zs_map init)]"
    and "zs_pkt_len (merge_sigma par contribs init) = merge_component (fp_is_bv par) choose_bv (component zs_pkt_len contribs)"
    and "zs_rx_index (merge_sigma par contribs init) = merge_component (fp_is_bv par) choose_bv (component zs_rx_index contribs)"
    and "bss_of (merge_sigma par contribs init) k =
       (if \<exists>s \<in> snd ` set contribs. Option.bind k (dict_get (zs_bss s)) \<noteq> None
        then merge_component (fp_is_arr par) choose_arr (component (\<lambda>s. bss_of s k) contribs)
        else K BSS_ADDR_BITS (BitVecVal 0 8))"
proof -
  have ms: "merge_sigma par contribs init =
      init\<lparr>zs_pkt := merge_component (fp_is_arr par) choose_arr (component zs_pkt contribs),
            zs_map := map (\<lambda>i.
                (merge_component (fp_is_arrb par) choose_arrb (component (\<lambda>s. fst (zs_map s ! i)) contribs),
                 merge_component (fp_is_arr par) choose_arr (component (\<lambda>s. snd (zs_map s ! i)) contribs)))
              [0..<length (zs_map init)],
            zs_bss := map (\<lambda>k. (k, merge_component (fp_is_arr par) choose_arr
                (component (\<lambda>s. bss_of s (Some k)) contribs))) (remdups (concat (map (\<lambda>(g, s). map fst (zs_bss s)) contribs))),
            zs_pkt_len := merge_component (fp_is_bv par) choose_bv (component zs_pkt_len contribs),
            zs_rx_index := merge_component (fp_is_bv par) choose_bv (component zs_rx_index contribs)\<rparr>"
    using assms by (auto simp: merge_sigma_def component_def split: list.split)
  have get: "dict_get (map (\<lambda>k. (k, f k)) ks) k = (if k \<in> set ks then Some (f k) else None)" for f :: "string \<Rightarrow> avt" and ks k
    by (induction ks) auto
  show "bss_of (merge_sigma par contribs init) k =
       (if \<exists>s \<in> snd ` set contribs. Option.bind k (dict_get (zs_bss s)) \<noteq> None
        then merge_component (fp_is_arr par) choose_arr (component (\<lambda>s. bss_of s k) contribs)
        else K BSS_ADDR_BITS (BitVecVal 0 8))"
  proof (cases k)
    case (Some y)
    have "y \<in> set (concat (map (\<lambda>(g, s). map fst (zs_bss s)) contribs)) \<longleftrightarrow> (\<exists>s \<in> snd ` set contribs. dict_get (zs_bss s) y \<noteq> None)"
      by (force simp: map_of_eq_None_iff)
    then show ?thesis by (simp add: ms bss_of_def Some get)
  qed (simp add: bss_of_def)
qed (use assms in \<open>auto simp: merge_sigma_def component_def split: list.split\<close>)

context smtlib begin

lemma merge_arr:
  fixes m :: 'm
  assumes "\<And>t u. same t u \<Longrightarrow> t = u" and "\<forall>(g, s) \<in> set cs. z_rng z (f s) = w" and "cs \<noteq> []"
  shows "z_rng z (merge_component same choose_arr (component f cs)) = w"
    and "(h, u) \<in> set cs \<Longrightarrow> evl m h \<Longrightarrow> (\<forall>(g, s) \<in> set cs. evl m g \<longrightarrow> s = u) \<Longrightarrow>
      eva m (merge_component same choose_arr (component f cs)) = eva m (f u)"
proof -
  have ite: "z_rng z (choose_arr g t u) = w \<and> eva m (choose_arr g t u) = (if evl m g then eva m t else eva m u)"
    if "z_rng z t = w" "z_rng z u = w" for g t u
    using that by (cases g) (auto simp: choose_arr_def rng_ArrIf eva_ArrIf split: bool.split)
  show "z_rng z (merge_component same choose_arr (component f cs)) = w"
    by (rule merge_component_selects(1) [where ok = "\<lambda>t. z_rng z t = w" and wt = "eva m" and m = m])
       (use ite assms in \<open>simp_all add: component_props(1,2)\<close>)
  assume hu: "(h, u) \<in> set cs" "evl m h" "\<forall>(g, s) \<in> set cs. evl m g \<longrightarrow> s = u"
  show "eva m (merge_component same choose_arr (component f cs)) = eva m (f u)"
    by (rule merge_component_selects(2) [where ok = "\<lambda>t. z_rng z t = w" and wt = "eva m" and m = m])
       (use ite assms hu(2) component_props(3) [OF hu(1), of f] component_props(4) [OF hu(3), of f "eva m"]
         in \<open>simp_all add: component_props(1,2)\<close>)
qed

lemma merge_arrb:
  fixes m :: 'm
  assumes "\<And>t u. same t u \<Longrightarrow> t = u" and "cs \<noteq> []"
    and "(h, u) \<in> set cs" and "evl m h" and "\<forall>(g, s) \<in> set cs. evl m g \<longrightarrow> s = u"
  shows "evab m (merge_component same choose_arrb (component f cs)) = evab m (f u)"
proof -
  have ite: "True \<and> evab m (choose_arrb g t u) = (if evl m g then evab m t else evab m u)" for g t u
    by (cases g) (auto simp: choose_arrb_def evab_ArrIfB split: bool.split)
  show ?thesis
    by (rule merge_component_selects(2) [where ok = "\<lambda>_. True" and wt = "evab m" and m = m])
       (use ite assms component_props(3) [OF assms(3), of f] component_props(4) [OF assms(5), of f "evab m"]
         in \<open>simp_all add: component_props(1,2)\<close>)
qed

lemma merge_bv:
  fixes m :: 'm
  assumes "\<And>t u. same t u \<Longrightarrow> t = u" and "\<forall>(g, s) \<in> set cs. z_size z (f s) = w" and "cs \<noteq> []"
  shows "z_size z (merge_component same choose_bv (component f cs)) = w"
    and "(h, u) \<in> set cs \<Longrightarrow> evl m h \<Longrightarrow> (\<forall>(g, s) \<in> set cs. evl m g \<longrightarrow> s = u) \<Longrightarrow>
      ev m (merge_component same choose_bv (component f cs)) = ev m (f u)"
proof -
  have ite: "z_size z (choose_bv g t u) = w \<and> ev m (choose_bv g t u) = (if evl m g then ev m t else ev m u)"
    if "z_size z t = w" "z_size z u = w" for g t u
    using that by (cases g) (auto simp: choose_bv_def size_BvIf ev_BvIf split: bool.split)
  show "z_size z (merge_component same choose_bv (component f cs)) = w"
    by (rule merge_component_selects(1) [where ok = "\<lambda>t. z_size z t = w" and wt = "ev m" and m = m])
       (use ite assms in \<open>simp_all add: component_props(1,2)\<close>)
  assume hu: "(h, u) \<in> set cs" "evl m h" "\<forall>(g, s) \<in> set cs. evl m g \<longrightarrow> s = u"
  show "ev m (merge_component same choose_bv (component f cs)) = ev m (f u)"
    by (rule merge_component_selects(2) [where ok = "\<lambda>t. z_size z t = w" and wt = "ev m" and m = m])
       (use ite assms hu(2) component_props(3) [OF hu(1), of f] component_props(4) [OF hu(3), of f "ev m"]
         in \<open>simp_all add: component_props(1,2)\<close>)
qed

end

text \<open>The merge keeps the sorts, and has the contents of the contribution that holds.\<close>

context smtlib begin

lemma merge_sigma_sorts:
  assumes "identity_tests par" and s: "\<forall>(g, s) \<in> set cs. same_sorts z s init" and ne: "cs \<noteq> []"
  shows "same_sorts z (merge_sigma par cs init) init"
proof (cases "\<exists>p. cs = [p]")
  case True
  then show ?thesis using s by (auto simp: merge_sigma_def)
next
  case False
  then have multi: "\<And>p. cs \<noteq> [p]" by blast
  note id = assms(1) [unfolded identity_tests_def]
  have c: "\<forall>(g, s) \<in> set cs. z_rng z (zs_pkt s) = z_rng z (zs_pkt init)"
    "\<forall>(g, s) \<in> set cs. z_size z (zs_pkt_len s) = z_size z (zs_pkt_len init)"
    "i < length (zs_map init) \<Longrightarrow> \<forall>(g, s) \<in> set cs. z_rng z (snd (zs_map s ! i)) = z_rng z (snd (zs_map init ! i))"
    "\<forall>(g, s) \<in> set cs. z_rng z (bss_of s k) = z_rng z (bss_of init k)" for i k
    using s by (auto simp: same_sorts_def)
  have "z_rng z (bss_of (merge_sigma par cs init) k) = z_rng z (bss_of init k)" for k
  proof (cases "\<exists>s \<in> snd ` set cs. Option.bind k (dict_get (zs_bss s)) \<noteq> None")
    case True
    then show ?thesis unfolding merge_sigma_parts [OF multi] if_P [OF True] by (intro merge_arr(1) c ne) (use id in blast)
  next
    case False
    obtain g s where gs: "(g, s) \<in> set cs" using ne by (cases cs) auto
    then have "bss_of s k = K BSS_ADDR_BITS (BitVecVal 0 8)" using False by (force simp: bss_of_def)
    moreover have "z_rng z (bss_of s k) = z_rng z (bss_of init k)" using c(4) gs by blast
    ultimately show ?thesis unfolding merge_sigma_parts [OF multi] if_not_P [OF False] by simp
  qed
  moreover have "z_rng z (zs_pkt (merge_sigma par cs init)) = z_rng z (zs_pkt init)"
    unfolding merge_sigma_parts [OF multi] by (intro merge_arr(1) c ne) (use id in blast)
  moreover have "z_size z (zs_pkt_len (merge_sigma par cs init)) = z_size z (zs_pkt_len init)"
    unfolding merge_sigma_parts [OF multi] by (intro merge_bv(1) c ne) (use id in blast)
  moreover have "z_rng z (snd (zs_map (merge_sigma par cs init) ! i)) = z_rng z (snd (zs_map init ! i))"
    if "i < length (zs_map init)" for i
  proof -
    have "z_rng z (merge_component (fp_is_arr par) choose_arr (component (\<lambda>s. snd (zs_map s ! i)) cs)) = z_rng z (snd (zs_map init ! i))"
      by (intro merge_arr(1) c(3) that ne) (use id in blast)
    with that show ?thesis unfolding merge_sigma_parts [OF multi] by simp
  qed
  moreover have "length (zs_map (merge_sigma par cs init)) = length (zs_map init)"
    unfolding merge_sigma_parts [OF multi] by simp
  ultimately show ?thesis by (simp add: same_sorts_def)
qed

lemma merge_sigma_selects:
  fixes m :: 'm
  assumes "identity_tests par" and s: "\<forall>(g, s) \<in> set cs. same_sorts z s init"
    and rx: "\<forall>(g, s) \<in> set cs. z_size z (zs_rx_index s) = 64"
    and hu: "(h, u) \<in> set cs" "evl m h" and one: "\<forall>(g, s) \<in> set cs. evl m g \<longrightarrow> s = u"
  shows "same_world ev eva evab m (merge_sigma par cs init) u"
proof (cases "\<exists>p. cs = [p]")
  case True
  then show ?thesis using hu by (auto simp: merge_sigma_def same_world_def)
next
  case False
  then have multi: "\<And>p. cs \<noteq> [p]" by blast
  have ne: "cs \<noteq> []" using hu by auto
  note id = assms(1) [unfolded identity_tests_def]
  have c: "\<forall>(g, s) \<in> set cs. z_rng z (zs_pkt s) = z_rng z (zs_pkt init)"
    "\<forall>(g, s) \<in> set cs. z_size z (zs_pkt_len s) = z_size z (zs_pkt_len init)"
    "i < length (zs_map init) \<Longrightarrow> \<forall>(g, s) \<in> set cs. z_rng z (snd (zs_map s ! i)) = z_rng z (snd (zs_map init ! i))"
    "\<forall>(g, s) \<in> set cs. z_rng z (bss_of s k) = z_rng z (bss_of init k)" for i k
    using s by (auto simp: same_sorts_def)
  have len: "length (zs_map u) = length (zs_map init)" using s hu by (auto simp: same_sorts_def)
  have bss: "eva m (bss_of (merge_sigma par cs init) k) = eva m (bss_of u k)" for k
  proof (cases "\<exists>s \<in> snd ` set cs. Option.bind k (dict_get (zs_bss s)) \<noteq> None")
    case True
    then show ?thesis
      unfolding merge_sigma_parts [OF multi] if_P [OF True]
      by (intro merge_arr(2) [OF _ c(4) ne hu one]) (use id in blast)
  next
    case False
    then have "Option.bind k (dict_get (zs_bss u)) = None" using hu by force
    then have "bss_of u k = K BSS_ADDR_BITS (BitVecVal 0 8)" by (simp add: bss_of_def)
    then show ?thesis unfolding merge_sigma_parts [OF multi] if_not_P [OF False] by simp
  qed
  have pkt: "eva m (zs_pkt (merge_sigma par cs init)) = eva m (zs_pkt u)"
    unfolding merge_sigma_parts [OF multi] by (intro merge_arr(2) [OF _ c(1) ne hu one]) (use id in blast)
  have len_t: "ev m (zs_pkt_len (merge_sigma par cs init)) = ev m (zs_pkt_len u)"
    unfolding merge_sigma_parts [OF multi] by (intro merge_bv(2) [OF _ c(2) ne hu one]) (use id in blast)
  have rxt: "ev m (zs_rx_index (merge_sigma par cs init)) = ev m (zs_rx_index u)"
    unfolding merge_sigma_parts [OF multi] by (intro merge_bv(2) [OF _ rx ne hu one]) (use id in blast)
  have maps: "evab m (fst (zs_map (merge_sigma par cs init) ! i)) = evab m (fst (zs_map u ! i)) \<and>
      eva m (snd (zs_map (merge_sigma par cs init) ! i)) = eva m (snd (zs_map u ! i))" if i: "i < length (zs_map init)" for i
  proof -
    have "eva m (merge_component (fp_is_arr par) choose_arr (component (\<lambda>s. snd (zs_map s ! i)) cs)) = eva m (snd (zs_map u ! i))"
      by (intro merge_arr(2) [OF _ c(3) [OF i] ne hu one]) (use id in blast)
    moreover have "evab m (merge_component (fp_is_arrb par) choose_arrb (component (\<lambda>s. fst (zs_map s ! i)) cs)) = evab m (fst (zs_map u ! i))"
      by (intro merge_arrb [OF _ ne hu one]) (use id in blast)
    ultimately show ?thesis using i unfolding merge_sigma_parts [OF multi] by simp
  qed
  have "length (zs_map (merge_sigma par cs init)) = length (zs_map init)"
    unfolding merge_sigma_parts [OF multi] by simp
  with bss pkt len_t rxt maps len show ?thesis by (simp add: same_world_def)
qed

end

section \<open>The walk keeps the sorts\<close>

lemma contribs_mem:
  "(g, s) \<in> set (contribs_of env fw b) \<longleftrightarrow>
   (\<exists>p pi. p \<in> set (b_preds (fe_blocks env ! b)) \<and> dict_get (fw_info fw) p = Some pi \<and> wi_reach pi \<noteq> Py False \<and> s = wi_sigma pi \<and>
      (b_succ_t (fe_blocks env ! p) = Some b \<and> g = and_lit (wi_reach pi) (wi_taken pi) \<and> g \<noteq> Py False \<or>
       b_succ_f (fe_blocks env ! p) = Some b \<and> g = and_lit (wi_reach pi) (wi_fall pi) \<and> g \<noteq> Py False))"
proof -
  have each: "(g, s) \<in> set (case dict_get (fw_info fw) p of
         None \<Rightarrow> []
       | Some pi \<Rightarrow>
           if wi_reach pi = Py False then []
           else
             (let t = and_lit (wi_reach pi) (wi_taken pi); f = and_lit (wi_reach pi) (wi_fall pi) in
              (if b_succ_t (fe_blocks env ! p) = Some b \<and> t \<noteq> Py False then [(t, wi_sigma pi)] else []) @
              (if b_succ_f (fe_blocks env ! p) = Some b \<and> f \<noteq> Py False then [(f, wi_sigma pi)] else []))) \<longleftrightarrow>
    (\<exists>pi. dict_get (fw_info fw) p = Some pi \<and> wi_reach pi \<noteq> Py False \<and> s = wi_sigma pi \<and>
      (b_succ_t (fe_blocks env ! p) = Some b \<and> g = and_lit (wi_reach pi) (wi_taken pi) \<and> g \<noteq> Py False \<or>
       b_succ_f (fe_blocks env ! p) = Some b \<and> g = and_lit (wi_reach pi) (wi_fall pi) \<and> g \<noteq> Py False))" for p
    by (cases "dict_get (fw_info fw) p") (auto simp: Let_def)
  show ?thesis
    unfolding contribs_of_def set_concat set_map UN_iff image_image set_sorted_list_of_set [OF finite_set] each by blast
qed

lemma item_sorts:
  assumes "smtlib (fp_z (fe_par env)) ev evb eva evab" and "item_step env b r (fw, s) it = Inr (fw', s')"
  shows "same_sorts (fp_z (fe_par env)) s' s"
proof (cases it)
  case (Act a)
  have "same_sorts (fp_z (fe_par env)) s' s"
    if "action_to_z3 (fp_z (fe_par env)) (with_reads s h (Some (int b)) None) (a_idx a) (a_kind a) = Inr s'" for h
    using smtlib.action_sorts [OF assms(1) that] by simp
  then show ?thesis using assms(2) Act
    by (auto simp: item_step_def Let_def ebind_eq_Inr split: if_splits)
qed (use assms(2) in \<open>auto simp: item_step_def Let_def ebind_eq_Inr split: if_splits\<close>)

lemma items_sorts:
  assumes "smtlib (fp_z (fe_par env)) ev evb eva evab"
  shows "efoldl (item_step env b r) (fw, s) its = Inr (fw', s') \<Longrightarrow> same_sorts (fp_z (fe_par env)) s' s"
proof (induction its arbitrary: fw s)
  case (Cons it its)
  then obtain fw1 s1 where "item_step env b r (fw, s) it = Inr (fw1, s1)" "efoldl (item_step env b r) (fw1, s1) its = Inr (fw', s')"
    by (auto simp: ebind_eq_Inr)
  then show ?case using Cons.IH item_sorts [OF assms] same_sorts_trans by blast
qed simp

definition sorted_infos :: "fwd_env \<Rightarrow> forward \<Rightarrow> bool" where
  "sorted_infos env fw \<longleftrightarrow> (\<forall>b pi. dict_get (fw_info fw) b = Some pi \<longrightarrow> same_sorts (fp_z (fe_par env)) (wi_sigma pi) (fe_init env))"

lemma walk_block_sorts:
  assumes "smtlib (fp_z (fe_par env)) ev evb eva evab" and "identity_tests (fe_par env)"
    and "sorted_infos env fw0" and "walk_block env fw0 b = Inr fw"
  shows "sorted_infos env fw"
proof -
  have cs: "\<forall>(g, s) \<in> set (contribs_of env fw0 b). same_sorts (fp_z (fe_par env)) s (fe_init env)"
    using assms(3) by (auto simp: sorted_infos_def contribs_mem)
  have entry: "same_sorts (fp_z (fe_par env)) (snd (entry_of env fw0 b)) (fe_init env)"
    using smtlib.merge_sigma_sorts [OF assms(1,2) cs] by (simp add: entry_of_def Let_def)
  obtain its fw1 s t f imp where w:
    "efoldl (item_step env b (fst (entry_of env fw0 b)))
       (fw0\<lparr>fw_cur := Some (b, snd (entry_of env fw0 b), fst (entry_of env fw0 b))\<rparr>, snd (entry_of env fw0 b)) its = Inr (fw1, s)"
    "fw_info fw = dict_set b \<lparr>wi_reach = fst (entry_of env fw0 b), wi_taken = t, wi_fall = f, wi_sigma = s, wi_imprecise = imp\<rparr> (fw_info fw0)"
    by (rule walk_blockE [OF assms(4)])
  have "same_sorts (fp_z (fe_par env)) s (fe_init env)"
    using items_sorts [OF assms(1) w(1)] entry by (rule same_sorts_trans)
  then show ?thesis using assms(3) by (simp add: sorted_infos_def w(2))
qed

lemma walk_sorts:
  assumes "smtlib (fp_z (fe_par env)) ev evb eva evab" and "identity_tests (fe_par env)"
    and "efoldl (walk_block env) fresh_forward order = Inr fw"
  shows "sorted_infos env fw"
  using assms(3)
proof (induction order arbitrary: fw rule: rev_induct)
  case (snoc b order)
  then obtain fw1 where "efoldl (walk_block env) fresh_forward order = Inr fw1" "walk_block env fw1 b = Inr fw"
    by (auto simp: efoldl_append ebind_eq_Inr)
  with snoc.IH walk_block_sorts [OF assms(1,2)] show ?case by blast
qed (simp add: sorted_infos_def fresh_forward_def)

lemma walk_keeps:
  "efoldl (walk_block env) fw0 bs = Inr fw \<Longrightarrow> c \<notin> set bs \<Longrightarrow> dict_get (fw_info fw) c = dict_get (fw_info fw0) c"
proof (induction bs arbitrary: fw0)
  case (Cons b bs)
  then obtain fw1 where "walk_block env fw0 b = Inr fw1" "efoldl (walk_block env) fw1 bs = Inr fw"
    by (auto simp: ebind_eq_Inr)
  with Cons show ?case by (elim walk_blockE) simp
qed simp

section \<open>One predecessor\<close>

lemma unique_source:
  assumes sv: "single_valued R" and acyc: "acyclic (R \<inter> L \<times> L)" and src: "\<And>x y. (x, y) \<in> R \<Longrightarrow> x \<in> L"
    and path: "(a, p) \<in> R\<^sup>*" "(a, q) \<in> R\<^sup>*" and edge: "(p, b) \<in> R" "(q, b) \<in> R" and b: "b \<in> L"
  shows "p = q"
proof -
  have inside: "(x, y) \<in> (R \<inter> L \<times> L)\<^sup>*" if "(x, y) \<in> R\<^sup>*" "y \<in> L" for x y
    using that
  proof (induction rule: rtrancl_induct)
    case (step y y')
    have "y \<in> L" by (rule src [OF step.hyps(2)])
    with step show ?case by (meson IntI SigmaI rtrancl.rtrancl_into_rtrancl)
  qed simp
  have one: "x = y" if e: "(x, b) \<in> R" "(y, b) \<in> R" and p: "(x, y) \<in> R\<^sup>*" for x y
  proof (rule ccontr)
    assume "x \<noteq> y"
    with p obtain c where c: "(x, c) \<in> R" "(c, y) \<in> R\<^sup>*" by (meson converse_rtranclE)
    have "c = b" using sv c(1) e(1) by (rule single_valuedD)
    then have "(b, y) \<in> (R \<inter> L \<times> L)\<^sup>*" using inside [OF c(2) src [OF e(2)]] by simp
    moreover have "(y, b) \<in> R \<inter> L \<times> L" using e(2) b src [OF e(2)] by simp
    ultimately have "(y, y) \<in> (R \<inter> L \<times> L)\<^sup>+" by (rule rtrancl_into_trancl2 [rotated])
    with acyc show False by (simp add: acyclic_def)
  qed
  have "(p, q) \<in> R\<^sup>* \<or> (q, p) \<in> R\<^sup>*" using sv path by (rule single_valued_confluent)
  with one edge show ?thesis by blast
qed

lemma taken_edges_single:
  assumes "smtlib z ev evb eva evab" and "wf_graph blocks" and "blocks \<noteq> []"
    and "analyze z simp blocks sa targets [] = Inr info" and "list_all kind_successors blocks"
  shows "single_valued (taken_edges evb blocks info m)"
proof -
  obtain live order where L: "live \<subseteq> {..<length blocks}" "blocks.topological blocks live (order @ [])"
    "efoldl (analyze_block z simp blocks sa) [] order = Inr info"
    using analyze_parts [OF assms(2-4)] by (metis append_Nil2)
  note pre = smtlib.analyze_prefix [OF assms(1,2) L]
  show ?thesis
  proof (rule single_valuedI)
    fix p x y assume xy: "(p, x) \<in> taken_edges evb blocks info m" "(p, y) \<in> taken_edges evb blocks info m"
    then obtain i where i: "dict_get info p = Some i" unfolding taken_edges_def by blast
    then have "p \<in> live" using pre L(2) by (auto simp: blocks.topological_def)
    then have kind: "kind_successors (blocks ! p)" using assms(5) L(1) by (auto simp: list_all_iff)
    have "if b_kind (blocks ! p) = KBranch then \<forall>m. lit_holds evb m (n_edge_fall i) = (\<not> lit_holds evb m (n_edge_taken i))
        else n_edge_taken i = Py True \<and> n_edge_fall i = Py True" using pre i by blast
    then have g: "if b_kind (blocks ! p) = KBranch then lit_holds evb m (n_edge_fall i) = (\<not> lit_holds evb m (n_edge_taken i))
        else lit_holds evb m (n_edge_fall i) \<and> lit_holds evb m (n_edge_taken i)"
      by (simp add: lit_holds_def split: if_splits)
    have e: "b_succ_t (blocks ! p) = Some c \<and> lit_holds evb m (n_edge_taken i) \<or>
        b_succ_f (blocks ! p) = Some c \<and> lit_holds evb m (n_edge_fall i)"
      if "(p, c) \<in> taken_edges evb blocks info m" for c
      using that i by (simp add: taken_edges_def)
    show "x = y" using e [OF xy(1)] e [OF xy(2)] g kind
      by (cases "b_kind (blocks ! p)") (simp_all add: kind_successors_def, auto)
  qed
qed

text \<open>What the walk did at a block.\<close>

lemma walk_at:
  assumes "wf_graph blocks" and "live \<subseteq> {..<length blocks}" and topo: "blocks.topological blocks live order"
    and env: "fe_blocks env = blocks" and run: "efoldl (walk_block env) fresh_forward order = Inr fw"
    and b: "dict_get (fw_info fw) b = Some pi"
  shows "b \<in> live" and "wi_reach pi = fst (entry_of env fw b)"
    and "\<exists>fwb items fw1. block_items (blocks ! b) = Inr items \<and>
      efoldl (item_step env b (wi_reach pi)) (fwb, snd (entry_of env fw b)) items = Inr (fw1, wi_sigma pi)"
proof -
  have set: "set order = live" "distinct order" using topo by (simp_all add: blocks.topological_def)
  have "b \<in> set order"
  proof (rule ccontr)
    assume "b \<notin> set order"
    from walk_keeps [OF run this] b show False by (simp add: fresh_forward_def)
  qed
  then show "b \<in> live" using set by simp
  obtain ys zs where o: "order = ys @ b # zs" using \<open>b \<in> set order\<close> by (meson split_list)
  obtain fw0 fw1 where r: "efoldl (walk_block env) fresh_forward ys = Inr fw0" "walk_block env fw0 b = Inr fw1"
    "efoldl (walk_block env) fw1 zs = Inr fw"
    using run unfolding o by (auto simp: efoldl_append ebind_eq_Inr)
  have notin: "b \<notin> set ys" "b \<notin> set zs" "set ys \<inter> set zs = {}" using set(2) unfolding o by auto
  have old: "dict_get (fw_info fw0) c = dict_get (fw_info fw) c" if "c \<in> set ys" for c
  proof -
    have "c \<notin> set (b # zs)" using that notin by auto
    from walk_keeps [OF _ this, of env fw0 fw] r show ?thesis by simp
  qed
  have none: "dict_get (fw_info fw0) c = None" if "c \<notin> set ys" for c
    using walk_keeps [OF r(1) that] by (simp add: fresh_forward_def)
  have none': "dict_get (fw_info fw) c = None" if "c \<notin> live" for c
    using walk_keeps [OF run, of c] that set by (simp add: fresh_forward_def)
  have info: "dict_get (fw_info fw0) p = dict_get (fw_info fw) p" if p: "p \<in> set (b_preds (blocks ! b))" for p
  proof (cases "p \<in> live")
    case True
    have "b < length blocks" using \<open>b \<in> live\<close> assms(2) by auto
    then have "(p, b) \<in> flow_within blocks live"
      using blocks.flow_preds [OF assms(1), of b p] p True \<open>b \<in> live\<close> by (auto simp: blocks.flow_in_def)
    obtain ys' zs' where o': "order = ys' @ p # zs'" using True set by (metis split_list)
    then have "b \<in> set zs'" using topo \<open>(p, b) \<in> flow_within blocks live\<close> by (auto simp: blocks.topological_def)
    then have "p \<in> set ys"
    proof -
      from \<open>b \<in> set zs'\<close> obtain us vs where "zs' = us @ b # vs" by (meson split_list)
      then have "order = (ys' @ p # us) @ b # vs" by (simp add: o')
      then have "ys = ys' @ p # us" using append_Cons_eq_iff [OF notin(1,2), of "ys' @ p # us" vs] o by simp
      then show ?thesis by simp
    qed
    then show ?thesis by (rule old)
  next
    case False
    then have "p \<notin> set ys" using set o by auto
    with none none' [OF False] show ?thesis by simp
  qed
  have "contribs_of env fw0 b = contribs_of env fw b"
    unfolding contribs_of_def env
    by (intro arg_cong [where f = concat] map_cong refl) (simp add: info)
  then have entry: "entry_of env fw0 b = entry_of env fw b" by (simp add: entry_of_def)
  obtain items fw2 s t f imp where w: "block_items (fe_blocks env ! b) = Inr items"
    "efoldl (item_step env b (fst (entry_of env fw0 b)))
       (fw0\<lparr>fw_cur := Some (b, snd (entry_of env fw0 b), fst (entry_of env fw0 b))\<rparr>, snd (entry_of env fw0 b)) items = Inr (fw2, s)"
    "fw_info fw1 = dict_set b \<lparr>wi_reach = fst (entry_of env fw0 b), wi_taken = t, wi_fall = f, wi_sigma = s, wi_imprecise = imp\<rparr> (fw_info fw0)"
    by (rule walk_blockE [OF r(2)])
  have pi: "pi = \<lparr>wi_reach = fst (entry_of env fw b), wi_taken = t, wi_fall = f, wi_sigma = s, wi_imprecise = imp\<rparr>"
    using walk_keeps [OF r(3) notin(2)] b w(3) entry by simp
  then show "wi_reach pi = fst (entry_of env fw b)" by simp
  show "\<exists>fwb items fw1. block_items (blocks ! b) = Inr items \<and>
      efoldl (item_step env b (wi_reach pi)) (fwb, snd (entry_of env fw b)) items = Inr (fw1, wi_sigma pi)"
    using w(1,2) env entry pi by auto
qed

section \<open>Claims\<close>

text \<open>
  Claim C5.  The forward analysis and \<open>prune.analyze\<close> compute the same conditions, and they are exact.
  \<open>prune.analyze\<close>, run on the same blocks and targets with, for a covered block, the state the forward
  analysis leaves there and its readers at that time, records for the same blocks the same conditions of
  the block and of its two edges.  The condition of a block holds for an assignment exactly when the edges
  the assignment takes lead from the entry to the block.  When the analysis is not sliced to targets and
  every block has the successors of its kind, exactly one exit is reached.
\<close>

theorem forward_reach_exact:
  assumes "smtlib (fp_z par) ev evb eva evab" and "wf_graph blocks" and "blocks \<noteq> []"
    and "forward_context par blocks init targets trees True hybrid = Inr (env, fw)"
    and "dict_get (fw_info fw) b = Some pi"
  shows "(\<exists>sa info. analyze (fp_z par) (fp_simp par) blocks sa targets [] = Inr info \<and> same_reach fw info \<and>
       walk_states env fw sa) \<and>
    (lit_holds evb m (wi_reach pi) \<longleftrightarrow> (0, b) \<in> (taken_edges evb blocks (reach_info fw) m)\<^sup>*) \<and>
    (targets = None \<longrightarrow> list_all kind_successors blocks \<longrightarrow>
       (\<exists>!e. e < length blocks \<and> b_kind (blocks ! e) = KExit \<and> block_reached evb (reach_info fw) m e))"
  using forward_analyze [OF assms(2-4)] forward_conditions [OF assms, of m] by simp

text \<open>The edges an environment takes leave its path only at a block it reaches, so at most one enters a block.\<close>

lemma forward_one_source:
  assumes "smtlib (fp_z par) ev evb eva evab" and "wf_graph blocks" and "blocks \<noteq> []"
    and "list_all kind_successors blocks"
    and "forward_context par blocks init targets trees True hybrid = Inr (env, fw)"
    and "dict_get (fw_info fw) b = Some pi"
    and "(q, b) \<in> taken_edges evb blocks (reach_info fw) m" and "(q', b) \<in> taken_edges evb blocks (reach_info fw) m"
    and "block_reached evb (reach_info fw) m q" and "block_reached evb (reach_info fw) m q'"
  shows "q = q'"
proof -
  obtain live order fw1 where p: "live \<subseteq> {..<length blocks}" "0 \<in> live" "blocks.topological blocks live order"
    "env = forward_env par blocks init live order trees True hybrid"
    "efoldl (walk_block env) fresh_forward order = Inr fw1" "fw = fw1\<lparr>fw_cur := None\<rparr>"
    by (rule forward_parts [OF assms(2,3,5)])
  have env: "fe_blocks env = blocks" by (simp add: p(4))
  have i1: "fw_info fw = fw_info fw1" by (simp add: p(6))
  note at = walk_at [OF assms(2) p(1,3) env p(5)]
  have b: "b \<in> live" using at(1) [of b pi] assms(6) i1 by simp
  obtain sa info where an: "analyze (fp_z par) (fp_simp par) blocks sa targets [] = Inr info" "same_reach fw info"
    using forward_analyze [OF assms(2,3,5)] by blast
  let ?R = "taken_edges evb blocks (reach_info fw) m" and ?ok = "block_reached evb (reach_info fw) m"
  have sv: "single_valued ?R" unfolding same_reach_info(1) [OF an(2), symmetric]
    by (rule taken_edges_single [OF assms(1-3) an(1) assms(4)])
  have src: "x \<in> live" if "(x, y) \<in> ?R" for x y
  proof -
    from that obtain i where "dict_get (fw_info fw) x = Some i"
      by (auto simp: taken_edges_def dict_get_reach_info)
    then show ?thesis using at(1) i1 by simp
  qed
  have "?R \<inter> live \<times> live \<subseteq> flow_within blocks live"
    using smtlib.enabled_flow [OF assms(1,2)] p(1) by (auto simp: blocks.flow_in_def)
  then have acyc: "acyclic (?R \<inter> live \<times> live)" by (rule acyclic_subset [OF blocks.topological_acyclic [OF p(3)]])
  have path: "(0, x) \<in> ?R\<^sup>*" if "?ok x" for x
  proof -
    from that obtain xi where "dict_get (fw_info fw) x = Some xi" "lit_holds evb m (wi_reach xi)"
      by (auto simp: block_reached_def dict_get_reach_info reach_of_info_def)
    then show ?thesis using forward_conditions [OF assms(1-3,5)] by blast
  qed
  show ?thesis
    by (rule unique_source [OF sv acyc src path path assms(7,8) b]) (use assms(9,10) in auto)
qed

text \<open>A contribution whose condition holds comes from a reached block over an edge that is taken.\<close>

lemma contrib_taken:
  assumes "smtlib (fp_z par) ev evb eva evab" and "fe_blocks env = blocks"
    and "(h, u) \<in> set (contribs_of env fw b)" and "lit_holds evb m h"
  obtains q qi where "dict_get (fw_info fw) q = Some qi" and "u = wi_sigma qi"
    and "block_reached evb (reach_info fw) m q" and "(q, b) \<in> taken_edges evb blocks (reach_info fw) m"
proof -
  from assms(3) obtain q qi where q: "dict_get (fw_info fw) q = Some qi" "u = wi_sigma qi"
    "b_succ_t (blocks ! q) = Some b \<and> h = and_lit (wi_reach qi) (wi_taken qi) \<or>
     b_succ_f (blocks ! q) = Some b \<and> h = and_lit (wi_reach qi) (wi_fall qi)"
    by (auto simp: contribs_mem assms(2))
  then have "block_reached evb (reach_info fw) m q \<and> (q, b) \<in> taken_edges evb blocks (reach_info fw) m"
    using assms(4) smtlib.evl_and [OF assms(1)]
    by (auto simp: block_reached_def taken_edges_def dict_get_reach_info reach_of_info_def)
  with q that show ?thesis by blast
qed

text \<open>The world entered at a block is the one its only taken predecessor left.\<close>

lemma forward_enters_source:
  assumes "smtlib (fp_z par) ev evb eva evab" and "wf_graph blocks" and "blocks \<noteq> []"
    and "list_all kind_successors blocks" and "identity_tests par"
    and "forward_context par blocks init targets trees True hybrid = Inr (env, fw)"
    and "list_all (\<lambda>(c, qi). z_size (fp_z par) (zs_rx_index (wi_sigma qi)) = 64) (fw_info fw)"
    and "dict_get (fw_info fw) b = Some pi"
    and "(h, u) \<in> set (contribs_of env fw b)" "lit_holds evb m h" and "b \<noteq> 0"
  shows "same_world ev eva evab m (snd (entry_of env fw b)) u"
proof -
  obtain live order fw1 where p: "env = forward_env par blocks init live order trees True hybrid"
    "efoldl (walk_block env) fresh_forward order = Inr fw1" "fw = fw1\<lparr>fw_cur := None\<rparr>"
    by (rule forward_parts [OF assms(2,3,6)])
  have env: "fe_blocks env = blocks" "fe_par env = par" "fe_init env = init" by (simp_all add: p(1))
  have sorts: "same_sorts (fp_z par) (wi_sigma qi) init" if "dict_get (fw_info fw) c = Some qi" for c qi
    using walk_sorts [of env ev evb eva evab order fw1] assms(1,5) env p that by (simp add: sorted_infos_def)
  have one: "\<forall>(g, s) \<in> set (contribs_of env fw b). lit_holds evb m g \<longrightarrow> s = u"
  proof (rule ballI, simp only: case_prod_unfold, rule impI)
    fix x assume x: "x \<in> set (contribs_of env fw b)" "lit_holds evb m (fst x)"
    obtain q qi where q: "dict_get (fw_info fw) q = Some qi" "u = wi_sigma qi"
      "block_reached evb (reach_info fw) m q" "(q, b) \<in> taken_edges evb blocks (reach_info fw) m"
      by (rule contrib_taken [OF assms(1) env(1) assms(9,10)])
    have "(fst x, snd x) \<in> set (contribs_of env fw b)" using x by simp
    then obtain c ci where c: "dict_get (fw_info fw) c = Some ci" "snd x = wi_sigma ci"
      "block_reached evb (reach_info fw) m c" "(c, b) \<in> taken_edges evb blocks (reach_info fw) m"
      using contrib_taken [OF assms(1) env(1) _ x(2)] by metis
    have "c = q" by (rule forward_one_source [OF assms(1-4,6,8) c(4) q(4) c(3) q(3)])
    then show "snd x = u" using c q by simp
  qed
  have "z_size (fp_z par) (zs_rx_index (wi_sigma qi)) = 64" if "dict_get (fw_info fw) c = Some qi" for c qi
    using map_of_SomeD [OF that] assms(7) by (auto simp: list_all_iff)
  with sorts have s: "\<forall>(g, s) \<in> set (contribs_of env fw b). same_sorts (fp_z par) s init"
    "\<forall>(g, s) \<in> set (contribs_of env fw b). z_size (fp_z par) (zs_rx_index s) = 64"
    by (auto simp: contribs_mem)
  have "same_world ev eva evab m (merge_sigma par (contribs_of env fw b) init) u"
    by (rule smtlib.merge_sigma_selects [OF assms(1,5) s assms(9,10) one])
  then show ?thesis using assms(9,11) by (auto simp: entry_of_def Let_def env)
qed

text \<open>What a recorded block is made of: its entry condition, and the run of its items.\<close>

lemma forward_recorded:
  assumes "wf_graph blocks" and "blocks \<noteq> []"
    and "forward_context par blocks init targets trees True hybrid = Inr (env, fw)"
    and "dict_get (fw_info fw) b = Some pi"
  shows "fe_blocks env = blocks" and "fe_init env = init" and "wi_reach pi = fst (entry_of env fw b)"
    and "\<exists>fwb items fw1. block_items (blocks ! b) = Inr items \<and>
       efoldl (item_step env b (wi_reach pi)) (fwb, snd (entry_of env fw b)) items = Inr (fw1, wi_sigma pi)"
proof -
  obtain live order fw1 where p: "live \<subseteq> {..<length blocks}" "0 \<in> live" "blocks.topological blocks live order"
    "env = forward_env par blocks init live order trees True hybrid"
    "efoldl (walk_block env) fresh_forward order = Inr fw1" "fw = fw1\<lparr>fw_cur := None\<rparr>"
    by (rule forward_parts [OF assms(1-3)])
  show env: "fe_blocks env = blocks" "fe_init env = init" by (simp_all add: p(4))
  have i1: "fw_info fw = fw_info fw1" by (simp add: p(6))
  then have ent: "entry_of env fw b = entry_of env fw1 b" by (simp add: entry_of_def contribs_of_def)
  note at = walk_at [OF assms(1) p(1,3) env(1) p(5)]
  show "wi_reach pi = fst (entry_of env fw b)" using at(2) [of b pi] assms(4) i1 ent by simp
  show "\<exists>fwb items fw1. block_items (blocks ! b) = Inr items \<and>
       efoldl (item_step env b (wi_reach pi)) (fwb, snd (entry_of env fw b)) items = Inr (fw1, wi_sigma pi)"
    using at(3) [of b pi] assms(4) i1 ent by simp
qed

text \<open>
  Claim C6.  The analysis follows the path.  Whenever an assignment satisfies the condition of a block,
  the block is the entry and starts from the initial state, or exactly one predecessor is reached and
  left towards the block, and the merged state the block starts from has, under the assignment, the
  contents of the state at the end of that predecessor.  The state at the end of the block is the
  result of executing the reads and actions of the block in order on the state it starts from.
\<close>

theorem forward_follows_path:
  assumes "smtlib (fp_z par) ev evb eva evab" and "wf_graph blocks" and "blocks \<noteq> []"
    and "list_all kind_successors blocks" and "identity_tests par"
    and "forward_context par blocks init targets trees True hybrid = Inr (env, fw)"
    and "list_all (\<lambda>(c, qi). z_size (fp_z par) (zs_rx_index (wi_sigma qi)) = 64) (fw_info fw)"
    and "dict_get (fw_info fw) b = Some pi" and "lit_holds evb m (wi_reach pi)"
  shows "(if b = 0 then snd (entry_of env fw b) = init
     else \<exists>!p. (p, b) \<in> taken_edges evb blocks (reach_info fw) m \<and> block_reached evb (reach_info fw) m p \<and>
       (\<exists>qi. dict_get (fw_info fw) p = Some qi \<and> same_world ev eva evab m (snd (entry_of env fw b)) (wi_sigma qi))) \<and>
    (\<exists>fwb items fw1. block_items (blocks ! b) = Inr items \<and>
       efoldl (item_step env b (wi_reach pi)) (fwb, snd (entry_of env fw b)) items = Inr (fw1, wi_sigma pi))"
proof (cases "b = 0")
  note rec = forward_recorded [OF assms(2,3,6,8)]
  case True
  then have "snd (entry_of env fw b) = init" by (simp add: entry_of_def rec(2))
  with rec(4) True show ?thesis by simp
next
  note rec = forward_recorded [OF assms(2,3,6,8)]
  case False
  let ?R = "taken_edges evb blocks (reach_info fw) m" and ?ok = "block_reached evb (reach_info fw) m"
  have "wi_reach pi = or_all (map fst (contribs_of env fw b))"
    using rec(3) False by (simp add: entry_of_def Let_def)
  then obtain h u where hu: "(h, u) \<in> set (contribs_of env fw b)" "lit_holds evb m h"
    using assms(9) smtlib.evl_or_all [OF assms(1)] by auto
  obtain q qi where q: "dict_get (fw_info fw) q = Some qi" "u = wi_sigma qi" "?ok q" "(q, b) \<in> ?R"
    by (rule contrib_taken [OF assms(1) rec(1) hu])
  have w: "same_world ev eva evab m (snd (entry_of env fw b)) (wi_sigma qi)"
    using forward_enters_source [OF assms(1-8) hu False] q(2) by simp
  have "p = q" if "(p, b) \<in> ?R" "?ok p" for p
    by (rule forward_one_source [OF assms(1-4,6,8) that(1) q(4) that(2) q(3)])
  then have "\<exists>!p. (p, b) \<in> ?R \<and> ?ok p \<and>
     (\<exists>qi. dict_get (fw_info fw) p = Some qi \<and> same_world ev eva evab m (snd (entry_of env fw b)) (wi_sigma qi))"
    using q w by blast
  with rec(4) False show ?thesis by simp
qed

text \<open>A branch whose two sides meet again; one of them writes the queue index.\<close>

definition demo_params :: fwd_params where
  "demo_params = \<lparr>fp_z = std_queries, fp_simp = Z, fp_same = (=), fp_is_arr = (=), fp_is_arrb = (=), fp_is_bv = (=), fp_depth = 4\<rparr>"

definition demo_diamond :: "tblock list" where
  "demo_diamond =
     [(new_tblock (new_bblock 0 0 0))\<lparr>b_succ_t := Some 2, b_succ_f := Some 1, b_branch := True\<rparr>,
      (new_tblock (new_bblock 1 1 1))\<lparr>b_preds := [0], b_succ_t := Some 3, b_jump := True,
         t_actions := [\<lparr>a_block = 1, a_idx = 1, a_kind = CtxWrite (Some (Num 7 4 (-1)))\<rparr>]\<rparr>,
      (new_tblock (new_bblock 2 2 2))\<lparr>b_preds := [0], b_succ_f := Some 3\<rparr>,
      (new_tblock (new_bblock 3 3 3))\<lparr>b_preds := [1, 2], b_exit := True,
         t_regs := Some (0, Num 2 4 (-1)) # replicate 10 None\<rparr>]"

text \<open>The conditions: the queue is 7 and the helper call of the last block returns 0; the return value is 2.\<close>

definition demo_call :: val where
  "demo_call = Func_retval 8 0 5 3 None None None 0 False"

definition demo_trees :: "cond_node list" where
  "demo_trees = [CAnd [CLeaf (ScalarAtom T_rx_index 7), CLeaf (HelperScalar 5 0 8 OpEq 0 (Some demo_call))],
     CLeaf (RetAtom OpEq 2)]"

definition demo_forward :: "(fwd_env \<times> forward) res" where
  "demo_forward = forward_context demo_params demo_diamond (make_init_state [] []) None demo_trees True True"

lemma demo_slice:
  "block_slice demo_diamond (forward_reachable demo_diamond) None = Inr {0, 1, 2, 3}"
  "topo_order demo_diamond {0, 1, 2, 3} = Inr [0, 2, 1, 3]"
  "relevant_regions demo_diamond {0, 1, 2, 3} demo_trees = {R_rx_index}"
  by code_simp+

lemma demo_not_skipped:
  "\<not> skipped (forward_env demo_params demo_diamond (make_init_state [] []) {0, 1, 2, 3} [0, 2, 1, 3] demo_trees True True) (Some R_rx_index)"
  using demo_slice(3) by (simp add: skipped_def forward_env_def Let_def fold_eligible_regions_def)

lemmas demo_walk_simps = walk_block_def entry_of_def contribs_of_def Let_def block_items_def fwd_guards_def branch_guards_def
  demo_diamond_def new_tblock_def bblock.extend_def new_bblock_def fresh_forward_def item_step_def lookup_key_def
  not_lit_def and_lit_def or_all_def merge_sigma_def expr_opt_z3_def enc_opt_def zero_pad_def

definition demo_info0 :: fwd_info where
  "demo_info0 = \<lparr>wi_reach = Py True, wi_taken = Z (Bool (branch_name 0)), wi_fall = Z (BNot (Bool (branch_name 0))),
     wi_sigma = make_init_state [] [], wi_imprecise = True\<rparr>"

definition demo_info2 :: fwd_info where
  "demo_info2 = \<lparr>wi_reach = Z (Bool (branch_name 0)), wi_taken = Py True, wi_fall = Py True,
     wi_sigma = make_init_state [] [], wi_imprecise = False\<rparr>"

lemma diamond_block0:
  assumes "fe_blocks e = demo_diamond" "fe_par e = demo_params" "fe_init e = make_init_state [] []" "fe_prune e"
    "\<not> skipped e (Some R_rx_index)"
  shows "\<exists>fw. walk_block e fresh_forward 0 = Inr fw \<and> fw_info fw = [(0, demo_info0)]"
  using assms by (simp add: demo_walk_simps demo_info0_def)

lemma diamond_block2:
  assumes "fe_blocks e = demo_diamond" "fe_par e = demo_params" "fe_init e = make_init_state [] []" "fe_prune e"
    "\<not> skipped e (Some R_rx_index)" and fw0: "fw_info fw0 = [(0, demo_info0)]"
  shows "\<exists>fw. walk_block e fw0 2 = Inr fw \<and> fw_info fw = [(0, demo_info0), (2, demo_info2)]"
  using assms by (simp add: demo_walk_simps demo_info0_def demo_info2_def)

lemma diamond_block1:
  assumes "fe_blocks e = demo_diamond" "fe_par e = demo_params" "fe_init e = make_init_state [] []" "fe_prune e"
    "\<not> skipped e (Some R_rx_index)" and fw0: "fw_info fw0 = [(0, demo_info0), (2, demo_info2)]"
  shows "\<exists>fw i. walk_block e fw0 1 = Inr fw \<and> fw_info fw = [(0, demo_info0), (2, demo_info2), (1, i)] \<and>
     wi_reach i = Z (BNot (Bool (branch_name 0))) \<and> wi_taken i = Py True \<and> wi_fall i = Py True \<and>
     zs_rx_index (wi_sigma i) = Concat [BitVecVal 0 32, BitVecVal 7 32] \<and> zs_bss (wi_sigma i) = []"
  using assms by (simp add: with_reads_def make_init_state_def demo_walk_simps demo_info0_def demo_info2_def demo_params_def std_queries_def)

lemma diamond_block3:
  assumes "fe_blocks e = demo_diamond" "fe_par e = demo_params" "fe_init e = make_init_state [] []" "fe_prune e"
    "\<not> skipped e (Some R_rx_index)" and fw0: "fw_info fw0 = [(0, demo_info0), (2, demo_info2), (1, i)]"
    "wi_reach i = Z (BNot (Bool (branch_name 0)))" "wi_taken i = Py True" "wi_fall i = Py True"
    "zs_rx_index (wi_sigma i) = Concat [BitVecVal 0 32, BitVecVal 7 32]" "zs_bss (wi_sigma i) = []"
  shows "\<exists>fw j. walk_block e fw0 3 = Inr fw \<and> fw_info fw = [(0, demo_info0), (2, demo_info2), (1, i), (3, j)] \<and>
     wi_reach j = Z (BOr [BNot (Bool (branch_name 0)), Bool (branch_name 0)]) \<and> z_size std_queries (zs_rx_index (wi_sigma j)) = 64 \<and>
     zs_r0 (wi_sigma j) = BitVec ''r0'' 64 \<and> zs_ingress (wi_sigma j) = BitVec ''ingress_ifindex'' 64 \<and>
     zs_egress (wi_sigma j) = BitVec ''egress_ifindex'' 64 \<and> zs_bss (wi_sigma j) = []"
proof -
  have cs: "contribs_of e fw0 3 = [(Z (BNot (Bool (branch_name 0))), wi_sigma i), (Z (Bool (branch_name 0)), make_init_state [] [])]"
    using assms by (simp add: contribs_of_def demo_diamond_def new_tblock_def bblock.extend_def new_bblock_def demo_info2_def
        demo_info0_def and_lit_def)
  have r: "z_size std_queries (zs_rx_index (merge_sigma demo_params (contribs_of e fw0 3) (make_init_state [] []))) = 64"
    using assms(10) by (simp add: cs merge_sigma_def merge_component_def choose_bv_def demo_params_def std_queries_def make_init_state_def)
  have o: "zs_r0 (merge_sigma demo_params (contribs_of e fw0 3) (make_init_state [] [])) = BitVec ''r0'' 64"
    "zs_ingress (merge_sigma demo_params (contribs_of e fw0 3) (make_init_state [] [])) = BitVec ''ingress_ifindex'' 64"
    "zs_egress (merge_sigma demo_params (contribs_of e fw0 3) (make_init_state [] [])) = BitVec ''egress_ifindex'' 64"
    "zs_bss (merge_sigma demo_params (contribs_of e fw0 3) (make_init_state [] [])) = []"
    using assms(11) by (simp_all add: cs merge_sigma_def make_init_state_def)
  have "block_items (demo_diamond ! 3) = Inr []"
    by (simp add: block_items_def demo_diamond_def new_tblock_def bblock.extend_def new_bblock_def)
  moreover have "\<not> b_branch (demo_diamond ! 3)"
    by (simp add: demo_diamond_def new_tblock_def bblock.extend_def new_bblock_def)
  ultimately show ?thesis
    using assms r o cs by (simp add: walk_block_def entry_of_def fwd_guards_def or_all_def lit_term_def Let_def)
qed

lemma demo_forward_run:
  "\<exists>env fw pi. demo_forward = Inr (env, fw) \<and> dict_get (fw_info fw) 3 = Some pi \<and>
     env = forward_env demo_params demo_diamond (make_init_state [] []) {0, 1, 2, 3} [0, 2, 1, 3] demo_trees True True \<and>
     wi_reach pi = Z (BOr [BNot (Bool (branch_name 0)), Bool (branch_name 0)]) \<and>
     zs_r0 (wi_sigma pi) = BitVec ''r0'' 64 \<and> zs_ingress (wi_sigma pi) = BitVec ''ingress_ifindex'' 64 \<and>
     zs_egress (wi_sigma pi) = BitVec ''egress_ifindex'' 64 \<and> zs_bss (wi_sigma pi) = [] \<and>
     list_all (\<lambda>(c, qi). z_size (fp_z demo_params) (zs_rx_index (wi_sigma qi)) = 64) (fw_info fw)"
proof -
  define e where "e = forward_env demo_params demo_diamond (make_init_state [] []) {0, 1, 2, 3} [0, 2, 1, 3] demo_trees True True"
  have e: "fe_blocks e = demo_diamond" "fe_par e = demo_params" "fe_init e = make_init_state [] []" "fe_prune e"
    "\<not> skipped e (Some R_rx_index)" using demo_not_skipped by (simp_all add: e_def)
  obtain fw0 where 0: "walk_block e fresh_forward 0 = Inr fw0" "fw_info fw0 = [(0, demo_info0)]"
    using diamond_block0 [OF e] by blast
  obtain fw2 where 2: "walk_block e fw0 2 = Inr fw2" "fw_info fw2 = [(0, demo_info0), (2, demo_info2)]"
    using diamond_block2 [OF e 0(2)] by blast
  obtain fw1 i where 1: "walk_block e fw2 1 = Inr fw1" "fw_info fw1 = [(0, demo_info0), (2, demo_info2), (1, i)]"
    "wi_reach i = Z (BNot (Bool (branch_name 0)))" "wi_taken i = Py True" "wi_fall i = Py True"
    "zs_rx_index (wi_sigma i) = Concat [BitVecVal 0 32, BitVecVal 7 32]" "zs_bss (wi_sigma i) = []"
    using diamond_block1 [OF e 2(2)] by blast
  obtain fw3 j where 3: "walk_block e fw1 3 = Inr fw3" "fw_info fw3 = [(0, demo_info0), (2, demo_info2), (1, i), (3, j)]"
    "wi_reach j = Z (BOr [BNot (Bool (branch_name 0)), Bool (branch_name 0)])" "z_size std_queries (zs_rx_index (wi_sigma j)) = 64"
    "zs_r0 (wi_sigma j) = BitVec ''r0'' 64" "zs_ingress (wi_sigma j) = BitVec ''ingress_ifindex'' 64"
    "zs_egress (wi_sigma j) = BitVec ''egress_ifindex'' 64" "zs_bss (wi_sigma j) = []"
    using diamond_block3 [OF e 1(2-7)] by blast
  have "efoldl (walk_block e) fresh_forward [0, 2, 1, 3] = Inr fw3"
    using 0(1) 1(1) 2(1) 3(1) by simp
  then have "demo_forward = Inr (e, fw3\<lparr>fw_cur := None\<rparr>)"
    
    by (simp only: demo_forward_def forward_context_def demo_slice(1,2) ebind_Inr Let_def walk_def e_def [symmetric] fresh_forward_def [symmetric])
  moreover have "list_all (\<lambda>(c, qi). z_size (fp_z demo_params) (zs_rx_index (wi_sigma qi)) = 64) (fw_info fw3)"
    using 1(6) 3(2,4) by (simp add: demo_info0_def demo_info2_def demo_params_def std_queries_def make_init_state_def)
  ultimately show ?thesis using 3(2,3,5-8) e_def by (intro exI [of _ e] exI [of _ "fw3\<lparr>fw_cur := None\<rparr>"] exI [of _ j]) simp
qed

lemma demo_forward_wf: "wf_graph demo_diamond" "demo_diamond \<noteq> []" "list_all kind_successors demo_diamond"
  by code_simp+

lemma demo_params_ok: "smtlib (fp_z demo_params) eval_bv eval_b eval_a eval_ab" "identity_tests demo_params"
  using smtlib_std by (simp_all add: demo_params_def identity_tests_def)

theorem forward_reach_exact_witness:
  "\<exists>env fw. demo_forward = Inr (env, fw) \<and> (0, 3) \<in> (taken_edges eval_b demo_diamond (reach_info fw) demo_env)\<^sup>*"
proof -
  obtain env fw pi where r: "demo_forward = Inr (env, fw)" "dict_get (fw_info fw) 3 = Some pi"
    "wi_reach pi = Z (BOr [BNot (Bool (branch_name 0)), Bool (branch_name 0)])"
    "list_all (\<lambda>(c, qi). z_size (fp_z demo_params) (zs_rx_index (wi_sigma qi)) = 64) (fw_info fw)"
    using demo_forward_run by blast
  have h: "lit_holds eval_b demo_env (wi_reach pi)" by (simp add: r(3) lit_holds_def)
  have "forward_context demo_params demo_diamond (make_init_state [] []) None demo_trees True True = Inr (env, fw)"
    using r(1) by (simp add: demo_forward_def)
  from forward_reach_exact [OF demo_params_ok(1) demo_forward_wf(1,2) this r(2)] r(1) h show ?thesis by blast
qed

theorem forward_follows_path_witness:
  "\<exists>env fw. demo_forward = Inr (env, fw) \<and> (\<exists>!p. (p, 3) \<in> taken_edges eval_b demo_diamond (reach_info fw) demo_env \<and>
     block_reached eval_b (reach_info fw) demo_env p \<and> (\<exists>qi. dict_get (fw_info fw) p = Some qi \<and>
       same_world eval_bv eval_a eval_ab demo_env (snd (entry_of env fw 3)) (wi_sigma qi)))"
proof -
  obtain env fw pi where r: "demo_forward = Inr (env, fw)" "dict_get (fw_info fw) 3 = Some pi"
    "wi_reach pi = Z (BOr [BNot (Bool (branch_name 0)), Bool (branch_name 0)])"
    "list_all (\<lambda>(c, qi). z_size (fp_z demo_params) (zs_rx_index (wi_sigma qi)) = 64) (fw_info fw)"
    using demo_forward_run by blast
  have h: "lit_holds eval_b demo_env (wi_reach pi)" by (simp add: r(3) lit_holds_def)
  have run: "forward_context demo_params demo_diamond (make_init_state [] []) None demo_trees True True = Inr (env, fw)"
    using r(1) by (simp add: demo_forward_def)
  from conjunct1 [OF forward_follows_path [OF demo_params_ok(1) demo_forward_wf demo_params_ok(2) run r(4,2) h]] r(1)
  show ?thesis by (intro exI [of _ env] exI [of _ fw] conjI) simp_all
qed

end
