(* ===== verification/Checker.thy ===== *)
theory Checker
  imports Forward_Reach "HOL-Library.List_Lexorder" "HOL-Library.Char_ord"
begin

text \<open>
  The checker of \<open>hornet/verify/checker.py\<close>: the queries it asks the solver and the verdicts it
  draws from the answers, for conditions at a block, conditions at the exits, and the report on
  reachability.  The solver is a parameter: what \<open>check()\<close> answers, with the model when it is \<open>sat\<close>,
  and \<open>simplify\<close>.  A result keeps the block and the model that \<open>witness.build\<close> is called with.
\<close>

section \<open>The solver\<close>

datatype 'm answer = Sat 'm | Unsat | Unknown

record 'm solver =
  sv_check :: "bt list \<Rightarrow> 'm answer"
  sv_simplify :: "bt \<Rightarrow> bt"

text \<open>
  \<open>_query\<close> adds definitions only when the reads were left unresolved.  The pair of \<open>_decide\<close> is the
  model, when there is one.
\<close>

definition query :: "lit \<Rightarrow> lit \<Rightarrow> lit" where
  "query guard body = and_lit guard body"

definition decide :: "'m solver \<Rightarrow> lit \<Rightarrow> lit \<Rightarrow> 'm option" where
  "decide sv guard body =
     (let ask = (\<lambda>cs. case sv_check sv cs of Sat m \<Rightarrow> Some m | Unsat \<Rightarrow> None | Unknown \<Rightarrow> None) in
      case query guard body of
        Py False \<Rightarrow> None
      | Py True \<Rightarrow> ask []
      | Z c \<Rightarrow> ask [sv_simplify sv c])"

section \<open>Policies and results\<close>

datatype assert_mode = M_all | M_exists

record block_condition =
  bc_name :: string
  bc_block :: nat
  bc_mode :: assert_mode
  bc_cond :: cond_node

record exit_condition =
  ec_name :: string
  ec_mode :: assert_mode
  ec_cond :: cond_node

record policy =
  po_blocks :: "block_condition list"
  po_exits :: "exit_condition list"

datatype verdict = V_sat | V_unsat | V_holds | V_violated

datatype check_kind = K_block | K_exit | K_reach

record 'm check_result =
  cr_name :: string
  cr_kind :: check_kind
  cr_verdict :: verdict
  cr_detail :: string
  cr_witness :: "(nat \<times> 'm) option"

definition idle_verdict :: "assert_mode \<Rightarrow> verdict" where
  "idle_verdict mode = (if mode = M_exists then V_unsat else V_holds)"

section \<open>Conditions at a block\<close>

text \<open>The table of \<open>_vacuous\<close> only saves a query.\<close>

definition vacuous :: "'m solver \<Rightarrow> forward \<Rightarrow> nat \<Rightarrow> bool" where
  "vacuous sv fw b =
     (case fw_reach fw (int b) of
        Py True \<Rightarrow> False
      | Py False \<Rightarrow> True
      | Z c \<Rightarrow> decide sv (Z c) (Py True) = None)"

definition goal_of :: "assert_mode \<Rightarrow> bt \<Rightarrow> lit" where
  "goal_of mode body = (if mode = M_exists then Z body else not_lit (Z body))"

definition note_detail :: "string list \<Rightarrow> string" where
  "note_detail notes = concat (map (\<lambda>n. '' (UNMODELLED: '' @ n @ '')'') notes)"

definition check_block_condition ::
  "'m solver \<Rightarrow> fwd_env \<Rightarrow> forward \<Rightarrow> block_condition \<Rightarrow> 'm check_result res" where
  "check_block_condition sv env fw bc =
     (let b = bc_block bc; r = fw_reach fw (int b) in
      case dict_get (fw_info fw) b of
        None \<Rightarrow> Inr \<lparr>cr_name = bc_name bc, cr_kind = K_block, cr_verdict = idle_verdict (bc_mode bc),
                     cr_detail = ''block '' @ show_nat b @ '' unreachable'', cr_witness = None\<rparr>
      | Some pi \<Rightarrow>
          if r = Py False
          then Inr \<lparr>cr_name = bc_name bc, cr_kind = K_block, cr_verdict = idle_verdict (bc_mode bc),
                    cr_detail = ''block '' @ show_nat b @ '' unreachable'', cr_witness = None\<rparr>
          else
            ebind (node_z3 (fp_z (fe_par env)) (state_at env fw b) (bc_cond bc)) (\<lambda>body.
            let model = decide sv r (goal_of (bc_mode bc) body);
                verdict = (if bc_mode bc = M_exists then (if model \<noteq> None then V_sat else V_unsat)
                           else (if model \<noteq> None then V_violated else V_holds));
                detail = ''block='' @ show_nat b @
                  (if wi_imprecise pi then '' (imprecise: unrecorded branch condition)'' else '''') @
                  note_detail (dropped_effects env fw b) @
                  (if verdict \<in> {V_holds, V_unsat} \<and> vacuous sv fw b
                   then '' (VACUOUS: block is unreachable under this input)'' else '''')
            in Inr \<lparr>cr_name = bc_name bc, cr_kind = K_block, cr_verdict = verdict, cr_detail = detail,
                    cr_witness = map_option (Pair b) model\<rparr>))"

section \<open>Conditions at the exits\<close>

definition live_exits :: "fwd_env \<Rightarrow> forward \<Rightarrow> nat list" where
  "live_exits env fw =
     filter (\<lambda>b. dict_get (fw_info fw) b \<noteq> None \<and> fw_reach fw (int b) \<noteq> Py False) (exit_blocks (fe_blocks env))"

text \<open>One exit: an exit without a return value is passed over; the first model found is kept.\<close>

definition exit_step ::
  "'m solver \<Rightarrow> fwd_env \<Rightarrow> forward \<Rightarrow> exit_condition \<Rightarrow> (nat \<times> bool) list \<times> (nat \<times> 'm) option \<Rightarrow> nat \<Rightarrow>
   ((nat \<times> bool) list \<times> (nat \<times> 'm) option) res" where
  "exit_step sv env fw ec pw b =
     (let (per, w) = pw in
      ebind (ret_state env fw b) (\<lambda>st.
      case st of
        None \<Rightarrow> Inr (per, w)
      | Some st \<Rightarrow>
          ebind (node_z3 (fp_z (fe_par env)) st (ec_cond ec)) (\<lambda>body.
          let model = decide sv (fw_reach fw (int b)) (goal_of (ec_mode ec) body) in
          Inr (dict_set b (if ec_mode ec = M_exists then model \<noteq> None else model = None) per,
               if w = None then map_option (Pair b) model else w))))"

definition exits_detail :: "(nat \<times> bool) list \<Rightarrow> string" where
  "exits_detail per =
     ''exits: '' @ concat (map2 (\<lambda>i (b, v). (if i = 0 then '''' else '', '') @ show_nat b @ ''='' @ (if v then ''ok'' else ''bad''))
       [0..<length per] (sort_key fst per))"

definition check_exit_condition ::
  "'m solver \<Rightarrow> fwd_env \<Rightarrow> forward \<Rightarrow> exit_condition \<Rightarrow> 'm check_result res" where
  "check_exit_condition sv env fw ec =
     (let live = live_exits env fw in
      if live = [] then
        Inr \<lparr>cr_name = ec_name ec, cr_kind = K_exit, cr_verdict = idle_verdict (ec_mode ec),
             cr_detail = ''no reachable exit'', cr_witness = None\<rparr>
      else
        ebind (efoldl (exit_step sv env fw ec) ([], None) live) (\<lambda>(per, w).
        let detail = exits_detail per @ (case w of None \<Rightarrow> '''' | Some (b, m) \<Rightarrow> '' | witness at exit '' @ show_nat b) @
              note_detail (sort (remdups (concat (map (dropped_effects env fw) live))));
            verdict = (if ec_mode ec = M_exists then (if list_ex snd per then V_sat else V_unsat)
                       else (if list_all snd per then V_holds else V_violated))
        in Inr \<lparr>cr_name = ec_name ec, cr_kind = K_exit, cr_verdict = verdict, cr_detail = detail, cr_witness = w\<rparr>))"

section \<open>Reachability\<close>

definition kind_name :: "block_kind \<Rightarrow> string" where
  "kind_name k = (case k of KBranch \<Rightarrow> ''branch'' | KJump \<Rightarrow> ''jump'' | KExit \<Rightarrow> ''exit'' | KFall \<Rightarrow> ''fall'')"

definition reach_result :: "nat \<Rightarrow> verdict \<Rightarrow> string \<Rightarrow> 'm check_result" where
  "reach_result b v d = \<lparr>cr_name = ''block'' @ show_nat b, cr_kind = K_reach, cr_verdict = v, cr_detail = d, cr_witness = None\<rparr>"

definition reach_step ::
  "'m solver \<Rightarrow> fwd_env \<Rightarrow> forward \<Rightarrow> nat \<Rightarrow> nat set \<times> 'm check_result list \<Rightarrow> nat \<Rightarrow> nat set \<times> 'm check_result list" where
  "reach_step sv env fw entry acc b =
     (let (dead, out) = acc; blk = fe_blocks env ! b; preds = b_preds blk in
      if b \<noteq> entry \<and> preds \<noteq> [] \<and> list_all (\<lambda>p. p \<in> dead \<or> dict_get (fw_info fw) p = None) preds
      then (insert b dead, out @ [reach_result b V_unsat (''kind='' @ kind_name (b_kind blk) @ ''; every predecessor is dead'')])
      else
        let live = decide sv (fw_reach fw (int b)) (Py True) \<noteq> None in
        (if live then dead else insert b dead,
         out @ [reach_result b (if live then V_sat else V_unsat) (''kind='' @ kind_name (b_kind blk))]))"

definition reach_report :: "'m solver \<Rightarrow> fwd_env \<Rightarrow> forward \<Rightarrow> 'm check_result list" where
  "reach_report sv env fw =
     (let order = sort (map fst (fw_info fw)) in
      case order of [] \<Rightarrow> [] | entry # _ \<Rightarrow> snd (foldl (reach_step sv env fw entry) ({}, []) order))"

text \<open>The return values among \<open>values\<close> that some exit can give.\<close>

definition return_query :: "'m solver \<Rightarrow> fwd_env \<Rightarrow> forward \<Rightarrow> int \<Rightarrow> nat \<Rightarrow> bool res" where
  "return_query sv env fw v b =
     ebind (ret_state env fw b) (\<lambda>st.
     case st of
       None \<Rightarrow> Inl AttributeError
     | Some st \<Rightarrow> Inr (decide sv (fw_reach fw (int b)) (Z (BvEq (zs_r0 st) (BitVecVal v 64))) \<noteq> None))"

definition reachable_return_values :: "'m solver \<Rightarrow> fwd_env \<Rightarrow> forward \<Rightarrow> int list \<Rightarrow> int list res" where
  "reachable_return_values sv env fw vs =
     (let exits = filter (\<lambda>b. ret_expr (fe_blocks env ! b) \<noteq> None) (live_exits env fw) in
      efoldl (\<lambda>out v.
          ebind (efoldl (\<lambda>found b. if found then Inr True else return_query sv env fw v b) False exits) (\<lambda>found.
          Inr (if found then out @ [v] else out))) [] vs)"

section \<open>The whole check\<close>

definition targets_of :: "policy list \<Rightarrow> bool \<Rightarrow> nat list option" where
  "targets_of policies reach_all =
     (if policies = [] \<or> reach_all \<or> list_ex (\<lambda>p. po_exits p \<noteq> []) policies then None
      else Some (sorted_list_of_set (set (concat (map (\<lambda>p. map bc_block (po_blocks p)) policies)))))"

definition context_for ::
  "fwd_params \<Rightarrow> policy list \<Rightarrow> tblock list \<Rightarrow> z3_state \<Rightarrow> bool \<Rightarrow> (fwd_env \<times> forward) res" where
  "context_for par policies blocks init reach_all =
     forward_context par blocks init (targets_of policies reach_all)
       (concat (map (\<lambda>p. map bc_cond (po_blocks p) @ map ec_cond (po_exits p)) policies)) True True"

definition check_policy ::
  "'m solver \<Rightarrow> fwd_params \<Rightarrow> policy \<Rightarrow> tblock list \<Rightarrow> z3_state \<Rightarrow> bool \<Rightarrow> 'm check_result list res" where
  "check_policy sv par pol blocks init reach_all =
     ebind (context_for par [pol] blocks init reach_all) (\<lambda>(env, fw).
     ebind (emap (check_block_condition sv env fw) (po_blocks pol)) (\<lambda>bs.
     ebind (emap (check_exit_condition sv env fw) (po_exits pol)) (\<lambda>es.
     Inr (bs @ es @ (if reach_all then reach_report sv env fw else [])))))"

end
