(* ===== verification/Checker_Exact.thy ===== *)
theory Checker_Exact
  imports Checker
begin

text \<open>
  What the verdicts of the checker mean, when the solver answers every query and its answers are
  right: a condition at a block or at the exits holds, or is violated, or is satisfiable, exactly as
  the verdict says, over the assignments whose path leads there.
\<close>

section \<open>The solver's promise\<close>

definition solver_ok :: "('m \<Rightarrow> bt \<Rightarrow> bool) \<Rightarrow> 'm solver \<Rightarrow> bool" where
  "solver_ok evb sv \<longleftrightarrow>
     (\<forall>cs. case sv_check sv cs of
        Sat m \<Rightarrow> list_all (evb m) cs
      | Unsat \<Rightarrow> (\<nexists>m. list_all (evb m) cs)
      | Unknown \<Rightarrow> False) \<and>
     (\<forall>m c. evb m (sv_simplify sv c) = evb m c)"

text \<open>The assignment takes a path from the entry to the block.\<close>

definition leads_to :: "('m \<Rightarrow> bt \<Rightarrow> bool) \<Rightarrow> tblock list \<Rightarrow> forward \<Rightarrow> 'm \<Rightarrow> nat \<Rightarrow> bool" where
  "leads_to evb blocks fw m b \<longleftrightarrow> (0, b) \<in> (taken_edges evb blocks (reach_info fw) m)\<^sup>*"

context smtlib begin

lemma decide_ok:
  assumes "solver_ok evb sv"
  shows "(decide sv g b = None) = (\<nexists>m. evl m g \<and> evl m b)"
    and "decide sv g b = Some m \<Longrightarrow> evl m g \<and> evl m b"
proof -
  have ask: "case sv_check sv cs of Sat m \<Rightarrow> list_all (evb m) cs | Unsat \<Rightarrow> (\<nexists>m. list_all (evb m) cs) | Unknown \<Rightarrow> False" for cs
    using assms unfolding solver_ok_def by blast
  have simp: "evb m (sv_simplify sv c) = evb m c" for m c using assms unfolding solver_ok_def by blast
  have "(decide sv g b = None) = (\<nexists>m. evl m (and_lit g b))" and "decide sv g b = Some m \<Longrightarrow> evl m (and_lit g b)"
  proof -
    consider "and_lit g b = Py False" | "and_lit g b = Py True" | c where "and_lit g b = Z c"
      by (metis (full_types) lit.exhaust)
    then have "(decide sv g b = None) = (\<nexists>m. evl m (and_lit g b)) \<and> (decide sv g b = Some m \<longrightarrow> evl m (and_lit g b))"
    proof cases
      case 2
      then show ?thesis using ask [of "[]"] by (cases "sv_check sv []") (simp_all add: decide_def query_def)
    next
      case (3 c)
      then show ?thesis using ask [of "[sv_simplify sv c]"]
        by (cases "sv_check sv [sv_simplify sv c]") (auto simp: decide_def query_def simp)
    qed (simp add: decide_def query_def)
    then show "(decide sv g b = None) = (\<nexists>m. evl m (and_lit g b))" and "decide sv g b = Some m \<Longrightarrow> evl m (and_lit g b)"
      by simp_all
  qed
  then show "(decide sv g b = None) = (\<nexists>m. evl m g \<and> evl m b)"
    and "decide sv g b = Some m \<Longrightarrow> evl m g \<and> evl m b" by (simp_all add: evl_and)
qed

lemma evl_goal: "evl m (goal_of mode body) = (evb m body = (mode = M_exists))"
  by (cases mode) (simp_all add: goal_of_def evl_not)

end

section \<open>The blocks the analysis covers\<close>

lemma live_set_target:
  assumes "wf_graph blocks" and "blocks \<noteq> []" and "live_set blocks (Some ts) = Inr live" and "t \<in> set ts"
    and "(0, t) \<in> (flow_of blocks)\<^sup>*"
  shows "t \<in> live"
proof -
  define L where "L = forward_reachable blocks"
  have L: "L = (flow_of blocks)\<^sup>* `` {0}" unfolding L_def by (rule forward_reachable_eq [OF assms(1,2)])
  have n: "L \<subseteq> {..<length blocks}" using blocks.flow_reach_bound [of 0 _ blocks] assms(1,2) by (auto simp: L)
  have "live = {0} \<union> (\<Union>t \<in> set ts \<inter> L. {a. (a, t) \<in> (flow_within blocks L)\<^sup>*})"
    using efoldl_union [of ts L "slice_to blocks L"] slice_to_eq [OF assms(1) n] assms(3)
    by (simp add: live_set_def L_def [symmetric])
  with assms(4,5) L show ?thesis by auto
qed

lemma walk_covers:
  assumes "efoldl (walk_block env) fw0 order = Inr fw" and "c \<in> set order"
  shows "dict_get (fw_info fw) c \<noteq> None"
  using assms
proof (induction order arbitrary: fw rule: rev_induct)
  case (snoc b order)
  then obtain fw1 where f: "efoldl (walk_block env) fw0 order = Inr fw1" "walk_block env fw1 b = Inr fw"
    by (auto simp: efoldl_append ebind_eq_Inr)
  then show ?case using snoc.IH [OF f(1)] snoc.prems(2) by (elim walk_blockE) auto
qed simp

lemma forward_covers:
  assumes "smtlib (fp_z par) ev evb eva evab" and wf: "wf_graph blocks" and "blocks \<noteq> []"
    and run: "forward_context par blocks init targets trees True hybrid = Inr (env, fw)"
    and "targets = None \<or> b \<in> set (the targets)" and lead: "leads_to evb blocks fw m b"
  shows "\<exists>pi. dict_get (fw_info fw) b = Some pi"
proof -
  obtain live order fw1 where p: "live \<subseteq> {..<length blocks}" "blocks.topological blocks live order"
    "live_set blocks targets = Inr live" "env = forward_env par blocks init live order trees True hybrid"
    "efoldl (walk_block env) fresh_forward order = Inr fw1" "fw = fw1\<lparr>fw_cur := None\<rparr>"
    "targets = None \<Longrightarrow> live = (flow_of blocks)\<^sup>* `` {0}"
    by (rule forward_parts [OF wf assms(3) run], rule that, simp_all)
  have src: "x \<in> live" if "(x, y) \<in> taken_edges evb blocks (reach_info fw) m" for x y
  proof -
    from that obtain i where "dict_get (fw_info fw1) x = Some i"
      by (auto simp: taken_edges_def dict_get_reach_info p(6))
    then show ?thesis using walk_at(1) [OF wf p(1,2) _ p(5)] p(4) by simp
  qed
  have "taken_edges evb blocks (reach_info fw) m \<subseteq> flow_of blocks"
  proof (rule subrelI)
    fix x y assume xy: "(x, y) \<in> taken_edges evb blocks (reach_info fw) m"
    have "x < length blocks" using src [OF xy] p(1) by auto
    with smtlib.enabled_flow [OF assms(1) wf xy] show "(x, y) \<in> flow_of blocks" .
  qed
  then have "(taken_edges evb blocks (reach_info fw) m)\<^sup>* \<subseteq> (flow_of blocks)\<^sup>*" by (rule rtrancl_mono)
  then have flow: "(0, b) \<in> (flow_of blocks)\<^sup>*" using lead by (auto simp: leads_to_def)
  have "b \<in> live"
  proof (cases targets)
    case None
    with p(7) flow show ?thesis by simp
  next
    case (Some ts)
    with live_set_target [OF wf assms(3) _ _ flow] p(3) assms(5) show ?thesis by simp
  qed
  then have "b \<in> set order" using p(2) by (simp add: blocks.topological_def)
  with walk_covers [OF p(5)] show ?thesis by (simp add: p(6))
qed

lemma final_reach:
  assumes "forward_context par blocks init targets trees prune hybrid = Inr (env, fw)"
  shows "fw_reach fw (int b) = (case dict_get (fw_info fw) b of None \<Rightarrow> Py False | Some pi \<Rightarrow> wi_reach pi)"
proof -
  have "fw_cur fw = None"
    using assms by (auto simp: forward_context_def walk_def Let_def ebind_eq_Inr)
  then show ?thesis by (simp add: fw_reach_def info_at_def)
qed

lemma reach_leads:
  assumes "smtlib (fp_z par) ev evb eva evab" and "wf_graph blocks" and "blocks \<noteq> []"
    and "forward_context par blocks init targets trees True hybrid = Inr (env, fw)"
    and "targets = None \<or> b \<in> set (the targets)"
  shows "lit_holds evb m (fw_reach fw (int b)) = leads_to evb blocks fw m b"
proof (cases "dict_get (fw_info fw) b")
  case None
  then have "\<not> leads_to evb blocks fw m b" using forward_covers [OF assms] by auto
  then show ?thesis using None by (simp add: final_reach [OF assms(4)] lit_holds_def)
next
  case (Some pi)
  from forward_conditions [OF assms(1-4) Some, of m] Some show ?thesis
    by (simp add: final_reach [OF assms(4)] leads_to_def)
qed

section \<open>Conditions at a block\<close>

definition mode_verdict :: "assert_mode \<Rightarrow> bool \<Rightarrow> verdict" where
  "mode_verdict mode found =
     (if mode = M_exists then (if found then V_sat else V_unsat) else (if found then V_violated else V_holds))"

lemma targets_cover:
  assumes "pol \<in> set policies" and "bc \<in> set (po_blocks pol)"
  shows "targets_of policies reach_all = None \<or> bc_block bc \<in> set (the (targets_of policies reach_all))"
  using assms by (auto simp: targets_of_def)

lemma block_verdict:
  assumes lib: "smtlib (fp_z par) ev evb eva evab" and "wf_graph blocks" and "blocks \<noteq> []" and sv: "solver_ok evb sv"
    and run: "context_for par policies blocks init reach_all = Inr (env, fw)"
    and "pol \<in> set policies" and "bc \<in> set (po_blocks pol)"
    and reg: "regular_state (fp_z par) (state_at env fw (bc_block bc))"
      "regular_node (fp_z par) (state_at env fw (bc_block bc)) (bc_cond bc)"
  defines "holds m \<equiv> node_holds ev evb eva evab (fp_z par) (state_at env fw (bc_block bc)) m (bc_cond bc)"
  shows "\<exists>r. check_block_condition sv env fw bc = Inr r \<and>
    cr_verdict r = mode_verdict (bc_mode bc)
      (\<exists>m. leads_to evb blocks fw m (bc_block bc) \<and> holds m = (bc_mode bc = M_exists)) \<and>
    (case cr_witness r of None \<Rightarrow> True
     | Some (b, m) \<Rightarrow> b = bc_block bc \<and> leads_to evb blocks fw m b \<and> holds m = (bc_mode bc = M_exists))"
proof -
  let ?b = "bc_block bc"
  note ctx = run [unfolded context_for_def]
  have par: "fe_par env = par" by (rule forward_parts [OF assms(2,3) ctx]) simp
  have lead: "lit_holds evb m (fw_reach fw (int ?b)) = leads_to evb blocks fw m ?b" for m
    by (rule reach_leads [OF lib assms(2,3) ctx targets_cover [OF assms(6,7)]])
  obtain body where body: "node_z3 (fp_z par) (state_at env fw ?b) (bc_cond bc) = Inr body"
    using smtlib.node_run [OF lib reg] by blast
  have holds: "evb m body = holds m" for m
    using smtlib.node_run [OF lib reg, of m] body by (auto simp: holds_def)
  note dec = smtlib.decide_ok [OF lib sv, of "fw_reach fw (int ?b)" "goal_of (bc_mode bc) body", unfolded lead smtlib.evl_goal [OF lib] holds]
  consider (dead) "dict_get (fw_info fw) ?b = None \<or> fw_reach fw (int ?b) = Py False"
    | (live) pi where "dict_get (fw_info fw) ?b = Some pi" "fw_reach fw (int ?b) \<noteq> Py False" by fastforce
  then show ?thesis
  proof cases
    case dead
    then have "fw_reach fw (int ?b) = Py False" by (auto simp: final_reach [OF ctx])
    then have "\<not> leads_to evb blocks fw m ?b" for m using lead [of m] by (simp add: lit_holds_def)
    then show ?thesis using dead
      by (auto simp: check_block_condition_def Let_def idle_verdict_def mode_verdict_def split: option.split)
  next
    case live
    then show ?thesis using dec
      by (auto simp: check_block_condition_def Let_def par body mode_verdict_def split: option.split)
  qed
qed

section \<open>Conditions at the exits\<close>

lemma dict_snd:
  assumes "distinct (map fst d)"
  shows "list_ex snd d = (\<exists>k. dict_get d k = Some True)" and "list_all snd d = (\<nexists>k. dict_get d k = Some False)"
proof -
  have g: "(dict_get d k = Some v) = ((k, v) \<in> set d)" for k v using assms by (simp add: map_of_eq_Some_iff)
  have "(\<exists>x \<in> set d. snd x) = (\<exists>k. (k, True) \<in> set d)" by force
  then show "list_ex snd d = (\<exists>k. dict_get d k = Some True)" by (simp add: list_ex_iff g)
  have "(\<forall>x \<in> set d. snd x) = (\<nexists>k. (k, False) \<in> set d)" by (metis (full_types) prod.collapse snd_conv)
  then show "list_all snd d = (\<nexists>k. dict_get d k = Some False)" by (simp add: list_all_iff g)
qed

text \<open>The loop over the exits, when \<open>model b\<close> is what the solver says for an exit with a value.\<close>

lemma exit_loop:
  assumes step: "\<And>b per w. b \<in> set bs \<Longrightarrow> exit_step sv env fw ec (per, w) b =
      (if V b then Inr (dict_set b (if ec_mode ec = M_exists then model b \<noteq> None else model b = None) per,
                        if w = None then map_option (Pair b) (model b) else w)
       else Inr (per, w))"
  shows "\<exists>per w. efoldl (exit_step sv env fw ec) ([], None) bs = Inr (per, w) \<and> distinct (map fst per) \<and>
    (\<forall>b. dict_get per b = (if b \<in> set bs \<and> V b then Some (if ec_mode ec = M_exists then model b \<noteq> None else model b = None) else None)) \<and>
    (\<forall>b m. w = Some (b, m) \<longrightarrow> b \<in> set bs \<and> V b \<and> model b = Some m)"
  using assms
proof (induction bs rule: rev_induct)
  case (snoc b bs)
  then obtain per w where r: "efoldl (exit_step sv env fw ec) ([], None) bs = Inr (per, w)" "distinct (map fst per)"
    "\<forall>b. dict_get per b = (if b \<in> set bs \<and> V b then Some (if ec_mode ec = M_exists then model b \<noteq> None else model b = None) else None)"
    "\<forall>b m. w = Some (b, m) \<longrightarrow> b \<in> set bs \<and> V b \<and> model b = Some m" by auto
  note st = snoc.prems [of b per w]
  show ?case
  proof (cases "V b")
    case True
    then show ?thesis using r st by (auto simp: efoldl_append distinct_update split: if_splits)
  next
    case False
    then have "efoldl (exit_step sv env fw ec) ([], None) (bs @ [b]) = Inr (per, w)" using r(1) st by (simp add: efoldl_append)
    with r(2-4) False show ?thesis by (intro exI [of _ per] exI [of _ w]) auto
  qed
qed simp

definition regular_exit :: "z3_queries \<Rightarrow> fwd_env \<Rightarrow> forward \<Rightarrow> cond_node \<Rightarrow> nat \<Rightarrow> bool" where
  "regular_exit z env fw c b \<longleftrightarrow>
     (case ret_state env fw b of
        Inl e \<Rightarrow> False
      | Inr None \<Rightarrow> True
      | Inr (Some st) \<Rightarrow> regular_state z st \<and> regular_node z st c)"

text \<open>An exit with a return value, where the condition has the given truth value.\<close>

definition exit_has ::
  "(z3_state \<Rightarrow> bool) \<Rightarrow> fwd_env \<Rightarrow> forward \<Rightarrow> bool \<Rightarrow> nat \<Rightarrow> bool" where
  "exit_has holds env fw v b \<longleftrightarrow>
     (case ret_state env fw b of Inr (Some st) \<Rightarrow> holds st = v | _ \<Rightarrow> False)"

lemma live_exits_mem:
  assumes "smtlib (fp_z par) ev evb eva evab" and "wf_graph blocks" and "blocks \<noteq> []"
    and run: "forward_context par blocks init None trees True hybrid = Inr (env, fw)"
    and "b \<in> set (exit_blocks blocks)" and "leads_to evb blocks fw m b"
  shows "b \<in> set (live_exits env fw)"
proof -
  obtain pi where pi: "dict_get (fw_info fw) b = Some pi"
    using forward_covers [OF assms(1-4) _ assms(6)] by blast
  have "lit_holds evb m (fw_reach fw (int b))"
    using reach_leads [OF assms(1-4), of b m] assms(6) by simp
  then have "fw_reach fw (int b) \<noteq> Py False" by (auto simp: lit_holds_def)
  moreover have "fe_blocks env = blocks" by (rule forward_parts [OF assms(2,3) run]) simp
  ultimately show ?thesis using pi assms(5) by (simp add: live_exits_def)
qed

lemma exit_verdict:
  assumes lib: "smtlib (fp_z par) ev evb eva evab" and "wf_graph blocks" and "blocks \<noteq> []" and sv: "solver_ok evb sv"
    and run: "context_for par policies blocks init reach_all = Inr (env, fw)"
    and "pol \<in> set policies" and "ec \<in> set (po_exits pol)"
    and reg: "list_all (regular_exit (fp_z par) env fw (ec_cond ec)) (live_exits env fw)"
  defines "holds m \<equiv> \<lambda>st. node_holds ev evb eva evab (fp_z par) st m (ec_cond ec)"
  shows "\<exists>r. check_exit_condition sv env fw ec = Inr r \<and>
    cr_verdict r = mode_verdict (ec_mode ec)
      (\<exists>m b. b \<in> set (exit_blocks blocks) \<and> leads_to evb blocks fw m b \<and> exit_has (holds m) env fw (ec_mode ec = M_exists) b) \<and>
    (case cr_witness r of None \<Rightarrow> True
     | Some (b, m) \<Rightarrow> b \<in> set (exit_blocks blocks) \<and> leads_to evb blocks fw m b \<and> exit_has (holds m) env fw (ec_mode ec = M_exists) b)"
proof -
  have "targets_of policies reach_all = None" using assms(6,7) by (auto simp: targets_of_def list_ex_iff)
  then obtain trees where ctx: "forward_context par blocks init None trees True True = Inr (env, fw)"
    using run by (simp add: context_for_def)
  have env: "fe_par env = par" "fe_blocks env = blocks" by (rule forward_parts [OF assms(2,3) ctx], simp)+
  have lead: "lit_holds evb m (fw_reach fw (int b)) = leads_to evb blocks fw m b" for m b
    using reach_leads [OF lib assms(2,3) ctx, of b m] by simp
  define V where "V b \<longleftrightarrow> (\<exists>st. ret_state env fw b = Inr (Some st))" for b
  define model where "model b = (case ret_state env fw b of Inr (Some st) \<Rightarrow>
      (case node_z3 (fp_z par) st (ec_cond ec) of Inr body \<Rightarrow> decide sv (fw_reach fw (int b)) (goal_of (ec_mode ec) body) | Inl e \<Rightarrow> None)
    | _ \<Rightarrow> None)" for b
  have node: "\<exists>body. node_z3 (fp_z par) st (ec_cond ec) = Inr body \<and> (\<forall>m. evb m body = holds m st)"
    if "b \<in> set (live_exits env fw)" "ret_state env fw b = Inr (Some st)" for b st
  proof -
    have r: "regular_state (fp_z par) st" "regular_node (fp_z par) st (ec_cond ec)"
      using reg that by (auto simp: list_all_iff regular_exit_def)
    obtain body where body: "node_z3 (fp_z par) st (ec_cond ec) = Inr body" using smtlib.node_run [OF lib r] by blast
    moreover have "evb m body = holds m st" for m using smtlib.node_run [OF lib r, of m] body by (auto simp: holds_def)
    ultimately show ?thesis by blast
  qed
  have step: "exit_step sv env fw ec (per, w) b =
      (if V b then Inr (dict_set b (if ec_mode ec = M_exists then model b \<noteq> None else model b = None) per,
                        if w = None then map_option (Pair b) (model b) else w)
       else Inr (per, w))" if b: "b \<in> set (live_exits env fw)" for b per w
  proof -
    have "regular_exit (fp_z par) env fw (ec_cond ec) b" using reg b by (simp add: list_all_iff)
    then obtain so where so: "ret_state env fw b = Inr so" by (auto simp: regular_exit_def split: sum.splits)
    show ?thesis
    proof (cases so)
      case None
      then show ?thesis using so by (simp add: exit_step_def V_def)
    next
      case (Some st)
      obtain body where "node_z3 (fp_z par) st (ec_cond ec) = Inr body" using node [OF b] so Some by blast
      then show ?thesis using so Some by (simp add: exit_step_def V_def model_def env Let_def)
    qed
  qed
  have model: "(model b \<noteq> None) = (\<exists>m. leads_to evb blocks fw m b \<and> exit_has (holds m) env fw (ec_mode ec = M_exists) b)"
    "model b = Some m \<Longrightarrow> leads_to evb blocks fw m b \<and> exit_has (holds m) env fw (ec_mode ec = M_exists) b"
    if b: "b \<in> set (live_exits env fw)" for b m
  proof -
    have "(model b \<noteq> None) = (\<exists>m. leads_to evb blocks fw m b \<and> exit_has (holds m) env fw (ec_mode ec = M_exists) b) \<and>
      (model b = Some m \<longrightarrow> leads_to evb blocks fw m b \<and> exit_has (holds m) env fw (ec_mode ec = M_exists) b)"
    proof (cases "V b")
      case True
      then obtain st where st: "ret_state env fw b = Inr (Some st)" by (auto simp: V_def)
      obtain body where body: "node_z3 (fp_z par) st (ec_cond ec) = Inr body" "\<forall>m. evb m body = holds m st"
        using node [OF b st] by blast
      have h: "lit_holds evb m (goal_of (ec_mode ec) body) = (holds m st = (ec_mode ec = M_exists))" for m
        using smtlib.evl_goal [OF lib] body(2) by simp
      show ?thesis
        using smtlib.decide_ok [OF lib sv, of "fw_reach fw (int b)" "goal_of (ec_mode ec) body", unfolded lead h]
        by (simp add: model_def st body(1) exit_has_def)
    qed (auto simp: V_def model_def exit_has_def split: sum.splits option.splits)
    then show "(model b \<noteq> None) = (\<exists>m. leads_to evb blocks fw m b \<and> exit_has (holds m) env fw (ec_mode ec = M_exists) b)"
      "model b = Some m \<Longrightarrow> leads_to evb blocks fw m b \<and> exit_has (holds m) env fw (ec_mode ec = M_exists) b" by auto
  qed
  have sub: "b \<in> set (exit_blocks blocks)" if "b \<in> set (live_exits env fw)" for b
    using that by (simp add: live_exits_def env)
  let ?found = "\<exists>m b. b \<in> set (exit_blocks blocks) \<and> leads_to evb blocks fw m b \<and> exit_has (holds m) env fw (ec_mode ec = M_exists) b"
  have found: "?found = (\<exists>b \<in> set (live_exits env fw). model b \<noteq> None)"
  proof
    assume ?found
    then obtain m b where mb: "b \<in> set (exit_blocks blocks)" "leads_to evb blocks fw m b" "exit_has (holds m) env fw (ec_mode ec = M_exists) b"
      by blast
    with live_exits_mem [OF lib assms(2,3) ctx mb(1,2)] model(1) show "\<exists>b \<in> set (live_exits env fw). model b \<noteq> None" by blast
  next
    assume "\<exists>b \<in> set (live_exits env fw). model b \<noteq> None"
    then show ?found using model(1) sub by blast
  qed
  obtain per w where r: "efoldl (exit_step sv env fw ec) ([], None) (live_exits env fw) = Inr (per, w)" "distinct (map fst per)"
    "\<forall>b. dict_get per b = (if b \<in> set (live_exits env fw) \<and> V b then Some (if ec_mode ec = M_exists then model b \<noteq> None else model b = None) else None)"
    "\<forall>b m. w = Some (b, m) \<longrightarrow> b \<in> set (live_exits env fw) \<and> V b \<and> model b = Some m"
    using exit_loop [OF step] by blast
  have V: "V b" if "model b \<noteq> None" for b
    using that by (auto simp: model_def V_def split: sum.splits option.splits)
  have ex: "list_ex snd per = ?found" if "ec_mode ec = M_exists"
    unfolding found dict_snd(1) [OF r(2)] using r(3) that V by auto
  have al: "list_all snd per = (\<not> ?found)" if "ec_mode ec \<noteq> M_exists"
    unfolding found dict_snd(2) [OF r(2)] using r(3) that V by auto
  show ?thesis
  proof (cases "live_exits env fw = []")
    case True
    then have nf: "?found = False" unfolding found by simp
    show ?thesis unfolding nf using True by (auto simp: check_exit_condition_def idle_verdict_def mode_verdict_def)
  next
    case False
    define res where "res = (if ec_mode ec = M_exists then (if list_ex snd per then V_sat else V_unsat)
                       else (if list_all snd per then V_holds else V_violated))"
    have "res = mode_verdict (ec_mode ec) ?found"
      using ex al by (cases "ec_mode ec = M_exists") (simp_all only: res_def mode_verdict_def if_True if_False, auto)
    moreover have "\<exists>d. check_exit_condition sv env fw ec =
        Inr \<lparr>cr_name = ec_name ec, cr_kind = K_exit, cr_verdict = res, cr_detail = d, cr_witness = w\<rparr>"
      using False r(1) by (simp add: check_exit_condition_def Let_def res_def)
    moreover have "case w of None \<Rightarrow> True
       | Some (b, m) \<Rightarrow> b \<in> set (exit_blocks blocks) \<and> leads_to evb blocks fw m b \<and> exit_has (holds m) env fw (ec_mode ec = M_exists) b"
      using r(4) model(2) sub by (auto split: option.splits)
    ultimately show ?thesis by auto
  qed
qed

section \<open>Reachability and return values\<close>

lemma leads_last:
  assumes "smtlib (fp_z par) ev evb eva evab" and wf: "wf_graph blocks" and "blocks \<noteq> []"
    and run: "forward_context par blocks init None trees True hybrid = Inr (env, fw)"
    and b: "leads_to evb blocks fw m b" "b \<noteq> 0"
  shows "\<exists>p \<in> set (b_preds (blocks ! b)). dict_get (fw_info fw) p \<noteq> None \<and> leads_to evb blocks fw m p"
proof -
  from b obtain p where p: "leads_to evb blocks fw m p" "(p, b) \<in> taken_edges evb blocks (reach_info fw) m"
    unfolding leads_to_def by (auto elim: rtranclE)
  obtain pi where pi: "dict_get (fw_info fw) p = Some pi" using forward_covers [OF assms(1-4) _ p(1)] by blast
  obtain live order fw1 where l: "live \<subseteq> {..<length blocks}" "blocks.topological blocks live order"
    "env = forward_env par blocks init live order trees True hybrid"
    "efoldl (walk_block env) fresh_forward order = Inr fw1" "fw = fw1\<lparr>fw_cur := None\<rparr>"
    by (rule forward_parts [OF wf assms(3) run])
  have "p \<in> live" using walk_at(1) [OF wf l(1,2) _ l(4), of p pi] pi l(3,5) by simp
  then have "(p, b) \<in> flow_of blocks" using smtlib.enabled_flow [OF assms(1) wf p(2)] l(1) by auto
  then have "p \<in> set (b_preds (blocks ! b))"
    using blocks.flow_preds [OF wf, of b p] blocks.flow_bound [OF wf] by blast
  with p(1) pi show ?thesis by auto
qed

lemma reach_loop_exact:
  assumes "smtlib (fp_z par) ev evb eva evab" and wf: "wf_graph blocks" and "blocks \<noteq> []" and sv: "solver_ok evb sv"
    and run: "forward_context par blocks init None trees True hybrid = Inr (env, fw)"
  defines "live b \<equiv> \<exists>m. leads_to evb blocks fw m b"
  shows "\<forall>d \<in> dead. \<not> live d \<Longrightarrow>
    (\<lambda>(dead, out). (\<forall>d \<in> dead. \<not> live d) \<and> map (\<lambda>r. (cr_name r, cr_verdict r)) out =
        map (\<lambda>r. (cr_name r, cr_verdict r)) out0 @ map (\<lambda>b. (''block'' @ show_nat b, if live b then V_sat else V_unsat)) bs)
      (foldl (reach_step sv env fw 0) (dead, out0) bs)"
proof (induction bs arbitrary: dead out0)
  case (Cons b bs)
  have env: "fe_blocks env = blocks" by (rule forward_parts [OF assms(2,3) run]) simp
  have lead: "lit_holds evb m (fw_reach fw (int b)) = leads_to evb blocks fw m b" for m
    using reach_leads [OF assms(1-3) run, of b m] by simp
  let ?short = "b \<noteq> 0 \<and> b_preds (blocks ! b) \<noteq> [] \<and> list_all (\<lambda>p. p \<in> dead \<or> dict_get (fw_info fw) p = None) (b_preds (blocks ! b))"
  have short: "\<not> live b" if ?short
  proof
    assume "live b"
    then obtain m where m: "leads_to evb blocks fw m b" by (auto simp: live_def)
    with leads_last [OF assms(1-3) run m] that obtain p where "p \<in> dead" "leads_to evb blocks fw m p"
      by (auto simp: list_all_iff)
    with Cons.prems show False by (auto simp: live_def)
  qed
  have dec: "(decide sv (fw_reach fw (int b)) (Py True) \<noteq> None) = live b"
  proof -
    have "lit_holds evb m (Py True)" for m by (simp add: lit_holds_def)
    with smtlib.decide_ok(1) [OF assms(1) sv, of "fw_reach fw (int b)" "Py True", unfolded lead] show ?thesis
      by (simp add: live_def)
  qed
  obtain dead1 r where s: "reach_step sv env fw 0 (dead, out0) b = (dead1, out0 @ [r])"
    "\<forall>d \<in> dead1. \<not> live d" "cr_name r = ''block'' @ show_nat b" "cr_verdict r = (if live b then V_sat else V_unsat)"
  proof (cases ?short)
    case True
    show thesis
      by (rule that [of "insert b dead" "reach_result b V_unsat (''kind='' @ kind_name (b_kind (blocks ! b)) @ ''; every predecessor is dead'')"])
         (use True short Cons.prems in \<open>simp_all add: reach_step_def env Let_def reach_result_def\<close>)
  next
    case False
    have "reach_step sv env fw 0 (dead, out0) b = (if live b then dead else insert b dead,
        out0 @ [reach_result b (if live b then V_sat else V_unsat) (''kind='' @ kind_name (b_kind (blocks ! b)))])"
      unfolding reach_step_def Let_def prod.case env if_not_P [OF False] dec ..
    then show thesis by (rule that) (use Cons.prems in \<open>simp_all add: reach_result_def\<close>)
  qed
  show ?case using Cons.IH [OF s(2), of "out0 @ [r]"] s(1,3,4) by simp
qed simp

lemma zero_covered:
  assumes "wf_graph blocks" and "blocks \<noteq> []"
    and "forward_context par blocks init targets trees prune hybrid = Inr (env, fw)"
  shows "dict_get (fw_info fw) 0 \<noteq> None"
proof -
  obtain live order fw1 where l: "0 \<in> live" "blocks.topological blocks live order"
    "efoldl (walk_block env) fresh_forward order = Inr fw1" "fw = fw1\<lparr>fw_cur := None\<rparr>"
    by (rule forward_parts [OF assms])
  then have "0 \<in> set order" by (simp add: blocks.topological_def)
  with walk_covers [OF l(3)] l(4) show ?thesis by simp
qed

lemma report_exact:
  assumes "smtlib (fp_z par) ev evb eva evab" and wf: "wf_graph blocks" and "blocks \<noteq> []" and sv: "solver_ok evb sv"
    and run: "forward_context par blocks init None trees True hybrid = Inr (env, fw)"
  shows "map (\<lambda>r. (cr_name r, cr_verdict r)) (reach_report sv env fw) =
    map (\<lambda>b. (''block'' @ show_nat b, if \<exists>m. leads_to evb blocks fw m b then V_sat else V_unsat)) (sort (map fst (fw_info fw)))"
proof -
  have "0 \<in> set (map fst (fw_info fw))"
    using zero_covered [OF assms(2,3) run] by (auto simp: map_of_eq_None_iff)
  then have z: "0 \<in> set (sort (map fst (fw_info fw)))" by simp
  obtain e es where o: "sort (map fst (fw_info fw)) = e # es" using z by (cases "sort (map fst (fw_info fw))") auto
  have "sorted (e # es)" unfolding o [symmetric] by simp
  then have "e = 0" using z o by auto
  then have "reach_report sv env fw = snd (foldl (reach_step sv env fw 0) ({}, []) (sort (map fst (fw_info fw))))"
    by (simp add: reach_report_def o)
  with reach_loop_exact [OF assms(1-3) sv run, of "{}" "[]" "sort (map fst (fw_info fw))"]
  show ?thesis by (auto simp: case_prod_unfold)
qed

definition returns_value ::
  "('m \<Rightarrow> bvt \<Rightarrow> int) \<Rightarrow> ('m \<Rightarrow> bt \<Rightarrow> bool) \<Rightarrow> tblock list \<Rightarrow> fwd_env \<Rightarrow> forward \<Rightarrow> 'm \<Rightarrow> nat \<Rightarrow> int \<Rightarrow> bool" where
  "returns_value ev evb blocks env fw m b v \<longleftrightarrow>
     b \<in> set (exit_blocks blocks) \<and> leads_to evb blocks fw m b \<and> exit_has (\<lambda>st. ev m (zs_r0 st) = take_bit 64 v) env fw True b"

lemma return_values_exact:
  assumes lib: "smtlib (fp_z par) ev evb eva evab" and wf: "wf_graph blocks" and "blocks \<noteq> []" and sv: "solver_ok evb sv"
    and run: "forward_context par blocks init None trees True hybrid = Inr (env, fw)"
    and reg: "list_all (\<lambda>b. case ret_state env fw b of Inl e \<Rightarrow> False | Inr None \<Rightarrow> True
                | Inr (Some st) \<Rightarrow> z_size (fp_z par) (zs_r0 st) = 64) (live_exits env fw)"
  shows "reachable_return_values sv env fw vs = Inr (filter (\<lambda>v. \<exists>m b. returns_value ev evb blocks env fw m b v) vs)"
proof -
  have env: "fe_par env = par" "fe_blocks env = blocks" by (rule forward_parts [OF assms(2,3) run], simp)+
  have lead: "lit_holds evb m (fw_reach fw (int b)) = leads_to evb blocks fw m b" for m b
    using reach_leads [OF assms(1-3) run, of b m] by simp
  define exits where "exits = filter (\<lambda>b. ret_expr (blocks ! b) \<noteq> None) (live_exits env fw)"
  have some: "(\<exists>st. ret_state env fw b = Inr (Some st)) = (ret_expr (blocks ! b) \<noteq> None)" if "b \<in> set (live_exits env fw)" for b
  proof -
    have "case ret_state env fw b of Inl e \<Rightarrow> False | Inr None \<Rightarrow> True | Inr (Some st) \<Rightarrow> z_size (fp_z par) (zs_r0 st) = 64"
      using reg that by (simp add: list_all_iff)
    then show ?thesis
      by (auto simp: ret_state_def env ebind_eq_Inr split: option.splits sum.splits)
  qed
  have q: "return_query sv env fw v b = Inr (\<exists>m. returns_value ev evb blocks env fw m b v)" if b: "b \<in> set exits" for v b
  proof -
    from b some obtain st where st: "ret_state env fw b = Inr (Some st)" by (auto simp: exits_def)
    have "b \<in> set (live_exits env fw)" using b by (simp add: exits_def)
    then have size: "z_size (fp_z par) (zs_r0 st) = 64" and mem: "b \<in> set (exit_blocks blocks)"
      using reg st by (auto simp: list_all_iff live_exits_def env)
    have h: "lit_holds evb m (Z (BvEq (zs_r0 st) (BitVecVal v 64))) = (ev m (zs_r0 st) = take_bit 64 v)" for m
      using smtlib.evb_BvEq [OF lib] smtlib.size_BitVecVal [OF lib] smtlib.ev_BitVecVal [OF lib] size by (simp add: lit_holds_def)
    show ?thesis
      using smtlib.decide_ok(1) [OF lib sv, of "fw_reach fw (int b)" "Z (BvEq (zs_r0 st) (BitVecVal v 64))", unfolded lead h] mem
      by (auto simp: return_query_def st returns_value_def exit_has_def)
  qed
  have inner: "efoldl (\<lambda>found b. if found then Inr True else return_query sv env fw v b) found bs =
      Inr (found \<or> (\<exists>b \<in> set bs. \<exists>m. returns_value ev evb blocks env fw m b v))" if "set bs \<subseteq> set exits" for v found bs
    using that by (induction bs arbitrary: found) (auto simp: q)
  have all: "(\<exists>b \<in> set exits. \<exists>m. returns_value ev evb blocks env fw m b v) = (\<exists>m b. returns_value ev evb blocks env fw m b v)" for v
  proof -
    have "b \<in> set exits" if r: "returns_value ev evb blocks env fw m b v" for m b
    proof -
      have "b \<in> set (live_exits env fw)"
        using r live_exits_mem [OF lib assms(2,3) run] by (auto simp: returns_value_def)
      moreover have "\<exists>st. ret_state env fw b = Inr (Some st)"
        using r by (auto simp: returns_value_def exit_has_def split: sum.splits option.splits)
      ultimately show ?thesis using some by (simp add: exits_def)
    qed
    then show ?thesis by blast
  qed
  have "efoldl (\<lambda>out v. ebind (efoldl (\<lambda>found b. if found then Inr True else return_query sv env fw v b) False exits)
        (\<lambda>found. Inr (if found then out @ [v] else out))) out vs =
      Inr (out @ filter (\<lambda>v. \<exists>m b. returns_value ev evb blocks env fw m b v) vs)" for out
    by (induction vs arbitrary: out) (auto simp: inner all)
  then show ?thesis by (simp add: reachable_return_values_def exits_def env Let_def)
qed

section \<open>Two assignments\<close>

text \<open>For the witnesses: an analysis over two assignments, which a solver can try in turn.\<close>

definition two_env :: "bool \<Rightarrow> smt_env" where
  "two_env m = demo_env\<lparr>e_bool := \<lambda>_. m\<rparr>"

definition two_solver :: "bool solver" where
  "two_solver = \<lparr>sv_check = (\<lambda>cs. if list_all (eval_b (two_env True)) cs then Sat True
      else if list_all (eval_b (two_env False)) cs then Sat False else Unsat), sv_simplify = (\<lambda>c. c)\<rparr>"

lemma smtlib_along: "smtlib z ev evb eva evab \<Longrightarrow> smtlib z (\<lambda>m. ev (f m)) (\<lambda>m. evb (f m)) (\<lambda>m. eva (f m)) (\<lambda>m. evab (f m))"
  by (simp add: smtlib_def)

lemma two_lib: "smtlib (fp_z demo_params) (\<lambda>m. eval_bv (two_env m)) (\<lambda>m. eval_b (two_env m)) (\<lambda>m. eval_a (two_env m)) (\<lambda>m. eval_ab (two_env m))"
  by (rule smtlib_along [OF demo_params_ok(1)])

lemma two_solver_ok: "solver_ok (\<lambda>m. eval_b (two_env m)) two_solver"
  by (simp add: solver_ok_def two_solver_def all_bool_eq)

lemma demo_call_z3: "expr_opt_z3 z st (Some demo_call) = Inr (BitVec ''func5_0'' 64)"
proof -
  have "''func'' @ show_int 5 @ ''_'' @ show_int 0 = ''func5_0''" by code_simp
  then show ?thesis by (simp add: demo_call_def expr_opt_z3_def enc_opt_def func_retval_z3_def)
qed

text \<open>At the last block the queue is to be 7 and the helper call of the block to return 0.\<close>

definition demo_policy :: policy where
  "demo_policy = \<lparr>po_blocks = [\<lparr>bc_name = ''queue'', bc_block = 3, bc_mode = M_all,
       bc_cond = CAnd [CLeaf (ScalarAtom T_rx_index 7), CLeaf (HelperScalar 5 0 8 OpEq 0 (Some demo_call))]\<rparr>],
     po_exits = [\<lparr>ec_name = ''pass'', ec_mode = M_all, ec_cond = CLeaf (RetAtom OpEq 2)\<rparr>]\<rparr>"

lemma demo_context: "context_for demo_params [demo_policy] demo_diamond (make_init_state [] []) reach_all = demo_forward"
  by (simp add: context_for_def targets_of_def demo_policy_def demo_forward_def demo_trees_def)

lemma demo_checked:
  obtains env fw where "demo_forward = Inr (env, fw)"
    and "regular_state (fp_z demo_params) (state_at env fw 3)"
    and "live_exits env fw = [3]"
    and "ret_state env fw 3 = Inr (Some ((state_at env fw 3)\<lparr>zs_r0 := Concat [BitVecVal 0 32, BitVecVal 2 32]\<rparr>))"
    and "regular_state (fp_z demo_params) ((state_at env fw 3)\<lparr>zs_r0 := Concat [BitVecVal 0 32, BitVecVal 2 32]\<rparr>)"
proof -
  obtain env fw pi where r: "demo_forward = Inr (env, fw)" "dict_get (fw_info fw) 3 = Some pi"
    "env = forward_env demo_params demo_diamond (make_init_state [] []) {0, 1, 2, 3} [0, 2, 1, 3] demo_trees True True"
    "wi_reach pi = Z (BOr [BNot (Bool (branch_name 0)), Bool (branch_name 0)])"
    "zs_r0 (wi_sigma pi) = BitVec ''r0'' 64" "zs_ingress (wi_sigma pi) = BitVec ''ingress_ifindex'' 64"
    "zs_egress (wi_sigma pi) = BitVec ''egress_ifindex'' 64" "zs_bss (wi_sigma pi) = []"
    "list_all (\<lambda>(c, qi). z_size (fp_z demo_params) (zs_rx_index (wi_sigma qi)) = 64) (fw_info fw)"
    using demo_forward_run by blast
  have run: "forward_context demo_params demo_diamond (make_init_state [] []) None demo_trees True True = Inr (env, fw)"
    using r(1) by (simp add: demo_forward_def)
  have env: "fe_par env = demo_params" "fe_blocks env = demo_diamond" "fe_init env = make_init_state [] []"
    "fe_fold env = {}"
    using demo_slice(3) by (simp_all add: r(3) forward_env_def Let_def fold_eligible_regions_def)
  obtain order fw1 where w: "efoldl (walk_block env) fresh_forward order = Inr fw1" "fw = fw1\<lparr>fw_cur := None\<rparr>"
    by (rule forward_parts [OF demo_forward_wf(1,2) run])
  have "sorted_infos env fw1"
    by (rule walk_sorts [OF _ _ w(1), where ev = eval_bv and evb = eval_b and eva = eval_a and evab = eval_ab])
      (use demo_params_ok env(1) in simp_all)
  then have sorts: "same_sorts (fp_z demo_params) (wi_sigma pi) (make_init_state [] [])"
    using r(2) by (simp add: sorted_infos_def env w(2))
  have z: "fp_z demo_params = std_queries" by (simp add: demo_params_def)
  have sig: "info_sigma env fw (Some (int 3)) = wi_sigma pi" using r(2) by (simp add: info_sigma_def info_at_def)
  have cur: "fw_cur fw = None" by (simp add: w(2))
  have sg: "sigma_at env fw (Some 3) = wi_sigma pi" using sig cur by (simp add: sigma_at_def)
  have rng: "z_rng std_queries (zs_pkt (wi_sigma pi)) = 8" "z_rng std_queries (bss_of (wi_sigma pi) k) = 8"
    "z_size std_queries (zs_pkt_len (wi_sigma pi)) = 64" for k
    using sorts by (simp_all add: same_sorts_def z make_init_state_def std_queries_def bss_of_def split: option.splits)
  have "z_size (fp_z demo_params) (zs_rx_index (wi_sigma pi)) = 64"
    using map_of_SomeD [OF r(2)] r(9) by (auto simp: list_all_iff)
  then have rx: "z_size std_queries (zs_rx_index (wi_sigma pi)) = 64" by (simp add: z)
  have st: "zs_pkt (state_at env fw 3) = zs_pkt (wi_sigma pi)" "bss_of (state_at env fw 3) k = bss_of (wi_sigma pi) k"
    "zs_pkt_len (state_at env fw 3) = zs_pkt_len (wi_sigma pi)" "zs_r0 (state_at env fw 3) = BitVec ''r0'' 64"
    "target_term (state_at env fw 3) t = target_term (wi_sigma pi) t"
    "zs_read_loc (state_at env fw 3) = Some (fwd_read_loc env fw 3)" for k t
    using sig r(5) by (simp_all add: state_at_def with_reads_def bss_of_def target_term_def split: ctx_target.split)
  have tt: "z_size std_queries (target_term (wi_sigma pi) t) = 64" for t
    using rx r(6,7) by (cases t) (simp_all add: target_term_def std_queries_def)
  have dom: "z_dom std_queries (bss_of (wi_sigma pi) k) = BSS_ADDR_BITS" for k
    using r(8) by (cases k) (simp_all add: bss_of_def std_queries_def)
  have loc: "\<exists>t. fwd_read_loc env fw 3 l = Inr (Some t) \<and> z_size std_queries t = 8" if "byte_loc l" for l
    using that rng by (auto simp: byte_loc_def fwd_read_loc_def pkt_loc_def bss_loc_def env sg Let_def z std_queries_def)
  have reg: "regular_state (fp_z demo_params) (state_at env fw 3)"
    using rng tt dom loc by (simp add: regular_state_def z st) (simp add: std_queries_def)
  have r0: "z_size std_queries (Concat [BitVecVal 0 32, BitVecVal 2 32]) = 64" by (simp add: std_queries_def)
  have reg2: "regular_state (fp_z demo_params) ((state_at env fw 3)\<lparr>zs_r0 := Concat [BitVecVal 0 32, BitVecVal 2 32]\<rparr>)"
  proof -
    have "bss_of (s\<lparr>zs_r0 := x\<rparr>) k = bss_of s k" "target_term (s\<lparr>zs_r0 := x\<rparr>) t = target_term s t" for s x k t
      by (simp_all add: bss_of_def target_term_def split: ctx_target.split)
    with reg r0 show ?thesis by (simp add: regular_state_def z)
  qed
  have "fw_reach fw 3 = wi_reach pi" using r(2) final_reach [OF run, of 3] by simp
  then have live: "live_exits env fw = [3]"
    using r(2,4) by (simp add: live_exits_def env exit_blocks_def demo_diamond_def new_tblock_def bblock.extend_def new_bblock_def b_kind_def)
  have ret: "ret_state env fw 3 = Inr (Some ((state_at env fw 3)\<lparr>zs_r0 := Concat [BitVecVal 0 32, BitVecVal 2 32]\<rparr>))"
    by (simp add: ret_state_def env ret_expr_def demo_diamond_def new_tblock_def bblock.extend_def new_bblock_def zero_pad_def z)
       (simp add: std_queries_def)
  show thesis by (rule that [OF r(1) reg live ret reg2])
qed

section \<open>Claims\<close>

text \<open>
  Claim C2.  The verdict on a condition at a block is exact, for every policy of the run and whether or
  not the analysis was sliced to the targets: \<open>sat\<close> (or \<open>violated\<close>) is reported exactly when some
  assignment whose path leads to the block satisfies (or falsifies) the condition there, and the model
  kept for the witness is such an assignment.  The atoms of the condition have to be encodable in the
  state of the block (\<open>regular_node\<close>): the values they name have terms, their constants fit, and a
  condition on the packet length has a bound.
\<close>

theorem block_condition_exact:
  assumes "smtlib (fp_z par) ev evb eva evab" and "wf_graph blocks" and "blocks \<noteq> []" and "solver_ok evb sv"
    and "context_for par policies blocks init reach_all = Inr (env, fw)"
    and "pol \<in> set policies" and "bc \<in> set (po_blocks pol)"
    and "regular_state (fp_z par) (state_at env fw (bc_block bc))"
    and "regular_node (fp_z par) (state_at env fw (bc_block bc)) (bc_cond bc)"
  shows "\<exists>r. check_block_condition sv env fw bc = Inr r \<and>
    cr_verdict r = mode_verdict (bc_mode bc)
      (\<exists>m. leads_to evb blocks fw m (bc_block bc) \<and>
        node_holds ev evb eva evab (fp_z par) (state_at env fw (bc_block bc)) m (bc_cond bc) = (bc_mode bc = M_exists)) \<and>
    (case cr_witness r of None \<Rightarrow> True
     | Some (b, m) \<Rightarrow> b = bc_block bc \<and> leads_to evb blocks fw m b \<and>
        node_holds ev evb eva evab (fp_z par) (state_at env fw (bc_block bc)) m (bc_cond bc) = (bc_mode bc = M_exists))"
  by (rule block_verdict [OF assms])

theorem block_condition_exact_witness:
  "\<exists>env fw r. context_for demo_params [demo_policy] demo_diamond (make_init_state [] []) False = Inr (env, fw) \<and>
     check_block_condition two_solver env fw (hd (po_blocks demo_policy)) = Inr r \<and>
     cr_verdict r = mode_verdict M_all (\<exists>m. leads_to (\<lambda>m. eval_b (two_env m)) demo_diamond fw m 3 \<and>
       \<not> (eval_bv (two_env m) (target_term (state_at env fw 3) T_rx_index) = 7 \<and> eval_bv (two_env m) (BitVec ''func5_0'' 64) = 0))"
proof -
  obtain env fw where d: "demo_forward = Inr (env, fw)" "regular_state (fp_z demo_params) (state_at env fw 3)"
    by (rule demo_checked)
  define bc where "bc = hd (po_blocks demo_policy)"
  have bc: "bc_block bc = 3" "bc_mode bc = M_all" "bc_cond bc = CAnd [CLeaf (ScalarAtom T_rx_index 7), CLeaf (HelperScalar 5 0 8 OpEq 0 (Some demo_call))]" "bc \<in> set (po_blocks demo_policy)"
    by (simp_all add: bc_def demo_policy_def)
  have run: "context_for demo_params [demo_policy] demo_diamond (make_init_state [] []) False = Inr (env, fw)"
    using d(1) by (simp add: demo_context)
  have "demo_policy \<in> set [demo_policy]" "regular_state (fp_z demo_params) (state_at env fw (bc_block bc))"
    "regular_node (fp_z demo_params) (state_at env fw (bc_block bc)) (bc_cond bc)"
    using d(2) by (simp_all add: bc in_bits_def demo_call_z3 demo_params_def std_queries_def)
  from block_condition_exact [OF two_lib demo_forward_wf(1,2) two_solver_ok run this(1) bc(4) this(2,3)] run
  show ?thesis by (auto simp: bc bc_def [symmetric] target_value_def word_value_def word_width_def demo_call_z3)
qed

text \<open>
  Claim C3.  The verdict on a condition at the exits is exact: it ranges over the exits that have a
  return value and the assignments whose path leads to them.  The atoms of the condition have to be
  encodable in the states of the live exits.
\<close>

theorem exit_condition_exact:
  assumes "smtlib (fp_z par) ev evb eva evab" and "wf_graph blocks" and "blocks \<noteq> []" and "solver_ok evb sv"
    and "context_for par policies blocks init reach_all = Inr (env, fw)"
    and "pol \<in> set policies" and "ec \<in> set (po_exits pol)"
    and "list_all (regular_exit (fp_z par) env fw (ec_cond ec)) (live_exits env fw)"
  shows "\<exists>r. check_exit_condition sv env fw ec = Inr r \<and>
    cr_verdict r = mode_verdict (ec_mode ec)
      (\<exists>m b. b \<in> set (exit_blocks blocks) \<and> leads_to evb blocks fw m b \<and>
        exit_has (\<lambda>st. node_holds ev evb eva evab (fp_z par) st m (ec_cond ec)) env fw (ec_mode ec = M_exists) b) \<and>
    (case cr_witness r of None \<Rightarrow> True
     | Some (b, m) \<Rightarrow> b \<in> set (exit_blocks blocks) \<and> leads_to evb blocks fw m b \<and>
        exit_has (\<lambda>st. node_holds ev evb eva evab (fp_z par) st m (ec_cond ec)) env fw (ec_mode ec = M_exists) b)"
  by (rule exit_verdict [OF assms])

theorem exit_condition_exact_witness:
  "\<exists>env fw r. context_for demo_params [demo_policy] demo_diamond (make_init_state [] []) False = Inr (env, fw) \<and>
     check_exit_condition two_solver env fw (hd (po_exits demo_policy)) = Inr r \<and> cr_verdict r = V_holds"
proof -
  obtain env fw where d: "demo_forward = Inr (env, fw)" "live_exits env fw = [3]"
    "ret_state env fw 3 = Inr (Some ((state_at env fw 3)\<lparr>zs_r0 := Concat [BitVecVal 0 32, BitVecVal 2 32]\<rparr>))"
    "regular_state (fp_z demo_params) ((state_at env fw 3)\<lparr>zs_r0 := Concat [BitVecVal 0 32, BitVecVal 2 32]\<rparr>)"
    by (rule demo_checked)
  define ec where "ec = hd (po_exits demo_policy)"
  have ec: "ec_mode ec = M_all" "ec_cond ec = CLeaf (RetAtom OpEq 2)" "ec \<in> set (po_exits demo_policy)"
    by (simp_all add: ec_def demo_policy_def)
  have run: "context_for demo_params [demo_policy] demo_diamond (make_init_state [] []) False = Inr (env, fw)"
    using d(1) by (simp add: demo_context)
  have "demo_policy \<in> set [demo_policy]"
    "list_all (regular_exit (fp_z demo_params) env fw (ec_cond ec)) (live_exits env fw)"
    using d(2-4) by (simp_all add: regular_exit_def ec in_bits_def)
  note r = exit_condition_exact [OF two_lib demo_forward_wf(1,2) two_solver_ok run this(1) ec(3) this(2)]
  have exits: "set (exit_blocks demo_diamond) = {3}" by code_simp
  have "\<not> exit_has (\<lambda>st. node_holds (\<lambda>m. eval_bv (two_env m)) (\<lambda>m. eval_b (two_env m)) (\<lambda>m. eval_a (two_env m))
        (\<lambda>m. eval_ab (two_env m)) (fp_z demo_params) st m (ec_cond ec)) env fw False b" if "b \<in> set (exit_blocks demo_diamond)" for m b
    using that exits d(3) by (simp add: exit_has_def ec)
  then have "(\<exists>m b. b \<in> set (exit_blocks demo_diamond) \<and> leads_to (\<lambda>m. eval_b (two_env m)) demo_diamond fw m b \<and>
        exit_has (\<lambda>st. node_holds (\<lambda>m. eval_bv (two_env m)) (\<lambda>m. eval_b (two_env m)) (\<lambda>m. eval_a (two_env m))
        (\<lambda>m. eval_ab (two_env m)) (fp_z demo_params) st m (ec_cond ec)) env fw (ec_mode ec = M_exists) b) = False"
    by (auto simp: ec(1))
  from r [unfolded this] run show ?thesis by (auto simp: ec_def [symmetric] ec(1) mode_verdict_def)
qed

text \<open>
  Claim C33.  The report on reachability has an entry for every block the analysis covers, in order, and
  says \<open>sat\<close> exactly for the blocks some assignment leads to; the shortcut for blocks whose predecessors
  are all dead changes nothing.  The return values reported are exactly those some assignment makes an
  exit return.
\<close>

theorem reach_report_exact:
  assumes "smtlib (fp_z par) ev evb eva evab" and "wf_graph blocks" and "blocks \<noteq> []" and "solver_ok evb sv"
    and "context_for par policies blocks init True = Inr (env, fw)"
    and "list_all (\<lambda>b. case ret_state env fw b of Inl e \<Rightarrow> False | Inr None \<Rightarrow> True
                | Inr (Some st) \<Rightarrow> z_size (fp_z par) (zs_r0 st) = 64) (live_exits env fw)"
  shows "map (\<lambda>r. (cr_name r, cr_verdict r)) (reach_report sv env fw) =
      map (\<lambda>b. (''block'' @ show_nat b, if \<exists>m. leads_to evb blocks fw m b then V_sat else V_unsat)) (sort (map fst (fw_info fw))) \<and>
    reachable_return_values sv env fw vs = Inr (filter (\<lambda>v. \<exists>m b. returns_value ev evb blocks env fw m b v) vs)"
proof -
  obtain trees where run: "forward_context par blocks init None trees True True = Inr (env, fw)"
    using assms(5) by (simp add: context_for_def targets_of_def)
  show ?thesis
    using report_exact [OF assms(1-4) run] return_values_exact [OF assms(1-4) run assms(6)] by simp
qed

theorem reach_report_exact_witness:
  "\<exists>env fw. context_for demo_params [demo_policy] demo_diamond (make_init_state [] []) True = Inr (env, fw) \<and>
     reachable_return_values two_solver env fw [0, 1, 2, 3, 4] =
       Inr (filter (\<lambda>v. \<exists>m b. returns_value (\<lambda>m. eval_bv (two_env m)) (\<lambda>m. eval_b (two_env m)) demo_diamond env fw m b v) [0, 1, 2, 3, 4])"
proof -
  obtain env fw where d: "demo_forward = Inr (env, fw)" "live_exits env fw = [3]"
    "ret_state env fw 3 = Inr (Some ((state_at env fw 3)\<lparr>zs_r0 := Concat [BitVecVal 0 32, BitVecVal 2 32]\<rparr>))"
    by (rule demo_checked)
  have run: "context_for demo_params [demo_policy] demo_diamond (make_init_state [] []) True = Inr (env, fw)"
    using d(1) by (simp add: demo_context)
  have "list_all (\<lambda>b. case ret_state env fw b of Inl e \<Rightarrow> False | Inr None \<Rightarrow> True
                | Inr (Some st) \<Rightarrow> z_size (fp_z demo_params) (zs_r0 st) = 64) (live_exits env fw)"
    by (simp add: d(2,3) demo_params_def std_queries_def)
  from conjunct2 [OF reach_report_exact [OF two_lib demo_forward_wf(1,2) two_solver_ok run this]] run show ?thesis by blast
qed

text \<open>
  An answer \<open>unknown\<close> is taken for \<open>unsat\<close>: with a solver that never decides anything, every
  condition that is to hold always is reported to hold.
\<close>

theorem unknown_taken_for_holds:
  assumes "sv_check sv = (\<lambda>cs. Unknown)" and "check_block_condition sv env fw bc = Inr r" and "bc_mode bc = M_all"
  shows "cr_verdict r = V_holds \<and> cr_witness r = None"
proof -
  have d: "decide sv g b = None" for g b
    using assms(1) by (simp add: decide_def Let_def split: lit.split bool.split)
  from assms(2,3) show ?thesis
    by (auto simp: check_block_condition_def Let_def d idle_verdict_def ebind_eq_Inr split: option.splits if_splits)
qed

theorem unknown_taken_for_holds_witness:
  "\<exists>env fw r. demo_forward = Inr (env, fw) \<and>
     check_block_condition (two_solver\<lparr>sv_check := \<lambda>cs. Unknown\<rparr>) env fw (hd (po_blocks demo_policy)) = Inr r \<and> cr_verdict r = V_holds"
proof -
  obtain env fw where d: "demo_forward = Inr (env, fw)" by (rule demo_checked)
  let ?bc = "hd (po_blocks demo_policy)"
  have bc: "bc_mode ?bc = M_all" "bc_cond ?bc = CAnd [CLeaf (ScalarAtom T_rx_index 7), CLeaf (HelperScalar 5 0 8 OpEq 0 (Some demo_call))]"
    by (simp_all add: demo_policy_def)
  obtain r where r: "check_block_condition (two_solver\<lparr>sv_check := \<lambda>cs. Unknown\<rparr>) env fw ?bc = Inr r"
  proof -
    have "is_ok (check_block_condition (two_solver\<lparr>sv_check := \<lambda>cs. Unknown\<rparr>) env fw ?bc)"
      by (cases "dict_get (fw_info fw) (bc_block ?bc)"; cases "fw_reach fw (int (bc_block ?bc)) = Py False")
        (simp_all add: check_block_condition_def Let_def bc demo_call_z3)
    with that show thesis by (auto simp: is_ok_def split: sum.splits)
  qed
  have "sv_check (two_solver\<lparr>sv_check := \<lambda>cs. Unknown\<rparr>) = (\<lambda>cs. Unknown)" by simp
  from unknown_taken_for_holds [OF this r bc(1)] r d show ?thesis by blast
qed

end
