(* ===== verification/Spec_Parse.thy ===== *)
theory Spec_Parse
  imports Checker Py_Text "HOL-Library.Sublist"
begin

text \<open>
  Reading a policy (\<open>hornet/verify/spec.py\<close>): from the JSON document to the conditions of
  \<open>Atoms\<close> and \<open>Checker\<close>.  A document is a value of \<open>json\<close>, an object an association list in the
  order of the file with distinct keys; numbers with a fraction and text outside ASCII are left
  out.  The driver always passes the maps, the blocks and the calls of the program, so they are
  not optional here.  Scapy is a parameter: what \<open>eval\<close> makes of a packet expression, and what each
  field's \<open>addfield\<close> does.
\<close>

section \<open>JSON values as Python sees them\<close>

datatype json = JNull | JBool bool | JInt int | JStr string | JList "json list" | JObj "(string \<times> json) list"

text \<open>\<open>k in x\<close>, \<open>x[k]\<close> and \<open>x.get(k)\<close> for a text \<open>k\<close>.\<close>

definition json_in :: "string \<Rightarrow> json \<Rightarrow> bool res" where
  "json_in k x = (case x of
       JObj kvs \<Rightarrow> Inr (dict_get kvs k \<noteq> None)
     | JList xs \<Rightarrow> Inr (JStr k \<in> set xs)
     | JStr s \<Rightarrow> Inr (sublist k s)
     | _ \<Rightarrow> Inl TypeError)"

definition json_item :: "string \<Rightarrow> json \<Rightarrow> json res" where
  "json_item k x = (case x of JObj kvs \<Rightarrow> of_option KeyError (dict_get kvs k) | _ \<Rightarrow> Inl TypeError)"

definition json_get :: "string \<Rightarrow> json \<Rightarrow> json option res" where
  "json_get k x = (case x of JObj kvs \<Rightarrow> Inr (dict_get kvs k) | _ \<Rightarrow> Inl AttributeError)"

definition json_truthy :: "json \<Rightarrow> bool" where
  "json_truthy x = (case x of JNull \<Rightarrow> False | JBool b \<Rightarrow> b | JInt k \<Rightarrow> k \<noteq> 0 | JStr s \<Rightarrow> s \<noteq> []
     | JList xs \<Rightarrow> xs \<noteq> [] | JObj kvs \<Rightarrow> kvs \<noteq> [])"

text \<open>\<open>(x or {}).items()\<close>\<close>

definition json_items :: "json option \<Rightarrow> (string \<times> json) list res" where
  "json_items x = (case x of None \<Rightarrow> Inr []
     | Some v \<Rightarrow> if json_truthy v then (case v of JObj kvs \<Rightarrow> Inr kvs | _ \<Rightarrow> Inl AttributeError) else Inr [])"

text \<open>A key of a Python dictionary must be hashable; a look-up in a table named by texts.\<close>

definition table_get :: "(string \<times> 'a) list \<Rightarrow> json \<Rightarrow> 'a option res" where
  "table_get t x = (case x of JStr s \<Rightarrow> Inr (dict_get t s) | JList xs \<Rightarrow> Inl TypeError | JObj kvs \<Rightarrow> Inl TypeError
     | _ \<Rightarrow> Inr None)"

text \<open>\<open>int(x)\<close>\<close>

definition py_int :: "json \<Rightarrow> int res" where
  "py_int x = (case x of JInt k \<Rightarrow> Inr k | JBool b \<Rightarrow> Inr (if b then 1 else 0) | JStr s \<Rightarrow> py_int_str 10 s
     | _ \<Rightarrow> Inl TypeError)"

section \<open>Numbers and byte values\<close>

text \<open>\<open>value.to_bytes(size, 'big')\<close>\<close>

definition to_bytes :: "int \<Rightarrow> int \<Rightarrow> int list res" where
  "to_bytes k n = (if n < 0 then Inl (ValueError ''length argument must be non-negative'')
                      else int_to_bytes k (nat n))"

definition sized :: "int \<Rightarrow> string \<Rightarrow> int list \<Rightarrow> int list res" where
  "sized n e bs = (if int (length bs) = n then Inr bs else Inl (SpecError e))"

fun parse_val_bytes :: "json \<Rightarrow> int \<Rightarrow> int list res" where
  "parse_val_bytes (JBool b) n = Inl (SpecError ''boolean is not a byte value'')"
| "parse_val_bytes (JInt k) n = to_bytes k n"
| "parse_val_bytes (JList xs) n =
     (if int (length xs) \<noteq> n then Inl (SpecError ''byte list does not match size'')
      else emap (\<lambda>x. ebind (py_int x) (\<lambda>k. Inr (k AND 0xFF))) xs)"
| "parse_val_bytes (JStr s) n =
     (let v = py_strip s in
      if has_hex_prefix v then ebind (py_int_str 16 v) (\<lambda>k. to_bytes k n)
      else if CHR ''.'' \<in> set v then ebind (emap (py_int_str 10) (py_split (CHR ''.'') v)) (sized n ''IPv4 does not match size'')
      else if CHR '':'' \<in> set v then ebind (emap (py_int_str 16) (py_split (CHR '':'') v)) (sized n ''MAC does not match size'')
      else ebind (py_int_str 10 v) (\<lambda>k. to_bytes k n))"
| "parse_val_bytes x n = Inl (SpecError ''unparseable value'')"

definition parse_multibyte_int :: "json \<Rightarrow> int \<Rightarrow> int res" where
  "parse_multibyte_int x n = ebind (parse_val_bytes x n) little_int"

definition parse_int :: "json \<Rightarrow> int res" where
  "parse_int x = (case x of
       JBool b \<Rightarrow> Inl (SpecError ''boolean is not an int'')
     | JInt k \<Rightarrow> Inr k
     | JStr s \<Rightarrow> (let v = py_strip s in if has_hex_prefix v then py_int_str 16 v else py_int_str 10 v)
     | _ \<Rightarrow> Inl (SpecError ''expected int''))"

section \<open>Tables\<close>

definition PROTOCOL_FIELDS :: "(string \<times> int \<times> int) list" where
  "PROTOCOL_FIELDS =
    [(''eth_dst'', 0, 6), (''eth_src'', 6, 6), (''eth_type'', 12, 2), (''ip_ver'', 14, 1), (''ip_tos'', 15, 1),
     (''ip_len'', 16, 2), (''ip_id'', 18, 2), (''ip_flags'', 20, 2), (''ip_ttl'', 22, 1), (''ip_proto'', 23, 1),
     (''ip_chk'', 24, 2), (''ip_src'', 26, 4), (''ip_dst'', 30, 4), (''tcp_sport'', 34, 2), (''tcp_dport'', 36, 2),
     (''udp_sport'', 34, 2), (''udp_dport'', 36, 2)]"

definition HELPER_IMM :: "(string \<times> int) list" where
  "HELPER_IMM =
    [(''bpf_map_lookup_elem'', 1), (''bpf_ktime_get_ns'', 5), (''bpf_get_prandom_u32'', 7),
     (''bpf_get_smp_processor_id'', 8), (''bpf_tail_call'', 12), (''bpf_get_current_pid_tgid'', 14),
     (''bpf_get_current_uid_gid'', 15), (''bpf_redirect'', 23), (''bpf_get_numa_node_id'', 42),
     (''bpf_csum_diff'', 28), (''bpf_xdp_adjust_head'', 44), (''bpf_redirect_map'', 51),
     (''bpf_xdp_adjust_meta'', 54), (''bpf_xdp_adjust_tail'', 65), (''bpf_jiffies64'', 118),
     (''bpf_ktime_get_boot_ns'', 125), (''bpf_ktime_get_coarse_ns'', 160), (''bpf_xdp_get_buff_len'', 188),
     (''bpf_ktime_get_tai_ns'', 208)]"

definition CTX_TARGETS :: "(string \<times> ctx_target) list" where
  "CTX_TARGETS = [(''ingress_ifindex'', T_ingress), (''rx_queue_index'', T_rx_index), (''egress_ifindex'', T_egress)]"

definition CMP_OPS :: "(string \<times> cmp_op) list" where
  "CMP_OPS = [(''eq'', OpEq), (''ne'', OpNe), (''lt'', OpLt), (''le'', OpLe), (''gt'', OpGt), (''ge'', OpGe)]"

text \<open>The comparison a document names, one of \<open>names\<close>.\<close>

definition parse_op :: "string list \<Rightarrow> string \<Rightarrow> json \<Rightarrow> cmp_op res" where
  "parse_op names e x = (case x of JStr s \<Rightarrow>
       if s \<in> set names then of_option KeyError (dict_get CMP_OPS s) else Inl (SpecError e)
     | _ \<Rightarrow> Inl (SpecError e))"

definition eq_ne :: "string list" where
  "eq_ne = [''eq'', ''ne'']"

definition all_ops :: "string list" where
  "all_ops = map fst CMP_OPS"

definition get_or :: "(string \<times> json) list \<Rightarrow> string \<Rightarrow> json \<Rightarrow> json" where
  "get_or a k d = (case dict_get a k of None \<Rightarrow> d | Some x \<Rightarrow> x)"

definition has_key :: "(string \<times> json) list \<Rightarrow> string \<Rightarrow> bool" where
  "has_key a k \<longleftrightarrow> dict_get a k \<noteq> None"

abbreviation item :: "(string \<times> json) list \<Rightarrow> string \<Rightarrow> json res" where
  "item a k \<equiv> of_option KeyError (dict_get a k)"

section \<open>The program a policy is read against\<close>

record spec_env =
  se_maps :: "map_info list"
  se_blocks :: "tblock list"
  se_calls :: "(int \<times> call_rec) list"

text \<open>\<open>ref == m['id'] or ref == m['name']\<close>\<close>

definition ref_matches :: "json \<Rightarrow> map_info \<Rightarrow> bool" where
  "ref_matches r m = (case r of
       JInt k \<Rightarrow> k = m_id m
     | JBool b \<Rightarrow> (if b then 1 else 0) = m_id m
     | JStr s \<Rightarrow> m_name m = Some s
     | JNull \<Rightarrow> m_name m = None
     | _ \<Rightarrow> False)"

definition resolve_map :: "json \<Rightarrow> map_info list \<Rightarrow> map_info res" where
  "resolve_map r maps = of_option (SpecError ''map not found'') (find (ref_matches r) maps)"

section \<open>Conditions on a helper's result\<close>

datatype ret_kind = Ret_scalar | Ret_map_ptr | Ret_transfer

text \<open>The attributes \<open>ret\<close>, \<open>imm\<close>, \<open>ret_size\<close> and \<open>retval\<close> of a recorded call.\<close>

definition rec_ret :: "call_rec \<Rightarrow> ret_kind" where
  "rec_ret r = (case r of Call_val v \<Rightarrow> Ret_scalar
     | Call_act a \<Rightarrow> (case a_kind a of MapLookup mid mk mki \<Rightarrow> Ret_map_ptr
                      | TailCall mid ix slot tg nm \<Rightarrow> Ret_transfer | _ \<Rightarrow> Ret_scalar))"

definition rec_imm :: "call_rec \<Rightarrow> int" where
  "rec_imm r = (case r of
       Call_val v \<Rightarrow> (case v of Func_retval sz idx fn blk mid mk mki fb rd \<Rightarrow> fn | _ \<Rightarrow> -1)
     | Call_act a \<Rightarrow> (case a_kind a of MapLookup mid mk mki \<Rightarrow> 1 | AdjustHead d v \<Rightarrow> 44 | AdjustTail d v \<Rightarrow> 65
         | AdjustMeta d v \<Rightarrow> 54 | XdpBuffLen v \<Rightarrow> 188 | TailCall mid ix slot tg nm \<Rightarrow> 12 | _ \<Rightarrow> -1))"

definition rec_size :: "call_rec \<Rightarrow> nat" where
  "rec_size r = (case r of Call_val (Func_retval sz idx fn blk mid mk mki fb rd) \<Rightarrow> sz | _ \<Rightarrow> 8)"

definition rec_retval :: "call_rec \<Rightarrow> val option" where
  "rec_retval r = (case r of
       Call_val v \<Rightarrow> Some v
     | Call_act a \<Rightarrow> (case a_kind a of AdjustHead d v \<Rightarrow> Some v | AdjustTail d v \<Rightarrow> Some v | AdjustMeta d v \<Rightarrow> Some v
         | XdpBuffLen v \<Rightarrow> Some v | _ \<Rightarrow> None))"

definition rec_map :: "call_rec \<Rightarrow> int option \<times> val option \<times> int option" where
  "rec_map r = (case r of Call_act a \<Rightarrow> (case a_kind a of MapLookup mid mk mki \<Rightarrow> (mid, mk, mki) | _ \<Rightarrow> (None, None, None))
     | _ \<Rightarrow> (None, None, None))"

definition check_helper :: "(string \<times> json) list \<Rightarrow> call_rec \<Rightarrow> unit res" where
  "check_helper a r = (case dict_get a ''helper'' of None \<Rightarrow> Inr ()
     | Some h \<Rightarrow> ebind (table_get HELPER_IMM h) (\<lambda>w. case w of
         None \<Rightarrow> Inl (SpecError ''unknown helper'')
       | Some k \<Rightarrow> if k = rec_imm r then Inr () else Inl (SpecError ''not that helper'')))"

definition parse_helper_atom :: "spec_env \<Rightarrow> (string \<times> json) list \<Rightarrow> atom res" where
  "parse_helper_atom se a =
     ebind (item a ''idx'') (\<lambda>i. ebind (parse_int i) (\<lambda>idx.
     case dict_get (se_calls se) idx of
       None \<Rightarrow> Inl (SpecError ''not a recorded helper call'')
     | Some r \<Rightarrow>
         if rec_ret r = Ret_transfer then Inl (SpecError ''a tail call has no return value'')
         else ebind (check_helper a r) (\<lambda>_.
           if rec_ret r = Ret_scalar then
             if \<not> has_key a ''op'' \<or> \<not> has_key a ''value'' then Inl (SpecError ''scalar helper atom needs op and value'')
             else ebind (item a ''op'') (\<lambda>p. ebind (parse_op all_ops ''invalid helper op'' p) (\<lambda>c.
                  ebind (item a ''value'') (\<lambda>x. ebind (parse_int x) (\<lambda>v.
                  Inr (HelperScalar (rec_imm r) idx (rec_size r) c v (rec_retval r))))))
           else
             let ret = get_or a ''returns'' JNull; (mid, mk, mki) = rec_map r in
             if ret = JStr ''null'' \<or> ret = JStr ''non_null''
             then Inr (HelperNull (rec_imm r) idx (ret = JStr ''non_null'') mid mk mki)
             else Inl (SpecError ''pointer helper atom needs returns''))))"

section \<open>Conditions on the reads of a block\<close>

definition region_source :: "nat \<Rightarrow> int option \<Rightarrow> val \<Rightarrow> (int \<times> nat) option" where
  "region_source region mid v = (case v of
       Pkt_val blk idx off vo sz \<Rightarrow> if region = 0 \<and> vo = None then Some (off, sz) else None
     | Map_val blk idx m mk mki off vo sz \<Rightarrow> if region = 1 \<and> m = mid then Some (off, sz) else None
     | _ \<Rightarrow> None)"

definition byte_index :: "val list \<Rightarrow> nat \<Rightarrow> int option \<Rightarrow> (int \<times> val \<times> nat) list" where
  "byte_index sources region mid = foldl (\<lambda>out v.
     case region_source region mid v of
       None \<Rightarrow> out
     | Some (off, sz) \<Rightarrow> foldl (\<lambda>out i. dict_set (off + int i) (v, i) out) out [0..<sz]) [] sources"

definition assemble :: "val list \<Rightarrow> nat \<Rightarrow> int \<Rightarrow> int \<Rightarrow> int option \<Rightarrow> (val \<times> nat) list option" where
  "assemble sources region offset n mid =
     (let parts = map (dict_get (byte_index sources region mid)) [offset..offset + n - 1]
      in if None \<in> set parts then None else Some (map the parts))"

definition read_place :: "spec_env \<Rightarrow> (string \<times> json) list \<Rightarrow> (nat \<times> int option \<times> int) res" where
  "read_place se sp =
     (if has_key sp ''map'' then
        ebind (resolve_map (get_or sp ''map'' JNull) (se_maps se)) (\<lambda>m.
        ebind (py_int (get_or sp ''offset'' (JInt 0))) (\<lambda>off. Inr (1, Some (m_id m), off)))
      else if has_key sp ''offset'' then
        ebind (py_int (get_or sp ''offset'' (JInt 0))) (\<lambda>off. Inr (0, None, off))
      else Inl (SpecError ''read needs offset and size or map and size''))"

definition parse_read_atom :: "spec_env \<Rightarrow> int option \<Rightarrow> (string \<times> json) list \<Rightarrow> atom res" where
  "parse_read_atom se blk a =
     (case blk of
        None \<Rightarrow> Inl (SpecError ''a read atom needs a specific block'')
      | Some b \<Rightarrow>
          if b < 0 \<or> int (length (se_blocks se)) \<le> b then Inl (SpecError ''not a tracked block'')
          else ebind (item a ''read'') (\<lambda>r. case r of
            JObj sp \<Rightarrow>
              ebind (parse_op eq_ne ''invalid read op'' (get_or a ''op'' (JStr ''eq''))) (\<lambda>c.
              if \<not> has_key a ''value'' then Inl (SpecError ''read atom needs value'')
              else if \<not> has_key sp ''size'' then Inl (SpecError ''read needs size'')
              else ebind (py_int (get_or sp ''size'' JNull)) (\<lambda>n.
                ebind (read_place se sp) (\<lambda>(region, mid, off).
                case assemble (t_sources (se_blocks se ! nat b)) region off n mid of
                  None \<Rightarrow> Inl (SpecError ''block never read some byte'')
                | Some parts \<Rightarrow>
                    ebind (parse_multibyte_int (get_or a ''value'' JNull) n) (\<lambda>target.
                    Inr (ReadAtom parts c target (nat n) region off mid)))))
          | _ \<Rightarrow> Inl (SpecError ''read must be an object'')))"

section \<open>Atoms\<close>

definition parse_ret_atom :: "int option \<Rightarrow> (string \<times> json) list \<Rightarrow> atom res" where
  "parse_ret_atom blk a =
     (if blk \<noteq> None then Inl (SpecError ''a ret atom is only valid in exit_conditions'')
      else ebind (parse_op all_ops ''invalid ret op'' (get_or a ''op'' (JStr ''eq''))) (\<lambda>c.
           ebind (item a ''ret'') (\<lambda>x. ebind (parse_int x) (\<lambda>v. Inr (RetAtom c v)))))"

definition parse_bss_atom :: "cmp_op \<Rightarrow> (string \<times> json) list \<Rightarrow> atom res" where
  "parse_bss_atom c a =
     ebind (item a ''bss'') (\<lambda>b. case b of
       JStr sy \<Rightarrow>
         if \<not> has_key a ''size'' \<or> \<not> has_key a ''value'' then Inl (SpecError ''bss atom needs size and value'')
         else ebind (py_int (get_or a ''size'' JNull)) (\<lambda>n.
           if n < 1 then Inl (SpecError ''bss atom size must be at least 1'')
           else ebind (py_int (get_or a ''offset'' (JInt 0))) (\<lambda>off.
             ebind (parse_multibyte_int (get_or a ''value'' JNull) n) (\<lambda>v.
             Inr (BssAtom sy off (nat n) v c))))
     | _ \<Rightarrow> Inl (SpecError ''bss atom names a symbol by string''))"

definition not_none :: "json option \<Rightarrow> json option" where
  "not_none x = (case x of Some JNull \<Rightarrow> None | _ \<Rightarrow> x)"

definition parse_map_atom :: "spec_env \<Rightarrow> (string \<times> json) list \<Rightarrow> atom res" where
  "parse_map_atom se a =
     ebind (item a ''map'') (\<lambda>r. ebind (resolve_map r (se_maps se)) (\<lambda>m.
     let present = not_none (dict_get a ''contains''); vl = not_none (dict_get a ''value'') in
     if present = None \<and> vl = None then Inl (SpecError ''map atom needs contains or value'')
     else if vl \<noteq> None \<and> present = Some (JBool False) then Inl (SpecError ''an absent key has no value'')
     else ebind (item a ''key'') (\<lambda>k. ebind (parse_multibyte_int k (m_key_size m)) (\<lambda>key.
       ebind (case vl of None \<Rightarrow> Inr None
              | Some x \<Rightarrow> ebind (parse_multibyte_int x (m_value_size m)) (\<lambda>v. Inr (Some v))) (\<lambda>v.
       Inr (MapAtom (m_id m) key (map_option json_truthy present) v (nat (m_key_size m)) (nat (m_value_size m))))))))"

text \<open>
  The bounds of a length are not parsed; a number, or none, is what \<open>to_z3\<close> can use.  Z3 reads a
  text itself when the condition is translated, which is left out: the model stops here.
\<close>

definition len_bound :: "json option \<Rightarrow> int option res" where
  "len_bound x = (case not_none x of None \<Rightarrow> Inr None
     | Some (JInt k) \<Rightarrow> Inr (Some k) | Some (JBool b) \<Rightarrow> Inr (Some (if b then 1 else 0)) | _ \<Rightarrow> Inl Z3Exception)"

definition parse_len_atom :: "(string \<times> json) list \<Rightarrow> atom res" where
  "parse_len_atom a =
     ebind (item a ''pkt_len'') (\<lambda>r. ebind (json_get ''min'' r) (\<lambda>lo. ebind (json_get ''max'' r) (\<lambda>hi.
     ebind (len_bound lo) (\<lambda>l. ebind (len_bound hi) (\<lambda>h. Inr (LenAtom l h))))))"

definition parse_ctx_atom :: "(string \<times> json) list \<Rightarrow> atom res" where
  "parse_ctx_atom a =
     ebind (item a ''ctx'') (\<lambda>x. ebind (table_get CTX_TARGETS x) (\<lambda>t. case t of
       None \<Rightarrow> Inl (SpecError ''unknown ctx target'')
     | Some t \<Rightarrow> ebind (item a ''value'') (\<lambda>v. ebind (parse_int v) (\<lambda>v. Inr (ScalarAtom t v)))))"

definition pkt_place :: "(string \<times> json) list \<Rightarrow> (int \<times> int) res" where
  "pkt_place a =
     (case dict_get a ''field'' of
        Some f \<Rightarrow> ebind (table_get PROTOCOL_FIELDS f) (of_option (SpecError ''unknown field''))
      | None \<Rightarrow>
          if has_key a ''offset'' \<and> has_key a ''size'' then
            ebind (py_int (get_or a ''offset'' JNull)) (\<lambda>off.
            ebind (py_int (get_or a ''size'' JNull)) (\<lambda>n. Inr (off, n)))
          else Inl (SpecError ''unrecognized atom shape''))"

definition parse_pkt_atom :: "cmp_op \<Rightarrow> (string \<times> json) list \<Rightarrow> atom res" where
  "parse_pkt_atom c a =
     ebind (pkt_place a) (\<lambda>(off, n).
     if \<not> has_key a ''value'' then Inl (SpecError ''packet atom needs value'')
     else ebind (parse_val_bytes (get_or a ''value'' JNull) n) (\<lambda>bs. Inr (PktAtom off (nat n) bs c)))"

definition parse_atom :: "spec_env \<Rightarrow> int option \<Rightarrow> json \<Rightarrow> atom res" where
  "parse_atom se blk node =
     (case node of JObj a \<Rightarrow>
        if has_key a ''idx'' then parse_helper_atom se a
        else if has_key a ''ret'' then parse_ret_atom blk a
        else if has_key a ''read'' then parse_read_atom se blk a
        else ebind (parse_op eq_ne ''invalid op'' (get_or a ''op'' (JStr ''eq''))) (\<lambda>c.
          if has_key a ''bss'' then parse_bss_atom c a
          else if has_key a ''map'' then parse_map_atom se a
          else if has_key a ''pkt_len'' then parse_len_atom a
          else if has_key a ''ctx'' then parse_ctx_atom a
          else parse_pkt_atom c a)
      | _ \<Rightarrow> Inl (SpecError ''atom must be an object''))"

section \<open>Conditions\<close>

text \<open>The test of \<open>_parse_cond\<close>: an object whose only key is a combinator.\<close>

fun combinator :: "json \<Rightarrow> (string \<times> json) option" where
  "combinator (JObj [(k, kids)]) = (if k \<in> {''and'', ''or'', ''not''} then Some (k, kids) else None)"
| "combinator node = None"

lemma combinator_size: "combinator node = Some (k, kids) \<Longrightarrow> size kids < size node"
  by (cases node rule: combinator.cases) (auto split: if_splits)

text \<open>The child of a \<open>not\<close>: a list of one, or anything that is no list.\<close>

definition not_child :: "json \<Rightarrow> json res" where
  "not_child kids = (case kids of
       JList ks \<Rightarrow> (case ks of [kid] \<Rightarrow> Inr kid | _ \<Rightarrow> Inl (SpecError ''not takes exactly one child condition''))
     | _ \<Rightarrow> Inr kids)"

lemma not_child_size: "not_child kids = Inr kid \<Longrightarrow> size kid \<le> size kids"
  by (auto simp: not_child_def split: json.splits list.splits)

function parse_cond :: "spec_env \<Rightarrow> int option \<Rightarrow> json \<Rightarrow> cond_node res"
  and parse_conds :: "spec_env \<Rightarrow> int option \<Rightarrow> json list \<Rightarrow> cond_node list res" where
  "parse_cond se blk node =
     (case combinator node of
        None \<Rightarrow> ebind (parse_atom se blk node) (\<lambda>a. Inr (CLeaf a))
      | Some (op, kids) \<Rightarrow>
          if op = ''not'' then
            (case not_child kids of Inl e \<Rightarrow> Inl e
             | Inr kid \<Rightarrow> ebind (parse_cond se blk kid) (\<lambda>c. Inr (CNot c)))
          else
            (case kids of
               JList ks \<Rightarrow>
                 if ks = [] then Inr (CAnd [])
                 else ebind (parse_conds se blk ks) (\<lambda>cs. Inr (if op = ''and'' then CAnd cs else COr cs))
             | _ \<Rightarrow> Inl (SpecError ''needs a list of child conditions'')))"
| "parse_conds se blk [] = Inr []"
| "parse_conds se blk (k # ks) =
     ebind (parse_cond se blk k) (\<lambda>c. ebind (parse_conds se blk ks) (\<lambda>cs. Inr (c # cs)))"
  by pat_completeness auto

termination
  by (relation "measure (\<lambda>x. case x of Inl (se, blk, node) \<Rightarrow> size node | Inr (se, blk, nodes) \<Rightarrow> size_list size nodes)")
    (auto dest!: combinator_size not_child_size)

declare parse_cond.simps [simp del]

section \<open>The packet of the input\<close>

text \<open>
  A field of a layer: whether it was set in the expression, and its \<open>addfield\<close> with the layer and
  the value applied, which returns bytes, or bytes with bits still to come.
\<close>

datatype scapy_bytes = Whole "int list" | Bits "int list"

record scapy_field =
  sf_explicit :: bool
  sf_add :: "scapy_bytes \<Rightarrow> scapy_bytes"

datatype scapy_eval = No_scapy | Eval_fails | Not_a_packet | Packet "scapy_field list list"

fun added_bytes :: "scapy_bytes \<Rightarrow> int list" where
  "added_bytes (Whole bs) = bs"
| "added_bytes (Bits bs) = bs"

text \<open>The state of the loop: the bytes so far, \<open>group_explicit\<close> and the mask.\<close>

definition add_field :: "scapy_bytes \<times> bool \<times> bool list \<Rightarrow> scapy_field \<Rightarrow> scapy_bytes \<times> bool \<times> bool list" where
  "add_field = (\<lambda>(p, group, msk) f.
     let len0 = length (added_bytes p); p = sf_add f p; group = group \<and> sf_explicit f
     in case p of Whole bs \<Rightarrow> (p, True, msk @ replicate (length bs - len0) group)
        | Bits bs \<Rightarrow> (p, group, msk))"

definition layer_byte_facts :: "scapy_field list \<Rightarrow> (int list \<times> bool list) res" where
  "layer_byte_facts fs =
     (case foldl add_field (Whole [], True, []) fs of
        (Whole bs, _, msk) \<Rightarrow> Inr (bs, msk)
      | (Bits bs, _, msk) \<Rightarrow> Inl (SpecError ''layer has an unaligned bitfield header''))"

definition packet_byte_facts :: "scapy_field list list \<Rightarrow> (int list \<times> bool list) res" where
  "packet_byte_facts layers =
     efoldl (\<lambda>(bs, msk) l. ebind (layer_byte_facts l) (\<lambda>(p, m). Inr (bs @ p, msk @ m))) ([], []) layers"

definition eval_packet :: "(json \<Rightarrow> scapy_eval) \<Rightarrow> json \<Rightarrow> scapy_field list list res" where
  "eval_packet ev x = (case ev x of
       No_scapy \<Rightarrow> Inl (SpecError ''input.packet requires the scapy package'')
     | Eval_fails \<Rightarrow> Inl (SpecError ''could not evaluate packet expression'')
     | Not_a_packet \<Rightarrow> Inl (SpecError ''packet expression did not evaluate to a scapy Packet'')
     | Packet layers \<Rightarrow> Inr layers)"

section \<open>The input\<close>

record input_spec =
  is_pkt_bytes :: "(int \<times> int) list"
  is_pkt_len :: "int option"
  is_map_values :: "(int \<times> (int \<times> int) list) list"
  is_ingress :: "int option"
  is_rx_queue :: "int option"
  is_egress :: "int option"

definition is_comment :: "string \<Rightarrow> bool" where
  "is_comment k \<longleftrightarrow> (case k of c # r \<Rightarrow> c = CHR ''_'' | [] \<Rightarrow> False)"

definition explicit_bytes :: "int list \<Rightarrow> bool list \<Rightarrow> (int \<times> int) list res" where
  "explicit_bytes bs msk =
     emap (\<lambda>i. ebind (py_nth bs (int i)) (\<lambda>b. Inr (int i, b))) (filter (\<lambda>i. msk ! i) [0..<length msk])"

text \<open>\<open>ref.lstrip('-').isdigit()\<close>: the keys of a JSON object are texts.\<close>

definition map_ref :: "string \<Rightarrow> json res" where
  "map_ref r =
     (let d = dropWhile (\<lambda>c. c = CHR ''-'') r in
      if d \<noteq> [] \<and> list_all (digit_in 10) d then ebind (py_int_str 10 r) (\<lambda>k. Inr (JInt k)) else Inr (JStr r))"

definition parse_entry :: "map_info \<Rightarrow> (int \<times> int) list \<Rightarrow> string \<times> json \<Rightarrow> (int \<times> int) list res" where
  "parse_entry m kv e =
     ebind (parse_multibyte_int (JStr (fst e)) (m_key_size m)) (\<lambda>k.
     ebind (parse_multibyte_int (snd e) (m_value_size m)) (\<lambda>v. Inr (dict_set k v kv)))"

definition parse_map_input ::
  "map_info list \<Rightarrow> (int \<times> (int \<times> int) list) list \<Rightarrow> string \<times> json \<Rightarrow> (int \<times> (int \<times> int) list) list res" where
  "parse_map_input maps vals e =
     (if is_comment (fst e) then Inr vals
      else ebind (map_ref (fst e)) (\<lambda>r. ebind (resolve_map r maps) (\<lambda>m.
        if m_type m = BPF_MAP_TYPE_PROG_ARRAY then Inl (SpecError ''a PROG_ARRAY holds programs, not values'')
        else ebind (json_items (Some (snd e))) (\<lambda>entries.
          ebind (efoldl (parse_entry m) [] entries) (\<lambda>kv. Inr (dict_set (m_id m) kv vals))))))"

definition packet_input :: "(json \<Rightarrow> scapy_eval) \<Rightarrow> json \<Rightarrow> ((int \<times> int) list \<times> int option) res" where
  "packet_input ev node =
     ebind (json_in ''packet'' node) (\<lambda>there.
     if \<not> there then Inr ([], None)
     else ebind (json_item ''packet'' node) (\<lambda>x. ebind (eval_packet ev x) (\<lambda>layers.
       ebind (packet_byte_facts layers) (\<lambda>(bs, msk). ebind (explicit_bytes bs msk) (\<lambda>pb.
       Inr (pb, Some (int (length bs))))))))"

text \<open>\<open>node.get('context', {}) or {}\<close>, and a number of it.\<close>

definition context_of :: "json \<Rightarrow> json res" where
  "context_of node = ebind (json_get ''context'' node) (\<lambda>c. case c of
       Some x \<Rightarrow> Inr (if json_truthy x then x else JObj []) | None \<Rightarrow> Inr (JObj []))"

definition ctx_int :: "json \<Rightarrow> string \<Rightarrow> int option res" where
  "ctx_int ctx k =
     ebind (json_in k ctx) (\<lambda>there. if there then ebind (json_item k ctx) (\<lambda>x. ebind (parse_int x) (\<lambda>v. Inr (Some v)))
                                     else Inr None)"

definition declared_len :: "int option \<Rightarrow> int option \<Rightarrow> int option res" where
  "declared_len len declared = (case declared of
       None \<Rightarrow> Inr len
     | Some d \<Rightarrow> if (case len of Some l \<Rightarrow> d < l | None \<Rightarrow> False)
                 then Inl (SpecError ''context.pkt_len is shorter than the packet'') else Inr (Some d))"

definition parse_input :: "(json \<Rightarrow> scapy_eval) \<Rightarrow> map_info list \<Rightarrow> json \<Rightarrow> input_spec res" where
  "parse_input ev maps node =
     ebind (packet_input ev node) (\<lambda>(pb, len).
     ebind (context_of node) (\<lambda>ctx.
     ebind (ctx_int ctx ''pkt_len'') (\<lambda>d. ebind (declared_len len d) (\<lambda>len.
     ebind (json_get ''maps'' node) (\<lambda>ms. ebind (json_items ms) (\<lambda>ms.
     ebind (efoldl (parse_map_input maps) [] ms) (\<lambda>vals.
     ebind (ctx_int ctx ''ingress_ifindex'') (\<lambda>ing.
     ebind (ctx_int ctx ''rx_queue_index'') (\<lambda>rx.
     ebind (ctx_int ctx ''egress_ifindex'') (\<lambda>egr.
     Inr \<lparr>is_pkt_bytes = pb, is_pkt_len = len, is_map_values = vals, is_ingress = ing, is_rx_queue = rx,
          is_egress = egr\<rparr>))))))))))"

section \<open>The initial state of an input\<close>

definition map_input_arrays :: "input_spec \<Rightarrow> map_info \<Rightarrow> abt \<times> avt" where
  "map_input_arrays inp m =
     (let kw = nat (max (m_key_size m) 1 * 8); vw = nat (max (m_value_size m) 1 * 8);
          value = Array (''value'' @ show_int (m_id m)) kw vw
      in case dict_get (is_map_values inp) (m_id m) of
           None \<Rightarrow> (ArrayB (''present'' @ show_int (m_id m)) kw, value)
         | Some entries \<Rightarrow>
             foldl (\<lambda>(p, a) (k, v). (StoreB p (BitVecVal k kw) (BoolVal True), Store a (BitVecVal k kw) (BitVecVal v vw)))
               (KB kw (BoolVal False), value) entries)"

definition scalar_or :: "string \<Rightarrow> int option \<Rightarrow> bvt" where
  "scalar_or name v = (case v of None \<Rightarrow> BitVec name 64 | Some k \<Rightarrow> BitVecVal k 64)"

definition z3_state_from_input :: "input_spec \<Rightarrow> map_info list \<Rightarrow> z3_state" where
  "z3_state_from_input inp maps =
     (make_init_state maps maps)\<lparr>
       zs_pkt := foldl (\<lambda>a (off, v). Store a (BitVecVal off PKT_ADDR_BITS) (BitVecVal v 8))
         (Array ''pkt0'' PKT_ADDR_BITS 8) (is_pkt_bytes inp),
       zs_map := map (map_input_arrays inp) maps,
       zs_rx_index := scalar_or ''rx_queue_index0'' (is_rx_queue inp),
       zs_ingress := scalar_or ''ingress_ifindex'' (is_ingress inp),
       zs_egress := scalar_or ''egress_ifindex'' (is_egress inp),
       zs_pkt_len := scalar_or ''pkt_len'' (is_pkt_len inp)\<rparr>"

section \<open>Policies\<close>

definition parse_mode :: "json \<Rightarrow> assert_mode res" where
  "parse_mode x = (if x = JStr ''all'' then Inr M_all else if x = JStr ''exists'' then Inr M_exists
                   else Inl (SpecError ''invalid assert''))"

definition no_cond :: json where
  "no_cond = JObj [(''and'', JList [])]"

definition or_default :: "json \<Rightarrow> json option \<Rightarrow> json" where
  "or_default d x = (case x of None \<Rightarrow> d | Some y \<Rightarrow> y)"

definition parse_block_condition :: "spec_env \<Rightarrow> string \<Rightarrow> json \<Rightarrow> block_condition res" where
  "parse_block_condition se name node =
     ebind (json_in ''block'' node) (\<lambda>there.
     if \<not> there then Inl (SpecError ''needs a block'')
     else ebind (json_item ''block'' node) (\<lambda>x. ebind (py_int x) (\<lambda>b.
       if b < 0 \<or> int (length (se_blocks se)) \<le> b then Inl (SpecError ''not a tracked block'')
       else ebind (json_get ''assert'' node) (\<lambda>md. ebind (parse_mode (or_default (JStr ''exists'') md)) (\<lambda>mode.
         ebind (json_get ''cond'' node) (\<lambda>cn. ebind (parse_cond se (Some b) (or_default no_cond cn)) (\<lambda>c.
         Inr \<lparr>bc_name = name, bc_block = nat b, bc_mode = mode, bc_cond = c\<rparr>)))))))"

definition parse_exit_condition :: "spec_env \<Rightarrow> string \<Rightarrow> json \<Rightarrow> exit_condition res" where
  "parse_exit_condition se name node =
     ebind (json_get ''assert'' node) (\<lambda>md. ebind (parse_mode (or_default (JStr ''exists'') md)) (\<lambda>mode.
     ebind (json_get ''cond'' node) (\<lambda>cn. ebind (parse_cond se None (or_default no_cond cn)) (\<lambda>c.
     Inr \<lparr>ec_name = name, ec_mode = mode, ec_cond = c\<rparr>))))"

definition TOP_LEVEL_KEYS :: "string list" where
  "TOP_LEVEL_KEYS = [''input'', ''block_conditions'', ''exit_conditions'']"

record spec_policy = policy +
  po_input :: "input_spec option"

definition parse_conditions :: "(string \<Rightarrow> json \<Rightarrow> 'a res) \<Rightarrow> (string \<times> json) list \<Rightarrow> 'a list res" where
  "parse_conditions f kvs = emap (\<lambda>(k, x). f k x) (filter (\<lambda>(k, x). \<not> is_comment k) kvs)"

definition parse_spec :: "(json \<Rightarrow> scapy_eval) \<Rightarrow> spec_env \<Rightarrow> json \<Rightarrow> spec_policy res" where
  "parse_spec ev se raw =
     (case raw of JObj kvs \<Rightarrow>
        if list_ex (\<lambda>k. \<not> is_comment k \<and> k \<notin> set TOP_LEVEL_KEYS) (map fst kvs) then Inl (SpecError ''unknown top-level key(s)'')
        else if \<not> list_ex (has_key kvs) TOP_LEVEL_KEYS then Inl (SpecError ''spec has none of the top-level keys'')
        else
          ebind (case dict_get kvs ''input'' of None \<Rightarrow> Inr None
                 | Some node \<Rightarrow> ebind (parse_input ev (se_maps se) node) (\<lambda>i. Inr (Some i))) (\<lambda>inp.
          ebind (json_items (dict_get kvs ''block_conditions'')) (\<lambda>bs.
          ebind (parse_conditions (parse_block_condition se) bs) (\<lambda>bcs.
          ebind (json_items (dict_get kvs ''exit_conditions'')) (\<lambda>es.
          ebind (parse_conditions (parse_exit_condition se) es) (\<lambda>ecs.
          Inr \<lparr>po_blocks = bcs, po_exits = ecs, po_input = inp\<rparr>)))))
      | _ \<Rightarrow> Inl (SpecError ''top level must be an object''))"

end
