(* ===== verification/Spec_Values.thy ===== *)
theory Spec_Values
  imports Spec_Parse
begin

text \<open>
  The values of a policy: the ways a byte string may be written and the bytes they are read as, and
  the number that stands for the bytes in memory order.
\<close>

section \<open>Bytes and the numbers they make\<close>

definition from_big :: "int list \<Rightarrow> int" where
  "from_big bs = foldl (\<lambda>a b. a * 256 + b) 0 bs"

lemma from_big_snoc [simp]: "from_big [] = 0" "from_big (bs @ [b]) = from_big bs * 256 + b"
  by (simp_all add: from_big_def)

lemma from_big_bounds: "list_all is_byte bs \<Longrightarrow> 0 \<le> from_big bs \<and> from_big bs < 256 ^ length bs"
  by (induction bs rule: rev_induct) (auto simp: is_byte_def)

lemma from_big_byte:
  "list_all is_byte bs \<Longrightarrow> i < length bs \<Longrightarrow> from_big bs div 256 ^ (length bs - 1 - i) mod 256 = bs ! i"
proof (induction bs rule: rev_induct)
  case (snoc b bs)
  then have b: "0 \<le> b" "b < 256" by (simp_all add: is_byte_def)
  show ?case
  proof (cases "i = length bs")
    case True
    then show ?thesis using b by simp
  next
    case False
    then have i: "i < length bs" using snoc.prems by simp
    then obtain k where k: "length bs - i = Suc k" "length bs - 1 - i = k" by (metis Suc_diff_Suc diff_Suc_eq_diff_pred)
    have "(from_big bs * 256 + b) div 256 ^ Suc k = from_big bs div 256 ^ k"
      using b by (simp add: zdiv_zmult2_eq)
    then show ?thesis using snoc.IH snoc.prems i k by (simp add: nth_append)
  qed
qed simp

lemma int_to_bytes_from_big:
  assumes "list_all is_byte bs"
  shows "int_to_bytes (from_big bs) (length bs) = Inr bs"
proof -
  have "map (\<lambda>i. from_big bs div 256 ^ (length bs - 1 - i) mod 256) [0..<length bs] = bs"
    by (rule nth_equalityI) (use from_big_byte [OF assms] in simp_all)
  then show ?thesis using from_big_bounds [OF assms] by (simp add: int_to_bytes_def)
qed

lemma int_to_bytes_length: "int_to_bytes k n = Inr bs \<Longrightarrow> length bs = n \<and> list_all is_byte bs"
  by (auto simp: int_to_bytes_def is_byte_def list_all_iff split: if_splits)

lemma from_little_bounds: "list_all is_byte bs \<Longrightarrow> 0 \<le> from_little bs \<and> from_little bs < 256 ^ length bs"
  by (induction bs) (auto simp: is_byte_def)

lemma from_little_byte:
  "list_all is_byte bs \<Longrightarrow> i < length bs \<Longrightarrow> from_little bs div 256 ^ i mod 256 = bs ! i"
proof (induction bs arbitrary: i)
  case (Cons b bs)
  then have b: "0 \<le> b" "b < 256" by (simp_all add: is_byte_def)
  show ?case
  proof (cases i)
    case 0
    then show ?thesis using b by simp
  next
    case (Suc k)
    have "(b + 256 * from_little bs) div 256 ^ Suc k = from_little bs div 256 ^ k"
      using b by (simp add: zdiv_zmult2_eq)
    then show ?thesis using Cons Suc by simp
  qed
qed simp

section \<open>The texts a value may be written as\<close>

definition hex_digit :: "nat \<Rightarrow> char" where
  "hex_digit d = char_of (if d < 10 then 48 + d else 87 + d)"

definition hex_byte :: "int \<Rightarrow> string" where
  "hex_byte b = [hex_digit (nat b div 16), hex_digit (nat b mod 16)]"

definition dotted :: "int list \<Rightarrow> string" where
  "dotted bs = py_join (CHR ''.'') (map show_int bs)"

definition colons :: "int list \<Rightarrow> string" where
  "colons bs = py_join (CHR '':'') (map hex_byte bs)"

definition hexadecimal :: "int list \<Rightarrow> string" where
  "hexadecimal bs = ''0x'' @ concat (map hex_byte bs)"

lemma hex_digit_value: "d < 16 \<Longrightarrow> digit_value (hex_digit d) = Some d"
  by (auto simp: digit_value_def hex_digit_def Let_def of_char_of)

lemma hex_byte_digits:
  assumes "is_byte b"
  shows "list_all (digit_in 16) (hex_byte b)" and "text_value 16 (hex_byte b) = nat b"
proof -
  have d: "nat b div 16 < 16" "nat b mod 16 < 16" using assms by (auto simp: is_byte_def)
  note v = hex_digit_value [OF d(1)] hex_digit_value [OF d(2)]
  show "list_all (digit_in 16) (hex_byte b)" using d v by (simp add: hex_byte_def digit_in_def)
  show "text_value 16 (hex_byte b) = nat b" using v by (simp add: hex_byte_def text_value_def digits_value_def)
qed

lemma has_hex_prefix_pair: "has_hex_prefix [p, q] \<Longrightarrow> q = CHR ''x'' \<or> q = CHR ''X''"
  unfolding has_hex_prefix_def list.case by blast

lemma no_x_digit: "\<not> digit_in 16 CHR ''x''" "\<not> digit_in 16 CHR ''X''"
  by code_simp+

lemma hex_byte_text:
  assumes "is_byte b"
  shows "py_int_str 16 (hex_byte b) = Inr b"
proof -
  have "digit_in 16 (hex_digit (nat b mod 16))" using hex_byte_digits(1) [OF assms] by (simp add: hex_byte_def)
  then have "hex_digit (nat b mod 16) \<noteq> CHR ''x''" "hex_digit (nat b mod 16) \<noteq> CHR ''X''"
    using no_x_digit by metis+
  then have "\<not> has_hex_prefix (hex_byte b)" using has_hex_prefix_pair unfolding hex_byte_def by blast
  moreover have "hex_byte b \<noteq> []" by (simp add: hex_byte_def)
  ultimately show ?thesis
    using py_int_str_digits [of 16 "hex_byte b"] hex_byte_digits [OF assms] assms by (simp add: is_byte_def)
qed

lemma text_value_append: "text_value base (s @ t) = text_value base s * base ^ length t + text_value base t"
proof -
  have "foldl (\<lambda>a d. a * base + d) a ds = a * base ^ length ds + foldl (\<lambda>a d. a * base + d) 0 ds" for a and ds :: "nat list"
  proof (induction ds arbitrary: a rule: rev_induct)
    case (snoc d ds)
    show ?case using snoc.IH [of a] by (simp add: algebra_simps)
  qed simp
  from this [of "text_value base s"] show ?thesis by (simp add: text_value_def digits_value_def)
qed

lemma hexadecimal_digits:
  assumes "list_all is_byte bs"
  shows "list_all (digit_in 16) (concat (map hex_byte bs))" and "int (text_value 16 (concat (map hex_byte bs))) = from_big bs"
proof -
  show "list_all (digit_in 16) (concat (map hex_byte bs))"
    using assms hex_byte_digits(1) by (fastforce simp: list_all_iff)
  show "int (text_value 16 (concat (map hex_byte bs))) = from_big bs"
    using assms
  proof (induction bs rule: rev_induct)
    case (snoc b bs)
    then have b: "is_byte b" by simp
    have "length (hex_byte b) = 2" by (simp add: hex_byte_def)
    then show ?case
      using snoc hex_byte_digits(2) [OF b] b by (simp add: text_value_append is_byte_def)
  qed (simp add: text_value_def digits_value_def)
qed

lemma hex_prefix_cons: "has_hex_prefix (CHR ''0'' # CHR ''x'' # s)"
  by (simp add: has_hex_prefix_def)

lemma not_space_sep: "\<not> py_space CHR ''.''" "\<not> py_space CHR '':''" "\<not> py_space CHR ''0''" "\<not> py_space CHR ''x''" "\<not> py_space CHR ''-''"
  by code_simp+

lemma emap_inverse: "(\<And>x. x \<in> set xs \<Longrightarrow> f (g x) = Inr x) \<Longrightarrow> emap f (map g xs) = Inr xs"
  by (induction xs) auto

lemma hex_prefix_x: "has_hex_prefix s \<Longrightarrow> CHR ''x'' \<in> set s \<or> CHR ''X'' \<in> set s"
  unfolding has_hex_prefix_def by (cases s rule: remdups_adj.cases) auto

lemma show_int_digits: "0 \<le> k \<Longrightarrow> list_all (digit_in 10) (show_int k) \<and> show_int k \<noteq> [] \<and> py_int_str 10 (show_int k) = Inr k"
  using show_nat_digits [of "nat k"] py_int_str_show [of "nat k"] by (simp add: show_int_def)

lemma no_x_digit10: "\<not> digit_in 10 CHR ''x''" "\<not> digit_in 10 CHR ''X''"
  by code_simp+

text \<open>The characters of a joined text, and what they exclude.\<close>

definition joined :: "nat \<Rightarrow> char \<Rightarrow> string \<Rightarrow> bool" where
  "joined base c s \<longleftrightarrow> (\<forall>x \<in> set s. x = c \<or> digit_in base x)"

lemma joined_join: "list_all (list_all (digit_in base)) ps \<Longrightarrow> joined base c (py_join c ps)"
  using set_py_join [of c ps] by (fastforce simp: joined_def list_all_iff)

lemma joined_clean:
  assumes "joined base c s" and "c = CHR ''.'' \<or> c = CHR '':''" and "base = 10 \<or> base = 16"
  shows "py_strip s = s" and "\<not> has_hex_prefix s" and "c = CHR '':'' \<Longrightarrow> CHR ''.'' \<notin> set s"
proof -
  have "\<not> py_space x" if "x \<in> set s" for x
    using assms(1,2) that digit_in_char(2) [of base x] not_space_sep(1,2) unfolding joined_def by metis
  then show "py_strip s = s" by (intro py_strip_id) (simp add: list_all_iff)
  have "CHR ''x'' \<noteq> c" "CHR ''X'' \<noteq> c" using assms(2) by auto
  moreover have "\<not> digit_in base CHR ''x''" "\<not> digit_in base CHR ''X''"
    using assms(3) no_x_digit no_x_digit10 by metis+
  ultimately have "CHR ''x'' \<notin> set s" "CHR ''X'' \<notin> set s" using assms(1) unfolding joined_def by metis+
  then show "\<not> has_hex_prefix s" using hex_prefix_x by metis
  show "CHR ''.'' \<notin> set s" if "c = CHR '':''"
    using assms(1) that digit_in_char(5) [of base "CHR ''.''"] unfolding joined_def by fastforce
qed

lemma parse_dotted:
  assumes "list_all (\<lambda>k. 0 \<le> k) ks" and "1 < length ks"
  shows "parse_val_bytes (JStr (dotted ks)) (int (length ks)) = Inr ks"
proof -
  have d: "list_all (digit_in 10) (show_int k)" "py_int_str 10 (show_int k) = Inr k" if "k \<in> set ks" for k
    using assms(1) that show_int_digits [of k] by (simp_all add: list_all_iff)
  have "list_all (list_all (digit_in 10)) (map show_int ks)" using d(1) by (simp add: list_all_iff)
  then have j: "joined 10 (CHR ''.'') (dotted ks)" unfolding dotted_def by (rule joined_join)
  have "list_all (\<lambda>p. CHR ''.'' \<notin> set p) (map show_int ks)"
    using d(1) digit_in_char(5) by (fastforce simp: list_all_iff)
  moreover have "map show_int ks \<noteq> []" using assms(2) by auto
  ultimately have "py_split (CHR ''.'') (dotted ks) = map show_int ks"
    unfolding dotted_def by (rule py_split_join)
  moreover have "CHR ''.'' \<in> set (dotted ks)" unfolding dotted_def by (rule sep_in_join) (use assms(2) in simp)
  moreover have "emap (py_int_str 10) (map show_int ks) = Inr ks" by (rule emap_inverse) (rule d(2))
  ultimately show ?thesis using joined_clean [OF j] by (simp add: Let_def sized_def)
qed

lemma parse_colons:
  assumes "list_all is_byte bs" and "1 < length bs"
  shows "parse_val_bytes (JStr (colons bs)) (int (length bs)) = Inr bs"
proof -
  have d: "list_all (digit_in 16) (hex_byte k)" "py_int_str 16 (hex_byte k) = Inr k" if "k \<in> set bs" for k
    using assms(1) that hex_byte_digits(1) [of k] hex_byte_text [of k] by (simp_all add: list_all_iff)
  have "list_all (list_all (digit_in 16)) (map hex_byte bs)" using d(1) by (simp add: list_all_iff)
  then have j: "joined 16 (CHR '':'') (colons bs)" unfolding colons_def by (rule joined_join)
  have "list_all (\<lambda>p. CHR '':'' \<notin> set p) (map hex_byte bs)"
    using d(1) digit_in_char(6) by (fastforce simp: list_all_iff)
  moreover have "map hex_byte bs \<noteq> []" using assms(2) by auto
  ultimately have "py_split (CHR '':'') (colons bs) = map hex_byte bs"
    unfolding colons_def by (rule py_split_join)
  moreover have "CHR '':'' \<in> set (colons bs)" unfolding colons_def by (rule sep_in_join) (use assms(2) in simp)
  moreover have "emap (py_int_str 16) (map hex_byte bs) = Inr bs" by (rule emap_inverse) (rule d(2))
  ultimately show ?thesis using joined_clean [OF j] by (simp add: Let_def sized_def)
qed

lemma parse_hexadecimal:
  assumes "list_all is_byte bs" and "bs \<noteq> []"
  shows "parse_val_bytes (JStr (hexadecimal bs)) (int (length bs)) = Inr bs"
proof -
  let ?d = "concat (map hex_byte bs)"
  have s: "hexadecimal bs = CHR ''0'' # CHR ''x'' # ?d" by (simp add: hexadecimal_def)
  have "list_all (\<lambda>c. \<not> py_space c) (hexadecimal bs)"
    using hexadecimal_digits(1) [OF assms(1)] digit_in_char(2) [of 16] not_space_sep(3,4) unfolding s by (auto simp: list_all_iff)
  then have "py_strip (hexadecimal bs) = hexadecimal bs" by (rule py_strip_id)
  moreover have "?d \<noteq> []" using assms(2) by (cases bs) (auto simp: hex_byte_def)
  then have "py_int_str 16 (hexadecimal bs) = Inr (from_big bs)"
    using py_int_str_prefixed [OF hexadecimal_digits(1) [OF assms(1)]] hexadecimal_digits(2) [OF assms(1)] by (simp add: s)
  ultimately show ?thesis
    using int_to_bytes_from_big [OF assms(1)] by (simp add: Let_def to_bytes_def s hex_prefix_cons)
qed

lemma parse_decimal:
  assumes "list_all is_byte bs"
  shows "parse_val_bytes (JStr (show_int (from_big bs))) (int (length bs)) = Inr bs"
proof -
  have "0 \<le> from_big bs" using from_big_bounds [OF assms] by simp
  then have d: "list_all (digit_in 10) (show_int (from_big bs))" "py_int_str 10 (show_int (from_big bs)) = Inr (from_big bs)"
    using show_int_digits by blast+
  then have j: "joined 10 c (show_int (from_big bs))" for c by (simp add: joined_def list_all_iff)
  have "CHR ''.'' \<notin> set (show_int (from_big bs))" "CHR '':'' \<notin> set (show_int (from_big bs))"
    using d(1) digit_in_char(5,6) by (fastforce simp: list_all_iff)+
  then show ?thesis
    using d(2) joined_clean(1,2) [OF j [of "CHR ''.''"]] int_to_bytes_from_big [OF assms] by (simp add: Let_def to_bytes_def)
qed

text \<open>
  Claim C35.  Every way a policy may spell a byte string is read as the same bytes: the list of the
  bytes, the big-endian number, its decimal and its hexadecimal text, and, from two bytes on, the
  dotted and the colon-separated notation.
\<close>

theorem value_spellings_agree:
  assumes "list_all is_byte bs" and "1 < length bs"
  shows "\<forall>x \<in> {JList (map JInt bs), JInt (from_big bs), JStr (show_int (from_big bs)), JStr (hexadecimal bs),
           JStr (dotted bs), JStr (colons bs)}.
         parse_val_bytes x (int (length bs)) = Inr bs"
proof -
  have "k AND 255 = k" if "k \<in> set bs" for k
  proof -
    have "take_bit 8 k = k" using assms(1) that by (auto simp: list_all_iff is_byte_def take_bit_int_eq_self_iff)
    then show ?thesis by (simp add: and_numeral_mask)
  qed
  then have "emap (\<lambda>x. ebind (py_int x) (\<lambda>k. Inr (k AND 0xFF))) (map JInt bs) = Inr bs"
    by (intro emap_inverse) (simp add: py_int_def)
  moreover have "list_all (\<lambda>k. 0 \<le> k) bs" "bs \<noteq> []" using assms by (auto simp: list_all_iff is_byte_def)
  ultimately show ?thesis
    using int_to_bytes_from_big [OF assms(1)] parse_dotted [of bs] parse_colons [OF assms] parse_hexadecimal [OF assms(1)]
      parse_decimal [OF assms(1)] assms(2) by (simp add: to_bytes_def)
qed

theorem value_spellings_agree_witness:
  "parse_val_bytes (JStr ''10.0.200.7'') 4 = Inr [10, 0, 200, 7] \<and> parse_val_bytes (JStr ''0a:00:c8:07'') 4 = Inr [10, 0, 200, 7]"
proof -
  have "dotted [10, 0, 200, 7] = ''10.0.200.7''" "colons [10, 0, 200, 7] = ''0a:00:c8:07''" by code_simp+
  then show ?thesis using value_spellings_agree [of "[10, 0, 200, 7]"] by (simp add: is_byte_def)
qed

lemma parse_val_bytes_length: "parse_val_bytes x n = Inr bs \<Longrightarrow> int (length bs) = n"
proof (induction x n rule: parse_val_bytes.induct)
  case (2 k n)
  then show ?case by (auto simp: to_bytes_def split: if_splits dest: int_to_bytes_length)
next
  case (3 xs n)
  then show ?case by (auto split: if_splits dest: emap_length)
next
  case (4 s n)
  then show ?case
    by (auto simp: Let_def to_bytes_def sized_def ebind_eq_Inr split: if_splits dest: int_to_bytes_length)
qed auto

text \<open>
  The number a condition on a map or on a global is compared with stands for the bytes of
  the document in memory order: byte \<open>i\<close> of the little-endian number is the \<open>i\<close>-th byte that was
  written, there are as many as the field has, and the number fits the field.
\<close>

theorem value_in_memory_order:
  assumes "parse_multibyte_int x n = Inr v"
  shows "\<exists>bs. parse_val_bytes x n = Inr bs \<and> int (length bs) = n \<and> 0 \<le> v \<and> v < 256 ^ length bs \<and>
     (\<forall>i < length bs. v div 256 ^ i mod 256 = bs ! i)"
proof -
  obtain bs where bs: "parse_val_bytes x n = Inr bs" "little_int bs = Inr v"
    using assms by (auto simp: parse_multibyte_int_def ebind_eq_Inr)
  then have b: "list_all is_byte bs" "v = from_little bs" by (auto simp: little_int_def split: if_splits)
  show ?thesis
    using bs(1) parse_val_bytes_length [OF bs(1)] from_little_bounds [OF b(1)] from_little_byte [OF b(1)] b(2) by blast
qed

theorem value_in_memory_order_witness:
  "parse_multibyte_int (JStr ''10.0.200.7'') 4 = Inr 130547722 \<and> (130547722 :: int) div 256 ^ 2 mod 256 = 200"
proof -
  have r: "parse_multibyte_int (JStr ''10.0.200.7'') 4 = Inr 130547722" by code_simp
  have b: "parse_val_bytes (JStr ''10.0.200.7'') 4 = Inr [10, 0, 200, 7]" by code_simp
  from value_in_memory_order [OF r] b have "(130547722 :: int) div 256 ^ 2 mod 256 = [10, 0, 200, 7] ! 2" by force
  with r show ?thesis by simp
qed

text \<open>
  The parts of a dotted value are not held to the range of a byte: numbers of any size pass
  where the bytes are kept as they are, as in a condition on the packet, and are refused only where
  they are put together into one number.
\<close>

theorem dotted_parts_unchecked:
  assumes "list_all (\<lambda>k. 0 \<le> k) ks" and "1 < length ks"
  shows "parse_val_bytes (JStr (dotted ks)) (int (length ks)) = Inr ks \<and>
     parse_multibyte_int (JStr (dotted ks)) (int (length ks)) =
       (if list_all is_byte ks then Inr (from_little ks) else Inl (ValueError ''bytes must be in range(0, 256)''))"
  using parse_dotted [OF assms] by (simp_all add: parse_multibyte_int_def little_int_def)

theorem dotted_parts_unchecked_witness:
  "dotted [10, 0, 0, 300] = ''10.0.0.300'' \<and> parse_val_bytes (JStr (dotted [10, 0, 0, 300])) 4 = Inr [10, 0, 0, 300] \<and>
   parse_multibyte_int (JStr (dotted [10, 0, 0, 300])) 4 = Inl (ValueError ''bytes must be in range(0, 256)'')"
proof -
  have "dotted [10, 0, 0, 300] = ''10.0.0.300''" by code_simp
  then show ?thesis using dotted_parts_unchecked [of "[10, 0, 0, 300]"] by (simp add: is_byte_def)
qed

end
