(* ===== verification/Spec_Types.thy ===== *)
theory Spec_Types
  imports Spec_Values
begin

text \<open>
  What the reader of policies guarantees: the invariant of a condition that was read against a
  program, that every condition of an accepted policy has it, and that a read the condition is
  about really covers the bytes it names.
\<close>

section \<open>The bytes of a read\<close>

text \<open>Byte \<open>k\<close> of the source \<open>v\<close> is the byte at \<open>off\<close> of the packet or of the map.\<close>

definition source_byte :: "val list \<Rightarrow> nat \<Rightarrow> int option \<Rightarrow> int \<Rightarrow> val \<times> nat \<Rightarrow> bool" where
  "source_byte sources region mid off part =
     (fst part \<in> set sources \<and>
      (case region_source region mid (fst part) of None \<Rightarrow> False
       | Some (o1, sz) \<Rightarrow> snd part < sz \<and> o1 + int (snd part) = off))"

lemma byte_index_sound:
  "dict_get (byte_index sources region mid) off = Some part \<Longrightarrow> source_byte sources region mid off part"
proof -
  define f where "f = (\<lambda>out v. case region_source region mid v of None \<Rightarrow> out
     | Some (off, sz) \<Rightarrow> foldl (\<lambda>out i. dict_set (off + int i) (v, i) out) out [0..<sz])"
  have "\<forall>off part. dict_get (foldl f out vs) off = Some part \<longrightarrow> source_byte sources region mid off part"
    if "set vs \<subseteq> set sources" "\<forall>off part. dict_get out off = Some part \<longrightarrow> source_byte sources region mid off part" for vs out
    using that
  proof (induction vs arbitrary: out)
    case (Cons v vs)
    have "\<forall>off part. dict_get (f out v) off = Some part \<longrightarrow> source_byte sources region mid off part"
    proof (cases "region_source region mid v")
      case None
      then show ?thesis using Cons.prems(2) by (simp add: f_def)
    next
      case (Some os)
      obtain o1 sz where os: "os = (o1, sz)" by (cases os)
      have "\<forall>off part. dict_get (foldl (\<lambda>out i. dict_set (o1 + int i) (v, i) out) out ks) off = Some part \<longrightarrow>
          source_byte sources region mid off part" if "\<forall>i \<in> set ks. i < sz" for ks
        using that
      proof (induction ks rule: rev_induct)
        case Nil
        then show ?case using Cons.prems(2) by simp
      next
        case (snoc i ks)
        have "source_byte sources region mid (o1 + int i) (v, i)"
          using Cons.prems(1) Some os snoc.prems by (simp add: source_byte_def)
        then show ?case using snoc by simp
      qed
      from this [of "[0..<sz]"] show ?thesis using Some os by (simp add: f_def)
    qed
    with Cons show ?case by simp
  qed simp
  from this [of sources "[]"] show "dict_get (byte_index sources region mid) off = Some part \<Longrightarrow> ?thesis"
    unfolding byte_index_def f_def [symmetric] by (cases part) simp
qed

lemma assemble_sound:
  assumes "assemble sources region off n mid = Some parts"
  shows "length parts = nat n" and "\<forall>i < length parts. source_byte sources region mid (off + int i) (parts ! i)"
proof -
  have p: "parts = map (\<lambda>o1. the (dict_get (byte_index sources region mid) o1)) [off..off + n - 1]"
    "None \<notin> set (map (dict_get (byte_index sources region mid)) [off..off + n - 1])"
    using assms by (auto simp: assemble_def Let_def split: if_splits)
  show l: "length parts = nat n" by (simp add: p(1))
  show "\<forall>i < length parts. source_byte sources region mid (off + int i) (parts ! i)"
  proof (intro allI impI)
    fix i assume i: "i < length parts"
    then have n: "[off..off + n - 1] ! i = off + int i" "i < length [off..off + n - 1]" using l by (auto simp: nth_upto)
    then have "dict_get (byte_index sources region mid) (off + int i) \<noteq> None"
      using p(2) by (metis in_set_conv_nth length_map nth_map)
    then obtain part where "dict_get (byte_index sources region mid) (off + int i) = Some part" by blast
    moreover from this have "parts ! i = part" using n by (simp add: p(1))
    ultimately show "source_byte sources region mid (off + int i) (parts ! i)" using byte_index_sound by blast
  qed
qed

section \<open>The invariant of a condition\<close>

definition eq_or_ne :: "cmp_op \<Rightarrow> bool" where
  "eq_or_ne c \<longleftrightarrow> c = OpEq \<or> c = OpNe"

fun atom_ok :: "spec_env \<Rightarrow> int option \<Rightarrow> atom \<Rightarrow> bool" where
  "atom_ok se blk (PktAtom off sz bs c) = (length bs = sz \<and> eq_or_ne c)"
| "atom_ok se blk (MapAtom mid key present vl ks vs) =
     ((present \<noteq> None \<or> vl \<noteq> None) \<and> in_bits (8 * ks) key \<and> (\<forall>v. vl = Some v \<longrightarrow> in_bits (8 * vs) v) \<and>
      list_ex (\<lambda>m. m_id m = mid \<and> nat (m_key_size m) = ks \<and> nat (m_value_size m) = vs) (se_maps se))"
| "atom_ok se blk (BssAtom sy off sz v c) = (0 < sz \<and> in_bits (8 * sz) v \<and> eq_or_ne c)"
| "atom_ok se blk (LenAtom lo hi) = True"
| "atom_ok se blk (ScalarAtom t v) = True"
| "atom_ok se blk (HelperScalar im idx sz c v retval) =
     (case dict_get (se_calls se) idx of None \<Rightarrow> False
      | Some r \<Rightarrow> rec_ret r = Ret_scalar \<and> im = rec_imm r \<and> sz = rec_size r \<and> retval = rec_retval r)"
| "atom_ok se blk (HelperNull im idx result mid mk mki) =
     (case dict_get (se_calls se) idx of None \<Rightarrow> False
      | Some r \<Rightarrow> rec_ret r = Ret_map_ptr \<and> im = rec_imm r \<and> (mid, mk, mki) = rec_map r)"
| "atom_ok se blk (RetAtom c v) = (blk = None)"
| "atom_ok se blk (ReadAtom parts c target sz region off mid) =
     (case blk of None \<Rightarrow> False
      | Some b \<Rightarrow> 0 \<le> b \<and> b < int (length (se_blocks se)) \<and> length parts = sz \<and> in_bits (8 * sz) target \<and> eq_or_ne c \<and>
          (\<forall>i < sz. source_byte (t_sources (se_blocks se ! nat b)) region mid (off + int i) (parts ! i)))"

primrec node_ok :: "spec_env \<Rightarrow> int option \<Rightarrow> cond_node \<Rightarrow> bool" where
  "node_ok se blk (CLeaf a) = atom_ok se blk a"
| "node_ok se blk (CNot c) = node_ok se blk c"
| "node_ok se blk (CAnd cs) = list_all (\<lambda>x. x) (map (node_ok se blk) cs)"
| "node_ok se blk (COr cs) = (cs \<noteq> [] \<and> list_all (\<lambda>x. x) (map (node_ok se blk) cs))"

definition policy_ok :: "spec_env \<Rightarrow> spec_policy \<Rightarrow> bool" where
  "policy_ok se pol \<longleftrightarrow>
     list_all (\<lambda>bc. bc_block bc < length (se_blocks se) \<and> node_ok se (Some (int (bc_block bc))) (bc_cond bc)) (po_blocks pol) \<and>
     list_all (\<lambda>ec. node_ok se None (ec_cond ec)) (po_exits pol)"

section \<open>Every accepted condition has it\<close>

lemma parse_op_eq_ne: "parse_op eq_ne e x = Inr c \<Longrightarrow> eq_or_ne c"
  by (auto simp: parse_op_def eq_ne_def eq_or_ne_def CMP_OPS_def split: json.splits if_splits)

lemma multibyte_bits: "parse_multibyte_int x n = Inr v \<Longrightarrow> 0 \<le> n \<and> in_bits (8 * nat n) v"
proof -
  assume "parse_multibyte_int x n = Inr v"
  then obtain bs where "parse_val_bytes x n = Inr bs" "list_all is_byte bs" "v = from_little bs"
    by (auto simp: parse_multibyte_int_def little_int_def ebind_eq_Inr split: if_splits)
  moreover from this have "int (length bs) = n" by (intro parse_val_bytes_length)
  ultimately show ?thesis
    using from_little_bounds [of bs] by (auto simp: in_bits_def power_mult)
qed

lemma resolve_map_in: "resolve_map r maps = Inr m \<Longrightarrow> m \<in> set maps \<and> ref_matches r m"
  by (auto simp: resolve_map_def dest: find_SomeD)

lemma helper_atom_ok:
  assumes "parse_helper_atom se a = Inr at"
  shows "atom_ok se blk at"
proof -
  obtain idx where "ebind (Inr idx) (\<lambda>idx. case dict_get (se_calls se) idx of
       None \<Rightarrow> Inl (SpecError ''not a recorded helper call'')
     | Some r \<Rightarrow> if rec_ret r = Ret_transfer then Inl (SpecError ''a tail call has no return value'') else ebind (check_helper a r) (\<lambda>_.
           if rec_ret r = Ret_scalar then
             if \<not> has_key a ''op'' \<or> \<not> has_key a ''value'' then Inl (SpecError ''scalar helper atom needs op and value'')
             else ebind (item a ''op'') (\<lambda>p. ebind (parse_op all_ops ''invalid helper op'' p) (\<lambda>c.
                  ebind (item a ''value'') (\<lambda>x. ebind (parse_int x) (\<lambda>v.
                  Inr (HelperScalar (rec_imm r) idx (rec_size r) c v (rec_retval r))))))
           else
             let ret = get_or a ''returns'' JNull; (mid, mk, mki) = rec_map r in
             if ret = JStr ''null'' \<or> ret = JStr ''non_null''
             then Inr (HelperNull (rec_imm r) idx (ret = JStr ''non_null'') mid mk mki)
             else Inl (SpecError ''pointer helper atom needs returns''))) = Inr at"
    using assms unfolding parse_helper_atom_def ebind_eq_Inr [of "item a ''idx''"] ebind_eq_Inr [of "parse_int _"] by auto
  then obtain r where r: "dict_get (se_calls se) idx = Some r" "rec_ret r \<noteq> Ret_transfer"
    and at: "if rec_ret r = Ret_scalar then (\<exists>c v. at = HelperScalar (rec_imm r) idx (rec_size r) c v (rec_retval r))
      else (\<exists>b mid mk mki. rec_map r = (mid, mk, mki) \<and> at = HelperNull (rec_imm r) idx b mid mk mki)"
    by (cases "dict_get (se_calls se) idx"; cases "rec_map (the (dict_get (se_calls se) idx))")
      (auto simp: ebind_eq_Inr Let_def split: if_splits)
  show ?thesis
  proof (cases "rec_ret r")
    case Ret_map_ptr
    then show ?thesis using r at by auto
  qed (use r at in auto)
qed

lemma read_atom_ok:
  assumes "parse_read_atom se blk a = Inr at"
  shows "atom_ok se blk at"
proof -
  obtain b where b: "blk = Some b" "0 \<le> b" "b < int (length (se_blocks se))"
    using assms by (auto simp: parse_read_atom_def split: option.splits if_splits)
  obtain r where r: "item a ''read'' = Inr r" using assms b by (auto simp: parse_read_atom_def ebind_eq_Inr)
  obtain sp where sp: "r = JObj sp" using assms b r by (cases r) (auto simp: parse_read_atom_def)
  obtain c n place where c: "parse_op eq_ne ''invalid read op'' (get_or a ''op'' (JStr ''eq'')) = Inr c"
    and n: "py_int (get_or sp ''size'' JNull) = Inr n" and pl: "read_place se sp = Inr place"
    using assms b r sp by (auto simp: parse_read_atom_def ebind_eq_Inr split: if_splits)
  obtain region mid off where "place = (region, mid, off)" by (cases place)
  note pl = pl [unfolded this]
  have "(case assemble (t_sources (se_blocks se ! nat b)) region off n mid of
       None \<Rightarrow> Inl (SpecError ''block never read some byte'')
     | Some parts \<Rightarrow> ebind (parse_multibyte_int (get_or a ''value'' JNull) n) (\<lambda>target.
         Inr (ReadAtom parts c target (nat n) region off mid))) = Inr at"
    using assms b r sp c n pl by (auto simp: parse_read_atom_def split: if_splits)
  then obtain parts target where "assemble (t_sources (se_blocks se ! nat b)) region off n mid = Some parts"
    "parse_multibyte_int (get_or a ''value'' JNull) n = Inr target" "at = ReadAtom parts c target (nat n) region off mid"
    by (auto simp: ebind_eq_Inr split: option.splits)
  then show ?thesis using b c assemble_sound multibyte_bits parse_op_eq_ne by auto
qed

lemma map_atom_ok:
  assumes "parse_map_atom se a = Inr at"
  shows "atom_ok se blk at"
proof -
  obtain r m k key v where p: "resolve_map r (se_maps se) = Inr m"
    "\<not> (not_none (dict_get a ''contains'') = None \<and> not_none (dict_get a ''value'') = None)"
    "parse_multibyte_int k (m_key_size m) = Inr key"
    "(case not_none (dict_get a ''value'') of None \<Rightarrow> Inr None
      | Some x \<Rightarrow> ebind (parse_multibyte_int x (m_value_size m)) (\<lambda>v. Inr (Some v))) = Inr v"
    "at = MapAtom (m_id m) key (map_option json_truthy (not_none (dict_get a ''contains''))) v
       (nat (m_key_size m)) (nat (m_value_size m))"
    using assms by (auto simp: parse_map_atom_def ebind_eq_Inr Let_def split: if_splits)
  have "v = None \<longleftrightarrow> not_none (dict_get a ''value'') = None"
    and "\<And>w. v = Some w \<Longrightarrow> in_bits (8 * nat (m_value_size m)) w"
    using p(4) multibyte_bits by (auto simp: ebind_eq_Inr split: option.splits)
  then show ?thesis
    using p(2,5) multibyte_bits [OF p(3)] resolve_map_in [OF p(1)] by (auto simp: list_ex_iff)
qed

lemma bss_atom_ok:
  assumes "parse_bss_atom c a = Inr at" and "eq_or_ne c"
  shows "atom_ok se blk at"
proof -
  obtain b where b: "item a ''bss'' = Inr b" using assms by (auto simp: parse_bss_atom_def ebind_eq_Inr)
  obtain sy where sy: "b = JStr sy" using assms b by (cases b) (auto simp: parse_bss_atom_def)
  with assms b obtain n off v where "\<not> n < 1" "parse_multibyte_int (get_or a ''value'' JNull) n = Inr v"
    "at = BssAtom sy off (nat n) v c"
    by (auto simp: parse_bss_atom_def ebind_eq_Inr split: if_splits)
  then show ?thesis using assms(2) multibyte_bits by auto
qed

lemma other_atoms_ok:
  "parse_ret_atom blk a = Inr at \<Longrightarrow> atom_ok se blk at"
  "parse_len_atom a = Inr at \<Longrightarrow> atom_ok se blk at"
  "parse_ctx_atom a = Inr at \<Longrightarrow> atom_ok se blk at"
  by (auto simp: parse_ret_atom_def parse_len_atom_def parse_ctx_atom_def ebind_eq_Inr split: if_splits option.splits)

lemma pkt_atom_ok: "parse_pkt_atom c a = Inr at \<Longrightarrow> eq_or_ne c \<Longrightarrow> atom_ok se blk at"
  by (auto simp: parse_pkt_atom_def ebind_eq_Inr split: if_splits dest!: parse_val_bytes_length)

lemma parse_atom_ok:
  assumes "parse_atom se blk node = Inr at"
  shows "atom_ok se blk at"
proof -
  obtain a where n: "node = JObj a" using assms by (cases node) (auto simp: parse_atom_def)
  consider "parse_helper_atom se a = Inr at" | "parse_ret_atom blk a = Inr at" | "parse_read_atom se blk a = Inr at"
    | c where "eq_or_ne c" "parse_bss_atom c a = Inr at \<or> parse_map_atom se a = Inr at \<or> parse_len_atom a = Inr at \<or>
        parse_ctx_atom a = Inr at \<or> parse_pkt_atom c a = Inr at"
    using assms n by (auto simp: parse_atom_def ebind_eq_Inr split: if_splits dest: parse_op_eq_ne)
  then show ?thesis
    by cases (use helper_atom_ok read_atom_ok map_atom_ok other_atoms_ok bss_atom_ok pkt_atom_ok in metis)+
qed

lemma parse_cond_ok:
  "parse_cond se blk node = Inr c \<Longrightarrow> node_ok se blk c"
  "parse_conds se blk nodes = Inr cs \<Longrightarrow> list_all (node_ok se blk) cs \<and> length cs = length nodes"
proof (induction se blk node and se blk nodes arbitrary: c and cs rule: parse_cond_parse_conds.induct)
  case (1 se blk node)
  show ?case
  proof (cases "combinator node")
    case None
    then obtain a where "parse_atom se blk node = Inr a" "c = CLeaf a"
      using 1(3) unfolding parse_cond.simps [of se blk node] by (auto simp: ebind_eq_Inr)
    then show ?thesis using parse_atom_ok by simp
  next
    case (Some ok)
    obtain op kids where ok: "ok = (op, kids)" by (cases ok)
    note r = 1(3) [unfolded parse_cond.simps [of se blk node] Some ok option.case prod.case]
    show ?thesis
    proof (cases "op = ''not''")
      case True
      then obtain kid c' where k: "not_child kids = Inr kid" "parse_cond se blk kid = Inr c'" "c = CNot c'"
        using r by (auto simp: ebind_eq_Inr split: sum.splits)
      have "node_ok se blk c'" using 1(1) [OF Some _ True k(1) k(2)] ok by simp
      then show ?thesis by (simp add: k(3))
    next
      case False
      then obtain ks where k: "kids = JList ks" using r by (cases kids) auto
      show ?thesis
      proof (cases "ks = []")
        case True
        then have "c = CAnd []" using r False k by simp
        then show ?thesis by simp
      next
        case ne: False
        with r False k obtain cs where cs: "parse_conds se blk ks = Inr cs" "c = (if op = ''and'' then CAnd cs else COr cs)"
          by (auto simp: ebind_eq_Inr)
        have "list_all (node_ok se blk) cs \<and> length cs = length ks" using 1(2) [OF Some _ False k ne cs(1)] ok by simp
        with ne show ?thesis by (auto simp: cs(2) list_all_iff)
      qed
    qed
  qed
qed (auto simp: ebind_eq_Inr)

lemma emap_all: "emap f xs = Inr ys \<Longrightarrow> (\<And>x y. x \<in> set xs \<Longrightarrow> f x = Inr y \<Longrightarrow> P y) \<Longrightarrow> list_all P ys"
proof (induction xs arbitrary: ys)
  case (Cons x xs)
  from Cons.prems(1) obtain y zs where "f x = Inr y" "emap f xs = Inr zs" "ys = y # zs" by (auto simp: ebind_eq_Inr)
  moreover from this have "P y" using Cons.prems(2) [of x] by simp
  moreover have "list_all P zs" by (rule Cons.IH) (use calculation Cons.prems(2) in auto)
  ultimately show ?case by simp
qed simp

lemma block_condition_ok:
  assumes "parse_block_condition se name node = Inr bc"
  shows "bc_block bc < length (se_blocks se) \<and> node_ok se (Some (int (bc_block bc))) (bc_cond bc)"
proof -
  obtain b mode cn c where "0 \<le> b" "b < int (length (se_blocks se))" "parse_cond se (Some b) (or_default no_cond cn) = Inr c"
    "bc = \<lparr>bc_name = name, bc_block = nat b, bc_mode = mode, bc_cond = c\<rparr>"
    using assms by (auto simp: parse_block_condition_def ebind_eq_Inr not_less not_le split: if_splits)
  then show ?thesis using parse_cond_ok(1) by simp
qed

lemma exit_condition_ok: "parse_exit_condition se name node = Inr ec \<Longrightarrow> node_ok se None (ec_cond ec)"
  by (auto simp: parse_exit_condition_def ebind_eq_Inr dest: parse_cond_ok(1))

text \<open>
  Claim C19.  An accepted policy is well formed against its program: every block condition names a
  tracked block; no \<open>or\<close> is empty; the bytes of a packet condition are as many as its size; the key and
  the value compared with a map's fit the sizes of that map; a condition on a helper's result is about
  a recorded call and its own result; a condition on the return value stands at the exits only; and
  every byte a read condition is about is one the block really reads, at that place.
\<close>

theorem accepted_policy_ok:
  assumes "parse_spec ev se raw = Inr pol"
  shows "policy_ok se pol"
proof -
  obtain bs es where "parse_conditions (parse_block_condition se) bs = Inr (po_blocks pol)"
    "parse_conditions (parse_exit_condition se) es = Inr (po_exits pol)"
    using assms by (cases raw) (auto simp: parse_spec_def ebind_eq_Inr split: if_splits)
  then show ?thesis
    unfolding policy_ok_def parse_conditions_def
    by (auto elim!: emap_all dest!: block_condition_ok exit_condition_ok)
qed

definition demo_spec_env :: spec_env where
  "demo_spec_env =
     \<lparr>se_maps = [\<lparr>m_id = 0, m_name = Some ''flows'', m_type = 1, m_key_size = 4, m_value_size = 8, m_max_entries = 16, m_flags = 0\<rparr>],
      se_blocks = [(new_tblock (new_bblock 0 0 0))\<lparr>t_sources := [Pkt_val 0 3 12 None 2]\<rparr>],
      se_calls = []\<rparr>"

definition demo_document :: json where
  "demo_document = JObj
     [(''_note'', JStr ''IPv4 only''),
      (''block_conditions'', JObj [(''ip'', JObj [(''block'', JInt 0), (''cond'', JObj [(''or'', JList
         [JObj [(''read'', JObj [(''offset'', JInt 12), (''size'', JInt 2)]), (''value'', JStr ''0x0800'')],
          JObj [(''map'', JStr ''flows''), (''key'', JStr ''10.0.0.1''), (''contains'', JBool True)]])])])]),
      (''exit_conditions'', JObj [(''pass'', JObj [(''assert'', JStr ''all''), (''cond'', JObj [(''ret'', JInt 2)])])])]"

theorem accepted_policy_ok_witness:
  "\<exists>pol. parse_spec (\<lambda>_. No_scapy) demo_spec_env demo_document = Inr pol \<and> policy_ok demo_spec_env pol \<and>
     length (po_blocks pol) = 1"
proof -
  obtain pol where p: "parse_spec (\<lambda>_. No_scapy) demo_spec_env demo_document = Inr pol" "length (po_blocks pol) = 1"
  proof -
    have "case parse_spec (\<lambda>_. No_scapy) demo_spec_env demo_document of Inl e \<Rightarrow> False | Inr pol \<Rightarrow> length (po_blocks pol) = 1"
      by code_simp
    then show ?thesis using that by (auto split: sum.splits)
  qed
  with accepted_policy_ok [OF p(1)] show ?thesis by blast
qed

section \<open>What the combinators mean\<close>

text \<open>
  A condition of a policy as it is documented: the leaves are objects that are no combinator, and the child of a
  \<open>not\<close> stands for itself or in a list of one.  \<open>doc_of\<close> is its document, \<open>leaves\<close> the leaves from left to
  right, \<open>tree_of\<close> the condition that is parsed, \<open>meaning\<close> what it says.
\<close>

datatype formula = F_leaf json | F_and "formula list" | F_or "formula list" | F_not formula | F_not_list formula

primrec doc_of :: "formula \<Rightarrow> json" where
  "doc_of (F_leaf j) = j"
| "doc_of (F_and fs) = JObj [(''and'', JList (map doc_of fs))]"
| "doc_of (F_or fs) = JObj [(''or'', JList (map doc_of fs))]"
| "doc_of (F_not f) = JObj [(''not'', doc_of f)]"
| "doc_of (F_not_list f) = JObj [(''not'', JList [doc_of f])]"

primrec leaves :: "formula \<Rightarrow> json list" where
  "leaves (F_leaf j) = [j]"
| "leaves (F_and fs) = concat (map leaves fs)"
| "leaves (F_or fs) = concat (map leaves fs)"
| "leaves (F_not f) = leaves f"
| "leaves (F_not_list f) = leaves f"

definition atomic :: "json \<Rightarrow> bool" where
  "atomic j = (case j of JObj kvs \<Rightarrow> combinator j = None | _ \<Rightarrow> False)"

primrec tree_of :: "(json \<Rightarrow> atom) \<Rightarrow> formula \<Rightarrow> cond_node" where
  "tree_of at (F_leaf j) = CLeaf (at j)"
| "tree_of at (F_and fs) = CAnd (map (tree_of at) fs)"
| "tree_of at (F_or fs) = (if fs = [] then CAnd [] else COr (map (tree_of at) fs))"
| "tree_of at (F_not f) = CNot (tree_of at f)"
| "tree_of at (F_not_list f) = CNot (tree_of at f)"

primrec meaning :: "(json \<Rightarrow> bool) \<Rightarrow> formula \<Rightarrow> bool" where
  "meaning p (F_leaf j) = p j"
| "meaning p (F_and fs) = list_all (\<lambda>x. x) (map (meaning p) fs)"
| "meaning p (F_or fs) = (fs = [] \<or> list_ex (\<lambda>x. x) (map (meaning p) fs))"
| "meaning p (F_not f) = (\<not> meaning p f)"
| "meaning p (F_not_list f) = (\<not> meaning p f)"

lemma emap_append: "emap f (xs @ ys) = ebind (emap f xs) (\<lambda>as. ebind (emap f ys) (\<lambda>bs. Inr (as @ bs)))"
  by (induction xs) (auto simp: ebind_def split: sum.splits)

lemma doc_of_obj:
  assumes "list_all atomic (leaves f)"
  shows "\<exists>kvs. doc_of f = JObj kvs"
  using assms by (cases f) (auto simp: atomic_def split: json.splits)

lemma parse_cond_list:
  assumes "op = ''and'' \<or> op = ''or''"
  shows "parse_cond se blk (JObj [(op, JList ks)]) =
    (if ks = [] then Inr (CAnd []) else ebind (parse_conds se blk ks) (\<lambda>cs. Inr (if op = ''and'' then CAnd cs else COr cs)))"
  using assms by (auto simp: parse_cond.simps [of se blk "JObj [(op, JList ks)]"])

lemma parse_cond_not:
  "parse_cond se blk (JObj [(''not'', JList [k])]) = ebind (parse_cond se blk k) (\<lambda>c. Inr (CNot c))"
  "parse_cond se blk (JObj [(''not'', JObj kvs)]) = ebind (parse_cond se blk (JObj kvs)) (\<lambda>c. Inr (CNot c))"
  by (simp_all add: parse_cond.simps [of se blk "JObj [(''not'', x)]" for x] not_child_def)

lemma parse_conds_tree:
  assumes "\<And>f. f \<in> set fs \<Longrightarrow> parse_cond se blk (doc_of f) = ebind (emap g (leaves f)) (\<lambda>as. Inr (h f))"
  shows "parse_conds se blk (map doc_of fs) = ebind (emap g (concat (map leaves fs))) (\<lambda>as. Inr (map h fs))"
  using assms by (induction fs) (auto simp: emap_append ebind_def split: sum.splits)

text \<open>Parsing reports the first leaf that is no condition, and builds the tree when there is none.\<close>

lemma parse_tree:
  defines "at \<equiv> \<lambda>se blk j. case parse_atom se blk j of Inr a \<Rightarrow> a | Inl e \<Rightarrow> RetAtom OpEq 0"
  shows "list_all atomic (leaves f) \<Longrightarrow>
    parse_cond se blk (doc_of f) = ebind (emap (parse_atom se blk) (leaves f)) (\<lambda>as. Inr (tree_of (at se blk) f))"
proof (induction f)
  case (F_leaf j)
  then have "combinator j = None" by (auto simp: atomic_def split: json.splits)
  then show ?case
    by (cases "parse_atom se blk j") (simp_all add: parse_cond.simps [of se blk j] at_def)
next
  case (F_and fs)
  then have "parse_conds se blk (map doc_of fs) =
      ebind (emap (parse_atom se blk) (concat (map leaves fs))) (\<lambda>as. Inr (map (tree_of (at se blk)) fs))"
    by (intro parse_conds_tree) (auto simp: list_all_iff)
  then show ?case by (auto simp: parse_cond_list ebind_def split: sum.splits)
next
  case (F_or fs)
  then have "parse_conds se blk (map doc_of fs) =
      ebind (emap (parse_atom se blk) (concat (map leaves fs))) (\<lambda>as. Inr (map (tree_of (at se blk)) fs))"
    by (intro parse_conds_tree) (auto simp: list_all_iff)
  then show ?case by (auto simp: parse_cond_list ebind_def split: sum.splits)
next
  case (F_not f)
  then obtain kvs where "doc_of f = JObj kvs" using doc_of_obj by auto
  with F_not show ?case by (auto simp: parse_cond_not ebind_def split: sum.splits)
next
  case (F_not_list f)
  then show ?case by (auto simp: parse_cond_not ebind_def split: sum.splits)
qed

lemma meaning_cong: "(\<And>j. j \<in> set (leaves f) \<Longrightarrow> p j = q j) \<Longrightarrow> meaning p f = meaning q f"
  by (induction f) (auto simp: list_all_iff list_ex_iff)

lemma tree_meaning:
  "node_holds ev evb eva evab z st m (tree_of at f) = meaning (\<lambda>j. atom_holds ev evb eva evab z st m (at j)) f"
  by (induction f) (auto simp: list_all_iff list_ex_iff)

text \<open>
  Claim C36.  The combinators of a policy mean what they say.  Take a condition written with \<open>and\<close>,
  \<open>or\<close> and \<open>not\<close>, nested to any depth, the child of a \<open>not\<close> given directly or in a list of one.  If a
  leaf of it is no condition, parsing fails with the error of the first such leaf; otherwise the parsed tree
  holds exactly when the Boolean combination of its leaves does, with the exception that an \<open>or\<close> of no
  children is read as true.
\<close>

theorem combinators_parsed:
  assumes "list_all atomic (leaves f)"
  shows "case emap (parse_atom se blk) (leaves f) of
      Inl e \<Rightarrow> parse_cond se blk (doc_of f) = Inl e
    | Inr as \<Rightarrow> \<exists>c. parse_cond se blk (doc_of f) = Inr c \<and>
        node_holds ev evb eva evab z st m c =
          meaning (\<lambda>j. case parse_atom se blk j of Inr a \<Rightarrow> atom_holds ev evb eva evab z st m a | Inl e \<Rightarrow> False) f"
proof (cases "emap (parse_atom se blk) (leaves f)")
  case (Inl e)
  then show ?thesis using parse_tree [OF assms] by simp
next
  case (Inr as)
  let ?at = "\<lambda>j. case parse_atom se blk j of Inr a \<Rightarrow> a | Inl e \<Rightarrow> RetAtom OpEq 0"
  have "\<exists>a. parse_atom se blk j = Inr a" if "j \<in> set (leaves f)" for j
    using that emap_nth [OF Inr] by (auto simp: in_set_conv_nth)
  then have "meaning (\<lambda>j. atom_holds ev evb eva evab z st m (?at j)) f =
      meaning (\<lambda>j. case parse_atom se blk j of Inr a \<Rightarrow> atom_holds ev evb eva evab z st m a | Inl e \<Rightarrow> False) f"
    by (intro meaning_cong) fastforce
  then show ?thesis using Inr parse_tree [OF assms, of se blk] by (simp add: tree_meaning)
qed

text \<open>
  \<open>{"not": {"or": [{"not": [at least 14 bytes]}, returns 2]}}\<close> beside an empty \<open>or\<close>: of a packet of 60 bytes
  for which the program returns 1, it holds.
\<close>

definition demo_formula :: formula where
  "demo_formula = F_and [F_not (F_or [F_not_list (F_leaf (JObj [(''pkt_len'', JObj [(''min'', JInt 14)])])),
     F_leaf (JObj [(''ret'', JInt 2)])]), F_or []]"

definition demo_packet :: z3_state where
  "demo_packet = (make_init_state [] [])\<lparr>zs_pkt_len := BitVecVal 60 64, zs_r0 := BitVecVal 1 64\<rparr>"

theorem combinators_parsed_witness:
  "\<exists>c. parse_cond demo_spec_env None (doc_of demo_formula) = Inr c \<and>
     node_holds eval_bv eval_b eval_a eval_ab std_queries demo_packet demo_env c"
proof -
  have leaves: "leaves demo_formula = [JObj [(''pkt_len'', JObj [(''min'', JInt 14)])], JObj [(''ret'', JInt 2)]]"
    by (simp add: demo_formula_def)
  have at: "parse_atom demo_spec_env None (JObj [(''pkt_len'', JObj [(''min'', JInt 14)])]) = Inr (LenAtom (Some 14) None)"
    "parse_atom demo_spec_env None (JObj [(''ret'', JInt 2)]) = Inr (RetAtom OpEq 2)"
    by code_simp+
  have "list_all atomic (leaves demo_formula)" by (simp add: leaves atomic_def)
  from combinators_parsed [OF this, of demo_spec_env None eval_bv eval_b eval_a eval_ab std_queries demo_packet demo_env]
  show ?thesis unfolding leaves by (simp add: at) (simp add: demo_formula_def at demo_packet_def)
qed

end
