(* ===== verification/Spec_Input.thy ===== *)
theory Spec_Input
  imports Spec_Types
begin

text \<open>
  The initial state of a policy's input: the arrays that are built from the parsed input hold what
  the document says, whatever the assignment, and stay symbolic where it says nothing.
\<close>

section \<open>Stores along a dictionary\<close>

lemma in_bits_mono: "in_bits w k \<Longrightarrow> w \<le> w' \<Longrightarrow> in_bits w' k"
  unfolding in_bits_def by (meson dual_order.strict_trans1 less_le_trans numeral_le_iff one_le_numeral power_increasing order.strict_trans2)

context smtlib begin

lemma stores_dict:
  assumes "distinct (map fst kvs)" and "\<forall>(k, v) \<in> set kvs. in_bits d k" and "z_dom z a = d" and "z_rng z a = r"
    and "in_bits d i"
  shows "eva m (foldl (\<lambda>a (k, v). Store a (BitVecVal k d) (BitVecVal v r)) a kvs) i =
     (case dict_get kvs i of None \<Rightarrow> eva m a i | Some v \<Rightarrow> take_bit r v)"
  using assms
proof (induction kvs arbitrary: a)
  case (Cons e kvs)
  obtain k v where e: "e = (k, v)" by (cases e)
  let ?a = "Store a (BitVecVal k d) (BitVecVal v r)"
  have k: "take_bit d k = k" using Cons.prems(2) e by (auto intro: in_bits_take_bit)
  have s: "eva m ?a = (eva m a)(k := take_bit r v)"
    using Cons.prems(3,4) by (simp add: eva_Store size_simps ev_BitVecVal k)
  have "eva m (foldl (\<lambda>a (k, v). Store a (BitVecVal k d) (BitVecVal v r)) ?a kvs) i =
     (case dict_get kvs i of None \<Rightarrow> eva m ?a i | Some v \<Rightarrow> take_bit r v)"
    by (rule Cons.IH) (use Cons.prems e in \<open>auto simp: size_simps\<close>)
  moreover have "dict_get kvs k = None" using Cons.prems(1) e by (simp add: map_of_eq_None_iff)
  ultimately show ?case using s e by (auto split: option.splits)
qed simp

lemma presence_dict:
  assumes "\<forall>(k, v) \<in> set kvs. in_bits d k" and "in_bits d i"
  shows "evab m (foldl (\<lambda>p (k, v). StoreB p (BitVecVal k d) (BoolVal True)) p kvs) i =
     (dict_get kvs i \<noteq> None \<or> evab m p i)"
  using assms
proof (induction kvs arbitrary: p)
  case (Cons e kvs)
  obtain k v where e: "e = (k, v)" by (cases e)
  have k: "take_bit d k = k" using Cons.prems(1) e by (auto intro: in_bits_take_bit)
  show ?case
    using Cons.IH [of "StoreB p (BitVecVal k d) (BoolVal True)"] Cons.prems e
    by (auto simp: evab_StoreB ev_BitVecVal k evb_BoolVal split: if_splits)
qed simp

end

lemma foldl_pair: "foldl (\<lambda>(p, a) (k, v). (f p k v, g a k v)) (p, a) kvs = (foldl (\<lambda>p (k, v). f p k v) p kvs, foldl (\<lambda>a (k, v). g a k v) a kvs)"
  by (induction kvs arbitrary: p a) auto

section \<open>The parsed input\<close>

definition entries_ok :: "map_info \<Rightarrow> (int \<times> int) list \<Rightarrow> bool" where
  "entries_ok m kv \<longleftrightarrow> distinct (map fst kv) \<and>
     list_all (\<lambda>(k, v). in_bits (8 * nat (m_key_size m)) k \<and> in_bits (8 * nat (m_value_size m)) v) kv"

lemma dict_set_all: "list_all P d \<Longrightarrow> P (k, v) \<Longrightarrow> list_all P (dict_set k v d)"
  by (induction d) auto

lemma parse_entries_ok: "efoldl (parse_entry m) kv entries = Inr kv' \<Longrightarrow> entries_ok m kv \<Longrightarrow> entries_ok m kv'"
  by (erule efoldl_invariant [where P = "entries_ok m"])
    (auto simp: parse_entry_def ebind_eq_Inr entries_ok_def intro!: distinct_update dict_set_all dest!: multibyte_bits)

definition values_ok :: "map_info list \<Rightarrow> (int \<times> (int \<times> int) list) list \<Rightarrow> bool" where
  "values_ok maps vals \<longleftrightarrow> list_all (\<lambda>(i, kv). \<exists>m \<in> set maps. m_id m = i \<and> entries_ok m kv) vals"

lemma parse_map_input_ok:
  assumes "parse_map_input maps vals e = Inr vals'" and "values_ok maps vals"
  shows "values_ok maps vals'"
proof (cases "is_comment (fst e)")
  case False
  with assms(1) obtain r m entries kv where p: "resolve_map r maps = Inr m" "efoldl (parse_entry m) [] entries = Inr kv"
    "vals' = dict_set (m_id m) kv vals"
    by (auto simp: parse_map_input_def ebind_eq_Inr split: if_splits)
  have "entries_ok m kv" by (rule parse_entries_ok [OF p(2)]) (simp add: entries_ok_def)
  then show ?thesis
    using resolve_map_in [OF p(1)] assms(2) unfolding p(3) values_ok_def by (intro dict_set_all) auto
qed (use assms in \<open>simp add: parse_map_input_def\<close>)

lemma explicit_bytes_distinct: "explicit_bytes bs msk = Inr pb \<Longrightarrow> distinct (map fst pb) \<and> list_all (\<lambda>(off, b). 0 \<le> off) pb"
proof -
  assume e: "explicit_bytes bs msk = Inr pb"
  have f: "map fst ys = map int xs" if "emap (\<lambda>i. ebind (py_nth bs (int i)) (\<lambda>b. Inr (int i, b))) xs = Inr ys" for xs ys
    using that by (induction xs arbitrary: ys) (auto simp: ebind_eq_Inr)
  from f [OF e [unfolded explicit_bytes_def]] have m: "map fst pb = map int (filter ((!) msk) [0..<length msk])" .
  then have "distinct (map fst pb)" by (simp add: distinct_map)
  moreover have "\<forall>k \<in> set (map fst pb). 0 \<le> k" unfolding m by auto
  ultimately show ?thesis by (auto simp: list_all_iff)
qed

lemma parse_input_ok:
  assumes "parse_input sc maps node = Inr inp"
  shows "values_ok maps (is_map_values inp)" and "distinct (map fst (is_pkt_bytes inp))"
    and "list_all (\<lambda>(off, b). 0 \<le> off) (is_pkt_bytes inp)"
proof -
  obtain pb len vals ms where p: "packet_input sc node = Inr (pb, len)" "efoldl (parse_map_input maps) [] ms = Inr vals"
    "is_pkt_bytes inp = pb" "is_map_values inp = vals"
    using assms by (auto simp: parse_input_def ebind_eq_Inr)
  show "values_ok maps (is_map_values inp)" unfolding p(4)
    by (rule efoldl_invariant [OF p(2), where P = "values_ok maps"]) (auto simp: values_ok_def intro: parse_map_input_ok [unfolded values_ok_def])
  have "pb = [] \<or> (\<exists>bs msk. explicit_bytes bs msk = Inr pb)"
    using p(1) by (auto simp: packet_input_def ebind_eq_Inr split: if_splits)
  then show "distinct (map fst (is_pkt_bytes inp))" "list_all (\<lambda>(off, b). 0 \<le> off) (is_pkt_bytes inp)"
    using explicit_bytes_distinct p(3) by auto
qed

section \<open>The arrays\<close>

lemma entry_bits:
  assumes "entries_ok m kv" and "(k, v) \<in> set kv"
  shows "in_bits (nat (max (m_key_size m) 1 * 8)) k" and "in_bits (nat (max (m_value_size m) 1 * 8)) v"
proof -
  have "8 * nat s \<le> nat (max s 1 * 8)" for s by simp
  moreover have "in_bits (8 * nat (m_key_size m)) k" "in_bits (8 * nat (m_value_size m)) v"
    using assms by (auto simp: entries_ok_def list_all_iff)
  ultimately show "in_bits (nat (max (m_key_size m) 1 * 8)) k" "in_bits (nat (max (m_value_size m) 1 * 8)) v"
    using in_bits_mono by blast+
qed

lemma map_input_exact:
  assumes "smtlib z ev evb eva evab" and "dict_get (is_map_values inp) (m_id m) = Some kv" and "entries_ok m kv"
    and "in_bits (nat (max (m_key_size m) 1 * 8)) key"
  shows "evab w (fst (map_input_arrays inp m)) key = (dict_get kv key \<noteq> None)"
    and "dict_get kv key = Some v \<Longrightarrow> eva w (snd (map_input_arrays inp m)) key = v"
proof -
  let ?kw = "nat (max (m_key_size m) 1 * 8)" and ?vw = "nat (max (m_value_size m) 1 * 8)"
  have k: "\<forall>(k, v) \<in> set kv. in_bits ?kw k" using entry_bits(1) [OF assms(3)] by blast
  have arr: "map_input_arrays inp m =
     (foldl (\<lambda>p (k, v). StoreB p (BitVecVal k ?kw) (BoolVal True)) (KB ?kw (BoolVal False)) kv,
      foldl (\<lambda>a (k, v). Store a (BitVecVal k ?kw) (BitVecVal v ?vw)) (Array (''value'' @ show_int (m_id m)) ?kw ?vw) kv)"
    using assms(2) by (simp add: map_input_arrays_def Let_def foldl_pair)
  show "evab w (fst (map_input_arrays inp m)) key = (dict_get kv key \<noteq> None)"
    using smtlib.presence_dict [OF assms(1) k assms(4)]
    by (simp add: arr smtlib.evab_KB [OF assms(1)] smtlib.evb_BoolVal [OF assms(1)])
  show "eva w (snd (map_input_arrays inp m)) key = v" if v: "dict_get kv key = Some v"
  proof -
    have "in_bits ?vw v" using entry_bits(2) [OF assms(3)] map_of_SomeD [OF v] by blast
    then show ?thesis
      using smtlib.stores_dict [OF assms(1) _ k _ _ assms(4), of "Array (''value'' @ show_int (m_id m)) ?kw ?vw" ?vw w]
        assms(3) v by (simp add: arr entries_ok_def smtlib.dom_Array [OF assms(1)] smtlib.rng_Array [OF assms(1)] in_bits_take_bit)
  qed
qed

lemma input_packet_byte:
  assumes "smtlib z ev evb eva evab" and "parse_input sc maps node = Inr inp"
    and "list_all (\<lambda>(off, b). off < 65536) (is_pkt_bytes inp)" and "in_bits 16 off"
  shows "eva w (zs_pkt (z3_state_from_input inp maps)) off = (case dict_get (is_pkt_bytes inp) off of
         None \<Rightarrow> eva w (Array ''pkt0'' 16 8) off | Some b \<Rightarrow> take_bit 8 b)"
proof -
  note ok = parse_input_ok [OF assms(2)]
  have b: "\<forall>(k, v) \<in> set (is_pkt_bytes inp). in_bits 16 k"
    using ok(3) assms(3) by (auto simp: list_all_iff in_bits_def)
  show ?thesis
    using smtlib.stores_dict [OF assms(1) ok(2) b _ _ assms(4), of "Array ''pkt0'' 16 8" 8 w]
    by (simp add: z3_state_from_input_def smtlib.dom_Array [OF assms(1)] smtlib.rng_Array [OF assms(1)])
qed

text \<open>
  Claim C20.  The initial state built from a parsed input says exactly what the input says, under every
  assignment: the bytes the packet expression pins have their values and every other byte is the one of
  the symbolic packet; a map that is listed holds the listed keys, with their values, and no other; a map
  that is not listed is symbolic; and the packet length is the declared one.
\<close>

theorem input_state_exact:
  assumes "smtlib z ev evb eva evab" and "parse_input sc maps node = Inr inp" and "distinct (map m_id maps)"
    and "list_all (\<lambda>(off, b). off < 65536) (is_pkt_bytes inp)" and "in_bits 16 off"
    and "i < length maps" and "in_bits (nat (max (m_key_size (maps ! i)) 1 * 8)) key"
  shows "let st = z3_state_from_input inp maps in
     eva w (zs_pkt st) off = (case dict_get (is_pkt_bytes inp) off of
         None \<Rightarrow> eva w (Array ''pkt0'' 16 8) off | Some b \<Rightarrow> take_bit 8 b) \<and>
     (case dict_get (is_map_values inp) (m_id (maps ! i)) of
        None \<Rightarrow> zs_map st ! i = zs_map (make_init_state maps []) ! i
      | Some kv \<Rightarrow> evab w (fst (zs_map st ! i)) key = (dict_get kv key \<noteq> None) \<and>
          (case dict_get kv key of None \<Rightarrow> True | Some v \<Rightarrow> eva w (snd (zs_map st ! i)) key = v)) \<and>
     (case is_pkt_len inp of None \<Rightarrow> zs_pkt_len st = BitVec ''pkt_len'' 64
      | Some l \<Rightarrow> ev w (zs_pkt_len st) = take_bit 64 l)"
proof -
  note ok = parse_input_ok [OF assms(2)]
  let ?st = "z3_state_from_input inp maps"
  have "eva w (zs_pkt ?st) off = (case dict_get (is_pkt_bytes inp) off of
         None \<Rightarrow> eva w (Array ''pkt0'' 16 8) off | Some b \<Rightarrow> take_bit 8 b)"
    by (rule input_packet_byte [OF assms(1,2,4,5)])
  moreover have "case dict_get (is_map_values inp) (m_id (maps ! i)) of
        None \<Rightarrow> zs_map ?st ! i = zs_map (make_init_state maps []) ! i
      | Some kv \<Rightarrow> evab w (fst (zs_map ?st ! i)) key = (dict_get kv key \<noteq> None) \<and>
          (case dict_get kv key of None \<Rightarrow> True | Some v \<Rightarrow> eva w (snd (zs_map ?st ! i)) key = v)"
  proof (cases "dict_get (is_map_values inp) (m_id (maps ! i))")
    case None
    then show ?thesis
      using assms(6) by (simp add: z3_state_from_input_def map_input_arrays_def make_init_state_def Let_def)
  next
    case (Some kv)
    obtain m where m: "m \<in> set maps" "m_id m = m_id (maps ! i)" "entries_ok m kv"
      using map_of_SomeD [OF Some] ok(1) by (auto simp: values_ok_def list_all_iff)
    have "m = maps ! i" using assms(3,6) m(1,2) by (auto simp: distinct_map dest: inj_onD)
    then have e: "entries_ok (maps ! i) kv" using m(3) by simp
    have "zs_map ?st ! i = map_input_arrays inp (maps ! i)" using assms(6) by (simp add: z3_state_from_input_def)
    then show ?thesis
      using map_input_exact [OF assms(1) Some e assms(7)] Some by (auto split: option.splits)
  qed
  moreover have "case is_pkt_len inp of None \<Rightarrow> zs_pkt_len ?st = BitVec ''pkt_len'' 64
      | Some l \<Rightarrow> ev w (zs_pkt_len ?st) = take_bit 64 l"
    by (simp add: z3_state_from_input_def scalar_or_def smtlib.ev_BitVecVal [OF assms(1)] split: option.split)
  ultimately show ?thesis by (simp only: Let_def)
qed

definition demo_append :: "int list \<Rightarrow> scapy_bytes \<Rightarrow> scapy_bytes" where
  "demo_append bs p = Whole (added_bytes p @ bs)"

definition demo_scapy :: "json \<Rightarrow> scapy_eval" where
  "demo_scapy x = Packet [[\<lparr>sf_explicit = False, sf_add = demo_append [0, 0]\<rparr>, \<lparr>sf_explicit = True, sf_add = demo_append [8, 0]\<rparr>]]"

definition demo_input :: json where
  "demo_input = JObj [(''packet'', JStr ''Ether(type=0x800)''), (''context'', JObj [(''pkt_len'', JInt 64)]),
     (''maps'', JObj [(''flows'', JObj [(''10.0.0.1'', JInt 7)])])]"

lemma demo_input_parsed: "parse_input demo_scapy (se_maps demo_spec_env) demo_input = Inr \<lparr>is_pkt_bytes = [(2, 8), (3, 0)],
  is_pkt_len = Some 64, is_map_values = [(0, [(16777226, 504403158265495552)])], is_ingress = None, is_rx_queue = None,
  is_egress = None\<rparr>"
  by code_simp

theorem input_state_exact_witness:
  "\<exists>inp. parse_input demo_scapy (se_maps demo_spec_env) demo_input = Inr inp \<and>
     eval_a demo_env (zs_pkt (z3_state_from_input inp (se_maps demo_spec_env))) 2 = 8 \<and>
     eval_bv demo_env (zs_pkt_len (z3_state_from_input inp (se_maps demo_spec_env))) = 64"
proof -
  have "0 < length (se_maps demo_spec_env)" "distinct (map m_id (se_maps demo_spec_env))"
    "in_bits (nat (max (m_key_size (se_maps demo_spec_env ! 0)) 1 * 8)) 5"
    by (simp_all add: demo_spec_env_def in_bits_def)
  from input_state_exact [OF smtlib_std demo_input_parsed this(2) _ _ this(1,3), of 2 demo_env] demo_input_parsed
  show ?thesis by (simp add: in_bits_def Let_def)
qed

end
