(* ===== verification/Program.thy ===== *)
theory Program
  imports Loader Tail_Args Tracker_Frame Spec_Input Checker_Exact
begin

text \<open>
  The driver of \<open>hornet/program.py\<close>: loading and linking the objects, building and tracking the
  graph, reading a policy against the result, and checking it.  The stages run once each, in order;
  the timings are left out.  Opening a file is a parameter, \<open>elf_of path\<close>.
\<close>

section \<open>Analysing a program\<close>

record ebpf_program =
  g_instrs :: "instr list"
  g_maps :: "map_info list"
  g_rodata :: rodata
  g_bss :: symtab
  g_progs :: "prog_region list"
  g_blocks :: "tblock list"
  g_var_num :: int
  g_sources :: "val list"
  g_calls :: "(int \<times> call_rec) list"

definition decode_program :: "(string \<Rightarrow> elf_file) \<Rightarrow> string \<Rightarrow> string \<Rightarrow> tail_spec list \<Rightarrow> linked res" where
  "decode_program elf_of path main_func tails =
     ebind (decode_binary (elf_of path) path main_func) (\<lambda>ld.
     ebind (emap (\<lambda>t. decode_binary (elf_of (t_path t)) (t_path t) (t_entry t)) tails) (\<lambda>lds.
     link (ld # lds) tails))"

definition rodata_bytes :: "rodata \<Rightarrow> byte list" where
  "rodata_bytes ro = (case ro_data ro of None \<Rightarrow> [] | Some d \<Rightarrow> d)"

definition track_program :: "linked \<Rightarrow> tblock list \<Rightarrow> prog_region list \<Rightarrow> (tstate \<times> val list) res" where
  "track_program lk blocks progs =
     track \<lparr>e_instrs = k_instrs lk, e_maps = k_maps lk, e_rodata = rodata_bytes (k_rodata lk), e_progs = progs, e_brief = False\<rparr>
       blocks 0"

text \<open>\<open>var_num\<close> stays 0: nothing counts it up.\<close>

definition analyze_program :: "(string \<Rightarrow> elf_file) \<Rightarrow> string \<Rightarrow> string \<Rightarrow> tail_spec list \<Rightarrow> ebpf_program res" where
  "analyze_program elf_of path main_func tails =
     ebind (decode_program elf_of path main_func tails) (\<lambda>lk.
     ebind (build_cfg (k_instrs lk) (k_progs lk)) (\<lambda>(blocks, cfg, starts, progs).
     ebind (track_program lk (map new_tblock blocks) progs) (\<lambda>(st, sources).
     Inr \<lparr>g_instrs = k_instrs lk, g_maps = k_maps lk, g_rodata = k_rodata lk, g_bss = k_bss lk, g_progs = progs,
          g_blocks = s_blocks st, g_var_num = 0, g_sources = sources, g_calls = build_call_index (s_blocks st)\<rparr>)))"

text \<open>The counts of \<open>stats\<close>: instructions, blocks, edges, maps, programs, exits, sources, variables.\<close>

definition count_edges :: "tblock list \<Rightarrow> nat" where
  "count_edges blocks =
     sum_list (map (\<lambda>b. (if b_succ_t b \<noteq> None then 1 else 0) + (if b_succ_f b \<noteq> None then 1 else 0)) blocks)"

definition stats :: "ebpf_program \<Rightarrow> (string \<times> int) list" where
  "stats prog =
     [(''instrs'', int (length (g_instrs prog))), (''blocks'', int (length (g_blocks prog))),
      (''edges'', int (count_edges (g_blocks prog))), (''maps'', int (length (g_maps prog))),
      (''programs'', int (max 1 (length (g_progs prog)))), (''exits'', int (length (exit_blocks (g_blocks prog)))),
      (''sources'', int (length (g_sources prog))), (''vars'', g_var_num prog)]"

section \<open>Checking a policy\<close>

definition load_spec :: "(json \<Rightarrow> scapy_eval) \<Rightarrow> ebpf_program \<Rightarrow> json \<Rightarrow> spec_policy res" where
  "load_spec sc prog doc =
     parse_spec sc \<lparr>se_maps = g_maps prog, se_blocks = g_blocks prog, se_calls = g_calls prog\<rparr> doc"

text \<open>The initial state of a policy; without an input it is the default one of the forward analysis.\<close>

definition init_state_of :: "ebpf_program \<Rightarrow> spec_policy \<Rightarrow> z3_state" where
  "init_state_of prog pol =
     (case po_input pol of None \<Rightarrow> make_init_state (g_maps prog) (g_maps prog)
      | Some inp \<Rightarrow> z3_state_from_input inp (g_maps prog))"

definition condition_names :: "spec_policy \<Rightarrow> string list" where
  "condition_names pol = map bc_name (po_blocks pol) @ map ec_name (po_exits pol)"

definition select_conditions :: "string list option \<Rightarrow> spec_policy \<Rightarrow> spec_policy res" where
  "select_conditions only pol =
     (case only of None \<Rightarrow> Inr pol
      | Some names \<Rightarrow>
          if list_ex (\<lambda>n. n \<notin> set (condition_names pol)) names then Inl (ValueError ''no such condition(s)'')
          else Inr (pol\<lparr>po_blocks := filter (\<lambda>bc. bc_name bc \<in> set names) (po_blocks pol),
                        po_exits := filter (\<lambda>ec. ec_name ec \<in> set names) (po_exits pol)\<rparr>))"

definition verify_program ::
  "'m solver \<Rightarrow> fwd_params \<Rightarrow> (json \<Rightarrow> scapy_eval) \<Rightarrow> ebpf_program \<Rightarrow> json \<Rightarrow> string list option \<Rightarrow> bool \<Rightarrow>
   'm check_result list res" where
  "verify_program sv par sc prog doc only reach_all =
     ebind (load_spec sc prog doc) (\<lambda>pol. ebind (select_conditions only pol) (\<lambda>pol.
     check_policy sv par (policy.truncate pol) (g_blocks prog) (init_state_of prog pol) reach_all))"

text \<open>The results of a verification: \<open>violations\<close>, \<open>ok\<close>, \<open>result(name)\<close>.\<close>

definition violations :: "'m check_result list \<Rightarrow> 'm check_result list" where
  "violations rs = filter (\<lambda>r. cr_verdict r = V_violated) rs"

definition all_fine :: "'m check_result list \<Rightarrow> bool" where
  "all_fine rs \<longleftrightarrow> violations rs = []"

definition result_named :: "'m check_result list \<Rightarrow> string \<Rightarrow> 'm check_result res" where
  "result_named rs name = of_option KeyError (find (\<lambda>r. cr_name r = name) rs)"

text \<open>The exit code of a run that verifies (\<open>run\<close> of \<open>hornet/cli.py\<close>): 1 where a condition is violated.\<close>

definition exit_code :: "'m check_result list \<Rightarrow> int" where
  "exit_code rs = (if violations rs \<noteq> [] then 1 else 0)"

text \<open>The whole context, for the reports on reachability and on return values.\<close>

definition whole_context :: "fwd_params \<Rightarrow> ebpf_program \<Rightarrow> z3_state \<Rightarrow> (fwd_env \<times> forward) res" where
  "whole_context par prog init = context_for par [] (g_blocks prog) init False"

definition reachability :: "'m solver \<Rightarrow> fwd_params \<Rightarrow> ebpf_program \<Rightarrow> z3_state \<Rightarrow> 'm check_result list res" where
  "reachability sv par prog init = ebind (whole_context par prog init) (\<lambda>(env, fw). Inr (reach_report sv env fw))"

definition return_values :: "'m solver \<Rightarrow> fwd_params \<Rightarrow> ebpf_program \<Rightarrow> z3_state \<Rightarrow> int list \<Rightarrow> int list res" where
  "return_values sv par prog init vs = ebind (whole_context par prog init) (\<lambda>(env, fw). reachable_return_values sv env fw vs)"

definition dead_blocks :: "'m solver \<Rightarrow> fwd_params \<Rightarrow> ebpf_program \<Rightarrow> z3_state \<Rightarrow> nat list res" where
  "dead_blocks sv par prog init =
     ebind (whole_context par prog init) (\<lambda>(env, fw).
     Inr (map fst (filter (\<lambda>(b, r). cr_verdict r = V_unsat) (zip (sort (map fst (fw_info fw))) (reach_report sv env fw)))))"

section \<open>The blocks of an analysed program\<close>

lemma truncate_fields:
  assumes "bblock.truncate a = bblock.truncate b"
  shows "b_succ_t a = b_succ_t b" "b_succ_f a = b_succ_f b" "b_preds a = b_preds b"
    "b_exit a = b_exit b" "b_jump a = b_jump b" "b_branch a = b_branch b" "b_num a = b_num b"
  using assms by (cases a; cases b; simp add: bblock.truncate_def)+

lemma wf_graph_same:
  assumes "wf_graph bs" and "length bs' = length bs" and "\<And>k. k < length bs \<Longrightarrow> bblock.truncate (bs' ! k) = bblock.truncate (bs ! k)"
  shows "wf_graph bs'"
proof -
  have s: "successors (bs' ! k) = successors (bs ! k)" "b_preds (bs' ! k) = b_preds (bs ! k)" if "k < length bs" for k
    by (simp_all only: successors_def truncate_fields [OF assms(3) [OF that]])
  have "filter (\<lambda>p. b \<in> set (successors (bs' ! p))) [0..<length bs] = filter (\<lambda>p. b \<in> set (successors (bs ! p))) [0..<length bs]" for b
    by (rule filter_cong) (simp_all add: s)
  then show ?thesis using assms(1,2) s by (simp add: wf_graph_def)
qed

lemma analyze_program_graph:
  assumes "analyze_program elf_of path main_func tails = Inr prog"
  shows "wf_graph (g_blocks prog)" and "g_blocks prog \<noteq> []" and "\<forall>k < length (g_blocks prog). tracked (g_blocks prog ! k)"
    and "g_calls prog = build_call_index (g_blocks prog)"
    and "k < length (g_blocks prog) \<Longrightarrow> b_num (g_blocks prog ! k) = k"
proof -
  obtain lk blocks cfg starts progs st sources where p: "build_cfg (k_instrs lk) (k_progs lk) = Inr (blocks, cfg, starts, progs)"
    "track_program lk (map new_tblock blocks) progs = Inr (st, sources)" "g_blocks prog = s_blocks st"
    "g_calls prog = build_call_index (s_blocks st)"
    using assms by (auto simp: analyze_program_def ebind_eq_Inr)
  let ?bs = "map new_tblock blocks"
  have wf: "wf_graph blocks" "blocks \<noteq> []" using build_cfg_wf_graph [OF p(1)] by simp_all
  have tr: "bblock.truncate (?bs ! k) = bblock.truncate (blocks ! k)" if "k < length blocks" for k
    using that by (cases "blocks ! k") (simp add: new_tblock_def bblock.extend_def bblock.truncate_def)
  have wf1: "wf_graph ?bs" by (rule wf_graph_same [OF wf(1)]) (simp_all add: tr del: nth_map)
  have regs: "all_regs ?bs" by (simp add: all_regs_def regs_ok_def new_tblock_def bblock.extend_def)
  have preds: "preds_in ?bs"
    using build_cfg_block(5) [OF p(1)] truncate_fields(3) [OF tr] by (fastforce simp: preds_in_def in_set_conv_nth)
  have t: "same_graph ?bs (s_blocks st)" "\<forall>k < length ?bs. tracked (s_blocks st ! k)"
    using track_well_formed_lemma [OF p(2) [unfolded track_program_def] regs preds] by blast+
  have len: "length (s_blocks st) = length ?bs" by (rule same_graph_length [OF t(1)])
  show "wf_graph (g_blocks prog)" unfolding p(3)
    by (rule wf_graph_same [OF wf1 len]) (simp add: same_graphD(3) [OF t(1)])
  show "g_blocks prog \<noteq> []" using len wf(2) p(3) by auto
  show "\<forall>k < length (g_blocks prog). tracked (g_blocks prog ! k)" using t(2) len p(3) by simp
  show "g_calls prog = build_call_index (g_blocks prog)" by (simp add: p(3,4))
  have "bblock.truncate (s_blocks st ! k) = bblock.truncate (blocks ! k)" if "k < length blocks" for k
    using same_graphD(3) [OF t(1), of k] tr [OF that] that by simp
  then show "k < length (g_blocks prog) \<Longrightarrow> b_num (g_blocks prog ! k) = k"
    using build_cfg_block(1) [OF p(1)] truncate_fields(7) len p(3) by (metis length_map)
qed

section \<open>The verdicts of a whole run\<close>

lemma emap_image: "\<forall>x \<in> set xs. \<exists>r. f x = Inr r \<and> g r = h x \<Longrightarrow> \<exists>rs. emap f xs = Inr rs \<and> map g rs = map h xs"
proof (induction xs)
  case (Cons x xs)
  then obtain r rs where "f x = Inr r" "g r = h x" "emap f xs = Inr rs" "map g rs = map h xs" by auto
  then show ?case by simp
qed simp

lemma block_result_name: "check_block_condition sv env fw bc = Inr r \<Longrightarrow> cr_name r = bc_name bc"
  by (auto simp: check_block_condition_def Let_def ebind_eq_Inr split: option.splits if_splits)

lemma exit_result_name: "check_exit_condition sv env fw ec = Inr r \<Longrightarrow> cr_name r = ec_name ec"
  by (auto simp: check_exit_condition_def Let_def ebind_eq_Inr split: if_splits)

text \<open>
  A condition is decided by an assignment that leads to its block (to one of the exits) and satisfies it
  there, where the condition is to hold for some packet, or falsifies it, where it is to hold for all.
\<close>

definition block_decided ::
  "('m \<Rightarrow> bvt \<Rightarrow> int) \<Rightarrow> ('m \<Rightarrow> bt \<Rightarrow> bool) \<Rightarrow> ('m \<Rightarrow> avt \<Rightarrow> int \<Rightarrow> int) \<Rightarrow> ('m \<Rightarrow> abt \<Rightarrow> int \<Rightarrow> bool) \<Rightarrow> z3_queries \<Rightarrow>
   tblock list \<Rightarrow> fwd_env \<Rightarrow> forward \<Rightarrow> block_condition \<Rightarrow> bool" where
  "block_decided ev evb eva evab z blocks env fw bc \<longleftrightarrow>
     (\<exists>m. leads_to evb blocks fw m (bc_block bc) \<and>
       node_holds ev evb eva evab z (state_at env fw (bc_block bc)) m (bc_cond bc) = (bc_mode bc = M_exists))"

definition exit_decided ::
  "('m \<Rightarrow> bvt \<Rightarrow> int) \<Rightarrow> ('m \<Rightarrow> bt \<Rightarrow> bool) \<Rightarrow> ('m \<Rightarrow> avt \<Rightarrow> int \<Rightarrow> int) \<Rightarrow> ('m \<Rightarrow> abt \<Rightarrow> int \<Rightarrow> bool) \<Rightarrow> z3_queries \<Rightarrow>
   tblock list \<Rightarrow> fwd_env \<Rightarrow> forward \<Rightarrow> exit_condition \<Rightarrow> bool" where
  "exit_decided ev evb eva evab z blocks env fw ec \<longleftrightarrow>
     (\<exists>m b. b \<in> set (exit_blocks blocks) \<and> leads_to evb blocks fw m b \<and>
       exit_has (\<lambda>st. node_holds ev evb eva evab z st m (ec_cond ec)) env fw (ec_mode ec = M_exists) b)"

definition named :: "'m check_result \<Rightarrow> string \<times> verdict" where
  "named r = (cr_name r, cr_verdict r)"

lemma policy_truncate [simp]: "po_blocks (policy.truncate pol) = po_blocks pol" "po_exits (policy.truncate pol) = po_exits pol"
  by (simp_all add: policy.truncate_def)

lemma check_policy_verdicts:
  assumes "smtlib (fp_z par) ev evb eva evab" and "wf_graph blocks" and "blocks \<noteq> []" and "solver_ok evb sv"
    and run: "context_for par [pol] blocks init False = Inr (env, fw)"
    and "\<forall>bc \<in> set (po_blocks pol). regular_state (fp_z par) (state_at env fw (bc_block bc)) \<and>
          regular_node (fp_z par) (state_at env fw (bc_block bc)) (bc_cond bc)"
    and "\<forall>ec \<in> set (po_exits pol). list_all (regular_exit (fp_z par) env fw (ec_cond ec)) (live_exits env fw)"
  shows "\<exists>rs. check_policy sv par pol blocks init False = Inr rs \<and>
    map named rs =
      map (\<lambda>bc. (bc_name bc, mode_verdict (bc_mode bc) (block_decided ev evb eva evab (fp_z par) blocks env fw bc))) (po_blocks pol) @
      map (\<lambda>ec. (ec_name ec, mode_verdict (ec_mode ec) (exit_decided ev evb eva evab (fp_z par) blocks env fw ec))) (po_exits pol)"
proof -
  have mem: "pol \<in> set [pol]" by simp
  have "\<exists>r. check_block_condition sv env fw bc = Inr r \<and>
      named r = (bc_name bc, mode_verdict (bc_mode bc) (block_decided ev evb eva evab (fp_z par) blocks env fw bc))"
    if bc: "bc \<in> set (po_blocks pol)" for bc
    using block_verdict [OF assms(1-4) run mem bc] assms(6) bc block_result_name
    by (fastforce simp: named_def block_decided_def)
  then obtain bs where bs: "emap (check_block_condition sv env fw) (po_blocks pol) = Inr bs"
    "map named bs = map (\<lambda>bc. (bc_name bc, mode_verdict (bc_mode bc) (block_decided ev evb eva evab (fp_z par) blocks env fw bc))) (po_blocks pol)"
    using emap_image [OF ballI, of "po_blocks pol" "check_block_condition sv env fw" named
      "\<lambda>bc. (bc_name bc, mode_verdict (bc_mode bc) (block_decided ev evb eva evab (fp_z par) blocks env fw bc))"] by auto
  have "\<exists>r. check_exit_condition sv env fw ec = Inr r \<and>
      named r = (ec_name ec, mode_verdict (ec_mode ec) (exit_decided ev evb eva evab (fp_z par) blocks env fw ec))"
    if ec: "ec \<in> set (po_exits pol)" for ec
    using exit_verdict [OF assms(1-4) run mem ec] assms(7) ec exit_result_name
    by (fastforce simp: named_def exit_decided_def)
  then obtain es where es: "emap (check_exit_condition sv env fw) (po_exits pol) = Inr es"
    "map named es = map (\<lambda>ec. (ec_name ec, mode_verdict (ec_mode ec) (exit_decided ev evb eva evab (fp_z par) blocks env fw ec))) (po_exits pol)"
    using emap_image [OF ballI, of "po_exits pol" "check_exit_condition sv env fw" named
      "\<lambda>ec. (ec_name ec, mode_verdict (ec_mode ec) (exit_decided ev evb eva evab (fp_z par) blocks env fw ec))"] by auto
  show ?thesis by (simp add: check_policy_def run bs es)
qed

lemma violations_named: "violations rs = [] \<longleftrightarrow> list_all (\<lambda>p. snd p \<noteq> V_violated) (map named rs)"
  by (auto simp: violations_def filter_empty_conv named_def list_all_iff)

lemma violated_mode: "mode_verdict mode b = V_violated \<longleftrightarrow> mode = M_all \<and> b"
  by (cases mode) (simp_all add: mode_verdict_def)

lemma verify_program_verdicts:
  assumes "smtlib (fp_z par) ev evb eva evab" and "solver_ok evb sv"
    and prog: "analyze_program elf_of path main_func tails = Inr prog"
    and pol: "load_spec sc prog doc = Inr pol"
    and run: "context_for par [policy.truncate pol] (g_blocks prog) (init_state_of prog pol) False = Inr (env, fw)"
    and "\<forall>bc \<in> set (po_blocks pol). regular_state (fp_z par) (state_at env fw (bc_block bc)) \<and>
          regular_node (fp_z par) (state_at env fw (bc_block bc)) (bc_cond bc)"
    and "\<forall>ec \<in> set (po_exits pol). list_all (regular_exit (fp_z par) env fw (ec_cond ec)) (live_exits env fw)"
  defines "dec_b \<equiv> block_decided ev evb eva evab (fp_z par) (g_blocks prog) env fw"
    and "dec_e \<equiv> exit_decided ev evb eva evab (fp_z par) (g_blocks prog) env fw"
  shows "\<exists>rs. verify_program sv par sc prog doc None False = Inr rs \<and>
    map named rs =
      map (\<lambda>bc. (bc_name bc, mode_verdict (bc_mode bc) (dec_b bc))) (po_blocks pol) @
      map (\<lambda>ec. (ec_name ec, mode_verdict (ec_mode ec) (dec_e ec))) (po_exits pol) \<and>
    exit_code rs = (if (\<exists>bc \<in> set (po_blocks pol). bc_mode bc = M_all \<and> dec_b bc) \<or>
                       (\<exists>ec \<in> set (po_exits pol). ec_mode ec = M_all \<and> dec_e ec) then 1 else 0)"
proof -
  obtain rs where rs: "check_policy sv par (policy.truncate pol) (g_blocks prog) (init_state_of prog pol) False = Inr rs"
    "map named rs =
      map (\<lambda>bc. (bc_name bc, mode_verdict (bc_mode bc) (dec_b bc))) (po_blocks pol) @
      map (\<lambda>ec. (ec_name ec, mode_verdict (ec_mode ec) (dec_e ec))) (po_exits pol)"
    using check_policy_verdicts [OF assms(1) analyze_program_graph(1,2) [OF prog] assms(2) run] assms(6,7)
    by (auto simp: dec_b_def dec_e_def)
  moreover have "verify_program sv par sc prog doc None False = Inr rs"
    by (simp add: verify_program_def pol select_conditions_def rs(1))
  moreover have "violations rs = [] \<longleftrightarrow> \<not> ((\<exists>bc \<in> set (po_blocks pol). bc_mode bc = M_all \<and> dec_b bc) \<or>
      (\<exists>ec \<in> set (po_exits pol). ec_mode ec = M_all \<and> dec_e ec))"
    unfolding violations_named rs(2) by (auto simp: list_all_iff ball_Un violated_mode)
  ultimately show ?thesis by (auto simp: exit_code_def)
qed

section \<open>Dead blocks\<close>

lemma filter_verdicts: "map cr_verdict rs = map (\<lambda>b. if P b then V_sat else V_unsat) bs \<Longrightarrow>
  map fst (filter (\<lambda>(b, r). cr_verdict r = V_unsat) (zip bs rs)) = filter (\<lambda>b. \<not> P b) bs"
  by (induction bs arbitrary: rs) auto

lemma dead_blocks_lemma:
  assumes "smtlib (fp_z par) ev evb eva evab" and "solver_ok evb sv"
    and prog: "analyze_program elf_of path main_func tails = Inr prog"
    and run: "whole_context par prog init = Inr (env, fw)"
  shows "dead_blocks sv par prog init =
    Inr (filter (\<lambda>b. \<nexists>m. leads_to evb (g_blocks prog) fw m b) (sort (map fst (fw_info fw))))"
proof -
  have "map (\<lambda>r. (cr_name r, cr_verdict r)) (reach_report sv env fw) =
    map (\<lambda>b. (''block'' @ show_nat b, if \<exists>m. leads_to evb (g_blocks prog) fw m b then V_sat else V_unsat)) (sort (map fst (fw_info fw)))"
    using run report_exact [OF assms(1) analyze_program_graph(1,2) [OF prog] assms(2)]
    by (simp add: whole_context_def context_for_def targets_of_def)
  then have "map cr_verdict (reach_report sv env fw) =
    map (\<lambda>b. if \<exists>m. leads_to evb (g_blocks prog) fw m b then V_sat else V_unsat) (sort (map fst (fw_info fw)))"
    by (auto dest!: arg_cong [where f = "map snd"] simp: comp_def)
  from filter_verdicts [OF this] show ?thesis by (simp add: dead_blocks_def run)
qed

section \<open>A small program, from the object file to the verdicts\<close>

text \<open>
  \<open>r0 = 2; exit\<close>, and a policy that expects the queue 7, the return value 2 and the return value 1.
\<close>

definition ret_elf :: elf_file where
  "ret_elf =
     (let text = \<lparr>sc_name = ''xdp'', sc_data = [0xb7, 0, 0, 0, 2, 0, 0, 0, 0x95, 0, 0, 0, 0, 0, 0, 0]\<rparr>;
          main = \<lparr>y_name = ''prog'', y_value = 0, y_size = 16, y_shndx = Shn 0, y_type = Stt_other\<rparr>
      in \<lparr>ef_sections = [text], ef_by_name = (\<lambda>n. None), ef_section = (\<lambda>i. Inr (if i = Shn 0 then Some text else None)),
          ef_has_symtab = True, ef_symbols = [main],
          ef_symbols_named = (\<lambda>n. if n = ''prog'' then Some [main] else None),
          ef_symbol = (\<lambda>i. Inr main), ef_relocs = (\<lambda>n. [])\<rparr>)"

definition ret_document :: json where
  "ret_document = JObj [(''block_conditions'', JObj
     [(''queue'', JObj [(''block'', JInt 0), (''assert'', JStr ''all''),
        (''cond'', JObj [(''ctx'', JStr ''rx_queue_index''), (''value'', JInt 7)])])]),
    (''exit_conditions'', JObj
     [(''pass'', JObj [(''assert'', JStr ''all''), (''cond'', JObj [(''ret'', JInt 2)])]), 
      (''drop'', JObj [(''assert'', JStr ''all''), (''cond'', JObj [(''ret'', JInt 1)])])])]"

definition ret_policy :: policy where
  "ret_policy = \<lparr>po_blocks = [\<lparr>bc_name = ''queue'', bc_block = 0, bc_mode = M_all, bc_cond = CLeaf (ScalarAtom T_rx_index 7)\<rparr>],
     po_exits = [\<lparr>ec_name = ''pass'', ec_mode = M_all, ec_cond = CLeaf (RetAtom OpEq 2)\<rparr>,
     \<lparr>ec_name = ''drop'', ec_mode = M_all, ec_cond = CLeaf (RetAtom OpEq 1)\<rparr>]\<rparr>"

definition ret_blocks :: "tblock list" where
  "ret_blocks = (case analyze_program (\<lambda>_. ret_elf) ''a.o'' ''prog'' [] of Inl e \<Rightarrow> [] | Inr prog \<Rightarrow> g_blocks prog)"

lemma ret_analyzed:
  obtains prog pol where "analyze_program (\<lambda>_. ret_elf) ''a.o'' ''prog'' [] = Inr prog"
    and "load_spec (\<lambda>_. No_scapy) prog ret_document = Inr pol"
    and "policy.truncate pol = ret_policy" and "po_input pol = None" and "g_maps prog = []"
    and "g_blocks prog = ret_blocks"
    and "length ret_blocks = 1" and "exit_blocks ret_blocks = [0]" and "ret_expr (ret_blocks ! 0) = Some (Num 2 4 (-1))"
proof -
  have "case analyze_program (\<lambda>_. ret_elf) ''a.o'' ''prog'' [] of Inl e \<Rightarrow> False
    | Inr prog \<Rightarrow> g_maps prog = [] \<and> length (g_blocks prog) = 1 \<and> exit_blocks (g_blocks prog) = [0] \<and>
        ret_expr (g_blocks prog ! 0) = Some (Num 2 4 (-1)) \<and>
        (case load_spec (\<lambda>_. No_scapy) prog ret_document of Inl e \<Rightarrow> False
         | Inr pol \<Rightarrow> policy.truncate pol = ret_policy \<and> po_input pol = None)"
    by code_simp
  then obtain prog pol where "analyze_program (\<lambda>_. ret_elf) ''a.o'' ''prog'' [] = Inr prog"
    "g_maps prog = []" "length (g_blocks prog) = 1" "exit_blocks (g_blocks prog) = [0]"
    "ret_expr (g_blocks prog ! 0) = Some (Num 2 4 (-1))"
    "load_spec (\<lambda>_. No_scapy) prog ret_document = Inr pol" "policy.truncate pol = ret_policy" "po_input pol = None"
    by (auto split: sum.splits)
  with that show thesis by (simp add: ret_blocks_def)
qed

text \<open>What the analysis of its one block leaves in the state, and why that state is a regular one.\<close>

definition ret_facts :: "fwd_env \<Rightarrow> forward \<Rightarrow> bool" where
  "ret_facts env fw \<longleftrightarrow> fe_fold env \<subseteq> {R_map (Some 0)} \<and>
     (case info_sigma env fw (Some 0) of s \<Rightarrow> zs_pkt s = Array ''pkt0'' 16 8 \<and> zs_bss s = [] \<and> zs_r0 s = BitVec ''r0'' 64 \<and>
        zs_pkt_len s = BitVec ''pkt_len'' 64 \<and> zs_rx_index s = BitVec ''rx_queue_index0'' 64 \<and>
        zs_ingress s = BitVec ''ingress_ifindex'' 64 \<and> zs_egress s = BitVec ''egress_ifindex'' 64) \<and>
     (case sigma_at env fw (Some 0) of s \<Rightarrow> zs_pkt s = Array ''pkt0'' 16 8 \<and> zs_bss s = [])"

lemma ret_regular:
  assumes "ret_facts env fw" and par: "fe_par env = demo_params"
  shows "regular_state (fp_z demo_params) (state_at env fw 0)"
    and "z_size std_queries r = 64 \<Longrightarrow> regular_state (fp_z demo_params) ((state_at env fw 0)\<lparr>zs_r0 := r\<rparr>)"
proof -
  let ?s = "info_sigma env fw (Some 0)"
  have z: "fp_z demo_params = std_queries" by (simp add: demo_params_def)
  have r: "R_pkt \<notin> fe_fold env" "R_bss k \<notin> fe_fold env" "zs_pkt ?s = Array ''pkt0'' 16 8" "zs_bss ?s = []" "zs_r0 ?s = BitVec ''r0'' 64"
    "zs_pkt_len ?s = BitVec ''pkt_len'' 64" "zs_rx_index ?s = BitVec ''rx_queue_index0'' 64"
    "zs_ingress ?s = BitVec ''ingress_ifindex'' 64" "zs_egress ?s = BitVec ''egress_ifindex'' 64"
    "zs_pkt (sigma_at env fw (Some 0)) = Array ''pkt0'' 16 8" "zs_bss (sigma_at env fw (Some 0)) = []" for k
    using assms(1) by (auto simp: ret_facts_def)
  have st: "zs_pkt (state_at env fw 0) = Array ''pkt0'' 16 8" "bss_of (state_at env fw 0) k = avt.K 16 (BitVecVal 0 8)"
    "zs_pkt_len (state_at env fw 0) = BitVec ''pkt_len'' 64" "zs_r0 (state_at env fw 0) = BitVec ''r0'' 64"
    "target_term (state_at env fw 0) t = target_term ?s t" "zs_read_loc (state_at env fw 0) = Some (fwd_read_loc env fw 0)" for k t
    using r by (cases k; cases t; simp add: state_at_def with_reads_def bss_of_def target_term_def)+
  have loc: "\<exists>t. fwd_read_loc env fw 0 l = Inr (Some t) \<and> z_size std_queries t = 8" if "byte_loc l" for l
    using that r(1,2,10,11) by (auto simp: byte_loc_def fwd_read_loc_def pkt_loc_def bss_loc_def bss_of_def par Let_def z std_queries_def)
  have tt: "z_size std_queries (target_term ?s t) = 64" for t
    using r(7-9) by (cases t) (simp_all add: target_term_def std_queries_def)
  show reg: "regular_state (fp_z demo_params) (state_at env fw 0)"
    unfolding regular_state_def st z using tt loc by (simp add: std_queries_def bss_of_def)
  have "bss_of (s\<lparr>zs_r0 := x\<rparr>) k = bss_of s k" "target_term (s\<lparr>zs_r0 := x\<rparr>) t = target_term s t" for s x k t
    by (simp_all add: bss_of_def target_term_def split: ctx_target.split)
  with reg show "z_size std_queries r = 64 \<Longrightarrow> regular_state (fp_z demo_params) ((state_at env fw 0)\<lparr>zs_r0 := r\<rparr>)"
    by (simp add: regular_state_def z)
qed

lemma ret_graph: "wf_graph ret_blocks" "ret_blocks \<noteq> []" "list_all kind_successors ret_blocks"
  by code_simp+

lemma ret_params:
  assumes "context_for demo_params policies ret_blocks init reach_all = Inr (env, fw)"
  shows "fe_par env = demo_params" and "fe_blocks env = ret_blocks"
  by (rule forward_parts [OF ret_graph(1,2) assms [unfolded context_for_def]], simp)+

lemma ret_context:
  obtains env fw where "context_for demo_params [ret_policy] ret_blocks (make_init_state [] []) False = Inr (env, fw)"
    and "live_exits env fw = [0]"
    and "ret_state env fw 0 = Inr (Some ((state_at env fw 0)\<lparr>zs_r0 := Concat [BitVecVal 0 32, BitVecVal 2 32]\<rparr>))"
    and "regular_state (fp_z demo_params) ((state_at env fw 0)\<lparr>zs_r0 := Concat [BitVecVal 0 32, BitVecVal 2 32]\<rparr>)"
    and "regular_state (fp_z demo_params) (state_at env fw 0)"
    and "target_term (state_at env fw 0) T_rx_index = BitVec ''rx_queue_index0'' 64"
proof -
  have "case context_for demo_params [ret_policy] ret_blocks (make_init_state [] []) False of Inl e \<Rightarrow> False
   | Inr (env, fw) \<Rightarrow> ret_facts env fw \<and> live_exits env fw = [0]"
    by code_simp
  then obtain env fw where r: "context_for demo_params [ret_policy] ret_blocks (make_init_state [] []) False = Inr (env, fw)"
    "ret_facts env fw" "live_exits env fw = [0]"
    by (auto split: sum.splits)
  note env = ret_params [OF r(1)]
  have ret: "ret_state env fw 0 = Inr (Some ((state_at env fw 0)\<lparr>zs_r0 := Concat [BitVecVal 0 32, BitVecVal 2 32]\<rparr>))"
    by (rule ret_analyzed) (simp add: ret_state_def env zero_pad_def demo_params_def, simp add: std_queries_def)
  have "target_term (state_at env fw 0) T_rx_index = BitVec ''rx_queue_index0'' 64"
    using r(2) by (simp add: ret_facts_def target_term_def state_at_def with_reads_def)
  from that [OF r(1,3) ret ret_regular(2) [OF r(2) env(1)] ret_regular(1) [OF r(2) env(1)] this] show thesis
    by (simp add: std_queries_def)
qed

section \<open>Claims\<close>

text \<open>
  Claim C1.  From the object files to the exit code, the whole run is exact: for every program that can be
  analysed and every policy accepted for it whose conditions can be encoded, each condition is reported under
  its name, in the order of the policy, with the verdict that the assignments leading to its block (to the
  exits) give it, and the exit code is 1 exactly when a condition meant for all packets is broken by one of
  them.  A condition can be encoded when, in the state of its block (of the live exits), every atom is
  regular: the values it names have terms, its constants fit, and a condition on the packet length has a
  bound.  This covers conditions of every kind.
\<close>

theorem verify_program_exact:
  assumes "smtlib (fp_z par) ev evb eva evab" and "solver_ok evb sv"
    and "analyze_program elf_of path main_func tails = Inr prog"
    and "load_spec sc prog doc = Inr pol"
    and "context_for par [policy.truncate pol] (g_blocks prog) (init_state_of prog pol) False = Inr (env, fw)"
    and "\<forall>bc \<in> set (po_blocks pol). regular_state (fp_z par) (state_at env fw (bc_block bc)) \<and>
          regular_node (fp_z par) (state_at env fw (bc_block bc)) (bc_cond bc)"
    and "\<forall>ec \<in> set (po_exits pol). list_all (regular_exit (fp_z par) env fw (ec_cond ec)) (live_exits env fw)"
  defines "dec_b \<equiv> block_decided ev evb eva evab (fp_z par) (g_blocks prog) env fw"
    and "dec_e \<equiv> exit_decided ev evb eva evab (fp_z par) (g_blocks prog) env fw"
  shows "\<exists>rs. verify_program sv par sc prog doc None False = Inr rs \<and>
    map named rs =
      map (\<lambda>bc. (bc_name bc, mode_verdict (bc_mode bc) (dec_b bc))) (po_blocks pol) @
      map (\<lambda>ec. (ec_name ec, mode_verdict (ec_mode ec) (dec_e ec))) (po_exits pol) \<and>
    exit_code rs = (if (\<exists>bc \<in> set (po_blocks pol). bc_mode bc = M_all \<and> dec_b bc) \<or>
                       (\<exists>ec \<in> set (po_exits pol). ec_mode ec = M_all \<and> dec_e ec) then 1 else 0)"
  using verify_program_verdicts [OF assms(1-7)] by (simp add: dec_b_def dec_e_def)

theorem verify_program_exact_witness:
  "\<exists>prog rs. analyze_program (\<lambda>_. ret_elf) ''a.o'' ''prog'' [] = Inr prog \<and>
     verify_program two_solver demo_params (\<lambda>_. No_scapy) prog ret_document None False = Inr rs \<and>
     map named rs = [(''queue'', V_violated), (''pass'', V_holds), (''drop'', V_violated)] \<and> exit_code rs = 1"
proof -
  obtain prog pol where p: "analyze_program (\<lambda>_. ret_elf) ''a.o'' ''prog'' [] = Inr prog"
    "load_spec (\<lambda>_. No_scapy) prog ret_document = Inr pol" "policy.truncate pol = ret_policy" "po_input pol = None"
    "g_maps prog = []" "g_blocks prog = ret_blocks" "exit_blocks ret_blocks = [0]"
    by (rule ret_analyzed)
  obtain env fw where f: "context_for demo_params [ret_policy] ret_blocks (make_init_state [] []) False = Inr (env, fw)"
    "live_exits env fw = [0]"
    "ret_state env fw 0 = Inr (Some ((state_at env fw 0)\<lparr>zs_r0 := Concat [BitVecVal 0 32, BitVecVal 2 32]\<rparr>))"
    "regular_state (fp_z demo_params) ((state_at env fw 0)\<lparr>zs_r0 := Concat [BitVecVal 0 32, BitVecVal 2 32]\<rparr>)"
    "regular_state (fp_z demo_params) (state_at env fw 0)" "target_term (state_at env fw 0) T_rx_index = BitVec ''rx_queue_index0'' 64"
    by (rule ret_context)
  have pol: "po_blocks pol = po_blocks ret_policy" "po_exits pol = po_exits ret_policy"
    using policy_truncate [of pol] by (simp_all add: p(3) ret_policy_def)
  have run: "context_for demo_params [policy.truncate pol] (g_blocks prog) (init_state_of prog pol) False = Inr (env, fw)"
    using f(1) by (simp add: p(3-6) init_state_of_def)
  have atblock: "\<forall>bc \<in> set (po_blocks pol). regular_state (fp_z demo_params) (state_at env fw (bc_block bc)) \<and>
      regular_node (fp_z demo_params) (state_at env fw (bc_block bc)) (bc_cond bc)"
    using f(5) by (simp add: pol ret_policy_def in_bits_def)
  have exits: "\<forall>ec \<in> set (po_exits pol). list_all (regular_exit (fp_z demo_params) env fw (ec_cond ec)) (live_exits env fw)"
    using f(4) by (simp add: pol ret_policy_def f(2,3) regular_exit_def in_bits_def)
  have "leads_to (\<lambda>m. eval_b (two_env m)) (g_blocks prog) fw True 0 \<and>
      eval_bv (two_env True) (target_term (state_at env fw 0) T_rx_index) \<noteq> 7"
    by (simp add: leads_to_def f(6) two_env_def Smt.demo_env_def)
  then have "block_decided (\<lambda>m. eval_bv (two_env m)) (\<lambda>m. eval_b (two_env m)) (\<lambda>m. eval_a (two_env m)) (\<lambda>m. eval_ab (two_env m))
      (fp_z demo_params) (g_blocks prog) env fw (hd (po_blocks ret_policy))"
    by (auto simp: block_decided_def ret_policy_def target_value_def)
  moreover have "exit_decided (\<lambda>m. eval_bv (two_env m)) (\<lambda>m. eval_b (two_env m)) (\<lambda>m. eval_a (two_env m)) (\<lambda>m. eval_ab (two_env m))
      (fp_z demo_params) (g_blocks prog) env fw \<lparr>ec_name = nm, ec_mode = M_all, ec_cond = CLeaf (RetAtom OpEq k)\<rparr> \<longleftrightarrow> k \<noteq> 2"
    if "k \<in> {1, 2}" for nm k
    using that f(3) by (auto simp: exit_decided_def p(6,7) leads_to_def exit_has_def)
  ultimately show ?thesis
    using verify_program_exact [OF two_lib two_solver_ok p(1,2) run atblock exits] p(1)
    by (auto simp: pol ret_policy_def mode_verdict_def)
qed

text \<open>
  The blocks reported dead are exactly those of the analysis that no assignment leads to: a
  solver that answers correctly makes the list exact, whatever the program.
\<close>

theorem dead_blocks_exact:
  assumes "smtlib (fp_z par) ev evb eva evab" and "solver_ok evb sv"
    and "analyze_program elf_of path main_func tails = Inr prog"
    and "whole_context par prog init = Inr (env, fw)"
  shows "dead_blocks sv par prog init =
    Inr (filter (\<lambda>b. \<nexists>m. leads_to evb (g_blocks prog) fw m b) (sort (map fst (fw_info fw))))"
  by (rule dead_blocks_lemma [OF assms])

theorem dead_blocks_exact_witness:
  "\<exists>prog. analyze_program (\<lambda>_. ret_elf) ''a.o'' ''prog'' [] = Inr prog \<and>
     dead_blocks two_solver demo_params prog (make_init_state [] []) = Inr []"
proof -
  obtain prog where p: "analyze_program (\<lambda>_. ret_elf) ''a.o'' ''prog'' [] = Inr prog" "g_blocks prog = ret_blocks"
    by (rule ret_analyzed)
  have "case context_for demo_params [] ret_blocks (make_init_state [] []) False of Inl e \<Rightarrow> False | Inr (env, fw) \<Rightarrow> map fst (fw_info fw) = [0]"
    by code_simp
  then obtain env fw where c: "whole_context demo_params prog (make_init_state [] []) = Inr (env, fw)" "map fst (fw_info fw) = [0]"
    by (auto simp: whole_context_def p(2) split: sum.splits)
  show ?thesis using dead_blocks_exact [OF two_lib two_solver_ok p(1) c(1)] p(1) by (simp add: c(2) leads_to_def)
qed

end
