(* ===== verification/Witness.thy ===== *)
theory Witness
  imports Program
begin

text \<open>
  The witness of a verdict (\<open>hornet/verify/witness.py\<close>): what the model of the solver says about the
  packet, the maps, the results of helpers and the path taken, and which atoms of the condition are
  false.  Evaluating a term in the model, with completion, is \<open>ev\<close>, \<open>evb\<close>; the texts and the
  stages printed along the path are left out.
\<close>

section \<open>Reading the model\<close>

text \<open>\<open>_eval_bool\<close> of a Python Boolean or a term is \<open>lit_holds\<close>; \<open>_as_long\<close> is the value of the term.\<close>

definition DISPLAY_BYTES :: nat where
  "DISPLAY_BYTES = 128"

definition witness_packet :: "z3_queries \<Rightarrow> ('m \<Rightarrow> bvt \<Rightarrow> int) \<Rightarrow> 'm \<Rightarrow> z3_state \<Rightarrow> int list \<times> int" where
  "witness_packet z ev m init =
     (let n = z_dom z (zs_pkt init);
          total = max 0 (min (ev m (zs_pkt_len init)) (2 ^ n))
      in (map (\<lambda>i. ev m (Select (zs_pkt init) (BitVecVal (int i) n)) AND 0xFF) [0..<min (nat total) DISPLAY_BYTES], total))"

definition map_name_of :: "map_info list \<Rightarrow> int \<Rightarrow> string" where
  "map_name_of maps map_id =
     (case find (\<lambda>m. m_id m = map_id) maps of
        None \<Rightarrow> ''map'' @ show_int map_id
      | Some m \<Rightarrow> (case m_name m of None \<Rightarrow> ''map'' @ show_int map_id
                   | Some s \<Rightarrow> if s = [] then ''map'' @ show_int map_id else s))"

text \<open>The lookup a recorded call stands for, if it names its map and its key.\<close>

definition lookup_of :: "call_rec \<Rightarrow> (int \<times> val) option" where
  "lookup_of r = (if rec_ret r = Ret_map_ptr
     then (case rec_map r of (Some mid, Some mk, mki) \<Rightarrow> if mid < 0 then None else Some (mid, mk) | _ \<Rightarrow> None)
     else None)"

text \<open>
  \<open>out.setdefault(name, {})[key] = (present, value)\<close>; a key that cannot be encoded is passed over,
  an index outside the map table is not.
\<close>

definition map_entry ::
  "('m \<Rightarrow> bvt \<Rightarrow> int) \<Rightarrow> ('m \<Rightarrow> bt \<Rightarrow> bool) \<Rightarrow> 'm \<Rightarrow> map_info list \<Rightarrow> fwd_env \<Rightarrow> forward \<Rightarrow>
   (string \<times> (int \<times> bool \<times> int) list) list \<Rightarrow> int \<times> call_rec \<Rightarrow> (string \<times> (int \<times> bool \<times> int) list) list res" where
  "map_entry ev evb m maps env fw out c =
     (case lookup_of (snd c) of
        None \<Rightarrow> Inr out
      | Some (mid, mk) \<Rightarrow>
          (case map_key_z3 (fp_z (fe_par env)) (fwd_st env fw) (Some mid) (expr_to_z3 (fp_z (fe_par env)) (fwd_st env fw) mk) of
             Inl e \<Rightarrow> Inr out
           | Inr k \<Rightarrow>
               ebind (map_at (fe_init env) (Some mid)) (\<lambda>arrs.
               let name = map_name_of maps mid; old = (case dict_get out name of None \<Rightarrow> [] | Some d \<Rightarrow> d) in
               Inr (dict_set name (dict_set (ev m k) (evb m (SelectB (fst arrs) k), ev m (Select (snd arrs) k)) old) out))))"

definition witness_maps ::
  "('m \<Rightarrow> bvt \<Rightarrow> int) \<Rightarrow> ('m \<Rightarrow> bt \<Rightarrow> bool) \<Rightarrow> 'm \<Rightarrow> map_info list \<Rightarrow> fwd_env \<Rightarrow> forward \<Rightarrow> (int \<times> call_rec) list \<Rightarrow>
   (string \<times> (int \<times> bool \<times> int) list) list res" where
  "witness_maps ev evb m maps env fw calls = efoldl (map_entry ev evb m maps env fw) [] calls"

definition witness_helpers ::
  "('m \<Rightarrow> bvt \<Rightarrow> int) \<Rightarrow> 'm \<Rightarrow> fwd_env \<Rightarrow> forward \<Rightarrow> (int \<times> call_rec) list \<Rightarrow> ((int \<times> int) \<times> int) list res" where
  "witness_helpers ev m env fw calls =
     efoldl (\<lambda>out c. case snd c of
         Call_val (Func_retval sz idx fn blk mid mk mki fb rd) \<Rightarrow>
           ebind (expr_to_z3 (fp_z (fe_par env)) (fwd_st env fw) (Func_retval sz idx fn blk mid mk mki fb rd)) (\<lambda>t.
           Inr (dict_set (fn, idx) (ev m t) out))
       | _ \<Rightarrow> Inr out) [] calls"

section \<open>The path\<close>

text \<open>The block control goes to: the taken edge is asked first; an exit has none.\<close>

definition next_block :: "('m \<Rightarrow> bt \<Rightarrow> bool) \<Rightarrow> 'm \<Rightarrow> tblock list \<Rightarrow> forward \<Rightarrow> nat \<Rightarrow> nat option" where
  "next_block evb m blocks fw b =
     (case dict_get (fw_info fw) b of
        None \<Rightarrow> None
      | Some pi \<Rightarrow>
          if length blocks \<le> b then None
          else
            let s = blocks ! b in
            if b_kind s = KExit then None
            else if b_succ_t s \<noteq> None \<and> lit_holds evb m (wi_taken pi) then b_succ_t s
            else if b_succ_f s \<noteq> None \<and> lit_holds evb m (wi_fall pi) then b_succ_f s
            else None)"

function path_from :: "('m \<Rightarrow> bt \<Rightarrow> bool) \<Rightarrow> 'm \<Rightarrow> tblock list \<Rightarrow> forward \<Rightarrow> nat option \<Rightarrow> nat set \<Rightarrow> nat \<Rightarrow> nat list" where
  "path_from evb m blocks fw stop_at seen_set b =
     (if stop_at = Some b then []
      else case next_block evb m blocks fw b of
        None \<Rightarrow> []
      | Some n \<Rightarrow> if n \<in> seen_set \<or> dict_get (fw_info fw) n = None then []
                  else n # path_from evb m blocks fw stop_at (insert n seen_set) n)"
  by pat_completeness auto

termination
proof (relation "measure (\<lambda>(evb, m, blocks, fw, stop_at, seen_set, b). card (set (map fst (fw_info fw)) - seen_set))", simp)
  fix evb :: "'m \<Rightarrow> bt \<Rightarrow> bool" and m blocks fw stop_at seen_set b n
  assume "\<not> (n \<in> seen_set \<or> dict_get (fw_info fw) n = None)"
  then have "n \<in> set (map fst (fw_info fw)) - seen_set" by (auto simp: map_of_eq_None_iff)
  then have "set (map fst (fw_info fw)) - insert n seen_set \<subset> set (map fst (fw_info fw)) - seen_set" by blast
  then have "card (set (map fst (fw_info fw)) - insert n seen_set) < card (set (map fst (fw_info fw)) - seen_set)"
    by (intro psubset_card_mono) simp_all
  then show "((evb, m, blocks, fw, stop_at, insert n seen_set, n), (evb, m, blocks, fw, stop_at, seen_set, b)) \<in>
      measure (\<lambda>(evb, m, blocks, fw, stop_at, seen_set, b). card (set (map fst (fw_info fw)) - seen_set))"
    by simp
qed

declare path_from.simps [simp del]

definition witness_path :: "('m \<Rightarrow> bt \<Rightarrow> bool) \<Rightarrow> 'm \<Rightarrow> tblock list \<Rightarrow> forward \<Rightarrow> nat option \<Rightarrow> nat list" where
  "witness_path evb m blocks fw stop_at = 0 # path_from evb m blocks fw stop_at {0} 0"

section \<open>The false atoms\<close>

text \<open>The atoms in the order of the tree; one that cannot be encoded is passed over.\<close>

primrec failed_atoms :: "('m \<Rightarrow> bt \<Rightarrow> bool) \<Rightarrow> 'm \<Rightarrow> z3_queries \<Rightarrow> z3_state \<Rightarrow> cond_node \<Rightarrow> atom list" where
  "failed_atoms evb m z st (CLeaf a) = (case atom_z3 z st a of Inl e \<Rightarrow> [] | Inr c \<Rightarrow> if evb m c then [] else [a])"
| "failed_atoms evb m z st (CNot c) = failed_atoms evb m z st c"
| "failed_atoms evb m z st (CAnd cs) = concat (map (failed_atoms evb m z st) cs)"
| "failed_atoms evb m z st (COr cs) = concat (map (failed_atoms evb m z st) cs)"

section \<open>The witness\<close>

record witness =
  wn_packet :: "int list"
  wn_pkt_len :: int
  wn_maps :: "(string \<times> (int \<times> bool \<times> int) list) list"
  wn_helpers :: "((int \<times> int) \<times> int) list"
  wn_ctx :: "(string \<times> int) list"
  wn_path :: "nat list"
  wn_failed :: "atom list"

definition build_witness ::
  "('m \<Rightarrow> bvt \<Rightarrow> int) \<Rightarrow> ('m \<Rightarrow> bt \<Rightarrow> bool) \<Rightarrow> map_info list \<Rightarrow> (int \<times> call_rec) list \<Rightarrow> fwd_env \<Rightarrow> forward \<Rightarrow>
   'm option \<Rightarrow> cond_node \<Rightarrow> z3_state \<Rightarrow> witness option res" where
  "build_witness ev evb maps calls env fw model c st =
     (case model of
        None \<Rightarrow> Inr None
      | Some m \<Rightarrow>
          ebind (witness_maps ev evb m maps env fw calls) (\<lambda>ms.
          ebind (witness_helpers ev m env fw calls) (\<lambda>hs.
          let (data, n) = witness_packet (fp_z (fe_par env)) ev m (fe_init env) in
          Inr (Some \<lparr>wn_packet = data, wn_pkt_len = n, wn_maps = ms, wn_helpers = hs,
            wn_ctx = [(''ingress_ifindex'', ev m (zs_ingress (fe_init env))), (''rx_queue_index'', ev m (zs_rx_index (fe_init env))),
                      (''egress_ifindex'', ev m (zs_egress (fe_init env)))],
            wn_path = witness_path evb m (fe_blocks env) fw None,
            wn_failed = failed_atoms evb m (fp_z (fe_par env)) st c\<rparr>))))"

section \<open>The path is the one taken\<close>

lemma forward_edges:
  assumes "smtlib (fp_z par) ev evb eva evab" and "wf_graph blocks" and "blocks \<noteq> []"
    and "list_all kind_successors blocks"
    and "forward_context par blocks init targets trees True hybrid = Inr (env, fw)"
  shows "single_valued (taken_edges evb blocks (reach_info fw) m)"
    and "acyclic (taken_edges evb blocks (reach_info fw) m)"
    and "dict_get (fw_info fw) b = Some pi \<Longrightarrow> b < length blocks"
    and "dict_get (fw_info fw) 0 \<noteq> None"
proof -
  obtain live order fw1 where p: "live \<subseteq> {..<length blocks}" "0 \<in> live" "blocks.topological blocks live order"
    "env = forward_env par blocks init live order trees True hybrid"
    "efoldl (walk_block env) fresh_forward order = Inr fw1" "fw = fw1\<lparr>fw_cur := None\<rparr>"
    by (rule forward_parts [OF assms(2,3,5)])
  have env: "fe_blocks env = blocks" by (simp add: p(4))
  have i1: "fw_info fw = fw_info fw1" by (simp add: p(6))
  note at = walk_at [OF assms(2) p(1,3) env p(5)]
  obtain sa info where an: "analyze (fp_z par) (fp_simp par) blocks sa targets [] = Inr info" "same_reach fw info"
    using forward_analyze [OF assms(2,3,5)] by blast
  let ?R = "taken_edges evb blocks (reach_info fw) m"
  show "single_valued ?R" unfolding same_reach_info(1) [OF an(2), symmetric]
    by (rule taken_edges_single [OF assms(1-3) an(1) assms(4)])
  have src: "x \<in> live" if "dict_get (fw_info fw) x = Some i" for x i using that at(1) i1 by simp
  then show "dict_get (fw_info fw) b = Some pi \<Longrightarrow> b < length blocks" using p(1) by blast
  have "?R \<inter> live \<times> live \<subseteq> flow_within blocks live"
    using smtlib.enabled_flow [OF assms(1,2)] p(1) by (auto simp: blocks.flow_in_def)
  then have acyc: "acyclic (?R \<inter> live \<times> live)" by (rule acyclic_subset [OF blocks.topological_acyclic [OF p(3)]])
  have srcR: "x \<in> live" if "(x, y) \<in> ?R" for x y
    using that src by (auto simp: taken_edges_def dict_get_reach_info)
  show "acyclic ?R"
  proof (rule acyclicI, intro allI notI)
    fix x assume "(x, x) \<in> ?R\<^sup>+"
    moreover have "(x, y) \<in> (?R \<inter> live \<times> live)\<^sup>+ \<or> y \<notin> live" if "(x, y) \<in> ?R\<^sup>+" for y
      using that by (induction rule: trancl_induct) (use srcR in \<open>blast intro: trancl.intros\<close>)+
    moreover have "x \<in> live" using calculation(1) srcR by (auto dest: tranclD)
    ultimately show False using acyc by (auto simp: acyclic_def)
  qed
  show "dict_get (fw_info fw) 0 \<noteq> None"
    using walk_covers [OF p(5), of 0] p(2,3) by (auto simp: blocks.topological_def i1)
qed

lemma next_block_edge:
  assumes "single_valued (taken_edges evb blocks (reach_info fw) m)" and "list_all kind_successors blocks"
    and "\<And>pi. dict_get (fw_info fw) b = Some pi \<Longrightarrow> b < length blocks"
  shows "next_block evb m blocks fw b = Some n \<longleftrightarrow> (b, n) \<in> taken_edges evb blocks (reach_info fw) m"
proof -
  let ?R = "taken_edges evb blocks (reach_info fw) m"
  have R: "(b, c) \<in> ?R \<longleftrightarrow> (\<exists>pi. dict_get (fw_info fw) b = Some pi \<and>
      (b_succ_t (blocks ! b) = Some c \<and> lit_holds evb m (wi_taken pi) \<or> b_succ_f (blocks ! b) = Some c \<and> lit_holds evb m (wi_fall pi)))" for c
    by (auto simp: taken_edges_def dict_get_reach_info reach_of_info_def)
  have into: "(b, c) \<in> ?R" if "next_block evb m blocks fw b = Some c" for c
    unfolding R using that by (auto simp: next_block_def Let_def split: option.splits if_splits)
  show ?thesis
  proof
    assume e: "(b, n) \<in> ?R"
    then obtain pi where pi: "dict_get (fw_info fw) b = Some pi"
      "b_succ_t (blocks ! b) = Some n \<and> lit_holds evb m (wi_taken pi) \<or> b_succ_f (blocks ! b) = Some n \<and> lit_holds evb m (wi_fall pi)"
      unfolding R by blast
    then have "kind_successors (blocks ! b)" using assms(2,3) by (auto simp: list_all_length)
    then have "b_kind (blocks ! b) \<noteq> KExit" using pi(2) by (auto simp: kind_successors_def)
    then have "next_block evb m blocks fw b \<noteq> None" using pi assms(3) by (auto simp: next_block_def Let_def)
    then obtain c where c: "next_block evb m blocks fw b = Some c" by blast
    with into [OF c] e assms(1) show "next_block evb m blocks fw b = Some n" by (auto dest: single_valuedD)
  qed (rule into)
qed

text \<open>The walk from a block lists what the edges lead to, one after the other.\<close>

lemma path_from_exact:
  fixes R :: "nat rel"
  assumes "single_valued R" and "acyclic R"
    and edge: "\<And>b n. next_block evb m blocks fw b = Some n \<longleftrightarrow> (b, n) \<in> R"
    and ends: "\<And>b n. (b, n) \<in> R \<Longrightarrow> dict_get (fw_info fw) b \<noteq> None"
    and "b \<in> seen_set" and "\<forall>s \<in> seen_set. (s, b) \<in> R\<^sup>*"
  shows "set (path_from evb m blocks fw None seen_set b) = {x. (b, x) \<in> R\<^sup>+ \<and> dict_get (fw_info fw) x \<noteq> None} \<and>
    successively (\<lambda>x y. (x, y) \<in> R) (b # path_from evb m blocks fw None seen_set b)"
  using assms(5,6)
proof (induction "card (set (map fst (fw_info fw)) - seen_set)" arbitrary: seen_set b rule: less_induct)
  case less
  show ?case
  proof (cases "next_block evb m blocks fw b")
    case None
    then have "(b, x) \<notin> R\<^sup>+" for x using edge [of b] by (auto dest: tranclD)
    then show ?thesis using None by (simp add: path_from.simps [of _ _ _ _ _ _ b])
  next
    case (Some n)
    then have bn: "(b, n) \<in> R" by (simp add: edge)
    have one: "c = n" if "(b, c) \<in> R" for c using single_valuedD [OF assms(1) that bn] .
    have "(b, x) \<in> R\<^sup>+ \<longleftrightarrow> (n, x) \<in> R\<^sup>*" for x
    proof
      assume "(b, x) \<in> R\<^sup>+"
      then obtain c where "(b, c) \<in> R" "(c, x) \<in> R\<^sup>*" by (blast dest: tranclD)
      with one show "(n, x) \<in> R\<^sup>*" by simp
    qed (rule rtrancl_into_trancl2 [OF bn])
    then have up: "(b, x) \<in> R\<^sup>+ \<longleftrightarrow> x = n \<or> (n, x) \<in> R\<^sup>+" for x by (auto simp: rtrancl_eq_or_trancl)
    have new: "n \<notin> seen_set"
    proof
      assume "n \<in> seen_set"
      then have "(n, n) \<in> R\<^sup>+" using less.prems(2) rtrancl_into_trancl1 [OF _ bn] by blast
      with assms(2) show False by (simp add: acyclic_def)
    qed
    show ?thesis
    proof (cases "dict_get (fw_info fw) n")
      case None
      then have "(n, x) \<notin> R" for x using ends [of n x] by blast
      then have "(n, x) \<notin> R\<^sup>+" for x by (blast dest: tranclD)
      then show ?thesis using None Some up by (auto simp: path_from.simps [of _ _ _ _ _ _ b])
    next
      case info: (Some pi)
      then have "n \<in> set (map fst (fw_info fw)) - seen_set" using new map_of_SomeD [OF info] by force
      then have "set (map fst (fw_info fw)) - insert n seen_set \<subset> set (map fst (fw_info fw)) - seen_set" by blast
      then have card: "card (set (map fst (fw_info fw)) - insert n seen_set) < card (set (map fst (fw_info fw)) - seen_set)"
        by (intro psubset_card_mono) simp_all
      have "\<forall>s \<in> insert n seen_set. (s, n) \<in> R\<^sup>*" using less.prems(2) bn by (auto intro: rtrancl_into_rtrancl)
      from less.hyps [OF card _ this] have IH:
        "set (path_from evb m blocks fw None (insert n seen_set) n) = {x. (n, x) \<in> R\<^sup>+ \<and> dict_get (fw_info fw) x \<noteq> None}"
        "successively (\<lambda>x y. (x, y) \<in> R) (n # path_from evb m blocks fw None (insert n seen_set) n)" by simp_all
      have eq: "path_from evb m blocks fw None seen_set b = n # path_from evb m blocks fw None (insert n seen_set) n"
        using Some new info by (simp add: path_from.simps [of _ _ _ _ _ _ b])
      show ?thesis unfolding eq using IH bn info up by auto
    qed
  qed
qed

lemma successively_distinct:
  assumes "successively (\<lambda>x y. (x, y) \<in> R) xs" and "acyclic R"
  shows "distinct xs"
  using assms(1)
proof (induction xs)
  case (Cons x xs)
  have "(x, y) \<in> R\<^sup>+" if "y \<in> set xs" for y
    using Cons.prems that
  proof (induction xs arbitrary: x)
    case (Cons z zs)
    then show ?case by (auto intro: trancl_into_trancl2)
  qed simp
  then have "x \<notin> set xs" using assms(2) by (auto simp: acyclic_def)
  with Cons show ?case by (cases xs) simp_all
qed simp

lemma witness_path_lemma:
  fixes m :: 'm
  assumes "smtlib (fp_z par) ev evb eva evab" and "wf_graph blocks" and "blocks \<noteq> []"
    and "list_all kind_successors blocks"
    and "forward_context par blocks init targets trees True hybrid = Inr (env, fw)"
  defines "path \<equiv> witness_path evb m blocks fw None"
  shows "hd path = 0 \<and> distinct path \<and> successively (\<lambda>x y. (x, y) \<in> taken_edges evb blocks (reach_info fw) m) path \<and>
    (\<forall>b. b \<in> set path \<longleftrightarrow> leads_to evb blocks fw m b \<and> dict_get (fw_info fw) b \<noteq> None) \<and>
    (targets = None \<longrightarrow> b_kind (blocks ! last path) = KExit)"
proof -
  let ?R = "taken_edges evb blocks (reach_info fw) m"
  note fe = forward_edges [OF assms(1-5)]
  note sv = fe(1) [of m] and ac = fe(2) [of m]
  have edge: "next_block evb m blocks fw b = Some n \<longleftrightarrow> (b, n) \<in> ?R" for b n
    by (rule next_block_edge [OF sv assms(4) fe(3)])
  have ends: "dict_get (fw_info fw) b \<noteq> None" if "(b, n) \<in> ?R" for b n
    using that by (auto simp: taken_edges_def dict_get_reach_info)
  have "\<forall>s \<in> {0}. (s, 0) \<in> ?R\<^sup>*" by simp
  note w = path_from_exact [OF sv ac edge ends _ this, simplified]
  have p: "path = 0 # path_from evb m blocks fw None {0} 0" by (simp add: path_def witness_path_def)
  have succ: "successively (\<lambda>x y. (x, y) \<in> ?R) path" using w unfolding p by simp
  have mem: "b \<in> set path \<longleftrightarrow> leads_to evb blocks fw m b \<and> dict_get (fw_info fw) b \<noteq> None" for b
    using w fe(4) unfolding p by (auto simp: leads_to_def rtrancl_eq_or_trancl)
  have "b_kind (blocks ! last path) = KExit" if t: "targets = None"
  proof -
    obtain pi where "dict_get (fw_info fw) 0 = Some pi" using fe(4) by blast
    from forward_conditions [OF assms(1-3,5) this] t assms(4) obtain e where
      e: "e < length blocks" "b_kind (blocks ! e) = KExit" "block_reached evb (reach_info fw) m e" by blast
    from e(3) obtain ei where ei: "dict_get (fw_info fw) e = Some ei" "lit_holds evb m (wi_reach ei)"
      by (auto simp: block_reached_def dict_get_reach_info reach_of_info_def)
    then have "e \<in> set path" using forward_conditions [OF assms(1-3,5) ei(1)] mem by (auto simp: leads_to_def)
    then obtain ys zs where ps: "path = ys @ e # zs" by (auto simp: in_set_conv_decomp)
    have "next_block evb m blocks fw e = None" using e(2) ei(1) by (simp add: next_block_def Let_def)
    then have stuck: "(e, c) \<notin> ?R" for c using edge [of e c] by simp
    have "zs = []" using succ stuck unfolding ps by (cases zs) (auto simp: successively_append_iff)
    then show ?thesis using e(2) by (simp add: ps)
  qed
  with succ mem successively_distinct [OF succ ac] show ?thesis unfolding p by simp
qed

section \<open>The packet and the false atoms\<close>

lemma pkt_stores_sorts:
  assumes "smtlib z ev evb eva evab"
  shows "z_dom z (foldl (\<lambda>a (off, v). Store a (BitVecVal off 16) (BitVecVal v 8)) (Array ''pkt0'' 16 8) pb) = 16 \<and>
    z_rng z (foldl (\<lambda>a (off, v). Store a (BitVecVal off 16) (BitVecVal v 8)) (Array ''pkt0'' 16 8) pb) = 8"
proof (induction pb rule: rev_induct)
  case Nil
  then show ?case by (simp add: smtlib.dom_Array [OF assms] smtlib.rng_Array [OF assms])
next
  case (snoc x pb)
  then show ?case by (simp add: case_prod_unfold smtlib.dom_Store [OF assms] smtlib.rng_Store [OF assms])
qed

lemma witness_packet_lemma:
  assumes "smtlib z ev evb eva evab" and "parse_input sc maps node = Inr inp"
    and "list_all (\<lambda>(off, b). off < 65536) (is_pkt_bytes inp)"
    and "witness_packet z ev m (z3_state_from_input inp maps) = (bytes, n)"
  shows "length bytes = min (nat n) 128 \<and>
    (\<forall>l. is_pkt_len inp = Some l \<longrightarrow> 0 \<le> l \<longrightarrow> l \<le> 65536 \<longrightarrow> n = l) \<and>
    (\<forall>i < length bytes. bytes ! i = (case dict_get (is_pkt_bytes inp) (int i) of
         None \<Rightarrow> eva m (Array ''pkt0'' 16 8) (int i) | Some b \<Rightarrow> take_bit 8 b))"
proof -
  let ?st = "z3_state_from_input inp maps"
  have dom: "z_dom z (zs_pkt ?st) = 16 \<and> z_rng z (zs_pkt ?st) = 8"
    using pkt_stores_sorts [OF assms(1), of "is_pkt_bytes inp"] by (simp add: z3_state_from_input_def)
  have len: "ev m (zs_pkt_len ?st) = take_bit 64 l" if "is_pkt_len inp = Some l" for l
    using that by (simp add: z3_state_from_input_def scalar_or_def smtlib.ev_BitVecVal [OF assms(1)])
  have byte: "ev m (Select (zs_pkt ?st) (BitVecVal (int i) 16)) AND 0xFF =
      (case dict_get (is_pkt_bytes inp) (int i) of None \<Rightarrow> eva m (Array ''pkt0'' 16 8) (int i) | Some b \<Rightarrow> take_bit 8 b)" if "i < 128" for i
  proof -
    have i: "in_bits 16 (int i)" using that by (simp add: in_bits_def)
    have "ev m (Select (zs_pkt ?st) (BitVecVal (int i) 16)) = eva m (zs_pkt ?st) (int i)"
      using i dom by (simp add: smtlib.ev_Select [OF assms(1)] smtlib.size_BitVecVal [OF assms(1)] smtlib.ev_BitVecVal [OF assms(1)] in_bits_take_bit)
    moreover have "x AND 0xFF = take_bit 8 x" for x :: int by (simp add: take_bit_eq_mask mask_eq_exp_minus_1)
    moreover have "take_bit 8 (ev m (Select (zs_pkt ?st) (BitVecVal (int i) 16))) = ev m (Select (zs_pkt ?st) (BitVecVal (int i) 16))"
      using smtlib.ev_range [OF assms(1), of "Select (zs_pkt ?st) (BitVecVal (int i) 16)" m] dom by (simp add: smtlib.size_Select [OF assms(1)])
    ultimately show ?thesis using input_packet_byte [OF assms(1-3) i, of m] by simp
  qed
  from assms(4) dom have w: "n = max 0 (min (ev m (zs_pkt_len ?st)) 65536)"
    "bytes = map (\<lambda>i. ev m (Select (zs_pkt ?st) (BitVecVal (int i) 16)) AND 0xFF) [0..<min (nat n) 128]"
    by (auto simp: witness_packet_def Let_def DISPLAY_BYTES_def)
  have "ev m (zs_pkt_len ?st) = l" if "is_pkt_len inp = Some l" "0 \<le> l" "l \<le> 65536" for l
    using len that by (simp add: take_bit_int_eq_self)
  then show ?thesis using byte by (auto simp: w)
qed

text \<open>Trees without \<open>not\<close>, where no \<open>or\<close> is empty: one that is false has a false atom.\<close>

primrec plain_tree :: "cond_node \<Rightarrow> bool" where
  "plain_tree (CLeaf a) = True"
| "plain_tree (CNot c) = False"
| "plain_tree (CAnd cs) = list_all (\<lambda>x. x) (map plain_tree cs)"
| "plain_tree (COr cs) = (cs \<noteq> [] \<and> list_all (\<lambda>x. x) (map plain_tree cs))"

lemma failed_atoms_false:
  assumes "smtlib z ev evb eva evab" and "regular_state z st"
  shows "regular_node z st c \<Longrightarrow> a \<in> set (failed_atoms evb m z st c) \<Longrightarrow> \<not> atom_holds ev evb eva evab z st m a"
    and "regular_node z st c \<Longrightarrow> plain_tree c \<Longrightarrow> \<not> node_holds ev evb eva evab z st m c \<Longrightarrow> failed_atoms evb m z st c \<noteq> []"
proof (induction c)
  case (CLeaf x)
  { case 1 then show ?case using smtlib.atom_run [OF assms, of x m] by (auto split: sum.splits if_splits) }
  { case 2 then show ?case using smtlib.atom_run [OF assms, of x m] by (auto split: sum.splits if_splits) }
next
  case (CAnd cs)
  { case 1 then show ?case using CAnd by (auto simp: list_all_iff) }
  { case 2 then show ?case using CAnd by (fastforce simp: list_all_iff) }
next
  case (COr cs)
  { case 1 then show ?case using COr by (auto simp: list_all_iff) }
  { case 2 then show ?case using COr by (cases cs) (auto simp: list_all_iff) }
qed simp_all

lemma violated_has_witness:
  "check_block_condition sv env fw bc = Inr r \<Longrightarrow> cr_verdict r = V_violated \<Longrightarrow> cr_witness r \<noteq> None"
  by (auto simp: check_block_condition_def Let_def ebind_eq_Inr idle_verdict_def split: option.splits if_splits)

section \<open>Claims\<close>

text \<open>
  Claim C7.  The path shown with a witness is the one the assignment takes: it starts at the entry, repeats
  no block, follows an edge that is taken at every step, and passes through a covered block exactly when
  the assignment leads there; when every block is covered it ends at an exit.
\<close>

theorem witness_path_exact:
  assumes "smtlib (fp_z par) ev evb eva evab" and "wf_graph blocks" and "blocks \<noteq> []"
    and "list_all kind_successors blocks"
    and "forward_context par blocks init targets trees True hybrid = Inr (env, fw)"
  shows "hd (witness_path evb m blocks fw None) = 0 \<and> distinct (witness_path evb m blocks fw None) \<and>
    successively (\<lambda>x y. (x, y) \<in> taken_edges evb blocks (reach_info fw) m) (witness_path evb m blocks fw None) \<and>
    (\<forall>b. b \<in> set (witness_path evb m blocks fw None) \<longleftrightarrow> leads_to evb blocks fw m b \<and> dict_get (fw_info fw) b \<noteq> None) \<and>
    (targets = None \<longrightarrow> b_kind (blocks ! last (witness_path evb m blocks fw None)) = KExit)"
  by (rule witness_path_lemma [OF assms])

theorem witness_path_exact_witness:
  "\<exists>env fw. demo_forward = Inr (env, fw) \<and> 3 \<in> set (witness_path eval_b Smt.demo_env Forward_Reach.demo_diamond fw None)"
proof -
  obtain env fw pi where r: "demo_forward = Inr (env, fw)" "dict_get (fw_info fw) 3 = Some pi"
    "wi_reach pi = Z (BOr [BNot (Bool (branch_name 0)), Bool (branch_name 0)])"
    using demo_forward_run by blast
  have run: "forward_context demo_params Forward_Reach.demo_diamond (make_init_state [] []) None demo_trees True True = Inr (env, fw)"
    using r(1) by (simp add: demo_forward_def)
  have "lit_holds eval_b Smt.demo_env (wi_reach pi)" by (simp add: r(3) lit_holds_def)
  then have "leads_to eval_b Forward_Reach.demo_diamond fw Smt.demo_env 3"
    using forward_conditions [OF demo_params_ok(1) demo_forward_wf(1,2) run r(2)] by (simp add: leads_to_def)
  with witness_path_exact [OF demo_params_ok(1) demo_forward_wf run, of Smt.demo_env] r(1,2) show ?thesis by blast
qed

text \<open>
  Claim C4.  A violation comes with its explanation: a condition reported violated has a model, whose path
  passes through the block of the condition and which falsifies the condition there; every atom listed as
  false is false, and, unless the condition uses \<open>not\<close>, some atom is listed.  The atoms of the condition
  have to be encodable in the state of the block (\<open>regular_node\<close>): the values they name have terms, their
  constants fit, and a condition on the packet length has a bound.
\<close>

theorem violation_explained:
  assumes "smtlib (fp_z par) ev evb eva evab" and "wf_graph blocks" and "blocks \<noteq> []" and "solver_ok evb sv"
    and "list_all kind_successors blocks"
    and "context_for par policies blocks init reach_all = Inr (env, fw)"
    and "pol \<in> set policies" and "bc \<in> set (po_blocks pol)"
    and "regular_state (fp_z par) (state_at env fw (bc_block bc))"
    and "regular_node (fp_z par) (state_at env fw (bc_block bc)) (bc_cond bc)"
    and "check_block_condition sv env fw bc = Inr r" and "cr_verdict r = V_violated"
  shows "\<exists>m. cr_witness r = Some (bc_block bc, m) \<and> bc_block bc \<in> set (witness_path evb m blocks fw None) \<and>
    \<not> node_holds ev evb eva evab (fp_z par) (state_at env fw (bc_block bc)) m (bc_cond bc) \<and>
    (\<forall>a \<in> set (failed_atoms evb m (fp_z par) (state_at env fw (bc_block bc)) (bc_cond bc)).
       \<not> atom_holds ev evb eva evab (fp_z par) (state_at env fw (bc_block bc)) m a) \<and>
    (plain_tree (bc_cond bc) \<longrightarrow> failed_atoms evb m (fp_z par) (state_at env fw (bc_block bc)) (bc_cond bc) \<noteq> [])"
proof -
  note ctx = assms(6) [unfolded context_for_def]
  obtain b m where w: "cr_witness r = Some (b, m)" using violated_has_witness [OF assms(11,12)] by auto
  from block_verdict [OF assms(1-4,6-10)] assms(11,12)
  have "mode_verdict (bc_mode bc) (\<exists>m. leads_to evb blocks fw m (bc_block bc) \<and>
        node_holds ev evb eva evab (fp_z par) (state_at env fw (bc_block bc)) m (bc_cond bc) = (bc_mode bc = M_exists)) = V_violated"
    by (simp only: sum.inject) (elim exE conjE, simp only:)
  then have mode: "bc_mode bc = M_all" by (simp only: violated_mode)
  from block_verdict [OF assms(1-4,6-10)] assms(11) w mode have m: "b = bc_block bc" "leads_to evb blocks fw m b"
    "\<not> node_holds ev evb eva evab (fp_z par) (state_at env fw (bc_block bc)) m (bc_cond bc)" by auto
  have "dict_get (fw_info fw) b \<noteq> None"
    using forward_covers [OF assms(1-3) ctx _ m(2)] targets_cover [OF assms(7,8)] m(1) by auto
  then have "b \<in> set (witness_path evb m blocks fw None)"
    using witness_path_lemma [OF assms(1-3,5) ctx, of m] m(2) by simp
  then show ?thesis
    using w m(1,3) failed_atoms_false [OF assms(1,9,10), where m = m] by (intro exI [of _ m]) simp
qed

text \<open>At its block, the lookup of the key 7 in the map 0 is to miss; the map is one the analysis knows nothing about.\<close>

definition miss_policy :: policy where
  "miss_policy = \<lparr>po_blocks = [\<lparr>bc_name = ''miss'', bc_block = 0, bc_mode = M_all,
       bc_cond = CLeaf (HelperNull 1 2 False (Some 0) (Some (Num 7 4 1)) None)\<rparr>], po_exits = []\<rparr>"

definition miss_facts :: "z3_state \<Rightarrow> bool" where
  "miss_facts st \<longleftrightarrow> zs_map st = [(ArrayB ''present0'' 32, Array ''value0'' 32 64)] \<and> zs_map_meta st = demo_maps \<and>
     (\<exists>f. zs_read_present st = Some f \<and>
        (\<forall>key. f 0 key (zs_at_block st) None = Inr (SelectB (ArrayB ''present0'' 32) key)))"

lemma init_maps:
  "zs_map (make_init_state demo_maps demo_maps) = [(ArrayB ''present0'' 32, Array ''value0'' 32 64)]"
  "zs_map_meta (make_init_state demo_maps demo_maps) = demo_maps"
  "all_actions ret_blocks = []"
  by code_simp+

lemma miss_context:
  obtains env fw where "context_for demo_params [miss_policy] ret_blocks (make_init_state demo_maps demo_maps) False = Inr (env, fw)"
    and "ret_facts env fw" and "miss_facts (state_at env fw 0)"
proof -
  have "case context_for demo_params [miss_policy] ret_blocks (make_init_state demo_maps demo_maps) False of Inl e \<Rightarrow> False
    | Inr (env, fw) \<Rightarrow> ret_facts env fw \<and> R_map (Some 0) \<in> fe_fold env \<and>
        zs_map (info_sigma env fw (Some 0)) = [(ArrayB ''present0'' 32, Array ''value0'' 32 64)]"
    by code_simp
  then obtain env fw where c: "context_for demo_params [miss_policy] ret_blocks (make_init_state demo_maps demo_maps) False = Inr (env, fw)"
    "ret_facts env fw" "R_map (Some 0) \<in> fe_fold env"
    "zs_map (info_sigma env fw (Some 0)) = [(ArrayB ''present0'' 32, Array ''value0'' 32 64)]" by (auto split: sum.splits)
  have init: "fe_init env = make_init_state demo_maps demo_maps"
    by (rule forward_parts [OF ret_graph(1,2) c(1) [unfolded context_for_def]], simp)
  note env = ret_params [OF c(1)] init
  have h: "zs_map (hooked n env fw {}) = [(ArrayB ''present0'' 32, Array ''value0'' 32 64)]"
    "zs_map_meta (hooked n env fw {}) = demo_maps" for n
    by (cases n; simp add: env init_maps)+
  have top: "zs_read_present (hooked 4 env fw {}) = Some (fwd_read_present env fw (hooked 3 env fw {}))"
    using hooked.simps(2) [of 3 env fw "{}"] by simp
  have st: "zs_map (state_at env fw 0) = [(ArrayB ''present0'' 32, Array ''value0'' 32 64)]"
    "zs_map_meta (state_at env fw 0) = demo_maps" "zs_at_block (state_at env fw 0) = Some 0"
    "zs_read_present (state_at env fw 0) = Some (fwd_read_present env fw (hooked 3 env fw {}))"
    using c(4) top h by (simp_all add: state_at_def with_reads_def fwd_st_def env demo_params_def)
  have "fwd_read_present env fw (hooked 3 env fw {}) 0 key (Some 0) None = Inr (SelectB (ArrayB ''present0'' 32) key)" for key
    using c(3) by (simp add: fwd_read_present_def mem_present_def mem_depth_def fwd_memory_def new_memory_def env init_maps
      map_at_def py_nth_def py_index_def h)
  then show thesis using that [OF c(1,2)] st by (simp add: miss_facts_def)
qed

lemma miss_atom:
  assumes "miss_facts st"
  shows "regular_atom std_queries st (HelperNull 1 2 False (Some 0) (Some (Num 7 4 1)) None)"
    and "\<not> atom_holds (\<lambda>m. eval_bv (two_env m)) (\<lambda>m. eval_b (two_env m)) (\<lambda>m. eval_a (two_env m)) (\<lambda>m. eval_ab (two_env m))
        std_queries st True (HelperNull 1 2 False (Some 0) (Some (Num 7 4 1)) None)"
proof -
  obtain f where f: "zs_read_present st = Some f"
    "\<forall>key. f 0 key (zs_at_block st) None = Inr (SelectB (ArrayB ''present0'' 32) key)"
    and mp: "map_at st (Some 0) = Inr (ArrayB ''present0'' 32, Array ''value0'' 32 64)"
    and bnd: "\<not> is_bounded_map st (Some 0)"
    using assms by (auto simp: miss_facts_def map_at_def py_nth_def py_index_def is_bounded_map_def is_array_map_def is_prog_map_def
      map_type_in_def map_info_of_def demo_maps_def ARRAY_MAP_TYPES_def PROG_MAP_TYPES_def split: option.splits)
  have key: "map_key_z3 std_queries st (Some 0) (Inr (BitVecVal 7 32)) = Inr (BitVecVal 7 32)"
    using mp by (simp add: map_key_z3_def resize_def std_queries_def)
  show "regular_atom std_queries st (HelperNull 1 2 False (Some 0) (Some (Num 7 4 1)) None)"
    using f mp bnd by (simp add: regular_lookup_def resize_def std_queries_def)
  show "\<not> atom_holds (\<lambda>m. eval_bv (two_env m)) (\<lambda>m. eval_b (two_env m)) (\<lambda>m. eval_a (two_env m)) (\<lambda>m. eval_ab (two_env m))
        std_queries st True (HelperNull 1 2 False (Some 0) (Some (Num 7 4 1)) None)"
    using f mp bnd key by (simp add: lookup_hits_def two_env_def Smt.demo_env_def)
qed

theorem violation_explained_witness:
  "\<exists>env fw r m. context_for demo_params [miss_policy] ret_blocks (make_init_state demo_maps demo_maps) False = Inr (env, fw) \<and>
     check_block_condition two_solver env fw (hd (po_blocks miss_policy)) = Inr r \<and> cr_verdict r = V_violated \<and>
     cr_witness r = Some (0, m) \<and> 0 \<in> set (witness_path (\<lambda>m. eval_b (two_env m)) m ret_blocks fw None) \<and>
     failed_atoms (\<lambda>m. eval_b (two_env m)) m (fp_z demo_params) (state_at env fw 0)
       (CLeaf (HelperNull 1 2 False (Some 0) (Some (Num 7 4 1)) None)) \<noteq> []"
proof -
  let ?bc = "hd (po_blocks miss_policy)" and ?at = "HelperNull 1 2 False (Some 0) (Some (Num 7 4 1)) None"
  obtain env fw where c: "context_for demo_params [miss_policy] ret_blocks (make_init_state demo_maps demo_maps) False = Inr (env, fw)"
    "ret_facts env fw" "miss_facts (state_at env fw 0)" by (rule miss_context)
  have bc: "bc_block ?bc = 0" "bc_mode ?bc = M_all" "bc_cond ?bc = CLeaf ?at" "?bc \<in> set (po_blocks miss_policy)"
    by (simp_all add: miss_policy_def)
  have z: "fp_z demo_params = std_queries" by (simp add: demo_params_def)
  have pol: "miss_policy \<in> set [miss_policy]" and reg: "regular_state (fp_z demo_params) (state_at env fw (bc_block ?bc))"
    "regular_node (fp_z demo_params) (state_at env fw (bc_block ?bc)) (bc_cond ?bc)"
    using ret_regular(1) [OF c(2) ret_params(1) [OF c(1)]] miss_atom(1) [OF c(3)]
    by (simp_all only: bc z regular_node.simps) simp_all
  have "leads_to (\<lambda>m. eval_b (two_env m)) ret_blocks fw True 0 \<and>
      \<not> node_holds (\<lambda>m. eval_bv (two_env m)) (\<lambda>m. eval_b (two_env m)) (\<lambda>m. eval_a (two_env m)) (\<lambda>m. eval_ab (two_env m))
        (fp_z demo_params) (state_at env fw 0) True (CLeaf ?at)"
    using miss_atom(2) [OF c(3)] by (simp only: leads_to_def z node_holds.simps) simp
  then have "\<exists>r. check_block_condition two_solver env fw ?bc = Inr r \<and> cr_verdict r = V_violated"
    using block_verdict [OF two_lib ret_graph(1,2) two_solver_ok c(1) pol bc(4) reg] unfolding bc(1-3)
    by (auto simp: mode_verdict_def simp del: node_holds.simps)
  then obtain r where r: "check_block_condition two_solver env fw ?bc = Inr r" "cr_verdict r = V_violated" by blast
  from violation_explained [OF two_lib ret_graph(1,2) two_solver_ok ret_graph(3) c(1) pol bc(4) reg r]
  have "\<exists>m. cr_witness r = Some (0, m) \<and> 0 \<in> set (witness_path (\<lambda>m. eval_b (two_env m)) m ret_blocks fw None) \<and>
     failed_atoms (\<lambda>m. eval_b (two_env m)) m (fp_z demo_params) (state_at env fw 0) (CLeaf ?at) \<noteq> []"
    unfolding bc(1,3) plain_tree.simps by blast
  with c(1) r show ?thesis by blast
qed

text \<open>
  The packet of a witness is one the input allows: it has the declared length, of which the first
  128 bytes are shown, every byte the packet expression pins has its value, and the others are those of the
  symbolic packet in the model.
\<close>

theorem witness_packet_of_input:
  assumes "smtlib z ev evb eva evab" and "parse_input sc maps node = Inr inp"
    and "list_all (\<lambda>(off, b). off < 65536) (is_pkt_bytes inp)"
    and "witness_packet z ev m (z3_state_from_input inp maps) = (bytes, n)"
  shows "length bytes = min (nat n) 128 \<and>
    (\<forall>l. is_pkt_len inp = Some l \<longrightarrow> 0 \<le> l \<longrightarrow> l \<le> 65536 \<longrightarrow> n = l) \<and>
    (\<forall>i < length bytes. bytes ! i = (case dict_get (is_pkt_bytes inp) (int i) of
         None \<Rightarrow> eva m (Array ''pkt0'' 16 8) (int i) | Some b \<Rightarrow> take_bit 8 b))"
  by (rule witness_packet_lemma [OF assms])

theorem witness_packet_of_input_witness:
  "\<exists>inp bytes. parse_input demo_scapy (se_maps demo_spec_env) demo_input = Inr inp \<and>
     witness_packet std_queries eval_bv Smt.demo_env (z3_state_from_input inp (se_maps demo_spec_env)) = (bytes, 64) \<and>
     length bytes = 64 \<and> bytes ! 2 = 8 \<and> bytes ! 3 = 0"
proof -
  obtain inp where i: "parse_input demo_scapy (se_maps demo_spec_env) demo_input = Inr inp"
    "is_pkt_bytes inp = [(2, 8), (3, 0)]" "is_pkt_len inp = Some 64"
    using demo_input_parsed by simp
  obtain bytes n where w: "witness_packet std_queries eval_bv Smt.demo_env (z3_state_from_input inp (se_maps demo_spec_env)) = (bytes, n)"
    by fastforce
  from witness_packet_of_input [OF smtlib_std i(1) _ w] i w show ?thesis by (intro exI [of _ inp] exI [of _ bytes]) simp
qed

end
