(* ===== verification/Facts.thy ===== *)
theory Facts
  imports Program
begin

text \<open>
  What \<open>hornet/report/facts.py\<close> collects about an analysed program: the reads, calls and writes of each
  block, the maps and who uses them, the exits and the constants they can return, the regions of the
  programs, and the back edges of the block graph.  The printed texts (\<open>text\<close>, \<open>cond\<close>, \<open>ret\<close>,
  \<open>note\<close>) are left out.
\<close>

section \<open>Names\<close>

definition key_name :: "int option \<Rightarrow> string" where
  "key_name k = ''key'' @ (case k of None \<Rightarrow> ''None'' | Some i \<Rightarrow> show_int i)"

text \<open>The inverse tables: for helpers the last name of a number counts, for fields the first.\<close>

definition helper_name :: "int \<Rightarrow> string" where
  "helper_name imm = (case find (\<lambda>(n, i). i = imm) (rev HELPER_IMM) of None \<Rightarrow> ''helper#'' @ show_int imm | Some (n, i) \<Rightarrow> n)"

definition field_name :: "int \<Rightarrow> int \<Rightarrow> string option" where
  "field_name off n = map_option fst (find (\<lambda>(nm, p). p = (off, n)) PROTOCOL_FIELDS)"

definition map_names_of :: "map_info list \<Rightarrow> (int \<times> string) list" where
  "map_names_of maps = foldl (\<lambda>d m. dict_set (m_id m)
     (case m_name m of None \<Rightarrow> ''map'' @ show_int (m_id m) | Some s \<Rightarrow> if s = [] then ''map'' @ show_int (m_id m) else s) d) [] maps"

section \<open>Reads and calls\<close>

datatype read_kind = Read_pkt | Read_map

record read_fact =
  r_kind :: read_kind
  r_idx :: int
  r_off :: int
  r_size :: nat
  r_var_off :: bool
  r_map_name :: "string option"
  r_map_id :: "int option"
  r_map_key :: "string option"
  r_field :: "string option"

text \<open>An atom that can be pasted into a policy; one at a variable offset has none.\<close>

definition read_atom :: "read_fact \<Rightarrow> json option" where
  "read_atom r =
     (if r_var_off r then None
      else Some (JObj (case r_kind r of
          Read_pkt \<Rightarrow> (case r_field r of
              Some f \<Rightarrow> [(''field'', JStr f), (''value'', JInt 0), (''op'', JStr ''eq'')]
            | None \<Rightarrow> [(''offset'', JInt (r_off r)), (''size'', JInt (int (r_size r))), (''value'', JInt 0), (''op'', JStr ''eq'')])
        | Read_map \<Rightarrow>
            [(''read'', JObj [(''map'', case r_map_name r of None \<Rightarrow> JNull | Some s \<Rightarrow> JStr s), (''offset'', JInt (r_off r)),
                              (''size'', JInt (int (r_size r)))]),
             (''value'', JInt 0), (''op'', JStr ''eq'')])))"

datatype call_kind = Call_pointer | Call_scalar | Call_transfer

record call_fact =
  c_idx :: int
  c_imm :: int
  c_helper :: string
  c_returns :: call_kind
  c_block :: nat
  c_map_name :: "string option"
  c_map_id :: "int option"
  c_map_key :: "string option"
  c_slot :: "int option"
  c_target :: "string option"

definition call_atom :: "call_fact \<Rightarrow> json option" where
  "call_atom c = (case c_returns c of
       Call_transfer \<Rightarrow> None
     | Call_pointer \<Rightarrow> Some (JObj [(''idx'', JInt (c_idx c)), (''helper'', JStr (c_helper c)), (''returns'', JStr ''non_null'')])
     | Call_scalar \<Rightarrow> Some (JObj [(''idx'', JInt (c_idx c)), (''helper'', JStr (c_helper c)), (''op'', JStr ''eq''), (''value'', JInt 0)]))"

section \<open>Facts of a block\<close>

text \<open>The constants a value can be, if every leaf is one: an object met again adds nothing new.\<close>

fun leaves :: "val \<Rightarrow> int list option"
  and leaves_all :: "val option list \<Rightarrow> int list option" where
  "leaves (JoinValue oid blk rg vs es) = leaves_all vs"
| "leaves (Num k sz idx) = Some [k]"
| "leaves _ = None"
| "leaves_all [] = Some []"
| "leaves_all (v # vs) =
     (case v of None \<Rightarrow> None
      | Some v \<Rightarrow> (case leaves v of None \<Rightarrow> None
          | Some ks \<Rightarrow> (case leaves_all vs of None \<Rightarrow> None | Some ls \<Rightarrow> Some (ks @ ls))))"

definition ret_codes_of :: "val option \<Rightarrow> int list option" where
  "ret_codes_of e = (case Option.bind e leaves of
       None \<Rightarrow> None
     | Some ks \<Rightarrow> if ks = [] then None else Some (sorted_list_of_set (set ks)))"

record block_fact =
  f_num :: nat
  f_kind :: block_kind
  f_start :: nat
  f_end :: nat
  f_preds :: "nat list"
  f_succ_t :: "nat option"
  f_succ_f :: "nat option"
  f_reads :: "read_fact list"
  f_calls :: "call_fact list"
  f_writes :: "string list"
  f_phis :: nat
  f_ret_codes :: "int list option"
  f_prog_entry :: "string option"

definition interesting :: "block_fact \<Rightarrow> bool" where
  "interesting b \<longleftrightarrow> f_reads b \<noteq> [] \<or> f_calls b \<noteq> [] \<or> f_kind b = KExit \<or> (case f_prog_entry b of None \<Rightarrow> False | Some s \<Rightarrow> s \<noteq> [])"

definition lookup_name :: "(int \<times> string) list \<Rightarrow> int option \<Rightarrow> string option" where
  "lookup_name names mid = Option.bind mid (dict_get names)"

definition source_read :: "(int \<times> string) list \<Rightarrow> val \<Rightarrow> read_fact option" where
  "source_read names v = (case v of
       Pkt_val blk idx off vo sz \<Rightarrow>
         Some \<lparr>r_kind = Read_pkt, r_idx = idx, r_off = off, r_size = sz, r_var_off = vo \<noteq> None, r_map_name = None,
               r_map_id = None, r_map_key = None, r_field = field_name off (int sz)\<rparr>
     | Map_val blk idx mid mk mki off vo sz \<Rightarrow>
         Some \<lparr>r_kind = Read_map, r_idx = idx, r_off = off, r_size = sz, r_var_off = vo \<noteq> None,
               r_map_name = lookup_name names mid, r_map_id = mid, r_map_key = Some (key_name mki), r_field = None\<rparr>
     | _ \<Rightarrow> None)"

definition source_call :: "(int \<times> string) list \<Rightarrow> nat \<Rightarrow> val \<Rightarrow> call_fact option" where
  "source_call names num v = (case v of
       Func_retval sz idx fn blk mid mk mki fb rd \<Rightarrow>
         Some \<lparr>c_idx = idx, c_imm = fn, c_helper = helper_name fn, c_returns = Call_scalar, c_block = num,
               c_map_name = lookup_name names mid, c_map_id = mid,
               c_map_key = (if mk = None then None else Some (key_name mki)), c_slot = None, c_target = None\<rparr>
     | _ \<Rightarrow> None)"

text \<open>The attributes \<open>map_id\<close>, \<open>slot\<close> and \<open>target\<close> of an action, where its class has them.\<close>

fun kind_map_id :: "action_kind \<Rightarrow> int option" where
  "kind_map_id (MapWrite mid mk off sz v vo) = mid"
| "kind_map_id (MapAtomicAdd mid mk off sz v vo old) = mid"
| "kind_map_id (MapLookup mid mk mki) = mid"
| "kind_map_id (MapUpdate mid mk v fl sz) = mid"
| "kind_map_id (MapDelete mid mk) = mid"
| "kind_map_id (TailCall mid ix slot tg nm) = mid"
| "kind_map_id _ = None"

fun kind_key :: "action_kind \<Rightarrow> string option" where
  "kind_key (MapLookup mid mk mki) = (if mk = None then None else Some (key_name mki))"
| "kind_key _ = None"

fun kind_slot :: "action_kind \<Rightarrow> int option" where
  "kind_slot (TailCall mid ix slot tg nm) = slot"
| "kind_slot _ = None"

fun kind_target :: "action_kind \<Rightarrow> string option" where
  "kind_target (TailCall mid ix slot tg nm) = Some tg"
| "kind_target _ = None"

fun class_name :: "action_kind \<Rightarrow> string" where
  "class_name (Return v) = ''Return''"
| "class_name (PktWrite i off vo sz v) = ''PktWrite''"
| "class_name (MapWrite mid mk off sz v vo) = ''MapWrite''"
| "class_name (MapAtomicAdd mid mk off sz v vo old) = ''MapAtomicAdd''"
| "class_name (MapLookup mid mk mki) = ''MapLookup''"
| "class_name (MapUpdate mid mk v fl sz) = ''MapUpdate''"
| "class_name (MapDelete mid mk) = ''MapDelete''"
| "class_name (BssWrite sy off sz v vo) = ''BssWrite''"
| "class_name (BssAtomicAdd sy off sz v vo old) = ''BssAtomicAdd''"
| "class_name (AdjustHead d v) = ''AdjustHead''"
| "class_name (AdjustTail d v) = ''AdjustTail''"
| "class_name (AdjustMeta d v) = ''AdjustMeta''"
| "class_name (XdpBuffLen v) = ''XdpBuffLen''"
| "class_name (CtxWrite v) = ''CtxWrite''"
| "class_name (TailCall mid ix slot tg nm) = ''TailCall''"
| "class_name Perf_event_output = ''perf_event_output''"

definition action_returns :: "action \<Rightarrow> call_kind" where
  "action_returns a = (case rec_ret (Call_act a) of Ret_scalar \<Rightarrow> Call_scalar | Ret_map_ptr \<Rightarrow> Call_pointer | Ret_transfer \<Rightarrow> Call_transfer)"

definition action_call :: "(int \<times> string) list \<Rightarrow> nat \<Rightarrow> action \<Rightarrow> call_fact option" where
  "action_call names num a =
     (if has_ret (a_kind a) then
        let imm = rec_imm (Call_act a); mid = kind_map_id (a_kind a) in
        Some \<lparr>c_idx = a_idx a, c_imm = imm, c_helper = helper_name imm, c_returns = action_returns a, c_block = num,
              c_map_name = lookup_name names mid, c_map_id = mid, c_map_key = kind_key (a_kind a),
              c_slot = kind_slot (a_kind a), c_target = kind_target (a_kind a)\<rparr>
      else None)"

definition block_fact_of :: "(int \<times> string) list \<Rightarrow> tblock \<Rightarrow> block_fact" where
  "block_fact_of names b =
     \<lparr>f_num = b_num b, f_kind = b_kind b, f_start = b_start b, f_end = b_end b, f_preds = b_preds b,
      f_succ_t = b_succ_t b, f_succ_f = b_succ_f b,
      f_reads = sort_key r_idx (List.map_filter (source_read names) (t_sources b)),
      f_calls = sort_key c_idx (List.map_filter (source_call names (b_num b)) (t_sources b) @
                                List.map_filter (action_call names (b_num b)) (t_actions b)),
      f_writes = map (\<lambda>a. class_name (a_kind a)) (filter (\<lambda>a. \<not> has_ret (a_kind a)) (t_actions b)),
      f_phis = length (filter is_join (t_sources b)),
      f_ret_codes = (if b_kind b = KExit then ret_codes_of (ret_expr b) else None),
      f_prog_entry = None\<rparr>"

section \<open>Facts of the maps\<close>

record map_fact =
  mf_info :: map_info
  mf_name :: string
  mf_lookups :: "call_fact list"
  mf_reads :: "read_fact list"
  mf_written :: bool
  mf_targets :: "(int option \<times> string) list"
  mf_transfers :: "call_fact list"

datatype map_family = Fam_array | Fam_hash | Fam_prog | Fam_other

definition family :: "map_fact \<Rightarrow> map_family" where
  "family m = (if m_type (mf_info m) \<in> ARRAY_MAP_TYPES then Fam_array else if m_type (mf_info m) \<in> HASH_MAP_TYPES then Fam_hash
     else if m_type (mf_info m) \<in> PROG_MAP_TYPES then Fam_prog else Fam_other)"

definition needs_seed :: "map_fact \<Rightarrow> bool" where
  "needs_seed m \<longleftrightarrow> family m = Fam_hash \<and> mf_lookups m \<noteq> []"

definition new_map_facts :: "map_info list \<Rightarrow> (int \<times> map_fact) list" where
  "new_map_facts maps = foldl (\<lambda>d m. dict_set (m_id m)
     \<lparr>mf_info = m, mf_name = (case dict_get (map_names_of maps) (m_id m) of None \<Rightarrow> [] | Some s \<Rightarrow> s),
      mf_lookups = [], mf_reads = [], mf_written = False, mf_targets = [], mf_transfers = []\<rparr> d) [] maps"

text \<open>\<open>if k in maps: maps[k].\<dots>\<close>\<close>

definition upd_map_fact :: "int option \<Rightarrow> (map_fact \<Rightarrow> map_fact) \<Rightarrow> (int \<times> map_fact) list \<Rightarrow> (int \<times> map_fact) list" where
  "upd_map_fact k f maps = (case k of None \<Rightarrow> maps
     | Some i \<Rightarrow> (case dict_get maps i of None \<Rightarrow> maps | Some m \<Rightarrow> dict_set i (f m) maps))"

definition count_in :: "string \<Rightarrow> (string \<times> nat) list \<Rightarrow> (string \<times> nat) list" where
  "count_in k d = dict_set k (Suc (case dict_get d k of None \<Rightarrow> 0 | Some n \<Rightarrow> n)) d"

definition call_step :: "(int \<times> map_fact) list \<Rightarrow> call_fact \<Rightarrow> (int \<times> map_fact) list" where
  "call_step maps c =
     (let maps = (if c_imm c = 1 then upd_map_fact (c_map_id c) (\<lambda>m. m\<lparr>mf_lookups := mf_lookups m @ [c]\<rparr>) maps else maps)
      in if c_returns c = Call_transfer then upd_map_fact (c_map_id c) (\<lambda>m. m\<lparr>mf_transfers := mf_transfers m @ [c]\<rparr>) maps else maps)"

definition read_step :: "(int \<times> map_fact) list \<Rightarrow> read_fact \<Rightarrow> (int \<times> map_fact) list" where
  "read_step maps r = upd_map_fact (r_map_id r) (\<lambda>m. m\<lparr>mf_reads := mf_reads m @ [r]\<rparr>) maps"

definition write_step :: "(int \<times> map_fact) list \<Rightarrow> action \<Rightarrow> (int \<times> map_fact) list" where
  "write_step maps a = (if has_ret (a_kind a) then maps else upd_map_fact (kind_map_id (a_kind a)) (\<lambda>m. m\<lparr>mf_written := True\<rparr>) maps)"

section \<open>Facts of the program\<close>

record prog_fact =
  pg_name :: string
  pg_path :: string
  pg_first :: "nat option"
  pg_last :: "nat option"
  pg_instrs :: int
  pg_slot :: "int option"
  pg_map :: "string option"

record program_facts =
  pf_n_instrs :: nat
  pf_n_bytes :: nat
  pf_n_blocks :: nat
  pf_back_edges :: "(nat \<times> nat) list"
  pf_maps :: "map_fact list"
  pf_blocks :: "block_fact list"
  pf_exits :: "(nat \<times> int list option) list"
  pf_helpers :: "(string \<times> nat) list"
  pf_effects :: "(string \<times> nat) list"
  pf_pkt_reads :: "(int \<times> int \<times> string option) list"
  pf_var_off_reads :: nat
  pf_rodata :: nat
  pf_bss :: nat
  pf_progs :: "prog_fact list"

section \<open>Back edges\<close>

definition succs_of :: "block_fact \<Rightarrow> nat list" where
  "succs_of b = List.map_filter id [f_succ_t b, f_succ_f b]"

definition succ_table :: "block_fact list \<Rightarrow> (nat \<times> nat list) list" where
  "succ_table blocks = foldl (\<lambda>d b. dict_set (f_num b) (succs_of b) d) [] blocks"

text \<open>The measure of the search: the blocks that are neither finished nor on the stack.\<close>

definition untouched :: "(nat \<times> nat list) list \<Rightarrow> (nat \<times> nat list) list \<Rightarrow> nat set \<Rightarrow> nat" where
  "untouched succs stack finished = card (fst ` set succs - (fst ` set stack \<union> finished))"

text \<open>
  The stack holds the blocks of the current path, innermost first, each with the successors still to be
  followed; the set \<open>on_stack\<close> of the code is the blocks on it.
\<close>

function back_loop :: "(nat \<times> nat list) list \<Rightarrow> (nat \<times> nat list) list \<Rightarrow> nat set \<Rightarrow> (nat \<times> nat) list \<Rightarrow> (nat \<times> nat) list" where
  "back_loop succs [] finished found = found"
| "back_loop succs ((node, []) # stack) finished found = back_loop succs stack (insert node finished) found"
| "back_loop succs ((node, n # rest) # stack) finished found =
     (if n \<in> fst ` set ((node, n # rest) # stack) then back_loop succs ((node, rest) # stack) finished (found @ [(node, n)])
      else if n \<notin> finished \<and> dict_get succs n \<noteq> None
      then back_loop succs ((n, the (dict_get succs n)) # (node, rest) # stack) finished found
      else back_loop succs ((node, rest) # stack) finished found)"
  by pat_completeness auto

termination
proof (relation "measures [\<lambda>(succs, stack, fin, found). untouched succs stack fin,
    \<lambda>(succs, stack, fin, found). sum_list (map (\<lambda>(n, rest). Suc (length rest)) stack)]", goal_cases)
  case (4 succs node n rest stack fin found)
  let ?A = "fst ` set succs - (fst ` set ((node, n # rest) # stack) \<union> fin)"
  let ?B = "fst ` set succs - (fst ` set ((n, the (dict_get succs n)) # (node, rest) # stack) \<union> fin)"
  have "n \<in> fst ` set succs" using 4 by (auto simp: map_of_eq_None_iff)
  then have "n \<in> ?A" "n \<notin> ?B" "?B \<subseteq> ?A" using 4 by auto
  then have "?B \<subset> ?A" by blast
  then have "untouched succs ((n, the (dict_get succs n)) # (node, rest) # stack) fin < untouched succs ((node, n # rest) # stack) fin"
    unfolding untouched_def by (intro psubset_card_mono) simp_all
  then show ?case by simp
qed (auto simp: untouched_def)

definition back_edges :: "block_fact list \<Rightarrow> (nat \<times> nat) list" where
  "back_edges blocks = (let succs = succ_table blocks in
     back_loop succs [(0, case dict_get succs 0 of None \<Rightarrow> [] | Some s \<Rightarrow> s)] {} [])"

section \<open>Collecting\<close>

definition region_fact :: "(int \<times> string) list \<Rightarrow> tblock list \<Rightarrow> prog_region \<Rightarrow> prog_fact" where
  "region_fact names blocks r =
     (let nums = map b_num (filter (\<lambda>b. contains r (b_start b)) blocks) in
      \<lparr>pg_name = p_name r, pg_path = p_path r, pg_first = p_entry_block r,
       pg_last = (if nums = [] then p_entry_block r else Some (Max (set nums))),
       pg_instrs = int (p_end r) - int (p_start r) + 1, pg_slot = p_slot r, pg_map = lookup_name names (p_map_id r)\<rparr>)"

definition collect_region ::
  "(int \<times> map_fact) list \<times> block_fact list \<Rightarrow> prog_region \<Rightarrow> ((int \<times> map_fact) list \<times> block_fact list) res" where
  "collect_region acc r =
     (let (maps, blocks) = acc;
          maps = (if is_main r then maps else upd_map_fact (p_map_id r) (\<lambda>m. m\<lparr>mf_targets := mf_targets m @ [(p_slot r, p_name r)]\<rparr>) maps)
      in if is_main r then Inr (maps, blocks)
         else (case p_entry_block r of
             None \<Rightarrow> Inl TypeError
           | Some e \<Rightarrow> Inr (maps, if e < length blocks then blocks[e := (blocks ! e)\<lparr>f_prog_entry := Some (p_name r)\<rparr>] else blocks)))"

definition pkt_read_places :: "block_fact list \<Rightarrow> (int \<times> int) list" where
  "pkt_read_places blocks =
     sort_key fst (sort_key snd (remdups (map (\<lambda>r. (r_off r, int (r_size r)))
       (filter (\<lambda>r. r_kind r = Read_pkt \<and> \<not> r_var_off r) (concat (map f_reads blocks))))))"

text \<open>\<open>len(prog.rodata)\<close>: the two fixed keys, where they are set, and the symbols.\<close>

definition rodata_entries :: "rodata \<Rightarrow> nat" where
  "rodata_entries ro = (if ro_data ro = None then 0 else 1) + (if ro_section_idx ro = None then 0 else 1) + length (ro_syms ro)"

text \<open>The path and the entry name are those the program was loaded with.\<close>

definition collect_facts :: "ebpf_program \<Rightarrow> program_facts res" where
  "collect_facts prog =
     (let names = map_names_of (g_maps prog); bfs = map (block_fact_of names) (g_blocks prog);
          maps = foldl (\<lambda>maps b. let bf = block_fact_of names b in
              foldl write_step (foldl read_step (foldl call_step maps (f_calls bf)) (f_reads bf)) (t_actions b))
            (new_map_facts (g_maps prog)) (g_blocks prog)
      in ebind (efoldl collect_region (maps, bfs) (g_progs prog)) (\<lambda>(maps, bfs).
      Inr \<lparr>pf_n_instrs = length (g_instrs prog), pf_n_bytes = 8 * length (g_instrs prog),
           pf_n_blocks = length (g_blocks prog), pf_back_edges = back_edges bfs,
           pf_maps = map snd (sort_key fst maps), pf_blocks = bfs,
           pf_exits = map (\<lambda>b. (b_num b, ret_codes_of (ret_expr b))) (filter (\<lambda>b. b_kind b = KExit) (g_blocks prog)),
           pf_helpers = foldl (\<lambda>d c. count_in (c_helper c) d) [] (concat (map f_calls bfs)),
           pf_effects = foldl (\<lambda>d w. count_in w d) [] (concat (map f_writes bfs)),
           pf_pkt_reads = map (\<lambda>(o1, s). (o1, s, field_name o1 s)) (pkt_read_places bfs),
           pf_var_off_reads = length (filter r_var_off (concat (map f_reads bfs))),
           pf_rodata = rodata_entries (g_rodata prog), pf_bss = length (g_bss prog),
           pf_progs = map (region_fact names (g_blocks prog)) (g_progs prog)\<rparr>))"

definition acyclic_facts :: "program_facts \<Rightarrow> bool" where
  "acyclic_facts f \<longleftrightarrow> pf_back_edges f = []"

text \<open>The codes of all exits together; none as soon as one exit has none.\<close>

definition program_ret_codes :: "program_facts \<Rightarrow> int list option" where
  "program_ret_codes f =
     (if list_ex (\<lambda>(b, cs). cs = None) (pf_exits f) then None
      else Some (sorted_list_of_set (set (concat (map (\<lambda>(b, cs). case cs of None \<Rightarrow> [] | Some ks \<Rightarrow> ks) (pf_exits f))))))"

definition fact_of_block :: "program_facts \<Rightarrow> nat \<Rightarrow> block_fact option" where
  "fact_of_block f num = find (\<lambda>b. f_num b = num) (pf_blocks f)"

definition interesting_blocks :: "program_facts \<Rightarrow> block_fact list" where
  "interesting_blocks f = filter interesting (pf_blocks f)"

definition read_depth :: "program_facts \<Rightarrow> int" where
  "read_depth f = (if pf_pkt_reads f = [] then 0 else Max (set (map (\<lambda>(o1, s, n). o1 + s) (pf_pkt_reads f))))"

text \<open>The third layer takes a read beyond 34 whatever else holds.\<close>

definition packet_template :: "program_facts \<Rightarrow> string" where
  "packet_template f = (let depth = read_depth f in
     ''Ether()'' @ (if 14 < depth then ''/IP()'' else '''') @ (if 34 < depth then ''/TCP()'' else ''''))"

section \<open>The back edges tell whether there is a cycle\<close>

definition edges_in :: "(nat \<times> nat list) list \<Rightarrow> nat rel" where
  "edges_in succs = {(u, v). \<exists>ss. dict_get succs u = Some ss \<and> v \<in> set ss}"

text \<open>
  The invariant of the search: the stack is a path, what is finished has only finished successors and no
  cycle, and what a block of the stack leads to is still to be followed, finished, or further in; the last
  two hold as long as no back edge was found.
\<close>

primrec opened :: "nat rel \<Rightarrow> nat set \<Rightarrow> nat set \<Rightarrow> (nat \<times> nat list) list \<Rightarrow> bool" where
  "opened E fin inner [] = True"
| "opened E fin inner (f # stack) = (E `` {fst f} \<subseteq> set (snd f) \<union> fin \<union> inner \<and> opened E fin (insert (fst f) inner) stack)"

lemma opened_mono: "opened E fin inner stack \<Longrightarrow> fin \<union> inner \<subseteq> fin' \<union> inner' \<Longrightarrow> opened E fin' inner' stack"
proof (induction stack arbitrary: inner inner')
  case (Cons f stack)
  have "fin \<union> insert (fst f) inner \<subseteq> fin' \<union> insert (fst f) inner'" using Cons.prems(2) by blast
  with Cons.IH [of "insert (fst f) inner" "insert (fst f) inner'"] Cons.prems show ?case by auto
qed simp

definition search_inv :: "(nat \<times> nat list) list \<Rightarrow> (nat \<times> nat list) list \<Rightarrow> nat set \<Rightarrow> (nat \<times> nat) list \<Rightarrow> bool" where
  "search_inv succs stack fin found \<longleftrightarrow>
     successively (\<lambda>x y. (y, x) \<in> edges_in succs) (map fst stack) \<and> fst ` set stack \<inter> fin = {} \<and> distinct (map fst stack) \<and>
     (\<forall>(x, rest) \<in> set stack. set rest \<subseteq> edges_in succs `` {x}) \<and>
     fst ` set stack \<union> fin \<subseteq> (edges_in succs)\<^sup>* `` {0} \<and> 0 \<in> fst ` set stack \<union> fin \<and>
     (\<forall>(u, v) \<in> set found. (u, v) \<in> edges_in succs \<and> (v, u) \<in> (edges_in succs)\<^sup>* \<and> (0, u) \<in> (edges_in succs)\<^sup>*) \<and>
     (found = [] \<longrightarrow> edges_in succs `` fin \<subseteq> fin \<and> acyclic (edges_in succs \<inter> fin \<times> fin) \<and>
        opened (edges_in succs) fin {} stack)"

lemma acyclic_insert_source:
  assumes "acyclic (E \<inter> F \<times> F)" and "E `` F \<subseteq> F" and "x \<notin> F" and "E `` {x} \<subseteq> F"
  shows "acyclic (E \<inter> insert x F \<times> insert x F)"
proof (rule acyclicI, intro allI notI)
  let ?G = "E \<inter> insert x F \<times> insert x F"
  have stay: "(a, b) \<in> (E \<inter> F \<times> F)\<^sup>+ \<and> b \<in> F" if "(a, b) \<in> ?G\<^sup>+" "a \<in> F" for a b
    using that
  proof (induction rule: trancl_induct)
    case (base b)
    then have "b \<in> F" using assms(2) by blast
    with base show ?case by blast
  next
    case (step b c)
    then have "c \<in> F" using assms(2) by blast
    with step show ?case by (meson IntI SigmaI IntD1 trancl.trancl_into_trancl)
  qed
  fix a assume a: "(a, a) \<in> ?G\<^sup>+"
  have "a \<in> F"
  proof -
    from a obtain b where b: "(a, b) \<in> ?G" "(b, a) \<in> ?G\<^sup>*" by (blast dest: tranclD)
    then have "b \<in> F" using assms(2,4) by blast
    with b(2) stay show ?thesis by (auto simp: rtrancl_eq_or_trancl)
  qed
  with stay [OF a] assms(1) show False by (auto simp: acyclic_def)
qed

lemma stack_path:
  assumes "successively (\<lambda>x y. (y, x) \<in> E) (x # xs)" and "y \<in> set (x # xs)"
  shows "(y, x) \<in> E\<^sup>*"
  using assms
proof (induction xs arbitrary: x)
  case (Cons z zs)
  then show ?case by (auto intro: rtrancl_into_rtrancl)
qed simp

lemma search_finish:
  assumes "search_inv succs ((node, []) # stack) fin found"
  shows "search_inv succs stack (insert node fin) found"
proof -
  let ?E = "edges_in succs"
  have "edges_in succs `` insert node fin \<subseteq> insert node fin \<and> acyclic (?E \<inter> insert node fin \<times> insert node fin) \<and>
      opened ?E (insert node fin) {} stack" if "found = []"
  proof -
    from that assms have f: "?E `` fin \<subseteq> fin" "acyclic (?E \<inter> fin \<times> fin)" "?E `` {node} \<subseteq> fin" "opened ?E fin {node} stack" "node \<notin> fin"
      by (auto simp: search_inv_def)
    then show ?thesis using acyclic_insert_source [OF f(2,1,5,3)] opened_mono [OF f(4), of "insert node fin" "{}"] by auto
  qed
  with assms show ?thesis by (cases stack) (simp_all add: search_inv_def)
qed

lemma search_skip:
  assumes "search_inv succs ((node, n # rest) # stack) fin found" and "n \<in> fin"
  shows "search_inv succs ((node, rest) # stack) fin found"
  using assms by (auto simp: search_inv_def)

lemma search_back:
  assumes "search_inv succs ((node, n # rest) # stack) fin found" and "n \<in> fst ` set ((node, n # rest) # stack)"
  shows "search_inv succs ((node, rest) # stack) fin (found @ [(node, n)])"
proof -
  have "(n, node) \<in> (edges_in succs)\<^sup>*"
    by (rule stack_path [of _ _ "map fst stack"]) (use assms in \<open>auto simp: search_inv_def\<close>)
  with assms(1) show ?thesis by (auto simp: search_inv_def)
qed

lemma search_push:
  assumes "search_inv succs ((node, n # rest) # stack) fin found" and "n \<notin> fst ` set ((node, n # rest) # stack)"
    and "n \<notin> fin" and "dict_get succs n = Some ss"
  shows "search_inv succs ((n, ss) # (node, rest) # stack) fin found"
proof -
  let ?E = "edges_in succs"
  have "?E `` {n} = set ss" using assms(4) by (auto simp: edges_in_def)
  moreover have "(node, n) \<in> ?E" "(0, node) \<in> ?E\<^sup>*" using assms(1) by (auto simp: search_inv_def)
  moreover have "opened ?E fin {n} ((node, rest) # stack)" if "found = []"
  proof -
    have "?E `` {node} \<subseteq> set (n # rest) \<union> fin" "opened ?E fin {node} stack" using that assms(1) by (simp_all add: search_inv_def)
    then show ?thesis using opened_mono [of ?E fin "{node}" stack fin "{node, n}"] by auto
  qed
  ultimately show ?thesis using assms(1-3) by (auto simp: search_inv_def intro: rtrancl_into_rtrancl)
qed

lemma back_loop_inv:
  assumes "\<And>u v. (u, v) \<in> edges_in succs \<Longrightarrow> dict_get succs v \<noteq> None"
  shows "search_inv succs stack fin found \<Longrightarrow> \<exists>fin'. search_inv succs [] fin' (back_loop succs stack fin found)"
  using assms
proof (induction succs stack fin found rule: back_loop.induct)
  case (2 succs node stack fin found)
  from 2 search_finish [OF 2(2)] show ?case by simp
next
  case (3 succs node n rest stack fin found)
  have "(node, n) \<in> edges_in succs" using 3(4) by (auto simp: search_inv_def)
  then obtain ss where ss: "dict_get succs n = Some ss" using 3(5) by blast
  consider "n \<in> fst ` set ((node, n # rest) # stack)" | "n \<notin> fst ` set ((node, n # rest) # stack)" "n \<in> fin"
    | "n \<notin> fst ` set ((node, n # rest) # stack)" "n \<notin> fin" by blast
  then show ?case
  proof cases
    case 1
    with 3(1) [OF 1 search_back [OF 3(4) 1] 3(5)] show ?thesis by simp
  next
    case 2
    with 3(3) [OF 2(1) _ search_skip [OF 3(4) 2(2)] 3(5)] show ?thesis by simp
  next
    case new: 3
    have "\<exists>fin'. search_inv succs [] fin' (back_loop succs ((n, the (dict_get succs n)) # (node, rest) # stack) fin found)"
      using 3(2) [OF new(1) _ _ 3(5)] new(2) ss search_push [OF 3(4) new ss] by simp
    with new ss show ?thesis by simp
  qed
qed auto

section \<open>The graph of the facts\<close>

lemma succ_table_get:
  assumes "\<And>k. k < length bfs \<Longrightarrow> f_num (bfs ! k) = k"
  shows "dict_get (succ_table bfs) k = (if k < length bfs then Some (succs_of (bfs ! k)) else None)"
  using assms
proof (induction bfs arbitrary: k rule: rev_induct)
  case (snoc b bfs)
  have "f_num b = length bfs" using snoc.prems [of "length bfs"] by simp
  moreover have "f_num (bfs ! k) = k" if "k < length bfs" for k using snoc.prems [of k] that by (simp add: nth_append)
  ultimately show ?case using snoc.IH by (auto simp: succ_table_def nth_append)
qed (simp add: succ_table_def)

lemma succs_of_fact: "set (succs_of (block_fact_of names b)) = set (successors b)"
  by (auto simp: succs_of_def block_fact_of_def successors_def map_filter_def split: option.splits)

lemma fact_edges:
  assumes "\<And>k. k < length blocks \<Longrightarrow> b_num (blocks ! k) = k" and "wf_graph blocks"
  shows "edges_in (succ_table (map (block_fact_of names) blocks)) = flow_of blocks"
    and "(u, v) \<in> flow_of blocks \<Longrightarrow> dict_get (succ_table (map (block_fact_of names) blocks)) v \<noteq> None"
proof -
  have num: "f_num (map (block_fact_of names) blocks ! k) = k" if "k < length (map (block_fact_of names) blocks)" for k
    using that assms(1) by (simp add: block_fact_of_def)
  have get: "dict_get (succ_table (map (block_fact_of names) blocks)) k =
      (if k < length blocks then Some (succs_of (block_fact_of names (blocks ! k))) else None)" for k
    by (subst succ_table_get) (use num in simp_all)
  show "edges_in (succ_table (map (block_fact_of names) blocks)) = flow_of blocks"
    by (auto simp: edges_in_def blocks.flow_def get succs_of_fact split: if_splits)
  show "(u, v) \<in> flow_of blocks \<Longrightarrow> dict_get (succ_table (map (block_fact_of names) blocks)) v \<noteq> None"
    using assms(2) by (auto simp: get blocks.flow_def wf_graph_def)
qed

lemma back_edges_lemma:
  fixes names :: "(int \<times> string) list"
  assumes num: "\<And>k. k < length blocks \<Longrightarrow> b_num (blocks ! k) = k" and wf: "wf_graph blocks" and ne: "blocks \<noteq> []"
  defines "found \<equiv> back_edges (map (block_fact_of names) blocks)" and "live \<equiv> (flow_of blocks)\<^sup>* `` {0}"
  shows "(found = [] \<longleftrightarrow> acyclic (flow_of blocks \<inter> live \<times> live)) \<and>
    (\<forall>(u, v) \<in> set found. (u, v) \<in> flow_of blocks \<and> (v, u) \<in> (flow_of blocks)\<^sup>* \<and> u \<in> live)"
proof -
  let ?E = "flow_of blocks" and ?t = "succ_table (map (block_fact_of names) blocks)"
  have fe: "edges_in ?t = ?E" by (rule fact_edges(1) [OF _ wf]) (rule num)
  have defined: "dict_get ?t v \<noteq> None" if "(u, v) \<in> edges_in ?t" for u v
    by (rule fact_edges(2) [OF _ wf that [unfolded fe]]) (rule num)
  have "dict_get ?t 0 \<noteq> None"
    by (subst succ_table_get) (use num ne in \<open>simp_all add: block_fact_of_def\<close>)
  then obtain ss where ss: "dict_get ?t 0 = Some ss" by blast
  then have "edges_in ?t `` {0} = set ss" by (auto simp: edges_in_def)
  then have start: "search_inv ?t [(0, ss)] {} []" by (simp add: search_inv_def acyclic_def)
  have fd: "found = back_loop ?t [(0, ss)] {} []" by (simp add: found_def back_edges_def Let_def ss)
  have "\<exists>fin. search_inv ?t [] fin found" unfolding fd by (rule back_loop_inv [OF _ start]) (rule defined)
  then obtain fin where fin: "search_inv ?t [] fin found" by blast
  then have all: "\<forall>(u, v) \<in> set found. (u, v) \<in> ?E \<and> (v, u) \<in> ?E\<^sup>* \<and> u \<in> live"
    by (auto simp: search_inv_def fe live_def)
  have "acyclic (?E \<inter> live \<times> live)" if "found = []"
  proof -
    have c: "?E `` fin \<subseteq> fin" "acyclic (?E \<inter> fin \<times> fin)" "0 \<in> fin" using fin that by (simp_all add: search_inv_def fe)
    have "live \<subseteq> fin"
    proof
      fix x assume "x \<in> live"
      then have "(0, x) \<in> ?E\<^sup>*" by (simp add: live_def)
      then show "x \<in> fin" by (induction rule: rtrancl_induct) (use c in auto)
    qed
    then show ?thesis by (intro acyclic_subset [OF c(2)]) blast
  qed
  moreover have "\<not> acyclic (?E \<inter> live \<times> live)" if "found \<noteq> []"
  proof -
    from that have "hd found \<in> set found" by simp
    with all obtain u v where uv: "(u, v) \<in> ?E" "(v, u) \<in> ?E\<^sup>*" "u \<in> live" by (cases "hd found") auto
    have stay: "(u, x) \<in> (?E \<inter> live \<times> live)\<^sup>+ \<and> x \<in> live" if "(u, x) \<in> ?E\<^sup>+" for x
      using that
    proof (induction rule: trancl_induct)
      case (base y)
      then have "y \<in> live" using uv(3) by (auto simp: live_def)
      with base uv(3) show ?case by blast
    next
      case (step y w)
      then have "w \<in> live" by (auto simp: live_def)
      with step show ?case by (meson IntI SigmaI trancl.trancl_into_trancl)
    qed
    have "(u, u) \<in> ?E\<^sup>+" using uv by (simp add: rtrancl_into_trancl2)
    with stay show ?thesis by (auto simp: acyclic_def)
  qed
  ultimately show ?thesis using all by blast
qed

lemma region_step_graph:
  assumes "efoldl collect_region (maps, bfs) rs = Inr (maps', bfs')"
  shows "length bfs' = length bfs \<and> (\<forall>k < length bfs. f_num (bfs' ! k) = f_num (bfs ! k) \<and> succs_of (bfs' ! k) = succs_of (bfs ! k))"
  using assms
proof (induction rs arbitrary: maps bfs)
  case (Cons r rs)
  then obtain m1 b1 where r: "collect_region (maps, bfs) r = Inr (m1, b1)" "efoldl collect_region (m1, b1) rs = Inr (maps', bfs')"
    by (auto simp: ebind_eq_Inr)
  have "length b1 = length bfs \<and> (\<forall>k < length bfs. f_num (b1 ! k) = f_num (bfs ! k) \<and> succs_of (b1 ! k) = succs_of (bfs ! k))"
    using r(1) by (auto simp: collect_region_def Let_def succs_of_def nth_list_update split: if_splits option.splits)
  with Cons.IH [OF r(2)] show ?case by simp
qed simp

lemma succ_table_same:
  assumes "length bfs' = length bfs" and "\<forall>k < length bfs. f_num (bfs' ! k) = f_num (bfs ! k) \<and> succs_of (bfs' ! k) = succs_of (bfs ! k)"
  shows "back_edges bfs' = back_edges bfs"
proof -
  have "map (\<lambda>b. (f_num b, succs_of b)) bfs' = map (\<lambda>b. (f_num b, succs_of b)) bfs"
    using assms by (intro nth_equalityI) simp_all
  then have "foldl (\<lambda>d (k, ss). dict_set k ss d) [] (map (\<lambda>b. (f_num b, succs_of b)) bfs') =
      foldl (\<lambda>d (k, ss). dict_set k ss d) [] (map (\<lambda>b. (f_num b, succs_of b)) bfs)" by simp
  then have "succ_table bfs' = succ_table bfs" by (simp add: succ_table_def foldl_map)
  then show ?thesis by (simp add: back_edges_def)
qed

section \<open>Claims\<close>

text \<open>
  Claim C39.  The report on cycles is exact: a program is called acyclic exactly when the part of its block
  graph that is reachable from the entry has no cycle, and every back edge listed is an edge of a reachable
  block that closes one.
\<close>

theorem cycle_report_exact:
  assumes "analyze_program elf_of path main_func tails = Inr prog" and "collect_facts prog = Inr f"
  shows "(acyclic_facts f \<longleftrightarrow> acyclic (flow_within (g_blocks prog) ((flow_of (g_blocks prog))\<^sup>* `` {0}))) \<and>
    (\<forall>(u, v) \<in> set (pf_back_edges f). (u, v) \<in> flow_of (g_blocks prog) \<and> (v, u) \<in> (flow_of (g_blocks prog))\<^sup>* \<and>
       (0, u) \<in> (flow_of (g_blocks prog))\<^sup>*)"
proof -
  let ?bfs = "map (block_fact_of (map_names_of (g_maps prog))) (g_blocks prog)"
  obtain maps maps' bfs' where r: "efoldl collect_region (maps, ?bfs) (g_progs prog) = Inr (maps', bfs')" "pf_back_edges f = back_edges bfs'"
    using assms(2) by (auto simp: collect_facts_def Let_def ebind_eq_Inr)
  have e: "pf_back_edges f = back_edges ?bfs" using succ_table_same region_step_graph [OF r(1)] r(2) by metis
  note g = analyze_program_graph [OF assms(1)]
  have "flow_within (g_blocks prog) L = flow_of (g_blocks prog) \<inter> L \<times> L" for L by (auto simp: blocks.flow_in_def)
  then show ?thesis
    using back_edges_lemma [OF _ g(1,2), of "map_names_of (g_maps prog)"] g(5) by (simp add: acyclic_facts_def e)
qed

theorem cycle_report_exact_witness:
  "\<exists>prog f. analyze_program (\<lambda>_. ret_elf) ''a.o'' ''prog'' [] = Inr prog \<and> collect_facts prog = Inr f \<and>
     acyclic (flow_within (g_blocks prog) ((flow_of (g_blocks prog))\<^sup>* `` {0}))"
proof -
  have "case analyze_program (\<lambda>_. ret_elf) ''a.o'' ''prog'' [] of Inl e \<Rightarrow> False
    | Inr prog \<Rightarrow> (case collect_facts prog of Inl e \<Rightarrow> False | Inr f \<Rightarrow> acyclic_facts f)"
    by code_simp
  then obtain prog f where p: "analyze_program (\<lambda>_. ret_elf) ''a.o'' ''prog'' [] = Inr prog" "collect_facts prog = Inr f" "acyclic_facts f"
    by (auto split: sum.splits)
  with cycle_report_exact [OF p(1,2)] show ?thesis by blast
qed

end
