(* ===== verification/Scaffold.thy ===== *)
theory Scaffold
  imports Facts
begin

text \<open>
  The policy skeleton of \<open>hornet/report/scaffold.py\<close>, written from the facts of a program.  Keys that
  begin with an underscore are annotations; their texts are arguments: \<open>ann key\<close> at the top and in
  the input and the exits, \<open>notes b\<close> the annotations of a block (\<open>_cfg\<close>, \<open>_when_taken\<close>, \<open>_reads\<close> and so on).
\<close>

section \<open>The document\<close>










section \<open>The skeleton is a policy\<close>












section \<open>The conditions it proposes\<close>
















section \<open>Claims\<close>



end
