(* ===== verification/Spec2Isabelle.thy ===== *)
theory Spec2Isabelle
  imports
    Link Tail_Args Loader Cfg Prune
    Encode_Mem Atoms Regions Memory Replay_Path
    Block_State Merge Stack Tracker_Alu Tracker_Branch Tracker_Frame Tracker_Access Block_Exec
    Reach Forward_Reach Checker_Exact
    Spec_Values Spec_Types Spec_Input
    Program Witness Facts Scaffold
begin

text \<open>
  HorNET (\<open>src/hornet\<close>) decides questions about eBPF/XDP programs.  It loads an object file and its
  tail-call targets, links them into one instruction list, cuts that into basic blocks, executes every
  block once symbolically, and asks Z3 whether the conditions of a policy hold at blocks or at exits.
  This development models that pipeline from the bytes of the object file to the exit code, and proves
  that what it reports is what the program does, stage by stage and for the composition.

  \<^bold>\<open>The parts, and where they are\<close>

  Paths are under \<open>src/hornet\<close>.  Definitions keep the names of the code; a method of a class is a
  function of the record that stands for the object.

  \<^item> \<open>Prelude\<close>: Python exceptions (\<open>error\<close>), results that may raise (\<open>'a res\<close> is \<open>error + 'a\<close>,
    sequenced by \<open>ebind\<close>; loops \<open>efoldl\<close>, \<open>emap\<close>), dictionaries in insertion order, bytes, masks.
    \<open>Py_Text\<close>: the text and number operations of Python the policy reader uses.
  \<^item> \<open>Constants\<close>, \<open>Instr\<close>: \<open>bpf/constants.py\<close> and \<open>bpf/instr.py\<close>; opcodes, \<open>arith\<close>, the record \<open>instr\<close>,
    decoding (\<open>decode_instr\<close>, \<open>decode_text\<close>) and predicates.  \<open>Isa\<close> is the specification: the
    instruction set on machine words.
  \<^item> \<open>Loader\<close>: \<open>bpf/loader.py\<close>; sections, BTF types, map tables, symbols, relocations, \<open>decode_binary\<close>.
    The ELF file is the record \<open>elf_file\<close> of what pyelftools returns.
  \<^item> \<open>Link\<close>, \<open>Tail_Args\<close>: \<open>bpf/link.py\<close>; merging maps, globals and read-only data, laying out the
    programs (\<open>link\<close>), checking the targets, and the \<open>--tail\<close> arguments.
  \<^item> \<open>Cfg\<close>, \<open>Prune\<close>, \<open>Reach\<close>: \<open>bpf/cfg.py\<close> and \<open>verify/prune.py\<close>; blocks and edges (\<open>build_cfg\<close>), the
    schedule of the tracker, searches, topological order, ancestors, and the reachability conditions
    (\<open>analyze\<close>).
  \<^item> \<open>Expr\<close>: \<open>track/expr.py\<close>; the symbolic values \<open>val\<close>, equality, folding.  \<open>Smt\<close> is the interface to
    Z3.  \<open>Encode\<close>, \<open>Encode_Alu\<close>, \<open>Encode_Mem\<close>: \<open>track/encode.py\<close>; the state \<open>z3_state\<close>, values
    (\<open>expr_to_z3\<close>), branch conditions (\<open>cond_to_z3\<close>) and actions (\<open>action_to_z3\<close>) as terms.
  \<^item> \<open>Block_State\<close>, \<open>Merge\<close>, \<open>Stack\<close>: \<open>track/block.py\<close>; the record \<open>tblock\<close>, the merge of the
    predecessors, stack slots, pointer facts.  \<open>Tracker\<close> and the theories \<open>Tracker_*\<close>:
    \<open>track/tracker.py\<close>; one function per instruction class and helper, \<open>track_block\<close>, and the run
    \<open>track\<close>, in both passes.
  \<^item> \<open>Machine\<close>, \<open>Block_Types\<close>, \<open>Block_Exec\<close>: a specification, as \<open>Isa\<close> is.  A machine with a memory of
    bytes, and a static discipline of words and pointers, against which the tracking of whole blocks
    is measured.
  \<^item> \<open>Memory\<close>, \<open>Replay\<close>, \<open>Replay_Read\<close>, \<open>Replay_Path\<close>: \<open>track/record.py\<close> and \<open>verify/slice.py\<close>; the reads
    answered from the recorded writes.  \<open>Regions\<close>, \<open>Forward\<close>, \<open>Forward_Reach\<close>: \<open>verify/forward.py\<close>;
    relevance, folding, and the forward pass (\<open>walk\<close>, \<open>forward_context\<close>).
  \<^item> \<open>Atoms\<close>, \<open>Spec_Parse\<close>, \<open>Spec_Values\<close>, \<open>Spec_Types\<close>, \<open>Spec_Input\<close>: \<open>verify/spec.py\<close>; the atoms and
    trees of conditions and their terms, the reader of policies, and the initial state of an input.
  \<^item> \<open>Checker\<close>, \<open>Checker_Exact\<close>: \<open>verify/checker.py\<close>; queries and verdicts.  \<open>Witness\<close>:
    \<open>verify/witness.py\<close>; what a model says.  \<open>Program\<close>: \<open>program.py\<close> and the exit code of \<open>cli.py\<close>; the
    composition of all stages.  \<open>Facts\<close>, \<open>Scaffold\<close>: \<open>report/facts.py\<close> and \<open>report/scaffold.py\<close>; what is
    collected about a program, and the policy skeleton written from it.
\<close>

text \<open>
  \<^bold>\<open>How the parts interact\<close>

  \<open>decode_program\<close> loads the main object and the tails and links them; \<open>track_program\<close> builds the block
  graph and tracks it; \<open>analyze_program\<close> is both.  Tracking leaves in each \<open>tblock\<close> the values read
  (\<open>t_sources\<close>), the actions in program order (\<open>t_actions\<close>) and the conditions of the branch, and in
  the whole run the table of helper calls.  \<open>load_spec\<close> reads a policy against these.
  \<open>forward_context\<close> walks the blocks in topological order with a \<open>z3_state\<close>: merge of the predecessors
  under the conditions of the edges, then sources and actions by their position.  Reads of folded
  regions are answered by \<open>Memory\<close>, joins by \<open>Phis\<close>.  \<open>check_policy\<close> encodes each condition in the state
  at its block, asks the solver, and \<open>build_witness\<close> reads the model.

  \<^bold>\<open>What the lemmas show\<close>

  \<^item> Terms mean what they should: widths and values of arithmetic, comparisons, memory and map
    operations, in every state and under every assignment (\<open>Encode_Alu\<close>, \<open>Encode_Mem\<close>, \<open>Atoms\<close>).
  \<^item> The tracker computes the instruction set on registers and stack (\<open>Tracker_Alu\<close>, \<open>Stack\<close>) and
    follows the machine through the arithmetic, loads, stores and final jump of a block
    (\<open>Block_Exec\<close>; blocks that call helpers, write the packet or a map, or go through pointers to map
    values or globals are outside its discipline), puts right facts on edges, except for a null test with
    the constant first (\<open>Tracker_Branch\<close>), refuses unchecked accesses (\<open>Tracker_Access\<close>), keeps the
    graph and the order of actions, and visits every block once (\<open>Tracker_Frame\<close>).  These rest on the
    locale \<open>kept\<close> (relations that every step of the state transformer preserves), interpreted three
    times on the model.
  \<^item> Graph algorithms: the locale \<open>flow_graph\<close> holds the theory of searches, cycles and orders over
    an abstract graph and is interpreted on the block list (\<open>blocks\<close>) in \<open>Prune\<close>.
  \<^item> Reachability conditions, folded reads and the forward pass follow the path an assignment takes
    (\<open>Reach\<close>, \<open>Replay_Path\<close>, \<open>Forward_Reach\<close>; folded reads where the blocks are numbered so that ancestors
    come first); verdicts and return values are exact (\<open>Checker_Exact\<close>).  The verdicts are those of conditions
    of every kind, helper results and reads included, whose atoms can be encoded in the state they are
    checked in (\<open>regular_atom\<close> of \<open>Atoms\<close>: the values they name have terms, the constants fit, a condition on
    the packet length has a bound); what such a condition says there is \<open>atom_holds\<close>.
  \<^item> Accepted policies are well formed and input states exact (\<open>Spec_Types\<close>, \<open>Spec_Input\<close>); loading
    and linking keep the code (\<open>Loader\<close>, \<open>Link\<close>).
  \<^item> The composition, from object files to the exit code, is in \<open>Program\<close>; the explanation of a
    violation in \<open>Witness\<close>; reports and scaffold in \<open>Facts\<close> and \<open>Scaffold\<close>.
  \<^item> Where the code does not do what it means to, a lemma shows the behaviour on a concrete input
    (the order of the folded writes, an undecided query) or is part of the statement (a null test with the
    constant first, an empty \<open>or\<close>, a global no object covers).
\<close>

text \<open>
  \<^bold>\<open>Parameters and what is relied on\<close>

  \<^item> Z3.  A call of one of its constructors builds a node of the datatypes \<open>bvt\<close>, \<open>bt\<close>, \<open>avt\<close>, \<open>abt\<close>;
    what the code asks of a term is the record \<open>z3_queries\<close>.  The locale \<open>smtlib\<close> states the widths of
    the API and the SMT-LIB meaning of each constructor under an assignment; its interpretation
    \<open>eval\<close> on an evaluator shows the laws can hold, and the properties are applied to it.
    \<open>simplify\<close>, and \<open>is\<close> on keys and terms, are fields of \<open>fwd_params\<close>; \<open>check\<close> and \<open>model\<close> are the
    record \<open>solver\<close>, \<open>solver_ok\<close> says that answers are given and right.
  \<^item> pyelftools (\<open>elf_file\<close>), the opening of files (\<open>elf_of\<close>), Scapy (\<open>scapy_eval\<close>, the layers and the
    bytes \<open>addfield\<close> writes), and the texts of annotations in the scaffold.

  \<^bold>\<open>Bounds and fuel\<close>

  Loops whose recursion is not structural have termination proofs (\<open>topo_loop\<close>, \<open>track_loop\<close>,
  \<open>region_loop\<close>, \<open>back_loop\<close>, \<open>path_from\<close>, \<open>decode_text\<close>, \<open>parse_types\<close>, \<open>parse_cond\<close>).  Fuel is used in
  four places, and running out of it is Python's recursion error.

  \<^item> \<open>merge_entry_n\<close>: one more than the number of entries; enough, by a measure on the entries
    (\<open>Merge\<close>).
  \<^item> \<open>present_n\<close>: \<open>mem_depth\<close>, one more than the number of recorded presence writes; each level looks
    only at writes before the one above, so it is never used up (\<open>Replay_Path\<close>).
  \<^item> \<open>btf_size_n\<close>: one more than the number of BTF types; a chain of types that is longer repeats one,
    and there the code does not return either.
  \<^item> \<open>hooked\<close>: the readers of the forward state call the encoder again; \<open>fp_depth\<close> is the interpreter's
    recursion limit and is arbitrary.  The theorems about runs speak of runs that succeed at the
    given depth; the witnesses run at depth 4.

  \<^bold>\<open>Not modelled\<close>

  \<^item> Printing: \<open>__str__\<close>, \<open>report/render.py\<close>, the texts inside facts and annotations, the stages of
    \<open>verify/witness.py\<close>, verbose and log output.  Messages of exceptions are tags.
  \<^item> \<open>cli.py\<close> but for the exit code: argument parsing; timings; the benchmarks, which run processes.
  \<^item> \<open>track/dce.py\<close>: imported by the tracker, never called, and working by reflection on objects.
    \<open>verify/cost.py\<close>: counts the shared nodes of Z3's terms, for the benchmarks.
  \<^item> The ablation switch \<open>resolve_values=False\<close> of \<open>ForwardContext\<close>, which \<open>checker.py\<close> never sets.
  \<^item> JSON numbers with a fraction, text outside ASCII, bounds of a length atom given as text, and
    CPython's limit on the digits of \<open>int(s)\<close>.
  \<^item> Caches (the memo of the encoder, of \<open>Memory\<close> and of \<open>Phis\<close>), which only save work; object identity
    is modelled where a result depends on it (\<open>Block_State\<close>).
\<close>

end
